(* ===== verification/Dogmos_Prelude.thy ===== *)
theory Dogmos_Prelude
  imports Main "HOL-Library.Word"
begin

text \<open>
  Shared vocabulary of the development: the Rust integer types as machine words, the outcome of
  a fallible Rust function (\<open>Ok\<close>, \<open>Err\<close>, or a panic), the generational handles that every
  component passes around, and the list, option and word lemmas the components share.

  A panic (an index out of range, an \<open>expect\<close> on \<open>None\<close>, an arithmetic underflow) is the third
  outcome \<open>Panic\<close>, so that a claim that some code never panics is a statement of the model.
\<close>

unbundle bit_operations_syntax

section \<open>Machine integers\<close>

type_synonym u8 = "8 word"
type_synonym u16 = "16 word"
type_synonym u32 = "32 word"
type_synonym u64 = "64 word"

definition u32_max :: nat where
  "u32_max = 4294967295"

text \<open>\<open>u32::try_from\<close>, \<open>as u32\<close> and \<open>checked_add\<close> of the standard library.\<close>

definition u32_try_from :: "nat \<Rightarrow> u32 option" where
  "u32_try_from n = (if n \<le> u32_max then Some (word_of_nat n) else None)"

definition checked_add :: "'a::len word \<Rightarrow> 'a word \<Rightarrow> 'a word option" where
  "checked_add a b = (if unat a + unat b < 2 ^ LENGTH('a) then Some (a + b) else None)"

lemma unat_less_2p: "unat w < 2 ^ LENGTH('a)" for w :: "'a::len word"
  by (rule unsigned_less)

lemma checked_add_SomeD:
  fixes a b c :: "'a::len word"
  assumes "checked_add a b = Some c"
  shows "unat c = unat a + unat b"
  using assms by (auto simp: checked_add_def unat_word_ariths split: if_splits)

lemma u32_try_from_SomeD: "u32_try_from n = Some w \<Longrightarrow> unat w = n"
  by (auto simp: u32_try_from_def u32_max_def unat_of_nat take_bit_nat_eq_self split: if_splits)

lemma u32_try_from_NoneD: "u32_try_from n = None \<Longrightarrow> u32_max < n"
  by (auto simp: u32_try_from_def split: if_splits)

lemma unat_u32_le_max: "unat (w :: u32) \<le> u32_max"
  using unat_less_2p [of w] by (simp add: u32_max_def)

lemma checked_add_one_None:
  fixes a :: "'a::len word"
  assumes "checked_add a 1 = None"
  shows "a = - 1"
proof -
  have "2 ^ LENGTH('a) \<le> unat a + 1"
    using assms by (auto simp: checked_add_def split: if_splits)
  with unat_less_2p [of a] have "unat a = 2 ^ LENGTH('a) - 1"
    by linarith
  then have "unat a = unat (- 1 :: 'a word)"
    by (simp add: unsigned_minus_1_eq_mask mask_eq_exp_minus_1)
  then show ?thesis by (simp add: word_unat_eq_iff)
qed

section \<open>Outcomes of Rust functions\<close>

datatype ('a, 'e) result = Ok 'a | Err 'e | Panic

primrec rbind :: "('a, 'e) result \<Rightarrow> ('a \<Rightarrow> ('b, 'e) result) \<Rightarrow> ('b, 'e) result" where
  "rbind (Ok x) f = f x"
| "rbind (Err e) f = Err e"
| "rbind Panic f = Panic"

primrec map_err :: "('e \<Rightarrow> 'f) \<Rightarrow> ('a, 'e) result \<Rightarrow> ('a, 'f) result" where
  "map_err g (Ok x) = Ok x"
| "map_err g (Err e) = Err (g e)"
| "map_err g Panic = Panic"

primrec ok_or :: "'a option \<Rightarrow> 'e \<Rightarrow> ('a, 'e) result" where
  "ok_or None e = Err e"
| "ok_or (Some x) e = Ok x"

text \<open>A \<open>for\<close> loop that pushes one decoded element per iteration and stops at the first error.\<close>

fun rmap :: "('i \<Rightarrow> ('a, 'e) result) \<Rightarrow> 'i list \<Rightarrow> ('a list, 'e) result" where
  "rmap f [] = Ok []"
| "rmap f (i # is) = rbind (f i) (\<lambda>x. rbind (rmap f is) (\<lambda>xs. Ok (x # xs)))"

text \<open>A \<open>for\<close> loop that only checks.\<close>

fun rforeach :: "('i \<Rightarrow> (unit, 'e) result) \<Rightarrow> 'i list \<Rightarrow> (unit, 'e) result" where
  "rforeach f [] = Ok ()"
| "rforeach f (i # is) = rbind (f i) (\<lambda>_. rforeach f is)"

lemma rbind_eq_Ok [simp]: "rbind m f = Ok y \<longleftrightarrow> (\<exists>x. m = Ok x \<and> f x = Ok y)"
  by (cases m) auto

lemma rbind_eq_Panic [simp]: "rbind m f = Panic \<longleftrightarrow> m = Panic \<or> (\<exists>x. m = Ok x \<and> f x = Panic)"
  by (cases m) auto

lemma rbind_eq_Err [simp]:
  "rbind m f = Err e \<longleftrightarrow> m = Err e \<or> (\<exists>x. m = Ok x \<and> f x = Err e)"
  by (cases m) auto

text \<open>Simplification evaluates the first computation before it looks at what follows it.\<close>

lemma rbind_weak_cong [cong]: "m = m' \<Longrightarrow> rbind m f = rbind m' f"
  by simp

lemma rbind_full_cong: "m = m' \<Longrightarrow> (\<And>x. f x = g x) \<Longrightarrow> rbind m f = rbind m' g"
  by (cases m) auto

lemma rbind_assoc: "rbind (rbind m f) g = rbind m (\<lambda>x. rbind (f x) g)"
  by (cases m) auto

lemma map_err_eq_Ok [simp]: "map_err g m = Ok x \<longleftrightarrow> m = Ok x"
  by (cases m) auto

lemma map_err_eq_Panic [simp]: "map_err g m = Panic \<longleftrightarrow> m = Panic"
  by (cases m) auto

lemma ok_or_eq_Ok [simp]: "ok_or m e = Ok x \<longleftrightarrow> m = Some x"
  by (cases m) auto

lemma ok_or_neq_Panic [simp]: "ok_or m e \<noteq> Panic"
  by (cases m) auto

lemma ok_or_eq_Err [simp]: "ok_or m e = Err e' \<longleftrightarrow> m = None \<and> e' = e"
  by (cases m) auto

lemma rmap_neq_Panic: "(\<And>i. i \<in> set is \<Longrightarrow> f i \<noteq> Panic) \<Longrightarrow> rmap f is \<noteq> Panic"
  by (induction "is") auto

lemma rmap_OkD: "rmap f is = Ok xs \<Longrightarrow> length xs = length is \<and> list_all2 (\<lambda>i x. f i = Ok x) is xs"
  by (induction "is" arbitrary: xs) auto

lemma rmap_OkI: "list_all2 (\<lambda>i x. f i = Ok x) is xs \<Longrightarrow> rmap f is = Ok xs"
  by (induction "is" arbitrary: xs) (auto simp: list_all2_Cons1)

lemma rmap_eq_Ok_iff: "rmap f is = Ok xs \<longleftrightarrow> list_all2 (\<lambda>i x. f i = Ok x) is xs"
  using rmap_OkD rmap_OkI by blast

lemma rmap_Ok_map [simp]: "rmap (\<lambda>x. Ok (f x)) xs = Ok (map f xs)"
  by (induction xs) simp_all

lemma rmap_cong_Ok [fundef_cong]:
  "is = js \<Longrightarrow> (\<And>i. i \<in> set js \<Longrightarrow> f i = g i) \<Longrightarrow> rmap f is = rmap g js"
proof (induction js arbitrary: "is")
  case (Cons j js)
  then have "rmap f js = rmap g js" by auto
  with Cons.prems show ?case by (cases "g j") simp_all
qed simp

lemma rforeach_neq_Panic: "(\<And>i. i \<in> set is \<Longrightarrow> f i \<noteq> Panic) \<Longrightarrow> rforeach f is \<noteq> Panic"
  by (induction "is") auto

lemma rforeach_eq_Ok: "rforeach f is = Ok () \<longleftrightarrow> (\<forall>i \<in> set is. f i = Ok ())"
  by (induction "is") auto

section \<open>Generational handles\<close>

text \<open>
  \<open>TurfHandle\<close> (metadata.rs) and \<open>MixtureHandle\<close> (numerics/diffusion.rs): a slot and the
  generation of its occupant. The derived \<open>Ord\<close> is lexicographic.
\<close>

datatype turf_handle = TurfHandle (th_slot: u32) (th_generation: u32)

datatype mixture_handle = MixtureHandle (mh_slot: u32) (mh_generation: u32)

instantiation turf_handle :: linorder
begin

definition less_eq_turf_handle :: "turf_handle \<Rightarrow> turf_handle \<Rightarrow> bool" where
  "less_eq_turf_handle a b \<longleftrightarrow>
     th_slot a < th_slot b \<or> th_slot a = th_slot b \<and> th_generation a \<le> th_generation b"

definition less_turf_handle :: "turf_handle \<Rightarrow> turf_handle \<Rightarrow> bool" where
  "less_turf_handle a b \<longleftrightarrow>
     th_slot a < th_slot b \<or> th_slot a = th_slot b \<and> th_generation a < th_generation b"

instance
  by standard (auto simp: less_eq_turf_handle_def less_turf_handle_def turf_handle.expand)

end

instantiation mixture_handle :: linorder
begin

definition less_eq_mixture_handle :: "mixture_handle \<Rightarrow> mixture_handle \<Rightarrow> bool" where
  "less_eq_mixture_handle a b \<longleftrightarrow>
     mh_slot a < mh_slot b \<or> mh_slot a = mh_slot b \<and> mh_generation a \<le> mh_generation b"

definition less_mixture_handle :: "mixture_handle \<Rightarrow> mixture_handle \<Rightarrow> bool" where
  "less_mixture_handle a b \<longleftrightarrow>
     mh_slot a < mh_slot b \<or> mh_slot a = mh_slot b \<and> mh_generation a < mh_generation b"

instance
  by standard (auto simp: less_eq_mixture_handle_def less_mixture_handle_def mixture_handle.expand)

end

section \<open>Vectors\<close>

lemma option_eqI: "(\<And>x. a = Some x \<longleftrightarrow> b = Some x) \<Longrightarrow> a = b"
  by (metis not_None_eq)

text \<open>\<open>Vec::get\<close> and \<open>Vec::resize\<close>.\<close>

definition vec_get :: "'a list \<Rightarrow> nat \<Rightarrow> 'a option" where
  "vec_get xs i = (if i < length xs then Some (xs ! i) else None)"

definition vec_resize :: "nat \<Rightarrow> 'a \<Rightarrow> 'a list \<Rightarrow> 'a list" where
  "vec_resize n x xs = take n xs @ replicate (n - length xs) x"

lemma vec_get_Some [simp]: "vec_get xs i = Some x \<longleftrightarrow> i < length xs \<and> xs ! i = x"
  by (simp add: vec_get_def)

lemma vec_get_None [simp]: "vec_get xs i = None \<longleftrightarrow> length xs \<le> i"
  by (simp add: vec_get_def not_less)

lemma vec_get_Nil [simp]: "vec_get [] i = None"
  by simp

lemma length_vec_resize [simp]: "length (vec_resize n x xs) = n"
  by (simp add: vec_resize_def)

lemma nth_vec_resize:
  "i < n \<Longrightarrow> vec_resize n x xs ! i = (if i < length xs then xs ! i else x)"
  by (auto simp: vec_resize_def nth_append)

section \<open>Runs of operations\<close>

text \<open>
  A component is a state with a step function over its operations. What every step keeps, every
  sequence of operations keeps.
\<close>

locale step_system =
  fixes step :: "'s \<Rightarrow> 'a \<Rightarrow> 's"
    and inv :: "'s \<Rightarrow> bool"
  assumes step_inv: "inv s \<Longrightarrow> inv (step s a)"
begin

lemma run_inv: "inv s \<Longrightarrow> inv (foldl step s ops)"
  by (induction ops arbitrary: s) (auto intro: step_inv)

end

text \<open>A quantity that no step decreases is not decreased by a run.\<close>

locale monotone_steps = step_system +
  fixes measure_of :: "'s \<Rightarrow> 'm::order"
  assumes step_mono: "inv s \<Longrightarrow> measure_of s \<le> measure_of (step s a)"
begin

lemma run_mono: "inv s \<Longrightarrow> measure_of s \<le> measure_of (foldl step s ops)"
proof (induction ops arbitrary: s)
  case (Cons op ops)
  have "measure_of s \<le> measure_of (step s op)"
    using Cons.prems by (rule step_mono)
  also have "\<dots> \<le> measure_of (foldl step (step s op) ops)"
    using Cons.prems by (intro Cons.IH step_inv)
  finally show ?case by simp
qed simp

end

text \<open>
  Keys that are issued, used and given up: a key that has been live and no longer is, is spent, and
  a spent key never becomes live again.
\<close>

locale single_use_keys = step_system +
  fixes live :: "'s \<Rightarrow> 'k \<Rightarrow> bool"
    and spent :: "'s \<Rightarrow> 'k \<Rightarrow> bool"
  assumes live_step: "inv s \<Longrightarrow> live s k \<Longrightarrow> live (step s a) k \<or> spent (step s a) k"
    and spent_step: "inv s \<Longrightarrow> spent s k \<Longrightarrow> spent (step s a) k"
    and spent_dead: "inv s \<Longrightarrow> spent s k \<Longrightarrow> \<not> live s k"
begin

lemma spent_run: "inv s \<Longrightarrow> spent s k \<Longrightarrow> spent (foldl step s ops) k"
  by (induction ops arbitrary: s) (auto intro: step_inv spent_step)

lemma live_run: "inv s \<Longrightarrow> live s k \<Longrightarrow> live (foldl step s ops) k \<or> spent (foldl step s ops) k"
proof (induction ops arbitrary: s)
  case (Cons op ops)
  from live_step [OF Cons.prems, of op] show ?case
    using Cons.IH [OF step_inv] spent_run [OF step_inv] Cons.prems(1) by auto
qed simp

lemma dead_stays_dead:
  assumes "inv s" and "live s k" and "\<not> live (foldl step s ops) k"
  shows "\<not> live (foldl step s (ops @ later)) k"
proof -
  have "spent (foldl step s ops) k" using live_run [OF assms(1,2)] assms(3) by blast
  then have "spent (foldl step s (ops @ later)) k" using spent_run run_inv [OF assms(1)] by simp
  then show ?thesis using spent_dead run_inv [OF assms(1)] by blast
qed

end

text \<open>\<open>Vec::pop\<close>.\<close>

definition vec_pop :: "'a list \<Rightarrow> ('a \<times> 'a list) option" where
  "vec_pop xs = (if xs = [] then None else Some (last xs, butlast xs))"

lemma vec_pop_None [simp]: "vec_pop xs = None \<longleftrightarrow> xs = []"
  by (simp add: vec_pop_def)

lemma vec_pop_Some [simp]: "vec_pop xs = Some (x, ys) \<longleftrightarrow> xs = ys @ [x]"
  by (auto simp: vec_pop_def)

text \<open>A loop over a state that stops at the first error.\<close>

fun rfold :: "('i \<Rightarrow> 's \<Rightarrow> ('s, 'e) result) \<Rightarrow> 'i list \<Rightarrow> 's \<Rightarrow> ('s, 'e) result" where
  "rfold f [] s = Ok s"
| "rfold f (i # is) s = rbind (f i s) (rfold f is)"

lemma rfold_inv:
  assumes "\<And>i s. i \<in> set is \<Longrightarrow> P s \<Longrightarrow> \<exists>s'. f i s = Ok s' \<and> P s'" and "P s"
  shows "\<exists>s'. rfold f is s = Ok s' \<and> P s'"
  using assms
proof (induction "is" arbitrary: s)
  case (Cons i "is")
  obtain s' where s': "f i s = Ok s'" "P s'" using Cons.prems by force
  have "\<exists>s''. rfold f is s' = Ok s'' \<and> P s''" using Cons s'(2) by simp
  then show ?case using s'(1) by simp
qed simp

lemma rfold_append: "rfold f (xs @ ys) s = rbind (rfold f xs s) (rfold f ys)"
proof (induction xs arbitrary: s)
  case (Cons x xs)
  then show ?case by (cases "f x s") simp_all
qed simp

lemma rfold_neq_Panic: "(\<And>i s. f i s \<noteq> Panic) \<Longrightarrow> rfold f is s \<noteq> Panic"
  by (induction "is" arbitrary: s) auto

end
