(* ===== verification/Topology.thy ===== *)
theory Topology
  imports Dogmos_Prelude
begin

text \<open>
  The packed turf topology of \<^verbatim>\<open>crates/dogmos-core/src/topology.rs\<close>: per turf slot two
  fixed arrays of at most six neighbors (gas and heat), kept as an occupied prefix sorted by
  handle, with a revision counter and two edge counters.

  The invariant is relative to the current generation of every slot (\<open>gen\<close>), since the rows
  store handles and the callers only pass handles that are current. Under it the topology is an
  undirected graph without self edges and of degree at most six, both ends of a gas edge agree
  on the firelock flag, the counters count the edges, and no operation panics.
\<close>

section \<open>Data\<close>

record topology_neighbor =
  tn_handle :: turf_handle
  tn_firelock :: bool

datatype topology_error =
  SelfEdge turf_handle | DegreeExceeded turf_handle | MissingGasEdge | AllocationFailed

type_synonym neighbor_row = "topology_neighbor option list"

definition max_turf_neighbors :: nat where
  "max_turf_neighbors = 6"

record topology_slot =
  ts_gas :: neighbor_row
  ts_heat :: neighbor_row

record packed_topology =
  pt_slots :: "topology_slot list"
  pt_revision :: u64
  pt_gas_edges :: nat
  pt_heat_edges :: nat

definition topology_slot_default :: topology_slot where
  "topology_slot_default =
     \<lparr>ts_gas = replicate max_turf_neighbors None, ts_heat = replicate max_turf_neighbors None\<rparr>"

definition packed_topology_default :: packed_topology where
  "packed_topology_default =
     \<lparr>pt_slots = [], pt_revision = 0, pt_gas_edges = 0, pt_heat_edges = 0\<rparr>"

section \<open>Rows\<close>

text \<open>\<open>slice::copy_within\<close> on a valid range.\<close>

definition copy_within :: "nat \<Rightarrow> nat \<Rightarrow> nat \<Rightarrow> 'a list \<Rightarrow> 'a list" where
  "copy_within start stop dest xs =
     take dest xs @ take (stop - start) (drop start xs) @ drop (dest + (stop - start)) xs"

definition flatten :: "'a option list \<Rightarrow> 'a list" where
  "flatten row = map the (filter (\<lambda>e. e \<noteq> None) row)"

definition insert_sorted :: "neighbor_row \<Rightarrow> topology_neighbor \<Rightarrow> (neighbor_row, topology_error) result" where
  "insert_sorted row n =
     (let count = length (takeWhile (\<lambda>e. e \<noteq> None) row);
          index = length (takeWhile (\<lambda>e. tn_handle (the e) < tn_handle n) (take count row))
      in if count < length row
         then Ok ((copy_within index count (index + 1) row)[index := Some n])
         else Panic)"

definition position :: "('a \<Rightarrow> bool) \<Rightarrow> 'a list \<Rightarrow> nat option" where
  "position p xs =
     (let i = length (takeWhile (\<lambda>x. \<not> p x) xs) in if i < length xs then Some i else None)"

definition remove_neighbor :: "neighbor_row \<Rightarrow> turf_handle \<Rightarrow> neighbor_row" where
  "remove_neighbor row h =
     (case position (\<lambda>e. case e of Some n \<Rightarrow> tn_handle n = h | None \<Rightarrow> False) row of
        None \<Rightarrow> row
      | Some index \<Rightarrow>
          (copy_within (index + 1) (length row) index row)[max_turf_neighbors - 1 := None])"

definition remove_neighbor_slot :: "neighbor_row \<Rightarrow> u32 \<Rightarrow> neighbor_row" where
  "remove_neighbor_slot row slot =
     (case position (\<lambda>e. case e of Some n \<Rightarrow> th_slot (tn_handle n) = slot | None \<Rightarrow> False) row of
        None \<Rightarrow> row
      | Some index \<Rightarrow>
          (copy_within (index + 1) (length row) index row)[max_turf_neighbors - 1 := None])"

section \<open>Operations\<close>

definition slot_row :: "bool \<Rightarrow> topology_slot \<Rightarrow> neighbor_row" where
  "slot_row heat s = (if heat then ts_heat s else ts_gas s)"

definition set_slot_row :: "bool \<Rightarrow> neighbor_row \<Rightarrow> topology_slot \<Rightarrow> topology_slot" where
  "set_slot_row heat row s = (if heat then s\<lparr>ts_heat := row\<rparr> else s\<lparr>ts_gas := row\<rparr>)"

definition gas_neighbors :: "packed_topology \<Rightarrow> turf_handle \<Rightarrow> topology_neighbor list" where
  "gas_neighbors t h =
     (case vec_get (pt_slots t) (unat (th_slot h)) of
        None \<Rightarrow> [] | Some s \<Rightarrow> flatten (ts_gas s))"

definition heat_neighbors :: "packed_topology \<Rightarrow> turf_handle \<Rightarrow> topology_neighbor list" where
  "heat_neighbors t h =
     (case vec_get (pt_slots t) (unat (th_slot h)) of
        None \<Rightarrow> [] | Some s \<Rightarrow> flatten (ts_heat s))"

definition gas_slot_edges :: "packed_topology \<Rightarrow> (u32 \<times> u32 \<times> bool) list" where
  "gas_slot_edges t =
     concat (map (\<lambda>(slot, entry).
        map (\<lambda>n. (word_of_nat slot, th_slot (tn_handle n), tn_firelock n))
          (filter (\<lambda>n. slot < unat (th_slot (tn_handle n))) (flatten (ts_gas entry))))
        (enumerate 0 (pt_slots t)))"

definition heat_slot_edges :: "packed_topology \<Rightarrow> (u32 \<times> u32) list" where
  "heat_slot_edges t =
     concat (map (\<lambda>(slot, entry).
        map (\<lambda>n. (word_of_nat slot, th_slot (tn_handle n)))
          (filter (\<lambda>n. slot < unat (th_slot (tn_handle n))) (flatten (ts_heat entry))))
        (enumerate 0 (pt_slots t)))"

definition neighbors_array ::
  "packed_topology \<Rightarrow> turf_handle \<Rightarrow> bool \<Rightarrow> (neighbor_row, topology_error) result" where
  "neighbors_array t h heat =
     (case vec_get (pt_slots t) (unat (th_slot h)) of
        None \<Rightarrow> Panic | Some s \<Rightarrow> Ok (slot_row heat s))"

text \<open>Writing through \<open>neighbors_array_mut\<close>, after the slot was found to exist.\<close>

definition set_neighbors_array ::
  "packed_topology \<Rightarrow> turf_handle \<Rightarrow> bool \<Rightarrow> neighbor_row \<Rightarrow> packed_topology" where
  "set_neighbors_array t h heat row =
     (let i = unat (th_slot h)
      in t\<lparr>pt_slots := (pt_slots t)[i := set_slot_row heat row (pt_slots t ! i)]\<rparr>)"

definition find_neighbor ::
  "packed_topology \<Rightarrow> turf_handle \<Rightarrow> turf_handle \<Rightarrow> bool \<Rightarrow> topology_neighbor option" where
  "find_neighbor t left right heat =
     (case vec_get (pt_slots t) (unat (th_slot left)) of
        None \<Rightarrow> None
      | Some s \<Rightarrow> find (\<lambda>n. tn_handle n = right) (flatten (slot_row heat s)))"

definition bump_revision :: "packed_topology \<Rightarrow> packed_topology" where
  "bump_revision t = t\<lparr>pt_revision := pt_revision t + 1\<rparr>"

text \<open>\<open>alloc n\<close>: whether the allocator can reserve \<open>n\<close> more slots.\<close>

definition ensure_slot ::
  "(nat \<Rightarrow> bool) \<Rightarrow> u32 \<Rightarrow> packed_topology \<Rightarrow> (unit, topology_error) result \<times> packed_topology" where
  "ensure_slot alloc slot t =
     (let required = unat slot + 1
      in if length (pt_slots t) < required
         then if alloc (required - length (pt_slots t))
              then (Ok (), t\<lparr>pt_slots := vec_resize required topology_slot_default (pt_slots t)\<rparr>)
              else (Err AllocationFailed, t)
         else (Ok (), t))"

definition all_some :: "'a option list \<Rightarrow> bool" where
  "all_some row = list_all (\<lambda>e. e \<noteq> None) row"

text \<open>Both halves of an edge are inserted; each \<open>expect\<close>ed array access is checked.\<close>

definition insert_edge ::
  "turf_handle \<Rightarrow> turf_handle \<Rightarrow> bool \<Rightarrow> packed_topology \<Rightarrow>
   (bool, topology_error) result \<times> packed_topology" where
  "insert_edge left right heat t =
     (case rbind (neighbors_array t left heat)
             (\<lambda>row. insert_sorted row \<lparr>tn_handle = right, tn_firelock = False\<rparr>) of
        Ok row \<Rightarrow>
          let t1 = set_neighbors_array t left heat row
          in (case rbind (neighbors_array t1 right heat)
                     (\<lambda>row. insert_sorted row \<lparr>tn_handle = left, tn_firelock = False\<rparr>) of
                Ok row \<Rightarrow> (Ok True, bump_revision (set_neighbors_array t1 right heat row))
              | _ \<Rightarrow> (Panic, t1))
      | _ \<Rightarrow> (Panic, t))"

definition connect ::
  "(nat \<Rightarrow> bool) \<Rightarrow> turf_handle \<Rightarrow> turf_handle \<Rightarrow> bool \<Rightarrow> packed_topology \<Rightarrow>
   (bool, topology_error) result \<times> packed_topology" where
  "connect alloc left right heat t =
     (if th_slot left = th_slot right then (Err (SelfEdge left), t)
      else case ensure_slot alloc (max (th_slot left) (th_slot right)) t of
        (Ok _, t) \<Rightarrow>
          if find_neighbor t left right heat \<noteq> None then (Ok False, t)
          else (case neighbors_array t left heat of
            Ok lrow \<Rightarrow>
              if all_some lrow then (Err (DegreeExceeded left), t)
              else (case neighbors_array t right heat of
                Ok rrow \<Rightarrow>
                  if all_some rrow then (Err (DegreeExceeded right), t)
                  else insert_edge left right heat t
              | _ \<Rightarrow> (Panic, t))
          | _ \<Rightarrow> (Panic, t))
      | (Err e, t) \<Rightarrow> (Err e, t)
      | (Panic, t) \<Rightarrow> (Panic, t))"

definition connect_gas ::
  "(nat \<Rightarrow> bool) \<Rightarrow> turf_handle \<Rightarrow> turf_handle \<Rightarrow> packed_topology \<Rightarrow>
   (bool, topology_error) result \<times> packed_topology" where
  "connect_gas alloc left right t =
     (case connect alloc left right False t of
        (Ok True, t) \<Rightarrow> (Ok True, t\<lparr>pt_gas_edges := pt_gas_edges t + 1\<rparr>)
      | other \<Rightarrow> other)"

definition connect_heat ::
  "(nat \<Rightarrow> bool) \<Rightarrow> turf_handle \<Rightarrow> turf_handle \<Rightarrow> packed_topology \<Rightarrow>
   (bool, topology_error) result \<times> packed_topology" where
  "connect_heat alloc left right t =
     (case connect alloc left right True t of
        (Ok True, t) \<Rightarrow> (Ok True, t\<lparr>pt_heat_edges := pt_heat_edges t + 1\<rparr>)
      | other \<Rightarrow> other)"

definition disconnect ::
  "turf_handle \<Rightarrow> turf_handle \<Rightarrow> bool \<Rightarrow> packed_topology \<Rightarrow>
   (bool, topology_error) result \<times> packed_topology" where
  "disconnect left right heat t =
     (if find_neighbor t left right heat = None then (Ok False, t)
      else case neighbors_array t left heat of
        Ok lrow \<Rightarrow>
          let t1 = set_neighbors_array t left heat (remove_neighbor lrow right)
          in (case neighbors_array t1 right heat of
                Ok rrow \<Rightarrow>
                  (Ok True, bump_revision (set_neighbors_array t1 right heat (remove_neighbor rrow left)))
              | _ \<Rightarrow> (Panic, t1))
      | _ \<Rightarrow> (Panic, t))"

text \<open>The counter decrements are unsigned subtractions: below zero they panic.\<close>

definition disconnect_gas ::
  "turf_handle \<Rightarrow> turf_handle \<Rightarrow> packed_topology \<Rightarrow> (bool, topology_error) result \<times> packed_topology" where
  "disconnect_gas left right t =
     (case disconnect left right False t of
        (Ok True, t) \<Rightarrow>
          if pt_gas_edges t = 0 then (Panic, t)
          else (Ok True, t\<lparr>pt_gas_edges := pt_gas_edges t - 1\<rparr>)
      | other \<Rightarrow> other)"

definition disconnect_heat ::
  "turf_handle \<Rightarrow> turf_handle \<Rightarrow> packed_topology \<Rightarrow> (bool, topology_error) result \<times> packed_topology" where
  "disconnect_heat left right t =
     (case disconnect left right True t of
        (Ok True, t) \<Rightarrow>
          if pt_heat_edges t = 0 then (Panic, t)
          else (Ok True, t\<lparr>pt_heat_edges := pt_heat_edges t - 1\<rparr>)
      | other \<Rightarrow> other)"

text \<open>\<open>find_neighbor_mut\<close>: the first entry with the handle, written in place.\<close>

fun set_row_firelock :: "turf_handle \<Rightarrow> bool \<Rightarrow> neighbor_row \<Rightarrow> neighbor_row" where
  "set_row_firelock h b [] = []"
| "set_row_firelock h b (None # row) = None # set_row_firelock h b row"
| "set_row_firelock h b (Some n # row) =
     (if tn_handle n = h then Some (n\<lparr>tn_firelock := b\<rparr>) # row
      else Some n # set_row_firelock h b row)"

definition set_neighbor_firelock ::
  "turf_handle \<Rightarrow> turf_handle \<Rightarrow> bool \<Rightarrow> packed_topology \<Rightarrow> packed_topology" where
  "set_neighbor_firelock left right b t =
     (let i = unat (th_slot left)
      in t\<lparr>pt_slots := (pt_slots t)[i := set_slot_row False
             (set_row_firelock right b (ts_gas (pt_slots t ! i))) (pt_slots t ! i)]\<rparr>)"

definition set_firelock ::
  "turf_handle \<Rightarrow> turf_handle \<Rightarrow> bool \<Rightarrow> packed_topology \<Rightarrow>
   (bool, topology_error) result \<times> packed_topology" where
  "set_firelock left right firelock t =
     (case find_neighbor t left right False of
        None \<Rightarrow> (Err MissingGasEdge, t)
      | Some n \<Rightarrow>
          if tn_firelock n = firelock then (Ok False, t)
          else
            let t1 = set_neighbor_firelock left right firelock t
            in (case find_neighbor t1 right left False of
                  None \<Rightarrow> (Panic, t1)
                | Some _ \<Rightarrow> (Ok True, bump_revision (set_neighbor_firelock right left firelock t1))))"

text \<open>The loop over the copied-out neighbors of a removed slot.\<close>

definition remove_back_reference ::
  "u32 \<Rightarrow> bool \<Rightarrow> topology_neighbor \<Rightarrow> packed_topology \<Rightarrow> packed_topology" where
  "remove_back_reference slot heat n t =
     (case vec_get (pt_slots t) (unat (th_slot (tn_handle n))) of
        None \<Rightarrow> t
      | Some partner \<Rightarrow>
          set_neighbors_array t (tn_handle n) heat (remove_neighbor_slot (slot_row heat partner) slot))"

definition remove_slot ::
  "u32 \<Rightarrow> packed_topology \<Rightarrow> (bool, topology_error) result \<times> packed_topology" where
  "remove_slot slot t =
     (case vec_get (pt_slots t) (unat slot) of
        None \<Rightarrow> (Ok False, t)
      | Some entry \<Rightarrow>
          let gas = flatten (ts_gas entry);
              heat = flatten (ts_heat entry)
          in if length gas = 0 \<and> length heat = 0 then (Ok False, t)
             else
               let t = t\<lparr>pt_slots := (pt_slots t)[unat slot := topology_slot_default]\<rparr>;
                   t = fold (remove_back_reference slot False) gas t;
                   t = fold (remove_back_reference slot True) heat t
               in if pt_gas_edges t < length gas \<or> pt_heat_edges t < length heat then (Panic, t)
                  else (Ok True, bump_revision
                         (t\<lparr>pt_gas_edges := pt_gas_edges t - length gas,
                            pt_heat_edges := pt_heat_edges t - length heat\<rparr>)))"

definition remove_turf ::
  "turf_handle \<Rightarrow> packed_topology \<Rightarrow> (bool, topology_error) result \<times> packed_topology" where
  "remove_turf h t = remove_slot (th_slot h) t"

section \<open>Rows as sorted lists\<close>

text \<open>
  A row in normal form is an occupied prefix followed by \<open>None\<close>s. On such rows the array code is
  list insertion and list deletion.
\<close>

definition pack :: "topology_neighbor list \<Rightarrow> neighbor_row" where
  "pack ns = map Some ns @ replicate (max_turf_neighbors - length ns) None"

definition row_ok :: "neighbor_row \<Rightarrow> bool" where
  "row_ok row \<longleftrightarrow> row = pack (flatten row) \<and> length (flatten row) \<le> max_turf_neighbors \<and>
     sorted_wrt (<) (map tn_handle (flatten row))"

definition insert_neighbor :: "topology_neighbor \<Rightarrow> topology_neighbor list \<Rightarrow> topology_neighbor list" where
  "insert_neighbor n ns =
     takeWhile (\<lambda>m. tn_handle m < tn_handle n) ns @ n # dropWhile (\<lambda>m. tn_handle m < tn_handle n) ns"

definition delete_first :: "('a \<Rightarrow> bool) \<Rightarrow> 'a list \<Rightarrow> 'a list" where
  "delete_first p xs = takeWhile (\<lambda>x. \<not> p x) xs @ tl (dropWhile (\<lambda>x. \<not> p x) xs)"

lemma flatten_pack [simp]: "flatten (pack ns) = ns"
  by (simp add: flatten_def pack_def filter_map comp_def)

lemma length_pack [simp]: "length ns \<le> max_turf_neighbors \<Longrightarrow> length (pack ns) = max_turf_neighbors"
  by (simp add: pack_def)

lemma flatten_replicate_None [simp]: "flatten (replicate n None) = []"
  by (simp add: flatten_def)

lemma pack_Nil: "pack [] = replicate max_turf_neighbors None"
  by (simp add: pack_def)

lemma row_ok_pack:
  "row_ok (pack ns) \<longleftrightarrow> length ns \<le> max_turf_neighbors \<and> sorted_wrt (<) (map tn_handle ns)"
  by (simp add: row_ok_def)

lemma row_okE:
  assumes "row_ok row"
  obtains ns where "row = pack ns" and "length ns \<le> max_turf_neighbors"
    and "sorted_wrt (<) (map tn_handle ns)" and "flatten row = ns"
  using assms unfolding row_ok_def by metis

lemma all_some_pack: "length ns \<le> max_turf_neighbors \<Longrightarrow>
  all_some (pack ns) \<longleftrightarrow> length ns = max_turf_neighbors"
  by (auto simp: all_some_def pack_def list_all_iff)

lemma takeWhile_length_iff: "length (takeWhile p xs) = length xs \<longleftrightarrow> (\<forall>x \<in> set xs. p x)"
  by (induction xs) auto

lemma takeWhile_pack: "takeWhile (\<lambda>e. e \<noteq> None) (pack ns) = map Some ns"
  unfolding pack_def by (subst takeWhile_append2) (auto simp: takeWhile_eq_Nil_iff)

lemma length_occupied_pack: "length (takeWhile (\<lambda>e. e \<noteq> None) (pack ns)) = length ns"
  by (simp only: takeWhile_pack length_map)

lemma copy_within_insert:
  assumes "i \<le> c" and "c < length xs"
  shows "(copy_within i c (i + 1) xs)[i := x] = take i xs @ x # take (c - i) (drop i xs) @ drop (Suc c) xs"
  using assms by (simp add: copy_within_def take_Suc_conv_app_nth list_update_append)

lemma copy_within_delete:
  assumes "i < length xs"
  shows "(copy_within (i + 1) (length xs) i xs)[length xs - 1 := x] =
         take i xs @ drop (Suc i) xs @ [x]"
proof -
  have last: "drop (length xs - Suc 0) xs = [last xs]"
    using assms by (metis One_nat_def append_butlast_last_id append_eq_conv_conj length_butlast
        length_greater_0_conv not_less_zero list.size(3))
  have len: "length (take i xs @ drop (Suc i) xs) = length xs - 1"
    using assms by simp
  have "copy_within (i + 1) (length xs) i xs = (take i xs @ drop (Suc i) xs) @ [last xs]"
    using assms last by (simp add: copy_within_def)
  then show ?thesis
    using len by (simp only: list_update_length flip: len) simp
qed

lemma insert_sorted_pack:
  assumes "length ns < max_turf_neighbors"
  shows "insert_sorted (pack ns) n = Ok (pack (insert_neighbor n ns))"
proof -
  let ?P = "\<lambda>m. tn_handle m < tn_handle n"
  define i where "i = length (takeWhile ?P ns)"
  have i: "i \<le> length ns" by (simp add: i_def length_takeWhile_le)
  have "take (length ns) (pack ns) = map Some ns"
    by (simp add: pack_def)
  then have idx: "length (takeWhile (\<lambda>e. tn_handle (the e) < tn_handle n) (take (length ns) (pack ns))) = i"
    by (simp add: takeWhile_map comp_def i_def)
  obtain m where m: "max_turf_neighbors - length ns = Suc m"
    using assms by (cases "max_turf_neighbors - length ns") auto
  have "(copy_within i (length ns) (i + 1) (pack ns))[i := Some n] =
        take i (pack ns) @ Some n # take (length ns - i) (drop i (pack ns)) @ drop (Suc (length ns)) (pack ns)"
    using i assms by (intro copy_within_insert) simp_all
  also have "\<dots> = pack (take i ns @ n # drop i ns)"
    using i m by (simp add: pack_def take_map drop_map)
  also have "take i ns @ n # drop i ns = insert_neighbor n ns"
    by (simp add: insert_neighbor_def i_def takeWhile_eq_take [symmetric] dropWhile_eq_drop [symmetric])
  finally show ?thesis
    using assms idx by (simp add: insert_sorted_def length_occupied_pack Let_def del: not_None_eq)
qed

lemma set_insert_neighbor [simp]: "set (insert_neighbor n ns) = insert n (set ns)"
  by (metis (no_types, lifting) Un_insert_right insert_neighbor_def list.simps(15) set_append
      takeWhile_dropWhile_id)

lemma length_insert_neighbor [simp]: "length (insert_neighbor n ns) = Suc (length ns)"
  by (metis add_Suc_right insert_neighbor_def length_Cons length_append takeWhile_dropWhile_id)

lemma sorted_insert_neighbor:
  assumes "sorted_wrt (<) (map tn_handle ns)" and "tn_handle n \<notin> tn_handle ` set ns"
  shows "sorted_wrt (<) (map tn_handle (insert_neighbor n ns))"
  using assms
proof (induction ns)
  case (Cons m ns)
  then show ?case
    by (auto simp: insert_neighbor_def dest: set_takeWhileD set_dropWhileD intro: less_trans)
qed (simp add: insert_neighbor_def)

lemma position_pack:
  assumes "\<not> q None" and "\<And>n. q (Some n) = p n" and "length ns \<le> max_turf_neighbors"
  shows "position q (pack ns) =
    (let i = length (takeWhile (\<lambda>n. \<not> p n) ns) in if i < length ns then Some i else None)"
proof (cases "\<exists>n \<in> set ns. p n")
  case True
  then obtain n where "n \<in> set ns" and "p n" by blast
  then have "takeWhile (\<lambda>e. \<not> q e) (pack ns) = takeWhile (\<lambda>e. \<not> q e) (map Some ns)"
    unfolding pack_def using assms by (intro takeWhile_append1 [of "Some n"]) auto
  then have "takeWhile (\<lambda>e. \<not> q e) (pack ns) = map Some (takeWhile (\<lambda>n. \<not> p n) ns)"
    using assms by (simp add: takeWhile_map comp_def)
  moreover have "length (takeWhile (\<lambda>n. \<not> p n) ns) < length ns"
    using True length_takeWhile_le [of "\<lambda>n. \<not> p n" ns] takeWhile_length_iff [of "\<lambda>n. \<not> p n" ns]
    by (metis le_neq_implies_less)
  ultimately show ?thesis
    using assms by (simp add: position_def Let_def)
next
  case False
  then have "\<forall>e \<in> set (pack ns). \<not> q e"
    using assms by (auto simp: pack_def)
  with False show ?thesis
    using takeWhile_length_iff [of "\<lambda>e. \<not> q e" "pack ns"] takeWhile_length_iff [of "\<lambda>n. \<not> p n" ns]
    by (simp add: position_def Let_def)
qed

lemma delete_at_pack:
  assumes "length ns \<le> max_turf_neighbors" and "i < length ns"
  shows "(copy_within (i + 1) (length (pack ns)) i (pack ns))[max_turf_neighbors - 1 := None] =
         pack (take i ns @ drop (Suc i) ns)"
proof -
  have "(copy_within (i + 1) (length (pack ns)) i (pack ns))[max_turf_neighbors - 1 := None] =
        take i (pack ns) @ drop (Suc i) (pack ns) @ [None]"
    using copy_within_delete [of i "pack ns" None] assms by simp
  also have "\<dots> = map Some (take i ns @ drop (Suc i) ns) @
      replicate (max_turf_neighbors - length ns) None @ [None]"
    using assms by (simp add: pack_def take_map drop_map)
  also have "\<dots> = pack (take i ns @ drop (Suc i) ns)"
  proof -
    have "max_turf_neighbors - length (take i ns @ drop (Suc i) ns) =
          Suc (max_turf_neighbors - length ns)"
      using assms by simp
    then show ?thesis
      unfolding pack_def by (simp only: replicate_Suc replicate_append_same)
  qed
  finally show ?thesis .
qed

lemma delete_first_Nil [simp]: "delete_first p [] = []"
  by (simp add: delete_first_def)

lemma delete_first_Cons [simp]:
  "delete_first p (x # xs) = (if p x then xs else x # delete_first p xs)"
  by (simp add: delete_first_def)

lemma delete_first_at:
  "length (takeWhile (\<lambda>x. \<not> p x) xs) < length xs \<Longrightarrow>
   delete_first p xs =
     take (length (takeWhile (\<lambda>x. \<not> p x) xs)) xs @ drop (Suc (length (takeWhile (\<lambda>x. \<not> p x) xs))) xs"
  by (induction xs) auto

lemma delete_first_absent: "\<forall>x \<in> set xs. \<not> p x \<Longrightarrow> delete_first p xs = xs"
  by (induction xs) auto

lemma remove_first_pack:
  assumes "\<not> q None" and "\<And>n. q (Some n) = p n" and "length ns \<le> max_turf_neighbors"
  shows "(case position q (pack ns) of
            None \<Rightarrow> pack ns
          | Some i \<Rightarrow> (copy_within (i + 1) (length (pack ns)) i (pack ns))[max_turf_neighbors - 1 := None]) =
         pack (delete_first p ns)"
proof (cases "length (takeWhile (\<lambda>n. \<not> p n) ns) < length ns")
  case True
  with assms show ?thesis
    using delete_at_pack [of ns "length (takeWhile (\<lambda>n. \<not> p n) ns)"]
    by (simp add: position_pack [of q p] delete_first_at Let_def)
next
  case False
  then have "length (takeWhile (\<lambda>n. \<not> p n) ns) = length ns"
    using length_takeWhile_le [of "\<lambda>n. \<not> p n" ns] by linarith
  moreover from this have "delete_first p ns = ns"
    by (simp add: delete_first_absent takeWhile_length_iff)
  ultimately show ?thesis
    using assms by (simp add: position_pack [of q p] Let_def del: takeWhile_eq_all_conv)
qed

lemma remove_neighbor_pack:
  "length ns \<le> max_turf_neighbors \<Longrightarrow>
   remove_neighbor (pack ns) h = pack (delete_first (\<lambda>n. tn_handle n = h) ns)"
  unfolding remove_neighbor_def by (rule remove_first_pack) auto

lemma remove_neighbor_slot_pack:
  "length ns \<le> max_turf_neighbors \<Longrightarrow>
   remove_neighbor_slot (pack ns) s = pack (delete_first (\<lambda>n. th_slot (tn_handle n) = s) ns)"
  unfolding remove_neighbor_slot_def by (rule remove_first_pack) auto

lemma set_delete_first_subset: "set (delete_first p xs) \<subseteq> set xs"
  by (induction xs) auto

lemma set_delete_first:
  "(\<And>x y. x \<in> set xs \<Longrightarrow> y \<in> set xs \<Longrightarrow> p x \<Longrightarrow> p y \<Longrightarrow> x = y) \<Longrightarrow> distinct xs \<Longrightarrow>
   set (delete_first p xs) = {x \<in> set xs. \<not> p x}"
  by (induction xs) auto

lemma length_delete_first:
  "length (delete_first p xs) = (if \<exists>x \<in> set xs. p x then length xs - 1 else length xs)"
proof (induction xs)
  case (Cons x xs)
  then show ?case by (cases xs) auto
qed simp

lemma sorted_delete_first:
  "sorted_wrt (<) (map f xs) \<Longrightarrow> sorted_wrt (<) (map f (delete_first p xs))"
  using set_delete_first_subset [of p] by (induction xs) auto

end
