(* ===== verification/Topology_Graph.thy ===== *)
theory Topology_Graph
  imports Topology
begin

text \<open>
  The packed topology as an undirected graph. \<open>edge_map t heat\<close> abstracts the rows to a partial
  map from ordered pairs of slots to the firelock flag of the edge; the invariant says that the
  map is symmetric and irreflexive, that rows are packed, sorted and hold current handles, and
  that the edge counters count. Every operation then refines an update of the edge map.
\<close>

section \<open>One row\<close>

definition row_find :: "neighbor_row \<Rightarrow> u32 \<rightharpoonup> bool" where
  "row_find row b = map_option tn_firelock (find (\<lambda>n. th_slot (tn_handle n) = b) (flatten row))"

definition current :: "(u32 \<Rightarrow> u32) \<Rightarrow> turf_handle \<Rightarrow> bool" where
  "current gen h \<longleftrightarrow> th_generation h = gen (th_slot h)"

definition local_ok :: "(u32 \<Rightarrow> u32) \<Rightarrow> nat \<Rightarrow> neighbor_row \<Rightarrow> bool" where
  "local_ok gen s row \<longleftrightarrow> row_ok row \<and>
     (\<forall>n \<in> set (flatten row). current gen (tn_handle n) \<and> unat (th_slot (tn_handle n)) \<noteq> s)"

lemma current_eqI: "current gen g \<Longrightarrow> current gen h \<Longrightarrow> th_slot g = th_slot h \<Longrightarrow> g = h"
  by (simp add: current_def turf_handle.expand)

lemma current_eq_iff:
  "current gen g \<Longrightarrow> current gen h \<Longrightarrow> g = h \<longleftrightarrow> th_slot g = th_slot h"
  using current_eqI by blast

lemma local_okE:
  assumes "local_ok gen s row"
  obtains ns where "row = pack ns" and "length ns \<le> max_turf_neighbors"
    and "sorted_wrt (<) (map tn_handle ns)" and "flatten row = ns"
    and "\<And>n. n \<in> set ns \<Longrightarrow> current gen (tn_handle n)"
    and "\<And>n. n \<in> set ns \<Longrightarrow> unat (th_slot (tn_handle n)) \<noteq> s"
  using assms unfolding local_ok_def by (metis row_okE)

lemma local_ok_pack:
  "local_ok gen s (pack ns) \<longleftrightarrow> length ns \<le> max_turf_neighbors \<and>
     sorted_wrt (<) (map tn_handle ns) \<and>
     (\<forall>n \<in> set ns. current gen (tn_handle n) \<and> unat (th_slot (tn_handle n)) \<noteq> s)"
  by (simp add: local_ok_def row_ok_pack)

text \<open>Slots identify the entries of a row whose handles are current.\<close>

lemma distinct_handles: "sorted_wrt (<) (map f ns) \<Longrightarrow> distinct (map f ns)" for f :: "'a \<Rightarrow> 'b::linorder"
  by (simp add: strict_sorted_iff)

lemma distinct_row: "sorted_wrt (<) (map f ns) \<Longrightarrow> distinct ns" for f :: "'a \<Rightarrow> 'b::linorder"
  using distinct_handles by (auto simp: distinct_map)

lemma inj_on_slot:
  assumes "sorted_wrt (<) (map tn_handle ns)" and "\<And>n. n \<in> set ns \<Longrightarrow> current gen (tn_handle n)"
  shows "inj_on (\<lambda>n. th_slot (tn_handle n)) (set ns)"
proof (rule inj_onI)
  fix m n
  assume "m \<in> set ns" "n \<in> set ns" "th_slot (tn_handle m) = th_slot (tn_handle n)"
  with assms(2) have "tn_handle m = tn_handle n" by (blast intro: current_eqI)
  moreover have "inj_on tn_handle (set ns)"
    using distinct_handles [OF assms(1)] by (simp add: distinct_map)
  ultimately show "m = n" using \<open>m \<in> set ns\<close> \<open>n \<in> set ns\<close> by (auto dest: inj_onD)
qed

lemma map_find_eq_Some:
  assumes "\<And>m n. m \<in> set xs \<Longrightarrow> n \<in> set xs \<Longrightarrow> p m \<Longrightarrow> p n \<Longrightarrow> m = n"
  shows "map_option g (find p xs) = Some y \<longleftrightarrow> (\<exists>n \<in> set xs. p n \<and> g n = y)"
  using assms
proof (induction xs)
  case (Cons x xs)
  show ?case
  proof (cases "p x")
    case True
    with Cons.prems [of x] show ?thesis by auto
  next
    case False
    with Cons.IH Cons.prems show ?thesis by simp
  qed
qed simp

lemma row_find_eq_Some:
  assumes "local_ok gen s row"
  shows "row_find row b = Some f \<longleftrightarrow>
    (\<exists>n \<in> set (flatten row). th_slot (tn_handle n) = b \<and> tn_firelock n = f)"
proof -
  from assms obtain ns where ns: "sorted_wrt (<) (map tn_handle ns)" "flatten row = ns"
    "\<And>n. n \<in> set ns \<Longrightarrow> current gen (tn_handle n)"
    by (metis local_okE)
  show ?thesis unfolding row_find_def ns(2)
    using inj_onD [OF inj_on_slot [OF ns(1,3)]] by (intro map_find_eq_Some) auto
qed

lemma row_find_eq_None:
  "row_find row b = None \<longleftrightarrow> (\<forall>n \<in> set (flatten row). th_slot (tn_handle n) \<noteq> b)"
  by (auto simp: row_find_def find_None_iff)

lemma dom_row_find: "dom (row_find row) = (\<lambda>n. th_slot (tn_handle n)) ` set (flatten row)"
  by (auto simp: dom_def row_find_eq_None image_iff simp flip: not_None_eq)

lemma card_dom_row_find:
  assumes "local_ok gen s row"
  shows "card (dom (row_find row)) = length (flatten row)"
proof -
  from assms obtain ns where ns: "sorted_wrt (<) (map tn_handle ns)" "flatten row = ns"
    "\<And>n. n \<in> set ns \<Longrightarrow> current gen (tn_handle n)"
    by (metis local_okE)
  moreover from ns(1) have "distinct ns"
    by (rule distinct_row)
  ultimately show ?thesis
    using inj_on_slot [OF ns(1,3)] by (simp add: dom_row_find card_image distinct_card)
qed

lemma all_some_iff_degree:
  assumes "local_ok gen s row"
  shows "all_some row \<longleftrightarrow> card (dom (row_find row)) = max_turf_neighbors"
  using assms by (auto elim!: local_okE simp: all_some_pack card_dom_row_find)

lemma degree_le:
  assumes "local_ok gen s row"
  shows "card (dom (row_find row)) \<le> max_turf_neighbors"
  using assms by (metis card_dom_row_find local_okE)

lemma find_current:
  assumes "local_ok gen s row" and "current gen h"
  shows "find (\<lambda>n. tn_handle n = h) (flatten row) =
         find (\<lambda>n. th_slot (tn_handle n) = th_slot h) (flatten row)"
  using assms by (intro find_cong) (auto simp: local_ok_def current_eq_iff)

text \<open>The effect of the row operations on the abstraction.\<close>

lemma default_row:
  "local_ok gen s (replicate max_turf_neighbors None)"
  "row_find (replicate max_turf_neighbors None) = Map.empty"
  by (auto simp: row_find_def local_ok_pack simp flip: pack_Nil)

lemma insert_sorted_row:
  assumes ok: "local_ok gen s row" and cur: "current gen h" and s: "unat (th_slot h) \<noteq> s"
    and new: "row_find row (th_slot h) = None" and room: "\<not> all_some row"
  obtains row' where "insert_sorted row \<lparr>tn_handle = h, tn_firelock = b\<rparr> = Ok row'"
    and "local_ok gen s row'" and "row_find row' = (row_find row)(th_slot h \<mapsto> b)"
proof -
  let ?n = "\<lparr>tn_handle = h, tn_firelock = b\<rparr>"
  from ok obtain ns where row: "row = pack ns" "length ns \<le> max_turf_neighbors"
    "sorted_wrt (<) (map tn_handle ns)"
    and cur': "\<And>n. n \<in> set ns \<Longrightarrow> current gen (tn_handle n)"
      "\<And>n. n \<in> set ns \<Longrightarrow> unat (th_slot (tn_handle n)) \<noteq> s"
    by (rule local_okE) simp
  have len: "length ns < max_turf_neighbors"
    using room row by (auto simp: all_some_pack)
  have "tn_handle ?n \<notin> tn_handle ` set ns"
    using new row by (auto simp: row_find_eq_None)
  then have ok': "local_ok gen s (pack (insert_neighbor ?n ns))"
    using len row(3) cur cur' s by (auto simp: local_ok_pack intro: sorted_insert_neighbor)
  moreover have "row_find (pack (insert_neighbor ?n ns)) = (row_find row)(th_slot h \<mapsto> b)"
  proof (rule ext, rule option_eqI)
    fix c f
    show "row_find (pack (insert_neighbor ?n ns)) c = Some f \<longleftrightarrow>
          ((row_find row)(th_slot h \<mapsto> b)) c = Some f"
      using new row(1) row_find_eq_Some [OF ok, of c f]
      by (auto simp: row_find_eq_Some [OF ok'] row_find_eq_None)
  qed
  ultimately show thesis
    using insert_sorted_pack [OF len] row(1) by (intro that) auto
qed

lemma delete_row:
  assumes ok: "local_ok gen s (pack ns)"
    and p: "\<And>n. n \<in> set ns \<Longrightarrow> p n \<longleftrightarrow> th_slot (tn_handle n) = b"
  shows "local_ok gen s (pack (delete_first p ns))"
    and "row_find (pack (delete_first p ns)) = (row_find (pack ns))(b := None)"
proof -
  have ns: "length ns \<le> max_turf_neighbors" "sorted_wrt (<) (map tn_handle ns)"
    "\<And>n. n \<in> set ns \<Longrightarrow> current gen (tn_handle n)"
    using ok by (auto simp: local_ok_pack)
  have "set (delete_first p ns) = {n \<in> set ns. \<not> p n}"
    using inj_on_slot [OF ns(2,3)] p distinct_row [OF ns(2)]
    by (intro set_delete_first) (auto dest: inj_onD)
  then have set': "set (delete_first p ns) = {n \<in> set ns. th_slot (tn_handle n) \<noteq> b}"
    using p by auto
  show ok': "local_ok gen s (pack (delete_first p ns))"
    using ok set' by (auto simp: local_ok_pack length_delete_first intro: sorted_delete_first)
  show "row_find (pack (delete_first p ns)) = (row_find (pack ns))(b := None)"
    by (rule ext, rule option_eqI)
      (auto simp: row_find_eq_Some [OF ok'] row_find_eq_Some [OF ok] set')
qed

lemma remove_neighbor_slot_row:
  assumes ok: "local_ok gen s row"
  shows "local_ok gen s (remove_neighbor_slot row b)"
    and "row_find (remove_neighbor_slot row b) = (row_find row)(b := None)"
proof -
  from ok obtain ns where row: "row = pack ns" "length ns \<le> max_turf_neighbors"
    by (metis local_okE)
  then have "remove_neighbor_slot row b = pack (delete_first (\<lambda>n. th_slot (tn_handle n) = b) ns)"
    by (simp add: remove_neighbor_slot_pack)
  then show "local_ok gen s (remove_neighbor_slot row b)"
    and "row_find (remove_neighbor_slot row b) = (row_find row)(b := None)"
    using delete_row [of gen s ns "\<lambda>n. th_slot (tn_handle n) = b" b] ok row(1) by simp_all
qed

lemma remove_neighbor_row:
  assumes ok: "local_ok gen s row" and cur: "current gen h"
  shows "local_ok gen s (remove_neighbor row h)"
    and "row_find (remove_neighbor row h) = (row_find row)(th_slot h := None)"
proof -
  from ok obtain ns where row: "row = pack ns" "length ns \<le> max_turf_neighbors"
    and c: "\<And>n. n \<in> set ns \<Longrightarrow> current gen (tn_handle n)"
    by (metis local_okE)
  then have "remove_neighbor row h = pack (delete_first (\<lambda>n. tn_handle n = h) ns)"
    by (simp add: remove_neighbor_pack)
  then show "local_ok gen s (remove_neighbor row h)"
    and "row_find (remove_neighbor row h) = (row_find row)(th_slot h := None)"
    using delete_row [of gen s ns "\<lambda>n. tn_handle n = h" "th_slot h"] ok row(1)
      current_eq_iff [OF c cur] by simp_all
qed

lemma set_row_firelock_pack:
  "distinct (map tn_handle ns) \<Longrightarrow>
   set_row_firelock h b (map Some ns @ replicate k None) =
   map Some (map (\<lambda>n. if tn_handle n = h then n\<lparr>tn_firelock := b\<rparr> else n) ns) @ replicate k None"
proof (induction ns)
  case Nil
  then show ?case by (induction k) auto
next
  case (Cons n ns)
  moreover have "map (\<lambda>n. if tn_handle n = h then n\<lparr>tn_firelock := b\<rparr> else n) ns = ns"
    if "tn_handle n = h"
    using that Cons.prems by (intro map_idI) (auto simp: image_iff)
  ultimately show ?case by (auto simp del: map_map)
qed

lemma set_row_firelock_row:
  assumes ok: "local_ok gen s row" and cur: "current gen h"
    and old: "row_find row (th_slot h) \<noteq> None"
  shows "local_ok gen s (set_row_firelock h b row)"
    and "row_find (set_row_firelock h b row) = (row_find row)(th_slot h \<mapsto> b)"
proof -
  let ?f = "\<lambda>n. if tn_handle n = h then n\<lparr>tn_firelock := b\<rparr> else n"
  from ok obtain ns where row: "row = pack ns" "length ns \<le> max_turf_neighbors"
    "sorted_wrt (<) (map tn_handle ns)"
    and c: "\<And>n. n \<in> set ns \<Longrightarrow> current gen (tn_handle n)"
      "\<And>n. n \<in> set ns \<Longrightarrow> unat (th_slot (tn_handle n)) \<noteq> s"
    by (rule local_okE) simp
  have eq: "set_row_firelock h b row = pack (map ?f ns)"
    using set_row_firelock_pack [OF distinct_handles [OF row(3)]] by (simp add: row(1) pack_def)
  then have flat: "flatten (set_row_firelock h b row) = map ?f ns" "flatten row = ns"
    by (simp_all add: row(1))
  have handles: "map tn_handle (map ?f ns) = map tn_handle ns"
    by simp
  then show ok': "local_ok gen s (set_row_firelock h b row)"
    using row(2,3) c by (fastforce simp: eq local_ok_pack simp del: map_map)
  show "row_find (set_row_firelock h b row) = (row_find row)(th_slot h \<mapsto> b)"
  proof
    fix x
    let ?p = "\<lambda>n. th_slot (tn_handle n) = x"
    have find: "find ?p (map ?f ns) = map_option ?f (find ?p ns)"
      by (induction ns) auto
    show "row_find (set_row_firelock h b row) x = ((row_find row)(th_slot h \<mapsto> b)) x"
    proof (cases "find ?p ns")
      case None
      with old show ?thesis by (auto simp: row_find_def flat find)
    next
      case (Some n)
      then have "n \<in> set ns" and "th_slot (tn_handle n) = x"
        by (auto simp: find_Some_iff)
      then have "tn_handle n = h \<longleftrightarrow> x = th_slot h"
        using current_eq_iff [OF c(1) cur] by blast
      with Some show ?thesis by (simp add: row_find_def flat find)
    qed
  qed
qed

section \<open>The graph\<close>

definition edge_map :: "packed_topology \<Rightarrow> bool \<Rightarrow> u32 \<times> u32 \<rightharpoonup> bool" where
  "edge_map t heat = (\<lambda>(a, b).
     case vec_get (pt_slots t) (unat a) of None \<Rightarrow> None | Some s \<Rightarrow> row_find (slot_row heat s) b)"

definition degree :: "packed_topology \<Rightarrow> bool \<Rightarrow> u32 \<Rightarrow> nat" where
  "degree t heat a = card {b. edge_map t heat (a, b) \<noteq> None}"

definition rows_ok :: "(u32 \<Rightarrow> u32) \<Rightarrow> packed_topology \<Rightarrow> bool" where
  "rows_ok gen t \<longleftrightarrow> length (pt_slots t) \<le> 2 ^ 32 \<and>
     (\<forall>s < length (pt_slots t). \<forall>heat. local_ok gen s (slot_row heat (pt_slots t ! s)))"

definition symmetric :: "packed_topology \<Rightarrow> bool \<Rightarrow> bool" where
  "symmetric t heat \<longleftrightarrow> (\<forall>a b. edge_map t heat (a, b) = edge_map t heat (b, a))"

definition edge_count :: "packed_topology \<Rightarrow> bool \<Rightarrow> nat" where
  "edge_count t heat = (if heat then pt_heat_edges t else pt_gas_edges t)"

definition topo_inv :: "(u32 \<Rightarrow> u32) \<Rightarrow> packed_topology \<Rightarrow> bool" where
  "topo_inv gen t \<longleftrightarrow> rows_ok gen t \<and>
     (\<forall>heat. symmetric t heat \<and> 2 * edge_count t heat = card (dom (edge_map t heat)))"

lemma slot_row_simps [simp]:
  "slot_row True s = ts_heat s" "slot_row False s = ts_gas s"
  by (simp_all add: slot_row_def)

lemma slot_row_set [simp]:
  "slot_row heat' (set_slot_row heat row s) = (if heat' = heat then row else slot_row heat' s)"
  by (auto simp: slot_row_def set_slot_row_def)

lemma slot_row_default: "slot_row heat topology_slot_default = replicate max_turf_neighbors None"
  by (simp add: slot_row_def topology_slot_default_def)

lemma edge_map_Some_iff:
  "edge_map t heat (a, b) = Some f \<longleftrightarrow>
     unat a < length (pt_slots t) \<and> row_find (slot_row heat (pt_slots t ! unat a)) b = Some f"
  by (auto simp: edge_map_def vec_get_def)

lemma edge_map_in_range:
  "unat a < length (pt_slots t) \<Longrightarrow>
   edge_map t heat (a, b) = row_find (slot_row heat (pt_slots t ! unat a)) b"
  by (simp add: edge_map_def vec_get_def)

lemma rows_ok_local:
  "rows_ok gen t \<Longrightarrow> unat a < length (pt_slots t) \<Longrightarrow>
   local_ok gen (unat a) (slot_row heat (pt_slots t ! unat a))"
  by (simp add: rows_ok_def)

lemma edge_map_irrefl:
  assumes "rows_ok gen t"
  shows "edge_map t heat (a, a) = None"
proof (rule ccontr)
  assume "edge_map t heat (a, a) \<noteq> None"
  then obtain f where f: "edge_map t heat (a, a) = Some f" by blast
  then have "local_ok gen (unat a) (slot_row heat (pt_slots t ! unat a))"
    using assms by (auto simp: edge_map_Some_iff intro: rows_ok_local)
  with f show False
    by (auto simp: edge_map_Some_iff row_find_eq_Some) (auto simp: local_ok_def)
qed

lemma degree_eq:
  assumes "rows_ok gen t" and "unat a < length (pt_slots t)"
  shows "degree t heat a = length (flatten (slot_row heat (pt_slots t ! unat a)))"
proof -
  have "{b. edge_map t heat (a, b) \<noteq> None} = dom (row_find (slot_row heat (pt_slots t ! unat a)))"
    using assms(2) by (auto simp: edge_map_in_range)
  then show ?thesis
    using card_dom_row_find [OF rows_ok_local [OF assms]] by (simp add: degree_def)
qed

lemma degree_bound: "rows_ok gen t \<Longrightarrow> degree t heat a \<le> max_turf_neighbors"
proof (cases "unat a < length (pt_slots t)")
  case True
  assume "rows_ok gen t"
  with True show ?thesis
    by (metis degree_eq local_okE rows_ok_local)
next
  case False
  then have "{b. edge_map t heat (a, b) \<noteq> None} = {}"
    by (auto simp: edge_map_def vec_get_def)
  then show ?thesis by (simp add: degree_def)
qed

lemma all_some_degree:
  assumes "rows_ok gen t" and "unat a < length (pt_slots t)"
  shows "all_some (slot_row heat (pt_slots t ! unat a)) \<longleftrightarrow> degree t heat a = max_turf_neighbors"
  using all_some_iff_degree [OF rows_ok_local [OF assms]] card_dom_row_find [OF rows_ok_local [OF assms]]
  by (simp add: degree_eq [OF assms])

lemma find_neighbor_edge:
  assumes "rows_ok gen t" and "current gen right"
  shows "map_option tn_firelock (find_neighbor t left right heat) =
         edge_map t heat (th_slot left, th_slot right)"
  using assms find_current [OF rows_ok_local [OF assms(1)] assms(2), of "th_slot left" heat]
  by (auto simp: find_neighbor_def edge_map_def vec_get_def row_find_def)

lemma find_neighbor_None_iff:
  assumes "rows_ok gen t" and "current gen right"
  shows "find_neighbor t left right heat = None \<longleftrightarrow>
         edge_map t heat (th_slot left, th_slot right) = None"
  using find_neighbor_edge [OF assms, of left heat] by (metis map_option_is_None)

text \<open>Writing one row.\<close>

lemma length_set_neighbors_array [simp]:
  "length (pt_slots (set_neighbors_array t h heat row)) = length (pt_slots t)"
  by (simp add: set_neighbors_array_def Let_def)

lemma edge_count_set_neighbors_array [simp]:
  "edge_count (set_neighbors_array t h heat row) heat' = edge_count t heat'"
  by (simp add: set_neighbors_array_def edge_count_def Let_def)

lemma edge_map_set_neighbors_array:
  assumes "unat (th_slot h) < length (pt_slots t)"
  shows "edge_map (set_neighbors_array t h heat row) heat' (a, b) =
    (if heat' = heat \<and> a = th_slot h then row_find row b else edge_map t heat' (a, b))"
  using assms
  by (auto simp: edge_map_def vec_get_def set_neighbors_array_def Let_def nth_list_update
      simp flip: word_unat_eq_iff)

lemma rows_ok_set_neighbors_array:
  assumes "rows_ok gen t" and "local_ok gen (unat (th_slot h)) row"
  shows "rows_ok gen (set_neighbors_array t h heat row)"
  using assms
  by (cases "unat (th_slot h) < length (pt_slots t)")
    (auto simp: rows_ok_def set_neighbors_array_def Let_def nth_list_update)

lemma neighbors_array_Ok:
  "unat (th_slot h) < length (pt_slots t) \<Longrightarrow>
   neighbors_array t h heat = Ok (slot_row heat (pt_slots t ! unat (th_slot h)))"
  by (simp add: neighbors_array_def vec_get_def)

section \<open>Graph updates\<close>

definition link :: "('a \<times> 'a \<rightharpoonup> bool) \<Rightarrow> 'a \<Rightarrow> 'a \<Rightarrow> bool \<Rightarrow> ('a \<times> 'a \<rightharpoonup> bool)" where
  "link m a b f = m((a, b) \<mapsto> f, (b, a) \<mapsto> f)"

definition unlink :: "('a \<times> 'a \<rightharpoonup> bool) \<Rightarrow> 'a \<Rightarrow> 'a \<Rightarrow> ('a \<times> 'a \<rightharpoonup> bool)" where
  "unlink m a b = m((a, b) := None, (b, a) := None)"

definition isolate :: "('a \<times> 'a \<rightharpoonup> bool) \<Rightarrow> 'a \<Rightarrow> ('a \<times> 'a \<rightharpoonup> bool)" where
  "isolate m s = (\<lambda>(a, b). if a = s \<or> b = s then None else m (a, b))"

lemma finite_dom_slots [simp]: "finite (dom (m :: u32 \<times> u32 \<rightharpoonup> bool))"
  by (rule finite_subset [of _ UNIV]) simp_all

lemma card_dom_link:
  fixes m :: "u32 \<times> u32 \<rightharpoonup> bool"
  assumes "a \<noteq> b" and "m (a, b) = None" and "m (b, a) = None"
  shows "card (dom (link m a b f)) = card (dom m) + 2"
proof -
  have "dom (link m a b f) = insert (b, a) (insert (a, b) (dom m))"
    by (auto simp: link_def)
  moreover have "(b, a) \<notin> insert (a, b) (dom m)" and "(a, b) \<notin> dom m"
    using assms by auto
  ultimately show ?thesis by simp
qed

lemma card_dom_relink:
  fixes m :: "u32 \<times> u32 \<rightharpoonup> bool"
  assumes "m (a, b) \<noteq> None" and "m (b, a) \<noteq> None"
  shows "card (dom (link m a b f)) = card (dom m)"
  using assms by (intro arg_cong [where f = card]) (auto simp: link_def)

lemma card_dom_unlink:
  fixes m :: "u32 \<times> u32 \<rightharpoonup> bool"
  assumes "a \<noteq> b" and "m (a, b) \<noteq> None" and "m (b, a) \<noteq> None"
  shows "card (dom m) = card (dom (unlink m a b)) + 2"
proof -
  have "dom m = insert (b, a) (insert (a, b) (dom (unlink m a b)))"
    using assms by (auto simp: unlink_def split: if_splits)
  moreover have "(b, a) \<notin> insert (a, b) (dom (unlink m a b))" and "(a, b) \<notin> dom (unlink m a b)"
    using assms by (auto simp: unlink_def)
  ultimately show ?thesis by (metis card_insert_disjoint finite_dom_slots finite_insert add_2_eq_Suc')
qed

lemma card_dom_isolate:
  fixes m :: "u32 \<times> u32 \<rightharpoonup> bool"
  assumes sym: "\<And>a b. m (a, b) = m (b, a)" and irr: "m (s, s) = None"
  shows "card (dom m) = card (dom (isolate m s)) + 2 * card {b. m (s, b) \<noteq> None}"
proof -
  let ?N = "{b. m (s, b) \<noteq> None}"
  have s: "s \<notin> ?N" using irr by simp
  have "dom m = dom (isolate m s) \<union> (Pair s ` ?N \<union> (\<lambda>b. (b, s)) ` ?N)"
    using sym by (auto simp: isolate_def split: if_splits)
  moreover have "dom (isolate m s) \<inter> (Pair s ` ?N \<union> (\<lambda>b. (b, s)) ` ?N) = {}"
    by (auto simp: isolate_def)
  moreover have "Pair s ` ?N \<inter> (\<lambda>b. (b, s)) ` ?N = {}"
    using s by auto
  moreover have "card (Pair s ` ?N) = card ?N" and "card ((\<lambda>b. (b, s)) ` ?N) = card ?N"
    by (auto intro!: card_image simp: inj_on_def)
  ultimately show ?thesis
    by (simp add: card_Un_disjoint del: not_None_eq)
qed

text \<open>The three ways an operation changes the graph keep the invariant.\<close>

lemma topo_inv_update:
  assumes "topo_inv gen t" and "rows_ok gen t'"
    and edges: "\<And>h. edge_map t' h = (if h = heat then m else edge_map t h)"
    and sym: "\<And>a b. m (a, b) = m (b, a)"
    and count: "2 * edge_count t' heat = card (dom m)"
    and others: "edge_count t' (\<not> heat) = edge_count t (\<not> heat)"
  shows "topo_inv gen t'"
  unfolding topo_inv_def
proof (intro conjI allI)
  fix h
  show "symmetric t' h"
    using assms(1) sym by (auto simp: symmetric_def edges topo_inv_def)
  show "2 * edge_count t' h = card (dom (edge_map t' h))"
    using assms(1) count others by (cases "h = heat") (auto simp: edges topo_inv_def)
qed (fact assms(2))

lemma topo_invD:
  assumes "topo_inv gen t"
  shows "rows_ok gen t" and "edge_map t heat (a, b) = edge_map t heat (b, a)"
    and "2 * edge_count t heat = card (dom (edge_map t heat))"
  using assms by (auto simp: topo_inv_def symmetric_def)

lemma edge_map_outside:
  assumes "edge_map t heat (a, b) \<noteq> None" and "topo_inv gen t"
  shows "unat a < length (pt_slots t)" and "unat b < length (pt_slots t)"
proof -
  show "unat a < length (pt_slots t)"
    using assms(1) by (auto simp: edge_map_Some_iff)
  show "unat b < length (pt_slots t)"
    using assms(1) topo_invD(2) [OF assms(2), of heat a b] by (auto simp: edge_map_Some_iff)
qed

text \<open>Writing the two rows of an edge.\<close>

lemma write_both:
  assumes "rows_ok gen t" and "th_slot left \<noteq> th_slot right"
    and "unat (th_slot left) < length (pt_slots t)" and "unat (th_slot right) < length (pt_slots t)"
    and "local_ok gen (unat (th_slot left)) lrow" and "local_ok gen (unat (th_slot right)) rrow"
    and l: "row_find lrow =
      (row_find (slot_row heat (pt_slots t ! unat (th_slot left))))(th_slot right := v)"
    and r: "row_find rrow =
      (row_find (slot_row heat (pt_slots t ! unat (th_slot right))))(th_slot left := v)"
  defines "t' \<equiv> set_neighbors_array (set_neighbors_array t left heat lrow) right heat rrow"
  shows "rows_ok gen t'"
    and "edge_map t' h = (if h = heat
      then (edge_map t heat)((th_slot left, th_slot right) := v, (th_slot right, th_slot left) := v)
      else edge_map t h)"
    and "edge_count t' h = edge_count t h"
proof -
  show "rows_ok gen t'" unfolding t'_def
    using assms by (intro rows_ok_set_neighbors_array)
  show "edge_count t' h = edge_count t h" by (simp add: t'_def)
  show "edge_map t' h = (if h = heat
      then (edge_map t heat)((th_slot left, th_slot right) := v, (th_slot right, th_slot left) := v)
      else edge_map t h)"
    using assms(2-4)
    by (auto simp: t'_def fun_eq_iff edge_map_set_neighbors_array edge_map_in_range [of _ t] l r)
qed

lemma neighbors_array_other:
  assumes "th_slot left \<noteq> th_slot right" and "unat (th_slot right) < length (pt_slots t)"
  shows "neighbors_array (set_neighbors_array t left heat row) right heat =
         Ok (slot_row heat (pt_slots t ! unat (th_slot right)))"
  using assms
  by (simp add: neighbors_array_def vec_get_def set_neighbors_array_def Let_def word_unat_eq_iff)

lemma bump_revision_simps [simp]:
  "edge_map (bump_revision t) h = edge_map t h" "edge_count (bump_revision t) h = edge_count t h"
  "rows_ok gen (bump_revision t) = rows_ok gen t" "pt_revision (bump_revision t) = pt_revision t + 1"
  by (simp_all add: bump_revision_def edge_map_def edge_count_def rows_ok_def)

lemma pt_revision_set_neighbors_array [simp]:
  "pt_revision (set_neighbors_array t h heat row) = pt_revision t"
  by (simp add: set_neighbors_array_def Let_def)

lemma insert_edge_graph:
  assumes rows: "rows_ok gen t" and cur: "current gen left" "current gen right"
    and slots: "th_slot left \<noteq> th_slot right"
    and range: "unat (th_slot left) < length (pt_slots t)" "unat (th_slot right) < length (pt_slots t)"
    and new: "edge_map t heat (th_slot left, th_slot right) = None"
      "edge_map t heat (th_slot right, th_slot left) = None"
    and room: "\<not> all_some (slot_row heat (pt_slots t ! unat (th_slot left)))"
      "\<not> all_some (slot_row heat (pt_slots t ! unat (th_slot right)))"
  obtains t' where "insert_edge left right heat t = (Ok True, t')" and "rows_ok gen t'"
    and "\<And>h. edge_map t' h = (if h = heat
           then link (edge_map t heat) (th_slot left) (th_slot right) False else edge_map t h)"
    and "\<And>h. edge_count t' h = edge_count t h" and "pt_revision t' = pt_revision t + 1"
proof -
  note lok = rows_ok_local [OF rows range(1), of heat] and rok = rows_ok_local [OF rows range(2), of heat]
  have ne: "unat (th_slot right) \<noteq> unat (th_slot left)"
    using slots by (simp add: word_unat_eq_iff)
  obtain lrow where l: "insert_sorted (slot_row heat (pt_slots t ! unat (th_slot left)))
      \<lparr>tn_handle = right, tn_firelock = False\<rparr> = Ok lrow" "local_ok gen (unat (th_slot left)) lrow"
      "row_find lrow = (row_find (slot_row heat (pt_slots t ! unat (th_slot left))))(th_slot right \<mapsto> False)"
    using insert_sorted_row [OF lok cur(2) ne _ room(1)] new(1) range(1)
    by (metis edge_map_in_range)
  obtain rrow where r: "insert_sorted (slot_row heat (pt_slots t ! unat (th_slot right)))
      \<lparr>tn_handle = left, tn_firelock = False\<rparr> = Ok rrow" "local_ok gen (unat (th_slot right)) rrow"
      "row_find rrow = (row_find (slot_row heat (pt_slots t ! unat (th_slot right))))(th_slot left \<mapsto> False)"
    using insert_sorted_row [OF rok cur(1) ne [symmetric] _ room(2)] new(2) range(2)
    by (metis edge_map_in_range)
  let ?t = "set_neighbors_array (set_neighbors_array t left heat lrow) right heat rrow"
  have "insert_edge left right heat t = (Ok True, bump_revision ?t)"
    using l(1) r(1) range neighbors_array_other [OF slots range(2)]
    by (simp add: insert_edge_def neighbors_array_Ok)
  then show thesis
    using write_both [OF rows slots range l(2) r(2) l(3) r(3)]
    by (intro that [of "bump_revision ?t"]) (simp_all add: link_def)
qed

section \<open>Connecting\<close>

definition slot_available :: "(nat \<Rightarrow> bool) \<Rightarrow> u32 \<Rightarrow> packed_topology \<Rightarrow> bool" where
  "slot_available alloc s t \<longleftrightarrow>
     unat s < length (pt_slots t) \<or> alloc (unat s + 1 - length (pt_slots t))"

lemma ensure_slot_graph:
  assumes "rows_ok gen t" and "slot_available alloc s t"
  obtains t' where "ensure_slot alloc s t = (Ok (), t')" and "rows_ok gen t'"
    and "unat s < length (pt_slots t')"
    and "\<And>h. edge_map t' h = edge_map t h" and "\<And>h. edge_count t' h = edge_count t h"
    and "pt_revision t' = pt_revision t"
proof (cases "unat s < length (pt_slots t)")
  case True
  with assms show thesis by (intro that [of t]) (auto simp: ensure_slot_def Let_def)
next
  case False
  let ?t = "t\<lparr>pt_slots := vec_resize (unat s + 1) topology_slot_default (pt_slots t)\<rparr>"
  have "edge_map ?t h = edge_map t h" for h
  proof (rule ext)
    fix ab :: "u32 \<times> u32"
    obtain a b where "ab = (a, b)" by (cases ab)
    with False show "edge_map ?t h ab = edge_map t h ab"
      by (auto simp: edge_map_def vec_get_def nth_vec_resize slot_row_default default_row)
  qed
  moreover have "rows_ok gen ?t"
    using assms(1) False unat_less_2p [of s]
    by (auto simp: rows_ok_def nth_vec_resize slot_row_default default_row)
  ultimately show thesis
    using assms False
    by (intro that [of ?t]) (auto simp: ensure_slot_def Let_def slot_available_def edge_count_def)
qed

lemma ensure_slot_fails:
  "\<not> slot_available alloc s t \<Longrightarrow> ensure_slot alloc s t = (Err AllocationFailed, t)"
  by (auto simp: ensure_slot_def Let_def slot_available_def)

text \<open>What \<open>connect\<close> answers, from the graph alone.\<close>

definition connect_outcome ::
  "(nat \<Rightarrow> bool) \<Rightarrow> turf_handle \<Rightarrow> turf_handle \<Rightarrow> bool \<Rightarrow> packed_topology \<Rightarrow> (bool, topology_error) result" where
  "connect_outcome alloc left right heat t =
     (if th_slot left = th_slot right then Err (SelfEdge left)
      else if \<not> slot_available alloc (max (th_slot left) (th_slot right)) t then Err AllocationFailed
      else if edge_map t heat (th_slot left, th_slot right) \<noteq> None then Ok False
      else if degree t heat (th_slot left) = max_turf_neighbors then Err (DegreeExceeded left)
      else if degree t heat (th_slot right) = max_turf_neighbors then Err (DegreeExceeded right)
      else Ok True)"

lemma connect_graph:
  assumes inv: "topo_inv gen t" and cur: "current gen left" "current gen right"
  obtains t' where "connect alloc left right heat t = (connect_outcome alloc left right heat t, t')"
    and "rows_ok gen t'" and "\<And>h. edge_count t' h = edge_count t h"
    and "\<And>h. edge_map t' h =
      (if h = heat \<and> connect_outcome alloc left right heat t = Ok True
       then link (edge_map t heat) (th_slot left) (th_slot right) False else edge_map t h)"
    and "pt_revision t' =
      pt_revision t + (if connect_outcome alloc left right heat t = Ok True then 1 else 0)"
proof -
  let ?m = "max (th_slot left) (th_slot right)" and ?o = "connect_outcome alloc left right heat t"
  note rows = topo_invD(1) [OF inv]
  show thesis
  proof (cases "th_slot left = th_slot right \<or> \<not> slot_available alloc ?m t")
    case True
    then show thesis
      using rows by (intro that [of t])
        (auto simp: connect_def connect_outcome_def ensure_slot_fails)
  next
    case False
    then have slots: "th_slot left \<noteq> th_slot right" and avail: "slot_available alloc ?m t"
      by auto
    obtain t1 where t1: "ensure_slot alloc ?m t = (Ok (), t1)" "rows_ok gen t1"
      "unat ?m < length (pt_slots t1)" "\<And>h. edge_map t1 h = edge_map t h"
      "\<And>h. edge_count t1 h = edge_count t h" "pt_revision t1 = pt_revision t"
      using ensure_slot_graph [OF rows avail] by blast
    have range: "unat (th_slot left) < length (pt_slots t1)" "unat (th_slot right) < length (pt_slots t1)"
      using t1(3) by (auto simp: max_def word_le_nat_alt split: if_splits)
    have deg: "degree t1 heat a = degree t heat a" for a
      by (simp add: degree_def t1(4))
    have conn: "connect alloc left right heat t =
      (if edge_map t heat (th_slot left, th_slot right) \<noteq> None then (Ok False, t1)
       else if degree t heat (th_slot left) = max_turf_neighbors then (Err (DegreeExceeded left), t1)
       else if degree t heat (th_slot right) = max_turf_neighbors then (Err (DegreeExceeded right), t1)
       else insert_edge left right heat t1)"
      using slots t1(1) find_neighbor_None_iff [OF t1(2) cur(2), of left heat] range
        all_some_degree [OF t1(2) range(1), of heat] all_some_degree [OF t1(2) range(2), of heat]
      by (simp add: connect_def neighbors_array_Ok t1(4) deg del: not_None_eq)
    show thesis
    proof (cases "?o = Ok True")
      case False
      with slots avail show thesis
        using t1 conn by (intro that [of t1]) (auto simp: connect_outcome_def)
    next
      case True
      then have new: "edge_map t1 heat (th_slot left, th_slot right) = None"
        and full: "\<not> all_some (slot_row heat (pt_slots t1 ! unat (th_slot left)))"
          "\<not> all_some (slot_row heat (pt_slots t1 ! unat (th_slot right)))"
        using all_some_degree [OF t1(2) range(1), of heat] all_some_degree [OF t1(2) range(2), of heat]
        by (auto simp: connect_outcome_def t1(4) deg split: if_splits)
      from new have "edge_map t1 heat (th_slot right, th_slot left) = None"
        using topo_invD(2) [OF inv, of heat "th_slot left" "th_slot right"] by (simp add: t1(4))
      then obtain t' where "insert_edge left right heat t1 = (Ok True, t')" "rows_ok gen t'"
        "\<And>h. edge_map t' h = (if h = heat
           then link (edge_map t1 heat) (th_slot left) (th_slot right) False else edge_map t1 h)"
        "\<And>h. edge_count t' h = edge_count t1 h" "pt_revision t' = pt_revision t1 + 1"
        using insert_edge_graph [OF t1(2) cur slots range new _ full] by blast
      with True conn show thesis
        by (intro that [of t']) (auto simp: t1 connect_outcome_def split: if_splits)
    qed
  qed
qed

lemma connect_outcome_TrueD:
  assumes "connect_outcome alloc left right heat t = Ok True"
  shows "th_slot left \<noteq> th_slot right" and "edge_map t heat (th_slot left, th_slot right) = None"
  using assms by (auto simp: connect_outcome_def split: if_splits)

lemma connect_outcome_neq_Panic: "connect_outcome alloc left right heat t \<noteq> Panic"
  by (simp add: connect_outcome_def)

lemma link_symmetric:
  assumes "\<And>a b. m (a, b) = m (b, a)"
  shows "link m x y f (a, b) = link m x y f (b, a)"
  unfolding link_def fun_upd_apply prod.inject using assms [of a b] by argo

lemma unlink_symmetric:
  assumes "\<And>a b. m (a, b) = m (b, a)"
  shows "unlink m x y (a, b) = unlink m x y (b, a)"
  unfolding unlink_def fun_upd_apply prod.inject using assms [of a b] by argo

lemma isolate_symmetric:
  assumes "\<And>a b. m (a, b) = m (b, a)"
  shows "isolate m s (a, b) = isolate m s (b, a)"
  using assms [of a b] by (auto simp: isolate_def)

definition connect_kind ::
  "(nat \<Rightarrow> bool) \<Rightarrow> turf_handle \<Rightarrow> turf_handle \<Rightarrow> bool \<Rightarrow> packed_topology \<Rightarrow>
   (bool, topology_error) result \<times> packed_topology" where
  "connect_kind alloc left right heat =
     (if heat then connect_heat alloc left right else connect_gas alloc left right)"

lemma topo_inv_cong:
  assumes "topo_inv gen t" and "rows_ok gen t'"
    and "\<And>h. edge_map t' h = edge_map t h" and "\<And>h. edge_count t' h = edge_count t h"
  shows "topo_inv gen t'"
  using assms by (simp add: topo_inv_def symmetric_def)

lemma connect_kind_graph:
  assumes inv: "topo_inv gen t" and cur: "current gen left" "current gen right"
  obtains t' where "connect_kind alloc left right heat t = (connect_outcome alloc left right heat t, t')"
    and "topo_inv gen t'"
    and "\<And>h. edge_map t' h =
      (if h = heat \<and> connect_outcome alloc left right heat t = Ok True
       then link (edge_map t heat) (th_slot left) (th_slot right) False else edge_map t h)"
    and "pt_revision t' =
      pt_revision t + (if connect_outcome alloc left right heat t = Ok True then 1 else 0)"
proof -
  let ?o = "connect_outcome alloc left right heat t"
  obtain t1 where t1: "connect alloc left right heat t = (?o, t1)" "rows_ok gen t1"
    "\<And>h. edge_count t1 h = edge_count t h"
    "\<And>h. edge_map t1 h = (if h = heat \<and> ?o = Ok True
       then link (edge_map t heat) (th_slot left) (th_slot right) False else edge_map t h)"
    "pt_revision t1 = pt_revision t + (if ?o = Ok True then 1 else 0)"
    using connect_graph [OF inv cur] by blast
  show thesis
  proof (cases "?o = Ok True")
    case False
    then have "connect_kind alloc left right heat t = (?o, t1)"
      using t1(1) by (auto simp: connect_kind_def connect_gas_def connect_heat_def
          split: result.splits bool.splits)
    with False show thesis
      using t1 topo_inv_cong [OF inv t1(2)] by (intro that [of t1]) auto
  next
    case True
    let ?t = "if heat then t1\<lparr>pt_heat_edges := pt_heat_edges t1 + 1\<rparr>
              else t1\<lparr>pt_gas_edges := pt_gas_edges t1 + 1\<rparr>"
    have conn: "connect_kind alloc left right heat t = (?o, ?t)"
      using t1(1) True by (cases heat) (simp_all add: connect_kind_def connect_gas_def connect_heat_def)
    have same: "edge_map ?t h = edge_map t1 h" "rows_ok gen ?t = rows_ok gen t1"
      "pt_revision ?t = pt_revision t1"
      "edge_count ?t h = edge_count t1 h + (if h = heat then 1 else 0)" for h
      by (auto simp: edge_map_def rows_ok_def edge_count_def)
    have "edge_map t heat (th_slot right, th_slot left) = None"
      using connect_outcome_TrueD(2) [OF True] topo_invD(2) [OF inv] by metis
    then have "card (dom (link (edge_map t heat) (th_slot left) (th_slot right) False)) =
        card (dom (edge_map t heat)) + 2"
      using connect_outcome_TrueD [OF True] by (intro card_dom_link)
    then have "topo_inv gen ?t"
      using topo_invD(2,3) [OF inv] t1(2,3,4) True same
      by (intro topo_inv_update [OF inv, of _ heat "link (edge_map t heat) (th_slot left) (th_slot right) False"])
        (auto simp: same intro: link_symmetric)
    with conn True show thesis
      using t1 same by (intro that [of ?t]) auto
  qed
qed

end
