(* ===== verification/Topology_Updates.thy ===== *)
theory Topology_Updates
  imports Topology_Graph
begin

text \<open>
  Disconnecting, firelocks and the removal of a whole slot as updates of the edge map, and runs
  of operations by clients that pass current handles only and recycle a slot after removing it.
\<close>

section \<open>Disconnecting\<close>

definition disconnect_kind ::
  "turf_handle \<Rightarrow> turf_handle \<Rightarrow> bool \<Rightarrow> packed_topology \<Rightarrow>
   (bool, topology_error) result \<times> packed_topology" where
  "disconnect_kind left right heat =
     (if heat then disconnect_heat left right else disconnect_gas left right)"

definition has_edge :: "packed_topology \<Rightarrow> bool \<Rightarrow> turf_handle \<Rightarrow> turf_handle \<Rightarrow> bool" where
  "has_edge t heat left right \<longleftrightarrow> edge_map t heat (th_slot left, th_slot right) \<noteq> None"

lemma has_edgeD:
  assumes "topo_inv gen t" and "has_edge t heat left right"
  shows "th_slot left \<noteq> th_slot right" and "unat (th_slot left) < length (pt_slots t)"
    and "unat (th_slot right) < length (pt_slots t)"
    and "edge_map t heat (th_slot left, th_slot right) \<noteq> None"
    and "edge_map t heat (th_slot right, th_slot left) \<noteq> None"
proof -
  show e: "edge_map t heat (th_slot left, th_slot right) \<noteq> None"
    using assms(2) by (simp add: has_edge_def)
  then show "unat (th_slot left) < length (pt_slots t)" "unat (th_slot right) < length (pt_slots t)"
    using edge_map_outside [OF _ assms(1)] by metis+
  show "th_slot left \<noteq> th_slot right"
    using e edge_map_irrefl [OF topo_invD(1) [OF assms(1)], of heat "th_slot left"] by auto
  show "edge_map t heat (th_slot right, th_slot left) \<noteq> None"
    using e topo_invD(2) [OF assms(1), of heat "th_slot left"] by simp
qed

lemma disconnect_graph:
  assumes inv: "topo_inv gen t" and cur: "current gen left" "current gen right"
    and edge: "has_edge t heat left right"
  obtains t' where "disconnect left right heat t = (Ok True, t')" and "rows_ok gen t'"
    and "\<And>h. edge_count t' h = edge_count t h"
    and "\<And>h. edge_map t' h = (if h = heat
           then unlink (edge_map t heat) (th_slot left) (th_slot right) else edge_map t h)"
    and "pt_revision t' = pt_revision t + 1"
proof -
  note rows = topo_invD(1) [OF inv] and e = has_edgeD [OF inv edge]
  let ?l = "slot_row heat (pt_slots t ! unat (th_slot left))"
    and ?r = "slot_row heat (pt_slots t ! unat (th_slot right))"
  note l = remove_neighbor_row [OF rows_ok_local [OF rows e(2), of heat] cur(2)]
    and r = remove_neighbor_row [OF rows_ok_local [OF rows e(3), of heat] cur(1)]
  let ?t = "set_neighbors_array (set_neighbors_array t left heat (remove_neighbor ?l right))
    right heat (remove_neighbor ?r left)"
  have "find_neighbor t left right heat \<noteq> None"
    using find_neighbor_None_iff [OF rows cur(2), of left heat] e(4) by blast
  then have "disconnect left right heat t = (Ok True, bump_revision ?t)"
    using e(2) neighbors_array_other [OF e(1,3)]
    by (simp add: disconnect_def neighbors_array_Ok Let_def)
  then show thesis
    using write_both [OF rows e(1-3) l(1) r(1) l(2) r(2)]
    by (intro that [of "bump_revision ?t"]) (simp_all add: unlink_def)
qed

lemma disconnect_absent:
  assumes "topo_inv gen t" and "current gen right" and "\<not> has_edge t heat left right"
  shows "disconnect left right heat t = (Ok False, t)"
  using find_neighbor_None_iff [OF topo_invD(1) [OF assms(1)] assms(2), of left heat] assms(3)
  by (simp add: disconnect_def has_edge_def)

lemma disconnect_kind_graph:
  assumes inv: "topo_inv gen t" and cur: "current gen left" "current gen right"
  obtains t' where "disconnect_kind left right heat t = (Ok (has_edge t heat left right), t')"
    and "topo_inv gen t'"
    and "\<And>h. edge_map t' h = (if h = heat
           then unlink (edge_map t heat) (th_slot left) (th_slot right) else edge_map t h)"
    and "pt_revision t' = pt_revision t + (if has_edge t heat left right then 1 else 0)"
proof (cases "has_edge t heat left right")
  case False
  then have "unlink (edge_map t heat) (th_slot left) (th_slot right) = edge_map t heat"
    using topo_invD(2) [OF inv, of heat "th_slot left" "th_slot right"]
    by (auto simp: unlink_def has_edge_def fun_eq_iff)
  with False show thesis
    using disconnect_absent [OF inv cur(2) False] inv
    by (intro that [of t])
      (cases heat; simp add: disconnect_kind_def disconnect_gas_def disconnect_heat_def)+
next
  case True
  obtain t1 where t1: "disconnect left right heat t = (Ok True, t1)" "rows_ok gen t1"
    "\<And>h. edge_count t1 h = edge_count t h"
    "\<And>h. edge_map t1 h = (if h = heat
       then unlink (edge_map t heat) (th_slot left) (th_slot right) else edge_map t h)"
    "pt_revision t1 = pt_revision t + 1"
    using disconnect_graph [OF inv cur True] by blast
  let ?t = "if heat then t1\<lparr>pt_heat_edges := pt_heat_edges t1 - 1\<rparr>
            else t1\<lparr>pt_gas_edges := pt_gas_edges t1 - 1\<rparr>"
  have card: "card (dom (edge_map t heat)) =
      card (dom (unlink (edge_map t heat) (th_slot left) (th_slot right))) + 2"
    using has_edgeD [OF inv True] by (intro card_dom_unlink)
  then have pos: "edge_count t1 heat \<noteq> 0"
    using topo_invD(3) [OF inv, of heat] t1(3) by simp
  then have disc: "disconnect_kind left right heat t = (Ok True, ?t)"
    using t1(1) by (cases heat)
      (simp_all add: disconnect_kind_def disconnect_gas_def disconnect_heat_def edge_count_def)
  have same: "edge_map ?t h = edge_map t1 h" "rows_ok gen ?t = rows_ok gen t1"
    "pt_revision ?t = pt_revision t1"
    "edge_count ?t h = edge_count t1 h - (if h = heat then 1 else 0)" for h
    by (auto simp: edge_map_def rows_ok_def edge_count_def)
  have "2 * (edge_count t heat - 1) =
      card (dom (unlink (edge_map t heat) (th_slot left) (th_slot right)))"
    using card topo_invD(3) [OF inv, of heat] by simp
  then have "topo_inv gen ?t"
    using topo_invD(2) [OF inv] t1(2,3,4) same
    by (intro topo_inv_update [OF inv, of _ heat "unlink (edge_map t heat) (th_slot left) (th_slot right)"])
      (auto simp: same intro: unlink_symmetric)
  with disc True show thesis
    using t1 same by (intro that [of ?t]) auto
qed

section \<open>Firelocks\<close>

lemma set_neighbor_firelock_eq:
  "set_neighbor_firelock left right b t = set_neighbors_array t left False
     (set_row_firelock right b (ts_gas (pt_slots t ! unat (th_slot left))))"
  by (simp add: set_neighbor_firelock_def set_neighbors_array_def)

definition set_firelock_outcome ::
  "turf_handle \<Rightarrow> turf_handle \<Rightarrow> bool \<Rightarrow> packed_topology \<Rightarrow> (bool, topology_error) result" where
  "set_firelock_outcome left right b t =
     (case edge_map t False (th_slot left, th_slot right) of
        None \<Rightarrow> Err MissingGasEdge | Some f \<Rightarrow> Ok (f \<noteq> b))"

lemma set_firelock_graph:
  assumes inv: "topo_inv gen t" and cur: "current gen left" "current gen right"
  obtains t' where "set_firelock left right b t = (set_firelock_outcome left right b t, t')"
    and "topo_inv gen t'" and "edge_map t' True = edge_map t True"
    and "edge_map t' False = (if has_edge t False left right
           then link (edge_map t False) (th_slot left) (th_slot right) b else edge_map t False)"
    and "pt_revision t' =
      pt_revision t + (if set_firelock_outcome left right b t = Ok True then 1 else 0)"
proof -
  note rows = topo_invD(1) [OF inv]
  note find = find_neighbor_edge [OF rows cur(2), of left False]
  show thesis
  proof (cases "edge_map t False (th_slot left, th_slot right)")
    case None
    with find have "find_neighbor t left right False = None" by simp
    with None show thesis
      using inv by (intro that [of t]) (simp_all add: set_firelock_def set_firelock_outcome_def has_edge_def)
  next
    case (Some f)
    then have edge: "has_edge t False left right" by (simp add: has_edge_def)
    obtain n where n: "find_neighbor t left right False = Some n" "tn_firelock n = f"
      using find Some by auto
    note e = has_edgeD [OF inv edge]
    let ?a = "th_slot left" and ?b = "th_slot right"
    have sym: "edge_map t False (?b, ?a) = Some f"
      using Some topo_invD(2) [OF inv] by metis
    show thesis
    proof (cases "f = b")
      case True
      then have "link (edge_map t False) ?a ?b b = edge_map t False"
        using Some sym by (auto simp: link_def fun_eq_iff)
      with True Some n edge show thesis
        using inv by (intro that [of t]) (simp_all add: set_firelock_def set_firelock_outcome_def)
    next
      case False
      let ?l = "set_row_firelock right b (slot_row False (pt_slots t ! unat ?a))"
        and ?r = "set_row_firelock left b (slot_row False (pt_slots t ! unat ?b))"
      have found: "row_find (slot_row False (pt_slots t ! unat ?a)) ?b \<noteq> None"
        "row_find (slot_row False (pt_slots t ! unat ?b)) ?a \<noteq> None"
        using e(4,5) edge_map_in_range [OF e(2), of False] edge_map_in_range [OF e(3), of False]
        by simp_all
      note l = set_row_firelock_row [OF rows_ok_local [OF rows e(2)] cur(2) found(1), of b]
        and r = set_row_firelock_row [OF rows_ok_local [OF rows e(3)] cur(1) found(2), of b]
      let ?t1 = "set_neighbors_array t left False ?l"
      let ?t = "set_neighbors_array ?t1 right False ?r"
      note both = write_both [OF rows e(1-3) l(1) r(1) l(2) r(2)]
      have rows1: "rows_ok gen ?t1"
        by (rule rows_ok_set_neighbors_array [OF rows l(1)])
      have "edge_map ?t1 False (?b, ?a) \<noteq> None"
        using e by (simp add: edge_map_set_neighbors_array del: not_None_eq)
      then obtain m where "find_neighbor ?t1 right left False = Some m"
        using find_neighbor_None_iff [OF rows1 cur(1), of right False] by (auto simp del: slot_row_simps)
      moreover have "ts_gas (pt_slots ?t1 ! unat ?b) = ts_gas (pt_slots t ! unat ?b)"
        using e(1) by (simp add: set_neighbors_array_def Let_def word_unat_eq_iff)
      ultimately have fire: "set_firelock left right b t = (Ok True, bump_revision ?t)"
        using n False by (simp add: set_firelock_def set_neighbor_firelock_eq Let_def)
      have "topo_inv gen (bump_revision ?t)"
        using topo_invD(2,3) [OF inv] both card_dom_relink [OF e(4,5), of b]
        by (intro topo_inv_update [OF inv, of _ False "link (edge_map t False) ?a ?b b"])
          (auto simp: link_def [symmetric] intro: link_symmetric)
      with fire False Some edge show thesis
        using both by (intro that [of "bump_revision ?t"])
          (simp_all add: set_firelock_outcome_def link_def)
    qed
  qed
qed

section \<open>Removing a slot\<close>

text \<open>The loop over the former neighbors removes the back references and nothing else.\<close>

lemma remove_back_reference_graph:
  assumes rows: "rows_ok gen t"
  shows "rows_ok gen (remove_back_reference slot heat n t)"
    and "edge_map (remove_back_reference slot heat n t) h (a, b) =
      (if h = heat \<and> b = slot \<and> a = th_slot (tn_handle n) then None else edge_map t h (a, b))"
    and "edge_count (remove_back_reference slot heat n t) h = edge_count t h"
    and "pt_revision (remove_back_reference slot heat n t) = pt_revision t"
proof -
  let ?i = "unat (th_slot (tn_handle n))"
  let ?row = "slot_row heat (pt_slots t ! ?i)"
  have in_range: "remove_back_reference slot heat n t =
      set_neighbors_array t (tn_handle n) heat (remove_neighbor_slot ?row slot)"
    if "?i < length (pt_slots t)"
    using that by (simp add: remove_back_reference_def vec_get_def)
  have outside: "remove_back_reference slot heat n t = t" if "\<not> ?i < length (pt_slots t)"
    using that by (simp add: remove_back_reference_def vec_get_def)
  show "rows_ok gen (remove_back_reference slot heat n t)"
  proof (cases "?i < length (pt_slots t)")
    case True
    with rows show ?thesis
      by (auto simp: in_range intro!: rows_ok_set_neighbors_array remove_neighbor_slot_row rows_ok_local)
  qed (simp add: outside rows)
  show "edge_map (remove_back_reference slot heat n t) h (a, b) =
      (if h = heat \<and> b = slot \<and> a = th_slot (tn_handle n) then None else edge_map t h (a, b))"
  proof (cases "?i < length (pt_slots t)")
    case True
    then show ?thesis
      using remove_neighbor_slot_row(2) [OF rows_ok_local [OF rows True, of heat], of slot]
      by (simp add: in_range edge_map_set_neighbors_array edge_map_in_range [OF True])
  next
    case False
    then show ?thesis by (auto simp: outside edge_map_def vec_get_def)
  qed
  show "edge_count (remove_back_reference slot heat n t) h = edge_count t h"
    and "pt_revision (remove_back_reference slot heat n t) = pt_revision t"
    by (cases "?i < length (pt_slots t)"; simp add: in_range outside)+
qed

lemma fold_back_references:
  assumes "rows_ok gen t"
  shows "rows_ok gen (fold (remove_back_reference slot heat) ns t) \<and>
    (\<forall>h a b. edge_map (fold (remove_back_reference slot heat) ns t) h (a, b) =
      (if h = heat \<and> b = slot \<and> a \<in> (\<lambda>n. th_slot (tn_handle n)) ` set ns
       then None else edge_map t h (a, b))) \<and>
    (\<forall>h. edge_count (fold (remove_back_reference slot heat) ns t) h = edge_count t h) \<and>
    pt_revision (fold (remove_back_reference slot heat) ns t) = pt_revision t"
  using assms
proof (induction ns arbitrary: t)
  case (Cons n ns)
  note step = remove_back_reference_graph [OF Cons.prems, of slot heat n]
  show ?case
    using Cons.IH [OF step(1)] by (auto simp: step(2-4))
qed simp

definition clear_slot :: "u32 \<Rightarrow> packed_topology \<Rightarrow> packed_topology" where
  "clear_slot slot t = t\<lparr>pt_slots := (pt_slots t)[unat slot := topology_slot_default]\<rparr>"

lemma clear_slot_graph:
  assumes "rows_ok gen t"
  shows "rows_ok gen (clear_slot slot t)"
    and "edge_map (clear_slot slot t) h (a, b) = (if a = slot then None else edge_map t h (a, b))"
    and "edge_count (clear_slot slot t) h = edge_count t h"
    and "pt_revision (clear_slot slot t) = pt_revision t"
proof -
  show "rows_ok gen (clear_slot slot t)"
    using assms default_row
    by (cases "unat slot < length (pt_slots t)")
      (auto simp: rows_ok_def clear_slot_def nth_list_update slot_row_default)
  show "edge_map (clear_slot slot t) h (a, b) = (if a = slot then None else edge_map t h (a, b))"
    by (auto simp: edge_map_def clear_slot_def vec_get_def nth_list_update slot_row_default
        default_row simp flip: word_unat_eq_iff)
qed (simp_all add: clear_slot_def edge_count_def)

text \<open>What a removal does to the edge counters.\<close>

lemma edge_count_isolate:
  assumes "topo_inv gen t"
  shows "2 * (edge_count t h - degree t h slot) = card (dom (isolate (edge_map t h) slot))"
    and "degree t h slot \<le> edge_count t h"
proof -
  have "2 * edge_count t h = card (dom (isolate (edge_map t h) slot)) + 2 * degree t h slot"
    using card_dom_isolate [of "edge_map t h" slot, OF topo_invD(2) [OF assms]]
      edge_map_irrefl [OF topo_invD(1) [OF assms]] topo_invD(3) [OF assms]
    by (simp add: degree_def)
  then show "2 * (edge_count t h - degree t h slot) = card (dom (isolate (edge_map t h) slot))"
    and "degree t h slot \<le> edge_count t h"
    by linarith+
qed

lemma isolate_idem:
  assumes "topo_inv gen t" and "degree t h slot = 0"
  shows "isolate (edge_map t h) slot = edge_map t h"
proof -
  have none: "edge_map t h (slot, b) = None" for b
    using assms(2) by (simp add: degree_def)
  moreover have "edge_map t h (b, slot) = None" for b
    using none [of b] topo_invD(2) [OF assms(1)] by metis
  ultimately show ?thesis by (auto simp: isolate_def fun_eq_iff)
qed

lemma topo_inv_isolate:
  assumes inv: "topo_inv gen t" and "rows_ok gen t'"
    and edges: "\<And>h. edge_map t' h = isolate (edge_map t h) slot"
    and count: "\<And>h. edge_count t' h = edge_count t h - degree t h slot"
  shows "topo_inv gen t'"
  unfolding topo_inv_def symmetric_def
  using assms(2) isolate_symmetric [of "edge_map t _", OF topo_invD(2) [OF inv]]
    edge_count_isolate(1) [OF inv]
  by (simp add: edges count)

lemma remove_slot_graph:
  assumes inv: "topo_inv gen t"
  obtains t' where "remove_slot slot t =
      (Ok (degree t False slot \<noteq> 0 \<or> degree t True slot \<noteq> 0), t')"
    and "topo_inv gen t'" and "\<And>h. edge_map t' h = isolate (edge_map t h) slot"
    and "pt_revision t' =
      pt_revision t + (if degree t False slot \<noteq> 0 \<or> degree t True slot \<noteq> 0 then 1 else 0)"
proof (cases "degree t False slot = 0 \<and> degree t True slot = 0")
  case True
  have "remove_slot slot t = (Ok False, t)"
  proof (cases "unat slot < length (pt_slots t)")
    case in_range: True
    with True show ?thesis
      using degree_eq [OF topo_invD(1) [OF inv] in_range, of False]
        degree_eq [OF topo_invD(1) [OF inv] in_range, of True]
      by (simp add: remove_slot_def vec_get_def Let_def)
  qed (simp add: remove_slot_def vec_get_def)
  moreover have "edge_map t h = isolate (edge_map t h) slot" for h
    using True isolate_idem [OF inv, of h slot] by (cases h) simp_all
  ultimately show thesis
    using True inv by (intro that [of t]) simp_all
next
  case False
  have range: "unat slot < length (pt_slots t)"
  proof (rule ccontr)
    assume "\<not> unat slot < length (pt_slots t)"
    then have "degree t h slot = 0" for h
      by (simp add: degree_def edge_map_def vec_get_def)
    with False show False by simp
  qed
  note rows = topo_invD(1) [OF inv]
  let ?ns = "\<lambda>h. flatten (slot_row h (pt_slots t ! unat slot))"
  have len: "length (?ns h) = degree t h slot" for h
    using degree_eq [OF rows range] by simp
  have refs: "edge_map t h (a, slot) \<noteq> None \<longleftrightarrow> a \<in> (\<lambda>n. th_slot (tn_handle n)) ` set (?ns h)" for h a
  proof -
    have "edge_map t h (a, slot) = edge_map t h (slot, a)" by (rule topo_invD(2) [OF inv])
    also have "\<dots> = row_find (slot_row h (pt_slots t ! unat slot)) a"
      by (rule edge_map_in_range [OF range])
    finally show ?thesis by (simp add: dom_row_find [symmetric] dom_def)
  qed
  note cleared = clear_slot_graph [OF rows, of slot]
  define t1 where "t1 = fold (remove_back_reference slot False) (?ns False) (clear_slot slot t)"
  define t2 where "t2 = fold (remove_back_reference slot True) (?ns True) t1"
  note f1 = fold_back_references [OF cleared(1), of slot False "?ns False", folded t1_def]
  note f2 = fold_back_references [OF f1 [THEN conjunct1], of slot True "?ns True", folded t2_def]
  have edges: "edge_map t2 h = isolate (edge_map t h) slot" for h
  proof (rule ext)
    fix ab :: "u32 \<times> u32"
    obtain a b where ab: "ab = (a, b)" by (cases ab)
    show "edge_map t2 h ab = isolate (edge_map t h) slot ab"
      using f1 f2 cleared(2) refs [of h a] by (cases h) (auto simp: ab isolate_def)
  qed
  have counts: "edge_count t2 h = edge_count t h" "pt_revision t2 = pt_revision t" for h
    using f1 f2 cleared(3,4) by simp_all
  let ?t = "bump_revision (t2\<lparr>pt_gas_edges := pt_gas_edges t2 - degree t False slot,
                             pt_heat_edges := pt_heat_edges t2 - degree t True slot\<rparr>)"
  have enough: "\<not> pt_gas_edges t2 < degree t False slot" "\<not> pt_heat_edges t2 < degree t True slot"
    using edge_count_isolate(2) [OF inv, of False slot] edge_count_isolate(2) [OF inv, of True slot]
      counts(1) [of False] counts(1) [of True]
    by (simp_all add: edge_count_def)
  have t2: "fold (remove_back_reference slot True) (flatten (ts_heat (pt_slots t ! unat slot)))
      (fold (remove_back_reference slot False) (flatten (ts_gas (pt_slots t ! unat slot)))
        (clear_slot slot t)) = t2"
    by (simp add: t1_def t2_def)
  have "flatten (ts_gas (pt_slots t ! unat slot)) \<noteq> [] \<or> flatten (ts_heat (pt_slots t ! unat slot)) \<noteq> []"
    using False len [of False] len [of True] by auto
  then have "remove_slot slot t = (Ok True, ?t)"
    using range len [of False] len [of True] enough
    by (simp add: remove_slot_def vec_get_def Let_def clear_slot_def [symmetric] t2)
  moreover have "edge_map ?t h = isolate (edge_map t h) slot" for h
    by (simp add: edges [symmetric]) (simp add: edge_map_def)
  moreover have "edge_count ?t h = edge_count t h - degree t h slot" for h
    using counts(1) [of h] by (cases h) (simp_all add: edge_count_def bump_revision_def)
  moreover have "rows_ok gen ?t"
    using f2 by (simp add: rows_ok_def bump_revision_def)
  ultimately show thesis
    using False counts(2) topo_inv_isolate [OF inv, of ?t slot] by (intro that [of ?t]) simp_all
qed

section \<open>Runs\<close>

text \<open>
  A client holds the generation of every slot. It passes current handles only (\<open>World\<close> rejects
  the others before it calls the topology) and gives a slot a new generation only after
  \<open>remove_slot\<close>.
\<close>

datatype topology_op =
  ConnectOp bool turf_handle turf_handle
| DisconnectOp bool turf_handle turf_handle
| FirelockOp turf_handle turf_handle bool
| RecycleOp u32 u32

fun topology_apply ::
  "(nat \<Rightarrow> bool) \<Rightarrow> topology_op \<Rightarrow> (u32 \<Rightarrow> u32) \<times> packed_topology \<Rightarrow>
   (bool, topology_error) result \<times> (u32 \<Rightarrow> u32) \<times> packed_topology" where
  "topology_apply alloc (ConnectOp heat left right) (gen, t) =
     (if current gen left \<and> current gen right
      then let (r, t') = (if heat then connect_heat alloc left right t else connect_gas alloc left right t)
           in (r, gen, t')
      else (Ok False, gen, t))"
| "topology_apply alloc (DisconnectOp heat left right) (gen, t) =
     (if current gen left \<and> current gen right
      then let (r, t') = (if heat then disconnect_heat left right t else disconnect_gas left right t)
           in (r, gen, t')
      else (Ok False, gen, t))"
| "topology_apply alloc (FirelockOp left right b) (gen, t) =
     (if current gen left \<and> current gen right
      then let (r, t') = set_firelock left right b t in (r, gen, t')
      else (Ok False, gen, t))"
| "topology_apply alloc (RecycleOp slot generation) (gen, t) =
     (let (r, t') = remove_slot slot t in (r, gen(slot := generation), t'))"

definition topology_client_step ::
  "(nat \<Rightarrow> bool) \<Rightarrow> (u32 \<Rightarrow> u32) \<times> packed_topology \<Rightarrow> topology_op \<Rightarrow> (u32 \<Rightarrow> u32) \<times> packed_topology" where
  "topology_client_step alloc s op = snd (topology_apply alloc op s)"

text \<open>An isolated slot may change its generation.\<close>

lemma isolated_absent:
  assumes "topo_inv gen t" and "\<And>h b. edge_map t h (slot, b) = None"
    and "s < length (pt_slots t)" and "n \<in> set (flatten (slot_row h (pt_slots t ! s)))"
  shows "th_slot (tn_handle n) \<noteq> slot"
proof
  assume n: "th_slot (tn_handle n) = slot"
  have "s < 2 ^ 32"
    using assms(1,3) by (simp add: topo_inv_def rows_ok_def)
  then have s: "unat (word_of_nat s :: u32) = s"
    by (simp add: unat_of_nat take_bit_nat_eq_self)
  have "edge_map t h (word_of_nat s, slot) \<noteq> None"
    using assms(3,4) n by (auto simp: edge_map_in_range s row_find_eq_None simp del: not_None_eq)
  then show False
    using assms(2) topo_invD(2) [OF assms(1)] by metis
qed

lemma topo_inv_regenerate:
  assumes inv: "topo_inv gen t" and "\<And>h b. edge_map t h (slot, b) = None"
  shows "topo_inv (gen(slot := g)) t"
proof -
  have "local_ok (gen(slot := g)) s (slot_row h (pt_slots t ! s))" if "s < length (pt_slots t)" for s h
    using inv that isolated_absent [OF assms that, of _ h]
    by (auto simp: topo_inv_def rows_ok_def local_ok_def current_def)
  with inv show ?thesis by (simp add: topo_inv_def rows_ok_def)
qed

text \<open>The four operations as facts about their results.\<close>

lemma connect_kind_result:
  assumes "topo_inv gen t" and "current gen left" and "current gen right"
  shows "\<exists>t'. connect_kind alloc left right heat t = (connect_outcome alloc left right heat t, t') \<and>
    topo_inv gen t' \<and>
    (\<forall>h. edge_map t' h = (if h = heat \<and> connect_outcome alloc left right heat t = Ok True
       then link (edge_map t heat) (th_slot left) (th_slot right) False else edge_map t h)) \<and>
    pt_revision t' = pt_revision t + (if connect_outcome alloc left right heat t = Ok True then 1 else 0)"
  by (rule connect_kind_graph [OF assms, of alloc heat]) blast

lemma disconnect_kind_result:
  assumes "topo_inv gen t" and "current gen left" and "current gen right"
  shows "\<exists>t'. disconnect_kind left right heat t = (Ok (has_edge t heat left right), t') \<and> topo_inv gen t' \<and>
    (\<forall>h. edge_map t' h = (if h = heat
       then unlink (edge_map t heat) (th_slot left) (th_slot right) else edge_map t h)) \<and>
    pt_revision t' = pt_revision t + (if has_edge t heat left right then 1 else 0)"
  by (rule disconnect_kind_graph [OF assms, of heat]) blast

lemma set_firelock_result:
  assumes "topo_inv gen t" and "current gen left" and "current gen right"
  shows "\<exists>t'. set_firelock left right b t = (set_firelock_outcome left right b t, t') \<and> topo_inv gen t' \<and>
    edge_map t' True = edge_map t True \<and>
    edge_map t' False = (if has_edge t False left right
       then link (edge_map t False) (th_slot left) (th_slot right) b else edge_map t False) \<and>
    pt_revision t' = pt_revision t + (if set_firelock_outcome left right b t = Ok True then 1 else 0)"
  by (rule set_firelock_graph [OF assms, of b]) blast

lemma remove_slot_result:
  assumes "topo_inv gen t"
  shows "\<exists>t'. remove_slot slot t = (Ok (degree t False slot \<noteq> 0 \<or> degree t True slot \<noteq> 0), t') \<and>
    topo_inv gen t' \<and> (\<forall>h. edge_map t' h = isolate (edge_map t h) slot)"
  by (rule remove_slot_graph [OF assms, of slot]) blast

lemma topology_apply_inv:
  assumes "topo_inv gen t"
  shows "case topology_apply alloc op (gen, t) of (r, gen', t') \<Rightarrow> r \<noteq> Panic \<and> topo_inv gen' t'"
proof (cases op)
  case (ConnectOp heat left right)
  then show ?thesis
    using assms connect_outcome_neq_Panic [of alloc left right heat t]
      connect_kind_result [OF assms, of left right alloc heat]
    by (cases heat) (auto simp: connect_kind_def)
next
  case (DisconnectOp heat left right)
  then show ?thesis
    using assms disconnect_kind_result [OF assms, of left right heat]
    by (cases heat) (auto simp: disconnect_kind_def)
next
  case (FirelockOp left right b)
  moreover have "set_firelock_outcome left right b t \<noteq> Panic"
    by (simp add: set_firelock_outcome_def split: option.split)
  ultimately show ?thesis
    using assms set_firelock_result [OF assms, of left right b] by auto
next
  case (RecycleOp slot g)
  then show ?thesis
    using remove_slot_result [OF assms, of slot]
    by (auto simp: isolate_def intro!: topo_inv_regenerate)
qed

lemma topo_inv_default: "topo_inv gen packed_topology_default"
proof -
  have "edge_map packed_topology_default h = Map.empty" for h
    by (auto simp: edge_map_def packed_topology_default_def)
  then show ?thesis
    by (auto simp: topo_inv_def symmetric_def rows_ok_def edge_count_def packed_topology_default_def)
qed

interpretation topo_run: step_system "topology_client_step alloc" "\<lambda>(gen, t). topo_inv gen t"
  for alloc
proof
  fix s op
  assume "case s of (gen, t) \<Rightarrow> topo_inv gen t"
  then show "case topology_client_step alloc s op of (gen, t) \<Rightarrow> topo_inv gen t"
    using topology_apply_inv [of "fst s" "snd s" alloc op]
    by (auto simp: topology_client_step_def split: prod.splits)
qed

lemma topology_run_inv:
  "foldl (topology_client_step alloc) (gen0, packed_topology_default) ops = (gen, t) \<Longrightarrow> topo_inv gen t"
  using topo_run.run_inv [of "(gen0, packed_topology_default)" alloc ops] topo_inv_default by simp

section \<open>Properties\<close>

text \<open>
  C1: whatever operations a client performs on a new topology, the topology stays an undirected
  graph: both ends of an edge name each other and agree on the firelock flag, no slot is its own
  neighbor, no slot has more than six neighbors, and each counter is half the number of ordered
  edges. No further operation panics.
\<close>

theorem topology_stays_graph:
  "case foldl (topology_client_step alloc) (gen0, packed_topology_default) ops of (gen, t) \<Rightarrow>
     (\<forall>heat a b. edge_map t heat (a, b) = edge_map t heat (b, a)) \<and>
     (\<forall>heat a. edge_map t heat (a, a) = None \<and> degree t heat a \<le> max_turf_neighbors) \<and>
     2 * pt_gas_edges t = card (dom (edge_map t False)) \<and>
     2 * pt_heat_edges t = card (dom (edge_map t True)) \<and>
     (\<forall>op. fst (topology_apply alloc op (gen, t)) \<noteq> Panic)"
proof -
  obtain gen t where run: "foldl (topology_client_step alloc) (gen0, packed_topology_default) ops = (gen, t)"
    by force
  note inv = topology_run_inv [OF run]
  have "fst (topology_apply alloc op (gen, t)) \<noteq> Panic" for op
    using topology_apply_inv [OF inv, of alloc op] by (auto split: prod.splits)
  then show ?thesis
    using topo_invD(2) [OF inv] edge_map_irrefl [OF topo_invD(1) [OF inv]]
      degree_bound [OF topo_invD(1) [OF inv]] topo_invD(3) [OF inv, of False] topo_invD(3) [OF inv, of True]
    by (simp add: run edge_count_def)
qed

text \<open>
  \<open>connect_gas\<close> with current handles answers from the graph alone (self edge, allocation
  failure, already connected, degree six at either end, connected) and changes the graph, by the
  one undirected edge without firelock, exactly when it answers \<open>Ok(true)\<close>; the revision counts
  the changes.
\<close>

theorem connect_gas_refines_link:
  assumes "topo_inv gen t" and "current gen left" and "current gen right"
  shows "case connect_gas alloc left right t of (r, t') \<Rightarrow>
     r = connect_outcome alloc left right False t \<and> topo_inv gen t' \<and>
     edge_map t' True = edge_map t True \<and>
     edge_map t' False = (if r = Ok True
       then link (edge_map t False) (th_slot left) (th_slot right) False else edge_map t False) \<and>
     pt_revision t' = pt_revision t + (if r = Ok True then 1 else 0)"
  using connect_kind_result [OF assms, of alloc False] by (auto simp: connect_kind_def)

theorem connect_gas_refines_link_witness:
  "\<exists>t'. connect_gas (\<lambda>_. True) (TurfHandle 3 1) (TurfHandle 1 1) packed_topology_default = (Ok True, t') \<and>
     edge_map t' False = Map.empty((3, 1) \<mapsto> False, (1, 3) \<mapsto> False)"
proof -
  have empty: "edge_map packed_topology_default h = Map.empty" for h
    by (auto simp: edge_map_def packed_topology_default_def)
  have "connect_outcome (\<lambda>_. True) (TurfHandle 3 1) (TurfHandle 1 1) False packed_topology_default = Ok True"
    by (simp add: connect_outcome_def slot_available_def degree_def empty max_turf_neighbors_def)
  then show ?thesis
    using connect_gas_refines_link [of "\<lambda>_. 1" packed_topology_default "TurfHandle 3 1" "TurfHandle 1 1"
        "\<lambda>_. True"] topo_inv_default
    by (auto simp: current_def empty link_def split: prod.splits)
qed

text \<open>
  \<open>remove_slot\<close> follows only the slot's own rows and yet removes every edge of the slot, in
  both layers, keeps all others, answers whether there was one, and leaves the counters exact.
\<close>

theorem remove_slot_isolates:
  assumes "topo_inv gen t"
  shows "case remove_slot slot t of (r, t') \<Rightarrow>
     r = Ok (\<exists>heat b. edge_map t heat (slot, b) \<noteq> None) \<and> topo_inv gen t' \<and>
     (\<forall>heat. edge_map t' heat = isolate (edge_map t heat) slot)"
proof -
  have "degree t h slot \<noteq> 0 \<longleftrightarrow> (\<exists>b. edge_map t h (slot, b) \<noteq> None)" for h
    by (auto simp: degree_def card_eq_0_iff)
  then have "(degree t False slot \<noteq> 0 \<or> degree t True slot \<noteq> 0) \<longleftrightarrow>
      (\<exists>heat b. edge_map t heat (slot, b) \<noteq> None)"
    by (metis (full_types))
  then show ?thesis
    using remove_slot_result [OF assms, of slot] by (auto simp del: not_None_eq)
qed

theorem remove_slot_isolates_witness:
  "\<exists>t'. remove_slot 3 (snd (connect_gas (\<lambda>_. True) (TurfHandle 3 1) (TurfHandle 1 1)
      packed_topology_default)) = (Ok True, t') \<and> edge_map t' False = Map.empty"
proof -
  obtain t where t: "connect_gas (\<lambda>_. True) (TurfHandle 3 1) (TurfHandle 1 1) packed_topology_default = (Ok True, t)"
    "edge_map t False = Map.empty((3, 1) \<mapsto> False, (1, 3) \<mapsto> False)" "topo_inv (\<lambda>_. 1) t"
  proof -
    have empty: "edge_map packed_topology_default h = Map.empty" for h
      by (auto simp: edge_map_def packed_topology_default_def)
    have "connect_outcome (\<lambda>_. True) (TurfHandle 3 1) (TurfHandle 1 1) False packed_topology_default = Ok True"
      by (simp add: connect_outcome_def slot_available_def degree_def empty max_turf_neighbors_def)
    then show thesis
      using connect_kind_result [of "\<lambda>_. 1" packed_topology_default "TurfHandle 3 1" "TurfHandle 1 1"
          "\<lambda>_. True" False] topo_inv_default that
      by (auto simp: current_def connect_kind_def empty link_def split: prod.splits)
  qed
  have "\<exists>heat b. edge_map t heat (3, b) \<noteq> None"
    using t(2) by (intro exI [of _ False] exI [of _ 1]) simp
  moreover have "isolate (edge_map t False) 3 = Map.empty"
    by (auto simp: isolate_def t(2) fun_eq_iff)
  ultimately show ?thesis
    using remove_slot_isolates [OF t(3), of 3] by (auto simp: t(1) split: prod.splits)
qed

end
