(* ===== verification/Slot_Index.thy ===== *)
theory Slot_Index
  imports Dogmos_Prelude
begin

text \<open>
  The generation-checked lookup storage of \<^verbatim>\<open>crates/dogmos-core/src/slot_index.rs\<close>: a dense
  vector of \<open>(epoch, key, value)\<close> entries indexed by the slot of the key, in which a change of
  epoch clears the membership without touching the entries.

  The trait \<open>SlotKey\<close> is the argument \<open>key_slot\<close> of the operations. \<open>slot_map\<close> states what
  the rest of the core relies on (at most one key per slot, a lookup that needs the whole key);
  \<open>SlotIndex\<close> implements it for every key type, and \<open>SlotSet\<close> is a client of it.
\<close>

section \<open>The storage\<close>

record ('k, 'v) slot_index =
  si_entries :: "(u64 \<times> 'k \<times> 'v) option list"
  si_epoch :: u64
  si_touched :: "nat list"

definition slot_index_new :: "('k, 'v) slot_index" where
  "slot_index_new = \<lparr>si_entries = [], si_epoch = 1, si_touched = []\<rparr>"

definition slot_index_clear :: "('k, 'v) slot_index \<Rightarrow> ('k, 'v) slot_index" where
  "slot_index_clear ix =
     (case checked_add (si_epoch ix) 1 of
        Some epoch \<Rightarrow> ix\<lparr>si_touched := [], si_epoch := epoch\<rparr>
      | None \<Rightarrow> ix\<lparr>si_touched := [], si_entries := [], si_epoch := 1\<rparr>)"

text \<open>
  \<open>insert\<close> returns the value it replaces, if that value is of the current epoch and of the same
  key.
\<close>

definition slot_index_insert ::
  "('k \<Rightarrow> nat) \<Rightarrow> 'k \<Rightarrow> 'v \<Rightarrow> ('k, 'v) slot_index \<Rightarrow> 'v option \<times> ('k, 'v) slot_index" where
  "slot_index_insert key_slot key val ix =
     (let slot = key_slot key;
          entries = (if length (si_entries ix) \<le> slot
                     then vec_resize (slot + 1) None (si_entries ix) else si_entries ix);
          previous = entries ! slot;
          entries = entries[slot := Some (si_epoch ix, key, val)];
          touched = (case previous of
                       None \<Rightarrow> si_touched ix @ [slot]
                     | Some (epoch, _, _) \<Rightarrow>
                         if epoch \<noteq> si_epoch ix then si_touched ix @ [slot] else si_touched ix);
          old = (case previous of
                   None \<Rightarrow> None
                 | Some (epoch, old_key, old_val) \<Rightarrow>
                     if epoch = si_epoch ix \<and> old_key = key then Some old_val else None)
      in (old, ix\<lparr>si_entries := entries, si_touched := touched\<rparr>))"

definition slot_index_get :: "('k \<Rightarrow> nat) \<Rightarrow> ('k, 'v) slot_index \<Rightarrow> 'k \<Rightarrow> 'v option" where
  "slot_index_get key_slot ix key =
     (case vec_get (si_entries ix) (key_slot key) of
        None \<Rightarrow> None
      | Some None \<Rightarrow> None
      | Some (Some (epoch, stored, val)) \<Rightarrow>
          if epoch = si_epoch ix \<and> stored = key then Some val else None)"

definition slot_index_contains_key :: "('k \<Rightarrow> nat) \<Rightarrow> ('k, 'v) slot_index \<Rightarrow> 'k \<Rightarrow> bool" where
  "slot_index_contains_key key_slot ix key \<longleftrightarrow> slot_index_get key_slot ix key \<noteq> None"

text \<open>\<open>Index::index\<close> panics on an absent key.\<close>

definition slot_index_index :: "('k \<Rightarrow> nat) \<Rightarrow> ('k, 'v) slot_index \<Rightarrow> 'k \<Rightarrow> ('v, unit) result" where
  "slot_index_index key_slot ix key =
     (case slot_index_get key_slot ix key of Some v \<Rightarrow> Ok v | None \<Rightarrow> Panic)"

text \<open>The \<open>SlotKey\<close> instances.\<close>

definition u32_slot :: "u32 \<Rightarrow> nat" where
  "u32_slot k = unat k"

definition turf_handle_slot :: "turf_handle \<Rightarrow> nat" where
  "turf_handle_slot h = unat (th_slot h)"

definition mixture_handle_slot :: "mixture_handle \<Rightarrow> nat" where
  "mixture_handle_slot h = unat (mh_slot h)"

section \<open>Membership only: SlotSet\<close>

type_synonym 'k slot_set = "('k, unit) slot_index"

definition slot_set_new :: "'k slot_set" where
  "slot_set_new = slot_index_new"

definition slot_set_clear :: "'k slot_set \<Rightarrow> 'k slot_set" where
  "slot_set_clear s = slot_index_clear s"

definition slot_set_insert :: "('k \<Rightarrow> nat) \<Rightarrow> 'k \<Rightarrow> 'k slot_set \<Rightarrow> bool \<times> 'k slot_set" where
  "slot_set_insert key_slot key s =
     (case slot_index_insert key_slot key () s of (old, s') \<Rightarrow> (old = None, s'))"

definition slot_set_contains :: "('k \<Rightarrow> nat) \<Rightarrow> 'k slot_set \<Rightarrow> 'k \<Rightarrow> bool" where
  "slot_set_contains key_slot s key \<longleftrightarrow> slot_index_contains_key key_slot s key"

definition slot_set_from_iter :: "('k \<Rightarrow> nat) \<Rightarrow> 'k list \<Rightarrow> 'k slot_set" where
  "slot_set_from_iter key_slot keys =
     fold (\<lambda>key s. snd (slot_set_insert key_slot key s)) keys slot_set_new"

section \<open>Invariant\<close>

text \<open>
  Epochs start at 1 and entries are never newer than the current epoch (so the increment of
  \<open>clear\<close> invalidates all of them); \<open>touched\<close> lists the slots with a live entry, once each.
\<close>

definition entry_live :: "('k, 'v) slot_index \<Rightarrow> nat \<Rightarrow> bool" where
  "entry_live ix i \<longleftrightarrow>
     (\<exists>k v. i < length (si_entries ix) \<and> si_entries ix ! i = Some (si_epoch ix, k, v))"

definition slot_index_inv :: "('k \<Rightarrow> nat) \<Rightarrow> ('k, 'v) slot_index \<Rightarrow> bool" where
  "slot_index_inv key_slot ix \<longleftrightarrow>
     si_epoch ix \<noteq> 0 \<and>
     (\<forall>i e k v. i < length (si_entries ix) \<longrightarrow> si_entries ix ! i = Some (e, k, v) \<longrightarrow>
        e \<le> si_epoch ix \<and> key_slot k = i) \<and>
     distinct (si_touched ix) \<and> set (si_touched ix) = {i. entry_live ix i}"

lemma slot_index_invI:
  assumes "si_epoch ix \<noteq> 0"
    and "\<And>i e k v. i < length (si_entries ix) \<Longrightarrow> si_entries ix ! i = Some (e, k, v) \<Longrightarrow>
           e \<le> si_epoch ix \<and> key_slot k = i"
    and "distinct (si_touched ix)"
    and "\<And>i. i \<in> set (si_touched ix) \<longleftrightarrow> entry_live ix i"
  shows "slot_index_inv key_slot ix"
  using assms unfolding slot_index_inv_def by blast

lemma slot_index_inv_entry:
  "slot_index_inv key_slot ix \<Longrightarrow> i < length (si_entries ix) \<Longrightarrow>
   si_entries ix ! i = Some (e, k, v) \<Longrightarrow> e \<le> si_epoch ix \<and> key_slot k = i"
  unfolding slot_index_inv_def by blast

lemma slot_index_inv_touched:
  "slot_index_inv key_slot ix \<Longrightarrow> distinct (si_touched ix) \<and> (i \<in> set (si_touched ix) \<longleftrightarrow> entry_live ix i)"
  unfolding slot_index_inv_def by auto

lemma slot_index_get_eq_Some:
  "slot_index_get key_slot ix key = Some v \<longleftrightarrow>
     key_slot key < length (si_entries ix) \<and>
     si_entries ix ! key_slot key = Some (si_epoch ix, key, v)"
  by (auto simp: slot_index_get_def vec_get_def split: option.splits)

lemma slot_index_new_inv: "slot_index_inv key_slot slot_index_new"
  by (rule slot_index_invI) (auto simp: slot_index_new_def entry_live_def)

lemma slot_index_new_get: "slot_index_get key_slot slot_index_new k = None"
  by (simp add: slot_index_get_def slot_index_new_def)

text \<open>\<open>clear\<close>, whether it moves to the next epoch or starts over at epoch 1.\<close>

lemma slot_index_clear_stale:
  assumes "slot_index_inv key_slot ix"
  shows "\<not> entry_live (slot_index_clear ix) i"
proof (cases "checked_add (si_epoch ix) 1")
  case None
  then show ?thesis by (simp add: slot_index_clear_def entry_live_def)
next
  case (Some epoch)
  then have "si_epoch ix < epoch"
    by (auto dest!: checked_add_SomeD simp: word_less_nat_alt)
  with Some show ?thesis
    using slot_index_inv_entry [OF assms] by (fastforce simp: slot_index_clear_def entry_live_def)
qed

lemma slot_index_clear_get:
  "slot_index_inv key_slot ix \<Longrightarrow> slot_index_get key_slot (slot_index_clear ix) k = None"
  using slot_index_clear_stale [of key_slot ix "key_slot k"]
  by (metis entry_live_def not_Some_eq slot_index_get_eq_Some)

lemma slot_index_clear_inv:
  assumes "slot_index_inv key_slot ix"
  shows "slot_index_inv key_slot (slot_index_clear ix)"
proof (rule slot_index_invI)
  show "i \<in> set (si_touched (slot_index_clear ix)) \<longleftrightarrow> entry_live (slot_index_clear ix) i" for i
    using slot_index_clear_stale [OF assms] by (simp add: slot_index_clear_def split: option.splits)
  show "distinct (si_touched (slot_index_clear ix))"
    by (simp add: slot_index_clear_def split: option.splits)
  show "si_epoch (slot_index_clear ix) \<noteq> 0"
    by (auto simp: slot_index_clear_def unat_eq_zero [symmetric] split: option.splits
        dest!: checked_add_SomeD)
  show "e \<le> si_epoch (slot_index_clear ix) \<and> key_slot k = i"
    if "i < length (si_entries (slot_index_clear ix))"
      and "si_entries (slot_index_clear ix) ! i = Some (e, k, v)" for i e k v
  proof (cases "checked_add (si_epoch ix) 1")
    case None
    with that show ?thesis by (simp add: slot_index_clear_def)
  next
    case (Some epoch)
    then have "unat epoch = unat (si_epoch ix) + 1"
      by (auto dest: checked_add_SomeD)
    with Some that slot_index_inv_entry [OF assms] show ?thesis
      by (fastforce simp: slot_index_clear_def word_le_nat_alt)
  qed
qed

section \<open>Insertion\<close>

definition grown_entries :: "nat \<Rightarrow> ('k, 'v) slot_index \<Rightarrow> (u64 \<times> 'k \<times> 'v) option list" where
  "grown_entries slot ix =
     (if length (si_entries ix) \<le> slot
      then vec_resize (slot + 1) None (si_entries ix) else si_entries ix)"

lemma length_grown_entries: "slot < length (grown_entries slot ix)"
  by (simp add: grown_entries_def)

lemma nth_grown_entries:
  "i < length (grown_entries slot ix) \<Longrightarrow>
   grown_entries slot ix ! i = (if i < length (si_entries ix) then si_entries ix ! i else None)"
  by (auto simp: grown_entries_def nth_vec_resize)

lemma grown_entries_nth_Some:
  "i < length (grown_entries slot ix) \<and> grown_entries slot ix ! i = Some x \<longleftrightarrow>
   i < length (si_entries ix) \<and> si_entries ix ! i = Some x"
  by (auto simp: grown_entries_def nth_vec_resize split: if_splits)

lemma slot_index_insert_entries:
  "si_entries (snd (slot_index_insert key_slot key v ix)) =
     (grown_entries (key_slot key) ix)[key_slot key := Some (si_epoch ix, key, v)]"
  by (simp add: slot_index_insert_def grown_entries_def Let_def)

lemma slot_index_insert_epoch [simp]:
  "si_epoch (snd (slot_index_insert key_slot key v ix)) = si_epoch ix"
  by (simp add: slot_index_insert_def Let_def)

lemma slot_index_insert_touched:
  "si_touched (snd (slot_index_insert key_slot key v ix)) =
     (if entry_live ix (key_slot key) then si_touched ix else si_touched ix @ [key_slot key])"
  by (auto simp: slot_index_insert_def entry_live_def Let_def nth_vec_resize split: option.splits)

lemma slot_index_insert_nth:
  "i < length (si_entries (snd (slot_index_insert key_slot key v ix))) \<and>
   si_entries (snd (slot_index_insert key_slot key v ix)) ! i = Some x \<longleftrightarrow>
     (if i = key_slot key then x = (si_epoch ix, key, v)
      else i < length (si_entries ix) \<and> si_entries ix ! i = Some x)"
proof (cases "i = key_slot key")
  case True
  then show ?thesis
    using length_grown_entries [of "key_slot key" ix] by (auto simp: slot_index_insert_entries)
next
  case False
  then show ?thesis
    using grown_entries_nth_Some [of i "key_slot key" ix x] by (simp add: slot_index_insert_entries)
qed

lemma slot_index_insert_live:
  "entry_live (snd (slot_index_insert key_slot key v ix)) i \<longleftrightarrow>
     i = key_slot key \<or> entry_live ix i"
  by (auto simp: entry_live_def slot_index_insert_nth)

lemma slot_index_insert_old:
  assumes "slot_index_inv key_slot ix"
  shows "fst (slot_index_insert key_slot key v ix) = slot_index_get key_slot ix key"
  by (auto simp: slot_index_insert_def slot_index_get_def vec_get_def Let_def nth_vec_resize
      split: option.splits)

lemma slot_index_insert_get_Some:
  "slot_index_get key_slot (snd (slot_index_insert key_slot key v ix)) k = Some w \<longleftrightarrow>
     (if k = key then w = v
      else key_slot k \<noteq> key_slot key \<and> slot_index_get key_slot ix k = Some w)"
  by (auto simp: slot_index_get_eq_Some slot_index_insert_nth)

lemma slot_index_insert_get:
  "slot_index_get key_slot (snd (slot_index_insert key_slot key v ix)) k =
     (if k = key then Some v
      else if key_slot k = key_slot key then None
      else slot_index_get key_slot ix k)"
  by (rule option_eqI) (auto simp: slot_index_insert_get_Some)

lemma slot_index_insert_inv:
  assumes inv: "slot_index_inv key_slot ix"
  shows "slot_index_inv key_slot (snd (slot_index_insert key_slot key v ix))"
proof (rule slot_index_invI)
  show "si_epoch (snd (slot_index_insert key_slot key v ix)) \<noteq> 0"
    using inv by (simp add: slot_index_inv_def)
  show "distinct (si_touched (snd (slot_index_insert key_slot key v ix)))"
    using slot_index_inv_touched [OF inv, of "key_slot key"] by (auto simp: slot_index_insert_touched)
  show "i \<in> set (si_touched (snd (slot_index_insert key_slot key v ix))) \<longleftrightarrow>
        entry_live (snd (slot_index_insert key_slot key v ix)) i" for i
    using slot_index_inv_touched [OF inv, of i]
    by (auto simp: slot_index_insert_touched slot_index_insert_live)
  show "e \<le> si_epoch (snd (slot_index_insert key_slot key v ix)) \<and> key_slot k = i"
    if "i < length (si_entries (snd (slot_index_insert key_slot key v ix)))"
      and "si_entries (snd (slot_index_insert key_slot key v ix)) ! i = Some (e, k, w)" for i e k w
    using conjI [OF that] slot_index_inv_entry [OF inv, of i e k w]
    by (auto simp: slot_index_insert_nth split: if_splits)
qed

section \<open>The contract the core relies on\<close>

locale slot_map =
  fixes key_slot :: "'k \<Rightarrow> nat"
    and new_map :: "'m"
    and clear_map :: "'m \<Rightarrow> 'm"
    and insert_map :: "'k \<Rightarrow> 'v \<Rightarrow> 'm \<Rightarrow> 'v option \<times> 'm"
    and get_map :: "'m \<Rightarrow> 'k \<Rightarrow> 'v option"
    and inv_map :: "'m \<Rightarrow> bool"
  assumes new_inv: "inv_map new_map"
    and new_get: "get_map new_map k = None"
    and clear_inv: "inv_map m \<Longrightarrow> inv_map (clear_map m)"
    and clear_get: "inv_map m \<Longrightarrow> get_map (clear_map m) k = None"
    and insert_inv: "inv_map m \<Longrightarrow> inv_map (snd (insert_map key v m))"
    and insert_old: "inv_map m \<Longrightarrow> fst (insert_map key v m) = get_map m key"
    and insert_get: "inv_map m \<Longrightarrow> get_map (snd (insert_map key v m)) k =
          (if k = key then Some v
           else if key_slot k = key_slot key then None else get_map m k)"
begin

text \<open>What a sequence of insertions holds: the last key written to each slot.\<close>

lemma fold_insert_inv: "inv_map m \<Longrightarrow> inv_map (fold (\<lambda>(k, v) m. snd (insert_map k v m)) kvs m)"
  by (induction kvs arbitrary: m) (auto intro: insert_inv)

lemma fold_insert_get_absent:
  "inv_map m \<Longrightarrow> key_slot k \<notin> key_slot ` fst ` set kvs \<Longrightarrow>
   get_map (fold (\<lambda>(k, v) m. snd (insert_map k v m)) kvs m) k = get_map m k"
  by (induction kvs arbitrary: m) (auto simp: insert_get insert_inv)

lemma fold_insert_get:
  assumes "inv_map m" and "key_slot k \<notin> key_slot ` fst ` set later"
  shows "get_map (fold (\<lambda>(k, v) m. snd (insert_map k v m)) (earlier @ (k, v) # later) m) k = Some v"
  using assms by (simp add: fold_insert_get_absent insert_get fold_insert_inv insert_inv)

text \<open>When no two keys share a slot the storage is a faithful finite map.\<close>

lemma fold_insert_distinct:
  assumes "inv_map m" and "distinct (map (key_slot \<circ> fst) kvs)"
  shows "get_map (fold (\<lambda>(k, v) m. snd (insert_map k v m)) kvs m) k =
    (if key_slot k \<in> key_slot ` fst ` set kvs then map_of kvs k else get_map m k)"
  using assms
proof (induction kvs arbitrary: m)
  case (Cons kv kvs)
  obtain key v where kv: "kv = (key, v)" by (cases kv)
  from Cons.prems have "inv_map (snd (insert_map key v m))"
    by (intro insert_inv)
  with Cons kv have "get_map (fold (\<lambda>(k, v) m. snd (insert_map k v m)) (kv # kvs) m) k =
      (if key_slot k \<in> key_slot ` fst ` set kvs then map_of kvs k
       else if k = key then Some v else if key_slot k = key_slot key then None else get_map m k)"
    by (simp add: insert_get)
  moreover have "map_of kvs k = None" if "key_slot k \<notin> key_slot ` fst ` set kvs"
    using that by (auto simp: map_of_eq_None_iff)
  ultimately show ?case using Cons.prems(2) kv by (auto simp: image_image)
qed simp

end

interpretation si: slot_map key_slot slot_index_new slot_index_clear
  "slot_index_insert key_slot" "slot_index_get key_slot" "slot_index_inv key_slot"
  for key_slot :: "'k \<Rightarrow> nat"
  by unfold_locales
    (auto simp: slot_index_new_inv slot_index_new_get slot_index_clear_inv slot_index_clear_get
      slot_index_insert_inv slot_index_insert_old slot_index_insert_get)

section \<open>Runs of operations\<close>

datatype ('k, 'v) slot_op = InsertOp 'k 'v | ClearOp

fun slot_index_step :: "('k \<Rightarrow> nat) \<Rightarrow> ('k, 'v) slot_index \<Rightarrow> ('k, 'v) slot_op \<Rightarrow> ('k, 'v) slot_index" where
  "slot_index_step key_slot ix (InsertOp k v) = snd (slot_index_insert key_slot k v ix)"
| "slot_index_step key_slot ix ClearOp = slot_index_clear ix"

text \<open>The specification: one \<open>(key, value)\<close> per slot.\<close>

fun slot_spec_step :: "('k \<Rightarrow> nat) \<Rightarrow> (nat \<rightharpoonup> 'k \<times> 'v) \<Rightarrow> ('k, 'v) slot_op \<Rightarrow> (nat \<rightharpoonup> 'k \<times> 'v)" where
  "slot_spec_step key_slot m (InsertOp k v) = m(key_slot k \<mapsto> (k, v))"
| "slot_spec_step key_slot m ClearOp = Map.empty"

definition slot_spec_get :: "('k \<Rightarrow> nat) \<Rightarrow> (nat \<rightharpoonup> 'k \<times> 'v) \<Rightarrow> 'k \<Rightarrow> 'v option" where
  "slot_spec_get key_slot m k =
     (case m (key_slot k) of Some (k', v) \<Rightarrow> if k' = k then Some v else None | None \<Rightarrow> None)"

interpretation si_run: step_system "slot_index_step key_slot" "slot_index_inv key_slot"
  for key_slot :: "'k \<Rightarrow> nat"
proof
  fix ix :: "('k, 'v) slot_index" and op
  assume "slot_index_inv key_slot ix"
  then show "slot_index_inv key_slot (slot_index_step key_slot ix op)"
    by (cases op) (auto intro: slot_index_insert_inv slot_index_clear_inv)
qed

lemma slot_index_simulates:
  assumes "slot_index_inv key_slot ix"
    and "slot_index_get key_slot ix = slot_spec_get key_slot m"
  shows "slot_index_get key_slot (foldl (slot_index_step key_slot) ix ops) =
         slot_spec_get key_slot (foldl (slot_spec_step key_slot) m ops)"
  using assms
proof (induction ops arbitrary: ix m)
  case (Cons op ops)
  have "slot_index_get key_slot (slot_index_step key_slot ix op) =
        slot_spec_get key_slot (slot_spec_step key_slot m op)"
    using Cons.prems
    by (cases op)
      (auto simp: fun_eq_iff slot_index_insert_get slot_index_clear_get slot_spec_get_def)
  with Cons show ?case by (simp add: si_run.step_inv)
qed simp

lemma slot_set_insert_eq:
  "slot_set_insert key_slot key s =
     (slot_index_get key_slot s key = None, snd (slot_index_insert key_slot key () s))"
  if "slot_index_inv key_slot s"
  using si.insert_old [OF that, of key "()"]
  by (auto simp: slot_set_insert_def split: prod.splits)

lemma slot_set_from_iter_eq:
  "slot_set_from_iter key_slot keys =
     fold (\<lambda>(k, v) m. snd (slot_index_insert key_slot k v m)) (map (\<lambda>k. (k, ())) keys) slot_index_new"
proof -
  have "fold (\<lambda>key s. snd (slot_set_insert key_slot key s)) keys s =
        fold (\<lambda>(k, v) m. snd (slot_index_insert key_slot k v m)) (map (\<lambda>k. (k, ())) keys) s" for s
    by (induction keys arbitrary: s) (auto simp: slot_set_insert_def split: prod.splits)
  then show ?thesis by (simp add: slot_set_from_iter_def slot_set_new_def)
qed

section \<open>Properties\<close>

text \<open>
  C20: after any sequence of insertions and clears a lookup returns what the specification says:
  the value last inserted since the last clear under exactly this key, unless another key of the
  same slot was inserted after it. In particular the epoch that makes \<open>clear\<close> constant time
  never brings an entry back, not even when the 64-bit epoch wraps around.
\<close>

theorem slot_index_refines_spec:
  "slot_index_get key_slot (foldl (slot_index_step key_slot) slot_index_new ops) k =
   slot_spec_get key_slot (foldl (slot_spec_step key_slot) Map.empty ops) k"
  using slot_index_simulates [OF slot_index_new_inv, of key_slot Map.empty ops]
  by (simp add: fun_eq_iff slot_index_new_get slot_spec_get_def)

text \<open>
  \<open>SlotSet::from_iter\<close> over turf handles contains exactly the given handles when no two of
  them share a slot; a handle of the same slot with another generation is not a member.
\<close>

theorem slot_set_from_iter_contains:
  assumes "distinct (map turf_handle_slot keys)"
  shows "slot_set_contains turf_handle_slot (slot_set_from_iter turf_handle_slot keys) k \<longleftrightarrow> k \<in> set keys"
proof -
  let ?kvs = "map (\<lambda>k. (k, ())) keys"
  have "distinct (map (turf_handle_slot \<circ> fst) ?kvs)"
    using assms by (simp add: comp_def)
  then have "slot_index_get turf_handle_slot (slot_set_from_iter turf_handle_slot keys) k =
      (if turf_handle_slot k \<in> turf_handle_slot ` fst ` set ?kvs then map_of ?kvs k else None)"
    using si.fold_insert_distinct [OF slot_index_new_inv, of turf_handle_slot ?kvs k]
    by (simp add: slot_set_from_iter_eq slot_index_new_get)
  moreover have "map_of ?kvs k = (if k \<in> set keys then Some () else None)"
    by (induction keys) auto
  ultimately show ?thesis
    by (auto simp: slot_set_contains_def slot_index_contains_key_def image_image)
qed

theorem slot_set_from_iter_contains_witness:
  "slot_set_contains turf_handle_slot
     (slot_set_from_iter turf_handle_slot [TurfHandle 4 1, TurfHandle 2 7]) (TurfHandle 2 7) \<and>
   \<not> slot_set_contains turf_handle_slot
     (slot_set_from_iter turf_handle_slot [TurfHandle 4 1, TurfHandle 2 7]) (TurfHandle 2 6)"
  using slot_set_from_iter_contains [of "[TurfHandle 4 1, TurfHandle 2 7]"]
  by (simp add: turf_handle_slot_def)

end
