(* ===== verification/Stage_Components.thy ===== *)
theory Stage_Components
  imports Slot_Index Topology_Updates
begin

text \<open>
  The resumable discovery of connected components of active turfs that the equalize and
  excited-group stages run (\<^verbatim>\<open>prepare_stage_component_turf\<close>, \<^verbatim>\<open>advance_stage_component_discovery\<close>
  and the resets of \<^verbatim>\<open>process_ready_stage_component\<close> in \<^verbatim>\<open>crates/dogmos-core/src/world.rs\<close>). Every call
  does one unit of work, so that a stage can stop after any of them and resume in a later request. The theory shows that
  the units of discovery add up to the connected components, within ten units per active turf, besides those that
  the stage spends on computing and publishing a component.

  \<open>turf_mixture\<close> stands for the world's turf records: the mixture of a turf whose handle is current.
  A component that is ready is handed over as the list in the queue. What the stage then does with it (it captures its
  turfs, polls a computation and publishes its mixtures, each in units of its own, and may fail or be cancelled) is not
  part of this theory: a unit of that work either leaves the discovery as it is or is the last one, which resets it for
  the next component.
\<close>

section \<open>State and steps\<close>

record component_discovery =
  cd_targets :: "turf_handle list"
  cd_active_by_slot :: "(u32, turf_handle) slot_index"
  cd_visited :: "u32 slot_set"
  cd_next_seed :: nat
  cd_queue :: "turf_handle list"
  cd_queue_index :: nat
  cd_next_neighbor :: nat
  cd_component_ready :: bool

definition discovery_new :: component_discovery where
  "discovery_new =
     \<lparr>cd_targets = [], cd_active_by_slot = slot_index_new, cd_visited = slot_set_new, cd_next_seed = 0,
      cd_queue = [], cd_queue_index = 0, cd_next_neighbor = 0, cd_component_ready = False\<rparr>"

definition prepare_stage_component_turf ::
  "(turf_handle \<Rightarrow> mixture_handle option) \<Rightarrow> turf_handle \<Rightarrow> component_discovery \<Rightarrow> component_discovery" where
  "prepare_stage_component_turf turf_mixture h s =
     (if turf_mixture h = None then s
      else s\<lparr>cd_targets := cd_targets s @ [h],
        cd_active_by_slot := snd (slot_index_insert u32_slot (th_slot h) h (cd_active_by_slot s))\<rparr>)"

definition advance_stage_component_discovery ::
  "packed_topology \<Rightarrow> component_discovery \<Rightarrow> bool \<times> component_discovery" where
  "advance_stage_component_discovery t s =
     (case vec_get (cd_queue s) (cd_queue_index s) of
        Some current_turf \<Rightarrow>
          (case vec_get (gas_neighbors t current_turf) (cd_next_neighbor s) of
             None \<Rightarrow> (True, s\<lparr>cd_queue_index := cd_queue_index s + 1, cd_next_neighbor := 0\<rparr>)
           | Some neighbor \<Rightarrow>
               let neighbor = tn_handle neighbor;
                   s = s\<lparr>cd_next_neighbor := cd_next_neighbor s + 1\<rparr>
               in if slot_index_get u32_slot (cd_active_by_slot s) (th_slot neighbor) = Some neighbor
                  then (case slot_set_insert u32_slot (th_slot neighbor) (cd_visited s) of
                          (inserted, visited) \<Rightarrow>
                            (True, if inserted
                              then s\<lparr>cd_visited := visited, cd_queue := cd_queue s @ [neighbor]\<rparr>
                              else s\<lparr>cd_visited := visited\<rparr>))
                  else (True, s))
      | None \<Rightarrow>
          if cd_queue s \<noteq> [] then (False, s\<lparr>cd_component_ready := True\<rparr>)
          else if cd_next_seed s \<ge> length (cd_targets s) then (False, s)
          else
            let seed = cd_targets s ! cd_next_seed s;
                s = s\<lparr>cd_next_seed := cd_next_seed s + 1\<rparr>
            in (case slot_set_insert u32_slot (th_slot seed) (cd_visited s) of
                  (inserted, visited) \<Rightarrow>
                    (True, if inserted
                      then s\<lparr>cd_visited := visited, cd_queue := cd_queue s @ [seed]\<rparr>
                      else s\<lparr>cd_visited := visited\<rparr>)))"

text \<open>The resets after a component has been published.\<close>

definition finish_component :: "component_discovery \<Rightarrow> component_discovery" where
  "finish_component s =
     s\<lparr>cd_queue := [], cd_queue_index := 0, cd_next_neighbor := 0, cd_component_ready := False\<rparr>"

definition discovery_complete :: "component_discovery \<Rightarrow> bool" where
  "discovery_complete s \<longleftrightarrow>
     cd_next_seed s \<ge> length (cd_targets s) \<and> cd_queue s = [] \<and> \<not> cd_component_ready s"

text \<open>
  One unit of work that advances the discovery, with the components handed over so far: a step of the discovery, or,
  when a component is ready, the last unit of its processing.
\<close>

definition component_work ::
  "packed_topology \<Rightarrow> component_discovery \<times> turf_handle list list \<Rightarrow> component_discovery \<times> turf_handle list list" where
  "component_work t = (\<lambda>(s, out).
     if cd_component_ready s then (finish_component s, out @ [cd_queue s])
     else (snd (advance_stage_component_discovery t s), out))"

text \<open>
  One unit of work of the stage. When a component is ready it is spent on processing it, and \<open>finished\<close> tells whether that
  was the last unit the component needed; if not, the discovery waits.
\<close>

definition stage_unit ::
  "packed_topology \<Rightarrow> component_discovery \<times> turf_handle list list \<Rightarrow> bool \<Rightarrow> component_discovery \<times> turf_handle list list" where
  "stage_unit t st finished = (if cd_component_ready (fst st) \<and> \<not> finished then st else component_work t st)"

text \<open>How many units of a stage advance the discovery.\<close>

fun advancing_units :: "packed_topology \<Rightarrow> component_discovery \<times> turf_handle list list \<Rightarrow> bool list \<Rightarrow> nat" where
  "advancing_units t st [] = 0"
| "advancing_units t st (finished # units) =
     (if cd_component_ready (fst st) \<and> \<not> finished then 0 else 1) + advancing_units t (stage_unit t st finished) units"

definition discovery_start ::
  "(turf_handle \<Rightarrow> mixture_handle option) \<Rightarrow> turf_handle list \<Rightarrow> component_discovery" where
  "discovery_start turf_mixture frontier =
     fold (prepare_stage_component_turf turf_mixture) frontier discovery_new"

section \<open>The graph of active turfs\<close>

definition gas_edge :: "packed_topology \<Rightarrow> turf_handle \<Rightarrow> turf_handle \<Rightarrow> bool" where
  "gas_edge t a b \<longleftrightarrow> b \<in> tn_handle ` set (gas_neighbors t a)"

definition active_edges :: "packed_topology \<Rightarrow> turf_handle list \<Rightarrow> (turf_handle \<times> turf_handle) set" where
  "active_edges t ts = {(a, b). a \<in> set ts \<and> b \<in> set ts \<and> gas_edge t a b}"

lemma gas_edge_iff:
  assumes inv: "topo_inv gen t" and "current gen b"
  shows "gas_edge t a b \<longleftrightarrow> edge_map t False (th_slot a, th_slot b) \<noteq> None"
proof (cases "unat (th_slot a) < length (pt_slots t)")
  case True
  let ?row = "ts_gas (pt_slots t ! unat (th_slot a))"
  have row: "local_ok gen (unat (th_slot a)) ?row"
    using rows_ok_local [OF topo_invD(1) [OF inv] True, of False] by simp
  have "edge_map t False (th_slot a, th_slot b) \<noteq> None \<longleftrightarrow>
      (\<exists>n \<in> set (flatten ?row). th_slot (tn_handle n) = th_slot b)"
    using True by (auto simp: edge_map_in_range row_find_def find_None_iff)
  also have "\<dots> \<longleftrightarrow> (\<exists>n \<in> set (flatten ?row). tn_handle n = b)"
    using row assms(2) current_eqI unfolding local_ok_def by metis
  also have "\<dots> \<longleftrightarrow> gas_edge t a b"
    using True by (auto simp: gas_edge_def gas_neighbors_def vec_get_def)
  finally show ?thesis by simp
next
  case False
  then show ?thesis
    by (simp add: gas_edge_def gas_neighbors_def vec_get_def edge_map_def)
qed

lemma gas_edge_sym:
  assumes "topo_inv gen t" and "current gen a" and "current gen b"
  shows "gas_edge t a b \<longleftrightarrow> gas_edge t b a"
  using assms gas_edge_iff topo_invD(2) by metis

lemma gas_neighbors_length: "topo_inv gen t \<Longrightarrow> length (gas_neighbors t h) \<le> max_turf_neighbors"
proof (cases "unat (th_slot h) < length (pt_slots t)")
  case True
  assume inv: "topo_inv gen t"
  have "local_ok gen (unat (th_slot h)) (ts_gas (pt_slots t ! unat (th_slot h)))"
    using rows_ok_local [OF topo_invD(1) [OF inv] True, of False] by simp
  then show ?thesis
    using True by (auto simp: gas_neighbors_def vec_get_def local_ok_def row_ok_def)
qed (simp add: gas_neighbors_def vec_get_def)

lemma active_edges_converse:
  assumes "topo_inv gen t" and "\<And>h. h \<in> set ts \<Longrightarrow> current gen h"
  shows "(a, b) \<in> active_edges t ts \<longleftrightarrow> (b, a) \<in> active_edges t ts"
  using gas_edge_sym [OF assms(1)] assms(2) by (auto simp: active_edges_def)

lemma active_rtrancl_sym:
  assumes "topo_inv gen t" and "\<And>h. h \<in> set ts \<Longrightarrow> current gen h"
    and "(a, b) \<in> (active_edges t ts)\<^sup>*"
  shows "(b, a) \<in> (active_edges t ts)\<^sup>*"
proof -
  have "sym (active_edges t ts)"
    using active_edges_converse [OF assms(1,2)] by (auto intro: symI)
  then show ?thesis using assms(3) by (meson sym_rtrancl symD)
qed

section \<open>The walk\<close>

text \<open>What the units of work keep, on the plain lists: the queue is the part of a component seen so
  far, its first \<open>i\<close> turfs and the first \<open>k\<close> neighbours of the next one are done, and every
  component in \<open>out\<close> is closed under the edges.\<close>

definition closed_under :: "('a \<times> 'a) set \<Rightarrow> 'a list \<Rightarrow> bool" where
  "closed_under E C \<longleftrightarrow> (\<forall>x \<in> set C. \<forall>y. (x, y) \<in> E \<longrightarrow> y \<in> set C)"

definition reached_from_head :: "('a \<times> 'a) set \<Rightarrow> 'a list \<Rightarrow> bool" where
  "reached_from_head E C \<longleftrightarrow> (\<forall>x \<in> set C. (hd C, x) \<in> E\<^sup>*)"

definition gas_handles :: "packed_topology \<Rightarrow> turf_handle \<Rightarrow> turf_handle list" where
  "gas_handles t h = map tn_handle (gas_neighbors t h)"

definition walk ::
  "packed_topology \<Rightarrow> turf_handle list \<Rightarrow> nat \<Rightarrow> turf_handle list \<Rightarrow> nat \<Rightarrow> nat \<Rightarrow> turf_handle list list \<Rightarrow> bool" where
  "walk t ts n q i k out \<longleftrightarrow>
     distinct (concat out @ q) \<and> set (concat out @ q) \<subseteq> set ts \<and>
     n \<le> length ts \<and> (\<forall>j < n. ts ! j \<in> set (concat out @ q)) \<and>
     i \<le> length q \<and> (i = length q \<longrightarrow> k = 0) \<and>
     (\<forall>j < i. \<forall>y. (q ! j, y) \<in> active_edges t ts \<longrightarrow> y \<in> set (concat out @ q)) \<and>
     (i < length q \<longrightarrow> k \<le> length (gas_handles t (q ! i)) \<and>
        (\<forall>j < k. gas_handles t (q ! i) ! j \<in> set ts \<longrightarrow> gas_handles t (q ! i) ! j \<in> set (concat out @ q))) \<and>
     reached_from_head (active_edges t ts) q \<and>
     (\<forall>C \<in> set out. C \<noteq> [] \<and> closed_under (active_edges t ts) C \<and> reached_from_head (active_edges t ts) C)"

lemma active_edge_handles:
  "(a, b) \<in> active_edges t ts \<longleftrightarrow> a \<in> set ts \<and> b \<in> set ts \<and> b \<in> set (gas_handles t a)"
  by (simp add: active_edges_def gas_edge_def gas_handles_def)

lemma walk_next:
  assumes "walk t ts n q i k out" and "i < length q" and "length (gas_handles t (q ! i)) \<le> k"
  shows "walk t ts n q (Suc i) 0 out"
  using assms by (auto simp: walk_def less_Suc_eq active_edge_handles in_set_conv_nth [of _ "gas_handles t _"])

lemma walk_skip:
  assumes "walk t ts n q i k out" and "i < length q" and "k < length (gas_handles t (q ! i))"
    and "gas_handles t (q ! i) ! k \<in> set ts \<Longrightarrow> gas_handles t (q ! i) ! k \<in> set (concat out @ q)"
  shows "walk t ts n q i (Suc k) out"
  using assms by (auto simp: walk_def less_Suc_eq)

lemma reached_from_head_snoc:
  assumes "reached_from_head E q" and "x \<in> set q" and "(x, y) \<in> E"
  shows "reached_from_head E (q @ [y])"
proof -
  have "q \<noteq> []" using assms(2) by auto
  moreover have "(hd q, y) \<in> E\<^sup>*"
    using assms by (auto simp: reached_from_head_def intro: rtrancl_into_rtrancl)
  ultimately show ?thesis using assms(1) by (auto simp: reached_from_head_def)
qed

lemma walk_push:
  assumes w: "walk t ts n q i k out" and "i < length q" and "k < length (gas_handles t (q ! i))"
    and "gas_handles t (q ! i) ! k \<in> set ts" and "gas_handles t (q ! i) ! k \<notin> set (concat out @ q)"
  shows "walk t ts n (q @ [gas_handles t (q ! i) ! k]) i (Suc k) out"
proof -
  let ?h = "gas_handles t (q ! i) ! k"
  have "q ! i \<in> set ts" using w assms(2) by (auto simp: walk_def)
  then have "(q ! i, ?h) \<in> active_edges t ts" using assms(3,4) by (simp add: active_edge_handles)
  then have "reached_from_head (active_edges t ts) (q @ [?h])"
    using w assms(2) by (auto simp: walk_def intro: reached_from_head_snoc [where x = "q ! i"])
  then show ?thesis
    using assms by (auto simp: walk_def less_Suc_eq nth_append)
qed

lemma walk_seed_new:
  assumes "walk t ts n [] i k out" and "n < length ts" and "ts ! n \<notin> set (concat out)"
  shows "walk t ts (Suc n) [ts ! n] i k out"
  using assms by (auto simp: walk_def less_Suc_eq reached_from_head_def)

lemma walk_seed_seen:
  assumes "walk t ts n [] i k out" and "n < length ts" and "ts ! n \<in> set (concat out)"
  shows "walk t ts (Suc n) [] i k out"
  using assms by (auto simp: walk_def less_Suc_eq)

lemma walk_finish:
  assumes w: "walk t ts n q (length q) k out" and "q \<noteq> []" and "sym (active_edges t ts)"
  shows "walk t ts n [] 0 0 (out @ [q])"
proof -
  have "y \<in> set q" if "x \<in> set q" "(x, y) \<in> active_edges t ts" for x y
  proof (rule ccontr)
    assume "y \<notin> set q"
    obtain j where "j < length q" "q ! j = x" using \<open>x \<in> set q\<close> by (auto simp: in_set_conv_nth)
    then have "y \<in> set (concat out @ q)" using w that(2) by (auto simp: walk_def)
    then obtain C where C: "C \<in> set out" "y \<in> set C" using \<open>y \<notin> set q\<close> by auto
    moreover have "(y, x) \<in> active_edges t ts" using assms(3) that(2) by (auto dest: symD)
    ultimately have "x \<in> set C" using w by (auto simp: walk_def closed_under_def)
    then show False using w that(1) C(1) by (auto simp: walk_def)
  qed
  then have "closed_under (active_edges t ts) q" by (simp add: closed_under_def)
  then show ?thesis using w assms(2) by (auto simp: walk_def reached_from_head_def)
qed

section \<open>Invariant\<close>

definition discovery_inv ::
  "packed_topology \<Rightarrow> turf_handle list \<Rightarrow> component_discovery \<Rightarrow> turf_handle list list \<Rightarrow> bool" where
  "discovery_inv t ts s out \<longleftrightarrow>
     cd_targets s = ts \<and> slot_index_inv u32_slot (cd_visited s) \<and>
     (\<forall>h. slot_index_get u32_slot (cd_active_by_slot s) (th_slot h) = Some h \<longleftrightarrow> h \<in> set ts) \<and>
     (\<forall>h \<in> set ts. slot_index_get u32_slot (cd_visited s) (th_slot h) \<noteq> None \<longleftrightarrow>
        h \<in> set (concat out @ cd_queue s)) \<and>
     (cd_component_ready s \<longrightarrow> cd_queue_index s = length (cd_queue s) \<and> cd_queue s \<noteq> []) \<and>
     walk t ts (cd_next_seed s) (cd_queue s) (cd_queue_index s) (cd_next_neighbor s) out"

lemma inj_u32_slot: "inj u32_slot"
  by (auto intro!: injI simp: u32_slot_def word_unat_eq_iff)

lemma visited_insert:
  assumes "slot_index_inv u32_slot V"
  shows "slot_set_insert u32_slot x V = (slot_index_get u32_slot V x = None, snd (slot_set_insert u32_slot x V))"
    and "slot_index_inv u32_slot (snd (slot_set_insert u32_slot x V))"
    and "slot_index_get u32_slot (snd (slot_set_insert u32_slot x V)) k \<noteq> None \<longleftrightarrow>
      k = x \<or> slot_index_get u32_slot V k \<noteq> None"
  using assms slot_index_insert_inv [OF assms] slot_index_insert_get [of u32_slot x "()" V k] inj_u32_slot
  by (auto simp: slot_set_insert_eq [OF assms] inj_eq)

lemma distinct_slots_eq:
  "distinct (map th_slot ts) \<Longrightarrow> a \<in> set ts \<Longrightarrow> b \<in> set ts \<Longrightarrow> th_slot a = th_slot b \<Longrightarrow> a = b"
  by (simp add: distinct_map inj_on_def)

lemma visit_target:
  assumes inv: "discovery_inv t ts s out" and "distinct (map th_slot ts)" and "h \<in> set ts"
  obtains V where "slot_set_insert u32_slot (th_slot h) (cd_visited s) = (h \<notin> set (concat out @ cd_queue s), V)"
    and "slot_index_inv u32_slot V"
    and "\<forall>h' \<in> set ts. slot_index_get u32_slot V (th_slot h') \<noteq> None \<longleftrightarrow>
      h' = h \<or> h' \<in> set (concat out @ cd_queue s)"
proof
  let ?V = "snd (slot_set_insert u32_slot (th_slot h) (cd_visited s))"
  have V: "slot_index_inv u32_slot (cd_visited s)"
    and m: "\<forall>h \<in> set ts. slot_index_get u32_slot (cd_visited s) (th_slot h) \<noteq> None \<longleftrightarrow>
      h \<in> set (concat out @ cd_queue s)"
    using inv by (simp_all add: discovery_inv_def)
  have e: "(slot_index_get u32_slot (cd_visited s) (th_slot h) = None) = (h \<notin> set (concat out @ cd_queue s))"
    using bspec [OF m assms(3)] by blast
  show "slot_set_insert u32_slot (th_slot h) (cd_visited s) = (h \<notin> set (concat out @ cd_queue s), ?V)"
    using visited_insert(1) [OF V, of "th_slot h"] unfolding e .
  show "slot_index_inv u32_slot ?V" by (rule visited_insert(2) [OF V])
  show "\<forall>h' \<in> set ts. slot_index_get u32_slot ?V (th_slot h') \<noteq> None \<longleftrightarrow>
      h' = h \<or> h' \<in> set (concat out @ cd_queue s)"
  proof
    fix h' assume h': "h' \<in> set ts"
    have "th_slot h' = th_slot h \<longleftrightarrow> h' = h"
      using distinct_slots_eq [OF assms(2) h' assms(3)] by auto
    then show "slot_index_get u32_slot ?V (th_slot h') \<noteq> None \<longleftrightarrow>
        h' = h \<or> h' \<in> set (concat out @ cd_queue s)"
      using visited_insert(3) [OF V, of "th_slot h" "th_slot h'"] m h' by blast
  qed
qed

lemmas discovery_fields = discovery_inv_def component_work_def advance_stage_component_discovery_def

lemma discovery_walk: "discovery_inv t ts s out \<Longrightarrow>
    walk t ts (cd_next_seed s) (cd_queue s) (cd_queue_index s) (cd_next_neighbor s) out"
  by (simp add: discovery_inv_def)

lemma work_finish:
  assumes inv: "discovery_inv t ts s out" and "cd_component_ready s" and "sym (active_edges t ts)"
  shows "component_work t (s, out) = (finish_component s, out @ [cd_queue s])"
    and "discovery_inv t ts (finish_component s) (out @ [cd_queue s])"
proof -
  show "component_work t (s, out) = (finish_component s, out @ [cd_queue s])"
    using assms(2) by (simp add: component_work_def)
  have "cd_queue_index s = length (cd_queue s)" "cd_queue s \<noteq> []"
    using inv assms(2) by (simp_all add: discovery_inv_def)
  then have "walk t ts (cd_next_seed s) [] 0 0 (out @ [cd_queue s])"
    using walk_finish discovery_walk [OF inv] assms(3) by metis
  then show "discovery_inv t ts (finish_component s) (out @ [cd_queue s])"
    using inv by (simp add: discovery_inv_def finish_component_def)
qed

lemma work_seed:
  assumes inv: "discovery_inv t ts s out" and d: "distinct (map th_slot ts)"
    and "cd_queue s = []" and n: "cd_next_seed s < length ts"
  obtains s' where "component_work t (s, out) = (s', out)" and "discovery_inv t ts s' out"
    and "cd_next_seed s' = Suc (cd_next_seed s)" and "cd_queue_index s' = 0" and "cd_next_neighbor s' = 0"
    and "cd_queue s' = [] \<or> cd_queue s' = [ts ! cd_next_seed s]" and "\<not> cd_component_ready s'"
proof -
  let ?h = "ts ! cd_next_seed s"
  have w: "walk t ts (cd_next_seed s) [] (cd_queue_index s) (cd_next_neighbor s) out"
    using discovery_walk [OF inv] assms(3) by simp
  then have z: "cd_queue_index s = 0" "cd_next_neighbor s = 0" by (simp_all add: walk_def)
  have h: "?h \<in> set ts" using n by simp
  obtain V where V: "slot_set_insert u32_slot (th_slot ?h) (cd_visited s) = (?h \<notin> set (concat out), V)"
      "slot_index_inv u32_slot V"
      "\<forall>h' \<in> set ts. slot_index_get u32_slot V (th_slot h') \<noteq> None \<longleftrightarrow> h' = ?h \<or> h' \<in> set (concat out)"
    using visit_target [OF inv d h] assms(3) by (metis append_Nil2)
  have nr: "\<not> cd_component_ready s" and ts: "cd_targets s = ts"
    using inv assms(3) by (simp_all add: discovery_inv_def)
  define s' where "s' = s\<lparr>cd_next_seed := Suc (cd_next_seed s), cd_visited := V,
      cd_queue := if ?h \<notin> set (concat out) then [?h] else []\<rparr>"
  have "component_work t (s, out) = (s', out)"
    using V(1) nr ts n z assms(3)
    by (auto simp: component_work_def advance_stage_component_discovery_def s'_def vec_get_def Let_def)
  moreover have "discovery_inv t ts s' out"
    using inv V(2,3) nr z h assms(3) walk_seed_new [OF w n] walk_seed_seen [OF w n]
    by (auto simp: discovery_inv_def s'_def)
  ultimately show thesis using that [of s'] nr z by (auto simp: s'_def)
qed

lemma work_ready:
  assumes inv: "discovery_inv t ts s out" and "\<not> cd_component_ready s"
    and "cd_queue s \<noteq> []" and i: "cd_queue_index s = length (cd_queue s)"
  shows "component_work t (s, out) = (s\<lparr>cd_component_ready := True\<rparr>, out)"
    and "discovery_inv t ts (s\<lparr>cd_component_ready := True\<rparr>) out"
  using assms by (simp_all add: discovery_inv_def component_work_def advance_stage_component_discovery_def vec_get_def)

lemma work_neighbors_done:
  assumes inv: "discovery_inv t ts s out" and nr: "\<not> cd_component_ready s"
    and i: "cd_queue_index s < length (cd_queue s)"
    and k: "length (gas_handles t (cd_queue s ! cd_queue_index s)) \<le> cd_next_neighbor s"
  shows "component_work t (s, out) = (s\<lparr>cd_queue_index := Suc (cd_queue_index s), cd_next_neighbor := 0\<rparr>, out)"
    and "discovery_inv t ts (s\<lparr>cd_queue_index := Suc (cd_queue_index s), cd_next_neighbor := 0\<rparr>) out"
  using assms walk_next [OF discovery_walk [OF inv] i k]
  by (simp_all add: discovery_inv_def component_work_def advance_stage_component_discovery_def vec_get_def gas_handles_def)

lemma work_neighbor:
  assumes inv: "discovery_inv t ts s out" and d: "distinct (map th_slot ts)" and nr: "\<not> cd_component_ready s"
    and i: "cd_queue_index s < length (cd_queue s)"
    and k: "cd_next_neighbor s < length (gas_handles t (cd_queue s ! cd_queue_index s))"
  obtains s' where "component_work t (s, out) = (s', out)" and "discovery_inv t ts s' out"
    and "cd_next_seed s' = cd_next_seed s" and "cd_queue_index s' = cd_queue_index s"
    and "cd_next_neighbor s' = Suc (cd_next_neighbor s)" and "\<not> cd_component_ready s'"
proof -
  let ?h = "gas_handles t (cd_queue s ! cd_queue_index s) ! cd_next_neighbor s"
  let ?s = "s\<lparr>cd_next_neighbor := Suc (cd_next_neighbor s)\<rparr>"
  note w = discovery_walk [OF inv]
  have ns: "vec_get (gas_neighbors t (cd_queue s ! cd_queue_index s)) (cd_next_neighbor s) =
      Some (gas_neighbors t (cd_queue s ! cd_queue_index s) ! cd_next_neighbor s)"
    and h: "tn_handle (gas_neighbors t (cd_queue s ! cd_queue_index s) ! cd_next_neighbor s) = ?h"
    using k by (simp_all add: vec_get_def gas_handles_def)
  have active: "slot_index_get u32_slot (cd_active_by_slot s) (th_slot ?h) = Some ?h \<longleftrightarrow> ?h \<in> set ts"
    using inv by (simp add: discovery_inv_def)
  note unfold = component_work_def advance_stage_component_discovery_def vec_get_def [of "cd_queue s"] Let_def
  show thesis
  proof (cases "?h \<in> set ts")
    case False
    then have "component_work t (s, out) = (?s, out)"
      using nr i h active False by (simp add: unfold ns)
    moreover have "discovery_inv t ts ?s out"
      using inv nr walk_skip [OF w i k] False by (simp add: discovery_inv_def)
    ultimately show thesis using that [of ?s] nr by simp
  next
    case True
    obtain V where V: "slot_set_insert u32_slot (th_slot ?h) (cd_visited s) = (?h \<notin> set (concat out @ cd_queue s), V)"
        "slot_index_inv u32_slot V"
        "\<forall>h' \<in> set ts. slot_index_get u32_slot V (th_slot h') \<noteq> None \<longleftrightarrow>
          h' = ?h \<or> h' \<in> set (concat out @ cd_queue s)"
      using visit_target [OF inv d True] by metis
    define s' where "s' = (if ?h \<notin> set (concat out @ cd_queue s)
      then ?s\<lparr>cd_visited := V, cd_queue := cd_queue s @ [?h]\<rparr> else ?s\<lparr>cd_visited := V\<rparr>)"
    have "component_work t (s, out) = (s', out)"
      using nr i h active True V(1) by (simp add: unfold ns s'_def)
    moreover have "discovery_inv t ts s' out"
    proof (cases "?h \<in> set (concat out @ cd_queue s)")
      case seen: True
      have "\<forall>h' \<in> set ts. slot_index_get u32_slot V (th_slot h') \<noteq> None \<longleftrightarrow> h' \<in> set (concat out @ cd_queue s)"
        using V(3) seen by (auto simp del: not_None_eq)
      then show ?thesis
        using inv nr V(2) seen walk_skip [OF w i k] by (simp add: discovery_inv_def s'_def)
    next
      case new: False
      have "\<forall>h' \<in> set ts. slot_index_get u32_slot V (th_slot h') \<noteq> None \<longleftrightarrow>
          h' \<in> set (concat out @ (cd_queue s @ [?h]))"
        using V(3) by auto
      then show ?thesis
        using inv nr V(2) new walk_push [OF w i k True new] by (simp add: discovery_inv_def s'_def)
    qed
    ultimately show thesis using that [of s'] nr by (simp add: s'_def split: if_splits)
  qed
qed

section \<open>Progress\<close>

text \<open>The units spent: one per seed, seven per turf of the queue and two per component.\<close>

definition units_spent :: "component_discovery \<times> turf_handle list list \<Rightarrow> nat" where
  "units_spent = (\<lambda>(s, out). cd_next_seed s + 7 * (length (concat out) + cd_queue_index s) + cd_next_neighbor s
     + 2 * length out + (if cd_component_ready s then 1 else 0))"

lemma length_le_concat: "\<forall>C \<in> set out. C \<noteq> [] \<Longrightarrow> length out \<le> length (concat out)"
  by (induction out) (auto simp: neq_Nil_conv)

lemma gas_handles_length: "topo_inv gen t \<Longrightarrow> length (gas_handles t h) \<le> 6"
  using gas_neighbors_length by (simp add: gas_handles_def max_turf_neighbors_def)

lemma units_arith: "k \<le> 6 \<Longrightarrow> i < l \<Longrightarrow> c + l \<le> n \<Longrightarrow> 7 * (c + i) + k \<le> 7 * (n :: nat)"
  by simp

lemma units_bounded:
  assumes inv: "discovery_inv t ts s out" and topo: "topo_inv gen t"
  shows "units_spent (s, out) \<le> 10 * length ts"
proof -
  let ?c = "length (concat out)"
  note w = discovery_walk [OF inv]
  have "distinct (concat out @ cd_queue s)" "set (concat out @ cd_queue s) \<subseteq> set ts"
    using w by (simp_all only: walk_def)
  then have q: "?c + length (cd_queue s) \<le> length ts"
    by (metis List.finite_set card_mono card_length distinct_card length_append order_trans)
  have out: "length out \<le> ?c" by (rule length_le_concat) (use w in \<open>simp add: walk_def\<close>)
  have n: "cd_next_seed s \<le> length ts" using w by (simp only: walk_def)
  have k: "7 * (?c + cd_queue_index s) + cd_next_neighbor s \<le> 7 * length ts"
  proof (cases "cd_queue_index s < length (cd_queue s)")
    case True
    then have "cd_next_neighbor s \<le> 6"
      using w gas_handles_length [OF topo] by (auto simp: walk_def intro: order_trans)
    then show ?thesis using True q by (rule units_arith)
  next
    case False
    then show ?thesis using w q by (auto simp: walk_def)
  qed
  show ?thesis
  proof (cases "cd_component_ready s")
    case True
    then have "0 < length (cd_queue s)" using inv by (simp add: discovery_inv_def)
    then have "length out < length ts" using out q by linarith
    then show ?thesis using k n by (simp add: units_spent_def)
  next
    case False
    then show ?thesis using k out n q by (simp add: units_spent_def)
  qed
qed

lemma component_work_progress:
  assumes inv: "discovery_inv t ts s out" and d: "distinct (map th_slot ts)" and "sym (active_edges t ts)"
    and "\<not> discovery_complete s" and topo: "topo_inv gen t"
  obtains s' out' where "component_work t (s, out) = (s', out')" and "discovery_inv t ts s' out'"
    and "units_spent (s, out) < units_spent (s', out')"
proof (cases "cd_component_ready s")
  case True
  then have "cd_queue_index s = length (cd_queue s)" "cd_next_neighbor s = 0"
    using inv by (simp_all add: discovery_inv_def walk_def)
  then show thesis
    using that work_finish [OF inv True assms(3)] True by (auto simp: units_spent_def finish_component_def)
next
  case nr: False
  have i: "cd_queue_index s \<le> length (cd_queue s)" using discovery_walk [OF inv] by (simp add: walk_def)
  consider (seed) "cd_queue s = []" | (ready) "cd_queue s \<noteq> []" "cd_queue_index s = length (cd_queue s)"
    | (turf) "cd_queue_index s < length (cd_queue s)" using i by linarith
  then show thesis
  proof cases
    case seed
    then have n: "cd_next_seed s < length ts"
      using assms(4) inv nr by (simp add: discovery_complete_def discovery_inv_def)
    have "cd_queue_index s = 0" "cd_next_neighbor s = 0"
      using discovery_walk [OF inv] seed by (simp_all add: walk_def)
    moreover obtain s' where "component_work t (s, out) = (s', out)" "discovery_inv t ts s' out"
        "cd_next_seed s' = Suc (cd_next_seed s)" "cd_queue_index s' = 0" "cd_next_neighbor s' = 0"
        "\<not> cd_component_ready s'"
      using work_seed [OF inv d seed n] by metis
    ultimately show thesis using that nr by (auto simp: units_spent_def)
  next
    case ready
    show thesis using that work_ready [OF inv nr ready] nr by (auto simp: units_spent_def)
  next
    case i: turf
    show thesis
    proof (cases "cd_next_neighbor s < length (gas_handles t (cd_queue s ! cd_queue_index s))")
      case True
      obtain s' where "component_work t (s, out) = (s', out)" "discovery_inv t ts s' out"
          "cd_next_seed s' = cd_next_seed s" "cd_queue_index s' = cd_queue_index s"
          "cd_next_neighbor s' = Suc (cd_next_neighbor s)" "\<not> cd_component_ready s'"
        using work_neighbor [OF inv d nr i True] by metis
      then show thesis using that nr by (auto simp: units_spent_def)
    next
      case False
      then have "cd_next_neighbor s \<le> 6"
        using discovery_walk [OF inv] i gas_handles_length [OF topo] by (auto simp: walk_def intro: order_trans)
      then show thesis using that work_neighbors_done [OF inv nr i] False nr by (auto simp: units_spent_def)
    qed
  qed
qed

lemma component_work_complete:
  "discovery_inv t ts s out \<Longrightarrow> discovery_complete s \<Longrightarrow> component_work t (s, out) = (s, out)"
  by (auto simp: discovery_inv_def discovery_complete_def component_work_def advance_stage_component_discovery_def
      vec_get_def)

lemma component_work_iterate:
  assumes inv: "discovery_inv t ts s out" and d: "distinct (map th_slot ts)" and sym: "sym (active_edges t ts)"
    and topo: "topo_inv gen t"
  shows "\<exists>s' out'. (component_work t ^^ m) (s, out) = (s', out') \<and> discovery_inv t ts s' out' \<and>
    (discovery_complete s' \<or> m \<le> units_spent (s', out'))"
proof (induction m)
  case 0
  then show ?case using inv by simp
next
  case (Suc m)
  then obtain s' out' where IH: "(component_work t ^^ m) (s, out) = (s', out')" "discovery_inv t ts s' out'"
      "discovery_complete s' \<or> m \<le> units_spent (s', out')"
    by blast
  show ?case
  proof (cases "discovery_complete s'")
    case True
    then show ?thesis using IH component_work_complete by simp
  next
    case False
    obtain s2 out2 where "component_work t (s', out') = (s2, out2)" "discovery_inv t ts s2 out2"
        "units_spent (s', out') < units_spent (s2, out2)"
      using component_work_progress [OF IH(2) d sym False topo] by metis
    then show ?thesis using IH(1,3) False by auto
  qed
qed

lemma discovery_start_fields:
  assumes "distinct (map th_slot (filter (\<lambda>h. turf_mixture h \<noteq> None) frontier))"
  shows "\<exists>ix. discovery_start turf_mixture frontier =
      discovery_new\<lparr>cd_targets := filter (\<lambda>h. turf_mixture h \<noteq> None) frontier, cd_active_by_slot := ix\<rparr> \<and>
    (\<forall>h. slot_index_get u32_slot ix (th_slot h) = Some h \<longleftrightarrow> h \<in> set frontier \<and> turf_mixture h \<noteq> None)"
  using assms
proof (induction frontier rule: rev_induct)
  case Nil
  then show ?case
    by (intro exI [of _ slot_index_new])
      (simp add: discovery_start_def discovery_new_def slot_index_new_get)
next
  case (snoc x frontier)
  then obtain ix where ix: "discovery_start turf_mixture frontier =
      discovery_new\<lparr>cd_targets := filter (\<lambda>h. turf_mixture h \<noteq> None) frontier, cd_active_by_slot := ix\<rparr>"
    "\<forall>h. slot_index_get u32_slot ix (th_slot h) = Some h \<longleftrightarrow> h \<in> set frontier \<and> turf_mixture h \<noteq> None"
    by auto
  have start: "discovery_start turf_mixture (frontier @ [x]) =
      prepare_stage_component_turf turf_mixture x (discovery_start turf_mixture frontier)"
    by (simp add: discovery_start_def)
  show ?case
  proof (cases "turf_mixture x = None")
    case True
    then show ?thesis using ix start by (auto simp: prepare_stage_component_turf_def)
  next
    case False
    let ?ix = "snd (slot_index_insert u32_slot (th_slot x) x ix)"
    have other: "th_slot h \<noteq> th_slot x" if "h \<in> set frontier" "turf_mixture h \<noteq> None" for h
      using snoc.prems False that by (force simp: image_iff)
    have "slot_index_get u32_slot ?ix (th_slot h) = Some h \<longleftrightarrow>
        h \<in> set (frontier @ [x]) \<and> turf_mixture h \<noteq> None" for h
    proof (cases "th_slot h = th_slot x")
      case True
      then show ?thesis using other [of h] False by (auto simp: slot_index_insert_get_Some)
    next
      case False
      then have "slot_index_get u32_slot ?ix (th_slot h) = Some h \<longleftrightarrow>
          slot_index_get u32_slot ix (th_slot h) = Some h"
        using inj_u32_slot by (simp add: slot_index_insert_get_Some inj_eq)
      then show ?thesis using False ix(2) by auto
    qed
    then show ?thesis
      using ix(1) start False by (auto simp: prepare_stage_component_turf_def)
  qed
qed

lemma discovery_start_inv:
  assumes "distinct (map th_slot (filter (\<lambda>h. turf_mixture h \<noteq> None) frontier))"
  shows "discovery_inv t (filter (\<lambda>h. turf_mixture h \<noteq> None) frontier) (discovery_start turf_mixture frontier) []"
  using discovery_start_fields [OF assms]
  by (auto simp: discovery_inv_def discovery_new_def walk_def reached_from_head_def slot_set_new_def
      slot_index_new_inv slot_index_new_get)

section \<open>Properties\<close>

lemma two_turf_topology:
  "topo_inv (\<lambda>_. 1) (snd (connect_gas (\<lambda>_. True) (TurfHandle 3 1) (TurfHandle 1 1) packed_topology_default))"
proof -
  have empty: "edge_map packed_topology_default h = Map.empty" for h
    by (auto simp: edge_map_def packed_topology_default_def)
  have "connect_outcome (\<lambda>_. True) (TurfHandle 3 1) (TurfHandle 1 1) False packed_topology_default = Ok True"
    by (simp add: connect_outcome_def slot_available_def degree_def empty max_turf_neighbors_def)
  then show ?thesis
    using connect_kind_result [of "\<lambda>_. 1" packed_topology_default "TurfHandle 3 1"
        "TurfHandle 1 1" "\<lambda>_. True" False] topo_inv_default
    by (auto simp: current_def connect_kind_def)
qed

definition component_targets :: "(turf_handle \<Rightarrow> mixture_handle option) \<Rightarrow> turf_handle list \<Rightarrow> turf_handle list" where
  "component_targets turf_mixture frontier = filter (\<lambda>h. turf_mixture h \<noteq> None) frontier"

lemma distinct_current_slots:
  assumes "distinct ts" and "\<forall>h \<in> set ts. current gen h"
  shows "distinct (map th_slot ts)"
  using assms current_eqI [of gen] by (simp add: distinct_map inj_on_def)

lemma components_run:
  assumes topo: "topo_inv gen t" and cur: "\<forall>h \<in> set frontier. current gen h" and d: "distinct frontier"
    and m: "10 * length (component_targets turf_mixture frontier) \<le> m"
  obtains s out where "(component_work t ^^ m) (discovery_start turf_mixture frontier, []) = (s, out)"
    and "discovery_inv t (component_targets turf_mixture frontier) s out" and "discovery_complete s"
proof -
  let ?ts = "component_targets turf_mixture frontier"
  have cur': "\<forall>h \<in> set ?ts. current gen h" using cur by (simp add: component_targets_def)
  have ds: "distinct (map th_slot ?ts)"
    using d by (intro distinct_current_slots [OF _ cur']) (simp add: component_targets_def)
  have sym: "sym (active_edges t ?ts)"
    using active_edges_converse [OF topo] cur' by (auto intro!: symI)
  have start: "discovery_inv t ?ts (discovery_start turf_mixture frontier) []"
    using discovery_start_inv ds by (simp add: component_targets_def)
  obtain s out where r: "(component_work t ^^ m) (discovery_start turf_mixture frontier, []) = (s, out)"
      "discovery_inv t ?ts s out" "discovery_complete s \<or> m \<le> units_spent (s, out)"
    using component_work_iterate [OF start ds sym topo] by blast
  have "discovery_complete s"
  proof (rule ccontr)
    assume nc: "\<not> discovery_complete s"
    obtain s' out' where "discovery_inv t ?ts s' out'" "units_spent (s, out) < units_spent (s', out')"
      using component_work_progress [OF r(2) ds sym nc topo] by metis
    then show False using units_bounded [OF _ topo] r(3) nc m by (meson leD le_trans order.strict_trans1)
  qed
  then show thesis using r that by blast
qed

lemma stage_units_advance: "foldl (stage_unit t) st units = (component_work t ^^ advancing_units t st units) st"
proof (induction units arbitrary: st)
  case (Cons finished units)
  then show ?case by (simp add: stage_unit_def funpow_swap1)
qed simp

text \<open>
  C21: discovery ends, however many units the stage spends on processing the components in between. Whatever the turfs and
  their mixtures and whatever units finish a component, as soon as ten units per turf with a mixture have advanced the
  discovery, it has no seed, no queue and no component left to hand over, and the components handed over are those of ten
  such units per turf: further units change nothing. (That the processing of a component itself ends is not claimed.)
\<close>

theorem discovery_terminates:
  fixes turf_mixture frontier
  defines "start \<equiv> (discovery_start turf_mixture frontier, [])"
  assumes "topo_inv gen t" and "\<forall>h \<in> set frontier. current gen h" and "distinct frontier"
    and "10 * length (component_targets turf_mixture frontier) \<le> advancing_units t start units"
  shows "discovery_complete (fst (foldl (stage_unit t) start units)) \<and>
    foldl (stage_unit t) start units = (component_work t ^^ (10 * length (component_targets turf_mixture frontier))) start"
proof -
  let ?n = "10 * length (component_targets turf_mixture frontier)"
  let ?m = "advancing_units t start units"
  obtain s out where n: "(component_work t ^^ ?n) start = (s, out)"
      "discovery_inv t (component_targets turf_mixture frontier) s out" "discovery_complete s"
    unfolding start_def using components_run [OF assms(2-4) order_refl] by metis
  have "(component_work t ^^ j) (s, out) = (s, out)" for j
    by (induction j) (simp_all add: component_work_complete [OF n(2,3)])
  then have "(component_work t ^^ ?m) start = (s, out)"
    using n(1) assms(5) funpow_add [of "?m - ?n" ?n "component_work t"] by simp
  then show ?thesis using n by (simp add: stage_units_advance)
qed

text \<open>Three turfs with a mixture, and every component needs one more unit than the last one.\<close>

theorem discovery_terminates_witness:
  "discovery_complete (fst (foldl (stage_unit
     (snd (connect_gas (\<lambda>_. True) (TurfHandle 3 1) (TurfHandle 1 1) packed_topology_default)))
     (discovery_start (\<lambda>h. if th_slot h = 4 then None else Some (MixtureHandle (th_slot h) 1))
        [TurfHandle 3 1, TurfHandle 2 1, TurfHandle 4 1, TurfHandle 1 1], []) (concat (replicate 30 [False, True]))))"
proof -
  have finishing: "length (filter id units) \<le> advancing_units t st units" for t st units
    by (induction units arbitrary: st) (simp_all add: le_SucI)
  have "length (filter id (concat (replicate 30 [False, True]))) = 30"
    by (simp add: filter_concat numeral_eq_Suc)
  then have "30 \<le> advancing_units t st (concat (replicate 30 [False, True]))" for t st
    using finishing [of "concat (replicate 30 [False, True])" t st] by simp
  then show ?thesis
    by (intro conjunct1 [OF discovery_terminates [OF two_turf_topology]]) (simp_all add: current_def component_targets_def)
qed

text \<open>
  C15: the components handed over are the connected components of the active turfs: every active turf
  with a mixture is in exactly one of them, once, and each consists of exactly the turfs that its
  first turf reaches over gas edges between active turfs with a mixture.
\<close>

theorem discovery_finds_components:
  assumes "topo_inv gen t" and "\<forall>h \<in> set frontier. current gen h" and "distinct frontier"
    and "10 * length (component_targets turf_mixture frontier) \<le> m"
    and "(component_work t ^^ m) (discovery_start turf_mixture frontier, []) = (s, out)"
  shows "distinct (concat out) \<and> set (concat out) = set (component_targets turf_mixture frontier) \<and>
    (\<forall>C \<in> set out. C \<noteq> [] \<and>
      set C = (active_edges t (component_targets turf_mixture frontier))\<^sup>* `` {hd C})"
proof -
  let ?ts = "component_targets turf_mixture frontier"
  let ?E = "active_edges t ?ts"
  have inv: "discovery_inv t ?ts s out" and c: "discovery_complete s"
    using components_run [OF assms(1-4)] assms(5) by (metis Pair_inject)+
  have w: "walk t ?ts (length ?ts) [] 0 0 out"
    using inv c by (auto simp: discovery_inv_def discovery_complete_def walk_def)
  have "C \<noteq> [] \<and> set C = ?E\<^sup>* `` {hd C}" if "C \<in> set out" for C
  proof -
    have C: "C \<noteq> []" "closed_under ?E C" "reached_from_head ?E C"
      using w that by (simp_all add: walk_def)
    have "y \<in> set C" if "(hd C, y) \<in> ?E\<^sup>*" for y
      using that by induction (use C in \<open>auto simp: closed_under_def\<close>)
    then show ?thesis using C by (auto simp: reached_from_head_def)
  qed
  then show ?thesis using w by (auto simp: walk_def in_set_conv_nth [of _ ?ts])
qed

theorem discovery_finds_components_witness:
  "\<exists>s out. (component_work
     (snd (connect_gas (\<lambda>_. True) (TurfHandle 3 1) (TurfHandle 1 1) packed_topology_default)) ^^ 30)
     (discovery_start (\<lambda>h. if th_slot h = 4 then None else Some (MixtureHandle (th_slot h) 1))
        [TurfHandle 3 1, TurfHandle 2 1, TurfHandle 4 1, TurfHandle 1 1], []) = (s, out) \<and>
   distinct (concat out) \<and> set (concat out) = {TurfHandle 3 1, TurfHandle 2 1, TurfHandle 1 1}"
proof -
  let ?t = "snd (connect_gas (\<lambda>_. True) (TurfHandle 3 1) (TurfHandle 1 1) packed_topology_default)"
  let ?mix = "\<lambda>h. if th_slot h = 4 then None else Some (MixtureHandle (th_slot h) 1)"
  let ?frontier = "[TurfHandle 3 1, TurfHandle 2 1, TurfHandle 4 1, TurfHandle 1 1]"
  have cur: "\<forall>h \<in> set ?frontier. current (\<lambda>_. 1) h" by (simp add: current_def)
  have dist: "distinct ?frontier" by simp
  have targets: "component_targets ?mix ?frontier = [TurfHandle 3 1, TurfHandle 2 1, TurfHandle 1 1]"
    by (simp add: component_targets_def)
  have m: "10 * length (component_targets ?mix ?frontier) \<le> 30" unfolding targets by simp
  obtain s out where r: "(component_work ?t ^^ 30) (discovery_start ?mix ?frontier, []) = (s, out)"
    by (cases "(component_work ?t ^^ 30) (discovery_start ?mix ?frontier, [])")
  note D = discovery_finds_components [OF two_turf_topology cur dist m r]
  have "set (component_targets ?mix ?frontier) = {TurfHandle 3 1, TurfHandle 2 1, TurfHandle 1 1}"
    unfolding targets by simp
  then show ?thesis
    using r conjunct1 [OF D] conjunct1 [OF conjunct2 [OF D]] by metis
qed

end
