(* ===== verification/Bitset.thy ===== *)
theory Bitset
  imports Dogmos_Prelude
begin

text \<open>
  Sets of positions in vectors of 64-bit words, as the frontier (\<^verbatim>\<open>received_bits\<close>) and the
  indexed transaction (\<^verbatim>\<open>touched_bits\<close>) keep them: position \<open>i\<close> is bit \<open>i mod 64\<close> of word
  \<open>i div 64\<close>.
\<close>

definition bit_at :: "u64 list \<Rightarrow> nat \<Rightarrow> bool" where
  "bit_at bits i \<longleftrightarrow> bit (bits ! (i div 64)) (i mod 64)"

lemma and_exp_eq: "w AND 2 ^ k \<noteq> 0 \<longleftrightarrow> bit w k" if "k < 64" for w :: u64
proof -
  have "bit (w AND 2 ^ k) n \<longleftrightarrow> n = k \<and> bit w k" if "n < 64" for n
    using that by (auto simp: bit_and_iff bit_exp_iff)
  with that show ?thesis by (auto simp: bit_eq_iff dest: bit_imp_le_length)
qed

lemma bit_at_mark:
  assumes "i div 64 < length bits"
  shows "bit_at (bits[i div 64 := bits ! (i div 64) OR push_bit (i mod 64) 1]) j \<longleftrightarrow>
    bit_at bits j \<or> j = i"
proof -
  have "j = i \<longleftrightarrow> j div 64 = i div 64 \<and> j mod 64 = i mod 64" by (metis div_mult_mod_eq)
  then show ?thesis
    using assms by (cases "j div 64 = i div 64")
      (auto simp: bit_at_def bit_or_iff bit_exp_iff)
qed

lemma div_64_less: "i < n \<Longrightarrow> i div 64 < (n + 63) div (64 :: nat)"
  by (simp add: div_less_iff_less_mult less_eq_div_iff_mult_less_eq Suc_le_eq [symmetric])

lemma bit_at_unmark:
  assumes "i div 64 < length bits"
  shows "bit_at (bits[i div 64 := bits ! (i div 64) AND NOT (push_bit (i mod 64) 1)]) j \<longleftrightarrow>
    bit_at bits j \<and> j \<noteq> i"
proof -
  have "j = i \<longleftrightarrow> j div 64 = i div 64 \<and> j mod 64 = i mod 64" by (metis div_mult_mod_eq)
  then show ?thesis
    using assms by (cases "j div 64 = i div 64")
      (auto simp: bit_at_def bit_and_iff bit_not_iff bit_exp_iff dest: bit_imp_le_length)
qed

lemma bit_at_test: "bits ! (i div 64) AND 2 ^ (i mod 64) = 0 \<longleftrightarrow> \<not> bit_at bits i"
  using and_exp_eq [of "i mod 64" "bits ! (i div 64)"] by (auto simp: bit_at_def)

lemma bit_at_replicate_0: "i div 64 < n \<Longrightarrow> \<not> bit_at (replicate n 0) i"
  by (simp add: bit_at_def)

end
