(* ===== verification/Indexed_Transaction.thy ===== *)
theory Indexed_Transaction
  imports Bitset "HOL-Library.Multiset"
begin

text \<open>
  The transaction a simulation stage writes its results to before they are published
  (\<^verbatim>\<open>crates/dogmos-core/src/transaction.rs\<close>): a dense vector of touched mixtures, an index from
  slots to positions, and a bit per slot. The theory shows that it is a finite map from handles to
  candidates in which a slot occurs once, however it is touched, sorted, drained and reused.

  A mutable reference into the vector is the position it points to, and writing through it is
  \<open>write_candidate\<close>. \<open>usize_max\<close> is the largest \<^verbatim>\<open>usize\<close>; \<open>alloc\<close> says which reservations succeed.
\<close>

section \<open>State and errors\<close>

definition unused_index :: u32 where "unused_index = - 1"

datatype (plugins only: size) transaction_error =
    TxAllocationFailed
  | TxCapacityExceeded
  | TxHandleConflict mixture_handle mixture_handle
  | TxUnknownHandle mixture_handle
  | TxSameHandle mixture_handle

record 'a transaction_entry =
  te_handle :: mixture_handle
  te_expected_revision :: u32
  te_candidate :: 'a

record 'a indexed_transaction =
  it_slot_to_index :: "u32 list"
  it_touched_bits :: "u64 list"
  it_entries :: "'a transaction_entry list"
  it_max_entries :: nat

section \<open>Operations\<close>

definition entry_slot :: "'a transaction_entry \<Rightarrow> nat" where
  "entry_slot e = unat (mh_slot (te_handle e))"

text \<open>The two writes that forget a slot, in \<open>retire\<close> and in the loop of \<open>drain_entries\<close>.\<close>

definition forget_slot :: "nat \<Rightarrow> 'a indexed_transaction \<Rightarrow> ('a indexed_transaction, transaction_error) result" where
  "forget_slot slot t =
     (if slot < length (it_slot_to_index t) \<and> slot div 64 < length (it_touched_bits t)
      then Ok (t\<lparr>it_slot_to_index := (it_slot_to_index t)[slot := unused_index],
        it_touched_bits := (it_touched_bits t)[slot div 64 :=
          it_touched_bits t ! (slot div 64) AND NOT (push_bit (slot mod 64) 1)]\<rparr>)
      else Panic)"

fun forget_slots :: "nat list \<Rightarrow> 'a indexed_transaction \<Rightarrow> ('a indexed_transaction, transaction_error) result" where
  "forget_slots [] t = Ok t"
| "forget_slots (slot # slots) t = rbind (forget_slot slot t) (forget_slots slots)"

definition drain_entries ::
  "'a indexed_transaction \<Rightarrow> ('a transaction_entry list \<times> 'a indexed_transaction, transaction_error) result" where
  "drain_entries t =
     rbind (forget_slots (map entry_slot (it_entries t)) t) (\<lambda>t'. Ok (it_entries t, t'\<lparr>it_entries := []\<rparr>))"

definition transaction_clear :: "'a indexed_transaction \<Rightarrow> ('a indexed_transaction, transaction_error) result" where
  "transaction_clear t = rbind (drain_entries t) (\<lambda>(drained, t). Ok t)"

definition retire :: "nat \<Rightarrow> 'a indexed_transaction \<Rightarrow> ('a indexed_transaction, transaction_error) result" where
  "retire index t =
     (case vec_get (it_entries t) index of
        Some e \<Rightarrow> forget_slot (entry_slot e) t
      | None \<Rightarrow> Panic)"

definition clear_retired :: "'a indexed_transaction \<Rightarrow> 'a indexed_transaction" where
  "clear_retired t = t\<lparr>it_entries := []\<rparr>"

text \<open>\<open>slot_count.checked_add(63)? / 64\<close>.\<close>

definition bit_words :: "nat \<Rightarrow> nat \<Rightarrow> nat option" where
  "bit_words usize_max slot_count =
     (if slot_count + 63 \<le> usize_max then Some ((slot_count + 63) div 64) else None)"

definition transaction_prepare ::
  "nat \<Rightarrow> (nat \<Rightarrow> bool) \<Rightarrow> nat \<Rightarrow> nat \<Rightarrow> 'a indexed_transaction \<Rightarrow>
   (unit, transaction_error) result \<times> 'a indexed_transaction" where
  "transaction_prepare usize_max alloc slot_count max_entries t =
     (case transaction_clear t of
        Panic \<Rightarrow> (Panic, t) | Err e \<Rightarrow> (Err e, t)
      | Ok t \<Rightarrow>
        if max_entries \<ge> unat unused_index then (Err TxCapacityExceeded, t)
        else (case bit_words usize_max slot_count of
          None \<Rightarrow> (Err TxCapacityExceeded, t)
        | Some words \<Rightarrow>
          if \<not> alloc 0 then (Err TxAllocationFailed, t)
          else let t = t\<lparr>it_slot_to_index := vec_resize slot_count unused_index (it_slot_to_index t)\<rparr>
            in if \<not> alloc 1 then (Err TxAllocationFailed, t)
            else let t = t\<lparr>it_touched_bits := vec_resize words 0 (it_touched_bits t)\<rparr>
              in if \<not> alloc 2 then (Err TxAllocationFailed, t)
              else (Ok (), t\<lparr>it_max_entries := max_entries\<rparr>)))"

definition transaction_try_new ::
  "nat \<Rightarrow> (nat \<Rightarrow> bool) \<Rightarrow> nat \<Rightarrow> nat \<Rightarrow> ('a indexed_transaction, transaction_error) result" where
  "transaction_try_new usize_max alloc slot_count max_entries =
     (if max_entries \<ge> unat unused_index then Err TxCapacityExceeded
      else case bit_words usize_max slot_count of
        None \<Rightarrow> Err TxCapacityExceeded
      | Some words \<Rightarrow>
        if \<not> (alloc 0 \<and> alloc 1 \<and> alloc 2) then Err TxAllocationFailed
        else Ok \<lparr>it_slot_to_index = replicate slot_count unused_index, it_touched_bits = replicate words 0,
          it_entries = [], it_max_entries = max_entries\<rparr>)"

definition entry_index :: "mixture_handle \<Rightarrow> 'a indexed_transaction \<Rightarrow> (nat option, transaction_error) result" where
  "entry_index handle t =
     (let slot = unat (mh_slot handle) in
      case vec_get (it_touched_bits t) (slot div 64) of
        None \<Rightarrow> Ok None
      | Some word \<Rightarrow>
        if word AND push_bit (slot mod 64) 1 = 0 then Ok None
        else (case vec_get (it_slot_to_index t) slot of
          None \<Rightarrow> Ok None
        | Some index \<Rightarrow>
          if index = unused_index then Ok None
          else (case vec_get (it_entries t) (unat index) of
            None \<Rightarrow> Panic
          | Some e \<Rightarrow> if te_handle e \<noteq> handle then Ok None else Ok (Some (unat index)))))"

definition transaction_contains :: "mixture_handle \<Rightarrow> 'a indexed_transaction \<Rightarrow> (bool, transaction_error) result" where
  "transaction_contains handle t = rbind (entry_index handle t) (\<lambda>i. Ok (i \<noteq> None))"

definition transaction_candidate ::
  "mixture_handle \<Rightarrow> 'a indexed_transaction \<Rightarrow> ('a option, transaction_error) result" where
  "transaction_candidate handle t =
     rbind (entry_index handle t) (\<lambda>i. case i of
        None \<Rightarrow> Ok None
      | Some index \<Rightarrow> Ok (Some (te_candidate (it_entries t ! index))))"

definition touch ::
  "mixture_handle \<Rightarrow> u32 \<Rightarrow> 'a \<Rightarrow> 'a indexed_transaction \<Rightarrow>
   (nat, transaction_error) result \<times> 'a indexed_transaction" where
  "touch handle expected_revision initial t =
     (let slot = unat (mh_slot handle) in
      case vec_get (it_slot_to_index t) slot of
        None \<Rightarrow> (Err TxCapacityExceeded, t)
      | Some dense_index \<Rightarrow>
        if dense_index \<noteq> unused_index
        then (case vec_get (it_entries t) (unat dense_index) of
          None \<Rightarrow> (Panic, t)
        | Some e \<Rightarrow>
          if te_handle e \<noteq> handle then (Err (TxHandleConflict handle (te_handle e)), t)
          else (Ok (unat dense_index), t))
        else if length (it_entries t) \<ge> it_max_entries t then (Err TxCapacityExceeded, t)
        else (case u32_try_from (length (it_entries t)) of
          None \<Rightarrow> (Err TxCapacityExceeded, t)
        | Some dense_index \<Rightarrow>
          let t = t\<lparr>it_entries := it_entries t @ [\<lparr>te_handle = handle,
                te_expected_revision = expected_revision, te_candidate = initial\<rparr>],
              it_slot_to_index := (it_slot_to_index t)[slot := dense_index]\<rparr>
          in if slot div 64 < length (it_touched_bits t)
             then (Ok (unat dense_index), t\<lparr>it_touched_bits := (it_touched_bits t)[slot div 64 :=
               it_touched_bits t ! (slot div 64) OR push_bit (slot mod 64) 1]\<rparr>)
             else (Panic, t)))"

text \<open>Writing a candidate through the reference that \<open>touch\<close> or \<open>candidate_mut\<close> returned.\<close>

definition write_candidate :: "nat \<Rightarrow> 'a \<Rightarrow> 'a indexed_transaction \<Rightarrow> 'a indexed_transaction" where
  "write_candidate index c t =
     t\<lparr>it_entries := (it_entries t)[index := (it_entries t ! index)\<lparr>te_candidate := c\<rparr>]\<rparr>"

text \<open>
  \<open>split_at_mut\<close> at the larger index: the two references are positions on different sides of the
  split, and the code indexes each side.
\<close>

definition split_positions :: "nat \<Rightarrow> nat \<Rightarrow> nat \<Rightarrow> (nat \<times> nat, transaction_error) result" where
  "split_positions len lower upper =
     (if upper \<le> len \<and> lower < upper \<and> upper < len then Ok (lower, upper) else Panic)"

definition candidate_pair ::
  "mixture_handle \<Rightarrow> mixture_handle \<Rightarrow> 'a indexed_transaction \<Rightarrow> (nat \<times> nat, transaction_error) result" where
  "candidate_pair fst_handle snd_handle t =
     rbind (if fst_handle = snd_handle then Err (TxSameHandle fst_handle) else Ok ()) (\<lambda>_.
     rbind (entry_index fst_handle t) (\<lambda>fst_entry.
     rbind (ok_or fst_entry (TxUnknownHandle fst_handle)) (\<lambda>fst_index.
     rbind (entry_index snd_handle t) (\<lambda>snd_entry.
     rbind (ok_or snd_entry (TxUnknownHandle snd_handle)) (\<lambda>snd_index.
     if fst_index < snd_index
     then split_positions (length (it_entries t)) fst_index snd_index
     else rbind (split_positions (length (it_entries t)) snd_index fst_index) (\<lambda>(lower, upper).
       Ok (upper, lower)))))))"

fun index_entries ::
  "nat \<Rightarrow> 'a transaction_entry list \<Rightarrow> u32 list \<Rightarrow> (u32 list, transaction_error) result" where
  "index_entries n [] slot_to_index = Ok slot_to_index"
| "index_entries n (e # es) slot_to_index =
     (if entry_slot e < length slot_to_index
      then index_entries (Suc n) es (slot_to_index[entry_slot e := word_of_nat n])
      else Panic)"

definition sort_by_handle :: "'a indexed_transaction \<Rightarrow> ('a indexed_transaction, transaction_error) result" where
  "sort_by_handle t =
     (let entries = sort_key te_handle (it_entries t) in
      rbind (index_entries 0 entries (it_slot_to_index t)) (\<lambda>slot_to_index.
      Ok (t\<lparr>it_entries := entries, it_slot_to_index := slot_to_index\<rparr>)))"

section \<open>Invariant\<close>

text \<open>
  Index and entries point at each other, and a bit is set exactly for the slots in the index.
\<close>

definition transaction_inv :: "'a indexed_transaction \<Rightarrow> bool" where
  "transaction_inv t \<longleftrightarrow> (let index = it_slot_to_index t; es = it_entries t in
     length (it_touched_bits t) = (length index + 63) div 64 \<and>
     length es \<le> it_max_entries t \<and> it_max_entries t < u32_max \<and>
     (\<forall>i < length es. entry_slot (es ! i) < length index \<and> index ! entry_slot (es ! i) = word_of_nat i) \<and>
     (\<forall>s < length index. index ! s \<noteq> unused_index \<longrightarrow>
        unat (index ! s) < length es \<and> entry_slot (es ! unat (index ! s)) = s) \<and>
     (\<forall>s. s div 64 < length (it_touched_bits t) \<longrightarrow>
        (bit_at (it_touched_bits t) s \<longleftrightarrow> s < length index \<and> index ! s \<noteq> unused_index)))"

text \<open>What a transaction means: the entry of each touched handle.\<close>

definition entry_of :: "'a indexed_transaction \<Rightarrow> mixture_handle \<Rightarrow> 'a transaction_entry option" where
  "entry_of t = map_of (map (\<lambda>e. (te_handle e, e)) (it_entries t))"

lemma unat_unused_index: "unat unused_index = u32_max"
  by (simp add: unused_index_def u32_max_def unsigned_minus_1_eq_mask mask_eq_exp_minus_1)

lemma unat_word_of_small: "n \<le> u32_max \<Longrightarrow> unat (word_of_nat n :: u32) = n"
  by (simp add: unat_of_nat take_bit_nat_eq_self u32_max_def)

lemma word_of_small_used: "n < u32_max \<Longrightarrow> (word_of_nat n :: u32) \<noteq> unused_index"
  using unat_word_of_small [of n] unat_unused_index by auto

lemma invD:
  assumes "transaction_inv t"
  shows "length (it_touched_bits t) = (length (it_slot_to_index t) + 63) div 64"
    and "length (it_entries t) \<le> it_max_entries t" and "it_max_entries t < u32_max"
    and "i < length (it_entries t) \<Longrightarrow> entry_slot (it_entries t ! i) < length (it_slot_to_index t)"
    and "i < length (it_entries t) \<Longrightarrow> it_slot_to_index t ! entry_slot (it_entries t ! i) = word_of_nat i"
    and "s < length (it_slot_to_index t) \<Longrightarrow> it_slot_to_index t ! s \<noteq> unused_index \<Longrightarrow>
      unat (it_slot_to_index t ! s) < length (it_entries t)"
    and "s < length (it_slot_to_index t) \<Longrightarrow> it_slot_to_index t ! s \<noteq> unused_index \<Longrightarrow>
      entry_slot (it_entries t ! unat (it_slot_to_index t ! s)) = s"
    and "s div 64 < length (it_touched_bits t) \<Longrightarrow>
      bit_at (it_touched_bits t) s \<longleftrightarrow> s < length (it_slot_to_index t) \<and> it_slot_to_index t ! s \<noteq> unused_index"
  using assms by (auto simp: transaction_inv_def Let_def)

text \<open>Entries have pairwise different slots, so pairwise different handles.\<close>

lemma inv_distinct_slots: "transaction_inv t \<Longrightarrow> distinct (map entry_slot (it_entries t))"
proof (subst distinct_conv_nth, intro allI impI)
  fix i j assume inv: "transaction_inv t" and i: "i < length (map entry_slot (it_entries t))"
    and j: "j < length (map entry_slot (it_entries t))" and "i \<noteq> j"
  show "map entry_slot (it_entries t) ! i \<noteq> map entry_slot (it_entries t) ! j"
  proof
    assume "map entry_slot (it_entries t) ! i = map entry_slot (it_entries t) ! j"
    with i j invD(5) [OF inv, of i] invD(5) [OF inv, of j]
    have "(word_of_nat i :: u32) = word_of_nat j" by simp
    moreover have "i \<le> u32_max" "j \<le> u32_max" using i j invD(2,3) [OF inv] by simp_all
    ultimately show False using unat_word_of_small \<open>i \<noteq> j\<close> by metis
  qed
qed

lemma inv_distinct_handles: "transaction_inv t \<Longrightarrow> distinct (map te_handle (it_entries t))"
  using inv_distinct_slots [of t]
  by (auto simp: distinct_map entry_slot_def inj_on_def)

lemma entry_of_Some:
  assumes "transaction_inv t"
  shows "entry_of t h = Some e \<longleftrightarrow> (\<exists>i < length (it_entries t). it_entries t ! i = e \<and> te_handle e = h)"
proof -
  have "distinct (map fst (map (\<lambda>e. (te_handle e, e)) (it_entries t)))"
    using inv_distinct_handles [OF assms] by (simp add: comp_def)
  then show ?thesis
    by (auto simp: entry_of_def image_iff in_set_conv_nth)
qed

section \<open>Forgetting slots\<close>

lemma div_64_bits: "length bits = (n + 63) div 64 \<Longrightarrow> s < n \<Longrightarrow> s div 64 < length bits"
  using div_64_less by simp

lemma forget_slots_Ok:
  assumes "length (it_touched_bits t) = (length (it_slot_to_index t) + 63) div 64"
    and "\<forall>s \<in> set slots. s < length (it_slot_to_index t)"
  shows "\<exists>index bits. forget_slots slots t = Ok (t\<lparr>it_slot_to_index := index, it_touched_bits := bits\<rparr>) \<and>
    length index = length (it_slot_to_index t) \<and> length bits = length (it_touched_bits t) \<and>
    (\<forall>s. index ! s = (if s \<in> set slots then unused_index else it_slot_to_index t ! s)) \<and>
    (\<forall>s. bit_at bits s \<longleftrightarrow> bit_at (it_touched_bits t) s \<and> s \<notin> set slots)"
  using assms
proof (induction slots arbitrary: t)
  case Nil
  then show ?case
    by (intro exI [of _ "it_slot_to_index t"] exI [of _ "it_touched_bits t"]) simp
next
  case (Cons slot slots)
  have slot: "slot < length (it_slot_to_index t)" "slot div 64 < length (it_touched_bits t)"
    using Cons.prems div_64_bits by auto
  let ?index = "(it_slot_to_index t)[slot := unused_index]"
  let ?bits = "(it_touched_bits t)[slot div 64 := it_touched_bits t ! (slot div 64) AND NOT (push_bit (slot mod 64) 1)]"
  let ?t = "t\<lparr>it_slot_to_index := ?index, it_touched_bits := ?bits\<rparr>"
  have "forget_slot slot t = Ok ?t" using slot by (simp add: forget_slot_def)
  moreover obtain index bits where ih: "forget_slots slots ?t = Ok (?t\<lparr>it_slot_to_index := index, it_touched_bits := bits\<rparr>)"
    "length index = length (it_slot_to_index ?t)" "length bits = length (it_touched_bits ?t)"
    "\<forall>s. index ! s = (if s \<in> set slots then unused_index else it_slot_to_index ?t ! s)"
    "\<forall>s. bit_at bits s \<longleftrightarrow> bit_at (it_touched_bits ?t) s \<and> s \<notin> set slots"
    using Cons.IH [of ?t] Cons.prems by auto
  moreover have "index ! s = (if s \<in> set (slot # slots) then unused_index else it_slot_to_index t ! s)" for s
    using ih(4) slot(1) by (auto simp: nth_list_update)
  moreover have "bit_at bits s \<longleftrightarrow> bit_at (it_touched_bits t) s \<and> s \<notin> set (slot # slots)" for s
    using ih(5) bit_at_unmark [OF slot(2)] by auto
  ultimately show ?case
    by (intro exI [of _ index] exI [of _ bits]) simp
qed

text \<open>Draining returns the entries and leaves an empty transaction of the same shape.\<close>

definition emptied :: "'a indexed_transaction \<Rightarrow> 'a indexed_transaction \<Rightarrow> bool" where
  "emptied t t' \<longleftrightarrow> it_entries t' = [] \<and> it_max_entries t' = it_max_entries t \<and>
     length (it_slot_to_index t') = length (it_slot_to_index t) \<and>
     length (it_touched_bits t') = length (it_touched_bits t) \<and>
     (\<forall>s < length (it_slot_to_index t'). it_slot_to_index t' ! s = unused_index) \<and>
     (\<forall>s. s div 64 < length (it_touched_bits t') \<longrightarrow> \<not> bit_at (it_touched_bits t') s)"

lemma emptied_inv: "transaction_inv t \<Longrightarrow> emptied t t' \<Longrightarrow> transaction_inv t'"
  by (simp add: emptied_def transaction_inv_def Let_def)

lemma drain_entries_Ok:
  assumes inv: "transaction_inv t"
  shows "\<exists>t'. drain_entries t = Ok (it_entries t, t') \<and> emptied t t'"
proof -
  let ?slots = "map entry_slot (it_entries t)"
  have "\<forall>s \<in> set ?slots. s < length (it_slot_to_index t)"
    using invD(4) [OF inv] by (auto simp: in_set_conv_nth)
  from forget_slots_Ok [OF invD(1) [OF inv] this] obtain index bits where
    forget: "forget_slots ?slots t = Ok (t\<lparr>it_slot_to_index := index, it_touched_bits := bits\<rparr>)"
    "length index = length (it_slot_to_index t)" "length bits = length (it_touched_bits t)"
    "\<forall>s. index ! s = (if s \<in> set ?slots then unused_index else it_slot_to_index t ! s)"
    "\<forall>s. bit_at bits s \<longleftrightarrow> bit_at (it_touched_bits t) s \<and> s \<notin> set ?slots"
    by blast
  have listed: "s \<in> set ?slots" if "s < length (it_slot_to_index t)" "it_slot_to_index t ! s \<noteq> unused_index" for s
    using invD(6,7) [OF inv that] by (metis length_map nth_map nth_mem)
  have "index ! s = unused_index" if "s < length index" for s
    using listed [of s] that forget(2,4) by auto
  moreover have "\<not> bit_at bits s" if "s div 64 < length bits" for s
    using listed [of s] that forget(3,5) invD(8) [OF inv, of s] by auto
  ultimately show ?thesis
    using forget(1-3) by (simp add: drain_entries_def emptied_def)
qed

lemma clear_Ok: "transaction_inv t \<Longrightarrow> \<exists>t'. transaction_clear t = Ok t' \<and> emptied t t'"
  using drain_entries_Ok [of t] by (auto simp: transaction_clear_def)

lemma empty_inv:
  assumes "length bits = (length index + 63) div 64" and "limit < u32_max"
    and "\<And>s. s < length index \<Longrightarrow> index ! s = unused_index"
    and "\<And>s. s div 64 < length bits \<Longrightarrow> \<not> bit_at bits s"
  shows "transaction_inv \<lparr>it_slot_to_index = index, it_touched_bits = bits, it_entries = [], it_max_entries = limit\<rparr>"
  using assms by (simp add: transaction_inv_def Let_def)

lemma try_new_inv: "transaction_try_new usize_max alloc slots limit = Ok t \<Longrightarrow> transaction_inv t"
  by (auto simp: transaction_try_new_def bit_words_def not_le unat_unused_index bit_at_replicate_0
      split: if_splits option.splits intro!: empty_inv)

section \<open>Looking up\<close>

lemma entry_index_spec:
  assumes inv: "transaction_inv t"
  shows "entry_index h t = Ok None \<and> entry_of t h = None \<or>
    (\<exists>i < length (it_entries t). entry_index h t = Ok (Some i) \<and> te_handle (it_entries t ! i) = h \<and>
       entry_of t h = Some (it_entries t ! i))"
proof -
  let ?s = "unat (mh_slot h)"
  have found: "?s div 64 < length (it_touched_bits t) \<and> ?s < length (it_slot_to_index t) \<and>
      bit_at (it_touched_bits t) ?s \<and> unat (it_slot_to_index t ! ?s) = i \<and> it_slot_to_index t ! ?s \<noteq> unused_index"
    if i: "i < length (it_entries t)" "te_handle (it_entries t ! i) = h" for i
  proof -
    have slot: "?s = entry_slot (it_entries t ! i)" using i(2) by (simp add: entry_slot_def)
    have small: "i < u32_max" using i(1) invD(2,3) [OF inv] by simp
    have index: "?s < length (it_slot_to_index t)" "it_slot_to_index t ! ?s = word_of_nat i"
      unfolding slot using invD(4,5) [OF inv i(1)] by simp_all
    moreover have "?s div 64 < length (it_touched_bits t)"
      using div_64_bits [OF invD(1) [OF inv] index(1)] .
    ultimately show ?thesis
      using invD(8) [OF inv, of ?s] small word_of_small_used [OF small] unat_word_of_small [of i] by simp
  qed
  show ?thesis
  proof (cases "entry_of t h")
    case (Some e)
    then obtain i where i: "i < length (it_entries t)" "it_entries t ! i = e" "te_handle e = h"
      using entry_of_Some [OF inv] by blast
    with found [of i] Some show ?thesis
      by (auto simp: entry_index_def Let_def vec_get_def bit_at_test)
  next
    case None
    then have no: "te_handle (it_entries t ! i) \<noteq> h" if "i < length (it_entries t)" for i
      using entry_of_Some [OF inv, of h "it_entries t ! i"] that by auto
    have "unat (it_slot_to_index t ! ?s) < length (it_entries t)"
      if "bit_at (it_touched_bits t) ?s" "?s div 64 < length (it_touched_bits t)"
      using invD(6,8) [OF inv, of ?s] that by auto
    with no None show ?thesis
      by (auto simp: entry_index_def Let_def vec_get_def bit_at_test)
  qed
qed

section \<open>Touching and writing\<close>

lemma entry_of_append:
  "entry_of (t\<lparr>it_entries := it_entries t @ [e], it_slot_to_index := index, it_touched_bits := bits\<rparr>) h =
     (case entry_of t h of Some x \<Rightarrow> Some x | None \<Rightarrow> if te_handle e = h then Some e else None)"
  by (auto simp: entry_of_def map_add_def split: option.splits)

lemma add_entry_inv:
  assumes inv: "transaction_inv t" and room: "length (it_entries t) < it_max_entries t"
    and slot: "entry_slot e < length (it_slot_to_index t)"
    and free: "it_slot_to_index t ! entry_slot e = unused_index"
  shows "transaction_inv (t\<lparr>it_entries := it_entries t @ [e],
    it_slot_to_index := (it_slot_to_index t)[entry_slot e := word_of_nat (length (it_entries t))],
    it_touched_bits := (it_touched_bits t)[entry_slot e div 64 :=
      it_touched_bits t ! (entry_slot e div 64) OR push_bit (entry_slot e mod 64) 1]\<rparr>)"
proof -
  let ?n = "length (it_entries t)" and ?s = "entry_slot e"
  have small: "?n < u32_max" using room invD(3) [OF inv] by simp
  note used = word_of_small_used [OF small] and n = unat_word_of_small [OF less_imp_le [OF small]]
  have bits: "?s div 64 < length (it_touched_bits t)"
    using div_64_bits [OF invD(1) [OF inv] slot] .
  have other: "entry_slot (it_entries t ! i) \<noteq> ?s" if "i < ?n" for i
  proof
    assume "entry_slot (it_entries t ! i) = ?s"
    then have "word_of_nat i = unused_index" using invD(5) [OF inv that] free by simp
    with word_of_small_used [of i] that small show False by simp
  qed
  show ?thesis
    unfolding transaction_inv_def Let_def
  proof (intro conjI allI impI, goal_cases)
    case 1 then show ?case using invD(1) [OF inv] by simp
  next
    case 2 then show ?case using room by simp
  next
    case 3 then show ?case using invD(3) [OF inv] by simp
  next
    case (4 i) then show ?case using invD(4) [OF inv, of i] slot by (cases "i = ?n") (auto simp: nth_append)
  next
    case (5 i) then show ?case using invD(4,5) [OF inv, of i] slot other [of i]
      by (cases "i = ?n") (auto simp: nth_append)
  next
    case (6 s) then show ?case using invD(6) [OF inv, of s] n slot by (cases "s = ?s") auto
  next
    case (7 s) then show ?case using invD(6,7) [OF inv, of s] n slot by (cases "s = ?s") (auto simp: nth_append)
  next
    case (8 s) then show ?case
      using invD(8) [OF inv, of s] used slot bit_at_mark [OF bits, of s] by (cases "s = ?s") auto
  qed
qed

text \<open>
  Touching a handle returns the position of its entry, which is the old one or a new one with the
  initial candidate; otherwise it reports why it cannot, and changes nothing.
\<close>

lemma touch_spec:
  assumes inv: "transaction_inv t" and step: "touch h revision initial t = (r, t')"
  shows "transaction_inv t' \<and>
    (case r of
       Ok i \<Rightarrow> i < length (it_entries t') \<and> te_handle (it_entries t' ! i) = h \<and>
         entry_of t' = (entry_of t)(h \<mapsto>
           (case entry_of t h of Some e \<Rightarrow> e
            | None \<Rightarrow> \<lparr>te_handle = h, te_expected_revision = revision, te_candidate = initial\<rparr>))
     | Err e \<Rightarrow> t' = t \<and> (length (it_slot_to_index t) \<le> unat (mh_slot h) \<or>
         it_max_entries t \<le> length (it_entries t) \<or>
         (\<exists>h'. h' \<noteq> h \<and> mh_slot h' = mh_slot h \<and> entry_of t h' \<noteq> None \<and> e = TxHandleConflict h h'))
     | Panic \<Rightarrow> False)"
proof -
  let ?s = "unat (mh_slot h)" and ?n = "length (it_entries t)"
  let ?new = "\<lparr>te_handle = h, te_expected_revision = revision, te_candidate = initial\<rparr>"
  consider (outside) "length (it_slot_to_index t) \<le> ?s"
    | (known) "?s < length (it_slot_to_index t)" "it_slot_to_index t ! ?s \<noteq> unused_index"
    | (new) "?s < length (it_slot_to_index t)" "it_slot_to_index t ! ?s = unused_index"
    by (cases "?s < length (it_slot_to_index t)") auto
  then show ?thesis
  proof cases
    case outside
    then show ?thesis using inv step by (auto simp: touch_def vec_get_def)
  next
    case known
    define i where "i = unat (it_slot_to_index t ! ?s)"
    have i: "i < ?n" "entry_slot (it_entries t ! i) = ?s"
      using invD(6,7) [OF inv known] by (simp_all add: i_def)
    have entry: "entry_of t (te_handle (it_entries t ! i)) = Some (it_entries t ! i)"
      using entry_of_Some [OF inv] i(1) by blast
    show ?thesis
    proof (cases "te_handle (it_entries t ! i) = h")
      case True
      with known i(1) step have "r = Ok i" "t' = t"
        by (auto simp: touch_def vec_get_def i_def)
      with inv i(1) True entry show ?thesis by (auto simp: fun_upd_idem)
    next
      case False
      with known i(1) step have "r = Err (TxHandleConflict h (te_handle (it_entries t ! i)))" "t' = t"
        by (auto simp: touch_def vec_get_def i_def)
      moreover have "mh_slot (te_handle (it_entries t ! i)) = mh_slot h"
        using i(2) by (simp add: entry_slot_def word_unat_eq_iff)
      ultimately show ?thesis using inv False entry by auto
    qed
  next
    case new
    have slot: "entry_slot ?new = ?s" by (simp add: entry_slot_def)
    have absent: "entry_of t h = None"
    proof (rule ccontr)
      assume "entry_of t h \<noteq> None"
      then obtain i where i: "i < ?n" "te_handle (it_entries t ! i) = h"
        using entry_of_Some [OF inv, of h] by auto
      then have "it_slot_to_index t ! ?s = word_of_nat i"
        using invD(5) [OF inv i(1)] by (simp add: entry_slot_def)
      with new(2) word_of_small_used [of i] i(1) invD(2,3) [OF inv] show False by simp
    qed
    show ?thesis
    proof (cases "?n < it_max_entries t")
      case False
      with new step inv show ?thesis by (auto simp: touch_def vec_get_def)
    next
      case True
      then have small: "?n \<le> u32_max" using invD(3) [OF inv] by simp
      let ?t = "t\<lparr>it_entries := it_entries t @ [?new],
        it_slot_to_index := (it_slot_to_index t)[?s := word_of_nat ?n],
        it_touched_bits := (it_touched_bits t)[?s div 64 := it_touched_bits t ! (?s div 64) OR push_bit (?s mod 64) 1]\<rparr>"
      have "transaction_inv ?t"
        using add_entry_inv [OF inv True, of ?new] new by (simp add: slot)
      moreover have "r = Ok ?n" "t' = ?t"
        using step new True small div_64_bits [OF invD(1) [OF inv] new(1)]
        by (auto simp: touch_def vec_get_def u32_try_from_def unat_word_of_small Let_def)
      moreover have "entry_of ?t = (entry_of t)(h \<mapsto> ?new)"
        using absent by (auto simp: entry_of_append split: option.splits)
      ultimately show ?thesis using absent by simp
    qed
  qed
qed

lemma write_candidate_spec:
  assumes inv: "transaction_inv t" and i: "i < length (it_entries t)"
  shows "transaction_inv (write_candidate i c t)"
    and "entry_of (write_candidate i c t) =
      (entry_of t)(te_handle (it_entries t ! i) \<mapsto> (it_entries t ! i)\<lparr>te_candidate := c\<rparr>)"
proof -
  have slots: "entry_slot (it_entries (write_candidate i c t) ! j) = entry_slot (it_entries t ! j)"
    "te_handle (it_entries (write_candidate i c t) ! j) = te_handle (it_entries t ! j)" for j
    by (cases "j = i"; simp add: write_candidate_def entry_slot_def nth_list_update i)+
  have same: "it_slot_to_index (write_candidate i c t) = it_slot_to_index t"
    "it_touched_bits (write_candidate i c t) = it_touched_bits t"
    "it_max_entries (write_candidate i c t) = it_max_entries t"
    "length (it_entries (write_candidate i c t)) = length (it_entries t)"
    by (simp_all add: write_candidate_def)
  show inv': "transaction_inv (write_candidate i c t)"
    using inv by (simp add: transaction_inv_def Let_def slots same)
  have "entry_of (write_candidate i c t) h = Some e \<longleftrightarrow>
      ((entry_of t)(te_handle (it_entries t ! i) \<mapsto> (it_entries t ! i)\<lparr>te_candidate := c\<rparr>)) h = Some e" for h e
  proof -
    have at: "it_entries (write_candidate i c t) ! j =
        (if j = i then (it_entries t ! i)\<lparr>te_candidate := c\<rparr> else it_entries t ! j)" for j
      by (simp add: write_candidate_def nth_list_update i)
    have uniq: "j = i" if "j < length (it_entries t)" "te_handle (it_entries t ! j) = te_handle (it_entries t ! i)" for j
      using inv_distinct_handles [OF inv] that i by (simp add: distinct_conv_nth) metis
    show ?thesis
    proof (cases "h = te_handle (it_entries t ! i)")
      case True
      then show ?thesis
        using entry_of_Some [OF inv', of h e] i uniq same(4) by (auto simp: at split: if_splits)
    next
      case False
      have "(j < length (it_entries t) \<and> it_entries (write_candidate i c t) ! j = e \<and> te_handle e = h) \<longleftrightarrow>
          (j < length (it_entries t) \<and> it_entries t ! j = e \<and> te_handle e = h)" for j
        by (cases "j = i") (use False in \<open>auto simp: at\<close>)
      with False show ?thesis
        by (simp add: entry_of_Some [OF inv'] entry_of_Some [OF inv] same(4))
    qed
  qed
  then show "entry_of (write_candidate i c t) =
      (entry_of t)(te_handle (it_entries t ! i) \<mapsto> (it_entries t ! i)\<lparr>te_candidate := c\<rparr>)"
    by (intro ext option_eqI)
qed

section \<open>Two candidates at once\<close>

lemma entry_of_Some_set:
  "transaction_inv t \<Longrightarrow> entry_of t h = Some e \<longleftrightarrow> e \<in> set (it_entries t) \<and> te_handle e = h"
  by (auto simp: entry_of_Some in_set_conv_nth)

lemma candidate_pair_spec:
  assumes inv: "transaction_inv t"
  shows "candidate_pair g h t =
    (if g = h then Err (TxSameHandle g)
     else if entry_of t g = None then Err (TxUnknownHandle g)
     else if entry_of t h = None then Err (TxUnknownHandle h)
     else candidate_pair g h t) \<and>
    candidate_pair g h t \<noteq> Panic \<and>
    (candidate_pair g h t = Ok (i, j) \<longrightarrow> i \<noteq> j \<and> i < length (it_entries t) \<and> j < length (it_entries t) \<and>
       entry_of t g = Some (it_entries t ! i) \<and> entry_of t h = Some (it_entries t ! j))"
proof (cases "g = h")
  case False
  show ?thesis
  proof (cases "entry_of t g = None \<or> entry_of t h = None")
    case True
    with False entry_index_spec [OF inv, of g] entry_index_spec [OF inv, of h] show ?thesis
      by (auto simp: candidate_pair_def)
  next
    case both: False
    obtain a where a: "a < length (it_entries t)" "entry_index g t = Ok (Some a)"
      "te_handle (it_entries t ! a) = g" "entry_of t g = Some (it_entries t ! a)"
      using both entry_index_spec [OF inv, of g] by auto
    obtain b where b: "b < length (it_entries t)" "entry_index h t = Ok (Some b)"
      "te_handle (it_entries t ! b) = h" "entry_of t h = Some (it_entries t ! b)"
      using both entry_index_spec [OF inv, of h] by auto
    have "a \<noteq> b" using a(3) b(3) False by auto
    then show ?thesis
      using False a b by (auto simp: candidate_pair_def split_positions_def)
  qed
qed (simp add: candidate_pair_def)

lemma candidate_pair_total:
  assumes "transaction_inv t"
  shows "(\<exists>p. candidate_pair g h t = Ok p) \<longleftrightarrow> g \<noteq> h \<and> entry_of t g \<noteq> None \<and> entry_of t h \<noteq> None"
proof -
  have "(\<exists>p. candidate_pair g h t = Ok p)"
    if some: "g \<noteq> h" "entry_of t g \<noteq> None" "entry_of t h \<noteq> None"
  proof -
    obtain a where a: "a < length (it_entries t)" "entry_index g t = Ok (Some a)" "te_handle (it_entries t ! a) = g"
      using some entry_index_spec [OF assms, of g] by auto
    obtain b where b: "b < length (it_entries t)" "entry_index h t = Ok (Some b)" "te_handle (it_entries t ! b) = h"
      using some entry_index_spec [OF assms, of h] by auto
    have "a \<noteq> b" using a(3) b(3) some(1) by auto
    then show ?thesis
      using some(1) a b by (auto simp: candidate_pair_def split_positions_def)
  qed
  then show ?thesis using candidate_pair_spec [OF assms, of g h] by (auto split: if_splits)
qed

section \<open>Sorting and publishing\<close>

lemma index_entries_Ok:
  assumes "distinct (map entry_slot es)" and "\<forall>e \<in> set es. entry_slot e < length index"
  shows "\<exists>index'. index_entries n es index = Ok index' \<and> length index' = length index \<and>
    (\<forall>i < length es. index' ! entry_slot (es ! i) = word_of_nat (n + i)) \<and>
    (\<forall>s. s \<notin> entry_slot ` set es \<longrightarrow> index' ! s = index ! s)"
  using assms
proof (induction es arbitrary: n index)
  case (Cons e es)
  let ?index = "index[entry_slot e := word_of_nat n]"
  obtain index' where ih: "index_entries (Suc n) es ?index = Ok index'" "length index' = length ?index"
    "\<forall>i < length es. index' ! entry_slot (es ! i) = word_of_nat (Suc n + i)"
    "\<forall>s. s \<notin> entry_slot ` set es \<longrightarrow> index' ! s = ?index ! s"
    using Cons.IH [of ?index "Suc n"] Cons.prems by auto
  have "index' ! entry_slot e = word_of_nat n"
    using ih(4) Cons.prems by simp
  then have "\<forall>i < length (e # es). index' ! entry_slot ((e # es) ! i) = word_of_nat (n + i)"
    using ih(3) by (auto simp: nth_Cons split: nat.splits)
  with ih Cons.prems show ?case by auto
qed simp

lemma sort_by_handle_Ok:
  assumes inv: "transaction_inv t"
  shows "\<exists>t'. sort_by_handle t = Ok t' \<and> transaction_inv t' \<and> entry_of t' = entry_of t \<and>
    it_entries t' = sort_key te_handle (it_entries t)"
proof -
  let ?es = "sort_key te_handle (it_entries t)" and ?index = "it_slot_to_index t"
  have mset: "mset (map entry_slot ?es) = mset (map entry_slot (it_entries t))"
    by simp
  have distinct: "distinct (map entry_slot ?es)"
    using inv_distinct_slots [OF inv] mset mset_eq_imp_distinct_iff by blast
  have slots: "entry_slot e < length ?index" if "e \<in> set (it_entries t)" for e
    using that invD(4) [OF inv] by (auto simp: in_set_conv_nth)
  then obtain index where index: "index_entries 0 ?es ?index = Ok index" "length index = length ?index"
    "\<And>i. i < length (it_entries t) \<Longrightarrow> index ! entry_slot (?es ! i) = word_of_nat i"
    "\<And>s. s \<notin> entry_slot ` set (it_entries t) \<Longrightarrow> index ! s = ?index ! s"
    using index_entries_Ok [OF distinct, of ?index 0] by auto
  let ?t = "t\<lparr>it_entries := ?es, it_slot_to_index := index\<rparr>"
  have small: "i < u32_max" if "i < length (it_entries t)" for i
    using that invD(2,3) [OF inv] by simp
  have position: "\<exists>i < length (it_entries t). s = entry_slot (?es ! i) \<and> index ! s = word_of_nat i"
    if "s \<in> entry_slot ` set (it_entries t)" for s
  proof -
    from that obtain e where "e \<in> set ?es" "s = entry_slot e" by auto
    then obtain i where "i < length ?es" "?es ! i = e" by (metis in_set_conv_nth)
    with index(3) \<open>s = entry_slot e\<close> show ?thesis by auto
  qed
  have used: "s \<in> entry_slot ` set (it_entries t) \<longleftrightarrow> ?index ! s \<noteq> unused_index" if "s < length ?index" for s
  proof
    assume "s \<in> entry_slot ` set (it_entries t)"
    then obtain i where "i < length (it_entries t)" "s = entry_slot (it_entries t ! i)"
      by (auto simp: in_set_conv_nth)
    then show "?index ! s \<noteq> unused_index"
      using invD(5) [OF inv, of i] word_of_small_used [OF small] by simp
  next
    assume "?index ! s \<noteq> unused_index"
    from invD(6,7) [OF inv that this] show "s \<in> entry_slot ` set (it_entries t)"
      by (metis image_eqI nth_mem)
  qed
  have used': "index ! s \<noteq> unused_index \<longleftrightarrow> ?index ! s \<noteq> unused_index" if "s < length ?index" for s
    using used [OF that] position [of s] index(4) [of s] word_of_small_used small by metis
  have "transaction_inv ?t"
    unfolding transaction_inv_def Let_def
  proof (intro conjI allI impI, goal_cases)
    case 1 then show ?case using invD(1) [OF inv] index(2) by simp
  next
    case 2 then show ?case using invD(2) [OF inv] by simp
  next
    case 3 then show ?case using invD(3) [OF inv] by simp
  next
    case (4 i)
    then have "?es ! i \<in> set (it_entries t)" using nth_mem [of i ?es] by simp
    with slots index(2) show ?case by simp
  next
    case (5 i) then show ?case using index(3) by simp
  next
    case (6 s)
    then have s: "s < length ?index" "s \<in> entry_slot ` set (it_entries t)" using used used' index(2) by auto
    from position [OF s(2)] small obtain i where "i < length (it_entries t)" "index ! s = word_of_nat i" "i < u32_max"
      by blast
    then show ?case by (simp add: unat_word_of_small)
  next
    case (7 s)
    then have s: "s < length ?index" "s \<in> entry_slot ` set (it_entries t)" using used used' index(2) by auto
    from position [OF s(2)] small obtain i where "s = entry_slot (?es ! i)" "index ! s = word_of_nat i" "i < u32_max"
      by blast
    then show ?case by (simp add: unat_word_of_small)
  next
    case (8 s) then show ?case using invD(8) [OF inv, of s] used' [of s] index(2) by auto
  qed
  moreover from this have "entry_of ?t h = Some e \<longleftrightarrow> entry_of t h = Some e" for h e
    by (simp add: entry_of_Some_set inv)
  then have "entry_of ?t = entry_of t" by (intro ext option_eqI)
  ultimately show ?thesis
    using index(1) by (simp add: sort_by_handle_def Let_def)
qed

lemma prepare_spec:
  assumes inv: "transaction_inv t" and step: "transaction_prepare usize_max alloc slots limit t = (r, t')"
  shows "r \<noteq> Panic" and "r = Ok () \<Longrightarrow> transaction_inv t' \<and> it_entries t' = [] \<and>
      length (it_slot_to_index t') = slots \<and> it_max_entries t' = limit"
    and "it_entries t' = []"
proof -
  obtain t0 where t0: "transaction_clear t = Ok t0" "emptied t t0"
    using clear_Ok [OF inv] by blast
  have empty: "vec_resize slots unused_index (it_slot_to_index t0) ! s = unused_index" if "s < slots" for s
    using t0(2) that by (auto simp: nth_vec_resize emptied_def)
  have zero: "\<not> bit_at (vec_resize words 0 (it_touched_bits t0)) s" if "s div 64 < words" for s words
    using t0(2) that by (auto simp: bit_at_def nth_vec_resize emptied_def)
  show "r \<noteq> Panic" and "it_entries t' = []"
    using step t0 by (auto simp: transaction_prepare_def emptied_def Let_def split: if_splits option.splits)
  show "transaction_inv t' \<and> it_entries t' = [] \<and> length (it_slot_to_index t') = slots \<and> it_max_entries t' = limit"
    if "r = Ok ()"
    using step t0 that empty zero
    by (auto simp: transaction_prepare_def emptied_def bit_words_def transaction_inv_def unat_unused_index Let_def
        not_le split: if_splits option.splits)
qed

text \<open>
  Publishing retires the entries one by one and then drops them; it ends in the same state as a
  drain.
\<close>

fun retire_all :: "nat list \<Rightarrow> 'a indexed_transaction \<Rightarrow> ('a indexed_transaction, transaction_error) result" where
  "retire_all [] t = Ok t"
| "retire_all (i # is) t = rbind (retire i t) (retire_all is)"

definition publish_entries :: "'a indexed_transaction \<Rightarrow> ('a indexed_transaction, transaction_error) result" where
  "publish_entries t =
     rbind (retire_all [0..<length (it_entries t)] t) (\<lambda>t. Ok (clear_retired t))"

lemma forget_slot_entries: "forget_slot slot t = Ok t' \<Longrightarrow> it_entries t' = it_entries t"
  by (auto simp: forget_slot_def split: if_splits)

lemma retire_all_forgets:
  "set is \<subseteq> {..<length (it_entries t)} \<Longrightarrow>
   retire_all is t = forget_slots (map (\<lambda>i. entry_slot (it_entries t ! i)) is) t"
proof (induction "is" arbitrary: t)
  case (Cons i "is")
  then have step: "retire i t = forget_slot (entry_slot (it_entries t ! i)) t"
    by (simp add: retire_def vec_get_def)
  have "retire_all is t' = forget_slots (map (\<lambda>i. entry_slot (it_entries t ! i)) is) t'"
    if "forget_slot (entry_slot (it_entries t ! i)) t = Ok t'" for t'
    using Cons.IH [of t'] Cons.prems forget_slot_entries [OF that] by simp
  with step show ?case
    by (cases "forget_slot (entry_slot (it_entries t ! i)) t") simp_all
qed simp

lemma publish_entries_clears: "publish_entries t = transaction_clear t"
proof -
  have "map (\<lambda>i. entry_slot (it_entries t ! i)) [0..<length (it_entries t)] = map entry_slot (it_entries t)"
    by (auto intro: nth_equalityI)
  then show ?thesis
    using retire_all_forgets [of "[0..<length (it_entries t)]" t]
    by (cases "forget_slots (map entry_slot (it_entries t)) t")
      (auto simp: publish_entries_def transaction_clear_def drain_entries_def clear_retired_def lessThan_atLeast0)
qed

section \<open>Sequences of operations\<close>

datatype (plugins only: size) 'a transaction_op =
    TxTouch mixture_handle u32 'a 'a
  | TxPrepare nat nat
  | TxClear
  | TxSort
  | TxPublish

definition keep_ok :: "'s \<Rightarrow> ('s, 'e) result \<Rightarrow> 's" where
  "keep_ok s r = (case r of Ok s' \<Rightarrow> s' | _ \<Rightarrow> s)"

primrec transaction_step :: "nat \<Rightarrow> 'a indexed_transaction \<Rightarrow> 'a transaction_op \<Rightarrow> 'a indexed_transaction" where
  "transaction_step usize_max t (TxTouch handle revision initial written) =
     (case touch handle revision initial t of
        (Ok i, t') \<Rightarrow> write_candidate i written t' | (_, t') \<Rightarrow> t')"
| "transaction_step usize_max t (TxPrepare slots limit) =
     snd (transaction_prepare usize_max (\<lambda>_. True) slots limit t)"
| "transaction_step usize_max t TxClear = keep_ok t (transaction_clear t)"
| "transaction_step usize_max t TxSort = keep_ok t (sort_by_handle t)"
| "transaction_step usize_max t TxPublish = keep_ok t (publish_entries t)"

lemma prepare_no_failure_inv:
  assumes inv: "transaction_inv t"
  shows "transaction_inv (snd (transaction_prepare usize_max (\<lambda>_. True) slots limit t))"
proof -
  obtain t0 where t0: "transaction_clear t = Ok t0" "emptied t t0"
    using clear_Ok [OF inv] by blast
  obtain r t' where step: "transaction_prepare usize_max (\<lambda>_. True) slots limit t = (r, t')" by fastforce
  show ?thesis
  proof (cases "r = Ok ()")
    case True
    then show ?thesis using prepare_spec(2) [OF inv step] step by simp
  next
    case False
    then have "t' = t0"
      using step t0 by (auto simp: transaction_prepare_def Let_def split: if_splits option.splits)
    then show ?thesis using emptied_inv [OF inv t0(2)] step by simp
  qed
qed

lemma clear_keeps_inv: "transaction_inv t \<Longrightarrow> transaction_inv (keep_ok t (transaction_clear t))"
  using clear_Ok [of t] by (auto simp: keep_ok_def intro: emptied_inv)

lemma candidate_spec:
  assumes "transaction_inv t"
  shows "transaction_candidate g t = Ok (map_option te_candidate (entry_of t g))"
  using entry_index_spec [OF assms, of g] by (auto simp: transaction_candidate_def)

lemma transaction_step_inv: "transaction_inv t \<Longrightarrow> transaction_inv (transaction_step usize_max t op)"
proof (cases op)
  case (TxTouch h revision initial written)
  assume inv: "transaction_inv t"
  obtain r t' where "touch h revision initial t = (r, t')" by fastforce
  with touch_spec [OF inv this] TxTouch show ?thesis
    by (cases r) (auto intro: write_candidate_spec(1))
next
  case TxSort
  assume "transaction_inv t"
  with TxSort sort_by_handle_Ok [of t] show ?thesis by (auto simp: keep_ok_def)
qed (simp_all add: publish_entries_clears prepare_no_failure_inv clear_keeps_inv)

interpretation transaction: step_system "transaction_step usize_max" transaction_inv
  by unfold_locales (rule transaction_step_inv)

section \<open>Properties\<close>

text \<open>
  Why a touch is refused, in terms of the entries: the slot is outside the index, another generation of the slot
  has been touched, or the transaction is full.
\<close>

definition touch_refusal :: "mixture_handle \<Rightarrow> 'a indexed_transaction \<Rightarrow> transaction_error option" where
  "touch_refusal h t =
     (if length (it_slot_to_index t) \<le> unat (mh_slot h) then Some TxCapacityExceeded
      else case find (\<lambda>e. mh_slot (te_handle e) = mh_slot h) (it_entries t) of
        Some e \<Rightarrow> if te_handle e = h then None else Some (TxHandleConflict h (te_handle e))
      | None \<Rightarrow> if length (it_entries t) < it_max_entries t then None else Some TxCapacityExceeded)"

lemma slot_entry_found:
  assumes "transaction_inv t" and "i < length (it_entries t)" and "mh_slot (te_handle (it_entries t ! i)) = slot"
  shows "find (\<lambda>e. mh_slot (te_handle e) = slot) (it_entries t) = Some (it_entries t ! i)"
proof -
  have "find (\<lambda>e. mh_slot (te_handle e) = slot) (it_entries t) \<noteq> None"
    using assms(2,3) nth_mem [OF assms(2)] unfolding find_None_iff by blast
  then obtain e where "find (\<lambda>e. mh_slot (te_handle e) = slot) (it_entries t) = Some e" by blast
  moreover from this obtain j where j: "j < length (it_entries t)" "it_entries t ! j = e" "mh_slot (te_handle e) = slot"
    unfolding find_Some_iff by blast
  moreover have "map entry_slot (it_entries t) ! i = map entry_slot (it_entries t) ! j"
    using j assms(2,3) by (simp add: entry_slot_def)
  then have "i = j"
    using nth_eq_iff_index_eq [OF inv_distinct_slots [OF assms(1)], of i j] j(1) assms(2) by simp
  ultimately show ?thesis by simp
qed

lemma touch_refused:
  assumes inv: "transaction_inv t"
  shows "case fst (touch h revision initial t) of Ok i \<Rightarrow> touch_refusal h t = None | Err e \<Rightarrow> touch_refusal h t = Some e | Panic \<Rightarrow> True"
proof (cases "unat (mh_slot h) < length (it_slot_to_index t) \<and> it_slot_to_index t ! unat (mh_slot h) \<noteq> unused_index")
  case True
  let ?i = "unat (it_slot_to_index t ! unat (mh_slot h))"
  have i: "?i < length (it_entries t)" "entry_slot (it_entries t ! ?i) = unat (mh_slot h)"
    using invD(6,7) [OF inv] True by blast+
  then have "mh_slot (te_handle (it_entries t ! ?i)) = mh_slot h" by (simp add: entry_slot_def word_unat_eq_iff)
  from slot_entry_found [OF inv i(1) this] show ?thesis
    using True i(1) by (simp add: touch_def touch_refusal_def vec_get_def Let_def)
next
  case False
  have none: "find (\<lambda>e. mh_slot (te_handle e) = mh_slot h) (it_entries t) = None"
    if "it_slot_to_index t ! unat (mh_slot h) = unused_index"
  proof (rule ccontr)
    assume "find (\<lambda>e. mh_slot (te_handle e) = mh_slot h) (it_entries t) \<noteq> None"
    then obtain i where i: "i < length (it_entries t)" "mh_slot (te_handle (it_entries t ! i)) = mh_slot h"
      unfolding find_None_iff in_set_conv_nth by blast
    then have "it_slot_to_index t ! unat (mh_slot h) = word_of_nat i"
      using invD(5) [OF inv i(1)] by (simp add: entry_slot_def)
    then show False using that word_of_small_used [of i] i(1) invD(2,3) [OF inv] by simp
  qed
  have "length (it_entries t) \<le> u32_max" using invD(2,3) [OF inv] by simp
  then show ?thesis
    using False none by (auto simp: touch_def touch_refusal_def vec_get_def u32_try_from_def Let_def)
qed

text \<open>
  C22: touching a handle is refused exactly for the reasons of \<open>touch_refusal\<close>, with that reason and without any
  change. Otherwise it yields a reference to the entry of the handle, which is the one it has or a new one
  with the given revision and candidate, and writing through the reference updates a finite map from handles: the entry
  keeps the revision of the first touch, its candidate is what was written, and no other entry changes. A lookup answers
  from this map, before and after.
\<close>

theorem transaction_touch_refines_map:
  assumes "transaction_inv t"
  shows "(case touch h revision initial t of
      (Ok i, t') \<Rightarrow> touch_refusal h t = None \<and>
        te_candidate (it_entries t' ! i) = (case entry_of t h of Some e \<Rightarrow> te_candidate e | None \<Rightarrow> initial) \<and>
        entry_of (write_candidate i c t') = (entry_of t)(h \<mapsto>
          \<lparr>te_handle = h, te_expected_revision =
             (case entry_of t h of Some e \<Rightarrow> te_expected_revision e | None \<Rightarrow> revision), te_candidate = c\<rparr>) \<and>
        transaction_candidate g (write_candidate i c t') =
          Ok (map_option te_candidate (entry_of (write_candidate i c t') g))
    | (Err e, t') \<Rightarrow> touch_refusal h t = Some e \<and> t' = t
    | (Panic, t') \<Rightarrow> False) \<and>
    transaction_contains g t = Ok (entry_of t g \<noteq> None)"
proof
  obtain r t' where step: "touch h revision initial t = (r, t')" by fastforce
  note touched = touch_spec [OF assms step]
  note refused = touch_refused [OF assms, of h revision initial]
  have handle: "te_handle e = h" if "entry_of t h = Some e" for e
    using that entry_of_Some [OF assms, of h e] by blast
  show "case touch h revision initial t of
      (Ok i, t') \<Rightarrow> touch_refusal h t = None \<and>
        te_candidate (it_entries t' ! i) = (case entry_of t h of Some e \<Rightarrow> te_candidate e | None \<Rightarrow> initial) \<and>
        entry_of (write_candidate i c t') = (entry_of t)(h \<mapsto>
          \<lparr>te_handle = h, te_expected_revision =
             (case entry_of t h of Some e \<Rightarrow> te_expected_revision e | None \<Rightarrow> revision), te_candidate = c\<rparr>) \<and>
        transaction_candidate g (write_candidate i c t') =
          Ok (map_option te_candidate (entry_of (write_candidate i c t') g))
    | (Err e, t') \<Rightarrow> touch_refusal h t = Some e \<and> t' = t
    | (Panic, t') \<Rightarrow> False"
  proof (cases r)
    case (Ok i)
    note at = touched [unfolded Ok, simplified]
    have "it_entries t' ! i = (case entry_of t h of Some e \<Rightarrow> e
        | None \<Rightarrow> \<lparr>te_handle = h, te_expected_revision = revision, te_candidate = initial\<rparr>)"
      using at entry_of_Some [of t' h "it_entries t' ! i"] by auto
    moreover note written = write_candidate_spec [of t' i c]
    moreover have "transaction_candidate g (write_candidate i c t') =
        Ok (map_option te_candidate (entry_of (write_candidate i c t') g))"
      using written(1) at by (simp add: candidate_spec)
    ultimately show ?thesis
      using refused at handle by (auto simp: step Ok split: option.splits)
  qed (use touched refused step in auto)
  show "transaction_contains g t = Ok (entry_of t g \<noteq> None)"
    using entry_index_spec [OF assms, of g] by (auto simp: transaction_contains_def)
qed

definition example_transaction :: "nat indexed_transaction" where
  "example_transaction =
     \<lparr>it_slot_to_index = replicate 4 unused_index, it_touched_bits = [0], it_entries = [], it_max_entries = 2\<rparr>"

lemma example_transaction_inv: "transaction_inv example_transaction"
  by (rule try_new_inv [of 1000 "\<lambda>_. True" 4 2])
    (simp add: transaction_try_new_def bit_words_def unat_unused_index u32_max_def example_transaction_def)

theorem transaction_touch_refines_map_witness:
  "transaction_candidate (MixtureHandle 3 1)
     (write_candidate 0 (9 :: nat) (snd (touch (MixtureHandle 3 1) 5 7 example_transaction))) = Ok (Some 9) \<and>
   touch_refusal (MixtureHandle 4 1) example_transaction = Some TxCapacityExceeded"
proof -
  have "touch (MixtureHandle 3 1) 5 7 example_transaction =
      (Ok 0, snd (touch (MixtureHandle 3 1) 5 7 example_transaction))"
    by (simp add: touch_def example_transaction_def vec_get_def u32_try_from_def)
  then obtain t' where "touch (MixtureHandle 3 1) 5 7 example_transaction = (Ok 0, t')" by blast
  with transaction_touch_refines_map [OF example_transaction_inv, where h = "MixtureHandle 3 1" and revision = 5 and
      initial = 7 and c = 9 and g = "MixtureHandle 3 1"]
  show ?thesis by (simp add: touch_refusal_def) (simp add: example_transaction_def)
qed

text \<open>
  Two candidates are only ever handed out together when they are the entries of two different
  touched handles, at different positions: the two mutable references never alias, and the request
  never panics.
\<close>

theorem candidate_pair_disjoint:
  assumes "transaction_inv t"
  shows "candidate_pair g h t \<noteq> Panic \<and>
    ((\<exists>p. candidate_pair g h t = Ok p) \<longleftrightarrow> g \<noteq> h \<and> entry_of t g \<noteq> None \<and> entry_of t h \<noteq> None) \<and>
    (candidate_pair g h t = Ok (i, j) \<longrightarrow> i \<noteq> j \<and> i < length (it_entries t) \<and> j < length (it_entries t) \<and>
       entry_of t g = Some (it_entries t ! i) \<and> entry_of t h = Some (it_entries t ! j))"
  using candidate_pair_spec [OF assms, of g h i j] candidate_pair_total [OF assms, of g h]
  by auto

text \<open>
  The transaction that a stage publishes: sorted and drained it yields each touched handle
  exactly once, in handle order and with its candidate, and leaves an empty transaction ready for
  reuse; retiring the entries one by one during a piecewise publication ends in the same state.
\<close>

theorem transaction_publish_sorted:
  assumes "transaction_inv t"
  shows "\<exists>sorted_t entries t'. sort_by_handle t = Ok sorted_t \<and> drain_entries sorted_t = Ok (entries, t') \<and>
    sorted_wrt (\<lambda>a b. te_handle a < te_handle b) entries \<and>
    (\<forall>h e. e \<in> set entries \<and> te_handle e = h \<longleftrightarrow> entry_of t h = Some e) \<and>
    transaction_inv t' \<and> it_entries t' = [] \<and> publish_entries sorted_t = Ok t'"
proof -
  from sort_by_handle_Ok [OF assms] obtain s where s: "sort_by_handle t = Ok s" "transaction_inv s"
    "entry_of s = entry_of t" "it_entries s = sort_key te_handle (it_entries t)"
    by blast
  from drain_entries_Ok [OF s(2)] obtain t' where t': "drain_entries s = Ok (it_entries s, t')" "emptied s t'"
    by blast
  have "sorted (map te_handle (it_entries s))" by (simp add: s(4))
  moreover have "distinct (map te_handle (it_entries s))" using inv_distinct_handles [OF s(2)] .
  ultimately have "sorted_wrt (<) (map te_handle (it_entries s))"
    using strict_sorted_iff by blast
  then have "sorted_wrt (\<lambda>a b. te_handle a < te_handle b) (it_entries s)"
    by (simp add: sorted_wrt_map)
  moreover have "e \<in> set (it_entries s) \<and> te_handle e = h \<longleftrightarrow> entry_of t h = Some e" for h e
    using entry_of_Some_set [OF s(2), of h e] s(3) by auto
  moreover have "publish_entries s = Ok t'"
    using t'(1) by (simp add: publish_entries_clears transaction_clear_def)
  ultimately show ?thesis
    using s(1) t' emptied_inv [OF s(2) t'(2)] by (auto simp: emptied_def)
qed

text \<open>
  From a new transaction, no sequence of operations makes an operation panic, a slot never
  occurs twice and the capacity is never exceeded.
\<close>

theorem transaction_runs_safely:
  assumes "transaction_try_new usize_max alloc slots limit = Ok t0"
    and "t = foldl (transaction_step usize_max) t0 ops"
  shows "distinct (map entry_slot (it_entries t)) \<and> length (it_entries t) \<le> it_max_entries t \<and>
    fst (touch h revision initial t) \<noteq> Panic \<and> entry_index h t \<noteq> Panic \<and> sort_by_handle t \<noteq> Panic \<and>
    publish_entries t \<noteq> Panic \<and> fst (transaction_prepare usize_max alloc' slots' limit' t) \<noteq> Panic"
proof -
  have inv: "transaction_inv t"
    unfolding assms(2) using try_new_inv [OF assms(1)] by (rule transaction.run_inv)
  have "fst (touch h revision initial t) \<noteq> Panic"
    using touch_spec [OF inv prod.collapse [symmetric], of h revision initial] by auto
  moreover have "entry_index h t \<noteq> Panic" using entry_index_spec [OF inv, of h] by auto
  moreover have "sort_by_handle t \<noteq> Panic" using sort_by_handle_Ok [OF inv] by auto
  moreover have "publish_entries t \<noteq> Panic" using clear_Ok [OF inv] by (auto simp: publish_entries_clears)
  ultimately show ?thesis
    using inv_distinct_slots [OF inv] invD(2) [OF inv] prepare_spec(1) [OF inv prod.collapse [symmetric]]
    by blast
qed

definition touched_transaction :: "nat indexed_transaction" where
  "touched_transaction = foldl (transaction_step 1000) example_transaction
     [TxTouch (MixtureHandle 3 1) 5 7 7, TxTouch (MixtureHandle 1 1) 6 8 8]"

lemma touched_transaction_inv: "transaction_inv touched_transaction"
  unfolding touched_transaction_def by (rule transaction.run_inv) (rule example_transaction_inv)

lemma touched_transaction_entries:
  "it_entries touched_transaction =
     [\<lparr>te_handle = MixtureHandle 3 1, te_expected_revision = 5, te_candidate = 7\<rparr>,
      \<lparr>te_handle = MixtureHandle 1 1, te_expected_revision = 6, te_candidate = 8\<rparr>]"
  by (simp add: touched_transaction_def example_transaction_def touch_def vec_get_def u32_try_from_def
      write_candidate_def unused_index_def u32_max_def)

theorem candidate_pair_disjoint_witness:
  "\<exists>i j. candidate_pair (MixtureHandle 1 1) (MixtureHandle 3 1) touched_transaction = Ok (i, j) \<and> i \<noteq> j"
proof -
  have "entry_of touched_transaction (MixtureHandle 1 1) \<noteq> None"
    "entry_of touched_transaction (MixtureHandle 3 1) \<noteq> None"
    by (simp_all add: entry_of_def touched_transaction_entries)
  then obtain i j where "candidate_pair (MixtureHandle 1 1) (MixtureHandle 3 1) touched_transaction = Ok (i, j)"
    using candidate_pair_disjoint [OF touched_transaction_inv, of "MixtureHandle 1 1" "MixtureHandle 3 1" 0 1]
    by auto
  then show ?thesis
    using candidate_pair_disjoint [OF touched_transaction_inv, of "MixtureHandle 1 1" "MixtureHandle 3 1" i j]
    by blast
qed

theorem transaction_publish_sorted_witness:
  "\<exists>s t'. sort_by_handle touched_transaction = Ok s \<and> publish_entries s = Ok t' \<and> it_entries t' = []"
  using transaction_publish_sorted [OF touched_transaction_inv] by blast

theorem transaction_runs_safely_witness:
  "length (it_entries (foldl (transaction_step 1000) example_transaction
     [TxTouch (MixtureHandle 3 1) 5 7 7, TxTouch (MixtureHandle 3 2) 5 7 7, TxSort])) \<le>
   it_max_entries (foldl (transaction_step 1000) example_transaction
     [TxTouch (MixtureHandle 3 1) 5 7 7, TxTouch (MixtureHandle 3 2) 5 7 7, TxSort])"
proof -
  have "transaction_try_new 1000 (\<lambda>_. True) 4 2 = Ok example_transaction"
    by (simp add: transaction_try_new_def bit_words_def unat_unused_index u32_max_def example_transaction_def)
  from transaction_runs_safely [OF this refl] show ?thesis by blast
qed

end
