(* ===== verification/Versioned_Store.thy ===== *)
theory Versioned_Store
  imports Dogmos_Prelude
begin

text \<open>
  Records with tentative writes (\<^verbatim>\<open>crates/dogmos-core/src/world/versioned.rs\<close>): a stage prepares
  new values for many records under one publication; one atomic change of its status makes all of
  them visible. A write to any of the records in between invalidates the whole publication.

  A publication is shared by reference counting, so it is an address into a heap of statuses; a
  cell refers to it by that address, and \<open>Arc::ptr_eq\<close> is equality of addresses.
\<close>

section \<open>Publications\<close>

datatype publication_status = Pending | Published | Conflicted

type_synonym publications = "publication_status list"

definition publication_new :: "publications \<Rightarrow> nat \<times> publications" where
  "publication_new heap = (length heap, heap @ [Pending])"

text \<open>\<open>compare_exchange(PENDING, status)\<close>.\<close>

definition settle :: "nat \<Rightarrow> publication_status \<Rightarrow> publications \<Rightarrow> bool \<times> publications" where
  "settle p status heap = (if heap ! p = Pending then (True, heap[p := status]) else (False, heap))"

definition publication_publish :: "nat \<Rightarrow> publications \<Rightarrow> bool \<times> publications" where
  "publication_publish p heap = settle p Published heap"

definition publication_visible :: "nat \<Rightarrow> publications \<Rightarrow> bool" where
  "publication_visible p heap \<longleftrightarrow> heap ! p = Published"

definition publication_invalidate :: "nat \<Rightarrow> publications \<Rightarrow> publications" where
  "publication_invalidate p heap = snd (settle p Conflicted heap)"

section \<open>Cells\<close>

record 'a versioned =
  vs_current :: "'a option"
  vs_pending :: "(nat \<times> 'a) option"

definition versioned_new :: "'a option \<Rightarrow> 'a versioned" where
  "versioned_new current = \<lparr>vs_current = current, vs_pending = None\<rparr>"

definition versioned_as_ref :: "publications \<Rightarrow> 'a versioned \<Rightarrow> 'a option" where
  "versioned_as_ref heap v =
     (case vs_pending v of
        Some (publication, candidate) \<Rightarrow>
          if publication_visible publication heap then Some candidate else vs_current v
      | None \<Rightarrow> vs_current v)"

text \<open>
  \<open>as_mut\<close> settles what is pending and borrows the current value; \<open>versioned_write\<close> is the write
  through that borrow.
\<close>

definition versioned_as_mut :: "publications \<Rightarrow> 'a versioned \<Rightarrow> publications \<times> 'a versioned" where
  "versioned_as_mut heap v =
     (case vs_pending v of
        Some (publication, candidate) \<Rightarrow>
          if publication_visible publication heap
          then (heap, \<lparr>vs_current = Some candidate, vs_pending = None\<rparr>)
          else (publication_invalidate publication heap, v\<lparr>vs_pending := None\<rparr>)
      | None \<Rightarrow> (heap, v))"

definition versioned_write :: "'a \<Rightarrow> publications \<Rightarrow> 'a versioned \<Rightarrow> publications \<times> 'a versioned" where
  "versioned_write x heap v =
     (case versioned_as_mut heap v of
        (heap, v) \<Rightarrow> (heap, if vs_current v = None then v else v\<lparr>vs_current := Some x\<rparr>))"

definition versioned_is_some :: "publications \<Rightarrow> 'a versioned \<Rightarrow> bool" where
  "versioned_is_some heap v \<longleftrightarrow> versioned_as_ref heap v \<noteq> None"

definition versioned_is_none :: "publications \<Rightarrow> 'a versioned \<Rightarrow> bool" where
  "versioned_is_none heap v \<longleftrightarrow> versioned_as_ref heap v = None"

definition staged_under :: "nat \<Rightarrow> 'a versioned \<Rightarrow> bool" where
  "staged_under p v \<longleftrightarrow> (case vs_pending v of Some (q, _) \<Rightarrow> q = p | None \<Rightarrow> False)"

definition versioned_stage :: "'a \<Rightarrow> nat \<Rightarrow> publications \<Rightarrow> 'a versioned \<Rightarrow> publications \<times> 'a versioned" where
  "versioned_stage candidate publication heap v =
     (if staged_under publication v then (heap, v\<lparr>vs_pending := Some (publication, candidate)\<rparr>)
      else case versioned_as_mut heap v of
        (heap, v) \<Rightarrow> (heap, v\<lparr>vs_pending := Some (publication, candidate)\<rparr>))"

definition versioned_prepare :: "nat \<Rightarrow> publications \<Rightarrow> 'a versioned \<Rightarrow> publications \<times> 'a versioned" where
  "versioned_prepare publication heap v =
     (if staged_under publication v then (heap, v)
      else case versioned_as_ref heap v of
        Some candidate \<Rightarrow> versioned_stage candidate publication heap v
      | None \<Rightarrow> (heap, v))"

text \<open>\<open>prepared_mut\<close> borrows the pending value; its \<open>expect\<close> panics when there is none.\<close>

definition versioned_prepared_write ::
  "('a \<Rightarrow> 'a) \<Rightarrow> nat \<Rightarrow> publications \<Rightarrow> 'a versioned \<Rightarrow> (publications \<times> 'a versioned, unit) result" where
  "versioned_prepared_write f publication heap v =
     (case versioned_prepare publication heap v of
        (heap, v) \<Rightarrow>
          (case vs_pending v of
             Some (p, x) \<Rightarrow> Ok (heap, v\<lparr>vs_pending := Some (p, f x)\<rparr>)
           | None \<Rightarrow> Panic))"

section \<open>A store of cells\<close>

record 'a cell_store =
  cs_heap :: publications
  cs_cells :: "'a versioned list"

definition cell_visible :: "'a cell_store \<Rightarrow> nat \<Rightarrow> 'a option" where
  "cell_visible s i = versioned_as_ref (cs_heap s) (cs_cells s ! i)"

datatype (plugins only: size) 'a cell_op =
    CellWrite nat 'a
  | CellStage nat 'a nat
  | CellPublish nat

definition at_cell ::
  "(publications \<Rightarrow> 'a versioned \<Rightarrow> publications \<times> 'a versioned) \<Rightarrow> nat \<Rightarrow> 'a cell_store \<Rightarrow> 'a cell_store" where
  "at_cell f i s =
     (if i < length (cs_cells s)
      then (case f (cs_heap s) (cs_cells s ! i) of
              (heap, v) \<Rightarrow> \<lparr>cs_heap = heap, cs_cells = (cs_cells s)[i := v]\<rparr>)
      else s)"

primrec cell_step :: "'a cell_store \<Rightarrow> 'a cell_op \<Rightarrow> 'a cell_store" where
  "cell_step s (CellWrite i x) = at_cell (versioned_write x) i s"
| "cell_step s (CellStage i x p) = at_cell (versioned_stage x p) i s"
| "cell_step s (CellPublish p) = s\<lparr>cs_heap := snd (publication_publish p (cs_heap s))\<rparr>"

text \<open>Every pending value refers to a publication that exists.\<close>

definition store_inv :: "'a cell_store \<Rightarrow> bool" where
  "store_inv s \<longleftrightarrow> (\<forall>v \<in> set (cs_cells s). case vs_pending v of
     Some (p, _) \<Rightarrow> p < length (cs_heap s) | None \<Rightarrow> True)"

lemma length_settle [simp]: "length (snd (settle p status heap)) = length heap"
  by (simp add: settle_def)

lemma nth_update_iff: "xs[i := x] ! j = (if i = j \<and> i < length xs then x else xs ! j)"
  by (simp add: nth_list_update) (metis list_update_beyond linorder_not_less nth_list_update_neq)

text \<open>Settling a pending publication to conflicted changes no visible value.\<close>

lemma visible_invalidate [simp]:
  "publication_visible q (publication_invalidate p heap) \<longleftrightarrow> publication_visible q heap"
  by (auto simp: publication_visible_def publication_invalidate_def settle_def nth_update_iff)

lemma as_ref_invalidate [simp]:
  "versioned_as_ref (publication_invalidate p heap) v = versioned_as_ref heap v"
  by (auto simp: versioned_as_ref_def split: option.splits)

lemma as_mut_visible:
  assumes "versioned_as_mut heap v = (heap', v')"
  shows "\<And>q. publication_visible q heap' \<longleftrightarrow> publication_visible q heap"
    and "vs_pending v' = None" and "vs_current v' = versioned_as_ref heap v"
    and "\<And>q. heap' ! q \<noteq> heap ! q \<Longrightarrow> staged_under q v \<and> heap ! q = Pending \<and> heap' ! q = Conflicted"
    and "length heap' = length heap"
  using assms
  by (auto simp: versioned_as_mut_def versioned_as_ref_def publication_invalidate_def settle_def staged_under_def
      nth_update_iff publication_visible_def split: option.splits if_splits)

lemma as_ref_visible_cong:
  "(\<And>q. publication_visible q heap' \<longleftrightarrow> publication_visible q heap) \<Longrightarrow> versioned_as_ref heap' v = versioned_as_ref heap v"
  by (auto simp: versioned_as_ref_def split: option.splits)

text \<open>What the operations on a cell do to its value, and to the values of all other cells.\<close>

lemma write_visible:
  assumes "versioned_write x heap v = (heap', v')"
  shows "versioned_as_ref heap' v' = (if versioned_as_ref heap v = None then None else Some x)"
    and "\<And>u. versioned_as_ref heap' u = versioned_as_ref heap u"
    and "vs_pending v' = None" and "length heap' = length heap"
    and "\<And>q. heap' ! q \<noteq> heap ! q \<Longrightarrow> staged_under q v \<and> heap ! q = Pending \<and> heap' ! q = Conflicted"
proof -
  obtain w where w: "versioned_as_mut heap v = (heap', w)"
    and v': "v' = (if vs_current w = None then w else w\<lparr>vs_current := Some x\<rparr>)"
    using assms by (auto simp: versioned_write_def split: prod.splits)
  note facts = as_mut_visible [OF w]
  show "versioned_as_ref heap' v' = (if versioned_as_ref heap v = None then None else Some x)"
    using facts(2,3) v' by (auto simp: versioned_as_ref_def)
  show "\<And>u. versioned_as_ref heap' u = versioned_as_ref heap u" using facts(1) by (rule as_ref_visible_cong)
  show "vs_pending v' = None" using facts(2) v' by auto
  show "length heap' = length heap" using facts(5) .
  show "\<And>q. heap' ! q \<noteq> heap ! q \<Longrightarrow> staged_under q v \<and> heap ! q = Pending \<and> heap' ! q = Conflicted"
    using facts(4) .
qed

lemma stage_visible:
  assumes "versioned_stage x p heap v = (heap', v')" and "\<not> publication_visible p heap"
  shows "versioned_as_ref heap' v' = versioned_as_ref heap v"
    and "\<And>u. versioned_as_ref heap' u = versioned_as_ref heap u"
    and "vs_pending v' = Some (p, x)" and "length heap' = length heap"
    and "\<And>q. heap' ! q \<noteq> heap ! q \<Longrightarrow> q \<noteq> p \<and> staged_under q v \<and> heap ! q = Pending \<and> heap' ! q = Conflicted"
proof -
  consider (again) "staged_under p v" "heap' = heap" "v' = v\<lparr>vs_pending := Some (p, x)\<rparr>"
    | (first) w where "\<not> staged_under p v" "versioned_as_mut heap v = (heap', w)" "v' = w\<lparr>vs_pending := Some (p, x)\<rparr>"
    using assms(1) by (auto simp: versioned_stage_def split: if_splits prod.splits)
  then have "versioned_as_ref heap' v' = versioned_as_ref heap v \<and>
    (\<forall>u. versioned_as_ref heap' u = versioned_as_ref heap u) \<and> vs_pending v' = Some (p, x) \<and> length heap' = length heap \<and>
    (\<forall>q. heap' ! q \<noteq> heap ! q \<longrightarrow> q \<noteq> p \<and> staged_under q v \<and> heap ! q = Pending \<and> heap' ! q = Conflicted)"
  proof cases
    case again
    then show ?thesis
      using assms(2) by (auto simp: staged_under_def versioned_as_ref_def split: option.splits)
  next
    case (first w)
    note facts = as_mut_visible [OF first(2)]
    have "versioned_as_ref heap' u = versioned_as_ref heap u" for u
      using facts(1) by (rule as_ref_visible_cong)
    moreover have "versioned_as_ref heap' v' = versioned_as_ref heap v"
      using facts(1,3) first(3) assms(2) by (simp add: versioned_as_ref_def)
    ultimately show ?thesis using first facts(4,5) by auto
  qed
  then show "versioned_as_ref heap' v' = versioned_as_ref heap v"
    and "\<And>u. versioned_as_ref heap' u = versioned_as_ref heap u"
    and "vs_pending v' = Some (p, x)" and "length heap' = length heap"
    and "\<And>q. heap' ! q \<noteq> heap ! q \<Longrightarrow> q \<noteq> p \<and> staged_under q v \<and> heap ! q = Pending \<and> heap' ! q = Conflicted"
    by blast+
qed

section \<open>A batch of staged values\<close>

text \<open>The publication is pending, and exactly these cells are staged under it.\<close>

definition batch :: "nat \<Rightarrow> (nat \<rightharpoonup> 'a) \<Rightarrow> 'a cell_store \<Rightarrow> bool" where
  "batch p m s \<longleftrightarrow> p < length (cs_heap s) \<and> cs_heap s ! p = Pending \<and> dom m \<subseteq> {..<length (cs_cells s)} \<and>
     (\<forall>i < length (cs_cells s). staged_under p (cs_cells s ! i) \<longleftrightarrow> i \<in> dom m) \<and>
     (\<forall>i x. m i = Some x \<longrightarrow> vs_pending (cs_cells s ! i) = Some (p, x))"

primrec touches :: "nat set \<Rightarrow> 'a cell_op \<Rightarrow> bool" where
  "touches D (CellWrite i x) \<longleftrightarrow> i \<in> D"
| "touches D (CellStage i x q) \<longleftrightarrow> i \<in> D"
| "touches D (CellPublish q) \<longleftrightarrow> False"

primrec concerns :: "nat \<Rightarrow> 'a cell_op \<Rightarrow> bool" where
  "concerns p (CellWrite i x) \<longleftrightarrow> False"
| "concerns p (CellStage i x q) \<longleftrightarrow> q = p"
| "concerns p (CellPublish q) \<longleftrightarrow> q = p"

lemma stage_heap:
  assumes "versioned_stage x q heap v = (heap', v')"
  shows "vs_pending v' = Some (q, x)" and "length heap' = length heap"
    and "\<And>p. heap' ! p \<noteq> heap ! p \<Longrightarrow> staged_under p v \<and> heap ! p = Pending \<and> heap' ! p = Conflicted"
  using assms as_mut_visible(4,5) [of heap v]
  by (auto simp: versioned_stage_def split: if_splits prod.splits)

lemma as_mut_conflicts:
  assumes "vs_pending v = Some (p, x)" and "heap ! p = Pending" and "p < length heap"
    and "versioned_as_mut heap v = (heap', v')"
  shows "heap' ! p = Conflicted"
  using assms by (auto simp: versioned_as_mut_def publication_visible_def publication_invalidate_def settle_def)

lemma cells_at_cell:
  "i < length (cs_cells s) \<Longrightarrow> f (cs_heap s) (cs_cells s ! i) = (heap, v) \<Longrightarrow>
   at_cell f i s = \<lparr>cs_heap = heap, cs_cells = (cs_cells s)[i := v]\<rparr>"
  by (simp add: at_cell_def)

lemma length_cell_step [simp]: "length (cs_cells (cell_step s op)) = length (cs_cells s)"
  by (cases op) (auto simp: at_cell_def split: prod.splits)

lemma untouched_keeps_batch:
  assumes b: "batch p m s" and "\<not> touches (dom m) op" and "\<not> concerns p op"
  shows "batch p m (cell_step s op)"
proof (cases op)
  case (CellWrite i x)
  show ?thesis
  proof (cases "i < length (cs_cells s)")
    case True
    obtain heap v where step: "versioned_write x (cs_heap s) (cs_cells s ! i) = (heap, v)" by fastforce
    have i: "i \<notin> dom m" using assms(2) CellWrite by simp
    then have "heap ! p = cs_heap s ! p"
      using write_visible(5) [OF step, of p] b True by (auto simp: batch_def)
    then show ?thesis
      using b i write_visible(3,4) [OF step] cells_at_cell [of i s "versioned_write x", OF True step] CellWrite True
      by (auto simp: batch_def nth_list_update staged_under_def)
  qed (use b CellWrite in \<open>simp add: at_cell_def\<close>)
next
  case (CellStage i x q)
  show ?thesis
  proof (cases "i < length (cs_cells s)")
    case True
    obtain heap v where step: "versioned_stage x q (cs_heap s) (cs_cells s ! i) = (heap, v)" by fastforce
    have i: "i \<notin> dom m" and q: "q \<noteq> p" using assms(2,3) CellStage by simp_all
    then have "heap ! p = cs_heap s ! p"
      using stage_heap(3) [OF step, of p] b True by (auto simp: batch_def)
    then show ?thesis
      using b i q stage_heap(1,2) [OF step] cells_at_cell [of i s "versioned_stage x q", OF True step] CellStage True
      by (auto simp: batch_def nth_list_update staged_under_def)
  qed (use b CellStage in \<open>simp add: at_cell_def\<close>)
next
  case (CellPublish q)
  then show ?thesis
    using b assms(3) by (auto simp: batch_def publication_publish_def settle_def)
qed

lemma touched_conflicts:
  assumes b: "batch p m s" and "touches (dom m) op" and "\<not> concerns p op"
  shows "cs_heap (cell_step s op) ! p = Conflicted"
proof -
  have conflict: "heap ! p = Conflicted"
    if "i \<in> dom m" "versioned_as_mut (cs_heap s) (cs_cells s ! i) = (heap, v)" for i heap v
    using b that as_mut_conflicts [of "cs_cells s ! i" p _ "cs_heap s" heap v] by (auto simp: batch_def)
  show ?thesis
  proof (cases op)
    case (CellWrite i x)
    then have "i \<in> dom m" "i < length (cs_cells s)" using assms(2) b by (auto simp: batch_def)
    then show ?thesis
      using conflict CellWrite by (auto simp: at_cell_def versioned_write_def split: prod.splits)
  next
    case (CellStage i x q)
    then have i: "i \<in> dom m" "i < length (cs_cells s)" "q \<noteq> p" using assms(2,3) b by (auto simp: batch_def)
    then have "\<not> staged_under q (cs_cells s ! i)"
      using b by (auto simp: batch_def staged_under_def)
    then show ?thesis
      using i conflict CellStage by (auto simp: at_cell_def versioned_stage_def split: prod.splits)
  qed (use assms(2) in simp)
qed

lemma conflicted_stays:
  assumes "cs_heap s ! p = Conflicted"
  shows "cs_heap (cell_step s op) ! p = Conflicted"
proof (cases op)
  case (CellWrite i x)
  then show ?thesis
    using assms write_visible(5) [of x "cs_heap s" "cs_cells s ! i"]
    by (auto simp: at_cell_def split: prod.splits) (metis publication_status.distinct(3))
next
  case (CellStage i x q)
  then show ?thesis
    using assms stage_heap(3) [of x q "cs_heap s" "cs_cells s ! i"]
    by (auto simp: at_cell_def split: prod.splits) (metis publication_status.distinct(3))
next
  case (CellPublish q)
  then show ?thesis using assms by (auto simp: publication_publish_def settle_def nth_update_iff)
qed

lemma run_batch:
  assumes "batch p m s" and "\<forall>op \<in> set ops. \<not> concerns p op"
  shows "if \<exists>op \<in> set ops. touches (dom m) op
    then cs_heap (foldl cell_step s ops) ! p = Conflicted else batch p m (foldl cell_step s ops)"
  using assms
proof (induction ops arbitrary: s)
  case (Cons op ops)
  have stays: "cs_heap (foldl cell_step u ops) ! p = Conflicted" if "cs_heap u ! p = Conflicted" for u ops
    using that by (induction ops arbitrary: u) (simp_all add: conflicted_stays)
  show ?case
  proof (cases "touches (dom m) op")
    case True
    then have "cs_heap (cell_step s op) ! p = Conflicted"
      using touched_conflicts [OF Cons.prems(1)] Cons.prems(2) by simp
    with True stays show ?thesis by simp
  next
    case False
    then have "batch p m (cell_step s op)"
      using Cons.prems by (intro untouched_keeps_batch) auto
    from Cons.IH [OF this] False Cons.prems(2) show ?thesis by simp
  qed
qed simp

text \<open>Staging a list of values for different cells under a new publication builds a batch.\<close>

lemma stage_batch:
  assumes b: "batch p m s" and "i < length (cs_cells s)"
  shows "batch p (m(i \<mapsto> x)) (cell_step s (CellStage i x p))"
    and "j < length (cs_cells s) \<Longrightarrow> cell_visible (cell_step s (CellStage i x p)) j = cell_visible s j"
proof -
  obtain heap v where step: "versioned_stage x p (cs_heap s) (cs_cells s ! i) = (heap, v)" by fastforce
  have hidden: "\<not> publication_visible p (cs_heap s)"
    using b by (simp add: batch_def publication_visible_def)
  note facts = stage_visible [OF step hidden]
  note s' = cells_at_cell [of i s "versioned_stage x p", OF assms(2) step]
  have "heap ! p = Pending" using facts(5) [of p] b by (auto simp: batch_def)
  then show "batch p (m(i \<mapsto> x)) (cell_step s (CellStage i x p))"
    using b assms(2) facts(3,4)
    by (auto simp: s' batch_def nth_list_update staged_under_def)
  show "cell_visible (cell_step s (CellStage i x p)) j = cell_visible s j" if "j < length (cs_cells s)"
    using facts(1,2) that by (cases "j = i") (simp_all add: s' cell_visible_def assms(2))
qed

definition stage_all :: "nat \<Rightarrow> (nat \<times> 'a) list \<Rightarrow> 'a cell_op list" where
  "stage_all p staged = map (\<lambda>(i, x). CellStage i x p) staged"

lemma stage_all_batch:
  assumes "batch p m s" and "\<forall>(i, x) \<in> set staged. i < length (cs_cells s)"
  shows "batch p (m ++ map_of (rev staged)) (foldl cell_step s (stage_all p staged)) \<and>
    (\<forall>j < length (cs_cells s). cell_visible (foldl cell_step s (stage_all p staged)) j = cell_visible s j)"
  using assms
proof (induction staged arbitrary: s m)
  case (Cons e staged)
  obtain i x where e: "e = (i, x)" by (cases e)
  have i: "i < length (cs_cells s)" using Cons.prems(2) e by auto
  have len: "length (cs_cells (cell_step s (CellStage i x p))) = length (cs_cells s)" by (rule length_cell_step)
  have map: "m ++ map_of (rev (e # staged)) = m(i \<mapsto> x) ++ map_of (rev staged)"
    by (simp add: e)
  have run: "foldl cell_step s (stage_all p (e # staged)) =
      foldl cell_step (cell_step s (CellStage i x p)) (stage_all p staged)"
    by (simp add: stage_all_def e)
  let ?s = "cell_step s (CellStage i x p)"
  have fits: "\<forall>(i, x) \<in> set staged. i < length (cs_cells ?s)"
    using Cons.prems(2) len by auto
  note ih = Cons.IH [OF stage_batch(1) [OF Cons.prems(1) i, of x] fits]
  have "cell_visible (foldl cell_step ?s (stage_all p staged)) j = cell_visible s j" if "j < length (cs_cells s)" for j
    using ih that stage_batch(2) [OF Cons.prems(1) i that, of x] unfolding len by metis
  then show ?case
    unfolding map run using ih by blast
qed (simp add: stage_all_def)

lemma fresh_batch:
  assumes "store_inv s" and "publication_new (cs_heap s) = (p, heap)"
  shows "batch p (\<lambda>_. None) (s\<lparr>cs_heap := heap\<rparr>)"
    and "j < length (cs_cells s) \<Longrightarrow> cell_visible (s\<lparr>cs_heap := heap\<rparr>) j = cell_visible s j"
proof -
  have pending: "q < length (cs_heap s)" if "j < length (cs_cells s)" "vs_pending (cs_cells s ! j) = Some (q, x)" for j q x
    using assms(1) nth_mem [OF that(1)] that(2) by (auto simp: store_inv_def split: option.splits)
  then show "batch p (\<lambda>_. None) (s\<lparr>cs_heap := heap\<rparr>)"
    using assms(2) by (fastforce simp: batch_def publication_new_def staged_under_def split: option.splits)
  show "cell_visible (s\<lparr>cs_heap := heap\<rparr>) j = cell_visible s j" if "j < length (cs_cells s)"
    using pending [OF that] assms(2)
    by (auto simp: cell_visible_def versioned_as_ref_def publication_new_def publication_visible_def nth_append
        split: option.splits)
qed

lemma publish_batch:
  assumes "batch p m s" and "j < length (cs_cells s)"
  shows "cell_visible (cell_step s (CellPublish p)) j = (case m j of Some x \<Rightarrow> Some x | None \<Rightarrow> cell_visible s j)"
    and "fst (publication_publish p (cs_heap s))"
  using assms
  by (auto simp: batch_def publication_publish_def settle_def cell_visible_def versioned_as_ref_def
      publication_visible_def nth_list_update staged_under_def split: option.splits)

section \<open>Properties\<close>

text \<open>
  C16: values staged under one publication become visible all at once or not at all. Staging hides
  them; publishing succeeds and shows every one of them exactly when none of their records was
  written or staged again in between, whatever happened to other records and publications;
  otherwise publishing fails and no record changes.
\<close>

theorem publication_all_or_nothing:
  assumes "store_inv s" and "publication_new (cs_heap s) = (p, heap)"
    and "\<forall>(i, x) \<in> set staged. i < length (cs_cells s)"
    and "\<forall>op \<in> set between. \<not> concerns p op"
    and "s1 = foldl cell_step (s\<lparr>cs_heap := heap\<rparr>) (stage_all p staged)"
    and "s2 = foldl cell_step s1 between" and "j < length (cs_cells s)"
  shows "cell_visible s1 j = cell_visible s j \<and>
    fst (publication_publish p (cs_heap s2)) = (\<not> (\<exists>op \<in> set between. touches (fst ` set staged) op)) \<and>
    cell_visible (cell_step s2 (CellPublish p)) j =
      (if \<exists>op \<in> set between. touches (fst ` set staged) op then cell_visible s2 j
       else case map_of (rev staged) j of Some x \<Rightarrow> Some x | None \<Rightarrow> cell_visible s2 j)"
proof -
  let ?m = "map_of (rev staged)"
  have dom: "dom ?m = fst ` set staged" by (simp add: dom_map_of_conv_image_fst)
  have staged: "batch p ?m s1" and same: "cell_visible s1 j = cell_visible s j"
    using stage_all_batch [OF fresh_batch(1) [OF assms(1,2)], of staged] assms(3,5,7)
      fresh_batch(2) [OF assms(1,2,7)]
    by auto
  have run: "length (cs_cells (foldl cell_step u ops)) = length (cs_cells u)" for u and ops :: "'a cell_op list"
    by (induction ops arbitrary: u) simp_all
  have len: "j < length (cs_cells s2)" using assms(5,6,7) by (simp add: run)
  show ?thesis
  proof (cases "\<exists>op \<in> set between. touches (fst ` set staged) op")
    case True
    then have "cs_heap s2 ! p = Conflicted"
      using run_batch [OF staged assms(4)] by (simp add: dom assms(6))
    with True same show ?thesis by (simp add: publication_publish_def settle_def cell_visible_def)
  next
    case False
    then have "batch p ?m s2"
      using run_batch [OF staged assms(4)] by (simp add: dom assms(6))
    with False same publish_batch [OF this len] show ?thesis by simp
  qed
qed

definition example_store :: "nat cell_store" where
  "example_store = \<lparr>cs_heap = [], cs_cells = map (\<lambda>n. versioned_new (Some n)) [1, 2, 3]\<rparr>"

theorem publication_all_or_nothing_witness:
  "cell_visible (cell_step (foldl cell_step (example_store\<lparr>cs_heap := [Pending]\<rparr>)
     (stage_all 0 [(0, 30), (1, 40)] @ [CellWrite 2 7])) (CellPublish 0)) 1 = Some 40"
proof -
  have "store_inv example_store" "publication_new (cs_heap example_store) = (0, [Pending])"
    by (simp_all add: store_inv_def example_store_def versioned_new_def publication_new_def)
  from publication_all_or_nothing [OF this, of "[(0, 30), (1, 40)]" "[CellWrite 2 7]" _ _ 1, OF _ _ refl refl]
  show ?thesis by (simp add: example_store_def)
qed

text \<open>
  A write through \<^verbatim>\<open>as_mut\<close> is visible at once and changes no other record, whatever is staged
  or has been published for the record; staging changes no visible value.
\<close>

theorem versioned_operations_visible:
  assumes "i < length (cs_cells s)" and "j < length (cs_cells s)"
  shows "cell_visible (cell_step s (CellWrite i x)) j =
      (if j = i \<and> cell_visible s i \<noteq> None then Some x else cell_visible s j) \<and>
    (\<not> publication_visible p (cs_heap s) \<longrightarrow> cell_visible (cell_step s (CellStage i x p)) j = cell_visible s j) \<and>
    cell_visible (cell_step s (CellPublish p)) j =
      (if p < length (cs_heap s) \<and> cs_heap s ! p = Pending \<and> staged_under p (cs_cells s ! j)
       then map_option snd (vs_pending (cs_cells s ! j)) else cell_visible s j)"
proof -
  obtain heap v where w: "versioned_write x (cs_heap s) (cs_cells s ! i) = (heap, v)" by fastforce
  obtain heap' v' where st: "versioned_stage x p (cs_heap s) (cs_cells s ! i) = (heap', v')" by fastforce
  have "cell_visible (cell_step s (CellWrite i x)) j =
      (if j = i \<and> cell_visible s i \<noteq> None then Some x else cell_visible s j)"
    using write_visible(1,2) [OF w] assms cells_at_cell [of i s "versioned_write x", OF assms(1) w]
    by (cases "j = i") (simp_all add: cell_visible_def)
  moreover have "cell_visible (cell_step s (CellStage i x p)) j = cell_visible s j"
    if "\<not> publication_visible p (cs_heap s)"
    using stage_visible(1,2) [OF st that] assms cells_at_cell [of i s "versioned_stage x p", OF assms(1) st]
    by (cases "j = i") (simp_all add: cell_visible_def)
  moreover have "cell_visible (cell_step s (CellPublish p)) j =
      (if p < length (cs_heap s) \<and> cs_heap s ! p = Pending \<and> staged_under p (cs_cells s ! j)
       then map_option snd (vs_pending (cs_cells s ! j)) else cell_visible s j)"
    by (auto simp: cell_visible_def publication_publish_def settle_def versioned_as_ref_def staged_under_def
        publication_visible_def nth_update_iff split: option.splits)
  ultimately show ?thesis by blast
qed

theorem versioned_operations_visible_witness:
  "cell_visible (cell_step example_store (CellWrite 2 7)) 2 = Some 7"
  using versioned_operations_visible [of 2 example_store 2 7 0]
  by (simp add: example_store_def cell_visible_def versioned_new_def versioned_as_ref_def)

end
