(* ===== verification/Wire_Bytes.thy ===== *)
theory Wire_Bytes
  imports Dogmos_Prelude
begin

text \<open>
  Byte-level vocabulary of the wire formats (\<^verbatim>\<open>crates/dogmos-protocol\<close>): little-endian
  integers, slices of the input (out of range they panic), and fixed output arrays that are
  written in place.

  Two laws carry every codec proof. Reading a field back from an array of in-place writes gives
  what was written there; and consecutive fields of an input concatenate to the input. The
  locales \<open>lossless\<close> and \<open>codec\<close> state what a message format promises.
\<close>

type_synonym bytes = "u8 list"

section \<open>Little-endian integers\<close>

definition to_le_bytes :: "'a::len word \<Rightarrow> bytes" where
  "to_le_bytes w = map (\<lambda>i. ucast (drop_bit (8 * i) w)) [0..<LENGTH('a) div 8]"

primrec from_le_bytes :: "bytes \<Rightarrow> 'a::len word" where
  "from_le_bytes [] = 0"
| "from_le_bytes (b # bs) = push_bit 8 (from_le_bytes bs) OR ucast b"

lemma length_to_le_bytes [simp]: "length (to_le_bytes (w :: 'a::len word)) = LENGTH('a) div 8"
  by (simp add: to_le_bytes_def)

lemma bit_from_le_bytes:
  "bit (from_le_bytes bs :: 'a::len word) i \<longleftrightarrow>
     i < LENGTH('a) \<and> i div 8 < length bs \<and> bit (bs ! (i div 8)) (i mod 8)"
proof (induction bs arbitrary: i)
  case (Cons b bs)
  show ?case
  proof (cases "i < 8")
    case True
    then show ?thesis by (auto simp: bit_or_iff bit_push_bit_iff bit_ucast_iff)
  next
    case False
    then have "i div 8 = Suc ((i - 8) div 8)" and "i mod 8 = (i - 8) mod 8"
      by (simp_all add: le_div_geq le_mod_geq)
    moreover have "\<not> bit b i"
      using False bit_imp_le_length [of b i] by auto
    ultimately show ?thesis
      using False Cons.IH [of "i - 8"] by (auto simp: bit_or_iff bit_push_bit_iff bit_ucast_iff)
  qed
qed simp

lemma nth_to_le_bytes:
  "i < LENGTH('a) div 8 \<Longrightarrow> to_le_bytes (w :: 'a::len word) ! i = ucast (drop_bit (8 * i) w)"
  by (simp add: to_le_bytes_def)

lemma from_to_le_bytes:
  fixes w :: "'a::len word"
  assumes "8 dvd LENGTH('a)"
  shows "from_le_bytes (to_le_bytes w) = w"
proof (rule bit_word_eqI)
  fix i assume i: "i < LENGTH('a)"
  obtain k where "LENGTH('a) = 8 * k" using assms by (rule dvdE)
  with i have "i div 8 < LENGTH('a) div 8"
    by (simp add: less_mult_imp_div_less mult.commute)
  with i show "bit (from_le_bytes (to_le_bytes w) :: 'a word) i \<longleftrightarrow> bit w i"
    by (simp add: bit_from_le_bytes nth_to_le_bytes bit_ucast_iff bit_drop_bit_eq)
qed

lemma to_from_le_bytes:
  assumes "8 * length bs = LENGTH('a)"
  shows "to_le_bytes (from_le_bytes bs :: 'a::len word) = bs"
proof (rule nth_equalityI)
  have len: "LENGTH('a) div 8 = length bs"
    by (metis assms nonzero_mult_div_cancel_left zero_neq_numeral)
  then show "length (to_le_bytes (from_le_bytes bs :: 'a word)) = length bs"
    by simp
  fix i assume "i < length (to_le_bytes (from_le_bytes bs :: 'a word))"
  then have i: "i < length bs" by (simp add: len)
  show "to_le_bytes (from_le_bytes bs :: 'a word) ! i = bs ! i"
  proof (rule bit_word_eqI)
    fix j assume "j < LENGTH(8)"
    with i assms len show "bit (to_le_bytes (from_le_bytes bs :: 'a word) ! i) j \<longleftrightarrow> bit (bs ! i) j"
      by (auto simp: nth_to_le_bytes bit_ucast_iff bit_drop_bit_eq bit_from_le_bytes)
  qed
qed

lemma from_to_le_bytes_u16 [simp]: "from_le_bytes (to_le_bytes w) = (w :: u16)"
  and from_to_le_bytes_u32 [simp]: "from_le_bytes (to_le_bytes x) = (x :: u32)"
  and from_to_le_bytes_u64 [simp]: "from_le_bytes (to_le_bytes y) = (y :: u64)"
  by (simp_all add: from_to_le_bytes)

section \<open>Fields of an input\<close>

definition field :: "nat \<Rightarrow> nat \<Rightarrow> 'a list \<Rightarrow> 'a list" where
  "field pos n xs = take n (drop pos xs)"

lemma length_field [simp]: "pos + n \<le> length xs \<Longrightarrow> length (field pos n xs) = n"
  by (simp add: field_def)

lemma field_join:
  "pos' = pos + n \<Longrightarrow> field pos n xs @ field pos' m xs = field pos (n + m) xs"
  by (simp add: field_def take_add drop_drop add.commute [of n pos])

lemma field_join_append:
  "pos' = pos + n \<Longrightarrow> field pos n xs @ field pos' m xs @ ys = field pos (n + m) xs @ ys"
  using field_join [of pos' pos n xs m] by (metis append.assoc)

lemma field_whole [simp]: "n = length xs \<Longrightarrow> field 0 n xs = xs"
  by (simp add: field_def)

lemma field_field:
  "pos' + n' \<le> n \<Longrightarrow> field pos' n' (field pos n xs) = field (pos + pos') n' xs"
  by (simp add: field_def drop_take drop_drop min_def add.commute [of pos' pos])

lemma to_le_field_u16 [simp]:
  "length bs = 2 \<Longrightarrow> to_le_bytes (from_le_bytes bs :: u16) = bs"
  and to_le_field_u32 [simp]:
  "length bs = 4 \<Longrightarrow> to_le_bytes (from_le_bytes bs :: u32) = bs"
  and to_le_field_u64 [simp]:
  "length bs = 8 \<Longrightarrow> to_le_bytes (from_le_bytes bs :: u64) = bs"
  by (rule to_from_le_bytes; simp)+

lemma to_le_eqI_u16: "length bs = 2 \<Longrightarrow> from_le_bytes bs = (w :: u16) \<Longrightarrow> to_le_bytes w = bs"
  and to_le_eqI_u32: "length bs = 4 \<Longrightarrow> from_le_bytes bs = (x :: u32) \<Longrightarrow> to_le_bytes x = bs"
  and to_le_eqI_u64: "length bs = 8 \<Longrightarrow> from_le_bytes bs = (y :: u64) \<Longrightarrow> to_le_bytes y = bs"
  by auto

lemma from_le_eq_iff_u16: "length bs = 2 \<Longrightarrow> from_le_bytes bs = (w :: u16) \<longleftrightarrow> bs = to_le_bytes w"
  and from_le_eq_iff_u32: "length bs = 4 \<Longrightarrow> from_le_bytes bs = (x :: u32) \<longleftrightarrow> bs = to_le_bytes x"
  and from_le_eq_iff_u64: "length bs = 8 \<Longrightarrow> from_le_bytes bs = (y :: u64) \<longleftrightarrow> bs = to_le_bytes y"
  by auto

lemmas from_le_eq_iffs = from_le_eq_iff_u16 from_le_eq_iff_u32 from_le_eq_iff_u64

text \<open>\<open>&input[a..b]\<close>.\<close>

definition slice :: "nat \<Rightarrow> nat \<Rightarrow> 'a list \<Rightarrow> ('a list, 'e) result" where
  "slice a b xs = (if a \<le> b \<and> b \<le> length xs then Ok (field a (b - a) xs) else Panic)"

text \<open>\<open>read_u16\<close>, \<open>read_u32\<close>, \<open>read_u64\<close> of lib.rs.\<close>

definition read_u16 :: "bytes \<Rightarrow> nat \<Rightarrow> (u16, 'e) result" where
  "read_u16 input pos = rbind (slice pos (pos + 2) input) (\<lambda>bs. Ok (from_le_bytes bs))"

definition read_u32 :: "bytes \<Rightarrow> nat \<Rightarrow> (u32, 'e) result" where
  "read_u32 input pos = rbind (slice pos (pos + 4) input) (\<lambda>bs. Ok (from_le_bytes bs))"

definition read_u64 :: "bytes \<Rightarrow> nat \<Rightarrow> (u64, 'e) result" where
  "read_u64 input pos = rbind (slice pos (pos + 8) input) (\<lambda>bs. Ok (from_le_bytes bs))"

lemma slice_Ok [simp]: "a \<le> b \<Longrightarrow> b \<le> length xs \<Longrightarrow> slice a b xs = Ok (field a (b - a) xs)"
  by (simp add: slice_def)

lemma read_u16_Ok [simp]: "pos + 2 \<le> length xs \<Longrightarrow> read_u16 xs pos = Ok (from_le_bytes (field pos 2 xs))"
  and read_u32_Ok [simp]: "pos + 4 \<le> length xs \<Longrightarrow> read_u32 xs pos = Ok (from_le_bytes (field pos 4 xs))"
  and read_u64_Ok [simp]: "pos + 8 \<le> length xs \<Longrightarrow> read_u64 xs pos = Ok (from_le_bytes (field pos 8 xs))"
  by (simp_all add: read_u16_def read_u32_def read_u64_def)

section \<open>Output arrays\<close>

text \<open>\<open>output[a..a + n].copy_from_slice(&bs)\<close> on an array that is large enough.\<close>

definition put :: "nat \<Rightarrow> 'a list \<Rightarrow> 'a list \<Rightarrow> 'a list" where
  "put pos bs out = take pos out @ take (length out - pos) bs @ drop (pos + length bs) out"

definition zeros :: "nat \<Rightarrow> bytes" where
  "zeros n = replicate n 0"

lemma length_zeros [simp]: "length (zeros n) = n"
  by (simp add: zeros_def)

lemma zeros_0 [simp]: "zeros 0 = []"
  by (simp add: zeros_def)

lemma length_put [simp]: "length (put pos bs out) = length out"
  by (auto simp: put_def min_def)

lemma field_put_same [simp]:
  "pos + length bs \<le> length out \<Longrightarrow> n = length bs \<Longrightarrow> field pos n (put pos bs out) = bs"
  by (simp add: put_def field_def)

lemma field_put_other [simp]:
  assumes "pos + length bs \<le> length out" and "pos' + n \<le> pos \<or> pos + length bs \<le> pos'"
  shows "field pos' n (put pos bs out) = field pos' n out"
  using assms(2)
proof
  assume "pos' + n \<le> pos"
  with assms(1) show ?thesis by (auto simp: put_def field_def drop_take min_def)
next
  assume "pos + length bs \<le> pos'"
  with assms(1) show ?thesis by (simp add: put_def field_def)
qed

lemma field_zeros [simp]: "pos + n \<le> m \<Longrightarrow> field pos n (zeros m) = zeros n"
  by (simp add: field_def zeros_def)

lemma from_le_zeros [simp]: "from_le_bytes (zeros n) = 0"
  by (induction n) (simp_all add: zeros_def)

lemma zeros_append: "zeros n @ zeros m = zeros (n + m)"
  by (simp add: zeros_def replicate_add)

lemma to_le_zero: "to_le_bytes (0 :: 'a::len word) = zeros (LENGTH('a) div 8)"
  by (simp add: to_le_bytes_def zeros_def map_replicate_const)

text \<open>
  An array that has been written up to some point, and is zero from there on. In this form an
  encoder is a concatenation.
\<close>

definition buf :: "bytes \<Rightarrow> nat \<Rightarrow> bytes" where
  "buf pre n = pre @ zeros n"


lemma put_buf:
  assumes "length pre \<le> pos" and "pos + length bs \<le> length pre + n"
  shows "put pos bs (buf pre n) =
    buf (pre @ zeros (pos - length pre) @ bs) (n - (pos - length pre) - length bs)"
  using assms by (auto simp: put_def buf_def zeros_def min_def)

lemma put_zeros:
  assumes "pos + length bs \<le> n"
  shows "put pos bs (zeros n) = buf (zeros pos @ bs) (n - pos - length bs)"
  using assms by (auto simp: put_def buf_def zeros_def min_def)

lemma length_buf [simp]: "length (buf pre n) = length pre + n"
  by (simp add: buf_def)

lemma buf_0: "buf pre 0 = pre"
  by (simp add: buf_def)

lemma from_le_eq_0_iff:
  assumes "8 * length bs = LENGTH('a)"
  shows "(from_le_bytes bs :: 'a::len word) = 0 \<longleftrightarrow> bs = zeros (length bs)"
proof
  assume "(from_le_bytes bs :: 'a word) = 0"
  then have "to_le_bytes (0 :: 'a word) = bs"
    using to_from_le_bytes [OF assms] by simp
  then show "bs = zeros (length bs)"
    by (metis length_zeros to_le_zero)
next
  assume "bs = zeros (length bs)"
  then show "(from_le_bytes bs :: 'a word) = 0"
    by (metis from_le_zeros)
qed

lemma from_le_eq_0_iff_u16: "length bs = 2 \<Longrightarrow> (from_le_bytes bs :: u16) = 0 \<longleftrightarrow> bs = zeros 2"
  and from_le_eq_0_iff_u32: "length bs = 4 \<Longrightarrow> (from_le_bytes bs :: u32) = 0 \<longleftrightarrow> bs = zeros 4"
  and from_le_eq_0_iff_u64: "length bs = 8 \<Longrightarrow> (from_le_bytes bs :: u64) = 0 \<longleftrightarrow> bs = zeros 8"
  using from_le_eq_0_iff [of bs, where 'a = 16] from_le_eq_0_iff [of bs, where 'a = 32]
    from_le_eq_0_iff [of bs, where 'a = 64]
  by simp_all

text \<open>A loop that writes equally long pieces one after the other.\<close>

primrec put_each :: "nat \<Rightarrow> nat \<Rightarrow> 'a list list \<Rightarrow> 'a list \<Rightarrow> 'a list" where
  "put_each pos len [] out = out"
| "put_each pos len (v # vs) out = put_each (pos + len) len vs (put pos v out)"

lemma put_fits:
  "pos + length bs \<le> length out \<Longrightarrow> put pos bs out = take pos out @ bs @ drop (pos + length bs) out"
  by (simp add: put_def)

lemma put_put: "pos' = pos + length a \<Longrightarrow> pos + length a + length b \<le> length out \<Longrightarrow>
  put pos' b (put pos a out) = put pos (a @ b) out"
proof -
  assume "pos' = pos + length a" and "pos + length a + length b \<le> length out"
  moreover have "length (take pos out @ a) = pos + length a"
    using \<open>pos + length a + length b \<le> length out\<close> by simp
  ultimately show ?thesis
    by (simp add: put_fits add.assoc add.commute [of "length b"])
qed

lemma put_Nil [simp]: "put pos [] out = out"
  by (simp add: put_def)

lemma put_each_eq:
  "(\<And>v. v \<in> set vs \<Longrightarrow> length v = len) \<Longrightarrow> pos + length (concat vs) \<le> length out \<Longrightarrow>
   put_each pos len vs out = put pos (concat vs) out"
  by (induction vs arbitrary: pos out) (auto simp: put_put)

lemma length_put_each [simp]: "length (put_each pos len vs out) = length out"
  by (induction vs arbitrary: pos out) auto

text \<open>What an encoder's output is, and how the parts of an input come together again.\<close>

lemmas put_simps = put_zeros put_buf buf_0

lemmas join_simps = field_join field_join_append

text \<open>A word with at most the lowest flag set (simplification writes \<open>!1\<close> as \<open>- 2\<close>).\<close>

lemma flag_bit: "w AND - 2 = 0 \<longleftrightarrow> w = 0 \<or> w = 1" for w :: "'a::len word"
proof
  assume "w AND - 2 = 0"
  then have a: "w AND NOT 1 = 0" by simp
  have other: "\<not> bit w i" if "i < LENGTH('a)" "i \<noteq> 0" for i
    using arg_cong [OF a, of "\<lambda>v. bit v i"] that by (auto simp: bit_and_iff bit_not_iff bit_1_iff)
  have "w = of_bool (bit w 0)"
  proof (rule bit_word_eqI)
    fix i assume "i < LENGTH('a)"
    then show "bit w i \<longleftrightarrow> bit (of_bool (bit w 0) :: 'a word) i"
      using other [of i] by (cases "i = 0") (simp_all add: bit_of_bool_iff)
  qed
  then show "w = 0 \<or> w = 1" by (cases "bit w 0") simp_all
qed (auto simp: and_one_eq)

section \<open>Early returns and integer enums\<close>

text \<open>\<open>if c { return Err(e) }\<close>.\<close>

definition reject_if :: "bool \<Rightarrow> 'e \<Rightarrow> (unit, 'e) result" where
  "reject_if c e = (if c then Err e else Ok ())"

lemma reject_if_simps [simp]:
  "reject_if c e = Ok () \<longleftrightarrow> \<not> c" "reject_if c e \<noteq> Panic" "reject_if c e = Err e' \<longleftrightarrow> c \<and> e' = e"
  "reject_if False e = Ok ()" "reject_if True e = Err e"
  by (auto simp: reject_if_def)

text \<open>
  \<open>match v { 1 => Ok(Self::A), \<dots>, actual => Err(\<dots>) }\<close>: the arms as a table.
\<close>

definition match_arms :: "('v \<times> 'k) list \<Rightarrow> 'v \<Rightarrow> 'e \<Rightarrow> ('k, 'e) result" where
  "match_arms arms v e = (case map_of arms v of Some k \<Rightarrow> Ok k | None \<Rightarrow> Err e)"

lemma match_arms_not_Panic [simp]: "match_arms arms v e \<noteq> Panic"
  by (simp add: match_arms_def split: option.splits)

text \<open>The arms invert the discriminants.\<close>

locale int_enum =
  fixes discriminant :: "'k \<Rightarrow> 'v"
    and arms :: "('v \<times> 'k) list"
  assumes complete: "map_of arms (discriminant k) = Some k"
    and sound: "list_all (\<lambda>(v, k). discriminant k = v) arms"
begin

lemma match_Ok_iff: "match_arms arms v e = Ok k \<longleftrightarrow> discriminant k = v"
proof -
  have "map_of arms v = Some k \<Longrightarrow> discriminant k = v"
    using sound map_of_SomeD by (fastforce simp: list_all_iff)
  then show ?thesis
    using complete [of k] by (auto simp: match_arms_def split: option.splits)
qed

lemma match_discriminant: "match_arms arms (discriminant k) e = Ok k"
  by (simp add: match_Ok_iff)

lemma discriminant_inject: "discriminant k = discriminant k' \<longleftrightarrow> k = k'"
  using complete by (metis option.inject)

end

section \<open>What a message format promises\<close>

text \<open>
  Decoding never panics, and a valid message that is encoded and decoded is the message.
\<close>

locale lossless =
  fixes enc :: "'m \<Rightarrow> (bytes, 'e) result"
    and dec :: "bytes \<Rightarrow> ('m, 'e) result"
    and valid :: "'m \<Rightarrow> bool"
  assumes dec_total: "dec bs \<noteq> Panic"
    and enc_valid: "valid m \<Longrightarrow> \<exists>bs. enc m = Ok bs"
    and dec_enc: "valid m \<Longrightarrow> enc m = Ok bs \<Longrightarrow> dec bs = Ok m"
begin

lemma enc_inject: "valid m \<Longrightarrow> valid m' \<Longrightarrow> enc m = enc m' \<Longrightarrow> m = m'"
  using enc_valid dec_enc by (metis result.inject(1))

lemma round_trip: "valid m \<Longrightarrow> rbind (enc m) dec = Ok m"
  using enc_valid dec_enc by fastforce

end

text \<open>
  In addition only encodings of valid messages are accepted, so that every message has exactly
  one encoding.
\<close>

locale codec = lossless +
  assumes enc_dec: "dec bs = Ok m \<Longrightarrow> valid m \<and> enc m = Ok bs"
begin

lemma dec_Ok_iff: "dec bs = Ok m \<longleftrightarrow> valid m \<and> enc m = Ok bs"
  using enc_dec dec_enc by blast

lemma dec_Err_iff: "(\<exists>e. dec bs = Err e) \<longleftrightarrow> (\<forall>m. valid m \<longrightarrow> enc m \<noteq> Ok bs)"
  using dec_total dec_Ok_iff by (metis result.distinct(1) result.exhaust)

lemma dec_inject: "dec bs = Ok m \<Longrightarrow> dec bs' = Ok m \<Longrightarrow> bs = bs'"
  using enc_dec by (metis result.inject(1))

end

end
