(* ===== verification/Wire_Frame.thy ===== *)
theory Wire_Frame
  imports Wire_Bytes
begin

text \<open>
  Frames of \<^verbatim>\<open>crates/dogmos-protocol/src/lib.rs\<close>: the 48-byte header and its validation, the
  split of a frame into header and payload, the answer check on the client side, the handshake
  payload, and the error code of an error response.

  The \<open>ProtocolError\<close> variants raised here form \<open>frame_error\<close>; those of the payload codecs are
  in \<open>payload_error\<close> (theory Wire_Payload). Enum discriminants are functions on the variants and
  the arms of a \<open>match\<close> on an integer are a table.
\<close>

section \<open>Constants and errors\<close>

definition dogmos_frame_magic :: u32 where "dogmos_frame_magic = 0x534d4744"
definition dogmos_abi_version :: u16 where "dogmos_abi_version = 2"
definition dogmos_protocol_version :: u16 where "dogmos_protocol_version = 13"
definition protocol_header_len :: u16 where "protocol_header_len = 48"
definition handshake_payload_len :: nat where "handshake_payload_len = 176"
definition max_control_payload :: u32 where "max_control_payload = 1048576"
definition max_callback_events :: u32 where "max_callback_events = 1048576"
definition max_pending_continuations :: u32 where "max_pending_continuations = 65536"
definition max_stage_work_items :: u32 where "max_stage_work_items = 4096"
definition flag_response :: u16 where "flag_response = 1"
definition flag_error :: u16 where "flag_error = 2"
definition known_flags :: u16 where "known_flags = flag_response OR flag_error"

datatype (plugins only: size) frame_error =
    TruncatedHeader u32 | InvalidMagic u32 | UnsupportedAbiVersion u16
  | UnsupportedProtocolVersion u16 | InvalidHeaderLength u16 | UnknownOperationKind u16
  | UnknownFlags u16 | ReservedField u32 | PayloadTooLarge u32 u32
  | TruncatedPayload u32 u32 | TrailingBytes u32 u32 | InvalidHandshakeLength u32 u32
  | InvalidProcessId | EmptyAuthenticationToken | EmptySourceRevision | EmptyFeatureFingerprint
  | EmptyExecutableDigest | InvalidControlCapacity u32 u32 | InvalidCallbackCapacity u32 u32
  | InvalidContinuationCapacity u32 u32 | InvalidCapacityLimit string | ReservedCapacityField u32
  | AuthenticationFailed | BuildIdentityMismatch | CapacityMismatch
  | InvalidServiceErrorLength u32 | UnknownServiceErrorCode u32 | ErrorFlagWithoutResponse
  | ExpectedResponse | WorldGenerationMismatch u32 u32 | WorldNonceMismatch
  | RequestIdMismatch u64 u64 | OperationKindMismatch u16 u16

section \<open>Operation kinds and service errors\<close>

datatype (plugins only: size) operation_kind =
  OpHandshake | OpEcho | OpShutdown | OpScalarGet | OpScalarSet | OpTransfer | OpGasVector |
  OpAdjacencyUpdate | OpBatch | OpCallbackBatch | OpAllocateDiagnostic | OpMixtureSnapshot |
  OpMixtureLifecycleBatch | OpAdjacencyBatch | OpSimulationStage |
  OpDiagnosticCallbackEnqueue | OpMixtureStateBatch | OpTurfLifecycleBatch |
  OpTurfAdjacencyBatch | OpTurfHeatBatch | OpTurfHeatAdjacencyBatch | OpMixtureCommand |
  OpGasMetadataInstall | OpReactionMetadataInstall | OpMixtureAdjustMultiple |
  OpContinuationCommand | OpContinuationAdjustMultiple | OpContinuationResume |
  OpContinuationCancel | OpServiceTelemetry | OpTurfHeatSnapshot | OpFrontierBegin |
  OpFrontierAppend | OpFrontierCommit | OpFrontierAdd | OpFrontierRemove |
  OpMixtureStateUploadBegin | OpMixtureStateUploadAppend | OpMixtureStateUploadCommit |
  OpMixtureStateUploadAbort | OpPipenetReconcile | OpMixtureSnapshotBatch

primrec operation_kind_value :: "operation_kind \<Rightarrow> u16" where
  "operation_kind_value OpHandshake = 1"
| "operation_kind_value OpEcho = 2"
| "operation_kind_value OpShutdown = 3"
| "operation_kind_value OpScalarGet = 10"
| "operation_kind_value OpScalarSet = 11"
| "operation_kind_value OpTransfer = 12"
| "operation_kind_value OpGasVector = 13"
| "operation_kind_value OpAdjacencyUpdate = 14"
| "operation_kind_value OpBatch = 15"
| "operation_kind_value OpCallbackBatch = 16"
| "operation_kind_value OpAllocateDiagnostic = 17"
| "operation_kind_value OpMixtureSnapshot = 18"
| "operation_kind_value OpMixtureLifecycleBatch = 19"
| "operation_kind_value OpAdjacencyBatch = 20"
| "operation_kind_value OpSimulationStage = 21"
| "operation_kind_value OpDiagnosticCallbackEnqueue = 22"
| "operation_kind_value OpMixtureStateBatch = 23"
| "operation_kind_value OpTurfLifecycleBatch = 24"
| "operation_kind_value OpTurfAdjacencyBatch = 25"
| "operation_kind_value OpTurfHeatBatch = 26"
| "operation_kind_value OpTurfHeatAdjacencyBatch = 27"
| "operation_kind_value OpMixtureCommand = 28"
| "operation_kind_value OpGasMetadataInstall = 29"
| "operation_kind_value OpReactionMetadataInstall = 30"
| "operation_kind_value OpMixtureAdjustMultiple = 31"
| "operation_kind_value OpContinuationCommand = 32"
| "operation_kind_value OpContinuationAdjustMultiple = 33"
| "operation_kind_value OpContinuationResume = 34"
| "operation_kind_value OpContinuationCancel = 35"
| "operation_kind_value OpServiceTelemetry = 36"
| "operation_kind_value OpTurfHeatSnapshot = 37"
| "operation_kind_value OpFrontierBegin = 38"
| "operation_kind_value OpFrontierAppend = 39"
| "operation_kind_value OpFrontierCommit = 40"
| "operation_kind_value OpFrontierAdd = 41"
| "operation_kind_value OpFrontierRemove = 42"
| "operation_kind_value OpMixtureStateUploadBegin = 43"
| "operation_kind_value OpMixtureStateUploadAppend = 44"
| "operation_kind_value OpMixtureStateUploadCommit = 45"
| "operation_kind_value OpMixtureStateUploadAbort = 46"
| "operation_kind_value OpPipenetReconcile = 47"
| "operation_kind_value OpMixtureSnapshotBatch = 48"

definition operation_kind_arms :: "(u16 \<times> operation_kind) list" where
  "operation_kind_arms =
     [(1, OpHandshake), (2, OpEcho), (3, OpShutdown), (10, OpScalarGet), (11, OpScalarSet),
     (12, OpTransfer), (13, OpGasVector), (14, OpAdjacencyUpdate), (15, OpBatch),
     (16, OpCallbackBatch), (17, OpAllocateDiagnostic), (18, OpMixtureSnapshot),
     (19, OpMixtureLifecycleBatch), (20, OpAdjacencyBatch), (21, OpSimulationStage),
     (22, OpDiagnosticCallbackEnqueue), (23, OpMixtureStateBatch), (24, OpTurfLifecycleBatch),
     (25, OpTurfAdjacencyBatch), (26, OpTurfHeatBatch), (27, OpTurfHeatAdjacencyBatch),
     (28, OpMixtureCommand), (29, OpGasMetadataInstall), (30, OpReactionMetadataInstall),
     (31, OpMixtureAdjustMultiple), (32, OpContinuationCommand),
     (33, OpContinuationAdjustMultiple), (34, OpContinuationResume),
     (35, OpContinuationCancel), (36, OpServiceTelemetry), (37, OpTurfHeatSnapshot),
     (38, OpFrontierBegin), (39, OpFrontierAppend), (40, OpFrontierCommit),
     (41, OpFrontierAdd), (42, OpFrontierRemove), (43, OpMixtureStateUploadBegin),
     (44, OpMixtureStateUploadAppend), (45, OpMixtureStateUploadCommit),
     (46, OpMixtureStateUploadAbort), (47, OpPipenetReconcile), (48, OpMixtureSnapshotBatch)]"

definition operation_kind_try_from :: "u16 \<Rightarrow> (operation_kind, frame_error) result" where
  "operation_kind_try_from v =
     match_arms operation_kind_arms v (UnknownOperationKind v)"

datatype (plugins only: size) service_error_code =
  SvcBusy | SvcAuthenticationFailed | SvcInvalidRequest | SvcDeadlineExceeded | SvcInternal |
  SvcCallbackBackpressure | SvcUnknownHandle | SvcStaleHandle | SvcRevisionMismatch |
  SvcRevisionExhausted | SvcDuplicateMixtureState | SvcInvalidMixtureState |
  SvcStateCapacityExceeded | SvcAllocationFailed | SvcInvalidGraph | SvcUnknownContinuation |
  SvcContinuationExpired | SvcContinuationCapacityExceeded | SvcContinuationWorldMismatch |
  SvcContinuationTokenMismatch | SvcFrontierConflict | SvcFrontierIncomplete |
  SvcStageConflict | SvcMixtureStateUploadConflict | SvcMixtureStateUploadIncomplete

primrec service_error_value :: "service_error_code \<Rightarrow> u32" where
  "service_error_value SvcBusy = 1"
| "service_error_value SvcAuthenticationFailed = 2"
| "service_error_value SvcInvalidRequest = 3"
| "service_error_value SvcDeadlineExceeded = 4"
| "service_error_value SvcInternal = 5"
| "service_error_value SvcCallbackBackpressure = 6"
| "service_error_value SvcUnknownHandle = 7"
| "service_error_value SvcStaleHandle = 8"
| "service_error_value SvcRevisionMismatch = 9"
| "service_error_value SvcRevisionExhausted = 10"
| "service_error_value SvcDuplicateMixtureState = 11"
| "service_error_value SvcInvalidMixtureState = 12"
| "service_error_value SvcStateCapacityExceeded = 13"
| "service_error_value SvcAllocationFailed = 14"
| "service_error_value SvcInvalidGraph = 15"
| "service_error_value SvcUnknownContinuation = 16"
| "service_error_value SvcContinuationExpired = 17"
| "service_error_value SvcContinuationCapacityExceeded = 18"
| "service_error_value SvcContinuationWorldMismatch = 19"
| "service_error_value SvcContinuationTokenMismatch = 20"
| "service_error_value SvcFrontierConflict = 21"
| "service_error_value SvcFrontierIncomplete = 22"
| "service_error_value SvcStageConflict = 23"
| "service_error_value SvcMixtureStateUploadConflict = 24"
| "service_error_value SvcMixtureStateUploadIncomplete = 25"

definition service_error_arms :: "(u32 \<times> service_error_code) list" where
  "service_error_arms =
     [(1, SvcBusy), (2, SvcAuthenticationFailed), (3, SvcInvalidRequest),
     (4, SvcDeadlineExceeded), (5, SvcInternal), (6, SvcCallbackBackpressure),
     (7, SvcUnknownHandle), (8, SvcStaleHandle), (9, SvcRevisionMismatch),
     (10, SvcRevisionExhausted), (11, SvcDuplicateMixtureState), (12, SvcInvalidMixtureState),
     (13, SvcStateCapacityExceeded), (14, SvcAllocationFailed), (15, SvcInvalidGraph),
     (16, SvcUnknownContinuation), (17, SvcContinuationExpired),
     (18, SvcContinuationCapacityExceeded), (19, SvcContinuationWorldMismatch),
     (20, SvcContinuationTokenMismatch), (21, SvcFrontierConflict),
     (22, SvcFrontierIncomplete), (23, SvcStageConflict), (24, SvcMixtureStateUploadConflict),
     (25, SvcMixtureStateUploadIncomplete)]"

definition service_error_encode :: "service_error_code \<Rightarrow> bytes" where
  "service_error_encode c = to_le_bytes (service_error_value c)"

definition service_error_decode :: "bytes \<Rightarrow> (service_error_code, frame_error) result" where
  "service_error_decode input =
     rbind (reject_if (length input \<noteq> 4) (InvalidServiceErrorLength (word_of_nat (length input)))) (\<lambda>_.
     rbind (read_u32 input 0) (\<lambda>actual.
     match_arms service_error_arms actual (UnknownServiceErrorCode actual)))"

interpretation operation_kind: int_enum operation_kind_value operation_kind_arms
proof
  show "map_of operation_kind_arms (operation_kind_value k) = Some k" for k
    by (cases k) (simp_all add: operation_kind_arms_def)
qed (simp add: operation_kind_arms_def)

interpretation service_error_code: int_enum service_error_value service_error_arms
proof
  show "map_of service_error_arms (service_error_value k) = Some k" for k
    by (cases k) (simp_all add: service_error_arms_def)
qed (simp add: service_error_arms_def)

lemma operation_kind_try_from_Ok_iff [simp]:
  "operation_kind_try_from v = Ok k \<longleftrightarrow> operation_kind_value k = v"
  by (simp add: operation_kind_try_from_def operation_kind.match_Ok_iff)

lemma operation_kind_try_from_not_Panic [simp]: "operation_kind_try_from v \<noteq> Panic"
  by (simp add: operation_kind_try_from_def)

interpretation service_error: codec "\<lambda>c. Ok (service_error_encode c)" service_error_decode "\<lambda>_. True"
  by unfold_locales
    (auto simp: service_error_decode_def service_error_encode_def service_error_code.match_Ok_iff
      intro: to_le_eqI_u32)

section \<open>Header\<close>

record protocol_header =
  ph_magic :: u32
  ph_protocol_version :: u16
  ph_header_len :: u16
  ph_operation_kind :: u16
  ph_flags :: u16
  ph_payload_len :: u32
  ph_request_id :: u64
  ph_world_generation :: u32
  ph_reserved :: u32
  ph_world_nonce :: u64
  ph_deadline_ns :: u64

definition header_request ::
  "operation_kind \<Rightarrow> u64 \<Rightarrow> u32 \<Rightarrow> u64 \<Rightarrow> u32 \<Rightarrow> u64 \<Rightarrow> protocol_header" where
  "header_request operation_kind request_id world_generation world_nonce payload_len deadline_ns =
     \<lparr>ph_magic = dogmos_frame_magic, ph_protocol_version = dogmos_protocol_version,
      ph_header_len = protocol_header_len, ph_operation_kind = operation_kind_value operation_kind,
      ph_flags = 0, ph_payload_len = payload_len, ph_request_id = request_id,
      ph_world_generation = world_generation, ph_reserved = 0, ph_world_nonce = world_nonce,
      ph_deadline_ns = deadline_ns\<rparr>"

definition header_response :: "protocol_header \<Rightarrow> protocol_header" where
  "header_response h = h\<lparr>ph_flags := ph_flags h OR flag_response\<rparr>"

definition header_operation_kind :: "protocol_header \<Rightarrow> (operation_kind, frame_error) result" where
  "header_operation_kind h = operation_kind_try_from (ph_operation_kind h)"

definition header_encode :: "protocol_header \<Rightarrow> bytes" where
  "header_encode h =
     put 40 (to_le_bytes (ph_deadline_ns h))
     (put 32 (to_le_bytes (ph_world_nonce h))
     (put 28 (to_le_bytes (ph_reserved h))
     (put 24 (to_le_bytes (ph_world_generation h))
     (put 16 (to_le_bytes (ph_request_id h))
     (put 12 (to_le_bytes (ph_payload_len h))
     (put 10 (to_le_bytes (ph_flags h))
     (put 8 (to_le_bytes (ph_operation_kind h))
     (put 6 (to_le_bytes (ph_header_len h))
     (put 4 (to_le_bytes (ph_protocol_version h))
     (put 0 (to_le_bytes (ph_magic h)) (zeros 48)))))))))))"

definition header_validate :: "protocol_header \<Rightarrow> (unit, frame_error) result" where
  "header_validate h =
     rbind (reject_if (ph_magic h \<noteq> dogmos_frame_magic) (InvalidMagic (ph_magic h))) (\<lambda>_.
     rbind (reject_if (ph_protocol_version h \<noteq> dogmos_protocol_version)
       (UnsupportedProtocolVersion (ph_protocol_version h))) (\<lambda>_.
     rbind (reject_if (ph_header_len h \<noteq> protocol_header_len)
       (InvalidHeaderLength (ph_header_len h))) (\<lambda>_.
     rbind (header_operation_kind h) (\<lambda>_.
     rbind (reject_if (ph_flags h AND NOT known_flags \<noteq> 0)
       (UnknownFlags (ph_flags h AND NOT known_flags))) (\<lambda>_.
     rbind (reject_if (ph_flags h AND flag_error \<noteq> 0 \<and> ph_flags h AND flag_response = 0)
       ErrorFlagWithoutResponse) (\<lambda>_.
     rbind (reject_if (ph_reserved h \<noteq> 0) (ReservedField (ph_reserved h))) (\<lambda>_.
     reject_if (ph_payload_len h > max_control_payload)
       (PayloadTooLarge (ph_payload_len h) max_control_payload))))))))"

definition header_decode :: "bytes \<Rightarrow> (protocol_header, frame_error) result" where
  "header_decode input =
     rbind (reject_if (length input < 48) (TruncatedHeader (word_of_nat (length input)))) (\<lambda>_.
     rbind (read_u32 input 0) (\<lambda>magic.
     rbind (read_u16 input 4) (\<lambda>protocol_version.
     rbind (read_u16 input 6) (\<lambda>header_len.
     rbind (read_u16 input 8) (\<lambda>operation_kind.
     rbind (read_u16 input 10) (\<lambda>flags.
     rbind (read_u32 input 12) (\<lambda>payload_len.
     rbind (read_u64 input 16) (\<lambda>request_id.
     rbind (read_u32 input 24) (\<lambda>world_generation.
     rbind (read_u32 input 28) (\<lambda>reserved.
     rbind (read_u64 input 32) (\<lambda>world_nonce.
     rbind (read_u64 input 40) (\<lambda>deadline_ns.
     let header = \<lparr>ph_magic = magic, ph_protocol_version = protocol_version,
           ph_header_len = header_len, ph_operation_kind = operation_kind, ph_flags = flags,
           ph_payload_len = payload_len, ph_request_id = request_id,
           ph_world_generation = world_generation, ph_reserved = reserved,
           ph_world_nonce = world_nonce, ph_deadline_ns = deadline_ns\<rparr>
     in rbind (header_validate header) (\<lambda>_. Ok header)))))))))))))"

definition validate_response_to :: "protocol_header \<Rightarrow> protocol_header \<Rightarrow> (unit, frame_error) result" where
  "validate_response_to self request =
     rbind (reject_if (ph_flags self AND flag_response = 0) ExpectedResponse) (\<lambda>_.
     rbind (reject_if (ph_world_generation self \<noteq> ph_world_generation request)
       (WorldGenerationMismatch (ph_world_generation request) (ph_world_generation self))) (\<lambda>_.
     rbind (reject_if (ph_world_nonce self \<noteq> ph_world_nonce request) WorldNonceMismatch) (\<lambda>_.
     rbind (reject_if (ph_request_id self \<noteq> ph_request_id request)
       (RequestIdMismatch (ph_request_id request) (ph_request_id self))) (\<lambda>_.
     reject_if (ph_operation_kind self \<noteq> ph_operation_kind request)
       (OperationKindMismatch (ph_operation_kind request) (ph_operation_kind self))))))"

text \<open>
  \<open>decode_frame\<close>: the header and the rest of the input, whose length must be the announced one.
\<close>

definition decode_frame :: "bytes \<Rightarrow> (protocol_header \<times> bytes, frame_error) result" where
  "decode_frame input =
     rbind (header_decode input) (\<lambda>header.
     let expected_frame_len = 48 + unat (ph_payload_len header)
     in rbind (reject_if (length input < expected_frame_len)
          (TruncatedPayload (word_of_nat expected_frame_len) (word_of_nat (length input)))) (\<lambda>_.
        rbind (reject_if (length input > expected_frame_len)
          (TrailingBytes (word_of_nat expected_frame_len) (word_of_nat (length input)))) (\<lambda>_.
        rbind (slice 48 (length input) input) (\<lambda>payload. Ok (header, payload)))))"

definition header_valid :: "protocol_header \<Rightarrow> bool" where
  "header_valid h \<longleftrightarrow> header_validate h = Ok ()"

lemma header_validate_not_Panic: "header_validate h \<noteq> Panic"
  by (simp add: header_validate_def header_operation_kind_def)

lemma length_header_encode [simp]: "length (header_encode h) = 48"
  by (simp add: header_encode_def)

lemma header_encode_append:
  "header_encode h = to_le_bytes (ph_magic h) @ to_le_bytes (ph_protocol_version h) @
     to_le_bytes (ph_header_len h) @ to_le_bytes (ph_operation_kind h) @ to_le_bytes (ph_flags h) @
     to_le_bytes (ph_payload_len h) @ to_le_bytes (ph_request_id h) @
     to_le_bytes (ph_world_generation h) @ to_le_bytes (ph_reserved h) @
     to_le_bytes (ph_world_nonce h) @ to_le_bytes (ph_deadline_ns h)"
  by (simp add: header_encode_def put_simps)

lemma field_append_left: "pos + n \<le> length xs \<Longrightarrow> field pos n (xs @ ys) = field pos n xs"
  by (simp add: field_def)

lemma header_fields:
  "field 0 4 (header_encode h) = to_le_bytes (ph_magic h)"
  "field 4 2 (header_encode h) = to_le_bytes (ph_protocol_version h)"
  "field 6 2 (header_encode h) = to_le_bytes (ph_header_len h)"
  "field 8 2 (header_encode h) = to_le_bytes (ph_operation_kind h)"
  "field 10 2 (header_encode h) = to_le_bytes (ph_flags h)"
  "field 12 4 (header_encode h) = to_le_bytes (ph_payload_len h)"
  "field 16 8 (header_encode h) = to_le_bytes (ph_request_id h)"
  "field 24 4 (header_encode h) = to_le_bytes (ph_world_generation h)"
  "field 28 4 (header_encode h) = to_le_bytes (ph_reserved h)"
  "field 32 8 (header_encode h) = to_le_bytes (ph_world_nonce h)"
  "field 40 8 (header_encode h) = to_le_bytes (ph_deadline_ns h)"
  by (simp_all add: header_encode_def)

lemma header_decode_encode: "header_valid h \<Longrightarrow> header_decode (header_encode h @ payload) = Ok h"
  by (cases h) (simp add: header_decode_def field_append_left header_fields header_valid_def Let_def)

lemma header_encode_decode:
  assumes "header_decode input = Ok h"
  shows "48 \<le> length input" and "header_valid h" and "header_encode h = field 0 48 input"
proof -
  show len: "48 \<le> length input"
    using assms by (auto simp: header_decode_def)
  show "header_valid h"
    using assms len by (auto simp: header_decode_def header_valid_def Let_def)
  show "header_encode h = field 0 48 input"
    using assms len
    by (auto simp: header_decode_def Let_def header_encode_append join_simps)
qed

lemma header_decode_not_Panic: "header_decode input \<noteq> Panic"
  by (auto simp: header_decode_def header_validate_not_Panic Let_def)

lemma decode_frame_not_Panic: "decode_frame input \<noteq> Panic"
proof -
  have "48 \<le> length input" if "header_decode input = Ok h" for h
    using that by (rule header_encode_decode)
  then show ?thesis
    by (auto simp: decode_frame_def header_decode_not_Panic Let_def)
qed

lemma header_valid_payload_bound: "header_valid h \<Longrightarrow> unat (ph_payload_len h) \<le> 1048576"
  by (auto simp: header_valid_def header_validate_def max_control_payload_def not_less word_le_nat_alt)

definition frame_valid :: "protocol_header \<times> bytes \<Rightarrow> bool" where
  "frame_valid = (\<lambda>(h, payload). header_valid h \<and> length payload = unat (ph_payload_len h))"

interpretation frame: codec "\<lambda>(h, payload). Ok (header_encode h @ payload)" decode_frame frame_valid
proof
  show "decode_frame bs \<noteq> Panic" for bs by (rule decode_frame_not_Panic)
  show "\<exists>bs. (case m of (h, payload) \<Rightarrow> Ok (header_encode h @ payload)) = (Ok bs :: (bytes, frame_error) result)" for m
    by (cases m) simp
  show "decode_frame bs = Ok m"
    if "frame_valid m" and "(case m of (h, payload) \<Rightarrow> Ok (header_encode h @ payload)) = (Ok bs :: (bytes, frame_error) result)" for bs m
    using that
    by (cases m) (auto simp: decode_frame_def frame_valid_def header_decode_encode Let_def field_def)
  show "frame_valid m \<and> (case m of (h, payload) \<Rightarrow> Ok (header_encode h @ payload)) = (Ok bs :: (bytes, frame_error) result)"
    if dec: "decode_frame bs = Ok m" for bs m
  proof -
    obtain h payload where m: "m = (h, payload)" by (cases m)
    from dec m have hd: "header_decode bs = Ok h" by (auto simp: decode_frame_def Let_def)
    note facts = header_encode_decode [OF hd]
    from dec m facts(1) have "payload = field 48 (length bs - 48) bs"
      and "length bs = 48 + unat (ph_payload_len h)"
      by (auto simp: decode_frame_def Let_def)
    with facts show ?thesis
      by (simp add: m frame_valid_def field_join)
  qed
qed

lemma validate_response_to_Ok_iff:
  "validate_response_to self request = Ok () \<longleftrightarrow>
     ph_flags self AND flag_response \<noteq> 0 \<and>
     ph_world_generation self = ph_world_generation request \<and>
     ph_world_nonce self = ph_world_nonce request \<and>
     ph_request_id self = ph_request_id request \<and>
     ph_operation_kind self = ph_operation_kind request"
  by (auto simp: validate_response_to_def)

lemma flag_response_or: "(f OR flag_response) AND flag_response \<noteq> 0"
proof -
  have "bit ((f OR flag_response) AND flag_response) 0"
    by (simp add: bit_and_iff bit_or_iff flag_response_def)
  then show ?thesis by auto
qed

lemma header_request_valid:
  "header_valid (header_request op request_id world_generation world_nonce payload_len deadline_ns) \<longleftrightarrow>
   payload_len \<le> max_control_payload"
  by (auto simp: header_valid_def header_validate_def header_request_def header_operation_kind_def not_less)

lemma header_response_valid: "header_valid h \<Longrightarrow> header_valid (header_response h)"
proof -
  assume h: "header_valid h"
  have "(f OR flag_response) AND NOT known_flags = f AND NOT known_flags" for f
    by (rule bit_word_eqI) (auto simp: bit_simps known_flags_def)
  with h show ?thesis
    using flag_response_or
    by (auto simp: header_valid_def header_validate_def header_response_def header_operation_kind_def)
qed

section \<open>Handshake\<close>

record build_identity =
  bi_abi_version :: u16
  bi_protocol_version :: u16
  bi_source_revision :: bytes
  bi_feature_fingerprint :: bytes
  bi_executable_digest :: bytes

record capacity_limits =
  cl_max_control_payload :: u32
  cl_max_batch_operations :: u32
  cl_max_callback_events :: u32
  cl_max_pending_continuations :: u32
  cl_max_frontier_handles :: u32
  cl_max_stage_work_items :: u32
  cl_max_reaction_transactions :: u32
  cl_reserved :: u32
  cl_max_world_bytes :: u64

record handshake_payload =
  hp_auth_token :: bytes
  hp_identity :: build_identity
  hp_capacities :: capacity_limits
  hp_process_id :: u32
  hp_world_generation :: u32
  hp_world_nonce :: u64

definition handshake_encode :: "handshake_payload \<Rightarrow> bytes" where
  "handshake_encode p =
     (let i = hp_identity p; c = hp_capacities p in
      put 168 (to_le_bytes (hp_world_nonce p))
      (put 164 (to_le_bytes (hp_world_generation p))
      (put 160 (to_le_bytes (hp_process_id p))
      (put 152 (to_le_bytes (cl_max_world_bytes c))
      (put 148 (to_le_bytes (cl_reserved c))
      (put 144 (to_le_bytes (cl_max_reaction_transactions c))
      (put 140 (to_le_bytes (cl_max_stage_work_items c))
      (put 136 (to_le_bytes (cl_max_frontier_handles c))
      (put 132 (to_le_bytes (cl_max_pending_continuations c))
      (put 128 (to_le_bytes (cl_max_callback_events c))
      (put 124 (to_le_bytes (cl_max_batch_operations c))
      (put 120 (to_le_bytes (cl_max_control_payload c))
      (put 88 (bi_executable_digest i)
      (put 56 (bi_feature_fingerprint i)
      (put 36 (bi_source_revision i)
      (put 34 (to_le_bytes (bi_protocol_version i))
      (put 32 (to_le_bytes (bi_abi_version i))
      (put 0 (hp_auth_token p) (zeros 176)))))))))))))))))))"

definition handshake_validate :: "handshake_payload \<Rightarrow> (unit, frame_error) result" where
  "handshake_validate p =
     (let i = hp_identity p; c = hp_capacities p in
      rbind (reject_if (hp_auth_token p = zeros 32) EmptyAuthenticationToken) (\<lambda>_.
      rbind (reject_if (bi_abi_version i \<noteq> dogmos_abi_version)
        (UnsupportedAbiVersion (bi_abi_version i))) (\<lambda>_.
      rbind (reject_if (bi_protocol_version i \<noteq> dogmos_protocol_version)
        (UnsupportedProtocolVersion (bi_protocol_version i))) (\<lambda>_.
      rbind (reject_if (bi_source_revision i = zeros 20) EmptySourceRevision) (\<lambda>_.
      rbind (reject_if (bi_feature_fingerprint i = zeros 32) EmptyFeatureFingerprint) (\<lambda>_.
      rbind (reject_if (bi_executable_digest i = zeros 32) EmptyExecutableDigest) (\<lambda>_.
      rbind (reject_if (hp_process_id p = 0) InvalidProcessId) (\<lambda>_.
      rbind (reject_if (cl_max_control_payload c = 0 \<or> cl_max_control_payload c > max_control_payload)
        (InvalidControlCapacity (cl_max_control_payload c) max_control_payload)) (\<lambda>_.
      rbind (reject_if (cl_max_callback_events c = 0 \<or> cl_max_callback_events c > max_callback_events)
        (InvalidCallbackCapacity (cl_max_callback_events c) max_callback_events)) (\<lambda>_.
      rbind (reject_if (cl_max_pending_continuations c = 0 \<or>
          cl_max_pending_continuations c > max_pending_continuations)
        (InvalidContinuationCapacity (cl_max_pending_continuations c) max_pending_continuations)) (\<lambda>_.
      rbind (reject_if (cl_reserved c \<noteq> 0) (ReservedCapacityField (cl_reserved c))) (\<lambda>_.
      rbind (reject_if (cl_max_frontier_handles c = 0)
        (InvalidCapacityLimit ''max_frontier_handles'')) (\<lambda>_.
      rbind (reject_if (cl_max_stage_work_items c = 0 \<or> cl_max_stage_work_items c > max_stage_work_items)
        (InvalidCapacityLimit ''max_stage_work_items'')) (\<lambda>_.
      reject_if (cl_max_reaction_transactions c = 0)
        (InvalidCapacityLimit ''max_reaction_transactions'')))))))))))))))"

definition handshake_decode :: "bytes \<Rightarrow> (handshake_payload, frame_error) result" where
  "handshake_decode input =
     rbind (reject_if (length input \<noteq> handshake_payload_len)
       (InvalidHandshakeLength (word_of_nat handshake_payload_len) (word_of_nat (length input)))) (\<lambda>_.
     rbind (slice 0 32 input) (\<lambda>auth_token.
     rbind (slice 36 56 input) (\<lambda>source_revision.
     rbind (slice 56 88 input) (\<lambda>feature_fingerprint.
     rbind (slice 88 120 input) (\<lambda>executable_digest.
     rbind (read_u16 input 32) (\<lambda>abi_version.
     rbind (read_u16 input 34) (\<lambda>protocol_version.
     rbind (read_u32 input 120) (\<lambda>control_payload.
     rbind (read_u32 input 124) (\<lambda>batch_operations.
     rbind (read_u32 input 128) (\<lambda>callback_events.
     rbind (read_u32 input 132) (\<lambda>pending_continuations.
     rbind (read_u32 input 136) (\<lambda>frontier_handles.
     rbind (read_u32 input 140) (\<lambda>stage_work_items.
     rbind (read_u32 input 144) (\<lambda>reaction_transactions.
     rbind (read_u32 input 148) (\<lambda>reserved.
     rbind (read_u64 input 152) (\<lambda>world_bytes.
     rbind (read_u32 input 160) (\<lambda>process_id.
     rbind (read_u32 input 164) (\<lambda>world_generation.
     rbind (read_u64 input 168) (\<lambda>world_nonce.
     let payload =
       \<lparr>hp_auth_token = auth_token,
        hp_identity =
          \<lparr>bi_abi_version = abi_version, bi_protocol_version = protocol_version,
           bi_source_revision = source_revision, bi_feature_fingerprint = feature_fingerprint,
           bi_executable_digest = executable_digest\<rparr>,
        hp_capacities =
          \<lparr>cl_max_control_payload = control_payload, cl_max_batch_operations = batch_operations,
           cl_max_callback_events = callback_events,
           cl_max_pending_continuations = pending_continuations,
           cl_max_frontier_handles = frontier_handles, cl_max_stage_work_items = stage_work_items,
           cl_max_reaction_transactions = reaction_transactions, cl_reserved = reserved,
           cl_max_world_bytes = world_bytes\<rparr>,
        hp_process_id = process_id, hp_world_generation = world_generation,
        hp_world_nonce = world_nonce\<rparr>
     in rbind (handshake_validate payload) (\<lambda>_. Ok payload))))))))))))))))))))"

definition constant_time_equal :: "bytes \<Rightarrow> bytes \<Rightarrow> bool" where
  "constant_time_equal left right \<longleftrightarrow>
     foldl (\<lambda>difference index. difference OR (left ! index XOR right ! index)) 0 [0..<32] = (0 :: u8)"

definition validate_peer :: "handshake_payload \<Rightarrow> handshake_payload \<Rightarrow> (unit, frame_error) result" where
  "validate_peer self expected =
     rbind (reject_if (\<not> constant_time_equal (hp_auth_token self) (hp_auth_token expected))
       AuthenticationFailed) (\<lambda>_.
     rbind (reject_if (hp_identity self \<noteq> hp_identity expected) BuildIdentityMismatch) (\<lambda>_.
     rbind (reject_if (hp_capacities self \<noteq> hp_capacities expected) CapacityMismatch) (\<lambda>_.
     rbind (reject_if (hp_world_generation self \<noteq> hp_world_generation expected)
       (WorldGenerationMismatch (hp_world_generation expected) (hp_world_generation self))) (\<lambda>_.
     reject_if (hp_world_nonce self \<noteq> hp_world_nonce expected) WorldNonceMismatch))))"

text \<open>The array fields have their Rust lengths.\<close>

definition handshake_shape :: "handshake_payload \<Rightarrow> bool" where
  "handshake_shape p \<longleftrightarrow> length (hp_auth_token p) = 32 \<and>
     length (bi_source_revision (hp_identity p)) = 20 \<and>
     length (bi_feature_fingerprint (hp_identity p)) = 32 \<and>
     length (bi_executable_digest (hp_identity p)) = 32"

definition handshake_valid :: "handshake_payload \<Rightarrow> bool" where
  "handshake_valid p \<longleftrightarrow> handshake_shape p \<and> handshake_validate p = Ok ()"

lemma foldl_or_eq_0_iff:
  "foldl (\<lambda>d i. d OR f i) d is = (0 :: 'a::len word) \<longleftrightarrow> d = 0 \<and> (\<forall>i \<in> set is. f i = 0)"
  by (induction "is" arbitrary: d) (auto simp: or_eq_0_iff)

lemma xor_eq_0: "a XOR b = 0 \<longleftrightarrow> a = b" for a b :: "'a::len word"
  by (auto simp: bit_eq_iff bit_xor_iff)

lemma constant_time_equal_iff:
  assumes "length left = 32" and "length right = 32"
  shows "constant_time_equal left right \<longleftrightarrow> left = right"
  using assms
  by (auto simp: constant_time_equal_def foldl_or_eq_0_iff list_eq_iff_nth_eq xor_eq_0)

lemma handshake_validate_not_Panic: "handshake_validate p \<noteq> Panic"
  by (simp add: handshake_validate_def Let_def)

lemma handshake_encode_append:
  "handshake_shape p \<Longrightarrow> handshake_encode p =
     hp_auth_token p @ to_le_bytes (bi_abi_version (hp_identity p)) @
     to_le_bytes (bi_protocol_version (hp_identity p)) @ bi_source_revision (hp_identity p) @
     bi_feature_fingerprint (hp_identity p) @ bi_executable_digest (hp_identity p) @
     to_le_bytes (cl_max_control_payload (hp_capacities p)) @
     to_le_bytes (cl_max_batch_operations (hp_capacities p)) @
     to_le_bytes (cl_max_callback_events (hp_capacities p)) @
     to_le_bytes (cl_max_pending_continuations (hp_capacities p)) @
     to_le_bytes (cl_max_frontier_handles (hp_capacities p)) @
     to_le_bytes (cl_max_stage_work_items (hp_capacities p)) @
     to_le_bytes (cl_max_reaction_transactions (hp_capacities p)) @
     to_le_bytes (cl_reserved (hp_capacities p)) @ to_le_bytes (cl_max_world_bytes (hp_capacities p)) @
     to_le_bytes (hp_process_id p) @ to_le_bytes (hp_world_generation p) @ to_le_bytes (hp_world_nonce p)"
  by (simp add: handshake_encode_def handshake_shape_def Let_def put_simps)

lemma handshake_fields:
  assumes "handshake_shape p"
  shows "field 0 32 (handshake_encode p) = hp_auth_token p"
    "field 32 2 (handshake_encode p) = to_le_bytes (bi_abi_version (hp_identity p))"
    "field 34 2 (handshake_encode p) = to_le_bytes (bi_protocol_version (hp_identity p))"
    "field 36 20 (handshake_encode p) = bi_source_revision (hp_identity p)"
    "field 56 32 (handshake_encode p) = bi_feature_fingerprint (hp_identity p)"
    "field 88 32 (handshake_encode p) = bi_executable_digest (hp_identity p)"
    "field 120 4 (handshake_encode p) = to_le_bytes (cl_max_control_payload (hp_capacities p))"
    "field 124 4 (handshake_encode p) = to_le_bytes (cl_max_batch_operations (hp_capacities p))"
    "field 128 4 (handshake_encode p) = to_le_bytes (cl_max_callback_events (hp_capacities p))"
    "field 132 4 (handshake_encode p) = to_le_bytes (cl_max_pending_continuations (hp_capacities p))"
    "field 136 4 (handshake_encode p) = to_le_bytes (cl_max_frontier_handles (hp_capacities p))"
    "field 140 4 (handshake_encode p) = to_le_bytes (cl_max_stage_work_items (hp_capacities p))"
    "field 144 4 (handshake_encode p) = to_le_bytes (cl_max_reaction_transactions (hp_capacities p))"
    "field 148 4 (handshake_encode p) = to_le_bytes (cl_reserved (hp_capacities p))"
    "field 152 8 (handshake_encode p) = to_le_bytes (cl_max_world_bytes (hp_capacities p))"
    "field 160 4 (handshake_encode p) = to_le_bytes (hp_process_id p)"
    "field 164 4 (handshake_encode p) = to_le_bytes (hp_world_generation p)"
    "field 168 8 (handshake_encode p) = to_le_bytes (hp_world_nonce p)"
  using assms by (simp_all add: handshake_encode_def handshake_shape_def Let_def)

lemma handshake_eta:
  "\<lparr>bi_abi_version = bi_abi_version i, bi_protocol_version = bi_protocol_version i,
    bi_source_revision = bi_source_revision i, bi_feature_fingerprint = bi_feature_fingerprint i,
    bi_executable_digest = bi_executable_digest i\<rparr> = i"
  "\<lparr>cl_max_control_payload = cl_max_control_payload c,
    cl_max_batch_operations = cl_max_batch_operations c,
    cl_max_callback_events = cl_max_callback_events c,
    cl_max_pending_continuations = cl_max_pending_continuations c,
    cl_max_frontier_handles = cl_max_frontier_handles c,
    cl_max_stage_work_items = cl_max_stage_work_items c,
    cl_max_reaction_transactions = cl_max_reaction_transactions c,
    cl_reserved = cl_reserved c, cl_max_world_bytes = cl_max_world_bytes c\<rparr> = c"
  "\<lparr>hp_auth_token = hp_auth_token p, hp_identity = hp_identity p, hp_capacities = hp_capacities p,
    hp_process_id = hp_process_id p, hp_world_generation = hp_world_generation p,
    hp_world_nonce = hp_world_nonce p\<rparr> = p"
  by simp_all

lemma length_handshake_encode [simp]: "length (handshake_encode p) = 176"
  by (simp add: handshake_encode_def Let_def)

interpretation handshake: codec "\<lambda>p. Ok (handshake_encode p)" handshake_decode handshake_valid
proof
  show "handshake_decode bs \<noteq> Panic" for bs
    by (auto simp: handshake_decode_def handshake_payload_len_def handshake_validate_not_Panic Let_def)
  show "\<exists>bs. Ok (handshake_encode p) = (Ok bs :: (bytes, frame_error) result)" for p by simp
  show "handshake_decode bs = Ok p"
    if "handshake_valid p" and "Ok (handshake_encode p) = (Ok bs :: (bytes, frame_error) result)" for bs p
  proof -
    have shape: "handshake_shape p" and ok: "handshake_validate p = Ok ()" and bs: "bs = handshake_encode p"
      using that by (auto simp: handshake_valid_def)
    show ?thesis
      using ok
      by (simp add: bs handshake_decode_def handshake_payload_len_def handshake_fields [OF shape]
          handshake_eta Let_def)
  qed
  show "handshake_valid p \<and> Ok (handshake_encode p) = (Ok bs :: (bytes, frame_error) result)"
    if dec: "handshake_decode bs = Ok p" for bs p
  proof -
    have len: "length bs = 176"
      using dec by (auto simp: handshake_decode_def handshake_payload_len_def)
    have valid: "handshake_valid p"
      using dec len by (auto simp: handshake_decode_def handshake_valid_def handshake_shape_def Let_def)
    then have "handshake_encode p = bs"
      using dec len
      by (auto simp: handshake_decode_def handshake_valid_def handshake_encode_append Let_def join_simps)
    with valid show ?thesis by simp
  qed
qed

lemma validate_peer_Ok_iff:
  assumes "handshake_shape self" and "handshake_shape expected"
  shows "validate_peer self expected = Ok () \<longleftrightarrow>
    self = expected\<lparr>hp_process_id := hp_process_id self\<rparr>"
  using assms constant_time_equal_iff [of "hp_auth_token self" "hp_auth_token expected"]
  by (cases self; cases expected) (auto simp: validate_peer_def handshake_shape_def)

section \<open>Properties\<close>

text \<open>
  C37: a byte string is accepted as a frame exactly when it is the encoding of a valid header
  followed by as many payload bytes as the header announces; the decoded frame is that header
  and those bytes. So no two frames share an encoding, no other input is accepted, and
  \<open>decode_frame\<close> panics on no input whatever its length.
\<close>

theorem decode_frame_exact:
  "decode_frame input \<noteq> Panic \<and>
   (decode_frame input = Ok (h, payload) \<longleftrightarrow>
      header_validate h = Ok () \<and> length payload = unat (ph_payload_len h) \<and>
      input = header_encode h @ payload)"
  using frame.dec_total [of input] frame.dec_Ok_iff [of input "(h, payload)"]
  by (auto simp: frame_valid_def header_valid_def)

text \<open>
  The header that \<open>ProtocolHeader::request\<close> builds is accepted by the peer as long as its
  payload is at most one MiB, so is the response header derived from it, and the client accepts
  that response as the answer to its request.
\<close>

theorem request_response_headers:
  assumes "payload_len \<le> max_control_payload"
    and "h = header_request op request_id world_generation world_nonce payload_len deadline_ns"
  shows "header_decode (header_encode h) = Ok h \<and>
    header_decode (header_encode (header_response h)) = Ok (header_response h) \<and>
    header_operation_kind h = Ok op \<and> validate_response_to (header_response h) h = Ok ()"
proof -
  have valid: "header_valid h"
    using assms by (simp add: header_request_valid)
  then have "header_decode (header_encode h @ []) = Ok h"
    "header_decode (header_encode (header_response h) @ []) = Ok (header_response h)"
    by (simp_all add: header_decode_encode header_response_valid del: append_Nil2)
  moreover have "validate_response_to (header_response h) h = Ok ()"
    using flag_response_or by (simp add: validate_response_to_Ok_iff header_response_def)
  ultimately show ?thesis
    by (simp add: header_operation_kind_def assms(2) header_request_def)
qed

theorem request_response_headers_witness:
  "header_decode (header_encode (header_request OpEcho 7 1 99 4 0)) = Ok (header_request OpEcho 7 1 99 4 0)"
  using request_response_headers [of 4 "header_request OpEcho 7 1 99 4 0" OpEcho 7 1 99 0]
  by (simp add: max_control_payload_def)

text \<open>
  A response is accepted for a request exactly when it carries the response flag and agrees
  with the request in world generation, world nonce, request id and operation kind.
\<close>

theorem validate_response_exact:
  "validate_response_to self request = Ok () \<longleftrightarrow>
     ph_flags self AND flag_response \<noteq> 0 \<and>
     ph_world_generation self = ph_world_generation request \<and>
     ph_world_nonce self = ph_world_nonce request \<and>
     ph_request_id self = ph_request_id request \<and>
     ph_operation_kind self = ph_operation_kind request"
  by (rule validate_response_to_Ok_iff)

text \<open>
  The handshake codec accepts exactly the encodings of valid payloads (for arrays of the
  Rust lengths) and panics on no input; error codes of error responses round-trip the same way.
\<close>

theorem handshake_decode_exact:
  "handshake_decode input \<noteq> Panic \<and>
   (handshake_decode input = Ok p \<longleftrightarrow>
      handshake_shape p \<and> handshake_validate p = Ok () \<and> input = handshake_encode p) \<and>
   service_error_decode input \<noteq> Panic \<and>
   (service_error_decode input = Ok c \<longleftrightarrow> input = service_error_encode c)"
  using handshake.dec_total [of input] handshake.dec_Ok_iff [of input p]
    service_error.dec_total [of input] service_error.dec_Ok_iff [of input c]
  by (auto simp: handshake_valid_def)

text \<open>
  A peer's handshake is accepted exactly when it equals the expected one in everything but
  the process id. The constant-time comparison of the tokens decides equality.
\<close>

theorem validate_peer_exact:
  assumes "handshake_shape self" and "handshake_shape expected"
  shows "validate_peer self expected = Ok () \<longleftrightarrow>
    self = expected\<lparr>hp_process_id := hp_process_id self\<rparr>"
  using assms by (rule validate_peer_Ok_iff)

definition example_handshake :: handshake_payload where
  "example_handshake =
     \<lparr>hp_auth_token = replicate 32 7,
      hp_identity = \<lparr>bi_abi_version = 2, bi_protocol_version = 13, bi_source_revision = replicate 20 1,
        bi_feature_fingerprint = replicate 32 2, bi_executable_digest = replicate 32 3\<rparr>,
      hp_capacities = \<lparr>cl_max_control_payload = 65536, cl_max_batch_operations = 64,
        cl_max_callback_events = 128, cl_max_pending_continuations = 16,
        cl_max_frontier_handles = 4096, cl_max_stage_work_items = 512,
        cl_max_reaction_transactions = 8, cl_reserved = 0, cl_max_world_bytes = 1048576\<rparr>,
      hp_process_id = 42, hp_world_generation = 1, hp_world_nonce = 5\<rparr>"

theorem validate_peer_exact_witness:
  "validate_peer (example_handshake\<lparr>hp_process_id := 9\<rparr>) example_handshake = Ok ()"
  using validate_peer_exact [of "example_handshake\<lparr>hp_process_id := 9\<rparr>" example_handshake]
  by (simp add: handshake_shape_def example_handshake_def)

end
