(* ===== verification/Wire_Transport.thy ===== *)
theory Wire_Transport
  imports Wire_Frame "HOL-Library.Sublist"
begin

text \<open>
  The frame transport (\<^verbatim>\<open>crates/dogmos-protocol/src/transport.rs\<close>): one frame is written to a
  stream, or read from it into a buffer of fixed size.

  A writer is what it has sent and how many more bytes its peer takes before the connection
  breaks; a reader is the bytes that arrive before the end of the stream. A failed
  \<^verbatim>\<open>write_all\<close> has sent a part of its bytes, a failed \<^verbatim>\<open>read_exact\<close> has consumed a part of
  the stream.
\<close>

section \<open>Streams\<close>

record frame_writer =
  wr_sent :: bytes
  wr_room :: nat
  wr_flushes :: bool

datatype transport_error =
    TransportIo
  | TransportProtocol frame_error
  | PayloadLengthMismatch u32 nat
  | BufferTooSmall nat nat

definition write_all :: "bytes \<Rightarrow> frame_writer \<Rightarrow> (unit, transport_error) result \<times> frame_writer" where
  "write_all bs w =
     (if length bs \<le> wr_room w then Ok () else Err TransportIo,
      w\<lparr>wr_sent := wr_sent w @ take (wr_room w) bs, wr_room := wr_room w - length bs\<rparr>)"

definition flush_writer :: "frame_writer \<Rightarrow> (unit, transport_error) result \<times> frame_writer" where
  "flush_writer w = (if wr_flushes w then Ok () else Err TransportIo, w)"

definition then_write ::
  "(unit, transport_error) result \<times> frame_writer \<Rightarrow>
   (frame_writer \<Rightarrow> (unit, transport_error) result \<times> frame_writer) \<Rightarrow>
   (unit, transport_error) result \<times> frame_writer" where
  "then_write m f = (case m of (Ok _, w) \<Rightarrow> f w | other \<Rightarrow> other)"

definition read_exact :: "nat \<Rightarrow> bytes \<Rightarrow> (bytes, transport_error) result \<times> bytes" where
  "read_exact n reader =
     (if n \<le> length reader then (Ok (take n reader), drop n reader) else (Err TransportIo, []))"

section \<open>Frames\<close>

definition coalesce_payload_limit :: nat where "coalesce_payload_limit = 512"

definition write_frame ::
  "protocol_header \<Rightarrow> bytes \<Rightarrow> frame_writer \<Rightarrow> (unit, transport_error) result \<times> frame_writer" where
  "write_frame header payload w =
     (if length payload \<noteq> unat (ph_payload_len header)
      then (Err (PayloadLengthMismatch (ph_payload_len header) (length payload)), w)
      else
        let header_bytes = header_encode header
        in case map_err TransportProtocol (header_decode header_bytes) of
             Err e \<Rightarrow> (Err e, w)
           | Panic \<Rightarrow> (Panic, w)
           | Ok _ \<Rightarrow>
             then_write
               (if length payload \<le> coalesce_payload_limit
                then
                  let frame_len = length header_bytes + length payload;
                      frame = put (length header_bytes) payload
                        (put 0 header_bytes (zeros (48 + coalesce_payload_limit)))
                  in write_all (take frame_len frame) w
                else then_write (write_all header_bytes w) (write_all payload))
               flush_writer)"

definition read_frame_into ::
  "bytes \<Rightarrow> bytes \<Rightarrow> (protocol_header \<times> nat, transport_error) result \<times> bytes \<times> bytes" where
  "read_frame_into reader payload_buffer =
     (case read_exact 48 reader of
        (Ok header_bytes, reader) \<Rightarrow>
          (case map_err TransportProtocol (header_decode header_bytes) of
             Ok header \<Rightarrow>
               let payload_len = unat (ph_payload_len header)
               in if payload_len > length payload_buffer
                  then (Err (BufferTooSmall payload_len (length payload_buffer)), reader, payload_buffer)
                  else
                    (case read_exact payload_len reader of
                       (Ok payload, reader) \<Rightarrow>
                         (Ok (header, payload_len), reader, put 0 payload payload_buffer)
                     | (Err e, rest) \<Rightarrow> (Err e, rest, put 0 reader payload_buffer)
                     | (Panic, rest) \<Rightarrow> (Panic, rest, payload_buffer))
           | Err e \<Rightarrow> (Err e, reader, payload_buffer)
           | Panic \<Rightarrow> (Panic, reader, payload_buffer))
      | (Err e, reader) \<Rightarrow> (Err e, reader, payload_buffer)
      | (Panic, reader) \<Rightarrow> (Panic, reader, payload_buffer))"

text \<open>A sender that stops at the first error, and a receiver that stops at the first error.\<close>

fun write_frames ::
  "(protocol_header \<times> bytes) list \<Rightarrow> frame_writer \<Rightarrow> (unit, transport_error) result \<times> frame_writer" where
  "write_frames [] w = (Ok (), w)"
| "write_frames (f # fs) w = then_write (write_frame (fst f) (snd f) w) (write_frames fs)"

section \<open>Writing\<close>

lemma coalesced_frame:
  assumes "length payload \<le> coalesce_payload_limit"
  shows "take (length (header_encode h) + length payload)
    (put (length (header_encode h)) payload
      (put 0 (header_encode h) (zeros (48 + coalesce_payload_limit)))) = header_encode h @ payload"
  using assms by (simp add: put_def)

lemma write_all_append:
  "then_write (write_all a w) (write_all b) = write_all (a @ b) w"
  by (auto simp: write_all_def then_write_def)

text \<open>Coalesced or not, a frame is its header followed by its payload.\<close>

lemma write_frame_valid:
  assumes "frame_valid (h, payload)"
  shows "write_frame h payload w = then_write (write_all (header_encode h @ payload) w) flush_writer"
  using assms header_decode_encode [of h "[]"] coalesced_frame [of payload h]
  by (auto simp: write_frame_def frame_valid_def write_all_append Let_def simp del: length_header_encode)

lemma write_frame_rejects:
  assumes "\<not> frame_valid (h, payload)"
  shows "snd (write_frame h payload w) = w" and "\<exists>e. fst (write_frame h payload w) = Err e"
proof -
  have "header_decode (header_encode h) \<noteq> Ok x" if "\<not> header_valid h" for x
  proof
    assume dec: "header_decode (header_encode h) = Ok x"
    have "x = h"
      using dec by (cases h) (auto simp: header_decode_def header_fields Let_def)
    with header_encode_decode(2) [OF dec] that show False by simp
  qed
  with assms header_decode_not_Panic [of "header_encode h"]
  show "snd (write_frame h payload w) = w" and "\<exists>e. fst (write_frame h payload w) = Err e"
    by (auto simp: write_frame_def frame_valid_def Let_def split: result.splits)
qed

lemma header_request_fields [simp]:
  "ph_payload_len (header_request op i g n len d) = len"
  "ph_request_id (header_request op i g n len d) = i"
  "ph_world_generation (header_request op i g n len d) = g"
  "ph_world_nonce (header_request op i g n len d) = n"
  "ph_deadline_ns (header_request op i g n len d) = d"
  "header_operation_kind (header_request op i g n len d) = Ok op"
  by (simp_all add: header_request_def header_operation_kind_def)

section \<open>Reading\<close>

lemma read_frame_complete:
  assumes "frame_valid (h, payload)" and "length payload \<le> length buffer"
  shows "read_frame_into (header_encode h @ payload @ rest) buffer =
    (Ok (h, length payload), rest, put 0 payload buffer)"
  using assms header_decode_encode [of h "[]"]
  by (simp add: read_frame_into_def read_exact_def frame_valid_def)

lemma read_frame_torn:
  assumes valid: "frame_valid (h, payload)" and torn: "n < length (header_encode h @ payload)"
  shows "\<exists>e. fst (read_frame_into (take n (header_encode h @ payload)) buffer) = Err e"
proof (cases "n < 48")
  case True
  then show ?thesis by (simp add: read_frame_into_def read_exact_def)
next
  case False
  with valid torn header_decode_encode [of h "[]"] show ?thesis
    by (auto simp: read_frame_into_def read_exact_def frame_valid_def Let_def)
qed

lemma read_frame_consumes:
  "read_frame_into reader buffer = (Ok (h, n), rest, buffer') \<Longrightarrow> length rest + 48 \<le> length reader"
  by (auto simp: read_frame_into_def read_exact_def Let_def split: if_splits result.splits)

text \<open>Everything a receiver with this buffer gets from a stream.\<close>

function read_frames :: "bytes \<Rightarrow> bytes \<Rightarrow> (protocol_header \<times> bytes) list" where
  "read_frames reader buffer =
     (case read_frame_into reader buffer of
        (Ok (h, n), rest, buffer') \<Rightarrow> (h, take n buffer') # read_frames rest buffer'
      | _ \<Rightarrow> [])"
  by pat_completeness auto
termination
  by (relation "measure (length \<circ> fst)") (auto dest: read_frame_consumes [OF sym])

declare read_frames.simps [simp del]

lemma read_frames_Cons:
  assumes "frame_valid (h, payload)" and "length payload \<le> length buffer"
  shows "read_frames (header_encode h @ payload @ rest) buffer =
    (h, payload) # read_frames rest (put 0 payload buffer)"
  using assms
  by (subst read_frames.simps) (simp add: read_frame_complete put_def)

lemma read_frames_stops: "fst (read_frame_into reader buffer) = Err e \<Longrightarrow> read_frames reader buffer = []"
  by (subst read_frames.simps) (auto split: prod.splits)

lemma read_frames_Nil: "read_frames [] buffer = []"
  by (rule read_frames_stops [where e = TransportIo]) (simp add: read_frame_into_def read_exact_def)

section \<open>A connection\<close>

text \<open>What one write leaves on the stream, and what a receiver makes of it.\<close>

lemma write_frame_cases:
  assumes "write_frame h payload w = (r, w')"
  obtains
    (written) "frame_valid (h, payload)" "wr_sent w' = wr_sent w @ header_encode h @ payload"
  | (torn) n e where "frame_valid (h, payload)" "r = Err e" "n < length (header_encode h @ payload)"
      "wr_sent w' = wr_sent w @ take n (header_encode h @ payload)"
  | (rejected) e where "r = Err e" "w' = w"
proof (cases "frame_valid (h, payload)")
  case True
  show thesis
  proof (cases "length (header_encode h @ payload) \<le> wr_room w")
    case fits: True
    with assms True have "wr_sent w' = wr_sent w @ header_encode h @ payload"
      by (auto simp: write_frame_valid write_all_def then_write_def flush_writer_def split: if_splits)
    with True show thesis by (rule written)
  next
    case False
    with assms True
    have "wr_sent w' = wr_sent w @ take (wr_room w) (header_encode h @ payload)" and "r = Err TransportIo"
      by (auto simp: write_frame_valid write_all_def then_write_def split: if_splits)
    with True False show thesis by (intro torn [of TransportIo "wr_room w"]) simp_all
  qed
next
  case False
  from write_frame_rejects [OF this, of w] assms show thesis
    by (auto intro: rejected)
qed

lemma write_frames_received:
  assumes "write_frames fs w = (r, w')" and "1048576 \<le> length buffer"
  shows "\<exists>bs. wr_sent w' = wr_sent w @ bs \<and> prefix (read_frames bs buffer) fs \<and>
    (r = Ok () \<longrightarrow> read_frames bs buffer = fs)"
  using assms
proof (induction fs arbitrary: w buffer)
  case Nil
  then show ?case by (auto simp: read_frames_Nil)
next
  case (Cons f fs)
  obtain h payload where f: "f = (h, payload)" by (cases f)
  obtain r1 w1 where w1: "write_frame h payload w = (r1, w1)" by fastforce
  then show ?case
  proof (cases rule: write_frame_cases)
    case written
    then have fits: "length payload \<le> length buffer"
      using Cons.prems(2) header_valid_payload_bound [of h] by (simp add: frame_valid_def)
    note cons = read_frames_Cons [OF written(1) fits]
    show ?thesis
    proof (cases "r1 = Ok ()")
      case True
      with Cons.prems(1) w1 f have "write_frames fs w1 = (r, w')"
        by (simp add: then_write_def)
      from Cons.IH [OF this, of "put 0 payload buffer"] Cons.prems(2) obtain bs where
        "wr_sent w' = wr_sent w1 @ bs" "prefix (read_frames bs (put 0 payload buffer)) fs"
        "r = Ok () \<longrightarrow> read_frames bs (put 0 payload buffer) = fs"
        by auto
      with written cons f show ?thesis
        by (intro exI [of _ "header_encode h @ payload @ bs"]) simp
    next
      case False
      with Cons.prems(1) w1 f have "r = r1" "w' = w1"
        by (auto simp: then_write_def split: result.splits)
      with written cons [of "[]"] f False show ?thesis
        by (intro exI [of _ "header_encode h @ payload"]) (simp add: read_frames_Nil)
    qed
  next
    case (torn n e)
    then have "read_frames (take n (header_encode h @ payload)) buffer = []"
      using read_frame_torn [of h payload n buffer] by (auto intro: read_frames_stops)
    with torn w1 f Cons.prems(1) show ?thesis
      by (intro exI [of _ "take n (header_encode h @ payload)"]) (auto simp: then_write_def)
  next
    case (rejected e)
    with w1 f Cons.prems(1) show ?thesis
      by (intro exI [of _ "[]"]) (auto simp: then_write_def read_frames_Nil)
  qed
qed

section \<open>Properties\<close>

text \<open>
  C36: whatever happens to a connection, the receiver gets a prefix of the frames the sender
  handed to \<^verbatim>\<open>write_frame\<close>, in order and whole; when no write failed it gets all of them. The
  frame that was being sent when the connection broke is never seen.
\<close>

theorem connection_delivers_prefix:
  assumes "write_frames fs \<lparr>wr_sent = [], wr_room = room, wr_flushes = flushes\<rparr> = (r, w)"
    and "unat max_control_payload \<le> length buffer"
  shows "prefix (read_frames (wr_sent w) buffer) fs \<and>
    (r = Ok () \<longrightarrow> read_frames (wr_sent w) buffer = fs)"
  using write_frames_received [OF assms(1), of buffer] assms(2) by (auto simp: max_control_payload_def)

definition example_frames :: "(protocol_header \<times> bytes) list" where
  "example_frames =
     [(header_request OpEcho 1 2 3 1 0, [7]), (header_request OpShutdown 2 2 3 0 0, [])]"

theorem connection_delivers_prefix_witness:
  "read_frames (wr_sent (snd (write_frames example_frames
     \<lparr>wr_sent = [], wr_room = 97, wr_flushes = True\<rparr>))) (zeros 1048576) = example_frames"
proof -
  have valid: "frame_valid (header_request op i 2 3 1 0, [7])" "frame_valid (header_request op i 2 3 0 0, [])"
    for op i
    by (simp_all add: frame_valid_def header_request_valid max_control_payload_def)
  have "fst (write_frames example_frames \<lparr>wr_sent = [], wr_room = 97, wr_flushes = True\<rparr>) = Ok ()"
    by (simp add: example_frames_def write_frame_valid valid write_all_def then_write_def flush_writer_def)
  then show ?thesis
    using connection_delivers_prefix [of example_frames 97 True "Ok ()" _ "zeros 1048576"]
    by (auto simp: prod_eq_iff max_control_payload_def)
qed

end
