(* ===== verification/Server_Session.thy ===== *)
theory Server_Session
  imports Wire_Transport
begin

text \<open>
  The session of the server with its one client (\<^verbatim>\<open>crates/dogmos-server/src/lib.rs\<close>): the
  handshake, the checks every request passes before it is dispatched, and the responses.
  The arms of the dispatch are a parameter here; \<^verbatim>\<open>Server_Frontier\<close> holds some of them. In the code an arm
  writes its response itself. Each path through an arm writes exactly one, or ends the session, and so an arm is a
  function to \<open>arm_outcome\<close> here, which says what it answers or how it ends the session: that no arm writes twice is
  part of the model and not a theorem.
\<close>

section \<open>Request ids and deadlines\<close>

record request_sequence =
  rs_last_request_id :: u64

definition after_handshake :: "u64 \<Rightarrow> request_sequence" where
  "after_handshake request_id = \<lparr>rs_last_request_id = request_id\<rparr>"

definition sequence_accept :: "u64 \<Rightarrow> request_sequence \<Rightarrow> bool \<times> request_sequence" where
  "sequence_accept request_id s =
     (if request_id \<le> rs_last_request_id s then (False, s)
      else (True, s\<lparr>rs_last_request_id := request_id\<rparr>))"

text \<open>A budget of zero means no deadline; \<open>elapsed\<close> is the time since the request was read.\<close>

definition deadline_budget :: "u64 \<Rightarrow> nat option" where
  "deadline_budget budget_ns = (if budget_ns \<noteq> 0 then Some (unat budget_ns) else None)"

definition deadline_expired :: "nat option \<Rightarrow> nat \<Rightarrow> bool" where
  "deadline_expired budget elapsed = (case budget of Some b \<Rightarrow> elapsed \<ge> b | None \<Rightarrow> False)"

interpretation request_sequence: monotone_steps
  "\<lambda>s request_id. snd (sequence_accept request_id s)" "\<lambda>_. True" rs_last_request_id
  by unfold_locales (simp_all add: sequence_accept_def not_le less_imp_le)

section \<open>Responses\<close>

definition write_response :: "protocol_header \<Rightarrow> bytes \<Rightarrow> frame_writer \<Rightarrow> (unit, transport_error) result \<times> frame_writer" where
  "write_response request payload =
     write_frame ((header_response request)\<lparr>ph_payload_len := word_of_nat (length payload)\<rparr>) payload"

definition write_error_response ::
  "protocol_header \<Rightarrow> service_error_code \<Rightarrow> frame_writer \<Rightarrow> (unit, transport_error) result \<times> frame_writer" where
  "write_error_response request code =
     (let payload = service_error_encode code;
          response = header_response request
      in write_frame (response\<lparr>ph_flags := ph_flags response OR flag_error,
           ph_payload_len := word_of_nat (length payload)\<rparr>) payload)"

section \<open>The session\<close>

text \<open>
  \<^verbatim>\<open>read_count\<close> and \<^verbatim>\<open>read_u64_payload\<close>: the first four bytes, and exactly eight bytes. Their
  errors end the session.
\<close>

definition read_count :: "bytes \<Rightarrow> u32 option" where
  "read_count payload = (if 4 \<le> length payload then Some (from_le_bytes (take 4 payload)) else None)"

record 'w server_session =
  ss_sequence :: request_sequence
  ss_protocol_errors :: u64
  ss_request_timeouts :: u64
  ss_world :: 'w

definition saturating_inc :: "'a::len word \<Rightarrow> 'a word" where
  "saturating_inc w = (if w = - 1 then w else w + 1)"

definition record_protocol_error :: "'w server_session \<Rightarrow> 'w server_session" where
  "record_protocol_error s = s\<lparr>ss_protocol_errors := saturating_inc (ss_protocol_errors s)\<rparr>"

definition record_request_timeout :: "'w server_session \<Rightarrow> 'w server_session" where
  "record_request_timeout s = s\<lparr>ss_request_timeouts := saturating_inc (ss_request_timeouts s)\<rparr>"

datatype gate_outcome =
    GateClosed
  | GateRefused service_error_code
  | GateAdmitted operation_kind

text \<open>The checks at the head of the loop of \<^verbatim>\<open>handle_primary\<close>.\<close>

definition session_gate ::
  "handshake_payload \<Rightarrow> nat \<Rightarrow> protocol_header \<Rightarrow> 'w server_session \<Rightarrow> gate_outcome \<times> 'w server_session" where
  "session_gate expected elapsed request s =
     (let deadline = deadline_budget (ph_deadline_ns request) in
      if ph_world_generation request \<noteq> hp_world_generation expected \<or>
         ph_world_nonce request \<noteq> hp_world_nonce expected
      then (GateClosed, s)
      else case sequence_accept (ph_request_id request) (ss_sequence s) of
        (False, _) \<Rightarrow> (GateRefused SvcInvalidRequest, record_protocol_error s)
      | (True, sequence) \<Rightarrow>
          let s = s\<lparr>ss_sequence := sequence\<rparr>
          in if deadline_expired deadline elapsed
             then (GateRefused SvcDeadlineExceeded, record_request_timeout s)
             else case header_operation_kind request of
               Ok operation \<Rightarrow> (GateAdmitted operation, s)
             | _ \<Rightarrow> (GateRefused SvcInvalidRequest, record_protocol_error s))"

datatype arm_outcome =
    Reply bytes
  | Malformed
  | StateFailed service_error_code
  | CloseConnection
  | ShutdownService

datatype session_outcome = Continue | Finished | Failed

type_synonym 'w arms =
  "handshake_payload \<Rightarrow> operation_kind \<Rightarrow> bytes \<Rightarrow> 'w \<Rightarrow> arm_outcome \<times> 'w"

text \<open>A failed write ends the session (the \<open>?\<close> after every response).\<close>

definition after_write ::
  "session_outcome \<Rightarrow> (unit, transport_error) result \<times> frame_writer \<Rightarrow> session_outcome \<times> frame_writer" where
  "after_write outcome m = (case m of (Ok _, w) \<Rightarrow> (outcome, w) | (_, w) \<Rightarrow> (Failed, w))"

definition handle_request ::
  "'w arms \<Rightarrow> handshake_payload \<Rightarrow> nat \<Rightarrow> protocol_header \<Rightarrow> bytes \<Rightarrow> 'w server_session \<Rightarrow> frame_writer \<Rightarrow>
   (session_outcome \<times> frame_writer) \<times> 'w server_session" where
  "handle_request arms expected elapsed request payload s w =
     (case session_gate expected elapsed request s of
        (GateClosed, s) \<Rightarrow> ((Failed, w), s)
      | (GateRefused code, s) \<Rightarrow> (after_write Continue (write_error_response request code w), s)
      | (GateAdmitted operation, s) \<Rightarrow>
          (case arms expected operation payload (ss_world s) of
             (outcome, world) \<Rightarrow>
               let s = s\<lparr>ss_world := world\<rparr>
               in (case outcome of
                    Reply bytes \<Rightarrow> (after_write Continue (write_response request bytes w), s)
                  | Malformed \<Rightarrow>
                      (after_write Continue (write_error_response request SvcInvalidRequest w),
                       record_protocol_error s)
                  | StateFailed code \<Rightarrow> (after_write Continue (write_error_response request code w), s)
                  | CloseConnection \<Rightarrow> ((Failed, w), s)
                  | ShutdownService \<Rightarrow>
                      (after_write Finished (write_frame (header_response request) [] w), s))))"

text \<open>
  The loop over the requests that arrive, each with the time it has waited. The trace lists the
  requests that reached their arm.
\<close>

fun serve_requests ::
  "'w arms \<Rightarrow> handshake_payload \<Rightarrow> (nat \<times> protocol_header \<times> bytes) list \<Rightarrow> 'w server_session \<Rightarrow> frame_writer \<Rightarrow>
   (session_outcome \<times> frame_writer) \<times> 'w server_session" where
  "serve_requests arms expected [] s w = ((Continue, w), s)"
| "serve_requests arms expected ((elapsed, request, payload) # rest) s w =
     (case handle_request arms expected elapsed request payload s w of
        ((Continue, w), s) \<Rightarrow> serve_requests arms expected rest s w
      | stopped \<Rightarrow> stopped)"

text \<open>The first frame of a connection must be a handshake that validates against the startup data.\<close>

datatype handshake_outcome =
    HandshakeFailed
  | HandshakeRefused
  | HandshakeAccepted request_sequence

definition open_session ::
  "handshake_payload \<Rightarrow> u32 \<Rightarrow> protocol_header \<Rightarrow> bytes \<Rightarrow> frame_writer \<Rightarrow> handshake_outcome \<times> frame_writer" where
  "open_session expected server_process_id request payload w =
     (if header_operation_kind request \<noteq> Ok OpHandshake then (HandshakeFailed, w)
      else case handshake_decode payload of
        Ok handshake \<Rightarrow>
          if validate_peer handshake expected \<noteq> Ok ()
          then (case write_error_response request SvcAuthenticationFailed w of
                  (Ok _, w) \<Rightarrow> (HandshakeRefused, w) | (_, w) \<Rightarrow> (HandshakeFailed, w))
          else
            let response_payload = handshake_encode (expected\<lparr>hp_process_id := server_process_id\<rparr>);
                response = (header_response request)\<lparr>ph_payload_len := word_of_nat handshake_payload_len\<rparr>
            in (case write_frame response response_payload w of
                  (Ok _, w) \<Rightarrow> (HandshakeAccepted (after_handshake (ph_request_id request)), w)
                | (_, w) \<Rightarrow> (HandshakeFailed, w))
      | _ \<Rightarrow> (HandshakeFailed, w))"

section \<open>The responses of a session\<close>

lemma write_frame_Ok:
  assumes "write_frame h payload w = (Ok (), w')"
  shows "frame_valid (h, payload)" and "wr_sent w' = wr_sent w @ header_encode h @ payload"
  using assms by (cases rule: write_frame_cases; simp)+

text \<open>The frame answers the request.\<close>

definition answers :: "protocol_header \<times> bytes \<Rightarrow> nat \<times> protocol_header \<times> bytes \<Rightarrow> bool" where
  "answers f r \<longleftrightarrow> frame_valid f \<and> validate_response_to (fst f) (fst (snd r)) = Ok ()"

text \<open>What is sent for a request: one frame that answers it, or, when the session fails, at most the beginning of a frame.\<close>

definition torn_frame :: "bytes \<Rightarrow> bool" where
  "torn_frame bs \<longleftrightarrow> (\<exists>h payload n. frame_valid (h, payload) \<and> n < length (header_encode h @ payload) \<and>
     bs = take n (header_encode h @ payload))"

definition sent_for :: "nat \<times> protocol_header \<times> bytes \<Rightarrow> session_outcome \<Rightarrow> frame_writer \<Rightarrow> frame_writer \<Rightarrow> bool" where
  "sent_for r outcome w w' \<longleftrightarrow>
     (\<exists>f. answers f r \<and> wr_sent w' = wr_sent w @ header_encode (fst f) @ snd f) \<or>
     outcome = Failed \<and> (\<exists>bs. wr_sent w' = wr_sent w @ bs \<and> (bs = [] \<or> torn_frame bs))"

lemma write_sent:
  assumes "after_write o1 (write_frame h payload w) = (outcome, w')"
    and "validate_response_to h request = Ok ()"
  shows "sent_for (elapsed, request, bs) outcome w w'"
proof -
  obtain r w1 where w1: "write_frame h payload w = (r, w1)" by fastforce
  have "w' = w1" and failed: "r = Err e \<Longrightarrow> outcome = Failed" for e
    using assms(1) by (auto simp: w1 after_write_def split: result.splits)
  from w1 show ?thesis
  proof (cases rule: write_frame_cases)
    case written
    then show ?thesis
      using assms(2) \<open>w' = w1\<close> by (auto simp: sent_for_def answers_def intro!: exI [of _ "(h, payload)"])
  next
    case (torn n e)
    then have "torn_frame (take n (header_encode h @ payload))" unfolding torn_frame_def by blast
    then show ?thesis
      using torn(4) failed [OF torn(2)] \<open>w' = w1\<close> unfolding sent_for_def by blast
  next
    case (rejected e)
    then show ?thesis using failed \<open>w' = w1\<close> by (simp add: sent_for_def)
  qed
qed

lemma error_flag_keeps_response: "((f OR flag_response) OR e) AND flag_response \<noteq> 0"
  using flag_response_or [of "f OR e"] by (simp add: ac_simps)

lemma responses_sent:
  "after_write o1 (write_response request payload w) = (outcome, w') \<Longrightarrow> sent_for (elapsed, request, bs) outcome w w'"
  "after_write o1 (write_error_response request code w) = (outcome, w') \<Longrightarrow> sent_for (elapsed, request, bs) outcome w w'"
  "after_write o1 (write_frame (header_response request) [] w) = (outcome, w') \<Longrightarrow> sent_for (elapsed, request, bs) outcome w w'"
  unfolding write_response_def write_error_response_def Let_def
  by (erule write_sent, use flag_response_or error_flag_keeps_response in
      \<open>simp add: validate_response_to_Ok_iff header_response_def\<close>)+

lemma handle_request_sent:
  assumes "handle_request arms expected elapsed request payload s w = ((outcome, w'), s')"
  shows "sent_for (elapsed, request, payload) outcome w w'"
proof -
  from assms consider (nothing) "outcome = Failed" "w' = w"
    | code o1 where "after_write o1 (write_error_response request code w) = (outcome, w')"
    | bytes o1 where "after_write o1 (write_response request bytes w) = (outcome, w')"
    | o1 where "after_write o1 (write_frame (header_response request) [] w) = (outcome, w')"
    by (auto simp: handle_request_def Let_def split: prod.splits gate_outcome.splits arm_outcome.splits)
  then show ?thesis
  proof cases
    case nothing
    then show ?thesis by (simp add: sent_for_def)
  qed (erule responses_sent)+
qed

lemma serve_requests_sent:
  assumes "serve_requests arms expected requests s w = ((outcome, w'), s')"
  shows "\<exists>fs bs. wr_sent w' = wr_sent w @ concat (map (\<lambda>f. header_encode (fst f) @ snd f) fs) @ bs \<and>
    (bs = [] \<or> torn_frame bs) \<and> list_all2 answers fs (take (length fs) requests) \<and>
    (outcome = Continue \<longrightarrow> length fs = length requests)"
  using assms
proof (induction requests arbitrary: s w)
  case Nil
  then show ?case by (intro exI [of _ "[]"]) simp
next
  case (Cons r rest)
  obtain elapsed request payload where r: "r = (elapsed, request, payload)" by (cases r)
  obtain o1 w1 s1 where step: "handle_request arms expected elapsed request payload s w = ((o1, w1), s1)"
    by (metis prod.collapse)
  note sent = handle_request_sent [OF step, folded r]
  have whole: "\<exists>f. answers f r \<and> wr_sent w1 = wr_sent w @ header_encode (fst f) @ snd f" if "o1 \<noteq> Failed"
    using sent that by (simp add: sent_for_def)
  show ?case
  proof (cases o1)
    case Continue
    then have "serve_requests arms expected rest s1 w1 = ((outcome, w'), s')"
      using Cons.prems r step by simp
    from Cons.IH [OF this] obtain fs bs where fs: "wr_sent w' = wr_sent w1 @ concat (map (\<lambda>f. header_encode (fst f) @ snd f) fs) @ bs"
      "bs = [] \<or> torn_frame bs" "list_all2 answers fs (take (length fs) rest)" "outcome = Continue \<longrightarrow> length fs = length rest"
      by blast
    obtain f where "answers f r" "wr_sent w1 = wr_sent w @ header_encode (fst f) @ snd f" using whole Continue by blast
    then show ?thesis using fs by (intro exI [of _ "f # fs"] exI [of _ bs]) simp
  next
    case Finished
    then obtain f where "answers f r" "wr_sent w1 = wr_sent w @ header_encode (fst f) @ snd f" using whole by blast
    then show ?thesis using Cons.prems Finished r step by (intro exI [of _ "[f]"] exI [of _ "[]"]) simp
  next
    case Failed
    then have stopped: "outcome = Failed" "w' = w1" using Cons.prems r step by simp_all
    from sent consider f where "answers f r" "wr_sent w1 = wr_sent w @ header_encode (fst f) @ snd f"
      | bs where "wr_sent w1 = wr_sent w @ bs" "bs = [] \<or> torn_frame bs"
      by (auto simp: sent_for_def)
    then show ?thesis
    proof cases
      case (1 f)
      then show ?thesis using stopped by (intro exI [of _ "[f]"] exI [of _ "[]"]) simp
    next
      case (2 bs)
      then show ?thesis using stopped by (intro exI [of _ "[]"] exI [of _ bs]) simp
    qed
  qed
qed

lemma header_valid_payload_len:
  "header_valid h \<Longrightarrow> n \<le> max_control_payload \<Longrightarrow> header_valid (h\<lparr>ph_payload_len := n\<rparr>)"
  by (auto simp: header_valid_def header_validate_def header_operation_kind_def)

lemma read_frames_tail: "bs = [] \<or> torn_frame bs \<Longrightarrow> read_frames bs buffer = []"
  unfolding torn_frame_def using read_frame_torn read_frames_stops read_frames_Nil by metis

lemma read_frames_concat:
  assumes "\<forall>f \<in> set fs. frame_valid f" and "1048576 \<le> length buffer" and "bs = [] \<or> torn_frame bs"
  shows "read_frames (concat (map (\<lambda>f. header_encode (fst f) @ snd f) fs) @ bs) buffer = fs"
  using assms
proof (induction fs arbitrary: buffer)
  case (Cons f fs)
  obtain h payload where f: "f = (h, payload)" by (cases f)
  with Cons.prems have "frame_valid (h, payload)" and fits: "length payload \<le> length buffer"
    using header_valid_payload_bound [of h] by (auto simp: frame_valid_def)
  with Cons f show ?case by (simp add: read_frames_Cons)
qed (simp add: read_frames_tail)

text \<open>
  C19: however the session goes and whatever its writes do, the frames that the client can read whole are the
  responses to the first of its requests, one for each, in the order of the requests, and each passes the client's check that
  it answers that request; while the session goes on there is one for every request. The arms of the dispatch are
  any functions that answer with a payload or an error or end the session.
\<close>

theorem responses_match_requests:
  fixes arms expected requests s room flushes buffer
  defines "run \<equiv> serve_requests arms expected requests s \<lparr>wr_sent = [], wr_room = room, wr_flushes = flushes\<rparr>"
  defines "received \<equiv> read_frames (wr_sent (snd (fst run))) buffer"
  assumes "unat max_control_payload \<le> length buffer"
  shows "list_all2 (\<lambda>(h, payload) (elapsed, request, _). validate_response_to h request = Ok ())
      received (take (length received) requests) \<and>
    (if fst (fst run) = Continue then length received = length requests else length received \<le> length requests)"
proof -
  obtain outcome w s' where step: "serve_requests arms expected requests s \<lparr>wr_sent = [], wr_room = room, wr_flushes = flushes\<rparr> =
      ((outcome, w), s')"
    by (metis prod.collapse)
  then have run: "run = ((outcome, w), s')" by (simp add: run_def)
  from serve_requests_sent [OF step] obtain fs bs where
    fs: "wr_sent w = concat (map (\<lambda>f. header_encode (fst f) @ snd f) fs) @ bs" "bs = [] \<or> torn_frame bs"
    and all: "list_all2 answers fs (take (length fs) requests)" "outcome = Continue \<longrightarrow> length fs = length requests"
    by auto
  have "frame_valid f" if "f \<in> set fs" for f
    using all(1) that by (auto simp: list_all2_conv_all_nth in_set_conv_nth answers_def)
  then have "received = fs"
    using assms(3) fs(2) by (simp add: received_def run fs(1) read_frames_concat max_control_payload_def)
  moreover have "list_all2 (\<lambda>(h, payload) (elapsed, request, _). validate_response_to h request = Ok ()) fs (take (length fs) requests)"
    using all(1) by (rule list_all2_mono) (auto simp: answers_def)
  moreover have "length fs \<le> length requests" using list_all2_lengthD [OF all(1)] by simp
  ultimately show ?thesis using all(2) by (simp add: run)
qed

section \<open>No request is served twice\<close>

text \<open>The ids of the requests that reach their arm, in order.\<close>

fun dispatched_ids ::
  "'w arms \<Rightarrow> handshake_payload \<Rightarrow> (nat \<times> protocol_header \<times> bytes) list \<Rightarrow> 'w server_session \<Rightarrow> frame_writer \<Rightarrow>
   u64 list" where
  "dispatched_ids arms expected [] s w = []"
| "dispatched_ids arms expected ((elapsed, request, payload) # rest) s w =
     (case fst (session_gate expected elapsed request s) of GateAdmitted _ \<Rightarrow> [ph_request_id request] | _ \<Rightarrow> []) @
     (case handle_request arms expected elapsed request payload s w of
        ((Continue, w), s) \<Rightarrow> dispatched_ids arms expected rest s w
      | _ \<Rightarrow> [])"

lemma gate_sequence:
  assumes "session_gate expected elapsed request s = (g, s')"
  shows "rs_last_request_id (ss_sequence s) \<le> rs_last_request_id (ss_sequence s')"
    and "g = GateAdmitted operation \<Longrightarrow> rs_last_request_id (ss_sequence s) < ph_request_id request \<and>
      rs_last_request_id (ss_sequence s') = ph_request_id request"
  using assms
  by (auto simp: session_gate_def sequence_accept_def record_protocol_error_def record_request_timeout_def
      Let_def not_le less_imp_le split: if_splits result.splits)

lemma handle_request_sequence:
  assumes "handle_request arms expected elapsed request payload s w = (r, s')"
  shows "ss_sequence s' = ss_sequence (snd (session_gate expected elapsed request s))"
  using assms
  by (auto simp: handle_request_def record_protocol_error_def Let_def
      split: prod.splits gate_outcome.splits arm_outcome.splits)

text \<open>
  C23: the requests that reach an arm of the dispatch have strictly increasing ids above the id of
  the handshake: a replayed, reordered or repeated request is answered with an error and never
  executed again, also when its first copy had missed its deadline.
\<close>

theorem requests_served_at_most_once:
  "sorted_wrt (<) (rs_last_request_id (ss_sequence s) # dispatched_ids arms expected requests s w)"
proof (induction requests arbitrary: s w)
  case (Cons r rest)
  obtain elapsed request payload where r: "r = (elapsed, request, payload)" by (cases r)
  obtain g sg where gate: "session_gate expected elapsed request s = (g, sg)" by fastforce
  obtain o1 w1 s1 where step: "handle_request arms expected elapsed request payload s w = ((o1, w1), s1)"
    by (metis prod.collapse)
  have seq: "ss_sequence s1 = ss_sequence sg"
    using handle_request_sequence [OF step] gate by simp
  have rest: "sorted_wrt (<) (rs_last_request_id (ss_sequence s1) #
      (case o1 of Continue \<Rightarrow> dispatched_ids arms expected rest s1 w1 | _ \<Rightarrow> []))"
    using Cons.IH [of s1 w1] by (cases o1) simp_all
  have ids: "dispatched_ids arms expected (r # rest) s w =
      (case g of GateAdmitted _ \<Rightarrow> [ph_request_id request] | _ \<Rightarrow> []) @
      (case o1 of Continue \<Rightarrow> dispatched_ids arms expected rest s1 w1 | _ \<Rightarrow> [])"
    by (cases o1) (simp_all add: r gate step)
  show ?case
  proof (cases g)
    case (GateAdmitted operation)
    with gate_sequence(2) [OF gate] rest seq show ?thesis
      by (auto simp: ids intro: less_trans)
  qed (use gate_sequence(1) [OF gate] rest seq in \<open>auto simp: ids intro: le_less_trans\<close>)
qed simp

section \<open>Authentication\<close>

text \<open>
  C24: a connection becomes a session exactly when its first frame is a handshake whose payload is
  the startup handshake in everything but the process id. Then the server answers with its own
  process id; otherwise nothing of the expected payload (which holds the secret token) is sent.
\<close>

theorem session_requires_handshake:
  assumes "handshake_shape expected"
    and "open_session expected server_process_id request payload w = (outcome, w')"
  shows "(outcome = HandshakeAccepted sequence \<longrightarrow>
       header_operation_kind request = Ok OpHandshake \<and>
       (\<exists>process_id. payload = handshake_encode (expected\<lparr>hp_process_id := process_id\<rparr>)) \<and>
       rs_last_request_id sequence = ph_request_id request \<and>
       (\<exists>h. validate_response_to h request = Ok () \<and> wr_sent w' = wr_sent w @ header_encode h @
          handshake_encode (expected\<lparr>hp_process_id := server_process_id\<rparr>))) \<and>
    ((\<forall>process_id. payload \<noteq> handshake_encode (expected\<lparr>hp_process_id := process_id\<rparr>)) \<longrightarrow>
       w' = w \<or> w' = snd (write_error_response request SvcAuthenticationFailed w)) \<and>
    (header_operation_kind request = Ok OpHandshake \<and> header_valid request \<and>
       handshake_validate (expected\<lparr>hp_process_id := process_id\<rparr>) = Ok () \<and>
       payload = handshake_encode (expected\<lparr>hp_process_id := process_id\<rparr>) \<and>
       224 \<le> wr_room w \<and> wr_flushes w \<longrightarrow>
       outcome = HandshakeAccepted (after_handshake (ph_request_id request)))"
proof (intro conjI)
  let ?response = "(header_response request)\<lparr>ph_payload_len := word_of_nat handshake_payload_len\<rparr>"
  have peer: "\<exists>process_id. payload = handshake_encode (expected\<lparr>hp_process_id := process_id\<rparr>)"
    if "handshake_decode payload = Ok p" "validate_peer p expected = Ok ()" for p
  proof -
    have "handshake_valid p" and "handshake_encode p = payload"
      using handshake.dec_Ok_iff [of payload p] that(1) by auto
    with that(2) validate_peer_Ok_iff [of p expected] assms(1)
    have "p = expected\<lparr>hp_process_id := hp_process_id p\<rparr>" by (simp add: handshake_valid_def)
    with \<open>handshake_encode p = payload\<close> show ?thesis by metis
  qed
  have response: "validate_response_to ?response request = Ok ()"
    using flag_response_or by (simp add: validate_response_to_Ok_iff header_response_def)
  show "outcome = HandshakeAccepted sequence \<longrightarrow>
       header_operation_kind request = Ok OpHandshake \<and>
       (\<exists>process_id. payload = handshake_encode (expected\<lparr>hp_process_id := process_id\<rparr>)) \<and>
       rs_last_request_id sequence = ph_request_id request \<and>
       (\<exists>h. validate_response_to h request = Ok () \<and> wr_sent w' = wr_sent w @ header_encode h @
          handshake_encode (expected\<lparr>hp_process_id := server_process_id\<rparr>))"
    using assms(2) peer response
    by (auto simp: open_session_def after_handshake_def Let_def dest: write_frame_Ok(2)
        split: if_splits result.splits prod.splits)
  show "(\<forall>process_id. payload \<noteq> handshake_encode (expected\<lparr>hp_process_id := process_id\<rparr>)) \<longrightarrow>
       w' = w \<or> w' = snd (write_error_response request SvcAuthenticationFailed w)"
    using assms(2) peer
    by (auto simp: open_session_def Let_def split: if_splits result.splits prod.splits)
  show "header_operation_kind request = Ok OpHandshake \<and> header_valid request \<and>
       handshake_validate (expected\<lparr>hp_process_id := process_id\<rparr>) = Ok () \<and>
       payload = handshake_encode (expected\<lparr>hp_process_id := process_id\<rparr>) \<and>
       224 \<le> wr_room w \<and> wr_flushes w \<longrightarrow>
       outcome = HandshakeAccepted (after_handshake (ph_request_id request))"
  proof
    assume given: "header_operation_kind request = Ok OpHandshake \<and> header_valid request \<and>
       handshake_validate (expected\<lparr>hp_process_id := process_id\<rparr>) = Ok () \<and>
       payload = handshake_encode (expected\<lparr>hp_process_id := process_id\<rparr>) \<and>
       224 \<le> wr_room w \<and> wr_flushes w"
    let ?peer = "expected\<lparr>hp_process_id := process_id\<rparr>"
    have shape: "handshake_shape ?peer" using assms(1) by (simp add: handshake_shape_def)
    then have dec: "handshake_decode payload = Ok ?peer"
      using given handshake.dec_Ok_iff [of payload ?peer] by (simp add: handshake_valid_def)
    have ok: "validate_peer ?peer expected = Ok ()"
      using validate_peer_Ok_iff [OF shape assms(1)] by simp
    have "header_valid ?response"
      using header_response_valid [of request] given
      by (simp add: header_valid_payload_len handshake_payload_len_def max_control_payload_def)
    then have "frame_valid (?response, handshake_encode (expected\<lparr>hp_process_id := server_process_id\<rparr>))"
      by (simp add: frame_valid_def handshake_payload_len_def)
    then show "outcome = HandshakeAccepted (after_handshake (ph_request_id request))"
      using assms(2) given dec ok
      by (simp add: open_session_def Let_def write_frame_valid write_all_def then_write_def flush_writer_def)
  qed
qed

theorem session_requires_handshake_witness:
  "fst (open_session example_handshake 77 (header_request OpHandshake 1 1 5 176 0)
     (handshake_encode example_handshake) \<lparr>wr_sent = [], wr_room = 300, wr_flushes = True\<rparr>) =
   HandshakeAccepted (after_handshake 1)"
proof -
  let ?request = "header_request OpHandshake 1 1 5 176 0"
  have "handshake_shape example_handshake" by (simp add: handshake_shape_def example_handshake_def)
  moreover have "handshake_validate (example_handshake\<lparr>hp_process_id := 42\<rparr>) = Ok ()"
    "example_handshake\<lparr>hp_process_id := 42\<rparr> = example_handshake"
    by (simp_all add: handshake_validate_def example_handshake_def zeros_def dogmos_abi_version_def
        dogmos_protocol_version_def max_control_payload_def max_callback_events_def
        max_pending_continuations_def max_stage_work_items_def replicate_eq_replicate)
  moreover have "header_valid ?request"
    by (simp add: header_request_valid max_control_payload_def)
  ultimately show ?thesis
    using session_requires_handshake [of example_handshake 77 ?request "handshake_encode example_handshake"
      "\<lparr>wr_sent = [], wr_room = 300, wr_flushes = True\<rparr>" _ _ _ 42, OF _ prod.collapse [symmetric]]
    by simp
qed

end
