(* ===== verification/Wire_Payload.thy ===== *)
theory Wire_Payload
  imports Wire_Bytes
begin

text \<open>
  What the payload codecs of \<^verbatim>\<open>crates/dogmos-protocol/src/lib.rs\<close> share: their errors, handles,
  finite scalars, length checks, and payloads that consist of a 32-bit count and as many
  fixed-width records.

  A scalar is the bit pattern of its \<open>f64\<close>; the codecs only move bits and test them. The largest
  \<open>usize\<close> is the parameter \<open>usize_max\<close> of the checked length computations, so the statements hold
  for 32-bit and 64-bit builds.
\<close>

section \<open>Errors\<close>

datatype wire_handle = WireHandle (wh_slot: u32) (wh_generation: u32)

datatype (plugins only: size) payload_error =
    TruncatedHandle u32 | TruncatedScalar u32 | NonFiniteScalar | InvalidPayloadLength u32 u32
  | GasCountExceeded u32 u32 | OperationCountExceeded u32 u32 | UnknownLifecycleAction u32
  | ReservedMixtureStateField u32 | InvalidMixtureStateUploadId
  | InvalidMixtureStateUploadCount u32 | ReservedMixtureStateUploadField u32
  | UnknownSimulationStage u32 | InvalidStageWorkLimit u32 | UnknownSimulationStageFlags u32
  | ReservedSimulationStageField u32 | InvalidFrontierAppendCount u32
  | DuplicateFrontierHandle wire_handle | ReservedFrontierField u32 | UnknownCallbackScope u16
  | InvalidCallbackTransaction u16 u64 | ReservedCallbackBatchField u16
  | ReservedCallbackEventField u32 | UnknownCallbackEventKind u16 | UnknownCallbackFlags u16
  | UnknownCallbackAux u16 u32 | MissingContinuationToken | UnexpectedContinuationToken
  | InvalidBoolean u32 | NonZeroAbsentHandle | UnexpectedUnregisterMixture
  | FirelockOnDisconnectedEdge | DuplicateTurfAdjacency u32 u32 | UnknownTurfHeatFlags u32
  | ReservedTurfHeatField u32 | NonZeroAbsentTurfHeatState | UnknownMixtureCommand u16
  | UnknownMixtureCommandFlags u16 u16 | ReservedMixtureCommandField
  | ReservedMixtureAdjustmentField | ReservedContinuationField u32 | InvalidContinuationId
  | InvalidContinuationDeadline | InvalidReactionFlags u32 | InvalidReactionProfileThreshold
  | UnknownMixtureCommandResponse u32 | UnknownMixtureSnapshotFlags u32
  | ReservedMixtureSnapshotField u32 | UnknownServiceProcessFlags u32
  | ReservedServiceTelemetryField u32 | NonZeroUnavailableServiceProcessMetric

definition saturated_len :: "bytes \<Rightarrow> u32" where
  "saturated_len input = word_of_nat (min (length input) u32_max)"

definition require_exact_len :: "bytes \<Rightarrow> nat \<Rightarrow> (unit, payload_error) result" where
  "require_exact_len input expected =
     reject_if (length input \<noteq> expected)
       (InvalidPayloadLength (word_of_nat expected) (saturated_len input))"

lemma require_exact_len_simps [simp]:
  "require_exact_len input n = Ok () \<longleftrightarrow> length input = n" "require_exact_len input n \<noteq> Panic"
  "length input = n \<Longrightarrow> require_exact_len input n = Ok ()"
  by (auto simp: require_exact_len_def)

section \<open>Handles and scalars\<close>

definition handle_encode :: "wire_handle \<Rightarrow> bytes" where
  "handle_encode h = put 4 (to_le_bytes (wh_generation h)) (put 0 (to_le_bytes (wh_slot h)) (zeros 8))"

definition handle_decode :: "bytes \<Rightarrow> (wire_handle, payload_error) result" where
  "handle_decode input =
     rbind (reject_if (length input < 8) (TruncatedHandle (word_of_nat (length input)))) (\<lambda>_.
     rbind (read_u32 input 0) (\<lambda>slot.
     rbind (read_u32 input 4) (\<lambda>generation. Ok (WireHandle slot generation))))"

lemma handle_encode_append: "handle_encode h = to_le_bytes (wh_slot h) @ to_le_bytes (wh_generation h)"
  by (simp add: handle_encode_def put_simps)

lemma length_handle_encode [simp]: "length (handle_encode h) = 8"
  by (simp add: handle_encode_def)

text \<open>The handle in an eight-byte field.\<close>

definition handle_at :: "bytes \<Rightarrow> wire_handle" where
  "handle_at bs = WireHandle (from_le_bytes (field 0 4 bs)) (from_le_bytes (field 4 4 bs))"

lemma handle_decode_Ok [simp]: "8 \<le> length bs \<Longrightarrow> handle_decode bs = Ok (handle_at bs)"
  by (simp add: handle_decode_def handle_at_def)

lemma handle_at_encode [simp]: "handle_at (handle_encode h) = h"
  by (cases h) (simp add: handle_at_def handle_encode_def)

lemma handle_encode_at [simp]: "length bs = 8 \<Longrightarrow> handle_encode (handle_at bs) = bs"
  by (simp add: handle_at_def handle_encode_append join_simps)

lemma handle_encode_inject [simp]: "handle_encode g = handle_encode h \<longleftrightarrow> g = h"
  by (metis handle_at_encode)

type_synonym scalar_value = u64

definition is_finite :: "scalar_value \<Rightarrow> bool" where
  "is_finite x \<longleftrightarrow> x AND 0x7FF0000000000000 \<noteq> 0x7FF0000000000000"

text \<open>The value is zero, of either sign.\<close>

definition is_zero :: "scalar_value \<Rightarrow> bool" where
  "is_zero x \<longleftrightarrow> x AND 0x7FFFFFFFFFFFFFFF = 0"

definition scalar_encode :: "scalar_value \<Rightarrow> (bytes, payload_error) result" where
  "scalar_encode x = rbind (reject_if (\<not> is_finite x) NonFiniteScalar) (\<lambda>_. Ok (to_le_bytes x))"

definition scalar_decode :: "bytes \<Rightarrow> (scalar_value, payload_error) result" where
  "scalar_decode input =
     rbind (reject_if (length input < 8) (TruncatedScalar (word_of_nat (length input)))) (\<lambda>_.
     rbind (read_u64 input 0) (\<lambda>x.
     rbind (reject_if (\<not> is_finite x) NonFiniteScalar) (\<lambda>_. Ok x)))"

lemma scalar_encode_Ok_iff [simp]: "scalar_encode x = Ok bs \<longleftrightarrow> is_finite x \<and> bs = to_le_bytes x"
  by (auto simp: scalar_encode_def)

lemma scalar_encode_finite [simp]: "is_finite x \<Longrightarrow> scalar_encode x = Ok (to_le_bytes x)"
  by simp

lemma scalar_encode_not_Panic [simp]: "scalar_encode x \<noteq> Panic"
  by (simp add: scalar_encode_def)

lemma scalar_decode_Ok_iff [simp]:
  "length bs = 8 \<Longrightarrow> scalar_decode bs = Ok x \<longleftrightarrow> is_finite x \<and> x = from_le_bytes bs"
  by (auto simp: scalar_decode_def)

lemma scalar_decode_to_le [simp]: "is_finite x \<Longrightarrow> scalar_decode (to_le_bytes x) = Ok x"
  by simp

lemma scalar_decode_not_Panic [simp]: "scalar_decode bs \<noteq> Panic"
  by (auto simp: scalar_decode_def)

lemma is_finite_0 [simp]: "is_finite 0"
  by (simp add: is_finite_def)

lemma is_zero_0 [simp]: "is_zero 0"
  by (simp add: is_zero_def)

interpretation handle: codec "\<lambda>h. Ok (handle_encode h)"
  "\<lambda>bs. rbind (require_exact_len bs 8) (\<lambda>_. handle_decode bs)" "\<lambda>_. True"
  by unfold_locales auto

text \<open>\<open>decode_boolean\<close> and \<open>u32::from(bool)\<close>.\<close>

definition decode_boolean :: "u32 \<Rightarrow> (bool, payload_error) result" where
  "decode_boolean v = (if v = 0 then Ok False else if v = 1 then Ok True else Err (InvalidBoolean v))"

definition u32_of_bool :: "bool \<Rightarrow> u32" where
  "u32_of_bool b = (if b then 1 else 0)"

lemma decode_boolean_Ok_iff [simp]: "decode_boolean v = Ok b \<longleftrightarrow> v = u32_of_bool b"
  by (auto simp: decode_boolean_def u32_of_bool_def)

lemma decode_boolean_not_Panic [simp]: "decode_boolean v \<noteq> Panic"
  by (simp add: decode_boolean_def)

lemma decode_boolean_of_bool [simp]: "decode_boolean (u32_of_bool b) = Ok b"
  by simp

section \<open>Counted payloads\<close>

definition checked_encode_count :: "nat \<Rightarrow> (u32, payload_error) result" where
  "checked_encode_count n =
     ok_or (u32_try_from n) (OperationCountExceeded (word_of_nat u32_max) (word_of_nat u32_max))"

text \<open>\<open>usize::checked_mul\<close> and \<open>usize::checked_add\<close>.\<close>

definition usize_checked :: "nat \<Rightarrow> nat \<Rightarrow> nat option" where
  "usize_checked usize_max n = (if n \<le> usize_max then Some n else None)"

definition checked_payload_len ::
  "nat \<Rightarrow> bytes \<Rightarrow> nat \<Rightarrow> u32 \<Rightarrow> nat \<Rightarrow> (nat, payload_error) result" where
  "checked_payload_len usize_max input header_len count record_len =
     rbind (ok_or (usize_checked usize_max (unat count * record_len))
       (InvalidPayloadLength (word_of_nat u32_max) (saturated_len input))) (\<lambda>records.
     ok_or (usize_checked usize_max (header_len + records))
       (InvalidPayloadLength (word_of_nat u32_max) (saturated_len input)))"

definition validate_counted_payload ::
  "nat \<Rightarrow> bytes \<Rightarrow> nat \<Rightarrow> u32 \<Rightarrow> (u32, payload_error) result" where
  "validate_counted_payload usize_max input record_len maximum =
     rbind (reject_if (length input < 4) (InvalidPayloadLength 4 (word_of_nat (length input)))) (\<lambda>_.
     rbind (read_u32 input 0) (\<lambda>count.
     rbind (reject_if (count > maximum) (OperationCountExceeded count maximum)) (\<lambda>_.
     rbind (checked_payload_len usize_max input 4 count record_len) (\<lambda>expected.
     rbind (require_exact_len input expected) (\<lambda>_. Ok count)))))"

definition encode_counted ::
  "('a \<Rightarrow> (bytes, payload_error) result) \<Rightarrow> 'a list \<Rightarrow> (bytes, payload_error) result" where
  "encode_counted enc_rec entries =
     rbind (checked_encode_count (length entries)) (\<lambda>count.
     rbind (rmap enc_rec entries) (\<lambda>records. Ok (to_le_bytes count @ concat records)))"

definition decode_counted ::
  "nat \<Rightarrow> (bytes \<Rightarrow> nat \<Rightarrow> ('a, payload_error) result) \<Rightarrow> nat \<Rightarrow> bytes \<Rightarrow> u32 \<Rightarrow> ('a list, payload_error) result" where
  "decode_counted usize_max dec_at record_len input maximum =
     rbind (validate_counted_payload usize_max input record_len maximum) (\<lambda>count.
     rmap (\<lambda>index. dec_at input (4 + index * record_len)) [0..<unat count])"

lemma checked_encode_count_Ok_iff [simp]:
  "checked_encode_count n = Ok w \<longleftrightarrow> n \<le> u32_max \<and> w = word_of_nat n"
  by (auto simp: checked_encode_count_def u32_try_from_def)

lemma unat_word_of_nat_u32: "n \<le> u32_max \<Longrightarrow> unat (word_of_nat n :: u32) = n"
  by (simp add: unat_of_nat take_bit_nat_eq_self u32_max_def)

lemma checked_payload_len_Ok_iff [simp]:
  "checked_payload_len usize_max input header_len count record_len = Ok n \<longleftrightarrow>
     n = header_len + unat count * record_len \<and> n \<le> usize_max"
  by (auto simp: checked_payload_len_def usize_checked_def)

lemma checked_payload_len_not_Panic [simp]:
  "checked_payload_len usize_max input header_len count record_len \<noteq> Panic"
  by (simp add: checked_payload_len_def)

lemma validate_counted_payload_Ok_iff:
  "validate_counted_payload usize_max input record_len maximum = Ok count \<longleftrightarrow>
     4 \<le> length input \<and> count = from_le_bytes (field 0 4 input) \<and> count \<le> maximum \<and>
     length input = 4 + unat count * record_len \<and> length input \<le> usize_max"
  by (cases "4 \<le> length input") (auto simp: validate_counted_payload_def not_less)

lemma validate_counted_payload_not_Panic [simp]:
  "validate_counted_payload usize_max input record_len maximum \<noteq> Panic"
  by (auto simp: validate_counted_payload_def)

end
