(* ===== verification/Wire_Records.thy ===== *)
theory Wire_Records
  imports Wire_Payload
begin

text \<open>
  Payloads made of fixed-width records. A record format promises that decoding at a position
  depends on the record's bytes only and inverts encoding; then every batch of such records
  behind a header is decoded back, and a counted batch is a message format in the sense of
  \<open>lossless\<close> or \<open>codec\<close>.
\<close>

section \<open>Splitting a body into records\<close>

lemma field_concat:
  assumes "\<And>r. r \<in> set rs \<Longrightarrow> length r = len" and "i < length rs"
  shows "field (length hdr + i * len) len (hdr @ concat rs @ rest) = rs ! i"
  using assms
proof (induction rs arbitrary: i hdr)
  case (Cons r rs)
  show ?case
  proof (cases i)
    case 0
    with Cons.prems show ?thesis by (simp add: field_def)
  next
    case (Suc j)
    with Cons.prems Cons.IH [of j "hdr @ r"] show ?thesis by (simp add: add.assoc)
  qed
qed simp

lemma concat_fields:
  "concat (map (\<lambda>i. field (base + i * len) len xs) [0..<n]) = field base (n * len) xs"
proof (induction n)
  case (Suc n)
  then show ?case by (simp add: field_join add.commute)
qed (simp add: field_def)

lemma length_concat_records:
  "(\<And>r. r \<in> set rs \<Longrightarrow> length r = len) \<Longrightarrow> length (concat rs) = length rs * len"
  by (induction rs) auto

lemma record_in_range: "i < n \<Longrightarrow> base + n * len \<le> m \<Longrightarrow> base + i * len + len \<le> (m :: nat)"
proof -
  assume "i < n" and m: "base + n * len \<le> m"
  then have "Suc i * len \<le> n * len" by (intro mult_le_mono1) simp
  with m show ?thesis by simp
qed

section \<open>Record formats\<close>

locale record_lossless =
  fixes enc_rec :: "'a \<Rightarrow> (bytes, payload_error) result"
    and dec_at :: "bytes \<Rightarrow> nat \<Rightarrow> ('a, payload_error) result"
    and record_len :: nat
    and valid :: "'a \<Rightarrow> bool"
  assumes dec_local: "pos + record_len \<le> length input \<Longrightarrow>
      dec_at input pos = dec_at (field pos record_len input) 0"
    and dec_total: "length r = record_len \<Longrightarrow> dec_at r 0 \<noteq> Panic"
    and enc_ok: "valid x \<Longrightarrow> \<exists>r. enc_rec x = Ok r"
    and enc_len: "valid x \<Longrightarrow> enc_rec x = Ok r \<Longrightarrow> length r = record_len"
    and dec_enc: "valid x \<Longrightarrow> enc_rec x = Ok r \<Longrightarrow> dec_at r 0 = Ok x"
begin

lemma records_total:
  assumes "base + n * record_len \<le> length input"
  shows "rmap (\<lambda>i. dec_at input (base + i * record_len)) [0..<n] \<noteq> Panic"
proof (rule rmap_neq_Panic)
  fix i assume "i \<in> set [0..<n]"
  then have "base + i * record_len + record_len \<le> length input"
    using assms by (auto intro: record_in_range)
  then show "dec_at input (base + i * record_len) \<noteq> Panic"
    by (subst dec_local) (simp_all add: dec_total)
qed

lemma records_enc:
  assumes "list_all valid xs"
  shows "\<exists>rs. rmap enc_rec xs = Ok rs"
  using assms enc_ok by (induction xs) auto

lemma records_enc_len:
  assumes "list_all valid xs" and "rmap enc_rec xs = Ok rs"
  shows "length rs = length xs" and "\<And>r. r \<in> set rs \<Longrightarrow> length r = record_len"
    and "length (concat rs) = length xs * record_len"
proof -
  have all2: "list_all2 (\<lambda>x r. enc_rec x = Ok r) xs rs"
    using assms(2) by (simp add: rmap_eq_Ok_iff)
  show len: "length rs = length xs"
    using list_all2_lengthD [OF all2] by simp
  show each: "length r = record_len" if "r \<in> set rs" for r
  proof -
    from that obtain i where "i < length rs" "rs ! i = r"
      by (auto simp: in_set_conv_nth)
    then have "enc_rec (xs ! i) = Ok r" and "valid (xs ! i)"
      using all2 assms(1) len by (auto simp: list_all2_conv_all_nth list_all_length)
    then show ?thesis by (rule enc_len [rotated])
  qed
  show "length (concat rs) = length xs * record_len"
    using length_concat_records [of rs record_len] each len by simp
qed

lemma records_round_trip:
  assumes "list_all valid xs" and "rmap enc_rec xs = Ok rs"
  shows "rmap (\<lambda>i. dec_at (hdr @ concat rs @ rest) (length hdr + i * record_len)) [0..<length xs] = Ok xs"
  unfolding rmap_eq_Ok_iff
proof (rule list_all2_all_nthI)
  fix i assume "i < length [0..<length xs]"
  then have i: "i < length xs" by simp
  note rs = records_enc_len [OF assms]
  have "enc_rec (xs ! i) = Ok (rs ! i)" and valid: "valid (xs ! i)"
    using assms i by (auto simp: rmap_eq_Ok_iff list_all2_conv_all_nth list_all_length)
  moreover have "length hdr + i * record_len + record_len \<le> length (hdr @ concat rs @ rest)"
    using record_in_range [OF i, of "length hdr" record_len "length (hdr @ concat rs @ rest)"] rs(3) by simp
  then have "dec_at (hdr @ concat rs @ rest) (length hdr + i * record_len) = dec_at (rs ! i) 0"
    using dec_local [of "length hdr + i * record_len" "hdr @ concat rs @ rest"]
      field_concat [of rs record_len i hdr rest] rs i by simp
  ultimately show "dec_at (hdr @ concat rs @ rest) (length hdr + [0..<length xs] ! i * record_len) = Ok (xs ! i)"
    using dec_enc i by simp
qed simp

end

locale record_codec = record_lossless +
  assumes enc_dec: "length r = record_len \<Longrightarrow> dec_at r 0 = Ok x \<Longrightarrow> valid x \<and> enc_rec x = Ok r"
begin

lemma records_canonical:
  assumes len: "base + n * record_len \<le> length input"
    and dec: "rmap (\<lambda>i. dec_at input (base + i * record_len)) [0..<n] = Ok xs"
  shows "list_all valid xs" and "length xs = n"
    and "rmap enc_rec xs = Ok (map (\<lambda>i. field (base + i * record_len) record_len input) [0..<n])"
proof -
  have all2: "list_all2 (\<lambda>i x. dec_at input (base + i * record_len) = Ok x) [0..<n] xs"
    using dec by (simp add: rmap_eq_Ok_iff)
  show n: "length xs = n"
    using list_all2_lengthD [OF all2] by simp
  have rec: "valid (xs ! i) \<and> enc_rec (xs ! i) = Ok (field (base + i * record_len) record_len input)"
    if "i < n" for i
  proof (rule enc_dec)
    have range: "base + i * record_len + record_len \<le> length input"
      using that len by (rule record_in_range)
    then show "length (field (base + i * record_len) record_len input) = record_len" by simp
    show "dec_at (field (base + i * record_len) record_len input) 0 = Ok (xs ! i)"
      using all2 that n dec_local [OF range] by (auto simp: list_all2_conv_all_nth)
  qed
  show "list_all valid xs"
    using rec n by (simp add: list_all_length)
  show "rmap enc_rec xs = Ok (map (\<lambda>i. field (base + i * record_len) record_len input) [0..<n])"
    using rec n by (simp add: rmap_eq_Ok_iff list_all2_conv_all_nth)
qed

text \<open>Records in the middle of an input: decoded together exactly when they stand there encoded.\<close>

lemma records_at:
  assumes len: "base + n * record_len \<le> length input"
  shows "rmap (\<lambda>i. dec_at input (base + i * record_len)) [0..<n] = Ok xs \<longleftrightarrow>
    length xs = n \<and> list_all valid xs \<and>
    (\<exists>rs. rmap enc_rec xs = Ok rs \<and> field base (n * record_len) input = concat rs)"
proof
  assume dec: "rmap (\<lambda>i. dec_at input (base + i * record_len)) [0..<n] = Ok xs"
  show "length xs = n \<and> list_all valid xs \<and>
    (\<exists>rs. rmap enc_rec xs = Ok rs \<and> field base (n * record_len) input = concat rs)"
    using records_canonical [OF len dec] concat_fields [of base record_len input n] by auto
next
  assume "length xs = n \<and> list_all valid xs \<and>
    (\<exists>rs. rmap enc_rec xs = Ok rs \<and> field base (n * record_len) input = concat rs)"
  then obtain rs where xs: "length xs = n" "list_all valid xs" "rmap enc_rec xs = Ok rs"
    "field base (n * record_len) input = concat rs" by blast
  have "input = take base input @ concat rs @ drop (base + n * record_len) input"
    unfolding xs(4) [symmetric] field_def by (metis append_take_drop_id drop_drop add.commute)
  moreover have "length (take base input) = base" using len by simp
  ultimately show "rmap (\<lambda>i. dec_at input (base + i * record_len)) [0..<n] = Ok xs"
    using records_round_trip [OF xs(2,3), of "take base input" "drop (base + n * record_len) input"] xs(1)
    by simp
qed

end

section \<open>Counted batches\<close>

definition batch_valid :: "nat \<Rightarrow> ('a \<Rightarrow> bool) \<Rightarrow> nat \<Rightarrow> u32 \<Rightarrow> 'a list \<Rightarrow> bool" where
  "batch_valid usize_max valid record_len maximum xs \<longleftrightarrow>
     list_all valid xs \<and> length xs \<le> unat maximum \<and> 4 + length xs * record_len \<le> usize_max"

lemma batch_valid_count: "batch_valid usize_max valid len maximum xs \<Longrightarrow> length xs \<le> u32_max"
  using unat_u32_le_max [of maximum] by (auto simp: batch_valid_def)

lemma counted_header:
  assumes "length xs \<le> u32_max"
  shows "from_le_bytes (field 0 4 (to_le_bytes (word_of_nat (length xs) :: u32) @ body)) =
    (word_of_nat (length xs) :: u32)"
  by (simp add: field_def)

context record_lossless
begin

lemma decode_counted_total: "decode_counted usize_max dec_at record_len input maximum \<noteq> Panic"
  using records_total [of 4]
  by (auto simp: decode_counted_def validate_counted_payload_Ok_iff)

lemma encode_counted_Ok:
  assumes "batch_valid usize_max valid record_len maximum xs"
  shows "\<exists>bs. encode_counted enc_rec xs = Ok bs"
  using assms records_enc [of xs] batch_valid_count [OF assms]
  by (auto simp: encode_counted_def batch_valid_def)

lemma decode_encode_counted:
  assumes valid: "batch_valid usize_max valid record_len maximum xs"
    and enc: "encode_counted enc_rec xs = Ok bs"
  shows "decode_counted usize_max dec_at record_len bs maximum = Ok xs"
proof -
  let ?hdr = "to_le_bytes (word_of_nat (length xs) :: u32)"
  note count = batch_valid_count [OF valid]
  from enc obtain rs where rs: "rmap enc_rec xs = Ok rs" and bs: "bs = ?hdr @ concat rs"
    by (auto simp: encode_counted_def)
  have v: "list_all valid xs" using valid by (simp add: batch_valid_def)
  have "validate_counted_payload usize_max bs record_len maximum = Ok (word_of_nat (length xs))"
    using valid count records_enc_len [OF v rs] counted_header [OF count]
    by (simp add: validate_counted_payload_Ok_iff bs batch_valid_def unat_word_of_nat_u32 word_le_nat_alt)
  then show ?thesis
    using records_round_trip [OF v rs, of ?hdr "[]"] count
    by (simp add: decode_counted_def bs unat_word_of_nat_u32)
qed

end

sublocale record_lossless \<subseteq> batch: lossless "encode_counted enc_rec"
  "\<lambda>bs. decode_counted usize_max dec_at record_len bs maximum"
  "batch_valid usize_max valid record_len maximum" for usize_max maximum
  by unfold_locales (auto intro: decode_encode_counted encode_counted_Ok simp: decode_counted_total)

context record_codec
begin

lemma encode_decode_counted:
  assumes dec: "decode_counted usize_max dec_at record_len bs maximum = Ok xs"
  shows "batch_valid usize_max valid record_len maximum xs \<and> encode_counted enc_rec xs = Ok bs"
proof -
  from dec obtain count where
    count: "validate_counted_payload usize_max bs record_len maximum = Ok count" and
    recs: "rmap (\<lambda>i. dec_at bs (4 + i * record_len)) [0..<unat count] = Ok xs"
    by (auto simp: decode_counted_def)
  then have c: "count = from_le_bytes (field 0 4 bs)" "count \<le> maximum"
    "length bs = 4 + unat count * record_len" "length bs \<le> usize_max"
    by (auto simp: validate_counted_payload_Ok_iff)
  note can = records_canonical [OF _ recs] and le = c(3) [THEN eq_refl, THEN le_trans]
  have range: "4 + unat count * record_len \<le> length bs" using c(3) by simp
  have "word_of_nat (length xs) = count"
    using can(2) [OF range] by simp
  moreover have "field 0 4 bs @ field 4 (unat count * record_len) bs = bs"
    using c(3) by (simp add: field_join)
  ultimately have "encode_counted enc_rec xs = Ok bs"
    using can [OF range] c(1,3) unat_u32_le_max [of count]
    by (simp add: encode_counted_def concat_fields)
  moreover have "batch_valid usize_max valid record_len maximum xs"
    using can [OF range] c by (simp add: batch_valid_def word_le_nat_alt)
  ultimately show ?thesis by simp
qed

end

sublocale record_codec \<subseteq> batch: codec "encode_counted enc_rec"
  "\<lambda>bs. decode_counted usize_max dec_at record_len bs maximum"
  "batch_valid usize_max valid record_len maximum" for usize_max maximum
  by unfold_locales (rule encode_decode_counted)

section \<open>Handles and scalars as records\<close>

definition handle_slice :: "bytes \<Rightarrow> nat \<Rightarrow> (wire_handle, payload_error) result" where
  "handle_slice input pos = rbind (slice pos (pos + 8) input) handle_decode"

definition scalar_slice :: "bytes \<Rightarrow> nat \<Rightarrow> (scalar_value, payload_error) result" where
  "scalar_slice input pos = rbind (slice pos (pos + 8) input) scalar_decode"

lemma handle_slice_Ok [simp]:
  "pos + 8 \<le> length input \<Longrightarrow> handle_slice input pos = Ok (handle_at (field pos 8 input))"
  by (simp add: handle_slice_def)

lemma scalar_slice_eq:
  "pos + 8 \<le> length input \<Longrightarrow> scalar_slice input pos = scalar_decode (field pos 8 input)"
  by (simp add: scalar_slice_def)

interpretation handle_record: record_codec "\<lambda>h. Ok (handle_encode h)" handle_slice 8 "\<lambda>_. True"
  by unfold_locales (auto simp: field_field)

interpretation scalar_record: record_codec scalar_encode scalar_slice 8 is_finite
  by unfold_locales (auto simp: field_field scalar_slice_eq)

lemma rmap_scalar_encode:
  "rmap scalar_encode xs = Ok rs \<longleftrightarrow> list_all is_finite xs \<and> rs = map to_le_bytes xs"
  by (induction xs arbitrary: rs) auto

lemma rmap_scalar_encode_Ok [simp]:
  "list_all is_finite xs \<Longrightarrow> rmap scalar_encode xs = Ok (map to_le_bytes xs)"
  by (simp add: rmap_scalar_encode)

lemma rmap_scalar_encode_not_Panic [simp]: "rmap scalar_encode xs \<noteq> Panic"
  by (rule rmap_neq_Panic) simp

lemma scalars_at:
  "base + n * 8 \<le> length input \<Longrightarrow>
   rmap (\<lambda>i. scalar_slice input (base + i * 8)) [0..<n] = Ok xs \<longleftrightarrow>
     length xs = n \<and> list_all is_finite xs \<and> field base (n * 8) input = concat (map to_le_bytes xs)"
  by (simp add: scalar_record.records_at rmap_scalar_encode)

lemma length_concat_scalars [simp]:
  "length (concat (map (to_le_bytes :: u64 \<Rightarrow> bytes) xs)) = length xs * 8"
  by (induction xs) simp_all

lemma put_each_scalars [simp]:
  "pos + length xs * 8 \<le> length out \<Longrightarrow>
   put_each pos 8 (map (to_le_bytes :: u64 \<Rightarrow> bytes) xs) out = put pos (concat (map to_le_bytes xs)) out"
  by (rule put_each_eq) auto

text \<open>Insertion into a \<open>BTreeSet\<close> of keys; the first key seen twice is an error.\<close>

fun validate_unique :: "('a \<Rightarrow> 'k) \<Rightarrow> ('a \<Rightarrow> 'e) \<Rightarrow> 'k set \<Rightarrow> 'a list \<Rightarrow> (unit, 'e) result" where
  "validate_unique key err seen [] = Ok ()"
| "validate_unique key err seen (x # xs) =
     (if key x \<in> seen then Err (err x) else validate_unique key err (insert (key x) seen) xs)"

lemma validate_unique_Ok_iff:
  "validate_unique key err seen xs = Ok () \<longleftrightarrow> distinct (map key xs) \<and> set (map key xs) \<inter> seen = {}"
  by (induction xs arbitrary: seen) auto

lemma validate_unique_not_Panic [simp]: "validate_unique key err seen xs \<noteq> Panic"
  by (induction xs arbitrary: seen) auto

text \<open>A reserved field that is zero, in the form the concatenation lemmas need.\<close>

lemmas reserved_simps =
  from_le_eq_0_iff_u16 [THEN trans, OF _ eq_commute]
  from_le_eq_0_iff_u32 [THEN trans, OF _ eq_commute]
  from_le_eq_0_iff_u64 [THEN trans, OF _ eq_commute]

end
