(* ===== verification/Wire_Frontier.thy ===== *)
theory Wire_Frontier
  imports Wire_Records
begin

text \<open>
  The frontier messages of \<^verbatim>\<open>crates/dogmos-protocol/src/lib.rs\<close>: begin, append, commit, and the
  incremental add and remove, with their responses. A list of handles is accepted only when it is
  not empty, has at most 512 entries and no duplicates, on both sides of the wire.
\<close>

section \<open>Handle lists\<close>

definition max_frontier_append_handles :: nat where
  "max_frontier_append_handles = 512"

definition validate_frontier_handles :: "wire_handle list \<Rightarrow> (unit, payload_error) result" where
  "validate_frontier_handles handles =
     (let count = (case u32_try_from (length handles) of Some c \<Rightarrow> c | None \<Rightarrow> word_of_nat u32_max)
      in rbind (reject_if (handles = [] \<or> length handles > max_frontier_append_handles)
           (InvalidFrontierAppendCount count)) (\<lambda>_.
         validate_unique (\<lambda>h. (wh_slot h, wh_generation h)) DuplicateFrontierHandle {} handles))"

definition frontier_handles_ok :: "wire_handle list \<Rightarrow> bool" where
  "frontier_handles_ok hs \<longleftrightarrow> hs \<noteq> [] \<and> length hs \<le> max_frontier_append_handles \<and> distinct hs"

lemma validate_frontier_handles_Ok_iff [simp]:
  "validate_frontier_handles hs = Ok () \<longleftrightarrow> frontier_handles_ok hs"
proof -
  have "inj (\<lambda>h. (wh_slot h, wh_generation h))"
    by (auto intro!: injI simp: wire_handle.expand)
  then show ?thesis
    by (auto simp: validate_frontier_handles_def frontier_handles_ok_def validate_unique_Ok_iff
        distinct_map Let_def intro: inj_on_subset)
qed

section \<open>Begin and commit\<close>

record frontier_begin_request =
  fb_epoch :: u64
  fb_expected_count :: u32

definition frontier_begin_request_encode :: "frontier_begin_request \<Rightarrow> bytes" where
  "frontier_begin_request_encode r =
     put 8 (to_le_bytes (fb_expected_count r)) (put 0 (to_le_bytes (fb_epoch r)) (zeros 16))"

definition frontier_begin_request_decode :: "bytes \<Rightarrow> (frontier_begin_request, payload_error) result" where
  "frontier_begin_request_decode input =
     rbind (require_exact_len input 16) (\<lambda>_.
     rbind (read_u32 input 12) (\<lambda>reserved.
     rbind (reject_if (reserved \<noteq> 0) (ReservedFrontierField reserved)) (\<lambda>_.
     rbind (read_u64 input 0) (\<lambda>epoch.
     rbind (read_u32 input 8) (\<lambda>expected_count.
     Ok \<lparr>fb_epoch = epoch, fb_expected_count = expected_count\<rparr>)))))"

text \<open>\<open>FrontierBeginResponse\<close> and \<open>FrontierCommitRequest\<close> are a bare epoch.\<close>

definition epoch_encode :: "u64 \<Rightarrow> bytes" where
  "epoch_encode epoch = to_le_bytes epoch"

definition epoch_decode :: "bytes \<Rightarrow> (u64, payload_error) result" where
  "epoch_decode input = rbind (require_exact_len input 8) (\<lambda>_. read_u64 input 0)"

text \<open>\<open>FrontierAppendResponse\<close> and \<open>FrontierMutateResponse\<close> are a bare count.\<close>

definition count_encode :: "u32 \<Rightarrow> bytes" where
  "count_encode count = to_le_bytes count"

definition count_decode :: "bytes \<Rightarrow> (u32, payload_error) result" where
  "count_decode input = rbind (require_exact_len input 4) (\<lambda>_. read_u32 input 0)"

record frontier_commit_response =
  fc_epoch :: u64
  fc_count :: u32

definition frontier_commit_response_encode :: "frontier_commit_response \<Rightarrow> bytes" where
  "frontier_commit_response_encode r =
     put 8 (to_le_bytes (fc_count r)) (put 0 (to_le_bytes (fc_epoch r)) (zeros 16))"

definition frontier_commit_response_decode :: "bytes \<Rightarrow> (frontier_commit_response, payload_error) result" where
  "frontier_commit_response_decode input =
     rbind (require_exact_len input 16) (\<lambda>_.
     rbind (read_u32 input 12) (\<lambda>reserved.
     rbind (reject_if (reserved \<noteq> 0) (ReservedFrontierField reserved)) (\<lambda>_.
     rbind (read_u64 input 0) (\<lambda>epoch.
     rbind (read_u32 input 8) (\<lambda>count.
     Ok \<lparr>fc_epoch = epoch, fc_count = count\<rparr>)))))"

lemma frontier_begin_request_append:
  "frontier_begin_request_encode r = to_le_bytes (fb_epoch r) @ to_le_bytes (fb_expected_count r) @ zeros 4"
  by (simp add: frontier_begin_request_encode_def put_simps) (simp add: buf_def)

lemma frontier_commit_response_append:
  "frontier_commit_response_encode r = to_le_bytes (fc_epoch r) @ to_le_bytes (fc_count r) @ zeros 4"
  by (simp add: frontier_commit_response_encode_def put_simps) (simp add: buf_def)

interpretation frontier_begin: codec "\<lambda>r. Ok (frontier_begin_request_encode r)"
  frontier_begin_request_decode "\<lambda>_. True"
proof
  show "True \<and> Ok (frontier_begin_request_encode m) = (Ok bs :: (bytes, payload_error) result)"
    if "frontier_begin_request_decode bs = Ok m" for bs m
    using that
    by (auto simp: frontier_begin_request_decode_def frontier_begin_request_append reserved_simps join_simps)
qed (auto simp: frontier_begin_request_decode_def frontier_begin_request_encode_def)

interpretation epoch: codec "\<lambda>r. Ok (epoch_encode r)" epoch_decode "\<lambda>_. True"
  by unfold_locales (auto simp: epoch_decode_def epoch_encode_def)

interpretation count: codec "\<lambda>r. Ok (count_encode r)" count_decode "\<lambda>_. True"
  by unfold_locales (auto simp: count_decode_def count_encode_def)

interpretation frontier_commit_response: codec "\<lambda>r. Ok (frontier_commit_response_encode r)"
  frontier_commit_response_decode "\<lambda>_. True"
proof
  show "True \<and> Ok (frontier_commit_response_encode m) = (Ok bs :: (bytes, payload_error) result)"
    if "frontier_commit_response_decode bs = Ok m" for bs m
    using that
    by (auto simp: frontier_commit_response_decode_def frontier_commit_response_append reserved_simps join_simps)
qed (auto simp: frontier_commit_response_decode_def frontier_commit_response_encode_def)

section \<open>Append and mutate\<close>

record frontier_append_request =
  fa_epoch :: u64
  fa_offset :: u32
  fa_handles :: "wire_handle list"

record frontier_append_header =
  fah_epoch :: u64
  fah_offset :: u32
  fah_count :: u32

definition frontier_append_encode :: "frontier_append_request \<Rightarrow> (bytes, payload_error) result" where
  "frontier_append_encode r =
     rbind (validate_frontier_handles (fa_handles r)) (\<lambda>_.
     let count = word_of_nat (length (fa_handles r)) :: u32
     in Ok (to_le_bytes (fa_epoch r) @ to_le_bytes (fa_offset r) @ to_le_bytes count @
          concat (map handle_encode (fa_handles r))))"

text \<open>
  The two decoders check every handle against all earlier ones in the input before they fill the
  output vector. \<open>header_len\<close> is 16 for append and 12 for mutate.
\<close>

definition check_handles_distinct :: "nat \<Rightarrow> bytes \<Rightarrow> nat \<Rightarrow> (unit, payload_error) result" where
  "check_handles_distinct header_len input count =
     rforeach (\<lambda>index.
       rbind (handle_slice input (header_len + index * 8)) (\<lambda>handle.
       rforeach (\<lambda>previous_index.
         rbind (handle_slice input (header_len + previous_index * 8)) (\<lambda>previous.
         reject_if (handle = previous) (DuplicateFrontierHandle handle))) [0..<index])) [0..<count]"

definition decode_frontier_append_into ::
  "bytes \<Rightarrow> (frontier_append_header \<times> wire_handle list, payload_error) result" where
  "decode_frontier_append_into input =
     rbind (reject_if (length input < 16) (InvalidPayloadLength 16 (word_of_nat (length input)))) (\<lambda>_.
     rbind (read_u32 input 12) (\<lambda>count.
     rbind (reject_if (count = 0 \<or> unat count > max_frontier_append_handles)
       (InvalidFrontierAppendCount count)) (\<lambda>_.
     rbind (require_exact_len input (16 + unat count * 8)) (\<lambda>_.
     rbind (check_handles_distinct 16 input (unat count)) (\<lambda>_.
     rbind (rmap (\<lambda>index. handle_slice input (16 + index * 8)) [0..<unat count]) (\<lambda>handles.
     rbind (read_u64 input 0) (\<lambda>epoch.
     rbind (read_u32 input 8) (\<lambda>offset.
     Ok (\<lparr>fah_epoch = epoch, fah_offset = offset, fah_count = count\<rparr>, handles)))))))))"

record frontier_mutate_request =
  fm_epoch :: u64
  fm_handles :: "wire_handle list"

record frontier_mutate_header =
  fmh_epoch :: u64
  fmh_count :: u32

definition frontier_mutate_encode :: "frontier_mutate_request \<Rightarrow> (bytes, payload_error) result" where
  "frontier_mutate_encode r =
     rbind (validate_frontier_handles (fm_handles r)) (\<lambda>_.
     let count = word_of_nat (length (fm_handles r)) :: u32
     in Ok (to_le_bytes (fm_epoch r) @ to_le_bytes count @ concat (map handle_encode (fm_handles r))))"

definition decode_frontier_mutate_into ::
  "bytes \<Rightarrow> (frontier_mutate_header \<times> wire_handle list, payload_error) result" where
  "decode_frontier_mutate_into input =
     rbind (reject_if (length input < 12) (InvalidPayloadLength 12 (word_of_nat (length input)))) (\<lambda>_.
     rbind (read_u32 input 8) (\<lambda>count.
     rbind (reject_if (count = 0 \<or> unat count > max_frontier_append_handles)
       (InvalidFrontierAppendCount count)) (\<lambda>_.
     rbind (require_exact_len input (12 + unat count * 8)) (\<lambda>_.
     rbind (check_handles_distinct 12 input (unat count)) (\<lambda>_.
     rbind (rmap (\<lambda>index. handle_slice input (12 + index * 8)) [0..<unat count]) (\<lambda>handles.
     rbind (read_u64 input 0) (\<lambda>epoch.
     Ok (\<lparr>fmh_epoch = epoch, fmh_count = count\<rparr>, handles))))))))"

text \<open>The body of both messages, once its length is right.\<close>

lemma handles_at:
  assumes "length input = base + n * 8"
  shows "rmap (\<lambda>i. handle_slice input (base + i * 8)) [0..<n] = Ok hs \<longleftrightarrow>
    length hs = n \<and> drop base input = concat (map handle_encode hs)"
proof
  assume dec: "rmap (\<lambda>i. handle_slice input (base + i * 8)) [0..<n] = Ok hs"
  have le: "base + n * 8 \<le> length input" using assms by simp
  have "map handle_encode hs = map (\<lambda>i. field (base + i * 8) 8 input) [0..<n]"
    using handle_record.records_canonical(3) [OF le dec] by simp
  then have "concat (map handle_encode hs) = field base (n * 8) input"
    by (simp add: concat_fields)
  then show "length hs = n \<and> drop base input = concat (map handle_encode hs)"
    using handle_record.records_canonical(2) [OF le dec] assms by (simp add: field_def)
next
  assume hs: "length hs = n \<and> drop base input = concat (map handle_encode hs)"
  then have input: "input = take base input @ concat (map handle_encode hs)"
    by (metis append_take_drop_id)
  have "rmap (\<lambda>h. Ok (handle_encode h)) hs = (Ok (map handle_encode hs) :: (bytes list, payload_error) result)"
    by simp
  then have "rmap (\<lambda>i. handle_slice (take base input @ concat (map handle_encode hs) @ [])
      (length (take base input) + i * 8)) [0..<length hs] = Ok hs"
    by (intro handle_record.records_round_trip) (auto simp: list_all_iff)
  moreover have "length (take base input) = base" using assms by simp
  ultimately show "rmap (\<lambda>i. handle_slice input (base + i * 8)) [0..<n] = Ok hs"
    using hs input by simp
qed

lemma check_handles_distinct_Ok_iff:
  assumes "length input = base + n * 8"
    and "rmap (\<lambda>i. handle_slice input (base + i * 8)) [0..<n] = Ok hs"
  shows "check_handles_distinct base input n = Ok () \<longleftrightarrow> distinct hs"
proof -
  have len: "length hs = n" and nth: "\<And>i. i < n \<Longrightarrow> handle_slice input (base + i * 8) = Ok (hs ! i)"
    using assms(2) by (auto simp: rmap_eq_Ok_iff list_all2_conv_all_nth)
  have "check_handles_distinct base input n = Ok () \<longleftrightarrow> (\<forall>i < n. \<forall>j < i. hs ! i \<noteq> hs ! j)"
    by (auto simp: check_handles_distinct_def rforeach_eq_Ok nth)
  also have "\<dots> \<longleftrightarrow> distinct hs"
  proof
    assume "\<forall>i < n. \<forall>j < i. hs ! i \<noteq> hs ! j"
    then show "distinct hs"
      unfolding distinct_conv_nth len by (metis nat_neq_iff)
  next
    assume "distinct hs"
    then show "\<forall>i < n. \<forall>j < i. hs ! i \<noteq> hs ! j"
      by (auto simp: nth_eq_iff_index_eq len)
  qed
  finally show ?thesis .
qed

lemma check_handles_distinct_not_Panic:
  assumes "length input = base + n * 8"
  shows "check_handles_distinct base input n \<noteq> Panic"
proof -
  have "handle_slice input (base + i * 8) \<noteq> Panic" if "i < n" for i
    using record_in_range [OF that, of base 8 "length input"] assms by simp
  then show ?thesis unfolding check_handles_distinct_def
    by (intro rforeach_neq_Panic) (auto intro!: rforeach_neq_Panic)
qed

lemma length_concat_handles [simp]: "length (concat (map handle_encode hs)) = length hs * 8"
  by (induction hs) simp_all

lemma handles_checks:
  assumes "length input = base + n * 8" and "drop base input = concat (map handle_encode hs)"
    and "length hs = n"
  shows "rmap (\<lambda>i. handle_slice input (base + i * 8)) [0..<n] = Ok hs"
    and "distinct hs \<Longrightarrow> check_handles_distinct base input n = Ok ()"
  using handles_at [OF assms(1)] check_handles_distinct_Ok_iff [OF assms(1)] assms by simp_all

lemma frontier_count:
  assumes "frontier_handles_ok hs"
  shows "unat (word_of_nat (length hs) :: u32) = length hs" and "(word_of_nat (length hs) :: u32) \<noteq> 0"
proof -
  have "length hs \<le> u32_max"
    using assms by (simp add: frontier_handles_ok_def max_frontier_append_handles_def u32_max_def)
  then show len: "unat (word_of_nat (length hs) :: u32) = length hs"
    by (rule unat_word_of_nat_u32)
  show "(word_of_nat (length hs) :: u32) \<noteq> 0"
    using len assms by (auto simp: frontier_handles_ok_def)
qed

definition append_message_valid :: "frontier_append_header \<times> wire_handle list \<Rightarrow> bool" where
  "append_message_valid = (\<lambda>(hdr, hs). frontier_handles_ok hs \<and> fah_count hdr = word_of_nat (length hs))"

definition append_request_of :: "frontier_append_header \<times> wire_handle list \<Rightarrow> frontier_append_request" where
  "append_request_of = (\<lambda>(hdr, hs). \<lparr>fa_epoch = fah_epoch hdr, fa_offset = fah_offset hdr, fa_handles = hs\<rparr>)"

interpretation frontier_append: codec "\<lambda>m. frontier_append_encode (append_request_of m)"
  decode_frontier_append_into append_message_valid
proof
  show "decode_frontier_append_into bs \<noteq> Panic" for bs
    using check_handles_distinct_not_Panic [of bs 16] handle_record.records_total [of 16 _ bs]
    by (auto simp: decode_frontier_append_into_def)
  show "\<exists>bs. frontier_append_encode (append_request_of m) = Ok bs" if "append_message_valid m" for m
    using that
    by (cases m) (auto simp: append_message_valid_def append_request_of_def frontier_append_encode_def Let_def)
  show "decode_frontier_append_into bs = Ok m"
    if valid: "append_message_valid m" and enc: "frontier_append_encode (append_request_of m) = Ok bs" for bs m
  proof -
    obtain hdr hs where m: "m = (hdr, hs)" by (cases m)
    let ?c = "word_of_nat (length hs) :: u32"
    have ok: "frontier_handles_ok hs" and c: "fah_count hdr = ?c"
      using valid by (auto simp: append_message_valid_def m)
    note n = frontier_count [OF ok]
    have bs: "bs = to_le_bytes (fah_epoch hdr) @ to_le_bytes (fah_offset hdr) @ to_le_bytes ?c @
        concat (map handle_encode hs)"
      using enc ok by (simp add: append_request_of_def m frontier_append_encode_def Let_def)
    have len: "length bs = 16 + length hs * 8" and body: "drop 16 bs = concat (map handle_encode hs)"
      by (simp_all add: bs)
    have fields: "field 0 8 bs = to_le_bytes (fah_epoch hdr)" "field 8 4 bs = to_le_bytes (fah_offset hdr)"
      "field 12 4 bs = to_le_bytes ?c"
      by (simp_all add: bs field_def)
    show ?thesis
      using handles_checks [OF len body refl] ok n c
      by (simp add: decode_frontier_append_into_def len fields frontier_handles_ok_def m)
  qed
  show "append_message_valid m \<and> frontier_append_encode (append_request_of m) = Ok bs"
    if dec: "decode_frontier_append_into bs = Ok m" for bs m
  proof -
    let ?n = "unat (from_le_bytes (field 12 4 bs) :: u32)"
    obtain hdr hs where m: "m = (hdr, hs)" by (cases m)
    have ge: "16 \<le> length bs"
      using dec by (auto simp: decode_frontier_append_into_def)
    have len: "length bs = 16 + ?n * 8" and nz: "?n \<noteq> 0" and le: "?n \<le> max_frontier_append_handles"
      and recs: "rmap (\<lambda>i. handle_slice bs (16 + i * 8)) [0..<?n] = Ok hs"
      and chk: "check_handles_distinct 16 bs ?n = Ok ()"
      and hdr: "hdr = \<lparr>fah_epoch = from_le_bytes (field 0 8 bs), fah_offset = from_le_bytes (field 8 4 bs),
        fah_count = from_le_bytes (field 12 4 bs)\<rparr>"
      using dec ge by (auto simp: decode_frontier_append_into_def m unat_eq_zero)
    have hs: "length hs = ?n" "drop 16 bs = concat (map handle_encode hs)"
      using recs handles_at [OF len] by simp_all
    have ok: "frontier_handles_ok hs"
      using check_handles_distinct_Ok_iff [OF len recs] chk nz le hs(1)
      by (auto simp: frontier_handles_ok_def)
    have bs: "field 0 16 bs @ drop 16 bs = bs" by (simp add: field_def)
    show ?thesis
      using ok hs ge bs
      by (simp add: m append_message_valid_def append_request_of_def hdr frontier_append_encode_def Let_def
          field_join_append)
  qed
qed

definition mutate_message_valid :: "frontier_mutate_header \<times> wire_handle list \<Rightarrow> bool" where
  "mutate_message_valid = (\<lambda>(hdr, hs). frontier_handles_ok hs \<and> fmh_count hdr = word_of_nat (length hs))"

definition mutate_request_of :: "frontier_mutate_header \<times> wire_handle list \<Rightarrow> frontier_mutate_request" where
  "mutate_request_of = (\<lambda>(hdr, hs). \<lparr>fm_epoch = fmh_epoch hdr, fm_handles = hs\<rparr>)"

interpretation frontier_mutate: codec "\<lambda>m. frontier_mutate_encode (mutate_request_of m)"
  decode_frontier_mutate_into mutate_message_valid
proof
  show "decode_frontier_mutate_into bs \<noteq> Panic" for bs
    using check_handles_distinct_not_Panic [of bs 12] handle_record.records_total [of 12 _ bs]
    by (auto simp: decode_frontier_mutate_into_def)
  show "\<exists>bs. frontier_mutate_encode (mutate_request_of m) = Ok bs" if "mutate_message_valid m" for m
    using that
    by (cases m) (auto simp: mutate_message_valid_def mutate_request_of_def frontier_mutate_encode_def Let_def)
  show "decode_frontier_mutate_into bs = Ok m"
    if valid: "mutate_message_valid m" and enc: "frontier_mutate_encode (mutate_request_of m) = Ok bs" for bs m
  proof -
    obtain hdr hs where m: "m = (hdr, hs)" by (cases m)
    let ?c = "word_of_nat (length hs) :: u32"
    have ok: "frontier_handles_ok hs" and c: "fmh_count hdr = ?c"
      using valid by (auto simp: mutate_message_valid_def m)
    note n = frontier_count [OF ok]
    have bs: "bs = to_le_bytes (fmh_epoch hdr) @ to_le_bytes ?c @ concat (map handle_encode hs)"
      using enc ok by (simp add: mutate_request_of_def m frontier_mutate_encode_def Let_def)
    have len: "length bs = 12 + length hs * 8" and body: "drop 12 bs = concat (map handle_encode hs)"
      by (simp_all add: bs)
    have fields: "field 0 8 bs = to_le_bytes (fmh_epoch hdr)" "field 8 4 bs = to_le_bytes ?c"
      by (simp_all add: bs field_def)
    show ?thesis
      using handles_checks [OF len body refl] ok n c
      by (simp add: decode_frontier_mutate_into_def len fields frontier_handles_ok_def m)
  qed
  show "mutate_message_valid m \<and> frontier_mutate_encode (mutate_request_of m) = Ok bs"
    if dec: "decode_frontier_mutate_into bs = Ok m" for bs m
  proof -
    let ?n = "unat (from_le_bytes (field 8 4 bs) :: u32)"
    obtain hdr hs where m: "m = (hdr, hs)" by (cases m)
    have ge: "12 \<le> length bs"
      using dec by (auto simp: decode_frontier_mutate_into_def)
    have len: "length bs = 12 + ?n * 8" and nz: "?n \<noteq> 0" and le: "?n \<le> max_frontier_append_handles"
      and recs: "rmap (\<lambda>i. handle_slice bs (12 + i * 8)) [0..<?n] = Ok hs"
      and chk: "check_handles_distinct 12 bs ?n = Ok ()"
      and hdr: "hdr = \<lparr>fmh_epoch = from_le_bytes (field 0 8 bs), fmh_count = from_le_bytes (field 8 4 bs)\<rparr>"
      using dec ge by (auto simp: decode_frontier_mutate_into_def m unat_eq_zero)
    have hs: "length hs = ?n" "drop 12 bs = concat (map handle_encode hs)"
      using recs handles_at [OF len] by simp_all
    have ok: "frontier_handles_ok hs"
      using check_handles_distinct_Ok_iff [OF len recs] chk nz le hs(1)
      by (auto simp: frontier_handles_ok_def)
    have bs: "field 0 12 bs @ drop 12 bs = bs" by (simp add: field_def)
    show ?thesis
      using ok hs ge bs
      by (simp add: m mutate_message_valid_def mutate_request_of_def hdr frontier_mutate_encode_def Let_def
          field_join_append)
  qed
qed

section \<open>Properties\<close>

text \<open>
  A frontier append request is accepted exactly when its bytes are what the encoder produces
  for some epoch, offset and handle list of 1 to 512 pairwise distinct handles; the decoder
  returns exactly these and never panics.
\<close>

theorem frontier_append_exact:
  "decode_frontier_append_into input \<noteq> Panic \<and>
   (decode_frontier_append_into input = Ok (\<lparr>fah_epoch = epoch, fah_offset = pos, fah_count = count\<rparr>, hs) \<longleftrightarrow>
      frontier_append_encode \<lparr>fa_epoch = epoch, fa_offset = pos, fa_handles = hs\<rparr> = Ok input \<and>
      frontier_handles_ok hs \<and> count = word_of_nat (length hs))"
  using frontier_append.dec_total [of input]
    frontier_append.dec_Ok_iff [of input "(\<lparr>fah_epoch = epoch, fah_offset = pos, fah_count = count\<rparr>, hs)"]
  by (auto simp: append_message_valid_def append_request_of_def)

text \<open>
  The same for the incremental add and remove requests, and for the fixed-size begin, commit
  and acknowledgement messages: each accepts exactly its own encodings and never panics.
\<close>

theorem frontier_messages_exact:
  "decode_frontier_mutate_into input \<noteq> Panic \<and>
   (decode_frontier_mutate_into input = Ok (\<lparr>fmh_epoch = epoch, fmh_count = count\<rparr>, hs) \<longleftrightarrow>
      frontier_mutate_encode \<lparr>fm_epoch = epoch, fm_handles = hs\<rparr> = Ok input \<and>
      frontier_handles_ok hs \<and> count = word_of_nat (length hs)) \<and>
   frontier_begin_request_decode input \<noteq> Panic \<and>
   (frontier_begin_request_decode input = Ok b \<longleftrightarrow> input = frontier_begin_request_encode b) \<and>
   frontier_commit_response_decode input \<noteq> Panic \<and>
   (frontier_commit_response_decode input = Ok r \<longleftrightarrow> input = frontier_commit_response_encode r) \<and>
   (epoch_decode input = Ok e \<longleftrightarrow> input = epoch_encode e) \<and>
   (count_decode input = Ok n \<longleftrightarrow> input = count_encode n)"
  using frontier_mutate.dec_total [of input]
    frontier_mutate.dec_Ok_iff [of input "(\<lparr>fmh_epoch = epoch, fmh_count = count\<rparr>, hs)"]
    frontier_begin.dec_total [of input] frontier_begin.dec_Ok_iff [of input b]
    frontier_commit_response.dec_total [of input] frontier_commit_response.dec_Ok_iff [of input r]
    epoch.dec_Ok_iff [of input e] count.dec_Ok_iff [of input n]
  by (auto simp: mutate_message_valid_def mutate_request_of_def)

end
