(* ===== verification/Wire_Callback.thy ===== *)
theory Wire_Callback
  imports Wire_Records
begin

text \<open>
  Callback events and their batches (\<^verbatim>\<open>crates/dogmos-protocol/src/lib.rs\<close>) and the continuation
  token (\<^verbatim>\<open>continuation_wire.rs\<close>) that an event of kind \<open>RunDmReaction\<close> carries.
\<close>

section \<open>Continuation tokens\<close>

record continuation_token =
  ct_world_generation :: u32
  ct_id :: u64
  ct_deadline_ticks :: u64

definition token_encode :: "continuation_token \<Rightarrow> (bytes, payload_error) result" where
  "token_encode t =
     rbind (reject_if (ct_id t = 0) InvalidContinuationId) (\<lambda>_.
     rbind (reject_if (ct_deadline_ticks t = 0) InvalidContinuationDeadline) (\<lambda>_.
     Ok (put 16 (to_le_bytes (ct_deadline_ticks t))
        (put 8 (to_le_bytes (ct_id t))
        (put 0 (to_le_bytes (ct_world_generation t)) (zeros 24))))))"

definition token_decode :: "bytes \<Rightarrow> (continuation_token, payload_error) result" where
  "token_decode input =
     rbind (require_exact_len input 24) (\<lambda>_.
     rbind (read_u32 input 4) (\<lambda>reserved.
     rbind (reject_if (reserved \<noteq> 0) (ReservedContinuationField reserved)) (\<lambda>_.
     rbind (read_u32 input 0) (\<lambda>world_generation.
     rbind (read_u64 input 8) (\<lambda>id.
     rbind (read_u64 input 16) (\<lambda>deadline_ticks.
     let token = \<lparr>ct_world_generation = world_generation, ct_id = id, ct_deadline_ticks = deadline_ticks\<rparr>
     in rbind (token_encode token) (\<lambda>_. Ok token)))))))"

definition token_valid :: "continuation_token \<Rightarrow> bool" where
  "token_valid t \<longleftrightarrow> ct_id t \<noteq> 0 \<and> ct_deadline_ticks t \<noteq> 0"

lemma token_encode_Ok_iff:
  "token_encode t = Ok bs \<longleftrightarrow> token_valid t \<and>
     bs = to_le_bytes (ct_world_generation t) @ zeros 4 @ to_le_bytes (ct_id t) @
          to_le_bytes (ct_deadline_ticks t)"
  by (auto simp: token_encode_def token_valid_def put_simps)

lemma token_encode_not_Panic [simp]: "token_encode t \<noteq> Panic"
  by (simp add: token_encode_def)

lemma token_encode_length: "token_encode t = Ok bs \<Longrightarrow> length bs = 24"
  by (simp add: token_encode_Ok_iff)

interpretation token: codec token_encode token_decode token_valid
proof
  show "token_decode bs \<noteq> Panic" for bs
    by (auto simp: token_decode_def Let_def)
  show "\<exists>bs. token_encode t = Ok bs" if "token_valid t" for t
    using that by (simp add: token_encode_Ok_iff)
  show "token_decode bs = Ok t" if "token_valid t" and "token_encode t = Ok bs" for bs t
    using that by (auto simp: token_decode_def token_encode_def token_valid_def Let_def)
  show "token_valid t \<and> token_encode t = Ok bs" if "token_decode bs = Ok t" for bs t
    using that
    by (auto simp: token_decode_def token_encode_Ok_iff Let_def reserved_simps join_simps)
qed

section \<open>Enums of the callback messages\<close>

datatype callback_event_kind =
    CkDiagnostic | CkReactionFinished | CkPressureDifference | CkDecompressionFloorRip
  | CkFirelockConsideration | CkTurfDestructionRequest | CkRunDmReaction | CkReactionProfiled

primrec callback_event_kind_value :: "callback_event_kind \<Rightarrow> u16" where
  "callback_event_kind_value CkDiagnostic = 1"
| "callback_event_kind_value CkReactionFinished = 2"
| "callback_event_kind_value CkPressureDifference = 3"
| "callback_event_kind_value CkDecompressionFloorRip = 4"
| "callback_event_kind_value CkFirelockConsideration = 5"
| "callback_event_kind_value CkTurfDestructionRequest = 6"
| "callback_event_kind_value CkRunDmReaction = 7"
| "callback_event_kind_value CkReactionProfiled = 8"

definition callback_event_kind_arms :: "(u16 \<times> callback_event_kind) list" where
  "callback_event_kind_arms =
     [(1, CkDiagnostic), (2, CkReactionFinished), (3, CkPressureDifference),
      (4, CkDecompressionFloorRip), (5, CkFirelockConsideration), (6, CkTurfDestructionRequest),
      (7, CkRunDmReaction), (8, CkReactionProfiled)]"

definition callback_event_kind_try_from :: "u16 \<Rightarrow> (callback_event_kind, payload_error) result" where
  "callback_event_kind_try_from v = match_arms callback_event_kind_arms v (UnknownCallbackEventKind v)"

datatype callback_scope = ScopeGeneral | ScopeReaction

primrec callback_scope_value :: "callback_scope \<Rightarrow> u16" where
  "callback_scope_value ScopeGeneral = 1"
| "callback_scope_value ScopeReaction = 2"

definition callback_scope_arms :: "(u16 \<times> callback_scope) list" where
  "callback_scope_arms = [(1, ScopeGeneral), (2, ScopeReaction)]"

definition callback_scope_try_from :: "u16 \<Rightarrow> (callback_scope, payload_error) result" where
  "callback_scope_try_from v = match_arms callback_scope_arms v (UnknownCallbackScope v)"

datatype reaction_kind = RkPlasma | RkHydrogen | RkTritium | RkFreon

primrec reaction_kind_value :: "reaction_kind \<Rightarrow> u32" where
  "reaction_kind_value RkPlasma = 1"
| "reaction_kind_value RkHydrogen = 2"
| "reaction_kind_value RkTritium = 3"
| "reaction_kind_value RkFreon = 4"

definition reaction_kind_arms :: "(u32 \<times> reaction_kind) list" where
  "reaction_kind_arms = [(1, RkPlasma), (2, RkHydrogen), (3, RkTritium), (4, RkFreon)]"

definition reaction_kind_try_from :: "u32 \<Rightarrow> (reaction_kind, payload_error) result" where
  "reaction_kind_try_from v = match_arms reaction_kind_arms v
     (UnknownCallbackAux (callback_event_kind_value CkReactionFinished) v)"

datatype turf_destruction_reason = SuperconductiveHeat

primrec turf_destruction_reason_value :: "turf_destruction_reason \<Rightarrow> u32" where
  "turf_destruction_reason_value SuperconductiveHeat = 1"

definition turf_destruction_reason_arms :: "(u32 \<times> turf_destruction_reason) list" where
  "turf_destruction_reason_arms = [(1, SuperconductiveHeat)]"

definition turf_destruction_reason_try_from :: "u32 \<Rightarrow> (turf_destruction_reason, payload_error) result" where
  "turf_destruction_reason_try_from v = match_arms turf_destruction_reason_arms v
     (UnknownCallbackAux (callback_event_kind_value CkTurfDestructionRequest) v)"

interpretation callback_event_kind: int_enum callback_event_kind_value callback_event_kind_arms
proof
  show "map_of callback_event_kind_arms (callback_event_kind_value k) = Some k" for k
    by (cases k) (simp_all add: callback_event_kind_arms_def)
qed (simp add: callback_event_kind_arms_def)

interpretation callback_scope: int_enum callback_scope_value callback_scope_arms
proof
  show "map_of callback_scope_arms (callback_scope_value k) = Some k" for k
    by (cases k) (simp_all add: callback_scope_arms_def)
qed (simp add: callback_scope_arms_def)

interpretation reaction_kind: int_enum reaction_kind_value reaction_kind_arms
proof
  show "map_of reaction_kind_arms (reaction_kind_value k) = Some k" for k
    by (cases k) (simp_all add: reaction_kind_arms_def)
qed (simp add: reaction_kind_arms_def)

interpretation turf_destruction_reason: int_enum turf_destruction_reason_value turf_destruction_reason_arms
proof
  show "map_of turf_destruction_reason_arms (turf_destruction_reason_value k) = Some k" for k
    by (cases k) (simp_all add: turf_destruction_reason_arms_def)
qed (simp add: turf_destruction_reason_arms_def)

section \<open>Events\<close>

record callback_event =
  ce_scope_sequence :: u64
  ce_transaction_id :: u64
  ce_scope :: callback_scope
  ce_kind :: callback_event_kind
  ce_flags :: u16
  ce_subject :: wire_handle
  ce_target :: wire_handle
  ce_values :: "scalar_value list"
  ce_aux :: u32
  ce_continuation :: "continuation_token option"

definition validate_callback_transaction :: "callback_scope \<Rightarrow> u64 \<Rightarrow> (unit, payload_error) result" where
  "validate_callback_transaction scope transaction_id =
     (let valid = (case scope of ScopeGeneral \<Rightarrow> transaction_id = 0 | ScopeReaction \<Rightarrow> transaction_id \<noteq> 0)
      in reject_if (\<not> valid) (InvalidCallbackTransaction (callback_scope_value scope) transaction_id))"

definition validate_callback_aux :: "callback_event_kind \<Rightarrow> u32 \<Rightarrow> (unit, payload_error) result" where
  "validate_callback_aux kind aux =
     (case kind of
        CkReactionFinished \<Rightarrow> rbind (reaction_kind_try_from aux) (\<lambda>_. Ok ())
      | CkTurfDestructionRequest \<Rightarrow> rbind (turf_destruction_reason_try_from aux) (\<lambda>_. Ok ())
      | CkRunDmReaction \<Rightarrow> Ok ()
      | CkReactionProfiled \<Rightarrow> Ok ()
      | _ \<Rightarrow> reject_if (aux \<noteq> 0) (UnknownCallbackAux (callback_event_kind_value kind) aux))"

definition validate_continuation_presence ::
  "callback_event_kind \<Rightarrow> bool \<Rightarrow> (unit, payload_error) result" where
  "validate_continuation_presence kind present =
     (if kind = CkRunDmReaction then reject_if (\<not> present) MissingContinuationToken
      else reject_if present UnexpectedContinuationToken)"

definition callback_event_encode :: "callback_event \<Rightarrow> (bytes, payload_error) result" where
  "callback_event_encode e =
     rbind (validate_callback_transaction (ce_scope e) (ce_transaction_id e)) (\<lambda>_.
     rbind (reject_if (ce_flags e \<noteq> 0) (UnknownCallbackFlags (ce_flags e))) (\<lambda>_.
     rbind (validate_callback_aux (ce_kind e) (ce_aux e)) (\<lambda>_.
     rbind (validate_continuation_presence (ce_kind e) (ce_continuation e \<noteq> None)) (\<lambda>_.
     rbind (rmap scalar_encode (ce_values e)) (\<lambda>scalars.
     rbind (case ce_continuation e of None \<Rightarrow> Ok [] | Some token \<Rightarrow> token_encode token) (\<lambda>token.
     Ok (put 80 token
        (put 72 (to_le_bytes (ce_aux e))
        (put_each 40 8 scalars
        (put 32 (handle_encode (ce_target e))
        (put 24 (handle_encode (ce_subject e))
        (put 20 (to_le_bytes (ce_flags e))
        (put 18 (to_le_bytes (callback_event_kind_value (ce_kind e)))
        (put 16 (to_le_bytes (callback_scope_value (ce_scope e)))
        (put 8 (to_le_bytes (ce_transaction_id e))
        (put 0 (to_le_bytes (ce_scope_sequence e)) (zeros 104)))))))))))))))))"

definition callback_event_decode :: "bytes \<Rightarrow> (callback_event, payload_error) result" where
  "callback_event_decode input =
     rbind (require_exact_len input 104) (\<lambda>_.
     rbind (read_u16 input 16) (\<lambda>scope.
     rbind (callback_scope_try_from scope) (\<lambda>scope.
     rbind (read_u64 input 8) (\<lambda>transaction_id.
     rbind (validate_callback_transaction scope transaction_id) (\<lambda>_.
     rbind (read_u16 input 20) (\<lambda>flags.
     rbind (reject_if (flags \<noteq> 0) (UnknownCallbackFlags flags)) (\<lambda>_.
     rbind (read_u16 input 22) (\<lambda>reserved_short.
     rbind (reject_if (reserved_short \<noteq> 0) (ReservedCallbackEventField (ucast reserved_short))) (\<lambda>_.
     rbind (read_u32 input 76) (\<lambda>reserved.
     rbind (reject_if (reserved \<noteq> 0) (ReservedCallbackEventField reserved)) (\<lambda>_.
     rbind (read_u16 input 18) (\<lambda>kind.
     rbind (callback_event_kind_try_from kind) (\<lambda>kind.
     rbind (read_u32 input 72) (\<lambda>aux.
     rbind (validate_callback_aux kind aux) (\<lambda>_.
     rbind (slice 80 104 input) (\<lambda>token_bytes.
     let continuation_present = list_ex (\<lambda>byte. byte \<noteq> 0) token_bytes in
     rbind (validate_continuation_presence kind continuation_present) (\<lambda>_.
     rbind (if continuation_present
            then rbind (token_decode token_bytes) (\<lambda>token. Ok (Some token)) else Ok None) (\<lambda>continuation.
     rbind (read_u64 input 0) (\<lambda>scope_sequence.
     rbind (handle_slice input 24) (\<lambda>subject.
     rbind (handle_slice input 32) (\<lambda>target.
     rbind (rmap (\<lambda>i. scalar_slice input (40 + i * 8)) [0..<4]) (\<lambda>values.
     Ok \<lparr>ce_scope_sequence = scope_sequence, ce_transaction_id = transaction_id, ce_scope = scope,
         ce_kind = kind, ce_flags = flags, ce_subject = subject, ce_target = target,
         ce_values = values, ce_aux = aux, ce_continuation = continuation\<rparr>))))))))))))))))))))))"

definition callback_event_valid :: "callback_event \<Rightarrow> bool" where
  "callback_event_valid e \<longleftrightarrow>
     validate_callback_transaction (ce_scope e) (ce_transaction_id e) = Ok () \<and> ce_flags e = 0 \<and>
     validate_callback_aux (ce_kind e) (ce_aux e) = Ok () \<and>
     (ce_continuation e \<noteq> None \<longleftrightarrow> ce_kind e = CkRunDmReaction) \<and>
     pred_option token_valid (ce_continuation e) \<and>
     length (ce_values e) = 4 \<and> list_all is_finite (ce_values e)"

lemma validate_callback_transaction_not_Panic [simp]: "validate_callback_transaction s t \<noteq> Panic"
  by (simp add: validate_callback_transaction_def Let_def)

lemma validate_callback_aux_not_Panic [simp]: "validate_callback_aux kind aux \<noteq> Panic"
  by (cases kind) (simp_all add: validate_callback_aux_def reaction_kind_try_from_def
      turf_destruction_reason_try_from_def)

lemma validate_callback_aux_run [simp]: "validate_callback_aux CkRunDmReaction aux = Ok ()"
  by (simp add: validate_callback_aux_def)

lemma validate_continuation_presence_simps [simp]:
  "validate_continuation_presence kind present = Ok () \<longleftrightarrow> (present \<longleftrightarrow> kind = CkRunDmReaction)"
  "validate_continuation_presence kind present \<noteq> Panic"
  by (auto simp: validate_continuation_presence_def)

lemma callback_try_from_simps [simp]:
  "callback_scope_try_from v = Ok s \<longleftrightarrow> v = callback_scope_value s"
  "callback_scope_try_from v \<noteq> Panic"
  "callback_event_kind_try_from w = Ok k \<longleftrightarrow> w = callback_event_kind_value k"
  "callback_event_kind_try_from w \<noteq> Panic"
  by (auto simp: callback_scope_try_from_def callback_event_kind_try_from_def
      callback_scope.match_Ok_iff callback_event_kind.match_Ok_iff)

text \<open>The bytes of the optional token.\<close>

definition token_bytes :: "continuation_token option \<Rightarrow> bytes" where
  "token_bytes c = (case c of None \<Rightarrow> zeros 24
     | Some t \<Rightarrow> to_le_bytes (ct_world_generation t) @ zeros 4 @ to_le_bytes (ct_id t) @
         to_le_bytes (ct_deadline_ticks t))"

lemma length_token_bytes [simp]: "length (token_bytes c) = 24"
  by (simp add: token_bytes_def split: option.split)

lemma callback_event_layout:
  assumes "length vs = 4"
  shows "put 72 (to_le_bytes (aux :: u32))
        (put 40 (concat (map to_le_bytes (vs :: scalar_value list)))
        (put 32 (handle_encode target)
        (put 24 (handle_encode subject)
        (put 20 (to_le_bytes (flags :: u16))
        (put 18 (to_le_bytes (kind :: u16))
        (put 16 (to_le_bytes (scope :: u16))
        (put 8 (to_le_bytes (transaction_id :: u64))
        (put 0 (to_le_bytes (sequence :: u64)) (zeros 104))))))))) =
    buf (to_le_bytes sequence @ to_le_bytes transaction_id @ to_le_bytes scope @ to_le_bytes kind @
      to_le_bytes flags @ zeros 2 @ handle_encode subject @ handle_encode target @
      concat (map to_le_bytes vs) @ to_le_bytes aux) 28"
  using assms by (simp add: put_simps)

lemma zeros_add: "zeros (m + n) = zeros m @ zeros n"
  by (simp add: zeros_def replicate_add)

lemma callback_event_encode_valid:
  assumes valid: "callback_event_valid e"
  shows "callback_event_encode e = Ok
    (to_le_bytes (ce_scope_sequence e) @ to_le_bytes (ce_transaction_id e) @
     to_le_bytes (callback_scope_value (ce_scope e)) @
     to_le_bytes (callback_event_kind_value (ce_kind e)) @ to_le_bytes (ce_flags e) @ zeros 2 @
     handle_encode (ce_subject e) @ handle_encode (ce_target e) @
     concat (map to_le_bytes (ce_values e)) @ to_le_bytes (ce_aux e) @ zeros 4 @
     token_bytes (ce_continuation e))"
proof -
  have vs: "length (ce_values e) = 4" "list_all is_finite (ce_values e)"
    using valid by (auto simp: callback_event_valid_def)
  show ?thesis
  proof (cases "ce_continuation e")
    case None
    with valid vs show ?thesis
      using zeros_add [of 4 24]
      by (simp add: callback_event_encode_def callback_event_valid_def callback_event_layout token_bytes_def
          buf_def)
  next
    case (Some t)
    then obtain tok where tok: "token_encode t = Ok tok" "tok = token_bytes (Some t)"
      using valid by (auto simp: callback_event_valid_def token_encode_Ok_iff token_bytes_def)
    with Some valid vs show ?thesis
      by (simp add: callback_event_encode_def callback_event_valid_def callback_event_layout put_buf buf_0)
  qed
qed

text \<open>Any non-zero byte in the token's place is a token, and a valid token has one.\<close>

lemma list_ex_nonzero_iff: "list_ex (\<lambda>b. b \<noteq> 0) bs \<longleftrightarrow> bs \<noteq> zeros (length bs)" for bs :: bytes
  by (induction bs) (auto simp: zeros_def)

lemma token_bytes_nonzero: "token_valid t \<Longrightarrow> token_bytes (Some t) \<noteq> zeros 24"
proof
  assume t: "token_valid t" and "token_bytes (Some t) = zeros 24"
  then have "field 8 8 (token_bytes (Some t)) = zeros 8" by simp
  moreover have "field 8 8 (token_bytes (Some t)) = to_le_bytes (ct_id t)"
    by (simp add: token_bytes_def field_def)
  ultimately have "from_le_bytes (to_le_bytes (ct_id t)) = (0 :: u64)" by simp
  with t show False by (simp add: token_valid_def)
qed

lemma token_decode_bytes: "token_valid t \<Longrightarrow> token_decode (token_bytes (Some t)) = Ok t"
  by (rule token.dec_enc) (simp_all add: token_encode_Ok_iff token_bytes_def)

lemma callback_event_fields:
  assumes "callback_event_valid e" and "callback_event_encode e = Ok bs"
  shows "length bs = 104" "field 0 8 bs = to_le_bytes (ce_scope_sequence e)"
    "field 8 8 bs = to_le_bytes (ce_transaction_id e)"
    "field 16 2 bs = to_le_bytes (callback_scope_value (ce_scope e))"
    "field 18 2 bs = to_le_bytes (callback_event_kind_value (ce_kind e))"
    "field 20 2 bs = to_le_bytes (ce_flags e)" "field 22 2 bs = zeros 2"
    "field 24 8 bs = handle_encode (ce_subject e)" "field 32 8 bs = handle_encode (ce_target e)"
    "field 40 32 bs = concat (map to_le_bytes (ce_values e))" "field 72 4 bs = to_le_bytes (ce_aux e)"
    "field 76 4 bs = zeros 4" "field 80 24 bs = token_bytes (ce_continuation e)"
proof -
  have "length (ce_values e) = 4" using assms(1) by (simp add: callback_event_valid_def)
  then show "length bs = 104" "field 0 8 bs = to_le_bytes (ce_scope_sequence e)"
    "field 8 8 bs = to_le_bytes (ce_transaction_id e)"
    "field 16 2 bs = to_le_bytes (callback_scope_value (ce_scope e))"
    "field 18 2 bs = to_le_bytes (callback_event_kind_value (ce_kind e))"
    "field 20 2 bs = to_le_bytes (ce_flags e)" "field 22 2 bs = zeros 2"
    "field 24 8 bs = handle_encode (ce_subject e)" "field 32 8 bs = handle_encode (ce_target e)"
    "field 40 32 bs = concat (map to_le_bytes (ce_values e))" "field 72 4 bs = to_le_bytes (ce_aux e)"
    "field 76 4 bs = zeros 4" "field 80 24 bs = token_bytes (ce_continuation e)"
    using assms(2) callback_event_encode_valid [OF assms(1)] by (auto simp: field_def)
qed

lemma callback_event_decode_encode:
  assumes valid: "callback_event_valid e" and enc: "callback_event_encode e = Ok bs"
  shows "callback_event_decode bs = Ok e"
proof -
  note fields = callback_event_fields [OF assms]
  have vals: "rmap (\<lambda>i. scalar_slice bs (40 + i * 8)) [0..<4] = Ok (ce_values e)"
    using valid fields by (simp add: scalars_at callback_event_valid_def)
  have scope: "callback_scope_try_from (callback_scope_value s) = Ok s"
    and kind: "callback_event_kind_try_from (callback_event_kind_value k) = Ok k" for s k
    by simp_all
  show ?thesis
  proof (cases "ce_continuation e")
    case None
    then show ?thesis
      using valid vals
      by (simp add: callback_event_decode_def fields scope kind callback_event_valid_def
          list_ex_nonzero_iff token_bytes_def Let_def)
  next
    case (Some t)
    then have "token_valid t" using valid by (simp add: callback_event_valid_def)
    with Some show ?thesis
      using valid vals token_bytes_nonzero token_decode_bytes
      by (simp add: callback_event_decode_def fields scope kind callback_event_valid_def
          list_ex_nonzero_iff Let_def)
  qed
qed

text \<open>The optional token as the decoder reads it from the last 24 bytes.\<close>

definition decode_optional_token :: "bytes \<Rightarrow> (continuation_token option, payload_error) result" where
  "decode_optional_token bs =
     (if list_ex (\<lambda>byte. byte \<noteq> 0) bs
      then rbind (token_decode bs) (\<lambda>token. Ok (Some token)) else Ok None)"

lemma decode_optional_token_Ok:
  assumes "length bs = 24" and "decode_optional_token bs = Ok c"
  shows "pred_option token_valid c" and "token_bytes c = bs"
    and "c \<noteq> None \<longleftrightarrow> list_ex (\<lambda>byte. byte \<noteq> 0) bs"
proof -
  have "pred_option token_valid c \<and> token_bytes c = bs \<and> (c \<noteq> None \<longleftrightarrow> list_ex (\<lambda>byte. byte \<noteq> 0) bs)"
  proof (cases "list_ex (\<lambda>byte. byte \<noteq> 0) bs")
    case True
    with assms(2) obtain t where t: "token_decode bs = Ok t" "c = Some t"
      by (auto simp: decode_optional_token_def)
    then have "token_valid t" and "token_encode t = Ok bs"
      using token.enc_dec by blast+
    with True t show ?thesis by (auto simp: token_encode_Ok_iff token_bytes_def)
  next
    case False
    then have "bs = zeros 24" using assms(1) by (simp add: list_ex_nonzero_iff)
    with False assms(2) show ?thesis by (simp add: decode_optional_token_def token_bytes_def)
  qed
  then show "pred_option token_valid c" and "token_bytes c = bs"
    and "c \<noteq> None \<longleftrightarrow> list_ex (\<lambda>byte. byte \<noteq> 0) bs" by blast+
qed

lemma callback_event_encode_decode:
  assumes dec: "callback_event_decode bs = Ok e"
  shows "callback_event_valid e \<and> callback_event_encode e = Ok bs"
proof -
  have len: "length bs = 104" using dec by (auto simp: callback_event_decode_def)
  have vals: "rmap (\<lambda>i. scalar_slice bs (40 + i * 8)) [0..<4] = Ok (ce_values e)"
    and token: "decode_optional_token (field 80 24 bs) = Ok (ce_continuation e)"
    and scope: "from_le_bytes (field 16 2 bs) = callback_scope_value (ce_scope e)"
    and kind: "from_le_bytes (field 18 2 bs) = callback_event_kind_value (ce_kind e)"
    and flags: "ce_flags e = 0" "from_le_bytes (field 20 2 bs) = (0 :: u16)"
    and res: "from_le_bytes (field 22 2 bs) = (0 :: u16)" "from_le_bytes (field 76 4 bs) = (0 :: u32)"
    and rest: "ce_scope_sequence e = from_le_bytes (field 0 8 bs)"
      "ce_transaction_id e = from_le_bytes (field 8 8 bs)" "ce_aux e = from_le_bytes (field 72 4 bs)"
      "ce_subject e = handle_at (field 24 8 bs)" "ce_target e = handle_at (field 32 8 bs)"
    and checks: "validate_callback_transaction (ce_scope e) (ce_transaction_id e) = Ok ()"
      "validate_callback_aux (ce_kind e) (ce_aux e) = Ok ()"
      "list_ex (\<lambda>byte. byte \<noteq> 0) (field 80 24 bs) \<longleftrightarrow> ce_kind e = CkRunDmReaction"
    using dec len by (auto simp: callback_event_decode_def decode_optional_token_def Let_def)
  have fields: "to_le_bytes (callback_scope_value (ce_scope e)) = field 16 2 bs"
    "to_le_bytes (callback_event_kind_value (ce_kind e)) = field 18 2 bs"
    "to_le_bytes (0 :: u16) = field 20 2 bs" "zeros 2 = field 22 2 bs" "zeros 4 = field 76 4 bs"
    using scope kind flags(2) res len by (auto intro!: to_le_eqI_u16 simp: reserved_simps)
  have vs: "length (ce_values e) = 4" "list_all is_finite (ce_values e)"
    "concat (map to_le_bytes (ce_values e)) = field 40 32 bs"
    using vals len by (simp_all add: scalars_at)
  have tok: "pred_option token_valid (ce_continuation e)" "token_bytes (ce_continuation e) = field 80 24 bs"
    "ce_continuation e \<noteq> None \<longleftrightarrow> list_ex (\<lambda>byte. byte \<noteq> 0) (field 80 24 bs)"
    using decode_optional_token_Ok [OF _ token] len by simp_all
  have valid: "callback_event_valid e"
    using checks vs tok flags unfolding callback_event_valid_def by blast
  moreover have "callback_event_encode e = Ok bs"
    unfolding callback_event_encode_valid [OF valid] flags(1) fields(4,5) fields vs tok rest
    using len by (simp add: join_simps)
  ultimately show ?thesis by simp
qed

interpretation callback_event: codec callback_event_encode callback_event_decode callback_event_valid
proof
  show "callback_event_decode bs \<noteq> Panic" for bs
    using scalar_record.records_total [of 40 4 bs] token.dec_total
    by (auto simp: callback_event_decode_def Let_def)
  show "\<exists>bs. callback_event_encode e = Ok bs" if "callback_event_valid e" for e
    by (simp add: callback_event_encode_valid [OF that])
qed (rule callback_event_decode_encode callback_event_encode_decode; assumption)+

section \<open>Batch requests and headers\<close>

record callback_batch_request =
  cb_max_events :: u32
  cb_scope :: callback_scope
  cb_transaction_id :: u64

definition callback_batch_request_encode :: "callback_batch_request \<Rightarrow> (bytes, payload_error) result" where
  "callback_batch_request_encode r =
     rbind (validate_callback_transaction (cb_scope r) (cb_transaction_id r)) (\<lambda>_.
     Ok (put 8 (to_le_bytes (cb_transaction_id r))
        (put 4 (to_le_bytes (callback_scope_value (cb_scope r)))
        (put 0 (to_le_bytes (cb_max_events r)) (zeros 16)))))"

definition callback_batch_request_decode :: "bytes \<Rightarrow> (callback_batch_request, payload_error) result" where
  "callback_batch_request_decode input =
     rbind (require_exact_len input 16) (\<lambda>_.
     rbind (read_u16 input 6) (\<lambda>reserved.
     rbind (reject_if (reserved \<noteq> 0) (ReservedCallbackBatchField reserved)) (\<lambda>_.
     rbind (read_u32 input 0) (\<lambda>max_events.
     rbind (read_u16 input 4) (\<lambda>scope.
     rbind (callback_scope_try_from scope) (\<lambda>scope.
     rbind (read_u64 input 8) (\<lambda>transaction_id.
     rbind (validate_callback_transaction scope transaction_id) (\<lambda>_.
     Ok \<lparr>cb_max_events = max_events, cb_scope = scope, cb_transaction_id = transaction_id\<rparr>))))))))"

definition callback_batch_request_valid :: "callback_batch_request \<Rightarrow> bool" where
  "callback_batch_request_valid r \<longleftrightarrow>
     validate_callback_transaction (cb_scope r) (cb_transaction_id r) = Ok ()"

record callback_batch_header =
  bh_returned :: u32
  bh_remaining :: u32
  bh_capacity :: u32
  bh_high_water :: u32
  bh_rejected :: u64

definition callback_batch_header_encode :: "callback_batch_header \<Rightarrow> bytes" where
  "callback_batch_header_encode h =
     put 16 (to_le_bytes (bh_rejected h))
     (put 12 (to_le_bytes (bh_high_water h))
     (put 8 (to_le_bytes (bh_capacity h))
     (put 4 (to_le_bytes (bh_remaining h))
     (put 0 (to_le_bytes (bh_returned h)) (zeros 24)))))"

definition callback_batch_header_decode :: "bytes \<Rightarrow> (callback_batch_header, payload_error) result" where
  "callback_batch_header_decode input =
     rbind (require_exact_len input 24) (\<lambda>_.
     rbind (read_u32 input 0) (\<lambda>returned.
     rbind (read_u32 input 4) (\<lambda>remaining.
     rbind (read_u32 input 8) (\<lambda>capacity.
     rbind (read_u32 input 12) (\<lambda>high_water.
     rbind (read_u64 input 16) (\<lambda>rejected.
     Ok \<lparr>bh_returned = returned, bh_remaining = remaining, bh_capacity = capacity,
         bh_high_water = high_water, bh_rejected = rejected\<rparr>))))))"

lemma callback_batch_request_encode_valid:
  "callback_batch_request_valid r \<Longrightarrow> callback_batch_request_encode r = Ok
     (to_le_bytes (cb_max_events r) @ to_le_bytes (callback_scope_value (cb_scope r)) @ zeros 2 @
      to_le_bytes (cb_transaction_id r))"
  by (simp add: callback_batch_request_encode_def callback_batch_request_valid_def put_simps)

interpretation callback_batch_request:
  codec callback_batch_request_encode callback_batch_request_decode callback_batch_request_valid
proof
  show "callback_batch_request_decode bs \<noteq> Panic" for bs
    by (auto simp: callback_batch_request_decode_def)
  show "callback_batch_request_decode bs = Ok m"
    if "callback_batch_request_valid m" and "callback_batch_request_encode m = Ok bs" for bs m
    using that
    by (auto simp: callback_batch_request_decode_def callback_batch_request_encode_def
        callback_batch_request_valid_def callback_scope.discriminant_inject)
  show "callback_batch_request_valid m \<and> callback_batch_request_encode m = Ok bs"
    if dec: "callback_batch_request_decode bs = Ok m" for bs m
  proof -
    have valid: "callback_batch_request_valid m" and len: "length bs = 16"
      using dec by (auto simp: callback_batch_request_decode_def callback_batch_request_valid_def)
    have "to_le_bytes (callback_scope_value (cb_scope m)) = field 4 2 bs"
      and "zeros 2 = field 6 2 bs"
      using dec len by (auto simp: callback_batch_request_decode_def reserved_simps intro!: to_le_eqI_u16)
    then show ?thesis
      using dec len valid
      by (auto simp: callback_batch_request_encode_valid callback_batch_request_decode_def join_simps)
  qed
qed (simp add: callback_batch_request_encode_valid)

lemma callback_batch_header_append:
  "callback_batch_header_encode h = to_le_bytes (bh_returned h) @ to_le_bytes (bh_remaining h) @
     to_le_bytes (bh_capacity h) @ to_le_bytes (bh_high_water h) @ to_le_bytes (bh_rejected h)"
  by (simp add: callback_batch_header_encode_def put_simps)

interpretation callback_batch_header: codec "\<lambda>h. Ok (callback_batch_header_encode h)"
  callback_batch_header_decode "\<lambda>_. True"
proof
  show "True \<and> Ok (callback_batch_header_encode m) = (Ok bs :: (bytes, payload_error) result)"
    if "callback_batch_header_decode bs = Ok m" for bs m
    using that by (auto simp: callback_batch_header_decode_def callback_batch_header_append join_simps)
qed (auto simp: callback_batch_header_decode_def callback_batch_header_encode_def)

section \<open>Properties\<close>

text \<open>
  An event is accepted from the wire exactly when it is the encoding of a valid event: the
  transaction id fits the scope, the flags are zero, the auxiliary word fits the kind, the four
  values are finite, and a continuation token with non-zero id and deadline is present exactly
  for \<open>RunDmReaction\<close>. The presence test, that any token byte is non-zero, never misjudges an
  encoded event. Decoding panics on no input.
\<close>

theorem callback_event_exact:
  "callback_event_decode input \<noteq> Panic \<and>
   (callback_event_decode input = Ok e \<longleftrightarrow>
      callback_event_valid e \<and> callback_event_encode e = Ok input)"
  using callback_event.dec_total [of input] callback_event.dec_Ok_iff [of input e] by blast

text \<open>
  Batch requests, batch headers and continuation tokens are accepted exactly as encoded.
\<close>

theorem callback_messages_exact:
  "callback_batch_request_decode input \<noteq> Panic \<and>
   (callback_batch_request_decode input = Ok r \<longleftrightarrow>
      validate_callback_transaction (cb_scope r) (cb_transaction_id r) = Ok () \<and>
      callback_batch_request_encode r = Ok input) \<and>
   callback_batch_header_decode input \<noteq> Panic \<and>
   (callback_batch_header_decode input = Ok h \<longleftrightarrow> input = callback_batch_header_encode h) \<and>
   token_decode input \<noteq> Panic \<and>
   (token_decode input = Ok t \<longleftrightarrow> ct_id t \<noteq> 0 \<and> ct_deadline_ticks t \<noteq> 0 \<and> token_encode t = Ok input)"
  using callback_batch_request.dec_total [of input] callback_batch_request.dec_Ok_iff [of input r]
    callback_batch_header.dec_total [of input] callback_batch_header.dec_Ok_iff [of input h]
    token.dec_total [of input] token.dec_Ok_iff [of input t]
  by (auto simp: callback_batch_request_valid_def token_valid_def)

end
