(* ===== verification/Wire_Turf.thy ===== *)
theory Wire_Turf
  imports Wire_Records
begin

text \<open>
  The batches that create, connect and heat turfs and mixtures
  (\<^verbatim>\<open>crates/dogmos-protocol/src/lib.rs\<close>): each is a counted payload of fixed-width records, so a
  record format is defined and interpreted and the batch laws follow. \<open>usize_max\<close> is the largest
  \<open>usize\<close> of the build.
\<close>

section \<open>Lifecycle\<close>

datatype lifecycle_action = Register | Unregister

primrec lifecycle_action_value :: "lifecycle_action \<Rightarrow> u32" where
  "lifecycle_action_value Register = 1"
| "lifecycle_action_value Unregister = 2"

definition lifecycle_action_arms :: "(u32 \<times> lifecycle_action) list" where
  "lifecycle_action_arms = [(1, Register), (2, Unregister)]"

definition lifecycle_action_try_from :: "u32 \<Rightarrow> (lifecycle_action, payload_error) result" where
  "lifecycle_action_try_from v = match_arms lifecycle_action_arms v (UnknownLifecycleAction v)"

interpretation lifecycle_action: int_enum lifecycle_action_value lifecycle_action_arms
proof
  show "map_of lifecycle_action_arms (lifecycle_action_value k) = Some k" for k
    by (cases k) (simp_all add: lifecycle_action_arms_def)
qed (simp add: lifecycle_action_arms_def)

lemma lifecycle_action_try_from_simps [simp]:
  "lifecycle_action_try_from v = Ok a \<longleftrightarrow> v = lifecycle_action_value a"
  "lifecycle_action_try_from v \<noteq> Panic"
  "lifecycle_action_try_from (lifecycle_action_value a) = Ok a"
  "lifecycle_action_value a = lifecycle_action_value b \<longleftrightarrow> a = b"
  by (auto simp: lifecycle_action_try_from_def lifecycle_action.match_Ok_iff
      lifecycle_action.discriminant_inject)

record lifecycle_mutation =
  lm_action :: lifecycle_action
  lm_handle :: wire_handle

definition lifecycle_record_encode :: "lifecycle_mutation \<Rightarrow> (bytes, payload_error) result" where
  "lifecycle_record_encode e =
     Ok (to_le_bytes (lifecycle_action_value (lm_action e)) @ handle_encode (lm_handle e))"

definition lifecycle_record_decode :: "bytes \<Rightarrow> nat \<Rightarrow> (lifecycle_mutation, payload_error) result" where
  "lifecycle_record_decode input pos =
     rbind (read_u32 input pos) (\<lambda>action.
     rbind (lifecycle_action_try_from action) (\<lambda>action.
     rbind (handle_slice input (pos + 4)) (\<lambda>handle.
     Ok \<lparr>lm_action = action, lm_handle = handle\<rparr>)))"

definition encode_lifecycle_batch :: "lifecycle_mutation list \<Rightarrow> (bytes, payload_error) result" where
  "encode_lifecycle_batch entries = encode_counted lifecycle_record_encode entries"

definition validate_lifecycle_batch :: "nat \<Rightarrow> bytes \<Rightarrow> u32 \<Rightarrow> (u32, payload_error) result" where
  "validate_lifecycle_batch usize_max input maximum =
     rbind (validate_counted_payload usize_max input 12 maximum) (\<lambda>count.
     rbind (rforeach (\<lambda>index.
         rbind (read_u32 input (4 + index * 12)) (\<lambda>action.
         rbind (lifecycle_action_try_from action) (\<lambda>_.
         rbind (handle_slice input (4 + index * 12 + 4)) (\<lambda>_. Ok ())))) [0..<unat count]) (\<lambda>_.
     Ok count))"

definition decode_lifecycle_batch ::
  "nat \<Rightarrow> bytes \<Rightarrow> u32 \<Rightarrow> (lifecycle_mutation list, payload_error) result" where
  "decode_lifecycle_batch usize_max input maximum =
     rbind (validate_lifecycle_batch usize_max input maximum) (\<lambda>count.
     rmap (\<lambda>index. lifecycle_record_decode input (4 + index * 12)) [0..<unat count])"

interpretation lifecycle: record_codec lifecycle_record_encode lifecycle_record_decode 12 "\<lambda>_. True"
proof
  show "lifecycle_record_decode input pos = lifecycle_record_decode (field pos 12 input) 0"
    if "pos + 12 \<le> length input" for pos input
    using that by (simp add: lifecycle_record_decode_def field_field cong: rbind_full_cong)
  show "lifecycle_record_decode r 0 \<noteq> Panic" if "length r = 12" for r
    using that by (simp add: lifecycle_record_decode_def)
  show "\<exists>r. lifecycle_record_encode x = Ok r" for x
    by (simp add: lifecycle_record_encode_def)
  show "length r = 12" if "lifecycle_record_encode x = Ok r" for x r
    using that by (auto simp: lifecycle_record_encode_def)
  show "lifecycle_record_decode r 0 = Ok x" if "lifecycle_record_encode x = Ok r" for x r
    using that by (auto simp: lifecycle_record_decode_def lifecycle_record_encode_def field_def)
  show "True \<and> lifecycle_record_encode x = Ok r"
    if len: "length r = 12" and dec: "lifecycle_record_decode r 0 = Ok x" for x r
  proof -
    have "lifecycle_record_encode x = Ok (field 0 4 r @ field 4 8 r)"
      using dec len by (auto simp: lifecycle_record_decode_def lifecycle_record_encode_def
          intro: to_le_eqI_u32)
    then show ?thesis using len by (simp add: join_simps)
  qed
qed

text \<open>A first pass over a batch that accepts what the decoding pass accepts changes nothing.\<close>

lemma validate_then_decode:
  assumes "\<And>i. i < n \<Longrightarrow> check i = rbind (f i) (\<lambda>_. Ok ())"
  shows "rbind (rforeach check [0..<n]) (\<lambda>_. rmap f [0..<n]) = rmap f [0..<n]"
proof -
  have "rforeach check is = rbind (rmap f is) (\<lambda>_. Ok ())" if "set is \<subseteq> {0..<n}" for "is"
    using that
  proof (induction "is")
    case (Cons i "is")
    then show ?case
      using assms [of i] by (cases "f i"; cases "rmap f is") simp_all
  qed simp
  then have "rforeach check [0..<n] = rbind (rmap f [0..<n]) (\<lambda>_. Ok ())" by simp
  then show ?thesis by (cases "rmap f [0..<n]") simp_all
qed

lemma decode_lifecycle_batch_eq:
  "decode_lifecycle_batch usize_max input maximum =
   decode_counted usize_max lifecycle_record_decode 12 input maximum"
proof -
  have "rbind (rforeach (\<lambda>index.
         rbind (read_u32 input (4 + index * 12)) (\<lambda>action.
         rbind (lifecycle_action_try_from action) (\<lambda>_.
         rbind (handle_slice input (4 + index * 12 + 4)) (\<lambda>_. Ok ())))) [0..<n])
       (\<lambda>_. rmap (\<lambda>index. lifecycle_record_decode input (4 + index * 12)) [0..<n]) =
     rmap (\<lambda>index. lifecycle_record_decode input (4 + index * 12)) [0..<n]" for n
    by (rule validate_then_decode)
      (simp add: lifecycle_record_decode_def rbind_assoc cong: rbind_full_cong)
  then show ?thesis
    by (simp add: decode_lifecycle_batch_def validate_lifecycle_batch_def decode_counted_def rbind_assoc
        cong: rbind_full_cong)
qed

section \<open>Turf lifecycle\<close>

record turf_lifecycle_mutation =
  tl_action :: lifecycle_action
  tl_turf :: wire_handle
  tl_mixture :: "wire_handle option"

definition zero_handle :: wire_handle where
  "zero_handle = WireHandle 0 0"

definition turf_lifecycle_record_encode :: "turf_lifecycle_mutation \<Rightarrow> (bytes, payload_error) result" where
  "turf_lifecycle_record_encode e =
     rbind (reject_if (tl_action e = Unregister \<and> tl_mixture e \<noteq> None) UnexpectedUnregisterMixture) (\<lambda>_.
     Ok (to_le_bytes (lifecycle_action_value (tl_action e)) @ handle_encode (tl_turf e) @
         to_le_bytes (u32_of_bool (tl_mixture e \<noteq> None)) @
         handle_encode (case tl_mixture e of Some h \<Rightarrow> h | None \<Rightarrow> zero_handle)))"

definition turf_lifecycle_record_decode ::
  "bytes \<Rightarrow> nat \<Rightarrow> (turf_lifecycle_mutation, payload_error) result" where
  "turf_lifecycle_record_decode input pos =
     rbind (read_u32 input pos) (\<lambda>action.
     rbind (lifecycle_action_try_from action) (\<lambda>action.
     rbind (handle_slice input (pos + 4)) (\<lambda>turf.
     rbind (read_u32 input (pos + 12)) (\<lambda>present.
     rbind (decode_boolean present) (\<lambda>present.
     rbind (handle_slice input (pos + 16)) (\<lambda>mixture.
     rbind (reject_if (\<not> present \<and> mixture \<noteq> zero_handle) NonZeroAbsentHandle) (\<lambda>_.
     rbind (reject_if (action = Unregister \<and> present) UnexpectedUnregisterMixture) (\<lambda>_.
     Ok \<lparr>tl_action = action, tl_turf = turf, tl_mixture = (if present then Some mixture else None)\<rparr>))))))))"

definition encode_turf_lifecycle_batch :: "turf_lifecycle_mutation list \<Rightarrow> (bytes, payload_error) result" where
  "encode_turf_lifecycle_batch entries = encode_counted turf_lifecycle_record_encode entries"

definition decode_turf_lifecycle_batch ::
  "nat \<Rightarrow> bytes \<Rightarrow> u32 \<Rightarrow> (turf_lifecycle_mutation list, payload_error) result" where
  "decode_turf_lifecycle_batch usize_max input maximum =
     decode_counted usize_max turf_lifecycle_record_decode 24 input maximum"

definition turf_lifecycle_valid :: "turf_lifecycle_mutation \<Rightarrow> bool" where
  "turf_lifecycle_valid e \<longleftrightarrow> \<not> (tl_action e = Unregister \<and> tl_mixture e \<noteq> None)"

interpretation turf_lifecycle:
  record_codec turf_lifecycle_record_encode turf_lifecycle_record_decode 24 turf_lifecycle_valid
proof
  show "turf_lifecycle_record_decode input pos = turf_lifecycle_record_decode (field pos 24 input) 0"
    if "pos + 24 \<le> length input" for pos input
    using that by (simp add: turf_lifecycle_record_decode_def field_field cong: rbind_full_cong)
  show "turf_lifecycle_record_decode r 0 \<noteq> Panic" if "length r = 24" for r
    using that by (simp add: turf_lifecycle_record_decode_def)
  show "\<exists>r. turf_lifecycle_record_encode x = Ok r" if "turf_lifecycle_valid x" for x
    using that by (simp add: turf_lifecycle_record_encode_def turf_lifecycle_valid_def)
  show "length r = 24" if "turf_lifecycle_record_encode x = Ok r" for x r
    using that by (auto simp: turf_lifecycle_record_encode_def)
  show "turf_lifecycle_record_decode r 0 = Ok x"
    if "turf_lifecycle_valid x" "turf_lifecycle_record_encode x = Ok r" for x r
  proof -
    have fields: "field 0 4 r = to_le_bytes (lifecycle_action_value (tl_action x))" "length r = 24"
      "field 4 8 r = handle_encode (tl_turf x)" "field 12 4 r = to_le_bytes (u32_of_bool (tl_mixture x \<noteq> None))"
      "field 16 8 r = handle_encode (case tl_mixture x of Some h \<Rightarrow> h | None \<Rightarrow> zero_handle)"
      using that(2) by (auto simp: turf_lifecycle_record_encode_def field_def)
    show ?thesis
      using that(1)
      by (cases "tl_mixture x")
        (auto simp: turf_lifecycle_record_decode_def fields turf_lifecycle_valid_def)
  qed
  show "turf_lifecycle_valid x \<and> turf_lifecycle_record_encode x = Ok r"
    if len: "length r = 24" and dec: "turf_lifecycle_record_decode r 0 = Ok x" for x r
  proof -
    have zero: "handle_at (field 16 8 r) = zero_handle \<Longrightarrow> handle_encode zero_handle = field 16 8 r"
      using handle_encode_at [of "field 16 8 r"] len by simp
    have "turf_lifecycle_valid x \<and> turf_lifecycle_record_encode x =
        Ok (field 0 4 r @ field 4 8 r @ field 12 4 r @ field 16 8 r)"
      using dec len
      by (auto simp: turf_lifecycle_record_decode_def turf_lifecycle_record_encode_def
          turf_lifecycle_valid_def intro: to_le_eqI_u32 zero)
    then show ?thesis using len by (simp add: join_simps)
  qed
qed

section \<open>Turf adjacency\<close>

record turf_adjacency_mutation =
  ta_left :: wire_handle
  ta_right :: wire_handle
  ta_connected :: bool
  ta_firelock :: bool

definition turf_adjacency_record_encode :: "turf_adjacency_mutation \<Rightarrow> (bytes, payload_error) result" where
  "turf_adjacency_record_encode e =
     rbind (reject_if (ta_firelock e \<and> \<not> ta_connected e) FirelockOnDisconnectedEdge) (\<lambda>_.
     Ok (handle_encode (ta_left e) @ handle_encode (ta_right e) @
         to_le_bytes (u32_of_bool (ta_connected e)) @ to_le_bytes (u32_of_bool (ta_firelock e))))"

definition turf_adjacency_record_decode ::
  "bytes \<Rightarrow> nat \<Rightarrow> (turf_adjacency_mutation, payload_error) result" where
  "turf_adjacency_record_decode input pos =
     rbind (read_u32 input (pos + 16)) (\<lambda>connected.
     rbind (decode_boolean connected) (\<lambda>connected.
     rbind (read_u32 input (pos + 20)) (\<lambda>firelock.
     rbind (decode_boolean firelock) (\<lambda>firelock.
     rbind (reject_if (firelock \<and> \<not> connected) FirelockOnDisconnectedEdge) (\<lambda>_.
     rbind (handle_slice input pos) (\<lambda>left.
     rbind (handle_slice input (pos + 8)) (\<lambda>right.
     Ok \<lparr>ta_left = left, ta_right = right, ta_connected = connected, ta_firelock = firelock\<rparr>)))))))"

definition turf_edge :: "turf_adjacency_mutation \<Rightarrow> u32 \<times> u32" where
  "turf_edge e = (min (wh_slot (ta_left e)) (wh_slot (ta_right e)),
     max (wh_slot (ta_left e)) (wh_slot (ta_right e)))"

definition validate_unique_turf_adjacency :: "turf_adjacency_mutation list \<Rightarrow> (unit, payload_error) result" where
  "validate_unique_turf_adjacency entries =
     validate_unique turf_edge (\<lambda>e. DuplicateTurfAdjacency (fst (turf_edge e)) (snd (turf_edge e))) {} entries"

definition encode_turf_adjacency_batch :: "turf_adjacency_mutation list \<Rightarrow> (bytes, payload_error) result" where
  "encode_turf_adjacency_batch entries =
     rbind (checked_encode_count (length entries)) (\<lambda>count.
     rbind (validate_unique_turf_adjacency entries) (\<lambda>_.
     rbind (rmap turf_adjacency_record_encode entries) (\<lambda>records.
     Ok (to_le_bytes count @ concat records))))"

definition decode_turf_adjacency_batch ::
  "nat \<Rightarrow> bytes \<Rightarrow> u32 \<Rightarrow> (turf_adjacency_mutation list, payload_error) result" where
  "decode_turf_adjacency_batch usize_max input maximum =
     rbind (decode_counted usize_max turf_adjacency_record_decode 24 input maximum) (\<lambda>entries.
     rbind (validate_unique_turf_adjacency entries) (\<lambda>_. Ok entries))"

definition turf_adjacency_valid :: "turf_adjacency_mutation \<Rightarrow> bool" where
  "turf_adjacency_valid e \<longleftrightarrow> (ta_firelock e \<longrightarrow> ta_connected e)"

interpretation turf_adjacency:
  record_codec turf_adjacency_record_encode turf_adjacency_record_decode 24 turf_adjacency_valid
proof
  show "turf_adjacency_record_decode input pos = turf_adjacency_record_decode (field pos 24 input) 0"
    if "pos + 24 \<le> length input" for pos input
    using that by (simp add: turf_adjacency_record_decode_def field_field cong: rbind_full_cong)
  show "turf_adjacency_record_decode r 0 \<noteq> Panic" if "length r = 24" for r
    using that by (simp add: turf_adjacency_record_decode_def)
  show "\<exists>r. turf_adjacency_record_encode x = Ok r" if "turf_adjacency_valid x" for x
    using that by (auto simp: turf_adjacency_record_encode_def turf_adjacency_valid_def)
  show "length r = 24" if "turf_adjacency_record_encode x = Ok r" for x r
    using that by (auto simp: turf_adjacency_record_encode_def)
  show "turf_adjacency_record_decode r 0 = Ok x"
    if "turf_adjacency_valid x" "turf_adjacency_record_encode x = Ok r" for x r
  proof -
    have fields: "field 0 8 r = handle_encode (ta_left x)" "field 8 8 r = handle_encode (ta_right x)"
      "field 16 4 r = to_le_bytes (u32_of_bool (ta_connected x))"
      "field 20 4 r = to_le_bytes (u32_of_bool (ta_firelock x))" "length r = 24"
      using that(2) by (auto simp: turf_adjacency_record_encode_def field_def)
    show ?thesis
      using that(1) by (auto simp: turf_adjacency_record_decode_def fields turf_adjacency_valid_def)
  qed
  show "turf_adjacency_valid x \<and> turf_adjacency_record_encode x = Ok r"
    if len: "length r = 24" and dec: "turf_adjacency_record_decode r 0 = Ok x" for x r
  proof -
    have "turf_adjacency_valid x \<and> turf_adjacency_record_encode x =
        Ok (field 0 8 r @ field 8 8 r @ field 16 4 r @ field 20 4 r)"
      using dec len
      by (auto simp: turf_adjacency_record_decode_def turf_adjacency_record_encode_def
          turf_adjacency_valid_def intro: to_le_eqI_u32)
    then show ?thesis using len by (simp add: join_simps)
  qed
qed

lemma validate_unique_turf_adjacency_Ok_iff [simp]:
  "validate_unique_turf_adjacency es = Ok () \<longleftrightarrow> distinct (map turf_edge es)"
  by (simp add: validate_unique_turf_adjacency_def validate_unique_Ok_iff)

lemma encode_turf_adjacency_batch_Ok_iff:
  "encode_turf_adjacency_batch es = Ok bs \<longleftrightarrow>
     distinct (map turf_edge es) \<and> encode_counted turf_adjacency_record_encode es = Ok bs"
  by (auto simp: encode_turf_adjacency_batch_def encode_counted_def)

interpretation turf_adjacency_batch: codec encode_turf_adjacency_batch
  "\<lambda>bs. decode_turf_adjacency_batch usize_max bs maximum"
  "\<lambda>es. batch_valid usize_max turf_adjacency_valid 24 maximum es \<and> distinct (map turf_edge es)"
  for usize_max maximum
proof
  fix bs m
  show "decode_turf_adjacency_batch usize_max bs maximum \<noteq> Panic"
    using turf_adjacency.batch.dec_total [of usize_max bs maximum]
    by (simp add: decode_turf_adjacency_batch_def validate_unique_turf_adjacency_def)
  assume "batch_valid usize_max turf_adjacency_valid 24 maximum m \<and> distinct (map turf_edge m)"
  then show "\<exists>bs. encode_turf_adjacency_batch m = Ok bs"
    using turf_adjacency.batch.enc_valid [of usize_max maximum m]
    by (auto simp: encode_turf_adjacency_batch_Ok_iff)
next
  fix bs m
  assume "batch_valid usize_max turf_adjacency_valid 24 maximum m \<and> distinct (map turf_edge m)"
    and "encode_turf_adjacency_batch m = Ok bs"
  then show "decode_turf_adjacency_batch usize_max bs maximum = Ok m"
    using turf_adjacency.batch.dec_enc [of usize_max maximum m bs]
    by (simp add: encode_turf_adjacency_batch_Ok_iff decode_turf_adjacency_batch_def)
next
  fix bs m
  assume "decode_turf_adjacency_batch usize_max bs maximum = Ok m"
  then show "(batch_valid usize_max turf_adjacency_valid 24 maximum m \<and> distinct (map turf_edge m)) \<and>
    encode_turf_adjacency_batch m = Ok bs"
    using turf_adjacency.batch.enc_dec [of usize_max bs maximum m]
    by (auto simp: encode_turf_adjacency_batch_Ok_iff decode_turf_adjacency_batch_def)
qed

section \<open>Turf heat\<close>

record turf_heat_state =
  hs_temperature :: scalar_value
  hs_thermal_conductivity :: scalar_value
  hs_heat_capacity :: scalar_value
  hs_adjacent_to_space :: bool

text \<open>Flags and scalars of an optional state, and back; \<open>TurfHeatSnapshot\<close> and the heat batch share them.\<close>

definition heat_state_parts ::
  "turf_heat_state option \<Rightarrow> u32 \<times> scalar_value \<times> scalar_value \<times> scalar_value" where
  "heat_state_parts state = (case state of
     None \<Rightarrow> (0, 0, 0, 0)
   | Some s \<Rightarrow> (1 OR push_bit 1 (u32_of_bool (hs_adjacent_to_space s)), hs_temperature s,
       hs_thermal_conductivity s, hs_heat_capacity s))"

definition heat_state_decode ::
  "bytes \<Rightarrow> nat \<Rightarrow> (turf_heat_state option, payload_error) result" where
  "heat_state_decode input pos =
     rbind (read_u32 input pos) (\<lambda>flags.
     rbind (reject_if (flags AND NOT 3 \<noteq> 0) (UnknownTurfHeatFlags flags)) (\<lambda>_.
     rbind (read_u32 input (pos + 4)) (\<lambda>reserved.
     rbind (reject_if (reserved \<noteq> 0) (ReservedTurfHeatField reserved)) (\<lambda>_.
     let present = flags AND 1 \<noteq> 0; adjacent_to_space = flags AND 2 \<noteq> 0 in
     rbind (reject_if (adjacent_to_space \<and> \<not> present) (UnknownTurfHeatFlags flags)) (\<lambda>_.
     rbind (scalar_slice input (pos + 8)) (\<lambda>temperature.
     rbind (scalar_slice input (pos + 16)) (\<lambda>thermal_conductivity.
     rbind (scalar_slice input (pos + 24)) (\<lambda>heat_capacity.
     rbind (reject_if (\<not> present \<and> (\<not> is_zero temperature \<or> \<not> is_zero thermal_conductivity \<or>
         \<not> is_zero heat_capacity)) NonZeroAbsentTurfHeatState) (\<lambda>_.
     Ok (if present
         then Some \<lparr>hs_temperature = temperature, hs_thermal_conductivity = thermal_conductivity,
           hs_heat_capacity = heat_capacity, hs_adjacent_to_space = adjacent_to_space\<rparr>
         else None))))))))))"

definition turf_heat_snapshot_encode :: "turf_heat_state option \<Rightarrow> (bytes, payload_error) result" where
  "turf_heat_snapshot_encode state =
     (case heat_state_parts state of (flags, temperature, conductivity, capacity) \<Rightarrow>
      rbind (scalar_encode temperature) (\<lambda>t.
      rbind (scalar_encode conductivity) (\<lambda>k.
      rbind (scalar_encode capacity) (\<lambda>c.
      Ok (put 24 c (put 16 k (put 8 t (put 0 (to_le_bytes flags) (zeros 32)))))))))"

definition turf_heat_snapshot_decode :: "bytes \<Rightarrow> (turf_heat_state option, payload_error) result" where
  "turf_heat_snapshot_decode input =
     rbind (require_exact_len input 32) (\<lambda>_. heat_state_decode input 0)"

record turf_heat_mutation =
  th_turf :: wire_handle
  th_state :: "turf_heat_state option"

definition turf_heat_record_encode :: "turf_heat_mutation \<Rightarrow> (bytes, payload_error) result" where
  "turf_heat_record_encode e =
     (case heat_state_parts (th_state e) of (flags, temperature, conductivity, capacity) \<Rightarrow>
      rbind (scalar_encode temperature) (\<lambda>t.
      rbind (scalar_encode conductivity) (\<lambda>k.
      rbind (scalar_encode capacity) (\<lambda>c.
      Ok (handle_encode (th_turf e) @ to_le_bytes flags @ to_le_bytes (0 :: u32) @ t @ k @ c)))))"

definition turf_heat_record_decode :: "bytes \<Rightarrow> nat \<Rightarrow> (turf_heat_mutation, payload_error) result" where
  "turf_heat_record_decode input pos =
     rbind (heat_state_decode input (pos + 8)) (\<lambda>state.
     rbind (handle_slice input pos) (\<lambda>turf.
     Ok \<lparr>th_turf = turf, th_state = state\<rparr>))"

definition encode_turf_heat_batch :: "turf_heat_mutation list \<Rightarrow> (bytes, payload_error) result" where
  "encode_turf_heat_batch entries = encode_counted turf_heat_record_encode entries"

definition decode_turf_heat_batch ::
  "nat \<Rightarrow> bytes \<Rightarrow> u32 \<Rightarrow> (turf_heat_mutation list, payload_error) result" where
  "decode_turf_heat_batch usize_max input maximum =
     decode_counted usize_max turf_heat_record_decode 40 input maximum"

definition heat_state_finite :: "turf_heat_state option \<Rightarrow> bool" where
  "heat_state_finite state = pred_option (\<lambda>s. is_finite (hs_temperature s) \<and>
     is_finite (hs_thermal_conductivity s) \<and> is_finite (hs_heat_capacity s)) state"

lemma heat_flags:
  fixes b :: bool
  defines "f \<equiv> 1 OR push_bit 1 (u32_of_bool b)"
  shows "f AND NOT 3 = 0" and "f AND 1 \<noteq> 0" and "f AND 2 \<noteq> 0 \<longleftrightarrow> b"
  by (cases b; simp add: f_def u32_of_bool_def)+

lemma heat_state_decode_local:
  "pos + 32 \<le> length input \<Longrightarrow> heat_state_decode input pos = heat_state_decode (field pos 32 input) 0"
  by (simp add: heat_state_decode_def field_field scalar_slice_eq Let_def cong: rbind_full_cong)

lemma heat_state_decode_not_Panic: "pos + 32 \<le> length input \<Longrightarrow> heat_state_decode input pos \<noteq> Panic"
  by (simp add: heat_state_decode_def scalar_slice_eq Let_def)

lemma heat_state_decode_parts:
  assumes "heat_state_finite state" and "heat_state_parts state = (flags, t, k, c)" and "pos + 32 \<le> length input"
    and "field pos 4 input = to_le_bytes flags" and "field (pos + 4) 4 input = zeros 4"
    and "field (pos + 8) 8 input = to_le_bytes t" and "field (pos + 16) 8 input = to_le_bytes k"
    and "field (pos + 24) 8 input = to_le_bytes c"
  shows "heat_state_decode input pos = Ok state"
  using assms heat_flags
  by (cases state)
    (auto simp: heat_state_decode_def heat_state_parts_def heat_state_finite_def scalar_slice_eq Let_def)

lemma turf_heat_snapshot_encode_finite:
  assumes "heat_state_finite state" and "heat_state_parts state = (flags, t, k, c)"
  shows "turf_heat_snapshot_encode state =
    Ok (to_le_bytes flags @ zeros 4 @ to_le_bytes t @ to_le_bytes k @ to_le_bytes c)"
  using assms
  by (cases state) (auto simp: turf_heat_snapshot_encode_def heat_state_parts_def heat_state_finite_def put_simps)

lemma turf_heat_record_encode_finite:
  assumes "heat_state_finite (th_state e)" and "heat_state_parts (th_state e) = (flags, t, k, c)"
  shows "turf_heat_record_encode e = Ok (handle_encode (th_turf e) @ to_le_bytes flags @ zeros 4 @
    to_le_bytes t @ to_le_bytes k @ to_le_bytes c)"
  using assms
  by (cases "th_state e")
    (auto simp: turf_heat_record_encode_def heat_state_parts_def heat_state_finite_def to_le_zero)

interpretation turf_heat_snapshot:
  lossless turf_heat_snapshot_encode turf_heat_snapshot_decode heat_state_finite
proof
  show "turf_heat_snapshot_decode bs \<noteq> Panic" for bs
    by (auto simp: turf_heat_snapshot_decode_def heat_state_decode_not_Panic)
  fix state bs
  assume fin: "heat_state_finite state"
  obtain flags t k c where parts: "heat_state_parts state = (flags, t, k, c)" by (metis prod_cases4)
  note enc = turf_heat_snapshot_encode_finite [OF fin parts]
  then show "\<exists>bs. turf_heat_snapshot_encode state = Ok bs" by simp
  assume "turf_heat_snapshot_encode state = Ok bs"
  then have bs: "bs = to_le_bytes flags @ zeros 4 @ to_le_bytes t @ to_le_bytes k @ to_le_bytes c"
    using enc by simp
  have "heat_state_decode bs 0 = Ok state"
    by (rule heat_state_decode_parts [OF fin parts]) (simp_all add: bs field_def)
  then show "turf_heat_snapshot_decode bs = Ok state"
    by (simp add: turf_heat_snapshot_decode_def bs)
qed

interpretation turf_heat:
  record_lossless turf_heat_record_encode turf_heat_record_decode 40 "\<lambda>e. heat_state_finite (th_state e)"
proof
  show "turf_heat_record_decode input pos = turf_heat_record_decode (field pos 40 input) 0"
    if "pos + 40 \<le> length input" for pos input
    using that heat_state_decode_local [of "pos + 8" input] heat_state_decode_local [of 8 "field pos 40 input"]
    by (simp add: turf_heat_record_decode_def field_field cong: rbind_full_cong)
  show "turf_heat_record_decode r 0 \<noteq> Panic" if "length r = 40" for r
    using that heat_state_decode_not_Panic [of 8 r] by (simp add: turf_heat_record_decode_def)
  fix e :: turf_heat_mutation and r
  assume fin: "heat_state_finite (th_state e)"
  obtain flags t k c where parts: "heat_state_parts (th_state e) = (flags, t, k, c)" by (metis prod_cases4)
  note enc = turf_heat_record_encode_finite [OF fin parts]
  then show "\<exists>r. turf_heat_record_encode e = Ok r" by simp
  assume "turf_heat_record_encode e = Ok r"
  then have r: "r = handle_encode (th_turf e) @ to_le_bytes flags @ zeros 4 @ to_le_bytes t @
      to_le_bytes k @ to_le_bytes c"
    using enc by simp
  then show "length r = 40" by simp
  have "heat_state_decode r 8 = Ok (th_state e)"
    by (rule heat_state_decode_parts [OF fin parts]) (simp_all add: r field_def)
  moreover have "field 0 8 r = handle_encode (th_turf e)" by (simp add: r field_def)
  ultimately show "turf_heat_record_decode r 0 = Ok e"
    using \<open>length r = 40\<close> by (simp add: turf_heat_record_decode_def)
qed

section \<open>Heat adjacency and mixture adjacency\<close>

record turf_heat_adjacency_mutation =
  tha_left :: wire_handle
  tha_right :: wire_handle
  tha_connected :: bool

definition turf_heat_adjacency_record_encode ::
  "turf_heat_adjacency_mutation \<Rightarrow> (bytes, payload_error) result" where
  "turf_heat_adjacency_record_encode e =
     Ok (handle_encode (tha_left e) @ handle_encode (tha_right e) @
         to_le_bytes (u32_of_bool (tha_connected e)) @ to_le_bytes (0 :: u32))"

definition turf_heat_adjacency_record_decode ::
  "bytes \<Rightarrow> nat \<Rightarrow> (turf_heat_adjacency_mutation, payload_error) result" where
  "turf_heat_adjacency_record_decode input pos =
     rbind (read_u32 input (pos + 16)) (\<lambda>connected.
     rbind (decode_boolean connected) (\<lambda>connected.
     rbind (read_u32 input (pos + 20)) (\<lambda>reserved.
     rbind (reject_if (reserved \<noteq> 0) (ReservedTurfHeatField reserved)) (\<lambda>_.
     rbind (handle_slice input pos) (\<lambda>left.
     rbind (handle_slice input (pos + 8)) (\<lambda>right.
     Ok \<lparr>tha_left = left, tha_right = right, tha_connected = connected\<rparr>))))))"

definition encode_turf_heat_adjacency_batch ::
  "turf_heat_adjacency_mutation list \<Rightarrow> (bytes, payload_error) result" where
  "encode_turf_heat_adjacency_batch entries = encode_counted turf_heat_adjacency_record_encode entries"

definition decode_turf_heat_adjacency_batch ::
  "nat \<Rightarrow> bytes \<Rightarrow> u32 \<Rightarrow> (turf_heat_adjacency_mutation list, payload_error) result" where
  "decode_turf_heat_adjacency_batch usize_max input maximum =
     decode_counted usize_max turf_heat_adjacency_record_decode 24 input maximum"

interpretation turf_heat_adjacency:
  record_codec turf_heat_adjacency_record_encode turf_heat_adjacency_record_decode 24 "\<lambda>_. True"
proof
  show "turf_heat_adjacency_record_decode input pos = turf_heat_adjacency_record_decode (field pos 24 input) 0"
    if "pos + 24 \<le> length input" for pos input
    using that by (simp add: turf_heat_adjacency_record_decode_def field_field cong: rbind_full_cong)
  show "turf_heat_adjacency_record_decode r 0 \<noteq> Panic" if "length r = 24" for r
    using that by (simp add: turf_heat_adjacency_record_decode_def)
  show "\<exists>r. turf_heat_adjacency_record_encode x = Ok r" for x
    by (simp add: turf_heat_adjacency_record_encode_def)
  show "length r = 24" if "turf_heat_adjacency_record_encode x = Ok r" for x r
    using that by (auto simp: turf_heat_adjacency_record_encode_def)
  show "turf_heat_adjacency_record_decode r 0 = Ok x" if "turf_heat_adjacency_record_encode x = Ok r" for x r
  proof -
    have fields: "field 0 8 r = handle_encode (tha_left x)" "field 8 8 r = handle_encode (tha_right x)"
      "field 16 4 r = to_le_bytes (u32_of_bool (tha_connected x))" "field 20 4 r = zeros 4" "length r = 24"
      using that by (auto simp: turf_heat_adjacency_record_encode_def field_def to_le_zero)
    show ?thesis by (auto simp: turf_heat_adjacency_record_decode_def fields)
  qed
  show "True \<and> turf_heat_adjacency_record_encode x = Ok r"
    if len: "length r = 24" and dec: "turf_heat_adjacency_record_decode r 0 = Ok x" for x r
  proof -
    have "turf_heat_adjacency_record_encode x = Ok (field 0 8 r @ field 8 8 r @ field 16 4 r @ field 20 4 r)"
      using dec len
      by (auto simp: turf_heat_adjacency_record_decode_def turf_heat_adjacency_record_encode_def
          intro: to_le_eqI_u32)
    then show ?thesis using len by (simp add: join_simps)
  qed
qed

record adjacency_mutation =
  am_left :: wire_handle
  am_right :: wire_handle
  am_conductivity :: scalar_value

definition adjacency_record_encode :: "adjacency_mutation \<Rightarrow> (bytes, payload_error) result" where
  "adjacency_record_encode e =
     rbind (scalar_encode (am_conductivity e)) (\<lambda>conductivity.
     Ok (handle_encode (am_left e) @ handle_encode (am_right e) @ conductivity))"

definition adjacency_record_decode :: "bytes \<Rightarrow> nat \<Rightarrow> (adjacency_mutation, payload_error) result" where
  "adjacency_record_decode input pos =
     rbind (handle_slice input pos) (\<lambda>left.
     rbind (handle_slice input (pos + 8)) (\<lambda>right.
     rbind (scalar_slice input (pos + 16)) (\<lambda>conductivity.
     Ok \<lparr>am_left = left, am_right = right, am_conductivity = conductivity\<rparr>)))"

definition encode_adjacency_batch :: "adjacency_mutation list \<Rightarrow> (bytes, payload_error) result" where
  "encode_adjacency_batch entries = encode_counted adjacency_record_encode entries"

definition validate_adjacency_batch :: "nat \<Rightarrow> bytes \<Rightarrow> u32 \<Rightarrow> (u32, payload_error) result" where
  "validate_adjacency_batch usize_max input maximum =
     rbind (validate_counted_payload usize_max input 24 maximum) (\<lambda>count.
     rbind (rforeach (\<lambda>index.
         rbind (handle_slice input (4 + index * 24)) (\<lambda>_.
         rbind (handle_slice input (4 + index * 24 + 8)) (\<lambda>_.
         rbind (scalar_slice input (4 + index * 24 + 16)) (\<lambda>_. Ok ())))) [0..<unat count]) (\<lambda>_.
     Ok count))"

definition decode_adjacency_batch ::
  "nat \<Rightarrow> bytes \<Rightarrow> u32 \<Rightarrow> (adjacency_mutation list, payload_error) result" where
  "decode_adjacency_batch usize_max input maximum =
     rbind (validate_adjacency_batch usize_max input maximum) (\<lambda>count.
     rmap (\<lambda>index. adjacency_record_decode input (4 + index * 24)) [0..<unat count])"

interpretation adjacency: record_codec adjacency_record_encode adjacency_record_decode 24
  "\<lambda>e. is_finite (am_conductivity e)"
proof
  show "adjacency_record_decode input pos = adjacency_record_decode (field pos 24 input) 0"
    if "pos + 24 \<le> length input" for pos input
    using that by (simp add: adjacency_record_decode_def field_field scalar_slice_eq cong: rbind_full_cong)
  show "adjacency_record_decode r 0 \<noteq> Panic" if "length r = 24" for r
    using that by (simp add: adjacency_record_decode_def scalar_slice_eq)
  show "\<exists>r. adjacency_record_encode x = Ok r" if "is_finite (am_conductivity x)" for x
    using that by (simp add: adjacency_record_encode_def)
  show "length r = 24" if "adjacency_record_encode x = Ok r" for x r
    using that by (auto simp: adjacency_record_encode_def)
  show "adjacency_record_decode r 0 = Ok x"
    if "is_finite (am_conductivity x)" "adjacency_record_encode x = Ok r" for x r
    using that by (auto simp: adjacency_record_encode_def adjacency_record_decode_def scalar_slice_eq field_def)
  show "is_finite (am_conductivity x) \<and> adjacency_record_encode x = Ok r"
    if len: "length r = 24" and dec: "adjacency_record_decode r 0 = Ok x" for x r
    using dec len
    by (auto simp: adjacency_record_decode_def adjacency_record_encode_def scalar_slice_eq join_simps)
qed

lemma decode_adjacency_batch_eq:
  "decode_adjacency_batch usize_max input maximum =
   decode_counted usize_max adjacency_record_decode 24 input maximum"
proof -
  have "rbind (rforeach (\<lambda>index.
         rbind (handle_slice input (4 + index * 24)) (\<lambda>_.
         rbind (handle_slice input (4 + index * 24 + 8)) (\<lambda>_.
         rbind (scalar_slice input (4 + index * 24 + 16)) (\<lambda>_. Ok ())))) [0..<n])
       (\<lambda>_. rmap (\<lambda>index. adjacency_record_decode input (4 + index * 24)) [0..<n]) =
     rmap (\<lambda>index. adjacency_record_decode input (4 + index * 24)) [0..<n]" for n
    by (rule validate_then_decode)
      (simp add: adjacency_record_decode_def rbind_assoc cong: rbind_full_cong)
  then show ?thesis
    by (simp add: decode_adjacency_batch_def validate_adjacency_batch_def decode_counted_def rbind_assoc
        cong: rbind_full_cong)
qed

section \<open>Properties\<close>

text \<open>
  C38: the mixture lifecycle, turf lifecycle, turf adjacency, heat adjacency and conductivity
  batches are accepted exactly when they are the encoding of at most \<open>maximum\<close> valid records
  (an unregistration names no mixture, a firelock stands on a connected edge, no two records name
  the same pair of slots in either order, scalars are finite), for every size of \<open>usize\<close>. The
  separate validation pass of two of them changes no outcome.
\<close>

theorem turf_batches_exact:
  "(decode_lifecycle_batch usize_max input maximum = Ok ls \<longleftrightarrow>
      batch_valid usize_max (\<lambda>_. True) 12 maximum ls \<and> encode_lifecycle_batch ls = Ok input) \<and>
   (decode_turf_lifecycle_batch usize_max input maximum = Ok ts \<longleftrightarrow>
      batch_valid usize_max turf_lifecycle_valid 24 maximum ts \<and> encode_turf_lifecycle_batch ts = Ok input) \<and>
   (decode_turf_adjacency_batch usize_max input maximum = Ok es \<longleftrightarrow>
      batch_valid usize_max turf_adjacency_valid 24 maximum es \<and> distinct (map turf_edge es) \<and>
      encode_turf_adjacency_batch es = Ok input) \<and>
   (decode_turf_heat_adjacency_batch usize_max input maximum = Ok hs \<longleftrightarrow>
      batch_valid usize_max (\<lambda>_. True) 24 maximum hs \<and> encode_turf_heat_adjacency_batch hs = Ok input) \<and>
   (decode_adjacency_batch usize_max input maximum = Ok as \<longleftrightarrow>
      batch_valid usize_max (\<lambda>e. is_finite (am_conductivity e)) 24 maximum as \<and>
      encode_adjacency_batch as = Ok input)"
  unfolding decode_lifecycle_batch_eq encode_lifecycle_batch_def decode_turf_lifecycle_batch_def
    encode_turf_lifecycle_batch_def decode_turf_heat_adjacency_batch_def
    encode_turf_heat_adjacency_batch_def decode_adjacency_batch_eq encode_adjacency_batch_def
  using lifecycle.batch.dec_Ok_iff [of usize_max input maximum ls]
    turf_lifecycle.batch.dec_Ok_iff [of usize_max input maximum ts]
    turf_adjacency_batch.dec_Ok_iff [of usize_max input maximum es]
    turf_heat_adjacency.batch.dec_Ok_iff [of usize_max input maximum hs]
    adjacency.batch.dec_Ok_iff [of usize_max input maximum as]
  by blast

text \<open>
  None of these decoders panics on any input, whatever its length and its announced count;
  in particular no announced count overflows the length computation.
\<close>

theorem turf_batches_never_panic:
  "decode_lifecycle_batch usize_max input maximum \<noteq> Panic \<and>
   decode_turf_lifecycle_batch usize_max input maximum \<noteq> Panic \<and>
   decode_turf_adjacency_batch usize_max input maximum \<noteq> Panic \<and>
   decode_turf_heat_batch usize_max input maximum \<noteq> Panic \<and>
   decode_turf_heat_adjacency_batch usize_max input maximum \<noteq> Panic \<and>
   decode_adjacency_batch usize_max input maximum \<noteq> Panic \<and>
   turf_heat_snapshot_decode input \<noteq> Panic"
  unfolding decode_lifecycle_batch_eq decode_turf_lifecycle_batch_def decode_turf_heat_batch_def
    decode_turf_heat_adjacency_batch_def decode_adjacency_batch_eq
  using lifecycle.batch.dec_total turf_lifecycle.batch.dec_total turf_adjacency_batch.dec_total
    turf_heat.batch.dec_total turf_heat_adjacency.batch.dec_total adjacency.batch.dec_total
    turf_heat_snapshot.dec_total
  by blast

text \<open>
  A turf heat state, present or absent, survives the wire, in a snapshot and in a batch.
\<close>

theorem turf_heat_round_trip:
  assumes "heat_state_finite state"
    and "batch_valid usize_max (\<lambda>e. heat_state_finite (th_state e)) 40 maximum es"
  shows "rbind (turf_heat_snapshot_encode state) turf_heat_snapshot_decode = Ok state \<and>
    rbind (encode_turf_heat_batch es) (\<lambda>bs. decode_turf_heat_batch usize_max bs maximum) = Ok es"
  using turf_heat_snapshot.round_trip [OF assms(1)] turf_heat.batch.round_trip [OF assms(2)]
  by (simp add: encode_turf_heat_batch_def decode_turf_heat_batch_def)

theorem turf_heat_round_trip_witness:
  "rbind (encode_turf_heat_batch [\<lparr>th_turf = WireHandle 1 2, th_state = None\<rparr>])
     (\<lambda>bs. decode_turf_heat_batch 4294967295 bs 16) = Ok [\<lparr>th_turf = WireHandle 1 2, th_state = None\<rparr>]"
  using turf_heat_round_trip [of None 4294967295 16 "[\<lparr>th_turf = WireHandle 1 2, th_state = None\<rparr>]"]
  by (simp add: heat_state_finite_def batch_valid_def)

text \<open>
  Unlike the other formats the heat formats accept two encodings of an absent state: the
  check that its scalars are zero lets negative zero through.
\<close>

theorem turf_heat_absent_not_canonical:
  "turf_heat_snapshot_decode (zeros 8 @ to_le_bytes (0x8000000000000000 :: u64) @ zeros 16) = Ok None \<and>
   turf_heat_snapshot_encode None = Ok (zeros 32) \<and>
   zeros 8 @ to_le_bytes (0x8000000000000000 :: u64) @ zeros 16 \<noteq> zeros 32"
proof (intro conjI)
  let ?m = "0x8000000000000000 :: u64"
  let ?bs = "zeros 8 @ to_le_bytes ?m @ zeros 16"
  have fields: "field 0 4 ?bs = zeros 4" "field 4 4 ?bs = zeros 4" "field 8 8 ?bs = to_le_bytes ?m"
    "field 16 8 ?bs = zeros 8" "field 24 8 ?bs = zeros 8"
    by (simp_all add: field_def zeros_def)
  have "is_finite ?m" "is_zero ?m" "is_finite 0" by (simp_all add: is_finite_def is_zero_def)
  then show "turf_heat_snapshot_decode ?bs = Ok None"
    by (simp add: turf_heat_snapshot_decode_def heat_state_decode_def fields scalar_slice_eq
        scalar_decode_def Let_def)
  have "heat_state_finite None" by (simp add: heat_state_finite_def)
  then show "turf_heat_snapshot_encode None = Ok (zeros 32)"
    using turf_heat_snapshot_encode_finite [of None 0 0 0 0]
    by (simp add: heat_state_parts_def to_le_zero zeros_def flip: replicate_add)
  show "?bs \<noteq> zeros 32"
  proof
    assume "?bs = zeros 32"
    then have "field 8 8 ?bs = zeros 8" by simp
    then have "from_le_bytes (to_le_bytes ?m) = (0 :: u64)" using fields(3) by simp
    then show False by simp
  qed
qed

end
