(* ===== verification/Wire_Command.thy ===== *)
theory Wire_Command
  imports Wire_Turf Wire_Callback
begin

text \<open>
  Mixture commands (\<open>MixtureCommandRequest\<close> and \<open>MixtureCommandResponse\<close> of
  \<^verbatim>\<open>crates/dogmos-protocol/src/lib.rs\<close>), the batched adjustment of one mixture, and the forms of
  both that run inside a continuation (\<^verbatim>\<open>continuation_wire.rs\<close>).

  All thirty-six commands share one 56-byte layout, so the codec is the composition of a
  translation between commands and layouts and of a layout's bytes. The decoder rejects every
  field a command does not use, which makes the translation a bijection onto the well-formed
  layouts.
\<close>

section \<open>Commands\<close>

definition u16_of_bool :: "bool \<Rightarrow> u16" where
  "u16_of_bool b = (if b then 1 else 0)"

text \<open>\<open>Option::unwrap_or(z)\<close> and the comparison \<open>x < 0.0\<close> of an \<open>f64\<close>.\<close>

definition scalar_or_zero :: "scalar_value option \<Rightarrow> scalar_value" where
  "scalar_or_zero x = (case x of Some s \<Rightarrow> s | None \<Rightarrow> 0)"

definition is_negative :: "scalar_value \<Rightarrow> bool" where
  "is_negative x \<longleftrightarrow> bit x 63 \<and> \<not> is_zero x \<and> x AND 0x7FFFFFFFFFFFFFFF \<le> 0x7FF0000000000000"

datatype (plugins only: size) mixture_command_request =
    CmdSetMoles wire_handle u16 scalar_value
  | CmdAdjustMoles wire_handle u16 scalar_value
  | CmdAdjustMolesTemperature wire_handle u16 scalar_value scalar_value
  | CmdGetMoles wire_handle u16
  | CmdTemperature wire_handle
  | CmdVolume wire_handle
  | CmdHeatCapacity wire_handle
  | CmdPartialHeatCapacity wire_handle u16
  | CmdTotalMoles wire_handle
  | CmdPressure wire_handle
  | CmdThermalEnergy wire_handle
  | CmdGetMolesByFlags wire_handle u32
  | CmdBurnability wire_handle "scalar_value option"
  | CmdSetTemperature wire_handle scalar_value
  | CmdSetVolume wire_handle scalar_value
  | CmdSetMinimumHeatCapacity wire_handle scalar_value
  | CmdClear wire_handle
  | CmdAdd wire_handle scalar_value
  | CmdMultiply wire_handle scalar_value
  | CmdCopyFrom wire_handle wire_handle
  | CmdAdjustHeat wire_handle scalar_value
  | CmdCompare wire_handle wire_handle
  | CmdEqualizeWith wire_handle wire_handle
  | CmdTemperatureShare wire_handle wire_handle scalar_value
  | CmdTemperatureShareNonGas wire_handle scalar_value scalar_value scalar_value
  | CmdMarkImmutable wire_handle
  | CmdIsImmutable wire_handle
  | CmdMerge wire_handle wire_handle
  | CmdRemoveRatioInto wire_handle wire_handle scalar_value
  | CmdRemoveAmountInto wire_handle wire_handle scalar_value
  | CmdTransferGases wire_handle wire_handle scalar_value u32
  | CmdTransferAmount wire_handle wire_handle scalar_value
  | CmdTransferRatio wire_handle wire_handle scalar_value
  | CmdTransferByFlags wire_handle wire_handle u32 scalar_value
  | CmdShareRatio wire_handle wire_handle scalar_value bool
  | CmdReact wire_handle wire_handle "scalar_value option"

text \<open>The match of \<open>encode\<close>: kind, flags, both handles, three scalars, gas id and auxiliary word.\<close>

datatype command_layout =
  CommandLayout (la_kind: u16) (la_flags: u16) (la_primary: wire_handle) (la_secondary: wire_handle)
    (la_s1: scalar_value) (la_s2: scalar_value) (la_s3: scalar_value) (la_gas_id: u16) (la_aux: u32)

primrec command_parts :: "mixture_command_request \<Rightarrow> (command_layout, payload_error) result" where
  "command_parts (CmdSetMoles handle gas_id amount) =
     Ok (CommandLayout 1 0 handle zero_handle amount 0 0 gas_id 0)"
| "command_parts (CmdAdjustMoles handle gas_id delta) =
     Ok (CommandLayout 2 0 handle zero_handle delta 0 0 gas_id 0)"
| "command_parts (CmdAdjustMolesTemperature handle gas_id amount temperature) =
     Ok (CommandLayout 3 0 handle zero_handle amount temperature 0 gas_id 0)"
| "command_parts (CmdGetMoles handle gas_id) =
     Ok (CommandLayout 4 0 handle zero_handle 0 0 0 gas_id 0)"
| "command_parts (CmdTemperature handle) = Ok (CommandLayout 5 0 handle zero_handle 0 0 0 0 0)"
| "command_parts (CmdVolume handle) = Ok (CommandLayout 6 0 handle zero_handle 0 0 0 0 0)"
| "command_parts (CmdHeatCapacity handle) = Ok (CommandLayout 7 0 handle zero_handle 0 0 0 0 0)"
| "command_parts (CmdPartialHeatCapacity handle gas_id) =
     Ok (CommandLayout 8 0 handle zero_handle 0 0 0 gas_id 0)"
| "command_parts (CmdTotalMoles handle) = Ok (CommandLayout 9 0 handle zero_handle 0 0 0 0 0)"
| "command_parts (CmdPressure handle) = Ok (CommandLayout 10 0 handle zero_handle 0 0 0 0 0)"
| "command_parts (CmdThermalEnergy handle) = Ok (CommandLayout 11 0 handle zero_handle 0 0 0 0 0)"
| "command_parts (CmdGetMolesByFlags handle flags) =
     Ok (CommandLayout 12 0 handle zero_handle 0 0 0 0 flags)"
| "command_parts (CmdBurnability handle temperature) =
     Ok (CommandLayout 13 (u16_of_bool (temperature \<noteq> None)) handle zero_handle (scalar_or_zero temperature) 0 0 0 0)"
| "command_parts (CmdSetTemperature handle temperature) =
     Ok (CommandLayout 14 0 handle zero_handle temperature 0 0 0 0)"
| "command_parts (CmdSetVolume handle vol) = Ok (CommandLayout 15 0 handle zero_handle vol 0 0 0 0)"
| "command_parts (CmdSetMinimumHeatCapacity handle amount) =
     Ok (CommandLayout 16 0 handle zero_handle amount 0 0 0 0)"
| "command_parts (CmdClear handle) = Ok (CommandLayout 17 0 handle zero_handle 0 0 0 0 0)"
| "command_parts (CmdAdd handle amount) = Ok (CommandLayout 18 0 handle zero_handle amount 0 0 0 0)"
| "command_parts (CmdMultiply handle factor) =
     Ok (CommandLayout 19 0 handle zero_handle factor 0 0 0 0)"
| "command_parts (CmdCopyFrom receiver giver) = Ok (CommandLayout 20 0 receiver giver 0 0 0 0 0)"
| "command_parts (CmdAdjustHeat handle heat) =
     Ok (CommandLayout 21 0 handle zero_handle heat 0 0 0 0)"
| "command_parts (CmdCompare left right) = Ok (CommandLayout 22 0 left right 0 0 0 0 0)"
| "command_parts (CmdEqualizeWith receiver tot) = Ok (CommandLayout 23 0 receiver tot 0 0 0 0 0)"
| "command_parts (CmdTemperatureShare fst_h snd_h conduction) =
     Ok (CommandLayout 24 0 fst_h snd_h conduction 0 0 0 0)"
| "command_parts (CmdTemperatureShareNonGas handle conduction sharer_temperature sharer_heat_capacity) =
     Ok (CommandLayout 25 0 handle zero_handle conduction sharer_temperature sharer_heat_capacity 0 0)"
| "command_parts (CmdMarkImmutable handle) = Ok (CommandLayout 26 0 handle zero_handle 0 0 0 0 0)"
| "command_parts (CmdIsImmutable handle) = Ok (CommandLayout 27 0 handle zero_handle 0 0 0 0 0)"
| "command_parts (CmdMerge receiver giver) = Ok (CommandLayout 28 0 receiver giver 0 0 0 0 0)"
| "command_parts (CmdRemoveRatioInto source destination ratio) =
     Ok (CommandLayout 29 0 source destination ratio 0 0 0 0)"
| "command_parts (CmdRemoveAmountInto source destination amount) =
     Ok (CommandLayout 30 0 source destination amount 0 0 0 0)"
| "command_parts (CmdTransferGases source destination ratio gas_mask) =
     Ok (CommandLayout 31 0 source destination ratio 0 0 0 gas_mask)"
| "command_parts (CmdTransferAmount source destination amount) =
     Ok (CommandLayout 32 0 source destination amount 0 0 0 0)"
| "command_parts (CmdTransferRatio source destination ratio) =
     Ok (CommandLayout 33 0 source destination ratio 0 0 0 0)"
| "command_parts (CmdTransferByFlags source destination flags amount) =
     Ok (CommandLayout 34 0 source destination amount 0 0 0 flags)"
| "command_parts (CmdShareRatio fst_h snd_h ratio one_way) =
     Ok (CommandLayout 35 (u16_of_bool one_way) fst_h snd_h ratio 0 0 0 0)"
| "command_parts (CmdReact handle target threshold) =
     rbind (reject_if (is_negative (scalar_or_zero threshold)) InvalidReactionProfileThreshold) (\<lambda>_.
     Ok (CommandLayout 36 (u16_of_bool (threshold \<noteq> None)) handle target (scalar_or_zero threshold) 0 0 0 0))"

text \<open>The match of \<open>decode\<close> on the kind, in terms of the fields of the payload.\<close>

definition command_arms :: "command_layout \<Rightarrow> (u16 \<times> (mixture_command_request, payload_error) result) list" where
  "command_arms layout =
     (let flags = la_flags layout; primary = la_primary layout; secondary = la_secondary layout;
          s1 = la_s1 layout; s2 = la_s2 layout; s3 = la_s3 layout; gas_id = la_gas_id layout;
          aux = la_aux layout;
          optional_s1 = (if flags AND 1 \<noteq> 0 then Some s1 else None)
      in [(1, Ok (CmdSetMoles primary gas_id s1)),
          (2, Ok (CmdAdjustMoles primary gas_id s1)),
          (3, Ok (CmdAdjustMolesTemperature primary gas_id s1 s2)),
          (4, Ok (CmdGetMoles primary gas_id)),
          (5, Ok (CmdTemperature primary)),
          (6, Ok (CmdVolume primary)),
          (7, Ok (CmdHeatCapacity primary)),
          (8, Ok (CmdPartialHeatCapacity primary gas_id)),
          (9, Ok (CmdTotalMoles primary)),
          (10, Ok (CmdPressure primary)),
          (11, Ok (CmdThermalEnergy primary)),
          (12, Ok (CmdGetMolesByFlags primary aux)),
          (13, Ok (CmdBurnability primary optional_s1)),
          (14, Ok (CmdSetTemperature primary s1)),
          (15, Ok (CmdSetVolume primary s1)),
          (16, Ok (CmdSetMinimumHeatCapacity primary s1)),
          (17, Ok (CmdClear primary)),
          (18, Ok (CmdAdd primary s1)),
          (19, Ok (CmdMultiply primary s1)),
          (20, Ok (CmdCopyFrom primary secondary)),
          (21, Ok (CmdAdjustHeat primary s1)),
          (22, Ok (CmdCompare primary secondary)),
          (23, Ok (CmdEqualizeWith primary secondary)),
          (24, Ok (CmdTemperatureShare primary secondary s1)),
          (25, Ok (CmdTemperatureShareNonGas primary s1 s2 s3)),
          (26, Ok (CmdMarkImmutable primary)),
          (27, Ok (CmdIsImmutable primary)),
          (28, Ok (CmdMerge primary secondary)),
          (29, Ok (CmdRemoveRatioInto primary secondary s1)),
          (30, Ok (CmdRemoveAmountInto primary secondary s1)),
          (31, Ok (CmdTransferGases primary secondary s1 aux)),
          (32, Ok (CmdTransferAmount primary secondary s1)),
          (33, Ok (CmdTransferRatio primary secondary s1)),
          (34, Ok (CmdTransferByFlags primary secondary aux s1)),
          (35, Ok (CmdShareRatio primary secondary s1 (flags AND 1 \<noteq> 0))),
          (36, rbind (reject_if (flags AND 1 \<noteq> 0 \<and> is_negative s1) InvalidReactionProfileThreshold) (\<lambda>_.
             Ok (CmdReact primary secondary optional_s1)))])"

definition command_build :: "command_layout \<Rightarrow> (mixture_command_request, payload_error) result" where
  "command_build layout =
     (case map_of (command_arms layout) (la_kind layout) of
        Some command \<Rightarrow> command
      | None \<Rightarrow> Err (UnknownMixtureCommand (la_kind layout)))"

section \<open>The layout on the wire\<close>

definition command_layout_encode :: "command_layout \<Rightarrow> (bytes, payload_error) result" where
  "command_layout_encode layout =
     rbind (rmap scalar_encode [la_s1 layout, la_s2 layout, la_s3 layout]) (\<lambda>scalars.
     Ok (put 48 (to_le_bytes (la_aux layout))
        (put 44 (to_le_bytes (la_gas_id layout))
        (put_each 20 8 scalars
        (put 12 (handle_encode (la_secondary layout))
        (put 4 (handle_encode (la_primary layout))
        (put 2 (to_le_bytes (la_flags layout))
        (put 0 (to_le_bytes (la_kind layout)) (zeros 56)))))))))"

definition mixture_command_encode :: "mixture_command_request \<Rightarrow> (bytes, payload_error) result" where
  "mixture_command_encode command = rbind (command_parts command) command_layout_encode"

text \<open>Which fields a command of this kind uses.\<close>

definition allowed_flags :: "u16 \<Rightarrow> u16" where
  "allowed_flags kind = (if kind = 13 \<or> kind = 35 \<or> kind = 36 then 1 else 0)"

definition uses_secondary :: "u16 \<Rightarrow> bool" where
  "uses_secondary kind \<longleftrightarrow> kind = 20 \<or> 22 \<le> kind \<and> kind \<le> 24 \<or> 28 \<le> kind \<and> kind \<le> 36"

definition uses_s1 :: "u16 \<Rightarrow> u16 \<Rightarrow> bool" where
  "uses_s1 kind flags \<longleftrightarrow>
     1 \<le> kind \<and> kind \<le> 3 \<or> 14 \<le> kind \<and> kind \<le> 16 \<or> 18 \<le> kind \<and> kind \<le> 19 \<or> kind = 21 \<or>
     24 \<le> kind \<and> kind \<le> 25 \<or> 29 \<le> kind \<and> kind \<le> 35 \<or>
     (kind = 13 \<or> kind = 36) \<and> flags AND 1 \<noteq> 0"

definition uses_s2 :: "u16 \<Rightarrow> bool" where
  "uses_s2 kind \<longleftrightarrow> kind = 3 \<or> kind = 25"

definition uses_s3 :: "u16 \<Rightarrow> bool" where
  "uses_s3 kind \<longleftrightarrow> kind = 25"

definition uses_gas_id :: "u16 \<Rightarrow> bool" where
  "uses_gas_id kind \<longleftrightarrow> 1 \<le> kind \<and> kind \<le> 4 \<or> kind = 8"

definition uses_aux :: "u16 \<Rightarrow> bool" where
  "uses_aux kind \<longleftrightarrow> kind = 12 \<or> kind = 31 \<or> kind = 34"

text \<open>\<open>input[a..b].iter().any(|byte| *byte != 0)\<close>.\<close>

definition any_nonzero :: "bytes \<Rightarrow> bool" where
  "any_nonzero bs \<longleftrightarrow> list_ex (\<lambda>b. b \<noteq> 0) bs"

definition mixture_command_decode :: "bytes \<Rightarrow> (mixture_command_request, payload_error) result" where
  "mixture_command_decode input =
     rbind (require_exact_len input 56) (\<lambda>_.
     rbind (read_u16 input 0) (\<lambda>kind.
     rbind (read_u16 input 2) (\<lambda>flags.
     rbind (reject_if (\<not> (1 \<le> kind \<and> kind \<le> 36)) (UnknownMixtureCommand kind)) (\<lambda>_.
     rbind (read_u16 input 46) (\<lambda>reserved1.
     rbind (read_u32 input 52) (\<lambda>reserved2.
     rbind (reject_if (reserved1 \<noteq> 0 \<or> reserved2 \<noteq> 0) ReservedMixtureCommandField) (\<lambda>_.
     rbind (reject_if (flags AND NOT (allowed_flags kind) \<noteq> 0) (UnknownMixtureCommandFlags kind flags)) (\<lambda>_.
     rbind (handle_slice input 4) (\<lambda>primary.
     rbind (handle_slice input 12) (\<lambda>secondary.
     rbind (scalar_slice input 20) (\<lambda>s1.
     rbind (scalar_slice input 28) (\<lambda>s2.
     rbind (scalar_slice input 36) (\<lambda>s3.
     rbind (read_u16 input 44) (\<lambda>gas_id.
     rbind (read_u32 input 48) (\<lambda>aux.
     rbind (slice 12 20 input) (\<lambda>secondary_bytes.
     rbind (slice 20 28 input) (\<lambda>s1_bytes.
     rbind (slice 28 36 input) (\<lambda>s2_bytes.
     rbind (slice 36 44 input) (\<lambda>s3_bytes.
     rbind (reject_if
        (\<not> uses_secondary kind \<and> any_nonzero secondary_bytes \<or>
         \<not> uses_s1 kind flags \<and> any_nonzero s1_bytes \<or>
         \<not> uses_s2 kind \<and> any_nonzero s2_bytes \<or>
         \<not> uses_s3 kind \<and> any_nonzero s3_bytes \<or>
         \<not> uses_gas_id kind \<and> gas_id \<noteq> 0 \<or>
         \<not> uses_aux kind \<and> aux \<noteq> 0) ReservedMixtureCommandField) (\<lambda>_.
     command_build (CommandLayout kind flags primary secondary s1 s2 s3 gas_id aux)))))))))))))))))))))"

section \<open>Commands and layouts\<close>

definition layout_finite :: "command_layout \<Rightarrow> bool" where
  "layout_finite l \<longleftrightarrow> is_finite (la_s1 l) \<and> is_finite (la_s2 l) \<and> is_finite (la_s3 l)"

definition layout_reserved :: "command_layout \<Rightarrow> bool" where
  "layout_reserved l \<longleftrightarrow>
     1 \<le> la_kind l \<and> la_kind l \<le> 36 \<and> la_flags l AND NOT (allowed_flags (la_kind l)) = 0 \<and>
     (uses_secondary (la_kind l) \<or> la_secondary l = zero_handle) \<and>
     (uses_s1 (la_kind l) (la_flags l) \<or> la_s1 l = 0) \<and>
     (uses_s2 (la_kind l) \<or> la_s2 l = 0) \<and> (uses_s3 (la_kind l) \<or> la_s3 l = 0) \<and>
     (uses_gas_id (la_kind l) \<or> la_gas_id l = 0) \<and> (uses_aux (la_kind l) \<or> la_aux l = 0)"

lemmas uses_defs = allowed_flags_def uses_secondary_def uses_s1_def uses_s2_def uses_s3_def
  uses_gas_id_def uses_aux_def

lemma above_one_u16: "\<not> (22 :: u16) \<le> 1" "\<not> (28 :: u16) \<le> 1"
  by (simp_all add: word_le_nat_alt)

lemma is_negative_0 [simp]: "\<not> is_negative 0"
  by (simp add: is_negative_def)

lemma command_build_parts:
  "case command_parts c of Ok l \<Rightarrow> command_build l = Ok c | _ \<Rightarrow> True"
proof (cases c)
  case (CmdBurnability h t)
  then show ?thesis
    by (cases t) (simp_all add: command_build_def command_arms_def Let_def u16_of_bool_def scalar_or_zero_def)
next
  case (CmdReact h t s)
  then show ?thesis
    by (cases s) (auto simp: command_build_def command_arms_def Let_def u16_of_bool_def scalar_or_zero_def
        reject_if_def)
qed (simp_all add: command_build_def command_arms_def Let_def u16_of_bool_def)

lemma layout_reserved_parts:
  "case command_parts c of Ok l \<Rightarrow> layout_reserved l | _ \<Rightarrow> True"
proof (cases c)
  case (CmdBurnability h t)
  then show ?thesis
    by (cases t) (simp_all add: layout_reserved_def uses_defs u16_of_bool_def scalar_or_zero_def)
next
  case (CmdReact h t s)
  then show ?thesis
    by (cases s) (auto simp: layout_reserved_def uses_defs u16_of_bool_def scalar_or_zero_def
        reject_if_def)
qed (simp_all add: layout_reserved_def uses_defs u16_of_bool_def)

lemma command_parts_build:
  assumes "layout_reserved l" and "command_build l = Ok c"
  shows "command_parts c = Ok l"
proof -
  from assms(2) have "(la_kind l, Ok c) \<in> set (command_arms l)"
    by (auto simp: command_build_def dest: map_of_SomeD split: option.splits)
  then show ?thesis
    using assms(1) unfolding command_arms_def Let_def list.set insert_iff empty_iff
    apply (cases l)
    apply (elim disjE)
    apply (auto simp: layout_reserved_def uses_defs flag_bit above_one_u16 u16_of_bool_def
        scalar_or_zero_def dest!: sym [of "Ok c"])
    done
qed

section \<open>The command codec\<close>

lemma any_nonzero_iff: "any_nonzero bs \<longleftrightarrow> bs \<noteq> zeros (length bs)"
  by (induction bs) (auto simp: any_nonzero_def zeros_def)

definition layout_bytes :: "command_layout \<Rightarrow> bytes" where
  "layout_bytes l =
     to_le_bytes (la_kind l) @ to_le_bytes (la_flags l) @ handle_encode (la_primary l) @
     handle_encode (la_secondary l) @ to_le_bytes (la_s1 l) @ to_le_bytes (la_s2 l) @
     to_le_bytes (la_s3 l) @ to_le_bytes (la_gas_id l) @ zeros 2 @ to_le_bytes (la_aux l) @ zeros 4"

lemma command_layout_encode_Ok_iff:
  "command_layout_encode l = Ok bs \<longleftrightarrow> layout_finite l \<and> bs = layout_bytes l"
proof (cases "layout_finite l")
  case True
  then have "command_layout_encode l = Ok (layout_bytes l)"
    by (simp add: command_layout_encode_def layout_finite_def layout_bytes_def put_simps
        handle_encode_append) (simp add: buf_def)
  with True show ?thesis by auto
next
  case False
  then show ?thesis by (auto simp: command_layout_encode_def layout_finite_def)
qed

lemma command_parts_iff:
  "command_parts c = Ok l \<longleftrightarrow> layout_reserved l \<and> command_build l = Ok c"
  using command_build_parts [of c] layout_reserved_parts [of c] command_parts_build [of l c] by auto

text \<open>The layout that the fields of a payload hold.\<close>

definition layout_at :: "bytes \<Rightarrow> command_layout" where
  "layout_at bs = CommandLayout (from_le_bytes (field 0 2 bs)) (from_le_bytes (field 2 2 bs))
     (handle_at (field 4 8 bs)) (handle_at (field 12 8 bs)) (from_le_bytes (field 20 8 bs))
     (from_le_bytes (field 28 8 bs)) (from_le_bytes (field 36 8 bs)) (from_le_bytes (field 44 2 bs))
     (from_le_bytes (field 48 4 bs))"

lemma layout_at_bytes: "layout_at (layout_bytes l) = l"
  by (cases l) (simp add: layout_at_def layout_bytes_def field_def)

lemma layout_bytes_at:
  assumes "length bs = 56" and "field 46 2 bs = zeros 2" and "field 52 4 bs = zeros 4"
  shows "layout_bytes (layout_at bs) = bs"
  using assms by (simp add: layout_bytes_def layout_at_def join_simps flip: assms(2,3))

lemma layout_bytes_reserved:
  "length (layout_bytes l) = 56" "field 46 2 (layout_bytes l) = zeros 2"
  "field 52 4 (layout_bytes l) = zeros 4"
  by (simp_all add: layout_bytes_def field_def)

lemma zero_field_handle:
  assumes "length bs = 8"
  shows "any_nonzero bs \<longleftrightarrow> handle_at bs \<noteq> zero_handle"
proof -
  have "zeros 8 = handle_encode zero_handle"
    by (simp add: handle_encode_append zero_handle_def to_le_zero zeros_def flip: replicate_add)
  moreover have "handle_encode (handle_at bs) = bs" using assms by simp
  ultimately show ?thesis
    using handle_encode_inject [of "handle_at bs" zero_handle] assms by (simp add: any_nonzero_iff)
qed

lemma zero_field_scalar:
  "length bs = 8 \<Longrightarrow> any_nonzero bs \<longleftrightarrow> (from_le_bytes bs :: u64) \<noteq> 0"
  by (simp add: any_nonzero_iff from_le_eq_0_iff_u64)

lemma mixture_command_decode_Ok_iff:
  "mixture_command_decode bs = Ok c \<longleftrightarrow>
     length bs = 56 \<and> field 46 2 bs = zeros 2 \<and> field 52 4 bs = zeros 4 \<and>
     layout_finite (layout_at bs) \<and> layout_reserved (layout_at bs) \<and> command_build (layout_at bs) = Ok c"
proof (cases "length bs = 56")
  case True
  have bits: "field 46 2 bs = zeros 2 \<longleftrightarrow> (from_le_bytes (field 46 2 bs) :: u16) = 0"
    "field 52 4 bs = zeros 4 \<longleftrightarrow> (from_le_bytes (field 52 4 bs) :: u32) = 0"
    using True by (simp_all add: from_le_eq_0_iff_u16 from_le_eq_0_iff_u32)
  have nonzero: "any_nonzero (field 12 8 bs) \<longleftrightarrow> handle_at (field 12 8 bs) \<noteq> zero_handle"
    "any_nonzero (field 20 8 bs) \<longleftrightarrow> (from_le_bytes (field 20 8 bs) :: u64) \<noteq> 0"
    "any_nonzero (field 28 8 bs) \<longleftrightarrow> (from_le_bytes (field 28 8 bs) :: u64) \<noteq> 0"
    "any_nonzero (field 36 8 bs) \<longleftrightarrow> (from_le_bytes (field 36 8 bs) :: u64) \<noteq> 0"
    using True zero_field_handle [of "field 12 8 bs"] zero_field_scalar by simp_all
  show ?thesis
    unfolding mixture_command_decode_def bits layout_at_def layout_finite_def layout_reserved_def
    using True nonzero by (simp add: scalar_slice_eq) argo
qed (simp add: mixture_command_decode_def)

lemma mixture_command_encode_Ok_iff:
  "mixture_command_encode c = Ok bs \<longleftrightarrow>
     (\<exists>l. layout_reserved l \<and> command_build l = Ok c \<and> layout_finite l \<and> bs = layout_bytes l)"
  by (auto simp: mixture_command_encode_def command_layout_encode_Ok_iff command_parts_iff)

lemma mixture_command_exact: "mixture_command_decode bs = Ok c \<longleftrightarrow> mixture_command_encode c = Ok bs"
proof
  assume "mixture_command_decode bs = Ok c"
  then show "mixture_command_encode c = Ok bs"
    using layout_bytes_at [of bs]
    by (auto simp: mixture_command_decode_Ok_iff mixture_command_encode_Ok_iff intro!: exI [of _ "layout_at bs"])
next
  assume "mixture_command_encode c = Ok bs"
  then show "mixture_command_decode bs = Ok c"
    by (auto simp: mixture_command_decode_Ok_iff mixture_command_encode_Ok_iff layout_at_bytes
        layout_bytes_reserved)
qed

lemma command_build_not_Panic [simp]: "command_build l \<noteq> Panic"
proof
  assume "command_build l = Panic"
  then have "(la_kind l, Panic) \<in> set (command_arms l)"
    by (auto simp: command_build_def dest: map_of_SomeD split: option.splits)
  then show False by (simp add: command_arms_def Let_def reject_if_def split: if_splits)
qed

lemma mixture_command_decode_not_Panic: "mixture_command_decode bs \<noteq> Panic"
  by (cases "length bs = 56") (simp_all add: mixture_command_decode_def scalar_slice_eq)

text \<open>A message is valid exactly when its encoder accepts it.\<close>

definition encodable :: "('m \<Rightarrow> (bytes, 'e) result) \<Rightarrow> 'm \<Rightarrow> bool" where
  "encodable enc m \<longleftrightarrow> (\<exists>bs. enc m = Ok bs)"

lemma codec_encodable:
  assumes "\<And>bs. dec bs \<noteq> Panic" and "\<And>bs m. dec bs = Ok m \<longleftrightarrow> enc m = Ok bs"
  shows "codec enc dec (encodable enc)"
  using assms by unfold_locales (auto simp: encodable_def)

interpretation mixture_command: codec mixture_command_encode mixture_command_decode
  "encodable mixture_command_encode"
  by (rule codec_encodable) (rule mixture_command_decode_not_Panic mixture_command_exact)+

section \<open>Command responses\<close>

datatype mixture_command_response =
    RspApplied u32
  | RspScalar scalar_value
  | RspScalars scalar_value scalar_value
  | RspBoolean bool
  | RspReactionProgress (rp_flags: u32) (rp_work_items: u32) (rp_pending: bool) (rp_transaction_id: u64)

definition reaction_flags :: u32 where
  "reaction_flags = 7"

definition response_parts :: "mixture_command_response \<Rightarrow> (u32 \<times> u32 \<times> bytes, payload_error) result" where
  "response_parts response = (case response of
      RspApplied updated \<Rightarrow> Ok (1, updated, zeros 16)
    | RspScalar scalar \<Rightarrow>
        rbind (scalar_encode scalar) (\<lambda>bs. Ok (2, 0, put 0 bs (zeros 16)))
    | RspScalars scalar0 scalar1 \<Rightarrow>
        rbind (scalar_encode scalar0) (\<lambda>bs0.
        rbind (scalar_encode scalar1) (\<lambda>bs1. Ok (3, 0, put 8 bs1 (put 0 bs0 (zeros 16)))))
    | RspBoolean value \<Rightarrow> Ok (4, u32_of_bool value, zeros 16)
    | RspReactionProgress flags work_items pending transaction_id \<Rightarrow>
        rbind (reject_if (flags AND NOT reaction_flags \<noteq> 0) (InvalidReactionFlags flags)) (\<lambda>_.
        Ok (5, flags, put 8 (to_le_bytes transaction_id)
          (put 4 (to_le_bytes (u32_of_bool pending)) (put 0 (to_le_bytes work_items) (zeros 16))))))"

definition mixture_response_encode :: "mixture_command_response \<Rightarrow> (bytes, payload_error) result" where
  "mixture_response_encode response =
     rbind (response_parts response) (\<lambda>(kind, value, payload).
     Ok (put 8 payload (put 4 (to_le_bytes value) (put 0 (to_le_bytes kind) (zeros 24)))))"

definition mixture_response_decode :: "bytes \<Rightarrow> (mixture_command_response, payload_error) result" where
  "mixture_response_decode input =
     rbind (require_exact_len input 24) (\<lambda>_.
     rbind (read_u32 input 0) (\<lambda>kind.
     rbind (read_u32 input 4) (\<lambda>val.
     rbind (slice 8 24 input) (\<lambda>payload.
     rbind (slice 16 24 input) (\<lambda>payload_tail.
     if kind = 1 \<and> \<not> any_nonzero payload then Ok (RspApplied val)
     else if kind = 2 \<and> val = 0 \<and> \<not> any_nonzero payload_tail then
       rbind (scalar_slice input 8) (\<lambda>scalar. Ok (RspScalar scalar))
     else if kind = 3 \<and> val = 0 then
       rbind (scalar_slice input 8) (\<lambda>scalar0.
       rbind (scalar_slice input 16) (\<lambda>scalar1. Ok (RspScalars scalar0 scalar1)))
     else if kind = 4 \<and> \<not> any_nonzero payload then
       rbind (decode_boolean val) (\<lambda>b. Ok (RspBoolean b))
     else if kind = 5 then
       rbind (reject_if (val AND NOT reaction_flags \<noteq> 0) (InvalidReactionFlags val)) (\<lambda>_.
       rbind (read_u32 input 8) (\<lambda>work_items.
       rbind (read_u32 input 12) (\<lambda>pending.
       rbind (decode_boolean pending) (\<lambda>pending.
       rbind (read_u64 input 16) (\<lambda>transaction_id.
       Ok (RspReactionProgress val work_items pending transaction_id))))))
     else Err (UnknownMixtureCommandResponse kind))))))"

lemma mixture_response_bytes:
  "mixture_response_encode r = Ok bs \<longleftrightarrow> (case r of
      RspApplied u \<Rightarrow> bs = to_le_bytes (1 :: u32) @ to_le_bytes u @ zeros 16
    | RspScalar s \<Rightarrow> is_finite s \<and> bs = to_le_bytes (2 :: u32) @ zeros 4 @ to_le_bytes s @ zeros 8
    | RspScalars s t \<Rightarrow> is_finite s \<and> is_finite t \<and>
        bs = to_le_bytes (3 :: u32) @ zeros 4 @ to_le_bytes s @ to_le_bytes t
    | RspBoolean b \<Rightarrow> bs = to_le_bytes (4 :: u32) @ to_le_bytes (u32_of_bool b) @ zeros 16
    | RspReactionProgress f w p t \<Rightarrow> f AND NOT reaction_flags = 0 \<and>
        bs = to_le_bytes (5 :: u32) @ to_le_bytes f @ to_le_bytes w @ to_le_bytes (u32_of_bool p) @ to_le_bytes t)"
  by (cases r)
    (simp_all add: mixture_response_encode_def response_parts_def put_simps to_le_zero,
      auto simp: buf_def)

lemma mixture_response_total: "mixture_response_decode bs \<noteq> Panic"
  by (cases "length bs = 24") (simp_all add: mixture_response_decode_def scalar_slice_eq)

lemma mixture_response_exact: "mixture_response_decode bs = Ok r \<longleftrightarrow> mixture_response_encode r = Ok bs"
proof
  assume "mixture_response_encode r = Ok bs"
  then show "mixture_response_decode bs = Ok r"
    by (cases r) (auto simp: mixture_response_bytes mixture_response_decode_def scalar_slice_eq field_def
        any_nonzero_iff)
next
  assume dec: "mixture_response_decode bs = Ok r"
  then have len: "length bs = 24" by (simp add: mixture_response_decode_def)
  have parts: "bs = field 0 4 bs @ field 4 4 bs @ field 8 16 bs"
    "bs = field 0 4 bs @ field 4 4 bs @ field 8 8 bs @ field 16 8 bs"
    "bs = field 0 4 bs @ field 4 4 bs @ field 8 4 bs @ field 12 4 bs @ field 16 8 bs"
    using len by (simp_all add: join_simps)
  have le: "from_le_bytes (field 0 4 bs) = (k :: u32) \<Longrightarrow> field 0 4 bs = to_le_bytes k"
    "from_le_bytes (field 4 4 bs) = k \<Longrightarrow> field 4 4 bs = to_le_bytes k"
    "from_le_bytes (field 12 4 bs) = k \<Longrightarrow> field 12 4 bs = to_le_bytes k" for k
    using len by auto
  show "mixture_response_encode r = Ok bs"
    using dec len parts
    by (auto simp: mixture_response_bytes mixture_response_decode_def scalar_slice_eq
        any_nonzero_iff to_le_zero split: if_splits dest!: le)
qed

interpretation mixture_response: codec mixture_response_encode mixture_response_decode
  "encodable mixture_response_encode"
  by (rule codec_encodable) (rule mixture_response_total mixture_response_exact)+

section \<open>Adjusting several gases at once\<close>

record mixture_adjustment =
  ma_gas_id :: u16
  ma_delta :: scalar_value

definition max_gas_slots :: nat where
  "max_gas_slots = 32"

definition adjustment_encode :: "mixture_adjustment \<Rightarrow> (bytes, payload_error) result" where
  "adjustment_encode a =
     rbind (scalar_encode (ma_delta a)) (\<lambda>delta.
     Ok (put 8 delta (put 0 (to_le_bytes (ma_gas_id a)) (zeros 16))))"

definition adjustment_decode :: "bytes \<Rightarrow> nat \<Rightarrow> (mixture_adjustment, payload_error) result" where
  "adjustment_decode input pos =
     rbind (read_u16 input (pos + 2)) (\<lambda>reserved1.
     rbind (read_u32 input (pos + 4)) (\<lambda>reserved2.
     rbind (reject_if (reserved1 \<noteq> 0 \<or> reserved2 \<noteq> 0) ReservedMixtureAdjustmentField) (\<lambda>_.
     rbind (read_u16 input pos) (\<lambda>gas_id.
     rbind (scalar_slice input (pos + 8)) (\<lambda>delta.
     Ok \<lparr>ma_gas_id = gas_id, ma_delta = delta\<rparr>)))))"

definition encode_adjust_multiple_request ::
  "wire_handle \<times> mixture_adjustment list \<Rightarrow> (bytes, payload_error) result" where
  "encode_adjust_multiple_request = (\<lambda>(handle, adjustments).
     rbind (ok_or (u32_try_from (length adjustments))
       (OperationCountExceeded (word_of_nat u32_max) (word_of_nat max_gas_slots))) (\<lambda>count.
     rbind (reject_if (count > word_of_nat max_gas_slots)
       (OperationCountExceeded count (word_of_nat max_gas_slots))) (\<lambda>_.
     rbind (rmap adjustment_encode adjustments) (\<lambda>records.
     Ok (handle_encode handle @ to_le_bytes count @ concat records)))))"

definition decode_adjust_multiple_request ::
  "nat \<Rightarrow> bytes \<Rightarrow> (wire_handle \<times> mixture_adjustment list, payload_error) result" where
  "decode_adjust_multiple_request usize_max input =
     rbind (reject_if (length input < 12) (InvalidPayloadLength 12 (word_of_nat (length input)))) (\<lambda>_.
     rbind (handle_slice input 0) (\<lambda>handle.
     rbind (read_u32 input 8) (\<lambda>count.
     rbind (reject_if (count > word_of_nat max_gas_slots)
       (OperationCountExceeded count (word_of_nat max_gas_slots))) (\<lambda>_.
     rbind (checked_payload_len usize_max input 12 count 16) (\<lambda>expected.
     rbind (require_exact_len input expected) (\<lambda>_.
     rbind (rmap (\<lambda>index. adjustment_decode input (12 + index * 16)) [0..<unat count]) (\<lambda>adjustments.
     Ok (handle, adjustments))))))))"

lemma adjustment_bytes:
  "adjustment_encode a = Ok bs \<longleftrightarrow>
     is_finite (ma_delta a) \<and> bs = to_le_bytes (ma_gas_id a) @ zeros 6 @ to_le_bytes (ma_delta a)"
  by (cases "is_finite (ma_delta a)") (auto simp: adjustment_encode_def put_simps)

interpretation adjustment: record_codec adjustment_encode adjustment_decode 16 "\<lambda>a. is_finite (ma_delta a)"
proof
  show "adjustment_decode input pos = adjustment_decode (field pos 16 input) 0"
    if "pos + 16 \<le> length input" for pos input
    using that by (simp add: adjustment_decode_def scalar_slice_eq field_field cong: rbind_full_cong)
  show "adjustment_decode r 0 \<noteq> Panic" if "length r = 16" for r
    using that by (simp add: adjustment_decode_def scalar_slice_eq)
  show "adjustment_decode r 0 = Ok x" if "adjustment_encode x = Ok r" for x r
  proof -
    have "r = to_le_bytes (ma_gas_id x) @ zeros 2 @ zeros 4 @ to_le_bytes (ma_delta x)"
      and "is_finite (ma_delta x)"
      using that by (simp_all add: adjustment_bytes) (simp add: zeros_append flip: append_assoc)
    then show ?thesis by (simp add: adjustment_decode_def scalar_slice_eq field_def)
  qed
  show "is_finite (ma_delta x) \<and> adjustment_encode x = Ok r"
    if len: "length r = 16" and dec: "adjustment_decode r 0 = Ok x" for x r
  proof -
    have "is_finite (ma_delta x)" and "field 2 2 r = zeros 2" and "field 4 4 r = zeros 4"
      and x: "x = \<lparr>ma_gas_id = from_le_bytes (field 0 2 r), ma_delta = from_le_bytes (field 8 8 r)\<rparr>"
      using dec len
      by (auto simp: adjustment_decode_def scalar_slice_eq from_le_eq_0_iff_u16 from_le_eq_0_iff_u32
          numeral_2_eq_2)
    moreover have "zeros 6 = zeros 2 @ zeros 4" by (simp add: zeros_append)
    moreover have "r = field 0 2 r @ field 2 2 r @ field 4 4 r @ field 8 8 r"
      using len by (simp add: join_simps)
    ultimately show ?thesis using len by (simp add: adjustment_bytes)
  qed
qed (auto simp: adjustment_bytes)

definition adjust_valid :: "nat \<Rightarrow> wire_handle \<times> mixture_adjustment list \<Rightarrow> bool" where
  "adjust_valid usize_max m \<longleftrightarrow> list_all (\<lambda>a. is_finite (ma_delta a)) (snd m) \<and>
     length (snd m) \<le> max_gas_slots \<and> 12 + length (snd m) * 16 \<le> usize_max"

lemma small_count: "n \<le> max_gas_slots \<Longrightarrow> n \<le> u32_max"
  by (simp add: max_gas_slots_def u32_max_def)

lemma count_within: "n \<le> u32_max \<Longrightarrow> word_of_nat max_gas_slots < (word_of_nat n :: u32) \<longleftrightarrow> max_gas_slots < n"
  by (simp add: word_less_nat_alt unat_word_of_nat_u32 max_gas_slots_def u32_max_def)

lemma encode_adjust_Ok_iff:
  "encode_adjust_multiple_request (h, xs) = Ok bs \<longleftrightarrow>
     length xs \<le> max_gas_slots \<and> (\<exists>rs. rmap adjustment_encode xs = Ok rs \<and>
       bs = handle_encode h @ to_le_bytes (word_of_nat (length xs) :: u32) @ concat rs)"
  using small_count [of "length xs"] count_within [of "length xs"]
  by (auto simp: encode_adjust_multiple_request_def u32_try_from_def not_less)

interpretation adjust_multiple: codec encode_adjust_multiple_request
  "decode_adjust_multiple_request usize_max" "adjust_valid usize_max" for usize_max
proof
  show "decode_adjust_multiple_request usize_max bs \<noteq> Panic" for bs
    using adjustment.records_total [of 12 _ bs] by (auto simp: decode_adjust_multiple_request_def not_less)
  show "\<exists>bs. encode_adjust_multiple_request m = Ok bs" if "adjust_valid usize_max m" for m
    using that adjustment.records_enc by (cases m) (auto simp: encode_adjust_Ok_iff adjust_valid_def)
  show "decode_adjust_multiple_request usize_max bs = Ok m"
    if "adjust_valid usize_max m" and "encode_adjust_multiple_request m = Ok bs" for bs m
  proof -
    obtain h xs where m: "m = (h, xs)" by force
    let ?count = "word_of_nat (length xs) :: u32"
    from that obtain rs where rs: "rmap adjustment_encode xs = Ok rs"
      and bs: "bs = (handle_encode h @ to_le_bytes ?count) @ concat rs @ []"
      by (auto simp: m encode_adjust_Ok_iff)
    have fin: "list_all (\<lambda>a. is_finite (ma_delta a)) xs" and n: "length xs \<le> max_gas_slots"
      using that(1) by (simp_all add: m adjust_valid_def)
    have len: "length bs = 12 + length xs * 16"
      using adjustment.records_enc_len [OF fin rs] by (simp add: bs)
    have hdr: "field 8 4 bs = to_le_bytes ?count" "field 0 8 bs = handle_encode h"
      by (simp_all add: bs field_def)
    have "rmap (\<lambda>index. adjustment_decode bs (12 + index * 16)) [0..<length xs] = Ok xs"
      using adjustment.records_round_trip [OF fin rs, of "handle_encode h @ to_le_bytes ?count" "[]"]
      by (simp add: bs)
    then show ?thesis
      using that(1) len n small_count [OF n] count_within [OF small_count [OF n]]
      by (simp add: decode_adjust_multiple_request_def hdr m adjust_valid_def unat_word_of_nat_u32
          reject_if_def)
  qed
  show "adjust_valid usize_max m \<and> encode_adjust_multiple_request m = Ok bs"
    if "decode_adjust_multiple_request usize_max bs = Ok m" for bs m
  proof -
    let ?count = "from_le_bytes (field 8 4 bs) :: u32"
    from that obtain xs where m: "m = (handle_at (field 0 8 bs), xs)"
      and count: "\<not> word_of_nat max_gas_slots < ?count"
      and len: "length bs = 12 + unat ?count * 16" "length bs \<le> usize_max"
      and recs: "rmap (\<lambda>index. adjustment_decode bs (12 + index * 16)) [0..<unat ?count] = Ok xs"
      by (cases "length bs < 12") (auto simp: decode_adjust_multiple_request_def)
    note can = adjustment.records_canonical [OF _ recs, unfolded len(1), OF order_refl]
    have n: "unat ?count \<le> max_gas_slots"
      using count by (simp add: word_less_nat_alt not_less max_gas_slots_def)
    then show ?thesis
      using can len
      by (auto simp: m adjust_valid_def encode_adjust_Ok_iff concat_fields join_simps)
  qed
qed

section \<open>Inside a continuation\<close>

text \<open>The token's 24 bytes, then the command's.\<close>

record continuation_command_request =
  cc_token :: continuation_token
  cc_command :: mixture_command_request

definition continuation_command_encode :: "continuation_command_request \<Rightarrow> (bytes, payload_error) result" where
  "continuation_command_encode r =
     rbind (token_encode (cc_token r)) (\<lambda>token.
     rbind (mixture_command_encode (cc_command r)) (\<lambda>command.
     Ok (put 24 command (put 0 token (zeros 80)))))"

definition continuation_command_decode :: "bytes \<Rightarrow> (continuation_command_request, payload_error) result" where
  "continuation_command_decode input =
     rbind (require_exact_len input 80) (\<lambda>_.
     rbind (slice 0 24 input) (\<lambda>token_bytes.
     rbind (token_decode token_bytes) (\<lambda>token.
     rbind (slice 24 (length input) input) (\<lambda>command_bytes.
     rbind (mixture_command_decode command_bytes) (\<lambda>command.
     Ok \<lparr>cc_token = token, cc_command = command\<rparr>)))))"

record continuation_resume_request =
  cr_token :: continuation_token
  cr_reaction_result :: u32

definition continuation_resume_encode :: "continuation_resume_request \<Rightarrow> (bytes, payload_error) result" where
  "continuation_resume_encode r =
     rbind (reject_if (cr_reaction_result r AND NOT reaction_flags \<noteq> 0)
       (InvalidReactionFlags (cr_reaction_result r))) (\<lambda>_.
     rbind (token_encode (cr_token r)) (\<lambda>token.
     Ok (put 24 (to_le_bytes (cr_reaction_result r)) (put 0 token (zeros 32)))))"

definition continuation_resume_decode :: "bytes \<Rightarrow> (continuation_resume_request, payload_error) result" where
  "continuation_resume_decode input =
     rbind (require_exact_len input 32) (\<lambda>_.
     rbind (read_u32 input 28) (\<lambda>reserved.
     rbind (reject_if (reserved \<noteq> 0) (ReservedContinuationField reserved)) (\<lambda>_.
     rbind (slice 0 24 input) (\<lambda>token_bytes.
     rbind (token_decode token_bytes) (\<lambda>token.
     rbind (read_u32 input 24) (\<lambda>reaction_result.
     let request = \<lparr>cr_token = token, cr_reaction_result = reaction_result\<rparr>
     in rbind (continuation_resume_encode request) (\<lambda>_. Ok request)))))))"

definition encode_continuation_adjust_multiple_request ::
  "continuation_token \<times> wire_handle \<times> mixture_adjustment list \<Rightarrow> (bytes, payload_error) result" where
  "encode_continuation_adjust_multiple_request = (\<lambda>(token, nested).
     rbind (encode_adjust_multiple_request nested) (\<lambda>output.
     rbind (token_encode token) (\<lambda>token_bytes. Ok (token_bytes @ output))))"

definition decode_continuation_adjust_multiple_request ::
  "nat \<Rightarrow> bytes \<Rightarrow> (continuation_token \<times> wire_handle \<times> mixture_adjustment list, payload_error) result" where
  "decode_continuation_adjust_multiple_request usize_max input =
     rbind (reject_if (length input < 24) (InvalidPayloadLength 24 (word_of_nat (length input)))) (\<lambda>_.
     rbind (slice 0 24 input) (\<lambda>token_bytes.
     rbind (token_decode token_bytes) (\<lambda>token.
     rbind (slice 24 (length input) input) (\<lambda>rest.
     rbind (decode_adjust_multiple_request usize_max rest) (\<lambda>(handle, adjustments).
     Ok (token, handle, adjustments))))))"

lemma token_prefix:
  "24 \<le> length bs \<Longrightarrow> token_decode (field 0 24 bs) = Ok t \<longleftrightarrow> token_encode t = Ok (field 0 24 bs)"
  using token.dec_Ok_iff token_encode_Ok_iff by metis

lemma token_then:
  "(\<exists>t b. token_encode x = Ok t \<and> P b \<and> bs = t @ b) \<longleftrightarrow>
     24 \<le> length bs \<and> token_encode x = Ok (field 0 24 bs) \<and> P (field 24 (length bs - 24) bs)"
proof (intro iffI; elim exE conjE)
  fix t b assume "token_encode x = Ok t" and "P b" and "bs = t @ b"
  then show "24 \<le> length bs \<and> token_encode x = Ok (field 0 24 bs) \<and> P (field 24 (length bs - 24) bs)"
    using token_encode_length [of x t] by (simp add: field_def)
next
  assume "24 \<le> length bs" and "token_encode x = Ok (field 0 24 bs)" and "P (field 24 (length bs - 24) bs)"
  moreover from this have "bs = field 0 24 bs @ field 24 (length bs - 24) bs"
    by (simp add: field_def)
  ultimately show "\<exists>t b. token_encode x = Ok t \<and> P b \<and> bs = t @ b" by blast
qed

lemma token_decode_not_Panic [simp]: "token_decode bs \<noteq> Panic"
  by (rule token.dec_total)

lemma mixture_command_length: "mixture_command_encode x = Ok c \<Longrightarrow> length c = 56"
  by (auto simp: mixture_command_encode_Ok_iff layout_bytes_reserved)

lemma continuation_command_bytes:
  "continuation_command_encode r = Ok bs \<longleftrightarrow>
     (\<exists>t b. token_encode (cc_token r) = Ok t \<and> mixture_command_encode (cc_command r) = Ok b \<and> bs = t @ b)"
proof -
  have "put 24 c (put 0 t (zeros 80)) = t @ c"
    if "token_encode x = Ok t" "mixture_command_encode y = Ok c" for x y c t
    using token_encode_length [OF that(1)] mixture_command_length [OF that(2)] by (simp add: put_simps)
  then show ?thesis by (auto simp: continuation_command_encode_def)
qed

lemma continuation_command_exact:
  "continuation_command_decode bs = Ok r \<longleftrightarrow> continuation_command_encode r = Ok bs"
proof (cases "length bs = 80")
  case True
  then show ?thesis
    unfolding continuation_command_bytes token_then
    by (cases r) (auto simp: continuation_command_decode_def token_prefix mixture_command_exact)
next
  case False
  then show ?thesis
    using token_encode_length [of "cc_token r"] mixture_command_length [of "cc_command r"]
    by (fastforce simp: continuation_command_bytes continuation_command_decode_def)
qed

lemma continuation_resume_bytes:
  "continuation_resume_encode r = Ok bs \<longleftrightarrow> cr_reaction_result r AND NOT reaction_flags = 0 \<and>
     (\<exists>t b. token_encode (cr_token r) = Ok t \<and> b = to_le_bytes (cr_reaction_result r) @ zeros 4 \<and> bs = t @ b)"
proof -
  have "put 24 (to_le_bytes w) (put 0 t (zeros 32)) = t @ to_le_bytes (w :: u32) @ zeros 4"
    if "token_encode x = Ok t" for x w t
    using token_encode_length [OF that] by (simp add: put_simps) (simp add: buf_def)
  then show ?thesis by (auto simp: continuation_resume_encode_def)
qed

lemma field_24_8:
  assumes "length bs = 32"
  shows "field 24 8 bs = to_le_bytes w @ zeros 4 \<longleftrightarrow>
    from_le_bytes (field 24 4 bs) = (w :: u32) \<and> (from_le_bytes (field 28 4 bs) :: u32) = 0"
proof -
  have "field 24 8 bs = field 24 4 bs @ field 28 4 bs" by (simp add: field_join)
  then show ?thesis using assms by (simp add: from_le_eq_iff_u32 to_le_zero)
qed

lemma continuation_resume_exact:
  "continuation_resume_decode bs = Ok r \<longleftrightarrow> continuation_resume_encode r = Ok bs"
proof (cases "length bs = 32")
  case True
  have enc: "continuation_resume_encode r = Ok bs \<longleftrightarrow> cr_reaction_result r AND NOT reaction_flags = 0 \<and>
      token_encode (cr_token r) = Ok (field 0 24 bs) \<and>
      from_le_bytes (field 24 4 bs) = cr_reaction_result r \<and> (from_le_bytes (field 28 4 bs) :: u32) = 0"
    for r :: continuation_resume_request
    unfolding continuation_resume_bytes token_then
    using True field_24_8 [OF True, of "cr_reaction_result r"] by simp
  have some: "(\<exists>bs. continuation_resume_encode r = Ok bs) \<longleftrightarrow>
      cr_reaction_result r AND NOT reaction_flags = 0 \<and> (\<exists>t. token_encode (cr_token r) = Ok t)"
    for r :: continuation_resume_request
    by (auto simp: continuation_resume_bytes)
  show ?thesis
    using True unfolding enc
    by (cases r) (auto simp: continuation_resume_decode_def token_prefix Let_def some)
next
  case False
  then show ?thesis
    by (auto simp: continuation_resume_bytes continuation_resume_decode_def dest: token_encode_length)
qed

lemma continuation_adjust_exact:
  "decode_continuation_adjust_multiple_request usize_max bs = Ok (t, m) \<longleftrightarrow>
     adjust_valid usize_max m \<and> encode_continuation_adjust_multiple_request (t, m) = Ok bs"
proof -
  have "encode_continuation_adjust_multiple_request (t, m) = Ok bs \<longleftrightarrow>
      (\<exists>tb b. token_encode t = Ok tb \<and> encode_adjust_multiple_request m = Ok b \<and> bs = tb @ b)"
    by (auto simp: encode_continuation_adjust_multiple_request_def)
  then show ?thesis
    unfolding token_then
    by (cases m; cases "24 \<le> length bs")
      (auto simp: decode_continuation_adjust_multiple_request_def token_prefix
        adjust_multiple.dec_Ok_iff not_less)
qed

lemma continuation_total:
  "continuation_command_decode bs \<noteq> Panic" "continuation_resume_decode bs \<noteq> Panic"
  "decode_continuation_adjust_multiple_request usize_max bs \<noteq> Panic"
proof -
  show "continuation_command_decode bs \<noteq> Panic"
    by (auto simp: continuation_command_decode_def mixture_command_decode_not_Panic)
  have "continuation_resume_encode r \<noteq> Panic" for r :: continuation_resume_request
    by (simp add: continuation_resume_encode_def)
  then show "continuation_resume_decode bs \<noteq> Panic"
    by (auto simp: continuation_resume_decode_def Let_def)
  show "decode_continuation_adjust_multiple_request usize_max bs \<noteq> Panic"
    by (auto simp: decode_continuation_adjust_multiple_request_def adjust_multiple.dec_total not_less)
qed

interpretation continuation_command: codec continuation_command_encode continuation_command_decode
  "encodable continuation_command_encode"
  by (rule codec_encodable) (rule continuation_total continuation_command_exact)+

interpretation continuation_resume: codec continuation_resume_encode continuation_resume_decode
  "encodable continuation_resume_encode"
  by (rule codec_encodable) (rule continuation_total continuation_resume_exact)+

section \<open>What the command formats guarantee\<close>

text \<open>
  C18: a payload decodes to one of the thirty-six mixture commands exactly when it is the encoding
  of that command: no command is lost or confused with another, every field a command does not
  use must be zero, and no payload makes the decoder panic.
\<close>

theorem mixture_command_codec_exact:
  "(mixture_command_decode input = Ok command \<longleftrightarrow> mixture_command_encode command = Ok input) \<and>
   mixture_command_decode input \<noteq> Panic"
  using mixture_command_exact mixture_command_decode_not_Panic by blast

text \<open>
  Every command whose scalars are finite and whose reaction threshold, if any, is not negative
  has an encoding, and decoding it gives the command back; a non-finite scalar or a negative
  threshold is refused when the command is encoded.
\<close>

theorem mixture_command_encodable:
  "(\<exists>bytes. mixture_command_encode (CmdSetMoles h g x) = Ok bytes \<and>
      mixture_command_decode bytes = Ok (CmdSetMoles h g x)) = is_finite x \<and>
   (\<exists>bytes. mixture_command_encode (CmdTemperatureShareNonGas h x y z) = Ok bytes \<and>
      mixture_command_decode bytes = Ok (CmdTemperatureShareNonGas h x y z)) =
      (is_finite x \<and> is_finite y \<and> is_finite z) \<and>
   (\<exists>bytes. mixture_command_encode (CmdReact h k (Some x)) = Ok bytes \<and>
      mixture_command_decode bytes = Ok (CmdReact h k (Some x))) = (is_finite x \<and> \<not> is_negative x) \<and>
   (\<exists>bytes. mixture_command_encode (CmdReact h k None) = Ok bytes \<and>
      mixture_command_decode bytes = Ok (CmdReact h k None))"
  unfolding mixture_command_exact
  by (auto simp: mixture_command_encode_def command_layout_encode_Ok_iff layout_finite_def
      scalar_or_zero_def)

text \<open>
  The same exactness for command responses, and for the commands, resumptions and adjustments
  that run inside a continuation.
\<close>

theorem continuation_messages_exact:
  "(mixture_response_decode input = Ok response \<longleftrightarrow> mixture_response_encode response = Ok input) \<and>
   (continuation_command_decode input = Ok cc \<longleftrightarrow> continuation_command_encode cc = Ok input) \<and>
   (continuation_resume_decode input = Ok cr \<longleftrightarrow> continuation_resume_encode cr = Ok input) \<and>
   (decode_adjust_multiple_request usize_max input = Ok adj \<longleftrightarrow>
      adjust_valid usize_max adj \<and> encode_adjust_multiple_request adj = Ok input) \<and>
   (decode_continuation_adjust_multiple_request usize_max input = Ok (token, adj) \<longleftrightarrow>
      adjust_valid usize_max adj \<and> encode_continuation_adjust_multiple_request (token, adj) = Ok input)"
  using mixture_response_exact continuation_command_exact continuation_resume_exact
    adjust_multiple.dec_Ok_iff continuation_adjust_exact by blast

end
