(* ===== verification/Wire_Mixture.thy ===== *)
theory Wire_Mixture
  imports Wire_Command Wire_Frontier
begin

text \<open>
  Mixture snapshots, state mutations and the upload of states
  (\<^verbatim>\<open>crates/dogmos-protocol/src/lib.rs\<close>). A mixture carries \<open>max_gas_slots\<close> gas amounts; the
  Rust array \<open>[ScalarValue; 32]\<close> is a list of that length.
\<close>

section \<open>Snapshots\<close>

text \<open>\<open>MixtureSnapshotRequest\<close> is a bare handle.\<close>

definition snapshot_request_decode :: "bytes \<Rightarrow> (wire_handle, payload_error) result" where
  "snapshot_request_decode input = rbind (require_exact_len input 8) (\<lambda>_. handle_decode input)"

record mixture_snapshot =
  ms_revision :: u32
  ms_gas_count :: u32
  ms_temperature :: scalar_value
  ms_volume :: scalar_value
  ms_minimum_heat_capacity :: scalar_value
  ms_total_moles :: scalar_value
  ms_pressure :: scalar_value
  ms_heat_capacity :: scalar_value
  ms_immutable :: bool
  ms_gases :: "scalar_value list"

definition validate_gas_count :: "u32 \<Rightarrow> (unit, payload_error) result" where
  "validate_gas_count gas_count =
     reject_if (gas_count > word_of_nat max_gas_slots)
       (GasCountExceeded gas_count (word_of_nat max_gas_slots))"

definition mixture_snapshot_encode :: "mixture_snapshot \<Rightarrow> (bytes, payload_error) result" where
  "mixture_snapshot_encode s =
     rbind (validate_gas_count (ms_gas_count s)) (\<lambda>_.
     rbind (scalar_encode (ms_temperature s)) (\<lambda>temperature.
     rbind (scalar_encode (ms_volume s)) (\<lambda>vol.
     rbind (scalar_encode (ms_minimum_heat_capacity s)) (\<lambda>minimum_heat_capacity.
     rbind (scalar_encode (ms_total_moles s)) (\<lambda>total_moles.
     rbind (scalar_encode (ms_pressure s)) (\<lambda>pressure.
     rbind (scalar_encode (ms_heat_capacity s)) (\<lambda>heat_capacity.
     rbind (rmap scalar_encode (ms_gases s)) (\<lambda>gases.
     Ok (put_each 64 8 gases
        (put 56 heat_capacity (put 48 pressure (put 40 total_moles
        (put 32 (to_le_bytes (u32_of_bool (ms_immutable s)))
        (put 24 minimum_heat_capacity (put 16 vol (put 8 temperature
        (put 4 (to_le_bytes (ms_gas_count s))
        (put 0 (to_le_bytes (ms_revision s)) (zeros 320)))))))))))))))))))"

definition mixture_snapshot_decode :: "bytes \<Rightarrow> (mixture_snapshot, payload_error) result" where
  "mixture_snapshot_decode input =
     rbind (require_exact_len input 320) (\<lambda>_.
     rbind (read_u32 input 4) (\<lambda>gas_count.
     rbind (validate_gas_count gas_count) (\<lambda>_.
     rbind (read_u32 input 32) (\<lambda>flags.
     rbind (reject_if (flags AND NOT 1 \<noteq> 0) (UnknownMixtureSnapshotFlags flags)) (\<lambda>_.
     rbind (read_u32 input 36) (\<lambda>reserved.
     rbind (reject_if (reserved \<noteq> 0) (ReservedMixtureSnapshotField reserved)) (\<lambda>_.
     rbind (rmap (\<lambda>index. scalar_slice input (64 + index * 8)) [0..<max_gas_slots]) (\<lambda>gases.
     rbind (read_u32 input 0) (\<lambda>revision.
     rbind (scalar_slice input 8) (\<lambda>temperature.
     rbind (scalar_slice input 16) (\<lambda>vol.
     rbind (scalar_slice input 24) (\<lambda>minimum_heat_capacity.
     rbind (scalar_slice input 40) (\<lambda>total_moles.
     rbind (scalar_slice input 48) (\<lambda>pressure.
     rbind (scalar_slice input 56) (\<lambda>heat_capacity.
     Ok \<lparr>ms_revision = revision, ms_gas_count = gas_count, ms_temperature = temperature,
         ms_volume = vol, ms_minimum_heat_capacity = minimum_heat_capacity,
         ms_total_moles = total_moles, ms_pressure = pressure, ms_heat_capacity = heat_capacity,
         ms_immutable = (flags AND 1 \<noteq> 0), ms_gases = gases\<rparr>)))))))))))))))"

definition snapshot_valid :: "mixture_snapshot \<Rightarrow> bool" where
  "snapshot_valid s \<longleftrightarrow> ms_gas_count s \<le> word_of_nat max_gas_slots \<and> length (ms_gases s) = max_gas_slots \<and>
     list_all is_finite (ms_gases s) \<and> is_finite (ms_temperature s) \<and> is_finite (ms_volume s) \<and>
     is_finite (ms_minimum_heat_capacity s) \<and> is_finite (ms_total_moles s) \<and>
     is_finite (ms_pressure s) \<and> is_finite (ms_heat_capacity s)"

definition snapshot_bytes :: "mixture_snapshot \<Rightarrow> bytes" where
  "snapshot_bytes s =
     to_le_bytes (ms_revision s) @ to_le_bytes (ms_gas_count s) @ to_le_bytes (ms_temperature s) @
     to_le_bytes (ms_volume s) @ to_le_bytes (ms_minimum_heat_capacity s) @
     to_le_bytes (u32_of_bool (ms_immutable s)) @ zeros 4 @ to_le_bytes (ms_total_moles s) @
     to_le_bytes (ms_pressure s) @ to_le_bytes (ms_heat_capacity s) @
     concat (map to_le_bytes (ms_gases s))"

lemma validate_gas_count_simps [simp]:
  "validate_gas_count c = Ok () \<longleftrightarrow> c \<le> word_of_nat max_gas_slots" "validate_gas_count c \<noteq> Panic"
  "c \<le> word_of_nat max_gas_slots \<Longrightarrow> validate_gas_count c = Ok ()"
  by (auto simp: validate_gas_count_def)

lemma snapshot_encode_valid:
  "snapshot_valid s \<Longrightarrow> mixture_snapshot_encode s = Ok (snapshot_bytes s)"
  by (simp add: mixture_snapshot_encode_def snapshot_valid_def snapshot_bytes_def put_simps)
    (simp add: max_gas_slots_def put_simps)

lemma flag_of_bool: "u32_of_bool b AND - 2 = 0" "u32_of_bool b AND 1 \<noteq> 0 \<longleftrightarrow> b"
  by (simp_all add: u32_of_bool_def)

lemma flag_as_bool: "w AND - 2 = 0 \<Longrightarrow> u32_of_bool (w AND 1 \<noteq> 0) = w"
  by (auto simp: flag_bit u32_of_bool_def)

lemma snapshot_fields:
  assumes "length (ms_gases s) = 32"
  shows "length (snapshot_bytes s) = 320"
    and "field 0 4 (snapshot_bytes s) = to_le_bytes (ms_revision s)"
    and "field 4 4 (snapshot_bytes s) = to_le_bytes (ms_gas_count s)"
    and "field 8 8 (snapshot_bytes s) = to_le_bytes (ms_temperature s)"
    and "field 16 8 (snapshot_bytes s) = to_le_bytes (ms_volume s)"
    and "field 24 8 (snapshot_bytes s) = to_le_bytes (ms_minimum_heat_capacity s)"
    and "field 32 4 (snapshot_bytes s) = to_le_bytes (u32_of_bool (ms_immutable s))"
    and "field 36 4 (snapshot_bytes s) = zeros 4"
    and "field 40 8 (snapshot_bytes s) = to_le_bytes (ms_total_moles s)"
    and "field 48 8 (snapshot_bytes s) = to_le_bytes (ms_pressure s)"
    and "field 56 8 (snapshot_bytes s) = to_le_bytes (ms_heat_capacity s)"
    and "field 64 256 (snapshot_bytes s) = concat (map to_le_bytes (ms_gases s))"
  using assms by (simp_all add: snapshot_bytes_def field_def)

lemma gases_at:
  "base + 256 \<le> length input \<Longrightarrow>
   rmap (\<lambda>index. scalar_slice input (base + index * 8)) [0..<max_gas_slots] = Ok gases \<longleftrightarrow>
     length gases = max_gas_slots \<and> list_all is_finite gases \<and>
     field base 256 input = concat (map to_le_bytes gases)"
  using scalars_at [of base max_gas_slots input gases] by (simp add: max_gas_slots_def)

lemma gases_total:
  "base + 256 \<le> length input \<Longrightarrow>
   rmap (\<lambda>index. scalar_slice input (base + index * 8)) [0..<max_gas_slots] \<noteq> Panic"
  using scalar_record.records_total [of base max_gas_slots input] by (simp add: max_gas_slots_def)

interpretation snapshot: codec mixture_snapshot_encode mixture_snapshot_decode snapshot_valid
proof
  show "mixture_snapshot_decode bs \<noteq> Panic" for bs
    using gases_total [of 64 bs] by (auto simp: mixture_snapshot_decode_def scalar_slice_eq)
  show "\<exists>bs. mixture_snapshot_encode s = Ok bs" if "snapshot_valid s" for s
    using that by (simp add: snapshot_encode_valid)
  show "mixture_snapshot_decode bs = Ok s"
    if valid: "snapshot_valid s" and enc: "mixture_snapshot_encode s = Ok bs" for s bs
  proof -
    have bs: "bs = snapshot_bytes s" using enc snapshot_encode_valid [OF valid] by simp
    have n: "length (ms_gases s) = 32" using valid by (simp add: snapshot_valid_def max_gas_slots_def)
    have "rmap (\<lambda>index. scalar_slice bs (64 + index * 8)) [0..<max_gas_slots] = Ok (ms_gases s)"
      using valid snapshot_fields [OF n] by (subst gases_at) (simp_all add: bs snapshot_valid_def)
    then show ?thesis
      using valid snapshot_fields [OF n]
      by (simp add: bs mixture_snapshot_decode_def snapshot_valid_def scalar_slice_eq flag_of_bool)
  qed
  show "snapshot_valid s \<and> mixture_snapshot_encode s = Ok bs"
    if dec: "mixture_snapshot_decode bs = Ok s" for s bs
  proof -
    have len: "length bs = 320" using dec by (simp add: mixture_snapshot_decode_def)
    have imm: "u32_of_bool (ms_immutable s) = from_le_bytes (field 32 4 bs)"
      using dec len by (auto simp: mixture_snapshot_decode_def flag_as_bool)
    have gases: "length (ms_gases s) = max_gas_slots" "list_all is_finite (ms_gases s)"
      "concat (map to_le_bytes (ms_gases s)) = field 64 256 bs"
      using dec len by (auto simp: mixture_snapshot_decode_def gases_at)
    have res: "zeros 4 = field 36 4 bs"
      using dec len by (auto simp: mixture_snapshot_decode_def from_le_eq_0_iff_u32)
    have valid: "snapshot_valid s"
      using dec len gases by (auto simp: mixture_snapshot_decode_def snapshot_valid_def scalar_slice_eq)
    have "snapshot_bytes s = field 0 4 bs @ field 4 4 bs @ field 8 8 bs @ field 16 8 bs @ field 24 8 bs @
        field 32 4 bs @ field 36 4 bs @ field 40 8 bs @ field 48 8 bs @ field 56 8 bs @ field 64 256 bs"
      using dec len
      by (auto simp: mixture_snapshot_decode_def snapshot_bytes_def scalar_slice_eq imm gases(3) res)
    with valid len show ?thesis by (simp add: snapshot_encode_valid join_simps)
  qed
qed

section \<open>State mutations\<close>

record mixture_state_mutation =
  mm_handle :: wire_handle
  mm_expected_revision :: u32
  mm_temperature :: scalar_value
  mm_volume :: scalar_value
  mm_gases :: "scalar_value list"

definition mutation_encode :: "mixture_state_mutation \<Rightarrow> (bytes, payload_error) result" where
  "mutation_encode e =
     rbind (scalar_encode (mm_temperature e)) (\<lambda>temperature.
     rbind (scalar_encode (mm_volume e)) (\<lambda>vol.
     rbind (rmap scalar_encode (mm_gases e)) (\<lambda>gases.
     Ok (handle_encode (mm_handle e) @ to_le_bytes (mm_expected_revision e) @ to_le_bytes (0 :: u32) @
         temperature @ vol @ concat gases))))"

definition mutation_decode :: "bytes \<Rightarrow> nat \<Rightarrow> (mixture_state_mutation, payload_error) result" where
  "mutation_decode input pos =
     rbind (rmap (\<lambda>gas_index. scalar_slice input (pos + 32 + gas_index * 8)) [0..<max_gas_slots]) (\<lambda>gases.
     rbind (handle_slice input pos) (\<lambda>handle.
     rbind (read_u32 input (pos + 8)) (\<lambda>expected_revision.
     rbind (scalar_slice input (pos + 16)) (\<lambda>temperature.
     rbind (scalar_slice input (pos + 24)) (\<lambda>vol.
     Ok \<lparr>mm_handle = handle, mm_expected_revision = expected_revision,
         mm_temperature = temperature, mm_volume = vol, mm_gases = gases\<rparr>)))))"

text \<open>One iteration of \<open>validate_mixture_state_batch\<close>.\<close>

definition mutation_check :: "bytes \<Rightarrow> nat \<Rightarrow> (unit, payload_error) result" where
  "mutation_check input pos =
     rbind (handle_slice input pos) (\<lambda>_.
     rbind (read_u32 input (pos + 12)) (\<lambda>reserved.
     rbind (reject_if (reserved \<noteq> 0) (ReservedMixtureStateField reserved)) (\<lambda>_.
     rbind (scalar_slice input (pos + 16)) (\<lambda>_.
     rbind (scalar_slice input (pos + 24)) (\<lambda>_.
     rbind (rmap (\<lambda>gas_index. scalar_slice input (pos + 32 + gas_index * 8)) [0..<max_gas_slots]) (\<lambda>_.
     Ok ()))))))"

definition encode_mixture_state_batch :: "mixture_state_mutation list \<Rightarrow> (bytes, payload_error) result" where
  "encode_mixture_state_batch entries = encode_counted mutation_encode entries"

definition validate_mixture_state_batch :: "nat \<Rightarrow> bytes \<Rightarrow> u32 \<Rightarrow> (u32, payload_error) result" where
  "validate_mixture_state_batch usize_max input maximum =
     rbind (validate_counted_payload usize_max input 288 maximum) (\<lambda>count.
     rbind (rforeach (\<lambda>index. mutation_check input (4 + index * 288)) [0..<unat count]) (\<lambda>_. Ok count))"

definition decode_mixture_state_records ::
  "bytes \<Rightarrow> u32 \<Rightarrow> (mixture_state_mutation list, payload_error) result" where
  "decode_mixture_state_records input count =
     rmap (\<lambda>index. mutation_decode input (index * 288)) [0..<unat count]"

definition decode_mixture_state_batch ::
  "nat \<Rightarrow> bytes \<Rightarrow> u32 \<Rightarrow> (mixture_state_mutation list, payload_error) result" where
  "decode_mixture_state_batch usize_max input maximum =
     rbind (validate_mixture_state_batch usize_max input maximum) (\<lambda>count.
     rbind (slice 4 (length input) input) (\<lambda>rest. decode_mixture_state_records rest count))"

definition mutation_valid :: "mixture_state_mutation \<Rightarrow> bool" where
  "mutation_valid e \<longleftrightarrow> length (mm_gases e) = max_gas_slots \<and> list_all is_finite (mm_gases e) \<and>
     is_finite (mm_temperature e) \<and> is_finite (mm_volume e)"

text \<open>The bytes of a record, with whatever its reserved word holds.\<close>

definition mutation_bytes :: "u32 \<Rightarrow> mixture_state_mutation \<Rightarrow> bytes" where
  "mutation_bytes reserved e =
     handle_encode (mm_handle e) @ to_le_bytes (mm_expected_revision e) @ to_le_bytes reserved @
     to_le_bytes (mm_temperature e) @ to_le_bytes (mm_volume e) @ concat (map to_le_bytes (mm_gases e))"

lemma mutation_encode_Ok_iff:
  "mutation_encode e = Ok bs \<longleftrightarrow> list_all is_finite (mm_gases e) \<and> is_finite (mm_temperature e) \<and>
     is_finite (mm_volume e) \<and> bs = mutation_bytes 0 e"
  by (auto simp: mutation_encode_def mutation_bytes_def rmap_scalar_encode)

lemma mutation_decode_Ok_iff:
  assumes "length r = 288"
  shows "mutation_decode r 0 = Ok e \<longleftrightarrow>
    mutation_valid e \<and> mutation_bytes (from_le_bytes (field 12 4 r)) e = r"
proof -
  have split: "r = field 0 8 r @ field 8 4 r @ field 12 4 r @ field 16 8 r @ field 24 8 r @ field 32 256 r"
    using assms by (simp add: join_simps)
  have "mutation_decode r 0 = Ok e \<longleftrightarrow> mutation_valid e \<and> handle_at (field 0 8 r) = mm_handle e \<and>
      from_le_bytes (field 8 4 r) = mm_expected_revision e \<and>
      from_le_bytes (field 16 8 r) = mm_temperature e \<and> from_le_bytes (field 24 8 r) = mm_volume e \<and>
      field 32 256 r = concat (map to_le_bytes (mm_gases e))"
    using assms
    by (cases e) (auto simp: mutation_decode_def mutation_valid_def gases_at [of 32, simplified] scalar_slice_eq)
  also have "\<dots> \<longleftrightarrow> mutation_valid e \<and> mutation_bytes (from_le_bytes (field 12 4 r)) e = r"
  proof (intro conj_cong refl iffI)
    assume "mutation_valid e" and "handle_at (field 0 8 r) = mm_handle e \<and>
      from_le_bytes (field 8 4 r) = mm_expected_revision e \<and>
      from_le_bytes (field 16 8 r) = mm_temperature e \<and> from_le_bytes (field 24 8 r) = mm_volume e \<and>
      field 32 256 r = concat (map to_le_bytes (mm_gases e))"
    then have "mutation_bytes (from_le_bytes (field 12 4 r)) e =
        field 0 8 r @ field 8 4 r @ field 12 4 r @ field 16 8 r @ field 24 8 r @ field 32 256 r"
      using assms handle_encode_at [of "field 0 8 r"]
      by (auto simp: mutation_bytes_def intro: to_le_eqI_u32 to_le_eqI_u64)
    then show "mutation_bytes (from_le_bytes (field 12 4 r)) e = r"
      by (simp only: split [symmetric])
  next
    assume "mutation_valid e" and "mutation_bytes (from_le_bytes (field 12 4 r)) e = r"
    then obtain w where "length (mm_gases e) = 32" and r: "r = mutation_bytes w e"
      by (metis mutation_valid_def max_gas_slots_def)
    then show "handle_at (field 0 8 r) = mm_handle e \<and>
      from_le_bytes (field 8 4 r) = mm_expected_revision e \<and>
      from_le_bytes (field 16 8 r) = mm_temperature e \<and> from_le_bytes (field 24 8 r) = mm_volume e \<and>
      field 32 256 r = concat (map to_le_bytes (mm_gases e))"
      by (simp add: r mutation_bytes_def field_def)
  qed
  finally show ?thesis .
qed

lemma mutation_valid_length: "mutation_valid e \<Longrightarrow> length (mutation_bytes w e) = 288"
  by (simp add: mutation_valid_def mutation_bytes_def max_gas_slots_def)

lemma mutation_reserved: "field 12 4 (mutation_bytes w e) = to_le_bytes w"
  by (simp add: mutation_bytes_def field_def)

lemma mutation_decode_bytes: "mutation_valid e \<Longrightarrow> mutation_decode (mutation_bytes w e) 0 = Ok e"
  by (simp add: mutation_decode_Ok_iff mutation_valid_length mutation_reserved)

lemma gases_local:
  assumes "pos + 288 \<le> length input"
  shows "rmap (\<lambda>i. scalar_slice input (pos + 32 + i * 8)) [0..<max_gas_slots] =
    rmap (\<lambda>i. scalar_slice (field pos 288 input) (32 + i * 8)) [0..<max_gas_slots]"
  using assms
  by (intro rmap_cong_Ok refl) (auto simp: scalar_slice_eq field_field max_gas_slots_def add.assoc)

lemma mutation_local:
  assumes "pos + 288 \<le> length input"
  shows "mutation_decode input pos = mutation_decode (field pos 288 input) 0"
    and "mutation_check input pos = mutation_check (field pos 288 input) 0"
  unfolding mutation_decode_def mutation_check_def gases_local [OF assms]
  using assms by (simp_all add: scalar_slice_eq field_field cong: rbind_full_cong)

lemma mutation_not_Panic:
  assumes "length r = 288"
  shows "mutation_decode r 0 \<noteq> Panic" and "mutation_check r 0 \<noteq> Panic"
  using assms gases_total [of 32 r]
  by (simp_all add: mutation_decode_def mutation_check_def scalar_slice_eq)

interpretation mutation_any: record_lossless mutation_encode mutation_decode 288 mutation_valid
  by unfold_locales
    (auto simp: mutation_encode_Ok_iff mutation_decode_bytes mutation_valid_length mutation_not_Panic
      mutation_valid_def intro: mutation_local)

text \<open>What both passes over a record accept together.\<close>

definition mutation_checked_decode :: "bytes \<Rightarrow> nat \<Rightarrow> (mixture_state_mutation, payload_error) result" where
  "mutation_checked_decode input pos =
     rbind (mutation_check input pos) (\<lambda>_. mutation_decode input pos)"

lemma mutation_checked_Ok_iff:
  assumes "length r = 288"
  shows "mutation_checked_decode r 0 = Ok e \<longleftrightarrow> mutation_valid e \<and> mutation_bytes 0 e = r"
proof -
  have "mutation_check r 0 = Ok () \<longleftrightarrow> (from_le_bytes (field 12 4 r) :: u32) = 0"
    if "mutation_decode r 0 = Ok e"
    using assms that by (auto simp: mutation_check_def mutation_decode_def scalar_slice_eq)
  moreover have "field 12 4 r = to_le_bytes (0 :: u32)" if "mutation_bytes 0 e = r"
    using that mutation_reserved by metis
  ultimately show ?thesis
    using assms by (auto simp: mutation_checked_decode_def mutation_decode_Ok_iff)
qed

interpretation mutation: record_codec mutation_encode mutation_checked_decode 288 mutation_valid
proof
  show "mutation_checked_decode input pos = mutation_checked_decode (field pos 288 input) 0"
    if "pos + 288 \<le> length input" for pos input
    using mutation_local [OF that] by (simp add: mutation_checked_decode_def cong: rbind_full_cong)
  show "mutation_checked_decode r 0 \<noteq> Panic" if "length r = 288" for r
    using mutation_not_Panic [OF that] by (simp add: mutation_checked_decode_def)
  show "mutation_checked_decode r 0 = Ok x" if "mutation_valid x" "mutation_encode x = Ok r" for x r
    using that by (auto simp: mutation_encode_Ok_iff mutation_checked_Ok_iff mutation_valid_length)
  show "mutation_valid x \<and> mutation_encode x = Ok r"
    if "length r = 288" "mutation_checked_decode r 0 = Ok x" for x r
    using that by (auto simp: mutation_encode_Ok_iff mutation_checked_Ok_iff mutation_valid_def)
qed (auto simp: mutation_encode_Ok_iff mutation_valid_length mutation_valid_def)

lemma two_passes:
  "rbind (rforeach check is) (\<lambda>_. rmap f is) = Ok xs \<longleftrightarrow>
   rmap (\<lambda>i. rbind (check i) (\<lambda>_. f i)) is = Ok xs"
proof -
  have "list_all2 (\<lambda>i x. check i = Ok () \<and> f i = Ok x) is xs \<longleftrightarrow>
      list_all2 (\<lambda>i x. f i = Ok x) is xs \<and> (\<forall>i \<in> set is. check i = Ok ())" for xs
    by (induction "is" arbitrary: xs) (auto simp: list_all2_Cons1)
  then show ?thesis by (simp add: rforeach_eq_Ok rmap_eq_Ok_iff) blast
qed

lemma records_after_header:
  assumes "hdr + unat count * 288 \<le> length input"
  shows "decode_mixture_state_records (field hdr (length input - hdr) input) count =
    rmap (\<lambda>index. mutation_decode input (hdr + index * 288)) [0..<unat count]"
  unfolding decode_mixture_state_records_def
proof (intro rmap_cong_Ok refl)
  fix i assume "i \<in> set [0..<unat count]"
  then have range: "hdr + i * 288 + 288 \<le> length input"
    using assms by (auto intro: record_in_range)
  show "mutation_decode (field hdr (length input - hdr) input) (i * 288) =
      mutation_decode input (hdr + i * 288)"
    using range mutation_local(1) [of "i * 288" "field hdr (length input - hdr) input"]
      mutation_local(1) [OF range] by (simp add: field_field)
qed

lemma decode_mixture_state_batch_Ok_iff:
  "decode_mixture_state_batch usize_max input maximum = Ok es \<longleftrightarrow>
   decode_counted usize_max mutation_checked_decode 288 input maximum = Ok es"
proof -
  have "decode_mixture_state_batch usize_max input maximum = Ok es \<longleftrightarrow>
      (\<exists>count. validate_counted_payload usize_max input 288 maximum = Ok count \<and>
        rbind (rforeach (\<lambda>index. mutation_check input (4 + index * 288)) [0..<unat count])
          (\<lambda>_. rmap (\<lambda>index. mutation_decode input (4 + index * 288)) [0..<unat count]) = Ok es)"
    using records_after_header [of 4 _ input]
    by (auto simp: decode_mixture_state_batch_def validate_mixture_state_batch_def
        validate_counted_payload_Ok_iff)
  then show ?thesis
    unfolding two_passes by (auto simp: decode_counted_def mutation_checked_decode_def)
qed

lemma decode_mixture_state_batch_total: "decode_mixture_state_batch usize_max input maximum \<noteq> Panic"
proof -
  have "mutation_check input (4 + i * 288) \<noteq> Panic"
    if "i < n" "4 + n * 288 \<le> length input" for i n
    using record_in_range [OF that] mutation_local(2) [of "4 + i * 288" input]
      mutation_not_Panic(2) [of "field (4 + i * 288) 288 input"] by simp
  then have "rforeach (\<lambda>i. mutation_check input (4 + i * 288)) [0..<n] \<noteq> Panic"
    if "4 + n * 288 \<le> length input" for n
    using that by (intro rforeach_neq_Panic) simp
  then show ?thesis
    using records_after_header [of 4 _ input] mutation_any.records_total [of 4 _ input]
    by (auto simp: decode_mixture_state_batch_def validate_mixture_state_batch_def
        validate_counted_payload_Ok_iff)
qed

interpretation mixture_state_batch: codec encode_mixture_state_batch
  "\<lambda>bs. decode_mixture_state_batch usize_max bs maximum"
  "batch_valid usize_max mutation_valid 288 maximum" for usize_max maximum
  unfolding encode_mixture_state_batch_def
  using mutation.batch.enc_valid mutation.batch.dec_Ok_iff
  by unfold_locales
    (auto simp: decode_mixture_state_batch_Ok_iff decode_mixture_state_batch_total)

section \<open>Uploading states\<close>

definition validate_mixture_state_upload_id :: "u64 \<Rightarrow> (unit, payload_error) result" where
  "validate_mixture_state_upload_id upload_id = reject_if (upload_id = 0) InvalidMixtureStateUploadId"

definition checked_mixture_state_upload_count :: "nat \<Rightarrow> (u32, payload_error) result" where
  "checked_mixture_state_upload_count count =
     rbind (reject_if (count = 0) (InvalidMixtureStateUploadCount 0)) (\<lambda>_.
     ok_or (u32_try_from count) (OperationCountExceeded (word_of_nat u32_max) (word_of_nat u32_max)))"

definition upload_begin_request_encode :: "u32 \<Rightarrow> (bytes, payload_error) result" where
  "upload_begin_request_encode expected_count =
     rbind (reject_if (expected_count = 0) (InvalidMixtureStateUploadCount 0)) (\<lambda>_.
     Ok (put 0 (to_le_bytes expected_count) (zeros 8)))"

definition upload_begin_request_decode :: "bytes \<Rightarrow> (u32, payload_error) result" where
  "upload_begin_request_decode input =
     rbind (require_exact_len input 8) (\<lambda>_.
     rbind (read_u32 input 0) (\<lambda>expected_count.
     rbind (reject_if (expected_count = 0) (InvalidMixtureStateUploadCount 0)) (\<lambda>_.
     rbind (read_u32 input 4) (\<lambda>reserved.
     rbind (reject_if (reserved \<noteq> 0) (ReservedMixtureStateUploadField reserved)) (\<lambda>_.
     Ok expected_count)))))"

text \<open>
  \<open>MixtureStateUploadBeginResponse\<close> checks the id on both sides; the commit and abort requests
  share its decoder and encode the id unchecked. The append and commit responses are bare counts,
  as in \<open>Wire_Frontier\<close>.
\<close>

definition upload_begin_response_encode :: "u64 \<Rightarrow> (bytes, payload_error) result" where
  "upload_begin_response_encode upload_id =
     rbind (validate_mixture_state_upload_id upload_id) (\<lambda>_. Ok (to_le_bytes upload_id))"

definition upload_id_encode :: "u64 \<Rightarrow> (bytes, payload_error) result" where
  "upload_id_encode upload_id = Ok (to_le_bytes upload_id)"

definition upload_id_decode :: "bytes \<Rightarrow> (u64, payload_error) result" where
  "upload_id_decode input =
     rbind (require_exact_len input 8) (\<lambda>_.
     rbind (read_u64 input 0) (\<lambda>upload_id.
     rbind (validate_mixture_state_upload_id upload_id) (\<lambda>_. Ok upload_id)))"

record upload_append_request =
  ua_upload_id :: u64
  ua_offset :: u32
  ua_mutations :: "mixture_state_mutation list"

definition upload_append_encode :: "upload_append_request \<Rightarrow> (bytes, payload_error) result" where
  "upload_append_encode r =
     rbind (validate_mixture_state_upload_id (ua_upload_id r)) (\<lambda>_.
     rbind (checked_mixture_state_upload_count (length (ua_mutations r))) (\<lambda>count.
     rbind (rmap mutation_encode (ua_mutations r)) (\<lambda>records.
     Ok (to_le_bytes (ua_upload_id r) @ to_le_bytes (ua_offset r) @ to_le_bytes count @ concat records))))"

definition upload_append_decode :: "nat \<Rightarrow> bytes \<Rightarrow> u32 \<Rightarrow> (upload_append_request, payload_error) result" where
  "upload_append_decode usize_max input maximum =
     rbind (reject_if (length input < 16) (InvalidPayloadLength 16 (word_of_nat (length input)))) (\<lambda>_.
     rbind (read_u64 input 0) (\<lambda>upload_id.
     rbind (validate_mixture_state_upload_id upload_id) (\<lambda>_.
     rbind (read_u32 input 12) (\<lambda>count.
     rbind (reject_if (count = 0) (InvalidMixtureStateUploadCount 0)) (\<lambda>_.
     rbind (reject_if (count > maximum) (OperationCountExceeded count maximum)) (\<lambda>_.
     rbind (checked_payload_len usize_max input 16 count 288) (\<lambda>expected.
     rbind (require_exact_len input expected) (\<lambda>_.
     rbind (read_u32 input 8) (\<lambda>offset.
     rbind (slice 16 (length input) input) (\<lambda>rest.
     rbind (decode_mixture_state_records rest count) (\<lambda>mutations.
     Ok \<lparr>ua_upload_id = upload_id, ua_offset = offset, ua_mutations = mutations\<rparr>)))))))))))"

lemma upload_begin_request_exact:
  "upload_begin_request_decode bs = Ok n \<longleftrightarrow> upload_begin_request_encode n = Ok bs"
proof -
  have "put 0 (to_le_bytes n) (zeros 8) = to_le_bytes n @ zeros 4" for n :: u32
    by (simp add: put_simps) (simp add: buf_def)
  moreover have "bs = field 0 4 bs @ field 4 4 bs" if "length bs = 8"
    using that by (simp add: field_join)
  ultimately show ?thesis
    by (auto simp: upload_begin_request_decode_def upload_begin_request_encode_def from_le_eq_0_iff_u32
        field_def) (metis append_take_drop_id)
qed

interpretation upload_begin: codec upload_begin_request_encode upload_begin_request_decode
  "encodable upload_begin_request_encode"
  by (rule codec_encodable) (rule upload_begin_request_exact | simp add: upload_begin_request_decode_def)+

interpretation upload_begin_response: codec upload_begin_response_encode upload_id_decode "\<lambda>i. i \<noteq> 0"
  by unfold_locales
    (auto simp: upload_begin_response_encode_def upload_id_decode_def validate_mixture_state_upload_id_def)

interpretation upload_id: codec upload_id_encode upload_id_decode "\<lambda>i. i \<noteq> 0"
  by unfold_locales (auto simp: upload_id_encode_def upload_id_decode_def validate_mixture_state_upload_id_def)

definition upload_append_valid :: "nat \<Rightarrow> u32 \<Rightarrow> upload_append_request \<Rightarrow> bool" where
  "upload_append_valid usize_max maximum r \<longleftrightarrow> ua_upload_id r \<noteq> 0 \<and> ua_mutations r \<noteq> [] \<and>
     list_all mutation_valid (ua_mutations r) \<and> length (ua_mutations r) \<le> unat maximum \<and>
     16 + length (ua_mutations r) * 288 \<le> usize_max"

lemma upload_append_encode_Ok_iff:
  "upload_append_encode r = Ok bs \<longleftrightarrow> ua_upload_id r \<noteq> 0 \<and> ua_mutations r \<noteq> [] \<and>
     length (ua_mutations r) \<le> u32_max \<and> (\<exists>rs. rmap mutation_encode (ua_mutations r) = Ok rs \<and>
     bs = to_le_bytes (ua_upload_id r) @ to_le_bytes (ua_offset r) @
       to_le_bytes (word_of_nat (length (ua_mutations r)) :: u32) @ concat rs)"
  by (auto simp: upload_append_encode_def validate_mixture_state_upload_id_def
      checked_mixture_state_upload_count_def u32_try_from_def)

lemma upload_append_decode_eq:
  assumes "length bs = 16 + n * 288" and "length bs \<le> usize_max" and "n \<noteq> 0" and "n \<le> unat maximum"
    and "field 0 8 bs = to_le_bytes upload_id" and "upload_id \<noteq> 0" and "field 8 4 bs = to_le_bytes offset"
    and "field 12 4 bs = to_le_bytes (word_of_nat n :: u32)"
    and "rmap (\<lambda>index. mutation_decode bs (16 + index * 288)) [0..<n] = Ok ms"
  shows "upload_append_decode usize_max bs maximum =
    Ok \<lparr>ua_upload_id = upload_id, ua_offset = offset, ua_mutations = ms\<rparr>"
proof -
  have n: "n \<le> u32_max" using assms(4) unat_u32_le_max [of maximum] by simp
  have "\<not> maximum < (word_of_nat n :: u32)" "(word_of_nat n :: u32) \<noteq> 0"
    using n assms(3,4) unat_word_of_nat_u32 [OF n] by (auto simp: word_less_nat_alt)
  then show ?thesis
    using assms n records_after_header [of 16 "word_of_nat n" bs]
    by (simp add: upload_append_decode_def validate_mixture_state_upload_id_def unat_word_of_nat_u32)
qed

interpretation upload_append: lossless upload_append_encode
  "\<lambda>bs. upload_append_decode usize_max bs maximum" "upload_append_valid usize_max maximum"
  for usize_max maximum
proof
  show "upload_append_decode usize_max bs maximum \<noteq> Panic" for bs
    using records_after_header [of 16 _ bs] mutation_any.records_total [of 16 _ bs]
    by (auto simp: upload_append_decode_def validate_mixture_state_upload_id_def not_less)
  show "\<exists>bs. upload_append_encode r = Ok bs" if "upload_append_valid usize_max maximum r" for r
    using that mutation_any.records_enc unat_u32_le_max [of maximum]
    by (auto simp: upload_append_encode_Ok_iff upload_append_valid_def)
  show "upload_append_decode usize_max bs maximum = Ok r"
    if valid: "upload_append_valid usize_max maximum r" and enc: "upload_append_encode r = Ok bs" for bs r
  proof -
    let ?n = "length (ua_mutations r)"
    let ?hdr = "to_le_bytes (ua_upload_id r) @ to_le_bytes (ua_offset r) @ to_le_bytes (word_of_nat ?n :: u32)"
    from enc obtain rs where rs: "rmap mutation_encode (ua_mutations r) = Ok rs" and bs: "bs = ?hdr @ concat rs @ []"
      by (auto simp: upload_append_encode_Ok_iff)
    have ms: "list_all mutation_valid (ua_mutations r)" using valid by (simp add: upload_append_valid_def)
    have "upload_append_decode usize_max bs maximum =
        Ok \<lparr>ua_upload_id = ua_upload_id r, ua_offset = ua_offset r, ua_mutations = ua_mutations r\<rparr>"
    proof (rule upload_append_decode_eq)
      show "length bs = 16 + ?n * 288"
        using mutation_any.records_enc_len [OF ms rs] by (simp add: bs)
      then show "length bs \<le> usize_max" using valid by (simp add: upload_append_valid_def)
      show "rmap (\<lambda>index. mutation_decode bs (16 + index * 288)) [0..<?n] = Ok (ua_mutations r)"
        using mutation_any.records_round_trip [OF ms rs, of ?hdr "[]"] by (simp add: bs)
    qed (use valid in \<open>simp_all add: bs field_def upload_append_valid_def\<close>)
    then show ?thesis by simp
  qed
qed

section \<open>What the mixture formats guarantee\<close>

text \<open>
  A mixture snapshot is decoded from exactly its encoding, and so is every batch of state
  mutations (the validation pass and the decoding pass accept the same inputs and lose nothing).
  Neither decoder panics on any input.
\<close>

theorem mixture_state_exact:
  "(mixture_snapshot_decode input = Ok s \<longleftrightarrow> snapshot_valid s \<and> mixture_snapshot_encode s = Ok input) \<and>
   (decode_mixture_state_batch usize_max input maximum = Ok es \<longleftrightarrow>
      batch_valid usize_max mutation_valid 288 maximum es \<and> encode_mixture_state_batch es = Ok input) \<and>
   mixture_snapshot_decode input \<noteq> Panic \<and> decode_mixture_state_batch usize_max input maximum \<noteq> Panic"
  using snapshot.dec_Ok_iff snapshot.dec_total mixture_state_batch.dec_Ok_iff
    mixture_state_batch.dec_total by blast

text \<open>
  An upload survives the wire: the begin request, the upload id of the begin response and of
  the commit and abort requests, and every part that is appended.
\<close>

theorem upload_messages_round_trip:
  assumes "upload_append_valid usize_max maximum r" and "n \<noteq> 0" and "i \<noteq> 0"
  shows "rbind (upload_begin_request_encode n) upload_begin_request_decode = Ok n \<and>
    rbind (upload_begin_response_encode i) upload_id_decode = Ok i \<and>
    rbind (upload_id_encode i) upload_id_decode = Ok i \<and>
    rbind (upload_append_encode r) (\<lambda>bs. upload_append_decode usize_max bs maximum) = Ok r"
proof -
  have "encodable upload_begin_request_encode n"
    using assms(2) by (simp add: encodable_def upload_begin_request_encode_def)
  then show ?thesis
    using upload_begin.round_trip upload_begin_response.round_trip [OF assms(3)]
      upload_id.round_trip [OF assms(3)] upload_append.round_trip [OF assms(1)] by blast
qed

definition example_mutation :: mixture_state_mutation where
  "example_mutation = \<lparr>mm_handle = WireHandle 3 1, mm_expected_revision = 7, mm_temperature = 0,
     mm_volume = 0, mm_gases = replicate 32 0\<rparr>"

lemma example_mutation_valid: "mutation_valid example_mutation"
  by (simp add: example_mutation_def mutation_valid_def max_gas_slots_def list_all_length)

theorem upload_messages_round_trip_witness:
  "rbind (upload_append_encode \<lparr>ua_upload_id = 9, ua_offset = 0, ua_mutations = [example_mutation]\<rparr>)
     (\<lambda>bs. upload_append_decode 4294967295 bs 16) =
   Ok \<lparr>ua_upload_id = 9, ua_offset = 0, ua_mutations = [example_mutation]\<rparr>"
  using upload_messages_round_trip [of 4294967295 16
      "\<lparr>ua_upload_id = 9, ua_offset = 0, ua_mutations = [example_mutation]\<rparr>" 1 1] example_mutation_valid
  by (simp add: upload_append_valid_def)

text \<open>
  A state mutation whose reserved word is not zero is rejected in a batch, and accepted in an
  appended part of an upload.
\<close>

theorem upload_append_ignores_reserved:
  assumes "w \<noteq> 0" and "mutation_valid e" and "304 \<le> usize_max"
  shows "decode_mixture_state_batch usize_max (to_le_bytes (1 :: u32) @ mutation_bytes w e) 1 =
      Err (ReservedMixtureStateField w) \<and>
    upload_append_decode usize_max (to_le_bytes (1 :: u64) @ to_le_bytes (0 :: u32) @
        to_le_bytes (1 :: u32) @ mutation_bytes w e) 1 =
      Ok \<lparr>ua_upload_id = 1, ua_offset = 0, ua_mutations = [e]\<rparr>"
proof
  have len: "length (mutation_bytes w e) = 288" using assms(2) by (rule mutation_valid_length)
  let ?b = "to_le_bytes (1 :: u32) @ mutation_bytes w e"
  have "validate_counted_payload usize_max ?b 288 1 = Ok 1"
    using len assms(3) by (simp add: validate_counted_payload_Ok_iff field_def)
  moreover have "field 4 288 ?b = mutation_bytes w e" using len by (simp add: field_def)
  then have "mutation_check ?b 4 = Err (ReservedMixtureStateField w)"
    using mutation_local(2) [of 4 ?b] len assms(1)
    by (simp add: mutation_check_def mutation_reserved)
  ultimately show "decode_mixture_state_batch usize_max ?b 1 = Err (ReservedMixtureStateField w)"
    by (simp add: decode_mixture_state_batch_def validate_mixture_state_batch_def)
  let ?u = "to_le_bytes (1 :: u64) @ to_le_bytes (0 :: u32) @ to_le_bytes (1 :: u32) @ mutation_bytes w e"
  have "field 16 288 ?u = mutation_bytes w e" using len by (simp add: field_def)
  then have "mutation_decode ?u 16 = Ok e"
    using mutation_local(1) [of 16 ?u] len mutation_decode_bytes [OF assms(2)] by simp
  then show "upload_append_decode usize_max ?u 1 = Ok \<lparr>ua_upload_id = 1, ua_offset = 0, ua_mutations = [e]\<rparr>"
    using len assms(3) by (intro upload_append_decode_eq [where n = 1]) (simp_all add: field_def)
qed

theorem upload_append_ignores_reserved_witness:
  "decode_mixture_state_batch 4294967295 (to_le_bytes (1 :: u32) @ mutation_bytes 5 example_mutation) 1 =
     Err (ReservedMixtureStateField 5)"
  using upload_append_ignores_reserved [of 5 example_mutation 4294967295] example_mutation_valid by simp

end
