(* ===== verification/Wire_Stage.thy ===== *)
theory Wire_Stage
  imports Wire_Mixture Wire_Frame
begin

text \<open>
  Messages of the simulation loop: the stage request and response
  (\<^verbatim>\<open>crates/dogmos-protocol/src/lib.rs\<close>) and the service telemetry
  (\<^verbatim>\<open>telemetry_wire.rs\<close>).
\<close>

section \<open>Simulation stages\<close>

datatype simulation_stage =
    ProcessExcitedGroups | ProcessTurfEqualize | ProcessTurfHeat | ProcessTurfs | ProcessReactions

primrec simulation_stage_value :: "simulation_stage \<Rightarrow> u32" where
  "simulation_stage_value ProcessExcitedGroups = 1"
| "simulation_stage_value ProcessTurfEqualize = 2"
| "simulation_stage_value ProcessTurfHeat = 3"
| "simulation_stage_value ProcessTurfs = 4"
| "simulation_stage_value ProcessReactions = 5"

definition simulation_stage_arms :: "(u32 \<times> simulation_stage) list" where
  "simulation_stage_arms =
     [(1, ProcessExcitedGroups), (2, ProcessTurfEqualize), (3, ProcessTurfHeat), (4, ProcessTurfs),
      (5, ProcessReactions)]"

definition simulation_stage_try_from :: "u32 \<Rightarrow> (simulation_stage, payload_error) result" where
  "simulation_stage_try_from v = match_arms simulation_stage_arms v (UnknownSimulationStage v)"

interpretation simulation_stage: int_enum simulation_stage_value simulation_stage_arms
proof
  show "map_of simulation_stage_arms (simulation_stage_value k) = Some k" for k
    by (cases k) (simp_all add: simulation_stage_arms_def)
qed (simp add: simulation_stage_arms_def)

lemma simulation_stage_try_from_simps [simp]:
  "simulation_stage_try_from v = Ok a \<longleftrightarrow> v = simulation_stage_value a"
  "simulation_stage_try_from v \<noteq> Panic"
  "simulation_stage_try_from (simulation_stage_value a) = Ok a"
  "simulation_stage_value a = simulation_stage_value b \<longleftrightarrow> a = b"
  by (auto simp: simulation_stage_try_from_def simulation_stage.match_Ok_iff
      simulation_stage.discriminant_inject)

record simulation_stage_request =
  sr_stage :: simulation_stage
  sr_frontier_epoch :: u64
  sr_stage_epoch :: u64
  sr_work_limit :: u32
  sr_seconds_per_tick :: scalar_value

definition stage_request_encode :: "simulation_stage_request \<Rightarrow> (bytes, payload_error) result" where
  "stage_request_encode r =
     rbind (reject_if (sr_work_limit r = 0 \<or> sr_work_limit r > max_stage_work_items)
       (InvalidStageWorkLimit (sr_work_limit r))) (\<lambda>_.
     rbind (scalar_encode (sr_seconds_per_tick r)) (\<lambda>seconds_per_tick.
     Ok (put 32 seconds_per_tick
        (put 24 (to_le_bytes (sr_work_limit r))
        (put 16 (to_le_bytes (sr_stage_epoch r))
        (put 8 (to_le_bytes (sr_frontier_epoch r))
        (put 0 (to_le_bytes (simulation_stage_value (sr_stage r))) (zeros 40))))))))"

definition stage_request_decode :: "bytes \<Rightarrow> (simulation_stage_request, payload_error) result" where
  "stage_request_decode input =
     rbind (require_exact_len input 40) (\<lambda>_.
     rbind (read_u32 input 4) (\<lambda>first_reserved.
     rbind (read_u32 input 28) (\<lambda>second_reserved.
     rbind (reject_if (first_reserved \<noteq> 0 \<or> second_reserved \<noteq> 0)
       (ReservedSimulationStageField (first_reserved OR second_reserved))) (\<lambda>_.
     rbind (read_u32 input 24) (\<lambda>work_limit.
     rbind (reject_if (work_limit = 0 \<or> work_limit > max_stage_work_items)
       (InvalidStageWorkLimit work_limit)) (\<lambda>_.
     rbind (read_u32 input 0) (\<lambda>stage.
     rbind (simulation_stage_try_from stage) (\<lambda>stage.
     rbind (read_u64 input 8) (\<lambda>frontier_epoch.
     rbind (read_u64 input 16) (\<lambda>stage_epoch.
     rbind (scalar_slice input 32) (\<lambda>seconds_per_tick.
     Ok \<lparr>sr_stage = stage, sr_frontier_epoch = frontier_epoch, sr_stage_epoch = stage_epoch,
         sr_work_limit = work_limit, sr_seconds_per_tick = seconds_per_tick\<rparr>)))))))))))"

record simulation_stage_response =
  sp_work_items :: u32
  sp_callback_events :: u32
  sp_pending :: bool
  sp_remaining_estimate :: u32
  sp_produced_equalize_seeds :: u32
  sp_produced_group_seeds :: u32
  sp_produced_heat_seeds :: u32

definition stage_response_encode :: "simulation_stage_response \<Rightarrow> bytes" where
  "stage_response_encode r =
     put 24 (to_le_bytes (sp_produced_heat_seeds r))
     (put 20 (to_le_bytes (sp_produced_group_seeds r))
     (put 16 (to_le_bytes (sp_produced_equalize_seeds r))
     (put 12 (to_le_bytes (sp_remaining_estimate r))
     (put 8 (to_le_bytes (u32_of_bool (sp_pending r)))
     (put 4 (to_le_bytes (sp_callback_events r))
     (put 0 (to_le_bytes (sp_work_items r)) (zeros 32)))))))"

definition stage_response_decode :: "bytes \<Rightarrow> (simulation_stage_response, payload_error) result" where
  "stage_response_decode input =
     rbind (require_exact_len input 32) (\<lambda>_.
     rbind (read_u32 input 8) (\<lambda>flags.
     rbind (reject_if (flags AND NOT 1 \<noteq> 0) (UnknownSimulationStageFlags flags)) (\<lambda>_.
     rbind (read_u32 input 28) (\<lambda>reserved.
     rbind (reject_if (reserved \<noteq> 0) (ReservedSimulationStageField reserved)) (\<lambda>_.
     rbind (read_u32 input 0) (\<lambda>work_items.
     rbind (read_u32 input 4) (\<lambda>callback_events.
     rbind (read_u32 input 12) (\<lambda>remaining_estimate.
     rbind (read_u32 input 16) (\<lambda>produced_equalize_seeds.
     rbind (read_u32 input 20) (\<lambda>produced_group_seeds.
     rbind (read_u32 input 24) (\<lambda>produced_heat_seeds.
     Ok \<lparr>sp_work_items = work_items, sp_callback_events = callback_events,
         sp_pending = (flags AND 1 \<noteq> 0), sp_remaining_estimate = remaining_estimate,
         sp_produced_equalize_seeds = produced_equalize_seeds,
         sp_produced_group_seeds = produced_group_seeds,
         sp_produced_heat_seeds = produced_heat_seeds\<rparr>)))))))))))"

lemma stage_request_bytes:
  "stage_request_encode r = Ok bs \<longleftrightarrow> sr_work_limit r \<noteq> 0 \<and> sr_work_limit r \<le> max_stage_work_items \<and>
     is_finite (sr_seconds_per_tick r) \<and>
     bs = to_le_bytes (simulation_stage_value (sr_stage r)) @ zeros 4 @ to_le_bytes (sr_frontier_epoch r) @
       to_le_bytes (sr_stage_epoch r) @ to_le_bytes (sr_work_limit r) @ zeros 4 @
       to_le_bytes (sr_seconds_per_tick r)"
  by (cases "is_finite (sr_seconds_per_tick r)")
    (auto simp: stage_request_encode_def put_simps not_less)

lemma stage_request_exact: "stage_request_decode bs = Ok r \<longleftrightarrow> stage_request_encode r = Ok bs"
proof
  assume "stage_request_encode r = Ok bs"
  then show "stage_request_decode bs = Ok r"
    by (auto simp: stage_request_bytes stage_request_decode_def scalar_slice_eq field_def not_less
        reject_if_def)
next
  assume dec: "stage_request_decode bs = Ok r"
  then have len: "length bs = 40" by (simp add: stage_request_decode_def)
  from dec len obtain st where r: "r = \<lparr>sr_stage = st, sr_frontier_epoch = from_le_bytes (field 8 8 bs),
      sr_stage_epoch = from_le_bytes (field 16 8 bs), sr_work_limit = from_le_bytes (field 24 4 bs),
      sr_seconds_per_tick = from_le_bytes (field 32 8 bs)\<rparr>"
    and f: "field 0 4 bs = to_le_bytes (simulation_stage_value st)" "field 4 4 bs = zeros 4"
      "field 28 4 bs = zeros 4" "(from_le_bytes (field 24 4 bs) :: u32) \<noteq> 0"
      "from_le_bytes (field 24 4 bs) \<le> max_stage_work_items" "is_finite (from_le_bytes (field 32 8 bs))"
    by (auto simp: stage_request_decode_def scalar_slice_eq not_less from_le_eq_iff_u32 to_le_zero)
  have "bs = field 0 4 bs @ field 4 4 bs @ field 8 8 bs @ field 16 8 bs @ field 24 4 bs @ field 28 4 bs @
      field 32 8 bs"
    using len by (simp add: join_simps)
  then show "stage_request_encode r = Ok bs"
    using len f unfolding stage_request_bytes r by simp
qed

lemma stage_request_total: "stage_request_decode bs \<noteq> Panic"
  by (auto simp: stage_request_decode_def scalar_slice_eq)

interpretation stage_request: codec stage_request_encode stage_request_decode "encodable stage_request_encode"
  by (rule codec_encodable) (rule stage_request_exact stage_request_total)+

lemma stage_response_bytes:
  "stage_response_encode r =
     to_le_bytes (sp_work_items r) @ to_le_bytes (sp_callback_events r) @
     to_le_bytes (u32_of_bool (sp_pending r)) @ to_le_bytes (sp_remaining_estimate r) @
     to_le_bytes (sp_produced_equalize_seeds r) @ to_le_bytes (sp_produced_group_seeds r) @
     to_le_bytes (sp_produced_heat_seeds r) @ zeros 4"
  by (simp add: stage_response_encode_def put_simps) (simp add: buf_def)

interpretation stage_response: codec "\<lambda>r. Ok (stage_response_encode r)" stage_response_decode "\<lambda>_. True"
proof
  show "stage_response_decode bs \<noteq> Panic" for bs
    by (auto simp: stage_response_decode_def)
  show "stage_response_decode bs = Ok r"
    if "Ok (stage_response_encode r) = (Ok bs :: (bytes, payload_error) result)" for r bs
  proof -
    have bs: "bs = stage_response_encode r" using that by simp
    show ?thesis by (simp add: bs stage_response_bytes stage_response_decode_def field_def flag_of_bool)
  qed
  show "True \<and> Ok (stage_response_encode r) = (Ok bs :: (bytes, payload_error) result)"
    if dec: "stage_response_decode bs = Ok r" for r bs
  proof -
    have len: "length bs = 32" using dec by (simp add: stage_response_decode_def)
    have r: "r = \<lparr>sp_work_items = from_le_bytes (field 0 4 bs),
        sp_callback_events = from_le_bytes (field 4 4 bs),
        sp_pending = (from_le_bytes (field 8 4 bs) AND 1 \<noteq> (0 :: u32)),
        sp_remaining_estimate = from_le_bytes (field 12 4 bs),
        sp_produced_equalize_seeds = from_le_bytes (field 16 4 bs),
        sp_produced_group_seeds = from_le_bytes (field 20 4 bs),
        sp_produced_heat_seeds = from_le_bytes (field 24 4 bs)\<rparr>"
      and f: "field 28 4 bs = zeros 4" "from_le_bytes (field 8 4 bs) AND - 2 = (0 :: u32)"
      using dec len by (auto simp: stage_response_decode_def from_le_eq_0_iff_u32)
    have "bs = field 0 4 bs @ field 4 4 bs @ field 8 4 bs @ field 12 4 bs @ field 16 4 bs @
        field 20 4 bs @ field 24 4 bs @ field 28 4 bs"
      using len by (simp add: join_simps)
    then show ?thesis
      using len f flag_as_bool [OF f(2)] unfolding stage_response_bytes r by simp
  qed
qed simp

section \<open>Service telemetry\<close>

record service_telemetry =
  st_callback_depth :: u32
  st_callback_capacity :: u32
  st_callback_high_water :: u32
  st_continuation_depth :: u32
  st_continuation_capacity :: u32
  st_continuation_high_water :: u32
  st_oldest_callback_age_ticks :: u64
  st_callback_enqueued :: u64
  st_callback_drained :: u64
  st_callback_rejected :: u64
  st_continuation_timeouts :: u64
  st_request_timeouts :: u64
  st_protocol_errors :: u64
  st_callback_enqueued_by_kind :: "u64 list"
  st_callback_drained_by_kind :: "u64 list"
  st_callback_rejected_by_kind :: "u64 list"
  st_service_process_available_flags :: u32
  st_service_rss_bytes :: u64
  st_service_cpu_total_milliseconds :: u64
  st_general_callback_depth :: u32
  st_reaction_callback_depth :: u32
  st_reaction_transaction_depth :: u32
  st_reaction_transaction_high_water :: u32
  st_frontier_count :: u32
  st_stage_kind :: u32
  st_frontier_upload_bytes :: u64
  st_stage_epoch :: u64
  st_stage_cursor :: u32
  st_stage_remaining :: u32
  st_topology_revision :: u64
  st_reusable_workset_bytes :: u64
  st_packed_topology_bytes :: u64

definition encode_counters :: "u64 list \<Rightarrow> bytes" where
  "encode_counters counters = put_each 0 8 (map to_le_bytes counters) (zeros 64)"

definition decode_counters :: "bytes \<Rightarrow> (u64 list, payload_error) result" where
  "decode_counters input = rmap (\<lambda>index. read_u64 input (index * 8)) [0..<8]"

definition telemetry_encode :: "service_telemetry \<Rightarrow> bytes" where
  "telemetry_encode t =
     put 360 (to_le_bytes (st_packed_topology_bytes t))
     (put 352 (to_le_bytes (st_reusable_workset_bytes t))
     (put 344 (to_le_bytes (st_topology_revision t))
     (put 340 (to_le_bytes (st_stage_remaining t))
     (put 336 (to_le_bytes (st_stage_cursor t))
     (put 328 (to_le_bytes (st_stage_epoch t))
     (put 320 (to_le_bytes (st_frontier_upload_bytes t))
     (put 316 (to_le_bytes (st_stage_kind t))
     (put 312 (to_le_bytes (st_frontier_count t))
     (put 308 (to_le_bytes (st_reaction_transaction_high_water t))
     (put 304 (to_le_bytes (st_reaction_transaction_depth t))
     (put 300 (to_le_bytes (st_reaction_callback_depth t))
     (put 296 (to_le_bytes (st_general_callback_depth t))
     (put 288 (to_le_bytes (st_service_cpu_total_milliseconds t))
     (put 280 (to_le_bytes (st_service_rss_bytes t))
     (put 272 (to_le_bytes (st_service_process_available_flags t))
     (put 208 (encode_counters (st_callback_rejected_by_kind t))
     (put 144 (encode_counters (st_callback_drained_by_kind t))
     (put 80 (encode_counters (st_callback_enqueued_by_kind t))
     (put 72 (to_le_bytes (st_protocol_errors t))
     (put 64 (to_le_bytes (st_request_timeouts t))
     (put 56 (to_le_bytes (st_continuation_timeouts t))
     (put 48 (to_le_bytes (st_callback_rejected t))
     (put 40 (to_le_bytes (st_callback_drained t))
     (put 32 (to_le_bytes (st_callback_enqueued t))
     (put 24 (to_le_bytes (st_oldest_callback_age_ticks t))
     (put 20 (to_le_bytes (st_continuation_high_water t))
     (put 16 (to_le_bytes (st_continuation_capacity t))
     (put 12 (to_le_bytes (st_continuation_depth t))
     (put 8 (to_le_bytes (st_callback_high_water t))
     (put 4 (to_le_bytes (st_callback_capacity t))
     (put 0 (to_le_bytes (st_callback_depth t))
     (zeros 368))))))))))))))))))))))))))))))))"

definition telemetry_decode :: "bytes \<Rightarrow> (service_telemetry, payload_error) result" where
  "telemetry_decode input =
     rbind (reject_if (length input \<noteq> 368) (InvalidPayloadLength 368 (word_of_nat (length input)))) (\<lambda>_.
     rbind (read_u32 input 272) (\<lambda>service_process_available_flags.
     rbind (reject_if (service_process_available_flags AND NOT 3 \<noteq> 0)
       (UnknownServiceProcessFlags service_process_available_flags)) (\<lambda>_.
     rbind (read_u32 input 276) (\<lambda>reserved.
     rbind (reject_if (reserved \<noteq> 0) (ReservedServiceTelemetryField reserved)) (\<lambda>_.
     rbind (read_u64 input 280) (\<lambda>service_rss_bytes.
     rbind (read_u64 input 288) (\<lambda>service_cpu_total_milliseconds.
     rbind (read_u32 input 316) (\<lambda>stage_kind.
     rbind (reject_if (stage_kind > 5) (UnknownSimulationStage stage_kind)) (\<lambda>_.
     rbind (reject_if (service_process_available_flags AND 1 = 0 \<and> service_rss_bytes \<noteq> 0 \<or>
         service_process_available_flags AND 2 = 0 \<and> service_cpu_total_milliseconds \<noteq> 0)
       NonZeroUnavailableServiceProcessMetric) (\<lambda>_.
     rbind (read_u32 input 0) (\<lambda>callback_depth.
     rbind (read_u32 input 4) (\<lambda>callback_capacity.
     rbind (read_u32 input 8) (\<lambda>callback_high_water.
     rbind (read_u32 input 12) (\<lambda>continuation_depth.
     rbind (read_u32 input 16) (\<lambda>continuation_capacity.
     rbind (read_u32 input 20) (\<lambda>continuation_high_water.
     rbind (read_u64 input 24) (\<lambda>oldest_callback_age_ticks.
     rbind (read_u64 input 32) (\<lambda>callback_enqueued.
     rbind (read_u64 input 40) (\<lambda>callback_drained.
     rbind (read_u64 input 48) (\<lambda>callback_rejected.
     rbind (read_u64 input 56) (\<lambda>continuation_timeouts.
     rbind (read_u64 input 64) (\<lambda>request_timeouts.
     rbind (read_u64 input 72) (\<lambda>protocol_errors.
     rbind (slice 80 144 input) (\<lambda>callback_enqueued_by_kind_bytes.
     rbind (decode_counters callback_enqueued_by_kind_bytes) (\<lambda>callback_enqueued_by_kind.
     rbind (slice 144 208 input) (\<lambda>callback_drained_by_kind_bytes.
     rbind (decode_counters callback_drained_by_kind_bytes) (\<lambda>callback_drained_by_kind.
     rbind (slice 208 272 input) (\<lambda>callback_rejected_by_kind_bytes.
     rbind (decode_counters callback_rejected_by_kind_bytes) (\<lambda>callback_rejected_by_kind.
     rbind (read_u32 input 296) (\<lambda>general_callback_depth.
     rbind (read_u32 input 300) (\<lambda>reaction_callback_depth.
     rbind (read_u32 input 304) (\<lambda>reaction_transaction_depth.
     rbind (read_u32 input 308) (\<lambda>reaction_transaction_high_water.
     rbind (read_u32 input 312) (\<lambda>frontier_count.
     rbind (read_u64 input 320) (\<lambda>frontier_upload_bytes.
     rbind (read_u64 input 328) (\<lambda>stage_epoch.
     rbind (read_u32 input 336) (\<lambda>stage_cursor.
     rbind (read_u32 input 340) (\<lambda>stage_remaining.
     rbind (read_u64 input 344) (\<lambda>topology_revision.
     rbind (read_u64 input 352) (\<lambda>reusable_workset_bytes.
     rbind (read_u64 input 360) (\<lambda>packed_topology_bytes.
     Ok \<lparr>st_callback_depth = callback_depth, st_callback_capacity = callback_capacity,
         st_callback_high_water = callback_high_water, st_continuation_depth = continuation_depth,
         st_continuation_capacity = continuation_capacity,
         st_continuation_high_water = continuation_high_water,
         st_oldest_callback_age_ticks = oldest_callback_age_ticks,
         st_callback_enqueued = callback_enqueued, st_callback_drained = callback_drained,
         st_callback_rejected = callback_rejected,
         st_continuation_timeouts = continuation_timeouts, st_request_timeouts = request_timeouts,
         st_protocol_errors = protocol_errors,
         st_callback_enqueued_by_kind = callback_enqueued_by_kind,
         st_callback_drained_by_kind = callback_drained_by_kind,
         st_callback_rejected_by_kind = callback_rejected_by_kind,
         st_service_process_available_flags = service_process_available_flags,
         st_service_rss_bytes = service_rss_bytes,
         st_service_cpu_total_milliseconds = service_cpu_total_milliseconds,
         st_general_callback_depth = general_callback_depth,
         st_reaction_callback_depth = reaction_callback_depth,
         st_reaction_transaction_depth = reaction_transaction_depth,
         st_reaction_transaction_high_water = reaction_transaction_high_water,
         st_frontier_count = frontier_count, st_stage_kind = stage_kind,
         st_frontier_upload_bytes = frontier_upload_bytes, st_stage_epoch = stage_epoch,
         st_stage_cursor = stage_cursor, st_stage_remaining = stage_remaining,
         st_topology_revision = topology_revision,
         st_reusable_workset_bytes = reusable_workset_bytes,
         st_packed_topology_bytes = packed_topology_bytes\<rparr>)))))))))))))))))))))))))))))))))))))))))"

definition telemetry_bytes :: "service_telemetry \<Rightarrow> bytes" where
  "telemetry_bytes t =
     to_le_bytes (st_callback_depth t) @
     to_le_bytes (st_callback_capacity t) @
     to_le_bytes (st_callback_high_water t) @
     to_le_bytes (st_continuation_depth t) @
     to_le_bytes (st_continuation_capacity t) @
     to_le_bytes (st_continuation_high_water t) @
     to_le_bytes (st_oldest_callback_age_ticks t) @
     to_le_bytes (st_callback_enqueued t) @
     to_le_bytes (st_callback_drained t) @
     to_le_bytes (st_callback_rejected t) @
     to_le_bytes (st_continuation_timeouts t) @
     to_le_bytes (st_request_timeouts t) @
     to_le_bytes (st_protocol_errors t) @
     concat (map to_le_bytes (st_callback_enqueued_by_kind t)) @
     concat (map to_le_bytes (st_callback_drained_by_kind t)) @
     concat (map to_le_bytes (st_callback_rejected_by_kind t)) @
     to_le_bytes (st_service_process_available_flags t) @
     zeros 4 @
     to_le_bytes (st_service_rss_bytes t) @
     to_le_bytes (st_service_cpu_total_milliseconds t) @
     to_le_bytes (st_general_callback_depth t) @
     to_le_bytes (st_reaction_callback_depth t) @
     to_le_bytes (st_reaction_transaction_depth t) @
     to_le_bytes (st_reaction_transaction_high_water t) @
     to_le_bytes (st_frontier_count t) @
     to_le_bytes (st_stage_kind t) @
     to_le_bytes (st_frontier_upload_bytes t) @
     to_le_bytes (st_stage_epoch t) @
     to_le_bytes (st_stage_cursor t) @
     to_le_bytes (st_stage_remaining t) @
     to_le_bytes (st_topology_revision t) @
     to_le_bytes (st_reusable_workset_bytes t) @
     to_le_bytes (st_packed_topology_bytes t)"

definition telemetry_shape :: "service_telemetry \<Rightarrow> bool" where
  "telemetry_shape t \<longleftrightarrow> length (st_callback_enqueued_by_kind t) = 8 \<and>
     length (st_callback_drained_by_kind t) = 8 \<and> length (st_callback_rejected_by_kind t) = 8"

text \<open>What the decoder demands of the metrics.\<close>

definition telemetry_valid :: "service_telemetry \<Rightarrow> bool" where
  "telemetry_valid t \<longleftrightarrow> telemetry_shape t \<and>
     st_service_process_available_flags t AND NOT 3 = 0 \<and> st_stage_kind t \<le> 5 \<and>
     (st_service_process_available_flags t AND 1 = 0 \<longrightarrow> st_service_rss_bytes t = 0) \<and>
     (st_service_process_available_flags t AND 2 = 0 \<longrightarrow> st_service_cpu_total_milliseconds t = 0)"

lemma encode_counters_eq:
  "length xs = 8 \<Longrightarrow> encode_counters xs = concat (map to_le_bytes xs)"
  by (simp add: encode_counters_def put_simps)

lemma telemetry_encode_bytes: "telemetry_shape t \<Longrightarrow> telemetry_encode t = telemetry_bytes t"
  by (simp add: telemetry_encode_def telemetry_bytes_def telemetry_shape_def encode_counters_eq put_simps)

lemma telemetry_fields:
  assumes "telemetry_shape t"
  shows "length (telemetry_bytes t) = 368"
    and "field 0 4 (telemetry_bytes t) = to_le_bytes (st_callback_depth t)"
    and "field 4 4 (telemetry_bytes t) = to_le_bytes (st_callback_capacity t)"
    and "field 8 4 (telemetry_bytes t) = to_le_bytes (st_callback_high_water t)"
    and "field 12 4 (telemetry_bytes t) = to_le_bytes (st_continuation_depth t)"
    and "field 16 4 (telemetry_bytes t) = to_le_bytes (st_continuation_capacity t)"
    and "field 20 4 (telemetry_bytes t) = to_le_bytes (st_continuation_high_water t)"
    and "field 24 8 (telemetry_bytes t) = to_le_bytes (st_oldest_callback_age_ticks t)"
    and "field 32 8 (telemetry_bytes t) = to_le_bytes (st_callback_enqueued t)"
    and "field 40 8 (telemetry_bytes t) = to_le_bytes (st_callback_drained t)"
    and "field 48 8 (telemetry_bytes t) = to_le_bytes (st_callback_rejected t)"
    and "field 56 8 (telemetry_bytes t) = to_le_bytes (st_continuation_timeouts t)"
    and "field 64 8 (telemetry_bytes t) = to_le_bytes (st_request_timeouts t)"
    and "field 72 8 (telemetry_bytes t) = to_le_bytes (st_protocol_errors t)"
    and "field 80 64 (telemetry_bytes t) = concat (map to_le_bytes (st_callback_enqueued_by_kind t))"
    and "field 144 64 (telemetry_bytes t) = concat (map to_le_bytes (st_callback_drained_by_kind t))"
    and "field 208 64 (telemetry_bytes t) = concat (map to_le_bytes (st_callback_rejected_by_kind t))"
    and "field 272 4 (telemetry_bytes t) = to_le_bytes (st_service_process_available_flags t)"
    and "field 276 4 (telemetry_bytes t) = zeros 4"
    and "field 280 8 (telemetry_bytes t) = to_le_bytes (st_service_rss_bytes t)"
    and "field 288 8 (telemetry_bytes t) = to_le_bytes (st_service_cpu_total_milliseconds t)"
    and "field 296 4 (telemetry_bytes t) = to_le_bytes (st_general_callback_depth t)"
    and "field 300 4 (telemetry_bytes t) = to_le_bytes (st_reaction_callback_depth t)"
    and "field 304 4 (telemetry_bytes t) = to_le_bytes (st_reaction_transaction_depth t)"
    and "field 308 4 (telemetry_bytes t) = to_le_bytes (st_reaction_transaction_high_water t)"
    and "field 312 4 (telemetry_bytes t) = to_le_bytes (st_frontier_count t)"
    and "field 316 4 (telemetry_bytes t) = to_le_bytes (st_stage_kind t)"
    and "field 320 8 (telemetry_bytes t) = to_le_bytes (st_frontier_upload_bytes t)"
    and "field 328 8 (telemetry_bytes t) = to_le_bytes (st_stage_epoch t)"
    and "field 336 4 (telemetry_bytes t) = to_le_bytes (st_stage_cursor t)"
    and "field 340 4 (telemetry_bytes t) = to_le_bytes (st_stage_remaining t)"
    and "field 344 8 (telemetry_bytes t) = to_le_bytes (st_topology_revision t)"
    and "field 352 8 (telemetry_bytes t) = to_le_bytes (st_reusable_workset_bytes t)"
    and "field 360 8 (telemetry_bytes t) = to_le_bytes (st_packed_topology_bytes t)"
  using assms by (simp_all add: telemetry_bytes_def telemetry_shape_def field_def)

interpretation counter_record: record_codec "\<lambda>w. Ok (to_le_bytes w)" read_u64 8 "\<lambda>_. True"
  by unfold_locales (auto simp: field_field)

lemma decode_counters_iff:
  assumes "length bs = 64"
  shows "decode_counters bs = Ok xs \<longleftrightarrow> length xs = 8 \<and> bs = concat (map to_le_bytes xs)"
proof -
  have "decode_counters bs = Ok xs \<longleftrightarrow>
      rmap (\<lambda>i. read_u64 bs (0 + i * 8)) [0..<8] = (Ok xs :: (u64 list, payload_error) result)"
    by (simp add: decode_counters_def)
  also have "\<dots> \<longleftrightarrow> length xs = 8 \<and> bs = concat (map to_le_bytes xs)"
    using assms by (subst counter_record.records_at) (auto simp: rmap_eq_Ok_iff list_all_iff)
  finally show ?thesis .
qed

lemma decode_counters_total: "length bs = 64 \<Longrightarrow> decode_counters bs \<noteq> Panic"
  using counter_record.records_total [of 0 8 bs] by (simp add: decode_counters_def)

lemma decode_counters_encode [simp]:
  "length xs = 8 \<Longrightarrow> decode_counters (concat (map to_le_bytes xs)) = Ok xs"
  by (simp add: decode_counters_iff)

interpretation telemetry: codec "\<lambda>t. Ok (telemetry_encode t)" telemetry_decode telemetry_valid
proof
  show "telemetry_decode bs \<noteq> Panic" for bs
    by (cases "length bs = 368") (simp_all add: telemetry_decode_def decode_counters_total)
  show "telemetry_decode bs = Ok t"
    if valid: "telemetry_valid t" and enc: "Ok (telemetry_encode t) = (Ok bs :: (bytes, payload_error) result)" for t bs
  proof -
    have shape: "telemetry_shape t" using valid by (simp add: telemetry_valid_def)
    then have bs: "bs = telemetry_bytes t" using enc by (simp add: telemetry_encode_bytes)
    show ?thesis
      using valid shape telemetry_fields [OF shape]
      by (simp add: bs telemetry_decode_def telemetry_valid_def telemetry_shape_def not_less)
  qed
  show "telemetry_valid t \<and> Ok (telemetry_encode t) = (Ok bs :: (bytes, payload_error) result)"
    if dec: "telemetry_decode bs = Ok t" for t bs
  proof -
    have len: "length bs = 368" using dec by (simp add: telemetry_decode_def)
    have "telemetry_valid t \<and> telemetry_bytes t =
      field 0 4 bs @ field 4 4 bs @ field 8 4 bs @ field 12 4 bs @ field 16 4 bs @ field 20 4 bs
      @ field 24 8 bs @ field 32 8 bs @ field 40 8 bs @ field 48 8 bs @ field 56 8 bs @ field 64
      8 bs @ field 72 8 bs @ field 80 64 bs @ field 144 64 bs @ field 208 64 bs @ field 272 4 bs
      @ field 276 4 bs @ field 280 8 bs @ field 288 8 bs @ field 296 4 bs @ field 300 4 bs @
      field 304 4 bs @ field 308 4 bs @ field 312 4 bs @ field 316 4 bs @ field 320 8 bs @ field
      328 8 bs @ field 336 4 bs @ field 340 4 bs @ field 344 8 bs @ field 352 8 bs @ field 360 8
      bs"
      using dec len
      by (auto simp: telemetry_decode_def telemetry_valid_def telemetry_shape_def telemetry_bytes_def
          decode_counters_iff from_le_eq_0_iff_u32 from_le_eq_0_iff_u64
          to_le_zero not_less)
    with len show ?thesis
      by (simp add: telemetry_valid_def telemetry_encode_bytes join_simps)
  qed
qed simp

section \<open>What the stage formats guarantee\<close>

text \<open>
  Stage requests, stage responses and telemetry are decoded from exactly their encodings:
  a request carries a known stage and a work limit between 1 and 4096, and telemetry reports no
  value for a metric it marks as unavailable.
\<close>

theorem stage_messages_exact:
  "(stage_request_decode input = Ok req \<longleftrightarrow> stage_request_encode req = Ok input) \<and>
   (stage_response_decode input = Ok rsp \<longleftrightarrow> stage_response_encode rsp = input) \<and>
   (telemetry_decode input = Ok tel \<longleftrightarrow> telemetry_valid tel \<and> telemetry_encode tel = input) \<and>
   stage_request_decode input \<noteq> Panic \<and> stage_response_decode input \<noteq> Panic \<and>
   telemetry_decode input \<noteq> Panic"
  using stage_request_exact [of input req] stage_request_total stage_response.dec_Ok_iff [of input rsp]
    stage_response.dec_total telemetry.dec_Ok_iff [of input tel] telemetry.dec_total by auto

end
