(* ===== verification/Frontier_State.thy ===== *)
theory Frontier_State
  imports Bitset "HOL-Library.AList"
begin

text \<open>
  The frontier of active turfs (\<^verbatim>\<open>crates/dogmos-core/src/frontier.rs\<close>): a committed list of
  handles that a two-phase upload replaces and that incremental additions and removals change.

  Removed handles stay in the vector until it is compacted; a handle counts when the index map
  points at its position. The theory shows that this representation and its compaction are
  invisible: what \<open>committed()\<close> returns is a plain list of distinct handles, additions append to
  it, removals filter it, and a completed upload replaces it.

  \<open>HashMap\<close> is an association list with distinct keys; \<open>HashSet\<close> is a set. The parameter
  \<open>alloc\<close> of \<open>frontier_begin\<close> says which of its three reservations succeed. The capacities of the
  vectors and of the set are not part of the model, so \<open>alloc\<close> is free also where the code reserves no
  additional memory, which cannot fail: for a \<open>begin\<close> that expects no more handles than they have room for, only
  \<open>alloc = (\<lambda>_. True)\<close> is a behaviour of the code.
\<close>

section \<open>State and errors\<close>

datatype (plugins only: size) frontier_error =
    InvalidEpoch u64
  | EpochConflict "u64 option" "u64 option" u64
  | CountExceeded u32 u32
  | RangeOutOfBounds u32 u32 u32
  | RangeAlreadyReceived u32 u32
  | Incomplete u64 u32 u32
  | DuplicateHandle turf_handle
  | FrontierAllocationFailed

type_synonym handle_index = "(turf_handle \<times> nat) list"

record frontier_state =
  fs_committed_epoch :: "u64 option"
  fs_committed :: "turf_handle list"
  fs_committed_set :: handle_index
  fs_committed_view :: "turf_handle list option"
  fs_upload_epoch :: "u64 option"
  fs_upload_expected :: u32
  fs_upload_received :: u32
  fs_staging :: "turf_handle list"
  fs_received_bits :: "u64 list"
  fs_upload_seen :: "turf_handle set"

definition frontier_default :: frontier_state where
  "frontier_default =
     \<lparr>fs_committed_epoch = None, fs_committed = [], fs_committed_set = [], fs_committed_view = None,
      fs_upload_epoch = None, fs_upload_expected = 0, fs_upload_received = 0, fs_staging = [],
      fs_received_bits = [], fs_upload_seen = {}\<rparr>"

definition epoch_conflict :: "frontier_state \<Rightarrow> u64 \<Rightarrow> frontier_error" where
  "epoch_conflict s epoch = EpochConflict (fs_committed_epoch s) (fs_upload_epoch s) epoch"

text \<open>\<open>is_some_and(|other| epoch <= other)\<close>.\<close>

definition not_after :: "u64 \<Rightarrow> u64 option \<Rightarrow> bool" where
  "not_after epoch other \<longleftrightarrow> (case other of Some e \<Rightarrow> epoch \<le> e | None \<Rightarrow> False)"

section \<open>Uploading\<close>

definition frontier_begin ::
  "(nat \<Rightarrow> bool) \<Rightarrow> u64 \<Rightarrow> u32 \<Rightarrow> u32 \<Rightarrow> frontier_state \<Rightarrow> (unit, frontier_error) result \<times> frontier_state" where
  "frontier_begin alloc epoch expected maximum s =
     (if epoch = 0 then (Err (InvalidEpoch epoch), s)
      else if expected > maximum then (Err (CountExceeded expected maximum), s)
      else if not_after epoch (fs_committed_epoch s) \<or> not_after epoch (fs_upload_epoch s)
        then (Err (epoch_conflict s epoch), s)
      else if \<not> alloc 0 then (Err FrontierAllocationFailed, s)
      else let s = s\<lparr>fs_staging := vec_resize (unat expected) (TurfHandle 0 0) (fs_staging s)\<rparr>
        in if \<not> alloc 1 then (Err FrontierAllocationFailed, s)
        else let word_count = (unat expected + 63) div 64;
            s = s\<lparr>fs_received_bits := replicate word_count 0, fs_upload_seen := {}\<rparr>
          in if \<not> alloc 2 then (Err FrontierAllocationFailed, s)
          else (Ok (), s\<lparr>fs_upload_epoch := Some epoch, fs_upload_expected := expected,
            fs_upload_received := 0\<rparr>))"

definition is_received :: "u64 list \<Rightarrow> nat \<Rightarrow> (bool, frontier_error) result" where
  "is_received bits index =
     (case vec_get bits (index div 64) of
        Some word \<Rightarrow> Ok (word AND push_bit (index mod 64) 1 \<noteq> 0)
      | None \<Rightarrow> Panic)"

text \<open>\<open>Iterator::any\<close>, which stops at the first hit.\<close>

fun rany :: "('i \<Rightarrow> (bool, 'e) result) \<Rightarrow> 'i list \<Rightarrow> (bool, 'e) result" where
  "rany f [] = Ok False"
| "rany f (i # is) = rbind (f i) (\<lambda>b. if b then Ok True else rany f is)"

text \<open>The loop that looks for duplicates; \<open>seen\<close> holds those seen before the call.\<close>

fun first_duplicate :: "turf_handle list \<Rightarrow> (turf_handle \<Rightarrow> bool) \<Rightarrow> turf_handle set \<Rightarrow> turf_handle option" where
  "first_duplicate [] seen incoming = None"
| "first_duplicate (h # hs) seen incoming =
     (if seen h \<or> h \<in> incoming then Some h else first_duplicate hs seen (insert h incoming))"

text \<open>The loop that stores the handles and marks their positions.\<close>

fun store_handles ::
  "nat \<Rightarrow> turf_handle list \<Rightarrow> turf_handle list \<times> u64 list \<Rightarrow> (turf_handle list \<times> u64 list, frontier_error) result" where
  "store_handles index [] st = Ok st"
| "store_handles index (h # hs) (staging, bits) =
     (if index < length staging \<and> index div 64 < length bits
      then store_handles (Suc index) hs
        (staging[index := h], bits[index div 64 := bits ! (index div 64) OR push_bit (index mod 64) 1])
      else Panic)"

definition frontier_append ::
  "u64 \<Rightarrow> u32 \<Rightarrow> turf_handle list \<Rightarrow> bool \<Rightarrow> frontier_state \<Rightarrow> (u32, frontier_error) result \<times> frontier_state" where
  "frontier_append epoch offset handles alloc s =
     (if fs_upload_epoch s \<noteq> Some epoch then (Err (epoch_conflict s epoch), s)
      else case u32_try_from (length handles) of
        None \<Rightarrow> (Err (RangeOutOfBounds offset (word_of_nat u32_max) (fs_upload_expected s)), s)
      | Some count \<Rightarrow>
        (case checked_add offset count of
          None \<Rightarrow> (Err (RangeOutOfBounds offset count (fs_upload_expected s)), s)
        | Some finish \<Rightarrow>
          if finish > fs_upload_expected s
            then (Err (RangeOutOfBounds offset count (fs_upload_expected s)), s)
          else (case rany (is_received (fs_received_bits s)) [unat offset..<unat finish] of
            Panic \<Rightarrow> (Panic, s) | Err e \<Rightarrow> (Err e, s)
          | Ok True \<Rightarrow> (Err (RangeAlreadyReceived offset count), s)
          | Ok False \<Rightarrow>
            if \<not> alloc then (Err FrontierAllocationFailed, s)
            else (case first_duplicate handles (\<lambda>h. h \<in> fs_upload_seen s) {} of
              Some h \<Rightarrow> (Err (DuplicateHandle h), s)
            | None \<Rightarrow>
              (case store_handles (unat offset) handles (fs_staging s, fs_received_bits s) of
                Panic \<Rightarrow> (Panic, s) | Err e \<Rightarrow> (Err e, s)
              | Ok (staging, bits) \<Rightarrow>
                (Ok count, s\<lparr>fs_staging := staging, fs_received_bits := bits,
                  fs_upload_seen := fs_upload_seen s \<union> set handles,
                  fs_upload_received := fs_upload_received s + count\<rparr>))))))"

definition frontier_pending :: "u64 \<Rightarrow> frontier_state \<Rightarrow> (turf_handle list, frontier_error) result" where
  "frontier_pending epoch s =
     (if fs_upload_epoch s \<noteq> Some epoch then Err (epoch_conflict s epoch)
      else if fs_upload_received s \<noteq> fs_upload_expected s
        then Err (Incomplete epoch (fs_upload_expected s) (fs_upload_received s))
      else Ok (fs_staging s))"

section \<open>The committed list\<close>

text \<open>\<open>committed_set.extend(handles.enumerate())\<close>.\<close>

fun index_from :: "nat \<Rightarrow> turf_handle list \<Rightarrow> handle_index \<Rightarrow> handle_index" where
  "index_from n [] m = m"
| "index_from n (h # hs) m = index_from (Suc n) hs (AList.update h n m)"

definition frontier_commit_validated ::
  "u64 \<Rightarrow> frontier_state \<Rightarrow> (u32, frontier_error) result \<times> frontier_state" where
  "frontier_commit_validated epoch s =
     (Ok (word_of_nat (length (fs_staging s))),
      s\<lparr>fs_committed := fs_staging s, fs_staging := [], fs_committed_epoch := Some epoch,
        fs_upload_epoch := None, fs_upload_expected := 0, fs_upload_received := 0,
        fs_upload_seen := {}, fs_committed_set := index_from 0 (fs_staging s) [],
        fs_committed_view := None\<rparr>)"

text \<open>The handles whose entry in the map is their own position (\<open>retain\<close>, and the view).\<close>

fun keep_live :: "handle_index \<Rightarrow> nat \<Rightarrow> turf_handle list \<Rightarrow> turf_handle list" where
  "keep_live m index [] = []"
| "keep_live m index (h # hs) =
     (if map_of m h = Some index then h # keep_live m (Suc index) hs else keep_live m (Suc index) hs)"

fun reindex :: "nat \<Rightarrow> turf_handle list \<Rightarrow> handle_index \<Rightarrow> (handle_index, frontier_error) result" where
  "reindex n [] m = Ok m"
| "reindex n (h # hs) m =
     (if map_of m h = None then Panic else reindex (Suc n) hs (AList.update h n m))"

definition frontier_compact :: "frontier_state \<Rightarrow> (frontier_state, frontier_error) result" where
  "frontier_compact s =
     (if length (fs_committed s) \<le> length (fs_committed_set s) * 2 then Ok s
      else let kept = keep_live (fs_committed_set s) 0 (fs_committed s)
        in rbind (reindex 0 kept (fs_committed_set s)) (\<lambda>m.
           Ok (s\<lparr>fs_committed := kept, fs_committed_set := m\<rparr>)))"

definition frontier_add ::
  "u64 \<Rightarrow> turf_handle list \<Rightarrow> u32 \<Rightarrow> frontier_state \<Rightarrow> (u32, frontier_error) result \<times> frontier_state" where
  "frontier_add epoch handles maximum s =
     (if not_after epoch (fs_committed_epoch s) then (Err (epoch_conflict s epoch), s)
      else let projected = length (fs_committed_set s) + length handles in
        if projected > unat maximum
          then (Err (CountExceeded (case u32_try_from projected of Some n \<Rightarrow> n | None \<Rightarrow> word_of_nat u32_max)
            maximum), s)
        else case first_duplicate handles (\<lambda>h. map_of (fs_committed_set s) h \<noteq> None) {} of
          Some h \<Rightarrow> (Err (DuplicateHandle h), s)
        | None \<Rightarrow>
          (case frontier_compact s of
            Panic \<Rightarrow> (Panic, s) | Err e \<Rightarrow> (Err e, s)
          | Ok s \<Rightarrow>
            (Ok (case u32_try_from (length handles) of Some n \<Rightarrow> n | None \<Rightarrow> word_of_nat u32_max),
             s\<lparr>fs_committed := fs_committed s @ handles,
               fs_committed_set := index_from (length (fs_committed s)) handles (fs_committed_set s),
               fs_committed_view := None, fs_committed_epoch := Some epoch\<rparr>)))"

definition frontier_remove ::
  "u64 \<Rightarrow> turf_handle list \<Rightarrow> frontier_state \<Rightarrow> (u32, frontier_error) result \<times> frontier_state" where
  "frontier_remove epoch handles s =
     (if not_after epoch (fs_committed_epoch s) then (Err (epoch_conflict s epoch), s)
      else let before = length (fs_committed_set s);
          s = s\<lparr>fs_committed_set := fold AList.delete handles (fs_committed_set s), fs_committed_view := None\<rparr>
        in case frontier_compact s of
            Panic \<Rightarrow> (Panic, s) | Err e \<Rightarrow> (Err e, s)
          | Ok s \<Rightarrow>
            (Ok (word_of_nat (before - length (fs_committed_set s))), s\<lparr>fs_committed_epoch := Some epoch\<rparr>))"

text \<open>\<open>committed()\<close> fills the view on first use.\<close>

definition frontier_live :: "frontier_state \<Rightarrow> turf_handle list" where
  "frontier_live s = keep_live (fs_committed_set s) 0 (fs_committed s)"

definition frontier_committed :: "frontier_state \<Rightarrow> turf_handle list \<times> frontier_state" where
  "frontier_committed s =
     (case fs_committed_view s of
        Some view \<Rightarrow> (view, s)
      | None \<Rightarrow> (frontier_live s, s\<lparr>fs_committed_view := Some (frontier_live s)\<rparr>))"

section \<open>Live handles\<close>

definition index_ok :: "handle_index \<Rightarrow> turf_handle list \<Rightarrow> bool" where
  "index_ok m cs \<longleftrightarrow> distinct (map fst m) \<and>
     (\<forall>h i. map_of m h = Some i \<longrightarrow> i < length cs \<and> cs ! i = h)"

lemma keep_live_append:
  "keep_live m n (xs @ ys) = keep_live m n xs @ keep_live m (n + length xs) ys"
  by (induction xs arbitrary: n) auto

lemma keep_live_cong:
  assumes "\<And>i. i < length xs \<Longrightarrow> map_of m (xs ! i) = Some (n + i) \<longleftrightarrow> map_of m' (xs ! i) = Some (n + i)"
  shows "keep_live m n xs = keep_live m' n xs"
  using assms
proof (induction xs arbitrary: n)
  case (Cons h hs)
  have "keep_live m (Suc n) hs = keep_live m' (Suc n) hs"
    by (rule Cons.IH) (use Cons.prems [of "Suc _"] in auto)
  with Cons.prems [of 0] show ?case by simp
qed simp

lemma keep_live_all:
  assumes "\<And>i. i < length xs \<Longrightarrow> map_of m (xs ! i) = Some (n + i)"
  shows "keep_live m n xs = xs"
  using assms
proof (induction xs arbitrary: n)
  case (Cons h hs)
  have "keep_live m (Suc n) hs = hs"
    by (rule Cons.IH) (use Cons.prems [of "Suc _"] in auto)
  with Cons.prems [of 0] show ?case by simp
qed simp

lemma keep_live_filter:
  assumes "\<And>h. h \<in> set xs \<Longrightarrow> map_of m' h = (if P h then map_of m h else None)"
  shows "keep_live m' n xs = filter P (keep_live m n xs)"
  using assms by (induction xs arbitrary: n) auto

lemma set_keep_live:
  "h \<in> set (keep_live m n xs) \<longleftrightarrow> (\<exists>i < length xs. xs ! i = h \<and> map_of m h = Some (n + i))"
proof (induction xs arbitrary: n)
  case (Cons x xs)
  show ?case
  proof
    assume "h \<in> set (keep_live m n (x # xs))"
    then consider "h = x" "map_of m x = Some n" | "h \<in> set (keep_live m (Suc n) xs)"
      by (auto split: if_splits)
    then show "\<exists>i < length (x # xs). (x # xs) ! i = h \<and> map_of m h = Some (n + i)"
    proof cases
      case 1
      then show ?thesis by (intro exI [of _ 0]) simp
    next
      case 2
      then obtain i where "i < length xs" "xs ! i = h" "map_of m h = Some (Suc n + i)"
        using Cons.IH by blast
      then show ?thesis by (intro exI [of _ "Suc i"]) simp
    qed
  next
    assume "\<exists>i < length (x # xs). (x # xs) ! i = h \<and> map_of m h = Some (n + i)"
    then obtain i where i: "i < length (x # xs)" "(x # xs) ! i = h" "map_of m h = Some (n + i)" by blast
    then show "h \<in> set (keep_live m n (x # xs))"
      using Cons.IH [of "Suc n"] by (cases i) auto
  qed
qed simp

lemma distinct_keep_live: "distinct (keep_live m n xs)"
proof (induction xs arbitrary: n)
  case (Cons x xs)
  have "x \<notin> set (keep_live m (Suc n) xs)" if "map_of m x = Some n"
    using that by (auto simp: set_keep_live)
  with Cons show ?case by simp
qed simp

lemma index_ok_live_set:
  assumes "index_ok m cs"
  shows "set (keep_live m 0 cs) = fst ` set m"
proof -
  have "h \<in> fst ` set m \<longleftrightarrow> (\<exists>i < length cs. cs ! i = h \<and> map_of m h = Some i)" for h
  proof (cases "map_of m h")
    case None
    then have "h \<notin> fst ` set m" by (simp add: map_of_eq_None_iff)
    with None show ?thesis by simp
  next
    case (Some i)
    then have "h \<in> fst ` set m" by (metis map_of_eq_None_iff option.distinct(1))
    with Some assms show ?thesis by (auto simp: index_ok_def)
  qed
  then show ?thesis by (intro set_eqI) (simp add: set_keep_live)
qed

lemma index_ok_live_length:
  assumes "index_ok m cs"
  shows "length (keep_live m 0 cs) = length m"
proof -
  have "length (keep_live m 0 cs) = card (set (keep_live m 0 cs))"
    by (simp add: distinct_card distinct_keep_live)
  also have "\<dots> = length m"
    using assms distinct_card [of "map fst m"] by (simp add: index_ok_live_set index_ok_def)
  finally show ?thesis .
qed

section \<open>The index map\<close>

lemma map_of_index_from_other: "h \<notin> set hs \<Longrightarrow> map_of (index_from n hs m) h = map_of m h"
  by (induction hs arbitrary: n m) (auto simp: update_conv')

lemma map_of_index_from:
  "distinct hs \<Longrightarrow> i < length hs \<Longrightarrow> map_of (index_from n hs m) (hs ! i) = Some (n + i)"
proof (induction hs arbitrary: n m i)
  case (Cons x hs)
  then show ?case
    by (cases i) (auto simp: update_conv' map_of_index_from_other)
qed simp

lemma map_of_index_from_in:
  assumes "distinct hs" and "map_of (index_from n hs m) h = Some j" and "h \<in> set hs"
  shows "n \<le> j \<and> j - n < length hs \<and> hs ! (j - n) = h"
proof -
  from assms(3) obtain i where "i < length hs" "hs ! i = h" by (auto simp: in_set_conv_nth)
  with assms(1,2) map_of_index_from [of hs i n m] show ?thesis by auto
qed

lemma keys_index_from:
  "fst ` set (index_from n hs m) = fst ` set m \<union> set hs"
  "distinct (map fst m) \<Longrightarrow> distinct (map fst (index_from n hs m))"
  by (induction hs arbitrary: n m) (auto simp: dom_update distinct_update)

lemma reindex_eq:
  "set hs \<subseteq> fst ` set m \<Longrightarrow> reindex n hs m = Ok (index_from n hs m)"
proof (induction hs arbitrary: n m)
  case (Cons h hs)
  then have "map_of m h \<noteq> None" by (simp add: map_of_eq_None_iff)
  moreover have "set hs \<subseteq> fst ` set (AList.update h n m)"
    using Cons.prems by (auto simp: dom_update)
  ultimately show ?case using Cons.IH by simp
qed simp

lemma index_ok_extend:
  assumes ok: "index_ok m cs" and "distinct hs" and fresh: "set hs \<inter> fst ` set m = {}"
  shows "index_ok (index_from (length cs) hs m) (cs @ hs)"
    and "keep_live (index_from (length cs) hs m) 0 (cs @ hs) = keep_live m 0 cs @ hs"
proof -
  let ?m = "index_from (length cs) hs m"
  have "i < length (cs @ hs) \<and> (cs @ hs) ! i = h" if "map_of ?m h = Some i" for h i
  proof (cases "h \<in> set hs")
    case True
    then show ?thesis
      using map_of_index_from_in [OF assms(2) that] by (auto simp: nth_append)
  next
    case False
    then have "i < length cs \<and> cs ! i = h"
      using that ok map_of_index_from_other [of h hs "length cs" m] by (metis index_ok_def)
    then show ?thesis by (simp add: nth_append)
  qed
  then show "index_ok ?m (cs @ hs)"
    using ok by (simp add: index_ok_def keys_index_from)
  have "keep_live ?m 0 cs = keep_live m 0 cs"
  proof (rule keep_live_cong)
    fix i assume i: "i < length cs"
    have "map_of m (cs ! i) = None" if "cs ! i \<in> set hs"
      using that fresh by (auto simp: map_of_eq_None_iff)
    with i show "map_of ?m (cs ! i) = Some (0 + i) \<longleftrightarrow> map_of m (cs ! i) = Some (0 + i)"
      using map_of_index_from_in [OF assms(2), of "length cs" m "cs ! i" i]
      by (cases "cs ! i \<in> set hs") (auto simp: map_of_index_from_other)
  qed
  moreover have "keep_live ?m (length cs) hs = hs"
    using assms(2) by (intro keep_live_all map_of_index_from)
  ultimately show "keep_live ?m 0 (cs @ hs) = keep_live m 0 cs @ hs"
    by (simp add: keep_live_append)
qed

lemma index_ok_replace:
  assumes "distinct hs" and "distinct (map fst m)" and "fst ` set m \<subseteq> set hs"
  shows "index_ok (index_from 0 hs m) hs" and "keep_live (index_from 0 hs m) 0 hs = hs"
proof -
  have "h \<in> set hs" if "map_of (index_from 0 hs m) h = Some i" for h i
  proof -
    have "h \<in> fst ` set (index_from 0 hs m)"
      using that by (metis map_of_eq_None_iff option.distinct(1))
    with assms(3) show ?thesis by (auto simp: keys_index_from)
  qed
  then show "index_ok (index_from 0 hs m) hs"
    using assms map_of_index_from_in [OF assms(1), of 0 m] by (fastforce simp: index_ok_def keys_index_from)
  show "keep_live (index_from 0 hs m) 0 hs = hs"
    using map_of_index_from [OF assms(1)] by (intro keep_live_all) simp
qed

text \<open>Compaction never panics and is invisible.\<close>

lemma compact_invisible:
  assumes ok: "index_ok (fs_committed_set s) (fs_committed s)"
  obtains s' where "frontier_compact s = Ok s'" "index_ok (fs_committed_set s') (fs_committed s')"
    "frontier_live s' = frontier_live s" "fst ` set (fs_committed_set s') = fst ` set (fs_committed_set s)"
    "\<exists>cs m. s' = s\<lparr>fs_committed := cs, fs_committed_set := m\<rparr>"
proof (cases "length (fs_committed s) \<le> length (fs_committed_set s) * 2")
  case True
  have "\<exists>cs m. s = s\<lparr>fs_committed := cs, fs_committed_set := m\<rparr>"
    by (intro exI [of _ "fs_committed s"] exI [of _ "fs_committed_set s"]) simp
  with True ok that [of s] show ?thesis by (simp add: frontier_compact_def)
next
  case False
  let ?m = "fs_committed_set s" and ?kept = "keep_live (fs_committed_set s) 0 (fs_committed s)"
  have keys: "set ?kept = fst ` set ?m" and "distinct (map fst ?m)"
    using ok by (simp_all add: index_ok_live_set) (simp add: index_ok_def)
  then have "index_ok (index_from 0 ?kept ?m) ?kept" "keep_live (index_from 0 ?kept ?m) 0 ?kept = ?kept"
    by (simp_all add: index_ok_replace distinct_keep_live)
  moreover have "frontier_compact s = Ok (s\<lparr>fs_committed := ?kept, fs_committed_set := index_from 0 ?kept ?m\<rparr>)"
    using False keys by (simp add: frontier_compact_def Let_def reindex_eq)
  ultimately show ?thesis
    using keys
    by (intro that [of "s\<lparr>fs_committed := ?kept, fs_committed_set := index_from 0 ?kept ?m\<rparr>"])
      (auto simp: frontier_live_def keys_index_from)
qed

lemma first_duplicate_None:
  "first_duplicate hs seen incoming = None \<longleftrightarrow>
     distinct hs \<and> (\<forall>h \<in> set hs. \<not> seen h \<and> h \<notin> incoming)"
  by (induction hs arbitrary: incoming) auto

lemma map_of_fold_delete:
  "map_of (fold AList.delete hs m) h = (if h \<notin> set hs then map_of m h else None)"
  by (induction hs arbitrary: m) (auto simp: delete_conv')

lemma keys_fold_delete:
  "distinct (map fst m) \<Longrightarrow> distinct (map fst (fold AList.delete hs m))"
  by (induction hs arbitrary: m) (auto simp: distinct_delete)

lemma index_ok_delete:
  assumes "index_ok m cs"
  shows "index_ok (fold AList.delete hs m) cs"
    and "keep_live (fold AList.delete hs m) 0 cs = filter (\<lambda>h. h \<notin> set hs) (keep_live m 0 cs)"
proof -
  show "index_ok (fold AList.delete hs m) cs"
    using assms by (simp add: index_ok_def keys_fold_delete map_of_fold_delete)
  show "keep_live (fold AList.delete hs m) 0 cs = filter (\<lambda>h. h \<notin> set hs) (keep_live m 0 cs)"
    by (rule keep_live_filter) (simp add: map_of_fold_delete)
qed

section \<open>Bits and positions of an upload\<close>

lemma is_received_Ok: "i div 64 < length bits \<Longrightarrow> is_received bits i = Ok (bit_at bits i)"
  by (simp add: is_received_def bit_at_def vec_get_def and_exp_eq)

lemma rany_Ok:
  "(\<And>i. i \<in> set is \<Longrightarrow> f i = Ok (P i)) \<Longrightarrow> rany f is = Ok (\<exists>i \<in> set is. P i)"
  by (induction "is") auto

lemma store_handles_Ok:
  assumes "index + length hs \<le> length staging" and "(length staging + 63) div 64 \<le> length bits"
  shows "\<exists>staging' bits'. store_handles index hs (staging, bits) = Ok (staging', bits') \<and>
    length staging' = length staging \<and> length bits' = length bits \<and>
    (\<forall>j. bit_at bits' j \<longleftrightarrow> bit_at bits j \<or> index \<le> j \<and> j < index + length hs) \<and>
    (\<forall>j. staging' ! j = (if index \<le> j \<and> j < index + length hs then hs ! (j - index) else staging ! j))"
  using assms
proof (induction hs arbitrary: index staging bits)
  case (Cons h hs)
  let ?st = "staging[index := h]"
  let ?bits = "bits[index div 64 := bits ! (index div 64) OR push_bit (index mod 64) 1]"
  have fits: "index < length staging" "index div 64 < length bits"
    using Cons.prems div_64_less [of index "length staging"] by simp_all
  have "Suc index + length hs \<le> length ?st" "(length ?st + 63) div 64 \<le> length ?bits"
    using Cons.prems by simp_all
  from Cons.IH [OF this] obtain staging' bits'
    where ih: "store_handles (Suc index) hs (?st, ?bits) = Ok (staging', bits')"
    "length staging' = length ?st" "length bits' = length ?bits"
    "\<forall>j. bit_at bits' j \<longleftrightarrow> bit_at ?bits j \<or> Suc index \<le> j \<and> j < Suc index + length hs"
    "\<forall>j. staging' ! j = (if Suc index \<le> j \<and> j < Suc index + length hs then hs ! (j - Suc index) else ?st ! j)"
    by blast
  have "bit_at bits' j \<longleftrightarrow> bit_at bits j \<or> index \<le> j \<and> j < index + length (h # hs)" for j
    unfolding ih(4) [rule_format] bit_at_mark [OF fits(2)] by auto
  moreover have "staging' ! j =
      (if index \<le> j \<and> j < index + length (h # hs) then (h # hs) ! (j - index) else staging ! j)" for j
    using ih(5) [rule_format, of j] fits(1) by (cases "j = index") (auto simp: nth_Cons')
  ultimately show ?case using ih(1-3) fits by simp
qed auto

section \<open>Invariant\<close>

definition upload_ok :: "frontier_state \<Rightarrow> bool" where
  "upload_ok s \<longleftrightarrow> (let positions = {i. i < unat (fs_upload_expected s) \<and> bit_at (fs_received_bits s) i} in
     length (fs_staging s) = unat (fs_upload_expected s) \<and>
     length (fs_received_bits s) = (unat (fs_upload_expected s) + 63) div 64 \<and>
     unat (fs_upload_received s) = card positions \<and>
     fs_upload_seen s = (!) (fs_staging s) ` positions \<and> inj_on ((!) (fs_staging s)) positions)"

definition frontier_inv :: "frontier_state \<Rightarrow> bool" where
  "frontier_inv s \<longleftrightarrow> index_ok (fs_committed_set s) (fs_committed s) \<and>
     (fs_committed_view s = None \<or> fs_committed_view s = Some (frontier_live s)) \<and>
     (fs_upload_epoch s \<noteq> None \<longrightarrow> upload_ok s)"

lemma frontier_inv_default: "frontier_inv frontier_default"
  by (simp add: frontier_inv_def frontier_default_def index_ok_def)

lemma upload_ok_begin:
  assumes "length (fs_staging s) = unat (fs_upload_expected s)" and "fs_upload_received s = 0"
    and "fs_upload_seen s = {}" and "fs_received_bits s = replicate ((unat (fs_upload_expected s) + 63) div 64) 0"
  shows "upload_ok s"
proof -
  have none: "{i. i < unat (fs_upload_expected s) \<and> bit_at (fs_received_bits s) i} = {}"
    using assms(4) div_64_less [of _ "unat (fs_upload_expected s)"] by (auto simp: bit_at_def)
  show ?thesis unfolding upload_ok_def Let_def none using assms by simp
qed

lemma begin_inv:
  assumes "frontier_inv s" and "frontier_begin alloc epoch expected maximum s = (r, s')"
    and "r \<noteq> Err FrontierAllocationFailed"
  shows "frontier_inv s'"
proof (cases r)
  case (Ok u)
  then have s': "s' = s\<lparr>fs_staging := vec_resize (unat expected) (TurfHandle 0 0) (fs_staging s),
      fs_received_bits := replicate ((unat expected + 63) div 64) 0, fs_upload_seen := {},
      fs_upload_epoch := Some epoch, fs_upload_expected := expected, fs_upload_received := 0\<rparr>"
    using assms(2) by (auto simp: frontier_begin_def Let_def split: if_splits)
  show ?thesis
    using assms(1) upload_ok_begin [of s'] by (simp add: s' frontier_inv_def frontier_live_def)
next
  case (Err e)
  then show ?thesis using assms by (auto simp: frontier_begin_def Let_def split: if_splits)
next
  case Panic
  then show ?thesis using assms by (auto simp: frontier_begin_def Let_def split: if_splits)
qed

text \<open>What an accepted part of an upload does.\<close>

lemma append_accepts:
  assumes inv: "frontier_inv s" and "fs_upload_epoch s = Some epoch"
    and range: "unat offset + length hs \<le> unat (fs_upload_expected s)"
    and free: "\<And>i. unat offset \<le> i \<Longrightarrow> i < unat offset + length hs \<Longrightarrow> \<not> bit_at (fs_received_bits s) i"
    and "distinct hs" and "set hs \<inter> fs_upload_seen s = {}"
  shows "\<exists>staging bits.
    frontier_append epoch offset hs True s = (Ok (word_of_nat (length hs)),
       s\<lparr>fs_staging := staging, fs_received_bits := bits, fs_upload_seen := fs_upload_seen s \<union> set hs,
         fs_upload_received := fs_upload_received s + word_of_nat (length hs)\<rparr>) \<and>
    length staging = length (fs_staging s) \<and> length bits = length (fs_received_bits s) \<and>
    (\<forall>j. bit_at bits j \<longleftrightarrow> bit_at (fs_received_bits s) j \<or>
       unat offset \<le> j \<and> j < unat offset + length hs) \<and>
    (\<forall>j. staging ! j = (if unat offset \<le> j \<and> j < unat offset + length hs then hs ! (j - unat offset)
       else fs_staging s ! j))"
proof -
  have up: "length (fs_staging s) = unat (fs_upload_expected s)"
    "length (fs_received_bits s) = (unat (fs_upload_expected s) + 63) div 64"
    using inv assms(2) by (simp_all add: frontier_inv_def upload_ok_def Let_def)
  have len: "length hs \<le> u32_max"
    using range unat_u32_le_max [of "fs_upload_expected s"] by simp
  let ?count = "word_of_nat (length hs) :: u32"
  have count: "unat ?count = length hs"
    using len by (simp add: unat_of_nat take_bit_nat_eq_self u32_max_def)
  have no_wrap: "unat offset + unat ?count < 2 ^ 32"
    using range count unat_u32_le_max [of "fs_upload_expected s"] by (simp add: u32_max_def)
  have finish: "unat (offset + ?count) = unat offset + length hs"
    using no_wrap count by (simp add: unat_word_ariths)
  have "rany (is_received (fs_received_bits s)) [unat offset..<unat offset + length hs] =
      Ok (\<exists>i \<in> set [unat offset..<unat offset + length hs]. bit_at (fs_received_bits s) i)"
    using up range div_64_less [of _ "unat (fs_upload_expected s)"]
    by (intro rany_Ok is_received_Ok) simp
  also have "\<dots> = Ok False" using free by auto
  finally have none: "rany (is_received (fs_received_bits s)) [unat offset..<unat offset + length hs] = Ok False" .
  have dup: "first_duplicate hs (\<lambda>h. h \<in> fs_upload_seen s) {} = None"
    using assms(5,6) by (auto simp: first_duplicate_None)
  from store_handles_Ok [of "unat offset" hs "fs_staging s" "fs_received_bits s"] obtain staging bits
    where store: "store_handles (unat offset) hs (fs_staging s, fs_received_bits s) = Ok (staging, bits)"
      "length staging = length (fs_staging s)" "length bits = length (fs_received_bits s)"
      "\<forall>j. bit_at bits j \<longleftrightarrow> bit_at (fs_received_bits s) j \<or>
         unat offset \<le> j \<and> j < unat offset + length hs"
      "\<forall>j. staging ! j = (if unat offset \<le> j \<and> j < unat offset + length hs then hs ! (j - unat offset)
         else fs_staging s ! j)"
    using up range by auto
  have "frontier_append epoch offset hs True s = (Ok ?count,
      s\<lparr>fs_staging := staging, fs_received_bits := bits, fs_upload_seen := fs_upload_seen s \<union> set hs,
        fs_upload_received := fs_upload_received s + ?count\<rparr>)"
    using assms(2) len no_wrap finish range none dup store(1)
    by (simp add: frontier_append_def u32_try_from_def checked_add_def word_less_nat_alt not_less)
  then show ?thesis using store(2-5) by blast
qed

lemma append_inv:
  assumes inv: "frontier_inv s" and "fs_upload_epoch s = Some epoch"
    and range: "unat offset + length hs \<le> unat (fs_upload_expected s)"
    and free: "\<And>i. unat offset \<le> i \<Longrightarrow> i < unat offset + length hs \<Longrightarrow> \<not> bit_at (fs_received_bits s) i"
    and dist: "distinct hs" and fresh: "set hs \<inter> fs_upload_seen s = {}"
  shows "frontier_inv (snd (frontier_append epoch offset hs True s))"
proof -
  obtain staging bits where s': "snd (frontier_append epoch offset hs True s) =
      s\<lparr>fs_staging := staging, fs_received_bits := bits, fs_upload_seen := fs_upload_seen s \<union> set hs,
         fs_upload_received := fs_upload_received s + word_of_nat (length hs)\<rparr>"
    and len: "length staging = length (fs_staging s)" "length bits = length (fs_received_bits s)"
    and bits: "\<forall>j. bit_at bits j \<longleftrightarrow> bit_at (fs_received_bits s) j \<or>
       unat offset \<le> j \<and> j < unat offset + length hs"
    and staging: "\<forall>j. staging ! j = (if unat offset \<le> j \<and> j < unat offset + length hs then hs ! (j - unat offset)
       else fs_staging s ! j)"
    using append_accepts [OF inv assms(2) range free dist fresh] by auto
  note bits = bits [rule_format] and staging = staging [rule_format]
  let ?n = "unat (fs_upload_expected s)"
  let ?old = "{i. i < ?n \<and> bit_at (fs_received_bits s) i}"
  let ?new = "{unat offset..<unat offset + length hs}"
  have up: "length (fs_staging s) = ?n" "length (fs_received_bits s) = (?n + 63) div 64"
    "unat (fs_upload_received s) = card ?old" "fs_upload_seen s = (!) (fs_staging s) ` ?old"
    "inj_on ((!) (fs_staging s)) ?old"
    using inv assms(2) by (simp_all add: frontier_inv_def upload_ok_def Let_def)
  have positions: "{i. i < ?n \<and> bit_at bits i} = ?old \<union> ?new"
    using range by (auto simp: bits)
  have disjoint: "?old \<inter> ?new = {}" using free by auto
  have same: "staging ! i = fs_staging s ! i" if "i \<in> ?old" for i
    using that disjoint staging [of i] by auto
  have "h \<in> (!) staging ` ?new" if h: "h \<in> set hs" for h
  proof -
    from h obtain i where "i < length hs" "hs ! i = h" by (auto simp: in_set_conv_nth)
    then show ?thesis using staging [of "unat offset + i"] by (intro image_eqI [of _ _ "unat offset + i"]) auto
  qed
  moreover have "staging ! j \<in> set hs" if "j \<in> ?new" for j
    using that staging [of j] by (auto intro: nth_mem)
  ultimately have new: "(!) staging ` ?new = set hs" by blast
  have old: "(!) staging ` ?old = fs_upload_seen s"
    using same by (simp add: up(4) cong: image_cong_simp)
  have inj: "inj_on ((!) staging) (?old \<union> ?new)"
  proof (subst inj_on_Un, intro conjI)
    show "inj_on ((!) staging) ?old"
      using up(5) same inj_on_cong [of ?old "(!) staging" "(!) (fs_staging s)"] by blast
    show "inj_on ((!) staging) ?new"
      using dist by (auto simp: inj_on_def staging nth_eq_iff_index_eq)
    show "(!) staging ` (?old - ?new) \<inter> (!) staging ` (?new - ?old) = {}"
      using old new fresh by (auto simp: image_iff)
  qed
  have "card (?old \<union> ?new) = card ?old + length hs"
    using disjoint by (subst card_Un_disjoint) auto
  moreover have "?old \<union> ?new \<subseteq> {..<?n}" using range by auto
  then have "card (?old \<union> ?new) \<le> ?n" using card_mono [OF finite_lessThan] by fastforce
  moreover have "length hs \<le> u32_max" using range unat_u32_le_max [of "fs_upload_expected s"] by simp
  then have "unat (word_of_nat (length hs) :: u32) = length hs"
    by (simp add: unat_of_nat take_bit_nat_eq_self u32_max_def)
  ultimately have "unat (fs_upload_received s + word_of_nat (length hs)) = card (?old \<union> ?new)"
    using up(3) unat_u32_le_max [of "fs_upload_expected s"] by (simp add: unat_word_ariths u32_max_def)
  then show ?thesis
    using inv up len old new inj
    by (simp add: s' frontier_inv_def frontier_live_def upload_ok_def Let_def positions image_Un)
qed

text \<open>An append is accepted, or it reports an error and changes nothing.\<close>

lemma append_outcome:
  assumes inv: "frontier_inv s"
    and rejected: "\<nexists>e. frontier_append epoch offset hs alloc s = (Err e, s)"
  shows "alloc" and "fs_upload_epoch s = Some epoch"
    and "unat offset + length hs \<le> unat (fs_upload_expected s)"
    and "\<And>i. unat offset \<le> i \<Longrightarrow> i < unat offset + length hs \<Longrightarrow> \<not> bit_at (fs_received_bits s) i"
    and "distinct hs" and "set hs \<inter> fs_upload_seen s = {}"
proof -
  show epoch: "fs_upload_epoch s = Some epoch"
  proof (rule ccontr)
    assume "fs_upload_epoch s \<noteq> Some epoch"
    then have "frontier_append epoch offset hs alloc s = (Err (epoch_conflict s epoch), s)"
      by (simp add: frontier_append_def)
    with rejected show False by blast
  qed
  then obtain count where count: "u32_try_from (length hs) = Some count"
    using rejected by (cases "u32_try_from (length hs)") (auto simp: frontier_append_def)
  then obtain finish where finish: "checked_add offset count = Some finish"
    using rejected epoch by (cases "checked_add offset count") (auto simp: frontier_append_def)
  have len: "unat finish = unat offset + length hs"
    using checked_add_SomeD [OF finish] u32_try_from_SomeD [OF count] by simp
  have within: "\<not> fs_upload_expected s < finish"
    using rejected epoch count finish by (auto simp: frontier_append_def)
  then show range: "unat offset + length hs \<le> unat (fs_upload_expected s)"
    by (simp add: word_less_nat_alt not_less len)
  have "length (fs_received_bits s) = (unat (fs_upload_expected s) + 63) div 64"
    using inv epoch by (simp add: frontier_inv_def upload_ok_def Let_def)
  then have any: "rany (is_received (fs_received_bits s)) [unat offset..<unat finish] =
      Ok (\<exists>i \<in> set [unat offset..<unat finish]. bit_at (fs_received_bits s) i)"
    using range len div_64_less [of _ "unat (fs_upload_expected s)"]
    by (intro rany_Ok is_received_Ok) simp
  have free: "\<not> (\<exists>i \<in> set [unat offset..<unat finish]. bit_at (fs_received_bits s) i)"
  proof
    assume "\<exists>i \<in> set [unat offset..<unat finish]. bit_at (fs_received_bits s) i"
    then have "rany (is_received (fs_received_bits s)) [unat offset..<unat finish] = Ok True"
      using any by simp
    then have "frontier_append epoch offset hs alloc s = (Err (RangeAlreadyReceived offset count), s)"
      using epoch count finish within by (simp add: frontier_append_def)
    with rejected show False by blast
  qed
  then show "\<And>i. unat offset \<le> i \<Longrightarrow> i < unat offset + length hs \<Longrightarrow> \<not> bit_at (fs_received_bits s) i"
    by (simp add: len)
  have none: "rany (is_received (fs_received_bits s)) [unat offset..<unat finish] = Ok False"
    using any free by simp
  show ok: "alloc"
    using rejected epoch count finish within none by (cases alloc) (simp_all add: frontier_append_def)
  have "first_duplicate hs (\<lambda>h. h \<in> fs_upload_seen s) {} = None"
    using rejected epoch count finish within none ok
    by (cases "first_duplicate hs (\<lambda>h. h \<in> fs_upload_seen s) {}") (auto simp: frontier_append_def)
  then show "distinct hs" and "set hs \<inter> fs_upload_seen s = {}"
    by (auto simp: first_duplicate_None)
qed

lemma append_keeps_inv: "frontier_inv s \<Longrightarrow> frontier_inv (snd (frontier_append epoch offset hs alloc s))"
proof (cases "\<exists>e. frontier_append epoch offset hs alloc s = (Err e, s)")
  case False
  assume inv: "frontier_inv s"
  note out = append_outcome [OF inv False]
  show ?thesis using append_inv [OF inv out(2-6)] out(1) by simp
qed auto

lemma append_not_Panic: "frontier_inv s \<Longrightarrow> fst (frontier_append epoch offset hs alloc s) \<noteq> Panic"
proof (cases "\<exists>e. frontier_append epoch offset hs alloc s = (Err e, s)")
  case False
  assume inv: "frontier_inv s"
  note out = append_outcome [OF inv False]
  have "fst (frontier_append epoch offset hs True s) \<noteq> Panic"
    using append_accepts [OF inv out(2-6)] by auto
  with out(1) show ?thesis by simp
qed auto

text \<open>A complete upload is a list of distinct handles.\<close>

lemma pending_complete:
  assumes inv: "frontier_inv s" and pending: "frontier_pending epoch s = Ok hs"
  shows "hs = fs_staging s" and "distinct hs" and "length hs = unat (fs_upload_expected s)"
    and "\<And>i. i < length hs \<Longrightarrow> bit_at (fs_received_bits s) i"
proof -
  have epoch: "fs_upload_epoch s = Some epoch" and all: "fs_upload_received s = fs_upload_expected s"
    and "hs = fs_staging s"
    using pending by (auto simp: frontier_pending_def split: if_splits)
  let ?n = "unat (fs_upload_expected s)"
  let ?pos = "{i. i < ?n \<and> bit_at (fs_received_bits s) i}"
  have up: "length (fs_staging s) = ?n" "unat (fs_upload_received s) = card ?pos"
    "inj_on ((!) (fs_staging s)) ?pos"
    using inv epoch by (simp_all add: frontier_inv_def upload_ok_def Let_def)
  have pos: "?pos = {..<?n}"
    using up(2) all by (intro card_subset_eq) auto
  then have "inj_on ((!) (fs_staging s)) {..<?n}" using up(3) by simp
  then have "distinct (fs_staging s)"
    using up(1) by (auto simp: distinct_conv_nth inj_on_def)
  then show "hs = fs_staging s" and "distinct hs" and "length hs = ?n"
    and "\<And>i. i < length hs \<Longrightarrow> bit_at (fs_received_bits s) i"
    using \<open>hs = fs_staging s\<close> up(1) pos by auto
qed

lemma commit_result:
  assumes "frontier_inv s" and "frontier_pending epoch s = Ok hs"
  shows "frontier_inv (snd (frontier_commit_validated epoch s))"
    and "frontier_live (snd (frontier_commit_validated epoch s)) = hs"
  using pending_complete(1,2) [OF assms] index_ok_replace [of hs "[]"]
  by (simp_all add: frontier_commit_validated_def frontier_inv_def frontier_live_def)

lemma add_result:
  assumes inv: "frontier_inv s"
  shows "frontier_inv (snd (frontier_add epoch hs maximum s))" and "fst (frontier_add epoch hs maximum s) \<noteq> Panic"
    and "fst (frontier_add epoch hs maximum s) = Ok n \<Longrightarrow>
      frontier_live (snd (frontier_add epoch hs maximum s)) = frontier_live s @ hs"
    and "fst (frontier_add epoch hs maximum s) = Err e \<Longrightarrow> snd (frontier_add epoch hs maximum s) = s"
proof -
  have ok: "index_ok (fs_committed_set s) (fs_committed s)" using inv by (simp add: frontier_inv_def)
  obtain s1 where s1: "frontier_compact s = Ok s1" "index_ok (fs_committed_set s1) (fs_committed s1)"
    "frontier_live s1 = frontier_live s" "fst ` set (fs_committed_set s1) = fst ` set (fs_committed_set s)"
    "\<exists>cs m. s1 = s\<lparr>fs_committed := cs, fs_committed_set := m\<rparr>"
    using compact_invisible [OF ok] by blast
  let ?s2 = "s1\<lparr>fs_committed := fs_committed s1 @ hs,
      fs_committed_set := index_from (length (fs_committed s1)) hs (fs_committed_set s1),
      fs_committed_view := None, fs_committed_epoch := Some epoch\<rparr>"
  show err: "snd (frontier_add epoch hs maximum s) = s" if "fst (frontier_add epoch hs maximum s) = Err e" for e
    using that s1(1) by (auto simp: frontier_add_def Let_def split: if_splits option.splits)
  have accepted: "distinct hs \<and> set hs \<inter> fst ` set (fs_committed_set s1) = {} \<and>
      snd (frontier_add epoch hs maximum s) = ?s2" if "fst (frontier_add epoch hs maximum s) = Ok n" for n
  proof -
    have no_dup: "first_duplicate hs (\<lambda>h. map_of (fs_committed_set s) h \<noteq> None) {} = None"
      and "\<not> not_after epoch (fs_committed_epoch s)"
      and "\<not> length (fs_committed_set s) + length hs > unat maximum"
      using that by (auto simp: frontier_add_def Let_def split: if_splits option.splits)
    then have "snd (frontier_add epoch hs maximum s) = ?s2"
      using s1(1) by (simp add: frontier_add_def Let_def del: not_None_eq)
    moreover have "distinct hs" and "set hs \<inter> fst ` set (fs_committed_set s1) = {}"
      using no_dup [unfolded first_duplicate_None] s1(4) by (auto simp: map_of_eq_None_iff)
    ultimately show ?thesis by blast
  qed
  show "fst (frontier_add epoch hs maximum s) \<noteq> Panic"
    using s1(1) by (auto simp: frontier_add_def Let_def split: option.splits)
  then show "frontier_inv (snd (frontier_add epoch hs maximum s))"
  proof (cases "fst (frontier_add epoch hs maximum s)")
    case (Ok n)
    note acc = accepted [OF Ok]
    have "upload_ok ?s2 = upload_ok s" "fs_upload_epoch ?s2 = fs_upload_epoch s"
      using s1(5) by (auto simp: upload_ok_def)
    then show ?thesis
      using acc inv index_ok_extend(1) [OF s1(2), of hs] by (simp add: frontier_inv_def)
  qed (use inv err in auto)
  show "frontier_live (snd (frontier_add epoch hs maximum s)) = frontier_live s @ hs"
    if "fst (frontier_add epoch hs maximum s) = Ok n"
    using accepted [OF that] index_ok_extend(2) [OF s1(2), of hs] s1(3) by (simp add: frontier_live_def)
qed

lemma remove_result:
  assumes inv: "frontier_inv s"
  shows "frontier_inv (snd (frontier_remove epoch hs s))" and "fst (frontier_remove epoch hs s) \<noteq> Panic"
    and "fst (frontier_remove epoch hs s) = Ok n \<Longrightarrow>
      frontier_live (snd (frontier_remove epoch hs s)) = filter (\<lambda>h. h \<notin> set hs) (frontier_live s)"
    and "fst (frontier_remove epoch hs s) = Err e \<Longrightarrow> snd (frontier_remove epoch hs s) = s"
proof -
  let ?s0 = "s\<lparr>fs_committed_set := fold AList.delete hs (fs_committed_set s), fs_committed_view := None\<rparr>"
  have ok: "index_ok (fs_committed_set ?s0) (fs_committed ?s0)"
    using inv index_ok_delete(1) by (simp add: frontier_inv_def)
  obtain s1 where s1: "frontier_compact ?s0 = Ok s1" "index_ok (fs_committed_set s1) (fs_committed s1)"
    "frontier_live s1 = frontier_live ?s0"
    "fst ` set (fs_committed_set s1) = fst ` set (fs_committed_set ?s0)"
    "\<exists>cs m. s1 = ?s0\<lparr>fs_committed := cs, fs_committed_set := m\<rparr>"
    by (rule compact_invisible [OF ok])
  have live: "frontier_live ?s0 = filter (\<lambda>h. h \<notin> set hs) (frontier_live s)"
    using inv index_ok_delete(2) by (simp add: frontier_inv_def frontier_live_def)
  let ?s2 = "s1\<lparr>fs_committed_epoch := Some epoch\<rparr>"
  have cases: "snd (frontier_remove epoch hs s) = (if not_after epoch (fs_committed_epoch s) then s else ?s2)"
    using s1(1) by (simp add: frontier_remove_def Let_def)
  have "upload_ok ?s2 = upload_ok s" "fs_upload_epoch ?s2 = fs_upload_epoch s" "fs_committed_view ?s2 = None"
    using s1(5) by (auto simp: upload_ok_def)
  then show "frontier_inv (snd (frontier_remove epoch hs s))"
    using inv s1(2) cases by (simp add: frontier_inv_def)
  show "fst (frontier_remove epoch hs s) \<noteq> Panic"
    using s1(1) by (simp add: frontier_remove_def Let_def)
  show "frontier_live (snd (frontier_remove epoch hs s)) = filter (\<lambda>h. h \<notin> set hs) (frontier_live s)"
    if "fst (frontier_remove epoch hs s) = Ok n"
    using that cases s1(3) live by (auto simp: frontier_remove_def Let_def frontier_live_def split: if_splits)
  show "snd (frontier_remove epoch hs s) = s" if "fst (frontier_remove epoch hs s) = Err e"
    using that s1(1) by (auto simp: frontier_remove_def Let_def split: if_splits)
qed

section \<open>A whole upload\<close>

text \<open>
  The open upload of a list: its size, and which positions hold their final handle.
\<close>

definition upload_holds :: "u64 \<Rightarrow> turf_handle list \<Rightarrow> nat set \<Rightarrow> frontier_state \<Rightarrow> bool" where
  "upload_holds epoch hs positions s \<longleftrightarrow> frontier_inv s \<and> fs_upload_epoch s = Some epoch \<and>
     unat (fs_upload_expected s) = length hs \<and> positions \<subseteq> {..<length hs} \<and>
     (\<forall>i < length hs. bit_at (fs_received_bits s) i \<longleftrightarrow> i \<in> positions) \<and>
     (\<forall>i \<in> positions. fs_staging s ! i = hs ! i)"

lemma upload_begins:
  assumes "frontier_inv s" and "epoch \<noteq> 0" and "expected \<le> maximum" and "unat expected = length hs"
    and "\<not> not_after epoch (fs_committed_epoch s)" and "\<not> not_after epoch (fs_upload_epoch s)"
    and "\<And>i. alloc i"
  shows "fst (frontier_begin alloc epoch expected maximum s) = Ok ()"
    and "upload_holds epoch hs {} (snd (frontier_begin alloc epoch expected maximum s))"
proof -
  obtain r s' where step: "frontier_begin alloc epoch expected maximum s = (r, s')" by fastforce
  then have r: "r = Ok ()" and s': "fs_upload_epoch s' = Some epoch" "fs_upload_expected s' = expected"
    "fs_received_bits s' = replicate ((unat expected + 63) div 64) 0"
    using assms leD [OF assms(3)] by (auto simp: frontier_begin_def Let_def)
  have "frontier_inv s'" using begin_inv [OF assms(1) step] r by simp
  moreover have "\<not> bit_at (fs_received_bits s') i" if "i < unat expected" for i
    using div_64_less [OF that] by (simp add: s' bit_at_def)
  ultimately show "fst (frontier_begin alloc epoch expected maximum s) = Ok ()"
    and "upload_holds epoch hs {} (snd (frontier_begin alloc epoch expected maximum s))"
    using step r s' assms(4) by (simp_all add: upload_holds_def)
qed

lemma upload_grows:
  assumes up: "upload_holds epoch hs positions s" and "distinct hs"
    and part: "part = take (length part) (drop (unat offset) hs)"
    and range: "unat offset + length part \<le> length hs"
    and free: "positions \<inter> {unat offset..<unat offset + length part} = {}"
  shows "fst (frontier_append epoch offset part True s) = Ok (word_of_nat (length part))"
    and "upload_holds epoch hs (positions \<union> {unat offset..<unat offset + length part})
      (snd (frontier_append epoch offset part True s))"
    and "fs_committed_epoch (snd (frontier_append epoch offset part True s)) = fs_committed_epoch s"
proof -
  let ?new = "{unat offset..<unat offset + length part}"
  have inv: "frontier_inv s" and epoch: "fs_upload_epoch s = Some epoch"
    and n: "unat (fs_upload_expected s) = length hs" and sub: "positions \<subseteq> {..<length hs}"
    and received: "\<And>i. i < length hs \<Longrightarrow> bit_at (fs_received_bits s) i \<longleftrightarrow> i \<in> positions"
    and held: "\<And>i. i \<in> positions \<Longrightarrow> fs_staging s ! i = hs ! i"
    using up by (auto simp: upload_holds_def)
  have at: "part ! k = hs ! (unat offset + k)" if "k < length part" for k
    using that range by (subst part) simp
  have "fs_upload_seen s = (!) (fs_staging s) ` {i. i < length hs \<and> bit_at (fs_received_bits s) i}"
    using inv epoch by (simp add: frontier_inv_def upload_ok_def Let_def n)
  also have "\<dots> = (!) hs ` positions"
    using received held sub by (intro image_cong) auto
  finally have seen: "fs_upload_seen s = (!) hs ` positions" .
  have "part ! k \<noteq> hs ! i" if "k < length part" "i \<in> positions" for k i
  proof -
    have "unat offset + k \<noteq> i" using that free by fastforce
    moreover have "i < length hs" "unat offset + k < length hs" using that sub range by auto
    ultimately show ?thesis using \<open>distinct hs\<close> at [OF that(1)] by (simp add: nth_eq_iff_index_eq)
  qed
  then have fresh: "set part \<inter> fs_upload_seen s = {}"
    by (auto simp: seen in_set_conv_nth)
  have dist: "distinct part" by (subst part) (simp add: \<open>distinct hs\<close>)
  have open_positions: "\<not> bit_at (fs_received_bits s) i" if "unat offset \<le> i" "i < unat offset + length part" for i
    using that free received [of i] range by auto
  have "unat offset + length part \<le> unat (fs_upload_expected s)" using range n by simp
  from append_accepts [OF inv epoch this open_positions dist fresh] obtain staging bits where
    s': "frontier_append epoch offset part True s = (Ok (word_of_nat (length part)),
       s\<lparr>fs_staging := staging, fs_received_bits := bits, fs_upload_seen := fs_upload_seen s \<union> set part,
         fs_upload_received := fs_upload_received s + word_of_nat (length part)\<rparr>)"
    and "\<forall>j. bit_at bits j \<longleftrightarrow> bit_at (fs_received_bits s) j \<or>
       unat offset \<le> j \<and> j < unat offset + length part"
    and "\<forall>j. staging ! j = (if unat offset \<le> j \<and> j < unat offset + length part
       then part ! (j - unat offset) else fs_staging s ! j)"
    by auto
  note bits = this(2) [rule_format] and staging = this(3) [rule_format]
  have "frontier_inv (snd (frontier_append epoch offset part True s))"
    using inv by (rule append_keeps_inv)
  moreover have "staging ! i = hs ! i" if "i \<in> positions \<union> ?new" for i
    using that held at free by (auto simp: staging)
  ultimately show "fst (frontier_append epoch offset part True s) = Ok (word_of_nat (length part))"
    and "upload_holds epoch hs (positions \<union> ?new) (snd (frontier_append epoch offset part True s))"
    and "fs_committed_epoch (snd (frontier_append epoch offset part True s)) = fs_committed_epoch s"
    using epoch n sub range received by (auto simp: upload_holds_def s' bits)
qed

lemma upload_completes:
  assumes up: "upload_holds epoch hs {..<length hs} s"
  shows "frontier_pending epoch s = Ok hs"
proof -
  have facts: "fs_upload_epoch s = Some epoch" "unat (fs_upload_expected s) = length hs"
    "\<And>i. i < length hs \<Longrightarrow> bit_at (fs_received_bits s) i"
    "\<And>i. i < length hs \<Longrightarrow> fs_staging s ! i = hs ! i"
    using up by (auto simp: upload_holds_def)
  have ok: "length (fs_staging s) = length hs"
    "unat (fs_upload_received s) = card {i. i < length hs \<and> bit_at (fs_received_bits s) i}"
    using up by (auto simp: upload_holds_def frontier_inv_def upload_ok_def Let_def)
  have "{i. i < length hs \<and> bit_at (fs_received_bits s) i} = {..<length hs}"
    using facts(3) by auto
  then have "fs_upload_received s = fs_upload_expected s"
    using ok(2) facts(2) by (simp add: word_unat_eq_iff)
  moreover have "fs_staging s = hs"
    using ok(1) facts(4) by (auto intro: nth_equalityI)
  ultimately show ?thesis by (simp add: frontier_pending_def facts(1))
qed

section \<open>Sequences of operations\<close>

text \<open>
  The operations of \<open>FrontierState\<close>; \<open>FoCommit\<close> is the caller's \<open>pending\<close> followed by
  \<open>commit_validated\<close>.
\<close>

datatype (plugins only: size) frontier_op =
    FoBegin u64 u32 u32
  | FoAppend u64 u32 "turf_handle list" bool
  | FoCommit u64
  | FoAdd u64 "turf_handle list" u32
  | FoRemove u64 "turf_handle list"
  | FoView

definition frontier_commit :: "u64 \<Rightarrow> frontier_state \<Rightarrow> (u32, frontier_error) result \<times> frontier_state" where
  "frontier_commit epoch s =
     (case frontier_pending epoch s of
        Ok handles \<Rightarrow> frontier_commit_validated epoch s
      | Err e \<Rightarrow> (Err e, s) | Panic \<Rightarrow> (Panic, s))"

primrec frontier_step :: "frontier_state \<Rightarrow> frontier_op \<Rightarrow> frontier_state" where
  "frontier_step s (FoBegin epoch expected maximum) = snd (frontier_begin (\<lambda>_. True) epoch expected maximum s)"
| "frontier_step s (FoAppend epoch offset handles alloc) = snd (frontier_append epoch offset handles alloc s)"
| "frontier_step s (FoCommit epoch) = snd (frontier_commit epoch s)"
| "frontier_step s (FoAdd epoch handles maximum) = snd (frontier_add epoch handles maximum s)"
| "frontier_step s (FoRemove epoch handles) = snd (frontier_remove epoch handles s)"
| "frontier_step s FoView = snd (frontier_committed s)"

lemma begin_no_failure: "fst (frontier_begin (\<lambda>_. True) epoch expected maximum s) \<noteq> Err FrontierAllocationFailed"
  by (simp add: frontier_begin_def Let_def epoch_conflict_def)

lemma frontier_step_inv: "frontier_inv s \<Longrightarrow> frontier_inv (frontier_step s op)"
proof (cases op)
  case (FoBegin epoch expected maximum)
  assume "frontier_inv s"
  then show ?thesis
    using FoBegin begin_inv [OF _ prod.collapse [symmetric] begin_no_failure] by simp
next
  case (FoCommit epoch)
  assume "frontier_inv s"
  then show ?thesis
    using FoCommit commit_result(1) [of s epoch]
    by (cases "frontier_pending epoch s") (simp_all add: frontier_commit_def)
next
  case FoView
  assume "frontier_inv s"
  then show ?thesis
    using FoView by (auto simp: frontier_committed_def frontier_inv_def frontier_live_def upload_ok_def
        split: option.splits)
qed (simp_all add: append_keeps_inv add_result remove_result)

interpretation frontier: step_system frontier_step frontier_inv
  by unfold_locales (rule frontier_step_inv)

text \<open>
  What clients see: the list that \<open>committed()\<close> returns.
\<close>

lemma committed_is_live: "frontier_inv s \<Longrightarrow> fst (frontier_committed s) = frontier_live s"
  by (auto simp: frontier_committed_def frontier_inv_def split: option.splits)

text \<open>
  After any sequence of frontier operations the committed frontier is a list of distinct
  handles, whose length is the size of the index map, however often the vector was compacted or
  the cached view reused.
\<close>

theorem committed_frontier_distinct:
  "let s = foldl frontier_step frontier_default ops in
     distinct (fst (frontier_committed s)) \<and>
     length (fst (frontier_committed s)) = length (fs_committed_set s) \<and>
     frontier_inv s"
proof -
  have "frontier_inv (foldl frontier_step frontier_default ops)"
    by (rule frontier.run_inv) (rule frontier_inv_default)
  then show ?thesis
    by (simp add: Let_def committed_is_live frontier_live_def distinct_keep_live index_ok_live_length
        frontier_inv_def)
qed

text \<open>
  C17: on the committed list, \<open>add\<close> appends the new handles and \<open>remove\<close> filters out the removed
  ones; an addition or removal that reports an error changes nothing, and neither panics. The
  vector, the index map, the compaction and the cache are invisible.
\<close>

theorem frontier_incremental_refines:
  assumes "frontier_inv s"
  shows "(case fst (frontier_add epoch hs maximum s) of
       Ok n \<Rightarrow> fst (frontier_committed (snd (frontier_add epoch hs maximum s))) = fst (frontier_committed s) @ hs
     | Err e \<Rightarrow> snd (frontier_add epoch hs maximum s) = s
     | Panic \<Rightarrow> False) \<and>
    (case fst (frontier_remove epoch hs s) of
       Ok n \<Rightarrow> fst (frontier_committed (snd (frontier_remove epoch hs s))) =
         filter (\<lambda>h. h \<notin> set hs) (fst (frontier_committed s))
     | Err e \<Rightarrow> snd (frontier_remove epoch hs s) = s
     | Panic \<Rightarrow> False)"
  using add_result [OF assms, of epoch hs maximum] remove_result [OF assms, of epoch hs] assms
  by (auto simp: committed_is_live split: result.splits)

theorem frontier_incremental_refines_witness:
  "fst (frontier_committed (snd (frontier_add 1 [TurfHandle 3 1, TurfHandle 5 1] 8 frontier_default))) =
     [TurfHandle 3 1, TurfHandle 5 1]"
  using frontier_incremental_refines [OF frontier_inv_default, of 1 "[TurfHandle 3 1, TurfHandle 5 1]" 8]
  by (simp add: frontier_add_def frontier_default_def not_after_def frontier_compact_def
      frontier_committed_def frontier_live_def)

text \<open>
  A part of an upload is either rejected with an error that changes nothing, or accepted, and
  then exactly its positions become received and hold its handles; earlier parts keep theirs. So
  parts may come in any order, and none is overwritten.
\<close>

theorem frontier_upload_append:
  assumes "frontier_inv s"
  shows "(\<exists>e. frontier_append epoch offset hs alloc s = (Err e, s)) \<or>
    (\<exists>s'. frontier_append epoch offset hs alloc s = (Ok (word_of_nat (length hs)), s') \<and> frontier_inv s' \<and>
      fs_upload_epoch s = Some epoch \<and> unat offset + length hs \<le> unat (fs_upload_expected s) \<and>
      (\<forall>i. bit_at (fs_received_bits s') i \<longleftrightarrow>
         bit_at (fs_received_bits s) i \<or> unat offset \<le> i \<and> i < unat offset + length hs) \<and>
      (\<forall>i. unat offset \<le> i \<and> i < unat offset + length hs \<longrightarrow> \<not> bit_at (fs_received_bits s) i \<and>
         fs_staging s' ! i = hs ! (i - unat offset)) \<and>
      (\<forall>i. bit_at (fs_received_bits s) i \<longrightarrow> fs_staging s' ! i = fs_staging s ! i))"
proof (cases "\<exists>e. frontier_append epoch offset hs alloc s = (Err e, s)")
  case False
  note out = append_outcome [OF assms False]
  obtain staging bits where s': "frontier_append epoch offset hs True s = (Ok (word_of_nat (length hs)),
       s\<lparr>fs_staging := staging, fs_received_bits := bits, fs_upload_seen := fs_upload_seen s \<union> set hs,
         fs_upload_received := fs_upload_received s + word_of_nat (length hs)\<rparr>)"
    and len: "length staging = length (fs_staging s)" "length bits = length (fs_received_bits s)"
    and bits: "\<forall>j. bit_at bits j \<longleftrightarrow> bit_at (fs_received_bits s) j \<or>
       unat offset \<le> j \<and> j < unat offset + length hs"
    and staging: "\<forall>j. staging ! j = (if unat offset \<le> j \<and> j < unat offset + length hs then hs ! (j - unat offset)
       else fs_staging s ! j)"
    using append_accepts [OF assms out(2-6)] by auto
  have "frontier_inv (snd (frontier_append epoch offset hs True s))"
    using append_keeps_inv [OF assms] .
  then show ?thesis
    using s' out bits staging by auto
qed simp

theorem frontier_upload_append_witness:
  "(let s = snd (frontier_begin (\<lambda>_. True) 1 2 4 frontier_default) in
     (\<exists>e. frontier_append 1 0 [TurfHandle 3 1] True s = (Err e, s)) \<or>
     (\<exists>s'. frontier_append 1 0 [TurfHandle 3 1] True s = (Ok 1, s') \<and> fs_staging s' ! 0 = TurfHandle 3 1))"
proof -
  let ?s = "snd (frontier_begin (\<lambda>_. True) 1 2 4 frontier_default)"
  have "frontier_inv ?s"
    using frontier_step_inv [OF frontier_inv_default, of "FoBegin 1 2 4"] by simp
  from frontier_upload_append [OF this, of 1 0 "[TurfHandle 3 1]" True] show ?thesis
    unfolding Let_def by auto
qed

text \<open>
  C25: after any frontier operations, whatever they answered, in which every \<open>begin\<close> got the memory it asked for:
  a commit succeeds only on a complete upload, and then the committed frontier is the list of the uploaded handles,
  each at the position it was uploaded to. (What becomes of an open upload when a \<open>begin\<close> runs out of memory is
  stated for the world's frontier requests at the end of their theory.)
\<close>

theorem frontier_commit_installs_upload:
  fixes ops
  defines "s \<equiv> foldl frontier_step frontier_default ops"
  assumes "frontier_commit epoch s = (Ok n, s')"
  shows "fst (frontier_committed s') = fs_staging s \<and>
    length (fs_staging s) = unat (fs_upload_expected s) \<and> distinct (fs_staging s) \<and>
    (\<forall>i < length (fs_staging s). bit_at (fs_received_bits s) i) \<and>
    fs_committed_epoch s' = Some epoch \<and> fs_upload_epoch s = Some epoch \<and> fs_upload_epoch s' = None"
proof -
  have inv: "frontier_inv s" unfolding s_def by (rule frontier.run_inv) (rule frontier_inv_default)
  obtain hs where pending: "frontier_pending epoch s = Ok hs"
    and s': "frontier_commit_validated epoch s = (Ok n, s')"
    using assms(2) by (auto simp: frontier_commit_def split: result.splits)
  have "fs_upload_epoch s = Some epoch"
    using pending by (auto simp: frontier_pending_def split: if_splits)
  moreover have "fs_committed_epoch s' = Some epoch \<and> fs_upload_epoch s' = None"
    using s' by (auto simp: frontier_commit_validated_def)
  moreover have "fst (frontier_committed s') = hs"
    using commit_result [OF inv pending] s' by (simp add: committed_is_live)
  ultimately show ?thesis
    using pending_complete [OF inv pending] by simp
qed

theorem frontier_commit_installs_upload_witness:
  "(let s0 = foldl frontier_step frontier_default [FoBegin 5 1 4, FoAppend 5 0 [TurfHandle 0 1] True]
    in fst (frontier_committed (snd (frontier_commit 5 s0))) = fs_staging s0)"
proof -
  let ?ops = "[FoBegin 5 1 4, FoAppend 5 0 [TurfHandle 0 1] True]"
  let ?s0 = "foldl frontier_step frontier_default ?ops"
  have "fst (frontier_commit 5 ?s0) = Ok 1"
    by (simp add: Let_def frontier_begin_def frontier_append_def frontier_commit_def frontier_pending_def
        frontier_commit_validated_def frontier_default_def not_after_def vec_resize_def u32_try_from_def
        checked_add_def is_received_def vec_get_def u32_max_def)
  then have "frontier_commit 5 ?s0 = (Ok 1, snd (frontier_commit 5 ?s0))" by (metis prod.collapse)
  from frontier_commit_installs_upload [of 5 ?ops, OF this] show ?thesis unfolding Let_def by blast
qed

text \<open>
  C39: committing an upload can move the frontier and its epoch backwards. In every consistent state with a
  complete upload, when an addition with a later epoch than the upload's is accepted before the upload is committed, the
  commit is accepted all the same: the earlier epoch of the upload replaces the later one and the uploaded
  list replaces the one the addition made.
\<close>

theorem frontier_commit_can_lower_epoch:
  assumes "frontier_inv s" and "frontier_pending epoch s = Ok hs" and "epoch < later"
    and "frontier_add later added maximum s = (Ok n, s1)"
  shows "fs_committed_epoch s1 = Some later \<and> fst (frontier_committed s1) = fst (frontier_committed s) @ added \<and>
    (case frontier_commit epoch s1 of (r, s2) \<Rightarrow> r = Ok (word_of_nat (length hs)) \<and>
       fs_committed_epoch s2 = Some epoch \<and> fst (frontier_committed s2) = hs)"
proof -
  have inv: "frontier_inv s1" using add_result(1) [OF assms(1), of later added maximum] assms(4) by simp
  obtain t where t: "frontier_compact s = Ok t" "\<exists>cs m. t = s\<lparr>fs_committed := cs, fs_committed_set := m\<rparr>"
    using compact_invisible [of s] assms(1) by (metis frontier_inv_def)
  have s1: "fs_committed_epoch s1 = Some later" "frontier_pending epoch s1 = Ok hs"
    using assms(2,4) t
    by (auto simp: frontier_add_def frontier_pending_def Let_def split: if_splits option.splits)
  moreover have "fst (frontier_committed s1) = fst (frontier_committed s) @ added"
    using add_result(3) [OF assms(1), of later added maximum n] assms(1,4) inv by (simp add: committed_is_live)
  moreover have "fst (frontier_committed (snd (frontier_commit_validated epoch s1))) = hs"
    using commit_result [OF inv s1(2)] by (simp add: committed_is_live)
  moreover have "fs_staging s1 = hs" using s1(2) by (auto simp: frontier_pending_def split: if_splits)
  ultimately show ?thesis
    by (simp add: frontier_commit_def frontier_commit_validated_def)
qed

definition uploaded :: frontier_state where
  "uploaded = foldl frontier_step frontier_default [FoBegin 5 1 4, FoAppend 5 0 [TurfHandle 0 1] True]"

theorem frontier_commit_can_lower_epoch_witness:
  "fs_committed_epoch (snd (frontier_commit 5 (snd (frontier_add 9 [TurfHandle 1 1] 4 uploaded)))) = Some 5"
proof -
  have "frontier_inv uploaded" unfolding uploaded_def by (rule frontier.run_inv) (rule frontier_inv_default)
  moreover have "frontier_pending 5 uploaded = Ok [TurfHandle 0 1]"
    "frontier_add 9 [TurfHandle 1 1] 4 uploaded = (Ok 1, snd (frontier_add 9 [TurfHandle 1 1] 4 uploaded))"
    by (simp_all add: uploaded_def Let_def frontier_begin_def frontier_append_def frontier_add_def
        frontier_pending_def frontier_compact_def frontier_default_def not_after_def vec_resize_def u32_try_from_def
        checked_add_def is_received_def vec_get_def u32_max_def)
  ultimately show ?thesis
    using frontier_commit_can_lower_epoch [of uploaded 5 "[TurfHandle 0 1]" 9 "[TurfHandle 1 1]" 4 1
        "snd (frontier_add 9 [TurfHandle 1 1] 4 uploaded)"]
    by (simp split: prod.splits)
qed

end
