(* ===== verification/World_Frontier.thy ===== *)
theory World_Frontier
  imports Frontier_State Wire_Bytes
begin

text \<open>
  The world's entry points to the frontier (\<^verbatim>\<open>begin_frontier\<close> to \<^verbatim>\<open>remove_frontier\<close> of
  \<^verbatim>\<open>crates/dogmos-core/src/world.rs\<close>). Of the world they read the turf slots and whether a stage
  cursor is active: while a stage runs, its frontier must not change under it.
\<close>

section \<open>State and errors\<close>

datatype (plugins only: size) world_frontier_error =
    ActiveStageMutation string
  | UnknownTurfHandle turf_handle
  | StaleTurfHandle turf_handle u32
  | FrontierFailed frontier_error

text \<open>A turf slot: the generation of its last occupant, and whether it is occupied.\<close>

record turf_slot =
  ts_generation :: "u32 option"
  ts_occupied :: bool

record frontier_world =
  fw_stage_active :: bool
  fw_turfs :: "turf_slot list"
  fw_frontier :: frontier_state

definition require_turf_handle_in :: "turf_slot list \<Rightarrow> turf_handle \<Rightarrow> (unit, world_frontier_error) result" where
  "require_turf_handle_in turfs handle =
     (case vec_get turfs (unat (th_slot handle)) of
        None \<Rightarrow> Err (UnknownTurfHandle handle)
      | Some slot \<Rightarrow>
        (case ts_generation slot of
          None \<Rightarrow> Err (UnknownTurfHandle handle)
        | Some generation \<Rightarrow>
          if generation \<noteq> th_generation handle then Err (StaleTurfHandle handle generation)
          else if ts_occupied slot then Ok () else Err (UnknownTurfHandle handle)))"

section \<open>Operations\<close>

definition reject_active_stage :: "string \<Rightarrow> frontier_world \<Rightarrow> (unit, world_frontier_error) result" where
  "reject_active_stage operation w = reject_if (fw_stage_active w) (ActiveStageMutation operation)"

text \<open>Run a frontier operation behind its checks, mapping its errors.\<close>

definition guarded ::
  "(unit, world_frontier_error) result \<Rightarrow> (frontier_state \<Rightarrow> ('a, frontier_error) result \<times> frontier_state) \<Rightarrow>
   frontier_world \<Rightarrow> ('a, world_frontier_error) result \<times> frontier_world" where
  "guarded check f w =
     (case check of
        Ok _ \<Rightarrow> (case f (fw_frontier w) of (r, s) \<Rightarrow> (map_err FrontierFailed r, w\<lparr>fw_frontier := s\<rparr>))
      | Err e \<Rightarrow> (Err e, w) | Panic \<Rightarrow> (Panic, w))"

definition turf_maximum :: "frontier_world \<Rightarrow> u32" where
  "turf_maximum w = (case u32_try_from (length (fw_turfs w)) of Some n \<Rightarrow> n | None \<Rightarrow> word_of_nat u32_max)"

definition begin_frontier ::
  "(nat \<Rightarrow> bool) \<Rightarrow> u64 \<Rightarrow> u32 \<Rightarrow> frontier_world \<Rightarrow> (unit, world_frontier_error) result \<times> frontier_world" where
  "begin_frontier alloc epoch expected w =
     guarded (reject_active_stage ''begin frontier'' w)
       (frontier_begin alloc epoch expected (turf_maximum w)) w"

definition append_frontier ::
  "u64 \<Rightarrow> u32 \<Rightarrow> turf_handle list \<Rightarrow> bool \<Rightarrow> frontier_world \<Rightarrow>
   (u32, world_frontier_error) result \<times> frontier_world" where
  "append_frontier epoch offset handles alloc w =
     guarded (Ok ()) (frontier_append epoch offset handles alloc) w"

definition commit_frontier :: "u64 \<Rightarrow> frontier_world \<Rightarrow> (u32, world_frontier_error) result \<times> frontier_world" where
  "commit_frontier epoch w =
     guarded
       (rbind (reject_active_stage ''commit frontier'' w) (\<lambda>_.
        rbind (map_err FrontierFailed (frontier_pending epoch (fw_frontier w)))
          (rforeach (require_turf_handle_in (fw_turfs w)))))
       (frontier_commit_validated epoch) w"

definition add_frontier ::
  "u64 \<Rightarrow> turf_handle list \<Rightarrow> frontier_world \<Rightarrow> (u32, world_frontier_error) result \<times> frontier_world" where
  "add_frontier epoch handles w =
     guarded
       (rbind (reject_active_stage ''add frontier handles'' w) (\<lambda>_.
        rforeach (require_turf_handle_in (fw_turfs w)) handles))
       (frontier_add epoch handles (turf_maximum w)) w"

definition remove_frontier ::
  "u64 \<Rightarrow> turf_handle list \<Rightarrow> frontier_world \<Rightarrow> (u32, world_frontier_error) result \<times> frontier_world" where
  "remove_frontier epoch handles w =
     guarded (reject_active_stage ''remove frontier handles'' w) (frontier_remove epoch handles) w"

datatype (plugins only: size) world_frontier_op =
    WBegin u64 u32
  | WAppend u64 u32 "turf_handle list" bool
  | WCommit u64
  | WAdd u64 "turf_handle list"
  | WRemove u64 "turf_handle list"

primrec world_frontier_step :: "frontier_world \<Rightarrow> world_frontier_op \<Rightarrow> frontier_world" where
  "world_frontier_step w (WBegin epoch expected) = snd (begin_frontier (\<lambda>_. True) epoch expected w)"
| "world_frontier_step w (WAppend epoch offset handles alloc) = snd (append_frontier epoch offset handles alloc w)"
| "world_frontier_step w (WCommit epoch) = snd (commit_frontier epoch w)"
| "world_frontier_step w (WAdd epoch handles) = snd (add_frontier epoch handles w)"
| "world_frontier_step w (WRemove epoch handles) = snd (remove_frontier epoch handles w)"

section \<open>Invariant\<close>

lemma guarded_state:
  "snd (guarded check f w) = (case check of Ok _ \<Rightarrow> w\<lparr>fw_frontier := snd (f (fw_frontier w))\<rparr> | _ \<Rightarrow> w)"
  by (auto simp: guarded_def split: result.splits prod.splits)

definition world_frontier_inv :: "frontier_world \<Rightarrow> bool" where
  "world_frontier_inv w \<longleftrightarrow> frontier_inv (fw_frontier w)"

lemma world_frontier_step_inv: "world_frontier_inv w \<Longrightarrow> world_frontier_inv (world_frontier_step w op)"
proof -
  assume inv: "world_frontier_inv w"
  show ?thesis
  proof (cases op)
    case (WBegin epoch expected)
    have "frontier_inv (snd (frontier_begin (\<lambda>_. True) epoch expected (turf_maximum w) (fw_frontier w)))"
      using inv frontier_step_inv [of "fw_frontier w" "FoBegin epoch expected (turf_maximum w)"]
      by (simp add: world_frontier_inv_def)
    with inv WBegin show ?thesis
      by (auto simp: begin_frontier_def guarded_state world_frontier_inv_def split: result.splits)
  next
    case (WCommit epoch)
    with inv commit_result(1) [of "fw_frontier w" epoch] show ?thesis
      by (auto simp: commit_frontier_def guarded_state world_frontier_inv_def split: result.splits)
  qed (use inv in \<open>auto simp: append_frontier_def add_frontier_def remove_frontier_def guarded_state
      world_frontier_inv_def append_keeps_inv add_result remove_result split: result.splits\<close>)
qed

interpretation world_frontier: step_system world_frontier_step world_frontier_inv
  by unfold_locales (rule world_frontier_step_inv)

lemma append_keeps_committed:
  "fs_committed (snd (frontier_append epoch offset hs alloc s)) = fs_committed s"
  "fs_committed_set (snd (frontier_append epoch offset hs alloc s)) = fs_committed_set s"
  "fs_committed_view (snd (frontier_append epoch offset hs alloc s)) = fs_committed_view s"
  "fs_committed_epoch (snd (frontier_append epoch offset hs alloc s)) = fs_committed_epoch s"
  by (auto simp: frontier_append_def split: option.splits result.splits bool.splits)

text \<open>What a running stage reads of the frontier.\<close>

definition committed_part :: "frontier_world \<Rightarrow> u64 option \<times> turf_handle list" where
  "committed_part w = (fs_committed_epoch (fw_frontier w), fst (frontier_committed (fw_frontier w)))"

lemma stage_step_keeps_committed:
  assumes "fw_stage_active w"
  shows "committed_part (world_frontier_step w op) = committed_part w"
    and "fw_stage_active (world_frontier_step w op)"
  using assms
  by (cases op; auto simp: begin_frontier_def commit_frontier_def add_frontier_def remove_frontier_def
      append_frontier_def reject_active_stage_def guarded_state committed_part_def frontier_committed_def
      frontier_live_def append_keeps_committed split: option.splits)+

text \<open>
  C34: while a stage is running no sequence of frontier requests changes the frontier the stage
  works on, neither its handles nor its epoch; uploads may only be prepared.
\<close>

theorem active_stage_frontier_stable:
  assumes "fw_stage_active w"
  shows "committed_part (foldl world_frontier_step w ops) = committed_part w"
proof -
  have "committed_part (foldl world_frontier_step w ops) = committed_part w \<and>
      fw_stage_active (foldl world_frontier_step w ops)"
    using assms by (induction ops arbitrary: w) (simp_all add: stage_step_keeps_committed)
  then show ?thesis by simp
qed

definition example_world :: frontier_world where
  "example_world = \<lparr>fw_stage_active = True,
     fw_turfs = [\<lparr>ts_generation = Some 1, ts_occupied = True\<rparr>], fw_frontier = frontier_default\<rparr>"

theorem active_stage_frontier_stable_witness:
  "committed_part (foldl world_frontier_step example_world [WAdd 1 [TurfHandle 0 1], WCommit 1]) =
   committed_part example_world"
  using active_stage_frontier_stable [of example_world "[WAdd 1 [TurfHandle 0 1], WCommit 1]"]
  by (simp add: example_world_def)

lemma frontier_pending_not_Panic: "frontier_pending epoch s \<noteq> Panic"
  by (simp add: frontier_pending_def)

definition turf_exists :: "turf_slot list \<Rightarrow> turf_handle \<Rightarrow> bool" where
  "turf_exists turfs h \<longleftrightarrow> unat (th_slot h) < length turfs \<and>
     ts_generation (turfs ! unat (th_slot h)) = Some (th_generation h) \<and> ts_occupied (turfs ! unat (th_slot h))"

lemma require_turf_exists: "require_turf_handle_in turfs h = Ok () \<longleftrightarrow> turf_exists turfs h"
  by (auto simp: require_turf_handle_in_def turf_exists_def vec_get_def split: option.splits if_splits)

lemma require_turf_not_Panic: "require_turf_handle_in turfs h \<noteq> Panic"
  by (simp add: require_turf_handle_in_def split: option.splits)

text \<open>
  C35: the frontier only takes up handles of turfs that exist at that moment: after an accepted
  addition every added handle, and after an accepted commit every handle of the frontier, names
  an occupied slot with the current generation.
\<close>

theorem frontier_handles_exist:
  assumes "world_frontier_inv w"
  shows "(case add_frontier epoch hs w of (Ok n, w') \<Rightarrow>
       list_all (turf_exists (fw_turfs w)) hs \<and>
       snd (committed_part w') = snd (committed_part w) @ hs \<and> fst (committed_part w') = Some epoch
     | (Err e, w') \<Rightarrow> w' = w | (Panic, w') \<Rightarrow> False) \<and>
    (case commit_frontier epoch w of (Ok n, w') \<Rightarrow>
       list_all (turf_exists (fw_turfs w)) (snd (committed_part w')) \<and> fst (committed_part w') = Some epoch
     | (Err e, w') \<Rightarrow> w' = w | (Panic, w') \<Rightarrow> False)"
proof -
  have inv: "frontier_inv (fw_frontier w)" using assms by (simp add: world_frontier_inv_def)
  have each: "rforeach (require_turf_handle_in (fw_turfs w)) xs = Ok () \<longleftrightarrow>
      list_all (turf_exists (fw_turfs w)) xs" for xs
    by (simp add: rforeach_eq_Ok require_turf_exists list_all_iff)
  have no_panic: "rforeach (require_turf_handle_in (fw_turfs w)) xs \<noteq> Panic" for xs
    by (rule rforeach_neq_Panic) (rule require_turf_not_Panic)
  note add = add_result [OF inv, of epoch hs "turf_maximum w"]
  have epoch: "fs_committed_epoch (snd (frontier_add epoch hs m s)) = Some epoch"
    if "fst (frontier_add epoch hs m s) = Ok n" for m s n
    using that by (auto simp: frontier_add_def Let_def split: if_splits option.splits result.splits)
  have "case add_frontier epoch hs w of (Ok n, w') \<Rightarrow>
       list_all (turf_exists (fw_turfs w)) hs \<and>
       snd (committed_part w') = snd (committed_part w) @ hs \<and> fst (committed_part w') = Some epoch
     | (Err e, w') \<Rightarrow> w' = w | (Panic, w') \<Rightarrow> False"
    using add epoch [of "turf_maximum w" "fw_frontier w"] each [of hs] no_panic [of hs] inv
    by (cases "frontier_add epoch hs (turf_maximum w) (fw_frontier w)";
        cases "fst (frontier_add epoch hs (turf_maximum w) (fw_frontier w))")
      (auto simp: add_frontier_def guarded_def reject_active_stage_def committed_part_def
        committed_is_live split: result.splits)
  moreover have "case commit_frontier epoch w of (Ok n, w') \<Rightarrow>
       list_all (turf_exists (fw_turfs w)) (snd (committed_part w')) \<and> fst (committed_part w') = Some epoch
     | (Err e, w') \<Rightarrow> w' = w | (Panic, w') \<Rightarrow> False"
    using each no_panic commit_result [OF inv, of epoch] frontier_pending_not_Panic [of epoch "fw_frontier w"]
    by (cases "frontier_pending epoch (fw_frontier w)")
      (auto simp: commit_frontier_def guarded_def reject_active_stage_def committed_part_def
        committed_is_live frontier_commit_validated_def split: result.splits)
  ultimately show ?thesis by blast
qed

theorem frontier_handles_exist_witness:
  "case add_frontier 1 [TurfHandle 0 1] (example_world\<lparr>fw_stage_active := False\<rparr>) of (Ok n, w') \<Rightarrow>
     snd (committed_part w') = [TurfHandle 0 1] | (Err e, w') \<Rightarrow> w' = example_world\<lparr>fw_stage_active := False\<rparr>
   | (Panic, w') \<Rightarrow> False"
proof -
  let ?w = "example_world\<lparr>fw_stage_active := False\<rparr>"
  have "world_frontier_inv ?w" by (simp add: world_frontier_inv_def example_world_def frontier_inv_default)
  moreover have "snd (committed_part ?w) = []"
    by (simp add: committed_part_def example_world_def frontier_committed_def frontier_live_def frontier_default_def)
  ultimately show ?thesis
    using frontier_handles_exist [where w = ?w and epoch = 1 and hs = "[TurfHandle 0 1]"]
    by (auto split: prod.splits result.splits)
qed

section \<open>When a begin runs out of memory\<close>

text \<open>The commit of a list that ends with copies of the handle that \<open>resize\<close> fills it up with keeps one of them.\<close>

lemma keep_live_fillers:
  assumes "distinct hs" and "k \<noteq> 0"
  shows "keep_live (index_from 0 (hs @ replicate k f) []) 0 (hs @ replicate k f) = filter (\<lambda>h. h \<noteq> f) hs @ [f]"
proof -
  obtain j where k: "k = Suc j" using assms(2) by (cases k) simp_all
  have append: "index_from n (xs @ ys) m = index_from (n + length xs) ys (index_from n xs m)" for n xs ys m
    by (induction xs arbitrary: n m) simp_all
  have fillers: "map_of (index_from n (replicate (Suc j) f) m) h = (if h = f then Some (n + j) else map_of m h)" for n m h j
    by (induction j arbitrary: n m) (simp_all add: update_conv')
  let ?own = "index_from 0 hs []"
  let ?m = "index_from 0 (hs @ replicate k f) []"
  have m: "map_of ?m h = (if h = f then Some (length hs + j) else map_of ?own h)" for h
    unfolding append k fillers by simp
  have "keep_live ?m 0 hs = keep_live (AList.delete f ?own) 0 hs"
    by (rule keep_live_cong) (auto simp: m delete_conv')
  also have "\<dots> = filter (\<lambda>h. h \<noteq> f) (keep_live ?own 0 hs)"
    by (rule keep_live_filter) (auto simp: delete_conv')
  also have "keep_live ?own 0 hs = hs"
    using map_of_index_from [OF assms(1)] by (intro keep_live_all) simp
  finally have own: "keep_live ?m 0 hs = filter (\<lambda>h. h \<noteq> f) hs" .
  have "keep_live m n (replicate (Suc j) f) = [f]" if "map_of m f = Some (n + j)" for m n j
    using that by (induction j arbitrary: n) simp_all
  from this [of ?m "length hs" j] have "keep_live ?m (length hs) (replicate k f) = [f]"
    using m [of f] by (simp add: k)
  then show ?thesis by (simp only: keep_live_append own add_0)
qed

lemma late_failure_state:
  assumes "fst (frontier_begin (\<lambda>_. True) epoch expected maximum s) = Ok ()"
    and "alloc 0" and "\<not> (alloc 1 \<and> alloc 2)"
  shows "fst (frontier_begin alloc epoch expected maximum s) = Err FrontierAllocationFailed"
    and "fs_staging (snd (frontier_begin alloc epoch expected maximum s)) =
      vec_resize (unat expected) (TurfHandle 0 0) (fs_staging s)"
    and "fs_upload_epoch (snd (frontier_begin alloc epoch expected maximum s)) = fs_upload_epoch s"
    and "fs_upload_expected (snd (frontier_begin alloc epoch expected maximum s)) = fs_upload_expected s"
    and "fs_upload_received (snd (frontier_begin alloc epoch expected maximum s)) = fs_upload_received s"
  using assms by (auto simp: frontier_begin_def Let_def split: if_splits)

lemma failed_begin_fills:
  assumes inv: "world_frontier_inv w" and pending: "frontier_pending epoch (fw_frontier w) = Ok hs"
    and begins: "fst (begin_frontier (\<lambda>_. True) later expected w) = Ok ()"
    and larger: "fs_upload_expected (fw_frontier w) < expected" and memory: "alloc 0" "\<not> (alloc 1 \<and> alloc 2)"
  obtains f k where "begin_frontier alloc later expected w = (Err (FrontierFailed FrontierAllocationFailed), w\<lparr>fw_frontier := f\<rparr>)"
    and "frontier_pending epoch f = Ok (hs @ replicate k (TurfHandle 0 0))" and "fs_staging f = hs @ replicate k (TurfHandle 0 0)"
    and "k \<noteq> 0" and "word_of_nat (length hs + k) = expected" and "\<not> fw_stage_active w"
proof -
  let ?f = "fw_frontier w" and ?filler = "TurfHandle 0 0"
  let ?k = "unat expected - length hs"
  let ?start = "\<lambda>alloc. frontier_begin alloc later expected (turf_maximum w) ?f"
  have still: "\<not> fw_stage_active w"
    using begins by (auto simp: begin_frontier_def guarded_def reject_active_stage_def)
  have upload: "hs = fs_staging ?f" "length hs = unat (fs_upload_expected ?f)"
    using pending_complete [OF _ pending] inv by (simp_all add: world_frontier_inv_def)
  have "fst (?start (\<lambda>_. True)) = Ok ()"
    using begins still by (auto simp: begin_frontier_def guarded_def reject_active_stage_def split: prod.splits result.splits)
  note late = late_failure_state [OF this memory]
  obtain f where f: "?start alloc = (Err FrontierAllocationFailed, f)" using late(1) by (metis prod.collapse)
  have "length hs < unat expected" using larger upload(2) by (simp add: word_less_nat_alt)
  moreover from this have "vec_resize (unat expected) ?filler hs = hs @ replicate ?k ?filler" by (simp add: vec_resize_def)
  moreover from this have "frontier_pending epoch f = Ok (hs @ replicate ?k ?filler)" "fs_staging f = hs @ replicate ?k ?filler"
    using pending late(2-5) upload(1) f by (auto simp: frontier_pending_def split: if_splits)
  ultimately show thesis
    using still f by (intro that [of f ?k]) (simp_all add: begin_frontier_def guarded_def reject_active_stage_def)
qed

text \<open>
  C40: a \<open>begin\<close> that fails can spoil an upload that was complete. Let the commit of the open upload be
  accepted if it came now, and let a \<open>begin\<close> with a later epoch and more handles, which would be accepted too, get the
  memory for its staging list but not that for its bits or its set. It reports the failed allocation, and the open
  upload is left longer than it was, filled up with the handle of slot 0 and generation 0, which nobody uploaded. If there is
  no such turf, the commit is refused from then on. If there is one, the commit is accepted and the committed frontier
  is the uploaded handles with that handle at its end. (A reservation can only fail where the new count exceeds the
  capacity that the vector or the set has already, which the model does not know.)
\<close>

theorem failed_begin_spoils_upload:
  assumes "world_frontier_inv w" and "fst (commit_frontier epoch w) = Ok n"
    and "fst (begin_frontier (\<lambda>_. True) later expected w) = Ok ()"
    and "fs_upload_expected (fw_frontier w) < expected" and "alloc 0" and "\<not> (alloc 1 \<and> alloc 2)"
  shows "(case begin_frontier alloc later expected w of (r, w1) \<Rightarrow>
     r = Err (FrontierFailed FrontierAllocationFailed) \<and>
     (case commit_frontier epoch w1 of
        (Ok count, w2) \<Rightarrow> turf_exists (fw_turfs w) (TurfHandle 0 0) \<and> count = expected \<and>
          committed_part w2 = (Some epoch, filter (\<lambda>h. h \<noteq> TurfHandle 0 0) (fs_staging (fw_frontier w)) @ [TurfHandle 0 0])
      | (Err e, w2) \<Rightarrow> \<not> turf_exists (fw_turfs w) (TurfHandle 0 0) \<and> w2 = w1
      | (Panic, w2) \<Rightarrow> False))"
proof -
  let ?filler = "TurfHandle 0 0"
  obtain hs where pending: "frontier_pending epoch (fw_frontier w) = Ok hs" and live: "list_all (turf_exists (fw_turfs w)) hs"
    using assms(2) by (auto simp: commit_frontier_def guarded_def rforeach_eq_Ok require_turf_exists list_all_iff
        split: result.splits)
  have upload: "hs = fs_staging (fw_frontier w)" "distinct hs"
    using pending_complete [OF _ pending] assms(1) by (simp_all add: world_frontier_inv_def)
  obtain f k where failed: "begin_frontier alloc later expected w = (Err (FrontierFailed FrontierAllocationFailed), w\<lparr>fw_frontier := f\<rparr>)"
    and filled: "frontier_pending epoch f = Ok (hs @ replicate k ?filler)" "fs_staging f = hs @ replicate k ?filler"
    and k: "k \<noteq> 0" and total: "word_of_nat (length hs + k) = expected" and still: "\<not> fw_stage_active w"
    using failed_begin_fills [OF assms(1) pending assms(3-6)] by metis
  let ?check = "rforeach (require_turf_handle_in (fw_turfs w)) (hs @ replicate k ?filler)"
  have each: "?check = Ok () \<longleftrightarrow> turf_exists (fw_turfs w) ?filler"
    using live k by (auto simp: rforeach_eq_Ok require_turf_exists list_all_iff)
  show ?thesis
  proof (cases "turf_exists (fw_turfs w) ?filler")
    case True
    then have "commit_frontier epoch (w\<lparr>fw_frontier := f\<rparr>) =
        (Ok expected, w\<lparr>fw_frontier := snd (frontier_commit_validated epoch f)\<rparr>)"
      using still each total
      by (simp add: commit_frontier_def guarded_def reject_active_stage_def filled frontier_commit_validated_def)
    then show ?thesis
      using True keep_live_fillers [OF upload(2) k, of ?filler] upload(1)
      by (simp add: failed committed_part_def frontier_committed_def frontier_live_def frontier_commit_validated_def filled)
  next
    case False
    have "?check \<noteq> Panic" by (rule rforeach_neq_Panic) (rule require_turf_not_Panic)
    then obtain e where "?check = Err e" using each False by (cases ?check) auto
    then show ?thesis
      using still False by (simp add: failed commit_frontier_def guarded_def reject_active_stage_def filled(1))
  qed
qed

text \<open>
  One handle is uploaded; then 64 are announced and the set of the handles seen, which had been made for one, cannot
  grow.
\<close>

definition uploaded_world :: frontier_world where
  "uploaded_world = example_world\<lparr>fw_stage_active := False,
     fw_turfs := replicate 64 \<lparr>ts_generation = Some 1, ts_occupied = True\<rparr>, fw_frontier := uploaded\<rparr>"

lemma uploaded_eq:
  "uploaded = frontier_default\<lparr>fs_upload_epoch := Some 5, fs_upload_expected := 1, fs_upload_received := 1,
     fs_staging := [TurfHandle 0 1], fs_received_bits := [1], fs_upload_seen := {TurfHandle 0 1}\<rparr>"
  by (simp add: uploaded_def Let_def frontier_begin_def frontier_append_def frontier_default_def not_after_def
      vec_resize_def u32_try_from_def checked_add_def is_received_def vec_get_def u32_max_def)

theorem failed_begin_spoils_upload_witness:
  "fst (commit_frontier 5 uploaded_world) = Ok 1 \<and>
   (case begin_frontier (\<lambda>n. n \<noteq> 2) 6 64 uploaded_world of (r, w1) \<Rightarrow>
      r = Err (FrontierFailed FrontierAllocationFailed) \<and> (\<forall>n. fst (commit_frontier 5 w1) \<noteq> Ok n))"
proof -
  have inv: "world_frontier_inv uploaded_world"
    using frontier.run_inv [OF frontier_inv_default, of "[FoBegin 5 1 4, FoAppend 5 0 [TurfHandle 0 1] True]"]
    by (simp add: world_frontier_inv_def uploaded_world_def uploaded_def)
  have commit: "fst (commit_frontier 5 uploaded_world) = Ok 1"
    by (simp add: uploaded_world_def example_world_def uploaded_eq frontier_default_def commit_frontier_def guarded_def
        reject_active_stage_def frontier_pending_def frontier_commit_validated_def require_turf_handle_in_def vec_get_def)
  have "fst (begin_frontier (\<lambda>_. True) 6 64 uploaded_world) = Ok ()"
    by (simp add: uploaded_world_def example_world_def uploaded_eq frontier_default_def begin_frontier_def guarded_def
        reject_active_stage_def frontier_begin_def Let_def not_after_def turf_maximum_def u32_try_from_def u32_max_def)
  moreover have "\<not> turf_exists (fw_turfs uploaded_world) (TurfHandle 0 0)"
    "fs_upload_expected (fw_frontier uploaded_world) < 64"
    by (simp_all add: turf_exists_def uploaded_world_def uploaded_eq)
  ultimately show ?thesis
    using commit failed_begin_spoils_upload [OF inv commit, of 6 64 "\<lambda>n. n \<noteq> 2"] by (auto split: prod.splits result.splits)
qed

end
