(* ===== verification/Server_Frontier.thy ===== *)
theory Server_Frontier
  imports Server_Session Wire_Frontier Wire_Callback Wire_Stage World_Frontier
begin

text \<open>
  The dispatch of the server (\<^verbatim>\<open>crates/dogmos-server/src/lib.rs\<close>), with its frontier requests
  down to the world (\<^verbatim>\<open>state.rs\<close>), its stateless requests, and the mapping of the service's
  errors to the codes a client sees. The arms of the other operations are a parameter.
\<close>

section \<open>Errors of the service\<close>

datatype (plugins only: size) state_error =
    SeUnknownHandle wire_handle
  | SeStaleHandle wire_handle u32
  | SeRevisionMismatch wire_handle u32 u32
  | SeRevisionExhausted wire_handle
  | SeDuplicateMixtureState u32
  | SeInvalidMixtureState
  | SeInvalidMetadata
  | SeSelfAdjacency u32
  | SeDuplicateTurfAdjacency u32 u32
  | SeInvalidConductivity
  | SeInvalidSecondsPerTick
  | SeStageNotImplemented simulation_stage
  | SeGraph string
  | SeState string
  | SeStateCapacityExceeded
  | SeAllocationFailed
  | SeCallbackBackpressure
  | SeCallbackOutputTooSmall
  | SeCallbackSequenceExhausted
  | SeReactionTransactionCapacityExceeded
  | SeReactionTransactionIdExhausted
  | SeUnknownReactionTransaction u64
  | SeFrontierConflict
  | SeFrontierIncomplete
  | SeMixtureStateUploadConflict
  | SeMixtureStateUploadIncomplete
  | SeMixtureStateUploadIdExhausted
  | SeStageConflict string
  | SeContinuationCapacityExceeded
  | SeContinuationIdExhausted
  | SeContinuationDeadlineExhausted
  | SeUnknownContinuation continuation_token
  | SeContinuationWorldMismatch u32 u32
  | SeContinuationTokenMismatch continuation_token
  | SeContinuationExpired continuation_token
  | SeCancelled

fun service_error_code :: "state_error \<Rightarrow> service_error_code" where
  "service_error_code (SeUnknownHandle _) = SvcUnknownHandle"
| "service_error_code (SeStaleHandle _ _) = SvcStaleHandle"
| "service_error_code (SeRevisionMismatch _ _ _) = SvcRevisionMismatch"
| "service_error_code (SeRevisionExhausted _) = SvcRevisionExhausted"
| "service_error_code (SeDuplicateMixtureState _) = SvcDuplicateMixtureState"
| "service_error_code SeInvalidMixtureState = SvcInvalidMixtureState"
| "service_error_code SeStateCapacityExceeded = SvcStateCapacityExceeded"
| "service_error_code SeAllocationFailed = SvcAllocationFailed"
| "service_error_code (SeGraph _) = SvcInvalidGraph"
| "service_error_code SeCallbackBackpressure = SvcCallbackBackpressure"
| "service_error_code SeReactionTransactionCapacityExceeded = SvcCallbackBackpressure"
| "service_error_code SeFrontierConflict = SvcFrontierConflict"
| "service_error_code SeFrontierIncomplete = SvcFrontierIncomplete"
| "service_error_code (SeStageConflict _) = SvcStageConflict"
| "service_error_code SeMixtureStateUploadConflict = SvcMixtureStateUploadConflict"
| "service_error_code SeMixtureStateUploadIncomplete = SvcMixtureStateUploadIncomplete"
| "service_error_code SeContinuationCapacityExceeded = SvcContinuationCapacityExceeded"
| "service_error_code (SeUnknownContinuation _) = SvcUnknownContinuation"
| "service_error_code (SeContinuationWorldMismatch _ _) = SvcContinuationWorldMismatch"
| "service_error_code (SeContinuationTokenMismatch _) = SvcContinuationTokenMismatch"
| "service_error_code (SeContinuationExpired _) = SvcContinuationExpired"
| "service_error_code SeCancelled = SvcDeadlineExceeded"
| "service_error_code (SeSelfAdjacency _) = SvcInvalidRequest"
| "service_error_code (SeDuplicateTurfAdjacency _ _) = SvcInvalidRequest"
| "service_error_code (SeUnknownReactionTransaction _) = SvcInvalidRequest"
| "service_error_code SeInvalidMetadata = SvcInvalidRequest"
| "service_error_code SeInvalidConductivity = SvcInvalidRequest"
| "service_error_code SeInvalidSecondsPerTick = SvcInvalidRequest"
| "service_error_code (SeStageNotImplemented _) = SvcInvalidRequest"
| "service_error_code (SeState _) = SvcInternal"
| "service_error_code SeCallbackOutputTooSmall = SvcInternal"
| "service_error_code SeCallbackSequenceExhausted = SvcInternal"
| "service_error_code SeReactionTransactionIdExhausted = SvcInternal"
| "service_error_code SeMixtureStateUploadIdExhausted = SvcInternal"
| "service_error_code SeContinuationIdExhausted = SvcInternal"
| "service_error_code SeContinuationDeadlineExhausted = SvcInternal"

section \<open>Frontier operations of the service\<close>

definition core_turf_handle :: "wire_handle \<Rightarrow> turf_handle" where
  "core_turf_handle handle = TurfHandle (wh_slot handle) (wh_generation handle)"

definition wire_handle_from_turf :: "turf_handle \<Rightarrow> wire_handle" where
  "wire_handle_from_turf handle = WireHandle (th_slot handle) (th_generation handle)"

text \<open>The rows of \<^verbatim>\<open>map_world_error\<close> for the errors the frontier entry points produce.\<close>

primrec map_frontier_error :: "frontier_error \<Rightarrow> state_error" where
  "map_frontier_error (Incomplete _ _ _) = SeFrontierIncomplete"
| "map_frontier_error FrontierAllocationFailed = SeAllocationFailed"
| "map_frontier_error (InvalidEpoch _) = SeFrontierConflict"
| "map_frontier_error (EpochConflict _ _ _) = SeFrontierConflict"
| "map_frontier_error (CountExceeded _ _) = SeFrontierConflict"
| "map_frontier_error (RangeOutOfBounds _ _ _) = SeFrontierConflict"
| "map_frontier_error (RangeAlreadyReceived _ _) = SeFrontierConflict"
| "map_frontier_error (DuplicateHandle _) = SeFrontierConflict"

primrec map_world_error :: "world_frontier_error \<Rightarrow> state_error" where
  "map_world_error (FrontierFailed e) = map_frontier_error e"
| "map_world_error (UnknownTurfHandle handle) = SeUnknownHandle (wire_handle_from_turf handle)"
| "map_world_error (StaleTurfHandle requested current) = SeStaleHandle (wire_handle_from_turf requested) current"
| "map_world_error (ActiveStageMutation operation) =
     SeStageConflict (''stage conflict: '' @ operation @ '' attempted while a stage is active'')"

definition mapped ::
  "('a, world_frontier_error) result \<times> frontier_world \<Rightarrow> ('a, state_error) result \<times> frontier_world" where
  "mapped m = (map_err map_world_error (fst m), snd m)"

definition service_begin_frontier ::
  "(nat \<Rightarrow> bool) \<Rightarrow> u64 \<Rightarrow> u32 \<Rightarrow> frontier_world \<Rightarrow> (unit, state_error) result \<times> frontier_world" where
  "service_begin_frontier alloc epoch expected_count w = mapped (begin_frontier alloc epoch expected_count w)"

definition service_append_frontier ::
  "u64 \<Rightarrow> u32 \<Rightarrow> wire_handle list \<Rightarrow> bool \<Rightarrow> frontier_world \<Rightarrow> (u32, state_error) result \<times> frontier_world" where
  "service_append_frontier epoch offset handles alloc w =
     (let handles = map core_turf_handle handles in mapped (append_frontier epoch offset handles alloc w))"

definition service_commit_frontier :: "u64 \<Rightarrow> frontier_world \<Rightarrow> (u32, state_error) result \<times> frontier_world" where
  "service_commit_frontier epoch w = mapped (commit_frontier epoch w)"

definition service_add_frontier ::
  "u64 \<Rightarrow> wire_handle list \<Rightarrow> frontier_world \<Rightarrow> (u32, state_error) result \<times> frontier_world" where
  "service_add_frontier epoch handles w =
     (let handles = map core_turf_handle handles in mapped (add_frontier epoch handles w))"

definition service_remove_frontier ::
  "u64 \<Rightarrow> wire_handle list \<Rightarrow> frontier_world \<Rightarrow> (u32, state_error) result \<times> frontier_world" where
  "service_remove_frontier epoch handles w =
     (let handles = map core_turf_handle handles in mapped (remove_frontier epoch handles w))"

section \<open>Arms of the dispatch\<close>

text \<open>
  Most arms decode the payload, run one operation of the service and encode its result. A panic
  of the operation ends the server thread.
\<close>

definition respond ::
  "('a \<Rightarrow> bytes) \<Rightarrow> ('a, state_error) result \<times> 'w \<Rightarrow> arm_outcome \<times> 'w" where
  "respond encode m =
     (case m of
        (Ok x, w) \<Rightarrow> (Reply (encode x), w)
      | (Err e, w) \<Rightarrow> (StateFailed (service_error_code e), w)
      | (Panic, w) \<Rightarrow> (CloseConnection, w))"

definition frontier_begin_arm ::
  "(nat \<Rightarrow> bool) \<Rightarrow> handshake_payload \<Rightarrow> bytes \<Rightarrow> frontier_world \<Rightarrow> arm_outcome \<times> frontier_world" where
  "frontier_begin_arm alloc expected payload w =
     (case frontier_begin_request_decode payload of
        Ok request \<Rightarrow>
          if fb_expected_count request > cl_max_frontier_handles (hp_capacities expected) then (Malformed, w)
          else respond (\<lambda>_. epoch_encode (fb_epoch request))
            (service_begin_frontier alloc (fb_epoch request) (fb_expected_count request) w)
      | _ \<Rightarrow> (Malformed, w))"

definition frontier_append_arm :: "bool \<Rightarrow> bytes \<Rightarrow> frontier_world \<Rightarrow> arm_outcome \<times> frontier_world" where
  "frontier_append_arm alloc payload w =
     (case decode_frontier_append_into payload of
        Ok (header, handles) \<Rightarrow>
          respond count_encode (service_append_frontier (fah_epoch header) (fah_offset header) handles alloc w)
      | _ \<Rightarrow> (Malformed, w))"

definition frontier_commit_arm :: "bytes \<Rightarrow> frontier_world \<Rightarrow> arm_outcome \<times> frontier_world" where
  "frontier_commit_arm payload w =
     (case epoch_decode payload of
        Ok epoch \<Rightarrow>
          respond (\<lambda>count. frontier_commit_response_encode \<lparr>fc_epoch = epoch, fc_count = count\<rparr>)
            (service_commit_frontier epoch w)
      | _ \<Rightarrow> (Malformed, w))"

definition frontier_add_arm :: "bytes \<Rightarrow> frontier_world \<Rightarrow> arm_outcome \<times> frontier_world" where
  "frontier_add_arm payload w =
     (case decode_frontier_mutate_into payload of
        Ok (header, handles) \<Rightarrow> respond count_encode (service_add_frontier (fmh_epoch header) handles w)
      | _ \<Rightarrow> (Malformed, w))"

definition frontier_remove_arm :: "bytes \<Rightarrow> frontier_world \<Rightarrow> arm_outcome \<times> frontier_world" where
  "frontier_remove_arm payload w =
     (case decode_frontier_mutate_into payload of
        Ok (header, handles) \<Rightarrow> respond count_encode (service_remove_frontier (fmh_epoch header) handles w)
      | _ \<Rightarrow> (Malformed, w))"

definition batch_arm :: "bytes \<Rightarrow> 'w \<Rightarrow> arm_outcome \<times> 'w" where
  "batch_arm payload w =
     (case read_count payload of
        Some operation_count \<Rightarrow> (Reply (to_le_bytes operation_count), w)
      | None \<Rightarrow> (CloseConnection, w))"

text \<open>The dispatch. \<open>alloc\<close> says which allocations of a frontier upload succeed.\<close>

definition dispatch ::
  "(nat \<Rightarrow> bool) \<Rightarrow> frontier_world arms \<Rightarrow> frontier_world arms" where
  "dispatch alloc other expected operation payload w =
     (case operation of
        OpEcho \<Rightarrow> (Reply payload, w)
      | OpScalarGet \<Rightarrow> (Reply (zeros 8), w)
      | OpTransfer \<Rightarrow> (Reply (zeros 8), w)
      | OpScalarSet \<Rightarrow> (Reply [], w)
      | OpAdjacencyUpdate \<Rightarrow> (Reply [], w)
      | OpGasVector \<Rightarrow> (Reply (zeros 260), w)
      | OpBatch \<Rightarrow> batch_arm payload w
      | OpFrontierBegin \<Rightarrow> frontier_begin_arm alloc expected payload w
      | OpFrontierAppend \<Rightarrow> frontier_append_arm (alloc 3) payload w
      | OpFrontierCommit \<Rightarrow> frontier_commit_arm payload w
      | OpFrontierAdd \<Rightarrow> frontier_add_arm payload w
      | OpFrontierRemove \<Rightarrow> frontier_remove_arm payload w
      | OpShutdown \<Rightarrow> (ShutdownService, w)
      | OpHandshake \<Rightarrow> (CloseConnection, w)
      | _ \<Rightarrow> other expected operation payload w)"

lemma dispatch_frontier [simp]:
  "dispatch alloc other expected OpFrontierBegin payload w = frontier_begin_arm alloc expected payload w"
  "dispatch alloc other expected OpFrontierAppend payload w = frontier_append_arm (alloc 3) payload w"
  "dispatch alloc other expected OpFrontierCommit payload w = frontier_commit_arm payload w"
  "dispatch alloc other expected OpFrontierAdd payload w = frontier_add_arm payload w"
  "dispatch alloc other expected OpFrontierRemove payload w = frontier_remove_arm payload w"
  by (simp_all add: dispatch_def)

text \<open>The payload and answer of a request that arrives when the world is in this state.\<close>

fun run_arms ::
  "frontier_world arms \<Rightarrow> handshake_payload \<Rightarrow> (operation_kind \<times> bytes) list \<Rightarrow> frontier_world \<Rightarrow>
   arm_outcome list \<times> frontier_world" where
  "run_arms arms expected [] w = ([], w)"
| "run_arms arms expected ((operation, payload) # rest) w =
     (case arms expected operation payload w of
        (outcome, w) \<Rightarrow> (case run_arms arms expected rest w of (outcomes, w) \<Rightarrow> (outcome # outcomes, w)))"

section \<open>A frontier upload through the server\<close>

text \<open>
  The requests a client sends to upload a list: begin, its parts with their positions, commit.
\<close>

definition append_payload :: "u64 \<Rightarrow> u32 \<times> wire_handle list \<Rightarrow> bytes" where
  "append_payload epoch part =
     (case frontier_append_encode \<lparr>fa_epoch = epoch, fa_offset = fst part, fa_handles = snd part\<rparr> of
        Ok bs \<Rightarrow> bs | _ \<Rightarrow> [])"

definition upload_requests ::
  "u64 \<Rightarrow> wire_handle list \<Rightarrow> (u32 \<times> wire_handle list) list \<Rightarrow> (operation_kind \<times> bytes) list" where
  "upload_requests epoch hs parts =
     (OpFrontierBegin, frontier_begin_request_encode
        \<lparr>fb_epoch = epoch, fb_expected_count = word_of_nat (length hs)\<rparr>) #
     map (\<lambda>part. (OpFrontierAppend, append_payload epoch part)) parts @
     [(OpFrontierCommit, epoch_encode epoch)]"

definition part_positions :: "u32 \<times> 'a list \<Rightarrow> nat list" where
  "part_positions part = [unat (fst part)..<unat (fst part) + length (snd part)]"

text \<open>The parts are pieces of the list, in any order, and every position is in exactly one.\<close>

definition part_of :: "'a list \<Rightarrow> u32 \<times> 'a list \<Rightarrow> bool" where
  "part_of hs part \<longleftrightarrow> unat (fst part) + length (snd part) \<le> length hs \<and>
     snd part = take (length (snd part)) (drop (unat (fst part)) hs)"

definition partition_of :: "'a list \<Rightarrow> (u32 \<times> 'a list) list \<Rightarrow> bool" where
  "partition_of hs parts \<longleftrightarrow> list_all (part_of hs) parts \<and>
     distinct (concat (map part_positions parts)) \<and>
     set (concat (map part_positions parts)) = {..<length hs}"

lemma inj_core_turf_handle: "inj core_turf_handle"
  by (auto intro!: injI simp: core_turf_handle_def wire_handle.expand)

lemma part_of_map: "part_of hs part \<Longrightarrow> part_of (map f hs) (fst part, map f (snd part))"
  by (auto simp: part_of_def take_map drop_map [symmetric]) (metis drop_map take_map)

lemma decode_append_payload:
  assumes "frontier_handles_ok (snd part)"
  shows "decode_frontier_append_into (append_payload epoch part) =
    Ok (\<lparr>fah_epoch = epoch, fah_offset = fst part, fah_count = word_of_nat (length (snd part))\<rparr>, snd part)"
proof -
  let ?m = "(\<lparr>fah_epoch = epoch, fah_offset = fst part, fah_count = word_of_nat (length (snd part))\<rparr>, snd part)"
  have valid: "append_message_valid ?m" using assms by (simp add: append_message_valid_def)
  from frontier_append.enc_valid [OF this] obtain bs where "frontier_append_encode (append_request_of ?m) = Ok bs"
    by auto
  with frontier_append.dec_enc [OF valid this] show ?thesis
    by (simp add: append_payload_def append_request_of_def)
qed

text \<open>A world in the middle of an upload.\<close>

definition uploading :: "u64 \<Rightarrow> turf_handle list \<Rightarrow> nat set \<Rightarrow> turf_slot list \<Rightarrow> frontier_world \<Rightarrow> bool" where
  "uploading epoch hs positions turfs w \<longleftrightarrow> \<not> fw_stage_active w \<and> fw_turfs w = turfs \<and>
     upload_holds epoch hs positions (fw_frontier w)"

lemma begin_arm_uploads:
  assumes "frontier_inv (fw_frontier w)" and "\<not> fw_stage_active w" and "epoch \<noteq> 0"
    and "\<not> not_after epoch (fs_committed_epoch (fw_frontier w))"
    and "\<not> not_after epoch (fs_upload_epoch (fw_frontier w))"
    and "length hs \<le> unat (cl_max_frontier_handles (hp_capacities expected))"
    and "length hs \<le> length (fw_turfs w)" and "\<And>i. alloc i"
  shows "\<exists>w'. frontier_begin_arm alloc expected (frontier_begin_request_encode
      \<lparr>fb_epoch = epoch, fb_expected_count = word_of_nat (length hs)\<rparr>) w = (Reply (epoch_encode epoch), w') \<and>
    uploading epoch hs {} (fw_turfs w) w'"
proof -
  let ?n = "word_of_nat (length hs) :: u32"
  have len: "length hs \<le> u32_max"
    using assms(6) unat_u32_le_max [of "cl_max_frontier_handles (hp_capacities expected)"] by simp
  then have n: "unat ?n = length hs"
    by (simp add: unat_of_nat take_bit_nat_eq_self u32_max_def)
  have "length hs \<le> unat (turf_maximum w)"
    using assms(7) len
    by (auto simp: turf_maximum_def u32_max_def dest: u32_try_from_SomeD split: option.splits)
  then have max: "?n \<le> turf_maximum w" by (simp add: word_le_nat_alt n)
  note began = upload_begins [where hs = hs and alloc = alloc, OF assms(1,3) max n assms(4,5,8)]
  have dec: "frontier_begin_request_decode (frontier_begin_request_encode
      \<lparr>fb_epoch = epoch, fb_expected_count = ?n\<rparr>) = Ok \<lparr>fb_epoch = epoch, fb_expected_count = ?n\<rparr>"
    by (rule frontier_begin.dec_enc) simp_all
  have "\<not> ?n > cl_max_frontier_handles (hp_capacities expected)"
    using assms(6) by (simp add: word_less_nat_alt n)
  then show ?thesis
    using began assms(2) dec
    by (auto simp: frontier_begin_arm_def service_begin_frontier_def mapped_def begin_frontier_def guarded_def
        reject_active_stage_def respond_def uploading_def split: prod.splits)
qed

lemma append_arm_uploads:
  assumes "uploading epoch (map core_turf_handle hs) positions turfs w" and "distinct hs"
    and "part_of hs part" and "frontier_handles_ok (snd part)"
    and "positions \<inter> set (part_positions part) = {}"
  shows "\<exists>w'. frontier_append_arm True (append_payload epoch part) w =
      (Reply (count_encode (word_of_nat (length (snd part)))), w') \<and>
    uploading epoch (map core_turf_handle hs) (positions \<union> set (part_positions part)) turfs w'"
proof -
  let ?hs = "map core_turf_handle hs" and ?part = "map core_turf_handle (snd part)"
  have dist: "distinct ?hs"
    using assms(2) inj_core_turf_handle by (auto simp: distinct_map intro: inj_on_subset)
  have part: "?part = take (length ?part) (drop (unat (fst part)) ?hs)"
    and range: "unat (fst part) + length ?part \<le> length ?hs"
    using part_of_map [OF assms(3), of core_turf_handle] unfolding part_of_def by (simp_all only: fst_conv snd_conv)
  have positions: "set (part_positions part) = {unat (fst part)..<unat (fst part) + length ?part}"
    by (simp add: part_positions_def)
  have up: "upload_holds epoch ?hs positions (fw_frontier w)"
    using assms(1) by (simp add: uploading_def)
  have "fst (frontier_append epoch (fst part) ?part True (fw_frontier w)) = Ok (word_of_nat (length (snd part)))"
    "upload_holds epoch ?hs (positions \<union> set (part_positions part))
       (snd (frontier_append epoch (fst part) ?part True (fw_frontier w)))"
    using upload_grows(1,2) [OF up dist part range assms(5) [unfolded positions]]
    by (simp_all only: positions length_map)
  then show ?thesis
    using assms(1)
    by (auto simp: frontier_append_arm_def decode_append_payload [OF assms(4)] service_append_frontier_def
        mapped_def append_frontier_def guarded_def respond_def uploading_def Let_def split: prod.splits)
qed

lemma commit_arm_installs:
  assumes "uploading epoch hs {..<length hs} turfs w"
    and "\<And>h. h \<in> set hs \<Longrightarrow> require_turf_handle_in turfs h = Ok ()"
  shows "\<exists>w'. frontier_commit_arm (epoch_encode epoch) w =
      (Reply (frontier_commit_response_encode \<lparr>fc_epoch = epoch, fc_count = word_of_nat (length hs)\<rparr>), w') \<and>
    fst (frontier_committed (fw_frontier w')) = hs \<and> fs_committed_epoch (fw_frontier w') = Some epoch"
proof -
  have inv: "frontier_inv (fw_frontier w)" and pending: "frontier_pending epoch (fw_frontier w) = Ok hs"
    using assms(1) by (auto simp: uploading_def upload_holds_def intro: upload_completes)
  note res = commit_result [OF inv pending]
  have staging: "fs_staging (fw_frontier w) = hs"
    using pending_complete(1) [OF inv pending] by simp
  have "rforeach (require_turf_handle_in turfs) hs = Ok ()"
    using assms(2) by (simp add: rforeach_eq_Ok)
  moreover have "epoch_decode (epoch_encode epoch) = Ok epoch"
    by (rule epoch.dec_enc) simp_all
  ultimately show ?thesis
    using assms(1) pending res committed_is_live [OF res(1)] staging
    by (auto simp: frontier_commit_arm_def service_commit_frontier_def mapped_def
        commit_frontier_def guarded_def reject_active_stage_def respond_def uploading_def
        frontier_commit_validated_def split: result.splits)
qed

lemma append_arms_upload:
  assumes "uploading epoch (map core_turf_handle hs) positions turfs w" and "distinct hs"
    and "list_all (part_of hs) parts" and "\<forall>part \<in> set parts. frontier_handles_ok (snd part)"
    and "distinct (concat (map part_positions parts))"
    and "positions \<inter> set (concat (map part_positions parts)) = {}" and "alloc 3"
  shows "\<exists>w'. uploading epoch (map core_turf_handle hs)
        (positions \<union> set (concat (map part_positions parts))) turfs w' \<and>
      run_arms (dispatch alloc other) expected (map (\<lambda>part. (OpFrontierAppend, append_payload epoch part)) parts @ rest) w =
        (map (\<lambda>part. Reply (count_encode (word_of_nat (length (snd part))))) parts @
           fst (run_arms (dispatch alloc other) expected rest w'),
         snd (run_arms (dispatch alloc other) expected rest w'))"
  using assms
proof (induction parts arbitrary: positions w)
  case Nil
  then show ?case by auto
next
  case (Cons part parts)
  have "positions \<inter> set (part_positions part) = {}" using Cons.prems(6) by auto
  with append_arm_uploads [OF Cons.prems(1,2), of part] Cons.prems(3,4) obtain w1 where
    w1: "frontier_append_arm True (append_payload epoch part) w =
      (Reply (count_encode (word_of_nat (length (snd part)))), w1)"
      "uploading epoch (map core_turf_handle hs) (positions \<union> set (part_positions part)) turfs w1"
    by auto
  have "(positions \<union> set (part_positions part)) \<inter> set (concat (map part_positions parts)) = {}"
    using Cons.prems(5,6) by auto
  from Cons.IH [OF w1(2) Cons.prems(2) _ _ _ this Cons.prems(7)] Cons.prems(3,4,5) obtain w' where
    "uploading epoch (map core_turf_handle hs)
        (positions \<union> set (part_positions part) \<union> set (concat (map part_positions parts))) turfs w'"
    "run_arms (dispatch alloc other) expected (map (\<lambda>part. (OpFrontierAppend, append_payload epoch part)) parts @ rest) w1 =
        (map (\<lambda>part. Reply (count_encode (word_of_nat (length (snd part))))) parts @
           fst (run_arms (dispatch alloc other) expected rest w'),
         snd (run_arms (dispatch alloc other) expected rest w'))"
    by auto
  with w1(1) Cons.prems(7) show ?case
    by (intro exI [of _ w']) (simp add: Un_assoc)
qed

text \<open>
  C14: a client that uploads a list of distinct live turfs in parts, sent in any order, gets every
  request acknowledged and afterwards the server's committed frontier is exactly that list, through
  the wire formats, the dispatch, the world and the upload bookkeeping.
\<close>

theorem frontier_upload_end_to_end:
  assumes "frontier_inv (fw_frontier w)" and "\<not> fw_stage_active w" and "epoch \<noteq> 0"
    and "\<not> not_after epoch (fs_committed_epoch (fw_frontier w))"
    and "\<not> not_after epoch (fs_upload_epoch (fw_frontier w))"
    and "distinct hs" and "\<forall>h \<in> set hs. require_turf_handle_in (fw_turfs w) (core_turf_handle h) = Ok ()"
    and "length hs \<le> unat (cl_max_frontier_handles (hp_capacities expected))"
    and "length hs \<le> length (fw_turfs w)"
    and "partition_of hs parts" and "\<forall>part \<in> set parts. frontier_handles_ok (snd part)"
  shows "\<exists>w'. run_arms (dispatch (\<lambda>_. True) other) expected (upload_requests epoch hs parts) w =
      (Reply (epoch_encode epoch) #
         map (\<lambda>part. Reply (count_encode (word_of_nat (length (snd part))))) parts @
         [Reply (frontier_commit_response_encode \<lparr>fc_epoch = epoch, fc_count = word_of_nat (length hs)\<rparr>)], w') \<and>
    fst (frontier_committed (fw_frontier w')) = map core_turf_handle hs \<and>
    fs_committed_epoch (fw_frontier w') = Some epoch"
proof -
  let ?hs = "map core_turf_handle hs" and ?arms = "dispatch (\<lambda>_. True) other"
  from begin_arm_uploads [OF assms(1-5), of ?hs expected "\<lambda>_. True"] assms(8,9) obtain w1 where
    w1: "frontier_begin_arm (\<lambda>_. True) expected (frontier_begin_request_encode
        \<lparr>fb_epoch = epoch, fb_expected_count = word_of_nat (length hs)\<rparr>) w = (Reply (epoch_encode epoch), w1)"
      "uploading epoch ?hs {} (fw_turfs w) w1"
    by auto
  have parts: "list_all (part_of hs) parts" "distinct (concat (map part_positions parts))"
    "set (concat (map part_positions parts)) = {..<length ?hs}"
    using assms(10) by (simp_all add: partition_of_def)
  from append_arms_upload [OF w1(2) assms(6) parts(1) assms(11) parts(2), of "\<lambda>_. True" other expected
      "[(OpFrontierCommit, epoch_encode epoch)]"] obtain w2 where
    w2: "uploading epoch ?hs {..<length ?hs} (fw_turfs w) w2"
      "run_arms ?arms expected (map (\<lambda>part. (OpFrontierAppend, append_payload epoch part)) parts @
          [(OpFrontierCommit, epoch_encode epoch)]) w1 =
        (map (\<lambda>part. Reply (count_encode (word_of_nat (length (snd part))))) parts @
           fst (run_arms ?arms expected [(OpFrontierCommit, epoch_encode epoch)] w2),
         snd (run_arms ?arms expected [(OpFrontierCommit, epoch_encode epoch)] w2))"
    using parts(3) by auto
  from commit_arm_installs [OF w2(1)] assms(7) obtain w3 where
    "frontier_commit_arm (epoch_encode epoch) w2 =
       (Reply (frontier_commit_response_encode \<lparr>fc_epoch = epoch, fc_count = word_of_nat (length hs)\<rparr>), w3)"
    "fst (frontier_committed (fw_frontier w3)) = ?hs" "fs_committed_epoch (fw_frontier w3) = Some epoch"
    by auto
  with w1(1) w2(2) show ?thesis
    by (intro exI [of _ w3]) (simp add: upload_requests_def)
qed

definition upload_world :: frontier_world where
  "upload_world =
     \<lparr>fw_stage_active = False,
      fw_turfs = replicate 3 \<lparr>ts_generation = Some 1, ts_occupied = True\<rparr>,
      fw_frontier = frontier_default\<rparr>"

theorem frontier_upload_end_to_end_witness:
  "\<exists>w'. fst (frontier_committed (fw_frontier w')) = [TurfHandle 2 1, TurfHandle 0 1, TurfHandle 1 1] \<and>
    snd (run_arms (dispatch (\<lambda>_. True) (\<lambda>_ _ _ w. (Malformed, w))) example_handshake
      (upload_requests 7 [WireHandle 2 1, WireHandle 0 1, WireHandle 1 1]
        [(1, [WireHandle 0 1, WireHandle 1 1]), (0, [WireHandle 2 1])]) upload_world) = w'"
proof -
  let ?hs = "[WireHandle 2 1, WireHandle 0 1, WireHandle 1 1]"
  let ?parts = "[(1, [WireHandle 0 1, WireHandle 1 1]), (0, [WireHandle 2 1])] :: (u32 \<times> wire_handle list) list"
  have "partition_of ?hs ?parts"
    by (auto simp: partition_of_def part_of_def part_positions_def upt_rec)
  moreover have "frontier_inv (fw_frontier upload_world)" "\<not> fw_stage_active upload_world"
    "\<not> not_after 7 (fs_committed_epoch (fw_frontier upload_world))"
    "\<not> not_after 7 (fs_upload_epoch (fw_frontier upload_world))"
    "length ?hs \<le> length (fw_turfs upload_world)"
    "length ?hs \<le> unat (cl_max_frontier_handles (hp_capacities example_handshake))"
    using frontier_inv_default
    by (simp_all add: upload_world_def frontier_default_def not_after_def example_handshake_def)
  moreover have "\<forall>h \<in> set ?hs. require_turf_handle_in (fw_turfs upload_world) (core_turf_handle h) = Ok ()"
    by (simp add: require_turf_handle_in_def core_turf_handle_def upload_world_def vec_get_def)
  moreover have "\<forall>part \<in> set ?parts. frontier_handles_ok (snd part)"
    by (simp add: frontier_handles_ok_def max_frontier_append_handles_def)
  ultimately obtain w' where "run_arms (dispatch (\<lambda>_. True) (\<lambda>_ _ _ w. (Malformed, w))) example_handshake
      (upload_requests 7 ?hs ?parts) upload_world =
      (Reply (epoch_encode 7) #
         map (\<lambda>part. Reply (count_encode (word_of_nat (length (snd part))))) ?parts @
         [Reply (frontier_commit_response_encode \<lparr>fc_epoch = 7, fc_count = word_of_nat (length ?hs)\<rparr>)], w')"
    "fst (frontier_committed (fw_frontier w')) = map core_turf_handle ?hs"
    using frontier_upload_end_to_end [of upload_world 7 ?hs example_handshake ?parts "\<lambda>_ _ _ w. (Malformed, w)"]
    by auto
  then show ?thesis by (simp add: core_turf_handle_def)
qed

text \<open>The premises of the session theorem hold for a session that echoes.\<close>

theorem responses_match_requests_witness:
  "list_all2 (\<lambda>(h, payload) (elapsed, request, _). validate_response_to h request = Ok ())
    (read_frames (wr_sent (snd (fst (serve_requests (dispatch (\<lambda>_. True) (\<lambda>_ _ _ w. (Malformed, w))) example_handshake
       [(9, header_request OpEcho 2 1 5 1 0, [7])]
       \<lparr>ss_sequence = after_handshake 1, ss_protocol_errors = 0, ss_request_timeouts = 0, ss_world = upload_world\<rparr>
       \<lparr>wr_sent = [], wr_room = 100, wr_flushes = True\<rparr>)))) (zeros 1048576))
    [(9 :: nat, header_request OpEcho 2 1 5 1 0, [7 :: u8])]"
proof -
  let ?request = "header_request OpEcho 2 1 5 1 0"
  let ?s = "\<lparr>ss_sequence = after_handshake 1, ss_protocol_errors = 0, ss_request_timeouts = 0, ss_world = upload_world\<rparr>"
  let ?w = "\<lparr>wr_sent = [], wr_room = 100, wr_flushes = True\<rparr>"
  let ?arms = "dispatch (\<lambda>_. True) (\<lambda>_ _ _ w. (Malformed, w))"
  have gate: "session_gate example_handshake 9 ?request ?s =
      (GateAdmitted OpEcho, ?s\<lparr>ss_sequence := \<lparr>rs_last_request_id = 2\<rparr>\<rparr>)"
    by (simp add: session_gate_def example_handshake_def after_handshake_def sequence_accept_def
        deadline_budget_def deadline_expired_def word_le_nat_alt)
  have "header_valid ?request" by (simp add: header_request_valid max_control_payload_def)
  from header_response_valid [OF this] have "header_valid ((header_response ?request)\<lparr>ph_payload_len := 1\<rparr>)"
    by (simp add: header_valid_payload_len max_control_payload_def)
  then have "frame_valid ((header_response ?request)\<lparr>ph_payload_len := 1\<rparr>, [7])"
    by (simp add: frame_valid_def)
  then have "fst (write_response ?request [7] ?w) = Ok ()"
    by (simp add: write_response_def write_frame_valid write_all_def then_write_def flush_writer_def)
  then have run: "fst (fst (serve_requests ?arms example_handshake [(9, ?request, [7])] ?s ?w)) = Continue"
    by (auto simp: handle_request_def gate dispatch_def after_write_def split: prod.splits)
  have "unat max_control_payload \<le> length (zeros 1048576)" by (simp add: max_control_payload_def)
  note received = responses_match_requests [OF this, of ?arms example_handshake "[(9, ?request, [7])]" ?s 100 True,
      unfolded if_P [OF run]]
  from conjunct2 [OF received] show ?thesis
    using conjunct1 [OF received] by (simp only: take_all order_refl)
qed

end
