(* ===== verification/World_Continuations.thy ===== *)
theory World_Continuations
  imports Dogmos_Prelude
begin

text \<open>
  The continuations of reactions that wait for the game to run a step (\<^verbatim>\<open>allocate_continuation\<close> to
  \<^verbatim>\<open>invalidate_continuations_for_turf_slot\<close> of \<^verbatim>\<open>crates/dogmos-core/src/world.rs\<close>): slots with a
  generation and a free list. A token names a slot and the generation it was issued at.
\<close>

section \<open>State\<close>

datatype gameplay_handle = GameplayHandle (gh_slot: u32) (gh_generation: u32)

record reaction_continuation =
  rc_turf :: "turf_handle option"
  rc_mixture :: mixture_handle
  rc_target :: gameplay_handle
  rc_next_reaction_index :: u32
  rc_reaction_profile_threshold_ms :: "u32 option"

record continuation_slot =
  co_generation :: u32
  co_continuation :: "reaction_continuation option"

datatype continuation_token = CoreToken (ct_slot: u32) (ct_generation: u32)

datatype (plugins only: size) continuation_error =
    ContinuationCapacityExceeded
  | UnknownReactionContinuation continuation_token
  | StaleReactionContinuation continuation_token u32

record continuation_table =
  tb_continuations :: "continuation_slot list"
  tb_free :: "u32 list"
  tb_max :: u32

section \<open>Operations\<close>

definition occupied_slots :: "continuation_table \<Rightarrow> nat set" where
  "occupied_slots s = {i. i < length (tb_continuations s) \<and> co_continuation (tb_continuations s ! i) \<noteq> None}"

definition pending_reaction_continuations :: "continuation_table \<Rightarrow> u32" where
  "pending_reaction_continuations s =
     (case u32_try_from (length (filter (\<lambda>slot. co_continuation slot \<noteq> None) (tb_continuations s))) of
        Some n \<Rightarrow> n | None \<Rightarrow> word_of_nat u32_max)"

definition allocate_continuation ::
  "reaction_continuation \<Rightarrow> continuation_table \<Rightarrow>
   (continuation_token, continuation_error) result \<times> continuation_table" where
  "allocate_continuation c s =
     (case vec_pop (tb_free s) of
        Some (slot, free) \<Rightarrow>
          let s = s\<lparr>tb_free := free\<rparr>
          in (case vec_get (tb_continuations s) (unat slot) of
                None \<Rightarrow> (Panic, s)
              | Some entry \<Rightarrow>
                  (case checked_add (co_generation entry) 1 of
                     None \<Rightarrow> (Err ContinuationCapacityExceeded, s)
                   | Some generation \<Rightarrow>
                       (Ok (CoreToken slot generation),
                        s\<lparr>tb_continuations := (tb_continuations s)[unat slot :=
                            \<lparr>co_generation = generation, co_continuation = Some c\<rparr>]\<rparr>)))
      | None \<Rightarrow>
          if pending_reaction_continuations s \<ge> tb_max s then (Err ContinuationCapacityExceeded, s)
          else case u32_try_from (length (tb_continuations s)) of
            None \<Rightarrow> (Err ContinuationCapacityExceeded, s)
          | Some slot \<Rightarrow>
              (Ok (CoreToken slot 1),
               s\<lparr>tb_continuations := tb_continuations s @ [\<lparr>co_generation = 1, co_continuation = Some c\<rparr>]\<rparr>))"

definition require_continuation ::
  "continuation_token \<Rightarrow> continuation_table \<Rightarrow> (reaction_continuation, continuation_error) result" where
  "require_continuation token s =
     (case vec_get (tb_continuations s) (unat (ct_slot token)) of
        None \<Rightarrow> Err (UnknownReactionContinuation token)
      | Some slot \<Rightarrow>
          if co_generation slot \<noteq> ct_generation token
          then Err (StaleReactionContinuation token (co_generation slot))
          else ok_or (co_continuation slot) (UnknownReactionContinuation token))"

definition rotate_continuation ::
  "continuation_token \<Rightarrow> reaction_continuation \<Rightarrow> continuation_table \<Rightarrow>
   (continuation_token, continuation_error) result \<times> continuation_table" where
  "rotate_continuation token c s =
     (case require_continuation token s of
        Err e \<Rightarrow> (Err e, s) | Panic \<Rightarrow> (Panic, s)
      | Ok _ \<Rightarrow>
          let slot = tb_continuations s ! unat (ct_slot token)
          in (case checked_add (co_generation slot) 1 of
                None \<Rightarrow> (Err ContinuationCapacityExceeded, s)
              | Some generation \<Rightarrow>
                  (Ok (CoreToken (ct_slot token) generation),
                   s\<lparr>tb_continuations := (tb_continuations s)[unat (ct_slot token) :=
                       \<lparr>co_generation = generation, co_continuation = Some c\<rparr>]\<rparr>)))"

definition vacate :: "nat \<Rightarrow> continuation_table \<Rightarrow> continuation_table" where
  "vacate i s = s\<lparr>tb_continuations := (tb_continuations s)[i := (tb_continuations s ! i)\<lparr>co_continuation := None\<rparr>],
     tb_free := tb_free s @ [word_of_nat i]\<rparr>"

text \<open>\<open>cancel_reaction\<close> is this function under another name.\<close>

definition complete_continuation ::
  "continuation_token \<Rightarrow> continuation_table \<Rightarrow> (unit, continuation_error) result \<times> continuation_table" where
  "complete_continuation token s =
     (case require_continuation token s of
        Err e \<Rightarrow> (Err e, s) | Panic \<Rightarrow> (Panic, s)
      | Ok _ \<Rightarrow> (Ok (), vacate (unat (ct_slot token)) s))"

text \<open>One pass over the slots by index, vacating those whose continuation satisfies the test.\<close>

definition invalidate_at ::
  "(reaction_continuation \<Rightarrow> bool) \<Rightarrow> nat \<Rightarrow> continuation_table \<Rightarrow> continuation_table" where
  "invalidate_at P i s =
     (case co_continuation (tb_continuations s ! i) of
        Some c \<Rightarrow> if P c then vacate i s else s | None \<Rightarrow> s)"

definition invalidate_where ::
  "(reaction_continuation \<Rightarrow> bool) \<Rightarrow> continuation_table \<Rightarrow> continuation_table" where
  "invalidate_where P s = fold (invalidate_at P) [0..<length (tb_continuations s)] s"

definition invalidate_continuations_for_mixture_slot :: "u32 \<Rightarrow> continuation_table \<Rightarrow> continuation_table" where
  "invalidate_continuations_for_mixture_slot slot = invalidate_where (\<lambda>c. mh_slot (rc_mixture c) = slot)"

definition invalidate_continuations_for_turf_slot :: "u32 \<Rightarrow> continuation_table \<Rightarrow> continuation_table" where
  "invalidate_continuations_for_turf_slot slot =
     invalidate_where (\<lambda>c. case rc_turf c of Some turf \<Rightarrow> th_slot turf = slot | None \<Rightarrow> False)"

section \<open>Invariant\<close>

text \<open>
  The free list names empty slots, once each; the occupied and the free slots together never exceed the
  capacity. (An empty slot whose generation is exhausted is not on the free list.)
\<close>

definition table_inv :: "continuation_table \<Rightarrow> bool" where
  "table_inv s \<longleftrightarrow> distinct (tb_free s) \<and>
     (\<forall>slot \<in> set (tb_free s). unat slot < length (tb_continuations s) \<and>
        co_continuation (tb_continuations s ! unat slot) = None) \<and>
     card (occupied_slots s) + length (tb_free s) \<le> unat (tb_max s) \<and>
     length (tb_continuations s) \<le> 2 ^ 32"

definition continuation_of :: "continuation_table \<Rightarrow> continuation_token \<Rightarrow> reaction_continuation option" where
  "continuation_of s token = (case require_continuation token s of Ok c \<Rightarrow> Some c | _ \<Rightarrow> None)"

lemma continuation_of_Some_iff:
  "continuation_of s token = Some c \<longleftrightarrow> unat (ct_slot token) < length (tb_continuations s) \<and>
     co_generation (tb_continuations s ! unat (ct_slot token)) = ct_generation token \<and>
     co_continuation (tb_continuations s ! unat (ct_slot token)) = Some c"
  by (auto simp: continuation_of_def require_continuation_def split: option.splits result.splits if_splits)

lemma continuation_of_less: "continuation_of s token = Some c \<Longrightarrow> unat (ct_slot token) < length (tb_continuations s)"
  by (simp add: continuation_of_Some_iff)

lemma require_continuation_Ok [simp]:
  "require_continuation token s = Ok c \<longleftrightarrow> continuation_of s token = Some c"
  by (auto simp: continuation_of_def split: result.splits)

lemma require_continuation_neq_Panic [simp]: "require_continuation token s \<noteq> Panic"
  by (simp add: require_continuation_def split: option.split)

lemma occupied_slots_finite: "finite (occupied_slots s)"
  by (simp add: occupied_slots_def)

lemma card_occupied: "length (filter (\<lambda>slot. co_continuation slot \<noteq> None) (tb_continuations s)) = card (occupied_slots s)"
  by (simp add: length_filter_conv_card occupied_slots_def)

lemma pending_count:
  assumes "table_inv s"
  shows "unat (pending_reaction_continuations s) = card (occupied_slots s)"
proof -
  have "card (occupied_slots s) \<le> u32_max"
    using assms unat_u32_le_max [of "tb_max s"] by (simp add: table_inv_def)
  then show ?thesis
    by (simp add: pending_reaction_continuations_def card_occupied u32_try_from_def u32_max_def unat_of_nat take_bit_nat_eq_self
        del: not_None_eq)
qed

text \<open>How one slot may change: not at all, to a later generation, or to empty.\<close>

definition slot_advances :: "continuation_slot \<Rightarrow> continuation_slot \<Rightarrow> bool" where
  "slot_advances e e' \<longleftrightarrow> e' = e \<or> co_generation e < co_generation e' \<or>
     co_generation e' = co_generation e \<and> co_continuation e' = None"

definition table_advances :: "continuation_table \<Rightarrow> continuation_table \<Rightarrow> bool" where
  "table_advances s s' \<longleftrightarrow> length (tb_continuations s) \<le> length (tb_continuations s') \<and>
     (\<forall>i < length (tb_continuations s). slot_advances (tb_continuations s ! i) (tb_continuations s' ! i))"

definition token_spent :: "continuation_table \<Rightarrow> continuation_token \<Rightarrow> bool" where
  "token_spent s token \<longleftrightarrow> unat (ct_slot token) < length (tb_continuations s) \<and>
     (let e = tb_continuations s ! unat (ct_slot token)
      in ct_generation token < co_generation e \<or>
         ct_generation token = co_generation e \<and> co_continuation e = None)"

lemma table_advances_refl [simp]: "table_advances s s"
  by (simp add: table_advances_def slot_advances_def)

lemma slot_advances_trans: "slot_advances e e' \<Longrightarrow> slot_advances e' e'' \<Longrightarrow> slot_advances e e''"
  by (auto simp: slot_advances_def)

lemma table_advances_trans: "table_advances s s' \<Longrightarrow> table_advances s' s'' \<Longrightarrow> table_advances s s''"
  by (auto simp: table_advances_def intro: slot_advances_trans)

lemma spent_advances: "token_spent s token \<Longrightarrow> table_advances s s' \<Longrightarrow> token_spent s' token"
  by (fastforce simp: token_spent_def table_advances_def slot_advances_def Let_def)

lemma live_advances:
  "continuation_of s token = Some c \<Longrightarrow> table_advances s s' \<Longrightarrow>
     continuation_of s' token = Some c \<or> token_spent s' token"
  by (fastforce simp: token_spent_def table_advances_def slot_advances_def Let_def continuation_of_Some_iff)

lemma spent_not_live: "token_spent s token \<Longrightarrow> continuation_of s token = None"
  by (rule ccontr) (auto simp: token_spent_def Let_def continuation_of_Some_iff)

section \<open>The operations on the map of live tokens\<close>

lemma checked_add_less: "checked_add a b = Some c \<Longrightarrow> b \<noteq> 0 \<Longrightarrow> a < c"
  by (auto simp: word_less_nat_alt unat_gt_0 dest!: checked_add_SomeD)

lemma occupied_slots_update:
  assumes "i < length (tb_continuations s)"
  shows "occupied_slots (s\<lparr>tb_continuations := (tb_continuations s)[i := e]\<rparr>) =
    (if co_continuation e = None then occupied_slots s - {i} else insert i (occupied_slots s))"
  using assms by (auto simp: occupied_slots_def nth_list_update)

lemma occupied_slots_free [simp]: "occupied_slots (s\<lparr>tb_free := free\<rparr>) = occupied_slots s"
  by (simp add: occupied_slots_def)

lemma continuation_of_free [simp]: "continuation_of (s\<lparr>tb_free := free\<rparr>) = continuation_of s"
  by (rule ext, rule option_eqI) (simp add: continuation_of_Some_iff)

lemma continuation_of_update:
  assumes "i < length (tb_continuations s)"
  shows "continuation_of (s\<lparr>tb_continuations := (tb_continuations s)[i := e]\<rparr>) token =
    (if unat (ct_slot token) = i then (if ct_generation token = co_generation e then co_continuation e else None)
     else continuation_of s token)"
  using assms by (intro option_eqI) (auto simp: continuation_of_Some_iff)

lemma token_spentI_less:
  "unat (ct_slot token) < length (tb_continuations s) \<Longrightarrow>
   ct_generation token < co_generation (tb_continuations s ! unat (ct_slot token)) \<Longrightarrow> token_spent s token"
  by (simp add: token_spent_def)

lemma not_spent_later:
  "co_generation (tb_continuations s ! unat (ct_slot token)) < ct_generation token \<Longrightarrow> \<not> token_spent s token"
  by (auto simp: token_spent_def Let_def)

text \<open>A slot of the free list is taken over at the next generation.\<close>

lemma reuse_slot:
  assumes inv: "table_inv s" and free: "tb_free s = free @ [slot]"
    and g: "checked_add (co_generation (tb_continuations s ! unat slot)) 1 = Some g"
    and s': "s' = s\<lparr>tb_free := free, tb_continuations := (tb_continuations s)[unat slot :=
      \<lparr>co_generation = g, co_continuation = Some c\<rparr>]\<rparr>"
  shows "table_inv s'" and "table_advances s s'" and "continuation_of s (CoreToken slot g) = None"
    and "\<not> token_spent s (CoreToken slot g)" and "continuation_of s' = (continuation_of s)(CoreToken slot g \<mapsto> c)"
proof -
  have slot: "unat slot < length (tb_continuations s)" "co_continuation (tb_continuations s ! unat slot) = None"
    using inv free by (simp_all add: table_inv_def)
  have less: "co_generation (tb_continuations s ! unat slot) < g"
    using g by (rule checked_add_less) simp
  have "unat slot \<notin> occupied_slots s" using slot by (simp add: occupied_slots_def)
  then have card: "card (occupied_slots s') = Suc (card (occupied_slots s))"
    using slot occupied_slots_finite [of s]
    by (simp add: s' occupied_slots_update [of _ "s\<lparr>tb_free := free\<rparr>", simplified])
  have fresh: "unat slot \<noteq> unat x" if "x \<in> set free" for x
  proof -
    have "x \<noteq> slot" using inv free that by (auto simp: table_inv_def)
    then show ?thesis by (simp add: word_unat_eq_iff)
  qed
  show "table_inv s'"
    using inv free slot card by (auto simp: table_inv_def s' nth_list_update dest: fresh)
  show "table_advances s s'"
    using slot less by (auto simp: table_advances_def slot_advances_def s' nth_list_update)
  show "continuation_of s (CoreToken slot g) = None"
    using less by (intro option_eqI) (auto simp: continuation_of_Some_iff)
  show "\<not> token_spent s (CoreToken slot g)" using less by (simp add: not_spent_later)
  show "continuation_of s' = (continuation_of s)(CoreToken slot g \<mapsto> c)"
  proof
    fix token
    have "continuation_of s token = None" if "unat (ct_slot token) = unat slot"
      using slot(2) that by (intro option_eqI) (auto simp: continuation_of_Some_iff)
    then show "continuation_of s' token = ((continuation_of s)(CoreToken slot g \<mapsto> c)) token"
      using slot(1) continuation_of_update [of "unat slot" "s\<lparr>tb_free := free\<rparr>"]
      by (cases token) (auto simp: s' word_unat_eq_iff)
  qed
qed

lemma new_slot:
  assumes inv: "table_inv s" and "tb_free s = []" and "card (occupied_slots s) < unat (tb_max s)"
    and slot: "u32_try_from (length (tb_continuations s)) = Some slot"
    and s': "s' = s\<lparr>tb_continuations := tb_continuations s @ [\<lparr>co_generation = 1, co_continuation = Some c\<rparr>]\<rparr>"
  shows "table_inv s'" and "table_advances s s'" and "continuation_of s (CoreToken slot 1) = None"
    and "\<not> token_spent s (CoreToken slot 1)" and "continuation_of s' = (continuation_of s)(CoreToken slot 1 \<mapsto> c)"
proof -
  have len: "unat slot = length (tb_continuations s)" using slot by (rule u32_try_from_SomeD)
  have "occupied_slots s' = insert (length (tb_continuations s)) (occupied_slots s)"
    by (auto simp: occupied_slots_def s' nth_append less_Suc_eq)
  then have card: "card (occupied_slots s') = Suc (card (occupied_slots s))"
    using occupied_slots_finite [of s] by (simp add: occupied_slots_def)
  show "table_inv s'"
    using assms(2,3) card len unat_less_2p [of slot] by (simp add: table_inv_def s')
  show "table_advances s s'"
    by (auto simp: table_advances_def slot_advances_def s' nth_append)
  show "continuation_of s (CoreToken slot 1) = None"
    using len by (intro option_eqI) (auto simp: continuation_of_Some_iff)
  show "\<not> token_spent s (CoreToken slot 1)" using len by (simp add: token_spent_def)
  show "continuation_of s' = (continuation_of s)(CoreToken slot 1 \<mapsto> c)"
  proof (intro ext option_eqI)
    fix token x
    show "(continuation_of s' token = Some x) = (((continuation_of s)(CoreToken slot 1 \<mapsto> c)) token = Some x)"
      using len by (cases token) (auto simp: continuation_of_Some_iff s' nth_append less_Suc_eq word_unat_eq_iff)
  qed
qed

lemma allocate_continuation_cases:
  assumes inv: "table_inv s" and alloc: "allocate_continuation c s = (r, s')"
  shows "table_inv s' \<and> table_advances s s' \<and> r \<noteq> Panic \<and>
    (\<forall>e. r = Err e \<longrightarrow> continuation_of s' = continuation_of s) \<and>
    (\<forall>token. r = Ok token \<longrightarrow> continuation_of s token = None \<and> \<not> token_spent s token \<and>
      continuation_of s' = (continuation_of s)(token \<mapsto> c))"
proof (cases "tb_free s = []")
  case True
  show ?thesis
  proof (cases "pending_reaction_continuations s \<ge> tb_max s \<or> u32_try_from (length (tb_continuations s)) = None")
    case True
    then show ?thesis
      using alloc inv \<open>tb_free s = []\<close> by (auto simp: allocate_continuation_def vec_pop_def split: if_splits option.splits)
  next
    case False
    then obtain slot where slot: "u32_try_from (length (tb_continuations s)) = Some slot" by auto
    have room: "card (occupied_slots s) < unat (tb_max s)"
      using False pending_count [OF inv] by (simp add: word_le_nat_alt)
    have r: "r = Ok (CoreToken slot 1)" and
      s': "s' = s\<lparr>tb_continuations := tb_continuations s @ [\<lparr>co_generation = 1, co_continuation = Some c\<rparr>]\<rparr>"
      using alloc slot False \<open>tb_free s = []\<close> by (auto simp: allocate_continuation_def vec_pop_def split: if_splits)
    show ?thesis using new_slot [OF inv \<open>tb_free s = []\<close> room slot s'] r by simp
  qed
next
  case False
  then obtain free slot where free: "tb_free s = free @ [slot]" by (metis append_butlast_last_id)
  then have pop: "vec_pop (tb_free s) = Some (slot, free)" by simp
  have slot: "unat slot < length (tb_continuations s)"
    using inv free by (simp add: table_inv_def)
  show ?thesis
  proof (cases "checked_add (co_generation (tb_continuations s ! unat slot)) 1")
    case None
    then have "r = Err ContinuationCapacityExceeded" "s' = s\<lparr>tb_free := free\<rparr>"
      using alloc pop slot by (auto simp: allocate_continuation_def vec_get_def)
    moreover have "table_inv (s\<lparr>tb_free := free\<rparr>)" using inv free by (auto simp: table_inv_def)
    moreover have "table_advances s (s\<lparr>tb_free := free\<rparr>)" by (simp add: table_advances_def slot_advances_def)
    ultimately show ?thesis by simp
  next
    case (Some g)
    then have r: "r = Ok (CoreToken slot g)" and s': "s' = s\<lparr>tb_free := free, tb_continuations :=
        (tb_continuations s)[unat slot := \<lparr>co_generation = g, co_continuation = Some c\<rparr>]\<rparr>"
      using alloc pop slot by (auto simp: allocate_continuation_def vec_get_def)
    show ?thesis using reuse_slot [OF inv free Some s'] r by simp
  qed
qed

lemma rotate_continuation_result:
  assumes inv: "table_inv s" and rotate: "rotate_continuation token c s = (r, s')"
  shows "table_inv s' \<and> table_advances s s' \<and> r \<noteq> Panic \<and>
    (r = Ok next \<longrightarrow> continuation_of s token \<noteq> None \<and> continuation_of s next = None \<and> \<not> token_spent s next \<and>
      continuation_of s' = (continuation_of s)(token := None, next \<mapsto> c)) \<and>
    (\<forall>e. r = Err e \<longrightarrow> s' = s)"
proof (cases "continuation_of s token")
  case None
  then have "\<And>c. require_continuation token s \<noteq> Ok c" by simp
  then show ?thesis using rotate inv by (auto simp: rotate_continuation_def split: result.splits)
next
  case (Some old)
  let ?i = "unat (ct_slot token)"
  have at: "?i < length (tb_continuations s)" "co_generation (tb_continuations s ! ?i) = ct_generation token"
    "co_continuation (tb_continuations s ! ?i) = Some old"
    using Some by (simp_all add: continuation_of_Some_iff)
  have req: "require_continuation token s = Ok old" using Some by simp
  show ?thesis
  proof (cases "checked_add (ct_generation token) 1")
    case None
    then show ?thesis using rotate req at inv by (auto simp: rotate_continuation_def)
  next
    case (Some g)
    have less: "ct_generation token < g" using Some by (rule checked_add_less) simp
    let ?s = "s\<lparr>tb_continuations := (tb_continuations s)[?i := \<lparr>co_generation = g, co_continuation = Some c\<rparr>]\<rparr>"
    have r: "r = Ok (CoreToken (ct_slot token) g)" "s' = ?s"
      using rotate req at Some by (auto simp: rotate_continuation_def)
    have "?i \<in> occupied_slots s" using at by (simp add: occupied_slots_def)
    then have occ: "occupied_slots ?s = occupied_slots s"
      using at by (simp add: occupied_slots_update insert_absorb)
    have "?i \<noteq> unat x" if "x \<in> set (tb_free s)" for x
      using inv that at by (auto simp: table_inv_def)
    then have "table_inv ?s" using inv occ at by (auto simp: table_inv_def nth_list_update)
    moreover have "table_advances s ?s"
      using at less by (auto simp: table_advances_def slot_advances_def nth_list_update)
    moreover have "continuation_of s (CoreToken (ct_slot token) g) = None"
      using at less by (intro option_eqI) (auto simp: continuation_of_Some_iff)
    moreover have "\<not> token_spent s (CoreToken (ct_slot token) g)"
      using at less by (simp add: not_spent_later)
    moreover have "continuation_of ?s = (continuation_of s)(token := None, CoreToken (ct_slot token) g \<mapsto> c)"
    proof
      fix u
      have "continuation_of s u = None" if "unat (ct_slot u) = ?i" "u \<noteq> token"
        using that at by (intro option_eqI) (cases u; cases token; auto simp: continuation_of_Some_iff word_unat_eq_iff)
      then show "continuation_of ?s u = ((continuation_of s)(token := None, CoreToken (ct_slot token) g \<mapsto> c)) u"
        using at less continuation_of_update [OF at(1), of "\<lparr>co_generation = g, co_continuation = Some c\<rparr>" u]
        by (cases u; cases token) (auto simp: word_unat_eq_iff)
    qed
    ultimately show ?thesis using r req \<open>continuation_of s token = Some old\<close> by auto
  qed
qed

lemma vacate_result:
  assumes inv: "table_inv s" and i: "i < length (tb_continuations s)" "co_continuation (tb_continuations s ! i) \<noteq> None"
  shows "table_inv (vacate i s)" and "table_advances s (vacate i s)"
    and "continuation_of (vacate i s) = (\<lambda>token. if unat (ct_slot token) = i then None else continuation_of s token)"
proof -
  let ?e = "(tb_continuations s ! i)\<lparr>co_continuation := None\<rparr>"
  have w: "unat (word_of_nat i :: u32) = i"
    using inv i by (simp add: table_inv_def unat_of_nat take_bit_nat_eq_self)
  have "i \<in> occupied_slots s" using i by (simp add: occupied_slots_def)
  then have card: "Suc (card (occupied_slots s - {i})) = card (occupied_slots s)"
    by (rule card_Suc_Diff1 [OF occupied_slots_finite])
  have occ: "occupied_slots (vacate i s) = occupied_slots s - {i}"
    using i by (auto simp: occupied_slots_def vacate_def nth_list_update)
  have fresh: "unat x \<noteq> i" if "x \<in> set (tb_free s)" for x
    using inv that i by (auto simp: table_inv_def)
  then have "word_of_nat i \<notin> set (tb_free s)" using w by auto
  then show "table_inv (vacate i s)"
    using inv i w card occ fresh by (auto simp: table_inv_def vacate_def nth_list_update)
  show "table_advances s (vacate i s)"
    using i by (auto simp: table_advances_def slot_advances_def vacate_def nth_list_update)
  show "continuation_of (vacate i s) = (\<lambda>token. if unat (ct_slot token) = i then None else continuation_of s token)"
    using continuation_of_update [OF i(1), of ?e] by (simp add: vacate_def fun_eq_iff)
qed

lemma complete_continuation_result:
  assumes inv: "table_inv s" and run: "complete_continuation token s = (r, s')"
  shows "table_inv s' \<and> table_advances s s' \<and> r \<noteq> Panic \<and> (r = Ok () \<longleftrightarrow> continuation_of s token \<noteq> None) \<and>
    continuation_of s' = (continuation_of s)(token := None) \<and> ((\<exists>e. r = Err e) \<longrightarrow> s' = s)"
proof (cases "continuation_of s token")
  case None
  then have "\<And>c. require_continuation token s \<noteq> Ok c" by simp
  then show ?thesis using run inv None by (auto simp: complete_continuation_def split: result.splits)
next
  case (Some c)
  let ?i = "unat (ct_slot token)"
  have at: "?i < length (tb_continuations s)" "co_continuation (tb_continuations s ! ?i) \<noteq> None"
    using Some by (simp_all add: continuation_of_Some_iff)
  have req: "require_continuation token s = Ok c" using Some by simp
  have r: "r = Ok ()" "s' = vacate ?i s" using run by (simp_all add: complete_continuation_def req)
  have "continuation_of s u = None" if "unat (ct_slot u) = ?i" "u \<noteq> token" for u
    using that Some by (intro option_eqI) (cases u; cases token; auto simp: continuation_of_Some_iff word_unat_eq_iff)
  then have "continuation_of s' = (continuation_of s)(token := None)"
    using vacate_result(3) [OF inv at] r by (auto simp: fun_eq_iff)
  then show ?thesis using vacate_result(1,2) [OF inv at] r Some by auto
qed

lemma length_vacate [simp]: "length (tb_continuations (vacate i s)) = length (tb_continuations s)"
  by (simp add: vacate_def)

lemma vacate_nth: "j \<noteq> i \<Longrightarrow> tb_continuations (vacate i s) ! j = tb_continuations s ! j"
  by (simp add: vacate_def)

text \<open>The pass over the first \<open>n\<close> slots has vacated those that satisfy the test and no other.\<close>

lemma invalidate_prefix:
  fixes P :: "reaction_continuation \<Rightarrow> bool"
  assumes inv: "table_inv s" and "n \<le> length (tb_continuations s)"
  defines "pass \<equiv> fold (invalidate_at P)"
  shows "table_inv (pass [0..<n] s) \<and> table_advances s (pass [0..<n] s) \<and>
    length (tb_continuations (pass [0..<n] s)) = length (tb_continuations s) \<and>
    (\<forall>j. n \<le> j \<longrightarrow> tb_continuations (pass [0..<n] s) ! j = tb_continuations s ! j) \<and>
    (\<forall>token. continuation_of (pass [0..<n] s) token =
       (case continuation_of s token of
          Some c \<Rightarrow> if unat (ct_slot token) < n \<and> P c then None else Some c | None \<Rightarrow> None))"
  using assms(2)
proof (induction n)
  case 0
  then show ?case using inv by (simp add: pass_def split: option.split)
next
  case (Suc n)
  let ?s = "pass [0..<n] s"
  have IH: "table_inv ?s" "table_advances s ?s" "length (tb_continuations ?s) = length (tb_continuations s)"
    "\<And>j. n \<le> j \<Longrightarrow> tb_continuations ?s ! j = tb_continuations s ! j"
    "\<And>token. continuation_of ?s token = (case continuation_of s token of
        Some c \<Rightarrow> if unat (ct_slot token) < n \<and> P c then None else Some c | None \<Rightarrow> None)"
    using Suc.IH Suc.prems by simp_all
  have at: "n < length (tb_continuations ?s)" using IH(3) Suc.prems by simp
  have step: "pass [0..<Suc n] s = (case co_continuation (tb_continuations s ! n) of
      Some c \<Rightarrow> if P c then vacate n ?s else ?s | None \<Rightarrow> ?s)"
    using IH(4) [of n] by (simp add: pass_def invalidate_at_def split: option.split)
  have here: "continuation_of s token = Some c \<Longrightarrow> unat (ct_slot token) = n \<Longrightarrow>
      co_continuation (tb_continuations s ! n) = Some c" for token c
    by (simp add: continuation_of_Some_iff)
  show ?case
  proof (cases "\<exists>c. co_continuation (tb_continuations s ! n) = Some c \<and> P c")
    case True
    then have at2: "co_continuation (tb_continuations ?s ! n) \<noteq> None" and p: "pass [0..<Suc n] s = vacate n ?s"
      using IH(4) step by auto
    have "continuation_of (vacate n ?s) token = (case continuation_of s token of
        Some c \<Rightarrow> if unat (ct_slot token) < Suc n \<and> P c then None else Some c | None \<Rightarrow> None)" for token
      using vacate_result(3) [OF IH(1) at at2] IH(5) [of token] here [of token] True
      by (auto simp: less_Suc_eq split: option.splits)
    then show ?thesis
      unfolding p using vacate_result(1,2) [OF IH(1) at at2] IH(2,3,4) table_advances_trans
      by (auto simp: vacate_nth)
  next
    case False
    then have p: "pass [0..<Suc n] s = ?s" using step by (auto split: option.split)
    have "continuation_of ?s token = (case continuation_of s token of
        Some c \<Rightarrow> if unat (ct_slot token) < Suc n \<and> P c then None else Some c | None \<Rightarrow> None)" for token
      using IH(5) [of token] here [of token] False by (auto simp: less_Suc_eq split: option.splits)
    then show ?thesis unfolding p using IH(1,2,3,4) by auto
  qed
qed

lemma invalidate_where_result:
  assumes "table_inv s"
  shows "table_inv (invalidate_where P s)" and "table_advances s (invalidate_where P s)"
    and "continuation_of (invalidate_where P s) token =
      (case continuation_of s token of Some c \<Rightarrow> if P c then None else Some c | None \<Rightarrow> None)"
proof -
  note pass = invalidate_prefix [OF assms order_refl, of P, folded invalidate_where_def]
  show "table_inv (invalidate_where P s)" and "table_advances s (invalidate_where P s)"
    using pass by simp_all
  show "continuation_of (invalidate_where P s) token =
      (case continuation_of s token of Some c \<Rightarrow> if P c then None else Some c | None \<Rightarrow> None)"
    using pass continuation_of_less [of s token] by (cases "continuation_of s token") simp_all
qed

section \<open>Runs\<close>

datatype (plugins only: size) continuation_op =
    AllocateOp reaction_continuation
  | RotateOp continuation_token reaction_continuation
  | CompleteOp continuation_token
  | InvalidateMixtureOp u32
  | InvalidateTurfOp u32

primrec continuation_step :: "continuation_table \<Rightarrow> continuation_op \<Rightarrow> continuation_table" where
  "continuation_step s (AllocateOp c) = snd (allocate_continuation c s)"
| "continuation_step s (RotateOp token c) = snd (rotate_continuation token c s)"
| "continuation_step s (CompleteOp token) = snd (complete_continuation token s)"
| "continuation_step s (InvalidateMixtureOp slot) = invalidate_continuations_for_mixture_slot slot s"
| "continuation_step s (InvalidateTurfOp slot) = invalidate_continuations_for_turf_slot slot s"

definition continuations_new :: "u32 \<Rightarrow> continuation_table" where
  "continuations_new max_continuations = \<lparr>tb_continuations = [], tb_free = [], tb_max = max_continuations\<rparr>"

lemma table_inv_new: "table_inv (continuations_new n)"
  by (simp add: table_inv_def continuations_new_def occupied_slots_def)

lemma continuation_step_advances:
  assumes "table_inv s"
  shows "table_inv (continuation_step s op) \<and> table_advances s (continuation_step s op)"
proof (cases op)
  case (AllocateOp c)
  then show ?thesis using allocate_continuation_cases [OF assms] by (metis continuation_step.simps(1) surj_pair snd_conv)
next
  case (RotateOp token c)
  then show ?thesis using rotate_continuation_result [OF assms] by (metis continuation_step.simps(2) surj_pair snd_conv)
next
  case (CompleteOp token)
  then show ?thesis using complete_continuation_result [OF assms] by (metis continuation_step.simps(3) surj_pair snd_conv)
next
  case (InvalidateMixtureOp slot)
  then show ?thesis
    using invalidate_where_result(1,2) [OF assms] by (simp add: invalidate_continuations_for_mixture_slot_def)
next
  case (InvalidateTurfOp slot)
  then show ?thesis
    using invalidate_where_result(1,2) [OF assms] by (simp add: invalidate_continuations_for_turf_slot_def)
qed

interpretation tokens: single_use_keys continuation_step table_inv
  "\<lambda>s token. continuation_of s token \<noteq> None" token_spent
proof unfold_locales
  show "table_inv s \<Longrightarrow> table_inv (continuation_step s a)" for s a
    using continuation_step_advances by blast
  show "table_inv s \<Longrightarrow> continuation_of s k \<noteq> None \<Longrightarrow>
      continuation_of (continuation_step s a) k \<noteq> None \<or> token_spent (continuation_step s a) k" for s k a
    using continuation_step_advances live_advances by blast
  show "table_inv s \<Longrightarrow> token_spent s k \<Longrightarrow> token_spent (continuation_step s a) k" for s k a
    using continuation_step_advances spent_advances by blast
  show "table_inv s \<Longrightarrow> token_spent s k \<Longrightarrow> \<not> continuation_of s k \<noteq> None" for s k
    by (simp add: spent_not_live)
qed

lemma tb_max_invalidate: "tb_max (fold (invalidate_at P) xs s) = tb_max s"
  by (induction xs arbitrary: s) (simp_all add: invalidate_at_def vacate_def split: option.split)

lemma tb_max_step: "tb_max (continuation_step s op) = tb_max s"
  by (cases op)
    (auto simp: allocate_continuation_def rotate_continuation_def complete_continuation_def vacate_def Let_def
      invalidate_continuations_for_mixture_slot_def invalidate_continuations_for_turf_slot_def
      invalidate_where_def tb_max_invalidate split: option.split result.split)

lemma tb_max_run: "tb_max (foldl continuation_step s ops) = tb_max s"
  by (induction ops arbitrary: s) (simp_all add: tb_max_step)

lemma continuation_run_inv: "table_inv (foldl continuation_step (continuations_new n) ops)"
  using tokens.run_inv table_inv_new .

section \<open>Properties\<close>

text \<open>
  C26: after any sequence of allocations, rotations, completions and invalidations the occupied slots
  stay within the capacity, no operation panics, and a token that was live and no longer is, is never
  accepted again, although its slot is used again.
\<close>

theorem continuation_tokens_single_use:
  assumes "continuation_of (foldl continuation_step (continuations_new n) issued) token \<noteq> None"
    and "continuation_of (foldl continuation_step (continuations_new n) (issued @ used)) token = None"
  shows "continuation_of (foldl continuation_step (continuations_new n) (issued @ used @ later)) token = None \<and>
    card (occupied_slots (foldl continuation_step (continuations_new n) later)) \<le> unat n \<and>
    fst (allocate_continuation c (foldl continuation_step (continuations_new n) later)) \<noteq> Panic"
proof (intro conjI)
  let ?run = "foldl continuation_step (continuations_new n)"
  have "\<not> continuation_of (foldl continuation_step (?run issued) used) token \<noteq> None"
    using assms(2) by simp
  from tokens.dead_stays_dead [OF continuation_run_inv assms(1) this, of later]
  show "continuation_of (?run (issued @ used @ later)) token = None" by simp
  show "card (occupied_slots (?run later)) \<le> unat n"
    using continuation_run_inv [of n later] by (simp add: table_inv_def tb_max_run continuations_new_def)
  show "fst (allocate_continuation c (?run later)) \<noteq> Panic"
    using allocate_continuation_cases [OF continuation_run_inv [of n later]] by (metis surj_pair fst_conv)
qed

definition example_continuation :: reaction_continuation where
  "example_continuation = \<lparr>rc_turf = Some (TurfHandle 4 1), rc_mixture = MixtureHandle 2 1,
     rc_target = GameplayHandle 4 1, rc_next_reaction_index = 3, rc_reaction_profile_threshold_ms = None\<rparr>"

text \<open>The slot of an invalidated continuation is given out again, under a token that differs.\<close>

theorem continuation_tokens_single_use_witness:
  "continuation_of (foldl continuation_step (continuations_new 1)
     ([AllocateOp example_continuation] @ [InvalidateMixtureOp 2] @ [AllocateOp example_continuation])) (CoreToken 0 1) = None \<and>
   continuation_of (foldl continuation_step (continuations_new 1)
     ([AllocateOp example_continuation] @ [InvalidateMixtureOp 2] @ [AllocateOp example_continuation])) (CoreToken 0 2) \<noteq> None"
  using continuation_tokens_single_use [of 1 "[AllocateOp example_continuation]" "CoreToken 0 1" "[InvalidateMixtureOp 2]"
      "[AllocateOp example_continuation]"]
  by (simp add: continuations_new_def allocate_continuation_def vec_pop_def pending_reaction_continuations_def
      u32_try_from_def u32_max_def checked_add_def continuation_of_def require_continuation_def vec_get_def
      invalidate_continuations_for_mixture_slot_def invalidate_where_def invalidate_at_def vacate_def example_continuation_def)

end
