(* ===== verification/Diffusion_Graph.thy ===== *)
theory Diffusion_Graph
  imports Dogmos_Prelude "HOL-Library.Multiset"
begin

text \<open>
  The diffusion graph (\<^verbatim>\<open>crates/dogmos-core/src/numerics/diffusion.rs\<close>): the adjacency of nodes in compressed
  rows, built in two counting passes over the sorted set of edges, and one step of diffusion along it.

  \<open>NodeHandle\<close> is a transparent wrapper of \<open>u32\<close>. A \<open>BTreeSet\<close> is a set that is read in increasing order.
\<close>

section \<open>Data\<close>

record graph_node =
  gn_handle :: u32
  gn_generation :: u32
  gn_mixture :: "mixture_handle option"

datatype directed_edge = DirectedEdge (de_from: u32) (de_to: u32)

instantiation directed_edge :: linorder
begin

definition less_eq_directed_edge :: "directed_edge \<Rightarrow> directed_edge \<Rightarrow> bool" where
  "less_eq_directed_edge a b \<longleftrightarrow> de_from a < de_from b \<or> de_from a = de_from b \<and> de_to a \<le> de_to b"

definition less_directed_edge :: "directed_edge \<Rightarrow> directed_edge \<Rightarrow> bool" where
  "less_directed_edge a b \<longleftrightarrow> de_from a < de_from b \<or> de_from a = de_from b \<and> de_to a < de_to b"

instance
  by standard (auto simp: less_eq_directed_edge_def less_directed_edge_def directed_edge.expand)

end

datatype (plugins only: size) graph_error =
    DuplicateNode u32
  | MissingMixture u32
  | UnknownNode u32
  | SelfGraphEdge u32
  | DuplicateGraphEdge u32 u32
  | MissingReciprocalEdge u32 u32
  | GraphDegreeExceeded u32 u32
  | HandleSpaceExceeded

record diffusion_graph =
  dg_nodes :: "graph_node list"
  dg_handle_to_index :: "u32 \<rightharpoonup> u32"
  dg_offsets :: "u32 list"
  dg_neighbors :: "u32 list"

definition max_cardinal_neighbors :: u32 where "max_cardinal_neighbors = 6"

definition node_count :: "diffusion_graph \<Rightarrow> nat" where
  "node_count g = length (dg_nodes g)"

text \<open>\<open>DiffusionGraph::degree\<close>: the subtraction and the two reads of the offsets panic outside their range.\<close>

definition graph_degree :: "diffusion_graph \<Rightarrow> u32 \<Rightarrow> (u32 option, unit) result" where
  "graph_degree g handle =
     (case dg_handle_to_index g handle of
        None \<Rightarrow> Ok None
      | Some index \<Rightarrow>
          if length (dg_offsets g) \<le> unat index + 1 then Panic
          else if dg_offsets g ! (unat index + 1) < dg_offsets g ! unat index then Panic
          else Ok (Some (dg_offsets g ! (unat index + 1) - dg_offsets g ! unat index)))"

definition slice :: "nat \<Rightarrow> nat \<Rightarrow> 'a list \<Rightarrow> 'a list" where
  "slice start finish xs = take (finish - start) (drop start xs)"

definition neighbor_indices :: "diffusion_graph \<Rightarrow> nat \<Rightarrow> (u32 list, 'e) result" where
  "neighbor_indices g index =
     (if length (dg_offsets g) \<le> index + 1 then Panic
      else let start = unat (dg_offsets g ! index); finish = unat (dg_offsets g ! (index + 1))
           in if start \<le> finish \<and> finish \<le> length (dg_neighbors g) then Ok (slice start finish (dg_neighbors g))
              else Panic)"

section \<open>Building the rows\<close>

definition index_node :: "nat \<times> graph_node \<Rightarrow> (u32 \<rightharpoonup> u32) \<Rightarrow> (u32 \<rightharpoonup> u32, graph_error) result" where
  "index_node = (\<lambda>(index, node) handle_to_index.
     if gn_mixture node = None then Err (MissingMixture (gn_handle node))
     else rbind (ok_or (u32_try_from index) HandleSpaceExceeded) (\<lambda>index.
       if handle_to_index (gn_handle node) \<noteq> None then Err (DuplicateNode (gn_handle node))
       else Ok (handle_to_index(gn_handle node \<mapsto> index))))"

definition collect_edge ::
  "(u32 \<rightharpoonup> u32) \<Rightarrow> directed_edge \<Rightarrow> directed_edge set \<Rightarrow> (directed_edge set, graph_error) result" where
  "collect_edge handle_to_index edge edge_set =
     (if handle_to_index (de_from edge) = None then Err (UnknownNode (de_from edge))
      else if handle_to_index (de_to edge) = None then Err (UnknownNode (de_to edge))
      else if de_from edge = de_to edge then Err (SelfGraphEdge (de_from edge))
      else if edge \<in> edge_set then Err (DuplicateGraphEdge (de_from edge) (de_to edge))
      else Ok (insert edge edge_set))"

definition resolve_edge ::
  "(u32 \<rightharpoonup> u32) \<Rightarrow> directed_edge set \<Rightarrow> directed_edge \<Rightarrow> u32 list \<times> (u32 \<times> u32) list \<Rightarrow>
   (u32 list \<times> (u32 \<times> u32) list, graph_error) result" where
  "resolve_edge handle_to_index edge_set edge = (\<lambda>(degrees, resolved).
     if DirectedEdge (de_to edge) (de_from edge) \<notin> edge_set
     then Err (MissingReciprocalEdge (de_from edge) (de_to edge))
     else case (handle_to_index (de_from edge), handle_to_index (de_to edge)) of
       (Some from, Some to) \<Rightarrow>
         if length degrees \<le> unat from then Panic
         else Ok (degrees[unat from := degrees ! unat from + 1], resolved @ [(from, to)])
     | _ \<Rightarrow> Panic)"

definition check_degree :: "graph_node list \<Rightarrow> nat \<times> u32 \<Rightarrow> (unit, graph_error) result" where
  "check_degree nodes = (\<lambda>(index, degree).
     if degree > max_cardinal_neighbors then Err (GraphDegreeExceeded (gn_handle (nodes ! index)) degree) else Ok ())"

definition add_offset :: "u32 \<Rightarrow> u32 \<times> u32 list \<Rightarrow> (u32 \<times> u32 list, graph_error) result" where
  "add_offset degree = (\<lambda>(edge_count, offsets).
     rbind (ok_or (checked_add edge_count degree) HandleSpaceExceeded) (\<lambda>edge_count.
     Ok (edge_count, offsets @ [edge_count])))"

definition place_neighbor ::
  "u32 list \<Rightarrow> u32 \<times> u32 \<Rightarrow> u32 list \<times> u32 list \<Rightarrow> (u32 list \<times> u32 list, graph_error) result" where
  "place_neighbor offsets = (\<lambda>(from, to) (neighbors, cursors).
     if length offsets \<le> unat from \<or> length cursors \<le> unat from then Panic
     else let slot = offsets ! unat from + cursors ! unat from
          in if length neighbors \<le> unat slot then Panic
             else Ok (neighbors[unat slot := to], cursors[unat from := cursors ! unat from + 1]))"

definition sort_row :: "u32 list \<Rightarrow> nat \<Rightarrow> u32 list \<Rightarrow> (u32 list, graph_error) result" where
  "sort_row offsets index neighbors =
     (if length offsets \<le> index + 1 then Panic
      else let start = unat (offsets ! index); finish = unat (offsets ! (index + 1))
           in if start \<le> finish \<and> finish \<le> length neighbors
              then Ok (take start neighbors @ sort (slice start finish neighbors) @ drop finish neighbors)
              else Panic)"

definition validate_graph :: "graph_node list \<Rightarrow> directed_edge list \<Rightarrow> (diffusion_graph, graph_error) result" where
  "validate_graph nodes edges =
     rbind (rfold index_node (enumerate 0 nodes) Map.empty) (\<lambda>handle_to_index.
     rbind (rfold (collect_edge handle_to_index) edges {}) (\<lambda>edge_set.
     rbind (rfold (resolve_edge handle_to_index edge_set) (sorted_list_of_set edge_set)
       (replicate (length nodes) 0, [])) (\<lambda>(degrees, resolved).
     rbind (rforeach (check_degree nodes) (enumerate 0 degrees)) (\<lambda>_.
     rbind (rfold add_offset degrees (0, [0])) (\<lambda>(edge_count, offsets).
     rbind (rfold (place_neighbor offsets) resolved
       (replicate (unat edge_count) 0, replicate (length degrees) 0)) (\<lambda>(neighbors, _).
     rbind (rfold (sort_row offsets) [0..<length nodes] neighbors) (\<lambda>neighbors.
     Ok \<lparr>dg_nodes = nodes, dg_handle_to_index = handle_to_index, dg_offsets = offsets,
       dg_neighbors = neighbors\<rparr>)))))))"

section \<open>The index of the nodes\<close>

definition node_index :: "graph_node list \<Rightarrow> u32 \<rightharpoonup> u32" where
  "node_index nodes = map_of (zip (map gn_handle nodes) (map word_of_nat [0..<length nodes]))"

definition nodes_ok :: "graph_node list \<Rightarrow> bool" where
  "nodes_ok nodes \<longleftrightarrow> length nodes \<le> 2 ^ 32 \<and> distinct (map gn_handle nodes) \<and>
     (\<forall>n \<in> set nodes. gn_mixture n \<noteq> None)"

lemma index_nodes_from:
  "rfold index_node (enumerate k nodes) m = Ok m' \<longleftrightarrow>
     (nodes \<noteq> [] \<longrightarrow> k + length nodes \<le> 2 ^ 32) \<and> distinct (map gn_handle nodes) \<and>
     (\<forall>n \<in> set nodes. gn_mixture n \<noteq> None \<and> m (gn_handle n) = None) \<and>
     m' = m ++ map_of (zip (map gn_handle nodes) (map word_of_nat [k..<k + length nodes]))"
proof (induction nodes arbitrary: k m)
  case (Cons n nodes)
  have upt: "[k..<k + length (n # nodes)] = k # [Suc k..<Suc k + length nodes]"
    by (simp add: upt_rec)
  have len: "k \<le> u32_max \<and> (nodes \<noteq> [] \<longrightarrow> Suc k + length nodes \<le> 2 ^ 32) \<longleftrightarrow> k + length (n # nodes) \<le> 2 ^ 32"
    by (cases nodes) (auto simp: u32_max_def)
  have "rfold index_node (enumerate k (n # nodes)) m = Ok m' \<longleftrightarrow> gn_mixture n \<noteq> None \<and> k \<le> u32_max \<and>
      m (gn_handle n) = None \<and>
      rfold index_node (enumerate (Suc k) nodes) (m(gn_handle n \<mapsto> word_of_nat k)) = Ok m'"
    by (auto simp: index_node_def u32_try_from_def split: if_splits)
  also have "\<dots> \<longleftrightarrow> k + length (n # nodes) \<le> 2 ^ 32 \<and> distinct (map gn_handle (n # nodes)) \<and>
      (\<forall>x \<in> set (n # nodes). gn_mixture x \<noteq> None \<and> m (gn_handle x) = None) \<and>
      m' = m ++ map_of (zip (map gn_handle (n # nodes)) (map word_of_nat [k..<k + length (n # nodes)]))"
  proof (cases "gn_handle n \<in> gn_handle ` set nodes")
    case True
    then obtain x where "x \<in> set nodes" "gn_handle x = gn_handle n" by auto
    then have "\<not> (\<forall>x \<in> set nodes. (m(gn_handle n \<mapsto> word_of_nat k)) (gn_handle x) = None)"
      by (intro notI) (auto dest!: bspec)
    with True show ?thesis unfolding Cons.IH by auto
  next
    case False
    let ?rest = "map_of (zip (map gn_handle nodes) (map word_of_nat [Suc k..<Suc k + length nodes]))"
    have "gn_handle n \<notin> dom ?rest" using False by (subst dom_map_of_zip) (simp_all del: upt_Suc)
    then have "m(gn_handle n \<mapsto> word_of_nat k) ++ ?rest = m ++ ?rest(gn_handle n \<mapsto> word_of_nat k)"
      unfolding map_add_upd by (rule map_add_upd_left)
    moreover have "(m(gn_handle n \<mapsto> word_of_nat k)) (gn_handle x) = m (gn_handle x)" if "x \<in> set nodes" for x
      using False that by (metis fun_upd_other imageI)
    ultimately show ?thesis unfolding Cons.IH upt using len False by (auto simp del: upt_Suc)
  qed
  finally show ?case by simp
qed auto

lemma index_nodes_Ok:
  "rfold index_node (enumerate 0 nodes) Map.empty = Ok m \<longleftrightarrow> nodes_ok nodes \<and> m = node_index nodes"
  unfolding index_nodes_from by (auto simp: nodes_ok_def node_index_def)

lemma index_node_neq_Panic: "index_node n m \<noteq> Panic"
  by (cases n) (simp add: index_node_def)

lemma node_index_Some:
  assumes "nodes_ok nodes"
  shows "node_index nodes h = Some i \<longleftrightarrow> unat i < length nodes \<and> gn_handle (nodes ! unat i) = h"
proof -
  have small: "unat (word_of_nat j :: u32) = j" if "j < length nodes" for j
    using assms that by (simp add: nodes_ok_def unat_of_nat take_bit_nat_eq_self)
  have "node_index nodes h = Some i \<longleftrightarrow> (h, i) \<in> set (zip (map gn_handle nodes) (map word_of_nat [0..<length nodes]))"
    unfolding node_index_def using assms by (intro map_of_eq_Some_iff) (simp add: nodes_ok_def)
  also have "\<dots> \<longleftrightarrow> (\<exists>j < length nodes. gn_handle (nodes ! j) = h \<and> word_of_nat j = i)"
  proof -
    have "zip (map gn_handle nodes) (map word_of_nat [0..<length nodes]) =
        map (\<lambda>j. (gn_handle (nodes ! j), word_of_nat j :: u32)) [0..<length nodes]"
      by (rule nth_equalityI) simp_all
    then show ?thesis by auto
  qed
  also have "\<dots> \<longleftrightarrow> unat i < length nodes \<and> gn_handle (nodes ! unat i) = h"
    using small by (auto intro: exI [of _ "unat i"])
  finally show ?thesis .
qed

section \<open>The set of edges and its resolution\<close>

lemma collect_edges_Ok:
  "rfold (collect_edge m) edges S = Ok S' \<longleftrightarrow>
     (\<forall>e \<in> set edges. m (de_from e) \<noteq> None \<and> m (de_to e) \<noteq> None \<and> de_from e \<noteq> de_to e \<and> e \<notin> S) \<and>
     distinct edges \<and> S' = S \<union> set edges"
proof (induction edges arbitrary: S)
  case (Cons e edges)
  have "rfold (collect_edge m) (e # edges) S = Ok S' \<longleftrightarrow>
      m (de_from e) \<noteq> None \<and> m (de_to e) \<noteq> None \<and> de_from e \<noteq> de_to e \<and> e \<notin> S \<and>
      rfold (collect_edge m) edges (insert e S) = Ok S'"
    by (simp add: collect_edge_def)
  then show ?case unfolding Cons.IH by auto
qed auto

lemma collect_edge_neq_Panic: "collect_edge m e S \<noteq> Panic"
  by (simp add: collect_edge_def)

definition resolved_pair :: "(u32 \<rightharpoonup> u32) \<Rightarrow> directed_edge \<Rightarrow> u32 \<times> u32" where
  "resolved_pair m e = (the (m (de_from e)), the (m (de_to e)))"

text \<open>What is written to the row of index \<open>i\<close>, in the order of the edges.\<close>

definition row_of :: "(u32 \<times> u32) list \<Rightarrow> nat \<Rightarrow> u32 list" where
  "row_of resolved i = map snd (filter (\<lambda>p. unat (fst p) = i) resolved)"

lemma row_of_simps [simp]:
  "row_of [] i = []" "row_of (ps @ qs) i = row_of ps i @ row_of qs i"
  "row_of (p # ps) i = (if unat (fst p) = i then [snd p] else []) @ row_of ps i"
  by (simp_all add: row_of_def)

lemma resolve_edges_Ok:
  assumes "\<And>e. e \<in> set edges \<Longrightarrow> \<exists>f t. m (de_from e) = Some f \<and> m (de_to e) = Some t \<and> unat f < length ds"
  shows "rfold (resolve_edge m E) edges (ds, rs) \<noteq> Panic \<and>
    (rfold (resolve_edge m E) edges (ds, rs) = Ok (ds', rs') \<longrightarrow>
      (\<forall>e \<in> set edges. DirectedEdge (de_to e) (de_from e) \<in> E) \<and> rs' = rs @ map (resolved_pair m) edges \<and>
      length ds' = length ds \<and>
      (\<forall>i < length ds. ds' ! i = ds ! i + word_of_nat (length (row_of (map (resolved_pair m) edges) i)))) \<and>
    ((\<forall>e \<in> set edges. DirectedEdge (de_to e) (de_from e) \<in> E) \<longrightarrow>
      (\<exists>s. rfold (resolve_edge m E) edges (ds, rs) = Ok s))"
  using assms
proof (induction edges arbitrary: ds rs)
  case (Cons e edges)
  obtain f t where e: "m (de_from e) = Some f" "m (de_to e) = Some t" "unat f < length ds"
    using Cons.prems [of e] by auto
  let ?ds = "ds[unat f := ds ! unat f + 1]"
  have pair: "resolved_pair m e = (f, t)" by (simp add: resolved_pair_def e)
  have step: "rfold (resolve_edge m E) (e # edges) (ds, rs) =
      (if DirectedEdge (de_to e) (de_from e) \<notin> E then Err (MissingReciprocalEdge (de_from e) (de_to e))
       else rfold (resolve_edge m E) edges (?ds, rs @ [(f, t)]))"
    using e by (simp add: resolve_edge_def)
  have "\<exists>f t. m (de_from e') = Some f \<and> m (de_to e') = Some t \<and> unat f < length ?ds" if "e' \<in> set edges" for e'
    using Cons.prems [of e'] that by simp
  note IH = Cons.IH [of ?ds "rs @ [(f, t)]", OF this]
  show ?case
    unfolding step using IH by (auto simp: pair nth_list_update e(3) split: if_splits)
qed auto

section \<open>Offsets\<close>

lemma add_offsets_Ok:
  "rfold add_offset ds (c, os) = Ok (c', os') \<longleftrightarrow> unat c + sum_list (map unat ds) < 2 ^ 32 \<and>
     unat c' = unat c + sum_list (map unat ds) \<and>
     map unat os' = map unat os @ map (\<lambda>i. unat c + sum_list (take (Suc i) (map unat ds))) [0..<length ds]"
proof (induction ds arbitrary: c os)
  case Nil
  then show ?case using unat_less_2p [of c] by (auto simp: inj_map_eq_map word_unat_eq_iff inj_def)
next
  case (Cons d ds)
  have upt: "map g [0..<length (d # ds)] = g 0 # map (\<lambda>i. g (Suc i)) [0..<length ds]" for g :: "nat \<Rightarrow> nat"
  proof -
    have "[0..<length (d # ds)] = 0 # map Suc [0..<length ds]"
      by (simp only: list.size(4) add_0_right add_Suc_right map_Suc_upt upt_conv_Cons zero_less_Suc)
    then show ?thesis by (simp only: list.map map_map comp_def)
  qed
  have "rfold add_offset (d # ds) (c, os) = Ok (c', os') \<longleftrightarrow>
      unat c + unat d < 2 ^ 32 \<and> rfold add_offset ds (c + d, os @ [c + d]) = Ok (c', os')"
    by (auto simp: add_offset_def checked_add_def)
  also have "\<dots> \<longleftrightarrow> unat c + sum_list (map unat (d # ds)) < 2 ^ 32 \<and>
     unat c' = unat c + sum_list (map unat (d # ds)) \<and>
     map unat os' = map unat os @ map (\<lambda>i. unat c + sum_list (take (Suc i) (map unat (d # ds)))) [0..<length (d # ds)]"
  proof (cases "unat c + unat d < 2 ^ 32")
    case True
    then have "unat (c + d) = unat c + unat d" by (simp add: unat_word_ariths)
    then show ?thesis unfolding Cons.IH upt using True by (simp add: add.assoc)
  qed simp
  finally show ?case .
qed

section \<open>Filling the rows\<close>

text \<open>Row \<open>i\<close> lies between the offsets \<open>i\<close> and \<open>i + 1\<close> and has room for what is written to it.\<close>

definition offsets_for :: "nat \<Rightarrow> (u32 \<times> u32) list \<Rightarrow> u32 list \<Rightarrow> nat \<Rightarrow> bool" where
  "offsets_for n resolved offsets room_size \<longleftrightarrow> length offsets = Suc n \<and> room_size < 2 ^ 32 \<and> unat (offsets ! n) = room_size \<and>
     (\<forall>i < n. unat (offsets ! Suc i) = unat (offsets ! i) + length (row_of resolved i))"

lemma offsets_mono:
  assumes "offsets_for n resolved offsets room_size" and "i \<le> j" and "j \<le> n"
  shows "unat (offsets ! i) \<le> unat (offsets ! j)"
  using assms(2,3)
proof (induction j)
  case (Suc j)
  then show ?case using assms(1) by (cases "i = Suc j") (auto simp: offsets_for_def)
qed simp

lemma place_neighbors_Ok:
  assumes off: "offsets_for n resolved offsets room_size" and "\<And>p. p \<in> set resolved \<Longrightarrow> unat (fst p) < n"
    and "resolved = ps @ qs"
  shows "\<exists>neighbors cursors. rfold (place_neighbor offsets) ps (replicate room_size 0, replicate n 0) = Ok (neighbors, cursors) \<and>
    length neighbors = room_size \<and> length cursors = n \<and>
    (\<forall>i < n. unat (cursors ! i) = length (row_of ps i) \<and>
      (\<forall>k < length (row_of ps i). neighbors ! (unat (offsets ! i) + k) = row_of ps i ! k))"
  using assms(3)
proof (induction ps arbitrary: qs rule: rev_induct)
  case Nil
  then show ?case by simp
next
  case (snoc p ps)
  obtain f t where p: "p = (f, t)" by (cases p)
  let ?i = "unat f"
  have i: "?i < n" using assms(2) [of p] snoc.prems by (simp add: p)
  obtain nb cs where IH: "rfold (place_neighbor offsets) ps (replicate room_size 0, replicate n 0) = Ok (nb, cs)"
    "length nb = room_size" "length cs = n" "\<And>i. i < n \<Longrightarrow> unat (cs ! i) = length (row_of ps i)"
    "\<And>i k. i < n \<Longrightarrow> k < length (row_of ps i) \<Longrightarrow> nb ! (unat (offsets ! i) + k) = row_of ps i ! k"
    using snoc.IH [of "p # qs"] snoc.prems by auto
  have room: "length (row_of ps j) + (if j = ?i then 1 else 0) \<le> length (row_of resolved j)" for j
    by (auto simp: snoc.prems p)
  have fits: "unat (offsets ! j) + length (row_of ps j) + (if j = ?i then 1 else 0) \<le> unat (offsets ! Suc j)" if "j < n" for j
    using off room [of j] that by (simp add: offsets_for_def)
  have room_size: "unat (offsets ! Suc ?i) \<le> room_size" using offsets_mono [OF off, of "Suc ?i" n] off i by (simp add: offsets_for_def)
  let ?at = "unat (offsets ! ?i) + length (row_of ps ?i)"
  have at: "?at < room_size" using fits [OF i] room_size by simp
  then have slot: "unat (offsets ! ?i + cs ! ?i) = ?at"
    using off IH(4) [OF i] by (simp add: unat_word_ariths offsets_for_def)
  let ?nb = "nb[?at := t]" and ?cs = "cs[?i := cs ! ?i + 1]"
  have run: "rfold (place_neighbor offsets) (ps @ [p]) (replicate room_size 0, replicate n 0) = Ok (?nb, ?cs)"
    using IH(1-3) i at off by (simp add: rfold_append place_neighbor_def p slot offsets_for_def)
  have "unat (?cs ! j) = length (row_of (ps @ [p]) j)" if "j < n" for j
    using that IH(3,4) at off by (auto simp: p nth_list_update unat_word_ariths offsets_for_def)
  moreover have "?nb ! (unat (offsets ! j) + k) = row_of (ps @ [p]) j ! k" if "j < n" "k < length (row_of (ps @ [p]) j)" for j k
  proof (cases "j = ?i")
    case True
    then show ?thesis
      using that IH(2) IH(5) [of j k] at by (cases "k = length (row_of ps ?i)") (auto simp: p nth_append)
  next
    case False
    then have k: "k < length (row_of ps j)" using that(2) by (simp add: p)
    have "unat (offsets ! j) + k \<noteq> ?at"
    proof (cases "j < ?i")
      case True
      then show ?thesis using fits [OF that(1)] offsets_mono [OF off, of "Suc j" ?i] i k by simp
    next
      case F: False
      then show ?thesis using fits [OF i] offsets_mono [OF off, of "Suc ?i" j] that(1) False by simp
    qed
    then show ?thesis using IH(5) [OF that(1) k] False by (simp add: p nth_append k)
  qed
  ultimately show ?case using run IH(2,3) by auto
qed

section \<open>Sorting the rows\<close>

lemma nth_sort_segment:
  assumes "a \<le> b" and "b \<le> length xs" and "j < length xs" and "length ys = b - a"
  shows "(take a xs @ ys @ drop b xs) ! j = (if a \<le> j \<and> j < b then ys ! (j - a) else xs ! j)"
  using assms by (auto simp: nth_append min_def)

lemma slice_cong:
  assumes "\<And>j. a \<le> j \<Longrightarrow> j < b \<Longrightarrow> xs ! j = ys ! j" and "b \<le> length xs" and "b \<le> length ys"
  shows "slice a b xs = slice a b ys"
  using assms by (intro nth_equalityI) (simp_all add: slice_def)

lemma sort_rows_Ok:
  assumes off: "\<And>i j. i \<le> j \<Longrightarrow> j \<le> n \<Longrightarrow> unat (offsets ! i) \<le> unat (offsets ! j)"
    and len: "length offsets = Suc n" and "unat (offsets ! n) = length nb" and "k \<le> n"
  shows "\<exists>nb'. rfold (sort_row offsets) [0..<k] nb = Ok nb' \<and> length nb' = length nb \<and>
    (\<forall>i < n. slice (unat (offsets ! i)) (unat (offsets ! Suc i)) nb' =
      (if i < k then sort (slice (unat (offsets ! i)) (unat (offsets ! Suc i)) nb)
       else slice (unat (offsets ! i)) (unat (offsets ! Suc i)) nb))"
  using assms(4)
proof (induction k)
  case 0
  then show ?case by simp
next
  case (Suc k)
  let ?a = "\<lambda>i. unat (offsets ! i)"
  obtain nb1 where IH: "rfold (sort_row offsets) [0..<k] nb = Ok nb1" "length nb1 = length nb"
    "\<And>i. i < n \<Longrightarrow> slice (?a i) (?a (Suc i)) nb1 =
      (if i < k then sort (slice (?a i) (?a (Suc i)) nb) else slice (?a i) (?a (Suc i)) nb)"
    using Suc by auto
  have range: "?a k \<le> ?a (Suc k)" "?a (Suc k) \<le> length nb1"
    using off [of k "Suc k"] off [of "Suc k" n] Suc.prems assms(3) IH(2) by simp_all
  let ?ys = "sort (slice (?a k) (?a (Suc k)) nb1)"
  let ?nb' = "take (?a k) nb1 @ ?ys @ drop (?a (Suc k)) nb1"
  have ys: "length ?ys = ?a (Suc k) - ?a k" using range by (simp add: slice_def)
  have run: "rfold (sort_row offsets) [0..<Suc k] nb = Ok ?nb'"
    using IH(1) len range Suc.prems by (simp add: rfold_append sort_row_def Let_def)
  have len': "length ?nb' = length nb" using range ys IH(2) by simp
  have nth: "?nb' ! j = (if ?a k \<le> j \<and> j < ?a (Suc k) then ?ys ! (j - ?a k) else nb1 ! j)" if "j < length nb" for j
    using nth_sort_segment [OF range _ ys] that IH(2) by simp
  have "slice (?a i) (?a (Suc i)) ?nb' = (if i = k then ?ys else slice (?a i) (?a (Suc i)) nb1)" if i: "i < n" for i
  proof (cases "i = k")
    case True
    have "slice (?a k) (?a (Suc k)) ?nb' = ?ys"
      using range ys by (simp add: slice_def min_def)
    with True show ?thesis by simp
  next
    case False
    have bound: "?a (Suc i) \<le> length nb" using off [of "Suc i" n] i assms(3) by simp
    have apart: "?a (Suc i) \<le> ?a k \<or> ?a (Suc k) \<le> ?a i"
      using off [of "Suc i" k] off [of "Suc k" i] False i Suc.prems by (cases "i < k") auto
    have "slice (?a i) (?a (Suc i)) ?nb' = slice (?a i) (?a (Suc i)) nb1"
    proof (rule slice_cong)
      show "?nb' ! j = nb1 ! j" if "?a i \<le> j" "j < ?a (Suc i)" for j
        using nth [of j] that bound apart by auto
      show "?a (Suc i) \<le> length ?nb'" "?a (Suc i) \<le> length nb1" using bound len' IH(2) by simp_all
    qed
    with False show ?thesis by simp
  qed
  then show ?case
    using run len' IH(3) by (intro exI [of _ ?nb']) (auto simp: less_Suc_eq)
qed

section \<open>The graph that is built\<close>

text \<open>The rows as a vector of vectors: the indices of the neighbours of each node, in increasing order.\<close>

definition graph_row :: "graph_node list \<Rightarrow> directed_edge list \<Rightarrow> nat \<Rightarrow> u32 list" where
  "graph_row nodes edges i =
     sort (map (\<lambda>e. the (node_index nodes (de_to e))) (filter (\<lambda>e. de_from e = gn_handle (nodes ! i)) edges))"

definition graph_wf :: "graph_node list \<Rightarrow> directed_edge list \<Rightarrow> bool" where
  "graph_wf nodes edges \<longleftrightarrow> nodes_ok nodes \<and> distinct edges \<and> length edges < 2 ^ 32 \<and>
     (\<forall>e \<in> set edges. node_index nodes (de_from e) \<noteq> None \<and> node_index nodes (de_to e) \<noteq> None \<and>
       de_from e \<noteq> de_to e \<and> DirectedEdge (de_to e) (de_from e) \<in> set edges) \<and>
     (\<forall>i < length nodes. length (graph_row nodes edges i) \<le> unat max_cardinal_neighbors)"

lemma known_edge:
  assumes "nodes_ok nodes" and "node_index nodes (de_from e) \<noteq> None" and "node_index nodes (de_to e) \<noteq> None"
  shows "\<exists>f t. node_index nodes (de_from e) = Some f \<and> node_index nodes (de_to e) = Some t \<and> unat f < length nodes"
  using assms by (auto simp: node_index_Some)

lemma sort_row_of_edges:
  assumes nodes: "nodes_ok nodes" and "mset es = mset edges" and "i < length nodes"
    and known: "\<And>e. e \<in> set edges \<Longrightarrow> node_index nodes (de_from e) \<noteq> None"
  shows "sort (row_of (map (resolved_pair (node_index nodes)) es) i) = graph_row nodes edges i"
proof -
  let ?m = "node_index nodes"
  have "set es = set edges" using assms(2) by (rule mset_eq_setD)
  have "unat (the (?m (de_from e))) = i \<longleftrightarrow> de_from e = gn_handle (nodes ! i)" if e: "e \<in> set es" for e
  proof -
    obtain f where f: "?m (de_from e) = Some f" using known [of e] e \<open>set es = set edges\<close> by auto
    then have "unat f < length nodes" "gn_handle (nodes ! unat f) = de_from e" by (simp_all add: node_index_Some [OF nodes])
    moreover have "distinct (map gn_handle nodes)" using nodes by (simp add: nodes_ok_def)
    ultimately show ?thesis using assms(3) f by (auto simp: distinct_conv_nth) (metis length_map nth_map)
  qed
  then have "row_of (map (resolved_pair ?m) es) i =
      map (\<lambda>e. the (?m (de_to e))) (filter (\<lambda>e. de_from e = gn_handle (nodes ! i)) es)"
    by (simp add: row_of_def filter_map comp_def resolved_pair_def cong: filter_cong)
  moreover have "mset (map (\<lambda>e. the (?m (de_to e))) (filter (\<lambda>e. de_from e = gn_handle (nodes ! i)) es)) =
      mset (map (\<lambda>e. the (?m (de_to e))) (filter (\<lambda>e. de_from e = gn_handle (nodes ! i)) edges))"
    by (simp add: assms(2))
  ultimately show ?thesis by (simp add: graph_row_def properties_for_sort)
qed

lemma sum_rows:
  assumes "\<And>p. p \<in> set ps \<Longrightarrow> unat (fst p) < n"
  shows "(\<Sum>i<n. length (row_of ps i)) = length ps"
  using assms
proof (induction ps)
  case (Cons p ps)
  have "(\<Sum>i<n. length (row_of (p # ps) i)) = (\<Sum>i<n. if i = unat (fst p) then 1 else 0) + (\<Sum>i<n. length (row_of ps i))"
    unfolding sum.distrib [symmetric] by (rule sum.cong) auto
  then show ?case using Cons by simp
qed simp

lemma row_length_bound:
  assumes "distinct edges" and "\<And>e. e \<in> set edges \<Longrightarrow> de_from e \<noteq> de_to e"
  shows "length (filter (\<lambda>e. de_from e = h) edges) < 2 ^ 32"
proof -
  let ?es = "filter (\<lambda>e. de_from e = h) edges"
  have "inj_on de_to (set ?es)" by (rule inj_onI) (auto intro: directed_edge.expand)
  moreover have "de_to ` set ?es \<subseteq> UNIV - {h}" using assms(2) by fastforce
  ultimately have "card (set ?es) \<le> card (UNIV - {h} :: u32 set)" by (rule card_inj_on_le) simp
  moreover have "card (set ?es) = length ?es" using assms(1) by (intro distinct_card) simp
  ultimately show ?thesis by (simp add: card_Diff_singleton card_word)
qed

text \<open>From the degrees on nothing can panic, and the rows are those of the vector of vectors.\<close>

lemma build_rows:
  assumes "length ds = n" and "\<And>i. i < n \<Longrightarrow> unat (ds ! i) = length (row_of rs i)"
    and "\<And>p. p \<in> set rs \<Longrightarrow> unat (fst p) < n"
  defines "run \<equiv> rbind (rfold add_offset ds (0, [0])) (\<lambda>(edge_count, offsets).
     rbind (rfold (place_neighbor offsets) rs (replicate (unat edge_count) 0, replicate n 0)) (\<lambda>(neighbors, _).
     rbind (rfold (sort_row offsets) [0..<n] neighbors) (\<lambda>neighbors. Ok (offsets, neighbors))))"
  shows "run \<noteq> Panic" and "(\<exists>r. run = Ok r) \<longleftrightarrow> length rs < 2 ^ 32"
    and "run = Ok (offsets, neighbors) \<Longrightarrow> length offsets = Suc n \<and> unat (offsets ! n) = length neighbors \<and>
      (\<forall>i < n. unat (offsets ! i) \<le> unat (offsets ! Suc i) \<and> unat (offsets ! Suc i) \<le> length neighbors \<and>
        slice (unat (offsets ! i)) (unat (offsets ! Suc i)) neighbors = sort (row_of rs i))"
proof -
  let ?sums = "\<lambda>i. sum_list (take i (map unat ds))"
  have "map unat ds = map (\<lambda>i. length (row_of rs i)) [0..<n]"
    using assms(1,2) by (intro nth_equalityI) simp_all
  then have all: "sum_list (map unat ds) = length rs"
    using sum_rows [OF assms(3)] by (simp add: interv_sum_list_conv_sum_set_nat atLeast0LessThan)
  have np: "rfold add_offset ds (0, [0]) \<noteq> Panic"
    by (rule rfold_neq_Panic) (auto simp: add_offset_def)
  have built: "\<exists>offsets neighbors. run = Ok (offsets, neighbors) \<and> length offsets = Suc n \<and>
      unat (offsets ! n) = length neighbors \<and>
      (\<forall>i < n. unat (offsets ! i) \<le> unat (offsets ! Suc i) \<and> unat (offsets ! Suc i) \<le> length neighbors \<and>
        slice (unat (offsets ! i)) (unat (offsets ! Suc i)) neighbors = sort (row_of rs i))" if small: "length rs < 2 ^ 32"
  proof -
    let ?offs = "map word_of_nat (map ?sums [0..<Suc n]) :: u32 list"
    have small_sums: "?sums i < 2 ^ 32" for i
    proof -
      have "sum_list (take i (map unat ds)) \<le> sum_list (map unat ds)"
        by (metis append_take_drop_id le_add1 sum_list_append)
      with all small show ?thesis by simp
    qed
    have nth_offs: "unat (?offs ! i) = ?sums i" if "i \<le> n" for i
      using that small_sums [of i] by (simp del: upt_Suc add: unat_of_nat take_bit_nat_eq_self)
    have offs0: "map unat ?offs = map unat [0 :: u32] @ map (\<lambda>i. unat (0 :: u32) + ?sums (Suc i)) [0..<length ds]"
    proof (rule nth_equalityI)
      show "length (map unat ?offs) = length (map unat [0 :: u32] @ map (\<lambda>i. unat (0 :: u32) + ?sums (Suc i)) [0..<length ds])"
        using assms(1) by simp
      show "map unat ?offs ! i = (map unat [0 :: u32] @ map (\<lambda>i. unat (0 :: u32) + ?sums (Suc i)) [0..<length ds]) ! i"
        if "i < length (map unat ?offs)" for i
        using that nth_offs [of i] assms(1) by (cases i) (simp_all del: upt_Suc)
    qed
    let ?count = "word_of_nat (length rs) :: u32"
    have count: "unat ?count = length rs" using small by (simp add: unat_of_nat take_bit_nat_eq_self)
    have offs: "rfold add_offset ds (0, [0]) = Ok (?count, ?offs)"
      unfolding add_offsets_Ok offs0 [symmetric] using small all count by simp
    have for_rs: "offsets_for n rs ?offs (length rs)"
      unfolding offsets_for_def
    proof (intro conjI allI impI)
      show "length ?offs = Suc n" by simp
      show "unat (?offs ! n) = length rs" using nth_offs [of n] all assms(1) by simp
      show "unat (?offs ! Suc i) = unat (?offs ! i) + length (row_of rs i)" if "i < n" for i
        using nth_offs [of i] nth_offs [of "Suc i"] that assms(1) assms(2) [OF that]
        by (simp del: upt_Suc add: take_Suc_conv_app_nth)
    qed (rule small)
    obtain nb cs where nb: "rfold (place_neighbor ?offs) rs (replicate (length rs) 0, replicate n 0) = Ok (nb, cs)"
      "length nb = length rs" "\<And>i k. i < n \<Longrightarrow> k < length (row_of rs i) \<Longrightarrow> nb ! (unat (?offs ! i) + k) = row_of rs i ! k"
      using place_neighbors_Ok [OF for_rs assms(3), of rs "[]"] by auto
    have top: "unat (?offs ! n) = length nb" using for_rs nb(2) by (simp add: offsets_for_def)
    obtain nb' where nb': "rfold (sort_row ?offs) [0..<n] nb = Ok nb'" "length nb' = length nb"
      "\<And>i. i < n \<Longrightarrow> slice (unat (?offs ! i)) (unat (?offs ! Suc i)) nb' = sort (slice (unat (?offs ! i)) (unat (?offs ! Suc i)) nb)"
      using sort_rows_Ok [OF offsets_mono [OF for_rs] _ top order_refl] by auto
    have bounds: "unat (?offs ! Suc i) \<le> length nb" "unat (?offs ! i) \<le> unat (?offs ! Suc i)" if "i < n" for i
      using offsets_mono [OF for_rs, of "Suc i" n] offsets_mono [OF for_rs, of i "Suc i"] that top by simp_all
    have rows: "slice (unat (?offs ! i)) (unat (?offs ! Suc i)) nb = row_of rs i" if "i < n" for i
    proof (rule nth_equalityI)
      have step: "unat (?offs ! Suc i) = unat (?offs ! i) + length (row_of rs i)" using for_rs that by (simp add: offsets_for_def)
      show "length (slice (unat (?offs ! i)) (unat (?offs ! Suc i)) nb) = length (row_of rs i)"
        using bounds [OF that] step by (simp add: slice_def)
      show "slice (unat (?offs ! i)) (unat (?offs ! Suc i)) nb ! k = row_of rs i ! k"
        if "k < length (slice (unat (?offs ! i)) (unat (?offs ! Suc i)) nb)" for k
        using that bounds [OF \<open>i < n\<close>] step nb(3) [OF \<open>i < n\<close>, of k] by (simp add: slice_def)
    qed
    have "run = Ok (?offs, nb')" unfolding run_def offs using nb(1) nb'(1) count by simp
    then show ?thesis
      using bounds nb'(2,3) rows top by (intro exI [of _ ?offs] exI [of _ nb']) (simp del: upt_Suc)
  qed
  have large: "\<exists>e. run = Err e" if "\<not> length rs < 2 ^ 32"
  proof -
    have "rfold add_offset ds (0, [0]) \<noteq> Ok s" for s
      using that all by (cases s) (simp add: add_offsets_Ok)
    then show ?thesis using np by (cases "rfold add_offset ds (0, [0])") (auto simp: run_def)
  qed
  show "run \<noteq> Panic" using built large by (cases "length rs < 2 ^ 32") auto
  show "(\<exists>r. run = Ok r) \<longleftrightarrow> length rs < 2 ^ 32" using built large by (cases "length rs < 2 ^ 32") auto
  show "run = Ok (offsets, neighbors) \<Longrightarrow> length offsets = Suc n \<and> unat (offsets ! n) = length neighbors \<and>
      (\<forall>i < n. unat (offsets ! i) \<le> unat (offsets ! Suc i) \<and> unat (offsets ! Suc i) \<le> length neighbors \<and>
        slice (unat (offsets ! i)) (unat (offsets ! Suc i)) neighbors = sort (row_of rs i))"
    using built large by (cases "length rs < 2 ^ 32") auto
qed

text \<open>The graph that a successful validation returns.\<close>

definition graph_built :: "graph_node list \<Rightarrow> directed_edge list \<Rightarrow> diffusion_graph \<Rightarrow> bool" where
  "graph_built nodes edges g \<longleftrightarrow> dg_nodes g = nodes \<and> dg_handle_to_index g = node_index nodes \<and>
     length (dg_offsets g) = Suc (length nodes) \<and>
     (\<forall>i < length nodes. unat (dg_offsets g ! i) \<le> unat (dg_offsets g ! Suc i) \<and>
       unat (dg_offsets g ! Suc i) \<le> length (dg_neighbors g) \<and>
       slice (unat (dg_offsets g ! i)) (unat (dg_offsets g ! Suc i)) (dg_neighbors g) = graph_row nodes edges i)"

lemma validate_graph_result:
  "validate_graph nodes edges \<noteq> Panic \<and> ((\<exists>g. validate_graph nodes edges = Ok g) \<longleftrightarrow> graph_wf nodes edges) \<and>
   (\<forall>g. validate_graph nodes edges = Ok g \<longrightarrow> graph_built nodes edges g)"
proof (cases "nodes_ok nodes")
  case False
  then have "rfold index_node (enumerate 0 nodes) Map.empty \<noteq> Ok m" for m by (simp add: index_nodes_Ok)
  moreover have "rfold index_node (enumerate 0 nodes) Map.empty \<noteq> Panic" by (rule rfold_neq_Panic) (rule index_node_neq_Panic)
  ultimately show ?thesis
    using False by (cases "rfold index_node (enumerate 0 nodes) Map.empty") (auto simp: validate_graph_def graph_wf_def)
next
  case nodes: True
  let ?m = "node_index nodes" and ?n = "length nodes"
  have m: "rfold index_node (enumerate 0 nodes) Map.empty = Ok ?m" using nodes by (simp add: index_nodes_Ok)
  define known where "known \<longleftrightarrow> (\<forall>e \<in> set edges. ?m (de_from e) \<noteq> None \<and> ?m (de_to e) \<noteq> None \<and> de_from e \<noteq> de_to e) \<and> distinct edges"
  have collect: "rfold (collect_edge ?m) edges {} = Ok E \<longleftrightarrow> known \<and> E = set edges" for E
    unfolding collect_edges_Ok known_def by auto
  show ?thesis
  proof (cases known)
    case False
    have "rfold (collect_edge ?m) edges {} \<noteq> Panic" by (rule rfold_neq_Panic) (rule collect_edge_neq_Panic)
    moreover have "\<not> graph_wf nodes edges" using False by (auto simp: graph_wf_def known_def)
    ultimately show ?thesis
      using False collect by (cases "rfold (collect_edge ?m) edges {}") (auto simp: validate_graph_def m)
  next
    case True
    let ?es = "sorted_list_of_set (set edges)"
    have es: "set ?es = set edges" "distinct edges" using True by (simp_all add: known_def)
    then have mset: "mset ?es = mset edges" by (intro set_eq_iff_mset_eq_distinct [THEN iffD1]) simp_all
    have known: "?m (de_from e) \<noteq> None" "?m (de_to e) \<noteq> None" "de_from e \<noteq> de_to e" if "e \<in> set edges" for e
      using True that by (auto simp: known_def)
    let ?rs = "map (resolved_pair ?m) ?es"
    let ?symmetric = "\<forall>e \<in> set ?es. DirectedEdge (de_to e) (de_from e) \<in> set edges"
    let ?run = "rfold (resolve_edge ?m (set edges)) ?es (replicate ?n 0, [])"
    have ends: "\<exists>f t. ?m (de_from e) = Some f \<and> ?m (de_to e) = Some t \<and> unat f < length (replicate ?n (0 :: u32))"
      if "e \<in> set ?es" for e
      using known_edge [OF nodes, of e] known that es(1) by auto
    note resolve = resolve_edges_Ok [of ?es ?m "replicate ?n 0", OF ends, where E = "set edges" and rs = "[]"]
    have row: "sort (row_of ?rs i) = graph_row nodes edges i" if "i < ?n" for i
      by (rule sort_row_of_edges [OF nodes mset that]) (rule known)
    have row_len: "length (row_of ?rs i) = length (graph_row nodes edges i)" if "i < ?n" for i
      using row [OF that] by (metis length_sort)
    have fits: "length (graph_row nodes edges i) < 2 ^ 32" for i
      using row_length_bound [OF es(2), of "gn_handle (nodes ! i)"] known by (simp add: graph_row_def)
    have total: "length ?es = length edges" using mset by (metis size_mset)
    have first: "validate_graph nodes edges = rbind ?run (\<lambda>(degrees, resolved).
        rbind (rforeach (check_degree nodes) (enumerate 0 degrees)) (\<lambda>_.
        rbind (rfold add_offset degrees (0, [0])) (\<lambda>(edge_count, offsets).
        rbind (rfold (place_neighbor offsets) resolved
          (replicate (unat edge_count) 0, replicate (length degrees) 0)) (\<lambda>(neighbors, _).
        rbind (rfold (sort_row offsets) [0..<?n] neighbors) (\<lambda>neighbors.
        Ok \<lparr>dg_nodes = nodes, dg_handle_to_index = ?m, dg_offsets = offsets, dg_neighbors = neighbors\<rparr>)))))"
    proof -
      have "rfold (collect_edge ?m) edges {} = Ok (set edges)" using True collect by blast
      then show ?thesis by (simp add: validate_graph_def m)
    qed
    show ?thesis
    proof (cases ?symmetric)
      case False
      have "?run \<noteq> Panic" "?run \<noteq> Ok s" for s
        using resolve False by (cases s; blast)+
      moreover have "\<not> graph_wf nodes edges" using False by (auto simp: graph_wf_def)
      ultimately show ?thesis unfolding first by (cases ?run) auto
    next
      case sym: True
      obtain ds rs where ds: "?run = Ok (ds, rs)"
        using resolve sym by (metis surj_pair)
      then have rs: "rs = ?rs" "length ds = ?n" "\<And>i. i < ?n \<Longrightarrow> ds ! i = word_of_nat (length (row_of ?rs i))"
        using resolve [where ds' = ds and rs' = rs] by auto
      have d: "unat (ds ! i) = length (row_of rs i)" if "i < ?n" for i
        using rs(3) [OF that] fits [of i] row_len [OF that] by (simp add: rs(1) unat_of_nat take_bit_nat_eq_self)
      have inside: "unat (fst p) < ?n" if "p \<in> set rs" for p
        using that ends es(1) by (fastforce simp: rs(1) resolved_pair_def)
      let ?small = "\<forall>i < ?n. length (graph_row nodes edges i) \<le> unat max_cardinal_neighbors"
      have check: "rforeach (check_degree nodes) (enumerate 0 ds) = Ok () \<longleftrightarrow> ?small"
      proof -
        have "rforeach (check_degree nodes) (enumerate 0 ds) = Ok () \<longleftrightarrow> (\<forall>i < ?n. ds ! i \<le> max_cardinal_neighbors)"
        proof -
          have "set (enumerate 0 ds) = (\<lambda>i. (i, ds ! i)) ` {..<?n}"
            by (auto simp: in_set_enumerate_eq image_iff rs(2))
          then show ?thesis by (auto simp: rforeach_eq_Ok check_degree_def not_less split: if_splits)
        qed
        then show ?thesis using d row_len by (simp add: word_le_nat_alt rs(1))
      qed
      have check_np: "rforeach (check_degree nodes) (enumerate 0 ds) \<noteq> Panic"
        by (rule rforeach_neq_Panic) (auto simp: check_degree_def split: if_splits)
      have wf: "graph_wf nodes edges \<longleftrightarrow> ?small \<and> length rs < 2 ^ 32"
        using nodes known es sym total by (auto simp: graph_wf_def rs(1))
      let ?tail = "rbind (rfold add_offset ds (0, [0])) (\<lambda>(edge_count, offsets).
         rbind (rfold (place_neighbor offsets) rs (replicate (unat edge_count) 0, replicate ?n 0)) (\<lambda>(neighbors, _).
         rbind (rfold (sort_row offsets) [0..<?n] neighbors) (\<lambda>neighbors. Ok (offsets, neighbors))))"
      note tail = build_rows [OF rs(2) d inside]
      have second: "validate_graph nodes edges = rbind (rforeach (check_degree nodes) (enumerate 0 ds)) (\<lambda>_.
          rbind ?tail (\<lambda>(offsets, neighbors).
            Ok \<lparr>dg_nodes = nodes, dg_handle_to_index = ?m, dg_offsets = offsets, dg_neighbors = neighbors\<rparr>))"
        unfolding first ds by (simp add: rs(2) rbind_assoc case_prod_unfold cong del: rbind_weak_cong)
      show ?thesis
      proof (cases ?small)
        case False
        then show ?thesis
          using check check_np wf unfolding second by (cases "rforeach (check_degree nodes) (enumerate 0 ds)") auto
      next
        case True
        then have ok: "rforeach (check_degree nodes) (enumerate 0 ds) = Ok ()" using check by blast
        have third: "validate_graph nodes edges = rbind ?tail (\<lambda>(offsets, neighbors).
            Ok \<lparr>dg_nodes = nodes, dg_handle_to_index = ?m, dg_offsets = offsets, dg_neighbors = neighbors\<rparr>)"
          unfolding second ok by simp
        show ?thesis
        proof (cases ?tail)
          case (Ok p)
          obtain offsets neighbors where p: "p = (offsets, neighbors)" by (cases p)
          have "graph_built nodes edges \<lparr>dg_nodes = nodes, dg_handle_to_index = ?m, dg_offsets = offsets, dg_neighbors = neighbors\<rparr>"
            using tail(3) [OF _ _ Ok [unfolded p]] row by (simp add: graph_built_def rs(1))
          moreover have "graph_wf nodes edges" using tail(2) Ok wf True by blast
          ultimately show ?thesis unfolding third Ok p by simp
        next
          case (Err e)
          then have "\<not> graph_wf nodes edges" using tail(2) wf by auto
          then show ?thesis unfolding third Err by simp
        qed (use tail(1) in blast)
      qed
    qed
  qed
qed

section \<open>Properties\<close>

text \<open>
  C29: \<open>validate_graph\<close> never panics and succeeds exactly for graphs whose nodes have mixtures and distinct
  handles and whose edges join known, different nodes, occur once, have a reciprocal and number at most six
  per node; the rows it packs in two counting passes are the neighbour indices of each node in increasing
  order, as a vector of vectors would hold them.
\<close>

theorem validate_graph_packs_rows:
  "validate_graph nodes edges \<noteq> Panic \<and>
   ((\<exists>g. validate_graph nodes edges = Ok g) \<longleftrightarrow> graph_wf nodes edges) \<and>
   (\<forall>g. validate_graph nodes edges = Ok g \<longrightarrow> node_count g = length nodes \<and>
     (\<forall>i < length nodes. neighbor_indices g i = Ok (graph_row nodes edges i) \<and>
       graph_degree g (gn_handle (nodes ! i)) = Ok (Some (word_of_nat (length (graph_row nodes edges i))))))"
proof -
  note result = validate_graph_result [of nodes edges]
  have "node_count g = length nodes \<and> neighbor_indices g i = Ok (graph_row nodes edges i) \<and>
      graph_degree g (gn_handle (nodes ! i)) = Ok (Some (word_of_nat (length (graph_row nodes edges i))))"
    if g: "validate_graph nodes edges = Ok g" and i: "i < length nodes" for g i
  proof -
    have built: "graph_built nodes edges g" and wf: "graph_wf nodes edges" using result g by auto
    let ?a = "dg_offsets g ! i" and ?b = "dg_offsets g ! Suc i"
    have nodes: "nodes_ok nodes" using wf by (simp add: graph_wf_def)
    have small: "unat (word_of_nat i :: u32) = i" using nodes i by (simp add: nodes_ok_def unat_of_nat take_bit_nat_eq_self)
    have "node_index nodes (gn_handle (nodes ! i)) = Some (word_of_nat i)"
      using nodes i small by (simp add: node_index_Some)
    moreover have range: "unat ?a \<le> unat ?b" "unat ?b \<le> length (dg_neighbors g)"
      "slice (unat ?a) (unat ?b) (dg_neighbors g) = graph_row nodes edges i"
      using built i by (simp_all add: graph_built_def)
    moreover have "?b - ?a = word_of_nat (length (graph_row nodes edges i))"
    proof -
      have "length (graph_row nodes edges i) = unat ?b - unat ?a" unfolding range(3) [symmetric] using range(1,2) by (simp add: slice_def)
      then show ?thesis using range(1) by (simp add: of_nat_diff)
    qed
    moreover have "\<not> ?b < ?a" using range(1) by (simp add: word_less_nat_alt)
    ultimately show ?thesis
      using built i small by (simp add: node_count_def graph_built_def neighbor_indices_def graph_degree_def)
  qed
  then show ?thesis using result by (auto simp: graph_built_def node_count_def)
qed

definition example_nodes :: "graph_node list" where
  "example_nodes = map (\<lambda>h. \<lparr>gn_handle = h, gn_generation = 1, gn_mixture = Some (MixtureHandle h 1)\<rparr>) [7, 3, 5]"

definition example_edges :: "directed_edge list" where
  "example_edges = [DirectedEdge 7 3, DirectedEdge 3 7, DirectedEdge 7 5, DirectedEdge 5 7]"

lemma example_index: "node_index example_nodes = [7 \<mapsto> 0, 3 \<mapsto> 1, 5 \<mapsto> 2]"
  by (simp add: node_index_def example_nodes_def upt_rec numeral_2_eq_2 [symmetric] fun_upd_twist)

lemma example_rows:
  "graph_row example_nodes example_edges 0 = [1, 2]" "graph_row example_nodes example_edges 1 = [0]"
  "graph_row example_nodes example_edges 2 = [0]"
  by (simp_all add: graph_row_def example_index) (simp_all add: example_edges_def example_nodes_def)

lemma example_wf: "graph_wf example_nodes example_edges"
proof -
  have "length (graph_row example_nodes example_edges i) \<le> unat max_cardinal_neighbors" if "i < length example_nodes" for i
  proof -
    have "i = 0 \<or> i = 1 \<or> i = 2" using that by (auto simp: example_nodes_def)
    then show ?thesis using example_rows by (auto simp: max_cardinal_neighbors_def)
  qed
  moreover have "nodes_ok example_nodes" by (simp add: nodes_ok_def example_nodes_def)
  ultimately show ?thesis by (simp add: graph_wf_def example_index) (simp add: example_edges_def)
qed

theorem validate_graph_packs_rows_witness:
  "\<exists>g. validate_graph example_nodes example_edges = Ok g \<and> neighbor_indices g 0 = (Ok [1, 2] :: (u32 list, unit) result)"
proof -
  note packs = validate_graph_packs_rows [of example_nodes example_edges]
  obtain g where "validate_graph example_nodes example_edges = Ok g" using packs example_wf by blast
  moreover have "0 < length example_nodes" by (simp add: example_nodes_def)
  ultimately show ?thesis using packs example_rows(1) by metis
qed

end
