(* ===== verification/Float32.thy ===== *)
theory Float32
  imports Dogmos_Prelude Complex_Main
begin

text \<open>
  Single-precision numbers as their bits, with the arithmetic of IEEE 754 in the default rounding mode: the exact
  result is rounded to the nearest number, ties to even. The payload of a NaN, which the language
  leaves open, is the canonical one here; \<open>max\<close> and \<open>min\<close> of two zeros, which it leaves open too, give the first.

  Code that only computes is written over a record of operations, so that it can be read with these
  numbers and with exact rational ones.
\<close>

section \<open>Classes and order\<close>

type_synonym f32 = "32 word"

definition f32_is_nan :: "f32 \<Rightarrow> bool" where
  "f32_is_nan x \<longleftrightarrow> x AND 0x7FFFFFFF > 0x7F800000"

definition f32_is_finite :: "f32 \<Rightarrow> bool" where
  "f32_is_finite x \<longleftrightarrow> x AND 0x7F800000 \<noteq> 0x7F800000"

text \<open>The bits of numbers that are not NaN as integers in the order of the numbers; both zeros are 0.\<close>

definition f32_key :: "f32 \<Rightarrow> int" where
  "f32_key x = (if x AND 0x80000000 = 0 then uint x else - uint (x AND 0x7FFFFFFF))"

definition f32_less :: "f32 \<Rightarrow> f32 \<Rightarrow> bool" where
  "f32_less x y \<longleftrightarrow> \<not> f32_is_nan x \<and> \<not> f32_is_nan y \<and> f32_key x < f32_key y"

definition f32_less_eq :: "f32 \<Rightarrow> f32 \<Rightarrow> bool" where
  "f32_less_eq x y \<longleftrightarrow> \<not> f32_is_nan x \<and> \<not> f32_is_nan y \<and> f32_key x \<le> f32_key y"

definition f32_eq :: "f32 \<Rightarrow> f32 \<Rightarrow> bool" where
  "f32_eq x y \<longleftrightarrow> \<not> f32_is_nan x \<and> \<not> f32_is_nan y \<and> f32_key x = f32_key y"

definition f32_max :: "f32 \<Rightarrow> f32 \<Rightarrow> f32" where
  "f32_max x y = (if f32_is_nan x then y else if f32_less x y then y else x)"

definition f32_min :: "f32 \<Rightarrow> f32 \<Rightarrow> f32" where
  "f32_min x y = (if f32_is_nan x then y else if f32_less y x then y else x)"

text \<open>\<open>f32::total_cmp\<close>: the order of the bits as signed integers, negative ones reversed.\<close>

definition f32_total_key :: "f32 \<Rightarrow> int" where
  "f32_total_key x = (if x AND 0x80000000 = 0 then uint x else - 1 - uint (x AND 0x7FFFFFFF))"

section \<open>Values and rounding\<close>

definition f32_negative :: "f32 \<Rightarrow> bool" where
  "f32_negative x \<longleftrightarrow> x AND 0x80000000 \<noteq> 0"

definition magnitude_value :: "int \<Rightarrow> rat" where
  "magnitude_value k =
     (if k < 2 ^ 23 then of_int k / 2 ^ 149
      else of_int (k mod 2 ^ 23 + 2 ^ 23) * 2 ^ nat (k div 2 ^ 23) / 2 ^ 150)"

definition f32_value :: "f32 \<Rightarrow> rat" where
  "f32_value x = (if f32_negative x then - 1 else 1) * magnitude_value (uint (x AND 0x7FFFFFFF))"

definition round_even :: "rat \<Rightarrow> int" where
  "round_even q = (let n = \<lfloor>q\<rfloor>; r = q - of_int n in if r < 1 / 2 \<or> r = 1 / 2 \<and> even n then n else n + 1)"

text \<open>The exponent field of the binade of a magnitude; 1 also below the smallest normal number.\<close>

definition magnitude_exponent :: "rat \<Rightarrow> nat" where
  "magnitude_exponent q = (case find (\<lambda>e. q < 2 ^ e / 2 ^ 126) [1..<255] of Some e \<Rightarrow> e | None \<Rightarrow> 255)"

definition round_magnitude :: "rat \<Rightarrow> int" where
  "round_magnitude q =
     (let e = magnitude_exponent q
      in if e = 255 then 0x7F800000 else int (e - 1) * 2 ^ 23 + round_even (q * 2 ^ 150 / 2 ^ e))"

definition f32_round :: "bool \<Rightarrow> rat \<Rightarrow> f32" where
  "f32_round negative_zero q =
     word_of_int (round_magnitude \<bar>q\<bar>) OR (if q < 0 \<or> q = 0 \<and> negative_zero then 0x80000000 else 0)"

section \<open>Arithmetic\<close>

definition f32_nan :: f32 where "f32_nan = 0x7FC00000"

definition f32_infinity :: "bool \<Rightarrow> f32" where
  "f32_infinity negative = (if negative then 0xFF800000 else 0x7F800000)"

definition f32_is_zero :: "f32 \<Rightarrow> bool" where
  "f32_is_zero x \<longleftrightarrow> x AND 0x7FFFFFFF = 0"

definition f32_neg :: "f32 \<Rightarrow> f32" where
  "f32_neg x = x XOR 0x80000000"

definition f32_abs :: "f32 \<Rightarrow> f32" where
  "f32_abs x = x AND 0x7FFFFFFF"

definition f32_add :: "f32 \<Rightarrow> f32 \<Rightarrow> f32" where
  "f32_add x y =
     (if f32_is_nan x \<or> f32_is_nan y then f32_nan
      else if \<not> f32_is_finite x then if \<not> f32_is_finite y \<and> f32_negative x \<noteq> f32_negative y then f32_nan else x
      else if \<not> f32_is_finite y then y
      else f32_round (f32_negative x \<and> f32_negative y) (f32_value x + f32_value y))"

definition f32_sub :: "f32 \<Rightarrow> f32 \<Rightarrow> f32" where
  "f32_sub x y = f32_add x (f32_neg y)"

definition f32_mul :: "f32 \<Rightarrow> f32 \<Rightarrow> f32" where
  "f32_mul x y =
     (if f32_is_nan x \<or> f32_is_nan y then f32_nan
      else if \<not> f32_is_finite x \<or> \<not> f32_is_finite y
      then if f32_is_zero x \<or> f32_is_zero y then f32_nan else f32_infinity (f32_negative x \<noteq> f32_negative y)
      else f32_round (f32_negative x \<noteq> f32_negative y) (f32_value x * f32_value y))"

definition f32_div :: "f32 \<Rightarrow> f32 \<Rightarrow> f32" where
  "f32_div x y =
     (if f32_is_nan x \<or> f32_is_nan y then f32_nan
      else let negative = (f32_negative x \<noteq> f32_negative y) in
        if \<not> f32_is_finite x then if \<not> f32_is_finite y then f32_nan else f32_infinity negative
        else if \<not> f32_is_finite y then f32_round negative 0
        else if f32_is_zero y then if f32_is_zero x then f32_nan else f32_infinity negative
        else f32_round negative (f32_value x / f32_value y))"

text \<open>\<open>x.mul_add(y, z)\<close>: the product is not rounded before the sum.\<close>

definition f32_mul_add :: "f32 \<Rightarrow> f32 \<Rightarrow> f32 \<Rightarrow> f32" where
  "f32_mul_add x y z =
     (if f32_is_nan x \<or> f32_is_nan y \<or> f32_is_nan z then f32_nan
      else let negative = (f32_negative x \<noteq> f32_negative y) in
        if \<not> f32_is_finite x \<or> \<not> f32_is_finite y
        then if f32_is_zero x \<or> f32_is_zero y \<or> \<not> f32_is_finite z \<and> f32_negative z \<noteq> negative then f32_nan
          else f32_infinity negative
        else if \<not> f32_is_finite z then z
        else f32_round (negative \<and> f32_negative z) (f32_value x * f32_value y + f32_value z))"

text \<open>\<open>f32::round\<close>: to the nearest integer, ties away from zero.\<close>

definition f32_to_integer :: "f32 \<Rightarrow> f32" where
  "f32_to_integer x =
     (if \<not> f32_is_finite x then x
      else f32_round (f32_negative x) (sgn (f32_value x) * of_int \<lfloor>\<bar>f32_value x\<bar> + 1 / 2\<rfloor>))"

section \<open>Operations as a parameter\<close>

record 'f float_ops =
  fo_const :: "f32 \<Rightarrow> 'f"
  fo_add :: "'f \<Rightarrow> 'f \<Rightarrow> 'f"
  fo_sub :: "'f \<Rightarrow> 'f \<Rightarrow> 'f"
  fo_mul :: "'f \<Rightarrow> 'f \<Rightarrow> 'f"
  fo_div :: "'f \<Rightarrow> 'f \<Rightarrow> 'f"
  fo_mul_add :: "'f \<Rightarrow> 'f \<Rightarrow> 'f \<Rightarrow> 'f"
  fo_max :: "'f \<Rightarrow> 'f \<Rightarrow> 'f"
  fo_min :: "'f \<Rightarrow> 'f \<Rightarrow> 'f"
  fo_round :: "'f \<Rightarrow> 'f"
  fo_abs :: "'f \<Rightarrow> 'f"
  fo_less :: "'f \<Rightarrow> 'f \<Rightarrow> bool"
  fo_less_eq :: "'f \<Rightarrow> 'f \<Rightarrow> bool"
  fo_eq :: "'f \<Rightarrow> 'f \<Rightarrow> bool"
  fo_is_finite :: "'f \<Rightarrow> bool"

definition single :: "f32 float_ops" where
  "single = \<lparr>fo_const = (\<lambda>x. x), fo_add = f32_add, fo_sub = f32_sub, fo_mul = f32_mul, fo_div = f32_div,
     fo_mul_add = f32_mul_add, fo_max = f32_max, fo_min = f32_min, fo_round = f32_to_integer, fo_abs = f32_abs,
     fo_less = f32_less, fo_less_eq = f32_less_eq, fo_eq = f32_eq, fo_is_finite = f32_is_finite\<rparr>"

definition exact_numbers :: "rat float_ops" where
  "exact_numbers = \<lparr>fo_const = f32_value, fo_add = (+), fo_sub = (-), fo_mul = (*), fo_div = (/),
     fo_mul_add = (\<lambda>x y z. x * y + z), fo_max = max, fo_min = min,
     fo_round = (\<lambda>x. sgn x * of_int \<lfloor>\<bar>x\<bar> + 1 / 2\<rfloor>), fo_abs = abs, fo_less = (<), fo_less_eq = (\<le>),
     fo_eq = (=), fo_is_finite = (\<lambda>_. True)\<rparr>"

section \<open>Rounding\<close>

lemma round_even_of_int [simp]: "round_even (of_int k) = k"
  by (simp add: round_even_def)

lemma round_even_zero [simp]: "round_even 0 = 0"
  using round_even_of_int [of 0] by simp

lemma round_even_bounds: "\<lfloor>q\<rfloor> \<le> round_even q" "round_even q \<le> \<lfloor>q\<rfloor> + 1"
  by (simp_all add: round_even_def Let_def)

lemma round_even_mono: "q \<le> q' \<Longrightarrow> round_even q \<le> round_even q'"
proof -
  assume le: "q \<le> q'"
  show ?thesis
  proof (cases "\<lfloor>q\<rfloor> = \<lfloor>q'\<rfloor>")
    case True
    then show ?thesis using le by (auto simp: round_even_def Let_def)
  next
    case False
    then have "\<lfloor>q\<rfloor> + 1 \<le> \<lfloor>q'\<rfloor>" using floor_mono [OF le] by simp
    then show ?thesis using round_even_bounds [of q] round_even_bounds [of q'] by linarith
  qed
qed

lemma magnitude_exponent_cases:
  obtains "magnitude_exponent q = 255" and "2 ^ 254 / 2 ^ 126 \<le> q"
  | "1 \<le> magnitude_exponent q" and "magnitude_exponent q < 255" and "q < 2 ^ magnitude_exponent q / 2 ^ 126"
    and "magnitude_exponent q = 1 \<or> 2 ^ (magnitude_exponent q - 1) / 2 ^ 126 \<le> q"
proof (cases "find (\<lambda>e. q < 2 ^ e / 2 ^ 126) [1..<255]")
  case None
  then have "\<not> (254 \<in> set [1..<255] \<and> q < 2 ^ 254 / 2 ^ 126)" unfolding find_None_iff by blast
  then have "\<not> q < 2 ^ 254 / 2 ^ 126" by simp
  then show thesis using None that(1) by (simp add: magnitude_exponent_def)
next
  case (Some e)
  then obtain i where i: "i < 254" "e = i + 1" "q < 2 ^ e / 2 ^ 126" "\<forall>j < i. \<not> q < 2 ^ (j + 1) / 2 ^ 126"
  proof -
    obtain i where "i < length [1..<255]" "q < 2 ^ ([1..<255] ! i) / 2 ^ 126" "e = [1..<255] ! i"
      "\<forall>j < i. \<not> q < 2 ^ ([1..<255] ! j) / 2 ^ 126"
      using Some unfolding find_Some_iff by blast
    then show thesis using that [of i] by (simp add: nth_upt)
  qed
  have "e = 1 \<or> 2 ^ (e - 1) / 2 ^ 126 \<le> q"
    using i(2) i(4) [rule_format, of "i - 1"] by (cases i) simp_all
  then show thesis using that(2) Some i(1-3) by (simp add: magnitude_exponent_def)
qed

lemma round_magnitude_eq:
  assumes "1 \<le> e" and "e < 255" and "q < 2 ^ e / 2 ^ 126" and "e = 1 \<or> 2 ^ (e - 1) / 2 ^ 126 \<le> q"
  shows "round_magnitude q = int (e - 1) * 2 ^ 23 + round_even (q * 2 ^ 150 / 2 ^ e)"
proof -
  have "magnitude_exponent q = e"
  proof (cases q rule: magnitude_exponent_cases)
    case 1
    have "(2 :: rat) ^ e / 2 ^ 126 \<le> 2 ^ 254 / 2 ^ 126" using assms(2) by (intro divide_right_mono power_increasing) simp_all
    then show ?thesis using assms(3) 1 by linarith
  next
    case 2
    let ?e = "magnitude_exponent q"
    have less: "a \<le> b" if "q < 2 ^ b / 2 ^ 126" "a = 1 \<or> (2 :: rat) ^ (a - 1) / 2 ^ 126 \<le> q" "1 \<le> b" for a b
    proof (cases "a = 1")
      case False
      then have "(2 :: rat) ^ (a - 1) / 2 ^ 126 < 2 ^ b / 2 ^ 126" using that by linarith
      then have "(2 :: rat) ^ (a - 1) < 2 ^ b" by (simp add: divide_less_cancel)
      then show ?thesis by simp
    qed (use that in simp)
    show ?thesis using less [OF 2(3) assms(4) 2(1)] less [OF assms(3) 2(4) assms(1)] by simp
  qed
  then show ?thesis using assms(2) by (simp add: round_magnitude_def)
qed

lemma magnitude_cases:
  fixes k :: int
  assumes "0 \<le> k" and "k < 0x7F800000"
  obtains "k < 2 ^ 23" | e where "1 \<le> e" and "e < 255" and "k = int e * 2 ^ 23 + k mod 2 ^ 23"
    and "nat (k div 2 ^ 23) = e" and "2 ^ 23 \<le> k"
proof (cases "k < 2 ^ 23")
  case False
  let ?e = "nat (k div 2 ^ 23)"
  have "1 \<le> ?e" "?e < 255" "int ?e = k div 2 ^ 23" using assms False by auto
  then show thesis using that(2) [of ?e] False div_mult_mod_eq [of k "2 ^ 23"] by auto
qed (use that in simp)

lemma round_magnitude_value:
  assumes "0 \<le> k" and "k < 0x7F800000"
  shows "round_magnitude (magnitude_value k) = k"
  using assms
proof (cases rule: magnitude_cases)
  case 1
  have "rat_of_int k < 2 ^ 23" using 1 by (metis of_int_less_iff of_int_numeral of_int_power)
  then have "round_magnitude (magnitude_value k) = round_even (magnitude_value k * 2 ^ 150 / 2 ^ 1)"
    using round_magnitude_eq [of 1 "magnitude_value k"] 1 by (simp add: magnitude_value_def field_simps)
  also have "magnitude_value k * 2 ^ 150 / 2 ^ 1 = of_int k" using 1 by (simp add: magnitude_value_def)
  finally show ?thesis by simp
next
  case (2 e)
  let ?m = "k mod 2 ^ 23"
  have m: "0 \<le> ?m" "?m < 2 ^ 23" by simp_all
  then have m': "0 \<le> rat_of_int ?m" "rat_of_int ?m < 2 ^ 23" by (simp, metis of_int_less_iff of_int_numeral of_int_power)
  have v: "magnitude_value k = of_int (?m + 2 ^ 23) * 2 ^ e / 2 ^ 150" using 2 by (simp add: magnitude_value_def)
  have "magnitude_value k < 2 ^ 24 * 2 ^ e / 2 ^ 150"
    unfolding v using m'(2) by (intro divide_strict_right_mono mult_strict_right_mono) simp_all
  then have upper: "magnitude_value k < 2 ^ e / 2 ^ 126" by simp
  have "2 ^ 23 * 2 ^ e / 2 ^ 150 \<le> magnitude_value k"
    unfolding v using m'(1) by (intro divide_right_mono mult_right_mono) simp_all
  moreover have "(2 :: rat) ^ e = 2 * 2 ^ (e - 1)" using 2(1) by (simp add: power_eq_if)
  ultimately have lower: "2 ^ (e - 1) / 2 ^ 126 \<le> magnitude_value k" by simp
  have "magnitude_value k * 2 ^ 150 / 2 ^ e = of_int (?m + 2 ^ 23)" by (simp add: v)
  then have "round_magnitude (magnitude_value k) = int (e - 1) * 2 ^ 23 + (?m + 2 ^ 23)"
    using round_magnitude_eq [OF 2(1,2) upper] lower round_even_of_int [of "?m + 2 ^ 23"] by simp
  also have "int (e - 1) * 2 ^ 23 + (?m + 2 ^ 23) = int e * 2 ^ 23 + ?m" using 2(1) by (simp add: of_nat_diff algebra_simps)
  finally show ?thesis using 2(3) by simp
qed

lemma round_magnitude_bounds:
  assumes "0 \<le> q"
  shows "0 \<le> round_magnitude q" and "round_magnitude q \<le> 0x7F800000"
proof -
  have "0 \<le> round_magnitude q \<and> round_magnitude q \<le> 0x7F800000"
  proof (cases q rule: magnitude_exponent_cases)
    case 2
    let ?e = "magnitude_exponent q"
    have "q * 2 ^ 150 / 2 ^ ?e \<le> of_int (2 ^ 24)" using 2(3) by (simp add: field_simps)
    then have "round_even (q * 2 ^ 150 / 2 ^ ?e) \<le> 2 ^ 24" using round_even_mono round_even_of_int by metis
    moreover have "0 \<le> round_even (q * 2 ^ 150 / 2 ^ ?e)"
      using round_even_mono [of "of_int 0" "q * 2 ^ 150 / 2 ^ ?e"] assms by simp
    moreover have "int (?e - 1) + 2 \<le> 255" using 2(1,2) by simp
    ultimately show ?thesis using 2 by (simp add: round_magnitude_def Let_def)
  qed (simp add: round_magnitude_def)
  then show "0 \<le> round_magnitude q" and "round_magnitude q \<le> 0x7F800000" by simp_all
qed

lemma round_magnitude_mono:
  assumes "0 \<le> q" and "q \<le> q'"
  shows "round_magnitude q \<le> round_magnitude q'"
proof (cases q' rule: magnitude_exponent_cases)
  case 1
  then show ?thesis using round_magnitude_bounds(2) [OF assms(1)] by (simp add: round_magnitude_def)
next
  case 2
  let ?e' = "magnitude_exponent q'" and ?e = "magnitude_exponent q"
  have r': "round_magnitude q' = int (?e' - 1) * 2 ^ 23 + round_even (q' * 2 ^ 150 / 2 ^ ?e')"
    using 2 by (simp add: round_magnitude_def Let_def)
  show ?thesis
  proof (cases q rule: magnitude_exponent_cases)
    case one: 1
    have "(2 :: rat) ^ ?e' / 2 ^ 126 \<le> 2 ^ 254 / 2 ^ 126" using 2(2) by (intro divide_right_mono power_increasing) simp_all
    then show ?thesis using one(2) 2(3) assms(2) by linarith
  next
    case two: 2
    have r: "round_magnitude q = int (?e - 1) * 2 ^ 23 + round_even (q * 2 ^ 150 / 2 ^ ?e)"
      using two by (simp add: round_magnitude_def Let_def)
    consider "?e = ?e'" | "?e < ?e'" | "?e' < ?e" by linarith
    then show ?thesis
    proof cases
      case 1
      then have "q * 2 ^ 150 / 2 ^ ?e \<le> q' * 2 ^ 150 / 2 ^ ?e'"
        using assms(2) by (simp add: divide_right_mono)
      then show ?thesis unfolding r r' using 1 round_even_mono by simp
    next
      case less: 2
      have "q * 2 ^ 150 / 2 ^ ?e \<le> of_int (2 ^ 24)" using two(3) by (simp add: field_simps)
      then have upper: "round_even (q * 2 ^ 150 / 2 ^ ?e) \<le> 2 ^ 24" using round_even_mono round_even_of_int by metis
      have "2 ^ (?e' - 1) / 2 ^ 126 \<le> q'" using 2(4) less two(1) by linarith
      moreover have "(2 :: rat) ^ ?e' = 2 * 2 ^ (?e' - 1)" using 2(1) by (simp add: power_eq_if)
      ultimately have "of_int (2 ^ 23) \<le> q' * 2 ^ 150 / 2 ^ ?e'" by (simp add: field_simps)
      then have lower: "2 ^ 23 \<le> round_even (q' * 2 ^ 150 / 2 ^ ?e')" using round_even_mono round_even_of_int by metis
      have "int (?e - 1) + 2 \<le> int (?e' - 1) + 1" using less two(1) by simp
      then show ?thesis unfolding r r' using upper lower by simp
    next
      case 3
      then have "(2 :: rat) ^ ?e' / 2 ^ 126 \<le> 2 ^ (?e - 1) / 2 ^ 126" by (intro divide_right_mono power_increasing) simp_all
      then show ?thesis using two(4) 2(1,3) 3 assms(2) by linarith
    qed
  qed
qed

section \<open>Bits\<close>

definition f32_magnitude :: "f32 \<Rightarrow> int" where
  "f32_magnitude x = uint (x AND 0x7FFFFFFF)"

lemma f32_magnitude_bounds: "0 \<le> f32_magnitude x" "f32_magnitude x < 2 ^ 31"
proof -
  have "x AND 0x7FFFFFFF \<le> 0x7FFFFFFF" by (rule word_and_le1)
  then have "uint (x AND 0x7FFFFFFF) \<le> 0x7FFFFFFF" by (simp add: word_le_def)
  then show "0 \<le> f32_magnitude x" "f32_magnitude x < 2 ^ 31" by (simp_all add: f32_magnitude_def)
qed

lemma sign_bit [simp]: "bit (0x80000000 :: f32) n \<longleftrightarrow> n = 31"
proof -
  have top: "(0x80000000 :: f32) = push_bit 31 1" by simp
  show ?thesis unfolding top bit_push_bit_iff by (cases "n = 31") (auto simp: bit_1_iff)
qed

lemma magnitude_bits [simp]: "bit (0x7FFFFFFF :: f32) n \<longleftrightarrow> n < 31"
proof -
  have low: "(0x7FFFFFFF :: f32) = mask 31" by (simp add: mask_eq_exp_minus_1)
  show ?thesis unfolding low bit_mask_iff by auto
qed

lemma f32_negative_bit: "f32_negative x \<longleftrightarrow> bit x 31"
proof -
  have "bit (x AND 0x80000000) n \<longleftrightarrow> n = 31 \<and> bit x 31" for n by (auto simp: bit_and_iff simp del: bit_numeral_word_iff)
  then show ?thesis unfolding f32_negative_def by (metis bit_0_eq bit_eq_iff bot_apply bot_bool_def zero_and_eq)
qed

lemma f32_bits: "x = word_of_int (f32_magnitude x) OR (if f32_negative x then 0x80000000 else 0)"
proof (rule bit_word_eqI)
  fix n
  assume "n < LENGTH(32)"
  then have "n < 31 \<or> n = 31" by auto
  then show "bit x n \<longleftrightarrow> bit (word_of_int (f32_magnitude x) OR (if f32_negative x then 0x80000000 else 0) :: f32) n"
    by (auto simp: f32_magnitude_def f32_negative_bit bit_or_iff bit_and_iff simp del: bit_numeral_word_iff)
qed

lemma f32_round_parts:
  "f32_magnitude (f32_round b q) = round_magnitude \<bar>q\<bar>" "f32_negative (f32_round b q) \<longleftrightarrow> q < 0 \<or> q = 0 \<and> b"
proof -
  let ?k = "round_magnitude \<bar>q\<bar>"
  have k: "0 \<le> ?k" "?k < 2 ^ 31" using round_magnitude_bounds [of "\<bar>q\<bar>"] by simp_all
  have "take_bit 31 ?k = ?k" using k by (simp add: take_bit_int_eq_self)
  then have high: "bit ?k n \<Longrightarrow> n < 31" for n by (metis bit_take_bit_iff)
  then have "f32_round b q AND 0x7FFFFFFF = word_of_int ?k"
    by (intro bit_word_eqI) (auto simp: f32_round_def bit_or_iff bit_and_iff bit_word_of_int_iff dest: high simp del: bit_numeral_word_iff)
  then show "f32_magnitude (f32_round b q) = ?k" using k by (simp add: f32_magnitude_def uint_word_of_int)
  show "f32_negative (f32_round b q) \<longleftrightarrow> q < 0 \<or> q = 0 \<and> b"
    using high [of 31] by (auto simp: f32_negative_bit f32_round_def bit_or_iff bit_word_of_int_iff simp del: bit_numeral_word_iff)
qed

lemma f32_parts_eqI: "f32_magnitude x = f32_magnitude y \<Longrightarrow> f32_negative x = f32_negative y \<Longrightarrow> x = y"
  using f32_bits [of x] f32_bits [of y] by simp

lemma f32_is_finite_magnitude: "f32_is_finite x \<longleftrightarrow> f32_magnitude x div 2 ^ 23 \<noteq> 255"
proof -
  have "(0x7F800000 :: f32) = push_bit 23 (mask 8)" by (simp add: mask_eq_exp_minus_1)
  then have field: "bit (0x7F800000 :: f32) n \<longleftrightarrow> 23 \<le> n \<and> n < 31" for n
    by (simp only: bit_push_bit_iff bit_mask_iff) auto
  have "(255 :: f32) = mask 8" by (simp add: mask_eq_exp_minus_1)
  then have ones: "bit (255 :: f32) n \<longleftrightarrow> n < 8" for n by (simp only: bit_mask_iff) auto
  have "n < 31 \<Longrightarrow> possible_bit TYPE(32 word) n" for n by simp
  then have "x AND 0x7F800000 = 0x7F800000 \<longleftrightarrow> (\<forall>n. 23 \<le> n \<and> n < 31 \<longrightarrow> bit x n)"
    unfolding bit_eq_iff bit_and_iff field by blast
  moreover have "drop_bit 23 (x AND 0x7FFFFFFF) = 255 \<longleftrightarrow> (\<forall>n. 23 \<le> n \<and> n < 31 \<longrightarrow> bit x n)"
  proof -
    have "n < 8 \<Longrightarrow> possible_bit TYPE(32 word) n" for n by simp
    then have "drop_bit 23 (x AND 0x7FFFFFFF) = 255 \<longleftrightarrow> (\<forall>n. n < 8 \<longrightarrow> bit x (23 + n))"
      unfolding bit_eq_iff bit_drop_bit_eq comp_def bit_and_iff ones magnitude_bits by fastforce
    also have "\<dots> \<longleftrightarrow> (\<forall>n. 23 \<le> n \<and> n < 31 \<longrightarrow> bit x n)"
      by (auto simp: le_iff_add)
    finally show ?thesis .
  qed
  moreover have "drop_bit 23 (x AND 0x7FFFFFFF) = 255 \<longleftrightarrow> f32_magnitude x div 2 ^ 23 = 255"
    by (simp add: f32_magnitude_def word_uint_eq_iff uint_div_distrib drop_bit_eq_div)
  ultimately show ?thesis by (simp add: f32_is_finite_def)
qed

lemma f32_value_magnitude: "f32_value x = (if f32_negative x then - 1 else 1) * magnitude_value (f32_magnitude x)"
  by (simp add: f32_value_def f32_magnitude_def)

lemma f32_key_magnitude: "f32_key x = (if f32_negative x then - f32_magnitude x else f32_magnitude x)"
proof -
  have "x AND 0x7FFFFFFF = x" if "\<not> f32_negative x"
    using f32_bits [of x] that by (simp add: f32_magnitude_def)
  then show ?thesis by (auto simp: f32_key_def f32_magnitude_def f32_negative_def)
qed

lemma f32_is_finite_iff: "f32_is_finite x \<longleftrightarrow> f32_magnitude x < 0x7F800000"
  using f32_magnitude_bounds [of x] by (auto simp: f32_is_finite_magnitude)

lemma f32_is_nan_iff: "f32_is_nan x \<longleftrightarrow> 0x7F800000 < f32_magnitude x"
  by (simp add: f32_is_nan_def f32_magnitude_def word_less_def)

lemma f32_finite_not_nan: "f32_is_finite x \<Longrightarrow> \<not> f32_is_nan x"
  by (simp add: f32_is_finite_iff f32_is_nan_iff)

lemma magnitude_value_nonneg: "0 \<le> k \<Longrightarrow> 0 \<le> magnitude_value k"
  by (simp add: magnitude_value_def)

lemma magnitude_value_less:
  assumes "0 \<le> k" and "k < l" and "l < 0x7F800000"
  shows "magnitude_value k < magnitude_value l"
proof (rule ccontr)
  assume "\<not> magnitude_value k < magnitude_value l"
  then have "round_magnitude (magnitude_value l) \<le> round_magnitude (magnitude_value k)"
    using assms by (intro round_magnitude_mono magnitude_value_nonneg) simp_all
  then show False using assms round_magnitude_value by simp
qed

lemma magnitude_value_less_iff:
  "0 \<le> k \<Longrightarrow> 0 \<le> l \<Longrightarrow> k < 0x7F800000 \<Longrightarrow> l < 0x7F800000 \<Longrightarrow> magnitude_value k < magnitude_value l \<longleftrightarrow> k < l"
  using magnitude_value_less [of k l] magnitude_value_less [of l k] by (cases k l rule: linorder_cases) auto

lemma f32_value_key:
  assumes "f32_is_finite x" and "f32_is_finite y"
  shows "f32_value x < f32_value y \<longleftrightarrow> f32_key x < f32_key y"
proof -
  let ?v = "\<lambda>x. magnitude_value (f32_magnitude x)"
  have zero: "?v x = 0 \<longleftrightarrow> f32_magnitude x = 0" if "f32_is_finite x" for x
    using magnitude_value_less_iff [of 0 "f32_magnitude x"] f32_magnitude_bounds [of x] that magnitude_value_nonneg [of "f32_magnitude x"]
    by (auto simp: f32_is_finite_iff magnitude_value_def [of 0])
  note less = magnitude_value_less_iff [of "f32_magnitude x" "f32_magnitude y"]
    magnitude_value_less_iff [of "f32_magnitude y" "f32_magnitude x"]
  have nonneg: "0 \<le> ?v x" "0 \<le> ?v y" using f32_magnitude_bounds by (simp_all add: magnitude_value_nonneg)
  show ?thesis
    using less assms f32_magnitude_bounds [of x] f32_magnitude_bounds [of y] zero [OF assms(1)] zero [OF assms(2)] nonneg
    by (auto simp: f32_value_magnitude f32_key_magnitude f32_is_finite_iff)
qed

lemma f32_round_value:
  assumes "f32_is_finite x"
  shows "f32_round (f32_negative x) (f32_value x) = x"
proof (rule f32_parts_eqI)
  let ?k = "f32_magnitude x"
  have k: "0 \<le> ?k" "?k < 0x7F800000" using assms f32_magnitude_bounds by (simp_all add: f32_is_finite_iff)
  have nonneg: "0 \<le> magnitude_value ?k" using k by (simp add: magnitude_value_nonneg)
  then have "\<bar>f32_value x\<bar> = magnitude_value ?k" by (simp add: f32_value_magnitude)
  then show "f32_magnitude (f32_round (f32_negative x) (f32_value x)) = ?k"
    using k by (simp add: f32_round_parts round_magnitude_value)
  show "f32_negative (f32_round (f32_negative x) (f32_value x)) = f32_negative x"
    using nonneg by (auto simp: f32_round_parts f32_value_magnitude)
qed

lemma f32_round_mono:
  assumes "q \<le> q'"
  shows "f32_key (f32_round b q) \<le> f32_key (f32_round b' q')"
proof -
  have r0: "round_magnitude 0 = 0"
    using round_magnitude_value [of 0] by (simp add: magnitude_value_def)
  note bounds = round_magnitude_bounds(1) [of "\<bar>q\<bar>"] round_magnitude_bounds(1) [of "\<bar>q'\<bar>"]
  consider "0 \<le> q" | "q < 0" "q' < 0" | "q < 0" "0 \<le> q'" by linarith
  then show ?thesis
  proof cases
    case 1
    then have "round_magnitude \<bar>q\<bar> \<le> round_magnitude \<bar>q'\<bar>" using assms by (intro round_magnitude_mono) simp_all
    then show ?thesis using 1 assms r0 by (auto simp: f32_key_magnitude f32_round_parts)
  next
    case 2
    then have "round_magnitude \<bar>q'\<bar> \<le> round_magnitude \<bar>q\<bar>" using assms by (intro round_magnitude_mono) simp_all
    then show ?thesis using 2 by (simp add: f32_key_magnitude f32_round_parts)
  next
    case 3
    then show ?thesis using bounds r0 by (auto simp: f32_key_magnitude f32_round_parts)
  qed
qed

end
