(* ===== verification/Gas_Metadata.thy ===== *)
theory Gas_Metadata
  imports Float32 "HOL-Library.Multiset"
begin

text \<open>
  The registry of gases (\<^verbatim>\<open>GasMetadataRegistry\<close> of \<^verbatim>\<open>crates/dogmos-core/src/metadata.rs\<close>): the gases the game
  defines are sorted by number, checked one by one and stored so that a gas is found by its number and by its key.
\<close>

section \<open>Data\<close>

definition world_gas_slots :: nat where "world_gas_slots = 32"

datatype gas_id = GasId (gas_number: u16)

instantiation gas_id :: linorder
begin

definition less_eq_gas_id :: "gas_id \<Rightarrow> gas_id \<Rightarrow> bool" where
  "less_eq_gas_id a b \<longleftrightarrow> gas_number a \<le> gas_number b"

definition less_gas_id :: "gas_id \<Rightarrow> gas_id \<Rightarrow> bool" where
  "less_gas_id a b \<longleftrightarrow> gas_number a < gas_number b"

instance
  by standard (auto simp: less_eq_gas_id_def less_gas_id_def gas_id.expand)

end

datatype gas_fire_role = Oxidizer f32 f32 | Fuel f32 f32 | NoFireRole

record gas_product =
  gp_gas :: gas_id
  gp_ratio :: f32

datatype fire_product_rule = GenericProducts "gas_product list" | PlasmaProducts

record gas_metadata =
  gm_id :: gas_id
  gm_key :: string
  gm_name :: string
  gm_flags :: u32
  gm_specific_heat :: f32
  gm_fusion_power :: f32
  gm_moles_visible :: "f32 option"
  gm_enthalpy :: f32
  gm_fire_radiation_released :: f32
  gm_fire_role :: gas_fire_role
  gm_fire_products :: "fire_product_rule option"

datatype gas_metadata_error =
    TooManyGases u32 u32
  | DuplicateGasId gas_id
  | NonDenseGasId gas_id gas_id
  | EmptyGasKey gas_id
  | DuplicateGasKey string
  | InvalidSpecificHeat gas_id
  | InvalidFusionPower gas_id
  | InvalidMolesVisible gas_id
  | InvalidEnthalpy gas_id
  | InvalidFireRadiation gas_id
  | InvalidFireRole gas_id
  | UnknownFireProduct gas_id gas_id
  | InvalidFireProductRatio gas_id gas_id
  | DuplicateFireProduct gas_id gas_id

record gas_registry =
  gr_gases :: "gas_metadata list"
  gr_ids_by_key :: "string \<rightharpoonup> gas_id"
  gr_specific_heats :: "f32 list"

section \<open>One gas\<close>

definition f32_nonnegative :: "f32 \<Rightarrow> bool" where
  "f32_nonnegative x \<longleftrightarrow> f32_is_finite x \<and> \<not> f32_less x 0"

primrec valid_fire_role :: "gas_fire_role \<Rightarrow> bool" where
  "valid_fire_role (Oxidizer minimum_temperature strength) \<longleftrightarrow>
     f32_is_finite minimum_temperature \<and> f32_less_eq 0 minimum_temperature \<and>
     f32_is_finite strength \<and> f32_less_eq 0 strength"
| "valid_fire_role (Fuel minimum_temperature burn_rate) \<longleftrightarrow>
     f32_is_finite minimum_temperature \<and> f32_less_eq 0 minimum_temperature \<and>
     f32_is_finite burn_rate \<and> f32_less 0 burn_rate"
| "valid_fire_role NoFireRole \<longleftrightarrow> True"

text \<open>One round of the loop over the products of a gas: \<open>seen\<close> has one flag per gas slot.\<close>

definition check_product ::
  "gas_id \<Rightarrow> u32 \<Rightarrow> gas_product \<Rightarrow> bool list \<Rightarrow> (bool list, gas_metadata_error) result" where
  "check_product gas gas_count product seen =
     (if ucast (gas_number (gp_gas product)) \<ge> gas_count then Err (UnknownFireProduct gas (gp_gas product))
      else if \<not> f32_is_finite (gp_ratio product) \<or> f32_less (gp_ratio product) 0
      then Err (InvalidFireProductRatio gas (gp_gas product))
      else let product_index = unat (gas_number (gp_gas product)) in
        (case vec_get seen product_index of
           None \<Rightarrow> Panic
         | Some True \<Rightarrow> Err (DuplicateFireProduct gas (gp_gas product))
         | Some False \<Rightarrow> Ok (seen[product_index := True])))"

definition validate_gas :: "gas_metadata \<Rightarrow> u32 \<Rightarrow> (unit, gas_metadata_error) result" where
  "validate_gas gas gas_count =
     (if \<not> f32_is_finite (gm_specific_heat gas) \<or> f32_less_eq (gm_specific_heat gas) 0
      then Err (InvalidSpecificHeat (gm_id gas))
      else if \<not> f32_is_finite (gm_fusion_power gas) then Err (InvalidFusionPower (gm_id gas))
      else if (case gm_moles_visible gas of Some v \<Rightarrow> \<not> f32_is_finite v \<or> f32_less v 0 | None \<Rightarrow> False)
      then Err (InvalidMolesVisible (gm_id gas))
      else if \<not> f32_is_finite (gm_enthalpy gas) then Err (InvalidEnthalpy (gm_id gas))
      else if \<not> f32_is_finite (gm_fire_radiation_released gas) \<or> f32_less (gm_fire_radiation_released gas) 0
      then Err (InvalidFireRadiation (gm_id gas))
      else if \<not> valid_fire_role (gm_fire_role gas) then Err (InvalidFireRole (gm_id gas))
      else (case gm_fire_products gas of
          Some (GenericProducts products) \<Rightarrow>
            rbind (rfold (check_product (gm_id gas) gas_count) products (replicate world_gas_slots False)) (\<lambda>_. Ok ())
        | _ \<Rightarrow> Ok ()))"

section \<open>The registry\<close>

text \<open>\<open>windows(2).find_map\<close>: the first element equal to its successor.\<close>

fun adjacent_duplicate :: "'a list \<Rightarrow> 'a option" where
  "adjacent_duplicate (x # y # xs) = (if x = y then Some x else adjacent_duplicate (y # xs))"
| "adjacent_duplicate _ = None"

definition register_gas ::
  "u32 \<Rightarrow> nat \<times> gas_metadata \<Rightarrow> (string \<rightharpoonup> gas_id) \<Rightarrow> (string \<rightharpoonup> gas_id, gas_metadata_error) result" where
  "register_gas gas_count = (\<lambda>(expected, gas) ids_by_key.
     if gm_id gas \<noteq> GasId (word_of_nat expected)
     then Err (NonDenseGasId (GasId (word_of_nat expected)) (gm_id gas))
     else if gm_key gas = [] then Err (EmptyGasKey (gm_id gas))
     else if ids_by_key (gm_key gas) \<noteq> None then Err (DuplicateGasKey (gm_key gas))
     else rbind (validate_gas gas gas_count) (\<lambda>_. Ok (ids_by_key(gm_key gas \<mapsto> gm_id gas))))"

definition gas_registry_try_new :: "gas_metadata list \<Rightarrow> (gas_registry, gas_metadata_error) result" where
  "gas_registry_try_new gases =
     (let gas_count = (case u32_try_from (length gases) of Some n \<Rightarrow> n | None \<Rightarrow> word_of_nat u32_max);
          maximum = word_of_nat world_gas_slots
      in if gas_count > maximum then Err (TooManyGases gas_count maximum)
         else let gases = sort_key gm_id gases in
           (case adjacent_duplicate (map gm_id gases) of
              Some duplicate \<Rightarrow> Err (DuplicateGasId duplicate)
            | None \<Rightarrow>
                rbind (rfold (register_gas gas_count) (enumerate 0 gases) Map.empty) (\<lambda>ids_by_key.
                Ok \<lparr>gr_gases = gases, gr_ids_by_key = ids_by_key, gr_specific_heats = map gm_specific_heat gases\<rparr>)))"

definition gas_registry_len :: "gas_registry \<Rightarrow> u32" where
  "gas_registry_len r = word_of_nat (length (gr_gases r))"

definition gas_by_id :: "gas_registry \<Rightarrow> gas_id \<Rightarrow> gas_metadata option" where
  "gas_by_id r gas = vec_get (gr_gases r) (unat (gas_number gas))"

definition gas_by_key :: "gas_registry \<Rightarrow> string \<Rightarrow> gas_metadata option" where
  "gas_by_key r key = Option.bind (gr_ids_by_key r key) (gas_by_id r)"

section \<open>What a registry is\<close>

text \<open>A gas as the checks want it: the products of a generic rule name distinct known gases.\<close>

definition gas_valid :: "nat \<Rightarrow> gas_metadata \<Rightarrow> bool" where
  "gas_valid n gas \<longleftrightarrow> f32_is_finite (gm_specific_heat gas) \<and> f32_less 0 (gm_specific_heat gas) \<and>
     f32_is_finite (gm_fusion_power gas) \<and> (\<forall>v. gm_moles_visible gas = Some v \<longrightarrow> f32_nonnegative v) \<and>
     f32_is_finite (gm_enthalpy gas) \<and> f32_nonnegative (gm_fire_radiation_released gas) \<and>
     valid_fire_role (gm_fire_role gas) \<and>
     (\<forall>products. gm_fire_products gas = Some (GenericProducts products) \<longrightarrow>
        distinct (map gp_gas products) \<and>
        (\<forall>p \<in> set products. unat (gas_number (gp_gas p)) < n \<and> f32_nonnegative (gp_ratio p)))"

lemma gas_number_eq [simp]: "unat (gas_number x) = unat (gas_number y) \<longleftrightarrow> x = y"
  by (metis gas_id.expand word_unat_eq_iff)

lemma unat_ucast_u16: "unat (ucast (x :: u16) :: u32) = unat x"
  using unat_less_2p [of x] by (simp add: unsigned_ucast_eq take_bit_nat_eq_self)

lemma check_products_result:
  assumes "length seen = world_gas_slots" and "unat gas_count \<le> world_gas_slots"
  shows "rfold (check_product gas gas_count) products seen \<noteq> Panic \<and>
    ((\<exists>s. rfold (check_product gas gas_count) products seen = Ok s) \<longleftrightarrow>
       distinct (map gp_gas products) \<and>
       (\<forall>p \<in> set products. unat (gas_number (gp_gas p)) < unat gas_count \<and> f32_nonnegative (gp_ratio p) \<and>
          \<not> seen ! unat (gas_number (gp_gas p))))"
  using assms(1)
proof (induction products arbitrary: seen)
  case (Cons p products)
  let ?i = "unat (gas_number (gp_gas p))"
  have known: "ucast (gas_number (gp_gas p)) \<ge> gas_count \<longleftrightarrow> unat gas_count \<le> ?i"
    by (simp add: word_le_nat_alt unat_ucast_u16)
  show ?case
  proof (cases "?i < unat gas_count \<and> f32_nonnegative (gp_ratio p) \<and> \<not> seen ! ?i")
    case False
    then show ?thesis
      using Cons.prems assms(2)
      by (auto simp: check_product_def known f32_nonnegative_def vec_get_def split: bool.splits)
  next
    case True
    then have step: "check_product gas gas_count p seen = Ok (seen[?i := True])"
      using Cons.prems assms(2) by (simp add: check_product_def known f32_nonnegative_def vec_get_def)
    have "length (seen[?i := True]) = world_gas_slots" using Cons.prems by simp
    note IH = Cons.IH [OF this]
    have flag: "\<not> seen[?i := True] ! unat (gas_number (gp_gas q)) \<longleftrightarrow>
        \<not> seen ! unat (gas_number (gp_gas q)) \<and> gp_gas q \<noteq> gp_gas p" for q
      using True Cons.prems assms(2) by (auto simp: nth_list_update)
    have rest: "(distinct (map gp_gas (p # products)) \<and> (\<forall>q \<in> set (p # products). unat (gas_number (gp_gas q)) < unat gas_count \<and>
          f32_nonnegative (gp_ratio q) \<and> \<not> seen ! unat (gas_number (gp_gas q)))) \<longleftrightarrow>
        distinct (map gp_gas products) \<and> (\<forall>q \<in> set products. unat (gas_number (gp_gas q)) < unat gas_count \<and>
          f32_nonnegative (gp_ratio q) \<and> \<not> seen[?i := True] ! unat (gas_number (gp_gas q)))"
      unfolding flag using True by auto (metis imageI)
    show ?thesis using IH unfolding rest by (simp add: step)
  qed
qed simp

lemma validate_gas_result:
  assumes "unat gas_count \<le> world_gas_slots"
  shows "validate_gas gas gas_count \<noteq> Panic \<and> (validate_gas gas gas_count = Ok () \<longleftrightarrow> gas_valid (unat gas_count) gas)"
proof -
  let ?run = "\<lambda>ps. rfold (check_product (gm_id gas) gas_count) ps (replicate world_gas_slots False)"
  have "?run ps \<noteq> Panic \<and> ((\<exists>s. ?run ps = Ok s) \<longleftrightarrow> distinct (map gp_gas ps) \<and>
      (\<forall>p \<in> set ps. unat (gas_number (gp_gas p)) < unat gas_count \<and> f32_nonnegative (gp_ratio p)))" for ps
    using check_products_result [of "replicate world_gas_slots False" gas_count "gm_id gas" ps] assms by auto
  moreover have "\<not> f32_less_eq x 0 \<longleftrightarrow> f32_less 0 x" if "f32_is_finite x" for x
    using that by (auto simp: f32_less_eq_def f32_less_def f32_finite_not_nan) (simp_all add: f32_is_nan_def)
  ultimately show ?thesis
    by (auto simp: validate_gas_def gas_valid_def f32_nonnegative_def split: option.splits fire_product_rule.splits)
qed

lemma adjacent_duplicate_sorted:
  fixes xs :: "'a :: linorder list"
  shows "sorted xs \<Longrightarrow> adjacent_duplicate xs = None \<longleftrightarrow> distinct xs"
  by (induction xs rule: adjacent_duplicate.induct) (auto simp: order.antisym)

definition dense_gases :: "nat \<Rightarrow> gas_metadata list \<Rightarrow> bool" where
  "dense_gases k gases \<longleftrightarrow> (\<forall>i < length gases. gm_id (gases ! i) = GasId (word_of_nat (k + i)))"

lemma dense_gases_Cons: "dense_gases k (g # gases) \<longleftrightarrow> gm_id g = GasId (word_of_nat k) \<and> dense_gases (Suc k) gases"
proof
  assume dense: "dense_gases k (g # gases)"
  have "gm_id (gases ! i) = GasId (word_of_nat (Suc k + i))" if "i < length gases" for i
    using dense that by (auto simp: dense_gases_def dest: spec [of _ "Suc i"])
  moreover have "gm_id g = GasId (word_of_nat k)" using dense by (auto simp: dense_gases_def dest: spec [of _ 0])
  ultimately show "gm_id g = GasId (word_of_nat k) \<and> dense_gases (Suc k) gases" by (simp add: dense_gases_def)
qed (auto simp: dense_gases_def less_Suc_eq_0_disj)

definition gases_fit :: "nat \<Rightarrow> nat \<Rightarrow> (string \<rightharpoonup> gas_id) \<Rightarrow> gas_metadata list \<Rightarrow> bool" where
  "gases_fit n k m gases \<longleftrightarrow> dense_gases k gases \<and> distinct (map gm_key gases) \<and>
     (\<forall>g \<in> set gases. gm_key g \<noteq> [] \<and> m (gm_key g) = None \<and> gas_valid n g)"

lemma gases_fit_Cons:
  "gases_fit n k m (g # gases) \<longleftrightarrow> gm_id g = GasId (word_of_nat k) \<and> gm_key g \<noteq> [] \<and> m (gm_key g) = None \<and>
     gas_valid n g \<and> gases_fit n (Suc k) (m(gm_key g \<mapsto> gm_id g)) gases"
  unfolding gases_fit_def dense_gases_Cons by auto (metis imageI)+

lemma keys_merged:
  assumes "gases_fit n k (m(gm_key g \<mapsto> gm_id g)) gases"
  shows "m(gm_key g \<mapsto> gm_id g) ++ map_of (map (\<lambda>g. (gm_key g, gm_id g)) gases) =
    m ++ map_of (map (\<lambda>g. (gm_key g, gm_id g)) (g # gases))"
proof -
  have "gm_key g \<notin> gm_key ` set gases" using assms by (force simp: gases_fit_def)
  then have "map_of (map (\<lambda>g. (gm_key g, gm_id g)) gases) (gm_key g) = None"
    by (auto simp: map_of_eq_None_iff)
  then show ?thesis by (auto simp: map_add_def fun_eq_iff split: option.split)
qed

lemma register_gases_result:
  assumes "unat gas_count \<le> world_gas_slots"
  shows "rfold (register_gas gas_count) (enumerate k gases) m \<noteq> Panic \<and>
    (\<forall>m'. rfold (register_gas gas_count) (enumerate k gases) m = Ok m' \<longleftrightarrow>
      gases_fit (unat gas_count) k m gases \<and> m' = m ++ map_of (map (\<lambda>g. (gm_key g, gm_id g)) gases))"
proof (induction gases arbitrary: k m)
  case Nil
  show ?case by (auto simp: gases_fit_def dense_gases_def)
next
  case (Cons g gases)
  note valid = validate_gas_result [OF assms, of g]
  show ?case
  proof (cases "gm_id g = GasId (word_of_nat k) \<and> gm_key g \<noteq> [] \<and> m (gm_key g) = None \<and> gas_valid (unat gas_count) g")
    case True
    then have step: "rfold (register_gas gas_count) (enumerate k (g # gases)) m =
        rfold (register_gas gas_count) (enumerate (Suc k) gases) (m(gm_key g \<mapsto> gm_id g))"
      using valid by (simp add: register_gas_def)
    have fit: "gases_fit (unat gas_count) k m (g # gases) \<longleftrightarrow>
        gases_fit (unat gas_count) (Suc k) (m(gm_key g \<mapsto> gm_id g)) gases"
      using True by (simp add: gases_fit_Cons)
    note ih = Cons.IH [of "Suc k" "m(gm_key g \<mapsto> gm_id g)"]
    show ?thesis
      unfolding step fit
    proof (intro conjI allI)
      fix m'
      show "rfold (register_gas gas_count) (enumerate (Suc k) gases) (m(gm_key g \<mapsto> gm_id g)) = Ok m' \<longleftrightarrow>
          gases_fit (unat gas_count) (Suc k) (m(gm_key g \<mapsto> gm_id g)) gases \<and>
          m' = m ++ map_of (map (\<lambda>g. (gm_key g, gm_id g)) (g # gases))"
      proof (cases "gases_fit (unat gas_count) (Suc k) (m(gm_key g \<mapsto> gm_id g)) gases")
        case True
        show ?thesis unfolding ih [THEN conjunct2, rule_format] keys_merged [OF True] ..
      next
        case False
        then show ?thesis using ih by blast
      qed
    qed (rule ih [THEN conjunct1])
  next
    case False
    have "\<nexists>m'. register_gas gas_count (k, g) m = Ok m'" and "register_gas gas_count (k, g) m \<noteq> Panic"
      using False valid by (auto simp: register_gas_def split: if_splits)
    then show ?thesis using False by (cases "register_gas gas_count (k, g) m") (auto simp: gases_fit_Cons)
  qed
qed

text \<open>The gases may come in any order, but their numbers and their keys are complete and unambiguous.\<close>

definition gases_wf :: "gas_metadata list \<Rightarrow> bool" where
  "gases_wf gases \<longleftrightarrow> length gases \<le> world_gas_slots \<and> distinct (map gm_id gases) \<and> distinct (map gm_key gases) \<and>
     (\<forall>g \<in> set gases. unat (gas_number (gm_id g)) < length gases \<and> gm_key g \<noteq> [] \<and> gas_valid (length gases) g)"

lemma distinct_map_sort_key [simp]: "distinct (map f (sort_key k xs)) \<longleftrightarrow> distinct (map f xs)"
  using mset_eq_imp_distinct_iff [of "map f (sort_key k xs)" "map f xs"] by simp

lemma sorted_distinct_upt:
  assumes "sorted ns" and "distinct ns" and "\<forall>n \<in> set ns. n < length ns"
  shows "ns = [0..<length ns]"
proof -
  have "set ns \<subseteq> {..<length ns}" using assms(3) by auto
  moreover have "card (set ns) = card {..<length ns}" using distinct_card [OF assms(2)] by simp
  ultimately have "set ns = {..<length ns}" using card_subset_eq finite_lessThan by metis
  then show ?thesis using assms(1,2) by (intro sorted_distinct_set_unique) (auto simp: atLeast0LessThan)
qed

lemma sorted_dense:
  assumes "sorted (map gm_id gases)" and "distinct (map gm_id gases)" and "length gases \<le> 2 ^ 16"
  shows "dense_gases 0 gases \<longleftrightarrow> (\<forall>g \<in> set gases. unat (gas_number (gm_id g)) < length gases)"
proof
  have small: "unat (word_of_nat i :: u16) = i" if "i < length gases" for i
    using that assms(3) by (simp add: unat_of_nat take_bit_nat_eq_self)
  show "\<forall>g \<in> set gases. unat (gas_number (gm_id g)) < length gases" if "dense_gases 0 gases"
    using that small by (auto simp: dense_gases_def in_set_conv_nth)
  assume bound: "\<forall>g \<in> set gases. unat (gas_number (gm_id g)) < length gases"
  let ?ns = "map (\<lambda>g. unat (gas_number (gm_id g))) gases"
  have "distinct ?ns" using assms(2) by (simp add: distinct_map inj_on_def gas_id.expand)
  moreover have "sorted ?ns"
    using assms(1) by (simp add: sorted_wrt_map word_le_nat_alt less_eq_gas_id_def)
  ultimately have "?ns = [0..<length gases]" using sorted_distinct_upt [of ?ns] bound by simp
  then have "unat (gas_number (gm_id (gases ! i))) = i" if "i < length gases" for i
    using that by (metis add_0 nth_map nth_upt)
  then have "gm_id (gases ! i) = GasId (word_of_nat i)" if "i < length gases" for i
    using that by (cases "gm_id (gases ! i)") (metis gas_id.sel of_nat_unat word_unat_eq_iff small)
  then show "dense_gases 0 gases" by (simp add: dense_gases_def)
qed

lemma gas_registry_result:
  "gas_registry_try_new gases \<noteq> Panic \<and> (\<forall>r. gas_registry_try_new gases = Ok r \<longleftrightarrow> gases_wf gases \<and>
    (let sorted = sort_key gm_id gases in
     dense_gases 0 sorted \<and> r = \<lparr>gr_gases = sorted, gr_ids_by_key = map_of (map (\<lambda>g. (gm_key g, gm_id g)) sorted),
       gr_specific_heats = map gm_specific_heat sorted\<rparr>))"
proof (cases "length gases \<le> world_gas_slots")
  case False
  have "(case u32_try_from (length gases) of Some n \<Rightarrow> n | None \<Rightarrow> word_of_nat u32_max) > (word_of_nat world_gas_slots :: u32)"
    using False by (auto simp: world_gas_slots_def u32_max_def word_less_nat_alt split: option.split dest: u32_try_from_SomeD)
  then show ?thesis using False by (simp add: gas_registry_try_new_def gases_wf_def Let_def)
next
  case True
  let ?sorted = "sort_key gm_id gases"
  have n: "u32_try_from (length gases) = Some (word_of_nat (length gases))" "unat (word_of_nat (length gases) :: u32) = length gases"
    "\<not> word_of_nat (length gases) > (word_of_nat world_gas_slots :: u32)"
    using True by (simp_all add: u32_try_from_def u32_max_def world_gas_slots_def unat_of_nat take_bit_nat_eq_self word_less_nat_alt)
  have ids: "adjacent_duplicate (map gm_id ?sorted) = None \<longleftrightarrow> distinct (map gm_id gases)"
    using adjacent_duplicate_sorted [of "map gm_id ?sorted"] by simp
  have dense: "dense_gases 0 ?sorted \<longleftrightarrow> (\<forall>g \<in> set gases. unat (gas_number (gm_id g)) < length gases)" if "distinct (map gm_id gases)"
    using sorted_dense [of ?sorted] that True by (simp add: world_gas_slots_def)
  have bound: "unat (word_of_nat (length gases) :: u32) \<le> world_gas_slots" using n(2) True by simp
  note result = register_gases_result [OF bound, of 0 ?sorted Map.empty, unfolded n(2)]
  have fit: "gases_fit (length gases) 0 Map.empty ?sorted \<longleftrightarrow> gases_wf gases" if "distinct (map gm_id gases)"
    using that True dense [OF that] by (auto simp: gases_fit_def gases_wf_def)
  have wf: "gases_wf gases \<Longrightarrow> distinct (map gm_id gases) \<and> dense_gases 0 ?sorted"
    using dense by (auto simp: gases_wf_def)
  have run: "gas_registry_try_new gases =
      (case adjacent_duplicate (map gm_id ?sorted) of
         Some duplicate \<Rightarrow> Err (DuplicateGasId duplicate)
       | None \<Rightarrow> rbind (rfold (register_gas (word_of_nat (length gases))) (enumerate 0 ?sorted) Map.empty) (\<lambda>ids_by_key.
           Ok \<lparr>gr_gases = ?sorted, gr_ids_by_key = ids_by_key, gr_specific_heats = map gm_specific_heat ?sorted\<rparr>))"
    using n by (simp add: gas_registry_try_new_def Let_def)
  show ?thesis
  proof (cases "distinct (map gm_id gases)")
    case True
    then have "adjacent_duplicate (map gm_id ?sorted) = None" using ids by simp
    then show ?thesis using result fit [OF True] wf unfolding run Let_def by auto
  next
    case False
    then obtain d where "adjacent_duplicate (map gm_id ?sorted) = Some d" using ids by auto
    then show ?thesis using False by (simp add: run gases_wf_def)
  qed
qed

lemma built_gas_lookup:
  assumes "gas_registry_try_new gases = Ok r"
  shows "gas_by_id r i = Some g \<longleftrightarrow> g \<in> set gases \<and> gm_id g = i"
    and "gas_by_key r key = Some g \<longleftrightarrow> g \<in> set gases \<and> gm_key g = key"
proof -
  let ?sorted = "sort_key gm_id gases"
  have r: "gases_wf gases" "dense_gases 0 ?sorted" "gr_gases r = ?sorted"
    "gr_ids_by_key r = map_of (map (\<lambda>g. (gm_key g, gm_id g)) ?sorted)"
    using assms unfolding gas_registry_result [THEN conjunct2, rule_format, unfolded Let_def] by simp_all
  then have len: "length gases \<le> 32" by (simp add: gases_wf_def world_gas_slots_def)
  show by_id: "gas_by_id r i = Some g \<longleftrightarrow> g \<in> set gases \<and> gm_id g = i" for g i
  proof
    assume "gas_by_id r i = Some g"
    then have i: "unat (gas_number i) < length gases" "?sorted ! unat (gas_number i) = g"
      by (simp_all add: gas_by_id_def r(3))
    then have "gm_id g = GasId (word_of_nat (unat (gas_number i)))" using r(2) by (auto simp: dense_gases_def)
    moreover have "g \<in> set ?sorted" using i by (metis length_sort nth_mem)
    ultimately show "g \<in> set gases \<and> gm_id g = i" by (cases i) simp
  next
    assume g: "g \<in> set gases \<and> gm_id g = i"
    then obtain j where j: "j < length gases" "?sorted ! j = g" by (metis in_set_conv_nth length_sort set_sort)
    then have "i = GasId (word_of_nat j)" using r(2) g by (auto simp: dense_gases_def)
    moreover have "unat (word_of_nat j :: u16) = j" using j(1) len by (simp add: unat_of_nat take_bit_nat_eq_self)
    ultimately show "gas_by_id r i = Some g" using j by (simp add: gas_by_id_def r(3))
  qed
  have "distinct (map gm_key gases)" using r(1) by (simp add: gases_wf_def)
  then have "distinct (map fst (map (\<lambda>g. (gm_key g, gm_id g)) ?sorted))"
    by (simp add: comp_def)
  then have keys: "gr_ids_by_key r key = Some i \<longleftrightarrow> (\<exists>g \<in> set gases. gm_key g = key \<and> gm_id g = i)" for key i
    unfolding r(4) by (subst map_of_eq_Some_iff) auto
  show "gas_by_key r key = Some g \<longleftrightarrow> g \<in> set gases \<and> gm_key g = key"
  proof
    assume "gas_by_key r key = Some g"
    then obtain i where i: "gr_ids_by_key r key = Some i" "gas_by_id r i = Some g"
      by (auto simp: gas_by_key_def split: bind_splits)
    then obtain g' where g': "g' \<in> set gases" "gm_key g' = key" "gm_id g' = i" using keys by blast
    then have "gas_by_id r i = Some g'" using by_id by blast
    then show "g \<in> set gases \<and> gm_key g = key" using g' i(2) by simp
  next
    assume g: "g \<in> set gases \<and> gm_key g = key"
    then have "gr_ids_by_key r key = Some (gm_id g)" using keys by blast
    then show "gas_by_key r key = Some g" using g by_id by (simp add: gas_by_key_def)
  qed
qed

text \<open>
  C32: a registry of gases is built exactly from at most 32 gases whose numbers are 0, 1, 2 and so on in some
  order, with distinct non-empty keys and valid data; no list of gases makes the construction panic. The
  registry then finds every gas by its number and by its key, and nothing else.
\<close>

theorem gas_registry_exact:
  "gas_registry_try_new gases \<noteq> Panic \<and> ((\<exists>r. gas_registry_try_new gases = Ok r) \<longleftrightarrow> gases_wf gases) \<and>
   (\<forall>r. gas_registry_try_new gases = Ok r \<longrightarrow>
      (\<forall>g. (\<exists>i. gas_by_id r i = Some g) \<longleftrightarrow> g \<in> set gases) \<and>
      (\<forall>g i. gas_by_id r i = Some g \<longleftrightarrow> g \<in> set gases \<and> gm_id g = i) \<and>
      (\<forall>g key. gas_by_key r key = Some g \<longleftrightarrow> g \<in> set gases \<and> gm_key g = key))"
proof (intro conjI allI impI)
  note result = gas_registry_result [of gases, unfolded Let_def]
  show "gas_registry_try_new gases \<noteq> Panic" using result by blast
  have "gases_wf gases \<Longrightarrow> dense_gases 0 (sort_key gm_id gases)"
    using sorted_dense [of "sort_key gm_id gases"] by (auto simp: gases_wf_def world_gas_slots_def)
  then show "(\<exists>r. gas_registry_try_new gases = Ok r) \<longleftrightarrow> gases_wf gases" using result by blast
  fix r
  assume "gas_registry_try_new gases = Ok r"
  note lookup = built_gas_lookup [OF this]
  show "gas_by_id r i = Some g \<longleftrightarrow> g \<in> set gases \<and> gm_id g = i" for g i by (rule lookup)
  then show "(\<exists>i. gas_by_id r i = Some g) \<longleftrightarrow> g \<in> set gases" for g by blast
  show "gas_by_key r key = Some g \<longleftrightarrow> g \<in> set gases \<and> gm_key g = key" for g key by (rule lookup)
qed

definition example_gas :: "u16 \<Rightarrow> string \<Rightarrow> gas_metadata" where
  "example_gas n key = \<lparr>gm_id = GasId n, gm_key = key, gm_name = key, gm_flags = 0, gm_specific_heat = 0x41A00000,
     gm_fusion_power = 0, gm_moles_visible = None, gm_enthalpy = 0, gm_fire_radiation_released = 0,
     gm_fire_role = NoFireRole, gm_fire_products = None\<rparr>"

theorem gas_registry_exact_witness:
  "map_option gm_name (Option.bind (case gas_registry_try_new [example_gas 1 ''n2'', example_gas 0 ''o2''] of Ok r \<Rightarrow> Some r | _ \<Rightarrow> None)
     (\<lambda>r. gas_by_key r ''n2'')) = Some ''n2''"
proof -
  let ?gases = "[example_gas 1 ''n2'', example_gas 0 ''o2'']"
  have "gases_wf ?gases"
    by (simp add: gases_wf_def example_gas_def world_gas_slots_def gas_valid_def f32_nonnegative_def f32_is_finite_def
        f32_less_def f32_is_nan_def f32_key_def)
  then obtain r where r: "gas_registry_try_new ?gases = Ok r" using gas_registry_exact [of ?gases] by blast
  then have "gas_by_key r ''n2'' = Some (example_gas 1 ''n2'')"
    using gas_registry_exact [of ?gases] by (simp add: example_gas_def)
  then show ?thesis using r by (simp add: example_gas_def)
qed

end
