(* ===== verification/Reaction_Metadata.thy ===== *)
theory Reaction_Metadata
  imports Gas_Metadata
begin

text \<open>
  The registry of reactions (\<^verbatim>\<open>ReactionMetadataRegistry\<close> of \<^verbatim>\<open>crates/dogmos-core/src/metadata.rs\<close>): reactions are
  checked against the registry of gases and put in the order of their priorities, and which of them
  can happen in a mixture.
\<close>

section \<open>Data\<close>

datatype reaction_id = ReactionId (reaction_number: u32)

instantiation reaction_id :: linorder
begin

definition less_eq_reaction_id :: "reaction_id \<Rightarrow> reaction_id \<Rightarrow> bool" where
  "less_eq_reaction_id a b \<longleftrightarrow> reaction_number a \<le> reaction_number b"

definition less_reaction_id :: "reaction_id \<Rightarrow> reaction_id \<Rightarrow> bool" where
  "less_reaction_id a b \<longleftrightarrow> reaction_number a < reaction_number b"

instance
  by standard (auto simp: less_eq_reaction_id_def less_reaction_id_def reaction_id.expand)

end

record gas_requirement =
  gq_gas :: gas_id
  gq_minimum_moles :: f32

datatype native_reaction_kind = PlasmaReaction | HydrogenReaction | TritiumReaction | FreonReaction

datatype reaction_execution = NativeReaction native_reaction_kind | DmReaction

record reaction_metadata =
  rm_id :: reaction_id
  rm_key :: string
  rm_priority :: f32
  rm_minimum_temperature :: "f32 option"
  rm_maximum_temperature :: "f32 option"
  rm_minimum_energy :: "f32 option"
  rm_minimum_fire_reagents :: "f32 option"
  rm_gas_requirements :: "gas_requirement list"
  rm_execution :: reaction_execution

datatype (plugins only: size) reaction_metadata_error =
    DuplicateReactionId reaction_id
  | NonDenseReactionId reaction_id reaction_id
  | EmptyReactionKey reaction_id
  | DuplicateReactionKey string
  | InvalidPriority reaction_id
  | DuplicateReactionPriority reaction_id reaction_id
  | InvalidMinimumTemperature reaction_id
  | InvalidMaximumTemperature reaction_id
  | InvalidTemperatureRange reaction_id
  | InvalidMinimumEnergy reaction_id
  | InvalidMinimumFireReagents reaction_id
  | UnknownRequiredGas reaction_id gas_id
  | InvalidRequiredMoles reaction_id gas_id
  | DuplicateRequiredGas reaction_id gas_id

record reaction_registry =
  rr_reactions :: "reaction_metadata list"
  rr_ids_by_key :: "string \<rightharpoonup> reaction_id"
  rr_priority_order :: "reaction_id list"

section \<open>One reaction\<close>

text \<open>A bound that is given but negative or not finite.\<close>

definition bad_bound :: "f32 option \<Rightarrow> bool" where
  "bad_bound v \<longleftrightarrow> (case v of Some x \<Rightarrow> \<not> f32_is_finite x \<or> f32_less x 0 | None \<Rightarrow> False)"

definition check_requirement ::
  "gas_registry \<Rightarrow> reaction_id \<Rightarrow> gas_requirement \<Rightarrow> bool list \<Rightarrow> (bool list, reaction_metadata_error) result" where
  "check_requirement gases reaction requirement seen =
     (if gas_by_id gases (gq_gas requirement) = None then Err (UnknownRequiredGas reaction (gq_gas requirement))
      else if \<not> f32_is_finite (gq_minimum_moles requirement) \<or> f32_less (gq_minimum_moles requirement) 0
      then Err (InvalidRequiredMoles reaction (gq_gas requirement))
      else let gas_index = unat (gas_number (gq_gas requirement)) in
        (case vec_get seen gas_index of
           None \<Rightarrow> Panic
         | Some True \<Rightarrow> Err (DuplicateRequiredGas reaction (gq_gas requirement))
         | Some False \<Rightarrow> Ok (seen[gas_index := True])))"

definition validate_reaction :: "reaction_metadata \<Rightarrow> gas_registry \<Rightarrow> (unit, reaction_metadata_error) result" where
  "validate_reaction reaction gases =
     (if \<not> f32_is_finite (rm_priority reaction) then Err (InvalidPriority (rm_id reaction))
      else if bad_bound (rm_minimum_temperature reaction) then Err (InvalidMinimumTemperature (rm_id reaction))
      else if bad_bound (rm_maximum_temperature reaction) then Err (InvalidMaximumTemperature (rm_id reaction))
      else if (case (rm_minimum_temperature reaction, rm_maximum_temperature reaction) of
            (Some minimum, Some maximum) \<Rightarrow> f32_less maximum minimum | _ \<Rightarrow> False)
      then Err (InvalidTemperatureRange (rm_id reaction))
      else if bad_bound (rm_minimum_energy reaction) then Err (InvalidMinimumEnergy (rm_id reaction))
      else if bad_bound (rm_minimum_fire_reagents reaction) then Err (InvalidMinimumFireReagents (rm_id reaction))
      else rbind (rfold (check_requirement gases (rm_id reaction)) (rm_gas_requirements reaction)
             (replicate world_gas_slots False)) (\<lambda>_. Ok ()))"

section \<open>The registry\<close>

definition priority_bits :: "f32 \<Rightarrow> f32" where
  "priority_bits priority = (if f32_eq priority 0 then 0 else priority)"

definition register_reaction ::
  "gas_registry \<Rightarrow> nat \<times> reaction_metadata \<Rightarrow> (string \<rightharpoonup> reaction_id) \<times> (f32 \<rightharpoonup> reaction_id) \<Rightarrow>
   ((string \<rightharpoonup> reaction_id) \<times> (f32 \<rightharpoonup> reaction_id), reaction_metadata_error) result" where
  "register_reaction gases = (\<lambda>(expected, reaction) (ids_by_key, ids_by_priority_bits).
     if rm_id reaction \<noteq> ReactionId (word_of_nat expected)
     then Err (NonDenseReactionId (ReactionId (word_of_nat expected)) (rm_id reaction))
     else if rm_key reaction = [] then Err (EmptyReactionKey (rm_id reaction))
     else if ids_by_key (rm_key reaction) \<noteq> None then Err (DuplicateReactionKey (rm_key reaction))
     else rbind (validate_reaction reaction gases) (\<lambda>_.
       case ids_by_priority_bits (priority_bits (rm_priority reaction)) of
         Some first \<Rightarrow> Err (DuplicateReactionPriority first (rm_id reaction))
       | None \<Rightarrow> Ok (ids_by_key(rm_key reaction \<mapsto> rm_id reaction),
           ids_by_priority_bits(priority_bits (rm_priority reaction) \<mapsto> rm_id reaction))))"

text \<open>The identifiers are dense when the order is made, so the index is that of the reaction itself.\<close>

definition reaction_registry_try_new ::
  "reaction_metadata list \<Rightarrow> gas_registry \<Rightarrow> (reaction_registry, reaction_metadata_error) result" where
  "reaction_registry_try_new reactions gases =
     (let reactions = sort_key rm_id reactions in
      case adjacent_duplicate (map rm_id reactions) of
        Some duplicate \<Rightarrow> Err (DuplicateReactionId duplicate)
      | None \<Rightarrow>
          rbind (rfold (register_reaction gases) (enumerate 0 reactions) (Map.empty, Map.empty)) (\<lambda>(ids_by_key, _).
          Ok \<lparr>rr_reactions = reactions, rr_ids_by_key = ids_by_key,
            rr_priority_order = sort_key
              (\<lambda>i. - f32_total_key (rm_priority (reactions ! unat (reaction_number i)))) (map rm_id reactions)\<rparr>))"

definition reaction_registry_len :: "reaction_registry \<Rightarrow> u32" where
  "reaction_registry_len r =
     (case u32_try_from (length (rr_reactions r)) of Some n \<Rightarrow> n | None \<Rightarrow> word_of_nat u32_max)"

definition reaction_by_id :: "reaction_registry \<Rightarrow> reaction_id \<Rightarrow> reaction_metadata option" where
  "reaction_by_id r reaction = vec_get (rr_reactions r) (unat (reaction_number reaction))"

definition reaction_by_key :: "reaction_registry \<Rightarrow> string \<Rightarrow> reaction_metadata option" where
  "reaction_by_key r key = Option.bind (rr_ids_by_key r key) (reaction_by_id r)"

section \<open>Which reactions can happen\<close>

text \<open>0.0001 moles.\<close>

definition minimum_fire_moles :: f32 where "minimum_fire_moles = 0x38D1B717"

text \<open>\<open>get_or_insert_with\<close>: the value and what is remembered.\<close>

definition get_or_insert :: "'a \<Rightarrow> 'a option \<Rightarrow> 'a \<times> 'a option" where
  "get_or_insert x cache = (case cache of Some y \<Rightarrow> (y, cache) | None \<Rightarrow> (x, Some x))"

definition thermal_energy_of :: "f32 \<Rightarrow> f32 list \<Rightarrow> gas_registry \<Rightarrow> f32" where
  "thermal_energy_of temperature moles gases =
     f32_mul (fold (\<lambda>(amount, specific_heat) capacity. f32_mul_add specific_heat amount capacity)
       (zip moles (gr_specific_heats gases)) 0) temperature"

definition fire_amount :: "f32 \<Rightarrow> f32 \<times> gas_metadata \<Rightarrow> f32 \<times> f32 \<Rightarrow> f32 \<times> f32" where
  "fire_amount temperature = (\<lambda>(amount, gas) (oxidation, fuel).
     let available = (\<lambda>minimum_temperature. f32_mul amount
           (f32_max (f32_sub 0x3F800000 (f32_div minimum_temperature temperature)) 0))
     in if f32_less_eq amount minimum_fire_moles then (oxidation, fuel)
        else case gm_fire_role gas of
          Oxidizer minimum_temperature strength \<Rightarrow>
            if f32_less minimum_temperature temperature
            then (f32_add oxidation (f32_mul (available minimum_temperature) strength), fuel) else (oxidation, fuel)
        | Fuel minimum_temperature burn_rate \<Rightarrow>
            if f32_less minimum_temperature temperature
            then (oxidation, f32_add fuel (f32_div (available minimum_temperature) burn_rate)) else (oxidation, fuel)
        | NoFireRole \<Rightarrow> (oxidation, fuel))"

definition fire_reagents_of :: "f32 \<Rightarrow> f32 list \<Rightarrow> gas_registry \<Rightarrow> f32" where
  "fire_reagents_of temperature moles gases =
     (case fold (fire_amount temperature) (zip moles (gr_gases gases)) (0, 0) of
        (oxidation, fuel) \<Rightarrow> f32_min oxidation fuel)"

fun requirements_met :: "f32 list \<Rightarrow> gas_requirement list \<Rightarrow> (bool, unit) result" where
  "requirements_met moles [] = Ok True"
| "requirements_met moles (q # qs) =
     (case vec_get moles (unat (gas_number (gq_gas q))) of
        None \<Rightarrow> Panic
      | Some amount \<Rightarrow> if f32_less_eq (gq_minimum_moles q) amount then requirements_met moles qs else Ok False)"

text \<open>The conditions in the order in which they are tested, and what the two caches hold after that.\<close>

definition reaction_conditions_met ::
  "reaction_metadata \<Rightarrow> f32 \<Rightarrow> f32 list \<Rightarrow> gas_registry \<Rightarrow> f32 option \<times> f32 option \<Rightarrow>
   (bool \<times> f32 option \<times> f32 option, unit) result" where
  "reaction_conditions_met reaction temperature moles gases = (\<lambda>(thermal_energy, fire_reagents).
     if (case rm_minimum_temperature reaction of Some minimum \<Rightarrow> \<not> f32_less_eq minimum temperature | None \<Rightarrow> False)
     then Ok (False, thermal_energy, fire_reagents)
     else if (case rm_maximum_temperature reaction of Some maximum \<Rightarrow> \<not> f32_less_eq temperature maximum | None \<Rightarrow> False)
     then Ok (False, thermal_energy, fire_reagents)
     else rbind (requirements_met moles (rm_gas_requirements reaction)) (\<lambda>enough.
       if \<not> enough then Ok (False, thermal_energy, fire_reagents)
       else let (energetic, thermal_energy) =
              (case rm_minimum_energy reaction of None \<Rightarrow> (True, thermal_energy)
               | Some minimum \<Rightarrow>
                   let (energy, thermal_energy) = get_or_insert (thermal_energy_of temperature moles gases) thermal_energy
                   in (f32_less_eq minimum energy, thermal_energy))
            in if \<not> energetic then Ok (False, thermal_energy, fire_reagents)
               else (case rm_minimum_fire_reagents reaction of None \<Rightarrow> Ok (True, thermal_energy, fire_reagents)
                 | Some minimum \<Rightarrow>
                     let (reagents, fire_reagents) = get_or_insert (fire_reagents_of temperature moles gases) fire_reagents
                     in Ok (f32_less_eq minimum reagents, thermal_energy, fire_reagents))))"

definition is_reactable :: "reaction_registry \<Rightarrow> reaction_id \<Rightarrow> f32 \<Rightarrow> f32 list \<Rightarrow> gas_registry \<Rightarrow> (bool, unit) result" where
  "is_reactable r reaction temperature moles gases =
     (case reaction_by_id r reaction of
        None \<Rightarrow> Ok False
      | Some reaction \<Rightarrow>
          rbind (reaction_conditions_met reaction temperature moles gases (None, None)) (\<lambda>(met, _). Ok met))"

text \<open>One round of the loop that collects: the output so far and the caches.\<close>

definition collect_reactable ::
  "reaction_registry \<Rightarrow> f32 \<Rightarrow> f32 list \<Rightarrow> gas_registry \<Rightarrow> reaction_id \<Rightarrow>
   reaction_id list \<times> f32 option \<times> f32 option \<Rightarrow> (reaction_id list \<times> f32 option \<times> f32 option, unit) result" where
  "collect_reactable r temperature moles gases reaction = (\<lambda>(found, caches).
     case reaction_by_id r reaction of
       None \<Rightarrow> Panic
     | Some metadata \<Rightarrow>
         rbind (reaction_conditions_met metadata temperature moles gases caches) (\<lambda>(met, caches).
         Ok (if met then found @ [reaction] else found, caches)))"

definition reactable_ids_into ::
  "reaction_registry \<Rightarrow> f32 \<Rightarrow> f32 list \<Rightarrow> gas_registry \<Rightarrow> (reaction_id list, unit) result" where
  "reactable_ids_into r temperature moles gases =
     rbind (rfold (collect_reactable r temperature moles gases) (rr_priority_order r) ([], None, None)) (\<lambda>(found, _). Ok found)"

section \<open>What a registry is\<close>

definition bound_ok :: "f32 option \<Rightarrow> bool" where
  "bound_ok v \<longleftrightarrow> (\<forall>x. v = Some x \<longrightarrow> f32_nonnegative x)"

definition reaction_valid :: "gas_registry \<Rightarrow> reaction_metadata \<Rightarrow> bool" where
  "reaction_valid gases r \<longleftrightarrow> f32_is_finite (rm_priority r) \<and> bound_ok (rm_minimum_temperature r) \<and>
     bound_ok (rm_maximum_temperature r) \<and>
     (\<forall>low high. rm_minimum_temperature r = Some low \<and> rm_maximum_temperature r = Some high \<longrightarrow> \<not> f32_less high low) \<and>
     bound_ok (rm_minimum_energy r) \<and> bound_ok (rm_minimum_fire_reagents r) \<and>
     distinct (map gq_gas (rm_gas_requirements r)) \<and>
     (\<forall>q \<in> set (rm_gas_requirements r). gas_by_id gases (gq_gas q) \<noteq> None \<and> f32_nonnegative (gq_minimum_moles q))"

lemma bad_bound: "bad_bound v \<longleftrightarrow> \<not> bound_ok v"
  by (auto simp: bad_bound_def bound_ok_def f32_nonnegative_def split: option.split)

lemma check_requirements_result:
  assumes "length seen = world_gas_slots" and "length (gr_gases gases) \<le> world_gas_slots"
  shows "rfold (check_requirement gases reaction) qs seen \<noteq> Panic \<and>
    ((\<exists>s. rfold (check_requirement gases reaction) qs seen = Ok s) \<longleftrightarrow>
       distinct (map gq_gas qs) \<and>
       (\<forall>q \<in> set qs. gas_by_id gases (gq_gas q) \<noteq> None \<and> f32_nonnegative (gq_minimum_moles q) \<and>
          \<not> seen ! unat (gas_number (gq_gas q))))"
  using assms(1)
proof (induction qs arbitrary: seen)
  case (Cons q qs)
  let ?i = "unat (gas_number (gq_gas q))"
  have known: "?i < world_gas_slots" if "gas_by_id gases (gq_gas q) \<noteq> None"
    using that assms(2) by (auto simp: gas_by_id_def vec_get_def split: if_splits)
  show ?case
  proof (cases "gas_by_id gases (gq_gas q) \<noteq> None \<and> f32_nonnegative (gq_minimum_moles q) \<and> \<not> seen ! ?i")
    case False
    then have "\<nexists>s. check_requirement gases reaction q seen = Ok s" and "check_requirement gases reaction q seen \<noteq> Panic"
      using Cons.prems known
      by (auto simp: check_requirement_def f32_nonnegative_def vec_get_def Let_def split: bool.splits if_splits simp del: not_None_eq)
    then show ?thesis using False by (cases "check_requirement gases reaction q seen") auto
  next
    case True
    then have step: "check_requirement gases reaction q seen = Ok (seen[?i := True])"
      using Cons.prems known by (auto simp: check_requirement_def f32_nonnegative_def vec_get_def simp del: not_None_eq)
    have "length (seen[?i := True]) = world_gas_slots" using Cons.prems by simp
    note IH = Cons.IH [OF this]
    have flag: "\<not> seen[?i := True] ! unat (gas_number (gq_gas x)) \<longleftrightarrow>
        \<not> seen ! unat (gas_number (gq_gas x)) \<and> gq_gas x \<noteq> gq_gas q" for x
      using True Cons.prems known by (auto simp: nth_list_update)
    have rest: "(distinct (map gq_gas (q # qs)) \<and> (\<forall>x \<in> set (q # qs). gas_by_id gases (gq_gas x) \<noteq> None \<and>
          f32_nonnegative (gq_minimum_moles x) \<and> \<not> seen ! unat (gas_number (gq_gas x)))) \<longleftrightarrow>
        distinct (map gq_gas qs) \<and> (\<forall>x \<in> set qs. gas_by_id gases (gq_gas x) \<noteq> None \<and>
          f32_nonnegative (gq_minimum_moles x) \<and> \<not> seen[?i := True] ! unat (gas_number (gq_gas x)))"
      unfolding flag using True by auto (metis imageI)+
    show ?thesis using IH unfolding rest by (simp add: step del: not_None_eq)
  qed
qed simp

lemma validate_reaction_result:
  assumes "length (gr_gases gases) \<le> world_gas_slots"
  shows "validate_reaction r gases \<noteq> Panic \<and> (validate_reaction r gases = Ok () \<longleftrightarrow> reaction_valid gases r)"
proof -
  let ?run = "rfold (check_requirement gases (rm_id r)) (rm_gas_requirements r) (replicate world_gas_slots False)"
  have run: "?run \<noteq> Panic \<and> ((\<exists>s. ?run = Ok s) \<longleftrightarrow> distinct (map gq_gas (rm_gas_requirements r)) \<and>
      (\<forall>q \<in> set (rm_gas_requirements r). gas_by_id gases (gq_gas q) \<noteq> None \<and> f32_nonnegative (gq_minimum_moles q)))"
    using check_requirements_result [of "replicate world_gas_slots False" gases "rm_id r" "rm_gas_requirements r"] assms
    by (auto simp: gas_by_id_def world_gas_slots_def vec_get_def split: if_splits)
  show ?thesis
    unfolding validate_reaction_def reaction_valid_def bad_bound using run by (auto split: option.splits)
qed

definition dense_reactions :: "nat \<Rightarrow> reaction_metadata list \<Rightarrow> bool" where
  "dense_reactions k rs \<longleftrightarrow> (\<forall>i < length rs. rm_id (rs ! i) = ReactionId (word_of_nat (k + i)))"

lemma dense_reactions_Cons:
  "dense_reactions k (r # rs) \<longleftrightarrow> rm_id r = ReactionId (word_of_nat k) \<and> dense_reactions (Suc k) rs"
proof
  assume dense: "dense_reactions k (r # rs)"
  have "rm_id (rs ! i) = ReactionId (word_of_nat (Suc k + i))" if "i < length rs" for i
    using dense that by (auto simp: dense_reactions_def dest: spec [of _ "Suc i"])
  moreover have "rm_id r = ReactionId (word_of_nat k)" using dense by (auto simp: dense_reactions_def dest: spec [of _ 0])
  ultimately show "rm_id r = ReactionId (word_of_nat k) \<and> dense_reactions (Suc k) rs" by (simp add: dense_reactions_def)
qed (auto simp: dense_reactions_def less_Suc_eq_0_disj)

abbreviation priority_key :: "reaction_metadata \<Rightarrow> f32" where
  "priority_key r \<equiv> priority_bits (rm_priority r)"

definition reactions_fit ::
  "gas_registry \<Rightarrow> nat \<Rightarrow> (string \<rightharpoonup> reaction_id) \<Rightarrow> (f32 \<rightharpoonup> reaction_id) \<Rightarrow> reaction_metadata list \<Rightarrow> bool" where
  "reactions_fit gases k m p rs \<longleftrightarrow> dense_reactions k rs \<and> distinct (map rm_key rs) \<and> distinct (map priority_key rs) \<and>
     (\<forall>r \<in> set rs. rm_key r \<noteq> [] \<and> m (rm_key r) = None \<and> p (priority_key r) = None \<and> reaction_valid gases r)"

lemma reactions_fit_Cons:
  "reactions_fit gases k m p (r # rs) \<longleftrightarrow> rm_id r = ReactionId (word_of_nat k) \<and> rm_key r \<noteq> [] \<and> m (rm_key r) = None \<and>
     p (priority_key r) = None \<and> reaction_valid gases r \<and>
     reactions_fit gases (Suc k) (m(rm_key r \<mapsto> rm_id r)) (p(priority_key r \<mapsto> rm_id r)) rs"
  unfolding reactions_fit_def dense_reactions_Cons by auto (metis imageI)+

lemma reaction_keys_merged:
  assumes "reactions_fit gases k (m(rm_key r \<mapsto> rm_id r)) p rs"
  shows "m(rm_key r \<mapsto> rm_id r) ++ map_of (map (\<lambda>r. (rm_key r, rm_id r)) rs) =
    m ++ map_of (map (\<lambda>r. (rm_key r, rm_id r)) (r # rs))"
proof -
  have "rm_key r \<notin> rm_key ` set rs" using assms by (force simp: reactions_fit_def)
  then have "map_of (map (\<lambda>r. (rm_key r, rm_id r)) rs) (rm_key r) = None"
    by (auto simp: map_of_eq_None_iff)
  then show ?thesis by (auto simp: map_add_def fun_eq_iff split: option.split)
qed

lemma register_reactions_result:
  assumes "length (gr_gases gases) \<le> world_gas_slots"
  shows "rfold (register_reaction gases) (enumerate k rs) (m, p) \<noteq> Panic \<and>
    (\<forall>m'. (\<exists>p'. rfold (register_reaction gases) (enumerate k rs) (m, p) = Ok (m', p')) \<longleftrightarrow>
      reactions_fit gases k m p rs \<and> m' = m ++ map_of (map (\<lambda>r. (rm_key r, rm_id r)) rs))"
proof (induction rs arbitrary: k m p)
  case Nil
  show ?case by (auto simp: reactions_fit_def dense_reactions_def)
next
  case (Cons r rs)
  note valid = validate_reaction_result [OF assms, of r]
  show ?case
  proof (cases "rm_id r = ReactionId (word_of_nat k) \<and> rm_key r \<noteq> [] \<and> m (rm_key r) = None \<and>
      p (priority_key r) = None \<and> reaction_valid gases r")
    case True
    let ?m = "m(rm_key r \<mapsto> rm_id r)" and ?p = "p(priority_key r \<mapsto> rm_id r)"
    have step: "rfold (register_reaction gases) (enumerate k (r # rs)) (m, p) =
        rfold (register_reaction gases) (enumerate (Suc k) rs) (?m, ?p)"
      using valid True by (simp add: register_reaction_def)
    have fit: "reactions_fit gases k m p (r # rs) \<longleftrightarrow> reactions_fit gases (Suc k) ?m ?p rs"
      using True by (simp add: reactions_fit_Cons)
    note ih = Cons.IH [of "Suc k" ?m ?p]
    show ?thesis
      unfolding step fit
    proof (intro conjI allI)
      fix m'
      show "(\<exists>p'. rfold (register_reaction gases) (enumerate (Suc k) rs) (?m, ?p) = Ok (m', p')) \<longleftrightarrow>
          reactions_fit gases (Suc k) ?m ?p rs \<and> m' = m ++ map_of (map (\<lambda>r. (rm_key r, rm_id r)) (r # rs))"
      proof (cases "reactions_fit gases (Suc k) ?m ?p rs")
        case True
        show ?thesis unfolding ih [THEN conjunct2, rule_format] reaction_keys_merged [OF True] ..
      next
        case False
        then show ?thesis using ih by blast
      qed
    qed (rule ih [THEN conjunct1])
  next
    case False
    have "\<nexists>s. register_reaction gases (k, r) (m, p) = Ok s" and "register_reaction gases (k, r) (m, p) \<noteq> Panic"
      using False valid by (auto simp: register_reaction_def split: if_splits option.splits)
    then show ?thesis using False
      by (cases "register_reaction gases (k, r) (m, p)") (auto simp: reactions_fit_Cons)
  qed
qed

definition reactions_wf :: "gas_registry \<Rightarrow> reaction_metadata list \<Rightarrow> bool" where
  "reactions_wf gases rs \<longleftrightarrow> distinct (map rm_id rs) \<and> distinct (map rm_key rs) \<and> distinct (map priority_key rs) \<and>
     (\<forall>r \<in> set rs. unat (reaction_number (rm_id r)) < length rs \<and> rm_key r \<noteq> [] \<and> reaction_valid gases r)"

lemma distinct_reactions_length:
  assumes "distinct (map rm_id rs)"
  shows "length rs \<le> 2 ^ 32"
proof -
  have "distinct (map (\<lambda>r. reaction_number (rm_id r)) rs)"
    using assms by (auto simp: distinct_map inj_on_def reaction_id.expand)
  from distinct_card [OF this] have "length rs = card (set (map (\<lambda>r. reaction_number (rm_id r)) rs))" by simp
  also have "\<dots> \<le> card (UNIV :: u32 set)" by (intro card_mono) simp_all
  also have "\<dots> = 2 ^ 32" by (simp add: card_word)
  finally show ?thesis .
qed

lemma dense_reaction_number:
  assumes "dense_reactions 0 rs" and "i < length rs" and "length rs \<le> 2 ^ 32"
  shows "unat (reaction_number (rm_id (rs ! i))) = i"
  using assms by (simp add: dense_reactions_def unat_of_nat take_bit_nat_eq_self)

lemma sorted_dense_reactions:
  assumes "sorted (map rm_id rs)" and "distinct (map rm_id rs)"
  shows "dense_reactions 0 rs \<longleftrightarrow> (\<forall>r \<in> set rs. unat (reaction_number (rm_id r)) < length rs)"
proof
  note len = distinct_reactions_length [OF assms(2)]
  show "\<forall>r \<in> set rs. unat (reaction_number (rm_id r)) < length rs" if "dense_reactions 0 rs"
    using dense_reaction_number [OF that _ len] by (auto simp: in_set_conv_nth)
  assume bound: "\<forall>r \<in> set rs. unat (reaction_number (rm_id r)) < length rs"
  let ?ns = "map (\<lambda>r. unat (reaction_number (rm_id r))) rs"
  have "unat (reaction_number a) = unat (reaction_number b) \<longleftrightarrow> a = b" for a b
    by (metis reaction_id.expand word_unat_eq_iff)
  then have "distinct ?ns" using assms(2) by (simp add: distinct_map inj_on_def)
  moreover have "sorted ?ns"
    using assms(1) by (simp add: sorted_wrt_map word_le_nat_alt less_eq_reaction_id_def)
  ultimately have "?ns = [0..<length rs]" using sorted_distinct_upt [of ?ns] bound by simp
  then have "unat (reaction_number (rm_id (rs ! i))) = i" if "i < length rs" for i
    using that by (metis add_0 nth_map nth_upt)
  then have "rm_id (rs ! i) = ReactionId (word_of_nat i)" if "i < length rs" for i
    using that by (cases "rm_id (rs ! i)") (metis of_nat_unat reaction_id.sel ucast_id)
  then show "dense_reactions 0 rs" by (simp add: dense_reactions_def)
qed

text \<open>Priorities that differ after the zeros are made equal differ as numbers.\<close>

lemma total_key_less:
  assumes "f32_is_finite x" and "f32_is_finite y" and "priority_bits x \<noteq> priority_bits y"
    and "f32_total_key y < f32_total_key x"
  shows "f32_less y x"
proof -
  have nan: "\<not> f32_is_nan x" "\<not> f32_is_nan y" using assms(1,2) by (simp_all add: f32_finite_not_nan)
  have zero: "\<not> f32_is_nan 0" "f32_key 0 = 0" by (simp_all add: f32_is_nan_def f32_key_def)
  have total: "f32_total_key z = (if f32_negative z then - 1 - f32_magnitude z else f32_magnitude z)" for z
    using f32_key_magnitude [of z] by (auto simp: f32_total_key_def f32_key_def f32_negative_def f32_magnitude_def)
  have "f32_key y < f32_key x \<or> f32_key x = 0 \<and> f32_key y = 0"
    using assms(4) f32_magnitude_bounds [of x] f32_magnitude_bounds [of y]
    unfolding total f32_key_magnitude by (auto split: if_splits)
  moreover have "\<not> (f32_key x = 0 \<and> f32_key y = 0)"
    using assms(3) nan zero by (auto simp: priority_bits_def f32_eq_def)
  ultimately show ?thesis using nan by (simp add: f32_less_def)
qed

lemma total_key_inj: "f32_total_key x = f32_total_key y \<Longrightarrow> x = y"
proof -
  assume eq: "f32_total_key x = f32_total_key y"
  have total: "f32_total_key z = (if f32_negative z then - 1 - f32_magnitude z else f32_magnitude z)" for z
    using f32_key_magnitude [of z] by (auto simp: f32_total_key_def f32_key_def f32_negative_def f32_magnitude_def)
  show ?thesis
    using eq f32_magnitude_bounds [of x] f32_magnitude_bounds [of y] unfolding total
    by (intro f32_parts_eqI) (auto split: if_splits)
qed

lemma reaction_registry_result:
  assumes "length (gr_gases gases) \<le> world_gas_slots"
  shows "reaction_registry_try_new rs gases \<noteq> Panic \<and> (\<forall>r. reaction_registry_try_new rs gases = Ok r \<longleftrightarrow> reactions_wf gases rs \<and>
    (let sorted = sort_key rm_id rs in
     dense_reactions 0 sorted \<and>
     r = \<lparr>rr_reactions = sorted, rr_ids_by_key = map_of (map (\<lambda>r. (rm_key r, rm_id r)) sorted),
       rr_priority_order = sort_key (\<lambda>i. - f32_total_key (rm_priority (sorted ! unat (reaction_number i)))) (map rm_id sorted)\<rparr>))"
proof -
  let ?sorted = "sort_key rm_id rs"
  have ids: "adjacent_duplicate (map rm_id ?sorted) = None \<longleftrightarrow> distinct (map rm_id rs)"
    using adjacent_duplicate_sorted [of "map rm_id ?sorted"] by simp
  have dense: "dense_reactions 0 ?sorted \<longleftrightarrow> (\<forall>r \<in> set rs. unat (reaction_number (rm_id r)) < length rs)" if "distinct (map rm_id rs)"
    using sorted_dense_reactions [of ?sorted] that by simp
  have fit: "reactions_fit gases 0 Map.empty Map.empty ?sorted \<longleftrightarrow> reactions_wf gases rs" if "distinct (map rm_id rs)"
    using that dense [OF that] by (auto simp: reactions_fit_def reactions_wf_def)
  have wf: "reactions_wf gases rs \<Longrightarrow> distinct (map rm_id rs) \<and> dense_reactions 0 ?sorted"
    using dense by (auto simp: reactions_wf_def)
  note result = register_reactions_result [OF assms, of 0 ?sorted Map.empty Map.empty]
  show ?thesis
  proof (cases "distinct (map rm_id rs)")
    case True
    then have "adjacent_duplicate (map rm_id ?sorted) = None" using ids by simp
    then have run: "reaction_registry_try_new rs gases =
        rbind (rfold (register_reaction gases) (enumerate 0 ?sorted) (Map.empty, Map.empty)) (\<lambda>(ids_by_key, _).
          Ok \<lparr>rr_reactions = ?sorted, rr_ids_by_key = ids_by_key,
            rr_priority_order = sort_key
              (\<lambda>i. - f32_total_key (rm_priority (?sorted ! unat (reaction_number i)))) (map rm_id ?sorted)\<rparr>)"
      by (simp add: reaction_registry_try_new_def Let_def)
    show ?thesis
    proof (cases "rfold (register_reaction gases) (enumerate 0 ?sorted) (Map.empty, Map.empty)")
      case (Ok s)
      obtain m p where s: "s = (m, p)" by (cases s)
      then have "\<exists>p'. rfold (register_reaction gases) (enumerate 0 ?sorted) (Map.empty, Map.empty) = Ok (m, p')"
        using Ok by simp
      then have m: "reactions_fit gases 0 Map.empty Map.empty ?sorted" "m = map_of (map (\<lambda>r. (rm_key r, rm_id r)) ?sorted)"
        unfolding result [THEN conjunct2, rule_format] by simp_all
      have "reactions_wf gases rs" using m(1) fit [OF True] by simp
      then show ?thesis using wf unfolding run Ok s by (auto simp: m(2) Let_def)
    next
      case (Err e)
      then have "\<not> reactions_fit gases 0 Map.empty Map.empty ?sorted" using result by auto
      then show ?thesis using fit [OF True] unfolding run Err by simp
    next
      case Panic
      then show ?thesis using result by simp
    qed
  next
    case False
    then obtain d where "adjacent_duplicate (map rm_id ?sorted) = Some d" using ids by auto
    then show ?thesis using False by (simp add: reaction_registry_try_new_def reactions_wf_def Let_def)
  qed
qed

lemma gas_registry_small: "gas_registry_try_new gs = Ok gases \<Longrightarrow> length (gr_gases gases) \<le> world_gas_slots"
  using gas_registry_result [of gs] by (auto simp: Let_def gases_wf_def)

lemma built_registry:
  assumes "gas_registry_try_new gs = Ok gases" and "reaction_registry_try_new rs gases = Ok r"
  shows "reactions_wf gases rs" and "dense_reactions 0 (rr_reactions r)" and "rr_reactions r = sort_key rm_id rs"
    and "rr_ids_by_key r = map_of (map (\<lambda>r. (rm_key r, rm_id r)) (rr_reactions r))"
    and "rr_priority_order r = sort_key (\<lambda>i. - f32_total_key (rm_priority (rr_reactions r ! unat (reaction_number i))))
      (map rm_id (rr_reactions r))"
  using assms(2)
  unfolding reaction_registry_result [OF gas_registry_small [OF assms(1)], THEN conjunct2, rule_format] Let_def
  by simp_all

lemma built_by_id:
  assumes "gas_registry_try_new gs = Ok gases" and "reaction_registry_try_new rs gases = Ok r"
  shows "reaction_by_id r i = Some x \<longleftrightarrow> x \<in> set rs \<and> rm_id x = i"
proof -
  note built = built_registry [OF assms]
  have len: "length (rr_reactions r) \<le> 2 ^ 32"
    using distinct_reactions_length [of rs] built(1,3) by (simp add: reactions_wf_def)
  note number = dense_reaction_number [OF built(2) _ len]
  show ?thesis
  proof
    assume "reaction_by_id r i = Some x"
    then have i: "unat (reaction_number i) < length (rr_reactions r)" "rr_reactions r ! unat (reaction_number i) = x"
      by (simp_all add: reaction_by_id_def)
    then have "reaction_number (rm_id x) = reaction_number i" using number [OF i(1)] by (simp add: word_unat_eq_iff)
    moreover have "x \<in> set (rr_reactions r)" using i by auto
    ultimately show "x \<in> set rs \<and> rm_id x = i" by (simp add: built(3) reaction_id.expand)
  next
    assume x: "x \<in> set rs \<and> rm_id x = i"
    then obtain j where j: "j < length (rr_reactions r)" "rr_reactions r ! j = x"
      unfolding built(3) by (metis in_set_conv_nth set_sort)
    then have "unat (reaction_number i) = j" using number [OF j(1)] x by simp
    then show "reaction_by_id r i = Some x" using j by (simp add: reaction_by_id_def)
  qed
qed

lemma priority_order_strict:
  assumes "gas_registry_try_new gs = Ok gases" and "reaction_registry_try_new rs gases = Ok r"
  shows "set (rr_priority_order r) = rm_id ` set rs" and "distinct (rr_priority_order r)"
    and "sorted_wrt (\<lambda>i j. \<exists>a b. reaction_by_id r i = Some a \<and> reaction_by_id r j = Some b \<and>
      f32_less (rm_priority b) (rm_priority a)) (rr_priority_order r)"
proof -
  note built = built_registry [OF assms] and by_id = built_by_id [OF assms]
  let ?priority = "\<lambda>i. rm_priority (rr_reactions r ! unat (reaction_number i))"
  show ids: "set (rr_priority_order r) = rm_id ` set rs" by (simp add: built(3,5))
  show distinct: "distinct (rr_priority_order r)"
    using built(1) distinct_map_sort_key [of id] by (simp add: built(3,5) reactions_wf_def)
  have "sorted_wrt (\<lambda>i j. f32_total_key (?priority j) \<le> f32_total_key (?priority i)) (rr_priority_order r)"
    using sorted_sort_key [of "\<lambda>i. - f32_total_key (?priority i)" "map rm_id (rr_reactions r)"]
    by (simp add: built(5) sorted_wrt_map)
  then have order: "sorted_wrt (\<lambda>i j. f32_total_key (?priority j) \<le> f32_total_key (?priority i) \<and> i \<noteq> j) (rr_priority_order r)"
    using distinct by (auto simp: sorted_wrt_iff_nth_less distinct_conv_nth)
  show "sorted_wrt (\<lambda>i j. \<exists>a b. reaction_by_id r i = Some a \<and> reaction_by_id r j = Some b \<and>
      f32_less (rm_priority b) (rm_priority a)) (rr_priority_order r)"
  proof (rule sorted_wrt_mono_rel [OF _ order], elim conjE)
    fix i j
    assume ij: "i \<in> set (rr_priority_order r)" "j \<in> set (rr_priority_order r)" "i \<noteq> j"
      "f32_total_key (?priority j) \<le> f32_total_key (?priority i)"
    then obtain a b where ab: "a \<in> set rs" "rm_id a = i" "b \<in> set rs" "rm_id b = j" by (auto simp: ids)
    then have found: "reaction_by_id r i = Some a" "reaction_by_id r j = Some b" using by_id by blast+
    then have at: "?priority i = rm_priority a" "?priority j = rm_priority b" by (simp_all add: reaction_by_id_def)
    have fin: "f32_is_finite (rm_priority a)" "f32_is_finite (rm_priority b)"
      using built(1) ab by (auto simp: reactions_wf_def reaction_valid_def)
    have "a \<noteq> b" using ab ij(3) by auto
    then have differ: "priority_key a \<noteq> priority_key b"
      using built(1) ab by (auto simp: reactions_wf_def distinct_map inj_on_def)
    then have "f32_total_key (rm_priority b) < f32_total_key (rm_priority a)"
      using ij(4) total_key_inj [of "rm_priority b" "rm_priority a"] by (auto simp: at order.order_iff_strict)
    then have "f32_less (rm_priority b) (rm_priority a)" by (rule total_key_less [OF fin differ])
    then show "\<exists>a b. reaction_by_id r i = Some a \<and> reaction_by_id r j = Some b \<and>
        f32_less (rm_priority b) (rm_priority a)" using found by blast
  qed
qed

text \<open>
  C31: against a registry of gases, a registry of reactions is built exactly from reactions whose numbers are
  0, 1, 2 and so on in some order, with distinct keys, distinct priorities and valid data, without a panic. It finds
  every reaction by number and by key, and its order holds every reaction once, each with a higher priority than all
  that follow it.
\<close>

theorem reaction_registry_exact:
  assumes "gas_registry_try_new gs = Ok gases"
  shows "reaction_registry_try_new rs gases \<noteq> Panic \<and>
    ((\<exists>r. reaction_registry_try_new rs gases = Ok r) \<longleftrightarrow> reactions_wf gases rs) \<and>
    (\<forall>r. reaction_registry_try_new rs gases = Ok r \<longrightarrow>
      (\<forall>x i. reaction_by_id r i = Some x \<longleftrightarrow> x \<in> set rs \<and> rm_id x = i) \<and>
      (\<forall>x key. reaction_by_key r key = Some x \<longleftrightarrow> x \<in> set rs \<and> rm_key x = key) \<and>
      set (rr_priority_order r) = rm_id ` set rs \<and> distinct (rr_priority_order r) \<and>
      sorted_wrt (\<lambda>i j. \<exists>a b. reaction_by_id r i = Some a \<and> reaction_by_id r j = Some b \<and>
        f32_less (rm_priority b) (rm_priority a)) (rr_priority_order r))"
proof (intro conjI allI impI)
  let ?sorted = "sort_key rm_id rs"
  note result = reaction_registry_result [OF gas_registry_small [OF assms], of rs, unfolded Let_def]
  show "reaction_registry_try_new rs gases \<noteq> Panic" using result by blast
  have "reactions_wf gases rs \<Longrightarrow> dense_reactions 0 ?sorted"
    using sorted_dense_reactions [of ?sorted] by (auto simp: reactions_wf_def)
  then show "(\<exists>r. reaction_registry_try_new rs gases = Ok r) \<longleftrightarrow> reactions_wf gases rs" using result by blast
  fix r
  assume r: "reaction_registry_try_new rs gases = Ok r"
  note built = built_registry [OF assms r] and by_id = built_by_id [OF assms r]
  show "reaction_by_id r i = Some x \<longleftrightarrow> x \<in> set rs \<and> rm_id x = i" for x i by (rule by_id)
  have "distinct (map fst (map (\<lambda>r. (rm_key r, rm_id r)) (rr_reactions r)))"
    using built(1) by (simp add: comp_def built(3) reactions_wf_def)
  then have keys: "rr_ids_by_key r key = Some i \<longleftrightarrow> (\<exists>x \<in> set rs. rm_key x = key \<and> rm_id x = i)" for key i
    unfolding built(4) by (subst map_of_eq_Some_iff) (auto simp: built(3))
  show "reaction_by_key r key = Some x \<longleftrightarrow> x \<in> set rs \<and> rm_key x = key" for x key
  proof
    assume "reaction_by_key r key = Some x"
    then obtain i where i: "rr_ids_by_key r key = Some i" "reaction_by_id r i = Some x"
      by (auto simp: reaction_by_key_def split: bind_splits)
    then obtain y where y: "y \<in> set rs" "rm_key y = key" "rm_id y = i" using keys by blast
    then have "reaction_by_id r i = Some y" using by_id by blast
    then show "x \<in> set rs \<and> rm_key x = key" using y i(2) by simp
  next
    assume x: "x \<in> set rs \<and> rm_key x = key"
    then have "rr_ids_by_key r key = Some (rm_id x)" using keys by blast
    then show "reaction_by_key r key = Some x" using x by_id by (simp add: reaction_by_key_def)
  qed
qed (rule priority_order_strict [OF assms], assumption)+

section \<open>The caches\<close>

definition caches_hold :: "f32 \<Rightarrow> f32 list \<Rightarrow> gas_registry \<Rightarrow> f32 option \<times> f32 option \<Rightarrow> bool" where
  "caches_hold temperature moles gases = (\<lambda>(energy, reagents).
     (\<forall>x. energy = Some x \<longrightarrow> x = thermal_energy_of temperature moles gases) \<and>
     (\<forall>x. reagents = Some x \<longrightarrow> x = fire_reagents_of temperature moles gases))"

lemma requirements_met_Ok:
  "\<forall>q \<in> set qs. unat (gas_number (gq_gas q)) < length moles \<Longrightarrow> \<exists>b. requirements_met moles qs = Ok b"
  by (induction qs) (auto simp: vec_get_def)

text \<open>What is remembered is what would be computed.\<close>

lemma reaction_conditions_cached:
  assumes "caches_hold temperature moles gases caches"
    and "\<forall>q \<in> set (rm_gas_requirements x). unat (gas_number (gq_gas q)) < length moles"
  shows "\<exists>met caches' fresh. reaction_conditions_met x temperature moles gases caches = Ok (met, caches') \<and>
    reaction_conditions_met x temperature moles gases (None, None) = Ok (met, fresh) \<and>
    caches_hold temperature moles gases caches'"
proof -
  obtain energy reagents where caches: "caches = (energy, reagents)" by (cases caches)
  obtain enough where enough: "requirements_met moles (rm_gas_requirements x) = Ok enough"
    using requirements_met_Ok [OF assms(2)] by blast
  have "fst (get_or_insert (thermal_energy_of temperature moles gases) energy) = thermal_energy_of temperature moles gases"
    and "fst (get_or_insert (fire_reagents_of temperature moles gases) reagents) = fire_reagents_of temperature moles gases"
    using assms(1) by (auto simp: caches caches_hold_def get_or_insert_def split: option.split)
  then show ?thesis
    using assms(1) by (auto simp: reaction_conditions_met_def enough caches caches_hold_def get_or_insert_def Let_def
        split: option.splits)
qed

text \<open>Of built registries every gas that is asked for is in the row, so a test has an answer.\<close>

lemma required_gases_known:
  assumes "gas_registry_try_new gs = Ok gases" and "reaction_registry_try_new rs gases = Ok r"
    and "length moles = world_gas_slots" and "reaction_by_id r i = Some x"
  shows "\<forall>q \<in> set (rm_gas_requirements x). unat (gas_number (gq_gas q)) < length moles"
proof -
  have "reaction_valid gases x" using built_registry [OF assms(1,2)] built_by_id [OF assms(1,2)] assms(4) by (auto simp: reactions_wf_def)
  then show ?thesis
    using gas_registry_small [OF assms(1)] assms(3)
    by (fastforce simp: reaction_valid_def gas_by_id_def vec_get_def split: if_splits)
qed

lemma is_reactable_answers:
  assumes "gas_registry_try_new gs = Ok gases" and "reaction_registry_try_new rs gases = Ok r"
    and "length moles = world_gas_slots"
  obtains answer where "is_reactable r i temperature moles gases = Ok answer"
proof (cases "reaction_by_id r i")
  case None
  then show thesis using that [of False] by (simp add: is_reactable_def)
next
  case (Some x)
  have "caches_hold temperature moles gases (None, None)" by (simp add: caches_hold_def)
  from reaction_conditions_cached [OF this required_gases_known [OF assms Some]]
  obtain met fresh where "reaction_conditions_met x temperature moles gases (None, None) = Ok (met, fresh)" by blast
  then show thesis using that by (simp add: is_reactable_def Some)
qed

text \<open>
  C30: the reactions that can happen in a mixture are those of the priority order that pass the test on their own,
  in that order: the thermal energy and the fire reagents that one reaction leaves to the next never change an
  answer, and nothing is looked up that is not there.
\<close>

theorem reactable_reactions_filtered:
  assumes "gas_registry_try_new gs = Ok gases" and "reaction_registry_try_new rs gases = Ok r"
    and "length moles = world_gas_slots"
  shows "\<exists>test. (\<forall>i. is_reactable r i temperature moles gases = Ok (test i)) \<and>
    reactable_ids_into r temperature moles gases = Ok (filter test (rr_priority_order r))"
proof -
  note by_id = built_by_id [OF assms(1,2)]
  define test where "test i = (case is_reactable r i temperature moles gases of Ok b \<Rightarrow> b | _ \<Rightarrow> False)" for i
  note known = required_gases_known [OF assms]
  have one: "is_reactable r i temperature moles gases = Ok (test i)" for i
    by (rule is_reactable_answers [OF assms, of i temperature]) (simp add: test_def)
  have step: "\<exists>caches'. collect_reactable r temperature moles gases i (found, caches) = Ok (found @ filter test [i], caches') \<and>
      caches_hold temperature moles gases caches'"
    if "i \<in> set (rr_priority_order r)" and "caches_hold temperature moles gases caches" for i found caches
  proof -
    note member = that(1) and holds = that(2)
    obtain x where x: "reaction_by_id r i = Some x"
      using member by_id priority_order_strict(1) [OF assms(1,2)] by auto
    obtain met caches' fresh where met: "reaction_conditions_met x temperature moles gases caches = Ok (met, caches')"
      "reaction_conditions_met x temperature moles gases (None, None) = Ok (met, fresh)" "caches_hold temperature moles gases caches'"
      using reaction_conditions_cached [OF holds known [OF x]] by blast
    then have "test i = met" by (simp add: test_def is_reactable_def x)
    then show ?thesis using met by (simp add: collect_reactable_def x)
  qed
  have "\<exists>caches'. rfold (collect_reactable r temperature moles gases) order (found, caches) = Ok (found @ filter test order, caches')"
    if "set order \<subseteq> set (rr_priority_order r)" and "caches_hold temperature moles gases caches" for order found caches
    using that
  proof (induction order arbitrary: found caches)
    case (Cons i order)
    obtain caches' where c: "collect_reactable r temperature moles gases i (found, caches) = Ok (found @ filter test [i], caches')"
      "caches_hold temperature moles gases caches'"
      using step [of i caches found] Cons.prems by auto
    then show ?case using Cons.IH [of caches' "found @ filter test [i]"] Cons.prems(1) by auto
  qed simp
  from this [of "rr_priority_order r" "(None, None)" "[]"]
  have "reactable_ids_into r temperature moles gases = Ok (filter test (rr_priority_order r))"
    by (auto simp: reactable_ids_into_def caches_hold_def)
  then show ?thesis using one by blast
qed

section \<open>An example\<close>

definition example_reaction :: "u32 \<Rightarrow> string \<Rightarrow> f32 \<Rightarrow> reaction_metadata" where
  "example_reaction n key priority = \<lparr>rm_id = ReactionId n, rm_key = key, rm_priority = priority,
     rm_minimum_temperature = Some 0x43800000, rm_maximum_temperature = None, rm_minimum_energy = None,
     rm_minimum_fire_reagents = None, rm_gas_requirements = [\<lparr>gq_gas = GasId 0, gq_minimum_moles = 0x3F800000\<rparr>],
     rm_execution = DmReaction\<rparr>"

definition example_registry :: gas_registry where
  "example_registry = \<lparr>gr_gases = [example_gas 0 ''o2'', example_gas 1 ''n2''],
     gr_ids_by_key = [''o2'' \<mapsto> GasId 0, ''n2'' \<mapsto> GasId 1], gr_specific_heats = [0x41A00000, 0x41A00000]\<rparr>"

definition example_reactions :: "reaction_metadata list" where
  "example_reactions = [example_reaction 1 ''b'' 0x3F800000, example_reaction 0 ''a'' 0]"

lemma example_registries:
  "gas_registry_try_new [example_gas 1 ''n2'', example_gas 0 ''o2''] = Ok example_registry"
  "reactions_wf example_registry example_reactions"
proof -
  have finite: "f32_is_finite 0x41A00000" "f32_is_finite 0" "f32_is_finite 0x43800000" "f32_is_finite 0x3F800000"
    by (simp_all add: f32_is_finite_def)
  have keys: "\<not> f32_less_eq 0x41A00000 0" "\<not> f32_less 0 0" "\<not> f32_less 0x43800000 0" "\<not> f32_less 0x3F800000 0"
    "\<not> f32_eq 0x3F800000 0" "f32_eq 0 0"
    by (simp_all add: f32_less_eq_def f32_less_def f32_eq_def f32_is_nan_def f32_key_def)
  show "gas_registry_try_new [example_gas 1 ''n2'', example_gas 0 ''o2''] = Ok example_registry"
    by (simp add: gas_registry_try_new_def u32_try_from_def u32_max_def world_gas_slots_def example_gas_def
        less_eq_gas_id_def register_gas_def validate_gas_def finite keys example_registry_def)
  show "reactions_wf example_registry example_reactions"
    by (simp add: reactions_wf_def example_reactions_def example_reaction_def reaction_valid_def bound_ok_def
        f32_nonnegative_def finite keys priority_bits_def gas_by_id_def example_registry_def)
qed

theorem reaction_registry_exact_witness:
  "\<exists>r. reaction_registry_try_new example_reactions example_registry = Ok r \<and>
     map_option rm_id (reaction_by_key r ''b'') = Some (ReactionId 1)"
proof -
  note exact = reaction_registry_exact [OF example_registries(1), of example_reactions]
  obtain r where "reaction_registry_try_new example_reactions example_registry = Ok r"
    using exact example_registries(2) by blast
  moreover have "reaction_by_key r ''b'' = Some (example_reaction 1 ''b'' 0x3F800000)"
    using exact calculation by (simp add: example_reactions_def example_reaction_def)
  ultimately show ?thesis by (simp add: example_reaction_def)
qed

theorem reactable_reactions_filtered_witness:
  "\<exists>r test. reaction_registry_try_new example_reactions example_registry = Ok r \<and>
     reactable_ids_into r 0x43800000 (replicate world_gas_slots 0x3F800000) example_registry =
       Ok (filter test (rr_priority_order r))"
proof -
  obtain r where r: "reaction_registry_try_new example_reactions example_registry = Ok r"
    using reaction_registry_result [of example_registry example_reactions] gas_registry_small [OF example_registries(1)]
      example_registries(2) sorted_dense_reactions [of "sort_key rm_id example_reactions"]
    by (auto simp: reactions_wf_def Let_def)
  show ?thesis
    using reactable_reactions_filtered [OF example_registries(1) r, of "replicate world_gas_slots 0x3F800000" "0x43800000"] r by auto
qed

end
