(* ===== verification/Native_Reactions.thy ===== *)
theory Native_Reactions
  imports Reaction_Metadata
begin

text \<open>
  The reactions the service computes itself (\<^verbatim>\<open>crates/dogmos-core/src/reactions.rs\<close>). The operations on numbers
  are a parameter; \<open>single\<close> of \<open>Float32\<close> is what the code computes with.
\<close>

section \<open>Gases of a mixture\<close>

datatype native_reaction_error = MissingGas string | NonFiniteResult

definition native_gas_index :: "gas_registry \<Rightarrow> string \<Rightarrow> (nat, native_reaction_error) result" where
  "native_gas_index registry key =
     (case gas_by_key registry key of Some gas \<Rightarrow> Ok (unat (gas_number (gm_id gas))) | None \<Rightarrow> Err (MissingGas key))"

definition amount_at :: "'f list \<Rightarrow> nat \<Rightarrow> ('f, 'e) result" where
  "amount_at gases i = (case vec_get gases i of Some x \<Rightarrow> Ok x | None \<Rightarrow> Panic)"

definition set_amount :: "nat \<Rightarrow> 'f \<Rightarrow> 'f list \<Rightarrow> ('f list, 'e) result" where
  "set_amount i x gases = (if i < length gases then Ok (gases[i := x]) else Panic)"

definition add_amount :: "'f float_ops \<Rightarrow> nat \<Rightarrow> 'f \<Rightarrow> 'f list \<Rightarrow> ('f list, 'e) result" where
  "add_amount F i x gases = rbind (amount_at gases i) (\<lambda>old. set_amount i (fo_add F old x) gases)"

definition native_heat_capacity :: "'f float_ops \<Rightarrow> 'f list \<Rightarrow> 'f \<Rightarrow> gas_registry \<Rightarrow> 'f" where
  "native_heat_capacity F gases minimum_heat_capacity registry =
     fo_max F (fold (\<lambda>(amount, specific_heat) capacity. fo_mul_add F (fo_const F specific_heat) amount capacity)
       (zip gases (gr_specific_heats registry)) (fo_const F 0)) minimum_heat_capacity"

text \<open>0.0001 moles and a heat capacity of 0.0003.\<close>

definition molar_accuracy :: f32 where "molar_accuracy = 0x38D1B717"

definition minimum_heat_capacity_value :: f32 where "minimum_heat_capacity_value = 0x399D4952"

definition quantize :: "'f float_ops \<Rightarrow> 'f \<Rightarrow> 'f" where
  "quantize F amount = fo_mul F (fo_round F (fo_div F amount (fo_const F molar_accuracy))) (fo_const F molar_accuracy)"

text \<open>The values of a callback, the gases and the temperature; a reaction that does not happen has no values.\<close>

type_synonym 'f native_outcome = "('f list option \<times> 'f list \<times> 'f, native_reaction_error) result"

section \<open>Plasma\<close>

text \<open>Numbers in the order of the source: 373.15, 1643.15, 1.4, 10, 96, 9 and 3000000.\<close>

definition plasma_reaction ::
  "'f float_ops \<Rightarrow> 'f list \<Rightarrow> 'f \<Rightarrow> 'f \<Rightarrow> gas_registry \<Rightarrow> 'f native_outcome" where
  "plasma_reaction F gases temperature minimum_heat_capacity registry =
     (let K = fo_const F; minimum_burn = K 0x43BA9333; upper = K 0x44CD64CD in
      rbind (native_gas_index registry ''o2'') (\<lambda>oxygen.
      rbind (native_gas_index registry ''plasma'') (\<lambda>plasma.
      rbind (native_gas_index registry ''co2'') (\<lambda>carbon_dioxide.
      rbind (native_gas_index registry ''tritium'') (\<lambda>tritium.
      rbind (native_gas_index registry ''water_vapor'') (\<lambda>water.
      let temperature_scale = (if fo_less F upper temperature then K 0x3F800000
            else fo_div F (fo_sub F temperature minimum_burn) (fo_sub F upper minimum_burn))
      in rbind (amount_at gases plasma) (\<lambda>plasma_moles.
         if fo_less_eq F temperature_scale (K 0) \<or> fo_less_eq F plasma_moles (K 0) then Ok (None, gases, temperature)
         else rbind (amount_at gases oxygen) (\<lambda>oxygen_moles.
         let oxygen_burn_ratio = fo_sub F (K 0x3FB33333) temperature_scale;
             ratio = fo_div F oxygen_moles plasma_moles;
             (burn_rate, super_saturation) =
               (if fo_less_eq F (K 0x42C00000) ratio
                then (fo_mul F (fo_div F plasma_moles (K 0x41100000)) temperature_scale, True)
                else if fo_less_eq F (K 0x41200000) ratio
                then (fo_mul F (fo_div F plasma_moles (K 0x41100000)) temperature_scale, False)
                else (fo_mul F (fo_div F (fo_div F oxygen_moles (K 0x41200000)) (K 0x41100000)) temperature_scale, False))
         in if fo_less F burn_rate (K minimum_heat_capacity_value) then Ok (None, gases, temperature)
            else let old_capacity = native_heat_capacity F gases minimum_heat_capacity registry;
                burn_rate = fo_min F (fo_min F burn_rate plasma_moles) (fo_div F oxygen_moles oxygen_burn_ratio)
              in rbind (set_amount plasma (quantize F (fo_sub F plasma_moles burn_rate)) gases) (\<lambda>gases.
                 rbind (set_amount oxygen (quantize F (fo_sub F oxygen_moles (fo_mul F burn_rate oxygen_burn_ratio))) gases)
                   (\<lambda>gases.
                 rbind (if super_saturation then add_amount F tritium burn_rate gases
                        else rbind (add_amount F carbon_dioxide (fo_mul F burn_rate (K 0x3F400000)) gases)
                          (add_amount F water (fo_mul F burn_rate (K 0x3E800000)))) (\<lambda>gases.
                 let fire_amount = fo_mul F burn_rate (fo_add F (K 0x3F800000) oxygen_burn_ratio);
                     new_capacity = native_heat_capacity F gases minimum_heat_capacity registry;
                     temperature = (if fo_less F (K minimum_heat_capacity_value) new_capacity
                       then fo_div F (fo_add F (fo_mul F temperature old_capacity) (fo_mul F (K 0x4A371B00) burn_rate)) new_capacity
                       else temperature)
                 in Ok (Some [fire_amount, temperature, K 0, K 0], gases, temperature))))))))))))"

section \<open>Hydrogen and tritium\<close>

text \<open>2, 10 and 2800000. Only the two kinds of the callers occur.\<close>

definition combust_fuel ::
  "'f float_ops \<Rightarrow> string \<Rightarrow> native_reaction_kind \<Rightarrow> 'f list \<Rightarrow> 'f \<Rightarrow> 'f \<Rightarrow> 'f \<Rightarrow> gas_registry \<Rightarrow> 'f native_outcome" where
  "combust_fuel F fuel_key kind gases temperature volume minimum_heat_capacity registry =
     (let K = fo_const F in
      rbind (native_gas_index registry ''o2'') (\<lambda>oxygen.
      rbind (native_gas_index registry fuel_key) (\<lambda>fuel.
      rbind (native_gas_index registry ''water_vapor'') (\<lambda>water.
      rbind (amount_at gases fuel) (\<lambda>fuel_moles.
      rbind (amount_at gases oxygen) (\<lambda>oxygen_moles.
      let burned_fuel = fo_min F (fo_min F (fo_min F (fo_div F fuel_moles (K 0x40000000))
              (fo_div F oxygen_moles (fo_mul F (K 0x40000000) (K 0x41200000)))) fuel_moles)
            (fo_div F oxygen_moles (K 0x3F000000))
      in if fo_less_eq F burned_fuel (K 0) \<or> fo_less F (fo_sub F fuel_moles burned_fuel) (K 0) \<or>
            fo_less F (fo_sub F oxygen_moles (fo_mul F burned_fuel (K 0x3F000000))) (K 0)
         then Ok (None, gases, temperature)
         else let old_capacity = native_heat_capacity F gases minimum_heat_capacity registry in
           rbind (set_amount fuel (fo_max F (fo_sub F fuel_moles burned_fuel) (K 0)) gases) (\<lambda>gases.
           rbind (amount_at gases oxygen) (\<lambda>oxygen_left.
           rbind (set_amount oxygen (fo_max F (fo_sub F oxygen_left (fo_mul F burned_fuel (K 0x3F000000))) (K 0)) gases) (\<lambda>gases.
           rbind (add_amount F water burned_fuel gases) (\<lambda>gases.
           let energy = fo_mul F (K 0x4A2AE600) burned_fuel;
               new_capacity = native_heat_capacity F gases minimum_heat_capacity registry;
               new_temperature = (if fo_less F (K minimum_heat_capacity_value) new_capacity
                 then fo_div F (fo_add F (fo_mul F temperature old_capacity) energy) new_capacity else temperature)
           in (case kind of
                 HydrogenReaction \<Rightarrow> Ok (Some [burned_fuel, new_temperature, K 0, K 0], gases, new_temperature)
               | TritiumReaction \<Rightarrow> Ok (Some [burned_fuel, energy, volume, new_temperature], gases, new_temperature)
               | _ \<Rightarrow> Panic)))))))))))"

definition hydrogen_reaction ::
  "'f float_ops \<Rightarrow> 'f list \<Rightarrow> 'f \<Rightarrow> 'f \<Rightarrow> gas_registry \<Rightarrow> 'f native_outcome" where
  "hydrogen_reaction F gases temperature minimum_heat_capacity registry =
     combust_fuel F ''hydrogen'' HydrogenReaction gases temperature (fo_const F 0) minimum_heat_capacity registry"

definition tritium_reaction ::
  "'f float_ops \<Rightarrow> 'f list \<Rightarrow> 'f \<Rightarrow> 'f \<Rightarrow> 'f \<Rightarrow> gas_registry \<Rightarrow> 'f native_outcome" where
  "tritium_reaction F gases temperature volume minimum_heat_capacity registry =
     combust_fuel F ''tritium'' TritiumReaction gases temperature volume minimum_heat_capacity registry"

section \<open>Freon\<close>

text \<open>283, 60, 20, 1.4, 10, 4 and 300000; 2.7 K at the end.\<close>

definition freon_reaction ::
  "'f float_ops \<Rightarrow> 'f list \<Rightarrow> 'f \<Rightarrow> 'f \<Rightarrow> gas_registry \<Rightarrow> 'f native_outcome" where
  "freon_reaction F gases temperature minimum_heat_capacity registry =
     (let K = fo_const F in
      rbind (native_gas_index registry ''o2'') (\<lambda>oxygen.
      rbind (native_gas_index registry ''freon'') (\<lambda>freon.
      rbind (native_gas_index registry ''co2'') (\<lambda>carbon_dioxide.
      let temperature_scale = (if fo_less F temperature (K 0x41A00000) then K 0
            else if fo_less F temperature (K 0x42700000) then K 0x3F000000
            else fo_div F (fo_sub F (K 0x438D8000) temperature) (fo_sub F (K 0x438D8000) (K 0x41A00000)))
      in rbind (amount_at gases freon) (\<lambda>freon_moles.
         if fo_less_eq F temperature_scale (K 0) \<or> fo_less_eq F freon_moles (K 0) then Ok (None, gases, temperature)
         else rbind (amount_at gases oxygen) (\<lambda>oxygen_moles.
         let oxygen_burn_ratio = fo_sub F (K 0x3FB33333) temperature_scale;
             burn_rate = (if fo_less F oxygen_moles (fo_mul F freon_moles (K 0x41200000))
               then fo_mul F (fo_div F (fo_div F oxygen_moles (K 0x41200000)) (K 0x40800000)) temperature_scale
               else fo_mul F (fo_div F freon_moles (K 0x40800000)) temperature_scale)
         in if fo_less F burn_rate (K minimum_heat_capacity_value) then Ok (None, gases, temperature)
            else let old_capacity = native_heat_capacity F gases minimum_heat_capacity registry;
                burn_rate = fo_min F (fo_min F burn_rate freon_moles) (fo_div F oxygen_moles oxygen_burn_ratio)
              in rbind (set_amount freon (quantize F (fo_sub F freon_moles burn_rate)) gases) (\<lambda>gases.
                 rbind (set_amount oxygen (quantize F (fo_sub F oxygen_moles (fo_mul F burn_rate oxygen_burn_ratio))) gases)
                   (\<lambda>gases.
                 rbind (add_amount F carbon_dioxide burn_rate gases) (\<lambda>gases.
                 let fire_amount = fo_mul F burn_rate (fo_add F (K 0x3F800000) oxygen_burn_ratio);
                     new_capacity = native_heat_capacity F gases minimum_heat_capacity registry;
                     new_temperature = (if fo_less F (K minimum_heat_capacity_value) new_capacity
                       then fo_max F (fo_div F (fo_sub F (fo_mul F temperature old_capacity)
                           (fo_mul F (K 0x48927C00) burn_rate)) new_capacity) (K 0x402CCCCD)
                       else temperature)
                 in Ok (Some [fire_amount, temperature, new_temperature, K 0], gases, new_temperature))))))))))"

section \<open>Execution\<close>

text \<open>
  The gases and the temperature are changed in place, so they are given back also with the last error; the errors
  before it leave them as they were.
\<close>

definition execute_native ::
  "'f float_ops \<Rightarrow> native_reaction_kind \<Rightarrow> 'f list \<Rightarrow> 'f \<Rightarrow> 'f \<Rightarrow> 'f \<Rightarrow> gas_registry \<Rightarrow>
   ('f list option, native_reaction_error) result \<times> 'f list \<times> 'f" where
  "execute_native F kind gases temperature volume minimum_heat_capacity registry =
     (case (case kind of
              PlasmaReaction \<Rightarrow> plasma_reaction F gases temperature minimum_heat_capacity registry
            | HydrogenReaction \<Rightarrow> hydrogen_reaction F gases temperature minimum_heat_capacity registry
            | TritiumReaction \<Rightarrow> tritium_reaction F gases temperature volume minimum_heat_capacity registry
            | FreonReaction \<Rightarrow> freon_reaction F gases temperature minimum_heat_capacity registry) of
        Err e \<Rightarrow> (Err e, gases, temperature)
      | Panic \<Rightarrow> (Panic, gases, temperature)
      | Ok (values, gases, temperature) \<Rightarrow>
          (if \<not> fo_is_finite F temperature \<or>
              list_ex (\<lambda>amount. \<not> fo_is_finite F amount \<or> fo_less F amount (fo_const F 0)) gases \<or>
              (case values of Some vs \<Rightarrow> list_ex (\<lambda>value. \<not> fo_is_finite F value) vs | None \<Rightarrow> False)
           then (Err NonFiniteResult, gases, temperature)
           else (Ok values, gases, temperature)))"

section \<open>No panic\<close>

lemma amount_at_Ok [simp]: "i < length gases \<Longrightarrow> amount_at gases i = Ok (gases ! i)"
  by (simp add: amount_at_def vec_get_def)

lemma set_amount_Ok [simp]: "i < length gases \<Longrightarrow> set_amount i x gases = Ok (gases[i := x])"
  by (simp add: set_amount_def)

lemma add_amount_Ok [simp]: "i < length gases \<Longrightarrow> add_amount F i x gases = Ok (gases[i := fo_add F (gases ! i) x])"
  by (simp add: add_amount_def)

lemma native_gas_index_small:
  assumes "gas_registry_try_new gs = Ok registry"
  shows "native_gas_index registry key \<noteq> Panic" and "native_gas_index registry key = Ok i \<Longrightarrow> i < world_gas_slots"
proof -
  show "native_gas_index registry key \<noteq> Panic" by (simp add: native_gas_index_def split: option.split)
  assume "native_gas_index registry key = Ok i"
  then obtain g where g: "gas_by_key registry key = Some g" "i = unat (gas_number (gm_id g))"
    by (auto simp: native_gas_index_def split: option.splits)
  have built: "gases_wf gs" "gr_gases registry = sort_key gm_id gs"
    using assms unfolding gas_registry_result [THEN conjunct2, rule_format] Let_def by simp_all
  have "g \<in> set (gr_gases registry)"
    using g(1) by (auto simp: gas_by_key_def gas_by_id_def split: bind_splits)
  then have "g \<in> set gs" "gases_wf gs" using built by simp_all
  then show "i < world_gas_slots" using g(2) by (auto simp: gases_wf_def)
qed

definition outcome_ok :: "nat \<Rightarrow> 'f native_outcome \<Rightarrow> bool" where
  "outcome_ok n outcome \<longleftrightarrow> outcome \<noteq> Panic \<and> (\<forall>values gases t. outcome = Ok (values, gases, t) \<longrightarrow> length gases = n)"

lemma outcome_ok_simps [simp]:
  "outcome_ok n (Ok (values, gases, t)) \<longleftrightarrow> length gases = n" "outcome_ok n (Err e)" "\<not> outcome_ok n Panic"
  by (auto simp: outcome_ok_def)

text \<open>A gas that is looked up is one of the row.\<close>

lemma outcome_ok_gas:
  assumes "gas_registry_try_new gs = Ok registry"
    and "\<And>i. i < world_gas_slots \<Longrightarrow> outcome_ok n (f i)"
  shows "outcome_ok n (rbind (native_gas_index registry key) f)"
  using native_gas_index_small [OF assms(1), of key] assms(2) by (cases "native_gas_index registry key") auto

lemma native_outcomes:
  assumes "gas_registry_try_new gs = Ok registry" and "length gases = world_gas_slots"
  shows "outcome_ok world_gas_slots (plasma_reaction F gases t m registry)"
    and "outcome_ok world_gas_slots (hydrogen_reaction F gases t m registry)"
    and "outcome_ok world_gas_slots (tritium_reaction F gases t v m registry)"
    and "outcome_ok world_gas_slots (freon_reaction F gases t m registry)"
proof -
  note gas = outcome_ok_gas [OF assms(1)]
  show "outcome_ok world_gas_slots (plasma_reaction F gases t m registry)"
    unfolding plasma_reaction_def Let_def
    by (rule gas)+ (simp add: assms(2) split: if_splits)
  have "outcome_ok world_gas_slots (combust_fuel F key kind gases t v m registry)"
    if "kind = HydrogenReaction \<or> kind = TritiumReaction" for key kind v
    unfolding combust_fuel_def Let_def
    by (rule gas)+ (use that in \<open>auto simp: assms(2)\<close>)
  then show "outcome_ok world_gas_slots (hydrogen_reaction F gases t m registry)"
    and "outcome_ok world_gas_slots (tritium_reaction F gases t v m registry)"
    by (simp_all add: hydrogen_reaction_def tritium_reaction_def)
  show "outcome_ok world_gas_slots (freon_reaction F gases t m registry)"
    unfolding freon_reaction_def Let_def
    by (rule gas)+ (simp add: assms(2) split: if_splits)
qed

lemma execute_native_row:
  assumes "gas_registry_try_new gs = Ok registry" and "length gases = world_gas_slots"
    and "execute_native F kind gases t v m registry = (r, gases', t')"
  shows "r \<noteq> Panic" and "length gases' = world_gas_slots"
proof -
  define outcome where "outcome = (case kind of
              PlasmaReaction \<Rightarrow> plasma_reaction F gases t m registry
            | HydrogenReaction \<Rightarrow> hydrogen_reaction F gases t m registry
            | TritiumReaction \<Rightarrow> tritium_reaction F gases t v m registry
            | FreonReaction \<Rightarrow> freon_reaction F gases t m registry)"
  have ok: "outcome_ok world_gas_slots outcome"
    using native_outcomes [OF assms(1,2)] by (simp add: outcome_def split: native_reaction_kind.split)
  then have "r \<noteq> Panic \<and> length gases' = world_gas_slots"
    using assms(2,3) unfolding execute_native_def outcome_def [symmetric]
    by (cases outcome) (auto split: if_splits prod.splits)
  then show "r \<noteq> Panic" and "length gases' = world_gas_slots" by simp_all
qed

section \<open>What a success leaves\<close>

text \<open>
  C13: after a reaction that reports success, whatever the arithmetic, the temperature and every reported value are
  finite and every amount of gas is finite and not negative; no reaction panics on a full row of gases and a built
  registry, and a reaction without values is not counted.
\<close>

theorem native_reactions_leave_valid_gases:
  assumes "gas_registry_try_new gs = Ok registry" and "length gases = world_gas_slots"
  shows "case execute_native F kind gases t v m registry of (r, gases', t') \<Rightarrow>
    r \<noteq> Panic \<and> length gases' = world_gas_slots \<and>
    (\<forall>values. r = Ok values \<longrightarrow> fo_is_finite F t' \<and>
      (\<forall>x \<in> set gases'. fo_is_finite F x \<and> \<not> fo_less F x (fo_const F 0)) \<and>
      (\<forall>vs. values = Some vs \<longrightarrow> (\<forall>x \<in> set vs. fo_is_finite F x)))"
proof -
  obtain r gases' t' where run: "execute_native F kind gases t v m registry = (r, gases', t')"
    by (cases "execute_native F kind gases t v m registry")
  have "fo_is_finite F t' \<and> (\<forall>x \<in> set gases'. fo_is_finite F x \<and> \<not> fo_less F x (fo_const F 0)) \<and>
      (\<forall>vs. values = Some vs \<longrightarrow> (\<forall>x \<in> set vs. fo_is_finite F x))" if "r = Ok values" for "values"
    using run that unfolding execute_native_def
    by (auto split: result.splits prod.splits if_splits simp: list_ex_iff)
  then show ?thesis using execute_native_row [OF assms run] run by auto
qed

end
