(* ===== verification/World_State.thy ===== *)
theory World_State
  imports Topology_Updates World_Continuations Diffusion_Graph Native_Reactions
begin

text \<open>
  The records of the world that handles name (\<^verbatim>\<open>crates/dogmos-core/src/world.rs\<close> and
  \<^verbatim>\<open>world/ownership.rs\<close>): mixture and turf slots with generations, the edges between mixtures, the
  reverse indexes, the topology of turfs, the list of turfs with active heat and the continuations.

  A slot's \<open>Versioned\<close> record is its visible value here (\<^verbatim>\<open>Versioned_Store\<close> shows what each operation
  leaves visible). The scratch buffers and \<open>turf_graph\<close>, which every change of the topology drops, are left
  out. A single-precision number is its bits, and an error that the code turns into text is kept as it is.
\<close>

section \<open>Records\<close>

text \<open>The numbers of a mixture are a parameter, so that what only computes can also be read exactly.\<close>

record 'f mixture_values =
  mx_revision :: u32
  mx_temperature :: 'f
  mx_volume :: 'f
  mx_minimum_heat_capacity :: 'f
  mx_gases :: "'f list"
  mx_immutable :: bool

type_synonym mixture_record = "f32 mixture_values"

text \<open>2.7 K and 2500 litres.\<close>

definition mixture_record_new :: mixture_record where
  "mixture_record_new = \<lparr>mx_revision = 0, mx_temperature = 0x402CCCCD, mx_volume = 0x451C4000,
     mx_minimum_heat_capacity = 0, mx_gases = replicate world_gas_slots 0, mx_immutable = False\<rparr>"

record mixture_slot =
  ms_generation :: "u32 option"
  ms_mixture :: "mixture_record option"

record core_heat_state =
  hs_temperature :: f32
  hs_thermal_conductivity :: f32
  hs_heat_capacity :: f32
  hs_adjacent_to_space :: bool

record turf_record =
  tr_mixture :: "mixture_handle option"
  tr_heat :: "core_heat_state option"
  tr_heat_active_index :: "u32 option"

record core_turf_slot =
  cs_generation :: "u32 option"
  cs_turf :: "turf_record option"

definition mixture_slot_default :: mixture_slot where
  "mixture_slot_default = \<lparr>ms_generation = None, ms_mixture = None\<rparr>"

definition turf_slot_default :: core_turf_slot where
  "turf_slot_default = \<lparr>cs_generation = None, cs_turf = None\<rparr>"

record projected_slot =
  ps_generation :: "u32 option"
  ps_occupied :: bool

datatype edge_key = EdgeKey (ek_left: u32) (ek_right: u32)

instantiation edge_key :: linorder
begin

definition less_eq_edge_key :: "edge_key \<Rightarrow> edge_key \<Rightarrow> bool" where
  "less_eq_edge_key a b \<longleftrightarrow> ek_left a < ek_left b \<or> ek_left a = ek_left b \<and> ek_right a \<le> ek_right b"

definition less_edge_key :: "edge_key \<Rightarrow> edge_key \<Rightarrow> bool" where
  "less_edge_key a b \<longleftrightarrow> ek_left a < ek_left b \<or> ek_left a = ek_left b \<and> ek_right a < ek_right b"

instance
  by standard (auto simp: less_eq_edge_key_def less_edge_key_def edge_key.expand)

end

datatype (plugins only: size) world_event =
    PressureDifference turf_handle turf_handle f32
  | DecompressionFloorRip turf_handle f32
  | FirelockConsideration turf_handle turf_handle
  | RunDmReaction "turf_handle option" mixture_handle gameplay_handle reaction_id continuation_token
  | ReactionFinished mixture_handle gameplay_handle reaction_id native_reaction_kind "f32 list"
  | ReactionProfiled mixture_handle gameplay_handle reaction_id f32
  | TurfDestructionRequest turf_handle

datatype (plugins only: size) world_error =
    UnknownHandle mixture_handle
  | StaleHandle mixture_handle u32
  | UnknownCoreTurf turf_handle
  | StaleCoreTurf turf_handle u32
  | StateCapacityExceeded
  | WorldAllocationFailed
  | ActiveStageConflict string
  | InvalidConductivity
  | SelfAdjacency u32
  | SelfTurfAdjacency turf_handle
  | TurfMissingMixture turf_handle
  | SelfTurfHeatAdjacency turf_handle
  | TurfHeatMissing turf_handle
  | InvalidTurfHeatState turf_handle
  | GraphFailed topology_error
  | GraphBuildFailed graph_error
  | HeatCountExceeded
  | GasMetadataFailed gas_metadata_error
  | ReactionMetadataFailed reaction_metadata_error
  | GasRegistryAlreadyInstalled
  | GasRegistryInstallationTooLate
  | GasRegistryMissing
  | ReactionRegistryAlreadyInstalled
  | ReactionRegistryInstallationTooLate
  | ReactionRegistryMissing
  | ContinuationFailed continuation_error
  | InvalidReactionResult u32
  | InvalidReactionProfileThreshold
  | EventCapacityExceeded u32 u32
  | PendingEventCountExceeded u32 u32
  | RevisionMismatch mixture_handle u32 u32
  | RevisionExhausted mixture_handle
  | DuplicateMixtureState u32
  | InvalidMixtureState
  | InvalidGasId gas_id
  | InvalidMoleAmount
  | InvalidMoleDelta
  | MoleOverflow gas_id
  | InvalidTemperature
  | InvalidVolume
  | InvalidMinimumHeatCapacity
  | InvalidAddend
  | InvalidMultiplier
  | InvalidHeat
  | InvalidHeatCapacity
  | InvalidRatio
  | SameMixtureHandles mixture_handle
  | DuplicateMutableTurfMixture mixture_handle
  | NativeReactionFailed native_reaction_error
  | ReactionWorkExceeded
  | NativeReactionCountExceeded
  | ReactionIndexExceeded

record world =
  wd_stage_active :: bool
  wd_mixtures :: "mixture_slot list"
  wd_turfs :: "core_turf_slot list"
  wd_edges :: "edge_key \<rightharpoonup> f32"
  wd_mixture_edges :: "u32 \<rightharpoonup> edge_key set"
  wd_mixture_turfs :: "mixture_handle \<rightharpoonup> u32 set"
  wd_topology :: packed_topology
  wd_heat_active :: "turf_handle list"
  wd_continuations :: continuation_table
  wd_max_world_bytes :: u64
  wd_graph :: "diffusion_graph option"
  wd_gas_registry :: "gas_registry option"
  wd_reaction_registry :: "reaction_registry option"
  wd_events :: "world_event list"
  wd_max_events :: u32

definition world_new :: "u64 \<Rightarrow> u32 \<Rightarrow> u32 \<Rightarrow> world" where
  "world_new max_world_bytes max_events max_continuations =
     \<lparr>wd_stage_active = False, wd_mixtures = [], wd_turfs = [], wd_edges = Map.empty,
      wd_mixture_edges = Map.empty, wd_mixture_turfs = Map.empty, wd_topology = packed_topology_default,
      wd_heat_active = [], wd_continuations = continuations_new max_continuations,
      wd_max_world_bytes = max_world_bytes, wd_graph = None,
      wd_gas_registry = None, wd_reaction_registry = None, wd_events = [], wd_max_events = max_events\<rparr>"

section \<open>Handles\<close>

definition require_handle :: "mixture_slot list \<Rightarrow> mixture_handle \<Rightarrow> (mixture_record, world_error) result" where
  "require_handle mixtures handle =
     (case vec_get mixtures (unat (mh_slot handle)) of
        None \<Rightarrow> Err (UnknownHandle handle)
      | Some slot \<Rightarrow>
        (case ms_generation slot of
          None \<Rightarrow> Err (UnknownHandle handle)
        | Some generation \<Rightarrow>
          if generation \<noteq> mh_generation handle then Err (StaleHandle handle generation)
          else ok_or (ms_mixture slot) (UnknownHandle handle)))"

definition require_turf :: "core_turf_slot list \<Rightarrow> turf_handle \<Rightarrow> (turf_record, world_error) result" where
  "require_turf turfs handle =
     (case vec_get turfs (unat (th_slot handle)) of
        None \<Rightarrow> Err (UnknownCoreTurf handle)
      | Some slot \<Rightarrow>
        (case cs_generation slot of
          None \<Rightarrow> Err (UnknownCoreTurf handle)
        | Some generation \<Rightarrow>
          if generation \<noteq> th_generation handle then Err (StaleCoreTurf handle generation)
          else ok_or (cs_turf slot) (UnknownCoreTurf handle)))"

definition current_turf_handle :: "core_turf_slot list \<Rightarrow> u32 \<Rightarrow> (turf_handle, world_error) result" where
  "current_turf_handle turfs slot =
     (case vec_get turfs (unat slot) of
        None \<Rightarrow> Err (UnknownCoreTurf (TurfHandle slot 0))
      | Some turf_slot \<Rightarrow>
        (case cs_generation turf_slot of
          None \<Rightarrow> Err (UnknownCoreTurf (TurfHandle slot 0))
        | Some generation \<Rightarrow>
          rbind (require_turf turfs (TurfHandle slot generation)) (\<lambda>_. Ok (TurfHandle slot generation))))"

definition projected_slot :: "mixture_slot list \<Rightarrow> u32 \<Rightarrow> projected_slot" where
  "projected_slot mixtures slot =
     (case vec_get mixtures (unat slot) of
        None \<Rightarrow> \<lparr>ps_generation = None, ps_occupied = False\<rparr>
      | Some s \<Rightarrow> \<lparr>ps_generation = ms_generation s, ps_occupied = ms_mixture s \<noteq> None\<rparr>)"

definition projected_turf_slot :: "core_turf_slot list \<Rightarrow> u32 \<Rightarrow> projected_slot" where
  "projected_turf_slot turfs slot =
     (case vec_get turfs (unat slot) of
        None \<Rightarrow> \<lparr>ps_generation = None, ps_occupied = False\<rparr>
      | Some s \<Rightarrow> \<lparr>ps_generation = cs_generation s, ps_occupied = cs_turf s \<noteq> None\<rparr>)"

section \<open>Capacity\<close>

text \<open>The sizes of a mixture slot and of a turf slot in bytes are the compiler's.\<close>

definition checked_u64 :: "nat \<Rightarrow> (nat, world_error) result" where
  "checked_u64 n = (if n < 2 ^ 64 then Ok n else Err StateCapacityExceeded)"

definition validate_world_capacity :: "nat \<times> nat \<Rightarrow> u64 \<Rightarrow> nat \<Rightarrow> nat \<Rightarrow> (unit, world_error) result" where
  "validate_world_capacity sizes max_world_bytes mixture_slots turf_slots =
     rbind (checked_u64 (mixture_slots * fst sizes)) (\<lambda>mixture_bytes.
     rbind (checked_u64 (turf_slots * snd sizes)) (\<lambda>turf_bytes.
     rbind (checked_u64 (mixture_bytes + turf_bytes)) (\<lambda>world_bytes.
     if world_bytes > unat max_world_bytes then Err StateCapacityExceeded else Ok ())))"

definition validate_slot_capacity :: "nat \<times> nat \<Rightarrow> world \<Rightarrow> u32 \<Rightarrow> (unit, world_error) result" where
  "validate_slot_capacity sizes w slot =
     validate_world_capacity sizes (wd_max_world_bytes w) (unat slot + 1) (length (wd_turfs w))"

definition validate_turf_slot_capacity :: "nat \<times> nat \<Rightarrow> world \<Rightarrow> u32 \<Rightarrow> (unit, world_error) result" where
  "validate_turf_slot_capacity sizes w slot =
     validate_world_capacity sizes (wd_max_world_bytes w) (length (wd_mixtures w)) (unat slot + 1)"

section \<open>Reverse indexes\<close>

text \<open>Removing an element from the set of a key, and the key with its last element.\<close>

definition index_insert :: "'k \<Rightarrow> 'a \<Rightarrow> ('k \<rightharpoonup> 'a set) \<Rightarrow> ('k \<rightharpoonup> 'a set)" where
  "index_insert k x m = m(k \<mapsto> insert x (case m k of Some S \<Rightarrow> S | None \<Rightarrow> {}))"

definition index_remove :: "'k \<Rightarrow> 'a \<Rightarrow> ('k \<rightharpoonup> 'a set) \<Rightarrow> ('k \<rightharpoonup> 'a set)" where
  "index_remove k x m =
     (case m k of Some S \<Rightarrow> if S - {x} = {} then m(k := None) else m(k \<mapsto> S - {x}) | None \<Rightarrow> m)"

definition turf_mixture_at :: "core_turf_slot list \<Rightarrow> u32 \<Rightarrow> mixture_handle option" where
  "turf_mixture_at turfs slot =
     (case vec_get turfs (unat slot) of
        Some s \<Rightarrow> (case cs_turf s of Some turf \<Rightarrow> tr_mixture turf | None \<Rightarrow> None) | None \<Rightarrow> None)"

definition unlink_turf_mixture :: "u32 \<Rightarrow> world \<Rightarrow> world" where
  "unlink_turf_mixture slot w =
     (case turf_mixture_at (wd_turfs w) slot of
        Some mixture \<Rightarrow> w\<lparr>wd_mixture_turfs := index_remove mixture slot (wd_mixture_turfs w)\<rparr>
      | None \<Rightarrow> w)"

definition unlink_mixture_edge :: "edge_key \<Rightarrow> world \<Rightarrow> world" where
  "unlink_mixture_edge key w =
     w\<lparr>wd_mixture_edges := index_remove (ek_right key) key (index_remove (ek_left key) key (wd_mixture_edges w))\<rparr>"

definition remove_mixture_edge :: "edge_key \<Rightarrow> world \<Rightarrow> world" where
  "remove_mixture_edge key w = unlink_mixture_edge key (w\<lparr>wd_edges := (wd_edges w)(key := None)\<rparr>)"

definition remove_incident_mixture_edges :: "u32 \<Rightarrow> world \<Rightarrow> world" where
  "remove_incident_mixture_edges slot w =
     (case wd_mixture_edges w slot of
        None \<Rightarrow> w
      | Some keys \<Rightarrow>
          fold remove_mixture_edge (sorted_list_of_set keys)
            (w\<lparr>wd_mixture_edges := (wd_mixture_edges w)(slot := None)\<rparr>))"

end
