(* ===== verification/World_Lifecycle.thy ===== *)
theory World_Lifecycle
  imports World_State
begin

text \<open>
  The batches by which the game registers and removes mixtures and turfs and connects them
  (\<^verbatim>\<open>apply_lifecycle\<close> to \<^verbatim>\<open>apply_adjacency\<close> of \<^verbatim>\<open>crates/dogmos-core/src/world.rs\<close>).
  Every batch is validated against projected slots before the first change, where the code does so.
  \<open>alloc\<close> answers the reservations of a batch in their order.
\<close>

section \<open>Changes of the topology\<close>

text \<open>A change of the topology whose result is dropped.\<close>

definition on_topology ::
  "(packed_topology \<Rightarrow> ('a, topology_error) result \<times> packed_topology) \<Rightarrow> world \<Rightarrow> (world, world_error) result" where
  "on_topology f w =
     (case f (wd_topology w) of (Panic, _) \<Rightarrow> Panic | (_, t) \<Rightarrow> Ok (w\<lparr>wd_topology := t\<rparr>))"

text \<open>A change of the topology whose error is passed on, with the changes made so far kept.\<close>

definition try_topology ::
  "(packed_topology \<Rightarrow> ('a, topology_error) result \<times> packed_topology) \<Rightarrow> world \<Rightarrow> (unit, world_error) result \<times> world" where
  "try_topology f w =
     (case f (wd_topology w) of
        (Ok _, t) \<Rightarrow> (Ok (), w\<lparr>wd_topology := t\<rparr>)
      | (Err AllocationFailed, t) \<Rightarrow> (Err WorldAllocationFailed, w\<lparr>wd_topology := t\<rparr>)
      | (Err e, t) \<Rightarrow> (Err (GraphFailed e), w\<lparr>wd_topology := t\<rparr>)
      | (Panic, t) \<Rightarrow> (Panic, w\<lparr>wd_topology := t\<rparr>))"

text \<open>A loop that stops at the first error and keeps what it has changed.\<close>

fun keep_loop ::
  "('i \<Rightarrow> 's \<Rightarrow> (unit, 'e) result \<times> 's) \<Rightarrow> 'i list \<Rightarrow> 's \<Rightarrow> (unit, 'e) result \<times> 's" where
  "keep_loop f [] s = (Ok (), s)"
| "keep_loop f (i # is) s =
     (case f i s of (Ok _, s) \<Rightarrow> keep_loop f is s | stopped \<Rightarrow> stopped)"

section \<open>Incident edges\<close>

definition remove_incident_turf_edges :: "u32 \<Rightarrow> world \<Rightarrow> (world, world_error) result" where
  "remove_incident_turf_edges slot = on_topology (remove_slot slot)"

text \<open>The reconnections ask for no new topology slot, so their reservation always succeeds.\<close>

definition remove_incident_gas_edges :: "u32 \<Rightarrow> world \<Rightarrow> (world, world_error) result" where
  "remove_incident_gas_edges slot w =
     (let heat_partners =
            (case current_turf_handle (wd_turfs w) slot of
               Ok handle \<Rightarrow> map tn_handle (heat_neighbors (wd_topology w) handle) | _ \<Rightarrow> [])
      in rbind (on_topology (remove_slot slot) w) (\<lambda>w.
         case current_turf_handle (wd_turfs w) slot of
           Ok this \<Rightarrow> rfold (\<lambda>other. on_topology (connect_heat (\<lambda>_. True) this other)) heat_partners w
         | _ \<Rightarrow> Ok w))"

definition remove_incident_heat_edges :: "u32 \<Rightarrow> world \<Rightarrow> (world, world_error) result" where
  "remove_incident_heat_edges slot w =
     (let gas_partners =
            (case current_turf_handle (wd_turfs w) slot of
               Ok handle \<Rightarrow> gas_neighbors (wd_topology w) handle | _ \<Rightarrow> [])
      in rbind (on_topology (remove_slot slot) w) (\<lambda>w.
         case current_turf_handle (wd_turfs w) slot of
           Ok this \<Rightarrow>
             rfold (\<lambda>other w. rbind (on_topology (connect_gas (\<lambda>_. True) this (tn_handle other)) w)
               (on_topology (set_firelock this (tn_handle other) (tn_firelock other)))) gas_partners w
         | _ \<Rightarrow> Ok w))"

section \<open>Active heat\<close>

definition update_turf :: "u32 \<Rightarrow> (turf_record \<Rightarrow> turf_record) \<Rightarrow> world \<Rightarrow> world" where
  "update_turf slot f w =
     w\<lparr>wd_turfs := (wd_turfs w)[unat slot := (wd_turfs w ! unat slot)
        \<lparr>cs_turf := map_option f (cs_turf (wd_turfs w ! unat slot))\<rparr>]\<rparr>"

text \<open>\<open>Vec::swap_remove\<close>.\<close>

definition swap_remove :: "nat \<Rightarrow> 'a list \<Rightarrow> 'a list" where
  "swap_remove i xs = butlast (xs[i := last xs])"

definition heat_index_at :: "core_turf_slot list \<Rightarrow> u32 \<Rightarrow> u32 option" where
  "heat_index_at turfs slot =
     (case vec_get turfs (unat slot) of
        Some s \<Rightarrow> (case cs_turf s of Some turf \<Rightarrow> tr_heat_active_index turf | None \<Rightarrow> None) | None \<Rightarrow> None)"

definition deactivate_turf_heat_slot :: "u32 \<Rightarrow> world \<Rightarrow> (world, world_error) result" where
  "deactivate_turf_heat_slot slot w =
     (case heat_index_at (wd_turfs w) slot of
        None \<Rightarrow> Ok w
      | Some index \<Rightarrow>
          if length (wd_heat_active w) \<le> unat index then Panic
          else
            let active = swap_remove (unat index) (wd_heat_active w);
                w = w\<lparr>wd_heat_active := active\<rparr>
            in rbind
                 (case vec_get active (unat index) of
                    None \<Rightarrow> Ok w
                  | Some moved \<Rightarrow>
                      (case require_turf (wd_turfs w) moved of
                         Ok _ \<Rightarrow> Ok (update_turf (th_slot moved) (\<lambda>r. r\<lparr>tr_heat_active_index := Some index\<rparr>) w)
                       | _ \<Rightarrow> Panic))
                 (\<lambda>w. Ok (update_turf slot (\<lambda>r. r\<lparr>tr_heat_active_index := None\<rparr>) w)))"

definition activate_turf_heat ::
  "bool \<Rightarrow> turf_handle \<Rightarrow> world \<Rightarrow> (world, world_error) result" where
  "activate_turf_heat alloc handle w =
     rbind (require_turf (wd_turfs w) handle) (\<lambda>turf.
     if tr_heat_active_index turf \<noteq> None then Ok w
     else if \<not> alloc then Err WorldAllocationFailed
     else rbind (ok_or (u32_try_from (length (wd_heat_active w))) HeatCountExceeded) (\<lambda>index.
       Ok (update_turf (th_slot handle) (\<lambda>r. r\<lparr>tr_heat_active_index := Some index\<rparr>)
         (w\<lparr>wd_heat_active := wd_heat_active w @ [handle]\<rparr>))))"

section \<open>Mixture lifecycle\<close>

datatype core_lifecycle_action = RegisterMixture | UnregisterMixture

record core_lifecycle_mutation =
  lm_action :: core_lifecycle_action
  lm_handle :: mixture_handle

text \<open>One round of the validation loop: the projected slots and the number of slots required so far.\<close>

definition validate_lifecycle_mutation ::
  "nat \<times> nat \<Rightarrow> world \<Rightarrow> core_lifecycle_mutation \<Rightarrow> (u32 \<rightharpoonup> projected_slot) \<times> nat \<Rightarrow>
   ((u32 \<rightharpoonup> projected_slot) \<times> nat, world_error) result" where
  "validate_lifecycle_mutation sizes w mutation = (\<lambda>(projected, required_slots).
     let handle = lm_handle mutation;
         slot = mh_slot handle
     in rbind (validate_slot_capacity sizes w slot) (\<lambda>_.
        let required_slots = max required_slots (unat slot + 1);
            current_slot = (case projected slot of Some p \<Rightarrow> p | None \<Rightarrow> projected_slot (wd_mixtures w) slot);
            conflicts = (case lm_action mutation of
              RegisterMixture \<Rightarrow> ps_occupied current_slot \<and> ps_generation current_slot \<noteq> Some (mh_generation handle)
            | UnregisterMixture \<Rightarrow> True)
        in if wd_stage_active w \<and> conflicts then Err (ActiveStageConflict ''apply mixture lifecycle'')
           else (case lm_action mutation of
             RegisterMixture \<Rightarrow>
               (case ps_generation current_slot of
                  Some generation \<Rightarrow>
                    if mh_generation handle < generation \<or>
                       \<not> ps_occupied current_slot \<and> mh_generation handle = generation
                    then Err (StaleHandle handle generation)
                    else Ok (projected(slot \<mapsto>
                        \<lparr>ps_generation = Some (mh_generation handle), ps_occupied = True\<rparr>), required_slots)
                | None \<Rightarrow> Ok (projected(slot \<mapsto>
                        \<lparr>ps_generation = Some (mh_generation handle), ps_occupied = True\<rparr>), required_slots))
           | UnregisterMixture \<Rightarrow>
               (case ps_generation current_slot of
                  None \<Rightarrow> Err (UnknownHandle handle)
                | Some generation \<Rightarrow>
                    if mh_generation handle \<noteq> generation then Err (StaleHandle handle generation)
                    else if \<not> ps_occupied current_slot then Err (UnknownHandle handle)
                    else Ok (projected(slot \<mapsto>
                        \<lparr>ps_generation = Some generation, ps_occupied = False\<rparr>), required_slots)))))"

definition set_mixture_slot :: "u32 \<Rightarrow> mixture_slot \<Rightarrow> world \<Rightarrow> world" where
  "set_mixture_slot slot s w = w\<lparr>wd_mixtures := (wd_mixtures w)[unat slot := s]\<rparr>"

text \<open>One round of the loop that applies: the world and the slots whose edges are dropped after it.\<close>

definition apply_lifecycle_mutation ::
  "core_lifecycle_mutation \<Rightarrow> world \<times> u32 set \<Rightarrow> (world \<times> u32 set, world_error) result" where
  "apply_lifecycle_mutation mutation = (\<lambda>(w, invalidated).
     let slot = mh_slot (lm_handle mutation) in
     case vec_get (wd_mixtures w) (unat slot) of
       None \<Rightarrow> Panic
     | Some s \<Rightarrow>
         let w' = w\<lparr>wd_continuations := invalidate_continuations_for_mixture_slot slot (wd_continuations w)\<rparr>
         in (case lm_action mutation of
           RegisterMixture \<Rightarrow>
             if ms_generation s \<noteq> Some (mh_generation (lm_handle mutation)) \<or> ms_mixture s = None
             then Ok (set_mixture_slot slot \<lparr>ms_generation = Some (mh_generation (lm_handle mutation)),
                   ms_mixture = Some mixture_record_new\<rparr> w', insert slot invalidated)
             else Ok (w, invalidated)
         | UnregisterMixture \<Rightarrow>
             Ok (set_mixture_slot slot (s\<lparr>ms_mixture := None\<rparr>) w', insert slot invalidated)))"

text \<open>Every turf of a removed mixture loses it and its edges.\<close>

definition detach_turf :: "u32 \<Rightarrow> world \<Rightarrow> (world, world_error) result" where
  "detach_turf slot w =
     (if length (wd_turfs w) \<le> unat slot then Panic
      else remove_incident_turf_edges slot (update_turf slot (\<lambda>r. r\<lparr>tr_mixture := None\<rparr>) w))"

definition detach_mixture :: "mixture_handle \<Rightarrow> world \<Rightarrow> (world, world_error) result" where
  "detach_mixture mixture w =
     (case wd_mixture_turfs w mixture of
        None \<Rightarrow> Ok w
      | Some turfs \<Rightarrow>
          rfold detach_turf (sorted_list_of_set turfs)
            (w\<lparr>wd_mixture_turfs := (wd_mixture_turfs w)(mixture := None)\<rparr>))"

definition unregistering :: "core_lifecycle_mutation list \<Rightarrow> mixture_handle list" where
  "unregistering mutations = sorted_list_of_set
     (lm_handle ` {m \<in> set mutations. lm_action m = UnregisterMixture})"

definition apply_lifecycle ::
  "nat \<times> nat \<Rightarrow> bool \<times> bool \<Rightarrow> core_lifecycle_mutation list \<Rightarrow> world \<Rightarrow> (u32, world_error) result \<times> world" where
  "apply_lifecycle sizes alloc mutations w =
     (case rfold (validate_lifecycle_mutation sizes w) mutations (Map.empty, length (wd_mixtures w)) of
        Err e \<Rightarrow> (Err e, w) | Panic \<Rightarrow> (Panic, w)
      | Ok (_, required_slots) \<Rightarrow>
          if required_slots > length (wd_mixtures w) \<and> \<not> fst alloc then (Err WorldAllocationFailed, w)
          else
            let w = w\<lparr>wd_mixtures := wd_mixtures w @
                replicate (required_slots - length (wd_mixtures w)) mixture_slot_default\<rparr>
            in if mutations \<noteq> [] \<and> \<not> snd alloc then (Err WorldAllocationFailed, w)
               else (case rfold apply_lifecycle_mutation mutations (w, {}) of
                   Ok (w, invalidated) \<Rightarrow>
                     (case rfold detach_mixture (unregistering mutations)
                          ((fold remove_incident_mixture_edges (sorted_list_of_set invalidated) w)
                             \<lparr>wd_graph := if invalidated = {} then wd_graph w else None\<rparr>) of
                        Ok w \<Rightarrow> (Ok (word_of_nat (length mutations)), w)
                      | Err e \<Rightarrow> (Err e, w) | Panic \<Rightarrow> (Panic, w))
                 | Err e \<Rightarrow> (Err e, w) | Panic \<Rightarrow> (Panic, w)))"

section \<open>Turf lifecycle\<close>

datatype core_turf_mutation =
    RegisterTurf turf_handle "mixture_handle option"
  | UnregisterTurf turf_handle

primrec tm_handle :: "core_turf_mutation \<Rightarrow> turf_handle" where
  "tm_handle (RegisterTurf handle mixture) = handle"
| "tm_handle (UnregisterTurf handle) = handle"

primrec tm_mixture :: "core_turf_mutation \<Rightarrow> mixture_handle option" where
  "tm_mixture (RegisterTurf handle mixture) = mixture"
| "tm_mixture (UnregisterTurf handle) = None"

definition validate_turf_mutation ::
  "nat \<times> nat \<Rightarrow> world \<Rightarrow> core_turf_mutation \<Rightarrow> (u32 \<rightharpoonup> projected_slot) \<times> nat \<Rightarrow>
   ((u32 \<rightharpoonup> projected_slot) \<times> nat, world_error) result" where
  "validate_turf_mutation sizes w mutation = (\<lambda>(projected, required_slots).
     let handle = tm_handle mutation;
         slot = th_slot handle
     in rbind (case tm_mixture mutation of
                 Some mixture \<Rightarrow> rbind (require_handle (wd_mixtures w) mixture) (\<lambda>_. Ok ())
               | None \<Rightarrow> Ok ()) (\<lambda>_.
        rbind (validate_turf_slot_capacity sizes w slot) (\<lambda>_.
        let required_slots = max required_slots (unat slot + 1);
            current_slot = (case projected slot of Some p \<Rightarrow> p | None \<Rightarrow> projected_turf_slot (wd_turfs w) slot)
        in (case mutation of
             RegisterTurf _ _ \<Rightarrow>
               (case ps_generation current_slot of
                  Some generation \<Rightarrow>
                    if th_generation handle < generation \<or>
                       \<not> ps_occupied current_slot \<and> th_generation handle = generation
                    then Err (StaleCoreTurf handle generation)
                    else Ok (projected(slot \<mapsto>
                        \<lparr>ps_generation = Some (th_generation handle), ps_occupied = True\<rparr>), required_slots)
                | None \<Rightarrow> Ok (projected(slot \<mapsto>
                        \<lparr>ps_generation = Some (th_generation handle), ps_occupied = True\<rparr>), required_slots))
           | UnregisterTurf _ \<Rightarrow>
               (case ps_generation current_slot of
                  None \<Rightarrow> Err (UnknownCoreTurf handle)
                | Some generation \<Rightarrow>
                    if th_generation handle \<noteq> generation then Err (StaleCoreTurf handle generation)
                    else if \<not> ps_occupied current_slot then Err (UnknownCoreTurf handle)
                    else Ok (projected(slot \<mapsto>
                        \<lparr>ps_generation = Some generation, ps_occupied = False\<rparr>), required_slots))))))"

definition set_turf_slot :: "u32 \<Rightarrow> core_turf_slot \<Rightarrow> world \<Rightarrow> world" where
  "set_turf_slot slot s w = w\<lparr>wd_turfs := (wd_turfs w)[unat slot := s]\<rparr>"

definition invalidate_turf :: "u32 \<Rightarrow> world \<Rightarrow> world" where
  "invalidate_turf slot w =
     w\<lparr>wd_continuations := invalidate_continuations_for_turf_slot slot (wd_continuations w)\<rparr>"

definition register_turf ::
  "turf_handle \<Rightarrow> mixture_handle option \<Rightarrow> world \<Rightarrow> (world, world_error) result" where
  "register_turf handle mixture w =
     (let slot = th_slot handle;
          s = wd_turfs w ! unat slot;
          same = cs_generation s = Some (th_generation handle);
          invalidates = (\<not> same \<or>
            (case cs_turf s of Some turf \<Rightarrow> tr_mixture turf \<noteq> mixture | None \<Rightarrow> True));
          w = (if invalidates then invalidate_turf slot w else w)
      in rbind (if same then Ok w
                else rbind (deactivate_turf_heat_slot slot w) (remove_incident_turf_edges slot)) (\<lambda>w.
         let s = wd_turfs w ! unat slot;
             heat = (if same then (case cs_turf s of Some turf \<Rightarrow> tr_heat turf | None \<Rightarrow> None) else None);
             heat_active_index =
               (if same then (case cs_turf s of Some turf \<Rightarrow> tr_heat_active_index turf | None \<Rightarrow> None) else None);
             w = set_turf_slot slot \<lparr>cs_generation = Some (th_generation handle),
                 cs_turf = Some \<lparr>tr_mixture = mixture, tr_heat = heat,
                   tr_heat_active_index = heat_active_index\<rparr>\<rparr> w;
             w = (case mixture of
                 Some m \<Rightarrow> w\<lparr>wd_mixture_turfs := index_insert m slot (wd_mixture_turfs w)\<rparr>
               | None \<Rightarrow> w)
         in rbind (if mixture = None then remove_incident_gas_edges slot w else Ok w) (\<lambda>w.
            if heat = None then remove_incident_heat_edges slot w else Ok w)))"

definition unregister_turf :: "turf_handle \<Rightarrow> world \<Rightarrow> (world, world_error) result" where
  "unregister_turf handle w =
     (let slot = th_slot handle in
      rbind (deactivate_turf_heat_slot slot (invalidate_turf slot w)) (\<lambda>w.
      rbind (remove_incident_turf_edges slot
        (set_turf_slot slot ((wd_turfs w ! unat slot)\<lparr>cs_turf := None\<rparr>) w))
        (remove_incident_heat_edges slot)))"

definition apply_turf_mutation :: "core_turf_mutation \<Rightarrow> world \<Rightarrow> (world, world_error) result" where
  "apply_turf_mutation mutation w =
     (let slot = th_slot (tm_handle mutation);
          w = unlink_turf_mixture slot w
      in if length (wd_turfs w) \<le> unat slot then Panic
         else case mutation of
           RegisterTurf handle mixture \<Rightarrow> register_turf handle mixture w
         | UnregisterTurf handle \<Rightarrow> unregister_turf handle w)"

definition apply_turf_lifecycle ::
  "nat \<times> nat \<Rightarrow> bool \<times> bool \<Rightarrow> core_turf_mutation list \<Rightarrow> world \<Rightarrow> (u32, world_error) result \<times> world" where
  "apply_turf_lifecycle sizes alloc mutations w =
     (if wd_stage_active w then (Err (ActiveStageConflict ''apply turf lifecycle''), w)
      else case rfold (validate_turf_mutation sizes w) mutations (Map.empty, length (wd_turfs w)) of
        Err e \<Rightarrow> (Err e, w) | Panic \<Rightarrow> (Panic, w)
      | Ok (_, required_slots) \<Rightarrow>
          if required_slots > length (wd_turfs w) \<and> \<not> fst alloc then (Err WorldAllocationFailed, w)
          else
            let w = w\<lparr>wd_turfs := wd_turfs w @
                replicate (required_slots - length (wd_turfs w)) turf_slot_default\<rparr>
            in if mutations \<noteq> [] \<and> \<not> snd alloc then (Err WorldAllocationFailed, w)
               else (case rfold apply_turf_mutation mutations w of
                   Ok w \<Rightarrow> (Ok (word_of_nat (length mutations)), w)
                 | Err e \<Rightarrow> (Err e, w) | Panic \<Rightarrow> (Panic, w)))"

section \<open>Adjacency\<close>

record core_turf_adjacency =
  ca_left :: turf_handle
  ca_right :: turf_handle
  ca_connected :: bool

definition apply_turf_adjacency_mutation ::
  "(nat \<Rightarrow> bool) \<Rightarrow> core_turf_adjacency \<Rightarrow> world \<Rightarrow> (unit, world_error) result \<times> world" where
  "apply_turf_adjacency_mutation alloc mutation w =
     (case rbind (require_turf (wd_turfs w) (ca_left mutation)) (\<lambda>left.
           rbind (require_turf (wd_turfs w) (ca_right mutation)) (\<lambda>right.
           if tr_mixture left = None then Err (TurfMissingMixture (ca_left mutation))
           else if tr_mixture right = None then Err (TurfMissingMixture (ca_right mutation))
           else if th_slot (ca_left mutation) = th_slot (ca_right mutation)
           then Err (SelfTurfAdjacency (ca_left mutation)) else Ok ())) of
        Err e \<Rightarrow> (Err e, w) | Panic \<Rightarrow> (Panic, w)
      | Ok _ \<Rightarrow>
          if ca_connected mutation
          then try_topology (connect_gas alloc (ca_left mutation) (ca_right mutation)) w
          else try_topology (disconnect_gas (ca_left mutation) (ca_right mutation)) w)"

definition counted :: "'i list \<Rightarrow> (unit, 'e) result \<times> 's \<Rightarrow> (u32, 'e) result \<times> 's" where
  "counted mutations m = (case m of
     (Ok _, w) \<Rightarrow> (Ok (word_of_nat (length mutations)), w) | (Err e, w) \<Rightarrow> (Err e, w) | (Panic, w) \<Rightarrow> (Panic, w))"

definition apply_turf_adjacency ::
  "(nat \<Rightarrow> bool) \<Rightarrow> core_turf_adjacency list \<Rightarrow> world \<Rightarrow> (u32, world_error) result \<times> world" where
  "apply_turf_adjacency alloc mutations w =
     (if wd_stage_active w then (Err (ActiveStageConflict ''apply turf adjacency''), w)
      else counted mutations (keep_loop (apply_turf_adjacency_mutation alloc) mutations w))"

record core_turf_firelock =
  cf_left :: turf_handle
  cf_right :: turf_handle
  cf_firelock :: bool

definition apply_turf_firelock_mutation ::
  "core_turf_firelock \<Rightarrow> world \<Rightarrow> (unit, world_error) result \<times> world" where
  "apply_turf_firelock_mutation mutation w =
     (case rbind (require_turf (wd_turfs w) (cf_left mutation)) (\<lambda>_.
           rbind (require_turf (wd_turfs w) (cf_right mutation)) (\<lambda>_.
           if th_slot (cf_left mutation) = th_slot (cf_right mutation)
           then Err (SelfTurfAdjacency (cf_left mutation)) else Ok ())) of
        Err e \<Rightarrow> (Err e, w) | Panic \<Rightarrow> (Panic, w)
      | Ok _ \<Rightarrow> try_topology (set_firelock (cf_left mutation) (cf_right mutation) (cf_firelock mutation)) w)"

definition apply_turf_firelocks ::
  "core_turf_firelock list \<Rightarrow> world \<Rightarrow> (u32, world_error) result \<times> world" where
  "apply_turf_firelocks mutations w =
     (if wd_stage_active w then (Err (ActiveStageConflict ''apply turf firelocks''), w)
      else counted mutations (keep_loop apply_turf_firelock_mutation mutations w))"

definition apply_turf_heat_adjacency_mutation ::
  "(nat \<Rightarrow> bool) \<Rightarrow> core_turf_adjacency \<Rightarrow> world \<Rightarrow> (unit, world_error) result \<times> world" where
  "apply_turf_heat_adjacency_mutation alloc mutation w =
     (case rbind (require_turf (wd_turfs w) (ca_left mutation)) (\<lambda>left.
           rbind (require_turf (wd_turfs w) (ca_right mutation)) (\<lambda>right.
           if tr_heat left = None then Err (TurfHeatMissing (ca_left mutation))
           else if tr_heat right = None then Err (TurfHeatMissing (ca_right mutation))
           else if th_slot (ca_left mutation) = th_slot (ca_right mutation)
           then Err (SelfTurfHeatAdjacency (ca_left mutation)) else Ok ())) of
        Err e \<Rightarrow> (Err e, w) | Panic \<Rightarrow> (Panic, w)
      | Ok _ \<Rightarrow>
          if ca_connected mutation
          then try_topology (connect_heat alloc (ca_left mutation) (ca_right mutation)) w
          else try_topology (disconnect_heat (ca_left mutation) (ca_right mutation)) w)"

definition apply_turf_heat_adjacency ::
  "(nat \<Rightarrow> bool) \<Rightarrow> core_turf_adjacency list \<Rightarrow> world \<Rightarrow> (u32, world_error) result \<times> world" where
  "apply_turf_heat_adjacency alloc mutations w =
     (if wd_stage_active w then (Err (ActiveStageConflict ''apply turf heat adjacency''), w)
      else counted mutations (keep_loop (apply_turf_heat_adjacency_mutation alloc) mutations w))"

text \<open>Edges between mixtures, and the diffusion graph over the occupied slots.\<close>

definition mixture_node :: "nat \<times> mixture_slot \<Rightarrow> graph_node list \<Rightarrow> (graph_node list, world_error) result" where
  "mixture_node = (\<lambda>(slot, s) nodes.
     if ms_mixture s = None then Ok nodes
     else case ms_generation s of
       None \<Rightarrow> Panic
     | Some generation \<Rightarrow> Ok (nodes @ [\<lparr>gn_handle = word_of_nat slot, gn_generation = generation,
         gn_mixture = Some (MixtureHandle (word_of_nat slot) generation)\<rparr>]))"

definition both_directions :: "edge_key \<Rightarrow> directed_edge list" where
  "both_directions key = [DirectedEdge (ek_left key) (ek_right key), DirectedEdge (ek_right key) (ek_left key)]"

definition build_graph :: "mixture_slot list \<Rightarrow> (edge_key \<rightharpoonup> f32) \<Rightarrow> (diffusion_graph, world_error) result" where
  "build_graph mixtures edges =
     rbind (rfold mixture_node (enumerate 0 mixtures) []) (\<lambda>nodes.
     map_err GraphBuildFailed (validate_graph nodes
       (concat (map both_directions (sorted_list_of_set (dom edges))))))"

record core_adjacency =
  ad_left :: mixture_handle
  ad_right :: mixture_handle
  ad_conductivity :: f32

definition edge_key_new :: "u32 \<Rightarrow> u32 \<Rightarrow> (edge_key, world_error) result" where
  "edge_key_new left right =
     (if left = right then Err (SelfAdjacency left) else Ok (EdgeKey (min left right) (max left right)))"

definition insert_mixture_edge :: "edge_key \<Rightarrow> f32 \<Rightarrow> world \<Rightarrow> world" where
  "insert_mixture_edge key conductivity w =
     w\<lparr>wd_edges := (wd_edges w)(key \<mapsto> conductivity),
       wd_mixture_edges := index_insert (ek_right key) key (index_insert (ek_left key) key (wd_mixture_edges w))\<rparr>"

definition apply_adjacency_mutation ::
  "core_adjacency \<Rightarrow> world \<times> bool \<Rightarrow> (unit, world_error) result \<times> world \<times> bool" where
  "apply_adjacency_mutation mutation = (\<lambda>(w, changed).
     case rbind (require_handle (wd_mixtures w) (ad_left mutation)) (\<lambda>_.
          rbind (require_handle (wd_mixtures w) (ad_right mutation)) (\<lambda>_.
          if \<not> f32_is_finite (ad_conductivity mutation) \<or> f32_less (ad_conductivity mutation) 0
          then Err InvalidConductivity
          else edge_key_new (mh_slot (ad_left mutation)) (mh_slot (ad_right mutation)))) of
       Err e \<Rightarrow> (Err e, w, changed) | Panic \<Rightarrow> (Panic, w, changed)
     | Ok key \<Rightarrow>
         if f32_eq (ad_conductivity mutation) 0
         then (if wd_edges w key \<noteq> None then (Ok (), remove_mixture_edge key w, True) else (Ok (), w, changed))
         else (case wd_edges w key of
             Some old \<Rightarrow>
               if f32_eq old (ad_conductivity mutation)
               then (Ok (), w\<lparr>wd_edges := (wd_edges w)(key \<mapsto> ad_conductivity mutation)\<rparr>, changed)
               else (Ok (), insert_mixture_edge key (ad_conductivity mutation) w, True)
           | None \<Rightarrow> (Ok (), insert_mixture_edge key (ad_conductivity mutation) w, True)))"

definition apply_adjacency :: "core_adjacency list \<Rightarrow> world \<Rightarrow> (u32, world_error) result \<times> world" where
  "apply_adjacency mutations w =
     (case keep_loop apply_adjacency_mutation mutations (w, False) of
        (Ok _, w, changed) \<Rightarrow>
          if \<not> changed then (Ok (word_of_nat (length mutations)), w)
          else (case build_graph (wd_mixtures w) (wd_edges w) of
              Ok graph \<Rightarrow> (Ok (word_of_nat (length mutations)), w\<lparr>wd_graph := Some graph\<rparr>)
            | Err e \<Rightarrow> (Err e, w) | Panic \<Rightarrow> (Panic, w))
      | (Err e, w, _) \<Rightarrow> (Err e, w) | (Panic, w, _) \<Rightarrow> (Panic, w))"

section \<open>Turf heat\<close>

record core_turf_heat =
  ch_handle :: turf_handle
  ch_state :: "core_heat_state option"

definition valid_turf_heat_state :: "core_heat_state \<Rightarrow> bool" where
  "valid_turf_heat_state s \<longleftrightarrow> f32_is_finite (hs_temperature s) \<and>
     f32_is_finite (hs_thermal_conductivity s) \<and> f32_less 0 (hs_thermal_conductivity s) \<and>
     f32_is_finite (hs_heat_capacity s) \<and> f32_less 0 (hs_heat_capacity s)"

text \<open>373.15 K, 673.15 K and 0.01 moles.\<close>

definition minimum_temperature_for_superconduction :: f32 where
  "minimum_temperature_for_superconduction = 0x43BA9333"

definition minimum_temperature_start_superconduction :: f32 where
  "minimum_temperature_start_superconduction = 0x4428499A"

definition minimum_calculated_moles :: f32 where
  "minimum_calculated_moles = 0x3C23D70A"

definition turf_superconduction_temperature :: "turf_handle \<Rightarrow> f32 \<Rightarrow> world \<Rightarrow> (f32, world_error) result" where
  "turf_superconduction_temperature handle closed_turf_temperature w =
     rbind (require_turf (wd_turfs w) handle) (\<lambda>turf.
     case tr_mixture turf of
       None \<Rightarrow> Ok closed_turf_temperature
     | Some mixture \<Rightarrow>
         rbind (require_handle (wd_mixtures w) mixture) (\<lambda>mixture.
         if \<not> list_ex (\<lambda>amount. f32_less_eq minimum_calculated_moles amount) (mx_gases mixture)
         then Ok closed_turf_temperature
         else Ok (f32_max closed_turf_temperature (mx_temperature mixture))))"

text \<open>One round of the second loop, after the batch was validated and the reservation made.\<close>

definition apply_turf_heat_mutation ::
  "core_turf_heat \<Rightarrow> world \<Rightarrow> (unit, world_error) result \<times> world" where
  "apply_turf_heat_mutation mutation w =
     (let handle = ch_handle mutation; slot = th_slot handle in
      case vec_get (wd_turfs w) (unat slot) of
        None \<Rightarrow> (Panic, w)
      | Some s \<Rightarrow>
          (case cs_turf s of
             None \<Rightarrow> (Panic, w)
           | Some turf \<Rightarrow>
               let was_active = tr_heat_active_index turf \<noteq> None;
                   w = update_turf slot (\<lambda>r. r\<lparr>tr_heat := ch_state mutation\<rparr>) w;
                   threshold = (if was_active then minimum_temperature_for_superconduction
                     else minimum_temperature_start_superconduction)
               in (case (case ch_state mutation of
                          Some state \<Rightarrow> rbind (turf_superconduction_temperature handle (hs_temperature state) w)
                            (\<lambda>temperature. Ok (f32_less_eq threshold temperature))
                        | None \<Rightarrow> Ok False) of
                     Err e \<Rightarrow> (Err e, w) | Panic \<Rightarrow> (Panic, w)
                   | Ok active \<Rightarrow>
                       (case (if active then activate_turf_heat True handle w
                              else deactivate_turf_heat_slot slot w) of
                          Err e \<Rightarrow> (Err e, w) | Panic \<Rightarrow> (Panic, w)
                        | Ok w \<Rightarrow>
                            (if ch_state mutation = None
                             then (case remove_incident_heat_edges slot w of
                                 Ok w \<Rightarrow> (Ok (), w) | Err e \<Rightarrow> (Err e, w) | Panic \<Rightarrow> (Panic, w))
                             else (Ok (), w))))))"

definition apply_turf_heat ::
  "bool \<Rightarrow> core_turf_heat list \<Rightarrow> world \<Rightarrow> (u32, world_error) result \<times> world" where
  "apply_turf_heat alloc mutations w =
     (if wd_stage_active w then (Err (ActiveStageConflict ''apply turf heat''), w)
      else case rforeach (\<lambda>mutation. rbind (require_turf (wd_turfs w) (ch_handle mutation)) (\<lambda>_.
          case ch_state mutation of
            Some state \<Rightarrow> if valid_turf_heat_state state then Ok () else Err (InvalidTurfHeatState (ch_handle mutation))
          | None \<Rightarrow> Ok ())) mutations of
        Err e \<Rightarrow> (Err e, w) | Panic \<Rightarrow> (Panic, w)
      | Ok _ \<Rightarrow>
          if \<not> alloc then (Err WorldAllocationFailed, w)
          else counted mutations (keep_loop apply_turf_heat_mutation mutations w))"

end
