(* ===== verification/World_Graph.thy ===== *)
theory World_Graph
  imports World_Lifecycle
begin

text \<open>
  What the removal of incident edges does to the graph of turfs: \<open>remove_slot\<close> drops both layers, and
  \<open>remove_incident_gas_edges\<close> and \<open>remove_incident_heat_edges\<close> reconnect the layer that stays, with its
  firelocks.
\<close>

section \<open>Edges at a slot put back one by one\<close>

definition put_back :: "('a \<times> 'a \<rightharpoonup> bool) \<Rightarrow> 'a \<Rightarrow> 'a set \<Rightarrow> ('a \<times> 'a \<rightharpoonup> bool)" where
  "put_back E s P = (\<lambda>(a, b). if a = s \<and> b \<notin> P \<or> b = s \<and> a \<notin> P then None else E (a, b))"

lemma put_back_empty: "put_back E s {} = isolate E s"
  by (auto simp: put_back_def isolate_def)

lemma put_back_all:
  assumes "\<And>a b. E (a, b) = E (b, a)"
  shows "put_back E s {b. E (s, b) \<noteq> None} = E"
  using assms by (auto simp: put_back_def fun_eq_iff)

lemma put_back_link:
  assumes "\<And>a b. E (a, b) = E (b, a)" and "E (s, s) = None" and "E (s, p) = Some f"
  shows "link (put_back E s P) s p f = put_back E s (insert p P)"
proof -
  have "p \<noteq> s" "E (p, s) = Some f" using assms by auto
  then show ?thesis using assms(3) by (auto simp: put_back_def link_def fun_eq_iff)
qed

lemma put_back_absent: "p \<notin> P \<Longrightarrow> put_back E s P (s, p) = None"
  by (simp add: put_back_def)

text \<open>An edge that is still missing leaves room at both of its ends.\<close>

lemma put_back_degree:
  fixes E :: "u32 \<times> u32 \<rightharpoonup> bool"
  assumes "\<And>x. card {b. E (x, b) \<noteq> None} \<le> n" and "E (x, y) \<noteq> None" and "put_back E s P (x, y) = None"
  shows "card {b. put_back E s P (x, b) \<noteq> None} < n"
proof -
  have "{b. put_back E s P (x, b) \<noteq> None} \<subset> {b. E (x, b) \<noteq> None}"
    using assms(2,3) by (auto simp: put_back_def split: if_splits)
  then have "card {b. put_back E s P (x, b) \<noteq> None} < card {b. E (x, b) \<noteq> None}"
    by (rule psubset_card_mono [rotated]) simp
  with assms(1) [of x] show ?thesis by simp
qed

lemma reconnect_outcome:
  assumes inv: "topo_inv gen t" and orig: "topo_inv gen t0" and edges: "edge_map t heat = put_back (edge_map t0 heat) s P"
    and "p \<notin> P" and "edge_map t0 heat (s, p) \<noteq> None" and "th_slot this = s" and "th_slot other = p"
  shows "connect_outcome (\<lambda>_. True) this other heat t = Ok True"
proof -
  let ?E = "edge_map t0 heat"
  have sym: "?E (a, b) = ?E (b, a)" for a b by (rule topo_invD(2) [OF orig])
  have irr: "?E (s, s) = None" by (rule edge_map_irrefl [OF topo_invD(1) [OF orig]])
  have deg: "card {b. ?E (x, b) \<noteq> None} \<le> max_turf_neighbors" for x
    using degree_bound [OF topo_invD(1) [OF orig]] by (simp add: degree_def)
  have ne: "s \<noteq> p" using assms(5) irr by auto
  have "put_back ?E s P (s, p) = None" "put_back ?E s P (p, s) = None"
    using assms(4) by (simp_all add: put_back_def)
  then have "degree t heat s < max_turf_neighbors" "degree t heat p < max_turf_neighbors"
    using put_back_degree [OF deg assms(5), of s P] put_back_degree [OF deg, of p s s P] assms(5) sym [of s p]
    unfolding degree_def edges by simp_all
  then show ?thesis
    using ne assms(4,6,7) by (simp add: connect_outcome_def slot_available_def edges put_back_absent)
qed

section \<open>Rows as neighbour lists\<close>

definition slot_neighbors :: "packed_topology \<Rightarrow> bool \<Rightarrow> u32 \<Rightarrow> topology_neighbor list" where
  "slot_neighbors t heat s =
     (case vec_get (pt_slots t) (unat s) of None \<Rightarrow> [] | Some slot \<Rightarrow> flatten (slot_row heat slot))"

lemma slot_neighbors_simps:
  "heat_neighbors t h = slot_neighbors t True (th_slot h)"
  "gas_neighbors t h = slot_neighbors t False (th_slot h)"
  by (simp_all add: heat_neighbors_def gas_neighbors_def slot_neighbors_def split: option.split)

lemma slot_neighbors_edges:
  assumes "topo_inv gen t"
  shows "distinct (map (\<lambda>n. th_slot (tn_handle n)) (slot_neighbors t heat s))"
    and "\<And>n. n \<in> set (slot_neighbors t heat s) \<Longrightarrow> current gen (tn_handle n) \<and>
      edge_map t heat (s, th_slot (tn_handle n)) = Some (tn_firelock n)"
    and "(\<lambda>n. th_slot (tn_handle n)) ` set (slot_neighbors t heat s) = {b. edge_map t heat (s, b) \<noteq> None}"
proof -
  have "distinct (map (\<lambda>n. th_slot (tn_handle n)) (slot_neighbors t heat s)) \<and>
    (\<forall>n \<in> set (slot_neighbors t heat s). current gen (tn_handle n) \<and>
      edge_map t heat (s, th_slot (tn_handle n)) = Some (tn_firelock n)) \<and>
    (\<lambda>n. th_slot (tn_handle n)) ` set (slot_neighbors t heat s) = {b. edge_map t heat (s, b) \<noteq> None}"
  proof (cases "unat s < length (pt_slots t)")
    case True
    let ?row = "slot_row heat (pt_slots t ! unat s)"
    have ok: "local_ok gen (unat s) ?row" by (rule rows_ok_local [OF topo_invD(1) [OF assms] True])
    have ns: "slot_neighbors t heat s = flatten ?row" using True by (simp add: slot_neighbors_def vec_get_def)
    have sorted: "sorted_wrt (<) (map tn_handle (flatten ?row))" using ok by (simp add: local_ok_def row_ok_def)
    have "inj_on (\<lambda>n. th_slot (tn_handle n)) (set (flatten ?row))"
      using ok by (intro inj_on_slot [OF sorted, of gen]) (simp add: local_ok_def)
    then have "distinct (map (\<lambda>n. th_slot (tn_handle n)) (flatten ?row))"
      using distinct_row [OF sorted] by (simp add: distinct_map)
    moreover have "current gen (tn_handle n)" "edge_map t heat (s, th_slot (tn_handle n)) = Some (tn_firelock n)"
      if "n \<in> set (flatten ?row)" for n
      using ok that True row_find_eq_Some [OF ok] by (auto simp: local_ok_def edge_map_Some_iff)
    moreover have "dom (row_find ?row) = {b. edge_map t heat (s, b) \<noteq> None}"
      using True by (auto simp: edge_map_in_range)
    ultimately show ?thesis unfolding ns dom_row_find by blast
  qed (simp add: slot_neighbors_def vec_get_def edge_map_def)
  then show "distinct (map (\<lambda>n. th_slot (tn_handle n)) (slot_neighbors t heat s))"
    and "\<And>n. n \<in> set (slot_neighbors t heat s) \<Longrightarrow> current gen (tn_handle n) \<and>
      edge_map t heat (s, th_slot (tn_handle n)) = Some (tn_firelock n)"
    and "(\<lambda>n. th_slot (tn_handle n)) ` set (slot_neighbors t heat s) = {b. edge_map t heat (s, b) \<noteq> None}"
    by blast+
qed

section \<open>Removing one layer of a slot\<close>

lemma on_topology_result:
  "f (wd_topology w) = (r, t) \<Longrightarrow> r \<noteq> Panic \<Longrightarrow> on_topology f w = Ok (w\<lparr>wd_topology := t\<rparr>)"
  by (cases r) (simp_all add: on_topology_def)

lemma remove_incident_turf_edges_result:
  assumes "topo_inv gen (wd_topology w)"
  obtains t where "remove_incident_turf_edges slot w = Ok (w\<lparr>wd_topology := t\<rparr>)" and "topo_inv gen t"
    and "\<And>h. edge_map t h = isolate (edge_map (wd_topology w) h) slot"
proof -
  obtain t where "remove_slot slot (wd_topology w) =
      (Ok (degree (wd_topology w) False slot \<noteq> 0 \<or> degree (wd_topology w) True slot \<noteq> 0), t)"
    "topo_inv gen t" "\<forall>h. edge_map t h = isolate (edge_map (wd_topology w) h) slot"
    using remove_slot_result [OF assms, of slot] by blast
  then show thesis
    using that [of t] on_topology_result [of "remove_slot slot" w] by (simp add: remove_incident_turf_edges_def)
qed

text \<open>Reconnecting the neighbours \<open>ns\<close> of the slot, with the other layer left alone.\<close>

lemma reconnect_heat_loop:
  assumes orig: "topo_inv gen t0" and cur: "current gen this"
    and plain: "\<And>e f. edge_map t0 True e = Some f \<Longrightarrow> \<not> f"
    and "distinct (map th_slot hs)" and "th_slot ` set hs \<inter> P = {}"
    and "\<And>h. h \<in> set hs \<Longrightarrow> current gen h \<and> edge_map t0 True (th_slot this, th_slot h) \<noteq> None"
    and "topo_inv gen (wd_topology w)"
    and "edge_map (wd_topology w) True = put_back (edge_map t0 True) (th_slot this) P"
  shows "\<exists>t. rfold (\<lambda>other. on_topology (connect_heat (\<lambda>_. True) this other)) hs w = Ok (w\<lparr>wd_topology := t\<rparr>) \<and>
    topo_inv gen t \<and> edge_map t False = edge_map (wd_topology w) False \<and>
    edge_map t True = put_back (edge_map t0 True) (th_slot this) (P \<union> th_slot ` set hs)"
  using assms(4-)
proof (induction hs arbitrary: P w)
  case Nil
  then show ?case by (intro exI [of _ "wd_topology w"]) simp
next
  case (Cons h hs)
  let ?s = "th_slot this" and ?E = "edge_map t0 True"
  have h: "current gen h" "?E (?s, th_slot h) \<noteq> None" using Cons.prems(3) by simp_all
  have out: "connect_outcome (\<lambda>_. True) this h True (wd_topology w) = Ok True"
    using reconnect_outcome [OF Cons.prems(4) orig Cons.prems(5) _ h(2) refl refl] Cons.prems(2) by simp
  obtain t where t: "connect_heat (\<lambda>_. True) this h (wd_topology w) = (Ok True, t)" "topo_inv gen t"
    "edge_map t False = edge_map (wd_topology w) False"
    "edge_map t True = link (edge_map (wd_topology w) True) ?s (th_slot h) False"
    using connect_kind_result [OF Cons.prems(4) cur h(1), of "\<lambda>_. True" True] out by (auto simp: connect_kind_def)
  obtain f where f: "?E (?s, th_slot h) = Some f" using h(2) by auto
  then have "?E (?s, th_slot h) = Some False" using plain [OF f] by simp
  then have "edge_map t True = put_back ?E ?s (insert (th_slot h) P)"
    unfolding t(4) Cons.prems(5)
    by (intro put_back_link topo_invD(2) [OF orig] edge_map_irrefl [OF topo_invD(1) [OF orig]])
  moreover have "on_topology (connect_heat (\<lambda>_. True) this h) w = Ok (w\<lparr>wd_topology := t\<rparr>)"
    using t(1) by (simp add: on_topology_def)
  moreover have "th_slot ` set hs \<inter> insert (th_slot h) P = {}" using Cons.prems(1,2) by auto
  ultimately show ?case
    using Cons.IH [of "insert (th_slot h) P" "w\<lparr>wd_topology := t\<rparr>"] Cons.prems(1,3) t(2,3) by auto
qed

text \<open>The layer of heat edges survives the removal of the gas edges of a slot, and nothing else changes.\<close>

lemma remove_incident_gas_edges_result:
  assumes inv: "topo_inv gen (wd_topology w)"
    and cur: "current_turf_handle (wd_turfs w) slot = Ok (TurfHandle slot (gen slot))"
    and plain: "\<And>e f. edge_map (wd_topology w) True e = Some f \<Longrightarrow> \<not> f"
  obtains t where "remove_incident_gas_edges slot w = Ok (w\<lparr>wd_topology := t\<rparr>)" and "topo_inv gen t"
    and "edge_map t True = edge_map (wd_topology w) True"
    and "edge_map t False = isolate (edge_map (wd_topology w) False) slot"
proof -
  let ?t0 = "wd_topology w" and ?me = "TurfHandle slot (gen slot)"
  let ?hs = "map tn_handle (slot_neighbors ?t0 True slot)"
  note ns = slot_neighbors_edges [OF inv, where heat = True and s = slot]
  obtain t1 where t1: "on_topology (remove_slot slot) w = Ok (w\<lparr>wd_topology := t1\<rparr>)" "topo_inv gen t1"
    "\<And>h. edge_map t1 h = isolate (edge_map ?t0 h) slot"
    using remove_incident_turf_edges_result [OF inv, of slot] by (metis remove_incident_turf_edges_def)
  have "\<exists>t. rfold (\<lambda>other. on_topology (connect_heat (\<lambda>_. True) ?me other)) ?hs (w\<lparr>wd_topology := t1\<rparr>) =
      Ok ((w\<lparr>wd_topology := t1\<rparr>)\<lparr>wd_topology := t\<rparr>) \<and> topo_inv gen t \<and>
    edge_map t False = edge_map (wd_topology (w\<lparr>wd_topology := t1\<rparr>)) False \<and>
    edge_map t True = put_back (edge_map ?t0 True) (th_slot ?me) ({} \<union> th_slot ` set ?hs)"
    using ns(1,2) t1(2)
    by (intro reconnect_heat_loop [OF inv _ plain])
      (auto simp: current_def comp_def t1(3) put_back_empty)
  moreover have "th_slot ` set ?hs = {b. edge_map ?t0 True (slot, b) \<noteq> None}"
    using ns(3) by (simp add: image_image)
  moreover have "put_back (edge_map ?t0 True) slot {b. edge_map ?t0 True (slot, b) \<noteq> None} = edge_map ?t0 True"
    by (rule put_back_all) (rule topo_invD(2) [OF inv])
  ultimately obtain t where "rfold (\<lambda>other. on_topology (connect_heat (\<lambda>_. True) ?me other)) ?hs (w\<lparr>wd_topology := t1\<rparr>) =
      Ok (w\<lparr>wd_topology := t\<rparr>)" "topo_inv gen t" "edge_map t False = isolate (edge_map ?t0 False) slot"
    "edge_map t True = edge_map ?t0 True"
    by (auto simp: t1(3))
  then show thesis
    using that [of t] cur t1(1) by (simp add: remove_incident_gas_edges_def slot_neighbors_simps)
qed

text \<open>The gas edges of a slot keep their firelocks when its heat edges go.\<close>

lemma reconnect_gas_step:
  assumes orig: "topo_inv gen t0" and cur: "current gen this" "current gen h"
    and new: "th_slot h \<notin> P" and edge: "edge_map t0 False (th_slot this, th_slot h) = Some f"
    and inv: "topo_inv gen (wd_topology w)"
    and E: "edge_map (wd_topology w) False = put_back (edge_map t0 False) (th_slot this) P"
  shows "\<exists>t. rbind (on_topology (connect_gas (\<lambda>_. True) this h) w) (on_topology (set_firelock this h f)) =
      Ok (w\<lparr>wd_topology := t\<rparr>) \<and> topo_inv gen t \<and> edge_map t True = edge_map (wd_topology w) True \<and>
    edge_map t False = put_back (edge_map t0 False) (th_slot this) (insert (th_slot h) P)"
proof -
  let ?s = "th_slot this" and ?E = "edge_map t0 False"
  have out: "connect_outcome (\<lambda>_. True) this h False (wd_topology w) = Ok True"
    using reconnect_outcome [OF inv orig E new _ refl refl] edge by simp
  obtain t where t: "connect_gas (\<lambda>_. True) this h (wd_topology w) = (Ok True, t)" "topo_inv gen t"
    "edge_map t True = edge_map (wd_topology w) True"
    "edge_map t False = link (edge_map (wd_topology w) False) ?s (th_slot h) False"
    using connect_kind_result [OF inv cur, of "\<lambda>_. True" False] out by (auto simp: connect_kind_def)
  have linked: "edge_map t False (?s, th_slot h) = Some False" by (simp add: t(4) link_def)
  obtain t' where t': "set_firelock this h f t = (set_firelock_outcome this h f t, t')" "topo_inv gen t'"
    "edge_map t' True = edge_map t True" "edge_map t' False = link (edge_map t False) ?s (th_slot h) f"
    using set_firelock_result [OF t(2) cur, of f] linked by (auto simp: has_edge_def)
  have "set_firelock_outcome this h f t \<noteq> Panic" using linked by (simp add: set_firelock_outcome_def)
  then have "rbind (on_topology (connect_gas (\<lambda>_. True) this h) w) (on_topology (set_firelock this h f)) =
      Ok (w\<lparr>wd_topology := t'\<rparr>)"
    using t(1) t'(1) by (cases "set_firelock_outcome this h f t") (simp_all add: on_topology_def)
  moreover have "edge_map t' False = put_back ?E ?s (insert (th_slot h) P)"
  proof -
    have "edge_map t' False = link (put_back ?E ?s P) ?s (th_slot h) f"
      by (auto simp: t'(4) t(4) E link_def fun_eq_iff)
    also have "\<dots> = put_back ?E ?s (insert (th_slot h) P)"
      using edge by (intro put_back_link topo_invD(2) [OF orig] edge_map_irrefl [OF topo_invD(1) [OF orig]])
    finally show ?thesis .
  qed
  ultimately show ?thesis using t' t(3) by auto
qed

lemma reconnect_gas_loop:
  assumes orig: "topo_inv gen t0" and cur: "current gen this"
    and "distinct (map (\<lambda>n. th_slot (tn_handle n)) ns)" and "(\<lambda>n. th_slot (tn_handle n)) ` set ns \<inter> P = {}"
    and "\<And>n. n \<in> set ns \<Longrightarrow> current gen (tn_handle n) \<and>
      edge_map t0 False (th_slot this, th_slot (tn_handle n)) = Some (tn_firelock n)"
    and "topo_inv gen (wd_topology w)"
    and "edge_map (wd_topology w) False = put_back (edge_map t0 False) (th_slot this) P"
  shows "\<exists>t. rfold (\<lambda>other w. rbind (on_topology (connect_gas (\<lambda>_. True) this (tn_handle other)) w)
        (on_topology (set_firelock this (tn_handle other) (tn_firelock other)))) ns w = Ok (w\<lparr>wd_topology := t\<rparr>) \<and>
    topo_inv gen t \<and> edge_map t True = edge_map (wd_topology w) True \<and>
    edge_map t False = put_back (edge_map t0 False) (th_slot this) (P \<union> (\<lambda>n. th_slot (tn_handle n)) ` set ns)"
  using assms(3-)
proof (induction ns arbitrary: P w)
  case Nil
  then show ?case by (intro exI [of _ "wd_topology w"]) simp
next
  case (Cons n ns)
  have n: "current gen (tn_handle n)" "th_slot (tn_handle n) \<notin> P"
    "edge_map t0 False (th_slot this, th_slot (tn_handle n)) = Some (tn_firelock n)"
    using Cons.prems(2,3) by auto
  obtain t where t: "rbind (on_topology (connect_gas (\<lambda>_. True) this (tn_handle n)) w)
      (on_topology (set_firelock this (tn_handle n) (tn_firelock n))) = Ok (w\<lparr>wd_topology := t\<rparr>)" "topo_inv gen t"
    "edge_map t True = edge_map (wd_topology w) True"
    "edge_map t False = put_back (edge_map t0 False) (th_slot this) (insert (th_slot (tn_handle n)) P)"
    using reconnect_gas_step [OF orig cur n(1,2,3) Cons.prems(4,5)] by blast
  have "(\<lambda>n. th_slot (tn_handle n)) ` set ns \<inter> insert (th_slot (tn_handle n)) P = {}"
    using Cons.prems(1,2) by auto
  then show ?case
    using Cons.IH [of "insert (th_slot (tn_handle n)) P" "w\<lparr>wd_topology := t\<rparr>"] Cons.prems(1,3) t by auto
qed

lemma remove_incident_heat_edges_result:
  assumes inv: "topo_inv gen (wd_topology w)"
    and cur: "current_turf_handle (wd_turfs w) slot = Ok (TurfHandle slot (gen slot))"
  obtains t where "remove_incident_heat_edges slot w = Ok (w\<lparr>wd_topology := t\<rparr>)" and "topo_inv gen t"
    and "edge_map t False = edge_map (wd_topology w) False"
    and "edge_map t True = isolate (edge_map (wd_topology w) True) slot"
proof -
  let ?t0 = "wd_topology w" and ?me = "TurfHandle slot (gen slot)"
  let ?ns = "slot_neighbors ?t0 False slot"
  let ?loop = "rfold (\<lambda>other w. rbind (on_topology (connect_gas (\<lambda>_. True) ?me (tn_handle other)) w)
        (on_topology (set_firelock ?me (tn_handle other) (tn_firelock other)))) ?ns"
  note ns = slot_neighbors_edges [OF inv, where heat = False and s = slot]
  obtain t1 where t1: "on_topology (remove_slot slot) w = Ok (w\<lparr>wd_topology := t1\<rparr>)" "topo_inv gen t1"
    "\<And>h. edge_map t1 h = isolate (edge_map ?t0 h) slot"
    using remove_incident_turf_edges_result [OF inv, of slot] by (metis remove_incident_turf_edges_def)
  have "\<exists>t. ?loop (w\<lparr>wd_topology := t1\<rparr>) = Ok ((w\<lparr>wd_topology := t1\<rparr>)\<lparr>wd_topology := t\<rparr>) \<and> topo_inv gen t \<and>
    edge_map t True = edge_map (wd_topology (w\<lparr>wd_topology := t1\<rparr>)) True \<and>
    edge_map t False = put_back (edge_map ?t0 False) (th_slot ?me) ({} \<union> (\<lambda>n. th_slot (tn_handle n)) ` set ?ns)"
    using ns(1,2) t1(2)
    by (intro reconnect_gas_loop [OF inv]) (auto simp: current_def t1(3) put_back_empty)
  moreover have "put_back (edge_map ?t0 False) slot {b. edge_map ?t0 False (slot, b) \<noteq> None} = edge_map ?t0 False"
    by (rule put_back_all) (rule topo_invD(2) [OF inv])
  ultimately obtain t where "?loop (w\<lparr>wd_topology := t1\<rparr>) = Ok (w\<lparr>wd_topology := t\<rparr>)" "topo_inv gen t"
    "edge_map t True = isolate (edge_map ?t0 True) slot" "edge_map t False = edge_map ?t0 False"
    using ns(3) by (auto simp: t1(3))
  then show thesis
    using that [of t] cur t1(1) by (simp add: remove_incident_heat_edges_def slot_neighbors_simps)
qed

end
