(* ===== verification/World_Invariant.thy ===== *)
theory World_Invariant
  imports World_Graph
begin

text \<open>
  The invariant of the world: the reverse indexes are what a full scan would compute, the topology is a
  graph over the turfs with a mixture (gas) or with heat (heat) at their current generations, the list
  of active heat and the records point at each other, and every waiting continuation concerns a live
  mixture on a live turf. Every batch keeps it, also when it fails, and no batch panics.
\<close>

section \<open>Slots\<close>

definition slot_at :: "core_turf_slot list \<Rightarrow> u32 \<Rightarrow> core_turf_slot" where
  "slot_at turfs slot = (if unat slot < length turfs then turfs ! unat slot else turf_slot_default)"

definition turf_at :: "core_turf_slot list \<Rightarrow> u32 \<Rightarrow> turf_record option" where
  "turf_at turfs slot = cs_turf (slot_at turfs slot)"

definition gen_of :: "core_turf_slot list \<Rightarrow> u32 \<Rightarrow> u32" where
  "gen_of turfs slot = (case cs_generation (slot_at turfs slot) of Some g \<Rightarrow> g | None \<Rightarrow> 0)"

definition heat_at :: "core_turf_slot list \<Rightarrow> u32 \<Rightarrow> core_heat_state option" where
  "heat_at turfs slot = Option.bind (turf_at turfs slot) tr_heat"

lemma turf_mixture_at_eq: "turf_mixture_at turfs slot = Option.bind (turf_at turfs slot) tr_mixture"
  by (simp add: turf_mixture_at_def turf_at_def slot_at_def vec_get_def turf_slot_default_def split: option.split)

lemma heat_index_at_eq: "heat_index_at turfs slot = Option.bind (turf_at turfs slot) tr_heat_active_index"
  by (simp add: heat_index_at_def turf_at_def slot_at_def vec_get_def turf_slot_default_def split: option.split)

lemma slot_at_update [simp]:
  "unat slot < length turfs \<Longrightarrow> slot_at (turfs[unat slot := s]) x = (if x = slot then s else slot_at turfs x)"
  by (auto simp: slot_at_def nth_list_update word_unat_eq_iff)

lemma turf_at_update [simp]:
  "unat slot < length turfs \<Longrightarrow> turf_at (turfs[unat slot := s]) x = (if x = slot then cs_turf s else turf_at turfs x)"
  by (simp add: turf_at_def)

lemma gen_of_update:
  "unat slot < length turfs \<Longrightarrow> gen_of (turfs[unat slot := s]) =
     (gen_of turfs)(slot := case cs_generation s of Some g \<Rightarrow> g | None \<Rightarrow> 0)"
  by (auto simp: gen_of_def fun_eq_iff)

lemma slot_at_extend [simp]:
  "slot_at (turfs @ replicate n turf_slot_default) = slot_at turfs"
  by (auto simp: slot_at_def nth_append fun_eq_iff)

lemma turf_at_None_outside: "turf_at turfs slot \<noteq> None \<Longrightarrow> unat slot < length turfs"
  by (auto simp: turf_at_def slot_at_def turf_slot_default_def split: if_splits)

definition generations_ok :: "core_turf_slot list \<Rightarrow> bool" where
  "generations_ok turfs \<longleftrightarrow> length turfs \<le> 2 ^ 32 \<and>
     (\<forall>slot. cs_generation (slot_at turfs slot) = None \<longrightarrow> turf_at turfs slot = None)"

lemma require_turf_Ok:
  "require_turf turfs h = Ok r \<longleftrightarrow>
     cs_generation (slot_at turfs (th_slot h)) = Some (th_generation h) \<and> turf_at turfs (th_slot h) = Some r"
  by (auto simp: require_turf_def slot_at_def turf_at_def vec_get_def turf_slot_default_def split: option.split)

lemma require_turf_neq_Panic [simp]: "require_turf turfs h \<noteq> Panic"
  by (simp add: require_turf_def split: option.split)

lemma require_handle_neq_Panic [simp]: "require_handle mixtures h \<noteq> Panic"
  by (simp add: require_handle_def split: option.split)

lemma require_turf_current: "require_turf turfs h = Ok r \<Longrightarrow> current (gen_of turfs) h"
  by (simp add: require_turf_Ok gen_of_def current_def)

lemma current_turf_handle_Ok:
  assumes "generations_ok turfs" and "turf_at turfs slot \<noteq> None"
  shows "current_turf_handle turfs slot = Ok (TurfHandle slot (gen_of turfs slot))"
proof -
  obtain r where r: "turf_at turfs slot = Some r" using assms(2) by auto
  obtain g where g: "cs_generation (slot_at turfs slot) = Some g"
    using assms by (cases "cs_generation (slot_at turfs slot)") (auto simp: generations_ok_def)
  have "require_turf turfs (TurfHandle slot g) = Ok r" using r g by (simp add: require_turf_Ok)
  then show ?thesis
    using g turf_at_None_outside [OF assms(2)]
    by (simp add: current_turf_handle_def vec_get_def slot_at_def gen_of_def)
qed

section \<open>Indexes as scans\<close>

definition index_of :: "('a \<Rightarrow> 'k \<Rightarrow> bool) \<Rightarrow> 'k \<rightharpoonup> 'a set" where
  "index_of R = (\<lambda>k. if \<exists>x. R x k then Some {x. R x k} else None)"

lemma index_insert_scan: "index_insert k x (index_of R) = index_of (\<lambda>y j. R y j \<or> y = x \<and> j = k)"
  by (auto simp: index_insert_def index_of_def fun_eq_iff)

lemma index_remove_scan: "index_remove k x (index_of R) = index_of (\<lambda>y j. R y j \<and> \<not> (y = x \<and> j = k))"
  by (auto simp: index_remove_def index_of_def fun_eq_iff)

lemma index_drop_scan: "(index_of R)(k := None) = index_of (\<lambda>y j. R y j \<and> j \<noteq> k)"
  by (auto simp: index_of_def fun_eq_iff)

lemma index_of_Some: "index_of R k = Some S \<Longrightarrow> S = {x. R x k}"
  by (auto simp: index_of_def split: if_splits)

lemma index_of_None: "index_of R k = None \<Longrightarrow> \<not> R x k"
  by (auto simp: index_of_def split: if_splits)

lemma index_of_cong: "(\<And>x k. R x k = Q x k) \<Longrightarrow> index_of R = index_of Q"
  by (rule arg_cong [where f = index_of]) (simp add: fun_eq_iff)

definition incident :: "edge_key \<Rightarrow> u32 \<Rightarrow> bool" where
  "incident key slot \<longleftrightarrow> ek_left key = slot \<or> ek_right key = slot"

definition turfs_index :: "core_turf_slot list \<Rightarrow> mixture_handle \<rightharpoonup> u32 set" where
  "turfs_index turfs = index_of (\<lambda>slot m. turf_mixture_at turfs slot = Some m)"

definition edges_index :: "(edge_key \<rightharpoonup> f32) \<Rightarrow> u32 \<rightharpoonup> edge_key set" where
  "edges_index edges = index_of (\<lambda>key slot. edges key \<noteq> None \<and> incident key slot)"

lemma finite_edge_keys: "finite (S :: edge_key set)"
proof (rule finite_subset)
  show "S \<subseteq> (\<lambda>(a, b). EdgeKey a b) ` UNIV"
    by (auto intro!: image_eqI [of _ _ "(ek_left x, ek_right x)" for x])
  show "finite ((\<lambda>(a, b). EdgeKey a b) ` (UNIV :: (u32 \<times> u32) set))" by simp
qed

section \<open>The invariant\<close>

definition graph_ok :: "core_turf_slot list \<Rightarrow> packed_topology \<Rightarrow> bool" where
  "graph_ok turfs t \<longleftrightarrow> topo_inv (gen_of turfs) t \<and>
     (\<forall>a b. edge_map t False (a, b) \<noteq> None \<longrightarrow> turf_mixture_at turfs a \<noteq> None) \<and>
     (\<forall>a b. edge_map t True (a, b) \<noteq> None \<longrightarrow> heat_at turfs a \<noteq> None) \<and>
     (\<forall>a b. edge_map t True (a, b) \<noteq> Some True)"

definition heat_ok :: "core_turf_slot list \<Rightarrow> turf_handle list \<Rightarrow> bool" where
  "heat_ok turfs active \<longleftrightarrow> length active \<le> 2 ^ 32 \<and>
     (\<forall>i < length active. cs_generation (slot_at turfs (th_slot (active ! i))) = Some (th_generation (active ! i)) \<and>
        heat_index_at turfs (th_slot (active ! i)) = Some (word_of_nat i)) \<and>
     (\<forall>slot i. heat_index_at turfs slot = Some i \<longrightarrow> unat i < length active \<and> th_slot (active ! unat i) = slot)"

definition active_heated :: "core_turf_slot list \<Rightarrow> bool" where
  "active_heated turfs \<longleftrightarrow> (\<forall>slot. heat_index_at turfs slot \<noteq> None \<longrightarrow> heat_at turfs slot \<noteq> None)"

definition waits_on_live :: "mixture_slot list \<Rightarrow> core_turf_slot list \<Rightarrow> reaction_continuation \<Rightarrow> bool" where
  "waits_on_live mixtures turfs c \<longleftrightarrow> (\<exists>r. require_handle mixtures (rc_mixture c) = Ok r) \<and>
     (\<forall>h. rc_turf c = Some h \<longrightarrow>
        (\<exists>r. require_turf turfs h = Ok r \<and> tr_mixture r = Some (rc_mixture c)))"

definition waiting_ok :: "mixture_slot list \<Rightarrow> core_turf_slot list \<Rightarrow> continuation_table \<Rightarrow> bool" where
  "waiting_ok mixtures turfs s \<longleftrightarrow> table_inv s \<and>
     (\<forall>token c. continuation_of s token = Some c \<longrightarrow> waits_on_live mixtures turfs c)"

text \<open>Occupied mixture slots have a generation, and an edge joins two of them, in the order of their numbers.\<close>

definition occupied :: "mixture_slot list \<Rightarrow> u32 \<Rightarrow> bool" where
  "occupied mixtures slot \<longleftrightarrow> unat slot < length mixtures \<and> ms_mixture (mixtures ! unat slot) \<noteq> None"

definition mixtures_ok :: "mixture_slot list \<Rightarrow> bool" where
  "mixtures_ok mixtures \<longleftrightarrow> length mixtures \<le> 2 ^ 32 \<and>
     (\<forall>s \<in> set mixtures. ms_mixture s \<noteq> None \<longrightarrow> ms_generation s \<noteq> None)"

definition edges_live :: "mixture_slot list \<Rightarrow> (edge_key \<rightharpoonup> f32) \<Rightarrow> bool" where
  "edges_live mixtures edges \<longleftrightarrow> (\<forall>key. edges key \<noteq> None \<longrightarrow>
     ek_left key < ek_right key \<and> occupied mixtures (ek_left key) \<and> occupied mixtures (ek_right key))"

definition world_inv :: "world \<Rightarrow> bool" where
  "world_inv w \<longleftrightarrow> mixtures_ok (wd_mixtures w) \<and> edges_live (wd_mixtures w) (wd_edges w) \<and>
     generations_ok (wd_turfs w) \<and>
     wd_mixture_turfs w = turfs_index (wd_turfs w) \<and>
     wd_mixture_edges w = edges_index (wd_edges w) \<and>
     graph_ok (wd_turfs w) (wd_topology w) \<and>
     heat_ok (wd_turfs w) (wd_heat_active w) \<and> active_heated (wd_turfs w) \<and>
     waiting_ok (wd_mixtures w) (wd_turfs w) (wd_continuations w)"

lemma world_inv_new: "world_inv (world_new bytes events n)"
proof -
  have "edge_map packed_topology_default h = Map.empty" for h
    by (auto simp: edge_map_def packed_topology_default_def)
  moreover have "continuation_of (continuations_new n) token = None" for token
    by (simp add: continuation_of_def require_continuation_def continuations_new_def vec_get_def)
  moreover have "turf_at [] slot = None" for slot by (simp add: turf_at_def slot_at_def turf_slot_default_def)
  ultimately show ?thesis
    using topo_inv_default table_inv_new
    by (auto simp: world_inv_def world_new_def mixtures_ok_def edges_live_def generations_ok_def turfs_index_def edges_index_def index_of_def
        graph_ok_def heat_ok_def active_heated_def waiting_ok_def turf_mixture_at_eq heat_index_at_eq fun_eq_iff)
qed

lemma world_inv_graph: "world_inv (w\<lparr>wd_graph := g\<rparr>) = world_inv w"
  by (simp add: world_inv_def)

section \<open>Edges between mixtures\<close>

lemma remove_mixture_edge_fields:
  assumes "wd_mixture_edges w = index_of (\<lambda>key s. wd_edges w key \<noteq> None \<and> incident key s \<and> s \<noteq> slot)"
  shows "wd_mixture_edges (remove_mixture_edge k w) =
      index_of (\<lambda>key s. wd_edges (remove_mixture_edge k w) key \<noteq> None \<and> incident key s \<and> s \<noteq> slot)"
  unfolding remove_mixture_edge_def unlink_mixture_edge_def
  by (simp add: assms index_remove_scan) (rule index_of_cong, auto simp: incident_def)

lemma remove_mixture_edges_fold:
  assumes "wd_mixture_edges w = index_of (\<lambda>key s. wd_edges w key \<noteq> None \<and> incident key s \<and> s \<noteq> slot)"
  shows "\<exists>index. fold remove_mixture_edge ks w =
      w\<lparr>wd_edges := (\<lambda>k. if k \<in> set ks then None else wd_edges w k), wd_mixture_edges := index\<rparr> \<and>
    index = index_of (\<lambda>key s. (key \<notin> set ks \<and> wd_edges w key \<noteq> None) \<and> incident key s \<and> s \<noteq> slot)"
  using assms
proof (induction ks arbitrary: w)
  case Nil
  then show ?case by simp
next
  case (Cons k ks)
  obtain I where w': "remove_mixture_edge k w = w\<lparr>wd_edges := (wd_edges w)(k := None), wd_mixture_edges := I\<rparr>"
    by (simp add: remove_mixture_edge_def unlink_mixture_edge_def)
  have E: "(\<lambda>ka. if ka \<in> set ks then None else ((wd_edges w)(k := None)) ka) =
      (\<lambda>ka. if ka \<in> set (k # ks) then None else wd_edges w ka)"
    by (auto simp: fun_eq_iff)
  have I: "index_of (\<lambda>key s. (key \<notin> set ks \<and> ((wd_edges w)(k := None)) key \<noteq> None) \<and> incident key s \<and> s \<noteq> slot) =
      index_of (\<lambda>key s. (key \<notin> set (k # ks) \<and> wd_edges w key \<noteq> None) \<and> incident key s \<and> s \<noteq> slot)"
    by (rule index_of_cong) auto
  define w1 where "w1 = w\<lparr>wd_edges := (wd_edges w)(k := None), wd_mixture_edges := I\<rparr>"
  have E1: "wd_edges w1 = (wd_edges w)(k := None)" by (simp add: w1_def)
  have "fold remove_mixture_edge ks w1 = w1\<lparr>wd_edges := (\<lambda>ka. if ka \<in> set ks then None else wd_edges w1 ka),
       wd_mixture_edges := index_of (\<lambda>key s. (key \<notin> set ks \<and> wd_edges w1 key \<noteq> None) \<and>
         incident key s \<and> s \<noteq> slot)\<rparr>"
    using Cons.IH [of w1] remove_mixture_edge_fields [OF Cons.prems, of k] unfolding w' w1_def [symmetric] by blast
  moreover have "w1\<lparr>wd_edges := X, wd_mixture_edges := Y\<rparr> = w\<lparr>wd_edges := X, wd_mixture_edges := Y\<rparr>" for X Y
    by (simp add: w1_def)
  ultimately have "fold remove_mixture_edge (k # ks) w =
      w\<lparr>wd_edges := (\<lambda>ka. if ka \<in> set (k # ks) then None else wd_edges w ka),
        wd_mixture_edges := index_of (\<lambda>key s. (key \<notin> set (k # ks) \<and> wd_edges w key \<noteq> None) \<and>
          incident key s \<and> s \<noteq> slot)\<rparr>"
    unfolding E1 E I by (simp only: fold_Cons comp_apply w' w1_def [symmetric])
  then show ?case by blast
qed

lemma remove_incident_mixture_edges_result:
  assumes "wd_mixture_edges w = edges_index (wd_edges w)"
  shows "remove_incident_mixture_edges slot w =
    (let edges = (\<lambda>k. if incident k slot then None else wd_edges w k)
     in w\<lparr>wd_edges := edges, wd_mixture_edges := edges_index edges\<rparr>)"
proof (cases "wd_mixture_edges w slot")
  case None
  then have "\<not> (wd_edges w k \<noteq> None \<and> incident k slot)" for k
    using index_of_None [of "\<lambda>key slot. wd_edges w key \<noteq> None \<and> incident key slot" slot k] assms
    unfolding edges_index_def by simp
  then have "(if incident k slot then None else wd_edges w k) = wd_edges w k" for k by metis
  then have "(\<lambda>k. if incident k slot then None else wd_edges w k) = wd_edges w" by (rule ext)
  then show ?thesis using None assms by (simp add: remove_incident_mixture_edges_def)
next
  case (Some keys)
  then have keys: "keys = {k. wd_edges w k \<noteq> None \<and> incident k slot}"
    using index_of_Some [of "\<lambda>key slot. wd_edges w key \<noteq> None \<and> incident key slot" slot keys] assms
    unfolding edges_index_def by simp
  let ?w = "w\<lparr>wd_mixture_edges := (wd_mixture_edges w)(slot := None)\<rparr>"
  have start: "wd_mixture_edges ?w = index_of (\<lambda>key s. wd_edges ?w key \<noteq> None \<and> incident key s \<and> s \<noteq> slot)"
    by (simp add: assms edges_index_def index_drop_scan conj_assoc)
  let ?ks = "sorted_list_of_set keys"
  have "set ?ks = keys" by (simp add: finite_edge_keys)
  then have ks: "k \<in> set ?ks \<longleftrightarrow> wd_edges w k \<noteq> None \<and> incident k slot" for k
    unfolding keys by simp
  have edges: "(\<lambda>k. if k \<in> set ?ks then None else wd_edges w k) = (\<lambda>k. if incident k slot then None else wd_edges w k)"
    by (auto simp: ks fun_eq_iff)
  have "index_of (\<lambda>key s. (key \<notin> set ?ks \<and> wd_edges w key \<noteq> None) \<and> incident key s \<and> s \<noteq> slot) =
      edges_index (\<lambda>k. if incident k slot then None else wd_edges w k)"
    unfolding edges_index_def by (rule index_of_cong) (auto simp: ks)
  note index = this
  obtain index where fold: "fold remove_mixture_edge ?ks ?w =
      ?w\<lparr>wd_edges := (\<lambda>k. if k \<in> set ?ks then None else wd_edges ?w k), wd_mixture_edges := index\<rparr>"
    and at: "index = index_of (\<lambda>key s. (key \<notin> set ?ks \<and> wd_edges ?w key \<noteq> None) \<and> incident key s \<and> s \<noteq> slot)"
    using remove_mixture_edges_fold [OF start, of ?ks] by blast
  have w: "wd_edges ?w = wd_edges w" by simp
  have "fold remove_mixture_edge ?ks ?w = ?w\<lparr>wd_edges := (\<lambda>k. if incident k slot then None else wd_edges w k),
      wd_mixture_edges := edges_index (\<lambda>k. if incident k slot then None else wd_edges w k)\<rparr>"
    unfolding fold at w edges index by (rule refl)
  then show ?thesis using Some by (simp add: remove_incident_mixture_edges_def Let_def)
qed

section \<open>Turfs that differ in their active heat only\<close>

definition same_turfs :: "core_turf_slot list \<Rightarrow> core_turf_slot list \<Rightarrow> bool" where
  "same_turfs turfs turfs' \<longleftrightarrow> length turfs' = length turfs \<and>
     (\<forall>slot. cs_generation (slot_at turfs' slot) = cs_generation (slot_at turfs slot) \<and>
       map_option (\<lambda>r. (tr_mixture r, tr_heat r)) (turf_at turfs' slot) =
       map_option (\<lambda>r. (tr_mixture r, tr_heat r)) (turf_at turfs slot))"

lemma same_turfs_refl [simp]: "same_turfs turfs turfs"
  by (simp add: same_turfs_def)

lemma same_turfs_trans: "same_turfs a b \<Longrightarrow> same_turfs b c \<Longrightarrow> same_turfs a c"
  by (simp add: same_turfs_def)

lemma same_turfs_eqs:
  assumes "same_turfs turfs turfs'"
  shows "turf_mixture_at turfs' = turf_mixture_at turfs" and "heat_at turfs' = heat_at turfs"
    and "gen_of turfs' = gen_of turfs" and "length turfs' = length turfs"
    and "cs_generation (slot_at turfs' slot) = cs_generation (slot_at turfs slot)"
    and "turf_at turfs' slot = None \<longleftrightarrow> turf_at turfs slot = None"
proof -
  have at: "map_option (\<lambda>r. (tr_mixture r, tr_heat r)) (turf_at turfs' slot) =
      map_option (\<lambda>r. (tr_mixture r, tr_heat r)) (turf_at turfs slot)" for slot
    using assms by (simp add: same_turfs_def)
  have "Option.bind (turf_at turfs' slot) tr_mixture = Option.bind (turf_at turfs slot) tr_mixture \<and>
      Option.bind (turf_at turfs' slot) tr_heat = Option.bind (turf_at turfs slot) tr_heat \<and>
      (turf_at turfs' slot = None \<longleftrightarrow> turf_at turfs slot = None)" for slot
    using at [of slot] by (cases "turf_at turfs' slot"; cases "turf_at turfs slot") auto
  then show "turf_mixture_at turfs' = turf_mixture_at turfs" and "heat_at turfs' = heat_at turfs"
    and "turf_at turfs' slot = None \<longleftrightarrow> turf_at turfs slot = None"
    by (auto simp: turf_mixture_at_eq heat_at_def fun_eq_iff)
  show "gen_of turfs' = gen_of turfs" and "length turfs' = length turfs"
    and "cs_generation (slot_at turfs' slot) = cs_generation (slot_at turfs slot)"
    using assms by (auto simp: same_turfs_def gen_of_def fun_eq_iff)
qed

lemma same_turfs_generations: "same_turfs turfs turfs' \<Longrightarrow> generations_ok turfs' = generations_ok turfs"
  by (simp add: generations_ok_def same_turfs_eqs)

lemma same_turfs_graph: "same_turfs turfs turfs' \<Longrightarrow> graph_ok turfs' t = graph_ok turfs t"
  by (simp add: graph_ok_def same_turfs_eqs)

lemma same_turfs_index: "same_turfs turfs turfs' \<Longrightarrow> turfs_index turfs' = turfs_index turfs"
  by (simp add: turfs_index_def same_turfs_eqs)

lemma waits_on_live_eq:
  "waits_on_live mixtures turfs c \<longleftrightarrow> (\<exists>r. require_handle mixtures (rc_mixture c) = Ok r) \<and>
     (\<forall>h. rc_turf c = Some h \<longrightarrow> cs_generation (slot_at turfs (th_slot h)) = Some (th_generation h) \<and>
        turf_mixture_at turfs (th_slot h) = Some (rc_mixture c))"
  by (auto simp: waits_on_live_def require_turf_Ok turf_mixture_at_eq split: bind_splits)

lemma same_turfs_waiting: "same_turfs turfs turfs' \<Longrightarrow> waiting_ok mixtures turfs' s = waiting_ok mixtures turfs s"
  by (simp add: waiting_ok_def waits_on_live_eq same_turfs_eqs)

section \<open>One record updated\<close>

definition upd_turf :: "u32 \<Rightarrow> (turf_record \<Rightarrow> turf_record) \<Rightarrow> core_turf_slot list \<Rightarrow> core_turf_slot list" where
  "upd_turf slot f turfs = turfs[unat slot := (turfs ! unat slot)\<lparr>cs_turf := map_option f (cs_turf (turfs ! unat slot))\<rparr>]"

lemma update_turf_eq: "update_turf slot f w = w\<lparr>wd_turfs := upd_turf slot f (wd_turfs w)\<rparr>"
  by (simp add: update_turf_def upd_turf_def)

lemma upd_turf_simps [simp]:
  "length (upd_turf slot f turfs) = length turfs"
  "cs_generation (slot_at (upd_turf slot f turfs) x) = cs_generation (slot_at turfs x)"
  "turf_at (upd_turf slot f turfs) x = (if x = slot then map_option f (turf_at turfs x) else turf_at turfs x)"
  "gen_of (upd_turf slot f turfs) = gen_of turfs"
proof -
  show len: "length (upd_turf slot f turfs) = length turfs" by (simp add: upd_turf_def)
  show gen: "cs_generation (slot_at (upd_turf slot f turfs) x) = cs_generation (slot_at turfs x)" for x
    by (cases "x = slot") (auto simp: upd_turf_def slot_at_def word_unat_eq_iff)
  show "turf_at (upd_turf slot f turfs) x = (if x = slot then map_option f (turf_at turfs x) else turf_at turfs x)"
    by (auto simp: turf_at_def upd_turf_def slot_at_def nth_list_update word_unat_eq_iff turf_slot_default_def)
  show "gen_of (upd_turf slot f turfs) = gen_of turfs"
    by (simp add: gen_of_def gen fun_eq_iff)
qed

lemma same_turfs_upd:
  "(\<And>r. tr_mixture (f r) = tr_mixture r \<and> tr_heat (f r) = tr_heat r) \<Longrightarrow> same_turfs turfs (upd_turf slot f turfs)"
  by (auto simp: same_turfs_def option.map_comp comp_def)

lemma heat_index_upd:
  "heat_index_at (upd_turf slot (\<lambda>r. r\<lparr>tr_heat_active_index := v\<rparr>) turfs) x =
     (if x = slot \<and> turf_at turfs x \<noteq> None then v else heat_index_at turfs x)"
  by (auto simp: heat_index_at_eq split: bind_splits)

lemma heat_okD:
  assumes "heat_ok turfs active" and "i < length active"
  shows "heat_index_at turfs (th_slot (active ! i)) = Some (word_of_nat i)" and "unat (word_of_nat i :: u32) = i"
    and "cs_generation (slot_at turfs (th_slot (active ! i))) = Some (th_generation (active ! i))"
  using assms by (auto simp: heat_ok_def unat_of_nat take_bit_nat_eq_self)

lemma heat_ok_slot_inj:
  assumes "heat_ok turfs active" and "i < length active" and "j < length active"
    and "th_slot (active ! i) = th_slot (active ! j)"
  shows "i = j"
  using heat_okD(1,2) [OF assms(1,2)] heat_okD(1,2) [OF assms(1,3)] assms(4) by (metis option.inject)

lemma heat_index_turf: "heat_index_at turfs slot \<noteq> None \<Longrightarrow> turf_at turfs slot \<noteq> None"
  by (cases "turf_at turfs slot") (simp_all add: heat_index_at_eq)

lemma nth_swap_remove:
  "i < length xs \<Longrightarrow> j < length xs - 1 \<Longrightarrow> swap_remove i xs ! j = (if j = i then xs ! (length xs - 1) else xs ! j)"
  by (cases "xs = []") (auto simp: swap_remove_def nth_butlast last_conv_nth nth_list_update)

lemma length_swap_remove [simp]: "length (swap_remove i xs) = length xs - 1"
  by (simp add: swap_remove_def)

text \<open>The last handle takes the place of the removed one, and its record the index.\<close>

lemma heat_ok_swap_remove:
  assumes ok: "heat_ok turfs active" and index: "heat_index_at turfs slot = Some index"
    and gens: "\<And>x. cs_generation (slot_at turfs' x) = cs_generation (slot_at turfs x)"
    and indexes: "\<And>x. heat_index_at turfs' x = (if x = slot then None
      else if x = th_slot (active ! (length active - 1)) then Some index else heat_index_at turfs x)"
  shows "heat_ok turfs' (swap_remove (unat index) active)"
proof -
  let ?i = "unat index" and ?n = "length active"
  have i: "?i < ?n" "th_slot (active ! ?i) = slot" using ok index by (auto simp: heat_ok_def)
  have n: "?n - 1 < ?n" using i by simp
  note inj = heat_ok_slot_inj [OF ok]
  have nth: "swap_remove ?i active ! j = (if j = ?i then active ! (?n - 1) else active ! j)" if "j < ?n - 1" for j
    using nth_swap_remove [OF i(1) that] .
  have fwd: "heat_index_at turfs' (th_slot (swap_remove ?i active ! j)) = Some (word_of_nat j) \<and>
      cs_generation (slot_at turfs (th_slot (swap_remove ?i active ! j))) = Some (th_generation (swap_remove ?i active ! j))"
    if j: "j < ?n - 1" for j
  proof (cases "j = ?i")
    case True
    have "th_slot (active ! (?n - 1)) \<noteq> slot" using inj [OF n i(1)] i(2) j True by auto
    then show ?thesis using True nth [OF j] indexes heat_okD(3) [OF ok n] by simp
  next
    case False
    have jn: "j < ?n" using j by simp
    have "th_slot (active ! j) \<noteq> slot" using inj [OF jn i(1)] i(2) False by auto
    moreover have "th_slot (active ! j) \<noteq> th_slot (active ! (?n - 1))" using inj [OF jn n] j by auto
    ultimately show ?thesis using False nth [OF j] indexes heat_okD(1,3) [OF ok jn] by simp
  qed
  have bwd: "unat k < ?n - 1 \<and> th_slot (swap_remove ?i active ! unat k) = x" if k: "heat_index_at turfs' x = Some k" for x k
  proof (cases "x = th_slot (active ! (?n - 1))")
    case True
    then have "x \<noteq> slot" "k = index" using k indexes [of x] by (auto split: if_splits)
    then have "?i < ?n - 1" using True i by (cases "?i = ?n - 1") auto
    then show ?thesis using nth True \<open>k = index\<close> by simp
  next
    case False
    then have x: "x \<noteq> slot" "heat_index_at turfs x = Some k" using k indexes [of x] by (auto split: if_splits)
    then have "unat k < ?n" "th_slot (active ! unat k) = x" using ok by (auto simp: heat_ok_def)
    moreover have "unat k \<noteq> ?n - 1" "unat k \<noteq> ?i" using False x(1) i(2) calculation(2) by auto
    ultimately show ?thesis using nth [of "unat k"] by simp
  qed
  have "length active \<le> 2 ^ 32" using ok unfolding heat_ok_def by (rule conjunct1)
  then have "length (swap_remove ?i active) \<le> 2 ^ 32" by simp
  then show ?thesis using fwd bwd by (simp add: heat_ok_def gens)
qed

lemma deactivate_turf_heat_slot_result:
  assumes ok: "heat_ok (wd_turfs w) (wd_heat_active w)"
  obtains turfs active where
    "deactivate_turf_heat_slot slot w = Ok (w\<lparr>wd_turfs := turfs, wd_heat_active := active\<rparr>)"
    and "same_turfs (wd_turfs w) turfs" and "heat_ok turfs active"
    and "\<And>x. heat_index_at turfs x = None \<longleftrightarrow> x = slot \<or> heat_index_at (wd_turfs w) x = None"
proof (cases "heat_index_at (wd_turfs w) slot")
  case None
  show thesis
    by (rule that [of "wd_heat_active w" "wd_turfs w"]) (use None ok in \<open>auto simp: deactivate_turf_heat_slot_def\<close>)
next
  case (Some index)
  let ?turfs = "wd_turfs w" and ?active = "wd_heat_active w" and ?i = "unat index"
  let ?clear = "upd_turf slot (\<lambda>r. r\<lparr>tr_heat_active_index := None\<rparr>)"
  let ?n = "length ?active" and ?moved = "?active ! (length ?active - 1)"
  have i: "?i < ?n" "th_slot (?active ! ?i) = slot" using ok Some by (auto simp: heat_ok_def)
  have n: "?n - 1 < ?n" using i by simp
  let ?turfs' = "?clear (if ?i < ?n - 1 then upd_turf (th_slot ?moved) (\<lambda>r. r\<lparr>tr_heat_active_index := Some index\<rparr>) ?turfs
      else ?turfs)"
  have moved: "heat_index_at ?turfs (th_slot ?moved) \<noteq> None" using heat_okD(1) [OF ok n] by simp
  have turfs: "turf_at ?turfs (th_slot ?moved) \<noteq> None" "turf_at ?turfs slot \<noteq> None"
    using heat_index_turf [OF moved] heat_index_turf [of ?turfs slot] Some by simp_all
  have other: "th_slot ?moved \<noteq> slot" if "?i < ?n - 1" using heat_ok_slot_inj [OF ok n i(1)] i(2) that by auto
  have same: "th_slot ?moved = slot" if "\<not> ?i < ?n - 1"
  proof -
    have "?i = ?n - 1" using that i(1) by simp
    then show ?thesis using i(2) by simp
  qed
  have indexes: "heat_index_at ?turfs' x = (if x = slot then None
      else if x = th_slot ?moved then Some index else heat_index_at ?turfs x)" for x
  proof (cases "?i < ?n - 1")
    case True
    then show ?thesis using turfs other [OF True] by (simp add: heat_index_upd del: not_None_eq)
  next
    case False
    have "?turfs' = ?clear ?turfs" using False by simp
    then show ?thesis using turfs same [OF False] by (simp add: heat_index_upd del: not_None_eq)
  qed
  obtain r where r: "turf_at ?turfs (th_slot ?moved) = Some r" using heat_index_turf [OF moved] by auto
  have live: "require_turf ?turfs ?moved = Ok r"
    using r heat_okD(3) [OF ok n] by (simp add: require_turf_Ok)
  have get: "vec_get (swap_remove ?i ?active) ?i = (if ?i < ?n - 1 then Some ?moved else None)"
    using nth_swap_remove [OF i(1)] by (simp add: vec_get_def)
  show thesis
  proof (rule that)
    show "deactivate_turf_heat_slot slot w = Ok (w\<lparr>wd_turfs := ?turfs', wd_heat_active := swap_remove ?i ?active\<rparr>)"
      using Some i live get by (simp add: deactivate_turf_heat_slot_def update_turf_eq Let_def)
    show "same_turfs ?turfs ?turfs'"
      by (auto intro!: same_turfs_trans [OF _ same_turfs_upd] same_turfs_upd)
    show "heat_ok ?turfs' (swap_remove ?i ?active)"
      using heat_ok_swap_remove [OF ok Some _ indexes] by simp
    show "heat_index_at ?turfs' x = None \<longleftrightarrow> x = slot \<or> heat_index_at ?turfs x = None" for x
      using indexes [of x] moved by auto
  qed
qed

end
