(* ===== verification/World_Batches.thy ===== *)
theory World_Batches
  imports World_Invariant
begin

text \<open>Every batch keeps the invariant of the world, whether it succeeds or stops at an error, and none panics.\<close>

definition safe_result :: "('s \<Rightarrow> bool) \<Rightarrow> ('a, 'e) result \<times> 's \<Rightarrow> bool" where
  "safe_result P m \<longleftrightarrow> fst m \<noteq> Panic \<and> P (snd m)"

lemma safe_result_simps [simp]:
  "safe_result P (Ok x, s) \<longleftrightarrow> P s" "safe_result P (Err e, s) \<longleftrightarrow> P s" "\<not> safe_result P (Panic, s)"
  by (simp_all add: safe_result_def)

lemma safe_keep_loop:
  assumes "\<And>i s. i \<in> set is \<Longrightarrow> P s \<Longrightarrow> safe_result P (f i s)" and "P s"
  shows "safe_result P (keep_loop f is s)"
  using assms
proof (induction "is" arbitrary: s)
  case (Cons i "is")
  have "safe_result P (f i s)" using Cons.prems by simp
  then show ?case
    using Cons.IH Cons.prems(1) by (cases "f i s"; cases "fst (f i s)") auto
qed simp

lemma safe_counted: "safe_result P m \<Longrightarrow> safe_result P (counted mutations m)"
  by (cases m; cases "fst m") (auto simp: counted_def)

section \<open>Changes of the topology\<close>

lemma world_inv_topology:
  "world_inv w \<Longrightarrow> graph_ok (wd_turfs w) t \<Longrightarrow> world_inv (w\<lparr>wd_topology := t\<rparr>)"
  by (simp add: world_inv_def)

lemma try_topology_safe:
  assumes "world_inv w" and "f (wd_topology w) = (r, t)" and "r \<noteq> Panic" and "graph_ok (wd_turfs w) t"
  shows "safe_result world_inv (try_topology f w)"
  using world_inv_topology [OF assms(1,4)] assms(2,3)
  by (cases r) (auto simp: try_topology_def split: topology_error.split)

definition layer_allows :: "core_turf_slot list \<Rightarrow> bool \<Rightarrow> u32 \<Rightarrow> bool" where
  "layer_allows turfs heat slot \<longleftrightarrow> (if heat then heat_at turfs slot \<noteq> None else turf_mixture_at turfs slot \<noteq> None)"

lemma graph_ok_layers:
  "graph_ok turfs t \<longleftrightarrow> topo_inv (gen_of turfs) t \<and>
     (\<forall>h a b. edge_map t h (a, b) \<noteq> None \<longrightarrow> layer_allows turfs h a) \<and>
     (\<forall>a b. edge_map t True (a, b) \<noteq> Some True)"
proof -
  have "(\<forall>h a b. edge_map t h (a, b) \<noteq> None \<longrightarrow> layer_allows turfs h a) \<longleftrightarrow>
      (\<forall>a b. edge_map t False (a, b) \<noteq> None \<longrightarrow> turf_mixture_at turfs a \<noteq> None) \<and>
      (\<forall>a b. edge_map t True (a, b) \<noteq> None \<longrightarrow> heat_at turfs a \<noteq> None)"
    unfolding layer_allows_def by (metis (full_types))
  then show ?thesis unfolding graph_ok_def by blast
qed

lemma connect_graph_ok:
  assumes ok: "graph_ok turfs t" and cur: "current (gen_of turfs) left" "current (gen_of turfs) right"
    and "layer_allows turfs heat (th_slot left)" and "layer_allows turfs heat (th_slot right)"
  obtains r t' where "connect_kind alloc left right heat t = (r, t')" and "r \<noteq> Panic" and "graph_ok turfs t'"
proof -
  let ?out = "connect_outcome alloc left right heat t"
  have inv: "topo_inv (gen_of turfs) t" using ok by (simp add: graph_ok_def)
  obtain t' where t': "connect_kind alloc left right heat t = (?out, t')" "topo_inv (gen_of turfs) t'"
    "\<And>h. edge_map t' h = (if h = heat \<and> ?out = Ok True
       then link (edge_map t heat) (th_slot left) (th_slot right) False else edge_map t h)"
    using connect_kind_result [OF inv cur, of alloc heat] by blast
  have "graph_ok turfs t'"
    using ok assms(4,5) t'(2) by (auto simp: graph_ok_layers t'(3) link_def split: if_splits)
  then show thesis using that t'(1) connect_outcome_neq_Panic by blast
qed

lemma disconnect_graph_ok:
  assumes ok: "graph_ok turfs t" and cur: "current (gen_of turfs) left" "current (gen_of turfs) right"
  obtains r t' where "disconnect_kind left right heat t = (r, t')" and "r \<noteq> Panic" and "graph_ok turfs t'"
proof -
  have inv: "topo_inv (gen_of turfs) t" using ok by (simp add: graph_ok_def)
  obtain t' where t': "disconnect_kind left right heat t = (Ok (has_edge t heat left right), t')"
    "topo_inv (gen_of turfs) t'"
    "\<And>h. edge_map t' h = (if h = heat then unlink (edge_map t heat) (th_slot left) (th_slot right) else edge_map t h)"
    using disconnect_kind_result [OF inv cur, of heat] by blast
  have "graph_ok turfs t'"
    using ok t'(2) by (auto simp: graph_ok_layers t'(3) unlink_def split: if_splits)
  then show thesis using that t'(1) by blast
qed

lemma set_firelock_graph_ok:
  assumes ok: "graph_ok turfs t" and cur: "current (gen_of turfs) left" "current (gen_of turfs) right"
  obtains r t' where "set_firelock left right b t = (r, t')" and "r \<noteq> Panic" and "graph_ok turfs t'"
proof -
  have inv: "topo_inv (gen_of turfs) t" using ok by (simp add: graph_ok_def)
  obtain t' where t': "set_firelock left right b t = (set_firelock_outcome left right b t, t')"
    "topo_inv (gen_of turfs) t'" "edge_map t' True = edge_map t True"
    "edge_map t' False = (if has_edge t False left right
       then link (edge_map t False) (th_slot left) (th_slot right) b else edge_map t False)"
    using set_firelock_result [OF inv cur, of b] by blast
  have "layer_allows turfs h a" if "edge_map t' h (a, c) \<noteq> None" for h a c
    using that ok has_edgeD(4,5) [OF inv, of False left right]
    by (cases h) (auto simp: graph_ok_layers t'(3,4) link_def split: if_splits)
  then have "graph_ok turfs t'" using ok t'(2,3) by (simp add: graph_ok_layers)
  then show thesis using that t'(1) by (simp add: set_firelock_outcome_def split: option.splits)
qed

lemma require_turf_layer:
  assumes "require_turf turfs h = Ok r"
  shows "current (gen_of turfs) h" and "layer_allows turfs False (th_slot h) \<longleftrightarrow> tr_mixture r \<noteq> None"
    and "layer_allows turfs True (th_slot h) \<longleftrightarrow> tr_heat r \<noteq> None"
  using assms require_turf_current [OF assms]
  by (auto simp: layer_allows_def turf_mixture_at_eq heat_at_def require_turf_Ok)

lemma connected_layer_safe:
  assumes "world_inv w" and "current (gen_of (wd_turfs w)) left" and "current (gen_of (wd_turfs w)) right"
    and "layer_allows (wd_turfs w) heat (th_slot left)" and "layer_allows (wd_turfs w) heat (th_slot right)"
  shows "safe_result world_inv (try_topology (connect_kind alloc left right heat) w) \<and>
    safe_result world_inv (try_topology (disconnect_kind left right heat) w)"
proof
  have ok: "graph_ok (wd_turfs w) (wd_topology w)" using assms by (simp add: world_inv_def)
  show "safe_result world_inv (try_topology (connect_kind alloc left right heat) w)"
    by (rule connect_graph_ok [OF ok assms(2-5), of alloc]) (rule try_topology_safe [OF assms(1)])
  show "safe_result world_inv (try_topology (disconnect_kind left right heat) w)"
    by (rule disconnect_graph_ok [OF ok assms(2,3), of heat]) (rule try_topology_safe [OF assms(1)])
qed

lemma apply_turf_adjacency_mutation_safe:
  assumes "world_inv w"
  shows "safe_result world_inv (apply_turf_adjacency_mutation alloc mutation w)"
proof -
  let ?l = "ca_left mutation" and ?r = "ca_right mutation"
  have "safe_result world_inv (try_topology (connect_gas alloc ?l ?r) w) \<and>
      safe_result world_inv (try_topology (disconnect_gas ?l ?r) w)"
    if "require_turf (wd_turfs w) ?l = Ok l" "require_turf (wd_turfs w) ?r = Ok r" "tr_mixture l \<noteq> None" "tr_mixture r \<noteq> None"
    for l r
    using connected_layer_safe [OF assms require_turf_layer(1) require_turf_layer(1), OF that(1,2), of False alloc]
      require_turf_layer(2) that by (simp add: connect_kind_def disconnect_kind_def)
  then show ?thesis
    using assms by (cases "require_turf (wd_turfs w) ?l"; cases "require_turf (wd_turfs w) ?r")
      (auto simp: apply_turf_adjacency_mutation_def)
qed

lemma apply_turf_heat_adjacency_mutation_safe:
  assumes "world_inv w"
  shows "safe_result world_inv (apply_turf_heat_adjacency_mutation alloc mutation w)"
proof -
  let ?l = "ca_left mutation" and ?r = "ca_right mutation"
  have "safe_result world_inv (try_topology (connect_heat alloc ?l ?r) w) \<and>
      safe_result world_inv (try_topology (disconnect_heat ?l ?r) w)"
    if "require_turf (wd_turfs w) ?l = Ok l" "require_turf (wd_turfs w) ?r = Ok r" "tr_heat l \<noteq> None" "tr_heat r \<noteq> None"
    for l r
    using connected_layer_safe [OF assms require_turf_layer(1) require_turf_layer(1), OF that(1,2), of True alloc]
      require_turf_layer(3) that by (simp add: connect_kind_def disconnect_kind_def)
  then show ?thesis
    using assms by (cases "require_turf (wd_turfs w) ?l"; cases "require_turf (wd_turfs w) ?r")
      (auto simp: apply_turf_heat_adjacency_mutation_def)
qed

lemma apply_turf_firelock_mutation_safe:
  assumes "world_inv w"
  shows "safe_result world_inv (apply_turf_firelock_mutation mutation w)"
proof -
  have ok: "graph_ok (wd_turfs w) (wd_topology w)" using assms by (simp add: world_inv_def)
  let ?l = "cf_left mutation" and ?r = "cf_right mutation"
  show ?thesis
  proof (cases "\<exists>l r. require_turf (wd_turfs w) ?l = Ok l \<and> require_turf (wd_turfs w) ?r = Ok r")
    case True
    then obtain l r where lr: "require_turf (wd_turfs w) ?l = Ok l" "require_turf (wd_turfs w) ?r = Ok r" by blast
    obtain a t where t: "set_firelock ?l ?r (cf_firelock mutation) (wd_topology w) = (a, t)" "a \<noteq> Panic"
      "graph_ok (wd_turfs w) t"
      using set_firelock_graph_ok [OF ok] require_turf_layer(1) lr by metis
    show ?thesis
      using lr assms try_topology_safe [where f = "set_firelock ?l ?r (cf_firelock mutation)", OF assms t]
      by (simp add: apply_turf_firelock_mutation_def)
  next
    case False
    then show ?thesis
      using assms by (cases "require_turf (wd_turfs w) ?l"; cases "require_turf (wd_turfs w) ?r")
        (auto simp: apply_turf_firelock_mutation_def)
  qed
qed

lemma topology_batches_safe:
  assumes "world_inv w"
  shows "safe_result world_inv (apply_turf_adjacency alloc adjacencies w)"
    and "safe_result world_inv (apply_turf_heat_adjacency alloc adjacencies w)"
    and "safe_result world_inv (apply_turf_firelocks firelocks w)"
  using assms
  by (auto simp: apply_turf_adjacency_def apply_turf_heat_adjacency_def apply_turf_firelocks_def
      intro!: safe_counted safe_keep_loop apply_turf_adjacency_mutation_safe
        apply_turf_heat_adjacency_mutation_safe apply_turf_firelock_mutation_safe)

section \<open>Active heat\<close>

lemma heat_ok_room:
  assumes ok: "heat_ok turfs active" and free: "heat_index_at turfs slot = None"
  shows "length active < 2 ^ 32"
proof -
  have "inj_on (\<lambda>i. th_slot (active ! i)) {..<length active}"
    by (rule inj_onI) (use heat_ok_slot_inj [OF ok] in blast)
  moreover have "(\<lambda>i. th_slot (active ! i)) ` {..<length active} \<subseteq> UNIV - {slot}"
    using heat_okD(1) [OF ok] free by auto
  ultimately have "card {..<length active} \<le> card (UNIV - {slot} :: u32 set)"
    by (intro card_inj_on_le) simp_all
  then show ?thesis by (simp add: card_Diff_singleton card_word)
qed

lemma heat_ok_push:
  assumes ok: "heat_ok turfs active" and free: "heat_index_at turfs (th_slot h) = None"
    and live: "cs_generation (slot_at turfs (th_slot h)) = Some (th_generation h)"
    and gens: "\<And>x. cs_generation (slot_at turfs' x) = cs_generation (slot_at turfs x)"
    and indexes: "\<And>x. heat_index_at turfs' x = (if x = th_slot h then Some (word_of_nat (length active))
      else heat_index_at turfs x)"
  shows "heat_ok turfs' (active @ [h])"
proof -
  have len: "length active < 2 ^ 32" by (rule heat_ok_room [OF ok free])
  then have n: "unat (word_of_nat (length active) :: u32) = length active"
    by (simp add: unat_of_nat take_bit_nat_eq_self)
  have other: "th_slot (active ! i) \<noteq> th_slot h" if "i < length active" for i
    using heat_okD(1) [OF ok that] free by auto
  have "cs_generation (slot_at turfs' (th_slot ((active @ [h]) ! i))) = Some (th_generation ((active @ [h]) ! i)) \<and>
      heat_index_at turfs' (th_slot ((active @ [h]) ! i)) = Some (word_of_nat i)" if "i < Suc (length active)" for i
    using that heat_okD(1,3) [OF ok] live other by (cases "i = length active") (auto simp: gens indexes nth_append)
  moreover have "unat k < Suc (length active) \<and> th_slot ((active @ [h]) ! unat k) = x"
    if "heat_index_at turfs' x = Some k" for x k
    using that ok n by (auto simp: indexes nth_append heat_ok_def split: if_splits)
  ultimately show ?thesis using len by (simp add: heat_ok_def)
qed

lemma activate_turf_heat_result:
  assumes ok: "heat_ok (wd_turfs w) (wd_heat_active w)" and live: "require_turf (wd_turfs w) h = Ok r"
  obtains turfs active where
    "activate_turf_heat True h w = Ok (w\<lparr>wd_turfs := turfs, wd_heat_active := active\<rparr>)"
    and "same_turfs (wd_turfs w) turfs" and "heat_ok turfs active"
    and "\<And>x. heat_index_at turfs x = None \<longleftrightarrow> x \<noteq> th_slot h \<and> heat_index_at (wd_turfs w) x = None"
proof (cases "tr_heat_active_index r")
  case (Some i)
  show thesis
    by (rule that [of "wd_heat_active w" "wd_turfs w"])
      (use Some ok live in \<open>auto simp: activate_turf_heat_def heat_index_at_eq require_turf_Ok\<close>)
next
  case None
  let ?turfs = "wd_turfs w" and ?n = "length (wd_heat_active w)"
  let ?turfs' = "upd_turf (th_slot h) (\<lambda>r. r\<lparr>tr_heat_active_index := Some (word_of_nat ?n)\<rparr>) ?turfs"
  have h: "turf_at ?turfs (th_slot h) = Some r" "cs_generation (slot_at ?turfs (th_slot h)) = Some (th_generation h)"
    using live by (simp_all add: require_turf_Ok)
  have free: "heat_index_at ?turfs (th_slot h) = None" using h None by (simp add: heat_index_at_eq)
  have indexes: "heat_index_at ?turfs' x = (if x = th_slot h then Some (word_of_nat ?n) else heat_index_at ?turfs x)" for x
    using h by (auto simp: heat_index_upd)
  have "?n \<le> u32_max" using heat_ok_room [OF ok free] by (simp add: u32_max_def)
  then have "activate_turf_heat True h w =
      Ok (w\<lparr>wd_turfs := ?turfs', wd_heat_active := wd_heat_active w @ [h]\<rparr>)"
    using live None by (simp add: activate_turf_heat_def update_turf_eq u32_try_from_def)
  then show thesis
    by (rule that) (use heat_ok_push [OF ok free h(2) _ indexes] in
      \<open>auto simp: indexes intro!: same_turfs_upd\<close>)
qed

section \<open>Heat of a turf\<close>

lemma world_inv_same_turfs:
  assumes "world_inv w" and "same_turfs (wd_turfs w) turfs" and "heat_ok turfs active" and "active_heated turfs"
  shows "world_inv (w\<lparr>wd_turfs := turfs, wd_heat_active := active\<rparr>)"
  using assms by (simp add: world_inv_def same_turfs_generations same_turfs_index same_turfs_graph same_turfs_waiting)

lemma turf_superconduction_temperature_neq_Panic: "turf_superconduction_temperature h t w \<noteq> Panic"
  by (auto simp: turf_superconduction_temperature_def split: option.split)

definition live_turf :: "core_turf_slot list \<Rightarrow> turf_handle \<Rightarrow> bool" where
  "live_turf turfs h \<longleftrightarrow> cs_generation (slot_at turfs (th_slot h)) = Some (th_generation h) \<and> turf_at turfs (th_slot h) \<noteq> None"

lemma live_turf_require: "live_turf turfs h \<longleftrightarrow> (\<exists>r. require_turf turfs h = Ok r)"
  by (auto simp: live_turf_def require_turf_Ok)

lemma live_turf_same: "same_turfs turfs turfs' \<Longrightarrow> live_turf turfs' h = live_turf turfs h"
  by (simp add: live_turf_def same_turfs_eqs)

text \<open>A record whose heat alone is replaced.\<close>

definition set_heat :: "u32 \<Rightarrow> core_heat_state option \<Rightarrow> core_turf_slot list \<Rightarrow> core_turf_slot list" where
  "set_heat slot state = upd_turf slot (\<lambda>r. r\<lparr>tr_heat := state\<rparr>)"

lemma set_heat_eqs:
  shows "heat_index_at (set_heat slot state turfs) = heat_index_at turfs"
    and "turf_mixture_at (set_heat slot state turfs) = turf_mixture_at turfs"
    and "heat_at (set_heat slot state turfs) x = (if x = slot \<and> turf_at turfs x \<noteq> None then state else heat_at turfs x)"
    and "cs_generation (slot_at (set_heat slot state turfs) x) = cs_generation (slot_at turfs x)"
    and "gen_of (set_heat slot state turfs) = gen_of turfs" and "length (set_heat slot state turfs) = length turfs"
    and "turf_at (set_heat slot state turfs) x = None \<longleftrightarrow> turf_at turfs x = None"
    and "live_turf (set_heat slot state turfs) h = live_turf turfs h"
proof -
  have "Option.bind (map_option (\<lambda>r. r\<lparr>tr_heat := state\<rparr>) u) tr_heat_active_index = Option.bind u tr_heat_active_index"
    "Option.bind (map_option (\<lambda>r. r\<lparr>tr_heat := state\<rparr>) u) tr_mixture = Option.bind u tr_mixture"
    for u :: "turf_record option" by (cases u; simp)+
  then show "heat_index_at (set_heat slot state turfs) = heat_index_at turfs"
    and "turf_mixture_at (set_heat slot state turfs) = turf_mixture_at turfs"
    by (auto simp: heat_index_at_eq turf_mixture_at_eq set_heat_def)
  show "heat_at (set_heat slot state turfs) x = (if x = slot \<and> turf_at turfs x \<noteq> None then state else heat_at turfs x)"
    by (cases "turf_at turfs x") (auto simp: heat_at_def set_heat_def)
  show "cs_generation (slot_at (set_heat slot state turfs) x) = cs_generation (slot_at turfs x)"
    and "gen_of (set_heat slot state turfs) = gen_of turfs" and "length (set_heat slot state turfs) = length turfs"
    and "turf_at (set_heat slot state turfs) x = None \<longleftrightarrow> turf_at turfs x = None"
    and "live_turf (set_heat slot state turfs) h = live_turf turfs h"
    by (auto simp: set_heat_def live_turf_def)
qed

text \<open>The parts of the invariant that do not look at the heat of a turf.\<close>

definition world_base :: "world \<Rightarrow> bool" where
  "world_base w \<longleftrightarrow> mixtures_ok (wd_mixtures w) \<and> edges_live (wd_mixtures w) (wd_edges w) \<and>
     generations_ok (wd_turfs w) \<and>
     wd_mixture_turfs w = turfs_index (wd_turfs w) \<and>
     wd_mixture_edges w = edges_index (wd_edges w) \<and>
     heat_ok (wd_turfs w) (wd_heat_active w) \<and>
     waiting_ok (wd_mixtures w) (wd_turfs w) (wd_continuations w)"

lemma world_inv_base:
  "world_inv w \<longleftrightarrow> world_base w \<and> graph_ok (wd_turfs w) (wd_topology w) \<and> active_heated (wd_turfs w)"
  by (auto simp: world_inv_def world_base_def)

lemma world_base_set_heat:
  assumes "world_base w"
  shows "world_base (w\<lparr>wd_turfs := set_heat slot state (wd_turfs w)\<rparr>)"
  using assms by (simp add: world_base_def generations_ok_def turfs_index_def heat_ok_def waiting_ok_def
      waits_on_live_eq set_heat_eqs)

lemma world_base_same_turfs:
  assumes "world_base w" and "same_turfs (wd_turfs w) turfs" and "heat_ok turfs active"
  shows "world_base (w\<lparr>wd_turfs := turfs, wd_heat_active := active\<rparr>)"
  using assms by (simp add: world_base_def same_turfs_generations same_turfs_index same_turfs_waiting)

lemma world_base_topology [simp]: "world_base (w\<lparr>wd_topology := t\<rparr>) = world_base w"
  by (simp add: world_base_def)

lemma current_turf_handle_live:
  assumes "world_base w" and "turf_at (wd_turfs w) slot \<noteq> None"
  shows "current_turf_handle (wd_turfs w) slot = Ok (TurfHandle slot (gen_of (wd_turfs w) slot))"
  using assms by (intro current_turf_handle_Ok) (simp_all add: world_base_def)

end
