(* ===== verification/World_Projection.thy ===== *)
theory World_Projection
  imports World_Batches
begin

text \<open>
  A batch is validated on projected slots and then applied. How a projected slot may change: its generation
  never goes back, and a generation whose slot was vacated never names a record again.
\<close>

definition projected_advances :: "projected_slot \<Rightarrow> projected_slot \<Rightarrow> bool" where
  "projected_advances p q \<longleftrightarrow> (\<forall>g. ps_generation p = Some g \<longrightarrow>
     (\<exists>g'. ps_generation q = Some g' \<and> g \<le> g' \<and> (g' = g \<and> \<not> ps_occupied p \<longrightarrow> \<not> ps_occupied q)))"

definition generation_live :: "projected_slot \<Rightarrow> u32 \<Rightarrow> bool" where
  "generation_live p g \<longleftrightarrow> ps_generation p = Some g \<and> ps_occupied p"

definition generation_spent :: "projected_slot \<Rightarrow> u32 \<Rightarrow> bool" where
  "generation_spent p g \<longleftrightarrow> (\<exists>g'. ps_generation p = Some g' \<and> (g < g' \<or> g = g' \<and> \<not> ps_occupied p))"

lemma projected_advances_refl [simp]: "projected_advances p p"
  by (simp add: projected_advances_def)

lemma projected_advances_trans: "projected_advances p q \<Longrightarrow> projected_advances q r \<Longrightarrow> projected_advances p r"
  by (fastforce simp: projected_advances_def)

lemma generation_live_advances:
  "generation_live p g \<Longrightarrow> projected_advances p q \<Longrightarrow> generation_live q g \<or> generation_spent q g"
  by (fastforce simp: generation_live_def generation_spent_def projected_advances_def)

lemma generation_spent_advances: "generation_spent p g \<Longrightarrow> projected_advances p q \<Longrightarrow> generation_spent q g"
  by (fastforce simp: generation_spent_def projected_advances_def)

lemma generation_spent_dead: "generation_spent p g \<Longrightarrow> \<not> generation_live p g"
  by (auto simp: generation_live_def generation_spent_def)

text \<open>The view of a batch: the slots it has projected, over the slots of the world.\<close>

definition projected_view :: "(u32 \<rightharpoonup> projected_slot) \<Rightarrow> (u32 \<Rightarrow> projected_slot) \<Rightarrow> u32 \<Rightarrow> projected_slot" where
  "projected_view projected slots x = (case projected x of Some p \<Rightarrow> p | None \<Rightarrow> slots x)"

lemma projected_view_update: "projected_view (projected(slot \<mapsto> p)) slots = (projected_view projected slots)(slot := p)"
  by (auto simp: projected_view_def fun_eq_iff)

lemma projected_view_empty: "projected_view Map.empty slots = slots"
  by (simp add: projected_view_def fun_eq_iff)

section \<open>The validation of a batch of turfs\<close>

definition turf_slot_after :: "core_turf_mutation \<Rightarrow> projected_slot \<Rightarrow> projected_slot" where
  "turf_slot_after mutation p = (case mutation of
     RegisterTurf handle _ \<Rightarrow> \<lparr>ps_generation = Some (th_generation handle), ps_occupied = True\<rparr>
   | UnregisterTurf _ \<Rightarrow> \<lparr>ps_generation = ps_generation p, ps_occupied = False\<rparr>)"

lemma validate_turf_mutation_result:
  fixes mutation :: core_turf_mutation
  defines "slot \<equiv> th_slot (tm_handle mutation)"
  assumes "validate_turf_mutation sizes w mutation (projected, n) = Ok (projected', n')"
  defines "p \<equiv> projected_view projected (projected_turf_slot (wd_turfs w)) slot"
  shows "projected' = projected(slot \<mapsto> turf_slot_after mutation p) \<and> n' = max n (unat slot + 1) \<and>
    projected_advances p (turf_slot_after mutation p) \<and>
    (case mutation of UnregisterTurf h \<Rightarrow> generation_live p (th_generation h) | _ \<Rightarrow> True)"
  using assms(2)
  by (cases mutation)
    (auto simp: validate_turf_mutation_def Let_def p_def slot_def projected_view_def turf_slot_after_def
      projected_advances_def generation_live_def split: option.splits if_splits)

lemma validate_turf_mutation_neq_Panic: "validate_turf_mutation sizes w mutation s \<noteq> Panic"
  by (cases s; cases mutation)
    (auto simp: validate_turf_mutation_def Let_def validate_turf_slot_capacity_def validate_world_capacity_def
      checked_u64_def split: option.splits)

section \<open>The validation of a batch of mixtures\<close>

definition mixture_slot_after :: "core_lifecycle_mutation \<Rightarrow> projected_slot \<Rightarrow> projected_slot" where
  "mixture_slot_after mutation p = (case lm_action mutation of
     RegisterMixture \<Rightarrow> \<lparr>ps_generation = Some (mh_generation (lm_handle mutation)), ps_occupied = True\<rparr>
   | UnregisterMixture \<Rightarrow> \<lparr>ps_generation = ps_generation p, ps_occupied = False\<rparr>)"

lemma validate_lifecycle_mutation_result:
  fixes mutation :: core_lifecycle_mutation
  defines "slot \<equiv> mh_slot (lm_handle mutation)"
  assumes "validate_lifecycle_mutation sizes w mutation (projected, n) = Ok (projected', n')"
  defines "p \<equiv> projected_view projected (projected_slot (wd_mixtures w)) slot"
  shows "projected' = projected(slot \<mapsto> mixture_slot_after mutation p) \<and> n' = max n (unat slot + 1) \<and>
    projected_advances p (mixture_slot_after mutation p) \<and>
    (lm_action mutation = UnregisterMixture \<longrightarrow> generation_live p (mh_generation (lm_handle mutation))) \<and>
    (wd_stage_active w \<longrightarrow> lm_action mutation = RegisterMixture \<and>
       (ps_occupied p \<longrightarrow> ps_generation p = Some (mh_generation (lm_handle mutation))))"
  using assms(2)
  by (cases "lm_action mutation")
    (auto simp: validate_lifecycle_mutation_def Let_def p_def slot_def projected_view_def mixture_slot_after_def
      projected_advances_def generation_live_def split: option.splits if_splits)

lemma validate_lifecycle_mutation_neq_Panic: "validate_lifecycle_mutation sizes w mutation s \<noteq> Panic"
  by (cases s; cases "lm_action mutation")
    (auto simp: validate_lifecycle_mutation_def Let_def validate_slot_capacity_def validate_world_capacity_def
      checked_u64_def split: option.splits)

end
