(* ===== verification/World_Registration.thy ===== *)
theory World_Registration
  imports World_Projection
begin

text \<open>Registering and removing turfs: what one mutation does to the slot, the indexes, the graph and the waits.\<close>

lemma projected_turf_slot_eq:
  "projected_turf_slot turfs slot =
     \<lparr>ps_generation = cs_generation (slot_at turfs slot), ps_occupied = (turf_at turfs slot \<noteq> None)\<rparr>"
  by (simp add: projected_turf_slot_def slot_at_def turf_at_def vec_get_def turf_slot_default_def)

lemma unlink_turf_mixture_result:
  assumes "wd_mixture_turfs w = turfs_index (wd_turfs w)"
  shows "unlink_turf_mixture slot w =
    w\<lparr>wd_mixture_turfs := index_of (\<lambda>x m. turf_mixture_at (wd_turfs w) x = Some m \<and> x \<noteq> slot)\<rparr>"
proof (cases "turf_mixture_at (wd_turfs w) slot")
  case None
  then have "index_of (\<lambda>x m. turf_mixture_at (wd_turfs w) x = Some m \<and> x \<noteq> slot) = turfs_index (wd_turfs w)"
    unfolding turfs_index_def by (intro index_of_cong) auto
  then show ?thesis using None assms by (simp add: unlink_turf_mixture_def)
next
  case (Some m)
  have "index_of (\<lambda>x j. turf_mixture_at (wd_turfs w) x = Some j \<and> \<not> (x = slot \<and> j = m)) =
      index_of (\<lambda>x m. turf_mixture_at (wd_turfs w) x = Some m \<and> x \<noteq> slot)"
    using Some by (intro index_of_cong) auto
  then show ?thesis
    using Some assms by (simp add: unlink_turf_mixture_def turfs_index_def index_remove_scan)
qed

text \<open>A slot cleared of its active heat and of both layers of edges.\<close>

lemma clear_turf_slot:
  assumes ok: "heat_ok (wd_turfs w) (wd_heat_active w)" and inv: "topo_inv (gen_of (wd_turfs w)) (wd_topology w)"
  obtains turfs active t where
    "rbind (deactivate_turf_heat_slot slot w) (remove_incident_turf_edges slot) =
      Ok (w\<lparr>wd_turfs := turfs, wd_heat_active := active, wd_topology := t\<rparr>)"
    and "same_turfs (wd_turfs w) turfs" and "heat_ok turfs active"
    and "\<And>x. heat_index_at turfs x = None \<longleftrightarrow> x = slot \<or> heat_index_at (wd_turfs w) x = None"
    and "topo_inv (gen_of (wd_turfs w)) t" and "\<And>h. edge_map t h = isolate (edge_map (wd_topology w) h) slot"
proof -
  obtain turfs active where 1: "deactivate_turf_heat_slot slot w = Ok (w\<lparr>wd_turfs := turfs, wd_heat_active := active\<rparr>)"
    "same_turfs (wd_turfs w) turfs" "heat_ok turfs active"
    "\<And>x. heat_index_at turfs x = None \<longleftrightarrow> x = slot \<or> heat_index_at (wd_turfs w) x = None"
    by (rule deactivate_turf_heat_slot_result [OF ok, of slot]) blast
  let ?w = "w\<lparr>wd_turfs := turfs, wd_heat_active := active\<rparr>"
  have inv': "topo_inv (gen_of (wd_turfs w)) (wd_topology ?w)" using inv by simp
  obtain t where "remove_incident_turf_edges slot ?w = Ok (?w\<lparr>wd_topology := t\<rparr>)"
    "topo_inv (gen_of (wd_turfs w)) t" "\<And>h. edge_map t h = isolate (edge_map (wd_topology ?w) h) slot"
    by (rule remove_incident_turf_edges_result [OF inv', of slot]) blast
  then show thesis using that [of t active turfs] 1 by simp
qed

text \<open>The layers that a registration leaves without a mixture or without heat are dropped.\<close>

lemma drop_layers:
  assumes inv: "topo_inv gen (wd_topology w)"
    and cur: "current_turf_handle (wd_turfs w) slot = Ok (TurfHandle slot (gen slot))"
    and plain: "\<And>a b. edge_map (wd_topology w) True (a, b) \<noteq> Some True"
  obtains t where
    "rbind (if gas then remove_incident_gas_edges slot w else Ok w)
      (\<lambda>w. if heat then remove_incident_heat_edges slot w else Ok w) = Ok (w\<lparr>wd_topology := t\<rparr>)"
    and "topo_inv gen t"
    and "edge_map t False = (if gas then isolate (edge_map (wd_topology w) False) slot else edge_map (wd_topology w) False)"
    and "edge_map t True = (if heat then isolate (edge_map (wd_topology w) True) slot else edge_map (wd_topology w) True)"
proof -
  have plain': "edge_map (wd_topology w) True e = Some f \<Longrightarrow> \<not> f" for e f
    using plain [of "fst e" "snd e"] by (cases f) auto
  obtain t1 where 1: "(if gas then remove_incident_gas_edges slot w else Ok w) = Ok (w\<lparr>wd_topology := t1\<rparr>)"
    "topo_inv gen t1" "edge_map t1 True = edge_map (wd_topology w) True"
    "edge_map t1 False = (if gas then isolate (edge_map (wd_topology w) False) slot else edge_map (wd_topology w) False)"
  proof (cases gas)
    case True
    show thesis by (rule remove_incident_gas_edges_result [OF inv cur plain']) (use that True in auto)
  qed (use that [of "wd_topology w"] inv in simp)
  let ?w1 = "w\<lparr>wd_topology := t1\<rparr>"
  have 2: "topo_inv gen (wd_topology ?w1)" "current_turf_handle (wd_turfs ?w1) slot = Ok (TurfHandle slot (gen slot))"
    using 1(2) cur by simp_all
  obtain t2 where "(if heat then remove_incident_heat_edges slot ?w1 else Ok ?w1) = Ok (w\<lparr>wd_topology := t2\<rparr>)"
    "topo_inv gen t2" "edge_map t2 False = edge_map t1 False"
    "edge_map t2 True = (if heat then isolate (edge_map t1 True) slot else edge_map t1 True)"
  proof (cases heat)
    case True
    show thesis by (rule remove_incident_heat_edges_result [OF 2]) (use that True in auto)
  qed (use that [of t1] 1(2) in simp)
  then show thesis using that [of t2] 1 by simp
qed

section \<open>A record replaced\<close>

lemma turf_eqs_update:
  assumes "unat slot < length turfs"
  shows "turf_mixture_at (turfs[unat slot := s]) x =
      (if x = slot then Option.bind (cs_turf s) tr_mixture else turf_mixture_at turfs x)"
    and "heat_at (turfs[unat slot := s]) x = (if x = slot then Option.bind (cs_turf s) tr_heat else heat_at turfs x)"
    and "heat_index_at (turfs[unat slot := s]) x =
      (if x = slot then Option.bind (cs_turf s) tr_heat_active_index else heat_index_at turfs x)"
  using assms by (simp_all add: turf_mixture_at_eq heat_at_def heat_index_at_eq)

lemma heat_ok_cong:
  assumes "heat_ok turfs active" and "\<And>x. heat_index_at turfs' x = heat_index_at turfs x"
    and "\<And>x. heat_index_at turfs x \<noteq> None \<Longrightarrow> cs_generation (slot_at turfs' x) = cs_generation (slot_at turfs x)"
  shows "heat_ok turfs' active"
  using assms heat_okD(1) [OF assms(1)] by (auto simp: heat_ok_def)

lemma generations_ok_update:
  "generations_ok turfs \<Longrightarrow> unat slot < length turfs \<Longrightarrow> cs_generation s = None \<longrightarrow> cs_turf s = None \<Longrightarrow>
   generations_ok (turfs[unat slot := s])" for slot :: u32
  by (auto simp: generations_ok_def)

lemma invalidate_turf_waiting:
  assumes "waiting_ok mixtures turfs s"
  shows "waiting_ok mixtures turfs (invalidate_continuations_for_turf_slot slot s)"
    and "\<And>token c h. continuation_of (invalidate_continuations_for_turf_slot slot s) token = Some c \<Longrightarrow>
      rc_turf c = Some h \<Longrightarrow> th_slot h \<noteq> slot"
proof -
  have inv: "table_inv s" using assms by (simp add: waiting_ok_def)
  note now = invalidate_where_result [OF inv, of "\<lambda>c. case rc_turf c of Some turf \<Rightarrow> th_slot turf = slot | None \<Rightarrow> False",
      folded invalidate_continuations_for_turf_slot_def]
  show "waiting_ok mixtures turfs (invalidate_continuations_for_turf_slot slot s)"
    using assms now(1,3) by (auto simp: waiting_ok_def split: option.splits if_splits)
  show "th_slot h \<noteq> slot" if "continuation_of (invalidate_continuations_for_turf_slot slot s) token = Some c"
    "rc_turf c = Some h" for token c h
    using that now(3) [of token] by (auto split: option.splits if_splits)
qed

section \<open>One mutation\<close>

lemma graph_okD:
  assumes "graph_ok turfs t"
  shows "edge_map t False (a, b) \<noteq> None \<Longrightarrow> turf_mixture_at turfs a \<noteq> None"
    and "edge_map t True (a, b) \<noteq> None \<Longrightarrow> heat_at turfs a \<noteq> None"
    and "topo_inv (gen_of turfs) t" and "edge_map t True (a, b) \<noteq> Some True"
  using assms unfolding graph_ok_def by blast+

text \<open>
  A world that differs from \<open>w\<close> in the record of one slot and in what hangs on it: the invariant follows
  from facts about that slot.
\<close>

lemma world_inv_slot_changed:
  assumes inv: "world_inv w" and len: "unat slot < length (wd_turfs w)"
    and turfs: "same_turfs (wd_turfs w) turfs2" "heat_ok turfs2 active"
      "\<And>x. heat_index_at turfs2 x \<noteq> None \<Longrightarrow> heat_index_at (wd_turfs w) x \<noteq> None"
    and s: "cs_generation s = None \<longrightarrow> cs_turf s = None"
    and index: "Option.bind (cs_turf s) tr_heat_active_index = heat_index_at turfs2 slot"
      "heat_index_at turfs2 slot \<noteq> None \<longrightarrow> cs_generation s = cs_generation (slot_at (wd_turfs w) slot)"
      "heat_index_at turfs2 slot \<noteq> None \<longrightarrow> Option.bind (cs_turf s) tr_heat \<noteq> None"
    and t: "topo_inv (gen_of (turfs2[unat slot := s])) t" "\<And>a b. edge_map t True (a, b) \<noteq> Some True"
      "\<And>h a b. edge_map t h (a, b) \<noteq> None \<Longrightarrow> edge_map (wd_topology w) h (a, b) \<noteq> None"
      "\<And>b. edge_map t False (slot, b) \<noteq> None \<Longrightarrow> Option.bind (cs_turf s) tr_mixture \<noteq> None"
      "\<And>b. edge_map t True (slot, b) \<noteq> None \<Longrightarrow> Option.bind (cs_turf s) tr_heat \<noteq> None"
    and k: "waiting_ok (wd_mixtures w) (wd_turfs w) k"
      "\<And>token c h. continuation_of k token = Some c \<Longrightarrow> rc_turf c = Some h \<Longrightarrow> th_slot h = slot \<Longrightarrow>
        cs_generation s = cs_generation (slot_at (wd_turfs w) slot) \<and>
        Option.bind (cs_turf s) tr_mixture = turf_mixture_at (wd_turfs w) slot"
  shows "world_inv (w\<lparr>wd_turfs := turfs2[unat slot := s], wd_mixture_turfs := turfs_index (turfs2[unat slot := s]),
    wd_heat_active := active, wd_topology := t, wd_continuations := k\<rparr>)"
proof -
  let ?turfs = "wd_turfs w" and ?turfs3 = "turfs2[unat slot := s]"
  note same = same_turfs_eqs [OF turfs(1)]
  have len2: "unat slot < length turfs2" using len same(4) by simp
  note eqs = turf_eqs_update [OF len2, of s]
  have "generations_ok ?turfs3"
    using inv same_turfs_generations [OF turfs(1)] s len2 by (intro generations_ok_update) (simp_all add: world_inv_def)
  moreover have "heat_ok ?turfs3 active"
    using len2 index(1,2) same(5) by (intro heat_ok_cong [OF turfs(2)]) (auto simp: eqs)
  moreover have "active_heated ?turfs3"
    using inv turfs(3) index(1,3) by (auto simp: active_heated_def eqs same(2) world_inv_def)
  moreover have "graph_ok ?turfs3 t"
    unfolding graph_ok_def
  proof (intro conjI allI impI t(1,2))
    have g: "graph_ok (wd_turfs w) (wd_topology w)" using inv by (simp add: world_inv_def)
    show "turf_mixture_at ?turfs3 a \<noteq> None" if "edge_map t False (a, b) \<noteq> None" for a b
      using that t(4) [of b] graph_okD(1) [OF g t(3)]
      by (cases "a = slot") (simp_all add: eqs same(1) del: not_None_eq)
    show "heat_at ?turfs3 a \<noteq> None" if "edge_map t True (a, b) \<noteq> None" for a b
      using that t(5) [of b] graph_okD(2) [OF g t(3)]
      by (cases "a = slot") (simp_all add: eqs same(2) del: not_None_eq)
  qed
  moreover have "waiting_ok (wd_mixtures w) ?turfs3 k"
    using k len2 by (fastforce simp: waiting_ok_def waits_on_live_eq eqs same(1,5))
  ultimately show ?thesis using inv by (simp add: world_inv_def)
qed

lemma isolate_subset: "isolate m s e \<noteq> None \<Longrightarrow> m e \<noteq> None" and isolate_at: "isolate m s (s, b) = None"
  and isolate_Some: "isolate m s e = Some f \<Longrightarrow> m e = Some f"
  by (cases e; auto simp: isolate_def split: if_splits)+

text \<open>The slot keeps its heat and its edges if the generation is the one it has, and loses them otherwise.\<close>

lemma prepare_registration:
  assumes inv: "world_inv w" and w': "wd_turfs w' = wd_turfs w" "wd_heat_active w' = wd_heat_active w" "wd_topology w' = wd_topology w"
  obtains turfs active t where
    "(if same then Ok w' else rbind (deactivate_turf_heat_slot slot w') (remove_incident_turf_edges slot)) =
      Ok (w'\<lparr>wd_turfs := turfs, wd_heat_active := active, wd_topology := t\<rparr>)"
    and "same_turfs (wd_turfs w) turfs" and "heat_ok turfs active"
    and "\<And>x. heat_index_at turfs x = (if x = slot \<and> \<not> same then None else heat_index_at turfs x)"
    and "\<And>x. heat_index_at turfs x \<noteq> None \<Longrightarrow> heat_index_at (wd_turfs w) x \<noteq> None"
    and "topo_inv (gen_of (wd_turfs w)) t"
    and "\<And>h. edge_map t h = (if same then edge_map (wd_topology w) h else isolate (edge_map (wd_topology w) h) slot)"
proof (cases same)
  case True
  show thesis
    by (rule that [of "wd_topology w" "wd_heat_active w" "wd_turfs w"])
      (use True inv w' in \<open>simp_all add: world_inv_def graph_ok_def\<close>)
next
  case False
  have "heat_ok (wd_turfs w') (wd_heat_active w')" "topo_inv (gen_of (wd_turfs w')) (wd_topology w')"
    using inv w' by (simp_all add: world_inv_def graph_ok_def)
  note clear = clear_turf_slot [OF this, of slot, unfolded w']
  obtain turfs active t where
    "rbind (deactivate_turf_heat_slot slot w') (remove_incident_turf_edges slot) =
      Ok (w'\<lparr>wd_turfs := turfs, wd_heat_active := active, wd_topology := t\<rparr>)"
    "same_turfs (wd_turfs w) turfs" "heat_ok turfs active"
    "\<And>x. heat_index_at turfs x = None \<longleftrightarrow> x = slot \<or> heat_index_at (wd_turfs w) x = None"
    "topo_inv (gen_of (wd_turfs w)) t" "\<And>h. edge_map t h = isolate (edge_map (wd_topology w) h) slot"
    by (rule clear) blast
  with False show thesis by (intro that [of t active turfs]) auto
qed

lemma register_turf_result:
  fixes handle :: turf_handle
  defines "slot \<equiv> th_slot handle"
  assumes inv: "world_inv w" and len: "unat slot < length (wd_turfs w)"
  obtains w' where "register_turf handle mixture (unlink_turf_mixture slot w) = Ok w'" and "world_inv w'"
    and "\<And>x. projected_turf_slot (wd_turfs w') x = (if x = slot
      then \<lparr>ps_generation = Some (th_generation handle), ps_occupied = True\<rparr> else projected_turf_slot (wd_turfs w) x)"
    and "length (wd_turfs w') = length (wd_turfs w)" and "wd_mixtures w' = wd_mixtures w"
proof -
  define s0 where "s0 = slot_at (wd_turfs w) slot"
  have s0: "wd_turfs w ! unat slot = s0" "turf_at (wd_turfs w) slot = cs_turf s0"
    using len by (simp_all add: s0_def slot_at_def turf_at_def)
  define same where "same \<longleftrightarrow> cs_generation s0 = Some (th_generation handle)"
  define invalidates where "invalidates \<longleftrightarrow> \<not> same \<or> (case cs_turf s0 of Some turf \<Rightarrow> tr_mixture turf \<noteq> mixture | None \<Rightarrow> True)"
  define k where "k = (if invalidates then invalidate_continuations_for_turf_slot slot (wd_continuations w) else wd_continuations w)"
  have waiting: "waiting_ok (wd_mixtures w) (wd_turfs w) (wd_continuations w)" using inv by (simp add: world_inv_def)
  let ?I = "index_of (\<lambda>x m. turf_mixture_at (wd_turfs w) x = Some m \<and> x \<noteq> slot)"
  define w1 where "w1 = w\<lparr>wd_mixture_turfs := ?I, wd_continuations := k\<rparr>"
  obtain turfs2 active t2 where 2:
    "(if same then Ok w1 else rbind (deactivate_turf_heat_slot slot w1) (remove_incident_turf_edges slot)) =
      Ok (w1\<lparr>wd_turfs := turfs2, wd_heat_active := active, wd_topology := t2\<rparr>)"
    "same_turfs (wd_turfs w) turfs2" "heat_ok turfs2 active"
    "\<And>x. heat_index_at turfs2 x = (if x = slot \<and> \<not> same then None else heat_index_at turfs2 x)"
    "\<And>x. heat_index_at turfs2 x \<noteq> None \<Longrightarrow> heat_index_at (wd_turfs w) x \<noteq> None"
    "topo_inv (gen_of (wd_turfs w)) t2"
    "\<And>h. edge_map t2 h = (if same then edge_map (wd_topology w) h else isolate (edge_map (wd_topology w) h) slot)"
    by (rule prepare_registration [OF inv, of w1 same slot]) (auto simp: w1_def)
  note eq2 = same_turfs_eqs [OF 2(2)]
  have len2: "unat slot < length turfs2" using len eq2(4) by simp
  define s2 where "s2 = turfs2 ! unat slot"
  have s2: "Option.bind (cs_turf s2) tr_heat = heat_at (wd_turfs w) slot"
    "Option.bind (cs_turf s2) tr_heat_active_index = heat_index_at turfs2 slot"
  proof -
    have at: "turf_at turfs2 slot = cs_turf s2" using len2 by (simp add: s2_def turf_at_def slot_at_def)
    show "Option.bind (cs_turf s2) tr_heat = heat_at (wd_turfs w) slot"
      using fun_cong [OF eq2(2), of slot] by (simp add: heat_at_def at)
    show "Option.bind (cs_turf s2) tr_heat_active_index = heat_index_at turfs2 slot"
      by (simp add: heat_index_at_eq at)
  qed
  define heat where "heat = (if same then heat_at (wd_turfs w) slot else None)"
  define s3 where "s3 = \<lparr>cs_generation = Some (th_generation handle), cs_turf = Some \<lparr>tr_mixture = mixture,
    tr_heat = heat, tr_heat_active_index = heat_index_at turfs2 slot\<rparr>\<rparr>"
  let ?turfs3 = "turfs2[unat slot := s3]"
  have gen3: "gen_of ?turfs3 = (gen_of (wd_turfs w))(slot := th_generation handle)"
    by (simp add: gen_of_update len2 s3_def eq2(3))
  have t2: "topo_inv (gen_of ?turfs3) t2"
  proof (cases same)
    case True
    then have "gen_of ?turfs3 = gen_of (wd_turfs w)"
      by (auto simp: gen3 gen_of_def same_def s0_def fun_eq_iff)
    then show ?thesis using 2(6) by simp
  next
    case False
    then show ?thesis
      unfolding gen3 using 2(7) by (intro topo_inv_regenerate [OF 2(6)]) (simp add: isolate_at)
  qed
  have gens3: "generations_ok ?turfs3"
    using inv len2 same_turfs_generations [OF 2(2)] by (intro generations_ok_update) (simp_all add: world_inv_def s3_def)
  have cur: "current_turf_handle ?turfs3 slot = Ok (TurfHandle slot (gen_of ?turfs3 slot))"
    by (rule current_turf_handle_Ok [OF gens3]) (simp add: len2 s3_def)
  define w3 where "w3 = w1\<lparr>wd_turfs := ?turfs3, wd_mixture_turfs := turfs_index ?turfs3, wd_heat_active := active,
    wd_topology := t2\<rparr>"
  have w3: "wd_turfs w3 = ?turfs3" "wd_topology w3 = t2" by (simp_all add: w3_def)
  have plain: "edge_map t2 True (a, b) \<noteq> Some True" for a b
    using inv isolate_Some [of "edge_map (wd_topology w) True" slot "(a, b)" True]
    by (auto simp: 2(7) world_inv_def graph_ok_def)
  note drop = drop_layers [of "gen_of ?turfs3" w3 slot "mixture = None" "heat = None", unfolded w3, OF t2 cur plain]
  obtain t where t: "rbind (if mixture = None then remove_incident_gas_edges slot w3 else Ok w3)
      (\<lambda>w. if heat = None then remove_incident_heat_edges slot w else Ok w) = Ok (w3\<lparr>wd_topology := t\<rparr>)"
    "topo_inv (gen_of ?turfs3) t"
    "edge_map t False = (if mixture = None then isolate (edge_map t2 False) slot else edge_map t2 False)"
    "edge_map t True = (if heat = None then isolate (edge_map t2 True) slot else edge_map t2 True)"
    by (rule drop) blast
  let ?w' = "w\<lparr>wd_turfs := ?turfs3, wd_mixture_turfs := turfs_index ?turfs3, wd_heat_active := active,
    wd_topology := t, wd_continuations := k\<rparr>"
  have index3: "(case mixture of Some m \<Rightarrow> index_insert m slot ?I | None \<Rightarrow> ?I) = turfs_index ?turfs3"
  proof -
    have "Option.bind (cs_turf s3) tr_mixture = mixture" by (simp add: s3_def)
    then have "turf_mixture_at ?turfs3 x = (if x = slot then mixture else turf_mixture_at (wd_turfs w) x)" for x
      using turf_eqs_update(1) [OF len2, of s3 x] by (simp add: eq2(1))
    then show ?thesis
      by (cases mixture) (auto simp: turfs_index_def index_insert_scan intro!: index_of_cong split: if_splits)
  qed
  have run: "register_turf handle mixture (unlink_turf_mixture slot w) = Ok ?w'"
  proof -
    have same_heat: "(if same then (case cs_turf s2 of Some turf \<Rightarrow> tr_heat turf | None \<Rightarrow> None) else None) =
        heat"
      using s2(1) by (cases "cs_turf s2") (simp_all add: heat_def)
    have same_index: "(if same then (case cs_turf s2 of Some turf \<Rightarrow> tr_heat_active_index turf | None \<Rightarrow> None) else None) =
        heat_index_at turfs2 slot"
      using s2(2) 2(4) [of slot] by (cases "cs_turf s2"; cases same) simp_all
    have w1': "(if invalidates then invalidate_turf slot (unlink_turf_mixture slot w) else unlink_turf_mixture slot w) = w1"
      using inv by (simp add: w1_def k_def invalidate_turf_def unlink_turf_mixture_result world_inv_def)
    have at: "wd_turfs (unlink_turf_mixture slot w) ! unat slot = s0"
      using s0(1) inv by (simp add: unlink_turf_mixture_result world_inv_def)
    have w3': "(case mixture of
          Some m \<Rightarrow> w2\<lparr>wd_mixture_turfs := index_insert m slot (wd_mixture_turfs w2)\<rparr> | None \<Rightarrow> w2) = w3"
      if "w2 = set_turf_slot slot s3 (w1\<lparr>wd_turfs := turfs2, wd_heat_active := active, wd_topology := t2\<rparr>)" for w2
      using that index3 by (cases mixture) (simp_all add: w3_def w1_def set_turf_slot_def)
    have "w3\<lparr>wd_topology := t\<rparr> = ?w'" by (simp add: w3_def w1_def)
    moreover have "wd_turfs (w1\<lparr>wd_turfs := turfs2, wd_heat_active := active, wd_topology := t2\<rparr>) ! unat slot = s2"
      by (simp add: s2_def)
    ultimately show ?thesis
      unfolding register_turf_def Let_def slot_def [symmetric] at same_def [symmetric] invalidates_def [symmetric]
        w1' 2(1) rbind.simps
      using t(1) by (simp only: same_heat same_index s3_def [symmetric] w3' [OF refl])
  qed
  show thesis
  proof (rule that [OF run])
    show "world_inv ?w'"
    proof (rule world_inv_slot_changed [OF inv len 2(2,3,5)])
      show "Option.bind (cs_turf s3) tr_heat_active_index = heat_index_at turfs2 slot"
        and "cs_generation s3 = None \<longrightarrow> cs_turf s3 = None"
        by (simp_all add: s3_def)
      show "heat_index_at turfs2 slot \<noteq> None \<longrightarrow> cs_generation s3 = cs_generation (slot_at (wd_turfs w) slot)"
        and "heat_index_at turfs2 slot \<noteq> None \<longrightarrow> Option.bind (cs_turf s3) tr_heat \<noteq> None"
      proof -
        have act: "active_heated (wd_turfs w)" using inv by (simp add: world_inv_def)
        have "same \<and> heat_at (wd_turfs w) slot \<noteq> None" if "heat_index_at turfs2 slot \<noteq> None"
          using that 2(4) [of slot] 2(5) [of slot] act unfolding active_heated_def by (metis (full_types))
        then show "heat_index_at turfs2 slot \<noteq> None \<longrightarrow> cs_generation s3 = cs_generation (slot_at (wd_turfs w) slot)"
          and "heat_index_at turfs2 slot \<noteq> None \<longrightarrow> Option.bind (cs_turf s3) tr_heat \<noteq> None"
          by (auto simp: s3_def heat_def same_def s0_def)
      qed
      show "edge_map t True (a, b) \<noteq> Some True" for a b
        using plain isolate_Some [of "edge_map t2 True" slot "(a, b)" True] by (auto simp: t(4))
      show "edge_map (wd_topology w) h (a, b) \<noteq> None" if "edge_map t h (a, b) \<noteq> None" for h a b
      proof -
        have "edge_map t2 h (a, b) \<noteq> None"
          using that isolate_subset [of "edge_map t2 h" slot "(a, b)"]
          by (cases h) (simp_all add: t(3,4) del: not_None_eq split: if_splits)
        then show ?thesis
          using isolate_subset [of "edge_map (wd_topology w) h" slot "(a, b)"]
          by (simp add: 2(7) del: not_None_eq split: if_splits)
      qed
      show "Option.bind (cs_turf s3) tr_mixture \<noteq> None" if "edge_map t False (slot, b) \<noteq> None" for b
        using that by (simp add: t(3) s3_def isolate_at del: not_None_eq split: if_splits)
      show "Option.bind (cs_turf s3) tr_heat \<noteq> None" if "edge_map t True (slot, b) \<noteq> None" for b
        using that by (simp add: t(4) s3_def isolate_at del: not_None_eq split: if_splits)
      show "waiting_ok (wd_mixtures w) (wd_turfs w) k"
        using waiting invalidate_turf_waiting(1) [OF waiting] by (simp add: k_def)
      show "cs_generation s3 = cs_generation (slot_at (wd_turfs w) slot) \<and>
          Option.bind (cs_turf s3) tr_mixture = turf_mixture_at (wd_turfs w) slot"
        if "continuation_of k token = Some c" "rc_turf c = Some h" "th_slot h = slot" for token c h
      proof -
        have "\<not> invalidates" using invalidate_turf_waiting(2) [OF waiting, of slot token c h] that by (auto simp: k_def)
        then show ?thesis
          by (auto simp: invalidates_def same_def s0_def s3_def turf_mixture_at_eq turf_at_def split: option.splits)
      qed
    qed (assumption, rule t(2))
    show "projected_turf_slot (wd_turfs ?w') x = (if x = slot
      then \<lparr>ps_generation = Some (th_generation handle), ps_occupied = True\<rparr> else projected_turf_slot (wd_turfs w) x)" for x
      using len2 eq2(5) eq2(6) [of x] by (simp add: projected_turf_slot_eq s3_def del: not_None_eq)
  qed (simp_all add: eq2(4))
qed

lemma remove_incident_heat_edges_gone:
  assumes "turf_at (wd_turfs w) slot = None"
  shows "remove_incident_heat_edges slot w = remove_incident_turf_edges slot w"
proof -
  have gone: "current_turf_handle (wd_turfs w) slot \<noteq> Ok h" for h
    using assms by (auto simp: current_turf_handle_def require_turf_Ok split: option.splits)
  show ?thesis
  proof (cases "remove_incident_turf_edges slot w")
    case (Ok w')
    then have run: "on_topology (remove_slot slot) w = Ok w'" by (simp add: remove_incident_turf_edges_def)
    then have "wd_turfs w' = wd_turfs w" by (auto simp: on_topology_def split: prod.splits result.splits)
    then show ?thesis
      using run gone [of "case current_turf_handle (wd_turfs w) slot of Ok h \<Rightarrow> h"]
      by (cases "current_turf_handle (wd_turfs w) slot")
        (simp_all add: remove_incident_heat_edges_def remove_incident_turf_edges_def)
  qed (simp_all add: remove_incident_heat_edges_def remove_incident_turf_edges_def Let_def)
qed

lemma unregister_turf_result:
  fixes handle :: turf_handle
  defines "slot \<equiv> th_slot handle"
  assumes inv: "world_inv w" and len: "unat slot < length (wd_turfs w)"
  obtains w' where "unregister_turf handle (unlink_turf_mixture slot w) = Ok w'" and "world_inv w'"
    and "\<And>x. projected_turf_slot (wd_turfs w') x = (if x = slot
      then \<lparr>ps_generation = ps_generation (projected_turf_slot (wd_turfs w) slot), ps_occupied = False\<rparr>
      else projected_turf_slot (wd_turfs w) x)"
    and "length (wd_turfs w') = length (wd_turfs w)" and "wd_mixtures w' = wd_mixtures w"
proof -
  let ?k = "invalidate_continuations_for_turf_slot slot (wd_continuations w)"
  let ?I = "index_of (\<lambda>x m. turf_mixture_at (wd_turfs w) x = Some m \<and> x \<noteq> slot)"
  define w1 where "w1 = w\<lparr>wd_mixture_turfs := ?I, wd_continuations := ?k\<rparr>"
  have w1: "invalidate_turf slot (unlink_turf_mixture slot w) = w1"
    using inv by (simp add: w1_def invalidate_turf_def unlink_turf_mixture_result world_inv_def)
  have ok: "heat_ok (wd_turfs w1) (wd_heat_active w1)" and waiting: "waiting_ok (wd_mixtures w) (wd_turfs w) (wd_continuations w)"
    and g: "graph_ok (wd_turfs w) (wd_topology w)"
    using inv by (simp_all add: world_inv_def w1_def)
  obtain turfs2 active where 2:
    "deactivate_turf_heat_slot slot w1 = Ok (w1\<lparr>wd_turfs := turfs2, wd_heat_active := active\<rparr>)"
    "same_turfs (wd_turfs w1) turfs2" "heat_ok turfs2 active"
    "\<And>x. heat_index_at turfs2 x = None \<longleftrightarrow> x = slot \<or> heat_index_at (wd_turfs w1) x = None"
    by (rule deactivate_turf_heat_slot_result [OF ok, of slot]) blast
  have turfs1: "wd_turfs w1 = wd_turfs w" by (simp add: w1_def)
  note same = 2(2) [unfolded turfs1] and indexes = 2(4) [unfolded turfs1]
  note eq2 = same_turfs_eqs [OF same]
  have len2: "unat slot < length turfs2" using len eq2(4) by simp
  define s3 where "s3 = (turfs2 ! unat slot)\<lparr>cs_turf := None\<rparr>"
  let ?turfs3 = "turfs2[unat slot := s3]"
  have gen_s3: "cs_generation s3 = cs_generation (slot_at (wd_turfs w) slot)"
    using eq2(5) [of slot] len2 by (simp add: s3_def slot_at_def)
  have gen3: "gen_of ?turfs3 = gen_of (wd_turfs w)"
    by (auto simp: gen_of_update len2 eq2(3) gen_s3 gen_of_def fun_eq_iff)
  let ?w3 = "w1\<lparr>wd_heat_active := active, wd_turfs := ?turfs3\<rparr>"
  have inv3: "topo_inv (gen_of (wd_turfs w)) (wd_topology ?w3)" using g by (simp add: graph_ok_def w1_def)
  obtain t1 where t1: "remove_incident_turf_edges slot ?w3 = Ok (?w3\<lparr>wd_topology := t1\<rparr>)"
    "topo_inv (gen_of (wd_turfs w)) t1" "\<And>h. edge_map t1 h = isolate (edge_map (wd_topology ?w3) h) slot"
    by (rule remove_incident_turf_edges_result [OF inv3, of slot]) blast
  have inv4: "topo_inv (gen_of (wd_turfs w)) (wd_topology (?w3\<lparr>wd_topology := t1\<rparr>))" using t1(2) by simp
  obtain t where t: "remove_incident_turf_edges slot (?w3\<lparr>wd_topology := t1\<rparr>) = Ok (?w3\<lparr>wd_topology := t1, wd_topology := t\<rparr>)"
    "topo_inv (gen_of (wd_turfs w)) t"
    "\<And>h. edge_map t h = isolate (edge_map (wd_topology (?w3\<lparr>wd_topology := t1\<rparr>)) h) slot"
    by (rule remove_incident_turf_edges_result [OF inv4, of slot]) blast
  have edges: "edge_map t h = isolate (edge_map (wd_topology w) h) slot" for h
    using t(3) [of h] t1(3) [of h] by (auto simp: isolate_def w1_def fun_eq_iff)
  let ?w' = "w\<lparr>wd_turfs := ?turfs3, wd_mixture_turfs := turfs_index ?turfs3, wd_heat_active := active,
    wd_topology := t, wd_continuations := ?k\<rparr>"
  have gone: "cs_turf s3 = None" by (simp add: s3_def)
  then have "turf_mixture_at ?turfs3 x = (if x = slot then None else turf_mixture_at (wd_turfs w) x)" for x
    using turf_eqs_update(1) [OF len2, of s3 x] by (simp add: eq2(1))
  then have index3: "turfs_index ?turfs3 = ?I"
    unfolding turfs_index_def by (intro index_of_cong) auto
  have "turf_at ?turfs3 slot = None" using len2 gone by simp
  then have "remove_incident_heat_edges slot (?w3\<lparr>wd_topology := t1\<rparr>) = Ok ?w'"
    using t(1) index3 by (subst remove_incident_heat_edges_gone) (simp_all add: w1_def)
  then have run: "unregister_turf handle (unlink_turf_mixture slot w) = Ok ?w'"
    using t1(1) by (simp add: unregister_turf_def Let_def slot_def [symmetric] w1 2(1) set_turf_slot_def s3_def)
  show thesis
  proof (rule that [OF run])
    show "world_inv ?w'"
    proof (rule world_inv_slot_changed [OF inv len same 2(3)])
      show "heat_index_at (wd_turfs w) x \<noteq> None" if "heat_index_at turfs2 x \<noteq> None" for x
        using that indexes [of x] by simp
      have none: "heat_index_at turfs2 slot = None" by (simp add: indexes)
      then show "Option.bind (cs_turf s3) tr_heat_active_index = heat_index_at turfs2 slot"
        and "heat_index_at turfs2 slot \<noteq> None \<longrightarrow> cs_generation s3 = cs_generation (slot_at (wd_turfs w) slot)"
        and "heat_index_at turfs2 slot \<noteq> None \<longrightarrow> Option.bind (cs_turf s3) tr_heat \<noteq> None"
        and "cs_generation s3 = None \<longrightarrow> cs_turf s3 = None"
        by (simp_all add: gone)
      show "topo_inv (gen_of ?turfs3) t" unfolding gen3 by (rule t(2))
      show "edge_map t True (a, b) \<noteq> Some True" for a b
        using isolate_Some [of "edge_map (wd_topology w) True" slot "(a, b)" True] graph_okD(4) [OF g]
        unfolding edges by blast
      show "edge_map (wd_topology w) h (a, b) \<noteq> None" if "edge_map t h (a, b) \<noteq> None" for h a b
        using that isolate_subset [of "edge_map (wd_topology w) h" slot "(a, b)"] by (simp add: edges del: not_None_eq)
      show "Option.bind (cs_turf s3) tr_mixture \<noteq> None" if "edge_map t False (slot, b) \<noteq> None" for b
        using that by (simp add: edges isolate_at)
      show "Option.bind (cs_turf s3) tr_heat \<noteq> None" if "edge_map t True (slot, b) \<noteq> None" for b
        using that by (simp add: edges isolate_at)
      show "waiting_ok (wd_mixtures w) (wd_turfs w) ?k" by (rule invalidate_turf_waiting(1) [OF waiting])
      show "cs_generation s3 = cs_generation (slot_at (wd_turfs w) slot) \<and>
          Option.bind (cs_turf s3) tr_mixture = turf_mixture_at (wd_turfs w) slot"
        if "continuation_of ?k token = Some c" "rc_turf c = Some h" "th_slot h = slot" for token c h
        using invalidate_turf_waiting(2) [OF waiting that(1,2)] that(3) by simp
    qed
    show "projected_turf_slot (wd_turfs ?w') x = (if x = slot
      then \<lparr>ps_generation = ps_generation (projected_turf_slot (wd_turfs w) slot), ps_occupied = False\<rparr>
      else projected_turf_slot (wd_turfs w) x)" for x
      using len2 eq2(5) eq2(6) [of x] by (simp add: projected_turf_slot_eq gone gen_s3 del: not_None_eq)
  qed (simp_all add: eq2(4))
qed

section \<open>The batch\<close>

lemma apply_turf_mutation_result:
  assumes inv: "world_inv w" and len: "unat (th_slot (tm_handle mutation)) < length (wd_turfs w)"
  obtains w' where "apply_turf_mutation mutation w = Ok w'" and "world_inv w'"
    and "projected_turf_slot (wd_turfs w') = (projected_turf_slot (wd_turfs w))
      (th_slot (tm_handle mutation) := turf_slot_after mutation (projected_turf_slot (wd_turfs w) (th_slot (tm_handle mutation))))"
    and "length (wd_turfs w') = length (wd_turfs w)" and "wd_mixtures w' = wd_mixtures w"
proof (cases mutation)
  case (RegisterTurf handle mixture)
  have len': "unat (th_slot handle) < length (wd_turfs w)" using len RegisterTurf by simp
  have "length (wd_turfs (unlink_turf_mixture slot w)) = length (wd_turfs w)" for slot
    by (simp add: unlink_turf_mixture_def split: option.split)
  then have run: "apply_turf_mutation mutation w = register_turf handle mixture (unlink_turf_mixture (th_slot handle) w)"
    using len' RegisterTurf by (simp add: apply_turf_mutation_def)
  obtain w' where w': "register_turf handle mixture (unlink_turf_mixture (th_slot handle) w) = Ok w'" "world_inv w'"
    "\<And>x. projected_turf_slot (wd_turfs w') x = (if x = th_slot handle
      then \<lparr>ps_generation = Some (th_generation handle), ps_occupied = True\<rparr>
      else projected_turf_slot (wd_turfs w) x)"
    "length (wd_turfs w') = length (wd_turfs w)" "wd_mixtures w' = wd_mixtures w"
    by (rule register_turf_result [OF inv len', of mixture]) blast
  show thesis
    by (rule that [of w']) (use run w' in \<open>auto simp: fun_eq_iff turf_slot_after_def RegisterTurf\<close>)
next
  case (UnregisterTurf handle)
  have len': "unat (th_slot handle) < length (wd_turfs w)" using len UnregisterTurf by simp
  have "length (wd_turfs (unlink_turf_mixture slot w)) = length (wd_turfs w)" for slot
    by (simp add: unlink_turf_mixture_def split: option.split)
  then have run: "apply_turf_mutation mutation w = unregister_turf handle (unlink_turf_mixture (th_slot handle) w)"
    using len' UnregisterTurf by (simp add: apply_turf_mutation_def)
  obtain w' where w': "unregister_turf handle (unlink_turf_mixture (th_slot handle) w) = Ok w'" "world_inv w'"
    "\<And>x. projected_turf_slot (wd_turfs w') x = (if x = th_slot handle
      then \<lparr>ps_generation = ps_generation (projected_turf_slot (wd_turfs w) (th_slot handle)), ps_occupied = False\<rparr>
      else projected_turf_slot (wd_turfs w) x)"
    "length (wd_turfs w') = length (wd_turfs w)" "wd_mixtures w' = wd_mixtures w"
    by (rule unregister_turf_result [OF inv len']) blast
  show thesis
    by (rule that [of w']) (use run w' in \<open>auto simp: fun_eq_iff turf_slot_after_def UnregisterTurf\<close>)
qed

lemma turf_batch_slots:
  assumes "rfold (validate_turf_mutation sizes w) mutations (projected, n) = Ok (projected', n')"
  shows "n \<le> n'" and "n' \<le> max n (2 ^ 32)"
proof -
  have "n \<le> n' \<and> n' \<le> max n (2 ^ 32)"
    using assms
  proof (induction mutations arbitrary: projected n)
    case (Cons m ms)
    obtain projected1 n1 where 1: "validate_turf_mutation sizes w m (projected, n) = Ok (projected1, n1)"
      and rest: "rfold (validate_turf_mutation sizes w) ms (projected1, n1) = Ok (projected', n')"
      using Cons.prems by auto
    have "unat (th_slot (tm_handle m)) < 2 ^ 32" using unat_less_2p [of "th_slot (tm_handle m)"] by simp
    then show ?case
      using Cons.IH [OF rest] validate_turf_mutation_result [OF 1] by (auto simp: max_def split: if_splits)
  qed auto
  then show "n \<le> n'" and "n' \<le> max n (2 ^ 32)" by simp_all
qed

text \<open>What was validated is what is applied: the loop cannot fail and leaves the projected slots.\<close>

lemma turf_batch_result:
  assumes "rfold (validate_turf_mutation sizes w0) mutations (projected, n) = Ok (projected', n')"
    and "world_inv w" and "n' \<le> length (wd_turfs w)"
    and "projected_turf_slot (wd_turfs w) = projected_view projected (projected_turf_slot (wd_turfs w0))"
  shows "\<exists>w'. rfold apply_turf_mutation mutations w = Ok w' \<and> world_inv w' \<and> wd_mixtures w' = wd_mixtures w \<and>
    projected_turf_slot (wd_turfs w') = projected_view projected' (projected_turf_slot (wd_turfs w0)) \<and>
    (\<forall>x. projected_advances (projected_turf_slot (wd_turfs w) x) (projected_turf_slot (wd_turfs w') x))"
  using assms
proof (induction mutations arbitrary: projected n w)
  case Nil
  then show ?case by auto
next
  case (Cons m ms)
  let ?slot = "th_slot (tm_handle m)" and ?slots = "projected_turf_slot (wd_turfs w0)"
  obtain projected1 n1 where 1: "validate_turf_mutation sizes w0 m (projected, n) = Ok (projected1, n1)"
    and rest: "rfold (validate_turf_mutation sizes w0) ms (projected1, n1) = Ok (projected', n')"
    using Cons.prems(1) by auto
  note v = validate_turf_mutation_result [OF 1]
  have grows: "n1 \<le> n'" by (rule turf_batch_slots [OF rest])
  then have "unat ?slot < length (wd_turfs w)" using v Cons.prems(3) by auto
  then obtain w1 where w1: "apply_turf_mutation m w = Ok w1" "world_inv w1"
    "projected_turf_slot (wd_turfs w1) = (projected_turf_slot (wd_turfs w))
      (?slot := turf_slot_after m (projected_turf_slot (wd_turfs w) ?slot))"
    "length (wd_turfs w1) = length (wd_turfs w)" "wd_mixtures w1 = wd_mixtures w"
    by (rule apply_turf_mutation_result [OF Cons.prems(2)]) blast
  have view1: "projected_turf_slot (wd_turfs w1) = projected_view projected1 ?slots"
    using v by (simp add: w1(3) Cons.prems(4) projected_view_update)
  have advances: "projected_advances (projected_turf_slot (wd_turfs w) x) (projected_turf_slot (wd_turfs w1) x)" for x
    using v by (simp add: w1(3) Cons.prems(4))
  have "n' \<le> length (wd_turfs w1)" using Cons.prems(3) w1(4) by simp
  then obtain w2 where w2: "rfold apply_turf_mutation ms w1 = Ok w2" "world_inv w2" "wd_mixtures w2 = wd_mixtures w1"
    "projected_turf_slot (wd_turfs w2) = projected_view projected' ?slots"
    "\<And>x. projected_advances (projected_turf_slot (wd_turfs w1) x) (projected_turf_slot (wd_turfs w2) x)"
    using Cons.IH [OF rest w1(2) _ view1] by blast
  then show ?case
    using w1(1,5) projected_advances_trans [OF advances] by (intro exI [of _ w2]) simp
qed

lemma world_inv_extend_turfs:
  assumes "world_inv w" and "length (wd_turfs w) + n \<le> 2 ^ 32"
  shows "world_inv (w\<lparr>wd_turfs := wd_turfs w @ replicate n turf_slot_default\<rparr>)"
    and "projected_turf_slot (wd_turfs w @ replicate n turf_slot_default) = projected_turf_slot (wd_turfs w)"
proof -
  let ?turfs = "wd_turfs w @ replicate n turf_slot_default"
  have at: "turf_at ?turfs = turf_at (wd_turfs w)" by (simp add: turf_at_def fun_eq_iff)
  then have eqs: "turf_mixture_at ?turfs = turf_mixture_at (wd_turfs w)" "heat_index_at ?turfs = heat_index_at (wd_turfs w)"
    "heat_at ?turfs = heat_at (wd_turfs w)" "gen_of ?turfs = gen_of (wd_turfs w)"
    by (simp_all add: turf_mixture_at_eq heat_index_at_eq heat_at_def gen_of_def fun_eq_iff)
  show "world_inv (w\<lparr>wd_turfs := ?turfs\<rparr>)"
    using assms by (simp add: world_inv_def generations_ok_def turfs_index_def graph_ok_def heat_ok_def active_heated_def
        waiting_ok_def waits_on_live_eq eqs at)
  show "projected_turf_slot ?turfs = projected_turf_slot (wd_turfs w)"
    by (simp add: projected_turf_slot_eq at fun_eq_iff)
qed

text \<open>A batch of turfs fails with every record as it was, or leaves what was validated.\<close>

lemma apply_turf_lifecycle_result:
  assumes inv: "world_inv w" and run: "apply_turf_lifecycle sizes alloc mutations w = (r, w')"
  shows "r \<noteq> Panic \<and> world_inv w' \<and> wd_mixtures w' = wd_mixtures w \<and>
    (\<forall>x. projected_advances (projected_turf_slot (wd_turfs w) x) (projected_turf_slot (wd_turfs w') x)) \<and>
    (case r of
      Ok _ \<Rightarrow> \<exists>projected n. rfold (validate_turf_mutation sizes w) mutations (Map.empty, length (wd_turfs w)) = Ok (projected, n) \<and>
        projected_turf_slot (wd_turfs w') = projected_view projected (projected_turf_slot (wd_turfs w))
    | _ \<Rightarrow> \<exists>n. w' = w\<lparr>wd_turfs := wd_turfs w @ replicate n turf_slot_default\<rparr>)"
proof (cases "wd_stage_active w")
  case True
  then have "r = Err (ActiveStageConflict ''apply turf lifecycle'')" "w' = w\<lparr>wd_turfs := wd_turfs w @ replicate 0 turf_slot_default\<rparr>"
    using run by (simp_all add: apply_turf_lifecycle_def)
  then show ?thesis using inv by (auto intro: exI [of _ 0])
next
  case False
  let ?validated = "rfold (validate_turf_mutation sizes w) mutations (Map.empty, length (wd_turfs w))"
  have unchanged: "\<exists>n. w = w\<lparr>wd_turfs := wd_turfs w @ replicate n turf_slot_default\<rparr>"
    by (rule exI [of _ 0]) simp
  show ?thesis
  proof (cases ?validated)
    case (Err e)
    then have "r = Err e" "w' = w" using run False by (simp_all add: apply_turf_lifecycle_def)
    then show ?thesis using inv unchanged by simp
  next
    case Panic
    moreover have "?validated \<noteq> Panic" by (rule rfold_neq_Panic) (rule validate_turf_mutation_neq_Panic)
    ultimately show ?thesis by simp
  next
    case (Ok p)
    obtain projected n where p: "p = (projected, n)" by (cases p)
    let ?m = "n - length (wd_turfs w)"
    let ?w1 = "w\<lparr>wd_turfs := wd_turfs w @ replicate ?m turf_slot_default\<rparr>"
    have "length (wd_turfs w) \<le> 2 ^ 32" using inv by (simp add: world_inv_def generations_ok_def)
    then have n: "length (wd_turfs w) \<le> n" "n \<le> 2 ^ 32"
      using turf_batch_slots [OF Ok [unfolded p]] by simp_all
    then have len: "length (wd_turfs w) + ?m \<le> 2 ^ 32" by simp
    note w1 = world_inv_extend_turfs [OF inv len]
    have "\<exists>w2. rfold apply_turf_mutation mutations ?w1 = Ok w2 \<and> world_inv w2 \<and> wd_mixtures w2 = wd_mixtures ?w1 \<and>
      projected_turf_slot (wd_turfs w2) = projected_view projected (projected_turf_slot (wd_turfs w)) \<and>
      (\<forall>x. projected_advances (projected_turf_slot (wd_turfs ?w1) x) (projected_turf_slot (wd_turfs w2) x))"
      using n(1) w1(2) by (intro turf_batch_result [OF Ok [unfolded p] w1(1)]) (simp_all add: projected_view_empty)
    then obtain w2 where w2: "rfold apply_turf_mutation mutations ?w1 = Ok w2" "world_inv w2" "wd_mixtures w2 = wd_mixtures w"
      "projected_turf_slot (wd_turfs w2) = projected_view projected (projected_turf_slot (wd_turfs w))"
      "\<And>x. projected_advances (projected_turf_slot (wd_turfs w) x) (projected_turf_slot (wd_turfs w2) x)"
      using w1(2) by auto
    consider "r = Err WorldAllocationFailed" "w' = w" | "r = Err WorldAllocationFailed" "w' = ?w1"
      | "r = Ok (word_of_nat (length mutations))" "w' = w2"
      using run False Ok w2(1) by (auto simp: apply_turf_lifecycle_def p Let_def split: if_splits)
    then show ?thesis
      using inv unchanged w1 w2 Ok p by cases auto
  qed
qed

end
