(* ===== verification/World_Mixtures.thy ===== *)
theory World_Mixtures
  imports World_Registration
begin

text \<open>Registering and removing mixtures: edges, turfs and waiting continuations of a removed mixture go with it.\<close>

lemma projected_slot_eq:
  "projected_slot mixtures slot =
     \<lparr>ps_generation = (if unat slot < length mixtures then ms_generation (mixtures ! unat slot) else None),
      ps_occupied = occupied mixtures slot\<rparr>"
  by (simp add: projected_slot_def occupied_def vec_get_def)

lemma projected_slot_update:
  "unat slot < length mixtures \<Longrightarrow> projected_slot (mixtures[unat slot := s]) =
     (projected_slot mixtures)(slot := \<lparr>ps_generation = ms_generation s, ps_occupied = (ms_mixture s \<noteq> None)\<rparr>)"
  by (auto simp: projected_slot_eq occupied_def fun_eq_iff nth_list_update word_unat_eq_iff)

lemma occupied_update:
  "unat slot < length mixtures \<Longrightarrow>
     occupied (mixtures[unat slot := s]) x = (if x = slot then ms_mixture s \<noteq> None else occupied mixtures x)"
  by (auto simp: occupied_def nth_list_update word_unat_eq_iff)

lemma require_handle_update:
  "mh_slot h \<noteq> slot \<Longrightarrow> require_handle (mixtures[unat slot := s]) h = require_handle mixtures h"
  by (simp add: require_handle_def vec_get_def word_unat_eq_iff)

lemma mixtures_ok_update:
  assumes "mixtures_ok mixtures" and "ms_mixture s \<noteq> None \<longrightarrow> ms_generation s \<noteq> None"
  shows "mixtures_ok (mixtures[i := s])"
  using assms set_update_subset_insert [of mixtures i s] unfolding mixtures_ok_def by (metis insertE length_list_update subsetD)

section \<open>The loop that applies\<close>

text \<open>The invariant while slots of \<open>S\<close> have been invalidated and their edges are still there.\<close>

definition edges_live_except :: "u32 set \<Rightarrow> mixture_slot list \<Rightarrow> (edge_key \<rightharpoonup> f32) \<Rightarrow> bool" where
  "edges_live_except S mixtures edges \<longleftrightarrow> (\<forall>key. edges key \<noteq> None \<longrightarrow> ek_left key < ek_right key \<and>
     (ek_left key \<in> S \<or> occupied mixtures (ek_left key)) \<and> (ek_right key \<in> S \<or> occupied mixtures (ek_right key)))"

definition waits_outside :: "u32 set \<Rightarrow> continuation_table \<Rightarrow> bool" where
  "waits_outside S k \<longleftrightarrow> (\<forall>token c. continuation_of k token = Some c \<longrightarrow> mh_slot (rc_mixture c) \<notin> S)"

definition world_inv_except :: "u32 set \<Rightarrow> world \<Rightarrow> bool" where
  "world_inv_except S w \<longleftrightarrow> world_inv (w\<lparr>wd_edges := Map.empty, wd_mixture_edges := edges_index Map.empty\<rparr>) \<and>
     wd_mixture_edges w = edges_index (wd_edges w) \<and> edges_live_except S (wd_mixtures w) (wd_edges w) \<and>
     waits_outside S (wd_continuations w)"

lemma world_inv_except_empty: "world_inv_except {} w \<longleftrightarrow> world_inv w"
  by (auto simp: world_inv_except_def world_inv_def edges_live_except_def edges_live_def waits_outside_def)

lemma invalidate_mixture_waiting:
  assumes "waiting_ok mixtures turfs k"
  shows "waiting_ok mixtures turfs (invalidate_continuations_for_mixture_slot slot k)"
    and "waits_outside S k \<Longrightarrow> waits_outside (insert slot S) (invalidate_continuations_for_mixture_slot slot k)"
proof -
  have inv: "table_inv k" using assms by (simp add: waiting_ok_def)
  note now = invalidate_where_result [OF inv, of "\<lambda>c. mh_slot (rc_mixture c) = slot",
      folded invalidate_continuations_for_mixture_slot_def]
  show "waiting_ok mixtures turfs (invalidate_continuations_for_mixture_slot slot k)"
    using assms now(1,3) by (auto simp: waiting_ok_def split: option.splits if_splits)
  show "waits_outside (insert slot S) (invalidate_continuations_for_mixture_slot slot k)" if "waits_outside S k"
    using that now(3) by (auto simp: waits_outside_def split: option.splits if_splits)
qed

lemma set_mixture_invalidated:
  assumes inv: "world_inv_except S w" and len: "unat slot < length (wd_mixtures w)"
    and s: "ms_mixture s \<noteq> None \<longrightarrow> ms_generation s \<noteq> None"
  shows "world_inv_except (insert slot S) (set_mixture_slot slot s
    (w\<lparr>wd_continuations := invalidate_continuations_for_mixture_slot slot (wd_continuations w)\<rparr>))"
proof -
  let ?k = "invalidate_continuations_for_mixture_slot slot (wd_continuations w)"
  have waiting: "waiting_ok (wd_mixtures w) (wd_turfs w) (wd_continuations w)"
    and outside: "waits_outside S (wd_continuations w)"
    using inv by (simp_all add: world_inv_except_def world_inv_def)
  note k = invalidate_mixture_waiting [OF waiting, where slot = slot]
  have "waiting_ok ((wd_mixtures w)[unat slot := s]) (wd_turfs w) ?k"
    using k(1) k(2) [OF outside] by (auto simp: waiting_ok_def waits_outside_def waits_on_live_def require_handle_update)
  moreover have "edges_live_except (insert slot S) ((wd_mixtures w)[unat slot := s]) (wd_edges w)"
    using inv len by (auto simp: world_inv_except_def edges_live_except_def occupied_update)
  moreover have "mixtures_ok ((wd_mixtures w)[unat slot := s])"
    using inv s by (intro mixtures_ok_update) (simp_all add: world_inv_except_def world_inv_def)
  ultimately show ?thesis
    using inv k(2) [OF outside] by (simp add: world_inv_except_def world_inv_def set_mixture_slot_def edges_live_def)
qed

lemma apply_lifecycle_mutation_result:
  fixes mutation :: core_lifecycle_mutation
  defines "slot \<equiv> mh_slot (lm_handle mutation)"
  assumes inv: "world_inv_except S w" and len: "unat slot < length (wd_mixtures w)"
  obtains w' S' where "apply_lifecycle_mutation mutation (w, S) = Ok (w', S')" and "world_inv_except S' w'"
    and "S \<subseteq> S'" and "lm_action mutation = UnregisterMixture \<Longrightarrow> slot \<in> S'"
    and "projected_slot (wd_mixtures w') = (projected_slot (wd_mixtures w))
      (slot := mixture_slot_after mutation (projected_slot (wd_mixtures w) slot))"
    and "length (wd_mixtures w') = length (wd_mixtures w)" and "wd_turfs w' = wd_turfs w"
proof -
  let ?s = "wd_mixtures w ! unat slot" and ?g = "mh_generation (lm_handle mutation)"
  let ?w1 = "w\<lparr>wd_continuations := invalidate_continuations_for_mixture_slot slot (wd_continuations w)\<rparr>"
  have get: "vec_get (wd_mixtures w) (unat slot) = Some ?s" using len by simp
  have gen: "ms_mixture ?s \<noteq> None \<longrightarrow> ms_generation ?s \<noteq> None"
    using inv len by (simp add: world_inv_except_def world_inv_def mixtures_ok_def)
  consider (fresh) "lm_action mutation = RegisterMixture" "ms_generation ?s \<noteq> Some ?g \<or> ms_mixture ?s = None"
    | (same) "lm_action mutation = RegisterMixture" "ms_generation ?s = Some ?g" "ms_mixture ?s \<noteq> None"
    | (remove) "lm_action mutation = UnregisterMixture"
    by (cases "lm_action mutation") blast+
  then show thesis
  proof cases
    case fresh
    let ?new = "\<lparr>ms_generation = Some ?g, ms_mixture = Some mixture_record_new\<rparr>"
    show thesis
      by (rule that [of "set_mixture_slot slot ?new ?w1" "insert slot S"])
        (use fresh set_mixture_invalidated [OF inv len, of ?new] len in
          \<open>simp_all add: apply_lifecycle_mutation_def get slot_def [symmetric] set_mixture_slot_def
            projected_slot_update mixture_slot_after_def subset_insertI del: not_None_eq\<close>)
  next
    case same
    have "projected_slot (wd_mixtures w) slot = \<lparr>ps_generation = Some ?g, ps_occupied = True\<rparr>"
      using same len by (simp add: projected_slot_eq occupied_def)
    then show thesis
      using same inv that [of w S]
      by (simp add: apply_lifecycle_mutation_def get slot_def [symmetric] mixture_slot_after_def fun_upd_idem del: not_None_eq)
  next
    case remove
    show thesis
      by (rule that [of "set_mixture_slot slot (?s\<lparr>ms_mixture := None\<rparr>) ?w1" "insert slot S"])
        (use remove set_mixture_invalidated [OF inv len, of "?s\<lparr>ms_mixture := None\<rparr>"] len in
          \<open>simp_all add: apply_lifecycle_mutation_def get slot_def [symmetric] set_mixture_slot_def
            projected_slot_update projected_slot_eq [of _ slot] mixture_slot_after_def subset_insertI del: not_None_eq\<close>)
  qed
qed

section \<open>Edges of invalidated slots\<close>

lemma remove_incident_fold:
  assumes "wd_mixture_edges w = edges_index (wd_edges w)"
  shows "fold remove_incident_mixture_edges slots w =
    (let edges = (\<lambda>k. if \<exists>x \<in> set slots. incident k x then None else wd_edges w k)
     in w\<lparr>wd_edges := edges, wd_mixture_edges := edges_index edges\<rparr>)"
  using assms
proof (induction slots arbitrary: w)
  case (Cons x slots)
  let ?edges = "\<lambda>k. if incident k x then None else wd_edges w k"
  let ?w1 = "w\<lparr>wd_edges := ?edges, wd_mixture_edges := edges_index ?edges\<rparr>"
  have e: "wd_edges ?w1 = ?edges" by simp
  have "(\<lambda>k. if \<exists>y \<in> set slots. incident k y then None else ?edges k) =
      (\<lambda>k. if \<exists>y \<in> set (x # slots). incident k y then None else wd_edges w k)"
    by (auto simp: fun_eq_iff)
  then show ?case
    using Cons.IH [of ?w1] unfolding e Let_def
    by (simp add: remove_incident_mixture_edges_result [OF Cons.prems] Let_def)
qed (simp add: Let_def)

lemma remove_incident_restores:
  assumes "world_inv_except S w" and "finite S"
  defines "w' \<equiv> fold remove_incident_mixture_edges (sorted_list_of_set S) w"
  shows "world_inv w' \<and> waits_outside S (wd_continuations w') \<and> wd_mixtures w' = wd_mixtures w \<and> wd_turfs w' = wd_turfs w"
proof -
  let ?edges = "\<lambda>k. if \<exists>x \<in> S. incident k x then None else wd_edges w k"
  have "w' = w\<lparr>wd_edges := ?edges, wd_mixture_edges := edges_index ?edges\<rparr>"
    unfolding w'_def using assms(1,2) by (subst remove_incident_fold) (simp_all add: world_inv_except_def Let_def)
  moreover have "edges_live (wd_mixtures w) ?edges"
    using assms(1) by (auto simp: world_inv_except_def edges_live_except_def edges_live_def incident_def split: if_splits)
  ultimately show ?thesis using assms(1) by (simp add: world_inv_except_def world_inv_def)
qed

section \<open>Turfs of a removed mixture\<close>

text \<open>Apart from the index of turfs by mixture, which loses the key of \<open>m\<close> before the loop.\<close>

definition detach_inv :: "u32 set \<Rightarrow> world \<Rightarrow> bool" where
  "detach_inv S w \<longleftrightarrow> world_inv (w\<lparr>wd_mixture_turfs := turfs_index (wd_turfs w)\<rparr>) \<and> waits_outside S (wd_continuations w)"

lemma detach_turf_result:
  assumes inv: "detach_inv S w" and m: "turf_mixture_at (wd_turfs w) slot = Some m" "mh_slot m \<in> S"
  obtains w' where "detach_turf slot w = Ok w'" and "detach_inv S w'" and "wd_mixture_turfs w' = wd_mixture_turfs w"
    and "wd_mixtures w' = wd_mixtures w"
    and "\<And>x. turf_mixture_at (wd_turfs w') x = (if x = slot then None else turf_mixture_at (wd_turfs w) x)"
    and "projected_turf_slot (wd_turfs w') = projected_turf_slot (wd_turfs w)"
proof -
  let ?turfs = "wd_turfs w"
  let ?w0 = "w\<lparr>wd_mixture_turfs := turfs_index ?turfs\<rparr>"
  have inv0: "world_inv ?w0" using inv by (simp add: detach_inv_def)
  obtain r where r: "turf_at ?turfs slot = Some r" "tr_mixture r = Some m"
    using m(1) by (cases "turf_at ?turfs slot") (auto simp: turf_mixture_at_eq)
  have len: "unat slot < length ?turfs" using r(1) turf_at_None_outside [of ?turfs slot] by simp
  define s where "s = (?turfs ! unat slot)\<lparr>cs_turf := Some (r\<lparr>tr_mixture := None\<rparr>)\<rparr>"
  have cs: "cs_turf (?turfs ! unat slot) = Some r" using r(1) len by (simp add: turf_at_def slot_at_def)
  have gen_s: "cs_generation s = cs_generation (slot_at ?turfs slot)" using len by (simp add: s_def slot_at_def)
  have upd: "update_turf slot (\<lambda>r. r\<lparr>tr_mixture := None\<rparr>) w = w\<lparr>wd_turfs := ?turfs[unat slot := s]\<rparr>"
    by (simp add: update_turf_def s_def cs)
  let ?w1 = "w\<lparr>wd_turfs := ?turfs[unat slot := s]\<rparr>"
  have gen: "gen_of (?turfs[unat slot := s]) = gen_of ?turfs"
    by (auto simp: gen_of_update len gen_s gen_of_def fun_eq_iff)
  have g: "graph_ok ?turfs (wd_topology w)" using inv0 by (simp add: world_inv_def)
  then have "topo_inv (gen_of ?turfs) (wd_topology ?w1)" by (simp add: graph_ok_def)
  then obtain t where t: "remove_incident_turf_edges slot ?w1 = Ok (?w1\<lparr>wd_topology := t\<rparr>)" "topo_inv (gen_of ?turfs) t"
    "\<And>h. edge_map t h = isolate (edge_map (wd_topology ?w1) h) slot"
    by (rule remove_incident_turf_edges_result [where slot = slot]) blast
  have edges: "edge_map t h = isolate (edge_map (wd_topology w) h) slot" for h using t(3) by simp
  let ?w' = "?w1\<lparr>wd_topology := t\<rparr>"
  have index: "heat_index_at ?turfs slot = tr_heat_active_index r" "heat_at ?turfs slot = tr_heat r"
    using r by (simp_all add: heat_index_at_eq heat_at_def)
  have changed: "world_inv (?w0\<lparr>wd_turfs := ?turfs[unat slot := s], wd_mixture_turfs := turfs_index (?turfs[unat slot := s]),
    wd_heat_active := wd_heat_active w, wd_topology := t, wd_continuations := wd_continuations w\<rparr>)"
  proof (rule world_inv_slot_changed [OF inv0])
    show "unat slot < length (wd_turfs ?w0)" "same_turfs (wd_turfs ?w0) ?turfs" "heat_ok ?turfs (wd_heat_active w)"
      "waiting_ok (wd_mixtures ?w0) (wd_turfs ?w0) (wd_continuations w)"
      using inv0 len by (simp_all add: world_inv_def)
    show "cs_generation s = None \<longrightarrow> cs_turf s = None"
      using inv0 r(1) len gen_s by (auto simp: world_inv_def generations_ok_def)
    show "Option.bind (cs_turf s) tr_heat_active_index = heat_index_at ?turfs slot"
      "heat_index_at ?turfs slot \<noteq> None \<longrightarrow> cs_generation s = cs_generation (slot_at (wd_turfs ?w0) slot)"
      using index gen_s by (simp_all add: s_def)
    have "active_heated ?turfs" using inv0 by (simp add: world_inv_def)
    then show "heat_index_at ?turfs slot \<noteq> None \<longrightarrow> Option.bind (cs_turf s) tr_heat \<noteq> None"
      using index unfolding active_heated_def by (simp add: s_def) metis
    show "topo_inv (gen_of (?turfs[unat slot := s])) t" unfolding gen by (rule t(2))
    show "edge_map t True (a, b) \<noteq> Some True" for a b
      using isolate_Some [of "edge_map (wd_topology w) True" slot "(a, b)" True] graph_okD(4) [OF g]
      unfolding edges by blast
    show "edge_map (wd_topology ?w0) h (a, b) \<noteq> None" if "edge_map t h (a, b) \<noteq> None" for h a b
      using that isolate_subset [of "edge_map (wd_topology w) h" slot "(a, b)"] by (simp add: edges del: not_None_eq)
    show "Option.bind (cs_turf s) tr_mixture \<noteq> None" if "edge_map t False (slot, b) \<noteq> None" for b
      using that by (simp add: edges isolate_at)
    show "Option.bind (cs_turf s) tr_heat \<noteq> None" if "edge_map t True (slot, b) \<noteq> None" for b
      using that by (simp add: edges isolate_at)
    show "cs_generation s = cs_generation (slot_at (wd_turfs ?w0) slot) \<and>
        Option.bind (cs_turf s) tr_mixture = turf_mixture_at (wd_turfs ?w0) slot"
      if "continuation_of (wd_continuations w) token = Some c" "rc_turf c = Some h" "th_slot h = slot" for token c h
    proof -
      have "waits_on_live (wd_mixtures w) ?turfs c" using inv0 that(1) by (auto simp: world_inv_def waiting_ok_def)
      then have "rc_mixture c = m" using that(2,3) m(1) by (auto simp: waits_on_live_eq)
      then show ?thesis using inv m(2) that(1) by (auto simp: detach_inv_def waits_outside_def)
    qed
  qed simp_all
  have eq: "?w0\<lparr>wd_turfs := ?turfs[unat slot := s], wd_mixture_turfs := turfs_index (?turfs[unat slot := s]),
      wd_heat_active := wd_heat_active w, wd_topology := t, wd_continuations := wd_continuations w\<rparr> =
    ?w'\<lparr>wd_mixture_turfs := turfs_index (wd_turfs ?w')\<rparr>" by simp
  have "world_inv (?w'\<lparr>wd_mixture_turfs := turfs_index (wd_turfs ?w')\<rparr>)" using changed unfolding eq .
  then have "detach_inv S ?w'" using inv by (simp add: detach_inv_def)
  moreover have "detach_turf slot w = Ok ?w'" using len t(1) by (simp add: detach_turf_def upd)
  moreover have "turf_mixture_at (wd_turfs ?w') x = (if x = slot then None else turf_mixture_at ?turfs x)" for x
    using turf_eqs_update(1) [OF len, of s x] by (simp add: s_def)
  moreover have "projected_turf_slot (wd_turfs ?w') = projected_turf_slot ?turfs"
    using len r(1) gen_s by (auto simp: projected_turf_slot_eq fun_eq_iff s_def)
  ultimately show thesis by (intro that [of ?w']) simp_all
qed

lemma detach_turfs_result:
  assumes "detach_inv S w" and "distinct slots" and "mh_slot m \<in> S"
    and "\<And>x. x \<in> set slots \<Longrightarrow> turf_mixture_at (wd_turfs w) x = Some m"
  shows "\<exists>w'. rfold detach_turf slots w = Ok w' \<and> detach_inv S w' \<and> wd_mixture_turfs w' = wd_mixture_turfs w \<and>
    wd_mixtures w' = wd_mixtures w \<and>
    (\<forall>x. turf_mixture_at (wd_turfs w') x = (if x \<in> set slots then None else turf_mixture_at (wd_turfs w) x)) \<and>
    projected_turf_slot (wd_turfs w') = projected_turf_slot (wd_turfs w)"
  using assms(1,2,4)
proof (induction slots arbitrary: w)
  case (Cons x slots)
  have "turf_mixture_at (wd_turfs w) x = Some m" using Cons.prems(3) by simp
  then obtain w1 where w1: "detach_turf x w = Ok w1" "detach_inv S w1" "wd_mixture_turfs w1 = wd_mixture_turfs w"
    "wd_mixtures w1 = wd_mixtures w"
    "\<And>y. turf_mixture_at (wd_turfs w1) y = (if y = x then None else turf_mixture_at (wd_turfs w) y)"
    "projected_turf_slot (wd_turfs w1) = projected_turf_slot (wd_turfs w)"
    by (rule detach_turf_result [OF Cons.prems(1) _ assms(3)]) blast
  have "turf_mixture_at (wd_turfs w1) y = Some m" if "y \<in> set slots" for y
    using that Cons.prems(2,3) by (auto simp: w1(5))
  then obtain w2 where w2: "rfold detach_turf slots w1 = Ok w2" "detach_inv S w2" "wd_mixture_turfs w2 = wd_mixture_turfs w1"
    "wd_mixtures w2 = wd_mixtures w1"
    "\<And>y. turf_mixture_at (wd_turfs w2) y = (if y \<in> set slots then None else turf_mixture_at (wd_turfs w1) y)"
    "projected_turf_slot (wd_turfs w2) = projected_turf_slot (wd_turfs w1)"
    using Cons.IH [OF w1(2)] Cons.prems(2) by auto
  show ?case
    using w1(1,3,4,6) w2(1-4,6) by (intro exI [of _ w2]) (auto simp: w1(5) w2(5))
qed auto

lemma detach_mixture_result:
  assumes inv: "world_inv w" and outside: "waits_outside S (wd_continuations w)" and m: "mh_slot m \<in> S"
  obtains w' where "detach_mixture m w = Ok w'" and "world_inv w'" and "waits_outside S (wd_continuations w')"
    and "wd_mixtures w' = wd_mixtures w" and "projected_turf_slot (wd_turfs w') = projected_turf_slot (wd_turfs w)"
    and "\<And>x. turf_mixture_at (wd_turfs w') x \<noteq> Some m"
    and "\<And>x m'. turf_mixture_at (wd_turfs w') x = Some m' \<Longrightarrow> turf_mixture_at (wd_turfs w) x = Some m'"
proof -
  have index: "wd_mixture_turfs w = turfs_index (wd_turfs w)" using inv by (simp add: world_inv_def)
  show thesis
  proof (cases "wd_mixture_turfs w m")
    case None
    then have "turf_mixture_at (wd_turfs w) x \<noteq> Some m" for x
      using index_of_None [of "\<lambda>slot m. turf_mixture_at (wd_turfs w) slot = Some m" m x] by (simp add: index turfs_index_def)
    then show thesis using that [of w] None inv outside by (simp add: detach_mixture_def)
  next
    case (Some turfs)
    let ?xs = "sorted_list_of_set turfs"
    have turfs: "turfs = {x. turf_mixture_at (wd_turfs w) x = Some m}"
      using index_of_Some [of "\<lambda>slot m. turf_mixture_at (wd_turfs w) slot = Some m" m turfs] Some
      by (simp add: index turfs_index_def)
    then have xs: "set ?xs = turfs" "distinct ?xs" by simp_all
    let ?w1 = "w\<lparr>wd_mixture_turfs := (wd_mixture_turfs w)(m := None)\<rparr>"
    have w1: "detach_inv S ?w1" using inv outside by (simp add: detach_inv_def world_inv_def)
    have "turf_mixture_at (wd_turfs ?w1) x = Some m" if "x \<in> set ?xs" for x using that unfolding xs(1) turfs by simp
    then obtain w' where w': "rfold detach_turf ?xs ?w1 = Ok w'" "detach_inv S w'"
      "wd_mixture_turfs w' = (wd_mixture_turfs w)(m := None)" "wd_mixtures w' = wd_mixtures w"
      "\<And>x. turf_mixture_at (wd_turfs w') x = (if x \<in> turfs then None else turf_mixture_at (wd_turfs w) x)"
      "projected_turf_slot (wd_turfs w') = projected_turf_slot (wd_turfs w)"
      using detach_turfs_result [OF w1 xs(2) m] xs(1) by auto
    have "(wd_mixture_turfs w)(m := None) = turfs_index (wd_turfs w')"
      unfolding index turfs_index_def index_drop_scan by (rule index_of_cong) (auto simp: w'(5) turfs)
    then have "world_inv w'" using w'(2,3) by (simp add: detach_inv_def world_inv_def)
    moreover have "detach_mixture m w = Ok w'" using w'(1) Some by (simp add: detach_mixture_def)
    moreover have "waits_outside S (wd_continuations w')" using w'(2) by (simp add: detach_inv_def)
    moreover have "turf_mixture_at (wd_turfs w') x \<noteq> Some m" for x by (simp add: w'(5) turfs)
    moreover have "turf_mixture_at (wd_turfs w') x = Some m' \<Longrightarrow> turf_mixture_at (wd_turfs w) x = Some m'" for x m'
      by (simp add: w'(5) split: if_splits)
    ultimately show thesis using that [of w'] w'(4,6) by blast
  qed
qed

lemma detach_mixtures_result:
  assumes "world_inv w" and "waits_outside S (wd_continuations w)" and "\<And>m. m \<in> set ms \<Longrightarrow> mh_slot m \<in> S"
  shows "\<exists>w'. rfold detach_mixture ms w = Ok w' \<and> world_inv w' \<and> wd_mixtures w' = wd_mixtures w \<and>
    projected_turf_slot (wd_turfs w') = projected_turf_slot (wd_turfs w) \<and>
    (\<forall>x m. turf_mixture_at (wd_turfs w') x = Some m \<longrightarrow> m \<notin> set ms)"
proof -
  have "\<exists>w'. rfold detach_mixture ms w = Ok w' \<and> world_inv w' \<and> wd_mixtures w' = wd_mixtures w \<and>
    projected_turf_slot (wd_turfs w') = projected_turf_slot (wd_turfs w) \<and>
    (\<forall>x m. turf_mixture_at (wd_turfs w') x = Some m \<longrightarrow> m \<notin> set ms \<and> turf_mixture_at (wd_turfs w) x = Some m)"
    using assms
  proof (induction ms arbitrary: w)
    case (Cons m ms)
    have "mh_slot m \<in> S" using Cons.prems(3) by simp
    then obtain w1 where w1: "detach_mixture m w = Ok w1" "world_inv w1" "waits_outside S (wd_continuations w1)"
      "wd_mixtures w1 = wd_mixtures w" "projected_turf_slot (wd_turfs w1) = projected_turf_slot (wd_turfs w)"
      "\<And>x. turf_mixture_at (wd_turfs w1) x \<noteq> Some m"
      "\<And>x m'. turf_mixture_at (wd_turfs w1) x = Some m' \<Longrightarrow> turf_mixture_at (wd_turfs w) x = Some m'"
      by (rule detach_mixture_result [OF Cons.prems(1,2)]) blast
    obtain w2 where w2: "rfold detach_mixture ms w1 = Ok w2" "world_inv w2" "wd_mixtures w2 = wd_mixtures w1"
      "projected_turf_slot (wd_turfs w2) = projected_turf_slot (wd_turfs w1)"
      "\<And>x m. turf_mixture_at (wd_turfs w2) x = Some m \<Longrightarrow> m \<notin> set ms \<and> turf_mixture_at (wd_turfs w1) x = Some m"
      using Cons.IH [OF w1(2,3)] Cons.prems(3) by auto
    have "m' \<noteq> m" if "turf_mixture_at (wd_turfs w2) x = Some m'" for x m' using w1(6) w2(5) [OF that] by auto
    then show ?case
      using w1(1,4,5,7) w2 by (intro exI [of _ w2]) auto
  qed auto
  then show ?thesis by blast
qed

section \<open>The batch\<close>

lemma mixture_batch_slots:
  assumes "rfold (validate_lifecycle_mutation sizes w) mutations (projected, n) = Ok (projected', n')"
  shows "n \<le> n'" and "n' \<le> max n (2 ^ 32)"
proof -
  have "n \<le> n' \<and> n' \<le> max n (2 ^ 32)"
    using assms
  proof (induction mutations arbitrary: projected n)
    case (Cons m ms)
    obtain projected1 n1 where 1: "validate_lifecycle_mutation sizes w m (projected, n) = Ok (projected1, n1)"
      and rest: "rfold (validate_lifecycle_mutation sizes w) ms (projected1, n1) = Ok (projected', n')"
      using Cons.prems by auto
    have "unat (mh_slot (lm_handle m)) < 2 ^ 32" using unat_less_2p [of "mh_slot (lm_handle m)"] by simp
    then show ?case
      using Cons.IH [OF rest] validate_lifecycle_mutation_result [OF 1] by (auto simp: max_def split: if_splits)
  qed auto
  then show "n \<le> n'" and "n' \<le> max n (2 ^ 32)" by simp_all
qed

lemma mixture_batch_result:
  assumes "rfold (validate_lifecycle_mutation sizes w0) mutations (projected, n) = Ok (projected', n')"
    and "world_inv_except S w" and "n' \<le> length (wd_mixtures w)"
    and "projected_slot (wd_mixtures w) = projected_view projected (projected_slot (wd_mixtures w0))"
  shows "\<exists>w' S'. rfold apply_lifecycle_mutation mutations (w, S) = Ok (w', S') \<and> world_inv_except S' w' \<and> S \<subseteq> S' \<and>
    wd_turfs w' = wd_turfs w \<and> (\<forall>m \<in> set mutations. lm_action m = UnregisterMixture \<longrightarrow> mh_slot (lm_handle m) \<in> S') \<and>
    projected_slot (wd_mixtures w') = projected_view projected' (projected_slot (wd_mixtures w0)) \<and>
    (\<forall>x. projected_advances (projected_slot (wd_mixtures w) x) (projected_slot (wd_mixtures w') x))"
  using assms
proof (induction mutations arbitrary: projected n w S)
  case Nil
  then show ?case by auto
next
  case (Cons m ms)
  let ?slot = "mh_slot (lm_handle m)" and ?slots = "projected_slot (wd_mixtures w0)"
  obtain projected1 n1 where 1: "validate_lifecycle_mutation sizes w0 m (projected, n) = Ok (projected1, n1)"
    and rest: "rfold (validate_lifecycle_mutation sizes w0) ms (projected1, n1) = Ok (projected', n')"
    using Cons.prems(1) by auto
  note v = validate_lifecycle_mutation_result [OF 1]
  have "n1 \<le> n'" by (rule mixture_batch_slots [OF rest])
  then have "unat ?slot < length (wd_mixtures w)" using v Cons.prems(3) by auto
  then obtain w1 S1 where w1: "apply_lifecycle_mutation m (w, S) = Ok (w1, S1)" "world_inv_except S1 w1" "S \<subseteq> S1"
    "lm_action m = UnregisterMixture \<Longrightarrow> ?slot \<in> S1"
    "projected_slot (wd_mixtures w1) = (projected_slot (wd_mixtures w))
      (?slot := mixture_slot_after m (projected_slot (wd_mixtures w) ?slot))"
    "length (wd_mixtures w1) = length (wd_mixtures w)" "wd_turfs w1 = wd_turfs w"
    by (rule apply_lifecycle_mutation_result [OF Cons.prems(2)]) blast
  have view1: "projected_slot (wd_mixtures w1) = projected_view projected1 ?slots"
    using v by (simp add: w1(5) Cons.prems(4) projected_view_update)
  have advances: "projected_advances (projected_slot (wd_mixtures w) x) (projected_slot (wd_mixtures w1) x)" for x
    using v by (simp add: w1(5) Cons.prems(4))
  have "n' \<le> length (wd_mixtures w1)" using Cons.prems(3) w1(6) by simp
  then obtain w2 S2 where w2: "rfold apply_lifecycle_mutation ms (w1, S1) = Ok (w2, S2)" "world_inv_except S2 w2" "S1 \<subseteq> S2"
    "wd_turfs w2 = wd_turfs w1" "\<forall>m \<in> set ms. lm_action m = UnregisterMixture \<longrightarrow> mh_slot (lm_handle m) \<in> S2"
    "projected_slot (wd_mixtures w2) = projected_view projected' ?slots"
    "\<And>x. projected_advances (projected_slot (wd_mixtures w1) x) (projected_slot (wd_mixtures w2) x)"
    using Cons.IH [OF rest w1(2) _ view1] by blast
  show ?case
    using w1(1,3,4,7) w2(1-6) projected_advances_trans [OF advances w2(7)]
    by (intro exI [of _ w2] exI [of _ S2]) auto
qed

lemma world_inv_extend_mixtures:
  assumes "world_inv w" and "length (wd_mixtures w) + n \<le> 2 ^ 32"
  shows "world_inv (w\<lparr>wd_mixtures := wd_mixtures w @ replicate n mixture_slot_default\<rparr>)"
    and "projected_slot (wd_mixtures w @ replicate n mixture_slot_default) = projected_slot (wd_mixtures w)"
proof -
  let ?ms = "wd_mixtures w @ replicate n mixture_slot_default"
  have default: "ms_mixture mixture_slot_default = None" by (simp add: mixture_slot_default_def)
  have occ: "occupied ?ms x = occupied (wd_mixtures w) x" for x
    by (auto simp: occupied_def nth_append mixture_slot_default_def)
  have "require_handle ?ms h = Ok r" if "require_handle (wd_mixtures w) h = Ok r" for h r
    using that by (auto simp: require_handle_def nth_append vec_get_def split: option.splits if_splits)
  then have "waiting_ok ?ms turfs k" if "waiting_ok (wd_mixtures w) turfs k" for turfs k
    using that unfolding waiting_ok_def waits_on_live_def by blast
  then show "world_inv (w\<lparr>wd_mixtures := ?ms\<rparr>)"
    using assms by (auto simp: world_inv_def mixtures_ok_def edges_live_def occ default)
  show "projected_slot ?ms = projected_slot (wd_mixtures w)"
    by (auto simp: projected_slot_eq occ fun_eq_iff nth_append) (simp add: mixture_slot_default_def)
qed

lemma set_unregistering: "set (unregistering mutations) = lm_handle ` {m \<in> set mutations. lm_action m = UnregisterMixture}"
  by (simp add: unregistering_def)

lemma apply_lifecycle_result:
  assumes inv: "world_inv w" and run: "apply_lifecycle sizes alloc mutations w = (r, w')"
  shows "r \<noteq> Panic \<and> world_inv w' \<and> projected_turf_slot (wd_turfs w') = projected_turf_slot (wd_turfs w) \<and>
    (\<forall>x. projected_advances (projected_slot (wd_mixtures w) x) (projected_slot (wd_mixtures w') x)) \<and>
    (case r of
      Ok _ \<Rightarrow> (\<exists>projected n. rfold (validate_lifecycle_mutation sizes w) mutations (Map.empty, length (wd_mixtures w)) =
          Ok (projected, n) \<and> projected_slot (wd_mixtures w') = projected_view projected (projected_slot (wd_mixtures w))) \<and>
        (\<forall>x m. turf_mixture_at (wd_turfs w') x = Some m \<longrightarrow> m \<notin> set (unregistering mutations))
    | _ \<Rightarrow> \<exists>n. w' = w\<lparr>wd_mixtures := wd_mixtures w @ replicate n mixture_slot_default\<rparr>)"
proof -
  let ?validated = "rfold (validate_lifecycle_mutation sizes w) mutations (Map.empty, length (wd_mixtures w))"
  have unchanged: "\<exists>n. w = w\<lparr>wd_mixtures := wd_mixtures w @ replicate n mixture_slot_default\<rparr>"
    by (rule exI [of _ 0]) simp
  show ?thesis
  proof (cases ?validated)
    case (Err e)
    then have "r = Err e" "w' = w" using run by (simp_all add: apply_lifecycle_def)
    then show ?thesis using inv unchanged by simp
  next
    case Panic
    moreover have "?validated \<noteq> Panic" by (rule rfold_neq_Panic) (rule validate_lifecycle_mutation_neq_Panic)
    ultimately show ?thesis by simp
  next
    case (Ok p)
    obtain projected n where p: "p = (projected, n)" by (cases p)
    let ?m = "n - length (wd_mixtures w)"
    let ?w1 = "w\<lparr>wd_mixtures := wd_mixtures w @ replicate ?m mixture_slot_default\<rparr>"
    have "length (wd_mixtures w) \<le> 2 ^ 32" using inv by (simp add: world_inv_def mixtures_ok_def)
    then have n: "length (wd_mixtures w) \<le> n" "n \<le> 2 ^ 32"
      using mixture_batch_slots [OF Ok [unfolded p]] by simp_all
    then have len: "length (wd_mixtures w) + ?m \<le> 2 ^ 32" by simp
    note w1 = world_inv_extend_mixtures [OF inv len]
    have start: "world_inv_except {} ?w1" using w1(1) by (simp add: world_inv_except_empty)
    obtain w2 S where w2: "rfold apply_lifecycle_mutation mutations (?w1, {}) = Ok (w2, S)" "world_inv_except S w2"
      "wd_turfs w2 = wd_turfs w" "\<forall>m \<in> set (unregistering mutations). mh_slot m \<in> S"
      "projected_slot (wd_mixtures w2) = projected_view projected (projected_slot (wd_mixtures w))"
      "\<And>x. projected_advances (projected_slot (wd_mixtures w) x) (projected_slot (wd_mixtures w2) x)"
      using mixture_batch_result [OF Ok [unfolded p] start] n(1) w1(2)
      by (auto simp: projected_view_empty set_unregistering)
    have "finite S" by simp
    note w3 = remove_incident_restores [OF w2(2) this]
    let ?w3 = "(fold remove_incident_mixture_edges (sorted_list_of_set S) w2)\<lparr>wd_graph := if S = {} then wd_graph w2 else None\<rparr>"
    obtain w4 where w4: "rfold detach_mixture (unregistering mutations) ?w3 = Ok w4" "world_inv w4" "wd_mixtures w4 = wd_mixtures w2"
      "projected_turf_slot (wd_turfs w4) = projected_turf_slot (wd_turfs w)"
      "\<forall>x m. turf_mixture_at (wd_turfs w4) x = Some m \<longrightarrow> m \<notin> set (unregistering mutations)"
      using detach_mixtures_result [of ?w3 S "unregistering mutations"] w3 w2(3,4) by (auto simp: world_inv_graph)
    consider "r = Err WorldAllocationFailed" "w' = w" | "r = Err WorldAllocationFailed" "w' = ?w1"
      | "r = Ok (word_of_nat (length mutations))" "w' = w4"
      using run w4(1) unfolding apply_lifecycle_def Ok p Let_def
      by (simp only: result.case prod.case w2(1) split: if_splits) (auto simp: Ok w2(1))
    then show ?thesis
      using inv unchanged w1 w2(5,6) w4(2-5) Ok p by cases auto
  qed
qed

end
