(* ===== verification/World_Turfs.thy ===== *)
theory World_Turfs
  imports World_Batches
begin

text \<open>The batches that change turfs, their heat and their registration, keep the invariant and do not panic.\<close>

section \<open>The heat batch\<close>

lemma set_heat_Some_inv:
  assumes "world_inv w" and "turf_at (wd_turfs w) slot \<noteq> None"
  shows "world_inv (w\<lparr>wd_turfs := set_heat slot (Some state) (wd_turfs w)\<rparr>)"
proof -
  have "graph_ok (set_heat slot (Some state) (wd_turfs w)) (wd_topology w)"
    using assms by (simp add: world_inv_def graph_ok_def set_heat_eqs)
  moreover have "active_heated (set_heat slot (Some state) (wd_turfs w))"
    using assms by (simp add: world_inv_def active_heated_def set_heat_eqs)
  ultimately show ?thesis
    using world_base_set_heat [of w slot "Some state"] assms(1) by (simp add: world_inv_base)
qed

lemma activate_or_deactivate_safe:
  assumes inv: "world_inv w" and live: "require_turf (wd_turfs w) h = Ok r" and heated: "tr_heat r \<noteq> None"
  obtains turfs active where
    "(if start then activate_turf_heat True h w else deactivate_turf_heat_slot (th_slot h) w) =
      Ok (w\<lparr>wd_turfs := turfs, wd_heat_active := active\<rparr>)"
    and "same_turfs (wd_turfs w) turfs" and "world_inv (w\<lparr>wd_turfs := turfs, wd_heat_active := active\<rparr>)"
proof -
  have ok: "heat_ok (wd_turfs w) (wd_heat_active w)" and act: "active_heated (wd_turfs w)"
    using inv by (simp_all add: world_inv_def)
  have here: "heat_at (wd_turfs w) (th_slot h) \<noteq> None" using live heated by (simp add: heat_at_def require_turf_Ok)
  show thesis
  proof (cases start)
    case True
    obtain turfs active where t: "activate_turf_heat True h w = Ok (w\<lparr>wd_turfs := turfs, wd_heat_active := active\<rparr>)"
      "same_turfs (wd_turfs w) turfs" "heat_ok turfs active"
      "\<And>x. heat_index_at turfs x = None \<longleftrightarrow> x \<noteq> th_slot h \<and> heat_index_at (wd_turfs w) x = None"
      by (rule activate_turf_heat_result [OF ok live]) blast
    have "active_heated turfs"
      unfolding active_heated_def t(4) same_turfs_eqs(2) [OF t(2)] using act here by (auto simp: active_heated_def)
    then show thesis using that t(1,2) world_inv_same_turfs [OF inv t(2,3)] True by simp
  next
    case False
    obtain turfs active where t: "deactivate_turf_heat_slot (th_slot h) w = Ok (w\<lparr>wd_turfs := turfs, wd_heat_active := active\<rparr>)"
      "same_turfs (wd_turfs w) turfs" "heat_ok turfs active"
      "\<And>x. heat_index_at turfs x = None \<longleftrightarrow> x = th_slot h \<or> heat_index_at (wd_turfs w) x = None"
      by (rule deactivate_turf_heat_slot_result [OF ok, of "th_slot h"]) blast
    have "active_heated turfs"
      unfolding active_heated_def t(4) same_turfs_eqs(2) [OF t(2)] using act by (simp add: active_heated_def)
    then show thesis using that t(1,2) world_inv_same_turfs [OF inv t(2,3)] False by simp
  qed
qed

text \<open>A turf that loses its heat is deactivated and then loses its heat edges.\<close>

lemma drop_heat_safe:
  assumes inv: "world_inv w" and at: "turf_at (wd_turfs w) slot \<noteq> None"
  obtains w' where
    "rbind (deactivate_turf_heat_slot slot (w\<lparr>wd_turfs := set_heat slot None (wd_turfs w)\<rparr>))
      (remove_incident_heat_edges slot) = Ok w'"
    and "world_inv w'" and "\<And>h. live_turf (wd_turfs w') h = live_turf (wd_turfs w) h"
proof -
  let ?w1 = "w\<lparr>wd_turfs := set_heat slot None (wd_turfs w)\<rparr>"
  have base: "world_base ?w1" using inv world_base_set_heat by (simp add: world_inv_base)
  then have ok: "heat_ok (wd_turfs ?w1) (wd_heat_active ?w1)" by (simp add: world_base_def)
  obtain turfs active where t: "deactivate_turf_heat_slot slot ?w1 = Ok (?w1\<lparr>wd_turfs := turfs, wd_heat_active := active\<rparr>)"
    "same_turfs (wd_turfs ?w1) turfs" "heat_ok turfs active"
    "\<And>x. heat_index_at turfs x = None \<longleftrightarrow> x = slot \<or> heat_index_at (wd_turfs ?w1) x = None"
    by (rule deactivate_turf_heat_slot_result [OF ok, of slot]) blast
  let ?w2 = "?w1\<lparr>wd_turfs := turfs, wd_heat_active := active\<rparr>"
  have base2: "world_base ?w2" by (rule world_base_same_turfs [OF base t(2,3)])
  note same = same_turfs_eqs [OF t(2)]
  have gen: "gen_of turfs = gen_of (wd_turfs w)" using same(3) by (simp add: set_heat_eqs)
  have g: "graph_ok (wd_turfs w) (wd_topology w)" using inv by (simp add: world_inv_def)
  have cur: "current_turf_handle turfs slot = Ok (TurfHandle slot (gen_of (wd_turfs w) slot))"
    using current_turf_handle_live [OF base2, of slot] at same(6) [of slot] by (simp add: set_heat_eqs gen)
  obtain t' where t': "remove_incident_heat_edges slot ?w2 = Ok (?w2\<lparr>wd_topology := t'\<rparr>)"
    "topo_inv (gen_of (wd_turfs w)) t'" "edge_map t' False = edge_map (wd_topology w) False"
    "edge_map t' True = isolate (edge_map (wd_topology w) True) slot"
    using remove_incident_heat_edges_result [of "gen_of (wd_turfs w)" ?w2 slot] g cur by (auto simp: graph_ok_def)
  have heat: "a \<noteq> slot \<Longrightarrow> heat_at turfs a = heat_at (wd_turfs w) a" for a
    by (simp add: same(2) set_heat_eqs)
  have mixture: "turf_mixture_at turfs = turf_mixture_at (wd_turfs w)" by (simp add: same(1) set_heat_eqs)
  have "graph_ok turfs t'"
    using g t'(2) heat unfolding graph_ok_def gen t'(3,4) mixture
    by (simp add: isolate_def del: not_None_eq) blast
  moreover have "active_heated turfs"
    using inv by (simp add: active_heated_def t(4) same(2) set_heat_eqs world_inv_def)
  ultimately have "world_inv (?w2\<lparr>wd_topology := t'\<rparr>)"
    using base2 by (simp add: world_inv_base)
  then show thesis
    using that [of "?w2\<lparr>wd_topology := t'\<rparr>"] t(1) t'(1) live_turf_same [OF t(2)] by (simp add: set_heat_eqs)
qed

lemma apply_turf_heat_mutation_safe:
  assumes inv: "world_inv w" and live: "live_turf (wd_turfs w) (ch_handle mutation)"
  shows "safe_result (\<lambda>w'. world_inv w' \<and> (\<forall>h. live_turf (wd_turfs w') h = live_turf (wd_turfs w) h))
    (apply_turf_heat_mutation mutation w)"
proof -
  let ?h = "ch_handle mutation"
  let ?slot = "th_slot ?h"
  let ?w1 = "w\<lparr>wd_turfs := set_heat ?slot (ch_state mutation) (wd_turfs w)\<rparr>"
  obtain r where r: "require_turf (wd_turfs w) ?h = Ok r" using live live_turf_require by blast
  then have at: "turf_at (wd_turfs w) ?slot = Some r" by (simp add: require_turf_Ok)
  then have len: "unat ?slot < length (wd_turfs w)" using turf_at_None_outside by simp
  then have get: "vec_get (wd_turfs w) (unat ?slot) = Some (slot_at (wd_turfs w) ?slot)"
    and turf: "cs_turf (slot_at (wd_turfs w) ?slot) = Some r"
    using at by (simp_all add: slot_at_def turf_at_def)
  have upd: "update_turf ?slot (\<lambda>r. r\<lparr>tr_heat := ch_state mutation\<rparr>) w = ?w1"
    by (simp add: update_turf_eq set_heat_def)
  show ?thesis
  proof (cases "ch_state mutation")
    case None
    obtain w' where w': "rbind (deactivate_turf_heat_slot ?slot ?w1) (remove_incident_heat_edges ?slot) = Ok w'"
      "world_inv w'" "\<And>h. live_turf (wd_turfs w') h = live_turf (wd_turfs w) h"
      using drop_heat_safe [OF inv, of ?slot] at unfolding None by auto
    then obtain w2 where "deactivate_turf_heat_slot ?slot ?w1 = Ok w2" "remove_incident_heat_edges ?slot w2 = Ok w'"
      by auto
    then show ?thesis
      using w'(2,3) None by (simp add: apply_turf_heat_mutation_def get turf upd [unfolded None])
  next
    case (Some state)
    have inv1: "world_inv ?w1" using set_heat_Some_inv [OF inv] at Some by simp
    have r1: "require_turf (wd_turfs ?w1) ?h = Ok (r\<lparr>tr_heat := Some state\<rparr>)"
      using r by (simp add: require_turf_Ok set_heat_def Some)
    have heated: "tr_heat (r\<lparr>tr_heat := Some state\<rparr>) \<noteq> None" by simp
    have live1: "live_turf (wd_turfs ?w1) h = live_turf (wd_turfs w) h" for h by (simp add: set_heat_eqs)
    let ?temperature = "turf_superconduction_temperature ?h (hs_temperature state) ?w1"
    show ?thesis
    proof (cases ?temperature)
      case (Ok x)
      let ?start = "f32_less_eq (if tr_heat_active_index r \<noteq> None then minimum_temperature_for_superconduction
        else minimum_temperature_start_superconduction) x"
      obtain turfs active where t: "(if ?start then activate_turf_heat True ?h ?w1 else deactivate_turf_heat_slot ?slot ?w1) =
          Ok (?w1\<lparr>wd_turfs := turfs, wd_heat_active := active\<rparr>)"
        "same_turfs (wd_turfs ?w1) turfs" "world_inv (?w1\<lparr>wd_turfs := turfs, wd_heat_active := active\<rparr>)"
        by (rule activate_or_deactivate_safe [OF inv1 r1 heated, of ?start])
      have "apply_turf_heat_mutation mutation w = (Ok (), ?w1\<lparr>wd_turfs := turfs, wd_heat_active := active\<rparr>)"
        unfolding apply_turf_heat_mutation_def Let_def get Some option.case turf upd [unfolded Some]
          Ok [unfolded Some] rbind.simps result.case t(1) [unfolded Some] by simp
      then show ?thesis using t(2,3) live_turf_same [OF t(2)] live1 by simp
    next
      case (Err e)
      then have "apply_turf_heat_mutation mutation w = (Err e, ?w1)"
        using Some by (simp add: apply_turf_heat_mutation_def get turf upd [unfolded Some] Let_def)
      then show ?thesis using inv1 live1 by simp
    qed (simp add: turf_superconduction_temperature_neq_Panic)
  qed
qed

lemma apply_turf_heat_safe:
  assumes "world_inv w"
  shows "safe_result world_inv (apply_turf_heat alloc mutations w)"
proof -
  let ?valid = "\<lambda>mutation. rbind (require_turf (wd_turfs w) (ch_handle mutation)) (\<lambda>_.
      case ch_state mutation of
        Some state \<Rightarrow> if valid_turf_heat_state state then Ok () else Err (InvalidTurfHeatState (ch_handle mutation))
      | None \<Rightarrow> Ok ())"
  let ?P = "\<lambda>w. world_inv w \<and> (\<forall>m \<in> set mutations. live_turf (wd_turfs w) (ch_handle m))"
  have np: "rforeach ?valid mutations \<noteq> Panic"
    by (rule rforeach_neq_Panic) (auto split: option.split)
  show ?thesis
  proof (cases "rforeach ?valid mutations")
    case (Ok u)
    then have "live_turf (wd_turfs w) (ch_handle m)" if "m \<in> set mutations" for m
      using that by (auto simp: rforeach_eq_Ok live_turf_require)
    then have "safe_result ?P (keep_loop apply_turf_heat_mutation mutations w)"
      using assms apply_turf_heat_mutation_safe
      by (intro safe_keep_loop) (fastforce simp: safe_result_def)+
    then show ?thesis
      using safe_counted [of ?P "keep_loop apply_turf_heat_mutation mutations w" mutations] assms Ok
      by (auto simp: apply_turf_heat_def safe_result_def)
  qed (use assms np in \<open>auto simp: apply_turf_heat_def\<close>)
qed

end
