(* ===== verification/World_Reactions.thy ===== *)
theory World_Reactions
  imports World_Mixtures World_Turfs
begin

text \<open>
  Registries and reactions of the world (\<^verbatim>\<open>install_gases\<close>, \<^verbatim>\<open>install_reactions\<close>,
  \<^verbatim>\<open>evaluate_reaction_sequence\<close> to \<^verbatim>\<open>resume_reaction_inner\<close> and the event queue of
  \<^verbatim>\<open>crates/dogmos-core/src/world.rs\<close>). The reactions of a mixture run in priority order; one the game
  has to run stops the sequence, which waits as a continuation until the game resumes it.

  The milliseconds that a reaction took are those of a clock and a parameter, by the position of the reaction.
\<close>

section \<open>Registries\<close>

definition install_gases :: "gas_metadata list \<Rightarrow> world \<Rightarrow> (u32, world_error) result \<times> world" where
  "install_gases gases w =
     (if wd_gas_registry w \<noteq> None then (Err GasRegistryAlreadyInstalled, w)
      else if wd_mixtures w \<noteq> [] then (Err GasRegistryInstallationTooLate, w)
      else case gas_registry_try_new gases of
        Err e \<Rightarrow> (Err (GasMetadataFailed e), w) | Panic \<Rightarrow> (Panic, w)
      | Ok registry \<Rightarrow> (Ok (gas_registry_len registry), w\<lparr>wd_gas_registry := Some registry\<rparr>))"

definition install_reactions :: "reaction_metadata list \<Rightarrow> world \<Rightarrow> (u32, world_error) result \<times> world" where
  "install_reactions reactions w =
     (if wd_reaction_registry w \<noteq> None then (Err ReactionRegistryAlreadyInstalled, w)
      else if wd_mixtures w \<noteq> [] then (Err ReactionRegistryInstallationTooLate, w)
      else case wd_gas_registry w of
        None \<Rightarrow> (Err GasRegistryMissing, w)
      | Some gases \<Rightarrow>
          (case reaction_registry_try_new reactions gases of
             Err e \<Rightarrow> (Err (ReactionMetadataFailed e), w) | Panic \<Rightarrow> (Panic, w)
           | Ok registry \<Rightarrow> (Ok (reaction_registry_len registry), w\<lparr>wd_reaction_registry := Some registry\<rparr>)))"

definition saturated_u32 :: "nat \<Rightarrow> u32" where
  "saturated_u32 n = (case u32_try_from n of Some x \<Rightarrow> x | None \<Rightarrow> word_of_nat u32_max)"

text \<open>At most this many events come from one sequence.\<close>

definition reaction_event_bound :: "world \<Rightarrow> u32" where
  "reaction_event_bound w = (case wd_reaction_registry w of None \<Rightarrow> 0
     | Some registry \<Rightarrow> saturated_u32 (unat (saturated_u32 (unat (reaction_registry_len registry) * 2)) + 1))"

section \<open>A sequence of reactions\<close>

definition reaction_reacting :: u32 where "reaction_reacting = 1"

definition reaction_stop :: u32 where "reaction_stop = 2"

definition reaction_volatile :: u32 where "reaction_volatile = 4"

definition reaction_flags :: u32 where
  "reaction_flags = reaction_reacting OR reaction_stop OR reaction_volatile"

record pending_dm_reaction =
  pd_reaction :: reaction_id
  pd_next_reaction_index :: u32

record reaction_sequence =
  rs_mixture :: mixture_record
  rs_events :: "world_event list"
  rs_pending :: "pending_dm_reaction option"
  rs_flags :: u32
  rs_work_items :: u32
  rs_native_updates :: u32

definition revision_left :: "mixture_handle \<Rightarrow> reaction_sequence \<Rightarrow> (reaction_sequence, world_error) result" where
  "revision_left handle s =
     (if rs_native_updates s > 0 \<and> mx_revision (rs_mixture s) = word_of_nat u32_max then Err (RevisionExhausted handle) else Ok s)"

text \<open>The loop over the reactions from a position of the priority order on.\<close>

fun run_reactions ::
  "(nat \<Rightarrow> f32) \<Rightarrow> gas_registry \<Rightarrow> reaction_registry \<Rightarrow> gameplay_handle \<Rightarrow> mixture_handle \<Rightarrow> f32 option \<Rightarrow>
   (nat \<times> reaction_id) list \<Rightarrow> reaction_sequence \<Rightarrow> (reaction_sequence, world_error) result" where
  "run_reactions clock gases reactions target handle threshold [] s = revision_left handle s"
| "run_reactions clock gases reactions target handle threshold ((index, reaction_id) # rest) s =
     (let mixture = rs_mixture s in
      case is_reactable reactions reaction_id (mx_temperature mixture) (mx_gases mixture) gases of
        Err _ \<Rightarrow> Panic | Panic \<Rightarrow> Panic
      | Ok False \<Rightarrow> run_reactions clock gases reactions target handle threshold rest s
      | Ok True \<Rightarrow>
          (case reaction_by_id reactions reaction_id of
             None \<Rightarrow> Panic
           | Some reaction \<Rightarrow>
               (case rm_execution reaction of
                  NativeReaction kind \<Rightarrow>
                    (case execute_native single kind (mx_gases mixture) (mx_temperature mixture) (mx_volume mixture)
                         (mx_minimum_heat_capacity mixture) gases of
                       (Err e, _, _) \<Rightarrow> Err (NativeReactionFailed e)
                     | (Panic, _, _) \<Rightarrow> Panic
                     | (Ok values, gas_amounts, temperature) \<Rightarrow>
                         let s = s\<lparr>rs_mixture := mixture\<lparr>mx_temperature := temperature, mx_gases := gas_amounts\<rparr>\<rparr> in
                         (case values of
                            None \<Rightarrow> run_reactions clock gases reactions target handle threshold rest s
                          | Some values \<Rightarrow>
                              rbind (ok_or (checked_add (rs_work_items s) 1) ReactionWorkExceeded) (\<lambda>work_items.
                              rbind (ok_or (checked_add (rs_native_updates s) 1) NativeReactionCountExceeded) (\<lambda>native_updates.
                              run_reactions clock gases reactions target handle threshold rest
                                (s\<lparr>rs_events := rs_events s @ ReactionFinished handle target reaction_id kind values #
                                    (case threshold of
                                       Some threshold_ms \<Rightarrow>
                                         if f32_less_eq threshold_ms (clock index)
                                         then [ReactionProfiled handle target reaction_id (clock index)] else []
                                     | None \<Rightarrow> []),
                                  rs_flags := rs_flags s OR (reaction_reacting OR reaction_volatile),
                                  rs_work_items := work_items, rs_native_updates := native_updates\<rparr>)))))
                | DmReaction \<Rightarrow>
                    rbind (ok_or (checked_add (rs_work_items s) 1) ReactionWorkExceeded) (\<lambda>work_items.
                    rbind (revision_left handle s) (\<lambda>s.
                    rbind (ok_or (u32_try_from (index + 1)) ReactionIndexExceeded) (\<lambda>next_index.
                    Ok (s\<lparr>rs_pending := Some \<lparr>pd_reaction = reaction_id, pd_next_reaction_index = next_index\<rparr>,
                          rs_work_items := work_items\<rparr>)))))))"

definition evaluate_reaction_sequence ::
  "(nat \<Rightarrow> f32) \<Rightarrow> gameplay_handle \<Rightarrow> mixture_handle \<Rightarrow> u32 \<Rightarrow> u32 \<Rightarrow> f32 option \<Rightarrow> world \<Rightarrow>
   (reaction_sequence, world_error) result" where
  "evaluate_reaction_sequence clock target handle start_index initial_flags threshold w =
     rbind (ok_or (wd_gas_registry w) GasRegistryMissing) (\<lambda>gases.
     rbind (ok_or (wd_reaction_registry w) ReactionRegistryMissing) (\<lambda>reactions.
     rbind (require_handle (wd_mixtures w) handle) (\<lambda>mixture.
     let s = \<lparr>rs_mixture = mixture, rs_events = [], rs_pending = None, rs_flags = initial_flags, rs_work_items = 0,
           rs_native_updates = 0\<rparr>
     in if mx_immutable mixture then Ok s
        else run_reactions clock gases reactions target handle threshold
          (drop (unat start_index) (enumerate 0 (rr_priority_order reactions))) s)))"

section \<open>Reacting and resuming\<close>

definition canonicalize_gases :: "f32 list \<Rightarrow> f32 list" where
  "canonicalize_gases gases = map (\<lambda>amount. if f32_less amount minimum_calculated_moles then 0 else amount) gases"

text \<open>The record of a current handle is replaced.\<close>

definition set_mixture :: "mixture_handle \<Rightarrow> mixture_record \<Rightarrow> world \<Rightarrow> world" where
  "set_mixture handle mixture w = w\<lparr>wd_mixtures := (wd_mixtures w)[unat (mh_slot handle) :=
     (wd_mixtures w ! unat (mh_slot handle))\<lparr>ms_mixture := Some mixture\<rparr>]\<rparr>"

definition store_sequence :: "mixture_handle \<Rightarrow> reaction_sequence \<Rightarrow> world \<Rightarrow> (world, world_error) result" where
  "store_sequence handle s w =
     (if rs_native_updates s > 0
      then rbind (require_handle (wd_mixtures w) handle) (\<lambda>current.
        if mx_revision current = word_of_nat u32_max then Panic
        else Ok (set_mixture handle ((rs_mixture s)\<lparr>mx_revision := mx_revision current + 1,
               mx_gases := canonicalize_gases (mx_gases (rs_mixture s))\<rparr>) w))
      else Ok w)"

record reaction_progress =
  rp_flags :: u32
  rp_work_items :: u32
  rp_pending :: bool

definition validate_reaction_profile_threshold :: "f32 option \<Rightarrow> (unit, world_error) result" where
  "validate_reaction_profile_threshold threshold =
     (case threshold of
        Some t \<Rightarrow> if \<not> f32_is_finite t \<or> f32_less t 0 then Err InvalidReactionProfileThreshold else Ok ()
      | None \<Rightarrow> Ok ())"

definition require_event_capacity :: "world \<Rightarrow> reaction_sequence \<Rightarrow> u32 \<Rightarrow> (unit, world_error) result" where
  "require_event_capacity w s event_limit =
     (let requested = length (wd_events w) + length (rs_events s) + (if rs_pending s \<noteq> None then 1 else 0);
          capacity = min (wd_max_events w) event_limit
      in if requested > unat capacity then Err (EventCapacityExceeded (saturated_u32 requested) capacity) else Ok ())"

text \<open>A change of the table of continuations whose error is passed on.\<close>

definition on_continuations ::
  "(continuation_table \<Rightarrow> ('a, continuation_error) result \<times> continuation_table) \<Rightarrow> world \<Rightarrow>
   ('a, world_error) result \<times> world" where
  "on_continuations f w = (case f (wd_continuations w) of
     (r, table) \<Rightarrow> (map_err ContinuationFailed r, w\<lparr>wd_continuations := table\<rparr>))"

text \<open>After the continuation is settled: the record, then the events of the sequence and the one for the game.\<close>

definition finish_sequence ::
  "mixture_handle \<Rightarrow> reaction_sequence \<Rightarrow> world_event list \<Rightarrow> world \<Rightarrow> (reaction_progress, world_error) result \<times> world" where
  "finish_sequence handle s continuation_event w =
     (case store_sequence handle s w of
        Err e \<Rightarrow> (Err e, w) | Panic \<Rightarrow> (Panic, w)
      | Ok w \<Rightarrow> (Ok \<lparr>rp_flags = rs_flags s, rp_work_items = rs_work_items s, rp_pending = continuation_event \<noteq> []\<rparr>,
          w\<lparr>wd_events := wd_events w @ rs_events s @ continuation_event\<rparr>))"

definition react_mixture_with_event_limit ::
  "(nat \<Rightarrow> f32) \<Rightarrow> mixture_handle \<Rightarrow> gameplay_handle \<Rightarrow> f32 option \<Rightarrow> u32 \<Rightarrow> world \<Rightarrow>
   (reaction_progress, world_error) result \<times> world" where
  "react_mixture_with_event_limit clock mixture target threshold event_limit w =
     (case rbind (validate_reaction_profile_threshold threshold) (\<lambda>_.
           rbind (evaluate_reaction_sequence clock target mixture 0 0 threshold w) (\<lambda>s.
           rbind (require_event_capacity w s event_limit) (\<lambda>_. Ok s))) of
        Err e \<Rightarrow> (Err e, w) | Panic \<Rightarrow> (Panic, w)
      | Ok s \<Rightarrow>
          (case rs_pending s of
             None \<Rightarrow> finish_sequence mixture s [] w
           | Some pending \<Rightarrow>
               (case on_continuations (allocate_continuation
                    \<lparr>rc_turf = None, rc_mixture = mixture, rc_target = target,
                     rc_next_reaction_index = pd_next_reaction_index pending,
                     rc_reaction_profile_threshold_ms = threshold\<rparr>) w of
                  (Err e, w) \<Rightarrow> (Err e, w) | (Panic, w) \<Rightarrow> (Panic, w)
                | (Ok token, w) \<Rightarrow>
                    finish_sequence mixture s [RunDmReaction None mixture target (pd_reaction pending) token] w)))"

definition resume_reaction ::
  "(nat \<Rightarrow> f32) \<Rightarrow> continuation_token \<Rightarrow> u32 \<Rightarrow> u32 \<Rightarrow> world \<Rightarrow> (reaction_progress, world_error) result \<times> world" where
  "resume_reaction clock token reaction_result event_limit w =
     (case (if reaction_result AND NOT reaction_flags \<noteq> 0 then Err (InvalidReactionResult reaction_result)
            else rbind (map_err ContinuationFailed (require_continuation token (wd_continuations w))) (\<lambda>c.
              rbind (require_handle (wd_mixtures w) (rc_mixture c)) (\<lambda>_.
              rbind (case rc_turf c of None \<Rightarrow> Ok ()
                     | Some turf_handle \<Rightarrow> rbind (require_turf (wd_turfs w) turf_handle) (\<lambda>turf.
                         if tr_mixture turf \<noteq> Some (rc_mixture c) then Err (TurfMissingMixture turf_handle) else Ok ())) (\<lambda>_.
              Ok c)))) of
        Err e \<Rightarrow> (Err e, w) | Panic \<Rightarrow> (Panic, w)
      | Ok c \<Rightarrow>
          if reaction_result AND reaction_stop \<noteq> 0
          then (case on_continuations (complete_continuation token) w of
              (Err e, w) \<Rightarrow> (Err e, w) | (Panic, w) \<Rightarrow> (Panic, w)
            | (Ok _, w) \<Rightarrow> (Ok \<lparr>rp_flags = reaction_result, rp_work_items = 0, rp_pending = False\<rparr>, w))
          else
            (case rbind (evaluate_reaction_sequence clock (rc_target c) (rc_mixture c) (rc_next_reaction_index c)
                    reaction_result (rc_reaction_profile_threshold_ms c) w) (\<lambda>s.
                  rbind (require_event_capacity w s event_limit) (\<lambda>_. Ok s)) of
               Err e \<Rightarrow> (Err e, w) | Panic \<Rightarrow> (Panic, w)
             | Ok s \<Rightarrow>
                 (case rs_pending s of
                    None \<Rightarrow>
                      (case on_continuations (complete_continuation token) w of
                         (Err e, w) \<Rightarrow> (Err e, w) | (Panic, w) \<Rightarrow> (Panic, w)
                       | (Ok _, w) \<Rightarrow> finish_sequence (rc_mixture c) s [] w)
                  | Some pending \<Rightarrow>
                      (case on_continuations (rotate_continuation token
                           (c\<lparr>rc_next_reaction_index := pd_next_reaction_index pending\<rparr>)) w of
                         (Err e, w) \<Rightarrow> (Err e, w) | (Panic, w) \<Rightarrow> (Panic, w)
                       | (Ok next_token, w) \<Rightarrow>
                           finish_sequence (rc_mixture c) s
                             [RunDmReaction (rc_turf c) (rc_mixture c) (rc_target c) (pd_reaction pending) next_token] w))))"

definition cancel_reaction :: "continuation_token \<Rightarrow> world \<Rightarrow> (unit, world_error) result \<times> world" where
  "cancel_reaction token = on_continuations (complete_continuation token)"

section \<open>The event queue\<close>

definition drain_events :: "u32 \<Rightarrow> world \<Rightarrow> (u32 \<times> world_event list) \<times> world" where
  "drain_events maximum w =
     (let count = min (length (wd_events w)) (unat maximum)
      in ((word_of_nat count, take count (wd_events w)), w\<lparr>wd_events := drop count (wd_events w)\<rparr>))"

definition pending_events :: "u32 \<Rightarrow> world \<Rightarrow> world_event list" where
  "pending_events maximum w = take (min (length (wd_events w)) (unat maximum)) (wd_events w)"

definition discard_pending_events :: "u32 \<Rightarrow> world \<Rightarrow> (unit, world_error) result \<times> world" where
  "discard_pending_events requested w =
     (if unat requested > length (wd_events w)
      then (Err (PendingEventCountExceeded requested (saturated_u32 (length (wd_events w)))), w)
      else (Ok (), w\<lparr>wd_events := drop (unat requested) (wd_events w)\<rparr>))"

end
