(* ===== verification/World_Adjacency.thy ===== *)
theory World_Adjacency
  imports World_Batches
begin

text \<open>Edges between mixtures: the batch that sets them, and when the diffusion graph over them can be built.\<close>

section \<open>The batch\<close>

lemma world_inv_edges:
  assumes "world_inv w" and "edges_live (wd_mixtures w) edges"
  shows "world_inv (w\<lparr>wd_edges := edges, wd_mixture_edges := edges_index edges\<rparr>)"
  using assms by (simp add: world_inv_def)

lemma insert_mixture_edge_result:
  assumes "wd_mixture_edges w = edges_index (wd_edges w)"
  shows "insert_mixture_edge key c w =
    (let edges = (wd_edges w)(key \<mapsto> c) in w\<lparr>wd_edges := edges, wd_mixture_edges := edges_index edges\<rparr>)"
proof -
  have "index_insert (ek_right key) key (index_insert (ek_left key) key (edges_index (wd_edges w))) =
      edges_index ((wd_edges w)(key \<mapsto> c))"
    unfolding edges_index_def index_insert_scan by (rule index_of_cong) (auto simp: incident_def)
  then show ?thesis by (simp add: insert_mixture_edge_def assms Let_def)
qed

lemma remove_mixture_edge_result:
  assumes "wd_mixture_edges w = edges_index (wd_edges w)"
  shows "remove_mixture_edge key w =
    (let edges = (wd_edges w)(key := None) in w\<lparr>wd_edges := edges, wd_mixture_edges := edges_index edges\<rparr>)"
proof -
  have "index_remove (ek_right key) key (index_remove (ek_left key) key (edges_index (wd_edges w))) =
      edges_index ((wd_edges w)(key := None))"
    unfolding edges_index_def index_remove_scan by (rule index_of_cong) (auto simp: incident_def)
  then show ?thesis by (simp add: remove_mixture_edge_def unlink_mixture_edge_def assms Let_def)
qed

lemma require_handle_occupied: "require_handle mixtures h = Ok r \<Longrightarrow> occupied mixtures (mh_slot h)"
  by (auto simp: require_handle_def occupied_def split: option.splits if_splits)

lemma edges_index_dom: "dom edges = dom edges' \<Longrightarrow> edges_index edges = edges_index edges'"
  unfolding edges_index_def by (rule index_of_cong) (auto simp: dom_def set_eq_iff)

lemma apply_adjacency_mutation_safe:
  assumes inv: "world_inv w"
  shows "safe_result (\<lambda>(w', _). world_inv w') (apply_adjacency_mutation mutation (w, changed))"
proof -
  let ?l = "ad_left mutation" and ?r = "ad_right mutation" and ?c = "ad_conductivity mutation"
  have index: "wd_mixture_edges w = edges_index (wd_edges w)" and live: "edges_live (wd_mixtures w) (wd_edges w)"
    using inv by (simp_all add: world_inv_def)
  let ?check = "rbind (require_handle (wd_mixtures w) ?l) (\<lambda>_. rbind (require_handle (wd_mixtures w) ?r) (\<lambda>_.
      if \<not> f32_is_finite ?c \<or> f32_less ?c 0 then Err InvalidConductivity else edge_key_new (mh_slot ?l) (mh_slot ?r)))"
  show ?thesis
  proof (cases ?check)
    case (Ok key)
    then have key: "ek_left key < ek_right key" "occupied (wd_mixtures w) (ek_left key)" "occupied (wd_mixtures w) (ek_right key)"
      using require_handle_occupied [of "wd_mixtures w"]
      by (auto simp: edge_key_new_def min_def max_def split: if_splits)
    have removed: "world_inv (remove_mixture_edge key w)"
      using live by (simp add: remove_mixture_edge_result [OF index] Let_def)
        (rule world_inv_edges [OF inv], simp add: edges_live_def)
    have inserted: "world_inv (insert_mixture_edge key ?c w)"
      using live key by (simp add: insert_mixture_edge_result [OF index] Let_def)
        (rule world_inv_edges [OF inv], simp add: edges_live_def)
    have kept: "world_inv (w\<lparr>wd_edges := (wd_edges w)(key \<mapsto> ?c)\<rparr>)" if "wd_edges w key = Some old" for old
    proof -
      have "edges_index ((wd_edges w)(key \<mapsto> ?c)) = edges_index (wd_edges w)"
        using that by (intro edges_index_dom) auto
      then show ?thesis using inv live that by (auto simp: world_inv_def edges_live_def)
    qed
    show ?thesis
      using inv removed inserted kept unfolding apply_adjacency_mutation_def prod.case Ok
      by (auto split: option.split)
  next
    case (Err e)
    then show ?thesis using inv unfolding apply_adjacency_mutation_def prod.case Err by simp
  next
    case Panic
    then show ?thesis by (auto simp: edge_key_new_def split: if_splits)
  qed
qed

section \<open>The graph over the mixtures\<close>

definition graph_nodes :: "mixture_slot list \<Rightarrow> graph_node list" where
  "graph_nodes mixtures = map (\<lambda>(slot, s). \<lparr>gn_handle = word_of_nat slot, gn_generation = the (ms_generation s),
       gn_mixture = Some (MixtureHandle (word_of_nat slot) (the (ms_generation s)))\<rparr>)
     (filter (\<lambda>(slot, s). ms_mixture s \<noteq> None) (enumerate 0 mixtures))"

lemma mixture_nodes_Ok:
  assumes "\<forall>s \<in> set mixtures. ms_mixture s \<noteq> None \<longrightarrow> ms_generation s \<noteq> None"
  shows "rfold mixture_node (enumerate k mixtures) nodes = Ok (nodes @
    map (\<lambda>(slot, s). \<lparr>gn_handle = word_of_nat slot, gn_generation = the (ms_generation s),
       gn_mixture = Some (MixtureHandle (word_of_nat slot) (the (ms_generation s)))\<rparr>)
     (filter (\<lambda>(slot, s). ms_mixture s \<noteq> None) (enumerate k mixtures)))"
  using assms
proof (induction mixtures arbitrary: k nodes)
  case (Cons s mixtures)
  then show ?case by (cases "ms_mixture s"; cases "ms_generation s") (simp_all add: mixture_node_def)
qed simp

lemma graph_nodes_handles:
  "map gn_handle (graph_nodes mixtures) = map word_of_nat (filter (\<lambda>i. ms_mixture (mixtures ! i) \<noteq> None) [0..<length mixtures])"
proof -
  have "enumerate 0 mixtures = map (\<lambda>i. (i, mixtures ! i)) [0..<length mixtures]"
    by (rule nth_equalityI) (simp_all add: nth_enumerate_eq)
  then show ?thesis by (simp add: graph_nodes_def filter_map comp_def)
qed

lemma graph_nodes_ok:
  assumes "mixtures_ok mixtures"
  shows "nodes_ok (graph_nodes mixtures)" and "gn_handle ` set (graph_nodes mixtures) = {x. occupied mixtures x}"
proof -
  let ?is = "filter (\<lambda>i. ms_mixture (mixtures ! i) \<noteq> None) [0..<length mixtures]"
  have len: "length mixtures \<le> 2 ^ 32" using assms by (simp add: mixtures_ok_def)
  then have small: "unat (word_of_nat i :: u32) = i" if "i < length mixtures" for i
    using that by (simp add: unat_of_nat take_bit_nat_eq_self)
  have "inj_on (word_of_nat :: nat \<Rightarrow> u32) (set ?is)"
    by (rule inj_onI) (metis atLeastLessThan_iff filter_is_subset set_upt small subsetD)
  then have "distinct (map gn_handle (graph_nodes mixtures))"
    unfolding graph_nodes_handles by (simp add: distinct_map)
  moreover have "length (graph_nodes mixtures) \<le> 2 ^ 32"
    using length_filter_le [of "\<lambda>(slot, s). ms_mixture s \<noteq> None" "enumerate 0 mixtures"] len
    by (simp add: graph_nodes_def)
  moreover have "\<forall>n \<in> set (graph_nodes mixtures). gn_mixture n \<noteq> None" by (auto simp: graph_nodes_def)
  ultimately show "nodes_ok (graph_nodes mixtures)" by (simp add: nodes_ok_def)
  have "gn_handle ` set (graph_nodes mixtures) = word_of_nat ` set ?is"
    by (metis graph_nodes_handles list.set_map)
  also have "\<dots> = {x. occupied mixtures x}"
    using small by (force simp: occupied_def image_iff)
  finally show "gn_handle ` set (graph_nodes mixtures) = {x. occupied mixtures x}" .
qed

lemma node_index_known: "nodes_ok nodes \<Longrightarrow> node_index nodes h \<noteq> None \<longleftrightarrow> h \<in> gn_handle ` set nodes"
proof -
  have "dom (node_index nodes) = gn_handle ` set nodes" by (simp add: node_index_def)
  then show ?thesis by blast
qed

definition all_directions :: "(edge_key \<rightharpoonup> f32) \<Rightarrow> directed_edge list" where
  "all_directions edges = concat (map both_directions (sorted_list_of_set (dom edges)))"

definition mixture_degree :: "(edge_key \<rightharpoonup> f32) \<Rightarrow> u32 \<Rightarrow> nat" where
  "mixture_degree edges x = card {key. edges key \<noteq> None \<and> incident key x}"

lemma all_directions_set:
  "DirectedEdge a b \<in> set (all_directions edges) \<longleftrightarrow> edges (EdgeKey a b) \<noteq> None \<or> edges (EdgeKey b a) \<noteq> None"
proof -
  have "DirectedEdge a b \<in> set (both_directions key) \<longleftrightarrow> key = EdgeKey a b \<or> key = EdgeKey b a" for key
    by (cases key) (auto simp: both_directions_def)
  then show ?thesis by (auto simp: all_directions_def finite_edge_keys)
qed

lemma all_directions_distinct:
  assumes "\<And>key. edges key \<noteq> None \<Longrightarrow> ek_left key < ek_right key"
  shows "distinct (all_directions edges)"
proof -
  have "distinct (concat (map both_directions keys))"
    if "distinct keys" "\<And>key. key \<in> set keys \<Longrightarrow> ek_left key < ek_right key" for keys
    using that
  proof (induction keys)
    case (Cons key keys)
    have "key' = key" if "e \<in> set (both_directions key)" "e \<in> set (both_directions key')" "key' \<in> set keys" for key' e
      using that Cons.prems(2) [of key] Cons.prems(2) [of key'] by (cases key; cases key') (auto simp: both_directions_def)
    then have "set (both_directions key) \<inter> set (concat (map both_directions keys)) = {}" using Cons.prems(1) by auto
    moreover have "distinct (both_directions key)" using Cons.prems(2) [of key] by (simp add: both_directions_def)
    ultimately show ?case using Cons by simp
  qed simp
  from this [of "sorted_list_of_set (dom edges)"] show ?thesis
    using assms by (auto simp: all_directions_def finite_edge_keys)
qed

lemma all_directions_row:
  assumes "\<And>key. edges key \<noteq> None \<Longrightarrow> ek_left key < ek_right key"
  shows "length (filter (\<lambda>e. de_from e = x) (all_directions edges)) = mixture_degree edges x"
    and "length (all_directions edges) = 2 * card (dom edges)"
proof -
  have "length (filter (\<lambda>e. de_from e = x) (concat (map both_directions keys))) = length (filter (\<lambda>key. incident key x) keys) \<and>
      length (concat (map both_directions keys)) = 2 * length keys"
    if "\<And>key. key \<in> set keys \<Longrightarrow> ek_left key < ek_right key" for keys
    using that
  proof (induction keys)
    case (Cons key keys)
    then have "ek_left key \<noteq> ek_right key" by (metis list.set_intros(1) order.irrefl)
    then show ?case using Cons by (auto simp: both_directions_def incident_def)
  qed simp
  note rows = this [of "sorted_list_of_set (dom edges)"]
  have sorted: "set (sorted_list_of_set (dom edges)) = dom edges" "distinct (sorted_list_of_set (dom edges))"
    by (simp_all add: finite_edge_keys)
  have "length (filter (\<lambda>key. incident key x) (sorted_list_of_set (dom edges))) = mixture_degree edges x"
    unfolding mixture_degree_def using sorted distinct_length_filter [OF sorted(2), of "\<lambda>key. incident key x"]
    by (simp add: dom_def Collect_conj_eq Int_commute)
  then show "length (filter (\<lambda>e. de_from e = x) (all_directions edges)) = mixture_degree edges x"
    and "length (all_directions edges) = 2 * card (dom edges)"
    using rows assms sorted by (auto simp: all_directions_def domIff finite_edge_keys)
qed

lemma build_graph_result:
  assumes mixtures: "mixtures_ok mixtures" and live: "edges_live mixtures edges"
  shows "build_graph mixtures edges \<noteq> Panic" and "(\<exists>g. build_graph mixtures edges = Ok g) \<longleftrightarrow>
      (\<forall>x. mixture_degree edges x \<le> 6) \<and> 2 * card (dom edges) < 2 ^ 32"
proof -
  let ?nodes = "graph_nodes mixtures" and ?edges = "all_directions edges"
  have "rfold mixture_node (enumerate 0 mixtures) [] = Ok ?nodes"
    using mixture_nodes_Ok [of mixtures 0 "[]"] mixtures by (simp add: mixtures_ok_def graph_nodes_def)
  then have run: "build_graph mixtures edges = map_err GraphBuildFailed (validate_graph ?nodes ?edges)"
    by (simp add: build_graph_def all_directions_def)
  note nodes = graph_nodes_ok [OF mixtures]
  have order: "edges key \<noteq> None \<Longrightarrow> ek_left key < ek_right key" for key using live by (simp add: edges_live_def)
  note rows = all_directions_row [OF order]
  have ends: "edges (EdgeKey a b) \<noteq> None \<or> edges (EdgeKey b a) \<noteq> None \<Longrightarrow> occupied mixtures a \<and> occupied mixtures b \<and> a \<noteq> b" for a b
    using live by (fastforce simp: edges_live_def)
  have edge_ok: "node_index ?nodes (de_from e) \<noteq> None \<and> node_index ?nodes (de_to e) \<noteq> None \<and>
       de_from e \<noteq> de_to e \<and> DirectedEdge (de_to e) (de_from e) \<in> set ?edges" if "e \<in> set ?edges" for e
  proof -
    obtain a b where e: "e = DirectedEdge a b" by (rule directed_edge.exhaust)
    have "edges (EdgeKey a b) \<noteq> None \<or> edges (EdgeKey b a) \<noteq> None"
      using that unfolding e all_directions_set .
    with ends [OF this] show ?thesis
      unfolding e directed_edge.sel all_directions_set node_index_known [OF nodes(1)] nodes(2) by blast
  qed
  have row: "length (graph_row ?nodes ?edges i) = mixture_degree edges (gn_handle (?nodes ! i))" for i
    using rows(1) by (simp add: graph_row_def)
  have elsewhere: "mixture_degree edges x = 0" if "x \<notin> gn_handle ` set ?nodes" for x
  proof -
    have "{key. edges key \<noteq> None \<and> incident key x} = {}"
      using that live by (auto simp: nodes(2) incident_def edges_live_def)
    then show ?thesis unfolding mixture_degree_def by (metis card.empty)
  qed
  have "(\<forall>i < length ?nodes. length (graph_row ?nodes ?edges i) \<le> unat max_cardinal_neighbors) \<longleftrightarrow>
      (\<forall>x. mixture_degree edges x \<le> 6)"
  proof
    assume small: "\<forall>i < length ?nodes. length (graph_row ?nodes ?edges i) \<le> unat max_cardinal_neighbors"
    show "\<forall>x. mixture_degree edges x \<le> 6"
    proof
      fix x
      show "mixture_degree edges x \<le> 6"
      proof (cases "x \<in> gn_handle ` set ?nodes")
        case True
        then obtain i where "i < length ?nodes" "gn_handle (?nodes ! i) = x" by (auto simp: in_set_conv_nth)
        then show ?thesis using small row [of i] by (auto simp: max_cardinal_neighbors_def)
      qed (simp add: elsewhere)
    qed
  qed (simp add: row max_cardinal_neighbors_def)
  moreover have "distinct ?edges" by (rule all_directions_distinct [OF order])
  ultimately have wf: "graph_wf ?nodes ?edges \<longleftrightarrow> (\<forall>x. mixture_degree edges x \<le> 6) \<and> 2 * card (dom edges) < 2 ^ 32"
    using nodes(1) edge_ok rows(2) by (auto simp: graph_wf_def)
  note valid = validate_graph_result [of ?nodes ?edges]
  show "build_graph mixtures edges \<noteq> Panic" using valid by (simp add: run)
  show "(\<exists>g. build_graph mixtures edges = Ok g) \<longleftrightarrow>
      (\<forall>x. mixture_degree edges x \<le> 6) \<and> 2 * card (dom edges) < 2 ^ 32"
    using valid wf by (simp add: run)
qed

lemma apply_adjacency_safe:
  assumes inv: "world_inv w"
  shows "safe_result world_inv (apply_adjacency mutations w)"
proof -
  have loop: "safe_result (\<lambda>(w', _). world_inv w') (keep_loop apply_adjacency_mutation mutations (w, False))"
    using inv by (intro safe_keep_loop) (auto intro: apply_adjacency_mutation_safe)
  obtain r w' changed where run: "keep_loop apply_adjacency_mutation mutations (w, False) = (r, w', changed)"
    by (cases "keep_loop apply_adjacency_mutation mutations (w, False)")
  have inv': "world_inv w'" and "r \<noteq> Panic" using loop run by (simp_all add: safe_result_def)
  moreover have "build_graph (wd_mixtures w') (wd_edges w') \<noteq> Panic"
    using inv' by (intro build_graph_result) (simp_all add: world_inv_def)
  ultimately show ?thesis
    using run by (cases r; cases "build_graph (wd_mixtures w') (wd_edges w')")
      (auto simp: apply_adjacency_def world_inv_graph)
qed

section \<open>A batch, as a whole\<close>

text \<open>
  When a mutation is accepted, and what it does to the edges: two live mixtures in different slots, and a
  conductivity that is finite and not negative, which removes the edge when it is zero and is stored otherwise.
\<close>

definition live_mixture :: "mixture_slot list \<Rightarrow> mixture_handle \<Rightarrow> bool" where
  "live_mixture mixtures h \<longleftrightarrow> unat (mh_slot h) < length mixtures \<and>
     ms_generation (mixtures ! unat (mh_slot h)) = Some (mh_generation h) \<and> ms_mixture (mixtures ! unat (mh_slot h)) \<noteq> None"

definition edge_acceptable :: "mixture_slot list \<Rightarrow> core_adjacency \<Rightarrow> bool" where
  "edge_acceptable mixtures m \<longleftrightarrow> live_mixture mixtures (ad_left m) \<and> live_mixture mixtures (ad_right m) \<and>
     f32_is_finite (ad_conductivity m) \<and> \<not> f32_less (ad_conductivity m) 0 \<and> mh_slot (ad_left m) \<noteq> mh_slot (ad_right m)"

definition edge_after :: "core_adjacency \<Rightarrow> (edge_key \<rightharpoonup> f32) \<Rightarrow> edge_key \<rightharpoonup> f32" where
  "edge_after m edges =
     edges(EdgeKey (min (mh_slot (ad_left m)) (mh_slot (ad_right m))) (max (mh_slot (ad_left m)) (mh_slot (ad_right m))) :=
       if f32_eq (ad_conductivity m) 0 then None else Some (ad_conductivity m))"

text \<open>The world with other edges, and with the index that belongs to them.\<close>

definition with_edges :: "(edge_key \<rightharpoonup> f32) \<Rightarrow> world \<Rightarrow> world" where
  "with_edges edges w = w\<lparr>wd_edges := edges, wd_mixture_edges := edges_index edges\<rparr>"

lemma with_edges_simps [simp]:
  "with_edges edges (with_edges edges' w) = with_edges edges w" "wd_edges (with_edges edges w) = edges"
  "wd_mixtures (with_edges edges w) = wd_mixtures w" "wd_mixture_edges (with_edges edges w) = edges_index edges"
  "wd_graph (with_edges edges w) = wd_graph w"
  by (simp_all add: with_edges_def)

lemma with_same_edges: "wd_mixture_edges w = edges_index (wd_edges w) \<Longrightarrow> with_edges (wd_edges w) w = w"
  by (simp add: with_edges_def)

lemma f32_eq_nonzero:
  assumes "f32_eq x y" and "\<not> f32_eq y 0"
  shows "x = y"
proof -
  have zero: "f32_magnitude 0 = 0" "f32_key 0 = 0" by (simp_all add: f32_magnitude_def f32_key_def)
  have "f32_magnitude y \<noteq> 0"
  proof
    assume "f32_magnitude y = 0"
    then have "f32_key y = f32_key 0" by (simp add: zero(2)) (simp add: f32_key_magnitude)
    then show False using assms zero(1) by (simp add: f32_eq_def f32_is_nan_iff)
  qed
  moreover have "f32_key x = f32_key y" using assms(1) by (simp add: f32_eq_def)
  ultimately have key: "f32_key x = f32_key y" "f32_magnitude y \<noteq> 0" by blast+
  then have "f32_magnitude x = f32_magnitude y \<and> f32_negative x = f32_negative y"
    using f32_magnitude_bounds(1) [of x] f32_magnitude_bounds(1) [of y]
    by (auto simp: f32_key_magnitude split: if_splits)
  then show ?thesis using f32_parts_eqI by blast
qed

lemma live_mixture_require: "live_mixture mixtures h \<longleftrightarrow> (\<exists>r. require_handle mixtures h = Ok r)"
  by (auto simp: live_mixture_def require_handle_def vec_get_def split: option.splits if_splits)

lemma require_handle_not_Panic: "require_handle mixtures h \<noteq> Panic"
  by (simp add: require_handle_def split: option.splits)

text \<open>One mutation; the flag tells whether the graph has to be built anew.\<close>

lemma apply_adjacency_mutation_exact:
  assumes index: "wd_mixture_edges w = edges_index (wd_edges w)"
  shows "if edge_acceptable (wd_mixtures w) m
    then \<exists>changed'. apply_adjacency_mutation m (w, changed) = (Ok (), with_edges (edge_after m (wd_edges w)) w, changed') \<and>
      (changed' \<or> \<not> changed \<and> edge_after m (wd_edges w) = wd_edges w)
    else \<exists>e. apply_adjacency_mutation m (w, changed) = (Err e, w, changed)"
proof -
  let ?l = "ad_left m" and ?r = "ad_right m" and ?c = "ad_conductivity m"
  let ?key = "EdgeKey (min (mh_slot ?l) (mh_slot ?r)) (max (mh_slot ?l) (mh_slot ?r))"
  let ?check = "rbind (require_handle (wd_mixtures w) ?l) (\<lambda>_. rbind (require_handle (wd_mixtures w) ?r) (\<lambda>_.
      if \<not> f32_is_finite ?c \<or> f32_less ?c 0 then Err InvalidConductivity else edge_key_new (mh_slot ?l) (mh_slot ?r)))"
  show ?thesis
  proof (cases "edge_acceptable (wd_mixtures w) m")
    case True
    then have check: "?check = Ok ?key"
      by (auto simp: edge_acceptable_def live_mixture_require edge_key_new_def)
    note changes = remove_mixture_edge_result [OF index] insert_mixture_edge_result [OF index]
    have keep: "edge_after m (wd_edges w) = wd_edges w" if "f32_eq ?c 0" "wd_edges w ?key = None"
      using that by (simp add: edge_after_def fun_eq_iff)
    have same: "edge_after m (wd_edges w) = wd_edges w" if "\<not> f32_eq ?c 0" "wd_edges w ?key = Some old" "f32_eq old ?c" for old
      using that f32_eq_nonzero [of old ?c] by (simp add: edge_after_def fun_upd_idem)
    show ?thesis
      unfolding apply_adjacency_mutation_def prod.case check result.case if_P [OF True]
      using keep same with_same_edges [OF index]
      by (auto simp: changes Let_def with_edges_def edge_after_def split: option.split)
  next
    case False
    have "?check \<noteq> Ok key" for key
      using False by (auto simp: edge_acceptable_def live_mixture_require edge_key_new_def split: if_splits)
    moreover have "?check \<noteq> Panic"
      by (auto simp: rbind_eq_Panic require_handle_not_Panic edge_key_new_def)
    ultimately obtain e where check: "?check = Err e" by (cases ?check) blast+
    show ?thesis unfolding apply_adjacency_mutation_def prod.case check if_not_P [OF False] by simp
  qed
qed

lemma adjacency_loop_exact:
  fixes mutations
  assumes "wd_mixture_edges w = edges_index (wd_edges w)"
    and "keep_loop apply_adjacency_mutation mutations (w, changed) = (r, w', changed')"
  defines "applied \<equiv> takeWhile (edge_acceptable (wd_mixtures w)) mutations"
  shows "w' = with_edges (fold edge_after applied (wd_edges w)) w \<and> r \<noteq> Panic \<and> (r = Ok () \<longleftrightarrow> applied = mutations) \<and>
    (changed' \<or> \<not> changed \<and> fold edge_after applied (wd_edges w) = wd_edges w)"
  using assms(1,2) unfolding applied_def
proof (induction mutations arbitrary: w changed)
  case Nil
  then show ?case by (auto simp: with_same_edges)
next
  case (Cons m ms)
  let ?w1 = "with_edges (edge_after m (wd_edges w)) w"
  note step = apply_adjacency_mutation_exact [OF Cons.prems(1), of m changed]
  show ?case
  proof (cases "edge_acceptable (wd_mixtures w) m")
    case True
    then obtain changed1 where 1: "apply_adjacency_mutation m (w, changed) = (Ok (), ?w1, changed1)"
      "changed1 \<or> \<not> changed \<and> edge_after m (wd_edges w) = wd_edges w"
      using step by auto
    have "wd_mixture_edges ?w1 = edges_index (wd_edges ?w1)" by simp
    moreover have "keep_loop apply_adjacency_mutation ms (?w1, changed1) = (r, w', changed')"
      using Cons.prems(2) 1(1) by simp
    ultimately have "w' = with_edges (fold edge_after (takeWhile (edge_acceptable (wd_mixtures ?w1)) ms) (wd_edges ?w1)) ?w1 \<and>
        r \<noteq> Panic \<and> (r = Ok () \<longleftrightarrow> takeWhile (edge_acceptable (wd_mixtures ?w1)) ms = ms) \<and>
        (changed' \<or> \<not> changed1 \<and>
          fold edge_after (takeWhile (edge_acceptable (wd_mixtures ?w1)) ms) (wd_edges ?w1) = wd_edges ?w1)"
      by (rule Cons.IH)
    then show ?thesis using True 1(2) by auto
  next
    case False
    then show ?thesis using step Cons.prems(2) with_same_edges [OF Cons.prems(1)] by auto
  qed
qed

text \<open>
  C33: a batch of edges between mixtures is not rolled back when it fails. The mutations up to the first that is not
  acceptable are applied, in order; acceptable are those between live mixtures in different slots with a finite
  conductivity that is not negative. When the batch succeeds, all were acceptable, and the graph over the new edges has
  been built or the edges are the same as before; it fails only if one was not acceptable, a mixture then has more than six
  edges, or there are 2^31 edges or more. On every failure the edges are those of the mutations applied, with the index that belongs to them, and everything else is as
  before, so that the diffusion graph is the old one: it is neither rebuilt nor dropped.
\<close>

theorem adjacency_batch_exact:
  fixes mutations
  assumes "world_inv w"
  defines "applied \<equiv> takeWhile (edge_acceptable (wd_mixtures w)) mutations"
  defines "edges \<equiv> fold edge_after applied (wd_edges w)"
  defines "w1 \<equiv> w\<lparr>wd_edges := edges, wd_mixture_edges := edges_index edges\<rparr>"
  shows "case apply_adjacency mutations w of
      (Ok n, w') \<Rightarrow> applied = mutations \<and> n = word_of_nat (length mutations) \<and>
        (w' = w1 \<and> edges = wd_edges w \<or> w' = w1\<lparr>wd_graph := wd_graph w'\<rparr> \<and>
          (case wd_graph w' of Some g \<Rightarrow> build_graph (wd_mixtures w) edges = Ok g | None \<Rightarrow> False))
    | (Err e, w') \<Rightarrow> w' = w1 \<and>
        (applied \<noteq> mutations \<or> (\<exists>slot. mixture_degree edges slot > 6) \<or> 2 * card (dom edges) \<ge> 2 ^ 32)
    | (Panic, w') \<Rightarrow> False"
proof -
  have index: "wd_mixture_edges w = edges_index (wd_edges w)" using assms(1) by (simp add: world_inv_def)
  have w1: "with_edges edges w = w1" by (simp add: with_edges_def w1_def)
  obtain r w2 changed where loop: "keep_loop apply_adjacency_mutation mutations (w, False) = (r, w2, changed)"
    by (cases "keep_loop apply_adjacency_mutation mutations (w, False)")
  have "w2 = w1" and r: "r \<noteq> Panic" "r = Ok () \<longleftrightarrow> applied = mutations" and changed: "changed \<or> edges = wd_edges w"
    using adjacency_loop_exact [OF index loop] unfolding applied_def [symmetric] edges_def [symmetric] w1 by auto
  then have run: "keep_loop apply_adjacency_mutation mutations (w, False) = (r, w1, changed)" using loop by simp
  show ?thesis
  proof (cases "applied = mutations")
    case True
    have "safe_result (\<lambda>(w, _). world_inv w) (keep_loop apply_adjacency_mutation mutations (w, False))"
      using assms(1) by (intro safe_keep_loop) (auto intro: apply_adjacency_mutation_safe)
    then have "world_inv w1" using run r True by (simp add: safe_result_def)
    then have "edges_live (wd_mixtures w) edges" "mixtures_ok (wd_mixtures w)"
      by (simp_all add: world_inv_def w1_def)
    note built = build_graph_result [OF this(2,1)]
    show ?thesis
    proof (cases "build_graph (wd_mixtures w) edges")
      case (Ok g)
      then show ?thesis using run r True changed by (auto simp: apply_adjacency_def w1_def)
    next
      case (Err e)
      have "(\<forall>slot. mixture_degree edges slot \<le> 6) \<and> 2 * card (dom edges) < 2 ^ 32 \<Longrightarrow> False"
        using built(2) Err by simp
      then have "(\<exists>slot. mixture_degree edges slot > 6) \<or> 2 * card (dom edges) \<ge> 2 ^ 32" by (meson not_le)
      then show ?thesis using Err run r True changed by (auto simp: apply_adjacency_def w1_def)
    qed (use built(1) in simp)
  next
    case False
    then show ?thesis using run r by (cases r) (auto simp: apply_adjacency_def)
  qed
qed

definition adjacency_example :: world where
  "adjacency_example = (world_new 1000 4 4)\<lparr>wd_mixtures := replicate 2 \<lparr>ms_generation = Some 1, ms_mixture = Some mixture_record_new\<rparr>,
     wd_edges := [EdgeKey 0 1 \<mapsto> 0x3F800000], wd_mixture_edges := [0 \<mapsto> {EdgeKey 0 1}, 1 \<mapsto> {EdgeKey 0 1}],
     wd_graph := Some \<lparr>dg_nodes = map (\<lambda>slot. \<lparr>gn_handle = slot, gn_generation = 1,
         gn_mixture = Some (MixtureHandle slot 1)\<rparr>) [0, 1],
       dg_handle_to_index = [0 \<mapsto> 0, 1 \<mapsto> 1], dg_offsets = [0, 1, 2], dg_neighbors = [1, 0]\<rparr>\<rparr>"

text \<open>The only edge is removed, then a mixture is named that does not exist.\<close>

definition adjacency_example_batch :: "core_adjacency list" where
  "adjacency_example_batch =
     [\<lparr>ad_left = MixtureHandle 0 1, ad_right = MixtureHandle 1 1, ad_conductivity = 0\<rparr>,
      \<lparr>ad_left = MixtureHandle 0 1, ad_right = MixtureHandle 9 1, ad_conductivity = 0\<rparr>]"

lemma adjacency_example_inv: "world_inv adjacency_example"
proof -
  have slot: "slot < 2 \<longleftrightarrow> slot = 0 \<or> slot = 1" for slot :: u32 by unat_arith
  have "occupied (wd_mixtures adjacency_example) slot" if "slot < 2" for slot
    using that by (auto simp: occupied_def adjacency_example_def slot)
  moreover have "edges_index [EdgeKey 0 1 \<mapsto> c] = [0 \<mapsto> {EdgeKey 0 1}, 1 \<mapsto> {EdgeKey 0 1}]" for c
    by (auto simp: edges_index_def index_of_def incident_def fun_eq_iff)
  moreover have "continuation_of (continuations_new n) token = None" for n token
    by (simp add: continuation_of_def require_continuation_def continuations_new_def vec_get_def)
  ultimately show ?thesis
    using world_inv_new [of 1000 4 4]
    by (auto simp: world_inv_def adjacency_example_def world_new_def mixtures_ok_def edges_live_def waiting_ok_def)
qed

theorem adjacency_batch_exact_witness:
  "wd_edges adjacency_example \<noteq> Map.empty \<and> (let w' = snd (apply_adjacency adjacency_example_batch adjacency_example) in
     wd_edges w' = Map.empty \<and> wd_graph w' = wd_graph adjacency_example \<and> map_option dg_neighbors (wd_graph w') = Some [1, 0])"
proof -
  let ?w' = "snd (apply_adjacency adjacency_example_batch adjacency_example)"
  have run: "apply_adjacency adjacency_example_batch adjacency_example = (Err (UnknownHandle (MixtureHandle 9 1)), ?w')"
    "wd_edges ?w' = Map.empty"
    by (simp_all add: apply_adjacency_def adjacency_example_batch_def adjacency_example_def apply_adjacency_mutation_def
        require_handle_def world_new_def vec_get_def f32_is_finite_def f32_less_def f32_is_nan_def f32_key_def edge_key_new_def
        f32_eq_def remove_mixture_edge_def unlink_mixture_edge_def)
  obtain w' where w': "apply_adjacency adjacency_example_batch adjacency_example = (Err (UnknownHandle (MixtureHandle 9 1)), w')"
    using run(1) by blast
  have "wd_graph w' = wd_graph adjacency_example"
    using adjacency_batch_exact [OF adjacency_example_inv, of adjacency_example_batch] unfolding w' by simp
  then have "wd_graph ?w' = wd_graph adjacency_example" by (simp add: w')
  then show ?thesis using run(2) by (simp add: adjacency_example_def)
qed

end
