(* ===== verification/World_Frames.thy ===== *)
theory World_Frames
  imports World_Reactions World_Adjacency
begin

text \<open>
  What the batches leave alone: the registries, the events and, apart from the registration of mixtures, the mixtures.
\<close>

definition beside_turfs ::
  "world \<Rightarrow> mixture_slot list \<times> gas_registry option \<times> reaction_registry option \<times> world_event list \<times> u32" where
  "beside_turfs w = (wd_mixtures w, wd_gas_registry w, wd_reaction_registry w, wd_events w, wd_max_events w)"

lemma beside_turfs_update [simp]:
  "beside_turfs (w\<lparr>wd_turfs := turfs\<rparr>) = beside_turfs w"
  "beside_turfs (w\<lparr>wd_topology := topology\<rparr>) = beside_turfs w"
  "beside_turfs (w\<lparr>wd_heat_active := active\<rparr>) = beside_turfs w"
  "beside_turfs (w\<lparr>wd_mixture_turfs := index\<rparr>) = beside_turfs w"
  "beside_turfs (w\<lparr>wd_mixture_edges := keys\<rparr>) = beside_turfs w"
  "beside_turfs (w\<lparr>wd_edges := edges\<rparr>) = beside_turfs w"
  "beside_turfs (w\<lparr>wd_continuations := table\<rparr>) = beside_turfs w"
  "beside_turfs (w\<lparr>wd_graph := graph\<rparr>) = beside_turfs w"
  by (simp_all add: beside_turfs_def)

lemma rfold_keeps:
  assumes "\<And>i s s'. f i s = Ok s' \<Longrightarrow> g s' = g s" and "rfold f is s = Ok s'"
  shows "g s' = g s"
  using assms(2)
proof (induction "is" arbitrary: s)
  case (Cons i "is")
  then show ?case using assms(1) by auto
qed simp

lemma keep_loop_keeps:
  assumes "\<And>i s. g (snd (f i s)) = g s"
  shows "g (snd (keep_loop f is s)) = g s"
proof (induction "is" arbitrary: s)
  case (Cons i "is")
  obtain r s' where step: "f i s = (r, s')" by (cases "f i s")
  then have "g s' = g s" using assms [of i s] by simp
  then show ?case using Cons step by (cases r) simp_all
qed simp

lemma snd_counted [simp]: "snd (counted mutations m) = snd m"
  by (cases m; cases "fst m") (auto simp: counted_def)

named_theorems beside_intros

lemma on_topology_beside [beside_intros]: "on_topology f w = Ok w' \<Longrightarrow> beside_turfs w' = beside_turfs w"
  by (auto simp: on_topology_def split: prod.splits result.splits)

lemma try_topology_beside [simp]: "beside_turfs (snd (try_topology f w)) = beside_turfs w"
  by (auto simp: try_topology_def split: prod.split result.split topology_error.split)

lemma remove_incident_turf_edges_beside [beside_intros]:
  "remove_incident_turf_edges slot w = Ok w' \<Longrightarrow> beside_turfs w' = beside_turfs w"
  by (auto simp: remove_incident_turf_edges_def intro: beside_intros)

lemma remove_incident_heat_edges_beside [beside_intros]:
  "remove_incident_heat_edges slot w = Ok w' \<Longrightarrow> beside_turfs w' = beside_turfs w"
  unfolding remove_incident_heat_edges_def Let_def rbind_eq_Ok
  by (elim exE conjE) (auto split: result.splits dest!: beside_intros
      rfold_keeps [where g = beside_turfs, rotated] dest: beside_intros)

lemma connect_gas_partner_beside:
  "rbind (on_topology f w) (on_topology g) = Ok w' \<Longrightarrow> beside_turfs w' = beside_turfs w"
  by (auto dest!: on_topology_beside)

lemma remove_incident_gas_edges_beside [beside_intros]:
  "remove_incident_gas_edges slot w = Ok w' \<Longrightarrow> beside_turfs w' = beside_turfs w"
  unfolding remove_incident_gas_edges_def Let_def rbind_eq_Ok
  by (elim exE conjE) (auto split: result.splits dest!: on_topology_beside
      rfold_keeps [where g = beside_turfs, rotated] dest: connect_gas_partner_beside)

lemma update_turf_beside [simp]: "beside_turfs (update_turf slot f w) = beside_turfs w"
  by (simp add: update_turf_def)

lemma deactivate_beside [beside_intros]:
  "deactivate_turf_heat_slot slot w = Ok w' \<Longrightarrow> beside_turfs w' = beside_turfs w"
  by (auto simp: deactivate_turf_heat_slot_def Let_def split: option.splits if_splits result.splits)

lemma activate_beside [beside_intros]:
  "activate_turf_heat alloc h w = Ok w' \<Longrightarrow> beside_turfs w' = beside_turfs w"
  by (auto simp: activate_turf_heat_def split: if_splits)

lemma set_turf_slot_beside [simp]: "beside_turfs (set_turf_slot slot s w) = beside_turfs w"
  by (simp add: set_turf_slot_def)

lemma invalidate_turf_beside [simp]: "beside_turfs (invalidate_turf slot w) = beside_turfs w"
  by (simp add: invalidate_turf_def)

lemma unlink_turf_mixture_beside [simp]: "beside_turfs (unlink_turf_mixture slot w) = beside_turfs w"
  by (simp add: unlink_turf_mixture_def split: option.split)

lemma register_turf_beside [beside_intros]:
  assumes "register_turf handle mixture w = Ok w'"
  shows "beside_turfs w' = beside_turfs w"
  using assms unfolding register_turf_def Let_def rbind_eq_Ok
  by (elim exE conjE) (auto split: if_splits option.splits dest!: beside_intros)

lemma unregister_turf_beside [beside_intros]:
  "unregister_turf handle w = Ok w' \<Longrightarrow> beside_turfs w' = beside_turfs w"
  unfolding unregister_turf_def Let_def rbind_eq_Ok
  by (elim exE conjE) (auto dest!: beside_intros)

lemma apply_turf_mutation_beside [beside_intros]:
  "apply_turf_mutation mutation w = Ok w' \<Longrightarrow> beside_turfs w' = beside_turfs w"
  by (auto simp: apply_turf_mutation_def Let_def split: if_splits core_turf_mutation.splits dest!: beside_intros)

lemma apply_turf_lifecycle_beside [simp]:
  "beside_turfs (snd (apply_turf_lifecycle sizes alloc mutations w)) = beside_turfs w"
  by (auto simp: apply_turf_lifecycle_def Let_def split: result.split prod.split
      dest!: rfold_keeps [where g = beside_turfs, rotated] dest: beside_intros)

lemma topology_batches_beside [simp]:
  "beside_turfs (snd (apply_turf_adjacency oracle mutations w)) = beside_turfs w"
  "beside_turfs (snd (apply_turf_heat_adjacency oracle mutations w)) = beside_turfs w"
  "beside_turfs (snd (apply_turf_firelocks firelocks w)) = beside_turfs w"
proof -
  have "beside_turfs (snd (apply_turf_adjacency_mutation oracle m w)) = beside_turfs w" for m w
    by (simp add: apply_turf_adjacency_mutation_def split: result.split)
  then show "beside_turfs (snd (apply_turf_adjacency oracle mutations w)) = beside_turfs w"
    by (simp add: apply_turf_adjacency_def keep_loop_keeps)
  have "beside_turfs (snd (apply_turf_heat_adjacency_mutation oracle m w)) = beside_turfs w" for m w
    by (simp add: apply_turf_heat_adjacency_mutation_def split: result.split)
  then show "beside_turfs (snd (apply_turf_heat_adjacency oracle mutations w)) = beside_turfs w"
    by (simp add: apply_turf_heat_adjacency_def keep_loop_keeps)
  have "beside_turfs (snd (apply_turf_firelock_mutation m w)) = beside_turfs w" for m w
    by (simp add: apply_turf_firelock_mutation_def split: result.split)
  then show "beside_turfs (snd (apply_turf_firelocks firelocks w)) = beside_turfs w"
    by (simp add: apply_turf_firelocks_def keep_loop_keeps)
qed

lemma apply_turf_heat_beside [simp]: "beside_turfs (snd (apply_turf_heat alloc mutations w)) = beside_turfs w"
proof -
  have "beside_turfs (snd (apply_turf_heat_mutation m w)) = beside_turfs w" for m w
    by (auto simp: apply_turf_heat_mutation_def Let_def split: option.split result.split if_splits dest!: beside_intros)
  then show ?thesis by (simp add: apply_turf_heat_def keep_loop_keeps split: result.split)
qed

lemma mixture_edge_beside [simp]:
  "beside_turfs (remove_mixture_edge key w) = beside_turfs w" "beside_turfs (insert_mixture_edge key c w) = beside_turfs w"
  by (simp_all add: remove_mixture_edge_def unlink_mixture_edge_def insert_mixture_edge_def)

lemma apply_adjacency_beside [simp]: "beside_turfs (snd (apply_adjacency mutations w)) = beside_turfs w"
proof -
  have "beside_turfs (fst (snd (apply_adjacency_mutation m s))) = beside_turfs (fst s)" for m s
    by (cases s) (auto simp: apply_adjacency_mutation_def split: result.split option.split)
  then have "beside_turfs (fst (snd (keep_loop apply_adjacency_mutation mutations (w, False)))) = beside_turfs w"
    using keep_loop_keeps [where g = "\<lambda>s. beside_turfs (fst s)" and f = apply_adjacency_mutation] by simp
  then show ?thesis by (auto simp: apply_adjacency_def split: result.split prod.split)
qed

section \<open>The registration of mixtures\<close>

definition registries :: "world \<Rightarrow> gas_registry option \<times> reaction_registry option \<times> world_event list \<times> u32" where
  "registries w = snd (beside_turfs w)"

definition gas_rows_ok :: "mixture_slot list \<Rightarrow> bool" where
  "gas_rows_ok mixtures \<longleftrightarrow> (\<forall>s \<in> set mixtures. \<forall>x. ms_mixture s = Some x \<longrightarrow> length (mx_gases x) = world_gas_slots)"

lemma gas_rows_ok_update: "gas_rows_ok mixtures \<Longrightarrow> (\<And>x. ms_mixture s = Some x \<Longrightarrow> length (mx_gases x) = world_gas_slots) \<Longrightarrow>
    gas_rows_ok (mixtures[i := s])"
  using set_update_subset_insert [of mixtures i s] by (auto simp: gas_rows_ok_def)

lemma apply_lifecycle_mutation_rows:
  assumes "apply_lifecycle_mutation m (w, S) = Ok (w', S')"
  shows "registries w' = registries w \<and> (gas_rows_ok (wd_mixtures w) \<longrightarrow> gas_rows_ok (wd_mixtures w'))"
  using assms
  by (auto simp: apply_lifecycle_mutation_def Let_def set_mixture_slot_def registries_def beside_turfs_def mixture_record_new_def
      split: option.splits core_lifecycle_action.splits if_splits intro!: gas_rows_ok_update)

lemma detach_mixture_beside: "detach_mixture m w = Ok w' \<Longrightarrow> beside_turfs w' = beside_turfs w"
proof -
  have "detach_turf slot w = Ok w' \<Longrightarrow> beside_turfs w' = beside_turfs w" for slot w w'
    by (auto simp: detach_turf_def split: if_splits dest!: beside_intros)
  then show "detach_mixture m w = Ok w' \<Longrightarrow> beside_turfs w' = beside_turfs w"
    by (auto simp: detach_mixture_def split: option.splits dest!: rfold_keeps [where g = beside_turfs, rotated])
qed

lemma remove_incident_mixture_edges_beside [simp]: "beside_turfs (remove_incident_mixture_edges slot w) = beside_turfs w"
proof -
  have "beside_turfs (fold remove_mixture_edge keys w) = beside_turfs w" for keys w
    by (induction keys arbitrary: w) simp_all
  then show ?thesis by (simp add: remove_incident_mixture_edges_def split: option.split)
qed

lemma remove_edges_beside [simp]: "beside_turfs (fold remove_incident_mixture_edges slots w) = beside_turfs w"
  by (induction slots arbitrary: w) simp_all

lemma apply_lifecycle_rows:
  "registries (snd (apply_lifecycle sizes alloc mutations w)) = registries w \<and>
    (gas_rows_ok (wd_mixtures w) \<longrightarrow> gas_rows_ok (wd_mixtures (snd (apply_lifecycle sizes alloc mutations w))))"
proof -
  have run: "registries w' = registries w \<and> (gas_rows_ok (wd_mixtures w) \<longrightarrow> gas_rows_ok (wd_mixtures w'))"
    if "rfold apply_lifecycle_mutation ms (w, S) = Ok (w', S')" for ms w S w' S'
    using that
  proof (induction ms arbitrary: w S)
    case (Cons m ms)
    then obtain w1 S1 where 1: "apply_lifecycle_mutation m (w, S) = Ok (w1, S1)"
      "rfold apply_lifecycle_mutation ms (w1, S1) = Ok (w', S')" by auto
    show ?case using apply_lifecycle_mutation_rows [OF 1(1)] Cons.IH [OF 1(2)] by simp
  qed simp
  have graph: "beside_turfs (w\<lparr>wd_graph := g\<rparr>) = beside_turfs w" for w g by simp
  have detached: "wd_mixtures w' = wd_mixtures w \<and> registries w' = registries w"
    if "rfold detach_mixture ms ((fold remove_incident_mixture_edges slots w)\<lparr>wd_graph := g\<rparr>) = Ok w'" for ms slots w g w'
  proof -
    have "beside_turfs w' = beside_turfs ((fold remove_incident_mixture_edges slots w)\<lparr>wd_graph := g\<rparr>)"
      by (rule rfold_keeps [OF _ that]) (rule detach_mixture_beside)
    then have "beside_turfs w' = beside_turfs w" by simp
    then show ?thesis by (simp add: registries_def beside_turfs_def)
  qed
  have extend: "gas_rows_ok (mixtures @ replicate n mixture_slot_default) = gas_rows_ok mixtures" for mixtures n
    by (auto simp: gas_rows_ok_def mixture_slot_default_def)
  have kept: "registries (w\<lparr>wd_mixtures := mixtures\<rparr>) = registries w" for mixtures
    by (simp add: registries_def beside_turfs_def)
  let ?keeps = "\<lambda>m. registries (snd m) = registries w \<and> (gas_rows_ok (wd_mixtures w) \<longrightarrow> gas_rows_ok (wd_mixtures (snd m)))"
  have applied: "?keeps (case rfold apply_lifecycle_mutation mutations (w', {}) of
        Ok (w, invalidated) \<Rightarrow>
          (case rfold detach_mixture (unregistering mutations)
              ((fold remove_incident_mixture_edges (sorted_list_of_set invalidated) w)
                 \<lparr>wd_graph := if invalidated = {} then wd_graph w else None\<rparr>) of
            Ok w \<Rightarrow> (Ok (word_of_nat (length mutations)), w) | Err e \<Rightarrow> (Err e, w) | Panic \<Rightarrow> (Panic, w))
      | Err e \<Rightarrow> (Err e, w') | Panic \<Rightarrow> (Panic, w'))"
    if "w' = w\<lparr>wd_mixtures := wd_mixtures w @ replicate n mixture_slot_default\<rparr>" for w' n
  proof (cases "rfold apply_lifecycle_mutation mutations (w', {})")
    case (Ok p)
    obtain w2 S where p: "p = (w2, S)" by (cases p)
    note r = run [OF Ok [unfolded p]]
    let ?detached = "rfold detach_mixture (unregistering mutations) ((fold remove_incident_mixture_edges (sorted_list_of_set S) w2)
        \<lparr>wd_graph := if S = {} then wd_graph w2 else None\<rparr>)"
    show ?thesis
    proof (cases ?detached)
      case (Ok w3)
      then show ?thesis using r detached [OF Ok] \<open>rfold apply_lifecycle_mutation mutations (w', {}) = Ok p\<close>
        by (simp add: p that kept extend)
    qed (use r Ok in \<open>simp_all add: p that kept extend\<close>)
  qed (simp_all add: that kept extend)
  show ?thesis
  proof (cases "rfold (validate_lifecycle_mutation sizes w) mutations (Map.empty, length (wd_mixtures w))")
    case (Ok p)
    obtain projected n where p: "p = (projected, n)" by (cases p)
    consider "n > length (wd_mixtures w) \<and> \<not> fst alloc"
      | "\<not> (n > length (wd_mixtures w) \<and> \<not> fst alloc)" "mutations \<noteq> [] \<and> \<not> snd alloc"
      | "\<not> (n > length (wd_mixtures w) \<and> \<not> fst alloc)" "\<not> (mutations \<noteq> [] \<and> \<not> snd alloc)"
      by blast
    then show ?thesis
    proof cases
      case 3
      show ?thesis
        unfolding apply_lifecycle_def Ok p Let_def result.case prod.case if_not_P [OF 3(1)] if_not_P [OF 3(2)]
        by (rule applied [OF refl])
    qed (auto simp: apply_lifecycle_def Ok p Let_def kept extend)
  qed (simp_all add: apply_lifecycle_def)
qed

end
