(* ===== verification/World_Sequences.thy ===== *)
theory World_Sequences
  imports World_Frames
begin

text \<open>
  Reactions never panic: of built registries every reaction finds its gases, a changed record still has a
  revision left, and a sequence that waits concerns a live mixture. Reacting, resuming and cancelling keep the
  invariant of the world, its turfs and what is occupied.
\<close>

section \<open>A sequence of reactions\<close>

definition registries_built :: "gas_registry option \<Rightarrow> reaction_registry option \<Rightarrow> bool" where
  "registries_built gases reactions \<longleftrightarrow> (\<forall>g. gases = Some g \<longrightarrow> (\<exists>gs. gas_registry_try_new gs = Ok g)) \<and>
     (\<forall>r. reactions = Some r \<longrightarrow> (\<exists>g rs. gases = Some g \<and> reaction_registry_try_new rs g = Ok r))"

definition sequence_ok :: "u32 \<Rightarrow> reaction_sequence \<Rightarrow> bool" where
  "sequence_ok revision s \<longleftrightarrow>
     length (mx_gases (rs_mixture s)) = world_gas_slots \<and> mx_revision (rs_mixture s) = revision"

lemma revision_left_Ok:
  "revision_left handle s = Ok s' \<longleftrightarrow> s' = s \<and> (rs_native_updates s > 0 \<longrightarrow> mx_revision (rs_mixture s) \<noteq> word_of_nat u32_max)"
  by (auto simp: revision_left_def)

lemma revision_left_neq_Panic [simp]: "revision_left handle s \<noteq> Panic"
  by (simp add: revision_left_def)

definition sequence_safe :: "u32 \<Rightarrow> (reaction_sequence, world_error) result \<Rightarrow> bool" where
  "sequence_safe revision r \<longleftrightarrow> r \<noteq> Panic \<and>
     (\<forall>s. r = Ok s \<longrightarrow> sequence_ok revision s \<and> (rs_native_updates s > 0 \<longrightarrow> revision \<noteq> word_of_nat u32_max))"

lemma sequence_safe_Err [simp]: "sequence_safe revision (Err e)"
  by (simp add: sequence_safe_def)

lemma sequence_safe_bind: "x \<noteq> Panic \<Longrightarrow> (\<And>y. x = Ok y \<Longrightarrow> sequence_safe revision (f y)) \<Longrightarrow> sequence_safe revision (rbind x f)"
  by (cases x) simp_all

lemma run_reactions_safe:
  assumes "gas_registry_try_new gs = Ok gases" and "reaction_registry_try_new rs gases = Ok reactions"
    and "snd ` set order \<subseteq> set (rr_priority_order reactions)" and "sequence_ok revision s"
  shows "sequence_safe revision (run_reactions clock gases reactions target handle threshold order s)"
  using assms(3,4)
proof (induction order arbitrary: s)
  case Nil
  then show ?case by (auto simp: sequence_safe_def revision_left_Ok sequence_ok_def)
next
  case (Cons entry order)
  obtain index i where entry: "entry = (index, i)" by (cases entry)
  have row: "length (mx_gases (rs_mixture s)) = world_gas_slots" using Cons.prems by (simp add: sequence_ok_def)
  obtain answer where answer: "is_reactable reactions i (mx_temperature (rs_mixture s)) (mx_gases (rs_mixture s)) gases = Ok answer"
    using is_reactable_answers [OF assms(1,2) row] .
  obtain reaction where reaction: "reaction_by_id reactions i = Some reaction"
    using Cons.prems(1) built_by_id [OF assms(1,2)] priority_order_strict(1) [OF assms(1,2)] by (auto simp: entry)
  have IH: "sequence_safe revision (run_reactions clock gases reactions target handle threshold order s')"
    if "sequence_ok revision s'" for s'
    using Cons.IH [OF _ that] Cons.prems(1) by simp
  show ?case
  proof (cases "answer \<and> (\<exists>kind. rm_execution reaction = NativeReaction kind)")
    case True
    then obtain kind where kind: "rm_execution reaction = NativeReaction kind" by blast
    let ?m = "rs_mixture s"
    obtain r gas_amounts temperature where native: "execute_native single kind (mx_gases ?m) (mx_temperature ?m) (mx_volume ?m)
        (mx_minimum_heat_capacity ?m) gases = (r, gas_amounts, temperature)"
      by (cases "execute_native single kind (mx_gases ?m) (mx_temperature ?m) (mx_volume ?m) (mx_minimum_heat_capacity ?m) gases")
    note safe = execute_native_row [OF assms(1) row native]
    have ok: "sequence_ok revision (s\<lparr>rs_mixture := ?m\<lparr>mx_temperature := temperature, mx_gases := gas_amounts\<rparr>,
        rs_events := events, rs_flags := flags, rs_work_items := items, rs_native_updates := updates\<rparr>)"
      "sequence_ok revision (s\<lparr>rs_mixture := ?m\<lparr>mx_temperature := temperature, mx_gases := gas_amounts\<rparr>\<rparr>)"
      for events flags items updates
      using Cons.prems(2) safe(2) by (simp_all add: sequence_ok_def)
    note run = native answer True reaction kind entry
    show ?thesis
    proof (cases r)
      case (Ok "values")
      show ?thesis
        by (cases "values") (use run Ok in \<open>simp_all add: Let_def IH ok sequence_safe_bind\<close>)
    qed (use run safe(1) in \<open>simp_all add: Let_def\<close>)
  next
    case False
    then show ?thesis
      using answer Cons.prems(2)
      by (cases "rm_execution reaction")
        (auto simp: entry reaction Let_def intro!: IH sequence_safe_bind split: bool.split,
         auto simp: sequence_safe_def revision_left_Ok sequence_ok_def)
  qed
qed

section \<open>Reactions and continuations\<close>

definition world_ready :: "world \<Rightarrow> bool" where
  "world_ready w \<longleftrightarrow> world_inv w \<and> registries_built (wd_gas_registry w) (wd_reaction_registry w) \<and> gas_rows_ok (wd_mixtures w)"

text \<open>A change that leaves every turf, every generation and what is occupied as it was.\<close>

definition slots_kept :: "world \<Rightarrow> world \<Rightarrow> bool" where
  "slots_kept w w' \<longleftrightarrow> projected_slot (wd_mixtures w') = projected_slot (wd_mixtures w) \<and> wd_turfs w' = wd_turfs w"

lemma slots_kept_refl [simp]: "slots_kept w w"
  and slots_kept_trans: "slots_kept a b \<Longrightarrow> slots_kept b c \<Longrightarrow> slots_kept a c"
  by (simp_all add: slots_kept_def)

definition ready_step :: "world \<Rightarrow> ('a, 'e) result \<times> world \<Rightarrow> bool" where
  "ready_step w m \<longleftrightarrow> safe_result (\<lambda>w'. world_ready w' \<and> slots_kept w w') m"

lemma ready_step_simps [simp]:
  "ready_step w (Ok x, w') \<longleftrightarrow> world_ready w' \<and> slots_kept w w'"
  "ready_step w (Err e, w') \<longleftrightarrow> world_ready w' \<and> slots_kept w w'" "\<not> ready_step w (Panic, w')"
  by (simp_all add: ready_step_def)

lemma ready_step_later: "ready_step w' m \<Longrightarrow> slots_kept w w' \<Longrightarrow> ready_step w m"
  by (auto simp: ready_step_def safe_result_def intro: slots_kept_trans)

lemma require_handle_slot:
  "require_handle mixtures h = Ok m \<longleftrightarrow> unat (mh_slot h) < length mixtures \<and>
     ms_generation (mixtures ! unat (mh_slot h)) = Some (mh_generation h) \<and> ms_mixture (mixtures ! unat (mh_slot h)) = Some m"
  by (auto simp: require_handle_def vec_get_def split: option.splits if_splits)

lemma world_ready_continuations:
  "world_ready w \<Longrightarrow> waiting_ok (wd_mixtures w) (wd_turfs w) k \<Longrightarrow>
     world_ready (w\<lparr>wd_continuations := k\<rparr>) \<and> slots_kept w (w\<lparr>wd_continuations := k\<rparr>)"
  by (simp add: world_ready_def world_inv_def slots_kept_def)

lemma world_ready_events: "world_ready (w\<lparr>wd_events := events\<rparr>) = world_ready w" "slots_kept w (w'\<lparr>wd_events := events\<rparr>) = slots_kept w w'"
  by (simp_all add: world_ready_def world_inv_def slots_kept_def)

lemma on_continuations_ready:
  assumes ready: "world_ready w" and run: "f (wd_continuations w) = (r, k)" and "r \<noteq> Panic"
    and "waiting_ok (wd_mixtures w) (wd_turfs w) k"
  shows "ready_step w (on_continuations f w)"
  using world_ready_continuations [OF ready assms(4)] assms(3) by (cases r) (simp_all add: on_continuations_def run)

lemma complete_ready:
  assumes "world_ready w"
  shows "ready_step w (on_continuations (complete_continuation token) w)"
proof -
  obtain r k where run: "complete_continuation token (wd_continuations w) = (r, k)"
    by (cases "complete_continuation token (wd_continuations w)")
  have waiting: "waiting_ok (wd_mixtures w) (wd_turfs w) (wd_continuations w)" using assms by (simp add: world_ready_def world_inv_def)
  then have inv: "table_inv (wd_continuations w)" by (simp add: waiting_ok_def)
  show ?thesis
    using complete_continuation_result [OF inv run] waiting
    by (intro on_continuations_ready [where f = "complete_continuation token", OF assms run]) (auto simp: waiting_ok_def split: if_splits)
qed

lemma complete_then_ready:
  assumes "world_ready w"
  shows "ready_step w (case on_continuations (complete_continuation token) w of (Err e, w) \<Rightarrow> (Err e, w) | (Panic, w) \<Rightarrow> (Panic, w)
    | (Ok _, w) \<Rightarrow> (Ok x, w))"
  using complete_ready [OF assms, of token]
  by (cases "on_continuations (complete_continuation token) w"; cases "fst (on_continuations (complete_continuation token) w)") auto

lemma allocate_ready:
  assumes "world_ready w" and "waits_on_live (wd_mixtures w) (wd_turfs w) c"
  shows "ready_step w (on_continuations (allocate_continuation c) w)"
proof -
  obtain r k where run: "allocate_continuation c (wd_continuations w) = (r, k)"
    by (cases "allocate_continuation c (wd_continuations w)")
  have waiting: "waiting_ok (wd_mixtures w) (wd_turfs w) (wd_continuations w)" using assms by (simp add: world_ready_def world_inv_def)
  then have inv: "table_inv (wd_continuations w)" by (simp add: waiting_ok_def)
  show ?thesis
  proof (rule on_continuations_ready [where f = "allocate_continuation c", OF assms(1) run])
    note result = allocate_continuation_cases [OF inv run]
    show "r \<noteq> Panic" using result by blast
    show "waiting_ok (wd_mixtures w) (wd_turfs w) k"
      using result waiting assms(2) by (cases r) (auto simp: waiting_ok_def split: if_splits)
  qed
qed

lemma rotate_ready:
  assumes "world_ready w" and "waits_on_live (wd_mixtures w) (wd_turfs w) c"
  shows "ready_step w (on_continuations (rotate_continuation token c) w)"
proof -
  obtain r k where run: "rotate_continuation token c (wd_continuations w) = (r, k)"
    by (cases "rotate_continuation token c (wd_continuations w)")
  have waiting: "waiting_ok (wd_mixtures w) (wd_turfs w) (wd_continuations w)" using assms by (simp add: world_ready_def world_inv_def)
  then have inv: "table_inv (wd_continuations w)" by (simp add: waiting_ok_def)
  note result = rotate_continuation_result [OF inv run]
  show ?thesis
  proof (rule on_continuations_ready [where f = "rotate_continuation token c", OF assms(1) run])
    show "r \<noteq> Panic" using result by blast
    show "waiting_ok (wd_mixtures w) (wd_turfs w) k"
    proof (cases r)
      case (Ok next_token)
      then have "continuation_of k = (continuation_of (wd_continuations w))(token := None, next_token \<mapsto> c)"
        using result [of next_token] by simp
      then show ?thesis using result waiting assms(2) by (auto simp: waiting_ok_def split: if_splits)
    qed (use result waiting in auto)
  qed
qed

section \<open>Storing what a sequence did\<close>

lemma set_mixture_ready:
  assumes ready: "world_ready w" and handle: "require_handle (wd_mixtures w) handle = Ok m"
    and row: "length (mx_gases x) = world_gas_slots"
  shows "world_ready (set_mixture handle x w) \<and> slots_kept w (set_mixture handle x w)"
proof -
  let ?i = "unat (mh_slot handle)" and ?mixtures = "wd_mixtures w"
  let ?s = "(?mixtures ! ?i)\<lparr>ms_mixture := Some x\<rparr>"
  have i: "?i < length ?mixtures" "ms_generation (?mixtures ! ?i) = Some (mh_generation handle)" "ms_mixture (?mixtures ! ?i) = Some m"
    using handle by (simp_all add: require_handle_slot)
  have "projected_slot (?mixtures[?i := ?s]) = projected_slot ?mixtures"
    using i by (simp add: projected_slot_update fun_eq_iff) (simp add: projected_slot_eq occupied_def)
  moreover have occupied: "occupied (?mixtures[?i := ?s]) = occupied ?mixtures"
    using i by (simp add: occupied_update fun_eq_iff) (simp add: occupied_def)
  moreover have "(\<exists>r. require_handle (?mixtures[?i := ?s]) h = Ok r) = (\<exists>r. require_handle ?mixtures h = Ok r)" for h
    using i by (auto simp: require_handle_slot nth_list_update)
  moreover have "mixtures_ok (?mixtures[?i := ?s])"
    using ready i by (intro mixtures_ok_update) (simp_all add: world_ready_def world_inv_def)
  moreover have "gas_rows_ok (?mixtures[?i := ?s])"
    using ready row by (intro gas_rows_ok_update) (simp_all add: world_ready_def)
  ultimately show ?thesis
    using ready by (simp add: world_ready_def world_inv_def set_mixture_def slots_kept_def edges_live_def waiting_ok_def waits_on_live_def)
qed

definition sequence_fits :: "world \<Rightarrow> mixture_handle \<Rightarrow> reaction_sequence \<Rightarrow> bool" where
  "sequence_fits w handle s \<longleftrightarrow> (\<exists>m. require_handle (wd_mixtures w) handle = Ok m \<and> sequence_ok (mx_revision m) s \<and>
     (rs_native_updates s > 0 \<longrightarrow> mx_revision m \<noteq> word_of_nat u32_max))"

lemma finish_sequence_ready:
  assumes "world_ready w" and "sequence_fits w handle s"
  shows "ready_step w (finish_sequence handle s continuation_event w)"
proof -
  obtain m where m: "require_handle (wd_mixtures w) handle = Ok m" "sequence_ok (mx_revision m) s"
    "rs_native_updates s > 0 \<longrightarrow> mx_revision m \<noteq> word_of_nat u32_max"
    using assms(2) by (auto simp: sequence_fits_def)
  have "length (canonicalize_gases (mx_gases (rs_mixture s))) = world_gas_slots"
    using m(2) by (simp add: sequence_ok_def canonicalize_gases_def)
  then have "store_sequence handle s w \<noteq> Panic \<and> (\<forall>w'. store_sequence handle s w = Ok w' \<longrightarrow> world_ready w' \<and> slots_kept w w')"
    using set_mixture_ready [OF assms(1) m(1)] m(1,3) assms(1) by (auto simp: store_sequence_def)
  then show ?thesis
    using assms(1) by (cases "store_sequence handle s w") (auto simp: finish_sequence_def world_ready_events)
qed

lemma evaluate_reaction_sequence_fits:
  assumes "world_ready w"
  shows "evaluate_reaction_sequence clock target handle start flags threshold w \<noteq> Panic"
    and "evaluate_reaction_sequence clock target handle start flags threshold w = Ok s \<Longrightarrow> sequence_fits w handle s"
proof -
  let ?r = "evaluate_reaction_sequence clock target handle start flags threshold w"
  have "?r \<noteq> Panic \<and> (\<forall>s. ?r = Ok s \<longrightarrow> sequence_fits w handle s)"
  proof (cases "wd_gas_registry w = None \<or> wd_reaction_registry w = None \<or> (\<nexists>m. require_handle (wd_mixtures w) handle = Ok m)")
    case True
    then show ?thesis
      by (cases "require_handle (wd_mixtures w) handle") (auto simp: evaluate_reaction_sequence_def split: option.split)
  next
    case False
    then obtain gases reactions m where some: "wd_gas_registry w = Some gases" "wd_reaction_registry w = Some reactions"
      and m: "require_handle (wd_mixtures w) handle = Ok m" by auto
    obtain gs rs where built: "gas_registry_try_new gs = Ok gases" "reaction_registry_try_new rs gases = Ok reactions"
      using assms some unfolding world_ready_def registries_built_def by fastforce
    let ?start = "\<lparr>rs_mixture = m, rs_events = [], rs_pending = None, rs_flags = flags, rs_work_items = 0, rs_native_updates = 0\<rparr>"
    let ?order = "drop (unat start) (enumerate 0 (rr_priority_order reactions))"
    have "gas_rows_ok (wd_mixtures w)" using assms by (simp add: world_ready_def)
    then have ok: "sequence_ok (mx_revision m) ?start"
      using m by (auto simp: sequence_ok_def gas_rows_ok_def require_handle_slot)
    have order: "snd ` set ?order \<subseteq> set (rr_priority_order reactions)"
      using set_drop_subset [of "unat start" "enumerate 0 (rr_priority_order reactions)"]
      by (metis image_mono list.set_map map_snd_enumerate)
    have "sequence_safe (mx_revision m) (run_reactions clock gases reactions target handle threshold ?order ?start)"
      by (rule run_reactions_safe [OF built order ok])
    then show ?thesis
      using some m ok by (auto simp: evaluate_reaction_sequence_def Let_def sequence_safe_def sequence_fits_def)
  qed
  then show "?r \<noteq> Panic" and "?r = Ok s \<Longrightarrow> sequence_fits w handle s" by simp_all
qed

lemma sequence_fits_continuations [simp]: "sequence_fits (w\<lparr>wd_continuations := k\<rparr>) handle s = sequence_fits w handle s"
  by (simp add: sequence_fits_def)

lemma on_continuations_world: "snd (on_continuations f w) = w\<lparr>wd_continuations := snd (f (wd_continuations w))\<rparr>"
  by (simp add: on_continuations_def split: prod.split)

text \<open>A change of the continuations, then the end of the sequence.\<close>

lemma settle_then_finish:
  assumes "ready_step w (on_continuations f w)" and "sequence_fits w handle s"
  shows "ready_step w (case on_continuations f w of (Err e, w) \<Rightarrow> (Err e, w) | (Panic, w) \<Rightarrow> (Panic, w)
    | (Ok x, w) \<Rightarrow> finish_sequence handle s (event x) w)"
proof -
  obtain r w' where run: "on_continuations f w = (r, w')" by (cases "on_continuations f w")
  have w': "w' = w\<lparr>wd_continuations := snd (f (wd_continuations w))\<rparr>" using on_continuations_world [of f w] run by simp
  have "sequence_fits w' handle s" using assms(2) by (simp add: w')
  then show ?thesis
    using assms(1) run by (cases r) (auto intro: ready_step_later [OF finish_sequence_ready])
qed

lemma validate_threshold_neq_Panic [simp]: "validate_reaction_profile_threshold t \<noteq> Panic"
  by (simp add: validate_reaction_profile_threshold_def split: option.split)

lemma require_event_capacity_neq_Panic [simp]: "require_event_capacity w s n \<noteq> Panic"
  by (simp add: require_event_capacity_def Let_def)

lemma react_ready:
  assumes "world_ready w"
  shows "ready_step w (react_mixture_with_event_limit clock mixture target threshold event_limit w)"
proof -
  let ?r = "rbind (validate_reaction_profile_threshold threshold) (\<lambda>_.
           rbind (evaluate_reaction_sequence clock target mixture 0 0 threshold w) (\<lambda>s.
           rbind (require_event_capacity w s event_limit) (\<lambda>_. Ok s)))"
  note evaluate = evaluate_reaction_sequence_fits [OF assms, where target = target and handle = mixture and flags = 0 and start = 0]
  show ?thesis
  proof (cases ?r)
    case (Ok s)
    have fits: "sequence_fits w mixture s" using Ok evaluate(2) by auto
    then have live: "waits_on_live (wd_mixtures w) (wd_turfs w) \<lparr>rc_turf = None, rc_mixture = mixture, rc_target = target,
        rc_next_reaction_index = i, rc_reaction_profile_threshold_ms = threshold\<rparr>" for i
      by (auto simp: waits_on_live_def sequence_fits_def)
    show ?thesis
      unfolding react_mixture_with_event_limit_def Ok
      using finish_sequence_ready [OF assms fits] settle_then_finish [OF allocate_ready [OF assms live] fits]
      by (simp split: option.split)
  qed (use assms evaluate(1) in \<open>auto simp: react_mixture_with_event_limit_def\<close>)
qed

lemma resume_ready:
  assumes "world_ready w"
  shows "ready_step w (resume_reaction clock token reaction_result event_limit w)"
proof -
  let ?c = "if reaction_result AND NOT reaction_flags \<noteq> 0 then Err (InvalidReactionResult reaction_result)
            else rbind (map_err ContinuationFailed (require_continuation token (wd_continuations w))) (\<lambda>c.
              rbind (require_handle (wd_mixtures w) (rc_mixture c)) (\<lambda>_.
              rbind (case rc_turf c of None \<Rightarrow> Ok ()
                     | Some turf_handle \<Rightarrow> rbind (require_turf (wd_turfs w) turf_handle) (\<lambda>turf.
                         if tr_mixture turf \<noteq> Some (rc_mixture c) then Err (TurfMissingMixture turf_handle) else Ok ())) (\<lambda>_.
              Ok c)))"
  show ?thesis
  proof (cases ?c)
    case (Ok c)
    let ?s = "rbind (evaluate_reaction_sequence clock (rc_target c) (rc_mixture c) (rc_next_reaction_index c)
                    reaction_result (rc_reaction_profile_threshold_ms c) w) (\<lambda>s.
                  rbind (require_event_capacity w s event_limit) (\<lambda>_. Ok s))"
    note evaluate = evaluate_reaction_sequence_fits [OF assms, where target = "rc_target c" and handle = "rc_mixture c"
        and flags = reaction_result and start = "rc_next_reaction_index c"]
    have "continuation_of (wd_continuations w) token = Some c" using Ok by (auto split: if_splits)
    then have "waits_on_live (wd_mixtures w) (wd_turfs w) c"
      using assms by (auto simp: world_ready_def world_inv_def waiting_ok_def)
    then have live: "waits_on_live (wd_mixtures w) (wd_turfs w) (c\<lparr>rc_next_reaction_index := i\<rparr>)" for i
      by (simp add: waits_on_live_def)
    note stop = complete_then_ready [OF assms]
    show ?thesis
    proof (cases ?s)
      case s: (Ok s)
      have fits: "sequence_fits w (rc_mixture c) s" using s evaluate(2) by auto
      show ?thesis
      proof (cases "rs_pending s")
        case None
        then show ?thesis
          unfolding resume_reaction_def Ok result.case s
          using settle_then_finish [OF complete_ready [OF assms] fits, where event = "\<lambda>_. []"] by (simp add: stop)
      next
        case (Some pending)
        then show ?thesis
          unfolding resume_reaction_def Ok result.case s
          using settle_then_finish [OF rotate_ready [OF assms live] fits,
            where event = "\<lambda>t. [RunDmReaction (rc_turf c) (rc_mixture c) (rc_target c) (pd_reaction pending) t]"] by (simp add: stop)
      qed
    next
      case (Err e)
      show ?thesis
        unfolding resume_reaction_def Ok result.case Err using assms by (simp add: stop)
    qed (use evaluate(1) in auto)
  next
    case Panic
    then show ?thesis by (auto split: if_splits option.splits)
  qed (use assms in \<open>auto simp: resume_reaction_def\<close>)
qed

section \<open>What a request leaves\<close>

text \<open>At most the record of one mixture has changed, by one revision, and the events are those from before and more.\<close>

definition published :: "mixture_handle \<Rightarrow> u32 \<Rightarrow> world \<Rightarrow> world \<Rightarrow> bool" where
  "published handle capacity w w' \<longleftrightarrow>
     take (length (wd_events w)) (wd_events w') = wd_events w \<and> length (wd_events w') \<le> max (length (wd_events w)) (unat capacity) \<and>
     w' = w\<lparr>wd_mixtures := wd_mixtures w', wd_continuations := wd_continuations w', wd_events := wd_events w'\<rparr> \<and>
     length (wd_mixtures w') = length (wd_mixtures w) \<and>
     (\<forall>i. i \<noteq> unat (mh_slot handle) \<longrightarrow> wd_mixtures w' ! i = wd_mixtures w ! i) \<and>
     (\<exists>m m'. require_handle (wd_mixtures w) handle = Ok m \<and> require_handle (wd_mixtures w') handle = Ok m' \<and>
        (m' = m \<or> mx_revision m < mx_revision m' \<and> mx_revision m' = mx_revision m + 1 \<and> \<not> mx_immutable m))"

definition events_fit :: "world \<Rightarrow> reaction_sequence \<Rightarrow> u32 \<Rightarrow> bool" where
  "events_fit w s limit \<longleftrightarrow> require_event_capacity w s limit = Ok ()"

lemma revision_successor: "(r :: u32) \<noteq> word_of_nat u32_max \<Longrightarrow> r < r + 1"
  using checked_add_one_None [of r] checked_add_less [of r 1 "r + 1"]
  by (cases "checked_add r 1") (auto simp: u32_max_def checked_add_def split: if_splits)

lemma mutable_sequence:
  assumes "evaluate_reaction_sequence clock target handle start flags threshold w = Ok s"
    and "require_handle (wd_mixtures w) handle = Ok m" and "mx_immutable m"
  shows "rs_native_updates s = 0"
  using assms by (auto simp: evaluate_reaction_sequence_def Let_def)

lemma finish_sequence_published:
  assumes "world_ready w0" and w: "w = w0\<lparr>wd_continuations := k\<rparr>"
    and evaluate: "evaluate_reaction_sequence clock target handle start flags threshold w0 = Ok s"
    and room: "events_fit w0 s limit" and extra: "length extra = (if rs_pending s = None then 0 else 1)"
    and run: "finish_sequence handle s extra w = (r, w')"
  shows "r = Ok \<lparr>rp_flags = rs_flags s, rp_work_items = rs_work_items s, rp_pending = rs_pending s \<noteq> None\<rparr> \<and>
    published handle (min (wd_max_events w0) limit) w0 w' \<and> wd_continuations w' = k \<and>
    wd_events w' = wd_events w0 @ rs_events s @ extra"
proof -
  obtain m where m: "require_handle (wd_mixtures w0) handle = Ok m" "rs_native_updates s > 0 \<longrightarrow> mx_revision m \<noteq> word_of_nat u32_max"
    using evaluate_reaction_sequence_fits(2) [OF assms(1) evaluate] by (auto simp: sequence_fits_def)
  have slot: "unat (mh_slot handle) < length (wd_mixtures w0)" using m(1) by (simp add: require_handle_slot)
  have fits: "length (wd_events w0 @ rs_events s @ extra) \<le> unat (min (wd_max_events w0) limit)"
    using room extra by (auto simp: events_fit_def require_event_capacity_def Let_def split: if_splits)
  have some: "(extra \<noteq> []) = (rs_pending s \<noteq> None)" using extra by (auto split: if_splits)
  show ?thesis
  proof (cases "rs_native_updates s > 0")
    case True
    then have mutable: "\<not> mx_immutable m" using mutable_sequence [OF evaluate m(1)] by auto
    show ?thesis
      using run True m slot fits mutable revision_successor [of "mx_revision m"]
      by (auto simp: finish_sequence_def store_sequence_def w published_def set_mixture_def require_handle_slot some)
  next
    case False
    then show ?thesis
      using run m slot fits by (auto simp: finish_sequence_def store_sequence_def w published_def some)
  qed
qed

definition waiting_reaction :: "mixture_handle \<Rightarrow> gameplay_handle \<Rightarrow> turf_handle option \<Rightarrow> f32 option \<Rightarrow> u32 \<Rightarrow> reaction_continuation" where
  "waiting_reaction mixture target turf threshold index = \<lparr>rc_turf = turf, rc_mixture = mixture, rc_target = target,
     rc_next_reaction_index = index, rc_reaction_profile_threshold_ms = threshold\<rparr>"

text \<open>The last event asks the game for a reaction under a token that is new and waits from now on.\<close>

definition asks_game :: "reaction_continuation \<Rightarrow> (continuation_token \<rightharpoonup> reaction_continuation) \<Rightarrow> world \<Rightarrow> bool" where
  "asks_game c waiting w' \<longleftrightarrow> (\<exists>token reaction index. wd_events w' \<noteq> [] \<and>
     last (wd_events w') = RunDmReaction (rc_turf c) (rc_mixture c) (rc_target c) reaction token \<and> waiting token = None \<and>
     continuation_of (wd_continuations w') = waiting(token \<mapsto> c\<lparr>rc_next_reaction_index := index\<rparr>))"

lemma asked_published:
  assumes ready: "world_ready w"
    and evaluate: "evaluate_reaction_sequence clock (rc_target c) (rc_mixture c) start flags threshold w = Ok s"
    and room: "events_fit w s limit" and pending: "rs_pending s = Some pending"
    and run: "finish_sequence (rc_mixture c) s [RunDmReaction (rc_turf c) (rc_mixture c) (rc_target c) reaction token]
      (w\<lparr>wd_continuations := k\<rparr>) = (r, w')"
    and waits: "waiting token = None" "continuation_of k = waiting(token \<mapsto> c\<lparr>rc_next_reaction_index := index\<rparr>)"
  shows "\<exists>p. r = Ok p \<and> rp_pending p \<and> published (rc_mixture c) (min (wd_max_events w) limit) w w' \<and> asks_game c waiting w'"
proof -
  have "r = Ok \<lparr>rp_flags = rs_flags s, rp_work_items = rs_work_items s, rp_pending = True\<rparr>"
    "published (rc_mixture c) (min (wd_max_events w) limit) w w'" "wd_continuations w' = k"
    "wd_events w' = wd_events w @ rs_events s @ [RunDmReaction (rc_turf c) (rc_mixture c) (rc_target c) reaction token]"
    using finish_sequence_published [OF ready refl evaluate room _ run] pending by simp_all
  moreover have "asks_game c waiting w'" using calculation(3,4) waits by (auto simp: asks_game_def)
  ultimately show ?thesis by simp
qed

lemma react_result:
  assumes ready: "world_ready w"
    and run: "react_mixture_with_event_limit clock mixture target threshold limit w = (r, w')"
  shows "case r of
      Ok p \<Rightarrow> published mixture (min (wd_max_events w) limit) w w' \<and>
        (if rp_pending p then asks_game (waiting_reaction mixture target None threshold 0) (continuation_of (wd_continuations w)) w'
         else wd_continuations w' = wd_continuations w)
    | Err e \<Rightarrow> w' = w\<lparr>wd_continuations := wd_continuations w'\<rparr> \<and>
        continuation_of (wd_continuations w') = continuation_of (wd_continuations w)
    | Panic \<Rightarrow> False"
proof -
  let ?r = "rbind (validate_reaction_profile_threshold threshold) (\<lambda>_.
           rbind (evaluate_reaction_sequence clock target mixture 0 0 threshold w) (\<lambda>s.
           rbind (require_event_capacity w s limit) (\<lambda>_. Ok s)))"
  have inv: "table_inv (wd_continuations w)" using ready by (simp add: world_ready_def world_inv_def waiting_ok_def)
  have same: "w = w\<lparr>wd_continuations := wd_continuations w\<rparr>" by simp
  have "r \<noteq> Panic" using react_ready [OF ready, of clock mixture target threshold limit] run by auto
  show ?thesis
  proof (cases ?r)
    case (Ok s)
    then have evaluate: "evaluate_reaction_sequence clock target mixture 0 0 threshold w = Ok s" and room: "events_fit w s limit"
      by (auto simp: events_fit_def)
    note finish = finish_sequence_published [OF ready _ evaluate room]
    show ?thesis
    proof (cases "rs_pending s")
      case None
      then have "finish_sequence mixture s [] w = (r, w')"
        using run unfolding react_mixture_with_event_limit_def Ok by simp
      from finish [OF same _ this] show ?thesis using None by simp
    next
      case (Some pending)
      let ?c = "waiting_reaction mixture target None threshold (pd_next_reaction_index pending)"
      obtain a k where alloc: "allocate_continuation ?c (wd_continuations w) = (a, k)"
        by (cases "allocate_continuation ?c (wd_continuations w)")
      note allocated = allocate_continuation_cases [OF inv alloc]
      have run': "(case on_continuations (allocate_continuation ?c) w of (Err e, w) \<Rightarrow> (Err e, w) | (Panic, w) \<Rightarrow> (Panic, w)
          | (Ok token, w) \<Rightarrow> finish_sequence mixture s [RunDmReaction None mixture target (pd_reaction pending) token] w) = (r, w')"
        using run Some unfolding react_mixture_with_event_limit_def Ok by (simp add: waiting_reaction_def)
      show ?thesis
      proof (cases a)
        case token: (Ok token)
        let ?waiting = "waiting_reaction mixture target None threshold 0"
        have fields: "rc_mixture ?waiting = mixture" "rc_target ?waiting = target" "rc_turf ?waiting = None"
          "?c = ?waiting\<lparr>rc_next_reaction_index := pd_next_reaction_index pending\<rparr>"
          by (simp_all add: waiting_reaction_def)
        have "finish_sequence mixture s [RunDmReaction None mixture target (pd_reaction pending) token]
            (w\<lparr>wd_continuations := k\<rparr>) = (r, w')"
          using run' by (simp add: on_continuations_def alloc token)
        note asked = asked_published [of w clock ?waiting, unfolded fields(1-3), OF ready evaluate room Some this]
        have "continuation_of (wd_continuations w) token = None"
          "continuation_of k = (continuation_of (wd_continuations w))(token \<mapsto>
             ?waiting\<lparr>rc_next_reaction_index := pd_next_reaction_index pending\<rparr>)"
          using allocated token by (simp_all add: fields(4))
        from asked [OF this] show ?thesis by auto
      qed (use run' allocated in \<open>auto simp: on_continuations_def alloc\<close>)
    qed
  qed (use run \<open>r \<noteq> Panic\<close> in \<open>auto simp: react_mixture_with_event_limit_def\<close>)
qed

lemma published_refl:
  "require_handle (wd_mixtures w) handle = Ok m \<Longrightarrow> published handle capacity w (w\<lparr>wd_continuations := k\<rparr>)"
  by (auto simp: published_def)

lemma resume_result:
  assumes ready: "world_ready w"
    and run: "resume_reaction clock token answer limit w = (r, w')"
  shows "case r of
      Ok p \<Rightarrow> (\<exists>c. continuation_of (wd_continuations w) token = Some c \<and>
        published (rc_mixture c) (min (wd_max_events w) limit) w w' \<and>
        (if rp_pending p then asks_game c ((continuation_of (wd_continuations w))(token := None)) w'
         else continuation_of (wd_continuations w') = (continuation_of (wd_continuations w))(token := None)))
    | Err e \<Rightarrow> w' = w
    | Panic \<Rightarrow> False"
proof -
  let ?c = "if answer AND NOT reaction_flags \<noteq> 0 then Err (InvalidReactionResult answer)
            else rbind (map_err ContinuationFailed (require_continuation token (wd_continuations w))) (\<lambda>c.
              rbind (require_handle (wd_mixtures w) (rc_mixture c)) (\<lambda>_.
              rbind (case rc_turf c of None \<Rightarrow> Ok ()
                     | Some turf_handle \<Rightarrow> rbind (require_turf (wd_turfs w) turf_handle) (\<lambda>turf.
                         if tr_mixture turf \<noteq> Some (rc_mixture c) then Err (TurfMissingMixture turf_handle) else Ok ())) (\<lambda>_.
              Ok c)))"
  have inv: "table_inv (wd_continuations w)" using ready by (simp add: world_ready_def world_inv_def waiting_ok_def)
  have "r \<noteq> Panic" using resume_ready [OF ready, of clock token answer limit] run by auto
  obtain b k where complete: "complete_continuation token (wd_continuations w) = (b, k)"
    by (cases "complete_continuation token (wd_continuations w)")
  note completed = complete_continuation_result [OF inv complete]
  show ?thesis
  proof (cases ?c)
    case (Ok c)
    have c: "continuation_of (wd_continuations w) token = Some c" using Ok by (auto split: if_splits)
    obtain m where m: "require_handle (wd_mixtures w) (rc_mixture c) = Ok m" using Ok by (auto split: if_splits)
    have b: "b = Ok ()" using completed c by simp
    let ?s = "rbind (evaluate_reaction_sequence clock (rc_target c) (rc_mixture c) (rc_next_reaction_index c)
                    answer (rc_reaction_profile_threshold_ms c) w) (\<lambda>s. rbind (require_event_capacity w s limit) (\<lambda>_. Ok s))"
    note resumed = run [unfolded resume_reaction_def Ok result.case]
    show ?thesis
    proof (cases "answer AND reaction_stop \<noteq> 0")
      case True
      then have "r = Ok \<lparr>rp_flags = answer, rp_work_items = 0, rp_pending = False\<rparr>" "w' = w\<lparr>wd_continuations := k\<rparr>"
        using resumed by (simp_all add: on_continuations_def complete b)
      then show ?thesis using c completed published_refl [OF m] by simp
    next
      case False
      note continued = resumed [unfolded if_not_P [OF False]]
      show ?thesis
      proof (cases ?s)
        case s: (Ok s)
        then have evaluate: "evaluate_reaction_sequence clock (rc_target c) (rc_mixture c) (rc_next_reaction_index c) answer
            (rc_reaction_profile_threshold_ms c) w = Ok s" and room: "events_fit w s limit"
          by (auto simp: events_fit_def)
        note finish = finish_sequence_published [OF ready refl evaluate room]
        note settled = continued [unfolded s result.case]
        show ?thesis
        proof (cases "rs_pending s")
          case None
          then have "finish_sequence (rc_mixture c) s [] (w\<lparr>wd_continuations := k\<rparr>) = (r, w')"
            using settled by (simp add: on_continuations_def complete b)
          from finish [OF _ this] show ?thesis using None c completed by simp
        next
          case (Some pending)
          let ?next = "c\<lparr>rc_next_reaction_index := pd_next_reaction_index pending\<rparr>"
          obtain a k' where rotate: "rotate_continuation token ?next (wd_continuations w) = (a, k')"
            by (cases "rotate_continuation token ?next (wd_continuations w)")
          note rotated = rotate_continuation_result [OF inv rotate]
          show ?thesis
          proof (cases a)
            case (Ok new_token)
            let ?event = "RunDmReaction (rc_turf c) (rc_mixture c) (rc_target c) (pd_reaction pending) new_token"
            have "finish_sequence (rc_mixture c) s [?event] (w\<lparr>wd_continuations := k'\<rparr>) = (r, w')"
              using settled Some by (simp add: on_continuations_def rotate Ok)
            note asked = asked_published [OF ready evaluate room Some this]
            have "((continuation_of (wd_continuations w))(token := None)) new_token = None"
              "continuation_of k' = (continuation_of (wd_continuations w))(token := None, new_token \<mapsto> ?next)"
              using rotated [of new_token] Ok by simp_all
            from asked [OF this] show ?thesis using c by auto
          qed (use settled Some rotated in \<open>auto simp: on_continuations_def rotate\<close>)
        qed
      qed (use continued \<open>r \<noteq> Panic\<close> in auto)
    qed
  qed (use run \<open>r \<noteq> Panic\<close> in \<open>auto simp: resume_reaction_def\<close>)
qed

end
