(* ===== verification/Float64.thy ===== *)
theory Float64
  imports Float32
begin

text \<open>
  Double precision where the program widens single-precision numbers, computes and narrows the result. A number is
  its sign, which counts for zero only, and its value, rounded to 53 bits after every operation; sums and products
  of widened numbers are far from the largest double, so no operation here overflows.
\<close>

datatype f64 = Wide bool rat | WideInfinity bool | WideNan

text \<open>The value is rounded to 53 bits, the quantum of the smallest numbers being \<open>2 ^ -1074\<close>.\<close>

definition wide_exponent :: "rat \<Rightarrow> nat" where
  "wide_exponent q = (case find (\<lambda>e. q < 2 ^ e / 2 ^ 1074) [53..<2098] of Some e \<Rightarrow> e | None \<Rightarrow> 2098)"

definition wide_round :: "rat \<Rightarrow> rat" where
  "wide_round q = (let e = wide_exponent \<bar>q\<bar>
     in sgn q * of_int (round_even (\<bar>q\<bar> * 2 ^ 1127 / 2 ^ e)) * 2 ^ e / 2 ^ 1127)"

definition widen :: "f32 \<Rightarrow> f64" where
  "widen x = (if f32_is_nan x then WideNan
     else if \<not> f32_is_finite x then WideInfinity (f32_negative x) else Wide (f32_negative x) (f32_value x))"

text \<open>\<open>as f32\<close>: to the nearest single-precision number.\<close>

definition narrow :: "f64 \<Rightarrow> f32" where
  "narrow x = (case x of Wide negative q \<Rightarrow> f32_round negative q
     | WideInfinity negative \<Rightarrow> f32_infinity negative | WideNan \<Rightarrow> f32_nan)"

fun f64_add :: "f64 \<Rightarrow> f64 \<Rightarrow> f64" where
  "f64_add WideNan y = WideNan"
| "f64_add x WideNan = WideNan"
| "f64_add (WideInfinity a) (WideInfinity b) = (if a = b then WideInfinity a else WideNan)"
| "f64_add (WideInfinity a) (Wide _ _) = WideInfinity a"
| "f64_add (Wide _ _) (WideInfinity b) = WideInfinity b"
| "f64_add (Wide a p) (Wide b q) = (let r = wide_round (p + q) in Wide (r < 0 \<or> r = 0 \<and> a \<and> b) r)"

fun f64_mul :: "f64 \<Rightarrow> f64 \<Rightarrow> f64" where
  "f64_mul WideNan y = WideNan"
| "f64_mul x WideNan = WideNan"
| "f64_mul (WideInfinity a) (WideInfinity b) = WideInfinity (a \<noteq> b)"
| "f64_mul (WideInfinity a) (Wide b q) = (if q = 0 then WideNan else WideInfinity (a \<noteq> b))"
| "f64_mul (Wide a p) (WideInfinity b) = (if p = 0 then WideNan else WideInfinity (a \<noteq> b))"
| "f64_mul (Wide a p) (Wide b q) = Wide (a \<noteq> b) (wide_round (p * q))"

fun f64_less :: "f64 \<Rightarrow> f64 \<Rightarrow> bool" where
  "f64_less WideNan y = False"
| "f64_less x WideNan = False"
| "f64_less (WideInfinity a) (WideInfinity b) = (a \<and> \<not> b)"
| "f64_less (WideInfinity a) (Wide _ _) = a"
| "f64_less (Wide _ _) (WideInfinity b) = (\<not> b)"
| "f64_less (Wide _ p) (Wide _ q) = (p < q)"

definition f64_max :: "f64 \<Rightarrow> f64 \<Rightarrow> f64" where
  "f64_max x y = (if x = WideNan then y else if f64_less x y then y else x)"

definition f64_min :: "f64 \<Rightarrow> f64 \<Rightarrow> f64" where
  "f64_min x y = (if x = WideNan then y else if f64_less y x then y else x)"

definition f64_clamp :: "f64 \<Rightarrow> f64 \<Rightarrow> f64 \<Rightarrow> f64" where
  "f64_clamp x low high = (let x = if f64_less x low then low else x in if f64_less high x then high else x)"

definition wide_zero :: f64 where "wide_zero = Wide False 0"

text \<open>\<open>f64::from(f32::MAX)\<close>.\<close>

definition wide_f32_max :: f64 where "wide_f32_max = widen 0x7F7FFFFF"

section \<open>Ranges\<close>

text \<open>A sum or product that is capped at the largest single-precision number is narrowed to a finite one.\<close>

definition f32_amount :: "f32 \<Rightarrow> bool" where
  "f32_amount x \<longleftrightarrow> f32_is_finite x \<and> \<not> f32_less x 0"

end
