(* ===== verification/World_Commands.thy ===== *)
theory World_Commands
  imports World_Sequences Float64
begin

text \<open>
  The commands on mixtures (\<^verbatim>\<open>DogmosWorld::apply_command\<close> and its helpers in \<^verbatim>\<open>crates/dogmos-core/src/world.rs\<close>)
  and the batches that replace mixture records (\<^verbatim>\<open>apply_mixture_state\<close>, \<^verbatim>\<open>reconcile_pipenet\<close>).

  The array of gases is a list of 32 amounts. A command that fails is given back the world as it was left.
\<close>

section \<open>Constants\<close>

text \<open>2.7 K, 0.01032637 moles, 8.31, 0.5 K, the largest finite number, 1, 0.5 and 4.\<close>

definition minimum_temperature :: f32 where "minimum_temperature = 0x402CCCCD"

definition minimum_moles_delta_to_move :: f32 where "minimum_moles_delta_to_move = 0x3C292FEF"

definition ideal_gas_constant :: f32 where "ideal_gas_constant = 0x4104F5C3"

definition minimum_temperature_delta_to_consider :: f32 where "minimum_temperature_delta_to_consider = 0x3F000000"

definition f32_one :: f32 where "f32_one = 0x3F800000"

definition f32_half :: f32 where "f32_half = 0x3F000000"

definition f32_four :: f32 where "f32_four = 0x40800000"

section \<open>Numbers\<close>

definition f32_is_normal :: "f32 \<Rightarrow> bool" where
  "f32_is_normal x \<longleftrightarrow> f32_is_finite x \<and> x AND 0x7F800000 \<noteq> 0"

definition f32_clamp :: "f32 \<Rightarrow> f32 \<Rightarrow> f32 \<Rightarrow> f32" where
  "f32_clamp x low high = (let x = if f32_less x low then low else x in if f32_less high x then high else x)"

text \<open>\<open>min(f64::from(f32::MAX)) as f32\<close> of a sum and of a product in double precision.\<close>

definition capped_sum :: "f32 \<Rightarrow> f32 \<Rightarrow> f32" where
  "capped_sum x y = narrow (f64_min (f64_add (widen x) (widen y)) wide_f32_max)"

definition capped_product :: "f32 \<Rightarrow> f32 \<Rightarrow> f32" where
  "capped_product x y = narrow (f64_min (f64_mul (widen x) (widen y)) wide_f32_max)"

definition flush_trace :: "f32 \<Rightarrow> f32" where
  "flush_trace amount = (if f32_less amount minimum_calculated_moles then 0 else amount)"

definition same_amounts :: "f32 list \<Rightarrow> f32 list \<Rightarrow> bool" where
  "same_amounts xs ys = list_all2 f32_eq xs ys"

definition quantize_moles :: "f32 \<Rightarrow> f32" where
  "quantize_moles amount = f32_mul (f32_to_integer (f32_div amount molar_accuracy)) molar_accuracy"

definition quantized_removal :: "f32 \<Rightarrow> f32 \<Rightarrow> f32" where
  "quantized_removal amount ratio = f32_min (quantize_moles (f32_mul amount ratio)) amount"

section \<open>Records\<close>

text \<open>A sum of floating-point numbers starts from the negative zero.\<close>

definition total_moles :: "mixture_record \<Rightarrow> f32" where
  "total_moles m = fold (\<lambda>amount total. f32_add total amount) (mx_gases m) 0x80000000"

definition mixture_pressure :: "mixture_record \<Rightarrow> f32" where
  "mixture_pressure m = (if f32_less_eq (mx_volume m) 0 then 0
     else f32_div (f32_mul (f32_mul (total_moles m) ideal_gas_constant) (mx_temperature m)) (mx_volume m))"

definition gases_heat_capacity :: "f32 list \<Rightarrow> f32 list \<Rightarrow> f32" where
  "gases_heat_capacity gases specific_heats =
     fold (\<lambda>(amount, specific_heat) capacity. f32_mul_add specific_heat amount capacity) (zip gases specific_heats) 0"

definition record_heat_capacity :: "mixture_record \<Rightarrow> f32 list \<Rightarrow> f32" where
  "record_heat_capacity m specific_heats = f32_max (gases_heat_capacity (mx_gases m) specific_heats) (mx_minimum_heat_capacity m)"

definition harmonic_heat_capacity :: "f32 \<Rightarrow> f32 \<Rightarrow> f32" where
  "harmonic_heat_capacity first second =
     (let (smaller, larger) = if f32_less first second then (first, second) else (second, first)
      in f32_div smaller (f32_add f32_one (f32_div smaller larger)))"

definition copy_record :: "mixture_record \<Rightarrow> mixture_record \<Rightarrow> mixture_record" where
  "copy_record receiver giver = (if mx_immutable receiver then receiver
     else receiver\<lparr>mx_gases := mx_gases giver, mx_temperature := mx_temperature giver\<rparr>)"

definition scale_record :: "f32 \<Rightarrow> mixture_record \<Rightarrow> mixture_record" where
  "scale_record factor m = (if mx_immutable m \<or> \<not> f32_is_finite factor \<or> f32_less factor 0 then m
     else m\<lparr>mx_gases := map (\<lambda>amount. let scaled = capped_product amount factor
         in if f32_less_eq scaled molar_accuracy then 0 else scaled) (mx_gases m)\<rparr>)"

text \<open>The temperature of two bodies put together.\<close>

definition mixed_temperature :: "f32 \<Rightarrow> f32 \<Rightarrow> f32 \<Rightarrow> f32 \<Rightarrow> f32 \<Rightarrow> f32" where
  "mixed_temperature capacity temperature added_capacity added_temperature combined =
     f32_div (f32_add (f32_mul capacity temperature) (f32_mul added_capacity added_temperature)) combined"

definition merge_record :: "f32 list \<Rightarrow> mixture_record \<Rightarrow> mixture_record \<Rightarrow> mixture_record" where
  "merge_record specific_heats receiver giver =
     (if mx_immutable receiver then receiver
      else let receiver_capacity = record_heat_capacity receiver specific_heats;
          giver_capacity = record_heat_capacity giver specific_heats;
          combined = f32_add receiver_capacity giver_capacity
        in receiver\<lparr>mx_gases := map2 capped_sum (mx_gases receiver) (mx_gases giver),
          mx_temperature := (if f32_less minimum_heat_capacity_value combined
            then mixed_temperature receiver_capacity (mx_temperature receiver) giver_capacity (mx_temperature giver) combined
            else mx_temperature receiver)\<rparr>)"

text \<open>The source and the destination afterwards.\<close>

definition remove_ratio_into_record :: "mixture_record \<Rightarrow> mixture_record \<Rightarrow> f32 \<Rightarrow> mixture_record \<times> mixture_record" where
  "remove_ratio_into_record source destination ratio =
     (if \<not> f32_is_finite ratio \<or> f32_less_eq ratio 0 \<or> mx_immutable destination then (source, destination)
      else let ratio = f32_min ratio f32_one; destination = copy_record destination source
        in if mx_immutable source
           then (source, destination\<lparr>mx_gases := map (\<lambda>amount. quantize_moles (f32_mul amount ratio)) (mx_gases destination)\<rparr>)
           else let removed = map (\<lambda>amount. quantized_removal amount ratio) (mx_gases source)
             in (source\<lparr>mx_gases := map2 f32_sub (mx_gases source) removed\<rparr>, destination\<lparr>mx_gases := removed\<rparr>))"

definition remove_ratio_record :: "mixture_record \<Rightarrow> f32 \<Rightarrow> mixture_record \<times> mixture_record" where
  "remove_ratio_record source ratio = remove_ratio_into_record source mixture_record_new ratio"

definition mixture_thermodynamics_differ :: "mixture_record \<Rightarrow> mixture_record \<Rightarrow> bool" where
  "mixture_thermodynamics_differ left right \<longleftrightarrow>
     \<not> f32_eq (mx_temperature left) (mx_temperature right) \<or> \<not> same_amounts (mx_gases left) (mx_gases right)"

definition mixtures_require_processing :: "mixture_record \<Rightarrow> mixture_record \<Rightarrow> bool" where
  "mixtures_require_processing left right \<longleftrightarrow>
     f32_less f32_four (f32_abs (f32_sub (mx_temperature left) (mx_temperature right))) \<and>
       f32_less minimum_moles_delta_to_move (total_moles left) \<or>
     list_ex (\<lambda>(l, r). f32_less_eq minimum_moles_delta_to_move (f32_abs (f32_sub l r))) (zip (mx_gases left) (mx_gases right))"

section \<open>Changing records\<close>

text \<open>The body of a mutation gives back whether it changed the record.\<close>

definition mutate_mixture ::
  "mixture_handle \<Rightarrow> (mixture_record \<Rightarrow> bool \<times> mixture_record) \<Rightarrow> world \<Rightarrow> (bool, world_error) result \<times> world" where
  "mutate_mixture handle mutation w =
     (case require_handle (wd_mixtures w) handle of
        Err e \<Rightarrow> (Err e, w) | Panic \<Rightarrow> (Panic, w)
      | Ok mixture \<Rightarrow>
          if mx_revision mixture = word_of_nat u32_max then (Err (RevisionExhausted handle), w)
          else case mutation mixture of (changed, updated) \<Rightarrow>
            (Ok changed, set_mixture handle (if changed
              then updated\<lparr>mx_gases := canonicalize_gases (mx_gases updated), mx_revision := mx_revision updated + 1\<rparr>
              else updated) w))"

definition world_gas_index :: "world \<Rightarrow> gas_id \<Rightarrow> (nat, world_error) result" where
  "world_gas_index w gas =
     rbind (ok_or (wd_gas_registry w) GasRegistryMissing) (\<lambda>registry.
     if gas_by_id registry gas = None then Err (InvalidGasId gas) else Ok (unat (gas_number gas)))"

definition world_heat_capacity :: "world \<Rightarrow> mixture_record \<Rightarrow> (f32, world_error) result" where
  "world_heat_capacity w m =
     rbind (ok_or (wd_gas_registry w) GasRegistryMissing) (\<lambda>registry. Ok (record_heat_capacity m (gr_specific_heats registry)))"

text \<open>An element of an array; the code panics outside.\<close>

definition element :: "'a list \<Rightarrow> nat \<Rightarrow> ('a, world_error) result" where
  "element xs i = (case vec_get xs i of Some x \<Rightarrow> Ok x | None \<Rightarrow> Panic)"

definition specific_heat_at :: "world \<Rightarrow> nat \<Rightarrow> (f32, world_error) result" where
  "specific_heat_at w i = (case wd_gas_registry w of None \<Rightarrow> Panic | Some registry \<Rightarrow> element (gr_specific_heats registry) i)"

text \<open>One more than a revision, which the callers have checked.\<close>

definition next_revision :: "mixture_record \<Rightarrow> (mixture_record, world_error) result" where
  "next_revision m = (if mx_revision m = word_of_nat u32_max then Panic else Ok (m\<lparr>mx_revision := mx_revision m + 1\<rparr>))"

text \<open>Two records are stored; both handles are current and name different slots.\<close>

definition store_pair ::
  "mixture_handle \<Rightarrow> mixture_handle \<Rightarrow> (mixture_record, world_error) result \<Rightarrow> (mixture_record, world_error) result \<Rightarrow>
   'a \<Rightarrow> world \<Rightarrow> ('a, world_error) result \<times> world" where
  "store_pair first second first_record second_record answer w =
     (case rbind (require_handle (wd_mixtures w) first) (\<lambda>_.
           rbind (require_handle (wd_mixtures w) second) (\<lambda>_.
           if mh_slot first = mh_slot second then Err (SameMixtureHandles first)
           else rbind first_record (\<lambda>f. rbind second_record (\<lambda>s. Ok (f, s))))) of
        Ok (f, s) \<Rightarrow> (Ok answer, set_mixture second s (set_mixture first f w))
      | Err e \<Rightarrow> (Err e, w) | Panic \<Rightarrow> (Panic, w))"

text \<open>What is computed without a change and then handed to a change.\<close>

definition with_value :: "('a, 'e) result \<Rightarrow> ('a \<Rightarrow> 's \<Rightarrow> ('b, 'e) result \<times> 's) \<Rightarrow> 's \<Rightarrow> ('b, 'e) result \<times> 's" where
  "with_value x f s = (case x of Ok y \<Rightarrow> f y s | Err e \<Rightarrow> (Err e, s) | Panic \<Rightarrow> (Panic, s))"

text \<open>A success is answered otherwise.\<close>

definition answering :: "('a \<Rightarrow> 'b) \<Rightarrow> ('a, 'e) result \<times> 's \<Rightarrow> ('b, 'e) result \<times> 's" where
  "answering f m = (case m of (Ok x, s) \<Rightarrow> (Ok (f x), s) | (Err e, s) \<Rightarrow> (Err e, s) | (Panic, s) \<Rightarrow> (Panic, s))"

section \<open>Two mixtures\<close>

definition merge_mixtures :: "mixture_handle \<Rightarrow> mixture_handle \<Rightarrow> world \<Rightarrow> (unit, world_error) result \<times> world" where
  "merge_mixtures receiver giver w =
     (if receiver = giver then (Err (SameMixtureHandles receiver), w)
      else with_value (require_handle (wd_mixtures w) receiver) (\<lambda>before.
           with_value (require_handle (wd_mixtures w) giver) (\<lambda>given w.
        if mx_immutable before then (Ok (), w)
        else with_value (world_heat_capacity w before) (\<lambda>receiver_capacity.
             with_value (world_heat_capacity w given) (\<lambda>giver_capacity w.
               answering (\<lambda>_. ()) (mutate_mixture receiver (\<lambda>m.
                 let combined = f32_add receiver_capacity giver_capacity
                 in (True, m\<lparr>mx_gases := map2 capped_sum (mx_gases m) (mx_gases given),
                    mx_temperature := (if f32_less minimum_heat_capacity_value combined
                      then mixed_temperature receiver_capacity (mx_temperature before) giver_capacity (mx_temperature given) combined
                      else mx_temperature m)\<rparr>)) w))) w)) w)"

text \<open>The checks that moving a share of the gases begins with: the clamped share and both records.\<close>

definition share_of_two ::
  "mixture_handle \<Rightarrow> mixture_handle \<Rightarrow> f32 \<Rightarrow> world \<Rightarrow> (f32 \<times> mixture_record \<times> mixture_record, world_error) result" where
  "share_of_two source destination ratio w =
     rbind (require_handle (wd_mixtures w) source) (\<lambda>s.
     rbind (require_handle (wd_mixtures w) destination) (\<lambda>d. Ok (f32_clamp ratio 0 f32_one, s, d)))"

definition check_share :: "mixture_handle \<Rightarrow> mixture_handle \<Rightarrow> f32 \<Rightarrow> (unit, world_error) result" where
  "check_share source destination ratio =
     (if source = destination then Err (SameMixtureHandles source)
      else if \<not> f32_is_finite ratio then Err InvalidRatio else Ok ())"

definition check_revisions ::
  "mixture_handle \<Rightarrow> mixture_handle \<Rightarrow> bool \<Rightarrow> mixture_record \<Rightarrow> bool \<Rightarrow> mixture_record \<Rightarrow> (unit, world_error) result" where
  "check_revisions source destination source_changed s destination_changed d =
     (if source_changed \<and> mx_revision s = word_of_nat u32_max then Err (RevisionExhausted source)
      else if destination_changed \<and> mx_revision d = word_of_nat u32_max then Err (RevisionExhausted destination) else Ok ())"

text \<open>
  The changed ones of two records are stored with their next revisions. Both the answer when nothing changed
  and the one when something did are given.
\<close>

definition store_changed ::
  "mixture_handle \<Rightarrow> mixture_handle \<Rightarrow> mixture_record \<Rightarrow> bool \<times> mixture_record \<Rightarrow> mixture_record \<Rightarrow> bool \<times> mixture_record \<Rightarrow>
   'a \<Rightarrow> 'a \<Rightarrow> world \<Rightarrow> ('a, world_error) result \<times> world" where
  "store_changed first second f first_after s second_after unchanged answer w =
     (case first_after of (first_changed, f') \<Rightarrow> case second_after of (second_changed, s') \<Rightarrow>
        with_value (check_revisions first second first_changed f second_changed s) (\<lambda>_ w.
          if \<not> first_changed \<and> \<not> second_changed then (Ok unchanged, w)
          else store_pair first second
            (if first_changed then next_revision f' else Ok f) (if second_changed then next_revision s' else Ok s) answer w) w)"

definition changed_count :: "bool \<Rightarrow> bool \<Rightarrow> u32" where
  "changed_count first second = of_bool first + of_bool second"

definition remove_ratio_into ::
  "mixture_handle \<Rightarrow> mixture_handle \<Rightarrow> f32 \<Rightarrow> bool \<Rightarrow> world \<Rightarrow> (u32, world_error) result \<times> world" where
  "remove_ratio_into source destination ratio canonicalize_traces w =
     with_value (rbind (check_share source destination ratio) (\<lambda>_. share_of_two source destination ratio w)) (\<lambda>(ratio, s, d) w.
       if f32_eq ratio 0 \<or> mx_immutable d then (Ok 0, w)
       else with_value (check_revisions source destination True s True d) (\<lambda>_ w.
         let canonical = (if canonicalize_traces then canonicalize_gases else (\<lambda>gases. gases));
             removed = map (\<lambda>amount. quantized_removal amount ratio) (mx_gases s)
         in store_pair source destination
              (if mx_immutable s then Ok s
               else next_revision (s\<lparr>mx_gases := canonical (map2 f32_sub (mx_gases s) removed)\<rparr>))
              (next_revision (d\<lparr>mx_gases := canonical removed, mx_temperature := mx_temperature s\<rparr>))
              (if mx_immutable s then 1 else 2) w) w) w"

text \<open>The amounts that leave the source, by the index of their gas, in the order of the list.\<close>

definition planned_transfer ::
  "f32 \<Rightarrow> mixture_record \<Rightarrow> mixture_record \<Rightarrow> nat \<Rightarrow> (nat \<times> f32, world_error) result" where
  "planned_transfer ratio s d i =
     rbind (element (mx_gases s) i) (\<lambda>moles.
     rbind (element (mx_gases d) i) (\<lambda>present.
     let amount = f32_mul moles ratio
     in if f64_less wide_f32_max (f64_add (widen present) (widen amount)) then Err (MoleOverflow (GasId (word_of_nat i)))
        else Ok (i, amount)))"

definition retained_energy :: "f32 list \<Rightarrow> f32 list \<Rightarrow> f32 \<Rightarrow> f32 list \<Rightarrow> nat \<times> f32 \<Rightarrow> f32 \<Rightarrow> f32" where
  "retained_energy after before temperature specific_heats = (\<lambda>(i, _) energy.
     f32_add energy (f32_mul (f32_mul (f32_max (f32_sub (after ! i) (before ! i)) 0) temperature) (specific_heats ! i)))"

definition transfer_gases ::
  "mixture_handle \<Rightarrow> mixture_handle \<Rightarrow> f32 \<Rightarrow> gas_id list \<Rightarrow> world \<Rightarrow> (u32, world_error) result \<times> world" where
  "transfer_gases source destination ratio gases w =
     with_value (rbind (check_share source destination ratio) (\<lambda>_. rmap (world_gas_index w) gases)) (\<lambda>indices w.
     with_value (share_of_two source destination ratio w) (\<lambda>(ratio, s, d) w.
       if f32_eq ratio 0 \<or> mx_immutable s \<or> mx_immutable d then (Ok 0, w)
       else with_value (rbind (check_revisions source destination True s True d) (\<lambda>_.
              rbind (ok_or (wd_gas_registry w) GasRegistryMissing) (\<lambda>registry.
              if world_gas_slots < length (gr_specific_heats registry) then Panic
              else rbind (rmap (planned_transfer ratio s d) indices) (\<lambda>transfers. Ok (gr_specific_heats registry, transfers)))))
         (\<lambda>(registered, transfers) w.
           let specific_heats = registered @ replicate (world_gas_slots - length registered) 0;
               initial_energy = f32_mul (record_heat_capacity d registered) (mx_temperature d);
               taken = fold (\<lambda>(i, amount) gases. gases[i := f32_sub (gases ! i) amount]) transfers (mx_gases s);
               given = fold (\<lambda>(i, amount) gases. gases[i := f32_add (gases ! i) amount]) transfers (mx_gases d);
               after = canonicalize_gases given;
               heat = fold (retained_energy after (mx_gases d) (mx_temperature s) specific_heats) transfers 0;
               capacity = gases_heat_capacity after specific_heats
           in store_pair source destination
                (next_revision (s\<lparr>mx_gases := canonicalize_gases taken\<rparr>))
                (next_revision (d\<lparr>mx_gases := after, mx_temperature := (if f32_less minimum_heat_capacity_value capacity
                   then f32_div (f32_add initial_energy heat) capacity else mx_temperature d)\<rparr>)) 2 w) w) w) w"

text \<open>The heat capacity of what a mixture has gained.\<close>

definition gained_capacity :: "f32 list \<Rightarrow> f32 list \<Rightarrow> f32 list \<Rightarrow> f32" where
  "gained_capacity after before specific_heats =
     fold (\<lambda>((amount, old), specific_heat) capacity. f32_mul_add specific_heat (f32_max (f32_sub amount old) 0) capacity)
       (zip (zip after before) specific_heats) 0"

text \<open>Both mixtures after a share of every gas has moved; an immutable one stays as it is.\<close>

definition source_after_ratio :: "f32 \<Rightarrow> mixture_record \<Rightarrow> mixture_record" where
  "source_after_ratio ratio s = (if mx_immutable s then s
     else s\<lparr>mx_gases := canonicalize_gases
       (map2 f32_sub (mx_gases s) (map (\<lambda>amount. quantized_removal amount ratio) (mx_gases s)))\<rparr>)"

definition destination_after_ratio ::
  "world \<Rightarrow> f32 \<Rightarrow> mixture_record \<Rightarrow> mixture_record \<Rightarrow> (mixture_record, world_error) result" where
  "destination_after_ratio w ratio s d =
     (if mx_immutable d then Ok d
      else rbind (ok_or (wd_gas_registry w) GasRegistryMissing) (\<lambda>registry.
        let removed = map (\<lambda>amount. quantized_removal amount ratio) (mx_gases s);
          capacity = record_heat_capacity d (gr_specific_heats registry);
          gases = canonicalize_gases (map2 capped_sum (mx_gases d) removed);
          retained = gained_capacity gases (mx_gases d) (gr_specific_heats registry);
          combined = f32_add capacity retained
        in Ok (d\<lparr>mx_gases := canonicalize_gases gases,
             mx_temperature := (if f32_less minimum_heat_capacity_value combined
               then mixed_temperature capacity (mx_temperature d) retained (mx_temperature s) combined
               else mx_temperature d)\<rparr>)))"

definition transfer_ratio_to ::
  "mixture_handle \<Rightarrow> mixture_handle \<Rightarrow> f32 \<Rightarrow> world \<Rightarrow> (u32, world_error) result \<times> world" where
  "transfer_ratio_to source destination ratio w =
     with_value (rbind (check_share source destination ratio) (\<lambda>_. share_of_two source destination ratio w)) (\<lambda>(ratio, s, d) w.
       if f32_eq ratio 0 then (Ok 0, w)
       else with_value (destination_after_ratio w ratio s d) (\<lambda>d' w.
         let s' = source_after_ratio ratio s;
           source_changed = \<not> same_amounts (mx_gases s') (mx_gases s);
           destination_changed = (\<not> same_amounts (mx_gases d') (mx_gases d) \<or> \<not> f32_eq (mx_temperature d') (mx_temperature d))
         in store_changed source destination s (source_changed, s') d (destination_changed, d')
              0 (changed_count source_changed destination_changed) w) w) w"

text \<open>Both mixtures after they have exchanged a share of their gases, or the first has been mixed with the second.\<close>

definition canonical_record :: "mixture_record \<Rightarrow> mixture_record" where
  "canonical_record m = (if mx_immutable m then m else m\<lparr>mx_gases := canonicalize_gases (mx_gases m)\<rparr>)"

definition shared_records ::
  "f32 list \<Rightarrow> f32 \<Rightarrow> bool \<Rightarrow> mixture_record \<Rightarrow> mixture_record \<Rightarrow> mixture_record \<times> mixture_record" where
  "shared_records heats ratio one_way f s =
     (if one_way
      then let inbetween = scale_record ratio (copy_record mixture_record_new s);
          (f1, removed) = remove_ratio_record f ratio;
          inbetween = scale_record f32_half (merge_record heats inbetween removed)
        in (canonical_record (merge_record heats f1 inbetween), canonical_record s)
      else let (f1, inbetween) = remove_ratio_into_record f mixture_record_new ratio;
          (s1, removed) = remove_ratio_record s ratio;
          inbetween = scale_record f32_half (merge_record heats inbetween removed)
        in (canonical_record (merge_record heats f1 inbetween), canonical_record (merge_record heats s1 inbetween)))"

definition share_ratio ::
  "mixture_handle \<Rightarrow> mixture_handle \<Rightarrow> f32 \<Rightarrow> bool \<Rightarrow> world \<Rightarrow> (bool, world_error) result \<times> world" where
  "share_ratio first second ratio one_way w =
     with_value (rbind (check_share first second ratio) (\<lambda>_.
         rbind (ok_or (wd_gas_registry w) GasRegistryMissing) (\<lambda>registry.
         rbind (share_of_two first second ratio w) (\<lambda>x. Ok (gr_specific_heats registry, x))))) (\<lambda>(heats, ratio, f, s) w.
       case shared_records heats ratio one_way f s of (f', s') \<Rightarrow>
         let different = mixtures_require_processing f' s'
         in store_changed first second f (mixture_thermodynamics_differ f f', f') s (mixture_thermodynamics_differ s s', s')
              different different w) w"

definition commit_pair_temperatures ::
  "mixture_handle \<Rightarrow> mixture_handle \<Rightarrow> mixture_record \<Rightarrow> mixture_record \<Rightarrow> f32 \<Rightarrow> f32 \<Rightarrow> world \<Rightarrow>
   (u32, world_error) result \<times> world" where
  "commit_pair_temperatures first second f s first_temperature second_temperature w =
     (let first_changed = \<not> f32_eq first_temperature (mx_temperature f);
          second_changed = \<not> f32_eq second_temperature (mx_temperature s)
      in store_changed first second f (first_changed, f\<lparr>mx_temperature := first_temperature\<rparr>)
           s (second_changed, s\<lparr>mx_temperature := second_temperature\<rparr>) 0 (changed_count first_changed second_changed) w)"

section \<open>Changes of one mixture\<close>

text \<open>
  Each gives back whether the record counts as changed, and the record. A changed record is canonicalized and
  gets the next revision by \<open>mutate_mixture\<close>.
\<close>

definition unless_immutable :: "(mixture_record \<Rightarrow> bool \<times> mixture_record) \<Rightarrow> mixture_record \<Rightarrow> bool \<times> mixture_record" where
  "unless_immutable f m = (if mx_immutable m then (False, m) else f m)"

definition set_amount_of :: "nat \<Rightarrow> f32 \<Rightarrow> mixture_record \<Rightarrow> bool \<times> mixture_record" where
  "set_amount_of i amount m =
     (if f32_eq (mx_gases m ! i) amount then (False, m) else (True, m\<lparr>mx_gases := (mx_gases m)[i := amount]\<rparr>))"

definition adjust_amount_of :: "nat \<Rightarrow> f32 \<Rightarrow> mixture_record \<Rightarrow> bool \<times> mixture_record" where
  "adjust_amount_of i delta m =
     (if f32_eq delta 0 \<or> \<not> f32_is_normal delta then (False, m)
      else let adjusted = f64_max (f64_add (widen (mx_gases m ! i)) (widen delta)) wide_zero
        in if f64_less wide_f32_max adjusted then (False, m) else set_amount_of i (narrow adjusted) m)"

text \<open>The running amounts of several adjustments, by gas index in rising order.\<close>

definition plan_adjustment ::
  "world \<Rightarrow> mixture_record \<Rightarrow> gas_id \<times> f32 \<Rightarrow> (nat \<rightharpoonup> f64) \<Rightarrow> (nat \<rightharpoonup> f64, world_error) result" where
  "plan_adjustment w before = (\<lambda>(gas, delta) adjusted.
     rbind (world_gas_index w gas) (\<lambda>i.
     if \<not> f32_is_finite delta then Err InvalidMoleDelta
     else rbind (case adjusted i of Some x \<Rightarrow> Ok x | None \<Rightarrow> rbind (element (mx_gases before) i) (\<lambda>x. Ok (widen x))) (\<lambda>current.
       let amount = f64_max (f64_add current (widen delta)) wide_zero
       in if f64_less wide_f32_max amount then Err (MoleOverflow gas) else Ok (adjusted(i \<mapsto> amount)))))"

definition adjust_amounts_of :: "(nat \<rightharpoonup> f64) \<Rightarrow> mixture_record \<Rightarrow> bool \<times> mixture_record" where
  "adjust_amounts_of adjusted m =
     fold (\<lambda>i (changed, m). case adjusted i of None \<Rightarrow> (changed, m)
         | Some amount \<Rightarrow> let amount = flush_trace (narrow amount)
             in (changed \<or> \<not> f32_eq (mx_gases m ! i) amount, m\<lparr>mx_gases := (mx_gases m)[i := amount]\<rparr>))
       [0..<length (mx_gases m)] (False, m)"

text \<open>The amounts up to the last that is not zero; what is compared is the sum before a trace is dropped.\<close>

definition active_length :: "f32 list \<Rightarrow> nat" where
  "active_length gases = length (dropWhile (\<lambda>amount. f32_eq amount 0) (rev gases))"

definition sum_clamped :: "f32 \<Rightarrow> f32 \<Rightarrow> f32" where
  "sum_clamped amount moles = narrow (f64_clamp (f64_add (widen moles) (widen amount)) wide_zero wide_f32_max)"

definition add_amount_to :: "f32 \<Rightarrow> mixture_record \<Rightarrow> bool \<times> mixture_record" where
  "add_amount_to amount m =
     (if f32_eq amount 0 then (False, m)
      else let n = active_length (mx_gases m); active = take n (mx_gases m); adjusted = map (sum_clamped amount) active
        in (list_ex (\<lambda>(moles, sum). \<not> f32_eq moles sum) (zip active adjusted),
            m\<lparr>mx_gases := map flush_trace adjusted @ drop n (mx_gases m)\<rparr>))"

definition multiply_amounts :: "f32 \<Rightarrow> mixture_record \<Rightarrow> bool \<times> mixture_record" where
  "multiply_amounts factor m =
     (if f32_eq factor f32_one then (False, m)
      else let adjusted = map (\<lambda>moles. flush_trace (capped_product moles factor)) (mx_gases m)
        in (\<not> same_amounts (mx_gases m) adjusted, m\<lparr>mx_gases := adjusted\<rparr>))"

definition set_temperature_of :: "f32 \<Rightarrow> mixture_record \<Rightarrow> bool \<times> mixture_record" where
  "set_temperature_of temperature m =
     (if f32_eq (mx_temperature m) temperature then (False, m) else (True, m\<lparr>mx_temperature := temperature\<rparr>))"

definition take_gases_of :: "f32 list \<Rightarrow> f32 \<Rightarrow> mixture_record \<Rightarrow> bool \<times> mixture_record" where
  "take_gases_of gases temperature m =
     (if same_amounts (mx_gases m) gases \<and> f32_eq (mx_temperature m) temperature then (False, m)
      else (True, m\<lparr>mx_gases := gases, mx_temperature := temperature\<rparr>))"

definition equalize_with :: "mixture_record \<Rightarrow> mixture_record \<Rightarrow> bool \<times> mixture_record" where
  "equalize_with whole m =
     (let ratio = f32_div (mx_volume m) (mx_volume whole)
      in take_gases_of (map (\<lambda>amount. flush_trace (capped_product amount ratio)) (mx_gases whole)) (mx_temperature whole) m)"

section \<open>Commands\<close>

datatype (plugins only: size) core_command =
    CoreSnapshot mixture_handle
  | SetMoles mixture_handle gas_id f32
  | AdjustMoles mixture_handle gas_id f32
  | AdjustMolesTemperature mixture_handle gas_id f32 f32
  | AdjustMultiple mixture_handle "(gas_id \<times> f32) list"
  | GetMoles mixture_handle gas_id
  | GetTemperature mixture_handle
  | GetVolume mixture_handle
  | GetHeatCapacity mixture_handle
  | PartialHeatCapacity mixture_handle gas_id
  | TotalMoles mixture_handle
  | GetPressure mixture_handle
  | ThermalEnergy mixture_handle
  | GetMolesByFlags mixture_handle u32
  | Burnability mixture_handle "f32 option"
  | SetTemperature mixture_handle f32
  | SetVolume mixture_handle f32
  | SetMinimumHeatCapacity mixture_handle f32
  | ClearMixture mixture_handle
  | AddMoles mixture_handle f32
  | MultiplyMoles mixture_handle f32
  | CopyFrom mixture_handle mixture_handle
  | AdjustHeat mixture_handle f32
  | CompareMixtures mixture_handle mixture_handle
  | EqualizeWith mixture_handle mixture_handle
  | TemperatureShare mixture_handle mixture_handle f32
  | TemperatureShareNonGas mixture_handle f32 f32 f32
  | MarkImmutable mixture_handle
  | IsImmutable mixture_handle
  | MergeMixtures mixture_handle mixture_handle
  | RemoveRatioInto mixture_handle mixture_handle f32
  | RemoveAmountInto mixture_handle mixture_handle f32
  | TransferGases mixture_handle mixture_handle f32 "gas_id list"
  | TransferAmount mixture_handle mixture_handle f32
  | TransferRatio mixture_handle mixture_handle f32
  | TransferByFlags mixture_handle mixture_handle u32 f32
  | ShareRatio mixture_handle mixture_handle f32 bool
  | ResumeReactionCommand continuation_token

record mixture_snapshot =
  sn_revision :: u32
  sn_temperature :: f32
  sn_volume :: f32
  sn_minimum_heat_capacity :: f32
  sn_total_moles :: f32
  sn_pressure :: f32
  sn_heat_capacity :: f32
  sn_gases :: "f32 list"
  sn_immutable :: bool

datatype (plugins only: size) command_result =
    Applied u32 | SnapshotOf mixture_snapshot | Scalar f32 | Scalars f32 f32 | Boolean bool

definition world_snapshot :: "world \<Rightarrow> mixture_handle \<Rightarrow> (mixture_snapshot, world_error) result" where
  "world_snapshot w handle =
     rbind (require_handle (wd_mixtures w) handle) (\<lambda>m.
     Ok \<lparr>sn_revision = mx_revision m, sn_temperature = mx_temperature m, sn_volume = mx_volume m,
       sn_minimum_heat_capacity = mx_minimum_heat_capacity m, sn_total_moles = total_moles m, sn_pressure = mixture_pressure m,
       sn_heat_capacity = (case wd_gas_registry w of None \<Rightarrow> mx_minimum_heat_capacity m
         | Some registry \<Rightarrow> record_heat_capacity m (gr_specific_heats registry)),
       sn_gases = mx_gases m, sn_immutable = mx_immutable m\<rparr>)"

definition checked_f32 :: "bool \<Rightarrow> world_error \<Rightarrow> (unit, world_error) result" where
  "checked_f32 ok e = (if ok then Ok () else Err e)"

definition f32_nonneg :: "f32 \<Rightarrow> bool" where
  "f32_nonneg x \<longleftrightarrow> f32_is_finite x \<and> \<not> f32_less x 0"

definition applied :: "(bool, 'e) result \<times> 's \<Rightarrow> (command_result, 'e) result \<times> 's" where
  "applied = answering (\<lambda>updated. Applied (of_bool updated))"

definition moles_with_flags :: "gas_registry \<Rightarrow> u32 \<Rightarrow> f32 list \<Rightarrow> (f32, world_error) result" where
  "moles_with_flags registry flags gases =
     rfold (\<lambda>gas total. rbind (element gases (unat (gas_number (gm_id gas)))) (\<lambda>x. Ok (f32_add total x)))
       (filter (\<lambda>gas. gm_flags gas AND flags \<noteq> 0) (gr_gases registry)) 0"

definition burnable :: "f32 \<Rightarrow> f32 list \<Rightarrow> gas_metadata \<Rightarrow> f32 \<times> f32 \<Rightarrow> (f32 \<times> f32, world_error) result" where
  "burnable temperature gases gas = (\<lambda>(oxidation, fuel).
     rbind (element gases (unat (gas_number (gm_id gas)))) (\<lambda>amount.
     let available = (\<lambda>minimum. f32_mul amount (f32_max (f32_sub f32_one (f32_div minimum temperature)) 0))
     in if f32_less amount minimum_calculated_moles then Ok (oxidation, fuel)
        else case gm_fire_role gas of
          Oxidizer minimum strength \<Rightarrow>
            if f32_less minimum temperature then Ok (f32_add oxidation (f32_mul (available minimum) strength), fuel)
            else Ok (oxidation, fuel)
        | Fuel minimum burn_rate \<Rightarrow>
            if f32_less minimum temperature then Ok (oxidation, f32_add fuel (f32_div (available minimum) burn_rate))
            else Ok (oxidation, fuel)
        | NoFireRole \<Rightarrow> Ok (oxidation, fuel)))"

text \<open>What a temperature becomes by an exchange: the heat that flows, and the two temperatures.\<close>

definition exchanged_heat :: "f32 \<Rightarrow> f32 \<Rightarrow> f32 \<Rightarrow> f32 \<Rightarrow> f32" where
  "exchanged_heat coefficient delta first_capacity second_capacity =
     f32_mul (f32_mul coefficient delta) (harmonic_heat_capacity first_capacity second_capacity)"

definition cooled :: "f32 \<Rightarrow> f32 \<Rightarrow> f32 \<Rightarrow> f32" where
  "cooled temperature heat capacity = f32_max (f32_sub temperature (f32_div heat capacity)) minimum_temperature"

definition warmed :: "f32 \<Rightarrow> f32 \<Rightarrow> f32 \<Rightarrow> f32" where
  "warmed temperature heat capacity = f32_max (f32_add temperature (f32_div heat capacity)) minimum_temperature"

definition exchanges_heat :: "f32 \<Rightarrow> f32 \<Rightarrow> bool" where
  "exchanges_heat first_capacity second_capacity \<longleftrightarrow>
     f32_less minimum_heat_capacity_value first_capacity \<and> f32_less minimum_heat_capacity_value second_capacity"

definition shared_temperatures ::
  "world \<Rightarrow> f32 \<Rightarrow> mixture_record \<Rightarrow> mixture_record \<Rightarrow> (f32 \<times> f32, world_error) result" where
  "shared_temperatures w coefficient f s =
     (let delta = f32_sub (mx_temperature f) (mx_temperature s); unchanged = (mx_temperature f, mx_temperature s)
      in if \<not> f32_less minimum_temperature_delta_to_consider (f32_abs delta) then Ok unchanged
         else rbind (world_heat_capacity w f) (\<lambda>first_capacity. rbind (world_heat_capacity w s) (\<lambda>second_capacity.
           if exchanges_heat first_capacity second_capacity
           then let heat = exchanged_heat coefficient delta first_capacity second_capacity
             in Ok (if mx_immutable f then mx_temperature f else cooled (mx_temperature f) heat first_capacity,
                 if mx_immutable s then mx_temperature s else warmed (mx_temperature s) heat second_capacity)
           else Ok unchanged)))"

definition shared_with_body ::
  "world \<Rightarrow> f32 \<Rightarrow> mixture_record \<Rightarrow> f32 \<Rightarrow> f32 \<Rightarrow> (f32 \<times> f32, world_error) result" where
  "shared_with_body w coefficient m temperature capacity =
     (let delta = f32_sub (mx_temperature m) temperature; unchanged = (mx_temperature m, temperature)
      in if \<not> f32_less minimum_temperature_delta_to_consider (f32_abs delta) then Ok unchanged
         else rbind (world_heat_capacity w m) (\<lambda>mixture_capacity.
           if exchanges_heat mixture_capacity capacity
           then let heat = exchanged_heat coefficient delta mixture_capacity capacity
             in Ok (if mx_immutable m then mx_temperature m else cooled (mx_temperature m) heat mixture_capacity,
                 warmed temperature heat capacity)
           else Ok unchanged))"

text \<open>The share that an amount is of all gases of the source.\<close>

definition ratio_of_amount :: "mixture_handle \<Rightarrow> f32 \<Rightarrow> world \<Rightarrow> (f32, world_error) result" where
  "ratio_of_amount source amount w =
     rbind (checked_f32 (f32_is_finite amount) InvalidMoleAmount) (\<lambda>_.
     rbind (require_handle (wd_mixtures w) source) (\<lambda>m.
     let present = total_moles m in Ok (if f32_less 0 present then f32_div amount present else 0)))"

text \<open>The commands that only read, and the checks and values that come before the others change anything.\<close>

definition reading :: "(command_result, world_error) result \<Rightarrow> world \<Rightarrow> (command_result, world_error) result \<times> world" where
  "reading answer w = (answer, w)"

definition change_after ::
  "('a, world_error) result \<Rightarrow> mixture_handle \<Rightarrow> ('a \<Rightarrow> mixture_record \<Rightarrow> bool \<times> mixture_record) \<Rightarrow> world \<Rightarrow>
   (command_result, world_error) result \<times> world" where
  "change_after checked handle mutation w =
     with_value checked (\<lambda>x w. applied (mutate_mixture handle (unless_immutable (mutation x)) w)) w"

section \<open>Each command\<close>

definition read_registered ::
  "world \<Rightarrow> mixture_handle \<Rightarrow> gas_id \<Rightarrow> (f32 \<Rightarrow> f32) \<Rightarrow> (command_result, world_error) result" where
  "read_registered w handle gas f =
     rbind (world_gas_index w gas) (\<lambda>i.
     rbind (require_handle (wd_mixtures w) handle) (\<lambda>m.
     rbind (element (mx_gases m) i) (\<lambda>amount. Ok (Scalar (f amount)))))"

definition set_moles :: "mixture_handle \<Rightarrow> gas_id \<Rightarrow> f32 \<Rightarrow> world \<Rightarrow> (command_result, world_error) result \<times> world" where
  "set_moles handle gas amount w = change_after
     (rbind (world_gas_index w gas) (\<lambda>i. rbind (checked_f32 (f32_nonneg amount) InvalidMoleAmount) (\<lambda>_. Ok i)))
     handle (\<lambda>i. set_amount_of i (flush_trace amount)) w"

definition adjust_moles :: "mixture_handle \<Rightarrow> gas_id \<Rightarrow> f32 \<Rightarrow> world \<Rightarrow> (command_result, world_error) result \<times> world" where
  "adjust_moles handle gas delta w =
     with_value (rbind (world_gas_index w gas) (\<lambda>i. rbind (checked_f32 (f32_is_finite delta) InvalidMoleDelta) (\<lambda>_. Ok i))) (\<lambda>i w.
       case mutate_mixture handle (unless_immutable (adjust_amount_of i delta)) w of
         (Ok True, w) \<Rightarrow> (Ok (Applied 1), w)
       | (Ok False, w) \<Rightarrow>
           (rbind (require_handle (wd_mixtures w) handle) (\<lambda>m.
            if \<not> mx_immutable m \<and> f64_less wide_f32_max (f64_add (widen (mx_gases m ! i)) (widen delta))
            then Err (MoleOverflow gas) else Ok (Applied 0)), w)
       | (Err e, w) \<Rightarrow> (Err e, w) | (Panic, w) \<Rightarrow> (Panic, w)) w"

text \<open>The amount and the temperature that a mixture has after gas of another temperature was added.\<close>

definition added_gas ::
  "gas_id \<Rightarrow> f32 \<Rightarrow> f32 \<Rightarrow> mixture_handle \<Rightarrow> world \<Rightarrow> (nat \<times> f32 \<times> f32, world_error) result" where
  "added_gas gas amount temperature handle w =
     rbind (world_gas_index w gas) (\<lambda>i.
     rbind (specific_heat_at w i) (\<lambda>specific_heat.
     rbind (require_handle (wd_mixtures w) handle) (\<lambda>before.
     rbind (world_heat_capacity w before) (\<lambda>previous.
     rbind (element (mx_gases before) i) (\<lambda>present.
     let added = f32_mul amount specific_heat; combined = f32_add previous added
     in Ok (i, capped_sum present amount,
          if f32_less minimum_heat_capacity_value combined
          then mixed_temperature previous (mx_temperature before) added (f32_max temperature minimum_temperature) combined
          else mx_temperature before))))))"

definition adjust_moles_temperature ::
  "mixture_handle \<Rightarrow> gas_id \<Rightarrow> f32 \<Rightarrow> f32 \<Rightarrow> world \<Rightarrow> (command_result, world_error) result \<times> world" where
  "adjust_moles_temperature handle gas amount temperature w =
     with_value (rbind (checked_f32 (f32_nonneg amount) InvalidMoleAmount) (\<lambda>_. checked_f32 (f32_is_finite temperature) InvalidTemperature))
       (\<lambda>_ w. if f32_less_eq amount molar_accuracy then (Ok (Applied 0), w)
         else change_after (added_gas gas amount temperature handle w) handle (\<lambda>(i, adjusted, mixed) m.
           (True, m\<lparr>mx_gases := (mx_gases m)[i := adjusted], mx_temperature := f32_max mixed minimum_temperature\<rparr>)) w) w"

definition adjust_multiple ::
  "mixture_handle \<Rightarrow> (gas_id \<times> f32) list \<Rightarrow> world \<Rightarrow> (command_result, world_error) result \<times> world" where
  "adjust_multiple handle adjustments w = change_after
     (rbind (require_handle (wd_mixtures w) handle) (\<lambda>before. rfold (plan_adjustment w before) adjustments Map.empty))
     handle adjust_amounts_of w"

definition moles_by_flags :: "world \<Rightarrow> mixture_handle \<Rightarrow> u32 \<Rightarrow> (command_result, world_error) result" where
  "moles_by_flags w handle flags =
     rbind (require_handle (wd_mixtures w) handle) (\<lambda>m.
     rbind (ok_or (wd_gas_registry w) GasRegistryMissing) (\<lambda>registry.
     rbind (moles_with_flags registry flags (mx_gases m)) (\<lambda>x. Ok (Scalar x))))"

definition burnability :: "world \<Rightarrow> mixture_handle \<Rightarrow> f32 option \<Rightarrow> (command_result, world_error) result" where
  "burnability w handle temperature =
     rbind (require_handle (wd_mixtures w) handle) (\<lambda>m.
     let temperature = (case temperature of None \<Rightarrow> mx_temperature m | Some t \<Rightarrow> t)
     in rbind (checked_f32 (f32_is_finite temperature) InvalidTemperature) (\<lambda>_.
        rbind (ok_or (wd_gas_registry w) GasRegistryMissing) (\<lambda>registry.
        rbind (rfold (burnable (f32_max temperature minimum_temperature) (mx_gases m)) (gr_gases registry) (0, 0)) (\<lambda>(oxidation, fuel).
        Ok (Scalars oxidation fuel)))))"

definition copy_from :: "mixture_handle \<Rightarrow> mixture_handle \<Rightarrow> world \<Rightarrow> (command_result, world_error) result \<times> world" where
  "copy_from receiver giver w = change_after
     (if receiver = giver then Err (SameMixtureHandles receiver) else require_handle (wd_mixtures w) giver)
     receiver (\<lambda>given. take_gases_of (mx_gases given) (mx_temperature given)) w"

definition adjust_heat :: "mixture_handle \<Rightarrow> f32 \<Rightarrow> world \<Rightarrow> (command_result, world_error) result \<times> world" where
  "adjust_heat handle heat w = change_after
     (rbind (checked_f32 (f32_is_finite heat) InvalidHeat) (\<lambda>_.
      rbind (require_handle (wd_mixtures w) handle) (\<lambda>before.
      rbind (world_heat_capacity w before) (\<lambda>capacity.
      Ok (f32_max (f32_div (f32_add (f32_mul capacity (mx_temperature before)) heat) capacity) minimum_temperature)))))
     handle (\<lambda>temperature m. if \<not> f32_is_finite temperature then (False, m) else set_temperature_of temperature m) w"

definition compare_mixtures :: "world \<Rightarrow> mixture_handle \<Rightarrow> mixture_handle \<Rightarrow> (command_result, world_error) result" where
  "compare_mixtures w left right =
     rbind (require_handle (wd_mixtures w) left) (\<lambda>l. rbind (require_handle (wd_mixtures w) right) (\<lambda>r.
       Ok (Boolean (mixtures_require_processing l r))))"

definition equalize_mixture :: "mixture_handle \<Rightarrow> mixture_handle \<Rightarrow> world \<Rightarrow> (command_result, world_error) result \<times> world" where
  "equalize_mixture receiver whole w =
     with_value (if receiver = whole then Err (SameMixtureHandles receiver) else require_handle (wd_mixtures w) whole) (\<lambda>given w.
       if \<not> f32_is_finite (mx_volume given) \<or> f32_less_eq (mx_volume given) 0 then (Ok (Applied 0), w)
       else applied (mutate_mixture receiver (unless_immutable (equalize_with given)) w)) w"

definition temperature_share ::
  "mixture_handle \<Rightarrow> mixture_handle \<Rightarrow> f32 \<Rightarrow> world \<Rightarrow> (command_result, world_error) result \<times> world" where
  "temperature_share first second coefficient w =
     with_value (if first = second then Err (SameMixtureHandles first)
         else rbind (checked_f32 (f32_is_finite coefficient) InvalidConductivity) (\<lambda>_.
           rbind (require_handle (wd_mixtures w) first) (\<lambda>f. rbind (require_handle (wd_mixtures w) second) (\<lambda>s.
           rbind (shared_temperatures w coefficient f s) (\<lambda>(first_temperature, second_temperature).
           Ok (f, s, first_temperature, second_temperature))))))
       (\<lambda>(f, s, first_temperature, second_temperature) w.
         answering (\<lambda>_. Scalar second_temperature)
           (commit_pair_temperatures first second f s first_temperature second_temperature w)) w"

definition temperature_share_non_gas ::
  "mixture_handle \<Rightarrow> f32 \<Rightarrow> f32 \<Rightarrow> f32 \<Rightarrow> world \<Rightarrow> (command_result, world_error) result \<times> world" where
  "temperature_share_non_gas handle coefficient temperature capacity w =
     with_value (rbind (checked_f32 (f32_is_finite coefficient) InvalidConductivity) (\<lambda>_.
         rbind (checked_f32 (f32_is_finite temperature) InvalidTemperature) (\<lambda>_.
         rbind (checked_f32 (f32_is_finite capacity) InvalidHeatCapacity) (\<lambda>_.
         rbind (require_handle (wd_mixtures w) handle) (\<lambda>before.
         shared_with_body w coefficient before temperature capacity)))))
       (\<lambda>(mixture_temperature, returned) w.
         answering (\<lambda>_. Scalar returned) (mutate_mixture handle (set_temperature_of mixture_temperature) w)) w"

definition mark_immutable :: "mixture_record \<Rightarrow> bool \<times> mixture_record" where
  "mark_immutable m = (True, m\<lparr>mx_immutable := True\<rparr>)"

definition clear_gases :: "mixture_record \<Rightarrow> bool \<times> mixture_record" where
  "clear_gases m = (if list_all (\<lambda>amount. f32_eq amount 0) (mx_gases m) then (False, m)
     else (True, m\<lparr>mx_gases := replicate (length (mx_gases m)) 0\<rparr>))"

definition set_volume_of :: "f32 \<Rightarrow> mixture_record \<Rightarrow> bool \<times> mixture_record" where
  "set_volume_of volume m = (if f32_eq (mx_volume m) volume then (False, m) else (True, m\<lparr>mx_volume := volume\<rparr>))"

definition set_minimum_heat_capacity_of :: "f32 \<Rightarrow> mixture_record \<Rightarrow> bool \<times> mixture_record" where
  "set_minimum_heat_capacity_of amount m = (if f32_eq (mx_minimum_heat_capacity m) amount then (False, m)
     else (True, m\<lparr>mx_minimum_heat_capacity := amount\<rparr>))"

definition transfer_by_flags ::
  "mixture_handle \<Rightarrow> mixture_handle \<Rightarrow> u32 \<Rightarrow> f32 \<Rightarrow> world \<Rightarrow> (command_result, world_error) result \<times> world" where
  "transfer_by_flags source destination flags amount w =
     (if \<not> f32_is_finite amount \<or> f32_less_eq amount 0 then (Ok (Boolean False), w)
      else with_value (ok_or (wd_gas_registry w) GasRegistryMissing) (\<lambda>registry w.
        let gases = map gm_id (filter (\<lambda>gas. gm_flags gas AND flags \<noteq> 0) (gr_gases registry))
        in if gases = [] then (Ok (Boolean False), w)
           else with_value (require_handle (wd_mixtures w) source) (\<lambda>m w.
             let present = total_moles m
             in if \<not> f32_is_finite present \<or> f32_less_eq present 0 then (Ok (Boolean False), w)
                else answering (\<lambda>_. Boolean True) (transfer_gases source destination (f32_div amount present) gases w)) w) w)"

text \<open>How many native reactions a resumed sequence has run.\<close>

definition resumed_updates :: "(nat \<Rightarrow> f32) \<Rightarrow> continuation_token \<Rightarrow> world \<Rightarrow> u32" where
  "resumed_updates clock token w =
     (case rbind (map_err ContinuationFailed (require_continuation token (wd_continuations w))) (\<lambda>c.
        evaluate_reaction_sequence clock (rc_target c) (rc_mixture c) (rc_next_reaction_index c) 0
          (rc_reaction_profile_threshold_ms c) w) of
        Ok s \<Rightarrow> rs_native_updates s | _ \<Rightarrow> 0)"

text \<open>The clock is read only where a resumed reaction is profiled.\<close>

primrec apply_command ::
  "(nat \<Rightarrow> f32) \<Rightarrow> core_command \<Rightarrow> world \<Rightarrow> (command_result, world_error) result \<times> world" where
  "apply_command clock (CoreSnapshot h) w = reading (rbind (world_snapshot w h) (\<lambda>s. Ok (SnapshotOf s))) w"
| "apply_command clock (SetMoles h gas amount) w = set_moles h gas amount w"
| "apply_command clock (AdjustMoles h gas delta) w = adjust_moles h gas delta w"
| "apply_command clock (AdjustMolesTemperature h gas amount temperature) w = adjust_moles_temperature h gas amount temperature w"
| "apply_command clock (AdjustMultiple h adjustments) w = adjust_multiple h adjustments w"
| "apply_command clock (GetMoles h gas) w = reading (read_registered w h gas (\<lambda>amount. amount)) w"
| "apply_command clock (GetTemperature h) w = reading (rbind (require_handle (wd_mixtures w) h) (\<lambda>m. Ok (Scalar (mx_temperature m)))) w"
| "apply_command clock (GetVolume h) w = reading (rbind (require_handle (wd_mixtures w) h) (\<lambda>m. Ok (Scalar (mx_volume m)))) w"
| "apply_command clock (GetHeatCapacity h) w = reading (rbind (require_handle (wd_mixtures w) h) (\<lambda>m.
     rbind (world_heat_capacity w m) (\<lambda>x. Ok (Scalar x)))) w"
| "apply_command clock (PartialHeatCapacity h gas) w =
     reading (rbind (world_gas_index w gas) (\<lambda>i. rbind (specific_heat_at w i) (\<lambda>specific_heat.
       read_registered w h gas (\<lambda>amount. if f32_is_normal amount then f32_mul amount specific_heat else 0)))) w"
| "apply_command clock (TotalMoles h) w = reading (rbind (require_handle (wd_mixtures w) h) (\<lambda>m. Ok (Scalar (total_moles m)))) w"
| "apply_command clock (GetPressure h) w = reading (rbind (require_handle (wd_mixtures w) h) (\<lambda>m. Ok (Scalar (mixture_pressure m)))) w"
| "apply_command clock (ThermalEnergy h) w = reading (rbind (require_handle (wd_mixtures w) h) (\<lambda>m.
     rbind (world_heat_capacity w m) (\<lambda>capacity. Ok (Scalar (f32_mul capacity (mx_temperature m)))))) w"
| "apply_command clock (GetMolesByFlags h flags) w = reading (moles_by_flags w h flags) w"
| "apply_command clock (Burnability h temperature) w = reading (burnability w h temperature) w"
| "apply_command clock (SetTemperature h temperature) w = change_after (checked_f32 (f32_is_finite temperature) InvalidTemperature) h
     (\<lambda>_. set_temperature_of (f32_max temperature minimum_temperature)) w"
| "apply_command clock (SetVolume h volume) w = change_after (checked_f32 (f32_nonneg volume) InvalidVolume) h
     (\<lambda>_. set_volume_of volume) w"
| "apply_command clock (SetMinimumHeatCapacity h amount) w =
     change_after (checked_f32 (f32_nonneg amount) InvalidMinimumHeatCapacity) h (\<lambda>_. set_minimum_heat_capacity_of amount) w"
| "apply_command clock (ClearMixture h) w = change_after (Ok ()) h (\<lambda>_. clear_gases) w"
| "apply_command clock (AddMoles h amount) w = change_after (checked_f32 (f32_is_finite amount) InvalidAddend) h
     (\<lambda>_. add_amount_to amount) w"
| "apply_command clock (MultiplyMoles h factor) w = change_after (checked_f32 (f32_nonneg factor) InvalidMultiplier) h
     (\<lambda>_. multiply_amounts factor) w"
| "apply_command clock (CopyFrom receiver giver) w = copy_from receiver giver w"
| "apply_command clock (AdjustHeat h heat) w = adjust_heat h heat w"
| "apply_command clock (CompareMixtures left right) w = reading (compare_mixtures w left right) w"
| "apply_command clock (EqualizeWith receiver whole) w = equalize_mixture receiver whole w"
| "apply_command clock (TemperatureShare first second coefficient) w = temperature_share first second coefficient w"
| "apply_command clock (TemperatureShareNonGas h coefficient temperature capacity) w =
     temperature_share_non_gas h coefficient temperature capacity w"
| "apply_command clock (MarkImmutable h) w = change_after (Ok ()) h (\<lambda>_. mark_immutable) w"
| "apply_command clock (IsImmutable h) w = reading (rbind (require_handle (wd_mixtures w) h) (\<lambda>m. Ok (Boolean (mx_immutable m)))) w"
| "apply_command clock (MergeMixtures receiver giver) w =
     (case merge_mixtures receiver giver w of
        (Ok _, w) \<Rightarrow> (rbind (require_handle (wd_mixtures w) receiver) (\<lambda>m. Ok (Applied (of_bool (\<not> mx_immutable m)))), w)
      | (Err e, w) \<Rightarrow> (Err e, w) | (Panic, w) \<Rightarrow> (Panic, w))"
| "apply_command clock (RemoveRatioInto source destination ratio) w =
     answering Applied (remove_ratio_into source destination ratio True w)"
| "apply_command clock (RemoveAmountInto source destination amount) w =
     with_value (ratio_of_amount source amount w) (\<lambda>ratio w. answering Applied (remove_ratio_into source destination ratio False w)) w"
| "apply_command clock (TransferGases source destination ratio gases) w =
     answering Applied (transfer_gases source destination ratio gases w)"
| "apply_command clock (TransferAmount source destination amount) w =
     with_value (ratio_of_amount source amount w) (\<lambda>ratio w. answering Applied (transfer_ratio_to source destination ratio w)) w"
| "apply_command clock (TransferRatio source destination ratio) w =
     answering Applied (transfer_ratio_to source destination ratio w)"
| "apply_command clock (TransferByFlags source destination flags amount) w = transfer_by_flags source destination flags amount w"
| "apply_command clock (ShareRatio first second ratio one_way) w = answering Boolean (share_ratio first second ratio one_way w)"
| "apply_command clock (ResumeReactionCommand token) w =
     answering (\<lambda>_. Applied (resumed_updates clock token w)) (resume_reaction clock token 0 (wd_max_events w) w)"

section \<open>Batches of records\<close>

record mixture_state =
  st_handle :: mixture_handle
  st_expected_revision :: u32
  st_temperature :: f32
  st_volume :: f32
  st_gases :: "f32 list"

definition valid_mixture_state :: "mixture_state \<Rightarrow> bool" where
  "valid_mixture_state m \<longleftrightarrow> f32_is_finite (st_temperature m) \<and> f32_less_eq minimum_temperature (st_temperature m) \<and>
     f32_is_finite (st_volume m) \<and> f32_less_eq 0 (st_volume m) \<and>
     list_all (\<lambda>amount. f32_is_finite amount \<and> f32_less_eq 0 amount) (st_gases m)"

definition check_mixture_state :: "mixture_slot list \<Rightarrow> mixture_state \<Rightarrow> (unit, world_error) result" where
  "check_mixture_state mixtures m =
     rbind (require_handle mixtures (st_handle m)) (\<lambda>mixture.
     if mx_revision mixture \<noteq> st_expected_revision m
     then Err (RevisionMismatch (st_handle m) (st_expected_revision m) (mx_revision mixture))
     else if \<not> valid_mixture_state m then Err InvalidMixtureState
     else if \<not> mx_immutable mixture \<and> mx_revision mixture = word_of_nat u32_max then Err (RevisionExhausted (st_handle m))
     else Ok ())"

text \<open>The smallest number that occurs twice.\<close>

fun first_repeated :: "u32 list \<Rightarrow> u32 option" where
  "first_repeated (x # y # slots) = (if x = y then Some x else first_repeated (y # slots))"
| "first_repeated slots = None"

definition store_state :: "mixture_state \<Rightarrow> world \<Rightarrow> (world, world_error) result" where
  "store_state m w =
     (case require_handle (wd_mixtures w) (st_handle m) of
        Ok mixture \<Rightarrow>
          if mx_immutable mixture then Ok w
          else if mx_revision mixture = word_of_nat u32_max then Panic
          else Ok (set_mixture (st_handle m) (mixture\<lparr>mx_temperature := st_temperature m, mx_volume := st_volume m,
             mx_gases := canonicalize_gases (st_gases m), mx_revision := mx_revision mixture + 1\<rparr>) w)
      | _ \<Rightarrow> Panic)"

definition apply_mixture_state :: "bool \<Rightarrow> mixture_state list \<Rightarrow> world \<Rightarrow> (u32, world_error) result \<times> world" where
  "apply_mixture_state alloc mutations w =
     with_value (if \<not> alloc then Err WorldAllocationFailed
         else rbind (rforeach (check_mixture_state (wd_mixtures w)) mutations) (\<lambda>_.
           case first_repeated (sort (map (\<lambda>m. mh_slot (st_handle m)) mutations)) of
             Some slot \<Rightarrow> Err (DuplicateMixtureState slot)
           | None \<Rightarrow> rfold store_state mutations w))
       (\<lambda>stored _. (Ok (word_of_nat (length mutations)), stored)) w"

text \<open>The mixtures of a pipe network, each once, in the order of their first mention.\<close>

definition unique_mixture ::
  "mixture_slot list \<Rightarrow> mixture_handle \<Rightarrow> mixture_handle list \<Rightarrow> (mixture_handle list, world_error) result" where
  "unique_mixture mixtures handle seen =
     (if handle \<in> set seen then Ok seen
      else rbind (require_handle mixtures handle) (\<lambda>mixture.
        if \<not> mx_immutable mixture \<and> mx_revision mixture = word_of_nat u32_max then Err (RevisionExhausted handle)
        else Ok (seen @ [handle])))"

record pipenet_sums =
  pn_gases :: "f32 list"
  pn_thermal_energy :: f32
  pn_heat_capacity :: f32
  pn_volume :: f32

definition sum_mixture :: "world \<Rightarrow> mixture_handle \<Rightarrow> pipenet_sums \<Rightarrow> (pipenet_sums, world_error) result" where
  "sum_mixture w handle totals =
     rbind (require_handle (wd_mixtures w) handle) (\<lambda>m.
     rbind (world_heat_capacity w m) (\<lambda>heat_capacity.
     Ok \<lparr>pn_gases = map2 f32_add (pn_gases totals) (mx_gases m),
       pn_thermal_energy = f32_add (pn_thermal_energy totals) (f32_mul (mx_temperature m) heat_capacity),
       pn_heat_capacity = f32_add (pn_heat_capacity totals) heat_capacity,
       pn_volume = f32_add (pn_volume totals) (mx_volume m)\<rparr>))"

definition equalized_temperature :: "pipenet_sums \<Rightarrow> f32" where
  "equalized_temperature totals =
     (if f32_eq (pn_heat_capacity totals) 0 then minimum_temperature
      else f32_max (f32_div (pn_thermal_energy totals) (pn_heat_capacity totals)) minimum_temperature)"

definition pipenet_share :: "pipenet_sums \<Rightarrow> mixture_handle \<Rightarrow> mixture_record \<Rightarrow> mixture_state" where
  "pipenet_share totals handle m =
     (let ratio = f32_div (mx_volume m) (pn_volume totals)
      in \<lparr>st_handle = handle, st_expected_revision = mx_revision m, st_temperature = equalized_temperature totals,
          st_volume = mx_volume m, st_gases = map (\<lambda>amount. f32_mul amount ratio) (pn_gases totals)\<rparr>)"

text \<open>The three allocations: the list of unique handles, the list of records, and what \<open>apply_mixture_state\<close> reserves.\<close>

definition reconcile_pipenet ::
  "bool \<times> bool \<times> bool \<Rightarrow> mixture_handle list \<Rightarrow> world \<Rightarrow> (mixture_handle list, world_error) result \<times> world" where
  "reconcile_pipenet = (\<lambda>(alloc_handles, alloc_states, alloc_slots) handles w.
     with_value (if \<not> alloc_handles then Err WorldAllocationFailed
         else rbind (rfold (unique_mixture (wd_mixtures w)) handles []) (\<lambda>unique.
           rbind (rfold (sum_mixture w) unique
             \<lparr>pn_gases = replicate world_gas_slots 0, pn_thermal_energy = 0, pn_heat_capacity = 0, pn_volume = 0\<rparr>) (\<lambda>totals.
           Ok (unique, totals)))) (\<lambda>(unique, totals) w.
       if f32_eq (pn_volume totals) 0 then (Ok unique, w)
       else with_value (if \<not> alloc_states then Err WorldAllocationFailed
           else rmap (\<lambda>handle. rbind (require_handle (wd_mixtures w) handle) (\<lambda>m. Ok (pipenet_share totals handle m))) unique)
         (\<lambda>states w. answering (\<lambda>_. unique) (apply_mixture_state alloc_slots states w)) w) w)"

end
