(* ===== verification/World_Changes.thy ===== *)
theory World_Changes
  imports World_Commands
begin

text \<open>
  What a command may do to the world: it never panics, a failure leaves the world as it was, and only the mixtures it
  names change, each by one revision.
\<close>

section \<open>A changed record\<close>

text \<open>
  Without a new revision at most amounts too small to keep may be dropped. With one, the record is not immutable, or
  an amount or the temperature is NaN, which differs from itself.
\<close>

definition has_nan :: "mixture_record \<Rightarrow> bool" where
  "has_nan m \<longleftrightarrow> f32_is_nan (mx_temperature m) \<or> list_ex f32_is_nan (mx_gases m)"

definition same_amount :: "f32 \<Rightarrow> f32 \<Rightarrow> bool" where
  "same_amount x y \<longleftrightarrow> x = y \<or> f32_eq (flush_trace x) (flush_trace y)"

definition same_record :: "mixture_record \<Rightarrow> mixture_record \<Rightarrow> bool" where
  "same_record m m' \<longleftrightarrow> m' = m\<lparr>mx_gases := mx_gases m'\<rparr> \<and>
     list_all2 same_amount (mx_gases m) (mx_gases m')"

definition next_record :: "mixture_record \<Rightarrow> mixture_record \<Rightarrow> bool" where
  "next_record m m' \<longleftrightarrow> mx_revision m < mx_revision m' \<and> mx_revision m' = mx_revision m + 1 \<and>
     length (mx_gases m') = length (mx_gases m) \<and> (\<not> mx_immutable m \<or> has_nan m)"

definition record_step :: "mixture_record \<Rightarrow> mixture_record \<Rightarrow> bool" where
  "record_step m m' \<longleftrightarrow> same_record m m' \<and> (mx_immutable m \<longrightarrow> m' = m) \<or> next_record m m'"

lemma same_amount_refl [simp]: "same_amount x x"
  by (simp add: same_amount_def)

lemma same_record_refl [simp]: "same_record m m"
  by (simp add: same_record_def list_all2_refl)

lemma record_step_refl [simp]: "record_step m m"
  by (simp add: record_step_def)

lemma record_step_row: "record_step m m' \<Longrightarrow> length (mx_gases m') = length (mx_gases m)"
  by (auto simp: record_step_def same_record_def next_record_def dest: list_all2_lengthD)

section \<open>A step of the world\<close>

definition beside_mixtures :: "world \<Rightarrow> world" where
  "beside_mixtures w = w\<lparr>wd_mixtures := []\<rparr>"

definition mixtures_step :: "mixture_handle set \<Rightarrow> world \<Rightarrow> world \<Rightarrow> bool" where
  "mixtures_step handles w w' \<longleftrightarrow> world_ready w' \<and> slots_kept w w' \<and> beside_mixtures w' = beside_mixtures w \<and>
     (\<forall>h m. require_handle (wd_mixtures w) h = Ok m \<longrightarrow>
        (\<exists>m'. require_handle (wd_mixtures w') h = Ok m' \<and> record_step m m' \<and> (h \<notin> handles \<longrightarrow> m' = m)))"

definition command_step :: "mixture_handle set \<Rightarrow> world \<Rightarrow> ('a, world_error) result \<times> world \<Rightarrow> bool" where
  "command_step handles w m \<longleftrightarrow> (case m of
     (Ok _, w') \<Rightarrow> mixtures_step handles w w' | (Err _, w') \<Rightarrow> w' = w | (Panic, _) \<Rightarrow> False)"

lemma command_step_simps [simp]:
  "command_step handles w (Ok x, w') = mixtures_step handles w w'"
  "command_step handles w (Err e, w') \<longleftrightarrow> w' = w" "\<not> command_step handles w (Panic, w')"
  by (simp_all add: command_step_def)

lemma mixtures_step_refl [simp]: "world_ready w \<Longrightarrow> mixtures_step handles w w"
  by (simp add: mixtures_step_def)

lemma command_step_ready: "command_step handles w m \<Longrightarrow> world_ready w \<Longrightarrow> ready_step w m"
  by (auto simp: command_step_def mixtures_step_def ready_step_def safe_result_def split: prod.splits result.splits)

lemma with_value_simps [simp]:
  "with_value (Ok x) f w = f x w" "with_value (Err e) f w = (Err e, w)" "with_value Panic f w = (Panic, w)"
  by (simp_all add: with_value_def)

lemma command_step_with:
  assumes "x \<noteq> Panic" and "\<And>y. x = Ok y \<Longrightarrow> command_step handles w (f y w)"
  shows "command_step handles w (with_value x f w)"
  using assms by (cases x) simp_all

lemma command_step_answering [simp]: "command_step handles w (answering f m) = command_step handles w m"
  "command_step handles w (applied c) = command_step handles w c"
  by (cases m; cases "fst m"; auto simp: answering_def) (cases c; cases "fst c"; auto simp: applied_def answering_def)

lemma require_set_mixture:
  assumes "require_handle (wd_mixtures w) h = Ok m"
  shows "require_handle (wd_mixtures (set_mixture h x w)) k = (if k = h then Ok x else require_handle (wd_mixtures w) k)"
proof (cases "mh_slot k = mh_slot h")
  case True
  then show ?thesis
    using assms by (cases h; cases k) (auto simp: set_mixture_def require_handle_def vec_get_def split: option.splits if_splits)
next
  case False
  then show ?thesis using require_handle_update [of k "mh_slot h"] by (auto simp: set_mixture_def)
qed

lemma set_mixture_step:
  assumes ready: "world_ready w" and m: "require_handle (wd_mixtures w) h = Ok m" and step: "record_step m m'" and "h \<in> handles"
  shows "mixtures_step handles w (set_mixture h m' w)"
proof -
  have "length (mx_gases m) = world_gas_slots"
    using ready m by (auto simp: world_ready_def gas_rows_ok_def require_handle_slot)
  then show ?thesis
    using set_mixture_ready [OF ready m, of m'] assms record_step_row [OF step]
    by (auto simp: mixtures_step_def require_set_mixture [OF m]) (simp_all add: set_mixture_def beside_mixtures_def)
qed

lemma mixtures_step_trans:
  assumes "mixtures_step A w w1" and "mixtures_step B w1 w2" and "A \<inter> B = {}"
  shows "mixtures_step (A \<union> B) w w2"
  unfolding mixtures_step_def
proof (intro conjI allI impI)
  show "world_ready w2" "slots_kept w w2" "beside_mixtures w2 = beside_mixtures w"
    using assms(1,2) slots_kept_trans by (auto simp: mixtures_step_def)
  fix h m assume "require_handle (wd_mixtures w) h = Ok m"
  then obtain m1 m2 where "require_handle (wd_mixtures w1) h = Ok m1" "record_step m m1" "h \<notin> A \<longrightarrow> m1 = m"
    "require_handle (wd_mixtures w2) h = Ok m2" "record_step m1 m2" "h \<notin> B \<longrightarrow> m2 = m1"
    using assms(1,2) unfolding mixtures_step_def by blast
  then show "\<exists>m2. require_handle (wd_mixtures w2) h = Ok m2 \<and> record_step m m2 \<and> (h \<notin> A \<union> B \<longrightarrow> m2 = m)"
    using assms(3) by blast
qed

section \<open>Mutations\<close>

definition mutation_ok :: "(mixture_record \<Rightarrow> bool \<times> mixture_record) \<Rightarrow> mixture_record \<Rightarrow> bool" where
  "mutation_ok mutation m \<longleftrightarrow> (case mutation m of (changed, m') \<Rightarrow>
     mx_revision m' = mx_revision m \<and> length (mx_gases m') = length (mx_gases m) \<and>
     (if changed then \<not> mx_immutable m \<or> has_nan m else same_record m m' \<and> (mx_immutable m \<longrightarrow> m' = m)))"

lemma length_canonicalize [simp]: "length (canonicalize_gases gases) = length gases"
  by (simp add: canonicalize_gases_def)

lemma live_row: "world_ready w \<Longrightarrow> require_handle (wd_mixtures w) h = Ok m \<Longrightarrow> length (mx_gases m) = world_gas_slots"
  by (auto simp: world_ready_def gas_rows_ok_def require_handle_slot)

lemma mutate_step:
  assumes ready: "world_ready w" and "h \<in> handles"
    and ok: "\<And>m. require_handle (wd_mixtures w) h = Ok m \<Longrightarrow> mutation_ok mutation m"
  shows "command_step handles w (mutate_mixture h mutation w)"
proof (cases "require_handle (wd_mixtures w) h")
  case (Ok m)
  obtain changed m' where run: "mutation m = (changed, m')" by (cases "mutation m")
  show ?thesis
  proof (cases "mx_revision m = word_of_nat u32_max")
    case False
    let ?m = "if changed then m'\<lparr>mx_gases := canonicalize_gases (mx_gases m'), mx_revision := mx_revision m' + 1\<rparr> else m'"
    have "record_step m ?m"
      using ok [OF Ok] run revision_successor [OF False] by (auto simp: mutation_ok_def record_step_def next_record_def)
    from set_mixture_step [OF ready Ok this assms(2)] show ?thesis
      using run False Ok by (simp add: mutate_mixture_def)
  qed (simp add: mutate_mixture_def Ok)
qed (use require_handle_neq_Panic in \<open>simp_all add: mutate_mixture_def\<close>)

lemma unless_immutable_ok: "(\<not> mx_immutable m \<Longrightarrow> mutation_ok mutation m) \<Longrightarrow> mutation_ok (unless_immutable mutation) m"
  by (auto simp: mutation_ok_def unless_immutable_def)

lemma change_after_step:
  assumes "world_ready w" and "h \<in> handles" and "checked \<noteq> Panic"
    and "\<And>x m. checked = Ok x \<Longrightarrow> require_handle (wd_mixtures w) h = Ok m \<Longrightarrow> \<not> mx_immutable m \<Longrightarrow> mutation_ok (mutation x) m"
  shows "command_step handles w (change_after checked h mutation w)"
  using assms unfolding change_after_def
  by (auto intro!: command_step_with mutate_step unless_immutable_ok)

section \<open>Two records\<close>

lemma next_revision_step:
  assumes "mx_revision m' = mx_revision m" and "length (mx_gases m') = length (mx_gases m)" and "mx_revision m \<noteq> word_of_nat u32_max"
    and "\<not> mx_immutable m \<or> has_nan m"
  shows "\<exists>x. next_revision m' = Ok x \<and> record_step m x"
  using assms revision_successor [of "mx_revision m"] by (simp add: next_revision_def record_step_def next_record_def)

lemma store_pair_step:
  assumes ready: "world_ready w" and handles: "a \<in> handles" "b \<in> handles"
    and first: "\<And>m. require_handle (wd_mixtures w) a = Ok m \<Longrightarrow> \<exists>x. f = Ok x \<and> record_step m x"
    and second: "\<And>m. require_handle (wd_mixtures w) b = Ok m \<Longrightarrow> \<exists>x. s = Ok x \<and> record_step m x"
  shows "command_step handles w (store_pair a b f s answer w)"
proof (cases "(\<exists>m. require_handle (wd_mixtures w) a = Ok m) \<and> (\<exists>m. require_handle (wd_mixtures w) b = Ok m) \<and> mh_slot a \<noteq> mh_slot b")
  case True
  then obtain m m' where m: "require_handle (wd_mixtures w) a = Ok m" "require_handle (wd_mixtures w) b = Ok m'"
    and slots: "mh_slot a \<noteq> mh_slot b" by blast
  obtain x y where x: "f = Ok x" "record_step m x" and y: "s = Ok y" "record_step m' y" using first [OF m(1)] second [OF m(2)] by blast
  have one: "mixtures_step {a} w (set_mixture a x w)" by (rule set_mixture_step [OF ready m(1) x(2)]) simp
  have "require_handle (wd_mixtures (set_mixture a x w)) b = Ok m'" using slots m by (auto simp: require_set_mixture)
  moreover have "world_ready (set_mixture a x w)" using one by (simp add: mixtures_step_def)
  ultimately have "mixtures_step {b} (set_mixture a x w) (set_mixture b y (set_mixture a x w))"
    using set_mixture_step y(2) by simp
  from mixtures_step_trans [OF one this] have pair: "mixtures_step ({a} \<union> {b}) w (set_mixture b y (set_mixture a x w))"
    using slots by blast
  have "mixtures_step handles w (set_mixture b y (set_mixture a x w))"
    using pair handles by (auto simp: mixtures_step_def)
  then show ?thesis using m x(1) y(1) slots by (simp add: store_pair_def)
next
  case False
  then show ?thesis
    using require_handle_neq_Panic
    by (cases "require_handle (wd_mixtures w) a"; cases "require_handle (wd_mixtures w) b") (auto simp: store_pair_def)
qed

lemma share_checks [simp]:
  "check_share a b ratio \<noteq> Panic" "share_of_two a b ratio w \<noteq> Panic" "check_revisions a b x m y m' \<noteq> Panic"
  "world_heat_capacity w m \<noteq> Panic"
  by (simp_all add: check_share_def share_of_two_def check_revisions_def world_heat_capacity_def)

lemma share_of_two_Ok: "share_of_two a b ratio w = Ok (r, s, d) \<longleftrightarrow> r = f32_clamp ratio 0 f32_one \<and>
    require_handle (wd_mixtures w) a = Ok s \<and> require_handle (wd_mixtures w) b = Ok d"
  by (auto simp: share_of_two_def)

lemma check_revisions_Ok: "check_revisions a b x s y d = Ok u \<longleftrightarrow>
    (x \<longrightarrow> mx_revision s \<noteq> word_of_nat u32_max) \<and> (y \<longrightarrow> mx_revision d \<noteq> word_of_nat u32_max)"
  by (simp add: check_revisions_def)

lemma map2_row [simp]: "length ys = length xs \<Longrightarrow> length (map2 f xs ys) = length xs"
  by simp

lemma merge_step:
  assumes "world_ready w"
  shows "command_step {a} w (merge_mixtures a b w)"
proof -
  have "command_step {a} w (mutate_mixture a (\<lambda>m. let combined = f32_add x y
      in (True, m\<lparr>mx_gases := map2 capped_sum (mx_gases m) (mx_gases d),
            mx_temperature := (if f32_less minimum_heat_capacity_value combined then t combined else mx_temperature m)\<rparr>)) w)"
    if "require_handle (wd_mixtures w) a = Ok s" "require_handle (wd_mixtures w) b = Ok d" "\<not> mx_immutable s" for s d x y t
    using live_row [OF assms that(1)] live_row [OF assms that(2)] that
    by (intro mutate_step [OF assms]) (auto simp: mutation_ok_def Let_def)
  then show ?thesis
    unfolding merge_mixtures_def using assms by (auto intro!: command_step_with)
qed

lemma quantized_row [simp]: "length (map (\<lambda>amount. quantized_removal amount ratio) xs) = length xs"
  by simp

lemma remove_ratio_step:
  assumes "world_ready w"
  shows "command_step {a, b} w (remove_ratio_into a b ratio canonicalize w)"
  unfolding remove_ratio_into_def using assms live_row [OF assms]
  by (auto intro!: command_step_with store_pair_step next_revision_step simp: share_of_two_Ok check_revisions_Ok Let_def split: prod.split)

lemma fold_row: "length (fold (\<lambda>(i, amount) gases. gases[i := f gases i amount]) transfers gases) = length gases"
  by (induction transfers arbitrary: gases) auto

lemma rmap_all: "rmap f is = Ok xs \<Longrightarrow> x \<in> set xs \<Longrightarrow> \<exists>i \<in> set is. f i = Ok x"
  by (induction "is" arbitrary: xs) auto

lemma world_gas_index_neq_Panic [simp]: "world_gas_index w gas \<noteq> Panic"
  by (simp add: world_gas_index_def)

lemma ready_registry:
  assumes "world_ready w" and "wd_gas_registry w = Some registry"
  obtains gs where "gas_registry_try_new gs = Ok registry" and "length (gr_gases registry) \<le> world_gas_slots"
    and "gr_specific_heats registry = map gm_specific_heat (gr_gases registry)"
proof -
  obtain gs where gs: "gas_registry_try_new gs = Ok registry"
    using assms by (auto simp: world_ready_def registries_built_def)
  then have "gr_specific_heats registry = map gm_specific_heat (gr_gases registry)"
    using gas_registry_result [of gs] by (simp add: Let_def)
  then show thesis using that gs gas_registry_small [OF gs] by blast
qed

lemma specific_heats_small:
  assumes "world_ready w" and "wd_gas_registry w = Some registry"
  shows "length (gr_specific_heats registry) \<le> world_gas_slots"
  using assms by (rule ready_registry) simp

lemma world_gas_index_small:
  assumes "world_ready w" and "world_gas_index w gas = Ok i"
  shows "i < world_gas_slots" and "specific_heat_at w i \<noteq> Panic"
proof -
  obtain registry where registry: "wd_gas_registry w = Some registry" and i: "i < length (gr_gases registry)"
    using assms(2) by (auto simp: world_gas_index_def gas_by_id_def vec_get_def split: if_splits)
  from assms(1) registry obtain gs where "length (gr_gases registry) \<le> world_gas_slots"
    and heats: "gr_specific_heats registry = map gm_specific_heat (gr_gases registry)" by (rule ready_registry)
  then show "i < world_gas_slots" using i by simp
  show "specific_heat_at w i \<noteq> Panic" using i by (simp add: specific_heat_at_def registry element_def vec_get_def heats)
qed

lemma element_Ok: "i < length xs \<Longrightarrow> element xs i = Ok (xs ! i)"
  by (simp add: element_def vec_get_def)

lemma transfer_gases_step:
  assumes ready: "world_ready w"
  shows "command_step {a, b} w (transfer_gases a b ratio gases w)"
proof -
  have small: "i < world_gas_slots" if "rmap (world_gas_index w) gases = Ok indices" "i \<in> set indices" for indices i
    using rmap_all [OF that] world_gas_index_small(1) [OF ready] by blast
  have planned: "rmap (planned_transfer r s d) indices \<noteq> Panic"
    if "rmap (world_gas_index w) gases = Ok indices" "require_handle (wd_mixtures w) a = Ok s" "require_handle (wd_mixtures w) b = Ok d"
    for r s d indices
    using small [OF that(1)] live_row [OF ready that(2)] live_row [OF ready that(3)]
    by (intro rmap_neq_Panic) (simp add: planned_transfer_def element_Ok Let_def)
  have "rmap (world_gas_index w) gases \<noteq> Panic" by (rule rmap_neq_Panic) simp
  then show ?thesis
    unfolding transfer_gases_def using assms live_row [OF assms] planned specific_heats_small [OF ready]
    by (auto intro!: command_step_with store_pair_step next_revision_step
      simp: share_of_two_Ok check_revisions_Ok Let_def fold_row split: prod.split)
qed

text \<open>One side of a pair: it gets a new revision when it differs from what it was.\<close>

lemma f32_eq_same: "f32_eq x x \<longleftrightarrow> \<not> f32_is_nan x"
  by (simp add: f32_eq_def)

lemma same_amounts_same: "same_amounts xs xs \<longleftrightarrow> \<not> list_ex f32_is_nan xs"
  by (simp add: same_amounts_def list_all2_conv_all_nth list_ex_iff f32_eq_same Bex_def in_set_conv_nth) blast

definition side_ok :: "mixture_record \<Rightarrow> bool \<Rightarrow> mixture_record \<Rightarrow> bool" where
  "side_ok m changed m' \<longleftrightarrow> mx_revision m' = mx_revision m \<and> length (mx_gases m') = length (mx_gases m) \<and>
     (changed \<longrightarrow> mx_immutable m \<longrightarrow> has_nan m)"

lemma store_changed_step:
  assumes ready: "world_ready w"
    and first: "require_handle (wd_mixtures w) a = Ok f" "side_ok f c1 f'"
    and second: "require_handle (wd_mixtures w) b = Ok s" "side_ok s c2 s'"
  shows "command_step {a, b} w (store_changed a b f (c1, f') s (c2, s') x y w)"
  using assms next_revision_step [of f' f] next_revision_step [of s' s]
  by (auto simp: store_changed_def side_ok_def check_revisions_Ok intro!: command_step_with store_pair_step)

lemma side_ok_kept:
  "mx_immutable m \<Longrightarrow> side_ok m (\<not> same_amounts (mx_gases m) (mx_gases m)) m"
  "mx_immutable m \<Longrightarrow> side_ok m (\<not> same_amounts (mx_gases m) (mx_gases m) \<or> \<not> f32_eq (mx_temperature m) (mx_temperature m)) m"
  "mx_immutable m \<Longrightarrow> side_ok m (\<not> f32_eq (mx_temperature m) (mx_temperature m)) m"
  by (auto simp: side_ok_def has_nan_def f32_eq_same same_amounts_same)

lemma side_ok_mutable:
  "\<not> mx_immutable m \<Longrightarrow> mx_revision m' = mx_revision m \<Longrightarrow> length (mx_gases m') = length (mx_gases m) \<Longrightarrow> side_ok m changed m'"
  by (simp add: side_ok_def)

lemma transfer_ratio_step:
  assumes ready: "world_ready w"
  shows "command_step {a, b} w (transfer_ratio_to a b ratio w)"
proof -
  have "command_step {a, b} w (store_changed a b s (\<not> same_amounts (mx_gases (source_after_ratio r s)) (mx_gases s),
        source_after_ratio r s) d
      (\<not> same_amounts (mx_gases d') (mx_gases d) \<or> \<not> f32_eq (mx_temperature d') (mx_temperature d), d') x y w)"
    if "require_handle (wd_mixtures w) a = Ok s" "require_handle (wd_mixtures w) b = Ok d"
      "destination_after_ratio w r s d = Ok d'" for r s d d' and x y :: u32
  proof (rule store_changed_step [OF ready that(1) _ that(2)])
    show "side_ok s (\<not> same_amounts (mx_gases (source_after_ratio r s)) (mx_gases s)) (source_after_ratio r s)"
      by (cases "mx_immutable s") (simp_all add: side_ok_kept side_ok_mutable source_after_ratio_def)
    show "side_ok d (\<not> same_amounts (mx_gases d') (mx_gases d) \<or> \<not> f32_eq (mx_temperature d') (mx_temperature d)) d'"
      using that(3) side_ok_kept(2) [of d] live_row [OF ready that(1)] live_row [OF ready that(2)]
      by (cases "mx_immutable d") (auto simp: destination_after_ratio_def Let_def intro!: side_ok_mutable)
  qed
  moreover have "destination_after_ratio w r s d \<noteq> Panic" for r s d
    by (simp add: destination_after_ratio_def Let_def)
  ultimately show ?thesis
    unfolding transfer_ratio_to_def Let_def using ready
    by (intro command_step_with) (auto simp: share_of_two_Ok intro!: command_step_with split: prod.split)
qed

lemma record_helpers [simp]:
  "mx_immutable (copy_record m m') = mx_immutable m" "mx_revision (copy_record m m') = mx_revision m"
  "mx_immutable (scale_record r m) = mx_immutable m" "mx_revision (scale_record r m) = mx_revision m"
  "mx_immutable (merge_record heats m m') = mx_immutable m" "mx_revision (merge_record heats m m') = mx_revision m"
  "mx_immutable (canonical_record m) = mx_immutable m" "mx_revision (canonical_record m) = mx_revision m"
  by (simp_all add: copy_record_def scale_record_def merge_record_def canonical_record_def Let_def)

lemma record_rows:
  "length (mx_gases m') = length (mx_gases m) \<Longrightarrow> length (mx_gases (copy_record m m')) = length (mx_gases m)"
  "length (mx_gases (scale_record r m)) = length (mx_gases m)"
  "length (mx_gases m') = length (mx_gases m) \<Longrightarrow> length (mx_gases (merge_record heats m m')) = length (mx_gases m)"
  "length (mx_gases (canonical_record m)) = length (mx_gases m)"
  by (simp_all add: copy_record_def scale_record_def merge_record_def canonical_record_def Let_def)

lemma removal_source:
  assumes "remove_ratio_into_record m d r = (m', d')" and "length (mx_gases d) = length (mx_gases m)"
  shows "mx_revision m' = mx_revision m" and "mx_immutable m' = mx_immutable m" and "mx_immutable m \<Longrightarrow> m' = m"
    and "length (mx_gases m') = length (mx_gases m)" and "length (mx_gases d') = length (mx_gases m)"
  using assms record_rows(1) [of m d] by (auto simp: remove_ratio_into_record_def Let_def split: if_splits)

lemma shared_records_sides:
  assumes "shared_records heats r one_way f s = (f', s')" and rows: "length (mx_gases f) = world_gas_slots" "length (mx_gases s) = world_gas_slots"
  shows "side_ok f (mixture_thermodynamics_differ f f') f'" and "side_ok s (mixture_thermodynamics_differ s s') s'"
proof -
  have kept: "side_ok m (mixture_thermodynamics_differ m m') m'"
    if "mx_revision m' = mx_revision m" "length (mx_gases m') = length (mx_gases m)" "mx_immutable m \<Longrightarrow> m' = m" for m m'
    using that by (cases "mx_immutable m") (auto simp: side_ok_def mixture_thermodynamics_differ_def has_nan_def f32_eq_same same_amounts_same)
  have fixed: "mx_immutable m \<Longrightarrow> merge_record heats m m' = m" "mx_immutable m \<Longrightarrow> canonical_record m = m" for m m'
    by (simp_all add: merge_record_def canonical_record_def)
  have new: "length (mx_gases mixture_record_new) = world_gas_slots" by (simp add: mixture_record_new_def)
  obtain f1 i where first: "remove_ratio_into_record f mixture_record_new r = (f1, i)" by fastforce
  obtain s1 j where second: "remove_ratio_into_record s mixture_record_new r = (s1, j)" by fastforce
  have rows': "length (mx_gases mixture_record_new) = length (mx_gases f)" "length (mx_gases mixture_record_new) = length (mx_gases s)"
    using new rows by simp_all
  note first' = removal_source [OF first rows'(1)] and second' = removal_source [OF second rows'(2)]
  show "side_ok f (mixture_thermodynamics_differ f f') f'" "side_ok s (mixture_thermodynamics_differ s s') s'"
    using assms(1) first' second' rows new
    by (auto simp: shared_records_def remove_ratio_record_def first second Let_def fixed record_rows intro!: kept split: if_splits)
qed

lemma share_ratio_step:
  assumes ready: "world_ready w"
  shows "command_step {a, b} w (share_ratio a b ratio one_way w)"
  unfolding share_ratio_def Let_def
  by (intro command_step_with) (auto simp: share_of_two_Ok split: prod.split
      intro!: store_changed_step [OF ready] dest: shared_records_sides live_row [OF ready])

lemma commit_pair_step:
  assumes ready: "world_ready w" and "require_handle (wd_mixtures w) a = Ok f" and "require_handle (wd_mixtures w) b = Ok s"
    and "mx_immutable f \<Longrightarrow> x = mx_temperature f" and "mx_immutable s \<Longrightarrow> y = mx_temperature s"
  shows "command_step {a, b} w (commit_pair_temperatures a b f s x y w)"
  unfolding commit_pair_temperatures_def Let_def using assms
  by (intro store_changed_step) (auto simp: side_ok_def has_nan_def f32_eq_same)

section \<open>Each command\<close>

text \<open>The mixtures that a command may change; a resumed reaction changes the one it waited for.\<close>

primrec changed_handles :: "core_command \<Rightarrow> mixture_handle set" where
  "changed_handles (CoreSnapshot h) = {}"
| "changed_handles (SetMoles h gas amount) = {h}"
| "changed_handles (AdjustMoles h gas delta) = {h}"
| "changed_handles (AdjustMolesTemperature h gas amount temperature) = {h}"
| "changed_handles (AdjustMultiple h adjustments) = {h}"
| "changed_handles (GetMoles h gas) = {}"
| "changed_handles (GetTemperature h) = {}"
| "changed_handles (GetVolume h) = {}"
| "changed_handles (GetHeatCapacity h) = {}"
| "changed_handles (PartialHeatCapacity h gas) = {}"
| "changed_handles (TotalMoles h) = {}"
| "changed_handles (GetPressure h) = {}"
| "changed_handles (ThermalEnergy h) = {}"
| "changed_handles (GetMolesByFlags h flags) = {}"
| "changed_handles (Burnability h temperature) = {}"
| "changed_handles (SetTemperature h temperature) = {h}"
| "changed_handles (SetVolume h volume) = {h}"
| "changed_handles (SetMinimumHeatCapacity h amount) = {h}"
| "changed_handles (ClearMixture h) = {h}"
| "changed_handles (AddMoles h amount) = {h}"
| "changed_handles (MultiplyMoles h factor) = {h}"
| "changed_handles (CopyFrom receiver giver) = {receiver}"
| "changed_handles (AdjustHeat h heat) = {h}"
| "changed_handles (CompareMixtures left right) = {}"
| "changed_handles (EqualizeWith receiver whole) = {receiver}"
| "changed_handles (TemperatureShare first second coefficient) = {first, second}"
| "changed_handles (TemperatureShareNonGas h coefficient temperature capacity) = {h}"
| "changed_handles (MarkImmutable h) = {h}"
| "changed_handles (IsImmutable h) = {}"
| "changed_handles (MergeMixtures receiver giver) = {receiver}"
| "changed_handles (RemoveRatioInto source destination ratio) = {source, destination}"
| "changed_handles (RemoveAmountInto source destination amount) = {source, destination}"
| "changed_handles (TransferGases source destination ratio gases) = {source, destination}"
| "changed_handles (TransferAmount source destination amount) = {source, destination}"
| "changed_handles (TransferRatio source destination ratio) = {source, destination}"
| "changed_handles (TransferByFlags source destination flags amount) = {source, destination}"
| "changed_handles (ShareRatio first second ratio one_way) = {first, second}"
| "changed_handles (ResumeReactionCommand token) = {}"

lemma checked_f32_neq_Panic [simp]: "checked_f32 ok e \<noteq> Panic"
  by (simp add: checked_f32_def)

lemma checked_f32_Ok [simp]: "checked_f32 ok e = Ok u \<longleftrightarrow> ok"
  by (simp add: checked_f32_def)

lemma mutation_kept: "mutation_ok (\<lambda>m. (False, m)) m"
  by (simp add: mutation_ok_def)

text \<open>The changes that keep the row's length and leave a record alone that they do not count as changed.\<close>

lemma plain_mutations:
  "\<not> mx_immutable m \<Longrightarrow> mutation_ok (set_amount_of i amount) m"
  "\<not> mx_immutable m \<Longrightarrow> mutation_ok (adjust_amount_of i delta) m"
  "\<not> mx_immutable m \<Longrightarrow> mutation_ok (set_temperature_of temperature) m"
  "\<not> mx_immutable m \<Longrightarrow> mutation_ok (set_volume_of volume) m"
  "\<not> mx_immutable m \<Longrightarrow> mutation_ok (set_minimum_heat_capacity_of volume) m"
  "\<not> mx_immutable m \<Longrightarrow> mutation_ok clear_gases m"
  "\<not> mx_immutable m \<Longrightarrow> mutation_ok mark_immutable m"
  "\<not> mx_immutable m \<Longrightarrow> length gases = length (mx_gases m) \<Longrightarrow> mutation_ok (take_gases_of gases temperature) m"
  by (simp_all add: mutation_ok_def set_amount_of_def adjust_amount_of_def set_temperature_of_def set_volume_of_def
      set_minimum_heat_capacity_of_def clear_gases_def mark_immutable_def take_gases_of_def Let_def)

lemma equalize_ok:
  "\<not> mx_immutable m \<Longrightarrow> length (mx_gases whole) = length (mx_gases m) \<Longrightarrow> mutation_ok (equalize_with whole) m"
  by (simp add: mutation_ok_def equalize_with_def take_gases_of_def Let_def)

lemma flush_trace_idem [simp]: "flush_trace (flush_trace x) = flush_trace x"
  by (simp add: flush_trace_def)

lemma f32_eq_flush: "f32_eq x y \<Longrightarrow> f32_eq (flush_trace x) (flush_trace y)"
  by (auto simp: flush_trace_def f32_eq_def f32_less_def f32_is_nan_def [of 0])

lemma same_amount_eq: "f32_eq x y \<Longrightarrow> same_amount x y" "f32_eq x y \<Longrightarrow> same_amount x (flush_trace y)"
  by (simp_all add: same_amount_def f32_eq_flush)

lemma same_amount_trans: "same_amount x y \<Longrightarrow> same_amount y z \<Longrightarrow> same_amount x z"
  by (auto simp: same_amount_def f32_eq_def)

lemma same_amounts_trans:
  "list_all2 same_amount xs ys \<Longrightarrow> list_all2 same_amount ys zs \<Longrightarrow> list_all2 same_amount xs zs"
  using list_all2_trans [of same_amount same_amount same_amount] same_amount_trans by blast

lemma same_record_amounts: "same_record m (m\<lparr>mx_gases := gases\<rparr>) = list_all2 same_amount (mx_gases m) gases"
  by (simp add: same_record_def)

lemma same_amount_update: "same_amount (xs ! i) y \<Longrightarrow> list_all2 same_amount xs (xs[i := y])"
  by (cases "i < length xs") (auto simp: list_all2_conv_all_nth nth_list_update list_update_beyond)

lemma same_amount_flushed:
  "\<not> list_ex (\<lambda>(x, y). \<not> f32_eq x y) (zip xs (map f xs)) \<Longrightarrow> list_all2 same_amount xs (map flush_trace (map f xs))"
  by (induction xs) (auto intro: same_amount_eq)

lemma multiply_ok: "\<not> mx_immutable m \<Longrightarrow> mutation_ok (multiply_amounts factor) m"
  by (auto simp: mutation_ok_def multiply_amounts_def Let_def same_record_amounts same_amounts_def
      elim: list_all2_mono intro: same_amount_eq(1))

lemma add_ok:
  assumes "\<not> mx_immutable m"
  shows "mutation_ok (add_amount_to amount) m"
proof -
  let ?n = "active_length (mx_gases m)"
  let ?active = "take ?n (mx_gases m)"
  let ?adjusted = "map (sum_clamped amount) ?active"
  have "list_all2 same_amount (mx_gases m) (map flush_trace ?adjusted @ drop ?n (mx_gases m))"
    if "\<not> list_ex (\<lambda>(moles, sum). \<not> f32_eq moles sum) (zip ?active ?adjusted)"
  proof -
    have "list_all2 same_amount (?active @ drop ?n (mx_gases m)) (map flush_trace ?adjusted @ drop ?n (mx_gases m))"
      using same_amount_flushed [OF that] by (intro list_all2_appendI) (simp_all add: list_all2_refl)
    then show ?thesis by simp
  qed
  moreover have "?n \<le> length (mx_gases m)"
    unfolding active_length_def using length_dropWhile_le [of _ "rev (mx_gases m)"] by simp
  ultimately show ?thesis using assms by (simp add: mutation_ok_def add_amount_to_def Let_def same_record_amounts)
qed

lemma adjust_multiple_ok:
  assumes "\<not> mx_immutable m"
  shows "mutation_ok (adjust_amounts_of adjusted) m"
proof -
  let ?f = "\<lambda>i (changed, m). case adjusted i of None \<Rightarrow> (changed, m)
         | Some amount \<Rightarrow> let amount = flush_trace (narrow amount)
             in (changed \<or> \<not> f32_eq (mx_gases m ! i) amount, m\<lparr>mx_gases := (mx_gases m)[i := amount]\<rparr>)"
  have "\<exists>gases. m' = m\<lparr>mx_gases := gases\<rparr> \<and> length gases = length (mx_gases m) \<and>
      (\<not> c' \<longrightarrow> \<not> c \<and> list_all2 same_amount (mx_gases m) gases)" if "fold ?f is (c, m) = (c', m')" for "is" c c' m m'
    using that
  proof (induction "is" arbitrary: c m)
    case Nil
    then show ?case by (auto intro!: exI [of _ "mx_gases m"] list_all2_refl)
  next
    case (Cons i "is")
    show ?case
    proof (cases "adjusted i")
      case None
      then show ?thesis using Cons by simp
    next
      case (Some x)
      let ?amount = "flush_trace (narrow x)"
      let ?m = "m\<lparr>mx_gases := (mx_gases m)[i := ?amount]\<rparr>"
      have "fold ?f is (c \<or> \<not> f32_eq (mx_gases m ! i) ?amount, ?m) = (c', m')" using Cons.prems Some by (simp add: Let_def)
      from Cons.IH [OF this] obtain gases where gases: "m' = ?m\<lparr>mx_gases := gases\<rparr>" "length gases = length (mx_gases m)"
        "\<not> c' \<longrightarrow> \<not> c \<and> f32_eq (mx_gases m ! i) ?amount \<and> list_all2 same_amount ((mx_gases m)[i := ?amount]) gases"
        by auto
      have "list_all2 same_amount (mx_gases m) ((mx_gases m)[i := ?amount])" if "f32_eq (mx_gases m ! i) ?amount"
        by (rule same_amount_update [OF same_amount_eq(1) [OF that]])
      then have "\<not> c' \<longrightarrow> \<not> c \<and> list_all2 same_amount (mx_gases m) gases"
        using gases(3) same_amounts_trans by blast
      then show ?thesis using gases by auto
    qed
  qed
  from this [of "[0..<length (mx_gases m)]" False m] show ?thesis
    using assms by (cases "fold ?f [0..<length (mx_gases m)] (False, m)")
      (auto simp: mutation_ok_def adjust_amounts_of_def same_record_amounts)
qed

text \<open>Readings never fail by a panic: an index of a registered gas is inside every row.\<close>

lemma registered_index:
  assumes "world_ready w" and "wd_gas_registry w = Some registry" and "gas \<in> set (gr_gases registry)"
  shows "unat (gas_number (gm_id gas)) < world_gas_slots"
proof -
  obtain gs where gs: "gas_registry_try_new gs = Ok registry" and small: "length (gr_gases registry) \<le> world_gas_slots"
    using assms(1,2) by (rule ready_registry)
  have "set (gr_gases registry) = set gs" using gs gas_registry_result [of gs] by (simp add: Let_def)
  then have "gas_by_id registry (gm_id gas) = Some gas" using built_gas_lookup(1) [OF gs] assms(3) by simp
  then show ?thesis using small by (auto simp: gas_by_id_def vec_get_def split: if_splits)
qed

lemma reading_step: "world_ready w \<Longrightarrow> answer \<noteq> Panic \<Longrightarrow> command_step handles w (reading answer w)"
  by (cases answer) (simp_all add: reading_def)

lemma read_registered_neq_Panic: "world_ready w \<Longrightarrow> read_registered w h gas f \<noteq> Panic"
  using world_gas_index_small(1) [of w gas] live_row [of w h]
  by (auto simp: read_registered_def element_Ok)

lemma moles_with_flags_neq_Panic:
  assumes "\<And>gas. gas \<in> set (gr_gases registry) \<Longrightarrow> unat (gas_number (gm_id gas)) < length gases"
  shows "moles_with_flags registry flags gases \<noteq> Panic"
proof -
  let ?f = "\<lambda>gas total. rbind (element gases (unat (gas_number (gm_id gas)))) (\<lambda>x. Ok (f32_add total x))"
  have "\<exists>x. rfold ?f (filter (\<lambda>gas. gm_flags gas AND flags \<noteq> 0) (gr_gases registry)) 0 = Ok x \<and> True"
    by (rule rfold_inv) (use assms in \<open>auto simp: element_Ok\<close>)
  then show ?thesis by (auto simp: moles_with_flags_def)
qed

lemma burnable_neq_Panic:
  assumes "\<And>gas. gas \<in> set registered \<Longrightarrow> unat (gas_number (gm_id gas)) < length gases"
  shows "rfold (burnable temperature gases) registered start \<noteq> Panic"
proof -
  have "\<exists>x. rfold (burnable temperature gases) registered start = Ok x \<and> True"
  proof (rule rfold_inv)
    fix gas s assume "gas \<in> set registered"
    then show "\<exists>s'. burnable temperature gases gas s = Ok s' \<and> True"
      using assms by (cases s) (auto simp: burnable_def Let_def element_Ok split: gas_fire_role.split)
  qed simp
  then show ?thesis by auto
qed

lemma flags_neq_Panic:
  assumes "world_ready w"
  shows "moles_by_flags w h flags \<noteq> Panic" and "burnability w h temperature \<noteq> Panic"
proof -
  have index: "unat (gas_number (gm_id gas)) < length (mx_gases m)"
    if "require_handle (wd_mixtures w) h = Ok m" "wd_gas_registry w = Some registry" "gas \<in> set (gr_gases registry)" for m registry gas
    using registered_index [OF assms that(2,3)] live_row [OF assms that(1)] by simp
  show "moles_by_flags w h flags \<noteq> Panic"
    using index moles_with_flags_neq_Panic by (fastforce simp: moles_by_flags_def)
  show "burnability w h temperature \<noteq> Panic"
    using index burnable_neq_Panic by (fastforce simp: burnability_def Let_def split: prod.splits)
qed

lemma snapshot_neq_Panic: "world_snapshot w h \<noteq> Panic"
  by (simp add: world_snapshot_def)

text \<open>One rule for each command that changes something.\<close>

named_theorems command_steps

lemma world_heat_capacity_world: "world_heat_capacity w m = Ok x \<Longrightarrow> \<exists>registry. wd_gas_registry w = Some registry"
  by (auto simp: world_heat_capacity_def)

lemma set_moles_step [command_steps]: "world_ready w \<Longrightarrow> command_step {h} w (set_moles h gas amount w)"
  unfolding set_moles_def by (rule change_after_step) (auto intro: plain_mutations)

lemma set_mixture_same: "require_handle (wd_mixtures w) h = Ok m \<Longrightarrow> set_mixture h m w = w"
proof -
  assume "require_handle (wd_mixtures w) h = Ok m"
  then have "(wd_mixtures w ! unat (mh_slot h))\<lparr>ms_mixture := Some m\<rparr> = wd_mixtures w ! unat (mh_slot h)"
    by (simp add: require_handle_slot)
  then show ?thesis by (simp add: set_mixture_def)
qed

lemma mutate_unchanged:
  assumes "mutate_mixture h f w = (Ok False, w')" and "\<And>m m'. f m = (False, m') \<Longrightarrow> m' = m"
  shows "w' = w"
  using assms(1) by (auto simp: mutate_mixture_def set_mixture_same dest!: assms(2) split: result.splits if_splits prod.splits)

lemma adjust_moles_step [command_steps]:
  assumes "world_ready w"
  shows "command_step {h} w (adjust_moles h gas delta w)"
  unfolding adjust_moles_def
proof (rule command_step_with, simp)
  fix i
  have "command_step {h} w (mutate_mixture h (unless_immutable (adjust_amount_of i delta)) w)"
    by (rule mutate_step [OF assms]) (auto intro: unless_immutable_ok plain_mutations)
  moreover have same: "w' = w" if "mutate_mixture h (unless_immutable (adjust_amount_of i delta)) w = (Ok False, w')" for w'
    using that by (rule mutate_unchanged) (auto simp: unless_immutable_def adjust_amount_of_def set_amount_of_def Let_def split: if_splits)
  ultimately show "command_step {h} w (case mutate_mixture h (unless_immutable (adjust_amount_of i delta)) w of
         (Ok True, w) \<Rightarrow> (Ok (Applied 1), w)
       | (Ok False, w) \<Rightarrow>
           (rbind (require_handle (wd_mixtures w) h) (\<lambda>m.
            if \<not> mx_immutable m \<and> f64_less wide_f32_max (f64_add (widen (mx_gases m ! i)) (widen delta))
            then Err (MoleOverflow gas) else Ok (Applied 0)), w)
       | (Err e, w) \<Rightarrow> (Err e, w) | (Panic, w) \<Rightarrow> (Panic, w))"
    using assms by (cases "require_handle (wd_mixtures w) h")
      (auto split: prod.split result.split bool.split dest!: same)
qed

lemma adjust_moles_temperature_step [command_steps]:
  assumes ready: "world_ready w"
  shows "command_step {h} w (adjust_moles_temperature h gas amount temperature w)"
proof -
  have "added_gas gas amount temperature h w \<noteq> Panic"
    using world_gas_index_small [OF ready] live_row [OF ready, of h] by (auto simp: added_gas_def element_Ok Let_def)
  then show ?thesis
    unfolding adjust_moles_temperature_def using ready
    by (intro command_step_with) (auto intro!: change_after_step simp: mutation_ok_def split: prod.split)
qed

lemma adjust_multiple_step [command_steps]:
  assumes ready: "world_ready w"
  shows "command_step {h} w (adjust_multiple h adjustments w)"
proof -
  have "rfold (plan_adjustment w m) adjustments adjusted \<noteq> Panic" if "require_handle (wd_mixtures w) h = Ok m" for m adjusted
  proof (rule rfold_neq_Panic)
    show "plan_adjustment w m i s \<noteq> Panic" for i s
      using world_gas_index_small(1) [OF ready] live_row [OF ready that]
      by (cases i) (auto simp: plan_adjustment_def element_Ok Let_def split: option.splits)
  qed
  then show ?thesis
    unfolding adjust_multiple_def using ready by (intro change_after_step) (auto intro: adjust_multiple_ok)
qed

lemma copy_from_step [command_steps]: "world_ready w \<Longrightarrow> command_step {a} w (copy_from a b w)"
  unfolding copy_from_def using live_row [of w a] live_row [of w b]
  by (intro change_after_step) (auto intro!: plain_mutations split: if_splits)

lemma adjust_heat_step [command_steps]: "world_ready w \<Longrightarrow> command_step {h} w (adjust_heat h heat w)"
  unfolding adjust_heat_def
  by (rule change_after_step) (auto intro: plain_mutations mutation_kept [unfolded mutation_ok_def] simp: mutation_ok_def set_temperature_of_def)

lemma equalize_step [command_steps]: "world_ready w \<Longrightarrow> command_step {a} w (equalize_mixture a b w)"
  unfolding equalize_mixture_def using live_row [of w a] live_row [of w b]
  by (intro command_step_with) (auto intro!: mutate_step unless_immutable_ok equalize_ok split: if_splits)

lemma temperature_share_step [command_steps]:
  assumes ready: "world_ready w"
  shows "command_step {a, b} w (temperature_share a b coefficient w)"
  unfolding temperature_share_def
proof (rule command_step_with)
  show "(if a = b then Err (SameMixtureHandles a)
         else rbind (checked_f32 (f32_is_finite coefficient) InvalidConductivity) (\<lambda>_.
           rbind (require_handle (wd_mixtures w) a) (\<lambda>f. rbind (require_handle (wd_mixtures w) b) (\<lambda>s.
           rbind (shared_temperatures w coefficient f s) (\<lambda>(x, y). Ok (f, s, x, y)))))) \<noteq> Panic"
    by (auto simp: shared_temperatures_def Let_def split: prod.splits)
qed (use ready in \<open>auto simp: shared_temperatures_def Let_def split: if_splits prod.splits intro!: commit_pair_step\<close>)

lemma temperature_share_non_gas_step [command_steps]:
  assumes ready: "world_ready w"
  shows "command_step {h} w (temperature_share_non_gas h coefficient temperature capacity w)"
proof -
  have kept: "mx_immutable m \<Longrightarrow> t = mx_temperature m"
    if "shared_with_body w coefficient m temperature capacity = Ok (t, t')" for m t t'
    using that by (auto simp: shared_with_body_def Let_def split: if_splits)
  have "command_step {h} w (mutate_mixture h (set_temperature_of t) w)"
    if "\<And>m. require_handle (wd_mixtures w) h = Ok m \<Longrightarrow> mx_immutable m \<Longrightarrow> t = mx_temperature m" for t
    using that by (intro mutate_step [OF ready]) (auto simp: mutation_ok_def set_temperature_of_def has_nan_def f32_eq_same)
  moreover have "shared_with_body w coefficient m temperature capacity \<noteq> Panic" for m
    by (auto simp: shared_with_body_def Let_def)
  ultimately show ?thesis
    unfolding temperature_share_non_gas_def
    by (intro command_step_with) (auto split: prod.split, metis kept)
qed

lemma ratio_of_amount_neq_Panic [simp]: "ratio_of_amount source amount w \<noteq> Panic"
  by (simp add: ratio_of_amount_def Let_def)

lemma transfer_by_flags_step [command_steps]: "world_ready w \<Longrightarrow> command_step {a, b} w (transfer_by_flags a b flags amount w)"
  unfolding transfer_by_flags_def Let_def
  by (auto intro!: command_step_with transfer_gases_step)

lemma merge_command_step [command_steps]:
  assumes "world_ready w"
  shows "command_step {a} w (case merge_mixtures a b w of
        (Ok _, w) \<Rightarrow> (rbind (require_handle (wd_mixtures w) a) (\<lambda>m. Ok (Applied (of_bool (\<not> mx_immutable m)))), w)
      | (Err e, w) \<Rightarrow> (Err e, w) | (Panic, w) \<Rightarrow> (Panic, w))"
proof (cases "merge_mixtures a b w")
  case (Pair r w')
  show ?thesis
  proof (cases r)
    case (Ok u)
    have step: "mixtures_step {a} w w'" using merge_step [OF assms, of a b] by (simp add: Pair Ok)
    have "\<exists>m. require_handle (wd_mixtures w) a = Ok m"
      using Pair Ok by (cases "require_handle (wd_mixtures w) a") (auto simp: merge_mixtures_def split: if_splits)
    then obtain m where "require_handle (wd_mixtures w') a = Ok m" using step by (auto simp: mixtures_step_def)
    then show ?thesis using step by (simp add: Pair Ok)
  qed (use merge_step [OF assms, of a b] in \<open>simp_all add: Pair\<close>)
qed

lemma apply_command_step:
  assumes "world_ready w" and "\<And>token. command \<noteq> ResumeReactionCommand token"
  shows "command_step (changed_handles command) w (apply_command clock command w)"
proof (cases command)
  case (ResumeReactionCommand token)
  then show ?thesis using assms(2) by simp
qed (simp_all add: assms(1) command_steps reading_step read_registered_neq_Panic flags_neq_Panic snapshot_neq_Panic
    change_after_step plain_mutations multiply_ok add_ok remove_ratio_step transfer_gases_step transfer_ratio_step
    share_ratio_step command_step_with compare_mixtures_def world_gas_index_small)

section \<open>Batches of records\<close>

text \<open>What a state makes of a record.\<close>

definition stored_record :: "mixture_state \<Rightarrow> mixture_record \<Rightarrow> mixture_record" where
  "stored_record s m = (if mx_immutable m then m
     else m\<lparr>mx_temperature := st_temperature s, mx_volume := st_volume s, mx_gases := canonicalize_gases (st_gases s),
       mx_revision := mx_revision m + 1\<rparr>)"

lemma store_state_step:
  assumes "world_ready w" and "require_handle (wd_mixtures w) (st_handle s) = Ok m" and "length (st_gases s) = world_gas_slots"
    and "\<not> mx_immutable m \<Longrightarrow> mx_revision m \<noteq> word_of_nat u32_max"
  shows "store_state s w = Ok (set_mixture (st_handle s) (stored_record s m) w)"
    and "mixtures_step {st_handle s} w (set_mixture (st_handle s) (stored_record s m) w)"
proof -
  have "record_step m (stored_record s m)"
    using assms live_row [OF assms(1,2)] revision_successor [of "mx_revision m"]
    by (simp add: record_step_def next_record_def stored_record_def)
  from set_mixture_step [OF assms(1,2) this]
  show "mixtures_step {st_handle s} w (set_mixture (st_handle s) (stored_record s m) w)" by simp
  show "store_state s w = Ok (set_mixture (st_handle s) (stored_record s m) w)"
    using assms by (simp add: store_state_def stored_record_def set_mixture_same)
qed

lemma check_mixture_state_neq_Panic [simp]: "check_mixture_state mixtures s \<noteq> Panic"
  by (simp add: check_mixture_state_def)

lemma check_mixture_state_Ok: "check_mixture_state mixtures s = Ok u \<longleftrightarrow>
    (\<exists>m. require_handle mixtures (st_handle s) = Ok m \<and> mx_revision m = st_expected_revision s \<and> valid_mixture_state s \<and>
       (\<not> mx_immutable m \<longrightarrow> mx_revision m \<noteq> word_of_nat u32_max))"
  by (auto simp: check_mixture_state_def)

lemma first_repeated_sorted: "sorted xs \<Longrightarrow> first_repeated xs = None \<longleftrightarrow> distinct xs"
  by (induction xs rule: first_repeated.induct) auto

definition state_after :: "mixture_state list \<Rightarrow> world \<Rightarrow> mixture_handle \<Rightarrow> (mixture_record, world_error) result" where
  "state_after states w h = (case find (\<lambda>s. st_handle s = h) states of
     None \<Rightarrow> require_handle (wd_mixtures w) h
   | Some s \<Rightarrow> rbind (require_handle (wd_mixtures w) h) (\<lambda>m. Ok (stored_record s m)))"

lemma store_states:
  assumes "world_ready w" and "distinct (map (\<lambda>s. mh_slot (st_handle s)) states)"
    and "\<And>s. s \<in> set states \<Longrightarrow> length (st_gases s) = world_gas_slots \<and> check_mixture_state (wd_mixtures w) s = Ok ()"
  shows "\<exists>w'. rfold store_state states w = Ok w' \<and> mixtures_step (st_handle ` set states) w w' \<and>
    (\<forall>h. require_handle (wd_mixtures w') h = state_after states w h)"
  using assms
proof (induction states arbitrary: w)
  case (Cons s states)
  have s: "length (st_gases s) = world_gas_slots" "check_mixture_state (wd_mixtures w) s = Ok ()" using Cons.prems(3) by simp_all
  then obtain m where m: "require_handle (wd_mixtures w) (st_handle s) = Ok m"
    and "\<not> mx_immutable m \<Longrightarrow> mx_revision m \<noteq> word_of_nat u32_max" by (auto simp: check_mixture_state_Ok)
  note stored = store_state_step [OF Cons.prems(1) m s(1) this(2)]
  let ?w = "set_mixture (st_handle s) (stored_record s m) w"
  have others: "st_handle t \<noteq> st_handle s" if "t \<in> set states" for t using Cons.prems(2) that by (force simp: image_iff)
  have "world_ready ?w" using stored(2) by (simp add: mixtures_step_def)
  then obtain w' where w': "rfold store_state states ?w = Ok w'" "mixtures_step (st_handle ` set states) ?w w'"
    "\<And>h. require_handle (wd_mixtures w') h = state_after states ?w h"
    using Cons.IH [of ?w] Cons.prems(2,3) others by (auto simp: check_mixture_state_def require_set_mixture [OF m])
  have "mixtures_step (st_handle ` set (s # states)) w w'"
    using mixtures_step_trans [OF stored(2) w'(2)] others by fastforce
  moreover have "state_after states ?w h = state_after (s # states) w h" for h
  proof (cases "h = st_handle s")
    case True
    then have "find (\<lambda>t. st_handle t = h) states = None" using others by (auto simp: find_None_iff)
    then show ?thesis using True m by (simp add: state_after_def require_set_mixture [OF m])
  qed (simp add: state_after_def require_set_mixture [OF m] split: option.split)
  ultimately show ?case using w'(1,3) stored(1) by simp
qed (simp add: state_after_def)

lemma apply_mixture_state_result:
  assumes ready: "world_ready w" and rows: "\<And>s. s \<in> set states \<Longrightarrow> length (st_gases s) = world_gas_slots"
  shows "case apply_mixture_state alloc states w of
      (Ok n, w') \<Rightarrow> n = word_of_nat (length states) \<and> mixtures_step (st_handle ` set states) w w' \<and>
        (\<forall>h. require_handle (wd_mixtures w') h = state_after states w h) \<and>
        (\<forall>s \<in> set states. check_mixture_state (wd_mixtures w) s = Ok ()) \<and> distinct (map (\<lambda>s. mh_slot (st_handle s)) states)
    | (Err e, w') \<Rightarrow> w' = w \<and> (alloc \<longrightarrow> (\<exists>s \<in> set states. check_mixture_state (wd_mixtures w) s \<noteq> Ok ()) \<or>
        \<not> distinct (map (\<lambda>s. mh_slot (st_handle s)) states))
    | (Panic, _) \<Rightarrow> False"
proof (cases "alloc \<and> rforeach (check_mixture_state (wd_mixtures w)) states = Ok () \<and> distinct (map (\<lambda>s. mh_slot (st_handle s)) states)")
  case True
  then have checks: "check_mixture_state (wd_mixtures w) s = Ok ()" if "s \<in> set states" for s using that by (auto simp: rforeach_eq_Ok)
  obtain w' where "rfold store_state states w = Ok w'" "mixtures_step (st_handle ` set states) w w'"
    "\<forall>h. require_handle (wd_mixtures w') h = state_after states w h"
    using store_states [OF ready, of states] True checks rows by auto
  moreover have "first_repeated (sort (map (\<lambda>s. mh_slot (st_handle s)) states)) = None"
    using True first_repeated_sorted by simp
  ultimately show ?thesis using True checks by (simp add: apply_mixture_state_def)
next
  case False
  show ?thesis
  proof (cases "rforeach (check_mixture_state (wd_mixtures w)) states")
    case (Ok u)
    then have "alloc \<Longrightarrow> first_repeated (sort (map (\<lambda>s. mh_slot (st_handle s)) states)) \<noteq> None"
      using False first_repeated_sorted by simp
    then show ?thesis using False Ok by (cases alloc) (auto simp: apply_mixture_state_def)
  next
    case (Err e)
    then have "\<exists>s \<in> set states. check_mixture_state (wd_mixtures w) s \<noteq> Ok ()"
      using rforeach_eq_Ok [of "check_mixture_state (wd_mixtures w)" states] by auto
    then show ?thesis using Err by (cases alloc) (simp_all add: apply_mixture_state_def)
  next
    case Panic
    then show ?thesis using rforeach_neq_Panic [of states "check_mixture_state (wd_mixtures w)"] by simp
  qed
qed

section \<open>Pipe networks\<close>

lemma unique_mixture_neq_Panic: "rfold (unique_mixture mixtures) handles seen \<noteq> Panic"
  by (rule rfold_neq_Panic) (simp add: unique_mixture_def)

text \<open>A network can be changed when its handles are live and no mutable mixture of it is at its last revision.\<close>

definition network_ready :: "mixture_slot list \<Rightarrow> mixture_handle list \<Rightarrow> bool" where
  "network_ready mixtures handles \<longleftrightarrow> (\<forall>h \<in> set handles. case require_handle mixtures h of
     Ok m \<Rightarrow> mx_immutable m \<or> mx_revision m + 1 \<noteq> 0 | _ \<Rightarrow> False)"

lemma last_revision: "r = word_of_nat u32_max \<longleftrightarrow> r + 1 = 0" for r :: u32
proof -
  have "word_of_nat u32_max = (- 1 :: u32)" by (simp add: u32_max_def)
  then show ?thesis by (metis eq_neg_iff_add_eq_0)
qed

lemma unique_mixtures:
  "rfold (unique_mixture mixtures) handles [] = Ok unique \<longleftrightarrow> unique = rev (remdups (rev handles)) \<and> network_ready mixtures handles"
proof (induction handles arbitrary: unique rule: rev_induct)
  case (snoc h handles)
  have again: "network_ready mixtures handles \<longleftrightarrow> network_ready mixtures (handles @ [h])" if "h \<in> set handles"
    using that by (auto simp: network_ready_def)
  show ?case
  proof (cases "h \<in> set handles")
    case True
    then show ?thesis using snoc again by (auto simp: rfold_append unique_mixture_def)
  next
    case False
    then show ?thesis
      using snoc by (cases "require_handle mixtures h")
        (auto simp: rfold_append unique_mixture_def network_ready_def last_revision split: if_splits)
  qed
qed (auto simp: network_ready_def)

text \<open>The records of a network, each once in the order of their first mention, and their sums.\<close>

definition live_record :: "world \<Rightarrow> mixture_handle \<Rightarrow> mixture_record" where
  "live_record w h = (case require_handle (wd_mixtures w) h of Ok m \<Rightarrow> m | _ \<Rightarrow> mixture_record_new)"

definition network :: "world \<Rightarrow> mixture_handle list \<Rightarrow> mixture_record list" where
  "network w handles = map (live_record w) (rev (remdups (rev handles)))"

definition capacity_of :: "world \<Rightarrow> mixture_record \<Rightarrow> f32" where
  "capacity_of w m = (case wd_gas_registry w of Some registry \<Rightarrow> record_heat_capacity m (gr_specific_heats registry) | None \<Rightarrow> 0)"

definition total_of :: "(mixture_record \<Rightarrow> f32) \<Rightarrow> mixture_record list \<Rightarrow> f32" where
  "total_of f ms = foldl (\<lambda>total m. f32_add total (f m)) 0 ms"

definition network_sums :: "world \<Rightarrow> mixture_record list \<Rightarrow> pipenet_sums" where
  "network_sums w ms = \<lparr>pn_gases = map (\<lambda>gas. total_of (\<lambda>m. mx_gases m ! gas) ms) [0..<world_gas_slots],
     pn_thermal_energy = total_of (\<lambda>m. f32_mul (mx_temperature m) (capacity_of w m)) ms,
     pn_heat_capacity = total_of (capacity_of w) ms, pn_volume = total_of mx_volume ms\<rparr>"

lemma total_of_snoc: "total_of f (ms @ [m]) = f32_add (total_of f ms) (f m)"
  by (simp add: total_of_def)

lemma sum_mixtures:
  assumes ready: "world_ready w" and live: "\<And>h. h \<in> set handles \<Longrightarrow> require_handle (wd_mixtures w) h = Ok (live_record w h)"
  defines "start \<equiv> \<lparr>pn_gases = replicate world_gas_slots 0, pn_thermal_energy = 0, pn_heat_capacity = 0, pn_volume = 0\<rparr>"
  shows "rfold (sum_mixture w) handles start =
    (if handles = [] \<or> wd_gas_registry w \<noteq> None then Ok (network_sums w (map (live_record w) handles)) else Err GasRegistryMissing)"
  using live
proof (induction handles rule: rev_induct)
  case Nil
  show ?case
    by (simp add: start_def network_sums_def total_of_def map_replicate_const)
next
  case (snoc h handles)
  have row: "length (mx_gases (live_record w h)) = world_gas_slots" using live_row [OF ready snoc.prems [of h]] by simp
  have gases: "map2 f32_add (map (\<lambda>gas. total_of (\<lambda>m. mx_gases m ! gas) ms) [0..<world_gas_slots]) (mx_gases (live_record w h)) =
      map (\<lambda>gas. total_of (\<lambda>m. mx_gases m ! gas) (ms @ [live_record w h])) [0..<world_gas_slots]" for ms
    by (rule nth_equalityI) (simp_all add: row total_of_snoc)
  show ?case
  proof (cases "wd_gas_registry w")
    case None
    then show ?thesis
      using snoc by (cases "handles = []") (simp_all add: rfold_append sum_mixture_def world_heat_capacity_def)
  next
    case (Some registry)
    then show ?thesis
      using snoc gases [of "map (live_record w) handles"]
      by (simp add: rfold_append sum_mixture_def world_heat_capacity_def network_sums_def total_of_snoc capacity_of_def)
  qed
qed

text \<open>The record of a mixture of the network after it was equalized.\<close>

definition equalized_record :: "pipenet_sums \<Rightarrow> mixture_handle \<Rightarrow> mixture_record \<Rightarrow> mixture_record" where
  "equalized_record totals h m = stored_record (pipenet_share totals h m) m"

lemma rmap_values: "(\<And>i. i \<in> set is \<Longrightarrow> f i = Ok (g i)) \<Longrightarrow> rmap f is = Ok (map g is)"
  by (induction "is") auto

lemma st_handle_share [simp]: "st_handle (pipenet_share totals h m) = h"
  by (simp add: pipenet_share_def Let_def)

lemma find_share:
  "find (\<lambda>s. st_handle s = h) (map (\<lambda>h. pipenet_share totals h (g h)) handles) =
     (if h \<in> set handles then Some (pipenet_share totals h (g h)) else None)"
  by (induction handles) simp_all

lemma network_live: "network_ready (wd_mixtures w) handles \<Longrightarrow> h \<in> set handles \<Longrightarrow>
    require_handle (wd_mixtures w) h = Ok (live_record w h) \<and> (mx_immutable (live_record w h) \<or> mx_revision (live_record w h) + 1 \<noteq> 0)"
  by (auto simp: network_ready_def live_record_def split: result.splits)

lemma network_slots:
  fixes w :: world
  assumes "network_ready (wd_mixtures w) handles"
  shows "distinct (map mh_slot (rev (remdups (rev handles))))"
proof -
  have "mixture_handle.mh_generation h = mixture_handle.mh_generation h'" if "h \<in> set handles" "h' \<in> set handles" "mh_slot h = mh_slot h'" for h h'
    using network_live [OF assms that(1)] network_live [OF assms that(2)] that(3) by (auto simp: require_handle_slot)
  then have "inj_on mh_slot (set handles)" by (intro inj_onI mixture_handle.expand) blast
  then show ?thesis by (simp add: distinct_map)
qed

lemma share_checked:
  fixes w :: world
  assumes "network_ready (wd_mixtures w) handles" and "h \<in> set handles"
  shows "check_mixture_state (wd_mixtures w) (pipenet_share totals h (live_record w h)) = Ok () \<longleftrightarrow>
    valid_mixture_state (pipenet_share totals h (live_record w h))"
  using network_live [OF assms] by (auto simp: check_mixture_state_Ok last_revision) (auto simp: pipenet_share_def Let_def)

lemma reconcile_result:
  fixes handles
  assumes ready: "world_ready w"
  defines "totals \<equiv> network_sums w (network w handles)"
  shows "case reconcile_pipenet alloc handles w of
      (Ok unique, w') \<Rightarrow> unique = rev (remdups (rev handles)) \<and> network_ready (wd_mixtures w) handles \<and> mixtures_step (set handles) w w' \<and>
        (if f32_eq (pn_volume totals) 0 then w' = w
         else (\<forall>h \<in> set handles. valid_mixture_state (pipenet_share totals h (live_record w h))) \<and>
           (\<forall>h. require_handle (wd_mixtures w') h =
             rbind (require_handle (wd_mixtures w) h) (\<lambda>m. Ok (if h \<in> set handles then equalized_record totals h m else m))))
    | (Err e, w') \<Rightarrow> w' = w \<and> \<not> (alloc = (True, True, True) \<and> network_ready (wd_mixtures w) handles \<and>
        (handles = [] \<or> wd_gas_registry w \<noteq> None) \<and>
        (f32_eq (pn_volume totals) 0 \<or> (\<forall>h \<in> set handles. valid_mixture_state (pipenet_share totals h (live_record w h)))))
    | (Panic, _) \<Rightarrow> False"
proof -
  obtain a b c where alloc: "alloc = (a, b, c)" by (cases alloc)
  let ?unique = "rev (remdups (rev handles))"
  let ?start = "\<lparr>pn_gases = replicate world_gas_slots 0, pn_thermal_energy = 0, pn_heat_capacity = 0, pn_volume = 0\<rparr>"
  let ?states = "map (\<lambda>h. pipenet_share totals h (live_record w h)) ?unique"
  have set: "set ?unique = set handles" by simp
  consider (memory) "\<not> a" | (mixtures) "a" "\<not> network_ready (wd_mixtures w) handles"
    | (registry) "a" "network_ready (wd_mixtures w) handles" "handles \<noteq> []" "wd_gas_registry w = None"
    | (summed) "a" "network_ready (wd_mixtures w) handles" "handles = [] \<or> wd_gas_registry w \<noteq> None"
    by blast
  then show ?thesis
  proof cases
    case memory
    then show ?thesis by (simp add: reconcile_pipenet_def alloc)
  next
    case mixtures
    then obtain e where "rfold (unique_mixture (wd_mixtures w)) handles [] = Err e"
      using unique_mixtures [of "wd_mixtures w" handles] unique_mixture_neq_Panic [of "wd_mixtures w" handles "[]"]
      by (cases "rfold (unique_mixture (wd_mixtures w)) handles []") auto
    then show ?thesis using mixtures by (simp add: reconcile_pipenet_def alloc)
  next
    case registry
    have unique: "rfold (unique_mixture (wd_mixtures w)) handles [] = Ok ?unique"
      using registry(2) by (simp add: unique_mixtures)
    have "rfold (sum_mixture w) ?unique ?start = Err GasRegistryMissing"
      using sum_mixtures [OF ready, of ?unique] network_live [OF registry(2)] registry(3,4) by simp
    then show ?thesis using registry by (simp add: reconcile_pipenet_def alloc unique)
  next
    case summed
    note live = network_live [OF summed(2)]
    have unique: "rfold (unique_mixture (wd_mixtures w)) handles [] = Ok ?unique"
      using summed(2) by (simp add: unique_mixtures)
    have sums: "rfold (sum_mixture w) ?unique ?start = Ok totals"
      using sum_mixtures [OF ready, of ?unique] live summed(3) by (auto simp: totals_def network_def)
    have states: "rmap (\<lambda>h. rbind (require_handle (wd_mixtures w) h) (\<lambda>m. Ok (pipenet_share totals h m))) ?unique = Ok ?states"
      using live set by (intro rmap_values) force
    show ?thesis
    proof (cases "f32_eq (pn_volume totals) 0 \<or> \<not> b")
      case True
      then show ?thesis using ready summed by (auto simp: reconcile_pipenet_def alloc unique sums)
    next
      case False
      have run: "reconcile_pipenet alloc handles w = answering (\<lambda>_. ?unique) (apply_mixture_state c ?states w)"
        using False summed(1) by (simp add: reconcile_pipenet_def alloc unique sums states)
      have "length (st_gases s) = world_gas_slots" if "s \<in> set ?states" for s
        using that by (auto simp: pipenet_share_def Let_def totals_def network_sums_def)
      note result = apply_mixture_state_result [OF ready this, of ?states c]
      have after: "state_after ?states w h =
          rbind (require_handle (wd_mixtures w) h) (\<lambda>m. Ok (if h \<in> set handles then equalized_record totals h m else m))" for h
        using live [of h] by (cases "require_handle (wd_mixtures w) h")
          (auto simp: state_after_def find_share equalized_record_def)
      have handles: "st_handle ` set ?states = set handles" by (force simp: set)
      have checks: "(\<forall>s \<in> set ?states. check_mixture_state (wd_mixtures w) s = Ok ()) \<longleftrightarrow>
          (\<forall>h \<in> set handles. valid_mixture_state (pipenet_share totals h (live_record w h)))"
        using share_checked [OF summed(2)] by simp
      have slots: "distinct (map (\<lambda>s. mh_slot (st_handle s)) ?states)"
        using network_slots [OF summed(2)] by (simp add: comp_def)
      obtain r w' where stored: "apply_mixture_state c ?states w = (r, w')" by (cases "apply_mixture_state c ?states w")
      note result = result [unfolded stored prod.case]
      show ?thesis
      proof (cases r)
        case (Ok n)
        then show ?thesis using result False summed(2) checks after handles by (simp add: run stored answering_def)
      next
        case (Err e)
        then have "c \<Longrightarrow> \<not> (\<forall>s \<in> set ?states. check_mixture_state (wd_mixtures w) s = Ok ())"
          using result slots by auto
        then have "\<not> (c \<and> (\<forall>h \<in> set handles. valid_mixture_state (pipenet_share totals h (live_record w h))))"
          unfolding checks by blast
        moreover have "reconcile_pipenet alloc handles w = (Err e, w')" by (simp add: run stored Err answering_def)
        ultimately show ?thesis using result Err False alloc by auto
      qed (use result in simp)
    qed
  qed
qed

end
