(* ===== verification/World_Runs.thy ===== *)
theory World_Runs
  imports World_Changes
begin

text \<open>
  Runs of the world: any sequence of batches, mixture commands, reactions, continuations and events, whatever fails
  on the way. What holds of the world after every run, and what becomes of a handle. A run has no chunk of a simulation
  stage and no frontier request, so that no stage is active in it.
\<close>

section \<open>Turf slots that batches leave alone\<close>

definition turf_slots :: "world \<Rightarrow> u32 \<Rightarrow> projected_slot" where
  "turf_slots w = projected_turf_slot (wd_turfs w)"

lemma turf_slots_update [simp]:
  "turf_slots (w\<lparr>wd_mixtures := mixtures\<rparr>) = turf_slots w"
  "turf_slots (w\<lparr>wd_topology := topology\<rparr>) = turf_slots w"
  "turf_slots (w\<lparr>wd_heat_active := active\<rparr>) = turf_slots w"
  "turf_slots (w\<lparr>wd_mixture_edges := keys\<rparr>) = turf_slots w"
  "turf_slots (w\<lparr>wd_edges := edges\<rparr>) = turf_slots w"
  "turf_slots (w\<lparr>wd_graph := graph\<rparr>) = turf_slots w"
  by (simp_all add: turf_slots_def)

lemma update_turf_slots [simp]: "turf_slots (update_turf slot f w) = turf_slots w"
proof -
  have gens: "cs_generation (slot_at (upd_turf slot f turfs) x) = cs_generation (slot_at turfs x)"
    "(turf_at (upd_turf slot f turfs) x = None) = (turf_at turfs x = None)" for turfs x
    by simp_all
  then show ?thesis
    by (simp add: turf_slots_def update_turf_eq projected_turf_slot_eq fun_eq_iff del: upd_turf_simps not_None_eq)
qed

lemma heat_slots:
  "deactivate_turf_heat_slot slot w = Ok w' \<Longrightarrow> turf_slots w' = turf_slots w"
  "activate_turf_heat alloc h w = Ok w' \<Longrightarrow> turf_slots w' = turf_slots w"
  "on_topology f w = Ok w' \<Longrightarrow> turf_slots w' = turf_slots w"
  by (auto simp: deactivate_turf_heat_slot_def activate_turf_heat_def on_topology_def Let_def
      split: option.splits if_splits result.splits prod.splits)

lemma partner_slots: "rbind (on_topology f w) (on_topology g) = Ok w' \<Longrightarrow> turf_slots w' = turf_slots w"
  by (auto dest!: heat_slots(3))

lemma remove_incident_heat_edges_slots:
  assumes "remove_incident_heat_edges slot w = Ok w'"
  shows "turf_slots w' = turf_slots w"
proof -
  obtain w1 where w1: "on_topology (remove_slot slot) w = Ok w1"
    using assms by (auto simp: remove_incident_heat_edges_def Let_def)
  have "turf_slots w' = turf_slots w1"
  proof (cases "current_turf_handle (wd_turfs w1) slot")
    case (Ok current)
    let ?partners = "case current_turf_handle (wd_turfs w) slot of Ok handle \<Rightarrow> gas_neighbors (wd_topology w) handle | _ \<Rightarrow> []"
    have run: "rfold (\<lambda>other w. rbind (on_topology (connect_gas (\<lambda>_. True) current (tn_handle other)) w)
        (on_topology (set_firelock current (tn_handle other) (tn_firelock other)))) ?partners w1 = Ok w'"
      using assms by (simp add: remove_incident_heat_edges_def Let_def w1 Ok)
    show ?thesis by (rule rfold_keeps [OF partner_slots run])
  qed (use assms in \<open>simp_all add: remove_incident_heat_edges_def Let_def w1\<close>)
  then show ?thesis using heat_slots(3) [OF w1] by simp
qed

lemma apply_turf_heat_slots [simp]: "turf_slots (snd (apply_turf_heat alloc mutations w)) = turf_slots w"
proof -
  have "turf_slots (snd (apply_turf_heat_mutation m w)) = turf_slots w" for m w
    by (auto simp: apply_turf_heat_mutation_def Let_def split: option.split result.split if_splits
        dest!: heat_slots remove_incident_heat_edges_slots)
  then show ?thesis by (simp add: apply_turf_heat_def keep_loop_keeps split: result.split)
qed

lemma try_topology_slots [simp]: "turf_slots (snd (try_topology f w)) = turf_slots w"
  by (auto simp: try_topology_def split: prod.split result.split topology_error.split)

lemma topology_batches_slots [simp]:
  "turf_slots (snd (apply_turf_adjacency oracle mutations w)) = turf_slots w"
  "turf_slots (snd (apply_turf_heat_adjacency oracle mutations w)) = turf_slots w"
  "turf_slots (snd (apply_turf_firelocks firelocks w)) = turf_slots w"
proof -
  have "turf_slots (snd (apply_turf_adjacency_mutation oracle m w)) = turf_slots w" for m w
    by (simp add: apply_turf_adjacency_mutation_def split: result.split)
  then show "turf_slots (snd (apply_turf_adjacency oracle mutations w)) = turf_slots w"
    by (simp add: apply_turf_adjacency_def keep_loop_keeps)
  have "turf_slots (snd (apply_turf_heat_adjacency_mutation oracle m w)) = turf_slots w" for m w
    by (simp add: apply_turf_heat_adjacency_mutation_def split: result.split)
  then show "turf_slots (snd (apply_turf_heat_adjacency oracle mutations w)) = turf_slots w"
    by (simp add: apply_turf_heat_adjacency_def keep_loop_keeps)
  have "turf_slots (snd (apply_turf_firelock_mutation m w)) = turf_slots w" for m w
    by (simp add: apply_turf_firelock_mutation_def split: result.split)
  then show "turf_slots (snd (apply_turf_firelocks firelocks w)) = turf_slots w"
    by (simp add: apply_turf_firelocks_def keep_loop_keeps)
qed

lemma apply_adjacency_slots [simp]: "turf_slots (snd (apply_adjacency mutations w)) = turf_slots w"
proof -
  have "turf_slots (fst (snd (apply_adjacency_mutation m s))) = turf_slots (fst s)" for m s
    by (cases s) (auto simp: apply_adjacency_mutation_def remove_mixture_edge_def unlink_mixture_edge_def
        insert_mixture_edge_def split: result.split option.split)
  then have "turf_slots (fst (snd (keep_loop apply_adjacency_mutation mutations (w, False)))) = turf_slots w"
    using keep_loop_keeps [where g = "\<lambda>s. turf_slots (fst s)" and f = apply_adjacency_mutation] by simp
  then show ?thesis by (auto simp: apply_adjacency_def split: result.split prod.split)
qed

section \<open>Requests to the world\<close>

text \<open>
  The requests of a run: the two registries, the batches over mixtures and turfs and their connections, single commands,
  uploads and pipe networks, and what reacts, resumes, cancels and drains. \<^verbatim>\<open>process_stage_chunk\<close> and the frontier
  requests are not among them, nor are the setters of limits and the requests that only read.
\<close>

datatype (plugins only: size) world_op =
    InstallGases "gas_metadata list"
  | InstallReactions "reaction_metadata list"
  | MixtureLifecycle "bool \<times> bool" "core_lifecycle_mutation list"
  | TurfLifecycle "bool \<times> bool" "core_turf_mutation list"
  | TurfAdjacency "nat \<Rightarrow> bool" "core_turf_adjacency list"
  | TurfHeatAdjacency "nat \<Rightarrow> bool" "core_turf_adjacency list"
  | TurfFirelocks "core_turf_firelock list"
  | TurfHeat bool "core_turf_heat list"
  | MixtureAdjacency "core_adjacency list"
  | ReactMixture "nat \<Rightarrow> f32" mixture_handle gameplay_handle "f32 option" u32
  | MixtureCommand "nat \<Rightarrow> f32" core_command
  | MixtureStates bool "mixture_state list"
  | ReconcilePipenet "bool \<times> bool \<times> bool" "mixture_handle list"
  | ResumeReaction "nat \<Rightarrow> f32" continuation_token u32 u32
  | CancelReaction continuation_token
  | DrainEvents u32
  | DiscardEvents u32

text \<open>Only whether a request succeeds counts here, not what it answers.\<close>

definition outcome :: "('a, 'e) result \<times> 's \<Rightarrow> (unit, 'e) result \<times> 's" where
  "outcome m = (case m of (Ok _, s) \<Rightarrow> (Ok (), s) | (Err e, s) \<Rightarrow> (Err e, s) | (Panic, s) \<Rightarrow> (Panic, s))"

text \<open>A state that is uploaded holds an array of exactly 32 amounts.\<close>

definition array_state :: "mixture_state \<Rightarrow> mixture_state" where
  "array_state s = s\<lparr>st_gases := take world_gas_slots (st_gases s @ replicate world_gas_slots 0)\<rparr>"

lemma array_state_row [simp]: "length (st_gases (array_state s)) = world_gas_slots" "st_handle (array_state s) = st_handle s"
  by (simp_all add: array_state_def)

primrec world_request :: "nat \<times> nat \<Rightarrow> world_op \<Rightarrow> world \<Rightarrow> (unit, world_error) result \<times> world" where
  "world_request sizes (InstallGases gases) w = outcome (install_gases gases w)"
| "world_request sizes (InstallReactions reactions) w = outcome (install_reactions reactions w)"
| "world_request sizes (MixtureLifecycle alloc mutations) w = outcome (apply_lifecycle sizes alloc mutations w)"
| "world_request sizes (TurfLifecycle alloc mutations) w = outcome (apply_turf_lifecycle sizes alloc mutations w)"
| "world_request sizes (TurfAdjacency alloc mutations) w = outcome (apply_turf_adjacency alloc mutations w)"
| "world_request sizes (TurfHeatAdjacency alloc mutations) w = outcome (apply_turf_heat_adjacency alloc mutations w)"
| "world_request sizes (TurfFirelocks mutations) w = outcome (apply_turf_firelocks mutations w)"
| "world_request sizes (TurfHeat alloc mutations) w = outcome (apply_turf_heat alloc mutations w)"
| "world_request sizes (MixtureAdjacency mutations) w = outcome (apply_adjacency mutations w)"
| "world_request sizes (ReactMixture clock mixture target threshold limit) w =
     outcome (react_mixture_with_event_limit clock mixture target threshold limit w)"
| "world_request sizes (MixtureCommand clock command) w = outcome (apply_command clock command w)"
| "world_request sizes (MixtureStates alloc states) w = outcome (apply_mixture_state alloc (map array_state states) w)"
| "world_request sizes (ReconcilePipenet alloc handles) w = outcome (reconcile_pipenet alloc handles w)"
| "world_request sizes (ResumeReaction clock token reaction_result limit) w =
     outcome (resume_reaction clock token reaction_result limit w)"
| "world_request sizes (CancelReaction token) w = cancel_reaction token w"
| "world_request sizes (DrainEvents maximum) w = (Ok (), snd (drain_events maximum w))"
| "world_request sizes (DiscardEvents requested) w = discard_pending_events requested w"

lemma outcome_simps [simp]: "fst (outcome m) = Panic \<longleftrightarrow> fst m = Panic" "snd (outcome m) = snd m"
  by (cases m; cases "fst m"; auto simp: outcome_def)+

text \<open>The generations of both kinds of slots only advance.\<close>

definition slots_advance :: "world \<Rightarrow> world \<Rightarrow> bool" where
  "slots_advance w w' \<longleftrightarrow>
     (\<forall>x. projected_advances (projected_slot (wd_mixtures w) x) (projected_slot (wd_mixtures w') x)) \<and>
     (\<forall>x. projected_advances (turf_slots w x) (turf_slots w' x))"

lemma slots_advance_kept: "slots_kept w w' \<Longrightarrow> slots_advance w w'"
  by (simp add: slots_advance_def slots_kept_def turf_slots_def)

definition advancing_step :: "world \<Rightarrow> ('a, world_error) result \<times> world \<Rightarrow> bool" where
  "advancing_step w m \<longleftrightarrow> fst m \<noteq> Panic \<and> world_ready (snd m) \<and> slots_advance w (snd m)"

lemma ready_step_advances: "ready_step w m \<Longrightarrow> advancing_step w m"
  by (simp add: ready_step_def advancing_step_def safe_result_def slots_advance_kept)

lemma batch_advances:
  assumes "world_ready w" and "safe_result world_inv m" and "beside_turfs (snd m) = beside_turfs w"
    and "turf_slots (snd m) = turf_slots w"
  shows "advancing_step w m"
  using assms by (auto simp: advancing_step_def safe_result_def world_ready_def slots_advance_def beside_turfs_def)

lemma install_ready:
  assumes "world_ready w"
  shows "ready_step w (install_gases gases w)" and "ready_step w (install_reactions reactions w)"
proof -
  have registries: "world_inv (w\<lparr>wd_gas_registry := g\<rparr>) = world_inv w" "world_inv (w\<lparr>wd_reaction_registry := r\<rparr>) = world_inv w"
    "slots_kept w (w\<lparr>wd_gas_registry := g\<rparr>)" "slots_kept w (w\<lparr>wd_reaction_registry := r\<rparr>)" for g r
    by (simp_all add: world_inv_def slots_kept_def)
  show "ready_step w (install_gases gases w)"
  proof (cases "gas_registry_try_new gases")
    case (Ok g)
    then show ?thesis
      using assms by (auto simp: install_gases_def world_ready_def registries registries_built_def)
  qed (use assms gas_registry_result [of gases] in \<open>auto simp: install_gases_def\<close>)
  show "ready_step w (install_reactions reactions w)"
  proof (cases "wd_gas_registry w")
    case None
    then show ?thesis using assms by (simp add: install_reactions_def)
  next
    case (Some g)
    then obtain gs where g: "gas_registry_try_new gs = Ok g" using assms by (auto simp: world_ready_def registries_built_def)
    show ?thesis
    proof (cases "reaction_registry_try_new reactions g")
      case (Ok r)
      then show ?thesis
        using assms Some by (auto simp: install_reactions_def world_ready_def registries registries_built_def)
    qed (use assms Some reaction_registry_result [OF gas_registry_small [OF g], of reactions] in \<open>auto simp: install_reactions_def\<close>)
  qed
qed

lemma lifecycle_advances:
  assumes ready: "world_ready w"
  shows "advancing_step w (apply_lifecycle sizes alloc mutations w)"
    and "advancing_step w (apply_turf_lifecycle sizes alloc turf_mutations w)"
proof -
  have inv: "world_inv w" using ready by (simp add: world_ready_def)
  obtain r w' where run: "apply_lifecycle sizes alloc mutations w = (r, w')" by (cases "apply_lifecycle sizes alloc mutations w")
  have "registries w' = registries w \<and> gas_rows_ok (wd_mixtures w')"
    using apply_lifecycle_rows [of sizes alloc mutations w] ready run by (simp add: world_ready_def)
  then show "advancing_step w (apply_lifecycle sizes alloc mutations w)"
    using apply_lifecycle_result [OF inv run] ready
    by (auto simp: run advancing_step_def world_ready_def slots_advance_def turf_slots_def registries_def beside_turfs_def)
next
  have inv: "world_inv w" using ready by (simp add: world_ready_def)
  obtain r w' where run: "apply_turf_lifecycle sizes alloc turf_mutations w = (r, w')"
    by (cases "apply_turf_lifecycle sizes alloc turf_mutations w")
  have "beside_turfs w' = beside_turfs w" using apply_turf_lifecycle_beside [of sizes alloc turf_mutations w] run by simp
  then show "advancing_step w (apply_turf_lifecycle sizes alloc turf_mutations w)"
    using apply_turf_lifecycle_result [OF inv run] ready
    by (auto simp: run advancing_step_def world_ready_def slots_advance_def turf_slots_def beside_turfs_def)
qed

lemma events_ready:
  assumes "world_ready w"
  shows "ready_step w (Ok (), snd (drain_events maximum w))" and "ready_step w (discard_pending_events requested w)"
  using assms by (simp_all add: drain_events_def discard_pending_events_def Let_def world_ready_events)

text \<open>Commands and the batches of records.\<close>

lemma command_ready:
  assumes "world_ready w"
  shows "ready_step w (apply_command clock command w)"
proof (cases "\<exists>token. command = ResumeReactionCommand token")
  case True
  then obtain token where command: "command = ResumeReactionCommand token" by blast
  show ?thesis
    using resume_ready [OF assms, of clock token 0 "wd_max_events w"]
    by (cases "resume_reaction clock token 0 (wd_max_events w) w"; cases "fst (resume_reaction clock token 0 (wd_max_events w) w)")
      (auto simp: command answering_def)
next
  case False
  then have "command_step (changed_handles command) w (apply_command clock command w)"
    by (intro apply_command_step [OF assms]) blast
  then show ?thesis using assms by (rule command_step_ready)
qed

lemma record_batches_ready:
  assumes "world_ready w"
  shows "ready_step w (apply_mixture_state alloc (map array_state states) w)" and "ready_step w (reconcile_pipenet allocs handles w)"
proof -
  have "length (st_gases s) = world_gas_slots" if "s \<in> set (map array_state states)" for s using that by auto
  note result = apply_mixture_state_result [OF assms this]
  show "ready_step w (apply_mixture_state alloc (map array_state states) w)"
    using result [of "map array_state states" alloc] assms
    by (cases "apply_mixture_state alloc (map array_state states) w";
        cases "fst (apply_mixture_state alloc (map array_state states) w)")
      (auto simp: mixtures_step_def)
  show "ready_step w (reconcile_pipenet allocs handles w)"
    using reconcile_result [OF assms, where alloc = allocs and handles = handles] assms
    by (cases "reconcile_pipenet allocs handles w"; cases "fst (reconcile_pipenet allocs handles w)")
      (auto simp: mixtures_step_def)
qed

lemma outcome_advances [simp]: "advancing_step w (outcome m) = advancing_step w m"
  by (simp add: advancing_step_def)

lemma world_request_advances:
  assumes "world_ready w"
  shows "advancing_step w (world_request sizes request w)"
proof -
  have inv: "world_inv w" using assms by (simp add: world_ready_def)
  note batch = batch_advances [OF assms]
  show ?thesis
    by (cases request)
      (simp_all add: cancel_reaction_def lifecycle_advances [OF assms] batch topology_batches_safe [OF inv]
        apply_turf_heat_safe [OF inv] apply_adjacency_safe [OF inv] ready_step_advances install_ready [OF assms]
        react_ready [OF assms] command_ready [OF assms] record_batches_ready [OF assms] resume_ready [OF assms] complete_ready [OF assms]
        ready_step_advances [OF events_ready(1) [OF assms]] events_ready(2) [OF assms])
qed

section \<open>Runs\<close>

definition world_step :: "nat \<times> nat \<Rightarrow> world \<Rightarrow> world_op \<Rightarrow> world" where
  "world_step sizes w request = snd (world_request sizes request w)"

datatype handle_key = MixtureKey mixture_handle | TurfKey turf_handle

primrec handle_slot :: "world \<Rightarrow> handle_key \<Rightarrow> projected_slot" where
  "handle_slot w (MixtureKey h) = projected_slot (wd_mixtures w) (mh_slot h)"
| "handle_slot w (TurfKey h) = turf_slots w (th_slot h)"

primrec handle_generation :: "handle_key \<Rightarrow> u32" where
  "handle_generation (MixtureKey h) = mh_generation h"
| "handle_generation (TurfKey h) = th_generation h"

definition handle_live :: "world \<Rightarrow> handle_key \<Rightarrow> bool" where
  "handle_live w key = generation_live (handle_slot w key) (handle_generation key)"

definition handle_spent :: "world \<Rightarrow> handle_key \<Rightarrow> bool" where
  "handle_spent w key = generation_spent (handle_slot w key) (handle_generation key)"

lemma handle_slot_advances: "slots_advance w w' \<Longrightarrow> projected_advances (handle_slot w key) (handle_slot w' key)"
  by (cases key) (simp_all add: slots_advance_def)

lemma handle_live_require:
  "handle_live w (MixtureKey m) \<longleftrightarrow> (\<exists>r. require_handle (wd_mixtures w) m = Ok r)"
  "handle_live w (TurfKey h) \<longleftrightarrow> (\<exists>r. require_turf (wd_turfs w) h = Ok r)"
  by (auto simp: handle_live_def generation_live_def projected_slot_eq occupied_def require_handle_slot
      turf_slots_def projected_turf_slot_eq require_turf_Ok)

interpretation handles: single_use_keys "world_step sizes" world_ready handle_live handle_spent
proof unfold_locales
  fix w request key
  show "world_ready w \<Longrightarrow> world_ready (world_step sizes w request)"
    using world_request_advances [of w sizes request] by (simp add: advancing_step_def world_step_def)
  have advances: "world_ready w \<Longrightarrow> projected_advances (handle_slot w key) (handle_slot (world_step sizes w request) key)"
    using world_request_advances [of w sizes request] by (simp add: advancing_step_def world_step_def handle_slot_advances)
  show "world_ready w \<Longrightarrow> handle_live w key \<Longrightarrow>
      handle_live (world_step sizes w request) key \<or> handle_spent (world_step sizes w request) key"
    using generation_live_advances advances by (simp add: handle_live_def handle_spent_def)
  show "world_ready w \<Longrightarrow> handle_spent w key \<Longrightarrow> handle_spent (world_step sizes w request) key"
    using generation_spent_advances advances by (simp add: handle_spent_def)
  show "world_ready w \<Longrightarrow> handle_spent w key \<Longrightarrow> \<not> handle_live w key"
    using generation_spent_dead by (simp add: handle_live_def handle_spent_def)
qed

lemma world_ready_new: "world_ready (world_new bytes events n)"
  using world_inv_new [of bytes events n] by (simp add: world_ready_def registries_built_def gas_rows_ok_def world_new_def)

lemma world_run_ready: "world_ready (foldl (world_step sizes) (world_new bytes events n) requests)"
  by (rule handles.run_inv) (rule world_ready_new)

lemma index_of_scan: "index_of R k = (let found = {x. R x k} in if found = {} then None else Some found)"
  by (auto simp: index_of_def Let_def)

lemma layer_pairs:
  assumes "topo_inv gen t" and "\<forall>a b. edge_map t heat (a, b) \<noteq> None \<longrightarrow> P a"
  shows "dom (edge_map t heat) \<subseteq> {(a, b). a \<noteq> b \<and> P a \<and> edge_map t heat (b, a) = edge_map t heat (a, b)}"
proof
  fix e assume e: "e \<in> dom (edge_map t heat)"
  obtain a b where ab: "e = (a, b)" by (cases e)
  have "edge_map t heat (a, b) \<noteq> None" using e ab by auto
  moreover have "a \<noteq> b" using calculation edge_map_irrefl [OF topo_invD(1) [OF assms(1)]] by metis
  moreover have "P a" using calculation(1) assms(2) by blast
  ultimately show "e \<in> {(a, b). a \<noteq> b \<and> P a \<and> edge_map t heat (b, a) = edge_map t heat (a, b)}"
    using topo_invD(2) [OF assms(1), of heat a b] ab by simp
qed

text \<open>
  C2: after every run of the requests above from a new world, however they ended, none of them panics, and the two
  reverse indexes hold what a full scan would find: the turfs of a mixture by its handle and the edges of a mixture
  by its slot, with no entry left where nothing is found. Nothing is said of stage chunks and frontier requests, which
  a run does not have.
\<close>

theorem world_indexes_exact:
  fixes sizes bytes events n requests
  defines "w \<equiv> foldl (world_step sizes) (world_new bytes events n) requests"
  shows "fst (world_request sizes request w) \<noteq> Panic \<and>
    wd_mixture_turfs w mixture = (let found = {slot. turf_mixture_at (wd_turfs w) slot = Some mixture}
      in if found = {} then None else Some found) \<and>
    wd_mixture_edges w slot = (let found = {key \<in> dom (wd_edges w). slot \<in> {ek_left key, ek_right key}}
      in if found = {} then None else Some found)"
proof -
  have ready: "world_ready w" unfolding w_def by (rule world_run_ready)
  then have "wd_mixture_turfs w = turfs_index (wd_turfs w)" "wd_mixture_edges w = edges_index (wd_edges w)"
    by (simp_all add: world_ready_def world_inv_def)
  moreover have "fst (world_request sizes request w) \<noteq> Panic"
    using world_request_advances [OF ready] by (simp add: advancing_step_def)
  moreover have "{key. wd_edges w key \<noteq> None \<and> incident key slot} = {key \<in> dom (wd_edges w). slot \<in> {ek_left key, ek_right key}}"
    by (auto simp: incident_def)
  ultimately show ?thesis
    by (simp add: turfs_index_def edges_index_def index_of_scan del: not_None_eq)
qed

text \<open>
  C3: after every run of the requests above from a new world an edge between mixtures joins two live ones, in the order
  of their slots; gas flows only between different turfs that have a mixture and heat only between different turfs with
  heat, both ways alike; the turfs of the list of active heat have heat and occur in it once, and the list holds
  every turf marked as active; a reaction that waits concerns a live mixture, and that of the turf it was started on,
  if any. A run has no stage chunk: what the heat stage does to the list of active heat and the reaction stage to the
  waiting reactions is not part of the claim.
\<close>

theorem world_connections_live:
  fixes sizes bytes events n requests
  defines "w \<equiv> foldl (world_step sizes) (world_new bytes events n) requests"
  shows "dom (wd_edges w) \<subseteq> {key. ek_left key < ek_right key \<and>
        (\<exists>g. handle_live w (MixtureKey (MixtureHandle (ek_left key) g))) \<and>
        (\<exists>g. handle_live w (MixtureKey (MixtureHandle (ek_right key) g)))} \<and>
    dom (edge_map (wd_topology w) False) \<subseteq> {(a, b). a \<noteq> b \<and> turf_mixture_at (wd_turfs w) a \<noteq> None \<and>
        edge_map (wd_topology w) False (b, a) = edge_map (wd_topology w) False (a, b)} \<and>
    dom (edge_map (wd_topology w) True) \<subseteq> {(a, b). a \<noteq> b \<and> heat_at (wd_turfs w) a \<noteq> None \<and>
        edge_map (wd_topology w) True (b, a) = edge_map (wd_topology w) True (a, b)} \<and>
    distinct (map th_slot (wd_heat_active w)) \<and>
    th_slot ` set (wd_heat_active w) = {slot. heat_index_at (wd_turfs w) slot \<noteq> None \<and> heat_at (wd_turfs w) slot \<noteq> None} \<and>
    set (wd_heat_active w) \<subseteq> {h. handle_live w (TurfKey h)} \<and>
    ran (continuation_of (wd_continuations w)) \<subseteq> {c. handle_live w (MixtureKey (rc_mixture c)) \<and>
        (case rc_turf c of None \<Rightarrow> True
         | Some h \<Rightarrow> handle_live w (TurfKey h) \<and> turf_mixture_at (wd_turfs w) (th_slot h) = Some (rc_mixture c))}"
proof (intro conjI)
  have "world_ready w" unfolding w_def by (rule world_run_ready)
  then have inv: "mixtures_ok (wd_mixtures w)" "edges_live (wd_mixtures w) (wd_edges w)" "graph_ok (wd_turfs w) (wd_topology w)"
    "heat_ok (wd_turfs w) (wd_heat_active w)" "active_heated (wd_turfs w)"
    "waiting_ok (wd_mixtures w) (wd_turfs w) (wd_continuations w)"
    by (simp_all add: world_ready_def world_inv_def)
  have live: "\<exists>g. handle_live w (MixtureKey (MixtureHandle slot g))" if "occupied (wd_mixtures w) slot" for slot
    using that inv(1) by (auto simp: handle_live_require require_handle_slot occupied_def mixtures_ok_def)
  show "dom (wd_edges w) \<subseteq> {key. ek_left key < ek_right key \<and>
        (\<exists>g. handle_live w (MixtureKey (MixtureHandle (ek_left key) g))) \<and>
        (\<exists>g. handle_live w (MixtureKey (MixtureHandle (ek_right key) g)))}"
    using inv(2) live by (fastforce simp: edges_live_def)
  show "dom (edge_map (wd_topology w) False) \<subseteq> {(a, b). a \<noteq> b \<and> turf_mixture_at (wd_turfs w) a \<noteq> None \<and>
        edge_map (wd_topology w) False (b, a) = edge_map (wd_topology w) False (a, b)}"
    using inv(3) by (intro layer_pairs [where gen = "gen_of (wd_turfs w)"]) (simp_all add: graph_ok_def del: not_None_eq)
  show "dom (edge_map (wd_topology w) True) \<subseteq> {(a, b). a \<noteq> b \<and> heat_at (wd_turfs w) a \<noteq> None \<and>
        edge_map (wd_topology w) True (b, a) = edge_map (wd_topology w) True (a, b)}"
    using inv(3) by (intro layer_pairs [where gen = "gen_of (wd_turfs w)"]) (simp_all add: graph_ok_def del: not_None_eq)
  note active = heat_okD [OF inv(4)] heat_ok_slot_inj [OF inv(4)]
  show "distinct (map th_slot (wd_heat_active w))"
    using active(4) by (auto simp: distinct_conv_nth)
  show "th_slot ` set (wd_heat_active w) = {slot. heat_index_at (wd_turfs w) slot \<noteq> None \<and> heat_at (wd_turfs w) slot \<noteq> None}"
    (is "?l = ?r")
  proof
    show "?l \<subseteq> ?r" using active(1) inv(5) by (fastforce simp: in_set_conv_nth active_heated_def)
    show "?r \<subseteq> ?l"
    proof
      fix slot assume "slot \<in> ?r"
      then obtain i where "heat_index_at (wd_turfs w) slot = Some i" by auto
      then have "unat i < length (wd_heat_active w)" "th_slot (wd_heat_active w ! unat i) = slot"
        using inv(4) by (simp_all add: heat_ok_def)
      then show "slot \<in> ?l" by (metis image_eqI nth_mem)
    qed
  qed
  show "set (wd_heat_active w) \<subseteq> {h. handle_live w (TurfKey h)}"
  proof
    fix h assume "h \<in> set (wd_heat_active w)"
    then obtain i where i: "i < length (wd_heat_active w)" "wd_heat_active w ! i = h" by (auto simp: in_set_conv_nth)
    have "heat_index_at (wd_turfs w) (th_slot h) \<noteq> None" using active(1) [OF i(1)] i(2) by simp
    from heat_index_turf [OF this] show "h \<in> {h. handle_live w (TurfKey h)}"
      using active(3) [OF i(1)] i(2) by (auto simp: handle_live_require require_turf_Ok)
  qed
  show "ran (continuation_of (wd_continuations w)) \<subseteq> {c. handle_live w (MixtureKey (rc_mixture c)) \<and>
        (case rc_turf c of None \<Rightarrow> True
         | Some h \<Rightarrow> handle_live w (TurfKey h) \<and> turf_mixture_at (wd_turfs w) (th_slot h) = Some (rc_mixture c))}"
    using inv(6) by (auto simp: waiting_ok_def waits_on_live_def ran_def handle_live_require require_turf_Ok
        turf_mixture_at_eq split: option.split) fastforce+
qed

text \<open>
  C4: a handle of a mixture or a turf that was live and no longer is, after any requests, is never live
  again: registering its slot anew takes a later generation.
\<close>

theorem handles_never_revive:
  fixes sizes bytes events n
  defines "world_after \<equiv> foldl (world_step sizes) (world_new bytes events n)"
  assumes "handle_live (world_after earlier) key" and "\<not> handle_live (world_after (earlier @ requests)) key"
  shows "\<not> handle_live (world_after (earlier @ requests @ later)) key"
proof -
  have "\<not> handle_live (foldl (world_step sizes) (world_after earlier) requests) key"
    using assms(3) by (simp add: world_after_def)
  moreover have "world_ready (world_after earlier)" unfolding world_after_def by (rule world_run_ready)
  ultimately have "\<not> handle_live (foldl (world_step sizes) (world_after earlier) (requests @ later)) key"
    using handles.dead_stays_dead assms(2) by blast
  then show ?thesis by (simp add: world_after_def)
qed

section \<open>Batches as one step\<close>

text \<open>What a batch that is accepted does to the slots, one mutation after the other.\<close>

definition mixture_slots_after :: "core_lifecycle_mutation list \<Rightarrow> (u32 \<Rightarrow> projected_slot) \<Rightarrow> u32 \<Rightarrow> projected_slot" where
  "mixture_slots_after mutations slots =
     fold (\<lambda>m slots. slots(mh_slot (lm_handle m) := mixture_slot_after m (slots (mh_slot (lm_handle m))))) mutations slots"

definition turf_slots_after :: "core_turf_mutation list \<Rightarrow> (u32 \<Rightarrow> projected_slot) \<Rightarrow> u32 \<Rightarrow> projected_slot" where
  "turf_slots_after mutations slots =
     fold (\<lambda>m slots. slots(th_slot (tm_handle m) := turf_slot_after m (slots (th_slot (tm_handle m))))) mutations slots"

lemma validated_slots:
  assumes "\<And>m p n p' n'. validate m (p, n) = Ok (p', n') \<Longrightarrow>
      p' = p(slot m \<mapsto> slot_after m (projected_view p slots (slot m)))"
    and "rfold validate mutations (p, n) = Ok (p', n')"
  shows "projected_view p' slots = fold (\<lambda>m slots. slots(slot m := slot_after m (slots (slot m)))) mutations (projected_view p slots)"
  using assms(2)
proof (induction mutations arbitrary: p n)
  case (Cons m ms)
  then obtain p1 n1 where 1: "validate m (p, n) = Ok (p1, n1)" "rfold validate ms (p1, n1) = Ok (p', n')" by auto
  have "projected_view p1 slots = (projected_view p slots)(slot m := slot_after m (projected_view p slots (slot m)))"
    unfolding assms(1) [OF 1(1)] by (rule projected_view_update)
  then show ?case unfolding Cons.IH [OF 1(2)] by (simp only: fold_simps)
qed simp

lemma validated_mixtures:
  "rfold (validate_lifecycle_mutation sizes w) mutations (Map.empty, k) = Ok (p, n) \<Longrightarrow>
     projected_view p (projected_slot (wd_mixtures w)) = mixture_slots_after mutations (projected_slot (wd_mixtures w))"
  using validated_slots [where validate = "validate_lifecycle_mutation sizes w" and slot = "\<lambda>m. mh_slot (lm_handle m)"
      and slot_after = mixture_slot_after and slots = "projected_slot (wd_mixtures w)" and p = Map.empty]
    validate_lifecycle_mutation_result
  by (auto simp: mixture_slots_after_def projected_view_empty)

lemma validated_turfs:
  "rfold (validate_turf_mutation sizes w) mutations (Map.empty, k) = Ok (p, n) \<Longrightarrow>
     projected_view p (projected_turf_slot (wd_turfs w)) = turf_slots_after mutations (projected_turf_slot (wd_turfs w))"
  using validated_slots [where validate = "validate_turf_mutation sizes w" and slot = "\<lambda>m. th_slot (tm_handle m)"
      and slot_after = turf_slot_after and slots = "projected_turf_slot (wd_turfs w)" and p = Map.empty]
    validate_turf_mutation_result
  by (auto simp: turf_slots_after_def projected_view_empty)

text \<open>
  C5: a batch that registers and removes mixtures is one step. When it succeeds, the slots are those of
  its mutations applied in order, the turfs keep their generations and no turf is left with a mixture the batch
  removed; when it fails, the world is as before but for empty slots at the end of the list.
\<close>

theorem mixture_batch_atomic:
  fixes sizes bytes events n requests
  defines "w \<equiv> foldl (world_step sizes) (world_new bytes events n) requests"
  shows "case apply_lifecycle sizes alloc mutations w of
      (Ok k, w') \<Rightarrow> k = word_of_nat (length mutations) \<and>
        projected_slot (wd_mixtures w') = mixture_slots_after mutations (projected_slot (wd_mixtures w)) \<and>
        turf_slots w' = turf_slots w \<and>
        ran (turf_mixture_at (wd_turfs w')) \<inter> lm_handle ` {m \<in> set mutations. lm_action m = UnregisterMixture} = {}
    | (Err _, w') \<Rightarrow> (\<exists>k. w' = w\<lparr>wd_mixtures := wd_mixtures w @ replicate k mixture_slot_default\<rparr>)
    | (Panic, w') \<Rightarrow> False"
proof -
  have inv: "world_inv w" unfolding w_def using world_run_ready by (simp add: world_ready_def)
  obtain r w' where run: "apply_lifecycle sizes alloc mutations w = (r, w')" by (cases "apply_lifecycle sizes alloc mutations w")
  have counted: "k = word_of_nat (length mutations)" if "r = Ok k" for k
    using run that by (auto simp: apply_lifecycle_def Let_def split: result.splits if_splits prod.splits)
  show ?thesis
    using apply_lifecycle_result [OF inv run] counted
    by (cases r) (auto simp: run turf_slots_def set_unregistering ran_def dest: validated_mixtures)
qed

text \<open>
  C6: so is a batch that registers and removes turfs: its mutations in order or nothing but empty slots at
  the end of the list, and never a change of a mixture.
\<close>

theorem turf_batch_atomic:
  fixes sizes bytes events n requests
  defines "w \<equiv> foldl (world_step sizes) (world_new bytes events n) requests"
  shows "case apply_turf_lifecycle sizes alloc mutations w of
      (Ok k, w') \<Rightarrow> k = word_of_nat (length mutations) \<and> wd_mixtures w' = wd_mixtures w \<and>
        projected_turf_slot (wd_turfs w') = turf_slots_after mutations (projected_turf_slot (wd_turfs w))
    | (Err _, w') \<Rightarrow> (\<exists>k. w' = w\<lparr>wd_turfs := wd_turfs w @ replicate k turf_slot_default\<rparr>)
    | (Panic, w') \<Rightarrow> False"
proof -
  have inv: "world_inv w" unfolding w_def using world_run_ready by (simp add: world_ready_def)
  obtain r w' where run: "apply_turf_lifecycle sizes alloc mutations w = (r, w')"
    by (cases "apply_turf_lifecycle sizes alloc mutations w")
  have counted: "k = word_of_nat (length mutations)" if "r = Ok k" for k
    using run that by (auto simp: apply_turf_lifecycle_def Let_def split: result.splits if_splits prod.splits)
  show ?thesis
    using apply_turf_lifecycle_result [OF inv run] counted
    by (cases r) (auto simp: run dest: validated_turfs)
qed

section \<open>Reactions\<close>

text \<open>
  C10: a request to react that succeeds changes at most the record of its mixture, by one revision and only
  when the mixture may change, and appends events within the capacity; if a reaction is left to the game, the last
  event asks for it under a token that was not in use and is the only one that is new, and otherwise no
  continuation changes. A request that fails changes no record, no event and no continuation that waits; it may use up
  a free slot of the table of continuations, when the generations of the slot are exhausted.
\<close>

theorem react_publishes:
  fixes sizes bytes events n requests
  defines "w \<equiv> foldl (world_step sizes) (world_new bytes events n) requests"
  shows "case react_mixture_with_event_limit clock mixture target threshold limit w of
      (Ok p, w') \<Rightarrow> published mixture (min (wd_max_events w) limit) w w' \<and>
        (if rp_pending p then asks_game (waiting_reaction mixture target None threshold 0) (continuation_of (wd_continuations w)) w'
         else wd_continuations w' = wd_continuations w)
    | (Err _, w') \<Rightarrow> w' = w\<lparr>wd_continuations := wd_continuations w'\<rparr> \<and>
        continuation_of (wd_continuations w') = continuation_of (wd_continuations w)
    | (Panic, _) \<Rightarrow> False"
proof -
  obtain r w' where run: "react_mixture_with_event_limit clock mixture target threshold limit w = (r, w')"
    by (cases "react_mixture_with_event_limit clock mixture target threshold limit w")
  have "world_ready w" unfolding w_def by (rule world_run_ready)
  from react_result [OF this run] show ?thesis by (cases r) (simp_all add: run)
qed

text \<open>
  C11: an answer of the game that is accepted uses up its token. The reactions that follow are published as
  those of a first request, and a further one left to the game waits under a new token for the same mixture, target
  and turf. An answer that is refused, for a stale token, a moved turf, a bad result, a failed reaction or lack of
  room, changes nothing, so it can be given again; so does a failed cancellation, and a cancellation that succeeds
  only frees the token.
\<close>

theorem resume_uses_token:
  fixes sizes bytes events n requests
  defines "w \<equiv> foldl (world_step sizes) (world_new bytes events n) requests"
  shows "(case resume_reaction clock token answer limit w of
      (Ok p, w') \<Rightarrow> \<exists>c. continuation_of (wd_continuations w) token = Some c \<and>
        published (rc_mixture c) (min (wd_max_events w) limit) w w' \<and>
        (if rp_pending p then asks_game c ((continuation_of (wd_continuations w))(token := None)) w'
         else continuation_of (wd_continuations w') = (continuation_of (wd_continuations w))(token := None))
    | (Err _, w') \<Rightarrow> w' = w
    | (Panic, _) \<Rightarrow> False) \<and>
    (case cancel_reaction token w of
      (Ok _, w') \<Rightarrow> token \<in> dom (continuation_of (wd_continuations w)) \<and> w' = w\<lparr>wd_continuations := wd_continuations w'\<rparr> \<and>
        continuation_of (wd_continuations w') = (continuation_of (wd_continuations w))(token := None)
    | (Err _, w') \<Rightarrow> token \<notin> dom (continuation_of (wd_continuations w)) \<and> w' = w
    | (Panic, _) \<Rightarrow> False)"
proof
  have ready: "world_ready w" unfolding w_def by (rule world_run_ready)
  obtain r w' where run: "resume_reaction clock token answer limit w = (r, w')"
    by (cases "resume_reaction clock token answer limit w")
  from resume_result [OF ready run] show "case resume_reaction clock token answer limit w of
      (Ok p, w') \<Rightarrow> \<exists>c. continuation_of (wd_continuations w) token = Some c \<and>
        published (rc_mixture c) (min (wd_max_events w) limit) w w' \<and>
        (if rp_pending p then asks_game c ((continuation_of (wd_continuations w))(token := None)) w'
         else continuation_of (wd_continuations w') = (continuation_of (wd_continuations w))(token := None))
    | (Err _, w') \<Rightarrow> w' = w
    | (Panic, _) \<Rightarrow> False"
    by (cases r) (simp_all add: run)
  have inv: "table_inv (wd_continuations w)" using ready by (simp add: world_ready_def world_inv_def waiting_ok_def)
  obtain b k where complete: "complete_continuation token (wd_continuations w) = (b, k)"
    by (cases "complete_continuation token (wd_continuations w)")
  show "case cancel_reaction token w of
      (Ok _, w') \<Rightarrow> token \<in> dom (continuation_of (wd_continuations w)) \<and> w' = w\<lparr>wd_continuations := wd_continuations w'\<rparr> \<and>
        continuation_of (wd_continuations w') = (continuation_of (wd_continuations w))(token := None)
    | (Err _, w') \<Rightarrow> token \<notin> dom (continuation_of (wd_continuations w)) \<and> w' = w
    | (Panic, _) \<Rightarrow> False"
    using complete_continuation_result [OF inv complete]
    by (cases b) (auto simp: cancel_reaction_def on_continuations_def complete)
qed

section \<open>An example\<close>

definition example_requests :: "world_op list" where
  "example_requests = [MixtureLifecycle (True, True) [\<lparr>lm_action = RegisterMixture, lm_handle = MixtureHandle 0 1\<rparr>],
     MixtureLifecycle (True, True) [\<lparr>lm_action = UnregisterMixture, lm_handle = MixtureHandle 0 1\<rparr>],
     MixtureLifecycle (True, True) [\<lparr>lm_action = RegisterMixture, lm_handle = MixtureHandle 0 2\<rparr>]]"

lemmas evaluate_lifecycle = apply_lifecycle_def validate_lifecycle_mutation_def validate_slot_capacity_def
  validate_world_capacity_def checked_u64_def projected_slot_def world_new_def apply_lifecycle_mutation_def
  set_mixture_slot_def unregistering_def remove_incident_mixture_edges_def vec_get_def Let_def detach_mixture_def
  mixture_slot_default_def invalidate_continuations_for_mixture_slot_def invalidate_where_def continuations_new_def

lemma example_steps:
  "apply_lifecycle (8, 8) (True, True) [\<lparr>lm_action = RegisterMixture, lm_handle = MixtureHandle 0 1\<rparr>] (world_new 1000 4 4) =
     (Ok 1, (world_new 1000 4 4)\<lparr>wd_mixtures := [\<lparr>ms_generation = Some 1, ms_mixture = Some mixture_record_new\<rparr>]\<rparr>)"
  "apply_lifecycle (8, 8) (True, True) [\<lparr>lm_action = UnregisterMixture, lm_handle = MixtureHandle 0 1\<rparr>]
     ((world_new 1000 4 4)\<lparr>wd_mixtures := [\<lparr>ms_generation = Some 1, ms_mixture = Some mixture_record_new\<rparr>]\<rparr>) =
     (Ok 1, (world_new 1000 4 4)\<lparr>wd_mixtures := [\<lparr>ms_generation = Some 1, ms_mixture = None\<rparr>]\<rparr>)"
  by (simp_all add: evaluate_lifecycle Collect_conv_if)

theorem handles_never_revive_witness:
  "\<not> handle_live (foldl (world_step (8, 8)) (world_new 1000 4 4) example_requests) (MixtureKey (MixtureHandle 0 1))"
  using handles_never_revive [of "(8, 8)" 1000 4 4 "take 1 example_requests" "MixtureKey (MixtureHandle 0 1)"
      "[example_requests ! 1]" "[example_requests ! 2]"]
  by (simp add: example_requests_def world_step_def outcome_def example_steps handle_live_def generation_live_def projected_slot_eq
      occupied_def)

end
