(* ===== verification/Command_Runs.thy ===== *)
theory Command_Runs
  imports World_Runs
begin

text \<open>
  What commands on mixtures, uploads of their records and the equalization of a pipe network do to the world after
  any run of requests.
\<close>

section \<open>Commands\<close>






section \<open>Uploads\<close>

text \<open>
  When a state may be stored: it names a live mixture with its current revision, which is mutable only if it has a next
  revision; its values are finite, the temperature is at least 2.7 K, and the volume and the amounts are not negative.
\<close>

definition state_acceptable :: "world \<Rightarrow> mixture_state \<Rightarrow> bool" where
  "state_acceptable w s \<longleftrightarrow>
     (case require_handle (wd_mixtures w) (st_handle s) of
        Ok m \<Rightarrow> mx_revision m = st_expected_revision s \<and> (mx_immutable m \<or> mx_revision m + 1 \<noteq> 0)
      | _ \<Rightarrow> False) \<and>
     f32_is_finite (st_temperature s) \<and> f32_less_eq minimum_temperature (st_temperature s) \<and>
     f32_is_finite (st_volume s) \<and> f32_less_eq 0 (st_volume s) \<and>
     list_all (\<lambda>amount. f32_is_finite amount \<and> f32_less_eq 0 amount) (st_gases s)"

lemma state_acceptable_checked: "state_acceptable w s \<longleftrightarrow> check_mixture_state (wd_mixtures w) s = Ok ()"
  by (auto simp: state_acceptable_def check_mixture_state_Ok valid_mixture_state_def last_revision split: result.splits)

text \<open>
  C8: an upload of mixture states is stored completely or not at all. It is accepted exactly when its memory can
  be reserved, no slot is named twice and every state is acceptable: it names a live mixture with its current
  revision and has finite values in their ranges, and the mixture is immutable or has a next revision. Then each mutable
  mixture named holds its state with that revision, amounts too small to keep dropped, and no other mixture has
  changed, nor anything beside the mixtures; otherwise the world is as it was.
\<close>

theorem mixture_upload_all_or_nothing:
  fixes sizes bytes events n requests
  defines "w \<equiv> foldl (world_step sizes) (world_new bytes events n) requests"
  shows "case apply_mixture_state alloc (map array_state states) w of
      (Ok k, w') \<Rightarrow> k = word_of_nat (length states) \<and> alloc \<and> distinct (map (\<lambda>s. mh_slot (st_handle s)) states) \<and>
        list_all (\<lambda>s. state_acceptable w (array_state s)) states \<and>
        beside_mixtures w' = beside_mixtures w \<and>
        require_handle (wd_mixtures w') h = (case find (\<lambda>s. st_handle s = h) (map array_state states) of
            None \<Rightarrow> require_handle (wd_mixtures w) h
          | Some s \<Rightarrow> rbind (require_handle (wd_mixtures w) h) (\<lambda>m. Ok (if mx_immutable m then m
              else m\<lparr>mx_temperature := st_temperature s, mx_volume := st_volume s,
                mx_gases := canonicalize_gases (st_gases s), mx_revision := mx_revision m + 1\<rparr>)))
    | (Err _, w') \<Rightarrow> w' = w \<and> \<not> (alloc \<and> distinct (map (\<lambda>s. mh_slot (st_handle s)) states) \<and>
        list_all (\<lambda>s. state_acceptable w (array_state s)) states)
    | (Panic, _) \<Rightarrow> False"
proof -
  have ready: "world_ready w" unfolding w_def by (rule world_run_ready)
  have row: "length (st_gases s) = world_gas_slots" if "s \<in> set (map array_state states)" for s using that by auto
  obtain r w' where run: "apply_mixture_state alloc (map array_state states) w = (r, w')"
    by (cases "apply_mixture_state alloc (map array_state states) w")
  note result = apply_mixture_state_result [OF ready row, of "map array_state states" alloc, unfolded run prod.case state_after_def stored_record_def]
  have allocated: "alloc" if "r = Ok k" for k using run that by (cases alloc) (auto simp: apply_mixture_state_def)
  show ?thesis
    unfolding run prod.case state_acceptable_checked using result allocated
    by (cases r) (simp_all add: list_all_iff mixtures_step_def comp_def, blast)
qed

section \<open>Pipe networks\<close>

text \<open>
  The temperature a network is equalized to, in the arithmetic of the code: the thermal energy of its mixtures over
  their heat capacity, both summed in the order of the network, but at least 2.7 K. And what one of its mixtures
  gets: of the sum of every gas the part that its volume is of the sum of the volumes.
\<close>

definition network_temperature :: "world \<Rightarrow> mixture_record list \<Rightarrow> f32" where
  "network_temperature w ms =
     (let capacity = total_of (capacity_of w) ms; energy = total_of (\<lambda>m. f32_mul (mx_temperature m) (capacity_of w m)) ms
      in if f32_eq capacity 0 then minimum_temperature else f32_max (f32_div energy capacity) minimum_temperature)"

definition network_gases :: "mixture_record list \<Rightarrow> mixture_record \<Rightarrow> f32 list" where
  "network_gases ms m = map (\<lambda>gas. f32_mul (total_of (\<lambda>m. mx_gases m ! gas) ms) (f32_div (mx_volume m) (total_of mx_volume ms)))
     [0..<world_gas_slots]"

text \<open>Whether every mixture of the network can be given its part.\<close>

definition network_shareable :: "world \<Rightarrow> mixture_record list \<Rightarrow> bool" where
  "network_shareable w ms \<longleftrightarrow>
     list_all (\<lambda>m. f32_is_finite (network_temperature w ms) \<and> f32_is_finite (mx_volume m) \<and> f32_less_eq 0 (mx_volume m) \<and>
       list_all (\<lambda>amount. f32_is_finite amount \<and> f32_less_eq 0 amount) (network_gases ms m)) ms"

lemma f32_max_minimum: "f32_is_finite (f32_max x minimum_temperature) \<Longrightarrow> f32_less_eq minimum_temperature (f32_max x minimum_temperature)"
proof -
  have "f32_is_finite minimum_temperature" by (simp add: minimum_temperature_def f32_is_finite_def)
  then show "f32_is_finite (f32_max x minimum_temperature) \<Longrightarrow> f32_less_eq minimum_temperature (f32_max x minimum_temperature)"
    by (auto simp: f32_max_def f32_less_eq_def f32_less_def f32_finite_not_nan split: if_splits)
qed

lemma network_temperature_minimum:
  assumes "f32_is_finite (network_temperature w ms)"
  shows "f32_less_eq minimum_temperature (network_temperature w ms)"
proof -
  have "f32_less_eq minimum_temperature minimum_temperature"
    by (simp add: minimum_temperature_def f32_less_eq_def f32_is_nan_def)
  then show ?thesis using assms f32_max_minimum by (simp add: network_temperature_def Let_def split: if_splits)
qed

lemma share_network:
  "pipenet_share (network_sums w ms) h m = \<lparr>st_handle = h, st_expected_revision = mx_revision m,
     st_temperature = network_temperature w ms, st_volume = mx_volume m, st_gases = network_gases ms m\<rparr>"
  by (simp add: pipenet_share_def network_sums_def equalized_temperature_def network_temperature_def network_gases_def Let_def)

lemma network_shares:
  "network_shareable w (network w handles) \<longleftrightarrow>
     (\<forall>h \<in> set handles. valid_mixture_state (pipenet_share (network_sums w (network w handles)) h (live_record w h)))"
  using network_temperature_minimum [of w "network w handles"]
  by (auto simp: network_shareable_def share_network valid_mixture_state_def list_all_iff)
   (auto simp: network_def)

text \<open>
  C9: equalizing a pipe network. It answers its mixtures, each once in the order of their first mention. When the sum of
  their volumes is zero it changes nothing; otherwise every mutable mixture of the network then has the temperature
  of the whole, thermal energy over heat capacity, and of the sum of every gas its part by volume, with amounts too small to
  keep dropped, and exactly one new revision; immutable mixtures, those outside the network and everything beside the mixtures
  stay as they were. All sums are those of the code's arithmetic over the whole network, immutable mixtures included. It
  fails, changing nothing, only if memory runs out, a mixture is not live or mutable at its last revision, there are
  mixtures but no gas registry, or the volume is not zero and some part is not a valid state.
\<close>

theorem pipenet_equalized:
  fixes sizes bytes events n requests handles
  defines "w \<equiv> foldl (world_step sizes) (world_new bytes events n) requests"
  defines "ms \<equiv> network w handles"
  shows "case reconcile_pipenet alloc handles w of
      (Ok unique, w') \<Rightarrow> unique = rev (remdups (rev handles)) \<and> network_ready (wd_mixtures w) handles \<and>
        (if f32_eq (total_of mx_volume ms) 0 then w' = w
         else network_shareable w ms \<and> beside_mixtures w' = beside_mixtures w \<and>
           (\<forall>h. require_handle (wd_mixtures w') h = rbind (require_handle (wd_mixtures w) h) (\<lambda>m.
             Ok (if h \<in> set handles \<and> \<not> mx_immutable m
               then m\<lparr>mx_temperature := network_temperature w ms, mx_gases := canonicalize_gases (network_gases ms m),
                 mx_revision := mx_revision m + 1\<rparr>
               else m))))
    | (Err _, w') \<Rightarrow> w' = w \<and> \<not> (alloc = (True, True, True) \<and> network_ready (wd_mixtures w) handles \<and>
        (if handles = [] then True else wd_gas_registry w \<noteq> None) \<and>
        (if f32_eq (total_of mx_volume ms) 0 then True else network_shareable w ms))
    | (Panic, _) \<Rightarrow> False"
proof -
  have ready: "world_ready w" unfolding w_def by (rule world_run_ready)
  obtain r w' where run: "reconcile_pipenet alloc handles w = (r, w')" by (cases "reconcile_pipenet alloc handles w")
  note result = reconcile_result [OF ready, of handles alloc, unfolded run prod.case network_shares [symmetric], folded ms_def]
  have volume: "pn_volume (network_sums w ms) = total_of mx_volume ms" by (simp add: network_sums_def)
  have shared: "rbind (require_handle (wd_mixtures w) h) (\<lambda>m. Ok (if h \<in> set handles then equalized_record (network_sums w ms) h m else m)) =
      rbind (require_handle (wd_mixtures w) h) (\<lambda>m. Ok (if h \<in> set handles \<and> \<not> mx_immutable m
        then m\<lparr>mx_temperature := network_temperature w ms, mx_gases := canonicalize_gases (network_gases ms m),
          mx_revision := mx_revision m + 1\<rparr> else m))" for h
    by (rule rbind_full_cong) (simp_all add: equalized_record_def stored_record_def share_network)
  show ?thesis
    unfolding run prod.case using result unfolding volume shared by (cases r) (auto simp: mixtures_step_def split: if_splits)
qed

end
