(* ===== verification/Diffusion_Step.thy ===== *)
theory Diffusion_Step
  imports Diffusion_Graph Complex_Main
begin

text \<open>
  One step of diffusion along a graph (\<^verbatim>\<open>diffusion_step\<close> and \<^verbatim>\<open>diffusion_step_into_cancellable\<close> of
  \<^verbatim>\<open>crates/dogmos-core/src/numerics/diffusion.rs\<close>). The operations of single-precision numbers are a
  parameter: the order in which they are applied holds for any arithmetic, and what the step conserves
  is shown for exact arithmetic.
\<close>

section \<open>Arithmetic\<close>

record 'f arithmetic =
  ar_zero :: 'f
  ar_one :: 'f
  ar_add :: "'f \<Rightarrow> 'f \<Rightarrow> 'f"
  ar_sub :: "'f \<Rightarrow> 'f \<Rightarrow> 'f"
  ar_mul :: "'f \<Rightarrow> 'f \<Rightarrow> 'f"
  ar_of_u32 :: "u32 \<Rightarrow> 'f"
  ar_eighth :: 'f
  ar_valid :: "'f \<Rightarrow> bool"

text \<open>Exact numbers: \<open>GAS_DIFFUSION_CONSTANT\<close> is 1/8, and a value is valid unless it is negative.\<close>

definition exact :: "rat arithmetic" where
  "exact = \<lparr>ar_zero = 0, ar_one = 1, ar_add = (+), ar_sub = (-), ar_mul = (*), ar_of_u32 = (\<lambda>n. of_nat (unat n)), ar_eighth = 1 / 8,
     ar_valid = (\<lambda>x. 0 \<le> x)\<rparr>"

datatype (plugins only: size) diffusion_error =
    DiffusionCancelled
  | UnsupportedDegree u32
  | StateLength nat nat
  | OutputLength nat nat
  | InvalidStateValue nat
  | StateSpaceExceeded

section \<open>The step\<close>

definition diffusion_self_weight :: "'f arithmetic \<Rightarrow> u32 \<Rightarrow> ('f, diffusion_error) result" where
  "diffusion_self_weight A degree =
     (if degree > max_cardinal_neighbors then Err (UnsupportedDegree degree)
      else Ok (ar_sub A (ar_one A) (ar_mul A (ar_of_u32 A degree) (ar_eighth A))))"

definition row_slice :: "nat \<Rightarrow> nat \<Rightarrow> 'f list \<Rightarrow> ('f list, 'e) result" where
  "row_slice row gas_count xs = (if row + gas_count \<le> length xs then Ok (take gas_count (drop row xs)) else Panic)"

definition add_neighbor ::
  "'f arithmetic \<Rightarrow> nat \<Rightarrow> 'f list \<Rightarrow> u32 \<Rightarrow> 'f list \<Rightarrow> ('f list, diffusion_error) result" where
  "add_neighbor A gas_count state neighbor_index output_row =
     rbind (row_slice (unat neighbor_index * gas_count) gas_count state) (\<lambda>neighbor_row.
     Ok (map2 (\<lambda>output value. ar_add A output (ar_mul A value (ar_eighth A))) output_row neighbor_row))"

text \<open>\<open>should_cancel\<close> is the answer of each poll, one poll in 64 nodes.\<close>

definition diffuse_node ::
  "'f arithmetic \<Rightarrow> diffusion_graph \<Rightarrow> nat \<Rightarrow> (nat \<Rightarrow> bool) \<Rightarrow> 'f list \<Rightarrow> nat \<Rightarrow> 'f list \<Rightarrow>
   ('f list, diffusion_error) result" where
  "diffuse_node A graph gas_count should_cancel state node result =
     (if node mod 64 = 0 \<and> should_cancel (node div 64) then Err DiffusionCancelled
      else
        rbind (neighbor_indices graph node) (\<lambda>adjacent.
        rbind (diffusion_self_weight A (word_of_nat (length adjacent))) (\<lambda>self_weight.
        let row = node * gas_count
        in rbind (row_slice row gas_count result) (\<lambda>output_row.
           rbind (row_slice row gas_count state) (\<lambda>state_row.
           rbind (rfold (add_neighbor A gas_count state) adjacent
             (map2 (\<lambda>_ value. ar_mul A value self_weight) output_row state_row)) (\<lambda>output_row.
           Ok (take row result @ output_row @ drop (row + gas_count) result)))))))"

definition diffusion_step_into ::
  "nat \<Rightarrow> 'f arithmetic \<Rightarrow> diffusion_graph \<Rightarrow> nat \<Rightarrow> (nat \<Rightarrow> bool) \<Rightarrow> 'f list \<Rightarrow> 'f list \<Rightarrow>
   ('f list, diffusion_error) result" where
  "diffusion_step_into usize_max A graph gas_count should_cancel state result =
     (let expected = node_count graph * gas_count in
      if expected > usize_max then Err StateSpaceExceeded
      else if length state \<noteq> expected then Err (StateLength expected (length state))
      else if length result \<noteq> expected then Err (OutputLength expected (length result))
      else case find (\<lambda>i. \<not> ar_valid A (state ! i)) [0..<length state] of
        Some index \<Rightarrow> Err (InvalidStateValue index)
      | None \<Rightarrow> rfold (diffuse_node A graph gas_count should_cancel state) [0..<node_count graph] result)"

definition diffusion_step ::
  "nat \<Rightarrow> 'f arithmetic \<Rightarrow> diffusion_graph \<Rightarrow> u32 \<Rightarrow> 'f list \<Rightarrow> ('f list, diffusion_error) result" where
  "diffusion_step usize_max A graph gas_count state =
     (if node_count graph * unat gas_count > usize_max then Err StateSpaceExceeded
      else diffusion_step_into usize_max A graph (unat gas_count) (\<lambda>_. False) state
        (replicate (node_count graph * unat gas_count) (ar_zero A)))"

section \<open>The reference stencil\<close>

text \<open>The value of one gas at one node: the own term, then the neighbours in the order of their indices.\<close>

definition stencil :: "'f arithmetic \<Rightarrow> (nat \<Rightarrow> u32 list) \<Rightarrow> (nat \<Rightarrow> 'f) \<Rightarrow> nat \<Rightarrow> 'f" where
  "stencil A row x i =
     fold (\<lambda>k acc. ar_add A acc (ar_mul A (x (unat k)) (ar_eighth A))) (row i)
       (ar_mul A (x i) (ar_sub A (ar_one A) (ar_mul A (ar_of_u32 A (word_of_nat (length (row i)))) (ar_eighth A))))"

lemma add_neighbors_Ok:
  assumes "length out = gc" and "length state = n * gc" and "\<And>k. k \<in> set ks \<Longrightarrow> unat k < n"
  shows "\<exists>out'. rfold (add_neighbor A gc state) ks out = Ok out' \<and> length out' = gc \<and>
    (\<forall>j < gc. out' ! j = fold (\<lambda>k acc. ar_add A acc (ar_mul A (state ! (unat k * gc + j)) (ar_eighth A))) ks (out ! j))"
  using assms(1,3)
proof (induction ks arbitrary: out)
  case (Cons k ks)
  have "Suc (unat k) * gc \<le> n * gc" using Cons.prems(2) [of k] by (intro mult_le_mono1) auto
  then have k: "unat k * gc + gc \<le> length state" by (simp add: assms(2))
  let ?out = "map2 (\<lambda>o' v. ar_add A o' (ar_mul A v (ar_eighth A))) out (take gc (drop (unat k * gc) state))"
  have run: "rfold (add_neighbor A gc state) (k # ks) out = rfold (add_neighbor A gc state) ks ?out"
    using k by (simp add: add_neighbor_def row_slice_def)
  have len: "length ?out = gc" using k Cons.prems(1) by simp
  have "?out ! j = ar_add A (out ! j) (ar_mul A (state ! (unat k * gc + j)) (ar_eighth A))" if "j < gc" for j
    using that k Cons.prems(1) by simp
  then show ?case
    unfolding run using Cons.IH [OF len] Cons.prems(2) by auto
qed simp

lemma in_row_less: "i < n \<Longrightarrow> j < gc \<Longrightarrow> i * gc + j < n * (gc :: nat)"
proof -
  assume "i < n" "j < gc"
  then have "i * gc + j < Suc i * gc" "Suc i * gc \<le> n * gc" by (simp, intro mult_le_mono1, simp)
  then show ?thesis by (rule less_le_trans)
qed

text \<open>The rows of a graph are the neighbours, once each.\<close>

definition joined :: "graph_node list \<Rightarrow> directed_edge list \<Rightarrow> nat \<Rightarrow> nat \<Rightarrow> bool" where
  "joined nodes edges i k \<longleftrightarrow> DirectedEdge (gn_handle (nodes ! i)) (gn_handle (nodes ! k)) \<in> set edges"

lemma edge_target:
  assumes "graph_wf nodes edges" and "e \<in> set edges"
  obtains k where "node_index nodes (de_to e) = Some k" and "unat k < length nodes"
    and "gn_handle (nodes ! unat k) = de_to e"
proof -
  obtain k where k: "node_index nodes (de_to e) = Some k" using assms by (auto simp: graph_wf_def)
  with that assms(1) show thesis by (auto simp: node_index_Some graph_wf_def)
qed

lemma set_graph_row:
  assumes wf: "graph_wf nodes edges" and "i < length nodes"
  shows "k \<in> set (graph_row nodes edges i) \<longleftrightarrow> unat k < length nodes \<and> joined nodes edges i (unat k)"
proof
  assume "k \<in> set (graph_row nodes edges i)"
  then obtain e where e: "e \<in> set edges" "de_from e = gn_handle (nodes ! i)" "k = the (node_index nodes (de_to e))"
    by (auto simp: graph_row_def)
  obtain k' where "node_index nodes (de_to e) = Some k'" "unat k' < length nodes" "gn_handle (nodes ! unat k') = de_to e"
    by (rule edge_target [OF wf e(1)])
  then show "unat k < length nodes \<and> joined nodes edges i (unat k)"
    using e by (simp add: joined_def) (metis directed_edge.collapse)
next
  assume k: "unat k < length nodes \<and> joined nodes edges i (unat k)"
  let ?e = "DirectedEdge (gn_handle (nodes ! i)) (gn_handle (nodes ! unat k))"
  have "nodes_ok nodes" using wf by (simp add: graph_wf_def)
  then have "node_index nodes (de_to ?e) = Some k" using k by (simp add: node_index_Some)
  then show "k \<in> set (graph_row nodes edges i)"
    using k by (auto simp: graph_row_def joined_def image_iff intro!: bexI [of _ ?e])
qed

lemma distinct_graph_row:
  assumes wf: "graph_wf nodes edges"
  shows "distinct (graph_row nodes edges i)"
proof -
  let ?es = "filter (\<lambda>e. de_from e = gn_handle (nodes ! i)) edges"
  have "inj_on (\<lambda>e. the (node_index nodes (de_to e))) (set ?es)"
  proof (rule inj_onI)
    fix e e'
    assume e: "e \<in> set ?es" "e' \<in> set ?es" "the (node_index nodes (de_to e)) = the (node_index nodes (de_to e'))"
    have in_edges: "e \<in> set edges" "e' \<in> set edges" using e by simp_all
    obtain k where k: "node_index nodes (de_to e) = Some k" "gn_handle (nodes ! unat k) = de_to e"
      by (rule edge_target [OF wf in_edges(1)])
    obtain k' where k': "node_index nodes (de_to e') = Some k'" "gn_handle (nodes ! unat k') = de_to e'"
      by (rule edge_target [OF wf in_edges(2)])
    have "de_to e = de_to e'" using k k' e(3) by simp
    then show "e = e'" using e by (intro directed_edge.expand) simp
  qed
  moreover have "distinct ?es" using wf by (simp add: graph_wf_def)
  ultimately show ?thesis by (simp add: graph_row_def distinct_map)
qed

lemma joined_sym: "graph_wf nodes edges \<Longrightarrow> joined nodes edges i k = joined nodes edges k i"
  by (auto simp: joined_def graph_wf_def)

lemma diffuse_node_Ok:
  assumes graph: "graph_built nodes edges g" "graph_wf nodes edges" and i: "i < length nodes"
    and state: "length state = length nodes * gc" and result: "length result = length nodes * gc"
    and run_on: "\<not> (i mod 64 = 0 \<and> cancel (i div 64))"
  shows "\<exists>result'. diffuse_node A g gc cancel state i result = Ok result' \<and> length result' = length nodes * gc \<and>
    (\<forall>k < length nodes * gc. result' ! k = (if i * gc \<le> k \<and> k < i * gc + gc
       then stencil A (graph_row nodes edges) (\<lambda>x. state ! (x * gc + (k - i * gc))) i else result ! k))"
proof -
  let ?n = "length nodes" and ?row = "graph_row nodes edges i"
  have adjacent: "neighbor_indices g i = Ok ?row"
    using graph i by (simp add: neighbor_indices_def graph_built_def)
  have small: "length ?row \<le> 6" using graph(2) i by (auto simp: graph_wf_def max_cardinal_neighbors_def)
  then have count: "unat (word_of_nat (length ?row) :: u32) = length ?row"
    by (simp add: unat_of_nat take_bit_nat_eq_self)
  let ?w = "ar_sub A (ar_one A) (ar_mul A (ar_of_u32 A (word_of_nat (length ?row))) (ar_eighth A))"
  have weight: "diffusion_self_weight A (word_of_nat (length ?row)) = Ok ?w"
    using small count by (simp add: diffusion_self_weight_def max_cardinal_neighbors_def word_less_nat_alt)
  have inside: "i * gc + gc \<le> ?n * gc" using mult_le_mono1 [of "Suc i" ?n gc] i by simp
  let ?own = "map2 (\<lambda>_ v. ar_mul A v ?w) (take gc (drop (i * gc) result)) (take gc (drop (i * gc) state))"
  have own: "length ?own = gc" "\<And>j. j < gc \<Longrightarrow> ?own ! j = ar_mul A (state ! (i * gc + j)) ?w"
    using inside state result i by simp_all
  have known: "unat k < ?n" if "k \<in> set ?row" for k
    using set_graph_row [OF graph(2) i] that by simp
  obtain out where out: "rfold (add_neighbor A gc state) ?row ?own = Ok out" "length out = gc"
    "\<And>j. j < gc \<Longrightarrow> out ! j = fold (\<lambda>k acc. ar_add A acc (ar_mul A (state ! (unat k * gc + j)) (ar_eighth A))) ?row (?own ! j)"
    using add_neighbors_Ok [OF own(1) state known, of ?row A] by auto
  let ?result = "take (i * gc) result @ out @ drop (i * gc + gc) result"
  have run: "diffuse_node A g gc cancel state i result = Ok ?result"
    using run_on inside state result out(1) by (auto simp: diffuse_node_def adjacent weight row_slice_def Let_def)
  have "?result ! k = (if i * gc \<le> k \<and> k < i * gc + gc
      then stencil A (graph_row nodes edges) (\<lambda>x. state ! (x * gc + (k - i * gc))) i else result ! k)"
    if k: "k < ?n * gc" for k
    using nth_sort_segment [of "i * gc" "i * gc + gc" result k out] inside result out(2,3) own(2) k
    by (auto simp: stencil_def)
  then show ?thesis using run inside result out(2) by (intro exI [of _ ?result]) auto
qed

lemma diffusion_step_into_Ok:
  assumes graph: "graph_built nodes edges g" "graph_wf nodes edges" and "length nodes * gc \<le> usize_max"
    and state: "length state = length nodes * gc" "list_all (ar_valid A) state"
    and result: "length result = length nodes * gc"
  shows "\<exists>out. diffusion_step_into usize_max A g gc (\<lambda>_. False) state result = Ok out \<and> length out = length nodes * gc \<and>
    (\<forall>i < length nodes. \<forall>j < gc. out ! (i * gc + j) = stencil A (graph_row nodes edges) (\<lambda>x. state ! (x * gc + j)) i)"
proof -
  let ?n = "length nodes" and ?step = "diffuse_node A g gc (\<lambda>_. False) state"
  have loop: "m \<le> ?n \<Longrightarrow> \<exists>out. rfold ?step [0..<m] result = Ok out \<and> length out = ?n * gc \<and>
      (\<forall>i < m. \<forall>j < gc. out ! (i * gc + j) = stencil A (graph_row nodes edges) (\<lambda>x. state ! (x * gc + j)) i)" for m
  proof (induction m)
    case 0
    then show ?case using result by simp
  next
    case (Suc m)
    then obtain out where IH: "rfold ?step [0..<m] result = Ok out" "length out = ?n * gc"
      "\<And>i j. i < m \<Longrightarrow> j < gc \<Longrightarrow> out ! (i * gc + j) = stencil A (graph_row nodes edges) (\<lambda>x. state ! (x * gc + j)) i"
      by auto
    have m: "m < ?n" using Suc.prems by simp
    obtain out' where out': "?step m out = Ok out'" "length out' = ?n * gc"
      "\<And>k. k < ?n * gc \<Longrightarrow> out' ! k = (if m * gc \<le> k \<and> k < m * gc + gc
         then stencil A (graph_row nodes edges) (\<lambda>x. state ! (x * gc + (k - m * gc))) m else out ! k)"
      using diffuse_node_Ok [OF graph m state(1) IH(2), of "\<lambda>_. False" A] by auto
    have "out' ! (i * gc + j) = stencil A (graph_row nodes edges) (\<lambda>x. state ! (x * gc + j)) i"
      if "i < Suc m" "j < gc" for i j
    proof (cases "i = m")
      case True
      then show ?thesis using out'(3) [OF in_row_less [OF m that(2)]] that(2) by simp
    next
      case False
      then have "i < m" using that(1) by simp
      then have "i * gc + j < m * gc" by (rule in_row_less [OF _ that(2)])
      moreover have "i * gc + j < ?n * gc" using in_row_less [OF _ that(2), of i ?n] \<open>i < m\<close> m by simp
      ultimately show ?thesis using out'(3) IH(3) [OF \<open>i < m\<close> that(2)] by simp
    qed
    then show ?case using IH(1) out'(1,2) by (simp add: rfold_append)
  qed
  have valid: "find (\<lambda>i. \<not> ar_valid A (state ! i)) [0..<length state] = None"
    using state(2) by (auto simp: find_None_iff list_all_length)
  have "node_count g = ?n" using graph(1) by (simp add: node_count_def graph_built_def)
  then show ?thesis
    using loop [OF order_refl] valid assms(3) state(1) result by (simp add: diffusion_step_into_def)
qed

section \<open>Exact diffusion\<close>

lemma fold_exact:
  "fold (\<lambda>k acc. ar_add exact acc (ar_mul exact (x (unat k)) (ar_eighth exact))) ks y =
     y + (\<Sum>k\<leftarrow>ks. x (unat k)) / 8"
  by (induction ks arbitrary: y) (simp_all add: exact_def add_divide_distrib)

definition neighbors_of :: "graph_node list \<Rightarrow> directed_edge list \<Rightarrow> nat \<Rightarrow> nat set" where
  "neighbors_of nodes edges i = {k. k < length nodes \<and> joined nodes edges i k}"

lemma exact_stencil_weights:
  assumes wf: "graph_wf nodes edges" and i: "i < length nodes"
  defines "K \<equiv> neighbors_of nodes edges i"
  shows "card K \<le> 6" and "stencil exact (graph_row nodes edges) x i = x i * (1 - rat_of_nat (card K) / 8) + sum x K / 8"
proof -
  let ?row = "graph_row nodes edges i"
  have small: "length ?row \<le> 6" using wf i by (auto simp: graph_wf_def max_cardinal_neighbors_def)
  then have count: "unat (word_of_nat (length ?row) :: u32) = length ?row"
    by (simp add: unat_of_nat take_bit_nat_eq_self)
  have bound: "length nodes \<le> 2 ^ 32" using wf by (simp add: graph_wf_def nodes_ok_def)
  have "unat ` set ?row = K"
  proof
    show "unat ` set ?row \<subseteq> K" using set_graph_row [OF wf i] by (auto simp: K_def neighbors_of_def)
    show "K \<subseteq> unat ` set ?row"
    proof
      fix k assume k: "k \<in> K"
      then have "unat (word_of_nat k :: u32) = k" using bound by (simp add: unat_of_nat take_bit_nat_eq_self K_def neighbors_of_def)
      moreover from this have "word_of_nat k \<in> set ?row" using set_graph_row [OF wf i] k by (simp add: K_def neighbors_of_def)
      ultimately show "k \<in> unat ` set ?row" by (metis imageI)
    qed
  qed
  moreover have inj: "inj_on (unat :: u32 \<Rightarrow> nat) (set ?row)" by (rule inj_onI) (simp add: word_unat_eq_iff)
  ultimately have sum: "(\<Sum>k\<leftarrow>?row. f (unat k)) = sum f K" for f :: "nat \<Rightarrow> rat"
    using sum_list_distinct_conv_sum_set [OF distinct_graph_row [OF wf], of "\<lambda>k. f (unat k)"]
      sum.reindex [OF inj, of f] by (simp add: comp_def)
  have "rat_of_nat (length ?row) = (\<Sum>k\<leftarrow>?row. 1)" by (simp add: sum_list_triv)
  also have "\<dots> = (\<Sum>k\<in>K. 1)" by (rule sum)
  finally have degree: "rat_of_nat (length ?row) = rat_of_nat (card K)" by simp
  then show "card K \<le> 6" using small by simp
  show "stencil exact (graph_row nodes edges) x i = x i * (1 - rat_of_nat (card K) / 8) + sum x K / 8"
    unfolding stencil_def fold_exact sum by (simp only: exact_def arithmetic.select_convs count degree) simp
qed

lemma exact_stencil:
  assumes wf: "graph_wf nodes edges" and i: "i < length nodes"
  shows "stencil exact (graph_row nodes edges) x i =
    x i + (\<Sum>k<length nodes. if joined nodes edges i k then (x k - x i) / 8 else 0)"
proof -
  let ?K = "neighbors_of nodes edges i"
  have "stencil exact (graph_row nodes edges) x i = x i + (\<Sum>k\<in>?K. (x k - x i) / 8)"
  proof -
    have "(\<Sum>k\<in>?K. (x k - x i) / 8) = (sum x ?K - rat_of_nat (card ?K) * x i) / 8"
      by (simp only: sum_divide_distrib [symmetric] sum_subtractf sum_constant)
    moreover have "y * (1 - c / 8) + z / 8 = y + (z - c * y) / 8" for y c z :: rat
      by (simp add: diff_divide_distrib right_diff_distrib)
    ultimately show ?thesis using exact_stencil_weights(2) [OF wf i, of x] by metis
  qed
  also have "(\<Sum>k\<in>?K. (x k - x i) / 8) = (\<Sum>k<length nodes. if joined nodes edges i k then (x k - x i) / 8 else 0)"
  proof -
    have "?K = {k \<in> {..<length nodes}. joined nodes edges i k}" by (auto simp: neighbors_of_def)
    then show ?thesis by (simp only: sum.inter_filter [OF finite_lessThan])
  qed
  finally show ?thesis .
qed

text \<open>What flows from \<open>i\<close> to \<open>k\<close> arrives at \<open>k\<close>.\<close>

lemma exact_conserves:
  assumes wf: "graph_wf nodes edges"
  shows "(\<Sum>i<length nodes. stencil exact (graph_row nodes edges) x i) = (\<Sum>i<length nodes. x i)"
proof -
  let ?n = "length nodes" and ?flow = "\<lambda>i k. if joined nodes edges i k then (x k - x i) / 8 else (0 :: rat)"
  have opposite: "?flow i k = - ?flow k i" for i k
    using joined_sym [OF wf, of i k] by (simp add: minus_divide_left)
  have "(\<Sum>i<?n. \<Sum>k<?n. ?flow i k) = (\<Sum>i<?n. \<Sum>k<?n. - ?flow k i)"
    by (intro sum.cong refl) (rule opposite)
  also have "\<dots> = - (\<Sum>i<?n. \<Sum>k<?n. ?flow k i)" by (simp only: sum_negf)
  also have "(\<Sum>i<?n. \<Sum>k<?n. ?flow k i) = (\<Sum>i<?n. \<Sum>k<?n. ?flow i k)" by (rule sum.swap)
  finally have "(\<Sum>i<?n. \<Sum>k<?n. ?flow i k) = 0" by simp
  moreover have "(\<Sum>i<?n. stencil exact (graph_row nodes edges) x i) = (\<Sum>i<?n. x i + (\<Sum>k<?n. ?flow i k))"
    by (rule sum.cong) (simp_all add: exact_stencil [OF wf])
  ultimately show ?thesis by (simp add: sum.distrib)
qed

text \<open>The new value is an average of the old values at the node and its neighbours: it stays between their bounds.\<close>

lemma exact_average:
  assumes wf: "graph_wf nodes edges" and i: "i < length nodes"
    and "\<And>k. k \<in> insert i (neighbors_of nodes edges i) \<Longrightarrow> lo \<le> x k \<and> x k \<le> hi"
  shows "lo \<le> stencil exact (graph_row nodes edges) x i \<and> stencil exact (graph_row nodes edges) x i \<le> hi"
proof -
  let ?K = "neighbors_of nodes edges i"
  let ?c = "rat_of_nat (card ?K)"
  note weights = exact_stencil_weights [OF wf i]
  have c: "0 \<le> 1 - ?c / 8" using weights(1) by simp
  have K: "lo \<le> x k \<and> x k \<le> hi" if "k \<in> ?K" for k using assms(3) that by blast
  have "?c * lo \<le> sum x ?K" "sum x ?K \<le> ?c * hi"
    using sum_bounded_below [of ?K lo x] sum_bounded_above [of ?K x hi] K by simp_all
  moreover have "lo * (1 - ?c / 8) \<le> x i * (1 - ?c / 8)" "x i * (1 - ?c / 8) \<le> hi * (1 - ?c / 8)"
    using assms(3) [of i] c by (intro mult_right_mono; simp)+
  ultimately show ?thesis unfolding weights(2) by (simp add: field_simps)
qed

section \<open>Properties\<close>

text \<open>
  C28: along a validated graph the step, in whatever arithmetic, gives for every gas at every node the own
  term first and then the neighbours in increasing order of index, and does not fail or panic.
\<close>

theorem diffusion_step_is_stencil:
  assumes "validate_graph nodes edges = Ok g" and "length state = length nodes * unat gas_count"
    and "list_all (ar_valid A) state" and "length state \<le> usize_max"
  shows "\<exists>out. diffusion_step usize_max A g gas_count state = Ok out \<and> length out = length state \<and>
    (\<forall>i < length nodes. \<forall>j < unat gas_count.
      out ! (i * unat gas_count + j) = stencil A (graph_row nodes edges) (\<lambda>x. state ! (x * unat gas_count + j)) i)"
proof -
  have graph: "graph_built nodes edges g" "graph_wf nodes edges" using validate_graph_result [of nodes edges] assms(1) by auto
  have "node_count g = length nodes" using graph(1) by (simp add: node_count_def graph_built_def)
  then show ?thesis
    using diffusion_step_into_Ok [OF graph _ assms(2,3), of usize_max
        "replicate (length nodes * unat gas_count) (ar_zero A)"] assms(2,4)
    by (simp add: diffusion_step_def)
qed

lemma example_valid:
  obtains g where "validate_graph example_nodes example_edges = Ok g"
  using validate_graph_result example_wf by blast

theorem diffusion_step_is_stencil_witness:
  "\<exists>g out. validate_graph example_nodes example_edges = Ok g \<and>
     diffusion_step 1000 exact g 1 [8, 16, 0] = Ok out \<and> out ! 0 = 8"
proof -
  obtain g where g: "validate_graph example_nodes example_edges = Ok g" by (rule example_valid)
  have "length example_nodes = 3" by (simp add: example_nodes_def)
  then obtain out where out: "diffusion_step 1000 exact g 1 [8, 16, 0] = Ok out"
    "out ! 0 = stencil exact (graph_row example_nodes example_edges) (\<lambda>x. [8, 16, 0] ! x) 0"
    using diffusion_step_is_stencil [OF g, of "[8, 16, 0]" 1 exact 1000] by (force simp: exact_def)
  have "stencil exact (graph_row example_nodes example_edges) (\<lambda>x. [8, 16, 0] ! x) 0 = 8"
    unfolding stencil_def example_rows by (simp add: exact_def)
  then show ?thesis using g out by auto
qed

text \<open>
  C27: in exact arithmetic, from amounts that are not negative, a step keeps the total of every gas, and every new
  value lies between the least and the greatest old value of the same gas at the node and its neighbours; so it creates no
  value outside the extrema of a connected component, and none is negative.
\<close>

theorem exact_diffusion_conserves:
  assumes "validate_graph nodes edges = Ok g" and "length state = length nodes * unat gas_count"
    and "list_all (\<lambda>x. 0 \<le> x) state" and "length state \<le> usize_max"
  shows "\<exists>out. diffusion_step usize_max exact g gas_count state = Ok out \<and> length out = length state \<and>
    (\<forall>i < length nodes. \<forall>j < unat gas_count.
      let old = (\<lambda>k. state ! (k * unat gas_count + j)) ` insert i {k. k < length nodes \<and> joined nodes edges i k} in
      Min old \<le> out ! (i * unat gas_count + j) \<and> out ! (i * unat gas_count + j) \<le> Max old) \<and>
    (\<forall>j < unat gas_count. (\<Sum>i<length nodes. out ! (i * unat gas_count + j)) =
      (\<Sum>i<length nodes. state ! (i * unat gas_count + j)))"
proof -
  let ?gc = "unat gas_count" and ?n = "length nodes"
  have graph: "graph_built nodes edges g" "graph_wf nodes edges" using validate_graph_result [of nodes edges] assms(1) by auto
  have "list_all (ar_valid exact) state" using assms(3) by (auto simp: list_all_iff exact_def)
  then obtain out where out: "diffusion_step usize_max exact g gas_count state = Ok out" "length out = length state"
    "\<And>i j. i < ?n \<Longrightarrow> j < ?gc \<Longrightarrow>
      out ! (i * ?gc + j) = stencil exact (graph_row nodes edges) (\<lambda>x. state ! (x * ?gc + j)) i"
  proof -
    have node_count: "node_count g = ?n" using graph(1) by (simp add: node_count_def graph_built_def)
    assume valid: "list_all (ar_valid exact) state"
      and goal: "\<And>out. diffusion_step usize_max exact g gas_count state = Ok out \<Longrightarrow> length out = length state \<Longrightarrow>
        (\<And>i j. i < ?n \<Longrightarrow> j < ?gc \<Longrightarrow>
          out ! (i * ?gc + j) = stencil exact (graph_row nodes edges) (\<lambda>x. state ! (x * ?gc + j)) i) \<Longrightarrow> thesis"
    show thesis
      using diffusion_step_into_Ok [OF graph _ assms(2) valid, of usize_max "replicate (?n * ?gc) (ar_zero exact)"]
        assms(2,4) goal by (auto simp: diffusion_step_def node_count)
  qed
  have "let old = (\<lambda>k. state ! (k * ?gc + j)) ` insert i {k. k < ?n \<and> joined nodes edges i k} in
      Min old \<le> out ! (i * ?gc + j) \<and> out ! (i * ?gc + j) \<le> Max old" if "i < ?n" "j < ?gc" for i j
  proof -
    have "finite (insert i {k. k < ?n \<and> joined nodes edges i k})" by simp
    then show ?thesis
      unfolding Let_def out(3) [OF that] by (intro exact_average [OF graph(2) that(1)]) (auto simp: neighbors_of_def)
  qed
  moreover have "(\<Sum>i<?n. out ! (i * ?gc + j)) = (\<Sum>i<?n. state ! (i * ?gc + j))" if "j < ?gc" for j
    using out(3) that exact_conserves [OF graph(2), of "\<lambda>x. state ! (x * ?gc + j)"] by simp
  ultimately show ?thesis using out(1,2) by blast
qed

theorem exact_diffusion_conserves_witness:
  "\<exists>g out. validate_graph example_nodes example_edges = Ok g \<and>
     diffusion_step 1000 exact g 1 [8, 16, 0] = Ok out \<and> (\<Sum>i<3. out ! i) = 24"
proof -
  obtain g where g: "validate_graph example_nodes example_edges = Ok g" by (rule example_valid)
  have "length example_nodes = 3" by (simp add: example_nodes_def)
  then obtain out where "diffusion_step 1000 exact g 1 [8, 16, 0] = Ok out"
    "(\<Sum>i<3. out ! i) = (\<Sum>i<3. [8, 16, 0 :: rat] ! i)"
    using exact_diffusion_conserves [OF g, of "[8, 16, 0]" 1 1000] by force
  moreover have "(\<Sum>i<3. [8, 16, 0 :: rat] ! i) = 24" by (simp add: numeral_3_eq_3)
  ultimately show ?thesis using g by auto
qed

end
