(* ===== verification/Combustion.thy ===== *)
theory Combustion
  imports Native_Reactions
begin

text \<open>What hydrogen and tritium fires do to the gases and the heat of a mixture, in exact arithmetic.\<close>

lemma float_constants:
  "f32_value 0x3F000000 = 1/2" "f32_value 0x40000000 = 2" "f32_value 0x41200000 = 10" "f32_value 0x4A2AE600 = 2800000"
  "f32_value 0 = 0"
  by (simp_all add: f32_value_def magnitude_value_def f32_negative_def)

lemma burned_positive:
  fixes fuel oxygen :: rat
  assumes "0 \<le> fuel" and "0 \<le> oxygen" and "b = min (min (min (fuel / 2) (oxygen / (2 * 10))) fuel) (oxygen / (1 / 2))" "\<not> b \<le> 0"
  shows "0 < b" "b \<le> fuel / 2" "b * 10 \<le> oxygen / 2"
  using assms by (auto simp: min_def split: if_splits)

lemma exact_simps [simp]:
  "fo_const exact_numbers = f32_value" "fo_add exact_numbers = (+)" "fo_sub exact_numbers = (-)" "fo_mul exact_numbers = (*)"
  "fo_div exact_numbers = (/)" "fo_max exact_numbers = max" "fo_min exact_numbers = min" "fo_less exact_numbers = (<)"
  "fo_less_eq exact_numbers = (\<le>)" "fo_is_finite exact_numbers = (\<lambda>_. True)"
  by (simp_all add: exact_numbers_def)

lemma native_gas_index_inj:
  assumes "gas_registry_try_new gs = Ok registry"
    and "native_gas_index registry k = Ok i" and "native_gas_index registry k' = Ok j" and "k \<noteq> k'"
  shows "i \<noteq> j"
proof
  assume "i = j"
  obtain g g' where g: "gas_by_key registry k = Some g" "gas_by_key registry k' = Some g'"
    "i = unat (gas_number (gm_id g))" "j = unat (gas_number (gm_id g'))"
    using assms(2,3) by (auto simp: native_gas_index_def split: option.splits)
  note lookup = built_gas_lookup [OF assms(1)]
  have g': "g \<in> set gs" "gm_key g = k" "g' \<in> set gs" "gm_key g' = k'"
    using g(1,2) lookup(2) by blast+
  have same: "gm_id g = gm_id g'" using g(3,4) \<open>i = j\<close> by (cases "gm_id g"; cases "gm_id g'") (simp add: word_unat_eq_iff)
  have "gas_by_id registry (gm_id g') = Some g" by (rule lookup(1) [THEN iffD2]) (simp add: g' same)
  moreover have "gas_by_id registry (gm_id g') = Some g'" by (rule lookup(1) [THEN iffD2]) (simp add: g')
  ultimately show False using assms(4) g' by simp
qed

lemma combust_fuel_exact:
  assumes run: "combust_fuel exact_numbers fuel_key kind gases t v m registry = Ok (Some vs, gases', t')"
    and registry: "gas_registry_try_new gs = Ok registry" and row: "length gases = world_gas_slots"
    and amounts: "\<forall>x \<in> set gases. 0 \<le> x" and key: "fuel_key \<in> {''hydrogen'', ''tritium''}"
  shows "\<exists>oxygen fuel water b. native_gas_index registry ''o2'' = Ok oxygen \<and> native_gas_index registry fuel_key = Ok fuel \<and>
    native_gas_index registry ''water_vapor'' = Ok water \<and> distinct [oxygen, fuel, water] \<and> 0 < b \<and> b \<le> gases ! fuel \<and> b / 2 \<le> gases ! oxygen \<and>
    gases' = gases[fuel := gases ! fuel - b, oxygen := gases ! oxygen - b / 2, water := gases ! water + b] \<and>
    (let old = native_heat_capacity exact_numbers gases m registry; new = native_heat_capacity exact_numbers gases' m registry
     in t' = (if f32_value minimum_heat_capacity_value < new then (t * old + 2800000 * b) / new else t))"
proof -
  have o: "native_gas_index registry ''o2'' \<noteq> Panic" "native_gas_index registry fuel_key \<noteq> Panic" "native_gas_index registry ''water_vapor'' \<noteq> Panic"
    using native_gas_index_small(1) [OF registry] by blast+
  obtain oxygen fuel water where i: "native_gas_index registry ''o2'' = Ok oxygen" "native_gas_index registry fuel_key = Ok fuel"
    "native_gas_index registry ''water_vapor'' = Ok water"
    using run o unfolding combust_fuel_def Let_def by (auto simp del: exact_simps)
  have small: "oxygen < length gases" "fuel < length gases" "water < length gases"
    using i native_gas_index_small(2) [OF registry] row by simp_all
  have distinct: "oxygen \<noteq> fuel" "oxygen \<noteq> water" "fuel \<noteq> water"
    using native_gas_index_inj [OF registry i(1,2)] native_gas_index_inj [OF registry i(1,3)] native_gas_index_inj [OF registry i(2,3)] key by auto
  have nonneg: "0 \<le> gases ! fuel" "0 \<le> gases ! oxygen" using amounts small by simp_all
  define b where "b = min (min (min (gases ! fuel / 2) (gases ! oxygen / (2 * 10))) (gases ! fuel)) (gases ! oxygen / (1 / 2))"
  note run' = run [unfolded combust_fuel_def Let_def i rbind.simps amount_at_Ok [OF small(1)] amount_at_Ok [OF small(2)] exact_simps float_constants,
     folded b_def]
  have pos: "\<not> b \<le> 0" using run' by (auto split: if_splits)
  note b = burned_positive [OF nonneg b_def pos]
  have done_with: "gases' = gases[fuel := gases ! fuel - b, oxygen := gases ! oxygen - b / 2, water := gases ! water + b]"
    "(let old = native_heat_capacity exact_numbers gases m registry; new = native_heat_capacity exact_numbers gases' m registry
      in t' = (if f32_value minimum_heat_capacity_value < new then (t * old + 2800000 * b) / new else t))"
    using run' b small distinct nonneg pos by (auto simp: Let_def split: if_splits native_reaction_kind.splits)
  show ?thesis
    by (rule exI [of _ oxygen], rule exI [of _ fuel], rule exI [of _ water], rule exI [of _ b])
      (use i distinct b done_with in \<open>simp add: Let_def\<close>)
qed

text \<open>
  C12: in exact arithmetic a burn of hydrogen or tritium takes from the fuel what it adds to the water vapor and
  half of that from the oxygen, never more than there is, and leaves every other gas alone; the thermal energy grows
  by exactly 2800000 per mole burned whenever the new heat capacity is not negligible.
\<close>

theorem combustion_balances:
  assumes "gas_registry_try_new gs = Ok registry" and "length gases = world_gas_slots" and "\<forall>x \<in> set gases. 0 \<le> x"
    and "kind \<in> {HydrogenReaction, TritiumReaction}"
    and "execute_native exact_numbers kind gases t v m registry = (Ok (Some vs), gases', t')"
  shows "\<exists>oxygen fuel water b. native_gas_index registry ''o2'' = Ok oxygen \<and>
    native_gas_index registry (if kind = HydrogenReaction then ''hydrogen'' else ''tritium'') = Ok fuel \<and>
    native_gas_index registry ''water_vapor'' = Ok water \<and> distinct [oxygen, fuel, water] \<and>
    0 < b \<and> b \<le> gases ! fuel \<and> b / 2 \<le> gases ! oxygen \<and>
    gases' = gases[fuel := gases ! fuel - b, oxygen := gases ! oxygen - b / 2, water := gases ! water + b] \<and>
    (let old = native_heat_capacity exact_numbers gases m registry; new = native_heat_capacity exact_numbers gases' m registry
     in if f32_value minimum_heat_capacity_value < new then t' * new = t * old + 2800000 * b else t' = t)"
proof -
  let ?key = "if kind = HydrogenReaction then ''hydrogen'' else ''tritium''"
  have "combust_fuel exact_numbers ?key kind gases t (if kind = HydrogenReaction then 0 else v) m registry = Ok (Some vs, gases', t')"
    using assms(4,5) by (auto simp: execute_native_def hydrogen_reaction_def tritium_reaction_def float_constants
        split: result.splits prod.splits if_splits)
  moreover have "?key \<in> {''hydrogen'', ''tritium''}" by simp
  ultimately have "\<exists>oxygen fuel water b. native_gas_index registry ''o2'' = Ok oxygen \<and> native_gas_index registry ?key = Ok fuel \<and>
    native_gas_index registry ''water_vapor'' = Ok water \<and> distinct [oxygen, fuel, water] \<and> 0 < b \<and> b \<le> gases ! fuel \<and> b / 2 \<le> gases ! oxygen \<and>
    gases' = gases[fuel := gases ! fuel - b, oxygen := gases ! oxygen - b / 2, water := gases ! water + b] \<and>
    (let old = native_heat_capacity exact_numbers gases m registry; new = native_heat_capacity exact_numbers gases' m registry
     in t' = (if f32_value minimum_heat_capacity_value < new then (t * old + 2800000 * b) / new else t))"
    by (rule combust_fuel_exact [OF _ assms(1-3)])
  then
  obtain oxygen fuel water b where result: "native_gas_index registry ''o2'' = Ok oxygen" "native_gas_index registry ?key = Ok fuel"
    "native_gas_index registry ''water_vapor'' = Ok water" "distinct [oxygen, fuel, water]" "0 < b" "b \<le> gases ! fuel"
    "b / 2 \<le> gases ! oxygen"
    "gases' = gases[fuel := gases ! fuel - b, oxygen := gases ! oxygen - b / 2, water := gases ! water + b]"
    and heat: "let old = native_heat_capacity exact_numbers gases m registry; new = native_heat_capacity exact_numbers gases' m registry
      in t' = (if f32_value minimum_heat_capacity_value < new then (t * old + 2800000 * b) / new else t)"
    by (elim exE conjE)
  have "0 < f32_value minimum_heat_capacity_value"
    by (simp add: minimum_heat_capacity_value_def f32_value_def magnitude_value_def f32_negative_def)
  then have "let old = native_heat_capacity exact_numbers gases m registry; new = native_heat_capacity exact_numbers gases' m registry
     in if f32_value minimum_heat_capacity_value < new then t' * new = t * old + 2800000 * b else t' = t"
    using heat by (auto simp: Let_def)
  with result show ?thesis
    by (intro exI [of _ oxygen] exI [of _ fuel] exI [of _ water] exI [of _ b] conjI)
qed

definition fuel_registry :: gas_registry where
  "fuel_registry = \<lparr>gr_gases = [example_gas 0 ''o2'', example_gas 1 ''hydrogen'', example_gas 2 ''water_vapor''],
     gr_ids_by_key = [''o2'' \<mapsto> GasId 0, ''hydrogen'' \<mapsto> GasId 1, ''water_vapor'' \<mapsto> GasId 2],
     gr_specific_heats = [0x41A00000, 0x41A00000, 0x41A00000]\<rparr>"

lemma fuel_registry_built:
  "gas_registry_try_new [example_gas 0 ''o2'', example_gas 1 ''hydrogen'', example_gas 2 ''water_vapor''] = Ok fuel_registry"
proof -
  have finite: "f32_is_finite 0x41A00000" "f32_is_finite 0" by (simp_all add: f32_is_finite_def)
  have keys: "\<not> f32_less_eq 0x41A00000 0" "\<not> f32_less 0 0" "f32_eq 0 0"
    by (simp_all add: f32_less_eq_def f32_less_def f32_eq_def f32_is_nan_def f32_key_def)
  show ?thesis
    by (simp add: gas_registry_try_new_def u32_try_from_def u32_max_def world_gas_slots_def example_gas_def
        less_eq_gas_id_def register_gas_def validate_gas_def finite keys fuel_registry_def)
qed

definition burning :: "rat list" where
  "burning = [20, 4] @ replicate 30 0"

lemma burning_run:
  "execute_native exact_numbers HydrogenReaction burning 300 0 0 fuel_registry =
     (Ok (Some [1, 294400 / 47, 0, 0]), [39 / 2, 3, 1] @ replicate 29 0, 294400 / 47)"
proof -
  have heat: "gr_specific_heats fuel_registry = [0x41A00000, 0x41A00000, 0x41A00000]" "f32_value 0x41A00000 = 20" "f32_value minimum_heat_capacity_value < 470"
    by (simp_all add: fuel_registry_def minimum_heat_capacity_value_def f32_value_def magnitude_value_def f32_negative_def)
  have index: "native_gas_index fuel_registry ''o2'' = Ok 0" "native_gas_index fuel_registry ''hydrogen'' = Ok 1"
    "native_gas_index fuel_registry ''water_vapor'' = Ok 2"
    by (simp_all add: native_gas_index_def gas_by_key_def gas_by_id_def fuel_registry_def vec_get_def example_gas_def)
  show ?thesis
    by (simp add: execute_native_def hydrogen_reaction_def combust_fuel_def index burning_def float_constants Let_def heat
        native_heat_capacity_def exact_numbers_def numeral_eq_Suc)
qed

theorem combustion_balances_witness:
  "\<exists>b. 0 < b \<and> b \<le> 4 \<and> ([39 / 2, 3, 1] @ replicate 29 0 :: rat list) ! 1 = 4 - b"
proof -
  have "native_gas_index fuel_registry ''hydrogen'' = Ok 1"
    by (simp add: native_gas_index_def gas_by_key_def gas_by_id_def fuel_registry_def vec_get_def example_gas_def)
  then show ?thesis
    using combustion_balances [OF fuel_registry_built _ _ _ burning_run]
    by (auto simp: burning_def world_gas_slots_def)
qed

theorem native_reactions_leave_valid_gases_witness:
  "execute_native exact_numbers HydrogenReaction burning 300 0 0 fuel_registry =
     (Ok (Some [1, 294400 / 47, 0, 0]), [39 / 2, 3, 1] @ replicate 29 0, 294400 / 47) \<and>
   list_all (\<lambda>x. 0 \<le> x) ([39 / 2, 3, 1] @ replicate 29 0 :: rat list)"
  using native_reactions_leave_valid_gases [OF fuel_registry_built, of burning exact_numbers HydrogenReaction 300 0 0]
  unfolding burning_run by (simp add: burning_def world_gas_slots_def float_constants list_all_iff)

end
