(* ===== verification/Spec2Isabelle.thy ===== *)
theory Spec2Isabelle
  imports Topology_Updates Stage_Components Indexed_Transaction Versioned_Store Server_Frontier
    Wire_Callback Wire_Turf Wire_Command Wire_Mixture Wire_Stage World_Batches Command_Runs Diffusion_Step Combustion
begin

text \<open>
  Verification development for Dogmos, the atmospherics service of a multiplayer game: a server
  process (\<^verbatim>\<open>crates/dogmos-server\<close>) owns a world of turfs and gas mixtures (\<^verbatim>\<open>crates/dogmos-core\<close>),
  and a client library inside the game engine (\<^verbatim>\<open>crates/dogmos-byond\<close>) drives it over a local
  socket with the protocol of \<^verbatim>\<open>crates/dogmos-protocol\<close>.

  \<^bold>\<open>The parts and how they interact.\<close> A client frame is read by the transport, checked by the
  session and decoded by the protocol; the dispatch calls the service, the service calls the world,
  the world keeps the topology, the frontier of active turfs and the mixture records. The stages of a
  tick run over the frontier in resumable chunks and publish their results through transactions and
  versioned records.

  \<^item> \<open>Dogmos_Prelude\<close> and \<open>Bitset\<close>: results with errors and panics, vectors with Rust's bounds
    checks, lists, maps, runs of operations, bit sets in vectors of words.
  \<^item> \<open>Slot_Index\<close> (\<^verbatim>\<open>slot_index.rs\<close>): \<open>SlotIndex\<close> and \<open>SlotSet\<close>, with the epoch trick of \<open>clear\<close>.
  \<^item> \<open>Topology\<close>, \<open>Topology_Graph\<close>, \<open>Topology_Updates\<close> (\<^verbatim>\<open>topology.rs\<close>): the packed rows of gas and heat
    neighbours, their view as a symmetric graph, and what each update does to that graph.
  \<^item> \<open>Frontier_State\<close> (\<^verbatim>\<open>frontier.rs\<close>): uploads in parts, commits, incremental changes with lazy
    removal and compaction. \<open>World_Frontier\<close> (\<^verbatim>\<open>world.rs\<close>): the entry points with the stage guard and
    the handle checks.
  \<^item> \<open>Stage_Components\<close> (\<^verbatim>\<open>world.rs\<close>): the resumable discovery of connected components. One call of
    \<open>component_work\<close> is a unit of the discovery, or the last unit of processing a component that is ready;
    the other units of that processing leave the discovery alone (\<open>stage_unit\<close>), and what they compute is not modelled.
  \<^item> \<open>Indexed_Transaction\<close> (\<^verbatim>\<open>transaction.rs\<close>): the candidates of a stage by handle.
    \<open>Versioned_Store\<close> (\<^verbatim>\<open>world/versioned.rs\<close>): records with a pending value under a shared
    publication; an \<open>Arc\<close> of a publication is an address in a list of statuses.
  \<^item> \<open>Wire_Bytes\<close>, \<open>Wire_Payload\<close>, \<open>Wire_Records\<close>: integers, handles, scalars and counted payloads.
    \<open>Wire_Frame\<close> (header, frame, handshake), \<open>Wire_Frontier\<close>, \<open>Wire_Callback\<close>, \<open>Wire_Turf\<close>, \<open>Wire_Command\<close>,
    \<open>Wire_Mixture\<close>, \<open>Wire_Stage\<close> (\<^verbatim>\<open>dogmos-protocol/src/lib.rs\<close>, \<^verbatim>\<open>continuation_wire.rs\<close>,
    \<^verbatim>\<open>telemetry_wire.rs\<close>): the messages. \<open>Wire_Transport\<close> (\<^verbatim>\<open>transport.rs\<close>): frames on a connection.
  \<^item> \<open>Server_Session\<close> and \<open>Server_Frontier\<close> (\<^verbatim>\<open>dogmos-server/src/lib.rs\<close>, \<^verbatim>\<open>state.rs\<close>): the session
    of the server, its dispatch and the frontier operations from the bytes of the request to the
    bytes of the response.

  \<^item> \<open>Float32\<close>: IEEE single precision on the 32 bits of the number, rounding to nearest even written
    out over rationals; the operations the physics uses come as the record \<open>float_ops\<close>, with \<open>single\<close> for
    the arithmetic of the program and \<open>exact_numbers\<close> for rationals without rounding.
  \<^item> \<open>Gas_Metadata\<close> (\<^verbatim>\<open>metadata.rs\<close>), \<open>Reaction_Metadata\<close> and \<open>Native_Reactions\<close> (\<^verbatim>\<open>reactions.rs\<close>): the
    registries with their validation, the tests of a reaction and the native reactions. \<open>Combustion\<close>: what
    a fire does in exact arithmetic.
  \<^item> \<open>Diffusion_Graph\<close> and \<open>Diffusion_Step\<close> (\<^verbatim>\<open>numerics/diffusion.rs\<close>): the packed graph of gas exchange
    and one step over it as a stencil on the rows.
  \<^item> \<open>World_Continuations\<close>, \<open>World_State\<close>, \<open>World_Lifecycle\<close>, \<open>World_Reactions\<close> (\<^verbatim>\<open>world.rs\<close>,
    \<^verbatim>\<open>world/ownership.rs\<close>): the records of the world, the lifecycle and adjacency batches with their
    validation and application, reaction sequences with callbacks, waiting continuations and events.
    \<open>World_Invariant\<close> states what holds of a world at all times; \<open>World_Batches\<close>, \<open>World_Projection\<close>,
    \<open>World_Mixtures\<close>, \<open>World_Registration\<close>, \<open>World_Turfs\<close>, \<open>World_Graph\<close>, \<open>World_Adjacency\<close> and
    \<open>World_Frames\<close> prove that each batch keeps it, what a batch that succeeds did, and what it left
    alone. \<open>World_Sequences\<close> does the same for reactions, resumptions and cancellations. \<open>World_Runs\<close>
    puts the requests on registries, mixtures, turfs, connections, heat, reactions and events into one step
    relation (\<open>world_request\<close>) and proves what holds of all its runs. Stage chunks and frontier requests are not in
    that relation: no stage is active in a run, and the frontier requests are those of \<open>World_Frontier\<close>, over the part
    of the world that they read.
  \<^item> \<open>Float64\<close> and \<open>World_Commands\<close> (\<^verbatim>\<open>world.rs\<close>): the commands on mixtures with their arithmetic, where the
    code widens to double precision as there, the upload of mixture states and the equalization of a pipe
    network. \<open>World_Changes\<close> proves for each what it may change; \<open>Command_Runs\<close> states it after any run.

  \<^bold>\<open>Reading the model.\<close> A Rust struct is a record, an enum a datatype, \<open>u32\<close> and \<open>u64\<close> are words, \<open>usize\<close>
  is \<open>nat\<close> with the largest value as a parameter where the code checks it. A \<open>Result\<close> is \<open>Ok\<close> or \<open>Err\<close>; a
  panic (an index out of range, an \<open>expect\<close> that fails) is the third value \<open>Panic\<close>, so that its
  absence is a theorem and not an assumption. A method that changes its receiver also when it fails
  returns the result and the new state. Every \<open>try_reserve\<close> asks the parameter \<open>alloc\<close>. A hash map
  is an association list or a finite map, a scratch set a set. Floating-point numbers are the bits they
  travel as; a number in double precision is its sign and its value, rounded after every operation.

  \<^bold>\<open>What the lemmas show.\<close> For the data structures: an invariant that every operation keeps, the
  absence of panics, and the agreement with a simple abstract value (a map from slots, a graph, a
  list, a map of visible records). For the wire formats: a byte sequence is decoded exactly when it
  is the encoding of a well-formed value, so decoding is total and canonical, or the exact exceptions.
  For the component discovery of the stages: completion after a stated number of its units and the meaning of the result.
  For the mixtures: which records a command may change, that each change is one revision, and that a failure
  changes nothing. For the server: responses that match the requests in order, requests executed at most once, and the upload of a
  frontier end to end.

  \<^bold>\<open>Bounds.\<close> The frame reader is bounded by the control payload of 2^20 bytes. Component
  discovery is iterated at most ten units per active turf: one as a seed, six neighbours and one step
  to the next turf, two per component; \<open>Stage_Components\<close> shows that this is enough. The units that the stage spends on
  processing a component come on top of that and are not bounded here.

  \<^bold>\<open>Not modelled.\<close> The physics of the stages over turfs (diffusion between records, equalization, heat) and the
  resumable stage loop around the modelled parts, with the capture, computation and publication of a component and
  its errors. Of an arm of the dispatch that is a parameter only its answer is seen, so that it can answer once at
  most. The capacities of vectors and sets: whether a reservation fails is a free parameter. Sockets, threads,
  process identity, memory and process metrics, size estimates and diagnostics are input and output.
  The older in-process library under \<^verbatim>\<open>src/src\<close> and the client library are glue to the game engine; of
  the service state only the frontier operations are modelled.
\<close>

end
